(* ===== verification/Prelude.thy ===== *)
theory Prelude
  imports Main "HOL-Library.Word"
begin

text \<open>
  Shared vocabulary of the development: the integer typedefs of
  \<^verbatim>\<open>src/src/typedefs.h\<close>, checked access to arrays and vectors (an access out of range is a
  value, never an unspecified list element), and the few generic facts about lists, maps and
  words the component theories rely on.
\<close>

unbundle bit_operations_syntax

section \<open>Machine integers\<close>

text \<open>\<^verbatim>\<open>src/src/typedefs.h\<close>: the fixed-width unsigned types. Signed values that never leave
  their range (indices, word indexes) are \<open>int\<close>.\<close>

type_synonym u8 = "8 word"
type_synonym u16 = "16 word"
type_synonym u32 = "32 word"
type_synonym u64 = "64 word"
type_synonym s32 = int

section \<open>Rewrite collections\<close>

named_theorems bit_rules \<open>bitwise facts about the word operations of the model\<close>
named_theorems wf_rules \<open>well-formedness facts about the model's state\<close>
named_theorems reg_rules \<open>what the register maps of a generated script hold\<close>

section \<open>Checked access to arrays and vectors\<close>

text \<open>\<open>xs[i]\<close> of the source: \<open>None\<close> stands for an access out of bounds, which has no defined
  value in C++.\<close>

definition at_opt :: "'a list \<Rightarrow> nat \<Rightarrow> 'a option" where
  "at_opt xs i = (if i < length xs then Some (xs ! i) else None)"

lemma at_opt_Some [simp]: "i < length xs \<Longrightarrow> at_opt xs i = Some (xs ! i)"
  by (simp add: at_opt_def)

lemma at_opt_None [simp]: "length xs \<le> i \<Longrightarrow> at_opt xs i = None"
  by (simp add: at_opt_def)

lemma at_opt_eq_Some_iff: "at_opt xs i = Some x \<longleftrightarrow> i < length xs \<and> xs ! i = x"
  by (auto simp: at_opt_def)

lemma at_opt_eq_None_iff: "at_opt xs i = None \<longleftrightarrow> length xs \<le> i"
  by (auto simp: at_opt_def)

section \<open>Lists\<close>

text \<open>Traversing a list with an operation that may be undefined.\<close>

primrec map_opt :: "('a \<Rightarrow> 'b option) \<Rightarrow> 'a list \<Rightarrow> 'b list option" where
  "map_opt f [] = Some []"
| "map_opt f (x # xs) =
     (case f x of None \<Rightarrow> None | Some y \<Rightarrow> map_option ((#) y) (map_opt f xs))"

lemma map_opt_Some: "(\<And>x. x \<in> set xs \<Longrightarrow> f x = Some (g x)) \<Longrightarrow> map_opt f xs = Some (map g xs)"
  by (induction xs) auto

lemma map_opt_length: "map_opt f xs = Some ys \<Longrightarrow> length ys = length xs"
  by (induction xs arbitrary: ys) (auto split: option.splits)

lemma map_opt_nth:
  "map_opt f xs = Some ys \<Longrightarrow> i < length xs \<Longrightarrow> f (xs ! i) = Some (ys ! i)"
proof (induction xs arbitrary: ys i)
  case Nil
  then show ?case by simp
next
  case (Cons x xs)
  then show ?case by (cases i) (auto split: option.splits)
qed

text \<open>\<open>boost::adaptors::indexed(n)\<close>: the elements paired with their indices.\<close>

definition indexed :: "nat \<Rightarrow> 'a list \<Rightarrow> (nat \<times> 'a) list" where
  "indexed n xs = zip [n..<n + length xs] xs"

lemma indexed_Nil [simp]: "indexed n [] = []"
  by (simp add: indexed_def)

lemma indexed_Cons [simp]: "indexed n (x # xs) = (n, x) # indexed (Suc n) xs"
  by (simp add: indexed_def upt_rec)

lemma length_indexed [simp]: "length (indexed n xs) = length xs"
  by (simp add: indexed_def)

lemma nth_indexed [simp]: "i < length xs \<Longrightarrow> indexed n xs ! i = (n + i, xs ! i)"
  by (simp add: indexed_def)

lemma map_snd_indexed [simp]: "map snd (indexed n xs) = xs"
  by (simp add: indexed_def)

lemma map_fst_indexed [simp]: "map fst (indexed n xs) = [n..<n + length xs]"
  by (simp add: indexed_def)

lemma set_indexed: "set (indexed n xs) = {(n + i, xs ! i) | i. i < length xs}"
  by (force simp: indexed_def set_zip)

lemma in_set_indexed_iff:
  "(i, x) \<in> set (indexed n xs) \<longleftrightarrow> n \<le> i \<and> i < n + length xs \<and> xs ! (i - n) = x"
  by (auto simp: set_indexed intro: exI [of _ "i - n"])

section \<open>Sums of errors and values\<close>

text \<open>A thrown exception is the left summand.\<close>

definition bind_err :: "'e + 'a \<Rightarrow> ('a \<Rightarrow> 'e + 'b) \<Rightarrow> 'e + 'b" where
  "bind_err m k = (case m of Inl e \<Rightarrow> Inl e | Inr x \<Rightarrow> k x)"

lemma bind_err_simps [simp]: "bind_err (Inl e) k = Inl e" "bind_err (Inr x) k = k x"
  by (simp_all add: bind_err_def)

primrec map_err :: "('a \<Rightarrow> 'e + 'b) \<Rightarrow> 'a list \<Rightarrow> 'e + 'b list" where
  "map_err f [] = Inr []"
| "map_err f (x # xs) = bind_err (f x) (\<lambda>y. bind_err (map_err f xs) (\<lambda>ys. Inr (y # ys)))"

lemma map_err_Inr: "(\<And>x. x \<in> set xs \<Longrightarrow> f x = Inr (g x)) \<Longrightarrow> map_err f xs = Inr (map g xs)"
  by (induction xs) auto

lemma map_err_nth:
  "map_err f xs = Inr ys \<Longrightarrow> length ys = length xs \<and> (\<forall>i < length xs. f (xs ! i) = Inr (ys ! i))"
proof (induction xs arbitrary: ys)
  case Nil
  then show ?case by simp
next
  case (Cons x xs)
  then obtain y ys' where "f x = Inr y" "map_err f xs = Inr ys'" "ys = y # ys'"
    by (auto simp: bind_err_def split: sum.splits)
  with Cons.IH [of ys'] show ?case by (auto simp: nth_Cons split: nat.splits)
qed

section \<open>Words\<close>

lemma bit_word_beyond [simp]: "LENGTH('a::len) \<le> n \<Longrightarrow> \<not> bit (w :: 'a word) n"
  by (metis bit_imp_le_length leD)

lemma word_eqI_bits: "(\<And>n. n < LENGTH('a) \<Longrightarrow> bit x n = bit y n) \<Longrightarrow> x = y"
  for x y :: "'a::len word"
  by (rule bit_word_eqI) simp

lemma bit_push_one [bit_rules]:
  "n < LENGTH('a) \<Longrightarrow> bit (push_bit n (1 :: 'a::len word)) j \<longleftrightarrow> j = n"
  by (auto simp: push_bit_of_1 bit_exp_iff)

end
