(* ===== verification/Bits.thy ===== *)
theory Bits
  imports Prelude
begin

text \<open>
  The bit primitives of \<^verbatim>\<open>src/src/analysis/a2/util/bits.h\<close> (the portable branches, without the
  BMI2 and SSE4.2 intrinsics): gathering and scattering bits under a mask, the population count
  and the number of trailing zeroes. Each is tied to a specification that speaks of the
  positions of the set bits only.
\<close>

section \<open>Specification: the set bits of a word, in ascending order\<close>

definition positions :: "u32 \<Rightarrow> nat list" where
  "positions m = filter (bit m) [0..<32]"

primrec of_bits :: "bool list \<Rightarrow> u32" where
  "of_bits [] = 0"
| "of_bits (b # bs) = of_bool b + 2 * of_bits bs"

primrec spread :: "nat list \<Rightarrow> nat \<Rightarrow> u32 \<Rightarrow> u32" where
  "spread [] k w = 0"
| "spread (p # ps) k w = (if bit w k then 2 ^ p else 0) + spread ps (Suc k) w"

definition gather_spec :: "u32 \<Rightarrow> u32 \<Rightarrow> u32" where
  "gather_spec w m = of_bits (map (bit w) (positions m))"

definition scatter_spec :: "u32 \<Rightarrow> u32 \<Rightarrow> u32" where
  "scatter_spec w m = spread (positions m) 0 w"

lemma sorted_positions: "sorted (positions m)" "distinct (positions m)"
  by (simp_all add: positions_def sorted_wrt_filter)

lemma set_positions: "set (positions m) = {i. bit m i}"
  by (auto simp: positions_def dest: bit_imp_le_length)

lemma length_positions: "length (positions m) \<le> 32"
  using length_filter_le [of "bit m" "[0..<32]"] by (simp add: positions_def)

lemma positions_0 [simp]: "positions 0 = []"
  by (simp add: positions_def)

lemma positions_eq_Nil_iff [simp]: "positions m = [] \<longleftrightarrow> m = 0"
  by (metis bit_word_eqI empty_Collect_eq positions_0 set_empty set_positions bit_0_eq bot_fun_def)

lemma positions_unique:
  assumes "sorted xs" "distinct xs" "set xs = {i. bit m i}"
  shows "positions m = xs"
  by (rule sorted_distinct_set_unique) (use assms sorted_positions set_positions in auto)

section \<open>The lowest set bit\<close>

definition lowest :: "u32 \<Rightarrow> nat" where
  "lowest m = hd (positions m)"

lemma lowest_bit:
  assumes "m \<noteq> 0"
  shows "bit m (lowest m)" and "lowest m < 32" and "\<And>j. j < lowest m \<Longrightarrow> \<not> bit m j"
proof -
  from assms obtain p ps where ps: "positions m = p # ps"
    by (meson neq_Nil_conv positions_eq_Nil_iff)
  then have p: "lowest m = p" "p \<in> set (positions m)" by (simp_all add: lowest_def)
  then show b: "bit m (lowest m)" by (simp add: set_positions)
  then show "lowest m < 32" using bit_imp_le_length by force
  fix j assume "j < lowest m"
  moreover have "\<forall>q \<in> set (positions m). p \<le> q"
    using sorted_positions(1) [of m] by (simp add: ps)
  ultimately show "\<not> bit m j" using p set_positions [of m] by auto
qed

lemma bit_minus_one:
  fixes m :: u32
  assumes "bit m n" and "\<And>j. j < n \<Longrightarrow> \<not> bit m j"
  shows "bit (m - 1) k \<longleftrightarrow> k < 32 \<and> (k < n \<or> n < k \<and> bit m k)"
proof -
  define r where "r = m AND NOT (mask (Suc n))"
  have n: "n < 32" using assms(1) bit_imp_le_length by force
  have m: "m = r OR 2 ^ n"
  proof (rule word_eqI_bits)
    fix j assume "j < LENGTH(32)"
    then show "bit m j = bit (r OR 2 ^ n) j"
      using assms n less_linear [of j n]
      by (auto simp: r_def bit_simps less_Suc_eq)
  qed
  have "r AND 2 ^ n = 0"
    by (rule word_eqI_bits) (auto simp: r_def bit_simps)
  then have "m = r + 2 ^ n" using m by (simp add: disjunctive_add_eq_or)
  then have "m - 1 = r + mask n" by (simp add: mask_eq_exp_minus_1)
  moreover have "r AND mask n = 0"
    by (rule word_eqI_bits) (auto simp: r_def bit_simps)
  ultimately have "m - 1 = r OR mask n" by (simp add: disjunctive_add_eq_or)
  then show ?thesis using n
    by (auto simp: r_def bit_simps not_less less_Suc_eq_le)
qed

lemma and_minus_lowest: "m \<noteq> 0 \<Longrightarrow> m AND - m = 2 ^ lowest m"
proof (rule word_eqI_bits)
  fix k assume m: "m \<noteq> 0" and k: "k < LENGTH(32)"
  note low = lowest_bit [OF m]
  have "bit (- m) k \<longleftrightarrow> \<not> bit (m - 1) k"
    using k by (simp add: minus_eq_not_minus_1 bit_simps)
  also have "\<dots> \<longleftrightarrow> \<not> (k < lowest m \<or> lowest m < k \<and> bit m k)"
    using k bit_minus_one [OF low(1,3)] by simp
  finally show "bit (m AND - m) k \<longleftrightarrow> bit (2 ^ lowest m :: u32) k"
    using k low less_linear [of k "lowest m"] by (auto simp: bit_simps)
qed

lemma positions_clear_lowest:
  assumes "m \<noteq> 0"
  shows "positions m = lowest m # positions (m XOR (m AND - m))"
proof (rule positions_unique)
  let ?m = "m XOR (m AND - m)"
  have b: "bit ?m i \<longleftrightarrow> bit m i \<and> i \<noteq> lowest m" for i
    using lowest_bit(1,2) [OF assms] by (auto simp: and_minus_lowest [OF assms] bit_simps)
  have above: "lowest m < i" if "bit ?m i" for i
    using that lowest_bit(3) [OF assms, of i] b by (metis linorder_neqE_nat)
  show "sorted (lowest m # positions ?m)"
    using sorted_positions(1) [of ?m] above by (auto simp: set_positions less_imp_le)
  show "distinct (lowest m # positions ?m)"
    using sorted_positions(2) [of ?m] b by (auto simp: set_positions)
  show "set (lowest m # positions ?m) = {i. bit m i}"
    using lowest_bit(1) [OF assms] b by (auto simp: set_positions)
qed

section \<open>bit\_gather and bit\_scatter\<close>

text \<open>The loops, on \<open>(m, z, b)\<close>: each round takes the lowest bit \<open>i\<close> of \<open>m\<close>.\<close>

function bit_gather_loop :: "u32 \<Rightarrow> u32 \<Rightarrow> u32 \<Rightarrow> u32 \<Rightarrow> u32" where
  "bit_gather_loop w m z b =
     (if m = 0 then z
      else let i = m AND - m
           in bit_gather_loop w (m XOR i) (z + (if i AND w \<noteq> 0 then b else 0)) (push_bit 1 b))"
  by pat_completeness auto
termination
  by (relation "measure (\<lambda>(w, m, z, b). length (positions m))")
    (simp_all add: positions_clear_lowest)

definition bit_gather :: "u32 \<Rightarrow> u32 \<Rightarrow> u32" where
  "bit_gather w m = bit_gather_loop w m 0 1"

function bit_scatter_loop :: "u32 \<Rightarrow> u32 \<Rightarrow> u32 \<Rightarrow> u32 \<Rightarrow> u32" where
  "bit_scatter_loop w m z b =
     (if m = 0 then z
      else let i = m AND - m
           in bit_scatter_loop w (m XOR i) (z + (if b AND w \<noteq> 0 then i else 0)) (push_bit 1 b))"
  by pat_completeness auto
termination
  by (relation "measure (\<lambda>(w, m, z, b). length (positions m))")
    (simp_all add: positions_clear_lowest)

definition bit_scatter :: "u32 \<Rightarrow> u32 \<Rightarrow> u32" where
  "bit_scatter w m = bit_scatter_loop w m 0 1"

declare bit_gather_loop.simps [simp del] bit_scatter_loop.simps [simp del]

lemma exp_and_eq_0_iff: "n < 32 \<Longrightarrow> (2 ^ n :: u32) AND w = 0 \<longleftrightarrow> \<not> bit w n"
  by (metis and_exp_eq_0_iff_not_bit and.commute)

lemma bit_gather_loop_eq:
  "bit_gather_loop w m z b = z + b * of_bits (map (bit w) (positions m))"
proof (induction w m z b rule: bit_gather_loop.induct)
  case (1 w m z b)
  show ?case
  proof (cases "m = 0")
    case True
    then show ?thesis by (subst bit_gather_loop.simps) simp
  next
    case False
    have n: "lowest m < 32" by (rule lowest_bit(2) [OF False])
    have "bit_gather_loop w m z b
        = z + (if bit w (lowest m) then b else 0)
          + push_bit 1 b * of_bits (map (bit w) (positions (m XOR (m AND - m))))"
      using "1.IH" [OF False refl] False
      by (subst bit_gather_loop.simps) (simp add: Let_def and_minus_lowest exp_and_eq_0_iff n)
    also have "\<dots> = z + b * of_bits (map (bit w) (positions m))"
      unfolding positions_clear_lowest [OF False] by (simp add: algebra_simps push_bit_eq_mult)
    finally show ?thesis .
  qed
qed

lemma bit_gather_eq: "bit_gather w m = gather_spec w m"
  by (simp add: bit_gather_def bit_gather_loop_eq gather_spec_def)

lemma bit_scatter_loop_eq:
  "length (positions m) + k \<le> 32 \<Longrightarrow>
   bit_scatter_loop w m z (2 ^ k) = z + spread (positions m) k w"
proof (induction "positions m" arbitrary: m z k)
  case Nil
  then have "m = 0" by (metis positions_eq_Nil_iff)
  then show ?case by (subst bit_scatter_loop.simps) simp
next
  case (Cons p ps)
  then have m: "m \<noteq> 0" by auto
  let ?m = "m XOR (m AND - m)"
  have ps: "p = lowest m" "ps = positions ?m"
    using positions_clear_lowest [OF m] Cons.hyps(2) by auto
  have k: "k < 32" "length (positions ?m) + Suc k \<le> 32"
    using Cons.prems Cons.hyps(2) ps by (auto simp flip: Cons.hyps(2))
  have step: "bit_scatter_loop w ?m z' (push_bit 1 (2 ^ k))
      = z' + spread (positions ?m) (Suc k) w" for z'
    using Cons.hyps(1) [OF ps(2) k(2), of z'] by (simp add: push_bit_eq_mult mult.commute)
  have "bit_scatter_loop w m z (2 ^ k)
      = z + (if bit w k then 2 ^ p else 0) + spread (positions ?m) (Suc k) w"
    by (subst bit_scatter_loop.simps)
      (simp only: Let_def step [unfolded and_minus_lowest [OF m]] m if_False and_minus_lowest [OF m] exp_and_eq_0_iff k(1) ps(1) not_not)
  then show ?case using Cons.hyps(2) ps by (simp flip: Cons.hyps(2))
qed

lemma bit_scatter_eq: "bit_scatter w m = scatter_spec w m"
  using bit_scatter_loop_eq [of m 0 w 0] length_positions [of m]
  by (simp add: bit_scatter_def scatter_spec_def)

text \<open>The value read from a list of bits: its bits, its bound, and gathering as inverse of spreading.\<close>

lemma bit_of_bits: "length bs \<le> 32 \<Longrightarrow> bit (of_bits bs) i \<longleftrightarrow> i < length bs \<and> bs ! i"
proof (induction bs arbitrary: i)
  case Nil
  then show ?case by simp
next
  case (Cons b bs)
  have "of_bits (b # bs) = of_bool b + push_bit 1 (of_bits bs)"
    by (simp add: push_bit_eq_mult)
  also have "\<dots> = of_bool b OR push_bit 1 (of_bits bs)"
    by (rule disjunctive_add_eq_or) (cases b; simp add: one_and_eq push_bit_eq_mult flip: even_iff_mod_2_eq_zero)
  finally have eq: "of_bits (b # bs) = of_bool b OR push_bit 1 (of_bits bs)" .
  have "bit (of_bits (b # bs)) i \<longleftrightarrow> i = 0 \<and> b \<or> 1 \<le> i \<and> i < 32 \<and> bit (of_bits bs) (i - 1)"
    unfolding eq bit_or_iff bit_push_bit_iff bit_of_bool_iff by auto
  with Cons.IH [of "i - 1"] Cons.prems show ?case
    by (cases i) (auto simp del: of_bits.simps)
qed

lemma unat_of_bits_less: "length bs \<le> 32 \<Longrightarrow> unat (of_bits bs) < 2 ^ length bs"
proof -
  assume len: "length bs \<le> 32"
  have "take_bit (length bs) (of_bits bs) = of_bits bs"
    using len by (auto simp: bit_eq_iff bit_simps bit_of_bits)
  then have "take_bit (length bs) (unat (of_bits bs)) = unat (of_bits bs)"
    by (metis unsigned_take_bit_eq)
  then show ?thesis by (metis take_bit_nat_less_exp)
qed

lemma bit_gather_spec:
  "bit (gather_spec w m) i \<longleftrightarrow> i < length (positions m) \<and> bit w (positions m ! i)"
  using length_positions [of m] by (auto simp: gather_spec_def bit_of_bits)

lemma gather_spec_less: "unat (gather_spec w m) < 2 ^ length (positions m)"
  using unat_of_bits_less [of "map (bit w) (positions m)"] length_positions [of m]
  by (simp add: gather_spec_def)

section \<open>trailing\_zeroes\<close>

definition MultiplyDeBruijnBitPosition :: "nat list" where
  "MultiplyDeBruijnBitPosition =
     [0, 1, 28, 2, 29, 14, 24, 3, 30, 22, 20, 15, 25, 17, 4, 8,
      31, 27, 13, 23, 21, 19, 16, 7, 26, 12, 18, 6, 11, 5, 10, 9]"

definition trailing_zeroes :: "u32 \<Rightarrow> nat" where
  "trailing_zeroes v =
     MultiplyDeBruijnBitPosition ! unat (drop_bit 27 ((v AND - v) * 0x077CB531))"

lemma trailing_zeroes_exp:
  "\<forall>n \<in> set [0..<32]. MultiplyDeBruijnBitPosition ! unat (drop_bit 27 ((2 ^ n :: u32) * 0x077CB531)) = n"
  by code_simp

lemma trailing_zeroes_0 [simp]: "trailing_zeroes 0 = 0"
  by (simp add: trailing_zeroes_def MultiplyDeBruijnBitPosition_def)

lemma trailing_zeroes_eq: "v \<noteq> 0 \<Longrightarrow> trailing_zeroes v = lowest v"
  using bspec [OF trailing_zeroes_exp, of "lowest v"] lowest_bit(2) [of v]
  by (simp add: trailing_zeroes_def and_minus_lowest)

section \<open>number\_of\_set\_bits\<close>

definition number_of_set_bits :: "u32 \<Rightarrow> nat" where
  "number_of_set_bits i0 =
     (let i1 = i0 - (drop_bit 1 i0 AND 0x55555555);
          i2 = (i1 AND 0x33333333) + (drop_bit 2 i1 AND 0x33333333)
      in unat (drop_bit 24 (((i2 + drop_bit 4 i2) AND 0x0F0F0F0F) * 0x01010101)))"

text \<open>Numbers as lists of base \<open>B\<close> digits: masks and shifts act on the digits.\<close>

primrec digits_value :: "nat \<Rightarrow> nat list \<Rightarrow> nat" where
  "digits_value B [] = 0"
| "digits_value B (d # ds) = d + B * digits_value B ds"

lemma and_digit_step:
  fixes d l r h :: nat
  assumes "d < 2 ^ m" "l < 2 ^ m"
  shows "(d + 2 ^ m * r) AND (l + 2 ^ m * h) = (d AND l) + 2 ^ m * (r AND h)"
proof -
  have split: "x + 2 ^ m * y = x OR push_bit m y" if "x < 2 ^ m" for x y :: nat
  proof -
    have "take_bit m x = x" using that by (simp add: take_bit_nat_eq_self)
    then have "\<not> bit x i" if "m \<le> i" for i using that by (metis bit_take_bit_iff leD)
    then have "x AND push_bit m y = 0" by (auto simp: bit_eq_iff bit_and_iff bit_push_bit_iff)
    then show ?thesis by (simp add: push_bit_eq_mult mult.commute flip: disjunctive_add_eq_or)
  qed
  have dl: "d AND l < 2 ^ m"
    using assms by (metis and_nat_def take_bit_and take_bit_nat_eq_self take_bit_nat_less_exp)
  have hi: "\<not> bit d i" "\<not> bit l i" if "m \<le> i" for i
    using assms that by (metis bit_take_bit_iff leD take_bit_nat_eq_self)+
  show ?thesis
    unfolding split [OF assms(1)] split [OF assms(2)] split [OF dl]
    by (rule bit_eqI) (use hi in \<open>auto simp: bit_and_iff bit_or_iff bit_push_bit_iff\<close>)
qed

lemma div_digit: "0 < B \<Longrightarrow> (d + B * r) div B = d div B + r" for B :: nat
  by simp

lemma swar_pairs_step:
  fixes q r M :: nat
  assumes "q < 4"
  shows "drop_bit 1 (q + 4 * r) AND (1 + 4 * M) = q div 2 + 4 * (drop_bit 1 r AND M)"
proof -
  have "drop_bit 1 (q + 4 * r) = (q div 2 + 2 * (r mod 2)) + 4 * drop_bit 1 r"
    using div_digit [of 2 q "2 * r"]
    by (simp add: drop_bit_eq_div, use mult_div_mod_eq [of 2 r] in linarith)
  moreover have "q div 2 < 2" using assms by linarith
  then have "(q div 2 + 2 * (r mod 2)) AND 1 = q div 2" "q div 2 + 2 * (r mod 2) < 2 ^ 2"
    by (simp_all add: and_one_eq)
  ultimately show ?thesis
    using and_digit_step [of "q div 2 + 2 * (r mod 2)" 2 1 "drop_bit 1 r" M] by simp
qed

lemma swar_pairs:
  "\<forall>q \<in> set qs. q < 4 \<Longrightarrow>
   (drop_bit 1 (digits_value 4 qs) AND digits_value 4 (map (\<lambda>_. 1) qs)) \<le> digits_value 4 qs \<and>
   digits_value 4 qs - (drop_bit 1 (digits_value 4 qs) AND digits_value 4 (map (\<lambda>_. 1) qs))
     = digits_value 4 (map (\<lambda>q. q - q div 2) qs)"
proof (induction qs)
  case Nil
  then show ?case by simp
next
  case (Cons q qs)
  then have q: "q < 4" and IH: "drop_bit 1 (digits_value 4 qs) AND digits_value 4 (map (\<lambda>_. 1) qs)
      \<le> digits_value 4 qs" "digits_value 4 qs - (drop_bit 1 (digits_value 4 qs) AND
        digits_value 4 (map (\<lambda>_. 1) qs)) = digits_value 4 (map (\<lambda>q. q - q div 2) qs)"
    by auto
  have "q div 2 \<le> q" by simp
  then show ?case
    using IH by (simp only: digits_value.simps list.map swar_pairs_step [OF q]) linarith
qed

lemma swar_nibbles_step:
  fixes c0 c1 r M :: nat
  assumes "c0 < 4" "c1 < 4"
  shows "(c0 + 4 * (c1 + 4 * r)) AND (3 + 16 * M) = c0 + 16 * (r AND M)"
    and "drop_bit 2 (c0 + 4 * (c1 + 4 * r)) AND (3 + 16 * M) = c1 + 16 * (drop_bit 2 r AND M)"
proof -
  have three: "x AND 3 = x mod 4" for x :: nat
    using take_bit_eq_mask [of 2 x] by (simp add: mask_eq_exp_minus_1 take_bit_eq_mod)
  have "(c0 + 4 * c1) AND 3 = c0" using assms by (simp add: three)
  then show "(c0 + 4 * (c1 + 4 * r)) AND (3 + 16 * M) = c0 + 16 * (r AND M)"
    using and_digit_step [of "c0 + 4 * c1" 4 3 r M] assms by (simp add: algebra_simps)
  have shift: "drop_bit 2 (c0 + 4 * (c1 + 4 * r)) = (c1 + 4 * (r mod 4)) + 16 * drop_bit 2 r"
    using assms div_digit [of 4 c0 "c1 + 4 * r"]
    by (simp add: drop_bit_eq_div, use mult_div_mod_eq [of 4 r] in linarith)
  have "r mod 4 < 4" by simp
  then have low: "c1 + 4 * (r mod 4) < 16" using assms(2) by linarith
  have "(c1 + 4 * (r mod 4)) AND 3 = c1" using assms by (simp add: three)
  then show "drop_bit 2 (c0 + 4 * (c1 + 4 * r)) AND (3 + 16 * M) = c1 + 16 * (drop_bit 2 r AND M)"
    unfolding shift using and_digit_step [of "c1 + 4 * (r mod 4)" 4 3 "drop_bit 2 r" M] low
    by simp
qed

lemma swar_bytes_step:
  fixes d0 d1 x M :: nat
  assumes "d0 + d1 < 16" "d1 + x mod 16 < 16" "d0 < 16" "d1 < 16"
  shows "((d0 + 16 * (d1 + 16 * x)) + drop_bit 4 (d0 + 16 * (d1 + 16 * x))) AND (15 + 256 * M)
       = (d0 + d1) + 256 * ((x + drop_bit 4 x) AND M)"
proof -
  have fifteen: "x AND 15 = x mod 16" for x :: nat
    using take_bit_eq_mask [of 4 x] by (simp add: mask_eq_exp_minus_1 take_bit_eq_mod)
  let ?lo = "(d0 + d1) + 16 * (d1 + x mod 16)"
  have eq: "(d0 + 16 * (d1 + 16 * x)) + drop_bit 4 (d0 + 16 * (d1 + 16 * x))
      = ?lo + 256 * (x + drop_bit 4 x)"
    using assms div_digit [of 16 d0 "d1 + 16 * x"]
    by (simp add: drop_bit_eq_div, use mult_div_mod_eq [of 16 x] in linarith)
  have "m < 16 \<Longrightarrow> d0 + d1 + 16 * m < 256" for m :: nat using assms(1) by simp
  then have "?lo < 256" using assms(2) .
  moreover have "(d0 + d1 + 16 * m) mod 16 = d0 + d1" for m :: nat
    using assms(1) by (simp only: mod_mult_self2 mod_less)
  then have "?lo AND 15 = d0 + d1" by (simp only: fifteen)
  ultimately show ?thesis
    unfolding eq using and_digit_step [of ?lo 8 15 "x + drop_bit 4 x" M] by simp
qed

text \<open>The number of set bits, read off the base 4 digits.\<close>

lemma count_bits_step:
  fixes q r :: nat
  assumes "q < 4"
  shows "length (filter (bit (q + 4 * r)) [0..<k + 2])
       = (q - q div 2) + length (filter (bit r) [0..<k])"
proof -
  have "[0..<k + 2] = 0 # 1 # map (\<lambda>i. i + 2) [0..<k]"
    by (rule nth_equalityI) (auto simp: nth_Cons nth_append split: nat.splits)
  moreover have "bit (q + 4 * r) (i + 2) = bit r i" for i
  proof -
    have "(q + 4 * r) div 4 = r" using assms by simp
    then show ?thesis
      by (simp add: bit_iff_odd power_add div_mult2_eq mult.commute [of "2 ^ i"])
  qed
  moreover have "bit (q + 4 * r) 0 = odd q" "bit (q + 4 * r) 1 = odd (q div 2)"
    by (simp_all add: bit_iff_odd div_digit [of 2 q "2 * r", simplified])
  moreover have "q = 0 \<or> q = 1 \<or> q = 2 \<or> q = 3" using assms by linarith
  ultimately show ?thesis
    by (auto simp: filter_map comp_def)
qed

lemma count_bits_digits:
  "\<forall>q \<in> set qs. q < 4 \<Longrightarrow>
   length (filter (bit (digits_value 4 qs)) [0..<2 * length qs]) = sum_list (map (\<lambda>q. q - q div 2) qs)"
proof (induction qs)
  case Nil
  then show ?case by simp
next
  case (Cons q qs)
  then show ?case
    using count_bits_step [of q "digits_value 4 qs" "2 * length qs"] by simp
qed

lemma base4_digits:
  "n < 4 ^ k \<Longrightarrow> \<exists>qs. length qs = k \<and> (\<forall>q \<in> set qs. q < 4) \<and> digits_value 4 qs = n"
proof (induction k arbitrary: n)
  case 0
  then show ?case by simp
next
  case (Suc k)
  then have "n div 4 < 4 ^ k" by (simp add: less_mult_imp_div_less mult.commute)
  then obtain qs where "length qs = k" "\<forall>q \<in> set qs. q < 4" "digits_value 4 qs = n div 4"
    using Suc.IH by blast
  then show ?case by (intro exI [of _ "n mod 4 # qs"]) simp
qed

primrec flat :: "(nat \<times> nat) list \<Rightarrow> nat list" where
  "flat [] = []"
| "flat (p # ps) = fst p # snd p # flat ps"

lemma swar_nibbles:
  "\<forall>p \<in> set ps. fst p < 4 \<and> snd p < 4 \<Longrightarrow>
   (digits_value 4 (flat ps) AND digits_value 16 (map (\<lambda>_. 3) ps))
     + (drop_bit 2 (digits_value 4 (flat ps)) AND digits_value 16 (map (\<lambda>_. 3) ps))
   = digits_value 16 (map (\<lambda>p. fst p + snd p) ps)"
  by (induction ps) (simp_all only: digits_value.simps flat.simps list.map swar_nibbles_step
      list.set insert_iff ball_simps simp_thms, simp_all add: algebra_simps)

lemma flat_digit_mod: "\<forall>p \<in> set ps. fst p \<le> 4 \<and> snd p \<le> 4 \<Longrightarrow> digits_value 16 (flat ps) mod 16 \<le> 4"
proof (cases ps)
  case (Cons p qs)
  assume "\<forall>p \<in> set ps. fst p \<le> 4 \<and> snd p \<le> 4"
  with Cons have "fst p mod 16 \<le> 4" by simp
  with Cons show ?thesis by (simp only: flat.simps digits_value.simps mod_mult_self2)
qed simp

lemma swar_bytes:
  "\<forall>p \<in> set ps. fst p \<le> 4 \<and> snd p \<le> 4 \<Longrightarrow>
   (digits_value 16 (flat ps) + drop_bit 4 (digits_value 16 (flat ps)))
     AND digits_value 256 (map (\<lambda>_. 15) ps)
   = digits_value 256 (map (\<lambda>p. fst p + snd p) ps)"
proof (induction ps)
  case Nil
  then show ?case by simp
next
  case (Cons p ps)
  then have p: "fst p \<le> 4" "snd p \<le> 4" and m: "digits_value 16 (flat ps) mod 16 \<le> 4"
    using flat_digit_mod [of ps] by simp_all
  have "fst p + snd p < 16" "snd p + digits_value 16 (flat ps) mod 16 < 16" "fst p < 16" "snd p < 16"
    using p m by linarith+
  then show ?case
    using Cons by (simp only: digits_value.simps flat.simps list.map swar_bytes_step) simp
qed

text \<open>The word computation, moved to the natural numbers step by step.\<close>

lemma number_of_set_bits_unat:
  "number_of_set_bits w =
     (let n1 = (unat w - (drop_bit 1 (unat w) AND 0x55555555)) ;
          n2 = ((n1 AND 0x33333333) + (drop_bit 2 n1 AND 0x33333333)) mod 2 ^ 32
      in drop_bit 24 (((((n2 + drop_bit 4 n2) mod 2 ^ 32) AND 0x0F0F0F0F) * 0x01010101) mod 2 ^ 32))"
  if "drop_bit 1 (unat w) AND 0x55555555 \<le> unat w"
proof -
  have sub: "unat (w - (drop_bit 1 w AND 0x55555555)) = unat w - (drop_bit 1 (unat w) AND 0x55555555)"
    using that by (subst unat_sub) (simp_all add: word_le_nat_alt unsigned_and_eq unat_drop_bit_eq)
  show ?thesis
    unfolding number_of_set_bits_def Let_def
    by (simp add: unat_word_ariths unsigned_and_eq unat_drop_bit_eq sub del: One_nat_def)
qed

lemma byte_sum_by_multiplication:
  fixes e0 e1 e2 e3 :: nat
  assumes "e0 \<le> 8" "e1 \<le> 8" "e2 \<le> 8" "e3 \<le> 8"
  shows "drop_bit 24 ((digits_value 256 [e0, e1, e2, e3] * 0x01010101) mod 0x100000000)
       = e0 + e1 + e2 + e3"
proof -
  define low where "low = e0 + 2 ^ 8 * (e0 + e1) + 2 ^ 16 * (e0 + e1 + e2)"
  define top where "top = low + 2 ^ 24 * (e0 + e1 + e2 + e3)"
  define high where "high = (e1 + e2 + e3) + 2 ^ 8 * (e2 + e3) + 2 ^ 16 * e3"
  have "digits_value 256 [e0, e1, e2, e3] * 0x01010101 = top + high * 2 ^ 32"
    by (simp add: top_def low_def high_def algebra_simps)
  moreover have "top < 2 ^ 32" using assms by (simp add: top_def low_def)
  ultimately have "(digits_value 256 [e0, e1, e2, e3] * 0x01010101) mod 2 ^ 32 = top"
    by (simp only: mod_mult_self1 mod_less)
  then have "(digits_value 256 [e0, e1, e2, e3] * 0x01010101) mod 0x100000000 = top"
    by (simp only: power_numeral_even power_numeral_odd) simp
  moreover have "low < 2 ^ 24" using assms by (simp add: low_def)
  then have "drop_bit 24 top = e0 + e1 + e2 + e3"
    unfolding drop_bit_eq_div top_def by (subst div_digit) simp_all
  ultimately show ?thesis by simp
qed

theorem number_of_set_bits_eq: "number_of_set_bits w = length (positions w)"
proof -
  have "unat w < 2 ^ LENGTH(32)" by (rule unsigned_less)
  then have "unat w < 4 ^ 16" by simp
  then obtain qs where len: "length qs = 16" and qs: "\<forall>q \<in> set qs. q < 4"
    and w: "digits_value 4 qs = unat w" using base4_digits by blast
  define c where "c = (\<lambda>q::nat. q - q div 2)"
  obtain q0 q1 q2 q3 q4 q5 q6 q7 q8 q9 q10 q11 q12 q13 q14 q15 where
    q: "qs = [q0, q1, q2, q3, q4, q5, q6, q7, q8, q9, q10, q11, q12, q13, q14, q15]"
    using len by (auto simp: length_Suc_conv numeral_eq_Suc)
  define cs where "cs = [(c q0, c q1), (c q2, c q3), (c q4, c q5), (c q6, c q7),
    (c q8, c q9), (c q10, c q11), (c q12, c q13), (c q14, c q15)]"
  define ds where "ds = [(c q0 + c q1, c q2 + c q3), (c q4 + c q5, c q6 + c q7),
    (c q8 + c q9, c q10 + c q11), (c q12 + c q13, c q14 + c q15)]"
  have c2: "c x \<le> 2" if "x \<in> set qs" for x
  proof -
    have "x = 0 \<or> x = 1 \<or> x = 2 \<or> x = 3" using qs that by force
    then show ?thesis by (auto simp: c_def)
  qed
  have b: "c q0 \<le> 2" "c q1 \<le> 2" "c q2 \<le> 2" "c q3 \<le> 2" "c q4 \<le> 2" "c q5 \<le> 2" "c q6 \<le> 2"
    "c q7 \<le> 2" "c q8 \<le> 2" "c q9 \<le> 2" "c q10 \<le> 2" "c q11 \<le> 2" "c q12 \<le> 2" "c q13 \<le> 2"
    "c q14 \<le> 2" "c q15 \<le> 2"
    using c2 by (simp_all add: q)
  define n2 where "n2 = digits_value 16 (flat ds)"
  have pairs: "drop_bit 1 (unat w) AND 0x55555555 \<le> unat w"
    "unat w - (drop_bit 1 (unat w) AND 0x55555555) = digits_value 4 (flat cs)"
  proof -
    have "digits_value 4 (map (\<lambda>_. 1) qs) = 0x55555555" "map (\<lambda>q. q - q div 2) qs = flat cs"
      by (simp_all add: q cs_def c_def)
    with swar_pairs [OF qs] show "drop_bit 1 (unat w) AND 0x55555555 \<le> unat w"
      "unat w - (drop_bit 1 (unat w) AND 0x55555555) = digits_value 4 (flat cs)"
      by (simp_all only: w)
  qed
  have "(digits_value 4 (flat cs) AND 0x33333333) + (drop_bit 2 (digits_value 4 (flat cs)) AND 0x33333333)
      = n2"
  proof -
    have "digits_value 16 (map (\<lambda>_. 3) cs) = 0x33333333" "map (\<lambda>p. fst p + snd p) cs = flat ds"
      "\<forall>p \<in> set cs. fst p < 4 \<and> snd p < 4"
      using b by (simp_all add: cs_def ds_def)
    with swar_nibbles [of cs] show ?thesis by (simp only: n2_def)
  qed
  moreover have n2: "n2 \<le> 4 * 0x11111111" using b by (simp add: n2_def ds_def)
  moreover have "drop_bit 4 n2 \<le> n2" by (simp add: drop_bit_eq_div)
  moreover have "n2 + drop_bit 4 n2 AND 0x0F0F0F0F = digits_value 256 (map (\<lambda>p. fst p + snd p) ds)"
  proof -
    have "digits_value 256 (map (\<lambda>_. 15) ds) = 0x0F0F0F0F"
      "\<forall>p \<in> set ds. fst p \<le> 4 \<and> snd p \<le> 4"
      using b by (simp_all add: ds_def)
    with swar_bytes [of ds] show ?thesis by (simp only: n2_def)
  qed
  moreover have "map (\<lambda>p. fst p + snd p) ds =
      [c q0 + c q1 + (c q2 + c q3), c q4 + c q5 + (c q6 + c q7),
       c q8 + c q9 + (c q10 + c q11), c q12 + c q13 + (c q14 + c q15)]"
    by (simp add: ds_def)
  ultimately have "number_of_set_bits w = sum_list (map c qs)"
    using b unfolding number_of_set_bits_unat [OF pairs(1)] Let_def pairs(2)
    by (simp add: byte_sum_by_multiplication q del: digits_value.simps)
  also have "\<dots> = length (filter (bit (unat w)) [0..<32])"
    using count_bits_digits [OF qs] by (simp add: w len c_def)
  also have "bit (unat w) = bit w" by (rule ext) (simp add: bit_unsigned_iff)
  finally show ?thesis by (simp add: positions_def)
qed

section \<open>Laws of gathering and scattering\<close>

lemma positions_drop_bit:
  assumes "\<And>j. j < s \<Longrightarrow> \<not> bit m j"
  shows "positions (drop_bit s m) = map (\<lambda>p. p - s) (positions m)"
proof (rule positions_unique)
  have ge: "\<forall>p \<in> set (positions m). s \<le> p"
    using assms by (metis linorder_not_less mem_Collect_eq set_positions)
  show "sorted (map (\<lambda>p. p - s) (positions m))"
    using sorted_positions(1) [of m] by (auto simp: sorted_wrt_map elim!: sorted_wrt_mono_rel [rotated])
  show "distinct (map (\<lambda>p. p - s) (positions m))"
    using sorted_positions(2) [of m] ge
    by (simp add: distinct_map inj_on_def) (metis le_add_diff_inverse)
  show "set (map (\<lambda>p. p - s) (positions m)) = {i. bit (drop_bit s m) i}"
    using ge by (force simp: set_positions bit_drop_bit_eq image_iff)
qed

lemma gather_drop_bit:
  assumes "\<And>j. j < s \<Longrightarrow> \<not> bit m j"
  shows "gather_spec (drop_bit s (w AND m)) (drop_bit s m) = gather_spec w m"
proof -
  have "s \<le> p \<and> bit m p" if "p \<in> set (positions m)" for p
    using that assms by (metis linorder_not_less mem_Collect_eq set_positions)
  then show ?thesis
    by (auto simp: gather_spec_def positions_drop_bit [OF assms] bit_drop_bit_eq bit_and_iff
        intro!: arg_cong [where f = of_bits])
qed

lemma gather_contiguous:
  assumes "positions m = [s..<s + k]"
  shows "gather_spec w m = drop_bit s (w AND m)"
proof (rule word_eqI_bits)
  fix i
  have m: "bit m j \<longleftrightarrow> s \<le> j \<and> j < s + k" for j
    using set_positions [of m] by (auto simp: assms)
  show "bit (gather_spec w m) i = bit (drop_bit s (w AND m)) i"
    by (simp only: bit_gather_spec assms bit_drop_bit_eq bit_and_iff m comp_apply length_upt) auto
qed

lemma bit_spread:
  "sorted ps \<Longrightarrow> distinct ps \<Longrightarrow> (\<forall>p \<in> set ps. p < 32) \<Longrightarrow>
   bit (spread ps k w) i \<longleftrightarrow> (\<exists>j < length ps. ps ! j = i \<and> bit w (k + j))"
proof (induction ps arbitrary: k i)
  case Nil
  then show ?case by simp
next
  case (Cons p ps)
  have IH: "bit (spread ps (Suc k) w) i \<longleftrightarrow> (\<exists>j < length ps. ps ! j = i \<and> bit w (Suc k + j))" for i
    using Cons.IH [of "Suc k"] Cons.prems by simp
  have "\<not> bit (spread ps (Suc k) w) p"
    unfolding IH using Cons.prems(2) by auto
  then have "(if bit w k then 2 ^ p else 0) AND spread ps (Suc k) w = 0"
    by (auto simp: exp_and_eq_0_iff Cons.prems(3))
  then have "spread (p # ps) k w = (if bit w k then 2 ^ p else 0) OR spread ps (Suc k) w"
    by (simp add: disjunctive_add_eq_or)
  then show ?case
    using Cons.prems(3) by (auto simp: IH bit_or_iff bit_exp_iff less_Suc_eq_0_disj)
qed

lemma bit_scatter_spec:
  "bit (scatter_spec w m) i \<longleftrightarrow> (\<exists>j < length (positions m). positions m ! j = i \<and> bit w j)"
proof -
  have "\<forall>p \<in> set (positions m). p < 32" by (simp add: positions_def)
  from bit_spread [OF sorted_positions this, of 0 w i] show ?thesis by (simp add: scatter_spec_def)
qed

lemma gather_scatter: "gather_spec (scatter_spec w m) m = take_bit (length (positions m)) w"
proof (rule word_eqI_bits)
  fix i
  show "bit (gather_spec (scatter_spec w m) m) i = bit (take_bit (length (positions m)) w) i"
    using sorted_positions(2) [of m]
    by (auto simp: bit_gather_spec bit_scatter_spec bit_take_bit_iff nth_eq_iff_index_eq)
qed

lemma scatter_gather: "scatter_spec (gather_spec w m) m = w AND m"
proof (rule word_eqI_bits)
  fix i
  have "bit m i \<longleftrightarrow> (\<exists>j < length (positions m). positions m ! j = i)"
    by (metis in_set_conv_nth mem_Collect_eq set_positions)
  then show "bit (scatter_spec (gather_spec w m) m) i = bit (w AND m) i"
    by (auto simp: bit_gather_spec bit_scatter_spec bit_and_iff)
qed

end
