(* ===== verification/Data_Filter.thy ===== *)
theory Data_Filter
  imports Bits
begin

text \<open>
  The 32-bit data filters of the analysis engine: \<^verbatim>\<open>src/src/analysis/a2/a2_data_filter.h\<close> and
  \<^verbatim>\<open>a2_data_filter.cc\<close>. A filter string such as \<^verbatim>\<open>0001 XXXX AAAA DDDD\<close> selects data words by
  their fixed bits and names the bits to extract. Characters are those of the "C" locale.
\<close>

section \<open>Filters\<close>

datatype exn = LengthError | OutOfRange

record DataFilter =
  filter_chars :: string
  matchMask :: u32
  matchValue :: u32
  matchWordIndex :: s32

record CacheEntry =
  extractMask :: u32
  needGather :: bool
  extractShift :: nat
  extractBits :: nat

definition FilterSize :: nat where
  "FilterSize = 32"

fun remove_spaces :: "string \<Rightarrow> string" where
  "remove_spaces [] = []"
| "remove_spaces (c # cs) = (if c \<noteq> CHR '' '' then c # remove_spaces cs else remove_spaces cs)"

text \<open>The character of \<^verbatim>\<open>filter\<close> that ends up at bit \<open>idst\<close>: the string is filled in from its end.\<close>

definition fill_filter :: "string \<Rightarrow> string" where
  "fill_filter f =
     fold (\<lambda>idst chars. chars[idst := f ! (length f - 1 - idst)]) [0..<length f]
       (replicate FilterSize CHR ''X'')"

definition is_match_char :: "char \<Rightarrow> bool" where
  "is_match_char c \<longleftrightarrow> c = CHR ''0'' \<or> c = CHR ''1'' \<or> c = CHR 0x00 \<or> c = CHR 0x01"

definition is_one_char :: "char \<Rightarrow> bool" where
  "is_one_char c \<longleftrightarrow> c = CHR ''1'' \<or> c = CHR 0x01"

definition make_filter :: "string \<Rightarrow> s32 \<Rightarrow> exn + DataFilter" where
  "make_filter filterRaw wordIndex =
     (let f = remove_spaces filterRaw in
      if FilterSize < length f then Inl LengthError
      else
        (let chars = fill_filter f;
             (mm, mv) =
               fold (\<lambda>i (mm, mv).
                       (if is_match_char (chars ! i) then mm OR push_bit i 1 else mm,
                        if is_one_char (chars ! i) then mv OR push_bit i 1 else mv))
                 [0..<FilterSize] (0, 0)
         in Inr \<lparr>filter_chars = chars, matchMask = mm, matchValue = mv,
                 matchWordIndex = wordIndex\<rparr>))"

definition matches :: "DataFilter \<Rightarrow> u32 \<Rightarrow> s32 \<Rightarrow> bool" where
  "matches f value wordIndex \<longleftrightarrow>
     (matchWordIndex f < 0 \<or> matchWordIndex f = wordIndex)
     \<and> value AND matchMask f = matchValue f"

definition to_string :: "DataFilter \<Rightarrow> string" where
  "to_string f =
     fold (\<lambda>idst s. s[idst := filter_chars f ! (length (filter_chars f) - 1 - idst)])
       [0..<length (filter_chars f)] (replicate (length (filter_chars f)) CHR ''X'')"

section \<open>Extraction\<close>

definition tolower :: "char \<Rightarrow> char" where
  "tolower c =
     (if 65 \<le> (of_char c :: nat) \<and> (of_char c :: nat) \<le> 90 then char_of ((of_char c :: nat) + 32) else c)"

text \<open>One round of the scan in \<^verbatim>\<open>make_cache_entry\<close>; the state is
  \<open>(extractMask, needGather, markerSeen, gapSeen)\<close>.\<close>

fun scan_step :: "string \<Rightarrow> char \<Rightarrow> nat \<Rightarrow> u32 \<times> bool \<times> bool \<times> bool \<Rightarrow> u32 \<times> bool \<times> bool \<times> bool" where
  "scan_step chars marker i (em, gather, markerSeen, gapSeen) =
     (if tolower (chars ! i) = marker
      then (em OR push_bit i 1, gather \<or> (markerSeen \<and> gapSeen), True, gapSeen)
      else if markerSeen then (em, gather, markerSeen, True)
      else (em, gather, markerSeen, gapSeen))"

definition make_cache_entry :: "DataFilter \<Rightarrow> char \<Rightarrow> CacheEntry" where
  "make_cache_entry f marker =
     (let (em, gather, _, _) =
        fold (scan_step (filter_chars f) (tolower marker)) [0..<FilterSize] (0, False, False, False)
      in \<lparr>extractMask = em, needGather = gather, extractShift = trailing_zeroes em,
          extractBits = number_of_set_bits em\<rparr>)"

definition extract_value :: "CacheEntry \<Rightarrow> u32 \<Rightarrow> u32" where
  "extract_value cache value =
     (let result = drop_bit (extractShift cache) (value AND extractMask cache)
      in if needGather cache
         then bit_gather result (drop_bit (extractShift cache) (extractMask cache))
         else result)"

text \<open>The branch of a build with \<^verbatim>\<open>A2_DATA_FILTER_ALWAYS_GATHER\<close>.\<close>

definition extract_always_gather :: "CacheEntry \<Rightarrow> u32 \<Rightarrow> u32" where
  "extract_always_gather cache value = bit_gather value (extractMask cache)"

section \<open>What the loops compute\<close>

lemma remove_spaces_eq: "remove_spaces s = filter (\<lambda>c. c \<noteq> CHR '' '') s"
  by (induction s) auto

lemma fold_update_nth:
  "length xs = k \<Longrightarrow> n \<le> k \<Longrightarrow>
   fold (\<lambda>i ys. ys[i := g i]) [0..<n] xs = map g [0..<n] @ drop n xs"
proof (induction n)
  case 0
  then show ?case by simp
next
  case (Suc n)
  then have "n < length xs" by simp
  with Suc show ?case
    by (simp add: list_update_append Cons_nth_drop_Suc [symmetric])
qed

lemma fill_filter_eq:
  "length f \<le> FilterSize \<Longrightarrow> fill_filter f = rev f @ replicate (FilterSize - length f) CHR ''X''"
  unfolding fill_filter_def
  by (subst fold_update_nth [where k = FilterSize])
    (auto intro!: nth_equalityI simp: rev_nth)

lemma fold_or_bits:
  "n \<le> 32 \<Longrightarrow>
   bit (fold (\<lambda>i m. if P i then m OR push_bit i 1 else m) [0..<n] (0 :: u32)) j \<longleftrightarrow> j < n \<and> P j"
proof (induction n arbitrary: j)
  case 0
  then show ?case by simp
next
  case (Suc n)
  define m where "m = fold (\<lambda>i m. if P i then m OR push_bit i 1 else m) [0..<n] (0 :: u32)"
  have IH: "bit m j \<longleftrightarrow> j < n \<and> P j" for j
    using Suc unfolding m_def by simp
  have "bit (if P n then m OR push_bit n 1 else m) j \<longleftrightarrow> j < Suc n \<and> P j"
  proof -
    have "bit (push_bit n (1 :: u32)) j \<longleftrightarrow> j = n"
      using Suc.prems by (simp add: bit_push_one del: push_bit_of_1)
    then show ?thesis by (auto simp only: bit_or_iff IH less_Suc_eq split: if_splits)
  qed
  then show ?case by (cases "P n") (simp_all add: m_def [symmetric] del: push_bit_of_1)
qed

lemma fold_pair: "fold (\<lambda>i (a, b). (f i a, g i b)) xs (a, b) = (fold f xs a, fold g xs b)"
  by (induction xs arbitrary: a b) auto

lemma make_filter_eq:
  "make_filter raw wi =
     (if FilterSize < length (remove_spaces raw) then Inl LengthError
      else Inr \<lparr>filter_chars = fill_filter (remove_spaces raw),
                matchMask = fold (\<lambda>i m. if is_match_char (fill_filter (remove_spaces raw) ! i)
                  then m OR push_bit i 1 else m) [0..<FilterSize] 0,
                matchValue = fold (\<lambda>i m. if is_one_char (fill_filter (remove_spaces raw) ! i)
                  then m OR push_bit i 1 else m) [0..<FilterSize] 0,
                matchWordIndex = wi\<rparr>)"
  unfolding make_filter_def Let_def by (simp add: fold_pair)

text \<open>A filter as \<^verbatim>\<open>make_filter\<close> builds it: 32 characters, and masks that say what they mean.\<close>

definition wf_filter :: "DataFilter \<Rightarrow> bool" where
  "wf_filter f \<longleftrightarrow>
     length (filter_chars f) = FilterSize \<and>
     (\<forall>i. bit (matchMask f) i \<longleftrightarrow> i < FilterSize \<and> is_match_char (filter_chars f ! i)) \<and>
     (\<forall>i. bit (matchValue f) i \<longleftrightarrow> i < FilterSize \<and> is_one_char (filter_chars f ! i))"

lemma make_filter_wf [wf_rules]: "make_filter raw wi = Inr f \<Longrightarrow> wf_filter f"
  by (auto simp: make_filter_eq wf_filter_def fold_or_bits fill_filter_eq FilterSize_def
      split: if_splits)

lemma make_filter_error_iff:
  "make_filter raw wi = Inl e \<longleftrightarrow> e = LengthError \<and> FilterSize < length (remove_spaces raw)"
  by (auto simp: make_filter_eq)

section \<open>Matching\<close>

text \<open>A word matches exactly if every fixed character agrees with its bit.\<close>

lemma bit_word_eq_iff_32:
  fixes v m w :: u32
  shows "v AND m = w \<longleftrightarrow> (\<forall>i < 32. (bit v i \<and> bit m i) = bit w i)"
proof
  assume "v AND m = w"
  then have w: "w = v AND m" by simp
  show "\<forall>i < 32. (bit v i \<and> bit m i) = bit w i"
    unfolding w bit_and_iff by blast
next
  assume *: "\<forall>i < 32. (bit v i \<and> bit m i) = bit w i"
  show "v AND m = w"
  proof (rule word_eqI_bits)
    fix i :: nat
    assume "i < LENGTH(32)"
    then have "i < 32" by simp
    with * have "(bit v i \<and> bit m i) = bit w i" by blast
    then show "bit (v AND m) i = bit w i" unfolding bit_and_iff .
  qed
qed

lemma matches_iff_chars:
  assumes "wf_filter f"
  shows "matches f v wi \<longleftrightarrow>
    (matchWordIndex f < 0 \<or> matchWordIndex f = wi) \<and>
    (\<forall>i < FilterSize. is_match_char (filter_chars f ! i) \<longrightarrow>
       bit v i = is_one_char (filter_chars f ! i))"
proof -
  have mm: "bit (matchMask f) i = (i < 32 \<and> is_match_char (filter_chars f ! i))"
    and mv: "bit (matchValue f) i = (i < 32 \<and> is_one_char (filter_chars f ! i))" for i
    using assms unfolding wf_filter_def FilterSize_def by blast+
  have one: "is_one_char c \<Longrightarrow> is_match_char c" for c
    by (auto simp: is_one_char_def is_match_char_def)
  have "v AND matchMask f = matchValue f \<longleftrightarrow>
      (\<forall>i < 32. is_match_char (filter_chars f ! i) \<longrightarrow> bit v i = is_one_char (filter_chars f ! i))"
    unfolding bit_word_eq_iff_32 mm mv using one by blast
  then show ?thesis unfolding matches_def FilterSize_def by simp
qed

section \<open>The cache entry of a marker\<close>

text \<open>The markers below \<open>n\<close> have a gap between them; they are followed by a non-marker.\<close>

definition gap :: "(nat \<Rightarrow> bool) \<Rightarrow> nat \<Rightarrow> bool" where
  "gap M n \<longleftrightarrow> (\<exists>a g b. a < g \<and> g < b \<and> b < n \<and> M a \<and> \<not> M g \<and> M b)"

definition gap_open :: "(nat \<Rightarrow> bool) \<Rightarrow> nat \<Rightarrow> bool" where
  "gap_open M n \<longleftrightarrow> (\<exists>a g. a < g \<and> g < n \<and> M a \<and> \<not> M g)"

definition some_below :: "(nat \<Rightarrow> bool) \<Rightarrow> nat \<Rightarrow> bool" where
  "some_below M n \<longleftrightarrow> (\<exists>a < n. M a)"

lemma gap_Suc: "gap M (Suc n) \<longleftrightarrow> gap M n \<or> (M n \<and> gap_open M n)"
proof
  assume "gap M (Suc n)"
  then obtain a g b where *: "a < g" "g < b" "b < Suc n" "M a" "\<not> M g" "M b"
    unfolding gap_def by blast
  then consider "b < n" | "b = n" by linarith
  then show "gap M n \<or> (M n \<and> gap_open M n)"
    unfolding gap_def gap_open_def by cases (use * in blast)+
next
  assume "gap M n \<or> (M n \<and> gap_open M n)"
  then show "gap M (Suc n)"
    unfolding gap_def gap_open_def by (elim disjE exE conjE) (meson less_SucI, meson lessI)
qed

lemma gap_open_Suc: "gap_open M (Suc n) \<longleftrightarrow> gap_open M n \<or> (\<not> M n \<and> some_below M n)"
proof
  assume "gap_open M (Suc n)"
  then obtain a g where *: "a < g" "g < Suc n" "M a" "\<not> M g"
    unfolding gap_open_def by blast
  then consider "g < n" | "g = n" by linarith
  then show "gap_open M n \<or> (\<not> M n \<and> some_below M n)"
    unfolding gap_open_def some_below_def by cases (use * in blast)+
next
  assume "gap_open M n \<or> (\<not> M n \<and> some_below M n)"
  then show "gap_open M (Suc n)"
    unfolding gap_open_def some_below_def by (elim disjE exE conjE) (meson less_SucI, meson lessI)
qed

lemma some_below_Suc: "some_below M (Suc n) \<longleftrightarrow> some_below M n \<or> M n"
  using less_Suc_eq by (auto simp: some_below_def)

lemma gap_open_below: "gap_open M n \<Longrightarrow> some_below M n"
  unfolding gap_open_def some_below_def by (meson less_trans)

lemma scan_loop:
  fixes chars marker
  defines "M \<equiv> \<lambda>i. tolower (chars ! i) = marker"
  assumes "n \<le> 32"
  shows "\<exists>em. fold (scan_step chars marker) [0..<n] (0, False, False, False)
       = (em, gap M n, some_below M n, gap_open M n)
     \<and> (\<forall>j. bit em j \<longleftrightarrow> j < n \<and> M j)"
  using assms(2)
proof (induction n)
  case 0
  then show ?case by (simp add: gap_def some_below_def gap_open_def)
next
  case (Suc n)
  then obtain em where em: "fold (scan_step chars marker) [0..<n] (0, False, False, False)
       = (em, gap M n, some_below M n, gap_open M n)"
    and bits: "\<And>j. bit em j \<longleftrightarrow> j < n \<and> M j" by auto
  have push: "bit (push_bit n (1 :: u32)) j \<longleftrightarrow> j = n" for j
    using Suc.prems by (simp add: bit_push_one del: push_bit_of_1)
  show ?case
  proof (cases "M n")
    case True
    have "bit (em OR push_bit n 1) j \<longleftrightarrow> j < Suc n \<and> M j" for j
      using True by (auto simp only: bit_or_iff bits push less_Suc_eq)
    moreover have "tolower (chars ! n) = marker"
      using True by (simp add: M_def)
    ultimately show ?thesis using True gap_open_below [of M n]
      by (intro exI [of _ "em OR push_bit n 1"])
        (auto simp: em gap_Suc gap_open_Suc some_below_Suc simp del: push_bit_of_1)
  next
    case False
    have "bit em j \<longleftrightarrow> j < Suc n \<and> M j" for j
      using False by (auto simp: bits less_Suc_eq)
    moreover have "tolower (chars ! n) \<noteq> marker"
      using False by (simp add: M_def)
    ultimately show ?thesis using False gap_open_below [of M n]
      by (intro exI [of _ em]) (auto simp: em gap_Suc gap_open_Suc some_below_Suc)
  qed
qed

definition marked :: "DataFilter \<Rightarrow> char \<Rightarrow> nat \<Rightarrow> bool" where
  "marked f marker i \<longleftrightarrow> i < FilterSize \<and> tolower (filter_chars f ! i) = tolower marker"

lemma gap_cong: "(\<And>i. i < n \<Longrightarrow> M i = N i) \<Longrightarrow> gap M n = gap N n"
  unfolding gap_def by (meson less_trans)

lemma make_cache_entry_eq:
  "\<exists>em. make_cache_entry f marker = \<lparr>extractMask = em, needGather = gap (marked f marker) FilterSize,
       extractShift = trailing_zeroes em, extractBits = length (positions em)\<rparr>
     \<and> (\<forall>j. bit em j \<longleftrightarrow> marked f marker j)"
proof -
  let ?M = "\<lambda>i. tolower (filter_chars f ! i) = tolower marker"
  from scan_loop [of 32 "filter_chars f" "tolower marker"] obtain em
    where em: "fold (scan_step (filter_chars f) (tolower marker)) [0..<32] (0, False, False, False)
       = (em, gap ?M 32, some_below ?M 32, gap_open ?M 32)"
      and bits: "\<forall>j. bit em j \<longleftrightarrow> j < 32 \<and> ?M j" by auto
  have "gap ?M 32 = gap (marked f marker) 32"
    by (rule gap_cong) (simp add: marked_def FilterSize_def)
  then have "make_cache_entry f marker = \<lparr>extractMask = em, needGather = gap (marked f marker) 32,
       extractShift = trailing_zeroes em, extractBits = length (positions em)\<rparr>"
    unfolding make_cache_entry_def FilterSize_def em Let_def prod.case number_of_set_bits_eq by simp
  with bits show ?thesis
    by (intro exI [of _ em]) (simp only: FilterSize_def marked_def simp_thms)
qed

lemma bit_extractMask [bit_rules]: "bit (extractMask (make_cache_entry f c)) j \<longleftrightarrow> marked f c j"
proof -
  from make_cache_entry_eq [of f c] obtain em
    where "extractMask (make_cache_entry f c) = em" and "\<forall>j. bit em j \<longleftrightarrow> marked f c j"
    by (metis CacheEntry.select_convs(1))
  then show ?thesis by blast
qed

lemma positions_extractMask:
  "positions (extractMask (make_cache_entry f c)) = filter (marked f c) [0..<32]"
proof -
  have "bit (extractMask (make_cache_entry f c)) = marked f c"
    by (rule ext) (simp only: bit_extractMask)
  then show ?thesis by (simp only: positions_def)
qed

lemma extractBits_eq: "extractBits (make_cache_entry f c) = length (positions (extractMask (make_cache_entry f c)))"
  using make_cache_entry_eq [of f c] by auto

lemma extractShift_eq: "extractShift (make_cache_entry f c) = trailing_zeroes (extractMask (make_cache_entry f c))"
  using make_cache_entry_eq [of f c] by auto

lemma needGather_eq: "needGather (make_cache_entry f c) = gap (marked f c) FilterSize"
  using make_cache_entry_eq [of f c] by auto

lemma extractBits_le: "extractBits (make_cache_entry f c) \<le> 32"
  by (simp add: extractBits_eq length_positions)

section \<open>Extraction gathers the marked bits\<close>

lemma no_gap_contiguous:
  assumes "\<not> gap (bit m) 32"
  shows "\<exists>k. positions m = [lowest m..<lowest m + k]"
proof (cases "m = 0")
  case True
  then show ?thesis by (intro exI [of _ 0]) simp
next
  case False
  define t where "t = Max {i. bit m i}"
  have fin: "finite {i. bit m i}"
    by (metis List.finite_set set_positions)
  have low: "bit m (lowest m)" "\<And>j. j < lowest m \<Longrightarrow> \<not> bit m j"
    using lowest_bit [OF False] by blast+
  have t: "bit m t" "\<And>j. bit m j \<Longrightarrow> j \<le> t"
    using Max_in [OF fin] Max_ge [OF fin] low(1) unfolding t_def by blast+
  have t32: "t < 32" using bit_imp_le_length [OF t(1)] by simp
  have "bit m j" if "lowest m \<le> j" "j \<le> t" for j
  proof (rule ccontr)
    assume "\<not> bit m j"
    with that low(1) t(1) have "lowest m < j" "j < t"
      by (metis order_le_less)+
    with assms low(1) t(1) t32 \<open>\<not> bit m j\<close> show False unfolding gap_def by blast
  qed
  then have "bit m j \<longleftrightarrow> lowest m \<le> j \<and> j \<le> t" for j
    using low(2) t(2) linorder_not_less by blast
  moreover have "lowest m \<le> t" using t(2) low(1) by blast
  moreover have "set [lowest m..<Suc t] = {j. lowest m \<le> j \<and> j \<le> t}" by auto
  ultimately have "positions m = [lowest m..<lowest m + (Suc t - lowest m)]"
    using sorted_upt [of "lowest m" "Suc t"] by (intro positions_unique) (simp_all del: upt_Suc)
  then show ?thesis by blast
qed

text \<open>Mask and shift, with a gather step only where the mask has a gap, gathers the bits.\<close>

lemma shift_or_gather:
  "(if gap (bit m) 32
    then bit_gather (drop_bit (trailing_zeroes m) (v AND m)) (drop_bit (trailing_zeroes m) m)
    else drop_bit (trailing_zeroes m) (v AND m)) = gather_spec v m"
proof (cases "gap (bit m) 32")
  case True
  then have "m \<noteq> 0" unfolding gap_def by auto
  from gather_drop_bit [of "lowest m" m v, OF lowest_bit(3) [OF this]] True show ?thesis
    by (simp only: trailing_zeroes_eq [OF \<open>m \<noteq> 0\<close>] bit_gather_eq if_True)
next
  case False
  from no_gap_contiguous [OF this] obtain k where "positions m = [lowest m..<lowest m + k]"
    by blast
  from gather_contiguous [OF this, of v] False show ?thesis
    by (cases "m = 0") (simp_all add: trailing_zeroes_eq)
qed

lemma gap_bits:
  assumes "\<And>j. bit em j \<longleftrightarrow> j < n \<and> M j" "n \<le> 32"
  shows "gap (bit em) 32 = gap M n"
proof
  assume "gap (bit em) 32"
  then show "gap M n" unfolding gap_def using assms(1) by (meson less_trans)
next
  assume "gap M n"
  then show "gap (bit em) 32" unfolding gap_def using assms by (meson less_le_trans less_trans)
qed

lemma extract_value_eq:
  "extract_value (make_cache_entry f c) v = gather_spec v (extractMask (make_cache_entry f c))"
proof -
  define m where "m = extractMask (make_cache_entry f c)"
  have gap: "needGather (make_cache_entry f c) = gap (bit m) 32"
    unfolding needGather_eq FilterSize_def m_def
    by (rule gap_cong) (simp only: bit_extractMask)
  show ?thesis
    unfolding extract_value_def Let_def gap extractShift_eq m_def [symmetric]
    by (rule shift_or_gather)
qed

lemma extract_value_less: "unat (extract_value (make_cache_entry f c) v) < 2 ^ extractBits (make_cache_entry f c)"
  by (simp only: extract_value_eq extractBits_eq gather_spec_less)

section \<open>Printing\<close>

lemma to_string_eq: "to_string f = rev (filter_chars f)"
  unfolding to_string_def
  by (subst fold_update_nth [where k = "length (filter_chars f)"])
    (auto intro!: nth_equalityI simp: rev_nth)

lemma filter_chars_make_filter:
  "make_filter raw wi = Inr f \<Longrightarrow>
   filter_chars f = rev (remove_spaces raw) @ replicate (FilterSize - length (remove_spaces raw)) CHR ''X''"
  by (auto simp: make_filter_eq fill_filter_eq split: if_splits)

lemma make_filter_cong:
  assumes "make_filter raw wi = Inr f" "length (remove_spaces raw') \<le> FilterSize"
    and "fill_filter (remove_spaces raw') = fill_filter (remove_spaces raw)"
  shows "make_filter raw' wi = Inr f"
  using assms by (auto simp: make_filter_eq split: if_splits)

lemma to_string_no_spaces:
  assumes "make_filter raw wi = Inr f"
  shows "remove_spaces (to_string f) = to_string f"
  using filter_chars_make_filter [OF assms]
  by (auto simp: to_string_eq remove_spaces_eq filter_id_conv)

section \<open>Evaluation on concrete filters\<close>

lemma upt_32: "[0..<32] =
  [0, 1, 2, 3, 4, 5, 6, 7, 8, 9, 10, 11, 12, 13, 14, 15, 16, 17, 18, 19, 20, 21, 22, 23, 24, 25, 26,
   27, 28, 29, 30, 31 :: nat]"
  by (simp add: upt_conv_Cons_Cons upt_rec)

lemma tolower_eval:
  "tolower CHR ''0'' = CHR ''0''" "tolower CHR ''1'' = CHR ''1''" "tolower CHR ''A'' = CHR ''a''"
  "tolower CHR ''D'' = CHR ''d''" "tolower CHR ''X'' = CHR ''x''" "tolower CHR ''S'' = CHR ''s''"
  by code_simp+

lemmas filter_eval = make_filter_eq fill_filter_eq FilterSize_def is_match_char_def is_one_char_def upt_32

lemmas cache_eval = make_cache_entry_def FilterSize_def tolower_eval number_of_set_bits_def upt_32
  trailing_zeroes_def MultiplyDeBruijnBitPosition_def

section \<open>Properties\<close>

text \<open>A filter string that \<^verbatim>\<open>make_filter\<close> accepts selects exactly the words whose bits agree with
  its fixed characters, where the last character of the string stands for bit 0 and characters that
  are missing on the left match anything, and whose index in the event is the one asked for (any
  index for a negative one). Strings of more than 32 non-blank characters are rejected.\<close>

theorem make_filter_matches:
  "case make_filter raw wi of
     Inl e \<Rightarrow> e = LengthError \<and> 32 < length (remove_spaces raw)
   | Inr f \<Rightarrow> length (remove_spaces raw) \<le> 32 \<and>
       (\<forall>v i. matches f v i =
          ((wi < 0 \<or> i = wi) \<and>
           list_all2 (\<lambda>c b. is_match_char c \<longrightarrow> b = is_one_char c)
             (remove_spaces raw)
             (rev (map (bit v) [0..<length (remove_spaces raw)]))))"
proof (cases "make_filter raw wi")
  case (Inl e)
  then show ?thesis using make_filter_error_iff [of raw wi e] by (simp add: FilterSize_def)
next
  case (Inr f)
  define s where "s = remove_spaces raw"
  have len: "length s \<le> 32" using Inr by (simp add: make_filter_eq s_def FilterSize_def split: if_splits)
  have wi: "matchWordIndex f = wi" using Inr by (auto simp: make_filter_eq split: if_splits)
  have chars: "filter_chars f ! i = (if i < length s then rev s ! i else CHR ''X'')" if "i < 32" for i
    using that by (simp add: filter_chars_make_filter [OF Inr] s_def nth_append FilterSize_def)
  have "(\<forall>i < FilterSize. is_match_char (filter_chars f ! i) \<longrightarrow> bit v i = is_one_char (filter_chars f ! i))
      \<longleftrightarrow> list_all2 (\<lambda>c b. is_match_char c \<longrightarrow> b = is_one_char c) s (rev (map (bit v) [0..<length s]))"
    (is "?L \<longleftrightarrow> ?R") for v :: u32
  proof -
    have "?L \<longleftrightarrow> (\<forall>i < length s. is_match_char (rev s ! i) \<longrightarrow> bit v i = is_one_char (rev s ! i))"
      using len by (auto simp: FilterSize_def chars is_match_char_def [of "CHR ''X''"])
    also have "\<dots> \<longleftrightarrow> list_all2 (\<lambda>c b. is_match_char c \<longrightarrow> b = is_one_char c) (rev s) (map (bit v) [0..<length s])"
      by (auto simp: list_all2_conv_all_nth)
    also have "\<dots> \<longleftrightarrow> ?R"
      using list_all2_rev [of _ "rev s" "map (bit v) [0..<length s]"] by simp
    finally show ?thesis .
  qed
  then show ?thesis
    using Inr len wi by (auto simp: matches_iff_chars [OF make_filter_wf [OF Inr]] s_def)
qed

theorem make_filter_matches_witness:
  "\<exists>f. make_filter ''1A0D'' 2 = Inr f \<and> matches f 0xD 2 \<and> \<not> matches f 0x5 2 \<and> \<not> matches f 0xD 3"
proof -
  obtain f where f: "make_filter ''1A0D'' 2 = Inr f" by (simp add: make_filter_eq FilterSize_def)
  have "matches f 0xD 2 \<and> \<not> matches f 0x5 2 \<and> \<not> matches f 0xD 3"
    using make_filter_matches [of "''1A0D''" 2]
    by (simp add: f is_match_char_def is_one_char_def upt_rec)
  with f show ?thesis by blast
qed

text \<open>\<^verbatim>\<open>extract\<close> computes the same value in both builds: the mask-and-shift with an optional gather
  step of a plain build, and the unconditional \<^verbatim>\<open>bit_gather\<close> of a BMI2 build.\<close>

theorem extract_builds_agree:
  "extract_value (make_cache_entry f c) v = extract_always_gather (make_cache_entry f c) v"
  by (simp only: extract_value_eq extract_always_gather_def bit_gather_eq)

text \<open>C32: the extracted value packs the bits of the word under the marker character, in their order
  and case-insensitively, and nothing else: bit \<open>i\<close> of the result is the word's bit at the
  \<open>i\<close>-th position of the marker, and the result is below two to the number of marked bits.\<close>

theorem extract_value_bits:
  "bit (extract_value (make_cache_entry f c) v) i =
     (i < extractBits (make_cache_entry f c) \<and>
      bit v (filter (\<lambda>k. tolower (filter_chars f ! k) = tolower c) [0..<32] ! i)) \<and>
   extractBits (make_cache_entry f c) =
     length (filter (\<lambda>k. tolower (filter_chars f ! k) = tolower c) [0..<32]) \<and>
   unat (extract_value (make_cache_entry f c) v) < 2 ^ extractBits (make_cache_entry f c)"
proof -
  have "filter (marked f c) [0..<32] = filter (\<lambda>k. tolower (filter_chars f ! k) = tolower c) [0..<32]"
    by (rule filter_cong) (auto simp: marked_def FilterSize_def)
  then show ?thesis
    using extract_value_less [of f c v]
    by (simp only: extract_value_eq bit_gather_spec extractBits_eq positions_extractMask simp_thms)
qed

text \<open>The printed form of a filter is one of its sources: \<^verbatim>\<open>make_filter\<close> of \<^verbatim>\<open>to_string\<close> gives the
  filter back.\<close>

theorem to_string_roundtrip:
  assumes "make_filter raw wi = Inr f"
  shows "make_filter (to_string f) wi = Inr f"
proof (rule make_filter_cong [OF assms])
  have len: "length (filter_chars f) = 32" using make_filter_wf [OF assms] by (simp add: wf_filter_def FilterSize_def)
  show "length (remove_spaces (to_string f)) \<le> FilterSize"
    using len to_string_no_spaces [OF assms] by (simp add: to_string_eq FilterSize_def)
  show "fill_filter (remove_spaces (to_string f)) = fill_filter (remove_spaces raw)"
  proof -
    have "length (remove_spaces raw) \<le> FilterSize"
      using assms by (simp add: make_filter_eq split: if_splits)
    moreover have "remove_spaces (to_string f) = rev (filter_chars f)"
      using to_string_no_spaces [OF assms] by (simp add: to_string_eq)
    ultimately show ?thesis
      using len by (simp add: fill_filter_eq FilterSize_def filter_chars_make_filter [OF assms])
  qed
qed

theorem to_string_roundtrip_witness:
  "\<exists>f. make_filter ''01 AXD'' 3 = Inr f \<and> make_filter (to_string f) 3 = Inr f
     \<and> to_string f = ''XXXXXXXXXXXXXXXXXXXXXXXXXXX01AXD''"
proof -
  have "case make_filter ''01 AXD'' 3 of Inl _ \<Rightarrow> False
      | Inr f \<Rightarrow> to_string f = ''XXXXXXXXXXXXXXXXXXXXXXXXXXX01AXD''"
    by code_simp
  then obtain f where "make_filter ''01 AXD'' 3 = Inr f"
    and "to_string f = ''XXXXXXXXXXXXXXXXXXXXXXXXXXX01AXD''"
    by (auto split: sum.splits)
  then show ?thesis using to_string_roundtrip by blast
qed

end
