(* ===== verification/Multiword_Spec.thy ===== *)
theory Multiword_Spec
  imports Data_Filter
begin

text \<open>
  What a multi-word filter promises, independently of how its state is kept: a row of parts, each
  with a filter and the data word it has matched so far; a data word goes to the first part that is
  still open and accepts it; the result is the concatenation of the extracted values, lowest bits
  first. Both implementations (\<^verbatim>\<open>a2::data_filter::MultiWordFilter\<close> and \<^verbatim>\<open>MultiWordDataFilter\<close>) refine
  this machine. The interface they rely on is the locale \<open>subfilter\<close>.
\<close>

section \<open>The abstract machine\<close>

type_synonym 'f parts = "('f \<times> u32 option) list"

fun offer :: "('f \<Rightarrow> bool) \<Rightarrow> u32 \<Rightarrow> 'f parts \<Rightarrow> 'f parts" where
  "offer h w [] = []"
| "offer h w ((f, Some x) # ps) = (f, Some x) # offer h w ps"
| "offer h w ((f, None) # ps) = (if h f then (f, Some w) # ps else (f, None) # offer h w ps)"

definition complete :: "'f parts \<Rightarrow> bool" where
  "complete ps \<longleftrightarrow> (\<forall>p \<in> set ps. snd p \<noteq> None)"

definition open_parts :: "'f parts \<Rightarrow> nat" where
  "open_parts ps = length (filter (\<lambda>p. snd p = None) ps)"

lemma offer_filters [simp]: "map fst (offer h w ps) = map fst ps"
  by (induction h w ps rule: offer.induct) auto

lemma offer_keeps: "p \<in> set ps \<Longrightarrow> snd p \<noteq> None \<Longrightarrow> p \<in> set (offer h w ps)"
  by (induction h w ps rule: offer.induct) auto

lemma open_parts_offer:
  "open_parts (offer h w ps) = (if \<exists>p \<in> set ps. snd p = None \<and> h (fst p) then open_parts ps - 1 else open_parts ps)"
proof (induction h w ps rule: offer.induct)
  case (3 h w f ps)
  show ?case
  proof (cases "h f")
    case True
    then show ?thesis by (auto simp: open_parts_def)
  next
    case False
    have "0 < length (filter (\<lambda>p. snd p = None) ps)" if "(g, None) \<in> set ps" for g
      using that by (force simp: length_greater_0_conv filter_empty_conv)
    with 3 False show ?thesis by (auto simp: open_parts_def Suc_diff_1)
  qed
qed (auto simp: open_parts_def)

lemma offer_nothing: "(\<And>f x. (f, x) \<in> set ps \<Longrightarrow> x = None \<Longrightarrow> \<not> h f) \<Longrightarrow> offer h w ps = ps"
  by (induction h w ps rule: offer.induct) auto

lemma complete_iff_open_parts: "complete ps \<longleftrightarrow> open_parts ps = 0"
  by (auto simp: complete_def open_parts_def filter_empty_conv)

text \<open>Offering at the index of the first part that takes the word.\<close>

lemma offer_nth:
  assumes "i < length ps" "ps ! i = (f, None)" "h f"
    and "\<And>j. j < i \<Longrightarrow> snd (ps ! j) = None \<Longrightarrow> \<not> h (fst (ps ! j))"
  shows "offer h w ps = ps[i := (f, Some w)]"
  using assms
proof (induction h w ps arbitrary: i rule: offer.induct)
  case (1 h w)
  then show ?case by simp
next
  case (2 h w g x ps)
  then obtain k where "i = Suc k" by (cases i) auto
  moreover have "snd (ps ! j) = None \<Longrightarrow> \<not> h (fst (ps ! j))" if "j < k" for j
    using "2.prems"(4) [of "Suc j"] that \<open>i = Suc k\<close> by simp
  ultimately show ?case using "2.IH" [of k] "2.prems" by simp
next
  case (3 h w g ps)
  show ?case
  proof (cases i)
    case 0
    then show ?thesis using "3.prems" by simp
  next
    case (Suc k)
    have "snd (ps ! j) = None \<Longrightarrow> \<not> h (fst (ps ! j))" if "j < k" for j
      using "3.prems"(4) [of "Suc j"] that Suc by simp
    moreover have "\<not> h g" using "3.prems"(4) [of 0] Suc by simp
    ultimately show ?thesis using "3.IH" [of k] "3.prems" Suc by simp
  qed
qed

section \<open>Concatenation of the extracted values\<close>

text \<open>The loop \<open>result |= u64(value) << shift; shift += bits\<close> of both implementations.
  \<^const>\<open>None\<close>: a shift by 64 or more, which C++ leaves undefined.\<close>

fun or_shifted :: "(u32 \<times> nat) list \<Rightarrow> u64 \<Rightarrow> nat \<Rightarrow> u64 option" where
  "or_shifted [] result shift = Some result"
| "or_shifted ((v, b) # ps) result shift =
     (if shift < 64 then or_shifted ps (result OR push_bit shift (ucast v)) (shift + b) else None)"

fun parts_value :: "(u32 \<times> nat) list \<Rightarrow> nat" where
  "parts_value [] = 0"
| "parts_value ((v, b) # ps) = unat v + 2 ^ b * parts_value ps"

definition parts_fit :: "(u32 \<times> nat) list \<Rightarrow> bool" where
  "parts_fit ps \<longleftrightarrow> (\<forall>(v, b) \<in> set ps. unat v < 2 ^ b)"

lemma or_below_push:
  fixes r x :: u64
  assumes "unat r < 2 ^ s"
  shows "r OR push_bit s x = r + push_bit s x"
proof -
  have "\<not> bit r i" if "s \<le> i" for i
  proof -
    have "unat r < 2 ^ i"
      using assms that by (meson less_le_trans one_le_numeral power_increasing)
    then have "\<not> bit (unat r) i" by (simp add: bit_iff_odd)
    then show ?thesis by (simp add: bit_unsigned_iff)
  qed
  then have "\<not> bit (r AND push_bit s x) i" for i
    by (auto simp only: bit_and_iff bit_push_bit_iff)
  then have "r AND push_bit s x = 0"
    by (intro bit_word_eqI) simp
  then show ?thesis by (simp add: disjunctive_add_eq_or)
qed

lemma unat_add_push:
  fixes r :: u64 and v :: u32
  shows "unat (r + push_bit s (ucast v)) = (unat r + 2 ^ s * unat v) mod 2 ^ 64"
proof -
  have "unat (ucast v :: u64) = unat v"
    using unsigned_less [of v, where 'a = nat]
    by (simp add: unsigned_ucast_eq take_bit_nat_eq_self_iff less_le_trans)
  then have "unat (push_bit s (ucast v :: u64)) = take_bit 64 (push_bit s (unat v))"
    by (simp only: unsigned_push_bit_eq) simp
  then have push: "unat (push_bit s (ucast v :: u64)) = (2 ^ s * unat v) mod 2 ^ 64"
    by (simp only: take_bit_eq_mod push_bit_eq_mult mult.commute)
  show ?thesis
    unfolding unat_word_ariths push by (simp add: mod_simps)
qed

lemma or_shifted_value:
  "or_shifted ps r s = Some r' \<Longrightarrow> parts_fit ps \<Longrightarrow> unat r < 2 ^ s \<Longrightarrow>
   unat r' = (unat r + 2 ^ s * parts_value ps) mod 2 ^ 64"
proof (induction ps r s rule: or_shifted.induct)
  case (1 r s)
  then show ?case using unsigned_less [of r', where 'a = nat] by simp
next
  case (2 v b ps r s)
  define r2 where "r2 = r + push_bit s (ucast v)"
  have r2: "unat r2 = (unat r + 2 ^ s * unat v) mod 2 ^ 64"
    by (simp add: r2_def unat_add_push)
  have v: "unat v < 2 ^ b" and fit: "parts_fit ps" using "2.prems" by (auto simp: parts_fit_def)
  have "unat r + 2 ^ s * unat v < 2 ^ s * (unat v + 1)" using "2.prems"(3) by simp
  also have "\<dots> \<le> 2 ^ (s + b)" using v by (simp only: power_add) (intro mult_le_mono2, simp)
  finally have "unat r2 < 2 ^ (s + b)"
    unfolding r2 by (meson le_less_trans mod_less_eq_dividend)
  moreover have "s < 64" "or_shifted ps r2 (s + b) = Some r'"
    using "2.prems"(1) or_below_push [OF "2.prems"(3)] by (simp_all add: r2_def split: if_splits)
  ultimately have "unat r' = (unat r2 + 2 ^ (s + b) * parts_value ps) mod 2 ^ 64"
    using "2.IH" or_below_push [OF "2.prems"(3)] fit unfolding r2_def by metis
  also have "\<dots> = (unat r + 2 ^ s * (unat v + 2 ^ b * parts_value ps)) mod 2 ^ 64"
    unfolding r2 by (simp only: mod_add_left_eq power_add distrib_left add.assoc mult.assoc)
  finally show ?case by simp
qed

lemma or_shifted_None_iff:
  "or_shifted ps r s = None \<longleftrightarrow> ps \<noteq> [] \<and> 64 \<le> s + sum_list (map snd (butlast ps))"
proof (induction ps r s rule: or_shifted.induct)
  case (2 v b ps r s)
  then show ?case by (cases "ps = []") (auto simp: add.assoc)
qed simp

lemma parts_value_less: "parts_fit ps \<Longrightarrow> parts_value ps < 2 ^ sum_list (map snd ps)"
proof (induction ps rule: parts_value.induct)
  case (2 v b ps)
  then have "unat v < 2 ^ b" and IH: "parts_value ps < 2 ^ sum_list (map snd ps)"
    by (auto simp: parts_fit_def)
  then have "unat v + 2 ^ b * parts_value ps < 2 ^ b * (parts_value ps + 1)" by simp
  also have "\<dots> \<le> 2 ^ b * 2 ^ sum_list (map snd ps)" using IH by (intro mult_le_mono2) simp
  finally show ?case by (simp add: power_add)
qed simp

text \<open>Each value can be read back from its own place.\<close>

lemma parts_value_nth:
  "parts_fit ps \<Longrightarrow> i < length ps \<Longrightarrow>
   parts_value ps div 2 ^ sum_list (map snd (take i ps)) mod 2 ^ snd (ps ! i) = unat (fst (ps ! i))"
proof (induction ps arbitrary: i rule: parts_value.induct)
  case (2 v b ps)
  then have v: "unat v < 2 ^ b" and fit: "parts_fit ps" by (auto simp: parts_fit_def)
  show ?case
  proof (cases i)
    case 0
    then show ?thesis using v by simp
  next
    case (Suc k)
    have "(unat v + 2 ^ b * parts_value ps) div 2 ^ (b + sum_list (map snd (take k ps)))
        = parts_value ps div 2 ^ sum_list (map snd (take k ps))"
      using v by (simp add: power_add div_mult2_eq)
    with Suc 2(1) [OF fit, of k] 2(3) show ?thesis by simp
  qed
qed simp

section \<open>The interface of a subfilter\<close>

locale subfilter =
  fixes part :: "'f \<Rightarrow> u32 \<Rightarrow> u32"
    and width :: "'f \<Rightarrow> nat"
  assumes part_less: "unat (part f w) < 2 ^ width f"
begin

abbreviation pieces :: "('f \<times> u32) list \<Rightarrow> (u32 \<times> nat) list" where
  "pieces fws \<equiv> map (\<lambda>(f, w). (part f w, width f)) fws"

lemma pieces_fit: "parts_fit (pieces fws)"
  by (auto simp: parts_fit_def part_less)

lemma pieces_widths: "map snd (pieces fws) = map (width \<circ> fst) fws"
  by (induction fws) auto

lemma assembled_value:
  assumes "or_shifted (pieces fws) 0 0 = Some r"
  shows "unat r = parts_value (pieces fws) mod 2 ^ 64"
  using or_shifted_value [OF assms pieces_fit] by simp

lemma assembled_total:
  assumes "or_shifted (pieces fws) 0 0 = Some r" "sum_list (map (width \<circ> fst) fws) \<le> 64"
  shows "unat r = parts_value (pieces fws)" and "unat r < 2 ^ sum_list (map (width \<circ> fst) fws)"
proof -
  have less: "parts_value (pieces fws) < 2 ^ sum_list (map (width \<circ> fst) fws)"
    using parts_value_less [OF pieces_fit, of fws] by (simp only: pieces_widths)
  also have "(2 :: nat) ^ sum_list (map (width \<circ> fst) fws) \<le> 2 ^ 64"
    using assms(2) by (rule power_increasing) simp
  finally show "unat r = parts_value (pieces fws)" by (simp only: assembled_value [OF assms(1)] mod_less)
  with less show "unat r < 2 ^ sum_list (map (width \<circ> fst) fws)" by simp
qed

lemma assembled_nth:
  assumes "or_shifted (pieces fws) 0 0 = Some r" "sum_list (map (width \<circ> fst) fws) \<le> 64"
    and "i < length fws"
  shows "unat r div 2 ^ sum_list (map (width \<circ> fst) (take i fws)) mod 2 ^ width (fst (fws ! i))
       = unat (part (fst (fws ! i)) (snd (fws ! i)))"
  using parts_value_nth [OF pieces_fit, of i fws] assms(3)
  by (simp add: assembled_total(1) [OF assms(1,2)] take_map comp_def case_prod_beta)

end

interpretation a2_sub: subfilter "\<lambda>(f, c). extract_value (make_cache_entry f c)"
  "\<lambda>(f, c). extractBits (make_cache_entry f c)"
  by unfold_locales (auto simp: extract_value_less)

end
