(* ===== verification/Multiword_Filter.thy ===== *)
theory Multiword_Filter
  imports Multiword_Spec
begin

text \<open>
  \<^verbatim>\<open>src/src/analysis/a2/multiword_datafilter.h\<close>: up to 16 subfilters whose extracted values are
  concatenated to one 64-bit value. The arrays are lists of length 16; \<^verbatim>\<open>results\<close> is not initialised
  by the constructor, so its first contents are an argument of \<open>new_filter\<close>.
\<close>

section \<open>State and operations\<close>

datatype CacheType = CacheA | CacheD

definition MaxFilters :: nat where
  "MaxFilters = 16"

record MultiWordFilter =
  filters :: "DataFilter list"
  results :: "u32 list"
  cacheA :: "CacheEntry list"
  cacheD :: "CacheEntry list"
  filterCount :: nat
  completionMask :: u16

definition empty_data_filter :: DataFilter where
  "empty_data_filter = \<lparr>filter_chars = replicate 32 CHR 0x00, matchMask = 0, matchValue = 0, matchWordIndex = - 1\<rparr>"

definition empty_cache_entry :: CacheEntry where
  "empty_cache_entry = \<lparr>extractMask = 0, needGather = False, extractShift = 0, extractBits = 0\<rparr>"

definition new_filter :: "u32 list \<Rightarrow> MultiWordFilter" where
  "new_filter uninitialised =
     \<lparr>filters = replicate MaxFilters empty_data_filter, results = uninitialised,
      cacheA = replicate MaxFilters empty_cache_entry, cacheD = replicate MaxFilters empty_cache_entry,
      filterCount = 0, completionMask = 0\<rparr>"

definition caches :: "MultiWordFilter \<Rightarrow> CacheType \<Rightarrow> CacheEntry list" where
  "caches f t = (case t of CacheA \<Rightarrow> cacheA f | CacheD \<Rightarrow> cacheD f)"

definition clear_completion :: "MultiWordFilter \<Rightarrow> MultiWordFilter" where
  "clear_completion f = f\<lparr>completionMask := 0\<rparr>"

definition add_subfilter :: "MultiWordFilter \<Rightarrow> DataFilter \<Rightarrow> exn + MultiWordFilter" where
  "add_subfilter f sub =
     (if MaxFilters \<le> filterCount f then Inl OutOfRange
      else Inr (clear_completion
        (f\<lparr>filters := (filters f)[filterCount f := sub],
           cacheA := (cacheA f)[filterCount f := make_cache_entry sub CHR ''A''],
           cacheD := (cacheD f)[filterCount f := make_cache_entry sub CHR ''D''],
           filterCount := filterCount f + 1\<rparr>)))"

fun add_subfilters :: "MultiWordFilter \<Rightarrow> DataFilter list \<Rightarrow> exn + MultiWordFilter" where
  "add_subfilters f [] = Inr f"
| "add_subfilters f (s # ss) =
     (case add_subfilter f s of Inl e \<Rightarrow> Inl e | Inr g \<Rightarrow> add_subfilters g ss)"

definition is_complete :: "MultiWordFilter \<Rightarrow> bool" where
  "is_complete f \<longleftrightarrow> number_of_set_bits (ucast (completionMask f)) = filterCount f"

fun process_loop :: "nat list \<Rightarrow> MultiWordFilter \<Rightarrow> u32 \<Rightarrow> s32 \<Rightarrow> MultiWordFilter" where
  "process_loop [] f dataWord wordIndex = f"
| "process_loop (i # is) f dataWord wordIndex =
     (let partMask = push_bit i 1
      in if completionMask f AND partMask = 0 \<and> matches (filters f ! i) dataWord wordIndex
         then f\<lparr>results := (results f)[i := dataWord],
                completionMask := completionMask f OR partMask\<rparr>
         else process_loop is f dataWord wordIndex)"

definition process_data :: "MultiWordFilter \<Rightarrow> u32 \<Rightarrow> s32 \<Rightarrow> MultiWordFilter \<times> bool" where
  "process_data f dataWord wordIndex =
     (let g = process_loop [0..<filterCount f] f dataWord wordIndex in (g, is_complete g))"

text \<open>\<^const>\<open>None\<close>: a shift of the 64-bit value by 64 or more, which is undefined in C++.\<close>

definition extract_result :: "MultiWordFilter \<Rightarrow> CacheType \<Rightarrow> u64 option" where
  "extract_result f t =
     or_shifted
       (map (\<lambda>i. (extract_value (caches f t ! i) (results f ! i), extractBits (caches f t ! i)))
          [0..<filterCount f]) 0 0"

fun sum_bits :: "nat list \<Rightarrow> u16 \<Rightarrow> u16" where
  "sum_bits [] result = result"
| "sum_bits (b # bs) result = sum_bits bs (result + of_nat b)"

definition get_extract_bits :: "MultiWordFilter \<Rightarrow> CacheType \<Rightarrow> u16" where
  "get_extract_bits f t = sum_bits (map (\<lambda>i. extractBits (caches f t ! i)) [0..<filterCount f]) 0"

section \<open>Well-formed filters\<close>

definition cache_char :: "CacheType \<Rightarrow> char" where
  "cache_char t = (case t of CacheA \<Rightarrow> CHR ''A'' | CacheD \<Rightarrow> CHR ''D'')"

definition wf_multi :: "MultiWordFilter \<Rightarrow> bool" where
  "wf_multi f \<longleftrightarrow>
     length (filters f) = MaxFilters \<and> length (results f) = MaxFilters \<and>
     (\<forall>t. length (caches f t) = MaxFilters) \<and> filterCount f \<le> MaxFilters \<and>
     (\<forall>i. bit (completionMask f) i \<longrightarrow> i < filterCount f) \<and>
     (\<forall>i < filterCount f. \<forall>t. caches f t ! i = make_cache_entry (filters f ! i) (cache_char t))"

lemma wf_new_filter [wf_rules]: "length r = 16 \<Longrightarrow> wf_multi (new_filter r)"
  by (auto simp: wf_multi_def new_filter_def caches_def MaxFilters_def split: CacheType.splits)

lemma caches_simps [simp]:
  "caches (f\<lparr>results := r\<rparr>) t = caches f t" "caches (f\<lparr>completionMask := m\<rparr>) t = caches f t"
  by (simp_all add: caches_def split: CacheType.splits)

lemma wf_clear_completion [wf_rules]: "wf_multi f \<Longrightarrow> wf_multi (clear_completion f)"
  by (simp add: wf_multi_def clear_completion_def)

lemma caches_add:
  "add_subfilter f s = Inr g \<Longrightarrow>
   caches g t = (caches f t)[filterCount f := make_cache_entry s (cache_char t)]"
  by (auto simp: add_subfilter_def clear_completion_def caches_def cache_char_def
      split: if_splits CacheType.splits)

lemma add_subfilter_simps:
  assumes "add_subfilter f s = Inr g"
  shows "filters g = (filters f)[filterCount f := s]" "results g = results f"
    "filterCount g = filterCount f + 1" "completionMask g = 0" "filterCount f < MaxFilters"
  using assms by (auto simp: add_subfilter_def clear_completion_def split: if_splits)

lemma wf_add_subfilter [wf_rules]:
  assumes "wf_multi f" "add_subfilter f s = Inr g"
  shows "wf_multi g"
  using assms add_subfilter_simps [OF assms(2)]
  by (auto simp: wf_multi_def caches_add [OF assms(2)] nth_list_update less_Suc_eq)

lemma add_subfilter_error: "add_subfilter f s = Inl e \<longleftrightarrow> e = OutOfRange \<and> MaxFilters \<le> filterCount f"
  by (auto simp: add_subfilter_def)

lemma add_subfilters_wf [wf_rules]:
  "wf_multi f \<Longrightarrow> add_subfilters f ss = Inr g \<Longrightarrow> wf_multi g"
  by (induction f ss rule: add_subfilters.induct) (auto split: sum.splits intro: wf_add_subfilter)

lemma add_subfilters_filters:
  "wf_multi f \<Longrightarrow> add_subfilters f ss = Inr g \<Longrightarrow>
   take (filterCount g) (filters g) = take (filterCount f) (filters f) @ ss \<and>
   filterCount g = filterCount f + length ss \<and> (ss \<noteq> [] \<longrightarrow> completionMask g = 0)"
proof (induction f ss arbitrary: rule: add_subfilters.induct)
  case (2 f s ss)
  then obtain h where h: "add_subfilter f s = Inr h" "add_subfilters h ss = Inr g"
    by (auto split: sum.splits)
  have len: "filterCount f < length (filters f)"
    using add_subfilter_simps(5) [OF h(1)] "2.prems"(1) by (simp add: wf_multi_def)
  from h(2) have "ss = [] \<Longrightarrow> g = h" by auto
  with "2.IH" [OF h(1) wf_add_subfilter [OF "2.prems"(1) h(1)] h(2)] len
  show ?case
    by (cases "ss = []") (auto simp: add_subfilter_simps [OF h(1)] take_Suc_conv_app_nth)
qed simp

lemma add_subfilters_error:
  "add_subfilters f ss = Inl e \<longleftrightarrow> e = OutOfRange \<and> ss \<noteq> [] \<and> MaxFilters < filterCount f + length ss"
proof (induction f ss rule: add_subfilters.induct)
  case (2 f s ss)
  show ?case
  proof (cases "add_subfilter f s")
    case (Inl e')
    then show ?thesis using add_subfilter_error [of f s e'] by auto
  next
    case (Inr g)
    then show ?thesis
      using 2 [OF Inr] add_subfilter_simps [OF Inr] by (cases ss) auto
  qed
qed simp

section \<open>Refinement of the abstract machine\<close>

definition part_at :: "MultiWordFilter \<Rightarrow> nat \<Rightarrow> DataFilter \<times> u32 option" where
  "part_at f i = (filters f ! i, if bit (completionMask f) i then Some (results f ! i) else None)"

definition parts_of :: "MultiWordFilter \<Rightarrow> DataFilter parts" where
  "parts_of f = map (part_at f) [0..<filterCount f]"

lemma mask_bit: "i < 16 \<Longrightarrow> (m :: u16) AND push_bit i 1 = 0 \<longleftrightarrow> \<not> bit m i"
  by (metis and_exp_eq_0_iff_not_bit push_bit_of_1)

lemma bit_set_mask: "i < 16 \<Longrightarrow> bit ((m :: u16) OR push_bit i 1) j \<longleftrightarrow> bit m j \<or> j = i"
  by (simp add: bit_or_iff bit_push_one del: push_bit_of_1)

lemma process_loop_unfold:
  "i < 16 \<Longrightarrow> process_loop (i # is) f w wi =
     (if \<not> bit (completionMask f) i \<and> matches (filters f ! i) w wi
      then f\<lparr>results := (results f)[i := w], completionMask := completionMask f OR push_bit i 1\<rparr>
      else process_loop is f w wi)"
  by (simp only: process_loop.simps Let_def mask_bit)

lemma process_loop_frame:
  assumes "\<forall>i \<in> set is. i < 16"
  shows "filters (process_loop is f w wi) = filters f"
    and "filterCount (process_loop is f w wi) = filterCount f"
    and "caches (process_loop is f w wi) t = caches f t"
    and "length (results (process_loop is f w wi)) = length (results f)"
    and "j \<notin> set is \<Longrightarrow> part_at (process_loop is f w wi) j = part_at f j"
    and "bit (completionMask (process_loop is f w wi)) j \<Longrightarrow> j \<in> set is \<or> bit (completionMask f) j"
  using assms
  by (induction "is")
    (auto simp: process_loop_unfold part_at_def bit_set_mask
      simp del: process_loop.simps(2) push_bit_of_1 split: if_splits)

lemma process_loop_offer:
  assumes "distinct is" "\<forall>i \<in> set is. i < 16" "length (results f) = 16"
  shows "map (part_at (process_loop is f w wi)) is
       = offer (\<lambda>d. matches d w wi) w (map (part_at f) is)"
  using assms
proof (induction "is")
  case (Cons i "is")
  let ?g = "f\<lparr>results := (results f)[i := w], completionMask := completionMask f OR push_bit i 1\<rparr>"
  show ?case
  proof (cases "\<not> bit (completionMask f) i \<and> matches (filters f ! i) w wi")
    case True
    moreover have "part_at ?g i = (filters f ! i, Some w)" and "part_at f i = (filters f ! i, None)"
      using True Cons.prems by (simp_all add: part_at_def bit_set_mask del: push_bit_of_1)
    moreover have "map (part_at ?g) is = map (part_at f) is"
      using Cons.prems by (auto simp: part_at_def bit_set_mask simp del: push_bit_of_1)
    ultimately show ?thesis
      using Cons.prems by (simp add: process_loop_unfold del: process_loop.simps(2) push_bit_of_1)
  next
    case False
    then have "offer (\<lambda>d. matches d w wi) w (part_at f i # ps)
        = part_at f i # offer (\<lambda>d. matches d w wi) w ps" for ps
      by (auto simp: part_at_def)
    moreover have "part_at (process_loop is f w wi) i = part_at f i"
      using Cons.prems by (intro process_loop_frame(5)) auto
    moreover have "process_loop (i # is) f w wi = process_loop is f w wi"
      using False Cons.prems process_loop_unfold [of i "is" f w wi] by auto
    ultimately show ?thesis using Cons by (simp del: process_loop.simps(2))
  qed
qed simp

lemma wf_process_data [wf_rules]:
  assumes "wf_multi f"
  shows "wf_multi (fst (process_data f w wi))"
proof -
  have 16: "\<forall>i \<in> set [0..<filterCount f]. i < 16" using assms by (simp add: wf_multi_def MaxFilters_def)
  show ?thesis
    using assms process_loop_frame(6) [OF 16, of f w wi]
    by (auto simp: wf_multi_def process_data_def Let_def process_loop_frame [OF 16])
qed

lemma parts_of_process_data:
  assumes "wf_multi f"
  shows "parts_of (fst (process_data f w wi)) = offer (\<lambda>d. matches d w wi) w (parts_of f)"
proof -
  have 16: "\<forall>i \<in> set [0..<filterCount f]. i < 16" using assms by (simp add: wf_multi_def MaxFilters_def)
  show ?thesis
    using process_loop_offer [OF distinct_upt 16] assms
    by (simp add: parts_of_def process_data_def Let_def process_loop_frame [OF 16] wf_multi_def MaxFilters_def)
qed

lemma is_complete_iff:
  assumes "wf_multi f"
  shows "is_complete f \<longleftrightarrow> complete (parts_of f)"
proof -
  let ?m = "ucast (completionMask f) :: u32"
  have bits: "bit ?m i \<longleftrightarrow> bit (completionMask f) i" for i
    using bit_imp_le_length [of "completionMask f" i] by (auto simp: bit_unsigned_iff)
  have sub: "set (positions ?m) \<subseteq> {0..<filterCount f}"
    using assms by (auto simp: set_positions bits wf_multi_def)
  have "is_complete f \<longleftrightarrow> card (set (positions ?m)) = card {0..<filterCount f}"
    by (simp add: is_complete_def number_of_set_bits_eq distinct_card sorted_positions)
  also have "\<dots> \<longleftrightarrow> set (positions ?m) = {0..<filterCount f}"
    using sub by (metis card_subset_eq finite_atLeastLessThan)
  also have "\<dots> \<longleftrightarrow> (\<forall>i < filterCount f. bit (completionMask f) i)"
    using sub by (auto simp: set_positions bits)
  also have "\<dots> \<longleftrightarrow> complete (parts_of f)"
    by (auto simp: complete_def parts_of_def part_at_def)
  finally show ?thesis .
qed

lemma parts_of_clear_completion:
  "parts_of (clear_completion f) = map (\<lambda>p. (fst p, None)) (parts_of f)"
  by (simp add: parts_of_def clear_completion_def part_at_def)

text \<open>The value of a complete row of parts: every part's extracted bits, lowest first.\<close>

definition assembled :: "CacheType \<Rightarrow> DataFilter parts \<Rightarrow> u64 option" where
  "assembled t ps =
     or_shifted (map (\<lambda>(d, w). (extract_value (make_cache_entry d (cache_char t)) (the w),
        extractBits (make_cache_entry d (cache_char t)))) ps) 0 0"

lemma extract_result_assembled:
  assumes "wf_multi f" "is_complete f"
  shows "extract_result f t = assembled t (parts_of f)"
proof -
  have "bit (completionMask f) i" if "i < filterCount f" for i
    using assms(2) that unfolding is_complete_iff [OF assms(1)]
    by (auto simp: complete_def parts_of_def part_at_def split: if_splits)
  then show ?thesis
    using assms(1)
    by (auto simp: extract_result_def assembled_def parts_of_def part_at_def wf_multi_def
        intro!: arg_cong [where f = "\<lambda>l. or_shifted l 0 0"])
qed

lemma sum_bits_eq: "sum_bits bs r = r + of_nat (sum_list bs)"
  by (induction bs r rule: sum_bits.induct) (simp_all add: add.assoc)

lemma sum_list_le_bound: "\<forall>b \<in> set bs. b \<le> k \<Longrightarrow> sum_list bs \<le> k * length bs" for bs :: "nat list"
  by (induction bs) auto

lemma get_extract_bits_eq:
  assumes "wf_multi f"
  shows "unat (get_extract_bits f t) = sum_list (map (\<lambda>i. extractBits (caches f t ! i)) [0..<filterCount f])"
proof -
  let ?bs = "map (\<lambda>i. extractBits (caches f t ! i)) [0..<filterCount f]"
  have "\<forall>b \<in> set ?bs. b \<le> 32" using assms by (auto simp: wf_multi_def extractBits_le)
  then have "sum_list ?bs \<le> 32 * length ?bs" by (rule sum_list_le_bound)
  also have "\<dots> \<le> 32 * 16" using assms by (simp add: wf_multi_def MaxFilters_def)
  finally show ?thesis
    by (simp add: get_extract_bits_def sum_bits_eq unsigned_of_nat take_bit_nat_eq_self)
qed

section \<open>Runs\<close>

fun run_words :: "MultiWordFilter \<Rightarrow> (u32 \<times> s32) list \<Rightarrow> MultiWordFilter" where
  "run_words f [] = f"
| "run_words f ((w, i) # ws) = run_words (fst (process_data f w i)) ws"

fun offer_all :: "(u32 \<times> s32) list \<Rightarrow> DataFilter parts \<Rightarrow> DataFilter parts" where
  "offer_all [] ps = ps"
| "offer_all ((w, i) # ws) ps = offer_all ws (offer (\<lambda>d. matches d w i) w ps)"

lemma run_words_refines:
  "wf_multi f \<Longrightarrow> wf_multi (run_words f ws) \<and> parts_of (run_words f ws) = offer_all ws (parts_of f)"
  by (induction f ws rule: run_words.induct) (simp_all add: wf_process_data parts_of_process_data)

lemma parts_of_add_subfilters:
  assumes "wf_multi f" "completionMask f = 0" "add_subfilters f ss = Inr g"
  shows "parts_of g = parts_of f @ map (\<lambda>s. (s, None)) ss" and "completionMask g = 0"
proof -
  note g = add_subfilters_filters [OF assms(1,3)]
  have m: "completionMask g = 0" using g assms(2,3) by (cases "ss = []") auto
  then show "completionMask g = 0" .
  have "wf_multi g" using assms(1,3) by (rule add_subfilters_wf)
  have "parts_of h = map (\<lambda>s. (s, None)) (take (filterCount h) (filters h))"
    if "wf_multi h" "completionMask h = 0" for h
    using that by (auto simp: parts_of_def part_at_def wf_multi_def intro!: nth_equalityI)
  note none = this
  show "parts_of g = parts_of f @ map (\<lambda>s. (s, None)) ss"
    unfolding none [OF \<open>wf_multi g\<close> m] none [OF assms(1,2)] conjunct1 [OF g] by simp
qed

lemma parts_of_new_filter [simp]: "parts_of (new_filter r) = []" "completionMask (new_filter r) = 0"
  by (simp_all add: parts_of_def new_filter_def)

section \<open>A filter to evaluate\<close>

definition demo_subs :: "DataFilter list" where
  "demo_subs = map (\<lambda>(s, i). projr (make_filter s i)) [(''0001 AAAA DDDD'', -1), (''0010 XDDX'', 1)]"

definition demo_built :: MultiWordFilter where
  "demo_built = projr (add_subfilters (new_filter (replicate 16 7)) demo_subs)"

definition demo_words :: "(u32 \<times> s32) list" where
  "demo_words = [(0x2F, 0), (0x1A5, 0), (0x1FF, 1), (0x26, 1)]"

lemma demo_subs: "demo_subs =
  [\<lparr>filter_chars = ''DDDDAAAA1000'' @ replicate 20 CHR ''X'', matchMask = 0xF00, matchValue = 0x100,
     matchWordIndex = -1\<rparr>,
   \<lparr>filter_chars = ''XDDX0100'' @ replicate 24 CHR ''X'', matchMask = 0xF0, matchValue = 0x20,
     matchWordIndex = 1\<rparr>]"
  by (simp add: demo_subs_def filter_eval)

lemma demo_caches:
  "map (\<lambda>s. make_cache_entry s CHR ''D'') demo_subs =
   [\<lparr>extractMask = 0xF, needGather = False, extractShift = 0, extractBits = 4\<rparr>,
    \<lparr>extractMask = 6, needGather = False, extractShift = 1, extractBits = 2\<rparr>]"
  by (simp add: demo_subs cache_eval)

lemma demo_built: "add_subfilters (new_filter (replicate 16 7)) demo_subs = Inr demo_built"
proof -
  have "length demo_subs = 2" by (simp add: demo_subs_def)
  then have "\<nexists>e. add_subfilters (new_filter (replicate 16 7)) demo_subs = Inl e"
    by (simp add: add_subfilters_error new_filter_def MaxFilters_def)
  then show ?thesis unfolding demo_built_def by (metis isl_def sum.collapse(2))
qed

lemma wf_demo_built: "wf_multi demo_built"
  by (rule add_subfilters_wf [OF wf_new_filter demo_built]) simp

lemma wf_demo: "wf_multi (run_words demo_built demo_words)"
  using run_words_refines [OF wf_demo_built] by blast

lemma demo_parts:
  "offer_all demo_words (map (\<lambda>s. (s, None)) demo_subs) =
   [(demo_subs ! 0, Some 0x1A5), (demo_subs ! 1, Some 0x26)]"
  by (simp add: demo_words_def demo_subs matches_def)

lemma demo_value: "assembled CacheD [(demo_subs ! 0, Some 0x1A5), (demo_subs ! 1, Some 0x26)] = Some 0x35"
  using demo_caches by (simp add: assembled_def cache_char_def demo_subs extract_value_def)

lemma demo_run:
  "parts_of (run_words demo_built demo_words) = [(demo_subs ! 0, Some 0x1A5), (demo_subs ! 1, Some 0x26)]"
  "is_complete (run_words demo_built demo_words)"
  "extract_result (run_words demo_built demo_words) CacheD = Some 0x35"
proof -
  show parts: "parts_of (run_words demo_built demo_words)
      = [(demo_subs ! 0, Some 0x1A5), (demo_subs ! 1, Some 0x26)]"
    using run_words_refines [OF wf_demo_built, of demo_words]
      parts_of_add_subfilters(1) [OF wf_new_filter _ demo_built]
    by (simp add: demo_parts)
  then show complete: "is_complete (run_words demo_built demo_words)"
    by (simp add: is_complete_iff [OF wf_demo] complete_def)
  show "extract_result (run_words demo_built demo_words) CacheD = Some 0x35"
    by (simp only: extract_result_assembled [OF wf_demo complete] parts demo_value)
qed

section \<open>Properties\<close>

text \<open>C13: feeding data words to a freshly built multi-word filter behaves as the abstract machine: each
  word goes to the first open part that accepts it and to no other, the filter reports completion
  exactly when every part has its word, and the extracted value of a complete filter is the
  concatenation of the parts' values, whatever the uninitialised result array held.\<close>

theorem multiword_filter_refines:
  fixes ws :: "(u32 \<times> s32) list" and subs :: "DataFilter list"
  assumes "length uninitialised = 16" "add_subfilters (new_filter uninitialised) subs = Inr f"
  defines "ps \<equiv> offer_all ws (map (\<lambda>s. (s, None)) subs)"
  shows "parts_of (run_words f ws) = ps
       \<and> (is_complete (run_words f ws) \<longleftrightarrow> complete ps)
       \<and> (is_complete (run_words f ws) \<longrightarrow> extract_result (run_words f ws) t = assembled t ps)"
proof -
  note wf0 = wf_new_filter [OF assms(1)]
  note wf = add_subfilters_wf [OF wf0 assms(2)]
  have "parts_of f = map (\<lambda>s. (s, None)) subs"
    using parts_of_add_subfilters(1) [OF wf0 _ assms(2)] by simp
  with run_words_refines [OF wf, of ws] show ?thesis
    using is_complete_iff extract_result_assembled unfolding ps_def by metis
qed

theorem multiword_filter_refines_witness:
  "is_complete (run_words demo_built demo_words) \<and>
   extract_result (run_words demo_built demo_words) CacheD = Some 0x35"
proof -
  have "complete (offer_all demo_words (map (\<lambda>s. (s, None)) demo_subs))"
    by (simp add: demo_parts complete_def)
  then show ?thesis
    using multiword_filter_refines [OF _ demo_built, of demo_words CacheD]
    by (simp add: demo_parts demo_value del: One_nat_def)
qed

text \<open>Subfilters are accepted up to the capacity of 16; the next one is refused with
  \<^verbatim>\<open>std::out_of_range\<close>, and no other input makes the constructor fail.\<close>

theorem add_subfilters_capacity:
  "(case add_subfilters (new_filter uninitialised) subs of
      Inl e \<Rightarrow> e = OutOfRange \<and> 16 < length subs
    | Inr f \<Rightarrow> length subs \<le> 16 \<and> filterCount f = length subs)"
proof (cases "add_subfilters (new_filter uninitialised) subs")
  case (Inl e)
  then show ?thesis
    using add_subfilters_error [of "new_filter uninitialised" subs e]
    by (simp add: new_filter_def MaxFilters_def)
next
  case (Inr f)
  have "filterCount g + length ss = filterCount f \<and> filterCount f \<le> 16"
    if "add_subfilters g ss = Inr f" "filterCount g \<le> 16" for g ss
    using that
  proof (induction g ss rule: add_subfilters.induct)
    case (2 g s ss)
    then obtain h where h: "add_subfilter g s = Inr h" "add_subfilters h ss = Inr f"
      by (auto split: sum.splits)
    from "2.IH" [OF h] show ?case using add_subfilter_simps [OF h(1)] by (simp add: MaxFilters_def)
  qed simp
  from this [OF Inr] Inr show ?thesis by (simp add: new_filter_def)
qed

text \<open>In a complete filter whose subfilters extract at most 64 bits together, the result of
  \<^verbatim>\<open>extract\<close> holds the value of subfilter \<open>i\<close> in its own field, above the fields of the subfilters before
  it, and nothing beyond the last field.\<close>

theorem multiword_extract_fields:
  assumes "wf_multi f" "is_complete f" "extract_result f t = Some r"
    and "unat (get_extract_bits f t) \<le> 64" "i < filterCount f"
  shows "unat r div 2 ^ sum_list (map (\<lambda>j. extractBits (caches f t ! j)) [0..<i])
           mod 2 ^ extractBits (caches f t ! i)
       = unat (bit_gather (results f ! i) (extractMask (caches f t ! i)))
     \<and> unat r < 2 ^ unat (get_extract_bits f t)"
proof -
  let ?c = "\<lambda>j. (filters f ! j, cache_char t)"
  let ?fws = "map (\<lambda>j. (?c j, results f ! j)) [0..<filterCount f]"
  have cache: "caches f t ! j = make_cache_entry (filters f ! j) (cache_char t)" if "j < filterCount f" for j
    using assms(1) that by (simp add: wf_multi_def)
  have "map (\<lambda>i. (extract_value (caches f t ! i) (results f ! i), extractBits (caches f t ! i)))
      [0..<filterCount f] = a2_sub.pieces ?fws"
    by (auto simp: cache)
  with assms(3) have r: "or_shifted (a2_sub.pieces ?fws) 0 0 = Some r"
    by (simp only: extract_result_def)
  have widths: "map ((\<lambda>(d, c). extractBits (make_cache_entry d c)) \<circ> fst) (take k ?fws)
      = map (\<lambda>j. extractBits (caches f t ! j)) [0..<k]" if "k \<le> filterCount f" for k
    using that by (simp add: take_map cache comp_def cong: map_cong)
  have total: "sum_list (map ((\<lambda>(d, c). extractBits (make_cache_entry d c)) \<circ> fst) ?fws)
      = unat (get_extract_bits f t)"
  proof -
    have "take (filterCount f) ?fws = ?fws" by simp
    with widths [OF order_refl] show ?thesis
      by (simp only: get_extract_bits_eq [OF assms(1)])
  qed
  note t = total assms(4)
  from a2_sub.assembled_nth [OF r _, of i] a2_sub.assembled_total(2) [OF r] t assms(5)
  show ?thesis
    unfolding widths [OF less_imp_le [OF assms(5)]]
    by (simp add: cache extract_value_eq bit_gather_eq)
qed

theorem multiword_extract_fields_witness:
  "unat (0x35 :: u64) div 2 ^ 4 mod 2 ^ 2 = unat (bit_gather (0x26 :: u32) 6)"
proof -
  let ?f = "run_words demo_built demo_words"
  note parts = demo_run(1) and complete = demo_run(2)
  have count: "filterCount ?f = 2" using arg_cong [OF parts, of length] by (simp add: parts_of_def)
  have result: "results ?f ! 1 = 0x26" and subs: "filters ?f ! 0 = demo_subs ! 0" "filters ?f ! 1 = demo_subs ! 1"
    using parts by (auto simp: parts_of_def part_at_def count upt_rec split: if_splits)
  have caches: "caches ?f CacheD ! 0 = make_cache_entry (demo_subs ! 0) CHR ''D''"
    "caches ?f CacheD ! 1 = make_cache_entry (demo_subs ! 1) CHR ''D''"
    using wf_demo by (auto simp: wf_multi_def count subs cache_char_def simp del: One_nat_def)
  have bits: "extractBits (caches ?f CacheD ! 0) = 4" "extractBits (caches ?f CacheD ! 1) = 2"
    "extractMask (caches ?f CacheD ! 1) = 6"
    unfolding caches using demo_caches by (simp_all add: demo_subs)
  have "unat (get_extract_bits ?f CacheD) \<le> 64"
    by (simp add: get_extract_bits_eq [OF wf_demo] count upt_rec bits bits [unfolded One_nat_def])
  then show ?thesis
    using multiword_extract_fields [OF wf_demo complete demo_run(3), of 1]
    by (simp add: count result bits upt_rec [of 0 1] del: One_nat_def)
qed

text \<open>The shift in \<^verbatim>\<open>extract\<close> stays below 64 exactly as long as the subfilters before the last one
  extract fewer than 64 bits together; nothing in \<^verbatim>\<open>add_subfilter\<close> prevents the other case, in
  which the C++ expression is undefined.\<close>

theorem extract_result_undefined_iff:
  "extract_result f t = None \<longleftrightarrow>
     0 < filterCount f \<and>
     64 \<le> sum_list (map (\<lambda>i. extractBits (caches f t ! i)) [0..<filterCount f - 1])"
proof -
  have "butlast [0..<n] = [0..<n - 1]" for n :: nat by (cases n) simp_all
  then show ?thesis
    by (simp add: extract_result_def or_shifted_None_iff map_butlast [symmetric] comp_def)
qed

end
