(* ===== verification/List_Filter.thy ===== *)
theory List_Filter
  imports Multiword_Filter
begin

text \<open>
  \<^verbatim>\<open>src/src/analysis/a2/listfilter.h\<close> and \<^verbatim>\<open>listfilter.cc\<close>: combine up to two 32-bit or four 16-bit words
  to one 64-bit word and extract address and value from its halves with a multi-word filter.
\<close>

section \<open>Operations\<close>

record ListFilter =
  extractionFilter :: MultiWordFilter
  flags :: u8
  wordCount :: u8

definition WordSize32 :: u8 where "WordSize32 = push_bit 0 1"
definition ReverseCombine :: u8 where "ReverseCombine = push_bit 1 1"

record ListFilterResult =
  lf_address :: u64
  lf_value :: u64
  matched :: bool

fun make_filters :: "string list \<Rightarrow> MultiWordFilter \<Rightarrow> exn + MultiWordFilter" where
  "make_filters [] f = Inr f"
| "make_filters (s # ss) f =
     (case make_filter s (- 1) of
        Inl e \<Rightarrow> Inl e
      | Inr d \<Rightarrow> (case add_subfilter f d of Inl e \<Rightarrow> Inl e | Inr g \<Rightarrow> make_filters ss g))"

definition make_listfilter :: "u32 list \<Rightarrow> u8 \<Rightarrow> u8 \<Rightarrow> string list \<Rightarrow> exn + ListFilter" where
  "make_listfilter uninitialised fl wc filterStrings =
     (case make_filters filterStrings (new_filter uninitialised) of
        Inl e \<Rightarrow> Inl e
      | Inr f \<Rightarrow> Inr \<lparr>extractionFilter = f, flags = fl, wordCount = wc\<rparr>)"

definition validate :: "ListFilter \<Rightarrow> bool" where
  "validate cf =
     (if wordCount cf = 0 then False
      else if flags cf AND WordSize32 \<noteq> 0 \<and> 2 < wordCount cf then False
      else if \<not> (flags cf AND WordSize32 \<noteq> 0) \<and> 4 < wordCount cf then False
      else True)"

text \<open>One round of the loop of \<^verbatim>\<open>combine\<close>; \<open>shift\<close> is the value of the variable at its start.\<close>

fun combine_loop :: "ListFilter \<Rightarrow> u32 list \<Rightarrow> nat list \<Rightarrow> u64 \<Rightarrow> nat \<Rightarrow> u64 option" where
  "combine_loop cf data [] result shift = Some result"
| "combine_loop cf data (wordNumber # ns) result shift =
     (let m = (if flags cf AND WordSize32 \<noteq> 0 then 0xFFFFFFFF else 0xFFFF :: u32);
          wordIndex = (if flags cf AND ReverseCombine \<noteq> 0
                       then unat (wordCount cf) - wordNumber - 1 else wordNumber)
      in case at_opt data wordIndex of
           None \<Rightarrow> None
         | Some dataWord \<Rightarrow>
             if shift < 64
             then combine_loop cf data ns (result OR push_bit shift (ucast (dataWord AND m)))
                    (shift + (if flags cf AND WordSize32 \<noteq> 0 then 32 else 16))
             else None)"

text \<open>\<^const>\<open>None\<close>: a read beyond \<open>data\<close> or an undefined shift. \<open>count\<close> is the length of \<open>data\<close>.\<close>

definition combine :: "ListFilter \<Rightarrow> u32 list \<Rightarrow> u64 option" where
  "combine cf data =
     (if \<not> validate cf then Some 0
      else if length data < unat (wordCount cf) then Some 0
      else combine_loop cf data [0..<unat (wordCount cf)] 0 0)"

text \<open>\<^const>\<open>None\<close>: the assertion fails, or the extraction shifts too far.\<close>

definition process_halves :: "MultiWordFilter \<Rightarrow> u64 \<Rightarrow> MultiWordFilter" where
  "process_halves f combined =
     fst (process_data (fst (process_data f (ucast combined) (- 1))) (ucast (drop_bit 32 combined)) (- 1))"

definition extract_if :: "bool \<Rightarrow> MultiWordFilter \<Rightarrow> CacheType \<Rightarrow> u64 option" where
  "extract_if b f t = (if b then extract_result f t else Some 0)"

definition extract_from_combined :: "ListFilter \<Rightarrow> u64 \<Rightarrow> CacheType \<Rightarrow> (ListFilter \<times> u64 \<times> bool) option" where
  "extract_from_combined cf combined t =
     (if is_complete (extractionFilter cf) then None
      else
        (let f = process_halves (extractionFilter cf) combined;
             matched = is_complete f
         in map_option (\<lambda>result. (cf\<lparr>extractionFilter := clear_completion f\<rparr>, result, matched))
              (extract_if matched f t)))"

definition combine_and_extract :: "ListFilter \<Rightarrow> u32 list \<Rightarrow> CacheType \<Rightarrow> (ListFilter \<times> u64 \<times> bool) option" where
  "combine_and_extract cf data t =
     (if is_complete (extractionFilter cf) then None
      else Option.bind (combine cf data) (\<lambda>combined. extract_from_combined cf combined t))"

definition extract_address_and_value_from_combined ::
    "ListFilter \<Rightarrow> u64 \<Rightarrow> (ListFilter \<times> ListFilterResult) option" where
  "extract_address_and_value_from_combined cf combined =
     (if is_complete (extractionFilter cf) then None
      else
        (let f = process_halves (extractionFilter cf) combined;
             m = is_complete f
         in case (extract_if m f CacheA, extract_if m f CacheD) of
              (Some a, Some d) \<Rightarrow>
                Some (cf\<lparr>extractionFilter := clear_completion f\<rparr>,
                      \<lparr>lf_address = a, lf_value = d, matched = m\<rparr>)
            | _ \<Rightarrow> None))"

definition get_listfilter_combined_bit_count :: "ListFilter \<Rightarrow> nat" where
  "get_listfilter_combined_bit_count lf =
     unat (wordCount lf) * (if flags lf AND WordSize32 \<noteq> 0 then 32 else 16)"

section \<open>Combining\<close>

definition word_bits :: "ListFilter \<Rightarrow> nat" where
  "word_bits cf = (if flags cf AND WordSize32 \<noteq> 0 then 32 else 16)"

definition word_mask :: "ListFilter \<Rightarrow> u32" where
  "word_mask cf = (if flags cf AND WordSize32 \<noteq> 0 then 0xFFFFFFFF else 0xFFFF)"

text \<open>The words in the order in which they fill the result, lowest bits first.\<close>

definition ordered :: "ListFilter \<Rightarrow> u32 list \<Rightarrow> u32 list" where
  "ordered cf data =
     (let ws = take (unat (wordCount cf)) data
      in if flags cf AND ReverseCombine \<noteq> 0 then rev ws else ws)"

lemma validate_iff: "validate cf \<longleftrightarrow> 0 < unat (wordCount cf) \<and> unat (wordCount cf) * word_bits cf \<le> 64"
  by (auto simp: validate_def word_bits_def word_less_nat_alt unat_gt_0)

lemma combine_loop_or_shifted:
  assumes "unat (wordCount cf) \<le> length data" "\<forall>n \<in> set ns. n < unat (wordCount cf)"
  shows "combine_loop cf data ns r s =
    or_shifted (map (\<lambda>n. (ordered cf data ! n AND word_mask cf, word_bits cf)) ns) r s"
  using assms(2)
proof (induction ns arbitrary: r s)
  case (Cons n ns)
  let ?i = "if flags cf AND ReverseCombine \<noteq> 0 then unat (wordCount cf) - n - 1 else n"
  have "at_opt data ?i = Some (ordered cf data ! n)"
    using assms(1) Cons.prems by (auto simp: at_opt_def ordered_def rev_nth min_def)
  then show ?case
    using Cons by (simp add: Let_def word_mask_def word_bits_def del: One_nat_def)
qed simp

lemma word_mask_fit: "unat (w AND word_mask cf) < 2 ^ word_bits cf"
proof -
  have "w AND word_mask cf = take_bit (word_bits cf) w"
    by (simp add: take_bit_eq_mask word_mask_def word_bits_def mask_eq_exp_minus_1)
  then have "unat (w AND word_mask cf) = take_bit (word_bits cf) (unat w)"
    by (simp add: unsigned_take_bit_eq word_bits_def)
  then show ?thesis by simp
qed

interpretation lf_word: subfilter "\<lambda>cf w. w AND word_mask cf" word_bits
  by unfold_locales (rule word_mask_fit)

lemma ordered_length: "unat (wordCount cf) \<le> length data \<Longrightarrow> length (ordered cf data) = unat (wordCount cf)"
  by (simp add: ordered_def Let_def)

lemma combine_pieces:
  assumes "validate cf" "unat (wordCount cf) \<le> length data"
  shows "combine cf data = or_shifted (lf_word.pieces (map (Pair cf) (ordered cf data))) 0 0"
proof -
  let ?n = "unat (wordCount cf)"
  have "map (\<lambda>n. (ordered cf data ! n AND word_mask cf, word_bits cf)) [0..<?n]
      = lf_word.pieces (map (Pair cf) (ordered cf data))"
    using ordered_length [OF assms(2)] by (auto intro!: nth_equalityI)
  then show ?thesis
    using assms combine_loop_or_shifted [OF assms(2), of "[0..<?n]" 0 0] by (simp add: combine_def)
qed

section \<open>Extracting\<close>

text \<open>A list filter between two events: nothing matched yet, and the subfilters are \<open>ds\<close>.\<close>

definition lf_ready :: "DataFilter list \<Rightarrow> ListFilter \<Rightarrow> bool" where
  "lf_ready ds lf \<longleftrightarrow>
     wf_multi (extractionFilter lf) \<and> completionMask (extractionFilter lf) = 0 \<and>
     parts_of (extractionFilter lf) = map (\<lambda>d. (d, None)) ds"

definition halves :: "u64 \<Rightarrow> (u32 \<times> s32) list" where
  "halves combined = [(ucast combined, - 1), (ucast (drop_bit 32 combined), - 1)]"

lemma process_halves_run: "process_halves f c = run_words f (halves c)"
  by (simp add: process_halves_def halves_def)

lemma make_filters_add:
  "make_filters ss f = Inr g \<Longrightarrow>
   \<exists>ds. list_all2 (\<lambda>s d. make_filter s (- 1) = Inr d) ss ds \<and> add_subfilters f ds = Inr g"
proof (induction ss f rule: make_filters.induct)
  case (2 s ss f)
  then obtain d h where d: "make_filter s (- 1) = Inr d" "add_subfilter f d = Inr h"
    "make_filters ss h = Inr g"
    by (auto split: sum.splits)
  from "2.IH" [OF d] obtain ds where
    "list_all2 (\<lambda>s d. make_filter s (- 1) = Inr d) ss ds" "add_subfilters h ds = Inr g" by blast
  with d show ?case by (intro exI [of _ "d # ds"]) simp
qed simp

lemma make_listfilter_ready:
  assumes "length u = 16" "make_listfilter u fl wc ss = Inr lf"
  shows "\<exists>ds. list_all2 (\<lambda>s d. make_filter s (- 1) = Inr d) ss ds \<and> lf_ready ds lf \<and>
     flags lf = fl \<and> wordCount lf = wc"
proof -
  from assms(2) obtain f where f: "make_filters ss (new_filter u) = Inr f"
    and lf: "lf = \<lparr>extractionFilter = f, flags = fl, wordCount = wc\<rparr>"
    by (auto simp: make_listfilter_def split: sum.splits)
  from make_filters_add [OF f] obtain ds
    where ds: "list_all2 (\<lambda>s d. make_filter s (- 1) = Inr d) ss ds" "add_subfilters (new_filter u) ds = Inr f"
    by blast
  note wf = wf_new_filter [OF assms(1)]
  show ?thesis
    using ds parts_of_add_subfilters [OF wf _ ds(2)] add_subfilters_wf [OF wf ds(2)]
    by (auto simp: lf_ready_def lf)
qed

lemma ready_not_complete: "lf_ready ds lf \<Longrightarrow> is_complete (extractionFilter lf) \<longleftrightarrow> ds = []"
  by (auto simp: lf_ready_def is_complete_iff complete_def)

lemma ready_after:
  assumes "lf_ready ds lf"
  shows "lf_ready ds (lf\<lparr>extractionFilter := clear_completion (run_words (extractionFilter lf) ws)\<rparr>)"
proof -
  let ?ps = "offer_all ws (map (\<lambda>d. (d, None)) ds)"
  have "map fst (offer_all ws ps) = map fst ps" for ps
    by (induction ws ps rule: offer_all.induct) simp_all
  from this [of "map (\<lambda>d. (d, None)) ds"] have fst: "map fst ?ps = ds" by (simp add: comp_def)
  have "map (\<lambda>p. (fst p, None)) ?ps = map (\<lambda>d. (d, None)) (map fst ?ps)" by simp
  then have "map (\<lambda>p. (fst p, None)) ?ps = map (\<lambda>d. (d, None)) ds" by (simp only: fst)
  then show ?thesis
    using assms run_words_refines [of "extractionFilter lf" ws]
    by (simp add: lf_ready_def wf_clear_completion parts_of_clear_completion)
       (simp add: clear_completion_def)
qed

lemma ready_run:
  fixes c :: u64
  assumes "lf_ready ds lf"
  defines "f \<equiv> process_halves (extractionFilter lf) c"
    and "ps \<equiv> offer_all (halves c) (map (\<lambda>d. (d, None)) ds)"
  shows "is_complete f \<longleftrightarrow> complete ps"
    and "extract_if (is_complete f) f t = (if complete ps then assembled t ps else Some 0)"
    and "lf_ready ds (lf\<lparr>extractionFilter := clear_completion f\<rparr>)"
proof -
  have wf: "wf_multi f" and ps: "parts_of f = ps"
    using assms(1) run_words_refines [of "extractionFilter lf" "halves c"]
    by (simp_all add: f_def ps_def process_halves_run lf_ready_def)
  show c: "is_complete f \<longleftrightarrow> complete ps" using is_complete_iff [OF wf] ps by simp
  show "extract_if (is_complete f) f t = (if complete ps then assembled t ps else Some 0)"
    using extract_result_assembled [OF wf] by (auto simp: extract_if_def c ps)
  show "lf_ready ds (lf\<lparr>extractionFilter := clear_completion f\<rparr>)"
    unfolding f_def process_halves_run by (rule ready_after [OF assms(1)])
qed

lemma open_parts_offer_ge: "open_parts ps \<le> Suc (open_parts (offer h w ps))"
  by (auto simp: open_parts_offer)

lemma three_never_complete:
  assumes "3 \<le> length ds"
  shows "\<not> complete (offer_all (halves c) (map (\<lambda>d. (d, None)) ds))"
proof -
  let ?ps = "map (\<lambda>d :: DataFilter. (d, None :: u32 option)) ds"
  have "open_parts ?ps = length ds" by (simp add: open_parts_def comp_def)
  moreover have "open_parts ?ps \<le> 2 + open_parts (offer_all (halves c) ?ps)"
    unfolding halves_def offer_all.simps
    using open_parts_offer_ge le_trans by (metis (no_types, lifting) Suc_le_mono add_2_eq_Suc)
  ultimately show ?thesis using assms by (simp add: complete_iff_open_parts)
qed

section \<open>A list filter to evaluate\<close>

definition demo_lf_subs :: "DataFilter list" where
  "demo_lf_subs =
    [\<lparr>filter_chars = ''DDDDAAAA1000'' @ replicate 20 CHR ''X'', matchMask = 0xF00, matchValue = 0x100,
      matchWordIndex = -1\<rparr>,
     \<lparr>filter_chars = ''XDDX0100'' @ replicate 24 CHR ''X'', matchMask = 0xF0, matchValue = 0x20,
      matchWordIndex = -1\<rparr>]"

definition demo_lf :: ListFilter where
  "demo_lf = projr (make_listfilter (replicate 16 3) WordSize32 2 [''0001 AAAA DDDD'', ''0010 XDDX''])"

lemma demo_lf_filters:
  "make_filter ''0001 AAAA DDDD'' (- 1) = Inr (demo_lf_subs ! 0)"
  "make_filter ''0010 XDDX'' (- 1) = Inr (demo_lf_subs ! 1)"
  by (simp_all add: demo_lf_subs_def filter_eval)

lemma demo_lf_built:
  "make_listfilter (replicate 16 3) WordSize32 2 [''0001 AAAA DDDD'', ''0010 XDDX''] = Inr demo_lf"
  by (simp add: demo_lf_def make_listfilter_def demo_lf_filters add_subfilter_def new_filter_def
      clear_completion_def MaxFilters_def del: One_nat_def)

lemma demo_lf_ready: "lf_ready demo_lf_subs demo_lf"
proof -
  from make_listfilter_ready [OF _ demo_lf_built] obtain ds where
    "list_all2 (\<lambda>s d. make_filter s (- 1) = Inr d) [''0001 AAAA DDDD'', ''0010 XDDX''] ds"
    and "lf_ready ds demo_lf" by auto
  moreover from this(1) have "ds = demo_lf_subs"
    by (auto simp: list_all2_Cons1 demo_lf_filters) (simp_all add: demo_lf_subs_def)
  ultimately show ?thesis by simp
qed

lemma demo_lf_parts:
  "offer_all (halves 0x00000026000001A5) (map (\<lambda>d. (d, None)) demo_lf_subs) =
   [(demo_lf_subs ! 0, Some 0x1A5), (demo_lf_subs ! 1, Some 0x26)]"
  by (simp add: halves_def demo_lf_subs_def matches_def)

lemma demo_lf_caches:
  "map (\<lambda>s. make_cache_entry s CHR ''A'') demo_lf_subs =
   [\<lparr>extractMask = 0xF0, needGather = False, extractShift = 4, extractBits = 4\<rparr>,
    \<lparr>extractMask = 0, needGather = False, extractShift = 0, extractBits = 0\<rparr>]"
  "map (\<lambda>s. make_cache_entry s CHR ''D'') demo_lf_subs =
   [\<lparr>extractMask = 0xF, needGather = False, extractShift = 0, extractBits = 4\<rparr>,
    \<lparr>extractMask = 6, needGather = False, extractShift = 1, extractBits = 2\<rparr>]"
  by (simp_all add: demo_lf_subs_def cache_eval)

lemma demo_lf_values:
  "assembled CacheA [(demo_lf_subs ! 0, Some 0x1A5), (demo_lf_subs ! 1, Some 0x26)] = Some 0xA"
  "assembled CacheD [(demo_lf_subs ! 0, Some 0x1A5), (demo_lf_subs ! 1, Some 0x26)] = Some 0x35"
  using demo_lf_caches by (simp_all add: assembled_def cache_char_def demo_lf_subs_def extract_value_def)

section \<open>Properties\<close>

text \<open>\<^verbatim>\<open>combine\<close> never reads beyond the data and never shifts too far. For a valid filter with
  enough data its result is the number whose digits, of 16 or 32 bits and lowest first, are the
  masked words in natural or reversed order; otherwise it is 0. The result is always below two to
  the combined bit count.\<close>

theorem combine_value:
  "\<exists>r. combine cf data = Some r \<and>
     unat r = (if validate cf \<and> unat (wordCount cf) \<le> length data
               then parts_value (map (\<lambda>w. (w AND word_mask cf, word_bits cf)) (ordered cf data))
               else 0) \<and>
     unat r < 2 ^ get_listfilter_combined_bit_count cf"
proof (cases "validate cf \<and> unat (wordCount cf) \<le> length data")
  case True
  let ?fws = "map (Pair cf) (ordered cf data)"
  have len: "length (ordered cf data) = unat (wordCount cf)" using True ordered_length by blast
  have total: "sum_list (map (word_bits \<circ> fst) ?fws) = get_listfilter_combined_bit_count cf"
    by (simp add: comp_def len sum_list_triv get_listfilter_combined_bit_count_def word_bits_def)
  have bound: "get_listfilter_combined_bit_count cf \<le> 64"
    using True by (simp add: validate_iff get_listfilter_combined_bit_count_def word_bits_def)
  have "sum_list (map snd (butlast (lf_word.pieces ?fws))) < 64"
    using True
    by (simp add: map_butlast [symmetric] comp_def sum_list_triv len validate_iff word_bits_def)
      (auto simp: sum_list_triv len butlast_conv_take take_map split: if_splits)
  then have "or_shifted (lf_word.pieces ?fws) 0 0 \<noteq> None"
    by (simp only: or_shifted_None_iff) simp
  then obtain r where r: "or_shifted (lf_word.pieces ?fws) 0 0 = Some r" by blast
  show ?thesis
    using lf_word.assembled_total [OF r] total bound r True
    by (simp add: combine_pieces comp_def)
next
  case False
  then show ?thesis by (auto simp: combine_def)
qed

text \<open>On a list filter whose subfilters are \<open>ds\<close> (at least one) the extraction does not hit its
  assertion; whether it matches, and what address and value it yields, is what the abstract machine
  says of the two halves of the combined word, and is zero without a match; the filter is ready for
  the next event afterwards.\<close>

theorem listfilter_extraction:
  assumes "lf_ready ds lf" "ds \<noteq> []"
  shows "\<exists>lf'. lf_ready ds lf' \<and>
    (let ps = offer_all (halves c) (map (\<lambda>d. (d, None)) ds) in
     extract_address_and_value_from_combined lf c =
       (if complete ps
        then (case (assembled CacheA ps, assembled CacheD ps) of
                (Some a, Some d) \<Rightarrow> Some (lf', \<lparr>lf_address = a, lf_value = d, matched = True\<rparr>)
              | _ \<Rightarrow> None)
        else Some (lf', \<lparr>lf_address = 0, lf_value = 0, matched = False\<rparr>)) \<and>
     extract_from_combined lf c t =
       (if complete ps then map_option (\<lambda>r. (lf', r, True)) (assembled t ps)
        else Some (lf', 0, False)))"
proof -
  define f where "f = process_halves (extractionFilter lf) c"
  define ps where "ps = offer_all (halves c) (map (\<lambda>d. (d, None)) ds)"
  have run: "is_complete f \<longleftrightarrow> complete ps"
    "\<And>t. extract_if (complete ps) f t = (if complete ps then assembled t ps else Some 0)"
    "lf_ready ds (lf\<lparr>extractionFilter := clear_completion f\<rparr>)"
    using ready_run [OF assms(1), of c] by (simp_all only: f_def ps_def)
  have "\<not> is_complete (extractionFilter lf)"
    using ready_not_complete [OF assms(1)] assms(2) by simp
  then show ?thesis
    unfolding extract_address_and_value_from_combined_def extract_from_combined_def
      f_def [symmetric] ps_def [symmetric] Let_def run(1,2)
    by (intro exI [of _ "lf\<lparr>extractionFilter := clear_completion f\<rparr>"])
      (cases "complete ps"; simp add: run(3) split: option.split)
qed

theorem listfilter_extraction_witness:
  "\<exists>lf'. extract_address_and_value_from_combined demo_lf 0x00000026000001A5 =
     Some (lf', \<lparr>lf_address = 0xA, lf_value = 0x35, matched = True\<rparr>)"
  using listfilter_extraction [OF demo_lf_ready, of "0x00000026000001A5"] demo_lf_parts demo_lf_values
  by (auto simp: demo_lf_subs_def Let_def complete_def)

text \<open>As only two data words are offered, a list filter with one subfilter matches when either
  half matches it, one with two when the halves match them in a suitable order, and one with three or
  more never. A list filter built without filter strings, which \<^verbatim>\<open>make_listfilter\<close> allows by default,
  fails the assertion of every extraction.\<close>

theorem listfilter_matched:
  fixes c :: u64
  assumes "lf_ready ds lf"
  defines "lo \<equiv> ucast c" and "hi \<equiv> ucast (drop_bit 32 c)"
  shows "case extract_from_combined lf c t of
      None \<Rightarrow> ds = [] \<or> assembled t (offer_all (halves c) (map (\<lambda>d. (d, None)) ds)) = None
    | Some (lf', r, m) \<Rightarrow>
        m = (case ds of
               [] \<Rightarrow> False
             | [d] \<Rightarrow> matches d lo (- 1) \<or> matches d hi (- 1)
             | [d1, d2] \<Rightarrow> matches d1 lo (- 1) \<and> matches d2 hi (- 1) \<or>
                          \<not> matches d1 lo (- 1) \<and> matches d2 lo (- 1) \<and> matches d1 hi (- 1)
             | _ \<Rightarrow> False) \<and> ds \<noteq> []"
proof -
  define f where "f = process_halves (extractionFilter lf) c"
  define ps where "ps = offer_all (halves c) (map (\<lambda>d. (d, None)) ds)"
  have run: "is_complete f \<longleftrightarrow> complete ps"
    "extract_if (complete ps) f t = (if complete ps then assembled t ps else Some 0)"
    using ready_run(1,2) [OF assms(1), of c] by (simp_all only: f_def ps_def)
  have "complete ps \<longleftrightarrow> (case ds of
               [] \<Rightarrow> True
             | [d] \<Rightarrow> matches d lo (- 1) \<or> matches d hi (- 1)
             | [d1, d2] \<Rightarrow> matches d1 lo (- 1) \<and> matches d2 hi (- 1) \<or>
                          \<not> matches d1 lo (- 1) \<and> matches d2 lo (- 1) \<and> matches d1 hi (- 1)
             | _ \<Rightarrow> False)"
    using three_never_complete [of ds c] unfolding ps_def
    by (cases ds rule: remdups_adj.cases; cases "tl (tl ds)")
      (auto simp: complete_def halves_def lo_def hi_def)
  then show ?thesis
    unfolding extract_from_combined_def f_def [symmetric] ps_def [symmetric] Let_def run
      ready_not_complete [OF assms(1)]
    by (cases ds rule: remdups_adj.cases; cases "tl (tl ds)"; simp split: option.split)
qed

theorem listfilter_matched_witness:
  "case extract_from_combined demo_lf 0x00000026000001A5 CacheA of
     None \<Rightarrow> False | Some (lf', r, m) \<Rightarrow> m"
  using listfilter_matched [OF demo_lf_ready, of CacheA "0x00000026000001A5"] demo_lf_parts demo_lf_values
  by (auto simp: demo_lf_subs_def matches_def split: option.splits)

end
