(* ===== verification/Qt_Data_Filter.thy ===== *)
theory Qt_Data_Filter
  imports Multiword_Filter
begin

text \<open>
  The filters of the user interface and the analysis objects: \<^verbatim>\<open>src/src/data_filter.h\<close> and
  \<^verbatim>\<open>data_filter.cc\<close>. They implement the same language as the a2 filters with different data: the string
  is kept as it is, the masks of the markers are computed on demand and kept in a mutable hash. The
  cache is part of the state here, so \<^verbatim>\<open>const\<close> member functions return the changed object too.
\<close>

section \<open>\<open>DataFilter\<close>\<close>

record QtFilter =
  q_filter :: string
  q_extractCache :: "char \<rightharpoonup> u32 \<times> bool"
  q_matchMask :: u32
  q_matchValue :: u32
  q_matchWordIndex :: s32

definition qt_char :: "string \<Rightarrow> nat \<Rightarrow> char" where
  "qt_char s i = s ! (length s - i - 1)"

definition qt_compile :: "QtFilter \<Rightarrow> QtFilter" where
  "qt_compile f =
     (let (mm, mv) =
        fold (\<lambda>i (mm, mv).
                (if is_match_char (qt_char (q_filter f) i) then mm OR push_bit i 1 else mm,
                 if is_one_char (qt_char (q_filter f) i) then mv OR push_bit i 1 else mv))
          [0..<length (q_filter f)] (0, 0)
      in f\<lparr>q_extractCache := Map.empty, q_matchMask := mm, q_matchValue := mv\<rparr>)"

definition qt_make_filter :: "string \<Rightarrow> s32 \<Rightarrow> exn + QtFilter" where
  "qt_make_filter f wordIndex =
     (if 32 < length f then Inl LengthError
      else Inr (qt_compile \<lparr>q_filter = f, q_extractCache = Map.empty, q_matchMask = 0,
                            q_matchValue = 0, q_matchWordIndex = wordIndex\<rparr>))"

fun qt_remove_spaces :: "string \<Rightarrow> string \<Rightarrow> string" where
  "qt_remove_spaces [] out = out"
| "qt_remove_spaces (c # cs) out = qt_remove_spaces cs (if c \<noteq> CHR '' '' then out @ [c] else out)"

definition makeFilterFromBytes :: "string \<Rightarrow> s32 \<Rightarrow> exn + QtFilter" where
  "makeFilterFromBytes raw wordIndex = qt_make_filter (qt_remove_spaces raw []) wordIndex"

definition qt_matches :: "QtFilter \<Rightarrow> u32 \<Rightarrow> s32 \<Rightarrow> bool" where
  "qt_matches f v wordIndex \<longleftrightarrow>
     (q_matchWordIndex f < 0 \<or> q_matchWordIndex f = wordIndex)
     \<and> v AND q_matchMask f = q_matchValue f"

text \<open>State of the scan: \<open>(result, needGather, markerSeen, gapSeen)\<close>.\<close>

fun qt_scan_step :: "string \<Rightarrow> char \<Rightarrow> nat \<Rightarrow> u32 \<times> bool \<times> bool \<times> bool \<Rightarrow> u32 \<times> bool \<times> bool \<times> bool" where
  "qt_scan_step s marker i (result, gather, markerSeen, gapSeen) =
     (if tolower (qt_char s i) = marker
      then (result OR push_bit i 1, gather \<or> (markerSeen \<and> gapSeen), True, gapSeen)
      else if markerSeen then (result, gather, markerSeen, True)
      else (result, gather, markerSeen, gapSeen))"

definition getExtractMask :: "QtFilter \<Rightarrow> char \<Rightarrow> u32 \<times> QtFilter" where
  "getExtractMask f marker0 =
     (let marker = tolower marker0 in
      case q_extractCache f marker of
        Some (m, _) \<Rightarrow> (m, f)
      | None \<Rightarrow>
          (let (result, gather, _, _) =
             fold (qt_scan_step (q_filter f) marker) [0..<length (q_filter f)] (0, False, False, False)
           in (result, f\<lparr>q_extractCache := (q_extractCache f)(marker \<mapsto> (result, gather))\<rparr>)))"

definition getExtractShift :: "QtFilter \<Rightarrow> char \<Rightarrow> nat \<times> QtFilter" where
  "getExtractShift f marker = (let (m, g) = getExtractMask f marker in (trailing_zeroes m, g))"

definition getExtractBits :: "QtFilter \<Rightarrow> char \<Rightarrow> nat \<times> QtFilter" where
  "getExtractBits f marker = (let (m, g) = getExtractMask f marker in (number_of_set_bits m, g))"

text \<open>\<^verbatim>\<open>QHash::value\<close> of a missing key is a default entry.\<close>

definition cached_gather :: "QtFilter \<Rightarrow> char \<Rightarrow> bool" where
  "cached_gather f marker = (case q_extractCache f marker of None \<Rightarrow> False | Some (_, g) \<Rightarrow> g)"

definition qt_needGather :: "QtFilter \<Rightarrow> char \<Rightarrow> bool \<times> QtFilter" where
  "qt_needGather f marker0 =
     (let marker = tolower marker0; (_, g) = getExtractMask f marker in (cached_gather g marker, g))"

definition extractData :: "QtFilter \<Rightarrow> u32 \<Rightarrow> char \<Rightarrow> u32 \<times> QtFilter" where
  "extractData f v marker0 =
     (let marker = tolower marker0;
          (m, g) = getExtractMask f marker;
          (shift, h) = getExtractShift g marker;
          result = drop_bit shift (v AND m)
      in if cached_gather h marker then (bit_gather result (drop_bit shift m), h) else (result, h))"

definition qt_equal :: "QtFilter \<Rightarrow> QtFilter \<Rightarrow> bool" where
  "qt_equal f g \<longleftrightarrow> q_filter f = q_filter g \<and> q_matchWordIndex f = q_matchWordIndex g"

section \<open>\<open>MultiWordDataFilter\<close>\<close>

record ResultPart =
  rp_matched :: bool
  matchedWord :: u32

record MultiWordDataFilter =
  m_filters :: "QtFilter list"
  m_results :: "ResultPart list"

definition empty_part :: ResultPart where
  "empty_part = \<lparr>rp_matched = False, matchedWord = 0\<rparr>"

definition new_multi :: "QtFilter list \<Rightarrow> MultiWordDataFilter" where
  "new_multi fs = \<lparr>m_filters = fs, m_results = replicate (length fs) empty_part\<rparr>"

definition clearCompletion :: "MultiWordDataFilter \<Rightarrow> MultiWordDataFilter" where
  "clearCompletion m = m\<lparr>m_results := map (\<lambda>p. p\<lparr>rp_matched := False\<rparr>) (m_results m)\<rparr>"

definition resize_parts :: "nat \<Rightarrow> ResultPart list \<Rightarrow> ResultPart list" where
  "resize_parts n ps = take n ps @ replicate (n - length ps) empty_part"

definition addSubFilter :: "MultiWordDataFilter \<Rightarrow> QtFilter \<Rightarrow> MultiWordDataFilter" where
  "addSubFilter m f =
     (let fs = m_filters m @ [f]
      in clearCompletion (m\<lparr>m_filters := fs, m_results := resize_parts (length fs) (m_results m)\<rparr>))"

definition setSubFilters :: "MultiWordDataFilter \<Rightarrow> QtFilter list \<Rightarrow> MultiWordDataFilter" where
  "setSubFilters m fs =
     clearCompletion (m\<lparr>m_filters := fs, m_results := resize_parts (length fs) (m_results m)\<rparr>)"

fun handle_loop :: "nat list \<Rightarrow> MultiWordDataFilter \<Rightarrow> u32 \<Rightarrow> s32 \<Rightarrow> MultiWordDataFilter" where
  "handle_loop [] m dataWord wordIndex = m"
| "handle_loop (i # is) m dataWord wordIndex =
     (if \<not> rp_matched (m_results m ! i) \<and> qt_matches (m_filters m ! i) dataWord wordIndex
      then m\<lparr>m_results := (m_results m)[i := \<lparr>rp_matched = True, matchedWord = dataWord\<rparr>]\<rparr>
      else handle_loop is m dataWord wordIndex)"

definition handleDataWord :: "MultiWordDataFilter \<Rightarrow> u32 \<Rightarrow> s32 \<Rightarrow> MultiWordDataFilter" where
  "handleDataWord m dataWord wordIndex = handle_loop [0..<length (m_filters m)] m dataWord wordIndex"

definition isComplete :: "MultiWordDataFilter \<Rightarrow> bool" where
  "isComplete m \<longleftrightarrow> list_all rp_matched (m_results m)"

text \<open>The extraction loop: the filters' caches change as it goes. \<^const>\<open>None\<close>: an undefined shift.\<close>

fun extract_loop :: "nat list \<Rightarrow> MultiWordDataFilter \<Rightarrow> char \<Rightarrow> u64 \<Rightarrow> nat \<Rightarrow> (u64 \<times> MultiWordDataFilter) option" where
  "extract_loop [] m marker result shift = Some (result, m)"
| "extract_loop (i # is) m marker result shift =
     (let (v, f) = extractData (m_filters m ! i) (matchedWord (m_results m ! i)) marker;
          (b, g) = getExtractBits f marker
      in if shift < 64
         then extract_loop is (m\<lparr>m_filters := (m_filters m)[i := g]\<rparr>) marker
                (result OR push_bit shift (ucast v)) (shift + b)
         else None)"

definition multi_extractData :: "MultiWordDataFilter \<Rightarrow> char \<Rightarrow> (u64 \<times> MultiWordDataFilter) option" where
  "multi_extractData m marker =
     (if m_filters m = [] \<or> \<not> isComplete m then Some (0, m)
      else extract_loop [0..<length (m_filters m)] m marker 0 0)"

section \<open>The cache does not show\<close>

definition qt_scan :: "string \<Rightarrow> char \<Rightarrow> u32 \<times> bool" where
  "qt_scan s marker =
     (let (r, g, _, _) = fold (qt_scan_step s marker) [0..<length s] (0, False, False, False) in (r, g))"

definition qt_mask :: "string \<Rightarrow> char \<Rightarrow> u32" where
  "qt_mask s marker = fst (qt_scan s marker)"

lemma qt_char_rev: "i < length s \<Longrightarrow> qt_char s i = rev s ! i"
  by (simp add: qt_char_def rev_nth)

lemma qt_scan_fold:
  "fold (qt_scan_step s marker) [0..<length s] x = fold (scan_step (rev s) marker) [0..<length s] x"
proof (rule fold_cong [OF refl refl])
  fix i
  assume "i \<in> set [0..<length s]"
  then have "qt_char s i = rev s ! i" by (simp add: qt_char_rev)
  then show "qt_scan_step s marker i = scan_step (rev s) marker i" by (auto simp: fun_eq_iff)
qed

lemma qt_scan_eq:
  assumes "length s \<le> 32"
  shows "qt_scan s marker = (qt_mask s marker, gap (bit (qt_mask s marker)) 32)"
    and "bit (qt_mask s marker) j \<longleftrightarrow> j < length s \<and> tolower (rev s ! j) = marker"
proof -
  from scan_loop [OF assms, of "rev s" marker] obtain em where
    em: "fold (scan_step (rev s) marker) [0..<length s] (0, False, False, False)
         = (em, gap (\<lambda>i. tolower (rev s ! i) = marker) (length s),
            some_below (\<lambda>i. tolower (rev s ! i) = marker) (length s),
            gap_open (\<lambda>i. tolower (rev s ! i) = marker) (length s))"
    and bits: "\<And>j. bit em j \<longleftrightarrow> j < length s \<and> tolower (rev s ! j) = marker" by blast
  have scan: "qt_scan s marker = (em, gap (\<lambda>i. tolower (rev s ! i) = marker) (length s))"
    by (simp only: qt_scan_def qt_scan_fold em Let_def prod.case)
  then have mask: "qt_mask s marker = em" by (simp add: qt_mask_def)
  show "bit (qt_mask s marker) j \<longleftrightarrow> j < length s \<and> tolower (rev s ! j) = marker"
    by (simp only: mask bits)
  show "qt_scan s marker = (qt_mask s marker, gap (bit (qt_mask s marker)) 32)"
    by (simp only: scan mask gap_bits [OF bits assms])
qed

definition wf_qt :: "QtFilter \<Rightarrow> bool" where
  "wf_qt f \<longleftrightarrow>
     length (q_filter f) \<le> 32 \<and>
     (\<forall>i. bit (q_matchMask f) i \<longleftrightarrow> i < length (q_filter f) \<and> is_match_char (rev (q_filter f) ! i)) \<and>
     (\<forall>i. bit (q_matchValue f) i \<longleftrightarrow> i < length (q_filter f) \<and> is_one_char (rev (q_filter f) ! i)) \<and>
     (\<forall>c e. q_extractCache f c = Some e \<longrightarrow> e = qt_scan (q_filter f) c)"

text \<open>Only the cache may differ.\<close>

definition same_but_cache :: "QtFilter \<Rightarrow> QtFilter \<Rightarrow> bool" where
  "same_but_cache f g \<longleftrightarrow> f\<lparr>q_extractCache := Map.empty\<rparr> = g\<lparr>q_extractCache := Map.empty\<rparr>"

lemma same_but_cache_refl [simp]: "same_but_cache f f"
  by (simp add: same_but_cache_def)

lemma same_but_cache_trans: "same_but_cache f g \<Longrightarrow> same_but_cache g h \<Longrightarrow> same_but_cache f h"
  by (simp add: same_but_cache_def)

lemma same_but_cache_fields:
  "same_but_cache f g \<Longrightarrow> q_filter g = q_filter f \<and> q_matchMask g = q_matchMask f \<and>
     q_matchValue g = q_matchValue f \<and> q_matchWordIndex g = q_matchWordIndex f"
  by (cases f; cases g) (simp add: same_but_cache_def)

lemma getExtractMask_eq:
  assumes "wf_qt f"
  shows "fst (getExtractMask f c) = qt_mask (q_filter f) (tolower c)"
    and "wf_qt (snd (getExtractMask f c))"
    and "same_but_cache f (snd (getExtractMask f c))"
    and "q_extractCache (snd (getExtractMask f c)) (tolower c) = Some (qt_scan (q_filter f) (tolower c))"
proof -
  have scan: "(let (r, g, _, _) = fold (qt_scan_step (q_filter f) (tolower c)) [0..<length (q_filter f)]
       (0, False, False, False) in (r, f\<lparr>q_extractCache := (q_extractCache f)(tolower c \<mapsto> (r, g))\<rparr>))
     = (qt_mask (q_filter f) (tolower c),
        f\<lparr>q_extractCache := (q_extractCache f)(tolower c \<mapsto> qt_scan (q_filter f) (tolower c))\<rparr>)"
    by (simp add: qt_mask_def qt_scan_def split: prod.split)
  have some: "e = qt_scan (q_filter f) (tolower c)" if "q_extractCache f (tolower c) = Some e" for e
    using that assms unfolding wf_qt_def by blast
  have result: "getExtractMask f c = (qt_mask (q_filter f) (tolower c),
      case q_extractCache f (tolower c) of Some _ \<Rightarrow> f
      | None \<Rightarrow> f\<lparr>q_extractCache := (q_extractCache f)(tolower c \<mapsto> qt_scan (q_filter f) (tolower c))\<rparr>)"
    using some unfolding getExtractMask_def Let_def [of "tolower c"] scan
    by (auto simp: qt_mask_def split: option.split)
  show "fst (getExtractMask f c) = qt_mask (q_filter f) (tolower c)" by (simp add: result)
  show "wf_qt (snd (getExtractMask f c))"
    using assms by (auto simp: result wf_qt_def split: option.split)
  show "same_but_cache f (snd (getExtractMask f c))"
    by (simp add: result same_but_cache_def split: option.split)
  show "q_extractCache (snd (getExtractMask f c)) (tolower c) = Some (qt_scan (q_filter f) (tolower c))"
    using some by (simp add: result split: option.split)
qed

lemma tolower_idem [simp]: "tolower (tolower c) = tolower c"
proof -
  have "(of_char (char_of ((of_char c :: nat) + 32) :: char) :: nat) = of_char c + 32"
    if "(of_char c :: nat) \<le> 90"
    using that by (simp add: of_char_of)
  then show ?thesis by (auto simp: tolower_def)
qed

lemma getExtractBits_eq:
  assumes "wf_qt f"
  shows "fst (getExtractBits f c) = length (positions (qt_mask (q_filter f) (tolower c)))"
    and "wf_qt (snd (getExtractBits f c))" and "same_but_cache f (snd (getExtractBits f c))"
  using getExtractMask_eq [OF assms, of c]
  by (auto simp: getExtractBits_def number_of_set_bits_eq split: prod.split)

lemma extractData_eq:
  assumes "wf_qt f"
  shows "fst (extractData f v c) = gather_spec v (qt_mask (q_filter f) (tolower c))"
    and "wf_qt (snd (extractData f v c))" and "same_but_cache f (snd (extractData f v c))"
proof -
  let ?c = "tolower c"
  define g where "g = snd (getExtractMask f ?c)"
  define h where "h = snd (getExtractMask g ?c)"
  note g = getExtractMask_eq [OF assms, of ?c, folded g_def, unfolded tolower_idem]
  note h = getExtractMask_eq [OF g(2), of ?c, folded h_def, unfolded tolower_idem]
  define m where "m = qt_mask (q_filter f) ?c"
  have len: "length (q_filter f) \<le> 32" using assms by (simp add: wf_qt_def)
  have qg: "q_filter g = q_filter f" using same_but_cache_fields [OF g(3)] by blast
  have gathered: "cached_gather h ?c = gap (bit m) 32"
    by (simp add: cached_gather_def h(4) qg qt_scan_eq(1) [OF len] m_def)
  have *: "extractData f v c =
      (if gap (bit m) 32
       then bit_gather (drop_bit (trailing_zeroes m) (v AND m)) (drop_bit (trailing_zeroes m) m)
       else drop_bit (trailing_zeroes m) (v AND m), h)"
  proof -
    have "getExtractMask f ?c = (m, g)" using g(1) by (simp add: g_def m_def prod_eq_iff)
    moreover have "getExtractMask g ?c = (m, h)" using h(1) by (simp add: h_def m_def qg prod_eq_iff)
    then have "getExtractShift g ?c = (trailing_zeroes m, h)" by (simp add: getExtractShift_def)
    ultimately show ?thesis by (simp add: extractData_def Let_def gathered)
  qed
  show "fst (extractData f v c) = gather_spec v (qt_mask (q_filter f) ?c)"
    unfolding * fst_conv shift_or_gather m_def ..
  show "wf_qt (snd (extractData f v c))" using h(2) by (simp add: *)
  show "same_but_cache f (snd (extractData f v c))"
    using same_but_cache_trans [OF g(3) h(3)] by (simp add: *)
qed

section \<open>The same language as the a2 filters\<close>

lemma qt_remove_spaces_eq: "qt_remove_spaces s out = out @ remove_spaces s"
  by (induction s out rule: qt_remove_spaces.induct) auto

lemma qt_make_filter_eq:
  "qt_make_filter s wi =
    (if 32 < length s then Inl LengthError
     else Inr \<lparr>q_filter = s, q_extractCache = Map.empty,
               q_matchMask = fold (\<lambda>i m. if is_match_char (qt_char s i) then m OR push_bit i 1 else m) [0..<length s] 0,
               q_matchValue = fold (\<lambda>i m. if is_one_char (qt_char s i) then m OR push_bit i 1 else m) [0..<length s] 0,
               q_matchWordIndex = wi\<rparr>)"
  by (simp add: qt_make_filter_def qt_compile_def fold_pair)

lemma qt_make_filter_wf:
  assumes "qt_make_filter s wi = Inr f"
  shows "wf_qt f \<and> q_filter f = s \<and> q_matchWordIndex f = wi"
  using assms by (auto simp: qt_make_filter_eq wf_qt_def fold_or_bits qt_char_rev split: if_splits)

text \<open>A Qt filter and an a2 filter of the same source.\<close>

definition qt_rel :: "QtFilter \<Rightarrow> DataFilter \<Rightarrow> bool" where
  "qt_rel q d \<longleftrightarrow> wf_qt q \<and> wf_filter d \<and> q_matchWordIndex q = matchWordIndex d \<and>
     filter_chars d = rev (q_filter q) @ replicate (32 - length (q_filter q)) CHR ''X''"

lemma qt_rel_make:
  assumes "makeFilterFromBytes raw wi = Inr q" "make_filter raw wi = Inr d"
  shows "qt_rel q d"
proof -
  have "wf_qt q \<and> q_filter q = remove_spaces raw \<and> q_matchWordIndex q = wi"
    using assms(1) qt_make_filter_wf by (simp add: makeFilterFromBytes_def qt_remove_spaces_eq)
  moreover have "matchWordIndex d = wi" using assms(2) by (auto simp: make_filter_eq split: if_splits)
  ultimately show ?thesis
    using make_filter_wf [OF assms(2)] filter_chars_make_filter [OF assms(2)]
    by (simp add: qt_rel_def FilterSize_def)
qed

lemma makeFilterFromBytes_error:
  "makeFilterFromBytes raw wi = Inl e \<longleftrightarrow> make_filter raw wi = Inl e"
  by (simp add: makeFilterFromBytes_def qt_make_filter_eq qt_remove_spaces_eq make_filter_eq FilterSize_def)

lemma qt_rel_chars:
  assumes "qt_rel q d" "i < 32"
  shows "filter_chars d ! i = (if i < length (q_filter q) then rev (q_filter q) ! i else CHR ''X'')"
  using assms by (simp add: qt_rel_def nth_append)

lemma qt_rel_same_but_cache: "qt_rel q d \<Longrightarrow> same_but_cache q q' \<Longrightarrow> wf_qt q' \<Longrightarrow> qt_rel q' d"
  using same_but_cache_fields [of q q'] by (simp add: qt_rel_def)

lemma qt_rel_matches:
  assumes "qt_rel q d"
  shows "qt_matches q v i = matches d v i"
proof -
  have len: "length (q_filter q) \<le> 32" using assms by (simp add: qt_rel_def wf_qt_def)
  have X: "\<not> is_match_char CHR ''X''" "\<not> is_one_char CHR ''X''"
    by (simp_all add: is_match_char_def is_one_char_def)
  have "bit (q_matchMask q) j = bit (matchMask d) j" if "j < 32" for j
    using assms qt_rel_chars [OF assms that] X that
    by (simp add: qt_rel_def wf_qt_def wf_filter_def FilterSize_def)
  then have "q_matchMask q = matchMask d" by (intro word_eqI_bits) simp
  moreover have "bit (q_matchValue q) j = bit (matchValue d) j" if "j < 32" for j
    using assms qt_rel_chars [OF assms that] X that
    by (simp add: qt_rel_def wf_qt_def wf_filter_def FilterSize_def)
  then have "q_matchValue q = matchValue d" by (intro word_eqI_bits) simp
  ultimately show ?thesis
    using assms by (simp add: qt_matches_def matches_def qt_rel_def)
qed

lemma qt_rel_mask:
  assumes "qt_rel q d" "tolower c \<noteq> CHR ''x''"
  shows "qt_mask (q_filter q) (tolower c) = extractMask (make_cache_entry d c)"
proof (rule word_eqI_bits)
  fix j :: nat
  assume "j < LENGTH(32)"
  then have j: "j < 32" by simp
  have len: "length (q_filter q) \<le> 32" using assms by (simp add: qt_rel_def wf_qt_def)
  have "tolower CHR ''X'' = CHR ''x''" by (rule tolower_eval)
  then show "bit (qt_mask (q_filter q) (tolower c)) j = bit (extractMask (make_cache_entry d c)) j"
    using j assms(2) qt_rel_chars [OF assms(1) j]
    by (auto simp: qt_scan_eq(2) [OF len] bit_extractMask marked_def FilterSize_def)
qed

lemma qt_rel_extract:
  assumes "qt_rel q d" "tolower c \<noteq> CHR ''x''"
  shows "fst (extractData q v c) = extract_value (make_cache_entry d c) v"
    and "qt_rel (snd (extractData q v c)) d"
    and "fst (getExtractBits q c) = extractBits (make_cache_entry d c)"
    and "qt_rel (snd (getExtractBits q c)) d"
proof -
  have wf: "wf_qt q" using assms(1) by (simp add: qt_rel_def)
  note e = extractData_eq [OF wf, of v c] and b = getExtractBits_eq [OF wf, of c]
  show "fst (extractData q v c) = extract_value (make_cache_entry d c) v"
    by (simp only: e(1) qt_rel_mask [OF assms] extract_value_eq)
  show "fst (getExtractBits q c) = extractBits (make_cache_entry d c)"
    by (simp only: b(1) qt_rel_mask [OF assms] extractBits_eq)
  show "qt_rel (snd (extractData q v c)) d" by (rule qt_rel_same_but_cache [OF assms(1) e(3) e(2)])
  show "qt_rel (snd (getExtractBits q c)) d" by (rule qt_rel_same_but_cache [OF assms(1) b(3) b(2)])
qed

section \<open>Refinement of the abstract machine\<close>

definition multi_rel :: "DataFilter list \<Rightarrow> MultiWordDataFilter \<Rightarrow> bool" where
  "multi_rel ds m \<longleftrightarrow> list_all2 qt_rel (m_filters m) ds \<and> length (m_results m) = length ds"

definition qpart :: "DataFilter list \<Rightarrow> MultiWordDataFilter \<Rightarrow> nat \<Rightarrow> DataFilter \<times> u32 option" where
  "qpart ds m i = (ds ! i, if rp_matched (m_results m ! i) then Some (matchedWord (m_results m ! i)) else None)"

definition qparts :: "DataFilter list \<Rightarrow> MultiWordDataFilter \<Rightarrow> DataFilter parts" where
  "qparts ds m = map (qpart ds m) [0..<length ds]"

lemma multi_rel_nth: "multi_rel ds m \<Longrightarrow> i < length ds \<Longrightarrow> qt_rel (m_filters m ! i) (ds ! i)"
  by (simp add: multi_rel_def list_all2_conv_all_nth)

lemma multi_rel_length: "multi_rel ds m \<Longrightarrow> length (m_filters m) = length ds \<and> length (m_results m) = length ds"
  by (auto simp: multi_rel_def dest: list_all2_lengthD)

lemma handle_loop_rel: "multi_rel ds m \<Longrightarrow> multi_rel ds (handle_loop is m w wi)"
  by (induction "is" m w wi rule: handle_loop.induct) (simp_all add: multi_rel_def)

lemma handle_loop_frame: "j \<notin> set is \<Longrightarrow> qpart ds (handle_loop is m w wi) j = qpart ds m j"
  by (induction "is" m w wi rule: handle_loop.induct) (auto simp: qpart_def split: if_splits)

lemma handle_loop_offer:
  assumes "distinct is" "\<forall>i \<in> set is. i < length ds" "multi_rel ds m"
  shows "map (qpart ds (handle_loop is m w wi)) is
       = offer (\<lambda>d. matches d w wi) w (map (qpart ds m) is)"
  using assms
proof (induction "is")
  case (Cons i "is")
  let ?g = "m\<lparr>m_results := (m_results m)[i := \<lparr>rp_matched = True, matchedWord = w\<rparr>]\<rparr>"
  have match: "qt_matches (m_filters m ! i) w wi = matches (ds ! i) w wi"
    using Cons.prems by (intro qt_rel_matches multi_rel_nth) auto
  show ?case
  proof (cases "\<not> rp_matched (m_results m ! i) \<and> matches (ds ! i) w wi")
    case True
    moreover have "qpart ds ?g i = (ds ! i, Some w)" and "qpart ds m i = (ds ! i, None)"
      using True Cons.prems by (simp_all add: qpart_def multi_rel_def)
    moreover have "qpart ds ?g j = qpart ds m j" if "j \<noteq> i" for j
      using that by (simp add: qpart_def)
    then have "map (qpart ds ?g) is = map (qpart ds m) is"
      using Cons.prems(1) by (metis (no_types, lifting) distinct.simps(2) map_cong)
    ultimately show ?thesis by (simp add: match)
  next
    case False
    then have "offer (\<lambda>d. matches d w wi) w (qpart ds m i # ps)
        = qpart ds m i # offer (\<lambda>d. matches d w wi) w ps" for ps
      by (auto simp: qpart_def)
    moreover have "qpart ds (handle_loop is m w wi) i = qpart ds m i"
      using Cons.prems by (intro handle_loop_frame) auto
    ultimately show ?thesis using Cons False by (auto simp: match)
  qed
qed simp

lemma handleDataWord_offer:
  "multi_rel ds m \<Longrightarrow> qparts ds (handleDataWord m w wi) = offer (\<lambda>d. matches d w wi) w (qparts ds m)"
  unfolding qparts_def handleDataWord_def
  using handle_loop_offer [OF distinct_upt, of 0 "length ds"] multi_rel_length [of ds m] by simp

lemma handleDataWord_rel: "multi_rel ds m \<Longrightarrow> multi_rel ds (handleDataWord m w wi)"
  by (simp add: handleDataWord_def handle_loop_rel)

lemma isComplete_iff: "multi_rel ds m \<Longrightarrow> isComplete m \<longleftrightarrow> complete (qparts ds m)"
  by (auto simp: isComplete_def complete_def qparts_def qpart_def list_all_length multi_rel_def)

lemma extract_loop_eq:
  assumes "\<forall>i \<in> set is. i < length ds" "multi_rel ds m" "tolower c \<noteq> CHR ''x''"
  shows "map_option fst (extract_loop is m c r s) =
      or_shifted (map (\<lambda>i. (extract_value (make_cache_entry (ds ! i) c) (matchedWord (m_results m ! i)),
        extractBits (make_cache_entry (ds ! i) c))) is) r s \<and>
      (\<forall>r' m'. extract_loop is m c r s = Some (r', m') \<longrightarrow> multi_rel ds m' \<and> m_results m' = m_results m)"
  using assms(1,2)
proof (induction "is" arbitrary: m r s)
  case (Cons i "is")
  define e where "e = extractData (m_filters m ! i) (matchedWord (m_results m ! i)) c"
  define b where "b = getExtractBits (snd e) c"
  have i: "i < length ds" using Cons.prems by simp
  note e = qt_rel_extract(1,2) [OF multi_rel_nth [OF Cons.prems(2) i] assms(3),
      of "matchedWord (m_results m ! i)", folded e_def]
  note b = qt_rel_extract(3,4) [OF e(2) assms(3), folded b_def]
  define m' where "m' = m\<lparr>m_filters := (m_filters m)[i := snd b]\<rparr>"
  have m': "multi_rel ds m'" "m_results m' = m_results m"
    using Cons.prems(2) b(2) i
    by (auto simp: m'_def multi_rel_def list_all2_conv_all_nth nth_list_update)
  have step: "extract_loop (i # is) m c r s =
      (if s < 64 then extract_loop is m' c (r OR push_bit s (ucast (fst e))) (s + fst b) else None)"
    by (simp add: e_def b_def m'_def Let_def split: prod.split)
  have IH: "\<forall>i \<in> set is. i < length ds" using Cons.prems(1) by simp
  from Cons.IH [OF IH m'(1)] show ?case by (simp add: step e(1) b(1) m'(2) del: extract_loop.simps(2))
qed simp_all

lemma multi_extractData_eq:
  assumes "multi_rel ds m" "isComplete m"
  shows "map_option fst (multi_extractData m (cache_char t)) = assembled t (qparts ds m)"
proof -
  have c: "tolower (cache_char t) \<noteq> CHR ''x''" by (simp add: cache_char_def tolower_eval split: CacheType.split)
  have matched: "rp_matched (m_results m ! i)" if "i < length ds" for i
    using assms that by (simp add: isComplete_def list_all_length multi_rel_def)
  show ?thesis
  proof (cases "ds = []")
    case True
    then show ?thesis
      using multi_rel_length [OF assms(1)] by (simp add: multi_extractData_def assembled_def qparts_def)
  next
    case False
    then have "m_filters m \<noteq> []" using multi_rel_length [OF assms(1)] by auto
    then have "map_option fst (multi_extractData m (cache_char t)) =
        map_option fst (extract_loop [0..<length ds] m (cache_char t) 0 0)"
      using assms multi_rel_length [OF assms(1)] by (simp add: multi_extractData_def)
    also have "\<dots> = assembled t (qparts ds m)"
      using extract_loop_eq [OF _ assms(1) c, of "[0..<length ds]" 0 0] matched
      by (auto simp: assembled_def qparts_def qpart_def intro!: arg_cong [where f = "\<lambda>l. or_shifted l 0 0"])
    finally show ?thesis .
  qed
qed

fun handle_words :: "MultiWordDataFilter \<Rightarrow> (u32 \<times> s32) list \<Rightarrow> MultiWordDataFilter" where
  "handle_words m [] = m"
| "handle_words m ((w, i) # ws) = handle_words (handleDataWord m w i) ws"

lemma handle_words_refines:
  "multi_rel ds m \<Longrightarrow> multi_rel ds (handle_words m ws) \<and>
   qparts ds (handle_words m ws) = offer_all ws (qparts ds m)"
  by (induction m ws rule: handle_words.induct) (simp_all add: handleDataWord_rel handleDataWord_offer)

lemma clearCompletion_parts: "qparts ds (clearCompletion m) = map (\<lambda>p. (fst p, None)) (qparts ds m)"
  if "multi_rel ds m"
  using that by (auto simp: qparts_def qpart_def clearCompletion_def multi_rel_def)

lemma set_subfilters_rel:
  assumes "list_all2 qt_rel fs ds"
  shows "multi_rel ds (setSubFilters m fs)" and "qparts ds (setSubFilters m fs) = map (\<lambda>d. (d, None)) ds"
proof -
  have len: "length fs = length ds" using assms by (rule list_all2_lengthD)
  then have *: "length (resize_parts (length fs) (m_results m)) = length ds"
    by (simp add: resize_parts_def)
  then show "multi_rel ds (setSubFilters m fs)"
    using assms by (simp add: multi_rel_def setSubFilters_def clearCompletion_def)
  show "qparts ds (setSubFilters m fs) = map (\<lambda>d. (d, None)) ds"
    using * by (auto simp: qparts_def qpart_def setSubFilters_def clearCompletion_def intro!: nth_equalityI)
qed

lemma addSubFilter_set: "addSubFilter m f = setSubFilters m (m_filters m @ [f])"
  by (simp add: addSubFilter_def setSubFilters_def Let_def)

section \<open>Pretty filter strings\<close>

text \<open>\<open>outidx\<close> may run below 0, where the loop stops or the write is out of bounds (\<^const>\<open>None\<close>).\<close>

definition put_at :: "string \<Rightarrow> int \<Rightarrow> char \<Rightarrow> string option" where
  "put_at buffer i c = (if 0 \<le> i \<and> i < int (length buffer) then Some (buffer[nat i := c]) else None)"

function pretty_loop :: "nat \<Rightarrow> nat \<Rightarrow> char \<Rightarrow> string \<Rightarrow> int \<Rightarrow> nat \<Rightarrow> string option" where
  "pretty_loop bits dataBits c buffer outidx bits_written =
     (if bits_written < bits \<and> 0 \<le> outidx
      then Option.bind
        (if bits_written \<noteq> 0 \<and> bits_written mod 4 = 0
         then map_option (\<lambda>b. (b, outidx - 1)) (put_at buffer outidx CHR '' '')
         else Some (buffer, outidx))
        (\<lambda>(b1, o1). Option.bind (put_at b1 o1 (if bits_written < dataBits then c else CHR '' ''))
           (\<lambda>b2. pretty_loop bits dataBits c b2 (o1 - 1) (bits_written + 1)))
      else Some buffer)"
  by auto
termination
  by (relation "measure (\<lambda>(bits, _, _, _, _, w). bits - w)") auto

text \<open>\<^verbatim>\<open>ceil(bits / 4.0 - 1.0)\<close> is \<open>(bits + 3) div 4 - 1\<close>; a negative size gives the empty string.\<close>

definition generate_pretty_filter_string :: "u8 \<Rightarrow> char \<Rightarrow> string option" where
  "generate_pretty_filter_string bits c =
     (let n = nat (int (unat bits) + ((int (unat bits) + 3) div 4 - 1))
      in pretty_loop (unat bits) (unat bits) c (replicate n CHR '' '') (int n - 1) 0)"

definition generate_padded_filter_string :: "u8 \<Rightarrow> u8 \<Rightarrow> char \<Rightarrow> string option" where
  "generate_padded_filter_string dataBits totalBits c =
     (let bits = max (unat dataBits) (unat totalBits);
          n = nat (int bits + (int bits div 4 - 1))
      in pretty_loop bits (unat dataBits) c (replicate n CHR '' '') (int n - 1) 0)"

text \<open>Positions are counted from the right: every fifth one is a blank. \<open>filled w\<close> positions are
  written once \<open>w\<close> bits are.\<close>

definition pretty_char :: "nat \<Rightarrow> char \<Rightarrow> nat \<Rightarrow> char" where
  "pretty_char dataBits c p = (if p mod 5 \<noteq> 4 \<and> p - p div 5 < dataBits then c else CHR '' '')"

definition filled :: "nat \<Rightarrow> nat" where
  "filled w = w + (w - 1) div 4"

lemma filled_0 [simp]: "filled 0 = 0"
  by (simp add: filled_def)

lemma filled_digit: "r < 4 \<Longrightarrow> filled (Suc (4 * m + r)) = Suc (5 * m + r)"
  by (simp add: filled_def)

lemma filled_cases:
  obtains "w = 0" | m r where "r < 4" "w = Suc (4 * m + r)"
proof (cases w)
  case (Suc v)
  moreover have "v = 4 * (v div 4) + v mod 4" "v mod 4 < 4" by simp_all
  ultimately show thesis using that(2) by blast
qed (use that in blast)

lemma filled_buffer_size:
  "0 < n \<Longrightarrow> nat (int n + ((int n + 3) div 4 - 1)) = filled n"
proof (cases n rule: filled_cases)
  case (2 m r)
  then have "int n + 3 = int r + 4 * (int m + 1)" by simp
  then have "(int n + 3) div 4 = int m + 1" using 2 by simp
  then show ?thesis using 2 filled_digit [OF 2(1), of m] by (simp add: nat_add_distrib)
qed simp

lemma filled_Suc: "filled (Suc w) = (if w \<noteq> 0 \<and> w mod 4 = 0 then Suc (Suc (filled w)) else Suc (filled w))"
proof (cases w rule: filled_cases)
  case 1
  then show ?thesis by (simp add: filled_def)
next
  case (2 m r)
  show ?thesis
  proof (cases "r = 3")
    case True
    then have "w = 4 * (m + 1)" using 2 by simp
    moreover from this have "filled (Suc w) = Suc (5 * (m + 1))" using filled_digit [of 0 "m + 1"] by simp
    ultimately show ?thesis using filled_digit [of 3 m] True 2 by simp
  next
    case False
    then have r: "Suc r < 4" using 2 by simp
    have "w mod 4 = Suc r" using r 2 by (simp add: mod_Suc)
    then show ?thesis using filled_digit [OF r, of m] filled_digit [OF 2(1), of m] 2 by simp
  qed
qed

lemma filled_mono: "v \<le> w \<Longrightarrow> filled v \<le> filled w"
  unfolding filled_def by (intro add_mono div_le_mono) auto

lemma pretty_char_group:
  "w \<noteq> 0 \<Longrightarrow> w mod 4 = 0 \<Longrightarrow>
   pretty_char d c (filled w) = CHR '' '' \<and>
   pretty_char d c (Suc (filled w)) = (if w < d then c else CHR '' '')"
proof -
  assume w: "w \<noteq> 0" "w mod 4 = 0"
  then obtain m where m: "w = Suc (4 * m + 3)"
  proof (cases w rule: filled_cases)
    case (2 m r)
    with w have "r = 3" by (simp add: mod_Suc split: if_splits)
    with 2 that show thesis by blast
  qed simp
  then have "filled w = 5 * m + 4" using filled_digit [of 3 m] by simp
  moreover have "Suc (5 * m + 4) = 5 * (m + 1)" by simp
  moreover have "5 * (m + 1) mod 5 = 0" "5 * (m + 1) div 5 = m + 1"
    by (rule mod_mult_self1_is_0, rule nonzero_mult_div_cancel_left) simp
  ultimately have "filled w mod 5 = 4" "Suc (filled w) mod 5 \<noteq> 4" "Suc (filled w) - Suc (filled w) div 5 = w"
    using m by simp_all
  then show ?thesis by (simp add: pretty_char_def)
qed

lemma pretty_char_inner:
  "\<not> (w \<noteq> 0 \<and> w mod 4 = 0) \<Longrightarrow> pretty_char d c (filled w) = (if w < d then c else CHR '' '')"
proof -
  assume w: "\<not> (w \<noteq> 0 \<and> w mod 4 = 0)"
  have "filled w mod 5 \<noteq> 4 \<and> filled w - filled w div 5 = w"
  proof (cases w rule: filled_cases)
    case (2 m r)
    then have "r \<noteq> 3" using w by auto
    then show ?thesis using 2 filled_digit [OF 2(1), of m] by (simp add: mod_Suc)
  qed simp
  then show ?thesis by (simp add: pretty_char_def)
qed

definition right_filled :: "string \<Rightarrow> (nat \<Rightarrow> char) \<Rightarrow> nat \<Rightarrow> bool" where
  "right_filled b sp k \<longleftrightarrow> (\<forall>p < k. b ! (length b - 1 - p) = sp p)"

lemma right_filled_put:
  assumes "right_filled b sp k" "k < length b" "x = sp k"
  shows "\<exists>b'. put_at b (int (length b) - 1 - int k) x = Some b' \<and> length b' = length b \<and> right_filled b' sp (Suc k)"
proof -
  have i: "nat (int (length b) - 1 - int k) = length b - 1 - k" using assms(2) by simp
  have "right_filled (b[length b - 1 - k := x]) sp (Suc k)"
    using assms by (auto simp: right_filled_def less_Suc_eq nth_list_update)
  then show ?thesis using assms(2) by (auto simp: put_at_def i)
qed

lemma right_filled_all:
  assumes "right_filled b sp (length b)"
  shows "b = rev (map sp [0..<length b])"
proof (rule nth_equalityI)
  fix i
  assume i: "i < length b"
  then have "b ! (length b - 1 - (length b - 1 - i)) = sp (length b - 1 - i)"
    using assms unfolding right_filled_def by (metis diff_less_Suc Suc_pred diff_Suc_less length_greater_0_conv list.size(3) not_less0 One_nat_def diff_diff_cancel less_imp_diff_less)
  then show "b ! i = rev (map sp [0..<length b]) ! i" using i by (simp add: rev_nth)
qed simp

lemma pretty_loop_eq:
  assumes "filled bits = length b" "w \<le> bits" "right_filled b (pretty_char d c) (filled w)"
  shows "pretty_loop bits d c b (int (length b) - 1 - int (filled w)) w
       = Some (rev (map (pretty_char d c) [0..<length b]))"
  using assms
proof (induction "bits - w" arbitrary: b w)
  case 0
  then have "w = bits" by simp
  with 0 show ?case using right_filled_all [of b] by simp
next
  case (Suc n)
  let ?sp = "pretty_char d c"
  have w: "w < bits" using Suc.hyps(2) by simp
  then have less: "filled w < filled (Suc w)" "filled (Suc w) \<le> length b"
    using filled_mono [of "Suc w" bits] Suc.prems(1) by (auto simp: filled_Suc)
  have IH: "pretty_loop bits d c b' (int (length b') - 1 - int (filled (Suc w))) (w + 1)
       = Some (rev (map ?sp [0..<length b]))"
    if "length b' = length b" "right_filled b' ?sp (filled (Suc w))" for b'
    using Suc.hyps(1) [of "Suc w" b'] Suc.hyps(2) Suc.prems(1) w that by simp
  show ?case
  proof (cases "w \<noteq> 0 \<and> w mod 4 = 0")
    case True
    then have k: "filled (Suc w) = Suc (Suc (filled w))" by (simp add: filled_Suc)
    from True obtain b1 where b1: "put_at b (int (length b) - 1 - int (filled w)) CHR '' '' = Some b1"
      "length b1 = length b" "right_filled b1 ?sp (Suc (filled w))"
      using right_filled_put [OF Suc.prems(3), of "CHR '' ''"] less pretty_char_group [of w] by auto
    from True b1 obtain b2 where b2: "put_at b1 (int (length b1) - 1 - int (Suc (filled w)))
        (if w < d then c else CHR '' '') = Some b2" "length b2 = length b1" "right_filled b2 ?sp (filled (Suc w))"
      using right_filled_put [OF b1(3), of "if w < d then c else CHR '' ''"] less k pretty_char_group [of w]
      by auto
    show ?thesis
      using True w b1 b2 less k IH [of b2]
      by (subst pretty_loop.simps) (simp add: algebra_simps del: pretty_loop.simps)
  next
    case False
    then have k: "filled (Suc w) = Suc (filled w)" unfolding filled_Suc by (simp only: if_False)
    from False obtain b1 where b1: "put_at b (int (length b) - 1 - int (filled w))
        (if w < d then c else CHR '' '') = Some b1" "length b1 = length b" "right_filled b1 ?sp (filled (Suc w))"
      using right_filled_put [OF Suc.prems(3), of "if w < d then c else CHR '' ''"] less k
        pretty_char_inner [of w] by auto
    show ?thesis
      using False w b1 less k IH [of b1]
      by (subst pretty_loop.simps) (auto simp: algebra_simps simp del: pretty_loop.simps)
  qed
qed

lemma pretty_nonblank:
  "w \<le> d \<Longrightarrow> c \<noteq> CHR '' '' \<Longrightarrow>
   remove_spaces (rev (map (pretty_char d c) [0..<filled w])) = replicate w c"
proof (induction w)
  case (Suc w)
  then show ?case
    using pretty_char_group [of w d c] pretty_char_inner [of w d c]
    by (cases "w \<noteq> 0 \<and> w mod 4 = 0") (auto simp: filled_Suc remove_spaces_eq)
qed simp

section \<open>Properties\<close>

text \<open>C34: the filters of the user interface and those of the a2 engine accept the same filter strings,
  match the same words and, for every marker other than \<open>x\<close> (with which a2 pads short filters), extract
  the same bits, whatever the state of the Qt filter's cache.\<close>

theorem qt_a2_filter_equivalence:
  assumes "tolower c \<noteq> CHR ''x''"
  shows "case (makeFilterFromBytes raw wi, make_filter raw wi) of
      (Inl e, Inl e') \<Rightarrow> e = e'
    | (Inr q, Inr d) \<Rightarrow>
        (\<forall>q'. same_but_cache q q' \<and> wf_qt q' \<longrightarrow>
           qt_matches q' v i = matches d v i \<and>
           fst (extractData q' v c) = extract_value (make_cache_entry d c) v \<and>
           fst (getExtractBits q' c) = extractBits (make_cache_entry d c) \<and>
           same_but_cache q (snd (extractData q' v c)) \<and> wf_qt (snd (extractData q' v c)))
    | _ \<Rightarrow> False"
proof (cases "makeFilterFromBytes raw wi")
  case (Inl e)
  then show ?thesis using makeFilterFromBytes_error [of raw wi e] by simp
next
  case (Inr q)
  then obtain d where d: "make_filter raw wi = Inr d"
    using makeFilterFromBytes_error [of raw wi] by (cases "make_filter raw wi") auto
  have rel: "qt_rel q' d" if "same_but_cache q q'" "wf_qt q'" for q'
    using qt_rel_same_but_cache [OF qt_rel_make [OF Inr d] that] .
  have "same_but_cache q (snd (extractData q' v c))" "wf_qt (snd (extractData q' v c))"
    if "same_but_cache q q'" "wf_qt q'" for q'
    using extractData_eq(2,3) [OF that(2), of v c] that(1) same_but_cache_trans by blast+
  then show ?thesis
    using Inr d qt_rel_matches [OF rel] qt_rel_extract(1,3) [OF rel assms] by simp
qed

theorem qt_a2_filter_equivalence_witness:
  "\<exists>q d. makeFilterFromBytes ''1A0D'' 2 = Inr q \<and> make_filter ''1A0D'' 2 = Inr d \<and>
     fst (extractData q 0xD CHR ''A'') = extract_value (make_cache_entry d CHR ''A'') 0xD"
proof -
  obtain q where "makeFilterFromBytes ''1A0D'' 2 = Inr q"
    by (simp add: makeFilterFromBytes_def qt_make_filter_eq)
  moreover have "wf_qt q" using calculation qt_make_filter_wf by (simp add: makeFilterFromBytes_def)
  moreover obtain d where "make_filter ''1A0D'' 2 = Inr d" by (simp add: make_filter_eq FilterSize_def)
  ultimately show ?thesis
    using qt_a2_filter_equivalence [where c = "CHR ''A''" and raw = "''1A0D''" and wi = 2 and v = "0xD" and i = 0]
    by (auto simp: tolower_eval)
qed

text \<open>C24: \<^verbatim>\<open>MultiWordDataFilter\<close> and the a2 \<^verbatim>\<open>MultiWordFilter\<close> built from the same filter strings are
  interchangeable: after any sequence of data words they agree on completeness, and the addresses and
  values they extract from a complete filter are the same.\<close>

theorem qt_a2_multiword_equivalence:
  assumes "list_all2 (\<lambda>(raw, wi) q. makeFilterFromBytes raw wi = Inr q) srcs qs"
    and "list_all2 (\<lambda>(raw, wi) d. make_filter raw wi = Inr d) srcs ds"
    and "length u = 16" and "add_subfilters (new_filter u) ds = Inr f"
  shows "isComplete (handle_words (setSubFilters m0 qs) ws) = is_complete (run_words f ws) \<and>
     (is_complete (run_words f ws) \<longrightarrow>
        map_option fst (multi_extractData (handle_words (setSubFilters m0 qs) ws) (cache_char t)) =
        extract_result (run_words f ws) t)"
proof -
  have "list_all2 qt_rel qs ds"
    using assms(1,2) qt_rel_make
    by (auto simp: list_all2_conv_all_nth split: prod.splits) (metis surj_pair)
  note set = set_subfilters_rel [OF this, of m0]
  define m where "m = handle_words (setSubFilters m0 qs) ws"
  have m: "multi_rel ds m" "qparts ds m = offer_all ws (map (\<lambda>d. (d, None)) ds)"
    using handle_words_refines [OF set(1), of ws] by (simp_all add: m_def set(2))
  note wf0 = wf_new_filter [OF assms(3)]
  have wf: "wf_multi (run_words f ws)" and ps: "parts_of (run_words f ws) = qparts ds m"
    using run_words_refines [OF add_subfilters_wf [OF wf0 assms(4)], of ws]
      parts_of_add_subfilters(1) [OF wf0 _ assms(4)]
    by (simp_all add: m(2))
  show ?thesis
    using isComplete_iff [OF m(1)] is_complete_iff [OF wf] multi_extractData_eq [OF m(1), of t]
      extract_result_assembled [OF wf, of t]
    by (simp add: ps m_def)
qed

theorem qt_a2_multiword_equivalence_witness:
  "\<exists>q1 q2. makeFilterFromBytes ''0001 AAAA DDDD'' (- 1) = Inr q1 \<and> makeFilterFromBytes ''0010 XDDX'' 1 = Inr q2 \<and>
     map_option fst (multi_extractData
       (handle_words (setSubFilters (new_multi []) [q1, q2]) demo_words) CHR ''D'') = Some 0x35"
proof -
  obtain q1 where q1: "makeFilterFromBytes ''0001 AAAA DDDD'' (- 1) = Inr q1"
    by (simp add: makeFilterFromBytes_def qt_make_filter_eq)
  obtain q2 where q2: "makeFilterFromBytes ''0010 XDDX'' 1 = Inr q2"
    by (simp add: makeFilterFromBytes_def qt_make_filter_eq)
  let ?srcs = "[(''0001 AAAA DDDD'', - 1), (''0010 XDDX'', 1)]"
  have "list_all2 (\<lambda>(raw, wi) q. makeFilterFromBytes raw wi = Inr q) ?srcs [q1, q2]"
    by (simp add: q1 q2)
  moreover have "list_all2 (\<lambda>(raw, wi) d. make_filter raw wi = Inr d) ?srcs demo_subs"
    by (simp add: demo_subs_def make_filter_eq FilterSize_def)
  ultimately show ?thesis
    using q1 q2 demo_run(2,3) qt_a2_multiword_equivalence [OF _ _ _ demo_built, of ?srcs "[q1, q2]" "new_multi []"
      demo_words CacheD]
    by (auto simp: cache_char_def)
qed

text \<open>\<^verbatim>\<open>generate_pretty_filter_string\<close> writes within its buffer and fills it with groups of four from
  the right, without padding on the left; read back as a filter it has exactly the requested number of
  characters.\<close>

theorem pretty_filter_string:
  assumes "0 < unat bits" "c \<noteq> CHR '' ''"
  shows "\<exists>s. generate_pretty_filter_string bits c = Some s \<and>
     length s = unat bits + (unat bits - 1) div 4 \<and>
     (\<forall>p < length s. s ! (length s - 1 - p) = (if p mod 5 = 4 then CHR '' '' else c)) \<and>
     remove_spaces s = replicate (unat bits) c"
proof -
  let ?n = "unat bits" and ?s = "rev (map (pretty_char (unat bits) c) [0..<filled (unat bits)])"
  note n = filled_buffer_size [OF assms(1)]
  have "generate_pretty_filter_string bits c = Some ?s"
    using pretty_loop_eq [of ?n "replicate (filled ?n) CHR '' ''" 0 ?n c]
    unfolding generate_pretty_filter_string_def Let_def n
    by (simp add: right_filled_def del: pretty_loop.simps)
  moreover have small: "p - p div 5 < ?n" if "p < filled ?n" "p mod 5 \<noteq> 4" for p
    using that unfolding filled_def by linarith
  have "\<forall>p < length ?s. ?s ! (length ?s - 1 - p) = (if p mod 5 = 4 then CHR '' '' else c)"
    by (auto simp: rev_nth pretty_char_def dest: small)
  ultimately show ?thesis
    using pretty_nonblank [OF order_refl assms(2), of ?n] by (intro exI [of _ ?s]) (simp add: filled_def)
qed

theorem pretty_filter_string_witness:
  "\<exists>s. generate_pretty_filter_string 6 CHR ''X'' = Some s \<and> remove_spaces s = replicate 6 CHR ''X''"
  using pretty_filter_string [of 6 "CHR ''X''"] by auto

text \<open>The padding variant is right when the larger bit count is a positive multiple of four; its
  buffer has no room for the separator of an incomplete group, so that for five bits it writes in
  front of the buffer.\<close>

theorem padded_filter_string:
  "(0 < max (unat dataBits) (unat totalBits) \<and> max (unat dataBits) (unat totalBits) mod 4 = 0 \<longrightarrow>
     generate_padded_filter_string dataBits totalBits c =
       Some (rev (map (\<lambda>p. if p mod 5 \<noteq> 4 \<and> p - p div 5 < unat dataBits then c else CHR '' '')
         [0..<max (unat dataBits) (unat totalBits) div 4 * 5 - 1]))) \<and>
   generate_padded_filter_string 5 5 c = None"
proof (intro conjI impI)
  define n where "n = max (unat dataBits) (unat totalBits)"
  assume "0 < max (unat dataBits) (unat totalBits) \<and> max (unat dataBits) (unat totalBits) mod 4 = 0"
  then have "n div 4 \<noteq> 0" "n = 4 * (n div 4)" by (auto simp: n_def [symmetric] div_eq_0_iff)
  then obtain m where m: "n = 4 * (m + 1)" by (metis Suc_eq_plus1 not0_implies_Suc)
  have filled: "filled n = 5 * m + 4" using filled_digit [of 3 m] by (simp add: m)
  have size: "nat (int n + (int n div 4 - 1)) = filled n" unfolding filled unfolding m by simp
  have total: "n div 4 * 5 - 1 = filled n" unfolding filled unfolding m by simp
  show "generate_padded_filter_string dataBits totalBits c =
      Some (rev (map (\<lambda>p. if p mod 5 \<noteq> 4 \<and> p - p div 5 < unat dataBits then c else CHR '' '')
        [0..<max (unat dataBits) (unat totalBits) div 4 * 5 - 1]))"
    using pretty_loop_eq [of n "replicate (filled n) CHR '' ''" 0 "unat dataBits" c]
    unfolding generate_padded_filter_string_def Let_def n_def [symmetric] size total
    by (simp add: right_filled_def pretty_char_def [abs_def] del: pretty_loop.simps)
next
  show "generate_padded_filter_string 5 5 c = None"
    by (simp add: generate_padded_filter_string_def put_at_def Let_def)
qed

theorem padded_filter_string_witness:
  "generate_padded_filter_string 2 4 CHR ''N'' = Some ''  NN''"
  using padded_filter_string [of 2 4 "CHR ''N''"] by (simp add: upt_rec)

end
