(* ===== verification/Event_Splitter.thy ===== *)
theory Event_Splitter
  imports Data_Filter "HOL-Library.Sublist"
begin

text \<open>
  \<^verbatim>\<open>src/src/multi_event_splitter.h\<close> and \<^verbatim>\<open>multi_event_splitter.cc\<close>: splits the data of a multi-event
  block read into single events. A data span is the list of the words between its two pointers; a
  null pointer and an empty range are both the empty list. The calls of \<^verbatim>\<open>Callbacks::eventData\<close> are
  collected in a list. A loop that does not end has the value \<^const>\<open>None\<close>.
\<close>

section \<open>State\<close>

definition MaxVMEEvents :: nat where "MaxVMEEvents = 12"
definition MaxVMEModules :: nat where "MaxVMEModules = 20"

datatype ErrorCode = Ok | EventIndexOutOfRange | ModuleIndexOutOfRange

datatype 'a outcome = Returned 'a | Thrown exn | AssertFailed | OutOfBounds

record FilterWithSizeCache =
  fs_filter :: DataFilter
  fs_cache :: CacheEntry

record ModuleData =
  md_prefix :: "u32 list"
  md_dynamic :: "u32 list"
  md_suffix :: "u32 list"

record ModuleDataSpans =
  prefixSpan :: "u32 list"
  dynamicSpan :: "u32 list"
  suffixSpan :: "u32 list"

record SplitterState =
  splitFilters :: "FilterWithSizeCache list list"
  dataSpans :: "ModuleDataSpans list"
  enabledForEvent :: "bool list"

definition empty_spans :: ModuleDataSpans where
  "empty_spans = \<lparr>prefixSpan = [], dynamicSpan = [], suffixSpan = []\<rparr>"

section \<open>Construction\<close>

fun make_module_filters :: "string list \<Rightarrow> exn + FilterWithSizeCache list" where
  "make_module_filters [] = Inr []"
| "make_module_filters (s # ss) =
     (case make_filter s (- 1) of
        Inl e \<Rightarrow> Inl e
      | Inr f \<Rightarrow>
          (case make_module_filters ss of
             Inl e \<Rightarrow> Inl e
           | Inr fcs \<Rightarrow> Inr (\<lparr>fs_filter = f, fs_cache = make_cache_entry f CHR ''S''\<rparr> # fcs)))"

fun make_event_filters :: "string list list \<Rightarrow> nat \<Rightarrow> exn + FilterWithSizeCache list list \<times> nat" where
  "make_event_filters [] maxModules = Inr ([], maxModules)"
| "make_event_filters (ms # mss) maxModules =
     (case make_module_filters ms of
        Inl e \<Rightarrow> Inl e
      | Inr fcs \<Rightarrow>
          (case make_event_filters mss (max (length ms) maxModules) of
             Inl e \<Rightarrow> Inl e
           | Inr (fss, n) \<Rightarrow> Inr (fcs # fss, n)))"

definition hasNonZeroFilter :: "FilterWithSizeCache list \<Rightarrow> bool" where
  "hasNonZeroFilter fcs \<longleftrightarrow> list_ex (\<lambda>fc. matchMask (fs_filter fc) \<noteq> 0) fcs"

definition make_splitter :: "string list list \<Rightarrow> SplitterState outcome" where
  "make_splitter splitFilterStrings =
     (case make_event_filters splitFilterStrings 0 of
        Inl e \<Rightarrow> Thrown e
      | Inr (fss, eventMaxModules) \<Rightarrow>
          if MaxVMEEvents < length fss then OutOfBounds
          else Returned \<lparr>splitFilters = fss, dataSpans = replicate eventMaxModules empty_spans,
                 enabledForEvent =
                   map hasNonZeroFilter fss @ replicate (MaxVMEEvents - length fss) False\<rparr>)"

section \<open>Recording the data of an event\<close>

definition event_in_range :: "SplitterState \<Rightarrow> int \<Rightarrow> bool" where
  "event_in_range st ei \<longleftrightarrow> ei < int (length (splitFilters st))"

definition begin_event :: "SplitterState \<Rightarrow> int \<Rightarrow> ErrorCode \<times> SplitterState" where
  "begin_event st ei =
     (if \<not> event_in_range st ei then (EventIndexOutOfRange, st)
      else (Ok, st\<lparr>dataSpans := replicate (length (dataSpans st)) empty_spans\<rparr>))"

definition set_span :: "SplitterState \<Rightarrow> int \<Rightarrow> nat \<Rightarrow> (ModuleDataSpans \<Rightarrow> ModuleDataSpans) \<Rightarrow> ErrorCode \<times> SplitterState" where
  "set_span st ei mi upd =
     (if \<not> event_in_range st ei then (EventIndexOutOfRange, st)
      else if length (dataSpans st) \<le> mi then (ModuleIndexOutOfRange, st)
      else (Ok, st\<lparr>dataSpans := (dataSpans st)[mi := upd (dataSpans st ! mi)]\<rparr>))"

definition module_prefix :: "SplitterState \<Rightarrow> int \<Rightarrow> nat \<Rightarrow> u32 list \<Rightarrow> ErrorCode \<times> SplitterState" where
  "module_prefix st ei mi ws = set_span st ei mi (prefixSpan_update (\<lambda>_. ws))"

definition module_dynamic :: "SplitterState \<Rightarrow> int \<Rightarrow> nat \<Rightarrow> u32 list \<Rightarrow> ErrorCode \<times> SplitterState" where
  "module_dynamic st ei mi ws = set_span st ei mi (dynamicSpan_update (\<lambda>_. ws))"

definition module_suffix :: "SplitterState \<Rightarrow> int \<Rightarrow> nat \<Rightarrow> u32 list \<Rightarrow> ErrorCode \<times> SplitterState" where
  "module_suffix st ei mi ws = set_span st ei mi (suffixSpan_update (\<lambda>_. ws))"

definition words_in_span :: "u32 list \<Rightarrow> nat" where
  "words_in_span span = length span"

section \<open>Splitting\<close>

text \<open>The search for the next header: \<open>i\<close> is \<^verbatim>\<open>moduleWord - dynamicSpan.begin\<close>. The loop of the code
  does not advance it.\<close>

partial_function (option) search_header :: "(u32 \<Rightarrow> bool) \<Rightarrow> u32 list \<Rightarrow> nat \<Rightarrow> nat option" where
  [code]: "search_header hit ws i =
     (if i < length ws then (if hit (ws ! i) then Some i else search_header hit ws i) else Some i)"

text \<open>\<open>Some None\<close>: the match bit of the module stays clear.\<close>

definition subevent_size :: "FilterWithSizeCache \<Rightarrow> u32 list \<Rightarrow> u32 option option" where
  "subevent_size fc ws =
     (if words_in_span ws \<noteq> 0
      then
        (let hasMatch = matches (fs_filter fc) (hd ws) (- 1) in
         if hasMatch \<and> extractMask (fs_cache fc) \<noteq> 0
         then Some (Some (1 + extract_value (fs_cache fc) (hd ws)))
         else if hasMatch
         then map_option (\<lambda>i. Some (of_nat i + 1)) (search_header (\<lambda>w. matches (fs_filter fc) w (- 1)) ws 1)
         else Some None)
      else Some None)"

definition split_module :: "bool \<Rightarrow> ModuleDataSpans \<Rightarrow> u32 option \<Rightarrow> ModuleData \<times> ModuleDataSpans" where
  "split_module staticPartsYielded spans moduleSubeventSize =
     (let p = (if \<not> staticPartsYielded then prefixSpan spans else []);
          s = (if \<not> staticPartsYielded then suffixSpan spans else [])
      in case moduleSubeventSize of
           None \<Rightarrow> (\<lparr>md_prefix = p, md_dynamic = [], md_suffix = s\<rparr>, spans)
         | Some n \<Rightarrow>
             if words_in_span (dynamicSpan spans) < unat n
             then (\<lparr>md_prefix = p, md_dynamic = [], md_suffix = s\<rparr>, spans\<lparr>dynamicSpan := []\<rparr>)
             else (\<lparr>md_prefix = p, md_dynamic = take (unat n) (dynamicSpan spans), md_suffix = s\<rparr>,
                   spans\<lparr>dynamicSpan := drop (unat n) (dynamicSpan spans)\<rparr>))"

partial_function (option) split_loop ::
    "FilterWithSizeCache list \<Rightarrow> bool \<Rightarrow> ModuleDataSpans list \<Rightarrow> ModuleData list list
     \<Rightarrow> (ModuleDataSpans list \<times> ModuleData list list) option" where
  [code]: "split_loop fcs staticPartsYielded spans out =
     (case those (map2 (\<lambda>fc s. subevent_size fc (dynamicSpan s)) fcs spans) of
        None \<Rightarrow> None
      | Some sizes \<Rightarrow>
          if list_all (\<lambda>s. s = None) sizes then Some (spans, out)
          else
            (let rs = map2 (split_module staticPartsYielded) spans sizes
             in split_loop fcs True (map snd rs) (out @ [map fst rs])))"

definition whole_module :: "ModuleDataSpans \<Rightarrow> ModuleData" where
  "whole_module s = \<lparr>md_prefix = prefixSpan s, md_dynamic = dynamicSpan s, md_suffix = suffixSpan s\<rparr>"

text \<open>The result holds the error code, the state afterwards and the calls of the callback.\<close>

definition end_event :: "SplitterState \<Rightarrow> int \<Rightarrow> nat \<Rightarrow> (ErrorCode \<times> SplitterState \<times> ModuleData list list) outcome option" where
  "end_event st ei moduleCount =
     (if \<not> event_in_range st ei then Some (Returned (EventIndexOutOfRange, st, []))
      else if ei < 0 then Some OutOfBounds
      else if \<not> enabledForEvent st ! nat ei
      then (if length (dataSpans st) < moduleCount \<or> MaxVMEModules < moduleCount then Some OutOfBounds
            else Some (Returned (Ok, st, [map whole_module (take moduleCount (dataSpans st))])))
      else if length (splitFilters st ! nat ei) \<noteq> length (dataSpans st) then Some AssertFailed
      else if MaxVMEModules < moduleCount then Some AssertFailed
      else if length (dataSpans st) < moduleCount then Some OutOfBounds
      else map_option (\<lambda>(spans, out).
               Returned (Ok, st\<lparr>dataSpans := spans @ drop moduleCount (dataSpans st)\<rparr>, out))
             (split_loop (take moduleCount (splitFilters st ! nat ei)) False
                (take moduleCount (dataSpans st)) []))"

fun record_modules :: "SplitterState \<Rightarrow> int \<Rightarrow> nat \<Rightarrow> ModuleData list \<Rightarrow> SplitterState" where
  "record_modules st ei mi [] = st"
| "record_modules st ei mi (m # ms) =
     (let (_, s1) = module_prefix st ei mi (md_prefix m);
          (_, s2) = module_dynamic s1 ei mi (md_dynamic m);
          (_, s3) = module_suffix s2 ei mi (md_suffix m)
      in record_modules s3 ei (mi + 1) ms)"

definition event_data :: "SplitterState \<Rightarrow> int \<Rightarrow> ModuleData list \<Rightarrow> (ErrorCode \<times> SplitterState \<times> ModuleData list list) outcome option" where
  "event_data st ei moduleDataList =
     (let (_, s1) = begin_event st ei;
          s2 = record_modules s1 ei 0 moduleDataList
      in end_event s2 ei (length moduleDataList))"

section \<open>The search loop\<close>

lemma search_header_result: "search_header hit ws i = Some k \<Longrightarrow> k = i \<and> (length ws \<le> i \<or> hit (ws ! i))"
proof -
  assume "search_header hit ws i = Some k"
  then show ?thesis
    by (rule search_header.raw_induct [where P = "\<lambda>hit ws i k. k = i \<and> (length ws \<le> i \<or> hit (ws ! i))", rotated])
      (fastforce split: if_splits)
qed

lemma search_header_None: "search_header hit ws i = None \<longleftrightarrow> i < length ws \<and> \<not> hit (ws ! i)"
proof
  assume "search_header hit ws i = None"
  then show "i < length ws \<and> \<not> hit (ws ! i)"
    by (subst (asm) search_header.simps) (simp split: if_splits)
next
  assume "i < length ws \<and> \<not> hit (ws ! i)"
  then show "search_header hit ws i = None"
    using search_header_result [of hit ws i] by (cases "search_header hit ws i") auto
qed

lemma search_header_eq:
  "search_header hit ws i = (if i < length ws \<and> \<not> hit (ws ! i) then None else Some i)"
  using search_header_None [of hit ws i] search_header_result [of hit ws i]
  by (cases "search_header hit ws i") auto

section \<open>What a module's data splits into\<close>

definition has_size :: "FilterWithSizeCache \<Rightarrow> bool" where
  "has_size fc \<longleftrightarrow> extractMask (fs_cache fc) \<noteq> 0"

definition header :: "FilterWithSizeCache \<Rightarrow> u32 list \<Rightarrow> bool" where
  "header fc ws \<longleftrightarrow> ws \<noteq> [] \<and> matches (fs_filter fc) (hd ws) (- 1)"

text \<open>The search loop gets past its first word only if there is none, or if it matches.\<close>

definition stuck :: "FilterWithSizeCache \<Rightarrow> u32 list \<Rightarrow> bool" where
  "stuck fc ws \<longleftrightarrow> header fc ws \<and> \<not> has_size fc \<and> 1 < length ws \<and> \<not> matches (fs_filter fc) (ws ! 1) (- 1)"

definition chunk_size :: "FilterWithSizeCache \<Rightarrow> u32 list \<Rightarrow> u32" where
  "chunk_size fc ws = (if has_size fc then 1 + extract_value (fs_cache fc) (hd ws) else 2)"

lemma subevent_size_eq:
  "subevent_size fc ws =
     (if stuck fc ws then None else Some (if header fc ws then Some (chunk_size fc ws) else None))"
  by (auto simp: subevent_size_def stuck_def header_def chunk_size_def has_size_def words_in_span_def
      search_header_eq)

text \<open>A filter whose chunks are never empty and whose search always ends: either it extracts a size,
  from fewer than 32 bits, or it accepts every word.\<close>

definition splittable :: "FilterWithSizeCache \<Rightarrow> bool" where
  "splittable fc \<longleftrightarrow>
     (\<exists>f. fc = \<lparr>fs_filter = f, fs_cache = make_cache_entry f CHR ''S''\<rparr>) \<and>
     (if has_size fc then extractBits (fs_cache fc) < 32
      else \<forall>w. matches (fs_filter fc) w (- 1))"

lemma chunk_size_unat:
  assumes "splittable fc" "has_size fc"
  shows "unat (chunk_size fc ws) = 1 + unat (extract_value (fs_cache fc) (hd ws))"
proof -
  from assms obtain f where fc: "fs_cache fc = make_cache_entry f CHR ''S''" and b: "extractBits (fs_cache fc) < 32"
    by (auto simp: splittable_def)
  let ?x = "extract_value (fs_cache fc) (hd ws)"
  have "unat ?x < 2 ^ extractBits (fs_cache fc)" unfolding fc by (rule extract_value_less)
  also have "\<dots> \<le> 2 ^ 31" using b by (intro power_increasing) auto
  finally have "unat (1 + ?x) = 1 + unat ?x" by (simp add: unat_word_ariths)
  then show ?thesis using assms(2) by (simp add: chunk_size_def)
qed

lemma chunk_size_pos: "splittable fc \<Longrightarrow> 0 < unat (chunk_size fc ws)"
  by (cases "has_size fc") (simp add: chunk_size_unat, simp add: chunk_size_def)

lemma splittable_not_stuck: "splittable fc \<Longrightarrow> \<not> stuck fc ws"
  by (auto simp: splittable_def stuck_def split: if_splits)

text \<open>The dynamic data of one module, round by round. A chunk that is longer than the rest of the data
  is dropped with the rest.\<close>

function chunks :: "FilterWithSizeCache \<Rightarrow> u32 list \<Rightarrow> u32 list list" where
  "chunks fc ws =
     (if header fc ws \<and> splittable fc
      then let n = unat (chunk_size fc ws)
           in if length ws < n then [[]] else take n ws # chunks fc (drop n ws)
      else [])"
  by auto
termination
proof (relation "measure (\<lambda>(fc, ws). length ws)")
  fix fc ws n
  assume "header fc ws \<and> splittable fc" and n: "n = unat (chunk_size fc ws)"
  then have "0 < n" "ws \<noteq> []" using chunk_size_pos by (auto simp: header_def)
  then show "((fc, drop n ws), (fc, ws)) \<in> measure (\<lambda>(fc, ws). length ws)" by simp
qed simp

declare chunks.simps [simp del]

definition nth_chunk :: "u32 list list \<Rightarrow> nat \<Rightarrow> u32 list" where
  "nth_chunk cs k = (if k < length cs then cs ! k else [])"

text \<open>The rounds of an event: round \<open>k\<close> carries the \<open>k\<close>-th chunk of every module, and the first one
  the static parts.\<close>

definition round :: "bool \<Rightarrow> FilterWithSizeCache list \<Rightarrow> ModuleDataSpans list \<Rightarrow> nat \<Rightarrow> ModuleData list" where
  "round yielded fcs spans k =
     map2 (\<lambda>fc s. \<lparr>md_prefix = if k = 0 \<and> \<not> yielded then prefixSpan s else [],
                   md_dynamic = nth_chunk (chunks fc (dynamicSpan s)) k,
                   md_suffix = if k = 0 \<and> \<not> yielded then suffixSpan s else []\<rparr>) fcs spans"

definition module_chunks :: "FilterWithSizeCache list \<Rightarrow> ModuleDataSpans list \<Rightarrow> u32 list list list" where
  "module_chunks fcs spans = map2 (\<lambda>fc s. chunks fc (dynamicSpan s)) fcs spans"

primrec max_length :: "'a list list \<Rightarrow> nat" where
  "max_length [] = 0"
| "max_length (c # cs) = max (length c) (max_length cs)"

definition round_count :: "FilterWithSizeCache list \<Rightarrow> ModuleDataSpans list \<Rightarrow> nat" where
  "round_count fcs spans = max_length (module_chunks fcs spans)"

lemma max_length_tl: "max_length (map tl css) = max_length css - 1"
  by (induction css) (auto simp: max_def)

lemma max_length_0: "max_length css = 0 \<longleftrightarrow> (\<forall>cs \<in> set css. cs = [])"
  by (induction css) auto

lemma nth_chunk_tl: "nth_chunk (tl cs) k = nth_chunk cs (Suc k)"
  by (auto simp: nth_chunk_def nth_tl)

section \<open>The loop computes the rounds\<close>

definition size_of :: "FilterWithSizeCache \<Rightarrow> ModuleDataSpans \<Rightarrow> u32 option" where
  "size_of fc s = (if header fc (dynamicSpan s) then Some (chunk_size fc (dynamicSpan s)) else None)"

definition step_module :: "bool \<Rightarrow> FilterWithSizeCache \<Rightarrow> ModuleDataSpans \<Rightarrow> ModuleData \<times> ModuleDataSpans" where
  "step_module y fc s = split_module y s (size_of fc s)"

lemma those_sizes:
  "length fcs = length spans \<Longrightarrow> \<forall>fc \<in> set fcs. splittable fc \<Longrightarrow>
   those (map2 (\<lambda>fc s. subevent_size fc (dynamicSpan s)) fcs spans) = Some (map2 size_of fcs spans)"
  by (induction fcs spans rule: list_induct2)
    (simp_all add: subevent_size_eq splittable_not_stuck size_of_def)

lemma split_modules:
  "length fcs = length spans \<Longrightarrow>
   map2 (split_module y) spans (map2 size_of fcs spans) = map2 (step_module y) fcs spans"
  by (induction fcs spans rule: list_induct2) (simp_all add: step_module_def)

lemma chunks_Nil_iff: "splittable fc \<Longrightarrow> chunks fc ws = [] \<longleftrightarrow> \<not> header fc ws"
  by (subst chunks.simps) (simp add: Let_def)

lemma step_module_chunks:
  assumes "splittable fc"
  shows "fst (step_module y fc s) =
      \<lparr>md_prefix = if \<not> y then prefixSpan s else [], md_dynamic = nth_chunk (chunks fc (dynamicSpan s)) 0,
       md_suffix = if \<not> y then suffixSpan s else []\<rparr>"
    and "chunks fc (dynamicSpan (snd (step_module y fc s))) = tl (chunks fc (dynamicSpan s))"
proof -
  let ?ws = "dynamicSpan s"
  have "chunks fc [] = []" by (subst chunks.simps) (simp add: header_def)
  with assms show "chunks fc (dynamicSpan (snd (step_module y fc s))) = tl (chunks fc ?ws)"
    by (subst (2) chunks.simps)
      (auto simp: step_module_def size_of_def split_module_def words_in_span_def Let_def chunks_Nil_iff)
  show "fst (step_module y fc s) =
      \<lparr>md_prefix = if \<not> y then prefixSpan s else [], md_dynamic = nth_chunk (chunks fc ?ws) 0,
       md_suffix = if \<not> y then suffixSpan s else []\<rparr>"
    using assms by (subst chunks.simps)
      (auto simp: step_module_def size_of_def split_module_def words_in_span_def Let_def nth_chunk_def)
qed

lemma step_modules:
  fixes y :: bool
  assumes "length fcs = length spans" "\<forall>fc \<in> set fcs. splittable fc"
  defines "rs \<equiv> map2 (step_module y) fcs spans"
  shows "map fst rs = round y fcs spans 0"
    and "module_chunks fcs (map snd rs) = map tl (module_chunks fcs spans)"
    and "round True fcs (map snd rs) k = round y fcs spans (Suc k)"
    and "length (map snd rs) = length spans"
  using assms(1,2) unfolding rs_def
  by (induction fcs spans rule: list_induct2)
    (auto simp: round_def module_chunks_def step_module_chunks nth_chunk_tl)

lemma round_count_0:
  "length fcs = length spans \<Longrightarrow> \<forall>fc \<in> set fcs. splittable fc \<Longrightarrow>
   round_count fcs spans = 0 \<longleftrightarrow> list_all (\<lambda>s. s = None) (map2 size_of fcs spans)"
  unfolding round_count_def module_chunks_def
  by (induction fcs spans rule: list_induct2) (auto simp: chunks_Nil_iff size_of_def)

lemma split_loop_rounds:
  assumes "length fcs = length spans" "\<forall>fc \<in> set fcs. splittable fc"
  shows "\<exists>spans'. length spans' = length spans \<and>
     split_loop fcs y spans out = Some (spans', out @ map (round y fcs spans) [0..<round_count fcs spans])"
  using assms
proof (induction "round_count fcs spans" arbitrary: y spans out)
  case 0
  then show ?case
    by (subst split_loop.simps) (simp add: those_sizes round_count_0 [symmetric])
next
  case (Suc r)
  define rs where "rs = map2 (step_module y) fcs spans"
  note step = step_modules [OF Suc.prems, of y, folded rs_def]
  have "\<not> list_all (\<lambda>s. s = None) (map2 size_of fcs spans)"
    using Suc.hyps(2) round_count_0 [OF Suc.prems] by simp
  then have unfold: "split_loop fcs y spans out = split_loop fcs True (map snd rs) (out @ [round y fcs spans 0])"
    by (subst split_loop.simps)
      (simp add: those_sizes [OF Suc.prems] split_modules [OF Suc.prems(1)] Let_def rs_def [symmetric] step(1))
  have r: "r = round_count fcs (map snd rs)"
    using Suc.hyps(2) by (simp add: round_count_def step(2) max_length_tl)
  have "map (round y fcs spans) [0..<round_count fcs spans] =
      round y fcs spans 0 # map (round True fcs (map snd rs)) [0..<round_count fcs (map snd rs)]"
    unfolding Suc.hyps(2) [symmetric] r [symmetric]
    by (simp add: step(3) map_upt_Suc del: upt_Suc)
  with Suc.hyps(1) [OF r, of True "out @ [round y fcs spans 0]"] step(4) Suc.prems show ?case
    by (simp add: unfold)
qed

section \<open>Splitter states as \<open>make_splitter\<close> builds them\<close>

definition wf_fc :: "FilterWithSizeCache \<Rightarrow> bool" where
  "wf_fc fc \<longleftrightarrow> wf_filter (fs_filter fc) \<and> fs_cache fc = make_cache_entry (fs_filter fc) CHR ''S''"

definition wf_splitter :: "SplitterState \<Rightarrow> bool" where
  "wf_splitter st \<longleftrightarrow>
     length (splitFilters st) \<le> MaxVMEEvents \<and> length (enabledForEvent st) = MaxVMEEvents \<and>
     (\<forall>i < length (splitFilters st). enabledForEvent st ! i = hasNonZeroFilter (splitFilters st ! i)) \<and>
     (\<forall>fcs \<in> set (splitFilters st). length fcs \<le> length (dataSpans st) \<and> (\<forall>fc \<in> set fcs. wf_fc fc))"

lemma make_module_filters_wf:
  "make_module_filters ss = Inr fcs \<Longrightarrow> length fcs = length ss \<and> (\<forall>fc \<in> set fcs. wf_fc fc)"
  by (induction ss arbitrary: fcs) (auto simp: wf_fc_def make_filter_wf split: sum.splits)

lemma make_event_filters_wf:
  "make_event_filters mss n = Inr (fss, k) \<Longrightarrow>
   length fss = length mss \<and> n \<le> k \<and> (\<forall>fcs \<in> set fss. length fcs \<le> k \<and> (\<forall>fc \<in> set fcs. wf_fc fc))"
proof (induction mss n arbitrary: fss k rule: make_event_filters.induct)
  case (2 ms mss n)
  show ?case
  proof (cases "make_module_filters ms")
    case fcs: (Inr fcs)
    show ?thesis
    proof (cases "make_event_filters mss (max (length ms) n)")
      case (Inr p)
      then obtain fss' k' where fss': "make_event_filters mss (max (length ms) n) = Inr (fss', k')"
        by (cases p) simp
      from "2.IH" [OF fcs fss'] make_module_filters_wf [OF fcs] "2.prems"
      show ?thesis by (auto simp: fcs fss')
    qed (use "2.prems" fcs in simp)
  qed (use "2.prems" in simp)
qed simp

lemma make_splitter_wf [wf_rules]: "make_splitter strs = Returned st \<Longrightarrow> wf_splitter st"
  using make_event_filters_wf [of strs 0]
  by (auto simp: make_splitter_def wf_splitter_def nth_append split: sum.splits if_splits)

lemma header_filter_splittable:
  assumes "wf_fc fc" "has_size fc" "matchMask (fs_filter fc) \<noteq> 0"
  shows "splittable fc"
proof -
  let ?f = "fs_filter fc"
  have fc: "fc = \<lparr>fs_filter = ?f, fs_cache = make_cache_entry ?f CHR ''S''\<rparr>"
    using assms(1) by (simp add: wf_fc_def)
  define i where "i = lowest (matchMask ?f)"
  have i: "bit (matchMask ?f) i" unfolding i_def by (rule lowest_bit(1) [OF assms(3)])
  have "wf_filter ?f" using assms(1) by (simp add: wf_fc_def)
  then have "bit (matchMask ?f) i \<longleftrightarrow> i < FilterSize \<and> is_match_char (filter_chars ?f ! i)"
    unfolding wf_filter_def by blast
  with i have m: "i < 32" "is_match_char (filter_chars ?f ! i)" by (simp_all add: FilterSize_def)
  have "tolower CHR 0x00 = CHR 0x00" "tolower CHR 0x01 = CHR 0x01" by code_simp+
  then have "\<not> marked ?f CHR ''S'' i"
    using m by (auto simp: marked_def is_match_char_def tolower_eval)
  then have "length (filter (marked ?f CHR ''S'') [0..<32]) < length [0..<32]"
    using m by (intro length_filter_less) auto
  then have "extractBits (fs_cache fc) < 32"
    using assms(1) by (simp add: wf_fc_def extractBits_eq positions_extractMask)
  with assms(2) fc show ?thesis unfolding splittable_def by (metis (full_types))
qed

section \<open>Recording\<close>

definition as_spans :: "ModuleData \<Rightarrow> ModuleDataSpans" where
  "as_spans m = \<lparr>prefixSpan = md_prefix m, dynamicSpan = md_dynamic m, suffixSpan = md_suffix m\<rparr>"

lemma spans_all_set:
  "(s :: ModuleDataSpans)\<lparr>prefixSpan := a, dynamicSpan := b, suffixSpan := c\<rparr> =
   \<lparr>prefixSpan = a, dynamicSpan = b, suffixSpan = c\<rparr>"
  by (cases s) simp

lemma record_modules_eq:
  "event_in_range st ei \<Longrightarrow> mi \<le> length (dataSpans st) \<Longrightarrow>
   record_modules st ei mi ms = st\<lparr>dataSpans :=
     take mi (dataSpans st) @ map as_spans (take (length (dataSpans st) - mi) ms) @
     drop (mi + length ms) (dataSpans st)\<rparr>"
proof (induction ms arbitrary: st mi)
  case (Cons m ms)
  show ?case
  proof (cases "mi < length (dataSpans st)")
    case True
    let ?st = "st\<lparr>dataSpans := (dataSpans st)[mi := as_spans m]\<rparr>"
    have "record_modules st ei mi (m # ms) = record_modules ?st ei (mi + 1) ms"
      using Cons.prems True
      by (simp add: module_prefix_def module_dynamic_def module_suffix_def set_span_def event_in_range_def
          as_spans_def spans_all_set)
    also have "\<dots> = ?st\<lparr>dataSpans := take (mi + 1) (dataSpans ?st) @
        map as_spans (take (length (dataSpans ?st) - (mi + 1)) ms) @ drop (mi + 1 + length ms) (dataSpans ?st)\<rparr>"
      using Cons.prems True by (intro Cons.IH) (simp_all add: event_in_range_def)
    also have "take (mi + 1) (dataSpans ?st) = take mi (dataSpans st) @ [as_spans m]"
      using True by (simp add: take_Suc_conv_app_nth)
    finally show ?thesis using True by (simp add: take_Cons' Suc_diff_Suc)
  next
    case False
    then have "record_modules st ei mi (m # ms) = record_modules st ei (mi + 1) ms"
      using Cons.prems
      by (simp add: module_prefix_def module_dynamic_def module_suffix_def set_span_def event_in_range_def)
    moreover have "record_modules st ei k ms' = st" if "length (dataSpans st) \<le> k" for k ms'
      using that Cons.prems(1)
      by (induction ms' arbitrary: k)
        (simp_all add: module_prefix_def module_dynamic_def module_suffix_def set_span_def event_in_range_def)
    ultimately show ?thesis using False Cons.prems(2) by simp
  qed
qed simp

lemma event_data_recorded:
  assumes "event_in_range st ei" "length ms \<le> length (dataSpans st)"
  shows "event_data st ei ms = end_event
    (st\<lparr>dataSpans := map as_spans ms @ replicate (length (dataSpans st) - length ms) empty_spans\<rparr>)
    ei (length ms)"
  using assms
  by (simp add: event_data_def begin_event_def record_modules_eq event_in_range_def)

lemma event_data_enabled:
  assumes "event_in_range st ei" "0 \<le> ei" "enabledForEvent st ! nat ei"
    and "length (splitFilters st ! nat ei) = length (dataSpans st)"
    and "length ms \<le> length (dataSpans st)" "length ms \<le> MaxVMEModules"
  shows "event_data st ei ms = map_option (\<lambda>(spans, out).
      Returned (Ok, st\<lparr>dataSpans := spans @ replicate (length (dataSpans st) - length ms) empty_spans\<rparr>, out))
    (split_loop (take (length ms) (splitFilters st ! nat ei)) False (map as_spans ms) [])"
  unfolding event_data_recorded [OF assms(1,5)]
  using assms by (simp add: end_event_def event_in_range_def)

lemma record_modules_out_of_range: "\<not> event_in_range st ei \<Longrightarrow> record_modules st ei mi ms = st"
  by (induction ms arbitrary: mi)
    (simp_all add: module_prefix_def module_dynamic_def module_suffix_def set_span_def)

section \<open>Splitting undoes concatenation\<close>

definition single_event :: "FilterWithSizeCache \<Rightarrow> u32 list \<Rightarrow> bool" where
  "single_event fc e \<longleftrightarrow>
     e \<noteq> [] \<and> matches (fs_filter fc) (hd e) (- 1) \<and>
     length e = 1 + unat (extract_value (fs_cache fc) (hd e))"

lemma single_event_size:
  assumes "has_size fc" "single_event fc e" "splittable fc"
  shows "unat (chunk_size fc (e @ ws)) = length e"
  using assms by (simp add: chunk_size_unat single_event_def)

lemma chunks_concat:
  assumes "splittable fc" "has_size fc" "\<forall>e \<in> set evs. single_event fc e" "\<not> header fc rest"
  shows "chunks fc (concat evs @ rest) = evs"
  using assms(3)
proof (induction evs)
  case Nil
  then show ?case using assms(4) by (simp add: chunks.simps)
next
  case (Cons e evs)
  let ?ws = "e @ concat evs @ rest"
  have e: "single_event fc e" using Cons.prems by simp
  then have "header fc ?ws" by (auto simp: header_def single_event_def hd_append)
  then show ?case
    using single_event_size [OF assms(2) e assms(1), of "concat evs @ rest"] Cons assms(1)
    by (subst chunks.simps) simp
qed

lemma chunks_prefix: "prefix (concat (chunks fc ws)) ws"
proof (induction fc ws rule: chunks.induct)
  case (1 fc ws)
  show ?case
  proof (cases "header fc ws \<and> splittable fc \<and> unat (chunk_size fc ws) \<le> length ws")
    case True
    then have "prefix (concat (chunks fc (drop (unat (chunk_size fc ws)) ws))) (drop (unat (chunk_size fc ws)) ws)"
      using 1 by simp
    then have "prefix (take (unat (chunk_size fc ws)) ws @ concat (chunks fc (drop (unat (chunk_size fc ws)) ws)))
        (take (unat (chunk_size fc ws)) ws @ drop (unat (chunk_size fc ws)) ws)"
      by (simp only: same_prefix_prefix)
    then show ?thesis using True by (subst chunks.simps) (simp add: Let_def)
  next
    case False
    then show ?thesis by (subst chunks.simps) (auto simp: Let_def)
  qed
qed

lemma concat_nth_chunk: "length cs \<le> n \<Longrightarrow> concat (map (nth_chunk cs) [0..<n]) = concat cs"
proof -
  assume len: "length cs \<le> n"
  have "map (nth_chunk cs) [0..<n] = cs @ replicate (n - length cs) []"
    using len by (auto simp: nth_chunk_def nth_append intro!: nth_equalityI)
  then show ?thesis by simp
qed

lemma max_length_ge: "cs \<in> set css \<Longrightarrow> length cs \<le> max_length css"
  by (induction css) auto

lemma round_nth:
  assumes "length fcs = length spans" "i < length spans"
  shows "round y fcs spans k ! i =
    \<lparr>md_prefix = if k = 0 \<and> \<not> y then prefixSpan (spans ! i) else [],
     md_dynamic = nth_chunk (chunks (fcs ! i) (dynamicSpan (spans ! i))) k,
     md_suffix = if k = 0 \<and> \<not> y then suffixSpan (spans ! i) else []\<rparr>"
  using assms by (simp add: round_def)

lemma rounds_conserve:
  assumes "length fcs = length spans" "i < length spans"
  shows "concat (map (\<lambda>r. md_dynamic (r ! i)) (map (round y fcs spans) [0..<round_count fcs spans]))
       = concat (chunks (fcs ! i) (dynamicSpan (spans ! i)))"
proof -
  have "chunks (fcs ! i) (dynamicSpan (spans ! i)) \<in> set (module_chunks fcs spans)"
    using assms by (auto simp: module_chunks_def in_set_zip intro!: image_eqI [of _ _ "(fcs ! i, spans ! i)"])
  from concat_nth_chunk [OF max_length_ge [OF this]] show ?thesis
    by (simp add: round_nth [OF assms] comp_def round_count_def)
qed

text \<open>An event whose modules all have header filters with a size field.\<close>

definition sized_event :: "SplitterState \<Rightarrow> nat \<Rightarrow> nat \<Rightarrow> bool" where
  "sized_event st ei n \<longleftrightarrow>
     ei < length (splitFilters st) \<and> 0 < n \<and> n \<le> MaxVMEModules \<and> n \<le> length (dataSpans st) \<and>
     length (splitFilters st ! ei) = length (dataSpans st) \<and>
     (\<forall>fc \<in> set (take n (splitFilters st ! ei)). has_size fc \<and> matchMask (fs_filter fc) \<noteq> 0)"

lemma sized_event_rounds:
  assumes "wf_splitter st" "sized_event st ei (length ms)"
  defines "fcs \<equiv> take (length ms) (splitFilters st ! ei)"
  shows "\<exists>st'. event_data st (int ei) ms = Some (Returned (Ok, st',
      map (round False fcs (map as_spans ms)) [0..<round_count fcs (map as_spans ms)]))"
    and "\<forall>fc \<in> set fcs. splittable fc \<and> has_size fc" and "length fcs = length ms"
proof -
  have ei: "ei < length (splitFilters st)" and n: "length ms \<le> length (dataSpans st)" "length ms \<le> MaxVMEModules"
    and rows: "length (splitFilters st ! ei) = length (dataSpans st)" and ms: "ms \<noteq> []"
    using assms(2) by (auto simp: sized_event_def)
  show len: "length fcs = length ms" using n rows by (simp add: fcs_def)
  have wf: "\<forall>fc \<in> set (splitFilters st ! ei). wf_fc fc"
    using assms(1) nth_mem [OF ei] unfolding wf_splitter_def by blast
  then show sp: "\<forall>fc \<in> set fcs. splittable fc \<and> has_size fc"
    using assms(2) header_filter_splittable unfolding fcs_def sized_event_def
    by (meson in_set_takeD)
  have "hd fcs \<in> set fcs" using len ms by (cases fcs) auto
  then have "hasNonZeroFilter (splitFilters st ! ei)"
    using assms(2) in_set_takeD unfolding fcs_def sized_event_def hasNonZeroFilter_def list_ex_iff by metis
  then have "enabledForEvent st ! ei" using assms(1) ei by (simp add: wf_splitter_def)
  moreover obtain spans' where "split_loop fcs False (map as_spans ms) [] =
      Some (spans', map (round False fcs (map as_spans ms)) [0..<round_count fcs (map as_spans ms)])"
    using split_loop_rounds [of fcs "map as_spans ms" False "[]"] len sp by auto
  ultimately show "\<exists>st'. event_data st (int ei) ms = Some (Returned (Ok, st',
      map (round False fcs (map as_spans ms)) [0..<round_count fcs (map as_spans ms)]))"
    using event_data_enabled [of st "int ei" ms] ei n rows by (simp add: event_in_range_def fcs_def)
qed

lemma recorded_frame:
  fixes ms :: "ModuleData list"
  assumes "event_in_range st ei"
  defines "s \<equiv> record_modules (snd (begin_event st ei)) ei 0 ms"
  shows "splitFilters s = splitFilters st" "enabledForEvent s = enabledForEvent st"
    "length (dataSpans s) = length (dataSpans st)"
    "\<And>i. i < length ms \<Longrightarrow> i < length (dataSpans st) \<Longrightarrow> dataSpans s ! i = as_spans (ms ! i)"
  using assms(1) unfolding s_def
  by (auto simp: begin_event_def record_modules_eq event_in_range_def nth_append)

lemma event_data_end: "event_data st ei ms = end_event (record_modules (snd (begin_event st ei)) ei 0 ms) ei (length ms)"
  by (simp add: event_data_def split: prod.split)

lemma whole_as_spans [simp]: "whole_module (as_spans m) = m"
  by (cases m) (simp add: whole_module_def as_spans_def)

lemma those_None: "None \<in> set xs \<Longrightarrow> those xs = None"
  by (induction xs) (auto split: option.splits)

section \<open>Splitters to evaluate\<close>

lemma demo_upto_2: "replicate 2 x = [x, x]" "[0..<2] = [0, 1]" "(\<forall>i < Suc (Suc 0). P i) \<longleftrightarrow> P 0 \<and> P 1"
  by (auto simp: numeral_2_eq_2 less_Suc_eq)

definition demo_filters :: "FilterWithSizeCache list" where
  "demo_filters =
    [\<lparr>fs_filter = \<lparr>filter_chars = ''SSSS1010'' @ replicate 24 CHR ''X'', matchMask = 0xF0, matchValue = 0x50,
        matchWordIndex = - 1\<rparr>,
      fs_cache = \<lparr>extractMask = 0xF, needGather = False, extractShift = 0, extractBits = 4\<rparr>\<rparr>,
     \<lparr>fs_filter = \<lparr>filter_chars = ''SSSS1100'' @ replicate 24 CHR ''X'', matchMask = 0xF0, matchValue = 0x30,
        matchWordIndex = - 1\<rparr>,
      fs_cache = \<lparr>extractMask = 0xF, needGather = False, extractShift = 0, extractBits = 4\<rparr>\<rparr>]"

definition demo_plain :: FilterWithSizeCache where
  "demo_plain = \<lparr>fs_filter = \<lparr>filter_chars = ''XXXX1010'' @ replicate 24 CHR ''X'', matchMask = 0xF0,
        matchValue = 0x50, matchWordIndex = - 1\<rparr>,
      fs_cache = \<lparr>extractMask = 0, needGather = False, extractShift = 0, extractBits = 0\<rparr>\<rparr>"

definition demo_splitter :: SplitterState where
  "demo_splitter = \<lparr>splitFilters = [demo_filters, [demo_plain], []], dataSpans = [empty_spans, empty_spans],
     enabledForEvent = [True, True, False] @ replicate 9 False\<rparr>"

lemma demo_module_filters:
  "make_filter ''0101 SSSS'' (- 1) = Inr (fs_filter (demo_filters ! 0))"
  "make_filter ''0011 SSSS'' (- 1) = Inr (fs_filter (demo_filters ! 1))"
  "make_filter ''0101 XXXX'' (- 1) = Inr (fs_filter demo_plain)"
  "make_cache_entry (fs_filter (demo_filters ! 0)) CHR ''S'' = fs_cache (demo_filters ! 0)"
  "make_cache_entry (fs_filter (demo_filters ! 1)) CHR ''S'' = fs_cache (demo_filters ! 1)"
  "make_cache_entry (fs_filter demo_plain) CHR ''S'' = fs_cache demo_plain"
  by (simp_all add: demo_filters_def demo_plain_def filter_eval cache_eval)

lemma demo_splitter:
  "make_splitter [[''0101 SSSS'', ''0011 SSSS''], [''0101 XXXX''], []] = Returned demo_splitter"
  by (simp add: make_splitter_def demo_module_filters del: One_nat_def)
    (simp add: demo_splitter_def demo_filters_def demo_plain_def MaxVMEEvents_def hasNonZeroFilter_def
      demo_upto_2)

definition demo_data :: "ModuleData list" where
  "demo_data = [\<lparr>md_prefix = [0xA], md_dynamic = [0x52, 1, 2, 0x51, 7], md_suffix = []\<rparr>,
                \<lparr>md_prefix = [], md_dynamic = [0x30, 0xEE], md_suffix = [0xB]\<rparr>]"

lemma demo_sized: "sized_event demo_splitter 0 (length demo_data)"
  by (simp add: sized_event_def demo_splitter_def demo_filters_def demo_data_def has_size_def MaxVMEModules_def)

section \<open>Properties\<close>

text \<open>C26: for an event whose modules have header filters with a size field, \<^verbatim>\<open>event_data\<close> returns without
  error, reading outside the data or failing an assertion, and calls the callback once per round:
  round \<open>k\<close> carries the \<open>k\<close>-th chunk of every module that has one and nothing for the others, the
  prefix and suffix data come with the first round only, and no word of a module's data is made up,
  reordered or passed on twice.\<close>

theorem event_data_rounds:
  assumes "make_splitter strs = Returned st" "sized_event st ei (length ms)"
  shows "\<exists>st' out. event_data st (int ei) ms = Some (Returned (Ok, st', out)) \<and>
     out = map (\<lambda>k. map (\<lambda>i. \<lparr>md_prefix = if k = 0 then md_prefix (ms ! i) else [],
                md_dynamic = nth_chunk (chunks (splitFilters st ! ei ! i) (md_dynamic (ms ! i))) k,
                md_suffix = if k = 0 then md_suffix (ms ! i) else []\<rparr>) [0..<length ms])
       [0..<max_length (map (\<lambda>i. chunks (splitFilters st ! ei ! i) (md_dynamic (ms ! i))) [0..<length ms])] \<and>
     (\<forall>i < length ms. prefix (concat (map (\<lambda>r. md_dynamic (r ! i)) out)) (md_dynamic (ms ! i)))"
proof -
  define fcs where "fcs = take (length ms) (splitFilters st ! ei)"
  note wf = make_splitter_wf [OF assms(1)]
  note rounds = sized_event_rounds [OF wf assms(2), folded fcs_def]
  have len: "length fcs = length (map as_spans ms)" using rounds(3) by simp
  have nth: "fcs ! i = splitFilters st ! ei ! i" if "i < length ms" for i
    using that by (simp add: fcs_def)
  have round: "round False fcs (map as_spans ms) k = map (\<lambda>i. \<lparr>md_prefix = if k = 0 then md_prefix (ms ! i) else [],
      md_dynamic = nth_chunk (chunks (splitFilters st ! ei ! i) (md_dynamic (ms ! i))) k,
      md_suffix = if k = 0 then md_suffix (ms ! i) else []\<rparr>) [0..<length ms]" for k
    by (rule nth_equalityI) (use len in \<open>simp_all add: round_def nth as_spans_def\<close>)
  have count: "module_chunks fcs (map as_spans ms) =
      map (\<lambda>i. chunks (splitFilters st ! ei ! i) (md_dynamic (ms ! i))) [0..<length ms]"
    by (rule nth_equalityI) (use len in \<open>simp_all add: module_chunks_def nth as_spans_def\<close>)
  have "prefix (concat (map (\<lambda>r. md_dynamic (r ! i))
      (map (round False fcs (map as_spans ms)) [0..<round_count fcs (map as_spans ms)]))) (md_dynamic (ms ! i))"
    if "i < length ms" for i
    unfolding rounds_conserve [OF len, of i, unfolded length_map, OF that]
    using chunks_prefix that by (simp add: as_spans_def)
  then show ?thesis
    using rounds(1) unfolding round round_count_def count by blast
qed

theorem event_data_rounds_witness:
  "\<exists>st' out. event_data demo_splitter 0 demo_data = Some (Returned (Ok, st', out))"
  using event_data_rounds [OF demo_splitter demo_sized] by auto

text \<open>C12: splitting undoes the concatenation of the module's buffer: if the dynamic data of every module
  is a sequence of events, each with a matching header that holds the number of the words after it,
  followed by words that do not start with a header, then the callback gets exactly these events, the
  \<open>k\<close>-th ones of all modules together.\<close>

theorem event_data_unconcat:
  assumes "make_splitter strs = Returned st" "sized_event st ei (length ms)"
    and "length evss = length ms" and "length rests = length ms"
    and "\<forall>i < length ms. md_dynamic (ms ! i) = concat (evss ! i) @ rests ! i \<and>
        (\<forall>e \<in> set (evss ! i). single_event (splitFilters st ! ei ! i) e) \<and>
        \<not> header (splitFilters st ! ei ! i) (rests ! i)"
  shows "\<exists>st'. event_data st (int ei) ms = Some (Returned (Ok, st',
     map (\<lambda>k. map (\<lambda>i. \<lparr>md_prefix = if k = 0 then md_prefix (ms ! i) else [],
                       md_dynamic = nth_chunk (evss ! i) k,
                       md_suffix = if k = 0 then md_suffix (ms ! i) else []\<rparr>) [0..<length ms])
       [0..<max_length evss]))"
proof -
  define fcs where "fcs = take (length ms) (splitFilters st ! ei)"
  note rounds = sized_event_rounds [OF make_splitter_wf [OF assms(1)] assms(2), folded fcs_def]
  have len: "length fcs = length (map as_spans ms)" using rounds(3) by simp
  have chunks: "chunks (fcs ! i) (dynamicSpan (map as_spans ms ! i)) = evss ! i" if "i < length ms" for i
  proof -
    have "fcs ! i = splitFilters st ! ei ! i" using that by (simp add: fcs_def)
    moreover have "fcs ! i \<in> set fcs" using that rounds(3) by simp
    ultimately show ?thesis
      using assms(5) that rounds(2) by (simp add: as_spans_def chunks_concat)
  qed
  have chunks': "chunks (fcs ! i) (md_dynamic (ms ! i)) = evss ! i" if "i < length ms" for i
    using chunks [OF that] that by (simp add: as_spans_def)
  have round: "round False fcs (map as_spans ms) k = map (\<lambda>i. \<lparr>md_prefix = if k = 0 then md_prefix (ms ! i) else [],
      md_dynamic = nth_chunk (evss ! i) k, md_suffix = if k = 0 then md_suffix (ms ! i) else []\<rparr>) [0..<length ms]" for k
    by (rule nth_equalityI)
      (use len in \<open>simp_all add: round_def as_spans_def chunks'\<close>)
  have count: "module_chunks fcs (map as_spans ms) = evss"
    by (rule nth_equalityI) (use len assms(3) chunks in \<open>simp_all add: module_chunks_def\<close>)
  show ?thesis using rounds(1) unfolding round_count_def count round .
qed

theorem event_data_unconcat_witness:
  "\<exists>st'. event_data demo_splitter 0 demo_data = Some (Returned (Ok, st',
     [[\<lparr>md_prefix = [0xA], md_dynamic = [0x52, 1, 2], md_suffix = []\<rparr>,
       \<lparr>md_prefix = [], md_dynamic = [0x30], md_suffix = [0xB]\<rparr>],
      [\<lparr>md_prefix = [], md_dynamic = [0x51, 7], md_suffix = []\<rparr>,
       \<lparr>md_prefix = [], md_dynamic = [], md_suffix = []\<rparr>]]))"
  using event_data_unconcat [OF demo_splitter demo_sized,
      where evss = "[[[0x52, 1, 2], [0x51, 7]], [[0x30]]]" and rests = "[[], [0xEE]]"]
  by (simp add: demo_data_def demo_splitter_def demo_filters_def header_def single_event_def
      matches_def extract_value_def nth_chunk_def demo_upto_2)

text \<open>An event index beyond the configured ones is refused and no callback is made; an event none of
  whose modules has a fixed bit in its filter is passed on whole, in a single call.\<close>

theorem event_data_unsplit:
  assumes "make_splitter strs = Returned st"
  shows "(int (length (splitFilters st)) \<le> ei \<longrightarrow>
      event_data st ei ms = Some (Returned (EventIndexOutOfRange, st, []))) \<and>
    (0 \<le> ei \<and> ei < int (length (splitFilters st)) \<and>
     (\<forall>fc \<in> set (splitFilters st ! nat ei). matchMask (fs_filter fc) = 0) \<and>
     length ms \<le> length (dataSpans st) \<and> length ms \<le> MaxVMEModules \<longrightarrow>
      (\<exists>st'. event_data st ei ms = Some (Returned (Ok, st', [ms]))))"
proof (intro conjI impI)
  assume "int (length (splitFilters st)) \<le> ei"
  then have "\<not> event_in_range st ei" by (simp add: event_in_range_def)
  then show "event_data st ei ms = Some (Returned (EventIndexOutOfRange, st, []))"
    by (simp add: event_data_end begin_event_def record_modules_out_of_range end_event_def)
next
  assume *: "0 \<le> ei \<and> ei < int (length (splitFilters st)) \<and>
     (\<forall>fc \<in> set (splitFilters st ! nat ei). matchMask (fs_filter fc) = 0) \<and>
     length ms \<le> length (dataSpans st) \<and> length ms \<le> MaxVMEModules"
  then have n: "nat ei < length (splitFilters st)" and range: "event_in_range st ei"
    by (auto simp: event_in_range_def)
  then have "\<not> enabledForEvent st ! nat ei"
    using make_splitter_wf [OF assms] * by (auto simp: wf_splitter_def hasNonZeroFilter_def list_ex_iff)
  then show "\<exists>st'. event_data st ei ms = Some (Returned (Ok, st', [ms]))"
    using * range by (simp add: event_data_recorded end_event_def event_in_range_def comp_def)
qed

theorem event_data_unsplit_witness:
  "event_data demo_splitter 3 demo_data = Some (Returned (EventIndexOutOfRange, demo_splitter, [])) \<and>
   (\<exists>st'. event_data demo_splitter 2 demo_data = Some (Returned (Ok, st', [demo_data])))"
  using event_data_unsplit [OF demo_splitter, of 3 demo_data]
    event_data_unsplit [OF demo_splitter, of 2 demo_data]
  by (simp add: demo_splitter_def demo_data_def MaxVMEModules_def)

text \<open>\<^verbatim>\<open>event_data\<close> drops the error codes of the recording functions. With more modules than any event
  was configured for it goes on to read beyond the recorded spans, and an event with splitting enabled
  that has fewer modules than another event fails an assertion.\<close>

theorem event_data_module_count:
  assumes "make_splitter strs = Returned st" "ei < length (splitFilters st)" "length ms \<le> MaxVMEModules"
  defines "row \<equiv> splitFilters st ! ei"
  shows "(length (dataSpans st) < length ms \<and> (hasNonZeroFilter row \<longrightarrow> length row = length (dataSpans st)) \<longrightarrow>
       event_data st (int ei) ms = Some OutOfBounds) \<and>
    (hasNonZeroFilter row \<and> length row < length (dataSpans st) \<longrightarrow>
       event_data st (int ei) ms = Some AssertFailed)"
proof -
  have range: "event_in_range st (int ei)" using assms(2) by (simp add: event_in_range_def)
  have "enabledForEvent st ! ei = hasNonZeroFilter row"
    using make_splitter_wf [OF assms(1)] assms(2) by (simp add: wf_splitter_def row_def)
  then show ?thesis
    using recorded_frame [OF range, where ms = ms] range assms(3)
    unfolding event_data_end row_def by (auto simp: end_event_def event_in_range_def)
qed

theorem event_data_module_count_witness:
  "event_data demo_splitter 0 (demo_data @ demo_data) = Some OutOfBounds \<and>
   event_data demo_splitter 1 [] = Some AssertFailed"
  using event_data_module_count [OF demo_splitter, of 0 "demo_data @ demo_data"]
    event_data_module_count [OF demo_splitter, of 1 "[]"]
  by (simp add: demo_splitter_def demo_filters_def demo_plain_def demo_data_def MaxVMEModules_def
      hasNonZeroFilter_def)

text \<open>C33: without a size field the next header is to be searched for, but the search loop does not
  advance: \<^verbatim>\<open>event_data\<close> does not return if a module's data starts with a header and its second word
  is not another one. Where the search does end, the size it yields is 2, also for a header that is
  the only word left.\<close>

theorem event_data_search_diverges:
  assumes "make_splitter strs = Returned st" "ei < length (splitFilters st)"
    and "length (splitFilters st ! ei) = length (dataSpans st)" "length ms \<le> length (dataSpans st)"
    and "length ms \<le> MaxVMEModules" "i < length ms"
  defines "fc \<equiv> splitFilters st ! ei ! i" and "ws \<equiv> md_dynamic (ms ! i)"
  assumes "matchMask (fs_filter fc) \<noteq> 0" "\<not> has_size fc" "header fc ws"
  shows "(1 < length ws \<and> \<not> matches (fs_filter fc) (ws ! 1) (- 1) \<longrightarrow> event_data st (int ei) ms = None) \<and>
    (length ws = 1 \<or> matches (fs_filter fc) (ws ! 1) (- 1) \<longrightarrow> subevent_size fc ws = Some (Some 2))"
proof (intro conjI impI)
  assume "1 < length ws \<and> \<not> matches (fs_filter fc) (ws ! 1) (- 1)"
  then have stuck: "stuck fc ws" using assms(9-11) by (simp add: stuck_def)
  let ?fcs = "take (length ms) (splitFilters st ! ei)"
  have "fc \<in> set (splitFilters st ! ei)" unfolding fc_def using assms(3,4,6) by (intro nth_mem) simp
  then have "hasNonZeroFilter (splitFilters st ! ei)"
    using assms(9) by (auto simp: hasNonZeroFilter_def list_ex_iff)
  then have enabled: "enabledForEvent st ! ei"
    using make_splitter_wf [OF assms(1)] assms(2) by (simp add: wf_splitter_def)
  have "map2 (\<lambda>fc s. subevent_size fc (dynamicSpan s)) ?fcs (map as_spans ms) ! i = None"
    using assms(3,4,6) stuck by (simp add: subevent_size_eq as_spans_def fc_def [symmetric] ws_def [symmetric])
  moreover have "i < length (map2 (\<lambda>fc s. subevent_size fc (dynamicSpan s)) ?fcs (map as_spans ms))"
    using assms(3,4,6) by simp
  ultimately have "None \<in> set (map2 (\<lambda>fc s. subevent_size fc (dynamicSpan s)) ?fcs (map as_spans ms))"
    by (metis nth_mem)
  then have "split_loop ?fcs False (map as_spans ms) [] = None"
    by (subst split_loop.simps) (simp only: those_None option.case)
  then show "event_data st (int ei) ms = None"
    using event_data_enabled [of st "int ei" ms] assms(2-5) enabled by (simp add: event_in_range_def)
next
  assume "length ws = 1 \<or> matches (fs_filter fc) (ws ! 1) (- 1)"
  then show "subevent_size fc ws = Some (Some 2)"
    using assms(10,11) by (auto simp: subevent_size_eq stuck_def chunk_size_def)
qed

definition demo_plain_splitter :: SplitterState where
  "demo_plain_splitter = \<lparr>splitFilters = [[demo_plain]], dataSpans = [empty_spans],
     enabledForEvent = [True] @ replicate 11 False\<rparr>"

theorem event_data_search_diverges_witness:
  "event_data demo_plain_splitter 0 [\<lparr>md_prefix = [], md_dynamic = [0x51, 1, 0x52, 2], md_suffix = []\<rparr>] = None"
proof -
  have "make_splitter [[''0101 XXXX'']] = Returned demo_plain_splitter"
    by (simp add: make_splitter_def demo_module_filters del: One_nat_def)
      (simp add: demo_plain_splitter_def demo_plain_def MaxVMEEvents_def hasNonZeroFilter_def)
  from event_data_search_diverges [OF this, of 0 "[\<lparr>md_prefix = [], md_dynamic = [0x51, 1, 0x52, 2], md_suffix = []\<rparr>]" 0]
  show ?thesis
    by (simp add: demo_plain_splitter_def demo_plain_def has_size_def header_def matches_def MaxVMEModules_def)
qed

end
