(* ===== verification/Store.thy ===== *)
theory Store
  imports Prelude
begin

text \<open>
  The interface of a memory with independent cells: the Trigger I/O scripts rely on it for the LUT
  memory, the registers of a unit and the units of the register file. A list of writes to different
  cells can be read back; cells that are not written keep their contents.
\<close>

locale store =
  fixes good :: "'m \<Rightarrow> bool"
    and valid :: "'k \<Rightarrow> 'v \<Rightarrow> bool"
    and rd :: "'m \<Rightarrow> 'k \<Rightarrow> 'v"
    and wr :: "'m \<Rightarrow> 'k \<Rightarrow> 'v \<Rightarrow> 'm"
  assumes good_wr: "good m \<Longrightarrow> valid k v \<Longrightarrow> good (wr m k v)"
    and rd_wr_same: "good m \<Longrightarrow> valid k v \<Longrightarrow> rd (wr m k v) k = v"
    and rd_wr_other: "good m \<Longrightarrow> valid k v \<Longrightarrow> k' \<noteq> k \<Longrightarrow> rd (wr m k v) k' = rd m k'"
begin

definition write_all :: "('k \<times> 'v) list \<Rightarrow> 'm \<Rightarrow> 'm" where
  "write_all kvs m = fold (\<lambda>(k, v) m. wr m k v) kvs m"

lemma write_all_Nil [simp]: "write_all [] m = m"
  by (simp add: write_all_def)

lemma write_all_Cons [simp]: "write_all ((k, v) # kvs) m = write_all kvs (wr m k v)"
  by (simp add: write_all_def)

lemma write_all_good: "good m \<Longrightarrow> \<forall>(k, v) \<in> set kvs. valid k v \<Longrightarrow> good (write_all kvs m)"
  by (induction kvs arbitrary: m) (auto simp: good_wr)

lemma rd_write_all:
  "good m \<Longrightarrow> \<forall>(k, v) \<in> set kvs. valid k v \<Longrightarrow> distinct (map fst kvs) \<Longrightarrow>
   rd (write_all kvs m) k' = (case map_of kvs k' of Some v \<Rightarrow> v | None \<Rightarrow> rd m k')"
proof (induction kvs arbitrary: m)
  case (Cons kv kvs)
  obtain k v where kv: "kv = (k, v)" by (cases kv)
  have "map_of kvs k = None" using Cons.prems(3) by (simp add: kv map_of_eq_None_iff)
  with Cons show ?case
    by (auto simp: kv good_wr rd_wr_same rd_wr_other split: option.split)
qed simp

lemma rd_write_map:
  assumes "good m" "distinct ks" "\<forall>k \<in> set ks. valid k (f k)"
  shows "rd (write_all (map (\<lambda>k. (k, f k)) ks) m) k = (if k \<in> set ks then f k else rd m k)"
proof -
  have "map_of (map (\<lambda>k. (k, f k)) ks) k = (if k \<in> set ks then Some (f k) else None)"
    by (induction ks) auto
  then show ?thesis
    using assms by (subst rd_write_all) (auto simp: comp_def)
qed

end

text \<open>A map with a default for missing keys, as \<^verbatim>\<open>QMap::operator[]\<close> of a constant map gives it.\<close>

definition map_rd :: "'v \<Rightarrow> ('k \<rightharpoonup> 'v) \<Rightarrow> 'k \<Rightarrow> 'v" where
  "map_rd d m k = (case m k of None \<Rightarrow> d | Some v \<Rightarrow> v)"

interpretation map_store: store "\<lambda>_. True" "\<lambda>_ _. True" "map_rd d" "\<lambda>m k v. m(k \<mapsto> v)" for d :: 'v
  by unfold_locales (auto simp: map_rd_def)

end
