(* ===== verification/Qt_Text.thy ===== *)
theory Qt_Text
  imports Prelude
begin

text \<open>
  The text functions of Qt the sources call, as documented: number formatting and reading,
  trimming, lower case, lines. Texts are lists of ASCII characters; for those a \<^verbatim>\<open>QString\<close> and its
  UTF-8 \<^verbatim>\<open>std::string\<close> are the same list.
\<close>

section \<open>Number formatting\<close>

text \<open>\<^verbatim>\<open>QString::arg(value, width, base, fill)\<close> for non-negative numbers.\<close>

definition digit_char :: "nat \<Rightarrow> char" where
  "digit_char d = ''0123456789abcdef'' ! d"

function digits_acc :: "nat \<Rightarrow> nat \<Rightarrow> string \<Rightarrow> string" where
  "digits_acc b n acc =
     (if n < b \<or> b < 2 then digit_char n # acc
      else digits_acc b (n div b) (digit_char (n mod b) # acc))"
  by auto
termination
  by (relation "measure (\<lambda>(b, n, acc). n)") (auto intro: div_less_dividend)

declare digits_acc.simps [simp del]

definition show_num :: "nat \<Rightarrow> nat \<Rightarrow> string" where
  "show_num base n = digits_acc base n []"

definition show_dec :: "nat \<Rightarrow> string" where
  "show_dec n = show_num 10 n"

definition show_padded :: "nat \<Rightarrow> nat \<Rightarrow> nat \<Rightarrow> char \<Rightarrow> string" where
  "show_padded n width base fill = replicate (width - length (show_num base n)) fill @ show_num base n"

section \<open>Characters\<close>

definition NL :: char where "NL = CHR 0x0A"
definition TAB :: char where "TAB = CHR 0x09"
definition CR :: char where "CR = CHR 0x0D"
definition QUOTE :: char where "QUOTE = CHR 0x22"
definition BACKSLASH :: char where "BACKSLASH = CHR 0x5C"

lemmas char_defs = NL_def TAB_def CR_def QUOTE_def BACKSLASH_def

text \<open>\<^verbatim>\<open>QChar::isSpace\<close>: tabulator, line feed, vertical tabulator, form feed, carriage return and space;
  \<^verbatim>\<open>QChar::isDigit\<close>; \<^verbatim>\<open>[[:alpha:]]\<close>.\<close>

definition is_space :: "char \<Rightarrow> bool" where
  "is_space c \<longleftrightarrow> of_char c \<in> {9 :: nat, 10, 11, 12, 13, 32}"

definition is_digit :: "char \<Rightarrow> bool" where
  "is_digit c \<longleftrightarrow> (48 :: nat) \<le> of_char c \<and> of_char c \<le> (57 :: nat)"

definition is_upper :: "char \<Rightarrow> bool" where
  "is_upper c \<longleftrightarrow> (65 :: nat) \<le> of_char c \<and> of_char c \<le> (90 :: nat)"

definition is_lower :: "char \<Rightarrow> bool" where
  "is_lower c \<longleftrightarrow> (97 :: nat) \<le> of_char c \<and> of_char c \<le> (122 :: nat)"

definition is_alpha :: "char \<Rightarrow> bool" where
  "is_alpha c \<longleftrightarrow> is_upper c \<or> is_lower c"

definition lower_char :: "char \<Rightarrow> char" where
  "lower_char c = (if is_upper c then char_of (of_char c + 32 :: nat) else c)"

definition to_lower :: "string \<Rightarrow> string" where
  "to_lower s = map lower_char s"

text \<open>\<^verbatim>\<open>QString::trimmed\<close>\<close>

definition trimmed :: "string \<Rightarrow> string" where
  "trimmed s = rev (dropWhile is_space (rev (dropWhile is_space s)))"

section \<open>Number reading\<close>

definition digit_value :: "char \<Rightarrow> nat option" where
  "digit_value c =
     (if is_digit c then Some (of_char c - 48)
      else if is_lower c then Some (of_char c - 87)
      else if is_upper c then Some (of_char c - 55)
      else None)"

fun read_digits :: "nat \<Rightarrow> nat \<Rightarrow> string \<Rightarrow> nat option" where
  "read_digits base acc [] = Some acc"
| "read_digits base acc (c # cs) =
     (case digit_value c of None \<Rightarrow> None
      | Some d \<Rightarrow> if d < base then read_digits base (acc * base + d) cs else None)"

definition read_number :: "nat \<Rightarrow> string \<Rightarrow> nat option" where
  "read_number base s = (if s = [] then None else read_digits base 0 s)"

text \<open>The C convention for base 0: \<^verbatim>\<open>0x\<close> introduces a hexadecimal and \<^verbatim>\<open>0\<close> an octal number.\<close>

definition read_c_number :: "string \<Rightarrow> nat option" where
  "read_c_number s =
     (case s of
        z # x # ds \<Rightarrow>
          if z = CHR ''0'' \<and> (x = CHR ''x'' \<or> x = CHR ''X'') then read_number 16 ds
          else if z = CHR ''0'' then read_number 8 s
          else read_number 10 s
      | _ \<Rightarrow> read_number 10 s)"

text \<open>\<^verbatim>\<open>toUInt\<close>, \<^verbatim>\<open>toULongLong\<close> for base 0 and 10: surrounding white space and a plus sign are accepted, a minus sign
  and values of more than \<open>bits\<close> bits are not.\<close>

definition number_text :: "string \<Rightarrow> string" where
  "number_text s = (case trimmed s of [] \<Rightarrow> [] | c # cs \<Rightarrow> if c = CHR ''+'' then cs else c # cs)"

definition in_range :: "nat \<Rightarrow> nat option \<Rightarrow> nat option" where
  "in_range bits v = (case v of None \<Rightarrow> None | Some n \<Rightarrow> if n < 2 ^ bits then Some n else None)"

definition to_unsigned :: "nat \<Rightarrow> string \<Rightarrow> nat option" where
  "to_unsigned bits s = in_range bits (read_c_number (number_text s))"

definition to_unsigned_dec :: "nat \<Rightarrow> string \<Rightarrow> nat option" where
  "to_unsigned_dec bits s = in_range bits (read_number 10 (number_text s))"

section \<open>Lines\<close>

text \<open>\<^verbatim>\<open>QTextStream::readLine\<close> until the end: lines end at a line feed, a carriage return before it or
  at the end of the text is dropped.\<close>

definition chop_cr :: "string \<Rightarrow> string" where
  "chop_cr l = (if l \<noteq> [] \<and> last l = CR then butlast l else l)"

fun read_lines_acc :: "string \<Rightarrow> string \<Rightarrow> string list" where
  "read_lines_acc l [] = (if l = [] then [] else [chop_cr l])"
| "read_lines_acc l (c # cs) =
     (if c = NL then chop_cr l # read_lines_acc [] cs else read_lines_acc (l @ [c]) cs)"

definition read_lines :: "string \<Rightarrow> string list" where
  "read_lines s = read_lines_acc [] s"

text \<open>\<^verbatim>\<open>QStringList::join("\n")\<close> and \<^verbatim>\<open>join(" ")\<close>\<close>

fun join_with :: "string \<Rightarrow> string list \<Rightarrow> string" where
  "join_with sep [] = []"
| "join_with sep [l] = l"
| "join_with sep (l # l' # ls) = l @ sep @ join_with sep (l' # ls)"

definition join_lines :: "string list \<Rightarrow> string" where
  "join_lines ls = join_with [NL] ls"

section \<open>Numbers that were written are read back\<close>

lemma digit_char_value: "d < 16 \<Longrightarrow> digit_value (digit_char d) = Some d"
proof -
  have "\<forall>d \<in> set [0..<16]. digit_value (digit_char d) = Some d" by code_simp
  then show "d < 16 \<Longrightarrow> digit_value (digit_char d) = Some d" by simp
qed

text \<open>The characters numbers are written with: decimal digits and lower case letters.\<close>

definition plain_digit :: "char \<Rightarrow> bool" where
  "plain_digit c \<longleftrightarrow> is_digit c \<or> is_lower c"

lemma digit_char_plain: "d < 16 \<Longrightarrow> plain_digit (digit_char d)"
proof -
  have "\<forall>d \<in> set [0..<16]. plain_digit (digit_char d)" by code_simp
  then show "d < 16 \<Longrightarrow> plain_digit (digit_char d)" by simp
qed

lemma digit_char_is_digit: "d < 10 \<Longrightarrow> is_digit (digit_char d)"
proof -
  have "\<forall>d \<in> set [0..<10]. is_digit (digit_char d)" by code_simp
  then show "d < 10 \<Longrightarrow> is_digit (digit_char d)" by simp
qed

lemma digit_char_zero: "d < 16 \<Longrightarrow> digit_char d = CHR ''0'' \<longleftrightarrow> d = 0"
proof -
  have "\<forall>d \<in> set [0..<16]. digit_char d = CHR ''0'' \<longleftrightarrow> d = 0" by code_simp
  then show "d < 16 \<Longrightarrow> digit_char d = CHR ''0'' \<longleftrightarrow> d = 0" by simp
qed

lemma read_digits_acc:
  "2 \<le> b \<Longrightarrow> b \<le> 16 \<Longrightarrow>
     \<exists>k. \<forall>a. read_digits b a (digits_acc b n acc) = read_digits b (a * b ^ k + n) acc"
proof (induction b n acc rule: digits_acc.induct)
  case (1 b n acc)
  show ?case
  proof (cases "n < b")
    case True
    then have "digits_acc b n acc = digit_char n # acc" by (subst digits_acc.simps) simp
    with True 1 show ?thesis by (intro exI [of _ 1]) (simp add: digit_char_value)
  next
    case False
    then obtain k where k: "read_digits b a (digits_acc b (n div b) (digit_char (n mod b) # acc))
        = read_digits b (a * b ^ k + n div b) (digit_char (n mod b) # acc)" for a
      using 1 by auto
    have "n mod b < b" "n mod b < 16" using 1 by (simp_all add: less_le_trans [of "n mod b" b])
    then have "read_digits b (a * b ^ k + n div b) (digit_char (n mod b) # acc)
        = read_digits b (a * b ^ Suc k + n) acc" for a
      using div_mult_mod_eq [of n b] by (simp add: digit_char_value algebra_simps)
    moreover have "digits_acc b n acc = digits_acc b (n div b) (digit_char (n mod b) # acc)"
      using False 1 by (subst digits_acc.simps) simp
    ultimately show ?thesis using k by metis
  qed
qed

lemma digits_acc_set:
  "2 \<le> b \<Longrightarrow> b \<le> 16 \<Longrightarrow> set (digits_acc b n acc) \<subseteq> digit_char ` {..<b} \<union> set acc"
proof (induction b n acc rule: digits_acc.induct)
  case (1 b n acc)
  then show ?case by (subst digits_acc.simps) (auto, force)
qed

lemma digits_acc_hd:
  "2 \<le> b \<Longrightarrow> b \<le> 16 \<Longrightarrow> n \<noteq> 0 \<Longrightarrow> digits_acc b n acc \<noteq> [] \<and> hd (digits_acc b n acc) \<noteq> CHR ''0''"
proof (induction b n acc rule: digits_acc.induct)
  case (1 b n acc)
  show ?case
  proof (cases "n < b")
    case True
    with 1 show ?thesis by (subst (1 2) digits_acc.simps) (simp add: digit_char_zero)
  next
    case False
    with 1 have "n div b \<noteq> 0" by (simp add: div_eq_0_iff)
    with False 1 show ?thesis by (subst (1 2) digits_acc.simps) simp
  qed
qed

lemma show_num_read: "2 \<le> b \<Longrightarrow> b \<le> 16 \<Longrightarrow> read_digits b 0 (show_num b n) = Some n"
  using read_digits_acc [of b n "[]"] by (auto simp: show_num_def)

lemma show_num_digits: "2 \<le> b \<Longrightarrow> b \<le> 16 \<Longrightarrow> set (show_num b n) \<subseteq> digit_char ` {..<b}"
  using digits_acc_set [of b n "[]"] by (simp add: show_num_def)

lemma show_num_plain: "2 \<le> b \<Longrightarrow> b \<le> 16 \<Longrightarrow> c \<in> set (show_num b n) \<Longrightarrow> plain_digit c"
  using show_num_digits [of b n] digit_char_plain by fastforce

lemma show_dec_digit: "c \<in> set (show_dec n) \<Longrightarrow> is_digit c"
  using show_num_digits [of 10 n] digit_char_is_digit unfolding show_dec_def by fastforce

lemma show_num_hd: "2 \<le> b \<Longrightarrow> b \<le> 16 \<Longrightarrow> n \<noteq> 0 \<Longrightarrow> hd (show_num b n) \<noteq> CHR ''0''"
  using digits_acc_hd [of b n "[]"] by (simp add: show_num_def)

lemma digits_acc_not_Nil: "digits_acc b n acc \<noteq> []"
  by (induction b n acc rule: digits_acc.induct) (subst digits_acc.simps, simp)

lemma show_num_not_Nil [simp]: "show_num b n \<noteq> []"
  by (simp add: show_num_def digits_acc_not_Nil)

lemma show_num_zero: "2 \<le> b \<Longrightarrow> show_num b 0 = ''0''"
  by (simp add: show_num_def digits_acc.simps [of b 0] digit_char_def)

lemma read_leading_zeros: "0 < b \<Longrightarrow> read_digits b 0 (replicate k (CHR ''0'') @ s) = read_digits b 0 s"
  by (induction k) (simp_all add: digit_value_def is_digit_def)

lemma show_padded_read:
  "2 \<le> b \<Longrightarrow> b \<le> 16 \<Longrightarrow> read_number b (show_padded n w b (CHR ''0'')) = Some n"
  by (simp add: read_number_def show_padded_def read_leading_zeros show_num_read)

lemma show_padded_plain: "2 \<le> b \<Longrightarrow> b \<le> 16 \<Longrightarrow> c \<in> set (show_padded n w b (CHR ''0'')) \<Longrightarrow> plain_digit c"
  using show_num_plain [of b c n] by (auto simp: show_padded_def plain_digit_def is_digit_def)

lemma show_padded_not_Nil [simp]: "show_padded n w b fill \<noteq> []"
  by (simp add: show_padded_def)

lemma plain_digit_range: "plain_digit c \<Longrightarrow> (48 :: nat) \<le> of_char c \<and> of_char c \<le> (122 :: nat)"
  by (auto simp: plain_digit_def is_digit_def is_lower_def)

lemma plain_not_space [simp]: "plain_digit c \<Longrightarrow> \<not> is_space c"
  using plain_digit_range [of c] by (auto simp: is_space_def)

lemma trimmed_solid: "s = [] \<or> (\<not> is_space (hd s) \<and> \<not> is_space (last s)) \<Longrightarrow> trimmed s = s"
proof -
  assume s: "s = [] \<or> (\<not> is_space (hd s) \<and> \<not> is_space (last s))"
  then have "dropWhile is_space s = s" "dropWhile is_space (rev s) = rev s"
    by (auto simp: dropWhile_eq_self_iff hd_rev)
  then show "trimmed s = s" by (simp add: trimmed_def)
qed

lemma number_text_plain:
  assumes "s \<noteq> []" "\<And>c. c \<in> set s \<Longrightarrow> plain_digit c"
  shows "number_text s = s"
proof -
  have "trimmed s = s" using assms by (intro trimmed_solid) (simp add: plain_not_space)
  moreover have "hd s \<noteq> CHR ''+''" using assms(2) [of "hd s"] plain_digit_range [of "hd s"] assms(1) by auto
  ultimately show ?thesis using assms(1) by (cases s) (auto simp: number_text_def)
qed

lemma to_unsigned_hex:
  "to_unsigned bits (''0x'' @ show_padded n w 16 (CHR ''0'')) = (if n < 2 ^ bits then Some n else None)"
proof -
  have "number_text (''0x'' @ show_padded n w 16 (CHR ''0'')) = ''0x'' @ show_padded n w 16 (CHR ''0'')"
    by (rule number_text_plain) (auto simp: plain_digit_def is_digit_def is_lower_def
        dest: show_padded_plain [of 16, simplified])
  then show ?thesis by (simp add: to_unsigned_def read_c_number_def show_padded_read in_range_def)
qed

lemma number_text_dec [simp]: "number_text (show_dec n) = show_dec n"
  unfolding show_dec_def by (rule number_text_plain) (auto dest: show_num_plain [of 10, simplified])

lemma read_number_dec [simp]: "read_number 10 (show_dec n) = Some n"
  by (simp add: show_dec_def read_number_def show_num_read)

lemma to_unsigned_dec: "to_unsigned bits (show_dec n) = (if n < 2 ^ bits then Some n else None)"
proof -
  have "read_c_number (show_dec n) = Some n"
  proof (cases "n = 0")
    case True
    then show ?thesis
      using read_number_dec [of 0] by (simp add: show_dec_def show_num_zero read_c_number_def)
  next
    case False
    then have "hd (show_dec n) \<noteq> CHR ''0''" by (simp add: show_dec_def show_num_hd)
    then have "read_c_number (show_dec n) = read_number 10 (show_dec n)"
      by (cases "show_dec n") (auto simp: read_c_number_def simp del: read_number_dec split: list.splits)
    then show ?thesis by simp
  qed
  then show ?thesis by (simp add: to_unsigned_def in_range_def)
qed

lemma to_unsigned_dec_dec: "to_unsigned_dec bits (show_dec n) = (if n < 2 ^ bits then Some n else None)"
  by (simp add: to_unsigned_dec_def in_range_def)

section \<open>Lines that were joined are read back\<close>

lemma read_lines_acc_append:
  "NL \<notin> set s \<Longrightarrow> read_lines_acc l (s @ t) = read_lines_acc (l @ s) t"
  by (induction s arbitrary: l) auto

lemma join_lines_Cons: "ls \<noteq> [] \<Longrightarrow> join_lines (l # ls) = l @ NL # join_lines ls"
  by (cases ls) (simp_all add: join_lines_def)

lemma join_lines_one [simp]: "join_lines [l] = l" "join_lines [] = []"
  by (simp_all add: join_lines_def)

text \<open>A line of a text: without a line feed and a carriage return.\<close>

definition line_text :: "string \<Rightarrow> bool" where
  "line_text l \<longleftrightarrow> NL \<notin> set l \<and> CR \<notin> set l"

lemma line_textD [dest]: "line_text l \<Longrightarrow> NL \<notin> set l \<and> CR \<notin> set l"
  by (simp add: line_text_def)

lemma line_text_append [simp]: "line_text (a @ b) \<longleftrightarrow> line_text a \<and> line_text b"
  by (auto simp: line_text_def)

lemma chop_cr_line [simp]: "line_text l \<Longrightarrow> chop_cr l = l"
  by (metis chop_cr_def last_in_set line_text_def)

lemma read_join_lines:
  "ls \<noteq> [] \<Longrightarrow> list_all line_text ls \<Longrightarrow> last ls \<noteq> [] \<Longrightarrow> read_lines (join_lines ls) = ls"
proof (induction ls)
  case (Cons l ls)
  show ?case
  proof (cases "ls = []")
    case True
    with Cons show ?thesis using read_lines_acc_append [of l "[]" "[]"] by (auto simp: read_lines_def)
  next
    case False
    with Cons show ?thesis
      using read_lines_acc_append [of l "[]" "NL # join_lines ls"]
      by (auto simp: read_lines_def join_lines_Cons)
  qed
qed simp

end
