(* ===== verification/Trigger_IO.thy ===== *)
theory Trigger_IO
  imports Store Qt_Text
begin

text \<open>
  The configuration of the MVLC Trigger I/O module: \<^verbatim>\<open>src/src/mvlc/mvlc_trigger_io.h\<close> and
  \<^verbatim>\<open>mvlc_trigger_io.cc\<close>. Arrays are lists of their length; enumerations that are made from register
  values by a cast are kept as numbers of their underlying width (\<^verbatim>\<open>mvlc::stacks::TimerBaseUnit\<close>, the
  range of a timer, belongs to the mesytec-mvlc library and is its number too); strings are character
  lists. An access outside an array or a vector is \<^const>\<open>None\<close>.
\<close>

section \<open>Units\<close>

definition TimerCount :: nat where "TimerCount = 4"
definition NIM_IO_Count :: nat where "NIM_IO_Count = 14"
definition ECL_OUT_Count :: nat where "ECL_OUT_Count = 3"

record Timer =
  t_range :: u16
  t_delay_ns :: u16
  t_period :: u16
  t_softActivate :: bool

record IO =
  io_delay :: u16
  io_width :: u16
  io_holdoff :: u16
  io_invert :: bool
  io_direction :: u16
  io_activate :: bool

record StackBusy =
  sb_stackIndex :: u16

definition InputBits :: nat where "InputBits = 6"
definition OutputBits :: nat where "OutputBits = 3"
definition InputCombinations :: nat where "InputCombinations = 64"
definition StrobeGGDefaultWidth :: u16 where "StrobeGGDefaultWidth = 8"
definition StrobeGGInput :: nat where "StrobeGGInput = InputBits"
definition StrobeGGOutput :: nat where "StrobeGGOutput = StrobeGGInput + 1"

type_synonym Bitmap = "64 word"

record LUT =
  lutContents :: "Bitmap list"
  strobedOutputs :: "3 word"
  strobeGG :: IO
  defaultOutputNames :: "string list"
  outputNames :: "string list"

record StackStart =
  ss_activate :: bool
  ss_stackIndex :: u8
  ss_delay_ns :: u16

record MasterTrigger =
  mt_activate :: bool

record Counter =
  c_clearOnLatch :: bool
  c_softActivate :: bool

record IRQ_Util =
  irqIndex :: u8

record SlaveTrigger =
  gateGenerator :: IO
  triggerIndex :: u8

text \<open>\<open>tr_type\<close> is the number of \<^verbatim>\<open>TriggerResource::Type\<close>: 0 IRQ, 1 SoftTrigger, 2 SlaveTrigger.\<close>

record TriggerResource =
  tr_type :: u8
  irqUtil :: IRQ_Util
  slaveTrigger :: SlaveTrigger

type_synonym UnitAddress = "nat \<times> nat \<times> nat"

datatype UnitConnection = Dynamic | Static UnitAddress

text \<open>\<^verbatim>\<open>Dynamic\<close> carries the address \<open>{0, 0, 0}\<close> in the code.\<close>

fun connection_address :: "UnitConnection \<Rightarrow> UnitAddress" where
  "connection_address Dynamic = (0, 0, 0)"
| "connection_address (Static a) = a"

section \<open>Levels\<close>

definition TriggerResourceCount :: nat where "TriggerResourceCount = 8"
definition TriggerResourceOffset :: nat where "TriggerResourceOffset = 4"
definition StackBusyCount :: nat where "StackBusyCount = 2"
definition StackBusyOffset :: nat where "StackBusyOffset = 12"
definition SysClockOffset :: nat where "SysClockOffset = 14"
definition DAQStartOffset :: nat where "DAQStartOffset = 15"
definition NIM_IO_Offset :: nat where "NIM_IO_Offset = 16"
definition IRQ_Inputs_Count :: nat where "IRQ_Inputs_Count = 6"
definition IRQ_Inputs_Offset :: nat where "IRQ_Inputs_Offset = 33"
definition L0_OutputCount :: nat where
  "L0_OutputCount = 16 + NIM_IO_Count + ECL_OUT_Count + IRQ_Inputs_Count"

definition UnitNotAvailable :: string where
  "UnitNotAvailable = ''N/A''"

record Level0 =
  timers :: "Timer list"
  triggerResources :: "TriggerResource list"
  stackBusy :: "StackBusy list"
  ioNIM :: "IO list"
  ioIRQ :: "IO list"
  l0_unitNames :: "string list"

definition LUT_DynamicInputCount :: nat where "LUT_DynamicInputCount = 3"
definition L1_LUTCount :: nat where "L1_LUTCount = 7"
definition L2_LUTCount :: nat where "L2_LUTCount = 3"

record Level1 =
  l1_luts :: "LUT list"
  lut2Connections :: "nat list"

record LUTDynamicInputChoices =
  lutChoices :: "UnitAddress list list"
  strobeChoices :: "UnitAddress list"

record Level2 =
  l2_luts :: "LUT list"
  lutConnections :: "nat list list"
  strobeConnections :: "nat list"

definition StackStartCount :: nat where "StackStartCount = 4"
definition MasterTriggersCount :: nat where "MasterTriggersCount = 4"
definition MasterTriggersOffset :: nat where "MasterTriggersOffset = 4"
definition CountersCount :: nat where "CountersCount = 8"
definition CountersOffset :: nat where "CountersOffset = 8"
definition L3_UtilityUnitCount :: nat where
  "L3_UtilityUnitCount = StackStartCount + MasterTriggersCount + CountersCount"
definition L3_UnitCount :: nat where
  "L3_UnitCount = L3_UtilityUnitCount + NIM_IO_Count + ECL_OUT_Count"
definition NIM_IO_Unit_Offset :: nat where "NIM_IO_Unit_Offset = 16"
definition ECL_Unit_Offset :: nat where "ECL_Unit_Offset = 30"
definition CounterInputNotConnected :: nat where "CounterInputNotConnected = 21"

record Level3 =
  stackStart :: "StackStart list"
  masterTriggers :: "MasterTrigger list"
  counters :: "Counter list"
  l3_ioNIM :: "IO list"
  ioECL :: "IO list"
  l3_unitNames :: "string list"
  connections :: "nat list list"

record TriggerIO =
  l0 :: Level0
  l1 :: Level1
  l2 :: Level2
  l3 :: Level3

section \<open>Default names and constructors\<close>

definition L0_DefaultUnitNames :: "string list" where
  "L0_DefaultUnitNames =
    [''timer0'', ''timer1'', ''timer2'', ''timer3'',
     ''trigger_resource0'', ''trigger_resource1'', ''trigger_resource2'', ''trigger_resource3'',
     ''trigger_resource4'', ''trigger_resource5'', ''trigger_resource6'', ''trigger_resource7'',
     ''stack_busy0'', ''stack_busy1'', ''sysclk'', ''daq_start'',
     ''NIM0'', ''NIM1'', ''NIM2'', ''NIM3'', ''NIM4'', ''NIM5'', ''NIM6'', ''NIM7'', ''NIM8'', ''NIM9'',
     ''NIM10'', ''NIM11'', ''NIM12'', ''NIM13'', ''<unused>'', ''<unused>'', ''<unused>'',
     ''IRQ1'', ''IRQ2'', ''IRQ3'', ''IRQ4'', ''IRQ5'', ''IRQ6'']"

definition L3_DefaultUnitNames :: "string list" where
  "L3_DefaultUnitNames =
    [''StackStart0'', ''StackStart1'', ''StackStart2'', ''StackStart3'',
     ''MasterTrigger0'', ''MasterTrigger1'', ''MasterTrigger2'', ''MasterTrigger3'',
     ''Counter0+Timestamper'', ''Counter1'', ''Counter2'', ''Counter3'', ''Counter4'', ''Counter5'',
     ''Counter6'', ''Counter7'',
     ''NIM0'', ''NIM1'', ''NIM2'', ''NIM3'', ''NIM4'', ''NIM5'', ''NIM6'', ''NIM7'', ''NIM8'', ''NIM9'',
     ''NIM10'', ''NIM11'', ''NIM12'', ''NIM13'', ''LVDS0'', ''LVDS1'', ''LVDS2'', ''<not connected>'']"

definition zero_io :: IO where
  "zero_io = \<lparr>io_delay = 0, io_width = 0, io_holdoff = 0, io_invert = False, io_direction = 0,
     io_activate = False\<rparr>"

definition default_strobeGG :: IO where
  "default_strobeGG = zero_io\<lparr>io_width := StrobeGGDefaultWidth\<rparr>"

definition new_lut :: LUT where
  "new_lut = \<lparr>lutContents = replicate OutputBits 0, strobedOutputs = 0, strobeGG = default_strobeGG,
     defaultOutputNames = replicate OutputBits [], outputNames = replicate OutputBits []\<rparr>"

definition new_level0 :: Level0 where
  "new_level0 =
    \<lparr>timers = replicate TimerCount \<lparr>t_range = 0, t_delay_ns = 0, t_period = 0, t_softActivate = False\<rparr>,
     triggerResources = replicate TriggerResourceCount
       \<lparr>tr_type = 0, irqUtil = \<lparr>irqIndex = 0\<rparr>,
        slaveTrigger = \<lparr>gateGenerator = zero_io, triggerIndex = 0\<rparr>\<rparr>,
     stackBusy = replicate StackBusyCount \<lparr>sb_stackIndex = 0\<rparr>,
     ioNIM = replicate NIM_IO_Count zero_io,
     ioIRQ = replicate IRQ_Inputs_Count zero_io,
     l0_unitNames = L0_DefaultUnitNames\<rparr>"

definition lut_output_name :: "nat \<Rightarrow> nat \<Rightarrow> nat \<Rightarrow> string" where
  "lut_output_name level unit output =
     ''L'' @ show_dec level @ ''.LUT'' @ show_dec unit @ ''.OUT'' @ show_dec output"

definition named_lut :: "nat \<Rightarrow> nat \<Rightarrow> LUT \<Rightarrow> LUT" where
  "named_lut level unit lut =
     (let names = map (lut_output_name level unit) [0..<length (outputNames lut)]
      in lut\<lparr>defaultOutputNames := names, outputNames := names\<rparr>)"

definition new_level1 :: Level1 where
  "new_level1 =
    \<lparr>l1_luts = map (\<lambda>(unit, lut). named_lut 1 unit lut) (indexed 0 (replicate L1_LUTCount new_lut)),
     lut2Connections = replicate LUT_DynamicInputCount 0\<rparr>"

definition new_level2 :: Level2 where
  "new_level2 =
    \<lparr>l2_luts = map (\<lambda>(unit, lut). named_lut 2 unit lut) (indexed 0 (replicate L2_LUTCount new_lut)),
     lutConnections = replicate L2_LUTCount (replicate LUT_DynamicInputCount 0),
     strobeConnections = replicate L2_LUTCount 0\<rparr>"

definition new_level3 :: Level3 where
  "new_level3 =
    \<lparr>stackStart = replicate StackStartCount \<lparr>ss_activate = False, ss_stackIndex = 0, ss_delay_ns = 0\<rparr>,
     masterTriggers = replicate MasterTriggersCount \<lparr>mt_activate = False\<rparr>,
     counters = replicate CountersCount \<lparr>c_clearOnLatch = False, c_softActivate = False\<rparr>,
     l3_ioNIM = replicate NIM_IO_Count zero_io,
     ioECL = replicate ECL_OUT_Count zero_io,
     l3_unitNames = L3_DefaultUnitNames,
     connections =
       fold (\<lambda>unit cs. cs[unit := [0, CounterInputNotConnected]])
         [CountersOffset..<CountersOffset + CountersCount]
         (replicate L3_UnitCount [0, 0])\<rparr>"

definition new_trigger_io :: TriggerIO where
  "new_trigger_io = \<lparr>l0 = new_level0, l1 = new_level1, l2 = new_level2, l3 = new_level3\<rparr>"

section \<open>Connections\<close>

definition L1_StaticConnections :: "UnitConnection list list" where
  "L1_StaticConnections =
    [map (\<lambda>u. Static (0, u, 0)) [16, 17, 18, 19, 20, 21],
     map (\<lambda>u. Static (0, u, 0)) [20, 21, 22, 23, 24, 25],
     [Dynamic, Dynamic, Dynamic, Static (0, 27, 0), Static (0, 28, 0), Static (0, 29, 0)],
     [Static (1, 0, 0), Static (1, 0, 1), Static (1, 0, 2), Static (1, 1, 0), Static (1, 1, 1), Static (1, 1, 2)],
     [Static (1, 1, 0), Static (1, 1, 1), Static (1, 1, 2), Static (1, 2, 0), Static (1, 2, 1), Static (1, 2, 2)],
     map (\<lambda>u. Static (0, u, 0)) [33, 34, 35, 36, 37, 38],
     [Static (1, 2, 0), Static (1, 2, 1), Static (1, 2, 2), Static (1, 5, 0), Static (1, 5, 1), Static (1, 5, 2)]]"

definition LUT2DynamicInputChoices :: "UnitAddress list list" where
  "LUT2DynamicInputChoices =
    [[(0, 24, 0), (0, 33, 0)], [(0, 25, 0), (0, 34, 0)], [(0, 26, 0), (0, 35, 0)]]"

definition l2_choices_of_unit :: "nat \<Rightarrow> LUTDynamicInputChoices" where
  "l2_choices_of_unit unit =
     (let common = map (\<lambda>i. (0, i, 0)) [0..<SysClockOffset];
          l1_lut = (if unit = 0 then [4] else if unit = 1 then [3] else if unit = 2 then [4] else []);
          choices = map (\<lambda>i. common @ map (\<lambda>lut. (1, lut, i)) l1_lut @ [(0, DAQStartOffset, 0)]
                         @ [(1, 6, 0), (1, 6, 1), (1, 6, 2)]) [0..<LUT_DynamicInputCount];
          strobes = map (\<lambda>i. (0, i, 0)) [0..<SysClockOffset + 1]
                    @ map (\<lambda>i. (1, 3, i)) [0..<3] @ map (\<lambda>i. (1, 4, i)) [0..<3]
                    @ map (\<lambda>i. (2, 0, i)) [0..<3] @ map (\<lambda>i. (2, 1, i)) [0..<3]
                    @ map (\<lambda>i. (1, 6, i)) [0..<3]
      in \<lparr>lutChoices = choices, strobeChoices = strobes\<rparr>)"

definition make_l2_input_choices :: "LUTDynamicInputChoices list" where
  "make_l2_input_choices = map l2_choices_of_unit [0..<L2_LUTCount]"

definition L2_StaticConnections :: "UnitConnection list list" where
  "L2_StaticConnections =
    [[Dynamic, Dynamic, Dynamic, Static (1, 3, 0), Static (1, 3, 1), Static (1, 3, 2)],
     [Dynamic, Dynamic, Dynamic, Static (1, 4, 0), Static (1, 4, 1), Static (1, 4, 2)],
     [Dynamic, Dynamic, Dynamic, Static (1, 6, 0), Static (1, 6, 1), Static (1, 6, 2)]]"

definition Level2LUTs01 :: "UnitAddress list" where
  "Level2LUTs01 = [(2, 0, 0), (2, 0, 1), (2, 0, 2), (2, 1, 0), (2, 1, 1), (2, 1, 2)]"

definition Level2LUT2 :: "UnitAddress list" where
  "Level2LUT2 = [(2, 2, 0), (2, 2, 1), (2, 2, 2)]"

definition l3_start_choices :: "UnitAddress list" where
  "l3_start_choices =
     map (\<lambda>unit. (0, unit, 0)) [0..<14] @ Level2LUTs01 @ [(3, L3_UnitCount + 1, 0)] @ Level2LUT2"

definition l3_counter_choices :: "UnitAddress list" where
  "l3_counter_choices =
     map (\<lambda>unit. (0, unit, 0)) [0..<SysClockOffset] @ Level2LUTs01 @ [(0, SysClockOffset, 0)]
     @ [(3, L3_UnitCount, 0)] @ Level2LUT2"

definition make_l3_input_choices :: "UnitAddress list list list" where
  "make_l3_input_choices =
     replicate StackStartCount [l3_start_choices] @ replicate MasterTriggersCount [l3_start_choices]
     @ replicate CountersCount [l3_counter_choices, l3_counter_choices]
     @ replicate (NIM_IO_Count + ECL_OUT_Count) [Level2LUTs01 @ Level2LUT2]"

section \<open>Names\<close>

text \<open>\<^verbatim>\<open>QList::value\<close> gives an empty string for an index out of range.\<close>

definition value_at :: "string list \<Rightarrow> nat \<Rightarrow> string" where
  "value_at names i = (case at_opt names i of None \<Rightarrow> [] | Some n \<Rightarrow> n)"

definition lut_name :: "LUT list \<Rightarrow> nat \<Rightarrow> nat \<Rightarrow> string option" where
  "lut_name luts unit output = Option.bind (at_opt luts unit) (\<lambda>lut. at_opt (outputNames lut) output)"

fun lookup_name :: "TriggerIO \<Rightarrow> UnitAddress \<Rightarrow> string option" where
  "lookup_name cfg (level, unit, output) =
     (if level = 0 then Some (value_at (l0_unitNames (l0 cfg)) unit)
      else if level = 1 then lut_name (l1_luts (l1 cfg)) unit output
      else if level = 2 then lut_name (l2_luts (l2 cfg)) unit output
      else if level = 3 then Some (value_at (l3_unitNames (l3 cfg)) unit)
      else Some [])"

definition default_lut_name :: "LUT list \<Rightarrow> nat \<Rightarrow> nat \<Rightarrow> string" where
  "default_lut_name luts unit output =
     (if unit < length luts \<and> output < length (defaultOutputNames (luts ! unit))
      then defaultOutputNames (luts ! unit) ! output else [])"

fun lookup_default_name :: "TriggerIO \<Rightarrow> UnitAddress \<Rightarrow> string" where
  "lookup_default_name cfg (level, unit, output) =
     (if level = 0 then (if unit < length L0_DefaultUnitNames then L0_DefaultUnitNames ! unit else [])
      else if level = 1 then default_lut_name (l1_luts (l1 cfg)) unit output
      else if level = 2 then default_lut_name (l2_luts (l2 cfg)) unit output
      else if level = 3 then (if unit < length L3_DefaultUnitNames then L3_DefaultUnitNames ! unit else [])
      else [])"

definition reset_lut_names :: "LUT \<Rightarrow> LUT" where
  "reset_lut_names lut = lut\<lparr>outputNames := defaultOutputNames lut\<rparr>"

definition reset_names :: "TriggerIO \<Rightarrow> TriggerIO" where
  "reset_names cfg =
     \<lparr>l0 = (l0 cfg)\<lparr>l0_unitNames := L0_DefaultUnitNames\<rparr>,
      l1 = (l1 cfg)\<lparr>l1_luts := map reset_lut_names (l1_luts (l1 cfg))\<rparr>,
      l2 = (l2 cfg)\<lparr>l2_luts := map reset_lut_names (l2_luts (l2 cfg))\<rparr>,
      l3 = (l3 cfg)\<lparr>l3_unitNames := L3_DefaultUnitNames\<rparr>\<rparr>"

section \<open>Connection values\<close>

fun get_connection_value :: "TriggerIO \<Rightarrow> UnitAddress \<Rightarrow> nat option" where
  "get_connection_value cfg (level, unit, input) =
     (if level = 0 \<or> level = 1
      then (if unit = 2 then at_opt (lut2Connections (l1 cfg)) input else Some 0)
      else if level = 2
      then (if input = InputBits then at_opt (strobeConnections (l2 cfg)) unit
            else Option.bind (at_opt (lutConnections (l2 cfg)) unit) (\<lambda>cs. at_opt cs input))
      else if level = 3
      then Option.bind (at_opt (connections (l3 cfg)) unit) (\<lambda>cs. at_opt cs input)
      else Some 0)"

text \<open>The switch of \<^verbatim>\<open>get_connection_unit_address\<close> over the connection value read before it.\<close>

fun connection_source :: "nat \<Rightarrow> UnitAddress \<Rightarrow> UnitAddress option" where
  "connection_source conValue (level, unit, input) =
     (if level = 0 \<or> level = 1
      then (if unit = 2 \<and> input < LUT_DynamicInputCount
            then Option.bind (at_opt LUT2DynamicInputChoices input) (\<lambda>cs. at_opt cs conValue)
            else Some (0, 0, 0))
      else if level = 2
      then Option.bind (at_opt make_l2_input_choices unit) (\<lambda>choices.
             if input = StrobeGGInput then at_opt (strobeChoices choices) conValue
             else if input < length (lutChoices choices)
             then Option.bind (at_opt (lutChoices choices) input) (\<lambda>cs. at_opt cs conValue)
             else if input < InputBits
             then Option.bind (at_opt L2_StaticConnections unit)
                    (\<lambda>cs. map_option connection_address (at_opt cs input))
             else Some (0, 0, 0))
      else if level = 3
      then Option.bind (at_opt make_l3_input_choices unit)
             (\<lambda>lists. Option.bind (at_opt lists input) (\<lambda>cs. at_opt cs conValue))
      else Some (0, 0, 0))"

fun get_connection_unit_address :: "TriggerIO \<Rightarrow> UnitAddress \<Rightarrow> UnitAddress option" where
  "get_connection_unit_address cfg (level, unit, input) =
     Option.bind (get_connection_value cfg (level, unit, input))
       (\<lambda>conValue. connection_source conValue (level, unit, input))"

section \<open>The LUT memory\<close>

datatype ram_error = AddressOutOfRange | ValueOutOfRange

text \<open>16 words of four 4-bit cells.\<close>

type_synonym LUT_RAM = "u16 list"

definition ram_lookup :: "LUT_RAM \<Rightarrow> u8 \<Rightarrow> ram_error + u8" where
  "ram_lookup lut address =
     (if 63 < address then Inl AddressOutOfRange
      else
        (let cell = unat (drop_bit 2 address);
             nibble = unat (address AND 3);
             shift = nibble * 4
         in Inr (ucast (drop_bit shift (lut ! cell) AND 0xF))))"

definition ram_set :: "LUT_RAM \<Rightarrow> u8 \<Rightarrow> u8 \<Rightarrow> ram_error + LUT_RAM" where
  "ram_set lut address v =
     (if 63 < address then Inl AddressOutOfRange
      else if 7 < v then Inl ValueOutOfRange
      else
        (let cell = unat (drop_bit 2 address);
             nibble = unat (address AND 3);
             shift = nibble * 4;
             clearNibbleMask = NOT (push_bit shift 0xF)
         in Inr (lut[cell := (lut ! cell AND clearNibbleMask) OR push_bit shift (ucast (v AND 0xF))])))"

lemma cell_of: "unat (drop_bit 2 (a :: u8)) = unat a div 4" "unat (a AND 3) = unat a mod 4"
proof -
  show "unat (drop_bit 2 a) = unat a div 4" by (simp add: drop_bit_eq_div unat_div_distrib)
  have "a AND 3 = take_bit 2 a" by (simp add: take_bit_eq_mask mask_eq_exp_minus_1)
  then show "unat (a AND 3) = unat a mod 4" by (simp add: take_bit_eq_mod unat_mod_distrib)
qed

lemma nibble_update:
  fixes w x :: u16
  assumes "p < 4" "q < 4" "\<And>i. 4 \<le> i \<Longrightarrow> \<not> bit x i"
  shows "drop_bit (q * 4) ((w AND NOT (push_bit (p * 4) 0xF)) OR push_bit (p * 4) x) AND 0xF
       = (if p = q then x else drop_bit (q * 4) w AND 0xF)"
proof (rule word_eqI_bits)
  fix i :: nat
  assume "i < LENGTH(16)"
  have F: "bit (0xF :: u16) n \<longleftrightarrow> n < 4" for n
  proof -
    have "(0xF :: u16) = mask 4" by (simp add: mask_eq_exp_minus_1)
    then show ?thesis by (simp only: bit_mask_iff) auto
  qed
  have shifted: "bit (push_bit (p * 4) y) (q * 4 + i) \<longleftrightarrow> p = q \<and> bit y i"
    if "i < 4" "\<And>i. 4 \<le> i \<Longrightarrow> \<not> bit y i" for y :: u16
  proof (cases "p = q")
    case True
    then show ?thesis using assms(2) that(1) by (simp add: bit_push_bit_iff)
  next
    case False
    then have "\<not> p * 4 \<le> q * 4 + i \<or> 4 \<le> q * 4 + i - p * 4" using that(1) by linarith
    then show ?thesis using False that(2) unfolding bit_push_bit_iff by blast
  qed
  have nF: "\<not> bit (0xF :: u16) n" if "4 \<le> n" for n using that unfolding F by simp
  show "bit (drop_bit (q * 4) ((w AND NOT (push_bit (p * 4) 0xF)) OR push_bit (p * 4) x) AND 0xF) i
      = bit (if p = q then x else drop_bit (q * 4) w AND 0xF) i"
  proof (cases "i < 4")
    case True
    then have "q * 4 + i < LENGTH(16)" using assms(2) by simp
    then have "possible_bit TYPE(16 word) (q * 4 + i)" by (simp add: possible_bit_word)
    then show ?thesis
      using True
      by (simp only: bit_and_iff bit_or_iff bit_drop_bit_eq bit_not_iff comp_apply F
          shifted [OF True nF] shifted [OF True assms(3)] split: if_split) blast
  next
    case False
    then show ?thesis using assms(3) by (simp only: bit_and_iff F simp_thms split: if_split)
  qed
qed

definition ram_rd :: "LUT_RAM \<Rightarrow> u8 \<Rightarrow> u8" where
  "ram_rd ram a = (case ram_lookup ram a of Inl _ \<Rightarrow> 0 | Inr v \<Rightarrow> v)"

definition ram_wr :: "LUT_RAM \<Rightarrow> u8 \<Rightarrow> u8 \<Rightarrow> LUT_RAM" where
  "ram_wr ram a v = (case ram_set ram a v of Inl _ \<Rightarrow> ram | Inr r \<Rightarrow> r)"

lemma ram_rd_nibble:
  "unat a < 64 \<Longrightarrow> ram_rd ram a = ucast (drop_bit (unat a mod 4 * 4) (ram ! (unat a div 4)) AND 0xF)"
  by (simp add: ram_rd_def ram_lookup_def word_less_nat_alt cell_of Let_def)

lemma ram_wr_nibble:
  "unat a < 64 \<Longrightarrow> unat v < 8 \<Longrightarrow>
   ram_wr ram a v = ram[unat a div 4 :=
     (ram ! (unat a div 4) AND NOT (push_bit (unat a mod 4 * 4) 0xF))
       OR push_bit (unat a mod 4 * 4) (ucast (v AND 0xF))]"
  by (simp add: ram_wr_def ram_set_def word_less_nat_alt cell_of Let_def)

lemma ucast_nibble:
  assumes "unat (v :: u8) < 8"
  shows "v AND 0xF = v" and "4 \<le> i \<Longrightarrow> \<not> bit (ucast v :: u16) i" and "ucast (ucast v :: u16) = v"
proof -
  have bits: "\<not> bit v i" if "3 \<le> i" for i
  proof -
    have "unat v < 2 ^ i" using assms that power_increasing [of 3 i "2 :: nat"] by simp
    then have "\<not> bit (unat v) i" by (simp add: bit_iff_odd)
    then show ?thesis by (simp add: bit_unsigned_iff)
  qed
  have F: "(0xF :: u8) = mask 4" by (simp add: mask_eq_exp_minus_1)
  show "v AND 0xF = v"
  proof (rule word_eqI_bits)
    fix i :: nat
    show "bit (v AND 0xF) i = bit v i"
      using bits [of i] unfolding F bit_and_iff bit_mask_iff by (cases "i < 4") auto
  qed
  show "\<not> bit (ucast v :: u16) i" if "4 \<le> i"
    using bits [of i] that by (simp add: bit_unsigned_iff)
  show "ucast (ucast v :: u16) = v"
    by (rule word_eqI_bits) (auto simp: bit_unsigned_iff)
qed

interpretation ram_store: store "\<lambda>ram. length ram = 16" "\<lambda>a v. unat a < 64 \<and> unat v < 8" ram_rd ram_wr
proof unfold_locales
  fix ram :: LUT_RAM and a v :: u8
  assume ram: "length ram = 16" and av: "unat a < 64 \<and> unat v < 8"
  show "length (ram_wr ram a v) = 16" using ram av by (simp add: ram_wr_nibble)
  have cell: "unat a div 4 < length ram" using ram av by linarith
  show "ram_rd (ram_wr ram a v) a = v"
    using av cell nibble_update [of "unat a mod 4" "unat a mod 4" "ucast v" "ram ! (unat a div 4)"]
      ucast_nibble [of v]
    by (simp add: ram_wr_nibble ram_rd_nibble)
  show "ram_rd (ram_wr ram a v) b = ram_rd ram b" if "b \<noteq> a" for b
  proof (cases "unat b < 64")
    case True
    have "unat b \<noteq> unat a" using that by (simp add: word_unat_eq_iff)
    then have "unat b div 4 \<noteq> unat a div 4 \<or> unat a mod 4 \<noteq> unat b mod 4"
      by (metis mult_div_mod_eq)
    then show ?thesis
      using av True cell nibble_update [of "unat a mod 4" "unat b mod 4" "ucast v" "ram ! (unat a div 4)"]
        ucast_nibble [of v]
      by (cases "unat b div 4 = unat a div 4") (auto simp: ram_wr_nibble ram_rd_nibble)
  next
    case False
    then show ?thesis by (simp add: ram_rd_def ram_lookup_def word_less_nat_alt)
  qed
qed


section \<open>Well-formed configurations\<close>

text \<open>The array lengths the C++ types fix. The names are \<^verbatim>\<open>QStringList\<close>s of the default length.\<close>

definition wf_lut :: "LUT \<Rightarrow> bool" where
  "wf_lut lut \<longleftrightarrow> length (lutContents lut) = OutputBits \<and> length (defaultOutputNames lut) = OutputBits
     \<and> length (outputNames lut) = OutputBits"

definition wf_trigger_io :: "TriggerIO \<Rightarrow> bool" where
  "wf_trigger_io cfg \<longleftrightarrow>
     length (timers (l0 cfg)) = TimerCount \<and> length (triggerResources (l0 cfg)) = TriggerResourceCount
     \<and> length (stackBusy (l0 cfg)) = StackBusyCount \<and> length (ioNIM (l0 cfg)) = NIM_IO_Count
     \<and> length (ioIRQ (l0 cfg)) = IRQ_Inputs_Count
     \<and> length (l0_unitNames (l0 cfg)) = length L0_DefaultUnitNames
     \<and> length (l1_luts (l1 cfg)) = L1_LUTCount \<and> list_all wf_lut (l1_luts (l1 cfg))
     \<and> length (lut2Connections (l1 cfg)) = LUT_DynamicInputCount
     \<and> length (l2_luts (l2 cfg)) = L2_LUTCount \<and> list_all wf_lut (l2_luts (l2 cfg))
     \<and> length (lutConnections (l2 cfg)) = L2_LUTCount
     \<and> list_all (\<lambda>cs. length cs = LUT_DynamicInputCount) (lutConnections (l2 cfg))
     \<and> length (strobeConnections (l2 cfg)) = L2_LUTCount
     \<and> length (stackStart (l3 cfg)) = StackStartCount
     \<and> length (masterTriggers (l3 cfg)) = MasterTriggersCount \<and> length (counters (l3 cfg)) = CountersCount
     \<and> length (l3_ioNIM (l3 cfg)) = NIM_IO_Count \<and> length (ioECL (l3 cfg)) = ECL_OUT_Count
     \<and> length (l3_unitNames (l3 cfg)) = length L3_DefaultUnitNames
     \<and> length (connections (l3 cfg)) = L3_UnitCount"

lemmas io_counts = TimerCount_def NIM_IO_Count_def ECL_OUT_Count_def InputBits_def OutputBits_def
  StrobeGGInput_def TriggerResourceCount_def TriggerResourceOffset_def StackBusyCount_def
  StackBusyOffset_def SysClockOffset_def DAQStartOffset_def NIM_IO_Offset_def IRQ_Inputs_Count_def
  IRQ_Inputs_Offset_def LUT_DynamicInputCount_def L1_LUTCount_def L2_LUTCount_def StackStartCount_def
  MasterTriggersCount_def MasterTriggersOffset_def CountersCount_def CountersOffset_def
  L3_UtilityUnitCount_def L3_UnitCount_def NIM_IO_Unit_Offset_def ECL_Unit_Offset_def
  CounterInputNotConnected_def

text \<open>The inputs whose source the user selects, and the sources offered for each.\<close>

definition dynamic_inputs :: "UnitAddress list" where
  "dynamic_inputs =
     map (\<lambda>i. (1, 2, i)) [0..<3]
     @ concat (map (\<lambda>u. map (\<lambda>i. (2, u, i)) [0, 1, 2, 6]) [0..<3])
     @ map (\<lambda>u. (3, u, 0)) [0..<33] @ map (\<lambda>u. (3, u, 1)) [8..<16]"

fun choices_of :: "UnitAddress \<Rightarrow> UnitAddress list" where
  "choices_of (level, unit, input) =
     (if level = 1 then LUT2DynamicInputChoices ! input
      else if level = 2
      then (if input = StrobeGGInput then strobeChoices (l2_choices_of_unit unit)
            else lutChoices (l2_choices_of_unit unit) ! input)
      else make_l3_input_choices ! unit ! input)"

definition valid_connections :: "TriggerIO \<Rightarrow> bool" where
  "valid_connections cfg \<longleftrightarrow>
     list_all (\<lambda>x. case get_connection_value cfg x of None \<Rightarrow> False | Some v \<Rightarrow> v < length (choices_of x))
       dynamic_inputs"

lemma valid_connectionE:
  assumes "valid_connections cfg" "x \<in> set dynamic_inputs"
  obtains v where "get_connection_value cfg x = Some v" "v < length (choices_of x)"
  using assms by (auto simp: valid_connections_def list_all_iff split: option.splits)

lemma dynamic_inputs_iff:
  "(l, u, i) \<in> set dynamic_inputs \<longleftrightarrow>
     l = 1 \<and> u = 2 \<and> i < 3 \<or> l = 2 \<and> u < 3 \<and> (i < 3 \<or> i = 6)
     \<or> l = 3 \<and> (u < 33 \<and> i = 0 \<or> 8 \<le> u \<and> u < 16 \<and> i = 1)"
proof -
  have a: "(l, u, i) \<in> set (map (\<lambda>i. (1, 2, i)) [0..<n]) \<longleftrightarrow> l = 1 \<and> u = 2 \<and> i < n" for n :: nat
    by auto
  have b: "(l, u, i) \<in> set (concat (map (\<lambda>u. map (\<lambda>i. (2, u, i)) is) [0..<n])) \<longleftrightarrow> l = 2 \<and> u < n \<and> i \<in> set is"
    for n :: nat and "is"
    by auto
  have c: "(l, u, i) \<in> set (map (\<lambda>u. (3, u, k)) [m..<n]) \<longleftrightarrow> l = 3 \<and> m \<le> u \<and> u < n \<and> i = k" for k m n :: nat
    by auto
  have "i \<in> set [0, 1, 2, 6] \<longleftrightarrow> i < 3 \<or> i = 6" by (simp; presburger)
  then show ?thesis
    unfolding dynamic_inputs_def set_append Un_iff a b c by (simp only: le0 simp_thms) blast
qed

lemma make_l2_nth: "u < 3 \<Longrightarrow> make_l2_input_choices ! u = l2_choices_of_unit u"
  and make_l2_length: "length make_l2_input_choices = 3"
  by (simp_all add: make_l2_input_choices_def L2_LUTCount_def)

lemma lutChoices_length [simp]: "length (lutChoices (l2_choices_of_unit u)) = 3"
  by (simp add: l2_choices_of_unit_def Let_def LUT_DynamicInputCount_def)

lemma make_l3_length: "length make_l3_input_choices = 33"
  by (simp add: make_l3_input_choices_def io_counts)

lemma make_l3_nth:
  "u < 33 \<Longrightarrow> make_l3_input_choices ! u =
    (if u < 8 then [l3_start_choices] else if u < 16 then [l3_counter_choices, l3_counter_choices]
     else [Level2LUTs01 @ Level2LUT2])"
  by (auto simp: make_l3_input_choices_def io_counts nth_append)

lemma get_connection_of_valid:
  assumes x: "x \<in> set dynamic_inputs" and v: "get_connection_value cfg x = Some v" "v < length (choices_of x)"
  shows "get_connection_unit_address cfg x = Some (choices_of x ! v)"
proof -
  obtain l u i where lui: "x = (l, u, i)" by (cases x) auto
  note addr = get_connection_unit_address.simps [of cfg l u i, unfolded v(1) [unfolded lui] bind.bind_lunit]
  have "l = 1 \<and> u = 2 \<and> i < 3 \<or> l = 2 \<and> u < 3 \<and> i < 3 \<or> l = 2 \<and> u < 3 \<and> i = 6
     \<or> l = 3 \<and> (u < 33 \<and> i = 0 \<or> 8 \<le> u \<and> u < 16 \<and> i = 1)"
    using x unfolding lui dynamic_inputs_iff by blast
  then show ?thesis
  proof (elim disjE)
    assume c: "l = 1 \<and> u = 2 \<and> i < 3"
    have "length LUT2DynamicInputChoices = 3" by (simp add: LUT2DynamicInputChoices_def)
    then show ?thesis using v(2) c unfolding lui addr by (simp add: LUT_DynamicInputCount_def)
  next
    assume c: "l = 2 \<and> u < 3 \<and> i < 3"
    then show ?thesis using v(2) unfolding lui addr by (simp add: make_l2_length make_l2_nth io_counts)
  next
    assume c: "l = 2 \<and> u < 3 \<and> i = 6"
    then show ?thesis using v(2) unfolding lui addr by (simp add: make_l2_length make_l2_nth io_counts)
  next
    assume c: "l = 3 \<and> (u < 33 \<and> i = 0 \<or> 8 \<le> u \<and> u < 16 \<and> i = 1)"
    then have "u < length make_l3_input_choices" by (auto simp: make_l3_length)
    moreover have "i < length (make_l3_input_choices ! u)"
      using c by (cases "u < 8"; cases "u < 16") (auto simp: make_l3_nth)
    ultimately show ?thesis using v(2) c unfolding lui addr by simp
  qed
qed

text \<open>What a source may be: an output of an earlier level, of the same level for the strobe gate
  generators, or one of the two entries past the last unit that stand for "not connected".\<close>

fun source_ok :: "UnitAddress \<Rightarrow> UnitAddress \<Rightarrow> bool" where
  "source_ok (level, unit, input) (l, u, out) \<longleftrightarrow>
     l = 0 \<and> u < L0_OutputCount \<and> out = 0
     \<or> l = 1 \<and> 1 < level \<and> u < L1_LUTCount \<and> out < OutputBits
     \<or> l = 2 \<and> (2 < level \<or> input = StrobeGGInput) \<and> u < L2_LUTCount \<and> out < OutputBits
     \<or> l = 3 \<and> level = 3 \<and> (u = L3_UnitCount \<or> u = L3_UnitCount + 1) \<and> out = 0"

lemma lutChoices_nth:
  "i < 3 \<Longrightarrow> lutChoices (l2_choices_of_unit u) ! i =
     map (\<lambda>i. (0, i, 0)) [0..<14]
     @ map (\<lambda>lut. (1, lut, i)) (if u = 0 then [4] else if u = 1 then [3] else if u = 2 then [4] else [])
     @ [(0, 15, 0), (1, 6, 0), (1, 6, 1), (1, 6, 2)]"
  by (simp add: l2_choices_of_unit_def Let_def LUT_DynamicInputCount_def SysClockOffset_def DAQStartOffset_def)

lemma strobeChoices_eq:
  "strobeChoices (l2_choices_of_unit u) =
     map (\<lambda>i. (0, i, 0)) [0..<15] @ map (\<lambda>i. (1, 3, i)) [0..<3] @ map (\<lambda>i. (1, 4, i)) [0..<3]
     @ map (\<lambda>i. (2, 0, i)) [0..<3] @ map (\<lambda>i. (2, 1, i)) [0..<3] @ map (\<lambda>i. (1, 6, i)) [0..<3]"
  by (simp add: l2_choices_of_unit_def Let_def SysClockOffset_def)

lemma choices_sources:
  assumes "x \<in> set dynamic_inputs"
  shows "list_all (source_ok x) (choices_of x)"
proof -
  have l1: "list_all (source_ok (1, 2, i)) (LUT2DynamicInputChoices ! i)" if "i < 3" for i
  proof -
    have "i = 0 \<or> i = 1 \<or> i = 2" using that by linarith
    then show ?thesis by (auto simp: LUT2DynamicInputChoices_def L0_OutputCount_def io_counts)
  qed
  have l2: "list_all (source_ok (2, u, i)) (lutChoices (l2_choices_of_unit u) ! i)" if "u < 3" "i < 3" for u i
    using that by (auto simp: lutChoices_nth list_all_iff L0_OutputCount_def io_counts)
  have l2s: "list_all (source_ok (2, u, 6)) (strobeChoices (l2_choices_of_unit u))" for u
    by (auto simp: strobeChoices_eq list_all_iff L0_OutputCount_def io_counts)
  have l3: "list_all (source_ok (3, u, i)) cs"
    if "cs = l3_start_choices \<or> cs = l3_counter_choices \<or> cs = Level2LUTs01 @ Level2LUT2" for u i cs
    using that by (auto simp: l3_start_choices_def l3_counter_choices_def Level2LUTs01_def Level2LUT2_def
        list_all_iff L0_OutputCount_def io_counts)
  obtain l u i where x: "x = (l, u, i)" by (cases x) auto
  have "l = 1 \<and> u = 2 \<and> i < 3 \<or> l = 2 \<and> u < 3 \<and> i < 3 \<or> l = 2 \<and> u < 3 \<and> i = 6
     \<or> l = 3 \<and> (u < 33 \<and> i = 0 \<or> 8 \<le> u \<and> u < 16 \<and> i = 1)"
    using assms unfolding x dynamic_inputs_iff by blast
  then show ?thesis
  proof (elim disjE)
    assume c: "l = 1 \<and> u = 2 \<and> i < 3"
    then have "choices_of x = LUT2DynamicInputChoices ! i" by (simp add: x)
    then show ?thesis using l1 [of i] c by (simp only: x)
  next
    assume c: "l = 2 \<and> u < 3 \<and> i < 3"
    then have "choices_of x = lutChoices (l2_choices_of_unit u) ! i" by (simp add: x io_counts)
    then show ?thesis using l2 [of u i] c by (simp only: x)
  next
    assume c: "l = 2 \<and> u < 3 \<and> i = 6"
    then have "choices_of x = strobeChoices (l2_choices_of_unit u)" by (simp add: x io_counts)
    then show ?thesis using l2s [of u] c by (simp only: x)
  next
    assume c: "l = 3 \<and> (u < 33 \<and> i = 0 \<or> 8 \<le> u \<and> u < 16 \<and> i = 1)"
    then have "choices_of x = l3_start_choices \<or> choices_of x = l3_counter_choices
        \<or> choices_of x = Level2LUTs01 @ Level2LUT2"
      by (auto simp: x make_l3_nth)
    then show ?thesis using l3 [of "choices_of x" u i] c by (simp only: x)
  qed
qed

lemma lookup_name_defined:
  assumes "wf_trigger_io cfg" "source_ok x a"
  obtains n where "lookup_name cfg a = Some n"
proof -
  have luts: "lut_name luts u out \<noteq> None"
    if "list_all wf_lut luts" "u < length luts" "out < OutputBits" for luts u out
    using that by (simp add: lut_name_def list_all_length wf_lut_def)
  obtain l u out where a: "a = (l, u, out)" by (cases a) auto
  have "lookup_name cfg a \<noteq> None"
    using assms luts by (cases x) (auto simp: a wf_trigger_io_def)
  then show thesis using that by auto
qed


section \<open>Properties\<close>

text \<open>Whatever valid selection a well-formed configuration holds for an input,
  \<open>get_connection_unit_address\<close> stays inside all tables and gives the selected entry of the choices; the
  entry is an output of an earlier level (of level 2 itself only for a strobe input) or one of the two
  "not connected" markers, and it has a name to show.\<close>

theorem selected_source:
  assumes "wf_trigger_io cfg" "valid_connections cfg" "x \<in> set dynamic_inputs"
  shows "\<exists>v. get_connection_value cfg x = Some v \<and> v < length (choices_of x)
    \<and> get_connection_unit_address cfg x = Some (choices_of x ! v)
    \<and> source_ok x (choices_of x ! v) \<and> lookup_name cfg (choices_of x ! v) \<noteq> None"
proof -
  obtain v where v: "get_connection_value cfg x = Some v" "v < length (choices_of x)"
    using valid_connectionE [OF assms(2,3)] .
  have ok: "source_ok x (choices_of x ! v)"
    using choices_sources [OF assms(3)] v(2) by (simp add: list_all_length del: choices_of.simps)
  moreover have "lookup_name cfg (choices_of x ! v) \<noteq> None"
    using lookup_name_defined [OF assms(1) ok] by auto
  ultimately show ?thesis
    using v get_connection_of_valid [OF assms(3) v] by blast
qed

lemma indexed_replicate: "map f (indexed 0 (replicate n x)) = map (\<lambda>i. f (i, x)) [0..<n]"
  by (rule nth_equalityI) simp_all

lemma wf_named_lut: "wf_lut lut \<Longrightarrow> wf_lut (named_lut level unit lut)"
  by (simp add: wf_lut_def named_lut_def Let_def)

lemma wf_new_lut: "wf_lut new_lut"
  by (simp add: wf_lut_def new_lut_def)

lemma length_fold_update: "length (fold (\<lambda>unit cs. cs[unit := w]) us xs) = length xs"
  by (induction us arbitrary: xs) auto

lemma nth_fold_update:
  "u < length xs \<Longrightarrow> fold (\<lambda>unit cs. cs[unit := w]) us xs ! u = (if u \<in> set us then w else xs ! u)"
  by (induction us arbitrary: xs) (auto simp: nth_list_update)

lemma new_luts:
  "l1_luts new_level1 = map (\<lambda>unit. named_lut 1 unit new_lut) [0..<L1_LUTCount]"
  "l2_luts new_level2 = map (\<lambda>unit. named_lut 2 unit new_lut) [0..<L2_LUTCount]"
  by (simp_all add: new_level1_def new_level2_def indexed_replicate)

lemma new_trigger_io_wf: "wf_trigger_io new_trigger_io"
proof -
  have "list_all wf_lut (l1_luts new_level1)" "list_all wf_lut (l2_luts new_level2)"
    unfolding new_luts list_all_iff by (auto intro!: wf_named_lut wf_new_lut)
  moreover have "length (l1_luts new_level1) = L1_LUTCount" "length (l2_luts new_level2) = L2_LUTCount"
    unfolding new_luts by simp_all
  ultimately show ?thesis
    by (simp add: wf_trigger_io_def new_trigger_io_def new_level0_def new_level3_def length_fold_update
        list_all_iff) (simp add: new_level1_def new_level2_def)
qed

lemma new_connections: "u < 33 \<Longrightarrow> connections new_level3 ! u = (if 8 \<le> u \<and> u < 16 then [0, 21] else [0, 0])"
proof -
  assume u: "u < 33"
  then have "u < length (replicate L3_UnitCount [0 :: nat, 0])" by (simp add: io_counts)
  then have "connections new_level3 ! u = (if u \<in> {8..<16} then [0, 21] else replicate L3_UnitCount [0, 0] ! u)"
    unfolding new_level3_def Level3.select_convs
    by (subst nth_fold_update) (simp_all add: CountersOffset_def CountersCount_def CounterInputNotConnected_def
        del: upt_rec_numeral)
  then show ?thesis using u by (simp add: io_counts)
qed

lemma new_connections_length: "length (connections new_level3) = 33"
  by (simp add: new_level3_def length_fold_update io_counts)

lemma new_valid_connections: "valid_connections new_trigger_io"
proof -
  have "case get_connection_value new_trigger_io x of None \<Rightarrow> False | Some v \<Rightarrow> v < length (choices_of x)"
    if "x \<in> set dynamic_inputs" for x
  proof -
    obtain l u i where x: "x = (l, u, i)" by (cases x) auto
    have "l = 1 \<and> u = 2 \<and> i < 3 \<or> l = 2 \<and> u < 3 \<and> i < 3 \<or> l = 2 \<and> u < 3 \<and> i = 6
       \<or> l = 3 \<and> u < 33 \<and> i = 0 \<or> l = 3 \<and> 8 \<le> u \<and> u < 16 \<and> i = 1"
      using that unfolding x dynamic_inputs_iff by blast
    then show ?thesis
    proof (elim disjE)
      assume c: "l = 1 \<and> u = 2 \<and> i < 3"
      then have "i = 0 \<or> i = 1 \<or> i = 2" by linarith
      with c show ?thesis
        by (auto simp: x new_trigger_io_def new_level1_def LUT2DynamicInputChoices_def io_counts)
    next
      assume "l = 2 \<and> u < 3 \<and> i < 3"
      then show ?thesis by (auto simp: x new_trigger_io_def new_level2_def lutChoices_nth io_counts)
    next
      assume "l = 2 \<and> u < 3 \<and> i = 6"
      then show ?thesis by (auto simp: x new_trigger_io_def new_level2_def strobeChoices_eq io_counts)
    next
      assume "l = 3 \<and> u < 33 \<and> i = 0"
      then show ?thesis
        by (auto simp: x new_trigger_io_def make_l3_nth new_connections new_connections_length
            l3_start_choices_def l3_counter_choices_def Level2LUTs01_def io_counts)
    next
      assume c: "l = 3 \<and> 8 \<le> u \<and> u < 16 \<and> i = 1"
      then show ?thesis
        by (simp add: x new_trigger_io_def make_l3_nth new_connections new_connections_length
            l3_counter_choices_def Level2LUTs01_def Level2LUT2_def io_counts)
    qed
  qed
  then show ?thesis by (simp add: valid_connections_def list_all_iff)
qed

theorem selected_source_witness:
  "\<exists>v. get_connection_value new_trigger_io (3, 9, 1) = Some v \<and> v < length (choices_of (3, 9, 1))
    \<and> get_connection_unit_address new_trigger_io (3, 9, 1) = Some (choices_of (3, 9, 1) ! v)
    \<and> source_ok (3, 9, 1) (choices_of (3, 9, 1) ! v) \<and> lookup_name new_trigger_io (choices_of (3, 9, 1) ! v) \<noteq> None"
  using selected_source [OF new_trigger_io_wf new_valid_connections, of "(3, 9, 1)"]
  by (simp only: dynamic_inputs_iff) simp

text \<open>\<open>get_connection_unit_address\<close> of a static input of a level 2 LUT (inputs 3 to 5) never reaches
  the table of static connections: \<open>get_connection_value\<close>, called first, reads past the three dynamic
  connections of the LUT. A request for an input of timer 2 on level 0 falls into the case of level 1 and
  gives the connection of \<^verbatim>\<open>L1.LUT2\<close>.\<close>

theorem static_input_out_of_bounds:
  assumes "wf_trigger_io cfg" "u < 3" "3 \<le> i" "i < 6"
  shows "get_connection_unit_address cfg (2, u, i) = None
    \<and> at_opt L2_StaticConnections u \<noteq> None
    \<and> get_connection_value cfg (0, 2, j) = get_connection_value cfg (1, 2, j)"
proof -
  have "length (lutConnections (l2 cfg)) = 3" "length (lutConnections (l2 cfg) ! u) = 3"
    using assms(1,2) by (simp_all add: wf_trigger_io_def list_all_length io_counts)
  then have "get_connection_value cfg (2, u, i) = None"
    using assms by (simp add: InputBits_def)
  then show ?thesis
    using assms(2) unfolding get_connection_unit_address.simps by (simp add: L2_StaticConnections_def)
qed

theorem static_input_out_of_bounds_witness:
  "get_connection_unit_address new_trigger_io (2, 1, 4) = None
    \<and> at_opt L2_StaticConnections 1 \<noteq> None
    \<and> get_connection_value new_trigger_io (0, 2, 0) = get_connection_value new_trigger_io (1, 2, 0)"
  by (rule static_input_out_of_bounds [OF new_trigger_io_wf]) simp_all

lemma default_lut_name_nth:
  "u < length luts \<Longrightarrow> wf_lut (luts ! u) \<Longrightarrow> out < OutputBits \<Longrightarrow>
   lut_name (map reset_lut_names luts) u out = Some (default_lut_name luts u out)"
  by (simp add: lut_name_def default_lut_name_def reset_lut_names_def wf_lut_def)

lemma default_lut_name_reset: "default_lut_name (map reset_lut_names luts) = default_lut_name luts"
  by (intro ext) (auto simp: default_lut_name_def reset_lut_names_def)

text \<open>After \<open>reset_names\<close> every unit and every LUT output has its default name, the default names are
  unchanged, resetting again changes nothing, and the connections are kept.\<close>

theorem reset_names_lookup:
  assumes "wf_trigger_io cfg"
    and "level = 0 \<and> unit < length L0_DefaultUnitNames \<or> level = 1 \<and> unit < L1_LUTCount \<and> out < OutputBits
      \<or> level = 2 \<and> unit < L2_LUTCount \<and> out < OutputBits \<or> level = 3 \<and> unit < length L3_DefaultUnitNames"
  shows "lookup_name (reset_names cfg) (level, unit, out) = Some (lookup_default_name cfg (level, unit, out))
    \<and> lookup_default_name (reset_names cfg) (level, unit, out) = lookup_default_name cfg (level, unit, out)
    \<and> reset_names (reset_names cfg) = reset_names cfg
    \<and> get_connection_unit_address (reset_names cfg) x = get_connection_unit_address cfg x"
proof -
  have wf: "unit < length (l1_luts (l1 cfg)) \<Longrightarrow> wf_lut (l1_luts (l1 cfg) ! unit)"
    "unit < length (l2_luts (l2 cfg)) \<Longrightarrow> wf_lut (l2_luts (l2 cfg) ! unit)"
    "length (l1_luts (l1 cfg)) = L1_LUTCount" "length (l2_luts (l2 cfg)) = L2_LUTCount"
    using assms(1) by (auto simp: wf_trigger_io_def list_all_length)
  have 1: "lookup_name (reset_names cfg) (level, unit, out) = Some (lookup_default_name cfg (level, unit, out))"
    using assms(2) wf by (elim disjE) (simp_all add: reset_names_def default_lut_name_nth value_at_def)
  have 2: "lookup_default_name (reset_names cfg) (level, unit, out) = lookup_default_name cfg (level, unit, out)"
    by (simp add: reset_names_def default_lut_name_reset)
  have 3: "reset_names (reset_names cfg) = reset_names cfg"
    by (simp add: reset_names_def reset_lut_names_def)
  have "get_connection_value (reset_names cfg) x = get_connection_value cfg x"
    by (cases x) (simp add: reset_names_def)
  then have "get_connection_unit_address (reset_names cfg) x = get_connection_unit_address cfg x"
    by (cases x) (simp only: get_connection_unit_address.simps)
  with 1 2 3 show ?thesis by blast
qed

theorem reset_names_lookup_witness:
  "lookup_name (reset_names new_trigger_io) (1, 4, 2) = Some (lookup_default_name new_trigger_io (1, 4, 2))
    \<and> lookup_default_name (reset_names new_trigger_io) (1, 4, 2) = lookup_default_name new_trigger_io (1, 4, 2)
    \<and> reset_names (reset_names new_trigger_io) = reset_names new_trigger_io
    \<and> get_connection_unit_address (reset_names new_trigger_io) (3, 0, 0)
      = get_connection_unit_address new_trigger_io (3, 0, 0)"
  by (rule reset_names_lookup [OF new_trigger_io_wf]) (simp add: io_counts)

text \<open>The LUT memory is an array of 64 independent three-bit cells: \<open>lookup\<close> after \<open>set\<close> gives the
  value at the address written and leaves all other cells alone; addresses past 63 and values past 7 are
  the errors the code throws, and nothing else is.\<close>

theorem lut_ram_cells:
  assumes "length ram = 16"
  shows "(if 63 < a then ram_set ram a v = Inl AddressOutOfRange
          else if 7 < v then ram_set ram a v = Inl ValueOutOfRange
          else \<exists>ram'. ram_set ram a v = Inr ram' \<and> length ram' = 16
            \<and> ram_lookup ram' b = (if b = a then Inr v else ram_lookup ram b))
    \<and> (ram_lookup ram a = Inl AddressOutOfRange \<longleftrightarrow> 63 < a)"
proof (cases "63 < a \<or> 7 < v")
  case True
  then show ?thesis by (auto simp: ram_set_def ram_lookup_def Let_def)
next
  case False
  then have valid: "unat a < 64 \<and> unat v < 8" by (auto simp: word_less_nat_alt word_le_nat_alt)
  have set: "ram_set ram a v = Inr (ram_wr ram a v)" using False by (simp add: ram_wr_def ram_set_def Let_def)
  have rd: "ram_rd (ram_wr ram a v) b = (if b = a then v else ram_rd ram b)"
    using ram_store.rd_wr_same [OF assms valid] ram_store.rd_wr_other [OF assms valid] by auto
  have inr: "ram_lookup r b = (if 63 < b then Inl AddressOutOfRange else Inr (ram_rd r b))" for r
    by (simp add: ram_rd_def ram_lookup_def Let_def)
  have "ram_lookup (ram_wr ram a v) b = (if b = a then Inr v else ram_lookup ram b)"
    using rd False by (auto simp: inr)
  then show ?thesis
    using False set ram_store.good_wr [OF assms valid] by (simp add: ram_lookup_def Let_def)
qed

theorem lut_ram_cells_witness:
  "(if 63 < (5 :: u8) then ram_set (replicate 16 0x7777) 5 2 = Inl AddressOutOfRange
    else if 7 < (2 :: u8) then ram_set (replicate 16 0x7777) 5 2 = Inl ValueOutOfRange
    else \<exists>ram'. ram_set (replicate 16 0x7777) 5 2 = Inr ram' \<and> length ram' = 16
      \<and> ram_lookup ram' 6 = (if 6 = (5 :: u8) then Inr 2 else ram_lookup (replicate 16 0x7777) 6))
    \<and> (ram_lookup (replicate 16 0x7777) 5 = Inl AddressOutOfRange \<longleftrightarrow> 63 < (5 :: u8))"
  by (rule lut_ram_cells) simp

end
