(* ===== verification/Vme_Script.thy ===== *)
theory Vme_Script
  imports Prelude
begin

text \<open>
  The commands of a VME script: the data structures of \<^verbatim>\<open>src/src/vme_script.h\<close> and the functions on
  parsed scripts of \<^verbatim>\<open>src/src/vme_script.cc\<close>. A parsed script is a list of commands.
\<close>

record PreparsedLine =
  pl_line :: string
  pl_parts :: "string list"
  pl_lineNumber :: int
  pl_varRefs :: "string set"

definition MetaBlockBegin :: string where "MetaBlockBegin = ''meta_block_begin''"
definition MetaBlockEnd :: string where "MetaBlockEnd = ''meta_block_end''"

record MetaBlock =
  blockBegin :: PreparsedLine
  preparsedLines :: "PreparsedLine list"
  textContents :: string

definition empty_line :: PreparsedLine where
  "empty_line = \<lparr>pl_line = [], pl_parts = [], pl_lineNumber = 0, pl_varRefs = {}\<rparr>"

definition empty_meta_block :: MetaBlock where
  "empty_meta_block = \<lparr>blockBegin = empty_line, preparsedLines = [], textContents = []\<rparr>"

text \<open>\<^verbatim>\<open>QStringList::value\<close> is the empty string out of range.\<close>

definition meta_tag :: "MetaBlock \<Rightarrow> string" where
  "meta_tag block = (case at_opt (pl_parts (blockBegin block)) 1 of None \<Rightarrow> [] | Some t \<Rightarrow> t)"

datatype CommandType =
    CmdInvalid | CmdRead | CmdReadAbs | CmdWrite | CmdWriteAbs | CmdWait | CmdMarker
  | CmdBLT | CmdBLTFifo | CmdMBLT | CmdMBLTFifo | CmdMBLTSwapped | CmdBlk2eSST64
  | CmdSetBase | CmdResetBase | CmdVMUSB_WriteRegister | CmdVMUSB_ReadRegister
  | CmdMVLC_WriteSpecial | CmdMetaBlock | CmdSetVariable | CmdPrint

datatype DataWidth = D16 | D32

datatype Blk2eSSTRate = Rate160MB | Rate276MB | Rate300MB

text \<open>\<^verbatim>\<open>src/src/vme.h\<close>: the address modes the parser produces.\<close>

record Command =
  cmd_type :: CommandType
  addressMode :: u8
  dataWidth :: DataWidth
  cmd_address :: u32
  cmd_value :: u32
  transfers :: u32
  delay_ms :: u32
  countMask :: u32
  blk2eSSTRate :: Blk2eSSTRate
  cmd_warning :: string
  cmd_lineNumber :: int
  metaBlock :: MetaBlock
  printArgs :: "string list"

definition AM_A16 :: u8 where "AM_A16 = 0x2D"
definition AM_A24 :: u8 where "AM_A24 = 0x3D"
definition AM_A32 :: u8 where "AM_A32 = 0x0D"

text \<open>\<^verbatim>\<open>Command()\<close>\<close>

definition new_command :: Command where
  "new_command =
    \<lparr>cmd_type = CmdInvalid, addressMode = AM_A32, dataWidth = D16, cmd_address = 0, cmd_value = 0,
     transfers = 0, delay_ms = 0, countMask = 0, blk2eSSTRate = Rate160MB, cmd_warning = [],
     cmd_lineNumber = 0, metaBlock = empty_meta_block, printArgs = []\<rparr>"

type_synonym VMEScript = "Command list"

fun add_base_address :: "Command \<Rightarrow> u32 \<Rightarrow> Command" where
  "add_base_address cmd baseAddress =
     (if cmd_type cmd \<in> {CmdRead, CmdWrite, CmdBLT, CmdBLTFifo, CmdMBLT, CmdMBLTFifo, CmdMBLTSwapped,
                          CmdBlk2eSST64}
      then cmd\<lparr>cmd_address := cmd_address cmd + baseAddress\<rparr>
      else cmd)"

definition get_first_meta_block :: "VMEScript \<Rightarrow> Command" where
  "get_first_meta_block commands =
     (case find (\<lambda>cmd. cmd_type cmd = CmdMetaBlock) commands of None \<Rightarrow> new_command | Some cmd \<Rightarrow> cmd)"

definition get_first_meta_block_tag :: "VMEScript \<Rightarrow> string" where
  "get_first_meta_block_tag commands = meta_tag (metaBlock (get_first_meta_block commands))"

text \<open>The short form of a write command: an address and a value.\<close>

definition short_write :: "u32 \<Rightarrow> u32 \<Rightarrow> Command" where
  "short_write addr v =
     new_command\<lparr>cmd_type := CmdWrite, addressMode := AM_A32, dataWidth := D16, cmd_address := addr,
       cmd_value := v\<rparr>"

end
