(* ===== verification/Trigger_Script.thy ===== *)
theory Trigger_Script
  imports Trigger_IO Vme_Script "HOL-Library.Monad_Syntax"
begin

text \<open>
  Generation of the Trigger I/O setup script: the first half of
  \<^verbatim>\<open>src/src/mvlc/mvlc_trigger_io_script.cc\<close>. A script is a list of register writes and block
  comments; \<^const>\<open>None\<close> is an access outside a table of connections or names.
\<close>

section \<open>Script parts\<close>

record Write =
  w_address :: u16
  w_value :: u16
  w_comment :: string
  w_options :: u32

definition Opt_HexValue :: u32 where "Opt_HexValue = 1"
definition Opt_BinValue :: u32 where "Opt_BinValue = 2"

datatype ScriptPart = PWrite Write | PBlock string

type_synonym ScriptParts = "ScriptPart list"

definition StrobeGGIOOffset :: nat where "StrobeGGIOOffset = 0x32"

definition select_unit :: "nat \<Rightarrow> nat \<Rightarrow> ScriptPart" where
  "select_unit level unit =
     PWrite \<lparr>w_address = 0x0200, w_value = of_nat (push_bit 8 level OR unit),
       w_comment = ''select L'' @ show_dec level @ ''.Unit'' @ show_dec unit, w_options = Opt_HexValue\<rparr>"

definition write_unit_reg :: "nat \<Rightarrow> u16 \<Rightarrow> string \<Rightarrow> u32 \<Rightarrow> ScriptPart" where
  "write_unit_reg reg v comment opts =
     PWrite \<lparr>w_address = of_nat (0x0300 + reg), w_value = v, w_comment = comment, w_options = opts\<rparr>"

text \<open>\<open>CHR 0x27\<close> is the single quote.\<close>

definition quoted :: "string \<Rightarrow> string" where
  "quoted name = [CHR 0x27] @ name @ [CHR 0x27]"

definition write_connection :: "nat \<Rightarrow> nat \<Rightarrow> string \<Rightarrow> ScriptPart" where
  "write_connection offset v sourceName =
     PWrite \<lparr>w_address = of_nat (0x0380 + offset), w_value = of_nat v,
       w_comment = (if sourceName \<noteq> []
         then ''connect input'' @ show_dec (offset div 2) @ '' to '' @ quoted sourceName else []),
       w_options = 0\<rparr>"

definition write_strobe_connection :: "nat \<Rightarrow> nat \<Rightarrow> string \<Rightarrow> ScriptPart" where
  "write_strobe_connection offset v sourceName =
     PWrite \<lparr>w_address = of_nat (0x0380 + offset), w_value = of_nat v,
       w_comment = (if sourceName \<noteq> [] then ''connect strobe_input to '' @ quoted sourceName else []),
       w_options = 0\<rparr>"

section \<open>Units\<close>

definition gen_Timer :: "Timer \<Rightarrow> ScriptParts" where
  "gen_Timer unit =
     [write_unit_reg 2 (t_range unit) ''range (0:ns, 1:us, 2:ms, 3:s)'' 0,
      write_unit_reg 4 (t_delay_ns unit) ''delay [ns]'' 0,
      write_unit_reg 6 (t_period unit) ''period [in range units]'' 0]"

definition HasDirection :: u8 where "HasDirection = 1"
definition HasActivation :: u8 where "HasActivation = 2"
definition NoFlags :: u8 where "NoFlags = 0"
definition NIM_IO_Flags :: u8 where "NIM_IO_Flags = HasDirection OR HasActivation"
definition ECL_IO_Flags :: u8 where "ECL_IO_Flags = HasActivation"

definition gen_IO :: "IO \<Rightarrow> u8 \<Rightarrow> nat \<Rightarrow> ScriptParts" where
  "gen_IO io ioFlags offset =
     [write_unit_reg (offset + 0) (io_delay io) ''delay [ns]'' 0,
      write_unit_reg (offset + 2) (io_width io) ''width [ns]'' 0,
      write_unit_reg (offset + 4) (io_holdoff io) ''holdoff [ns]'' 0,
      write_unit_reg (offset + 6) (of_bool (io_invert io)) ''invert (start on trailing edge of input)'' 0]
     @ (if ioFlags AND HasDirection \<noteq> 0
        then [write_unit_reg (offset + 10) (io_direction io) ''direction (0:in, 1:out)'' 0] else [])
     @ (if ioFlags AND HasActivation \<noteq> 0
        then [write_unit_reg (offset + 16) (of_bool (io_activate io)) ''output activate'' 0] else [])"

fun prefix_comment :: "ScriptPart \<Rightarrow> ScriptPart" where
  "prefix_comment (PWrite w) = PWrite (w\<lparr>w_comment := ''slave_trigger: '' @ w_comment w\<rparr>)"
| "prefix_comment (PBlock c) = PBlock c"

definition gen_TriggerResource :: "TriggerResource \<Rightarrow> ScriptParts" where
  "gen_TriggerResource unit =
     [write_unit_reg 0x80 (ucast (tr_type unit)) ''type: 0=IRQ, 1=SoftTrigger, 2=SlaveTrigger'' 0,
      write_unit_reg 0 (ucast (irqIndex (irqUtil unit))) ''irq_index (zero-based: 0: IRQ1, .., 6: IRQ7)'' 0]
     @ map prefix_comment (gen_IO (gateGenerator (slaveTrigger unit)) NoFlags 6)
     @ [write_unit_reg 0x82 (ucast (triggerIndex (slaveTrigger unit))) ''slave trigger number (0..3)'' 0]"

definition gen_StackBusy :: "StackBusy \<Rightarrow> ScriptParts" where
  "gen_StackBusy unit = [write_unit_reg 0 (sb_stackIndex unit) ''stack_index'' 0]"

text \<open>\<open>make_lut_ram\<close>: the three output tables become the three bits of every memory cell.\<close>

definition lut_cell :: "Bitmap list \<Rightarrow> nat \<Rightarrow> u32" where
  "lut_cell contents address =
     fold (\<lambda>output v. if bit (contents ! output) address then v OR push_bit output 1 else v)
       [0..<length contents] 0"

definition make_lut_ram :: "LUT \<Rightarrow> ram_error + LUT_RAM" where
  "make_lut_ram lut =
     fold (\<lambda>address res. bind_err res
         (\<lambda>ram. ram_set ram (of_nat address) (ucast (lut_cell (lutContents lut) address))))
       [0..<InputCombinations] (Inr (replicate 16 0))"

definition write_lut_ram :: "LUT_RAM \<Rightarrow> ScriptParts" where
  "write_lut_ram ram =
     map (\<lambda>(i, v).
         let reg = i * 2; cell = reg * 2
         in write_unit_reg reg v (''cells '' @ show_dec cell @ ''-'' @ show_dec (cell + 3)) Opt_HexValue)
       (indexed 0 ram)"

definition write_lut :: "LUT \<Rightarrow> ScriptParts option" where
  "write_lut lut = (case make_lut_ram lut of Inl _ \<Rightarrow> None | Inr ram \<Rightarrow> Some (write_lut_ram ram))"

definition gen_StackStart :: "StackStart \<Rightarrow> ScriptParts" where
  "gen_StackStart unit =
     [write_unit_reg 0 (of_bool (ss_activate unit)) ''activate'' 0,
      write_unit_reg 2 (ucast (ss_stackIndex unit)) ''stack index'' 0,
      write_unit_reg 4 (ss_delay_ns unit) ''delay [ns]'' 0]"

definition gen_MasterTrigger :: "MasterTrigger \<Rightarrow> ScriptParts" where
  "gen_MasterTrigger unit = [write_unit_reg 0 (of_bool (mt_activate unit)) ''activate'' 0]"

definition gen_Counter :: "Counter \<Rightarrow> ScriptParts" where
  "gen_Counter unit = [write_unit_reg 14 (of_bool (c_clearOnLatch unit)) ''clear on latch'' 0]"

section \<open>The script\<close>

text \<open>A unit's section: its name as a block comment, its selection and its writes; and the loop over the
  units of one kind, whose numbers start at an offset.\<close>

definition unit_section :: "string option \<Rightarrow> nat \<Rightarrow> nat \<Rightarrow> ScriptParts option \<Rightarrow> ScriptParts option" where
  "unit_section name level unit body =
     do { n \<leftarrow> name; parts \<leftarrow> body; Some ([PBlock n, select_unit level unit] @ parts) }"

definition unit_sections ::
  "nat \<Rightarrow> nat \<Rightarrow> (nat \<Rightarrow> string option) \<Rightarrow> (nat \<Rightarrow> 'a \<Rightarrow> ScriptParts option) \<Rightarrow> 'a list \<Rightarrow> ScriptParts option"
where
  "unit_sections level offset name gen units =
     map_option concat
       (map_opt (\<lambda>(i, x). unit_section (name (i + offset)) level (i + offset) (gen (i + offset) x))
         (indexed 0 units))"

text \<open>A write of a connection register, with the name of the selected source as comment.\<close>

definition connect_with ::
  "(nat \<Rightarrow> nat \<Rightarrow> string \<Rightarrow> ScriptPart) \<Rightarrow> TriggerIO \<Rightarrow> nat \<Rightarrow> nat option \<Rightarrow> UnitAddress list option \<Rightarrow>
   ScriptParts option"
where
  "connect_with write cfg regOffset value choices =
     do { conValue \<leftarrow> value; cs \<leftarrow> choices; conAddress \<leftarrow> at_opt cs conValue;
          name \<leftarrow> lookup_name cfg conAddress; Some [write regOffset conValue name] }"

definition gen_l1_lut :: "TriggerIO \<Rightarrow> nat \<Rightarrow> LUT \<Rightarrow> ScriptParts option" where
  "gen_l1_lut cfg unit lut =
     do { ram \<leftarrow> write_lut lut;
          cons \<leftarrow> (if unit = 2
            then map_option concat (map_opt (\<lambda>input.
                   connect_with write_connection cfg (input * 2)
                     (at_opt (lut2Connections (l1 cfg)) input) (at_opt LUT2DynamicInputChoices input))
                 [0..<LUT_DynamicInputCount])
            else Some []);
          Some (ram @ cons) }"

definition gen_l2_lut :: "TriggerIO \<Rightarrow> nat \<Rightarrow> LUT \<Rightarrow> ScriptParts option" where
  "gen_l2_lut cfg unit lut =
     do { ram \<leftarrow> write_lut lut;
          choices \<leftarrow> at_opt make_l2_input_choices unit;
          cons \<leftarrow> map_option concat (map_opt (\<lambda>input.
                   connect_with write_connection cfg (input * 2)
                     (do { cs \<leftarrow> at_opt (lutConnections (l2 cfg)) unit; at_opt cs input })
                     (at_opt (lutChoices choices) input))
                 [0..<LUT_DynamicInputCount]);
          strobe \<leftarrow> connect_with write_strobe_connection cfg 6
                      (at_opt (strobeConnections (l2 cfg)) unit) (Some (strobeChoices choices));
          Some (ram @ [write_unit_reg 0x20 (ucast (strobedOutputs lut)) ''strobed_outputs'' Opt_BinValue]
                @ cons
                @ [PBlock (''L2.LUT'' @ show_dec unit @ '' strobe gate generator'')]
                @ gen_IO (strobeGG lut) NoFlags StrobeGGIOOffset @ strobe) }"

text \<open>The connection of input \<open>input\<close> of a level 3 unit.\<close>

definition l3_connect :: "TriggerIO \<Rightarrow> nat \<Rightarrow> nat \<Rightarrow> ScriptParts option" where
  "l3_connect cfg unit input =
     connect_with write_connection cfg (2 * input)
       (do { cs \<leftarrow> at_opt (connections (l3 cfg)) unit; at_opt cs input })
       (do { lists \<leftarrow> at_opt make_l3_input_choices unit; at_opt lists input })"

definition gen_l3_unit :: "TriggerIO \<Rightarrow> nat \<Rightarrow> ScriptParts \<Rightarrow> nat list \<Rightarrow> ScriptParts option" where
  "gen_l3_unit cfg unit parts inputs =
     do { cons \<leftarrow> map_option concat (map_opt (l3_connect cfg unit) inputs); Some (parts @ cons) }"

definition gen_level0 :: "TriggerIO \<Rightarrow> ScriptParts option" where
  "gen_level0 cfg =
     do { a \<leftarrow> unit_sections 0 0 (at_opt L0_DefaultUnitNames) (\<lambda>_ u. Some (gen_Timer u)) (timers (l0 cfg));
          b \<leftarrow> unit_sections 0 TriggerResourceOffset (at_opt L0_DefaultUnitNames)
                 (\<lambda>_ u. Some (gen_TriggerResource u)) (triggerResources (l0 cfg));
          c \<leftarrow> unit_sections 0 StackBusyOffset (at_opt L0_DefaultUnitNames)
                 (\<lambda>_ u. Some (gen_StackBusy u)) (stackBusy (l0 cfg));
          d \<leftarrow> unit_sections 0 NIM_IO_Offset (at_opt L0_DefaultUnitNames)
                 (\<lambda>_ u. Some (gen_IO u NIM_IO_Flags 0)) (ioNIM (l0 cfg));
          e \<leftarrow> unit_sections 0 IRQ_Inputs_Offset (at_opt L0_DefaultUnitNames)
                 (\<lambda>_ u. Some (gen_IO u NoFlags 0)) (ioIRQ (l0 cfg));
          Some ([PBlock ''Level0 #####################################################'']
                @ a @ b @ c @ d @ e) }"

definition gen_level1 :: "TriggerIO \<Rightarrow> ScriptParts option" where
  "gen_level1 cfg =
     do { a \<leftarrow> unit_sections 1 0 (\<lambda>u. Some (''L1.LUT'' @ show_dec u)) (gen_l1_lut cfg) (l1_luts (l1 cfg));
          Some ([PBlock ''Level1 #####################################################''] @ a) }"

definition gen_level2 :: "TriggerIO \<Rightarrow> ScriptParts option" where
  "gen_level2 cfg =
     do { a \<leftarrow> unit_sections 2 0 (\<lambda>u. Some (''L2.LUT'' @ show_dec u)) (gen_l2_lut cfg) (l2_luts (l2 cfg));
          Some ([PBlock ''Level2 #####################################################''] @ a) }"

definition gen_level3 :: "TriggerIO \<Rightarrow> ScriptParts option" where
  "gen_level3 cfg =
     do { a \<leftarrow> unit_sections 3 0 (at_opt L3_DefaultUnitNames)
                 (\<lambda>u x. gen_l3_unit cfg u (gen_StackStart x) [0]) (stackStart (l3 cfg));
          b \<leftarrow> unit_sections 3 MasterTriggersOffset (at_opt L3_DefaultUnitNames)
                 (\<lambda>u x. gen_l3_unit cfg u (gen_MasterTrigger x) [0]) (masterTriggers (l3 cfg));
          c \<leftarrow> unit_sections 3 CountersOffset (at_opt L3_DefaultUnitNames)
                 (\<lambda>u x. gen_l3_unit cfg u (gen_Counter x) [0, 1]) (counters (l3 cfg));
          d \<leftarrow> unit_sections 3 NIM_IO_Unit_Offset (at_opt L3_DefaultUnitNames)
                 (\<lambda>u x. gen_l3_unit cfg u [] [0]) [0..<NIM_IO_Count];
          e \<leftarrow> unit_sections 3 ECL_Unit_Offset (at_opt L3_DefaultUnitNames)
                 (\<lambda>u x. gen_l3_unit cfg u (gen_IO x ECL_IO_Flags 0) [0]) (ioECL (l3 cfg));
          Some ([PBlock ''Level3 #####################################################''] @ a @ b @ c
                @ [PBlock ''NIM unit connections (Note: NIM setup is done in the Level0 section)''] @ d @ e) }"

definition generate_trigger_io_script :: "TriggerIO \<Rightarrow> ScriptParts option" where
  "generate_trigger_io_script cfg =
     do { a \<leftarrow> gen_level0 cfg; b \<leftarrow> gen_level1 cfg; c \<leftarrow> gen_level2 cfg; d \<leftarrow> gen_level3 cfg;
          Some (a @ b @ c @ d) }"

section \<open>Lines of text\<close>

definition write_line :: "Write \<Rightarrow> string" where
  "write_line w =
     (let (prefix, width, base, fill) =
        (if w_options w AND Opt_HexValue \<noteq> 0 then (''0x'', 4, 16, CHR ''0'')
         else if w_options w AND Opt_BinValue \<noteq> 0 then (''0b'', 4, 2, CHR ''0'')
         else ([], 6, 10, CHR '' ''))
      in ''0x'' @ show_padded (unat (w_address w)) 4 16 (CHR ''0'') @ '' '' @ prefix
         @ show_padded (unat (w_value w)) width base fill
         @ (if w_comment w \<noteq> [] then ''    # '' @ w_comment w else []))"

fun part_lines :: "ScriptPart \<Rightarrow> string list" where
  "part_lines (PWrite w) = [write_line w]"
| "part_lines (PBlock comment) = (if comment \<noteq> [] then [[], ''# '' @ comment] else [])"

section \<open>Meta information\<close>

text \<open>What is handed to the YAML emitter: scalars and maps with string or number keys. The emitter itself
  belongs to yaml-cpp and is a parameter.\<close>

datatype YKey = KStr string | KNum nat

datatype YNode = YString string | YBool bool | YMap "(YKey \<times> YNode) list"

definition MetaIncludeDefaultUnitNames :: u8 where "MetaIncludeDefaultUnitNames = 1"

definition include_name :: "u8 \<Rightarrow> string \<Rightarrow> string \<Rightarrow> bool" where
  "include_name flags name d \<longleftrightarrow> name \<noteq> d \<or> flags AND MetaIncludeDefaultUnitNames \<noteq> 0"

definition yaml_names :: "(nat \<times> string) list \<Rightarrow> YNode" where
  "yaml_names m = YMap (map (\<lambda>(i, n). (KNum i, YString n)) m)"

definition meta_level0 :: "TriggerIO \<Rightarrow> u8 \<Rightarrow> (nat \<times> string) list" where
  "meta_level0 cfg flags =
     map (\<lambda>(i, d). (i, value_at (l0_unitNames (l0 cfg)) i))
       (filter (\<lambda>(i, d). d \<noteq> UnitNotAvailable \<and> include_name flags (value_at (l0_unitNames (l0 cfg)) i) d)
         (indexed 0 L0_DefaultUnitNames))"

definition meta_lut :: "nat \<Rightarrow> u8 \<Rightarrow> nat \<Rightarrow> LUT \<Rightarrow> (nat \<times> string) list" where
  "meta_lut level flags unit lut =
     filter (\<lambda>(output, n). include_name flags n (lut_output_name level unit output))
       (indexed 0 (outputNames lut))"

definition meta_luts :: "nat \<Rightarrow> u8 \<Rightarrow> LUT list \<Rightarrow> (nat \<times> (nat \<times> string) list) list" where
  "meta_luts level flags luts =
     filter (\<lambda>(unit, m). m \<noteq> []) (map (\<lambda>(unit, lut). (unit, meta_lut level flags unit lut)) (indexed 0 luts))"

definition is_l3_nim :: "nat \<Rightarrow> bool" where
  "is_l3_nim unit \<longleftrightarrow> NIM_IO_Unit_Offset \<le> unit \<and> unit < NIM_IO_Unit_Offset + NIM_IO_Count"

definition meta_level3 :: "TriggerIO \<Rightarrow> u8 \<Rightarrow> (nat \<times> string) list" where
  "meta_level3 cfg flags =
     map (\<lambda>(i, d). (i, value_at (l3_unitNames (l3 cfg)) i))
       (filter (\<lambda>(i, d). \<not> is_l3_nim i \<and> d \<noteq> UnitNotAvailable
                  \<and> include_name flags (value_at (l3_unitNames (l3 cfg)) i) d)
         (indexed 0 L3_DefaultUnitNames))"

definition soft_activate_map :: "nat \<Rightarrow> bool list \<Rightarrow> YNode" where
  "soft_activate_map offset flags =
     YMap (map (\<lambda>(i, b). (KNum i, YMap [(KStr ''soft_activate'', YBool b)])) (indexed offset flags))"

definition yaml_luts :: "(nat \<times> (nat \<times> string) list) list \<Rightarrow> YNode" where
  "yaml_luts m = YMap (map (\<lambda>(unit, names). (KNum unit, yaml_names names)) m)"

text \<open>A level's entry is left out when its map is empty.\<close>

definition unless_empty :: "string \<Rightarrow> ('a list \<Rightarrow> YNode) \<Rightarrow> 'a list \<Rightarrow> (YKey \<times> YNode) list" where
  "unless_empty key node m = (if m \<noteq> [] then [(KStr key, node m)] else [])"

definition generate_mvlc_meta_block :: "TriggerIO \<Rightarrow> u8 \<Rightarrow> YNode" where
  "generate_mvlc_meta_block cfg flags =
     YMap
      [(KStr ''names'', YMap (
          unless_empty ''level0'' yaml_names (meta_level0 cfg flags)
          @ unless_empty ''level1'' yaml_luts (meta_luts 1 flags (l1_luts (l1 cfg)))
          @ unless_empty ''level2'' yaml_luts (meta_luts 2 flags (l2_luts (l2 cfg)))
          @ unless_empty ''level3'' yaml_names (meta_level3 cfg flags))),
       (KStr ''settings'', YMap
          [(KStr ''level0'', soft_activate_map 0 (map t_softActivate (timers (l0 cfg)))),
           (KStr ''level3'', soft_activate_map CountersOffset (map c_softActivate (counters (l3 cfg))))])]"

definition MetaTagMVLCTriggerIO :: string where "MetaTagMVLCTriggerIO = ''mvlc_trigger_io''"

definition MVLC_VME_InterfaceAddress :: u32 where "MVLC_VME_InterfaceAddress = 0xffff0000"

definition script_head :: "string list" where
  "script_head =
    [''##############################################################'',
     ''# MVLC Trigger I/O  setup via internal VME interface         #'',
     ''##############################################################'',
     [],
     ''# Note: This file was generated by mvme. Editing existing'',
     ''# values is allowed and these changes will used by mvme'',
     ''# when next parsing the script. Changes to the basic'',
     ''# structure, like adding new write or read commands, are not'',
     ''# allowed. These changes will be lost the next time the file'',
     ''# is modified by mvme.'',
     [],
     ''# Internal MVLC VME interface address'',
     ''setbase 0x'' @ show_padded (unat MVLC_VME_InterfaceAddress) 8 16 (CHR ''0'')]"

definition script_tail :: "string \<Rightarrow> string list" where
  "script_tail meta =
    [[],
     ''##############################################################'',
     ''# MVLC Trigger I/O specific meta information                 #'',
     ''##############################################################'',
     MetaBlockBegin @ '' '' @ MetaTagMVLCTriggerIO,
     meta,
     MetaBlockEnd]"

definition generate_trigger_io_script_text :: "(YNode \<Rightarrow> string) \<Rightarrow> TriggerIO \<Rightarrow> u8 \<Rightarrow> string option" where
  "generate_trigger_io_script_text emit cfg flags =
     do { parts \<leftarrow> generate_trigger_io_script cfg;
          Some (join_lines (script_head @ concat (map part_lines parts)
                            @ script_tail (emit (generate_mvlc_meta_block cfg flags)))) }"

end
