(* ===== verification/Trigger_Parse.thy ===== *)
theory Trigger_Parse
  imports Trigger_Script
begin

text \<open>
  Reading a Trigger I/O setup script back: the second half of
  \<^verbatim>\<open>src/src/mvlc/mvlc_trigger_io_script.cc\<close>. The register writes of the script are collected per
  level, unit and register, the configuration is built from them, and the meta block supplies names and
  soft activation flags. The YAML library is a parameter: a record of the operations the code calls.
\<close>

section \<open>Register writes\<close>

type_synonym RegisterWrites = "u16 \<rightharpoonup> u16"
type_synonym UnitWrites = "u16 \<rightharpoonup> RegisterWrites"
type_synonym LevelWrites = "UnitWrites list"

definition LevelCount :: nat where "LevelCount = 4"
definition UnitSelectRegister :: u32 where "UnitSelectRegister = 0x200"
definition UnitRegisterBase :: u32 where "UnitRegisterBase = 0x300"
definition UnitConnectBase :: nat where "UnitConnectBase = 0x80"

text \<open>\<^verbatim>\<open>QMap::operator[]\<close> on constant maps: a missing register is 0, a missing unit has no writes.\<close>

definition reg :: "RegisterWrites \<Rightarrow> nat \<Rightarrow> u16" where
  "reg writes r = map_rd 0 writes (of_nat r)"

definition unit_writes :: "UnitWrites \<Rightarrow> nat \<Rightarrow> RegisterWrites" where
  "unit_writes writes u = map_rd Map.empty writes (of_nat u)"

definition parse_io :: "RegisterWrites \<Rightarrow> nat \<Rightarrow> IO" where
  "parse_io writes offset =
     \<lparr>io_delay = reg writes (offset + 0), io_width = reg writes (offset + 2),
      io_holdoff = reg writes (offset + 4), io_invert = (reg writes (offset + 6) \<noteq> 0),
      io_direction = reg writes (offset + 10), io_activate = (reg writes (offset + 16) \<noteq> 0)\<rparr>"

definition parse_lut_ram :: "RegisterWrites \<Rightarrow> LUT_RAM" where
  "parse_lut_ram writes = map (\<lambda>line. reg writes (line * 2)) [0..<16]"

text \<open>The bits of a memory cell go to the output tables.\<close>

definition assign_bit :: "nat \<Rightarrow> bool \<Rightarrow> Bitmap \<Rightarrow> Bitmap" where
  "assign_bit n b w = (if b then set_bit n w else unset_bit n w)"

definition distribute_cell :: "nat \<Rightarrow> u8 \<Rightarrow> Bitmap list \<Rightarrow> Bitmap list" where
  "distribute_cell address ramValue contents =
     map (\<lambda>(output, w). assign_bit address (drop_bit output ramValue AND 1 \<noteq> 0) w) (indexed 0 contents)"

definition parse_lut_contents :: "LUT_RAM \<Rightarrow> ram_error + Bitmap list" where
  "parse_lut_contents ram =
     fold (\<lambda>address res. bind_err res (\<lambda>contents.
         bind_err (ram_lookup ram (of_nat address)) (\<lambda>v. Inr (distribute_cell address v contents))))
       [0..<InputCombinations] (Inr (replicate OutputBits 0))"

definition parse_lut :: "RegisterWrites \<Rightarrow> string list \<Rightarrow> string list \<Rightarrow> ram_error + LUT" where
  "parse_lut writes names defaultNames =
     bind_err (parse_lut_contents (parse_lut_ram writes)) (\<lambda>contents.
       let io = parse_io writes StrobeGGIOOffset
       in Inr \<lparr>lutContents = contents, strobedOutputs = ucast (reg writes 0x20),
               strobeGG = (if io_width io = 0 then io\<lparr>io_width := StrobeGGDefaultWidth\<rparr> else io),
               defaultOutputNames = defaultNames, outputNames = names\<rparr>)"

section \<open>The configuration of a set of writes\<close>

definition parse_timer :: "Timer \<Rightarrow> RegisterWrites \<Rightarrow> Timer" where
  "parse_timer unit w = unit\<lparr>t_range := reg w 2, t_delay_ns := reg w 4, t_period := reg w 6\<rparr>"

definition parse_trigger_resource :: "RegisterWrites \<Rightarrow> TriggerResource" where
  "parse_trigger_resource w =
     \<lparr>tr_type = ucast (reg w 0x80), irqUtil = \<lparr>irqIndex = ucast (reg w 0)\<rparr>,
      slaveTrigger = \<lparr>gateGenerator = parse_io w 6, triggerIndex = ucast (reg w 0x82)\<rparr>\<rparr>"

definition parse_level0 :: "UnitWrites \<Rightarrow> Level0 \<Rightarrow> Level0" where
  "parse_level0 writes l =
     l\<lparr>timers := map (\<lambda>(i, u). parse_timer u (unit_writes writes i)) (indexed 0 (timers l)),
       triggerResources := map (\<lambda>(i, u). parse_trigger_resource (unit_writes writes (i + TriggerResourceOffset)))
         (indexed 0 (triggerResources l)),
       stackBusy := map (\<lambda>(i, u). \<lparr>sb_stackIndex = reg (unit_writes writes (i + StackBusyOffset)) 0\<rparr>)
         (indexed 0 (stackBusy l)),
       ioNIM := map (\<lambda>(i, u). parse_io (unit_writes writes (i + NIM_IO_Offset)) 0) (indexed 0 (ioNIM l)),
       ioIRQ := map (\<lambda>(i, u). parse_io (unit_writes writes (i + IRQ_Inputs_Offset)) 0) (indexed 0 (ioIRQ l))\<rparr>"

definition parse_luts :: "UnitWrites \<Rightarrow> LUT list \<Rightarrow> ram_error + LUT list" where
  "parse_luts writes luts =
     map_err (\<lambda>(i, u). parse_lut (unit_writes writes i) (outputNames u) (defaultOutputNames u)) (indexed 0 luts)"

definition read_connection :: "RegisterWrites \<Rightarrow> nat \<Rightarrow> nat" where
  "read_connection w input = unat (reg w (UnitConnectBase + 2 * input))"

definition parse_level1 :: "UnitWrites \<Rightarrow> Level1 \<Rightarrow> ram_error + Level1" where
  "parse_level1 writes l =
     bind_err (parse_luts writes (l1_luts l)) (\<lambda>luts.
       Inr (l\<lparr>l1_luts := luts,
              lut2Connections := (if 2 < length (l1_luts l)
                then map (read_connection (unit_writes writes 2)) [0..<LUT_DynamicInputCount]
                else lut2Connections l)\<rparr>))"

definition parse_level2 :: "UnitWrites \<Rightarrow> Level2 \<Rightarrow> ram_error + Level2" where
  "parse_level2 writes l =
     bind_err (parse_luts writes (l2_luts l)) (\<lambda>luts.
       Inr (l\<lparr>l2_luts := luts,
              lutConnections := map (\<lambda>(i, _). map (read_connection (unit_writes writes i)) [0..<LUT_DynamicInputCount])
                (indexed 0 luts),
              strobeConnections := map (\<lambda>(i, _). read_connection (unit_writes writes i) 3) (indexed 0 luts)\<rparr>))"

text \<open>Sets the connections of the units of one kind.\<close>

definition set_connections :: "UnitWrites \<Rightarrow> nat \<Rightarrow> nat \<Rightarrow> nat list \<Rightarrow> nat list list \<Rightarrow> nat list list" where
  "set_connections writes offset count inputs cons =
     fold (\<lambda>unit cs. cs[unit := map (read_connection (unit_writes writes unit)) inputs])
       [offset..<offset + count] cons"

definition parse_level3 :: "UnitWrites \<Rightarrow> IO list \<Rightarrow> Level3 \<Rightarrow> Level3" where
  "parse_level3 writes nims l =
     (let unit_at = (\<lambda>offset i. unit_writes writes (i + offset))
      in l\<lparr>l3_ioNIM := nims,
           stackStart := map (\<lambda>(i, u). let w = unit_at 0 i
             in \<lparr>ss_activate = (reg w 0 \<noteq> 0), ss_stackIndex = ucast (reg w 2), ss_delay_ns = reg w 4\<rparr>)
             (indexed 0 (stackStart l)),
           masterTriggers := map (\<lambda>(i, u). \<lparr>mt_activate = (reg (unit_at MasterTriggersOffset i) 0 \<noteq> 0)\<rparr>)
             (indexed 0 (masterTriggers l)),
           counters := map (\<lambda>(i, u). u\<lparr>c_clearOnLatch := (reg (unit_at CountersOffset i) 14 \<noteq> 0)\<rparr>)
             (indexed 0 (counters l)),
           ioECL := map (\<lambda>(i, u). parse_io (unit_at ECL_Unit_Offset i) 0) (indexed 0 (ioECL l)),
           connections :=
             set_connections writes ECL_Unit_Offset (length (ioECL l)) [0]
             (set_connections writes NIM_IO_Unit_Offset (length nims) [0]
             (set_connections writes CountersOffset (length (counters l)) [0, 1]
             (set_connections writes MasterTriggersOffset (length (masterTriggers l)) [0]
             (set_connections writes 0 (length (stackStart l)) [0] (connections l)))))\<rparr>)"

definition build_config_from_writes :: "LevelWrites \<Rightarrow> ram_error + TriggerIO" where
  "build_config_from_writes levelWrites =
     (let cfg = new_trigger_io;
          l0' = parse_level0 (levelWrites ! 0) (l0 cfg)
      in bind_err (parse_level1 (levelWrites ! 1) (l1 cfg)) (\<lambda>l1'.
         bind_err (parse_level2 (levelWrites ! 2) (l2 cfg)) (\<lambda>l2'.
         Inr \<lparr>l0 = l0', l1 = l1', l2 = l2', l3 = parse_level3 (levelWrites ! 3) (ioNIM l0') (l3 cfg)\<rparr>)))"

section \<open>Collecting the writes\<close>

type_synonym script_state = "u16 \<times> u16 \<times> LevelWrites"

definition store_write :: "LevelWrites \<Rightarrow> u16 \<Rightarrow> u16 \<Rightarrow> u16 \<Rightarrow> u16 \<Rightarrow> LevelWrites" where
  "store_write writes level unit address v =
     (let units = writes ! unat level; regs = map_rd Map.empty units unit
      in writes[unat level := units(unit \<mapsto> regs(address \<mapsto> v))])"

definition script_step :: "Command \<Rightarrow> script_state \<Rightarrow> script_state" where
  "script_step cmd st =
     (let (level, unit, writes) = st
      in if cmd_type cmd \<noteq> CmdWrite then st
         else
           (let address = cmd_address cmd AND NOT MVLC_VME_InterfaceAddress
            in if address = UnitSelectRegister
               then (ucast (drop_bit 8 (cmd_value cmd) AND 3), ucast (cmd_value cmd AND 0xff), writes)
               else if unat level < length writes
               then (level, unit,
                 store_write writes level unit (ucast (address - UnitRegisterBase)) (ucast (cmd_value cmd)))
               else st))"

definition collect_writes :: "VMEScript \<Rightarrow> LevelWrites" where
  "collect_writes commands =
     snd (snd (fold script_step commands (0, 0, replicate LevelCount Map.empty)))"

section \<open>The meta block\<close>

text \<open>What the code uses of yaml-cpp: loading a document, looking up a key (the node may be missing),
  conversions to string and bool. Exceptions of the library are the error summand.\<close>

datatype yaml_error = YamlException

record 'n YamlLib =
  yl_load :: "string \<Rightarrow> yaml_error + 'n"
  yl_sub :: "'n \<Rightarrow> YKey \<Rightarrow> yaml_error + 'n option"
  yl_string :: "'n \<Rightarrow> yaml_error + string"
  yl_bool :: "'n \<Rightarrow> yaml_error + bool"

text \<open>\<open>if (node[key]) name = y_to_qstr(node[key])\<close>\<close>

definition sub_name :: "'n YamlLib \<Rightarrow> 'n \<Rightarrow> nat \<Rightarrow> string \<Rightarrow> yaml_error + string" where
  "sub_name yaml node i name =
     bind_err (yl_sub yaml node (KNum i)) (\<lambda>s. case s of None \<Rightarrow> Inr name | Some n \<Rightarrow> yl_string yaml n)"

definition sub_names :: "'n YamlLib \<Rightarrow> 'n \<Rightarrow> (nat \<Rightarrow> bool) \<Rightarrow> string list \<Rightarrow> yaml_error + string list" where
  "sub_names yaml node skip names =
     map_err (\<lambda>(i, n). if skip i then Inr n else sub_name yaml node i n) (indexed 0 names)"

definition meta_read_level0 :: "'n YamlLib \<Rightarrow> 'n option \<Rightarrow> TriggerIO \<Rightarrow> yaml_error + TriggerIO" where
  "meta_read_level0 yaml yNames cfg =
     (case yNames of None \<Rightarrow> Inr cfg
      | Some y \<Rightarrow>
          bind_err (sub_names yaml y (\<lambda>_. False) (l0_unitNames (l0 cfg))) (\<lambda>names.
            Inr (cfg\<lparr>l0 := (l0 cfg)\<lparr>l0_unitNames := names\<rparr>,
                     l3 := (l3 cfg)\<lparr>l3_unitNames :=
                       map (\<lambda>(i, n). if is_l3_nim i \<and> i < length names then names ! i else n)
                         (indexed 0 (l3_unitNames (l3 cfg)))\<rparr>\<rparr>)))"

definition meta_read_lut :: "'n YamlLib \<Rightarrow> 'n \<Rightarrow> nat \<times> LUT \<Rightarrow> yaml_error + LUT" where
  "meta_read_lut yaml yUnitMaps = (\<lambda>(unit, lut).
     bind_err (yl_sub yaml yUnitMaps (KNum unit)) (\<lambda>s. case s of None \<Rightarrow> Inr lut
       | Some y \<Rightarrow> bind_err (sub_names yaml y (\<lambda>_. False) (outputNames lut))
                    (\<lambda>names. Inr (lut\<lparr>outputNames := names\<rparr>))))"

definition meta_read_luts :: "'n YamlLib \<Rightarrow> 'n option \<Rightarrow> LUT list \<Rightarrow> yaml_error + LUT list" where
  "meta_read_luts yaml yUnitMaps luts =
     (case yUnitMaps of None \<Rightarrow> Inr luts | Some y \<Rightarrow> map_err (meta_read_lut yaml y) (indexed 0 luts))"

definition meta_read_level3 :: "'n YamlLib \<Rightarrow> 'n option \<Rightarrow> string list \<Rightarrow> yaml_error + string list" where
  "meta_read_level3 yaml yNames names =
     (case yNames of None \<Rightarrow> Inr names | Some y \<Rightarrow> sub_names yaml y is_l3_nim names)"

text \<open>\<open>node[unit]["soft_activate"].as<bool>()\<close>; any exception leaves the setting as it is.\<close>

definition soft_activate_of :: "'n YamlLib \<Rightarrow> 'n \<Rightarrow> nat \<Rightarrow> bool \<Rightarrow> bool" where
  "soft_activate_of yaml node unit old =
     (case yl_sub yaml node (KNum unit) of
        Inr (Some y) \<Rightarrow>
          (case yl_sub yaml y (KStr ''soft_activate'') of
             Inr (Some z) \<Rightarrow> (case yl_bool yaml z of Inr b \<Rightarrow> b | Inl _ \<Rightarrow> old)
           | _ \<Rightarrow> old)
      | _ \<Rightarrow> old)"

definition meta_read_settings :: "'n YamlLib \<Rightarrow> 'n option \<Rightarrow> 'n option \<Rightarrow> TriggerIO \<Rightarrow> TriggerIO" where
  "meta_read_settings yaml yLevel0 yLevel3 cfg =
     (let cfg = (case yLevel0 of None \<Rightarrow> cfg
            | Some y \<Rightarrow> cfg\<lparr>l0 := (l0 cfg)\<lparr>timers :=
                map (\<lambda>(i, t). t\<lparr>t_softActivate := soft_activate_of yaml y i (t_softActivate t)\<rparr>)
                  (indexed 0 (timers (l0 cfg)))\<rparr>\<rparr>)
      in (case yLevel3 of None \<Rightarrow> cfg
            | Some y \<Rightarrow> cfg\<lparr>l3 := (l3 cfg)\<lparr>counters :=
                map (\<lambda>(i, c). c\<lparr>c_softActivate := soft_activate_of yaml y i (c_softActivate c)\<rparr>)
                  (indexed CountersOffset (counters (l3 cfg)))\<rparr>\<rparr>))"

definition meta_read_names :: "'n YamlLib \<Rightarrow> 'n \<Rightarrow> TriggerIO \<Rightarrow> yaml_error + TriggerIO" where
  "meta_read_names yaml yLevelNames cfg =
     bind_err (yl_sub yaml yLevelNames (KStr ''level0'')) (\<lambda>y0.
     bind_err (meta_read_level0 yaml y0 cfg) (\<lambda>cfg.
     bind_err (yl_sub yaml yLevelNames (KStr ''level1'')) (\<lambda>y1.
     bind_err (meta_read_luts yaml y1 (l1_luts (l1 cfg))) (\<lambda>luts1.
     bind_err (yl_sub yaml yLevelNames (KStr ''level2'')) (\<lambda>y2.
     bind_err (meta_read_luts yaml y2 (l2_luts (l2 cfg))) (\<lambda>luts2.
     bind_err (yl_sub yaml yLevelNames (KStr ''level3'')) (\<lambda>y3.
     bind_err (meta_read_level3 yaml y3 (l3_unitNames (l3 cfg))) (\<lambda>names3.
       Inr (cfg\<lparr>l1 := (l1 cfg)\<lparr>l1_luts := luts1\<rparr>, l2 := (l2 cfg)\<lparr>l2_luts := luts2\<rparr>,
                l3 := (l3 cfg)\<lparr>l3_unitNames := names3\<rparr>\<rparr>)))))))))"

definition parse_mvlc_meta_block :: "'n YamlLib \<Rightarrow> string \<Rightarrow> TriggerIO \<Rightarrow> yaml_error + TriggerIO" where
  "parse_mvlc_meta_block yaml contents cfg =
     bind_err (yl_load yaml contents) (\<lambda>yRoot.
     bind_err (yl_sub yaml yRoot (KStr ''names'')) (\<lambda>yNames. case yNames of None \<Rightarrow> Inr cfg
     | Some y \<Rightarrow>
         bind_err (meta_read_names yaml y cfg) (\<lambda>cfg.
         bind_err (yl_sub yaml yRoot (KStr ''settings'')) (\<lambda>ySettings. case ySettings of None \<Rightarrow> Inr cfg
         | Some s \<Rightarrow>
             bind_err (yl_sub yaml s (KStr ''level0'')) (\<lambda>s0.
             bind_err (yl_sub yaml s (KStr ''level3'')) (\<lambda>s3.
               Inr (meta_read_settings yaml s0 s3 cfg)))))))"

datatype parse_error = RamError ram_error | MetaError yaml_error

definition parse_trigger_io_commands :: "'n YamlLib \<Rightarrow> VMEScript \<Rightarrow> parse_error + TriggerIO" where
  "parse_trigger_io_commands yaml commands =
     (case build_config_from_writes (collect_writes commands) of Inl e \<Rightarrow> Inl (RamError e)
      | Inr cfg \<Rightarrow>
          (let meta = metaBlock (get_first_meta_block commands)
           in if meta_tag meta = MetaTagMVLCTriggerIO
              then (case parse_mvlc_meta_block yaml (textContents meta) cfg of
                      Inl e \<Rightarrow> Inl (MetaError e) | Inr cfg \<Rightarrow> Inr cfg)
              else Inr cfg))"

end
