(* ===== verification/Trigger_Roundtrip.thy ===== *)
theory Trigger_Roundtrip
  imports Trigger_Parse
begin

text \<open>
  What is read back from a generated Trigger I/O script. The script of a well-formed configuration is
  a sequence of blocks, one per unit, each selecting the unit and writing its registers; the writes
  collected by the parser are the registers of the blocks; from these and the meta block the parser
  rebuilds the configuration.
\<close>

section \<open>LUT contents through the LUT memory\<close>

lemma bit_lut_cell_upto:
  "n \<le> 32 \<Longrightarrow>
   bit (fold (\<lambda>output v. if bit (contents ! output) address then v OR push_bit output 1 else v) [0..<n] (0 :: u32)) i
     \<longleftrightarrow> i < n \<and> bit (contents ! i) address"
proof (induction n)
  case 0
  then show ?case by simp
next
  case (Suc n)
  then have "n < LENGTH(32)" by simp
  then show ?case using Suc by (auto simp: bit_or_iff bit_push_one less_Suc_eq simp del: push_bit_of_1)
qed

lemma bit_lut_cell:
  "length contents \<le> 32 \<Longrightarrow> bit (lut_cell contents address) i \<longleftrightarrow> i < length contents \<and> bit (contents ! i) address"
  by (simp add: lut_cell_def bit_lut_cell_upto)

definition cell_byte :: "Bitmap list \<Rightarrow> nat \<Rightarrow> u8" where
  "cell_byte contents address = ucast (lut_cell contents address)"

lemma bit_cell_byte:
  "length contents = 3 \<Longrightarrow> bit (cell_byte contents address) i \<longleftrightarrow> i < 3 \<and> bit (contents ! i) address"
  unfolding cell_byte_def bit_unsigned_iff by (auto simp: bit_lut_cell)

lemma cell_byte_less:
  assumes "length contents = 3"
  shows "unat (cell_byte contents address) < 8"
proof -
  have "take_bit 3 (cell_byte contents address) = cell_byte contents address"
    by (rule bit_eqI) (auto simp: bit_take_bit_iff bit_cell_byte [OF assms])
  then have "take_bit 3 (unat (cell_byte contents address)) = unat (cell_byte contents address)"
    by (metis unsigned_take_bit_eq)
  then have "unat (cell_byte contents address) < 2 ^ 3" by (metis take_bit_nat_less_exp)
  then show ?thesis by simp
qed


lemma make_lut_ram_upto:
  "n \<le> 64 \<Longrightarrow> length (lutContents lut) = 3 \<Longrightarrow>
   fold (\<lambda>address res. bind_err res
       (\<lambda>ram. ram_set ram (of_nat address) (ucast (lut_cell (lutContents lut) address)))) [0..<n] (Inr ram)
   = Inr (ram_store.write_all (map (\<lambda>a. (of_nat a, cell_byte (lutContents lut) a)) [0..<n]) ram)"
proof (induction n)
  case 0
  then show ?case by simp
next
  case (Suc n)
  have "\<not> 63 < (of_nat n :: u8)" using Suc.prems by (simp add: word_less_nat_alt unat_of_nat)
  moreover have "\<not> 7 < cell_byte (lutContents lut) n"
    using cell_byte_less [OF Suc.prems(2), of n] by (simp add: word_less_nat_alt)
  ultimately have set: "ram_set r (of_nat n) (cell_byte (lutContents lut) n) =
      Inr (ram_wr r (of_nat n) (cell_byte (lutContents lut) n))" for r
    by (simp add: ram_wr_def ram_set_def Let_def)
  then show ?case using Suc by (simp add: ram_store.write_all_def flip: cell_byte_def)
qed

lemma make_lut_ram_reads:
  assumes "length (lutContents lut) = 3"
  obtains ram where "make_lut_ram lut = Inr ram" "length ram = 16"
    and "\<And>a. a < 64 \<Longrightarrow> ram_rd ram (of_nat a) = cell_byte (lutContents lut) a"
proof
  let ?kvs = "map (\<lambda>a. (of_nat a :: u8, cell_byte (lutContents lut) a)) [0..<64]"
  let ?ram = "ram_store.write_all ?kvs (replicate 16 0)"
  show "make_lut_ram lut = Inr ?ram"
    unfolding make_lut_ram_def InputCombinations_def using assms by (intro make_lut_ram_upto) simp_all
  have valid: "\<forall>(k, v) \<in> set ?kvs. unat k < 64 \<and> unat v < 8"
    using cell_byte_less [OF assms] by (auto simp: unat_of_nat)
  then show "length ?ram = 16" by (intro ram_store.write_all_good) simp_all
  have inj: "inj_on (of_nat :: nat \<Rightarrow> u8) {0..<64}"
    by (rule inj_on_inverseI [where g = unat]) (simp add: unat_of_nat)
  then have dist: "distinct (map fst ?kvs)" by (simp add: distinct_map comp_def del: upt_rec_numeral)
  show "ram_rd ?ram (of_nat a) = cell_byte (lutContents lut) a" if "a < 64" for a
  proof -
    have "(of_nat a, cell_byte (lutContents lut) a) \<in> set ?kvs"
      using that by (auto simp del: upt_rec_numeral)
    with dist have "map_of ?kvs (of_nat a) = Some (cell_byte (lutContents lut) a)"
      by (rule map_of_is_SomeI)
    moreover have "length (replicate 16 (0 :: u16)) = 16" by simp
    ultimately show ?thesis by (simp add: ram_store.rd_write_all [OF _ valid dist] del: upt_rec_numeral)
  qed
qed

lemma bit_assign_bit:
  "n < 64 \<Longrightarrow> bit (assign_bit n b w) i \<longleftrightarrow> (if i = n then b else bit w i)"
  by (auto simp: assign_bit_def bit_set_bit_iff bit_unset_bit_iff possible_bit_word)

lemma odd_drop_bit_word: "drop_bit n w AND 1 \<noteq> 0 \<longleftrightarrow> bit w n" for w :: "'a::len word"
  by (simp add: and_one_eq odd_iff_mod_2_eq_one bit_iff_odd_drop_bit)

lemma parse_lut_contents_upto:
  assumes "length contents = 3" "\<And>a. a < 64 \<Longrightarrow> ram_rd ram (of_nat a) = cell_byte contents a"
  shows "n \<le> 64 \<Longrightarrow> \<exists>cs. fold (\<lambda>address res. bind_err res (\<lambda>cs.
         bind_err (ram_lookup ram (of_nat address)) (\<lambda>v. Inr (distribute_cell address v cs))))
       [0..<n] (Inr (replicate OutputBits 0)) = Inr cs \<and> length cs = 3
       \<and> (\<forall>out < 3. \<forall>i. bit (cs ! out) i \<longleftrightarrow> i < n \<and> bit (contents ! out) i)"
proof (induction n)
  case 0
  then show ?case by (simp add: OutputBits_def)
next
  case (Suc n)
  then obtain cs where IH: "fold (\<lambda>address res. bind_err res (\<lambda>cs.
         bind_err (ram_lookup ram (of_nat address)) (\<lambda>v. Inr (distribute_cell address v cs))))
       [0..<n] (Inr (replicate OutputBits 0)) = Inr cs" "length cs = 3"
    "\<forall>out < 3. \<forall>i. bit (cs ! out) i \<longleftrightarrow> i < n \<and> bit (contents ! out) i"
    by auto
  have "\<not> 63 < (of_nat n :: u8)" using Suc.prems by (simp add: word_less_nat_alt unat_of_nat)
  then have "ram_lookup ram (of_nat n) = Inr (ram_rd ram (of_nat n))"
    by (simp add: ram_rd_def ram_lookup_def Let_def)
  then have look: "ram_lookup ram (of_nat n) = Inr (cell_byte contents n)" using assms(2) Suc.prems by simp
  have n: "n < 64" using Suc.prems by simp
  have "bit (distribute_cell n (cell_byte contents n) cs ! out) i \<longleftrightarrow> i < Suc n \<and> bit (contents ! out) i"
    if "out < 3" for out i
    using that IH(2,3)
    by (auto simp: distribute_cell_def bit_assign_bit [OF n] odd_drop_bit_word bit_cell_byte [OF assms(1)] less_Suc_eq)
  then show ?case using IH(1,2) look by (simp add: distribute_cell_def)
qed

lemma parse_lut_contents_of_ram:
  assumes "length contents = 3" "\<And>a. a < 64 \<Longrightarrow> ram_rd ram (of_nat a) = cell_byte contents a"
  shows "parse_lut_contents ram = Inr contents"
proof -
  obtain cs where cs: "parse_lut_contents ram = Inr cs" "length cs = 3"
    "\<forall>out < 3. \<forall>i. bit (cs ! out) i \<longleftrightarrow> i < 64 \<and> bit (contents ! out) i"
    using parse_lut_contents_upto [OF assms, of 64] by (auto simp: parse_lut_contents_def InputCombinations_def)
  have "cs ! out = contents ! out" if "out < 3" for out
    by (rule word_eqI_bits) (use cs(3) that in simp)
  then have "cs = contents" using cs(2) assms(1) by (intro nth_equalityI) simp_all
  then show ?thesis using cs(1) by simp
qed


section \<open>Blocks of register writes\<close>

fun part_write :: "ScriptPart \<Rightarrow> (u16 \<times> u16) list" where
  "part_write (PWrite w) = [(w_address w, w_value w)]"
| "part_write (PBlock c) = []"

definition part_writes :: "ScriptParts \<Rightarrow> (u16 \<times> u16) list" where
  "part_writes parts = concat (map part_write parts)"

lemma part_writes_simps [simp]:
  "part_writes [] = []" "part_writes (p # ps) = part_write p @ part_writes ps"
  "part_writes (ps @ qs) = part_writes ps @ part_writes qs"
  "part_writes (concat pss) = concat (map part_writes pss)"
  by (simp_all add: part_writes_def) (induction pss, simp_all add: part_writes_def)

text \<open>The registers a unit's part of the script writes, relative to the unit's register base.\<close>

definition part_regs :: "ScriptParts \<Rightarrow> (u16 \<times> u16) list" where
  "part_regs parts = map (\<lambda>(a, v). (a - 0x300, v)) (part_writes parts)"

lemma part_regs_simps [simp]:
  "part_regs [] = []" "part_regs (PBlock c # ps) = part_regs ps"
  "part_regs (write_unit_reg r v c opts # ps) = (of_nat r, v) # part_regs ps"
  "part_regs (write_connection n con name # ps) = (of_nat (0x80 + n), of_nat con) # part_regs ps"
  "part_regs (write_strobe_connection n con name # ps) = (of_nat (0x80 + n), of_nat con) # part_regs ps"
  "part_regs (ps @ qs) = part_regs ps @ part_regs qs"
  by (simp_all add: part_regs_def write_unit_reg_def write_connection_def write_strobe_connection_def)

lemma part_regs_prefixed [simp]: "part_regs (map prefix_comment ps) = part_regs ps"
proof -
  have "part_write (prefix_comment p) = part_write p" for p by (cases p) simp_all
  then show ?thesis by (simp add: part_regs_def part_writes_def comp_def)
qed

type_synonym block = "(nat \<times> nat) \<times> (u16 \<times> u16) list"

definition block_writes :: "block \<Rightarrow> (u16 \<times> u16) list" where
  "block_writes = (\<lambda>((level, unit), regs).
     (0x200, of_nat (push_bit 8 level OR unit)) # map (\<lambda>(r, v). (r + 0x300, v)) regs)"

text \<open>The blocks of the units of one kind.\<close>

definition section_blocks :: "nat \<Rightarrow> nat \<Rightarrow> (nat \<Rightarrow> 'a \<Rightarrow> (u16 \<times> u16) list) \<Rightarrow> 'a list \<Rightarrow> block list" where
  "section_blocks level offset regs units =
     map (\<lambda>(i, x). ((level, i + offset), regs (i + offset) x)) (indexed 0 units)"

lemma unit_section_writes:
  "part_writes ([PBlock n, select_unit level unit] @ parts) = block_writes ((level, unit), part_regs parts)"
proof -
  have "map (\<lambda>(r, v). (r + 0x300, v)) (part_regs parts) = part_writes parts"
    by (simp add: part_regs_def comp_def split_def)
  then show ?thesis by (simp add: block_writes_def select_unit_def)
qed

definition generates :: "ScriptParts option \<Rightarrow> (u16 \<times> u16) list \<Rightarrow> bool" where
  "generates gen regs \<longleftrightarrow> (\<exists>parts. gen = Some parts \<and> part_regs parts = regs)"

lemma generates_Some [intro]: "part_regs parts = regs \<Longrightarrow> generates (Some parts) regs"
  by (simp add: generates_def)

definition generates_blocks :: "ScriptParts option \<Rightarrow> block list \<Rightarrow> bool" where
  "generates_blocks gen blocks \<longleftrightarrow>
     (\<exists>parts. gen = Some parts \<and> part_writes parts = concat (map block_writes blocks))"

lemma generates_blocks_sections:
  assumes "\<And>i. i < length units \<Longrightarrow> name (i + offset) \<noteq> None"
    and "\<And>i. i < length units \<Longrightarrow> generates (gen (i + offset) (units ! i)) (regs (i + offset) (units ! i))"
  shows "generates_blocks (unit_sections level offset name gen units) (section_blocks level offset regs units)"
proof -
  define parts where "parts = (\<lambda>(i, x). [PBlock (the (name (i + offset))), select_unit level (i + offset)]
      @ the (gen (i + offset) x))"
  have sec: "unit_section (name (i + offset)) level (i + offset) (gen (i + offset) x) = Some (parts (i, x))"
    and regs: "part_writes (parts (i, x)) = block_writes ((level, i + offset), regs (i + offset) x)"
    if "(i, x) \<in> set (indexed 0 units)" for i x
  proof -
    have "i < length units" "x = units ! i" using that by (auto simp: in_set_indexed_iff)
    then obtain n ps where "name (i + offset) = Some n" "gen (i + offset) x = Some ps"
      "part_regs ps = regs (i + offset) x"
      using assms unfolding generates_def by blast
    then show "unit_section (name (i + offset)) level (i + offset) (gen (i + offset) x) = Some (parts (i, x))"
      "part_writes (parts (i, x)) = block_writes ((level, i + offset), regs (i + offset) x)"
      by (simp_all only: unit_section_def parts_def prod.case option.sel bind.bind_lunit unit_section_writes)
  qed
  have "map_opt (\<lambda>(i, x). unit_section (name (i + offset)) level (i + offset) (gen (i + offset) x)) (indexed 0 units)
      = Some (map parts (indexed 0 units))"
    by (rule map_opt_Some) (use sec in auto)
  moreover have "map (part_writes \<circ> parts) (indexed 0 units)
      = map (block_writes \<circ> (\<lambda>(i, x). ((level, i + offset), regs (i + offset) x))) (indexed 0 units)"
    by (rule map_cong) (use regs in auto)
  ultimately show ?thesis
    by (simp add: generates_blocks_def unit_sections_def section_blocks_def comp_def split_def cong: map_cong)
qed

section \<open>The register map of a configuration\<close>

definition io_regs :: "IO \<Rightarrow> nat \<Rightarrow> (u16 \<times> u16) list" where
  "io_regs io offset =
     [(of_nat offset, io_delay io), (of_nat (offset + 2), io_width io), (of_nat (offset + 4), io_holdoff io),
      (of_nat (offset + 6), of_bool (io_invert io))]"

definition lut_ram_of :: "LUT \<Rightarrow> LUT_RAM" where
  "lut_ram_of lut = (case make_lut_ram lut of Inl _ \<Rightarrow> [] | Inr ram \<Rightarrow> ram)"

definition lut_regs :: "LUT \<Rightarrow> (u16 \<times> u16) list" where
  "lut_regs lut = map (\<lambda>(i, v). (of_nat (i * 2), v)) (indexed 0 (lut_ram_of lut))"

definition con :: "TriggerIO \<Rightarrow> UnitAddress \<Rightarrow> nat" where
  "con cfg x = the (get_connection_value cfg x)"

definition con_regs :: "TriggerIO \<Rightarrow> nat \<Rightarrow> nat \<Rightarrow> nat list \<Rightarrow> (u16 \<times> u16) list" where
  "con_regs cfg level unit inputs =
     map (\<lambda>i. (of_nat (0x80 + 2 * i), of_nat (con cfg (level, unit, i)))) inputs"

definition timer_regs :: "Timer \<Rightarrow> (u16 \<times> u16) list" where
  "timer_regs t = [(2, t_range t), (4, t_delay_ns t), (6, t_period t)]"

definition resource_regs :: "TriggerResource \<Rightarrow> (u16 \<times> u16) list" where
  "resource_regs r =
     [(0x80, ucast (tr_type r)), (0, ucast (irqIndex (irqUtil r)))]
     @ io_regs (gateGenerator (slaveTrigger r)) 6 @ [(0x82, ucast (triggerIndex (slaveTrigger r)))]"

definition nim_regs :: "IO \<Rightarrow> (u16 \<times> u16) list" where
  "nim_regs io = io_regs io 0 @ [(10, io_direction io), (16, of_bool (io_activate io))]"

definition ecl_regs :: "IO \<Rightarrow> (u16 \<times> u16) list" where
  "ecl_regs io = io_regs io 0 @ [(16, of_bool (io_activate io))]"

definition l1_regs :: "TriggerIO \<Rightarrow> nat \<Rightarrow> LUT \<Rightarrow> (u16 \<times> u16) list" where
  "l1_regs cfg unit lut = lut_regs lut @ (if unit = 2 then con_regs cfg 1 2 [0, 1, 2] else [])"

definition l2_regs :: "TriggerIO \<Rightarrow> nat \<Rightarrow> LUT \<Rightarrow> (u16 \<times> u16) list" where
  "l2_regs cfg unit lut =
     lut_regs lut @ [(0x20, ucast (strobedOutputs lut))] @ con_regs cfg 2 unit [0, 1, 2]
     @ io_regs (strobeGG lut) 0x32 @ [(0x86, of_nat (con cfg (2, unit, 6)))]"

definition start_regs :: "StackStart \<Rightarrow> (u16 \<times> u16) list" where
  "start_regs u = [(0, of_bool (ss_activate u)), (2, ucast (ss_stackIndex u)), (4, ss_delay_ns u)]"

definition script_blocks :: "TriggerIO \<Rightarrow> block list" where
  "script_blocks cfg =
     section_blocks 0 0 (\<lambda>_. timer_regs) (timers (l0 cfg))
     @ section_blocks 0 4 (\<lambda>_. resource_regs) (triggerResources (l0 cfg))
     @ section_blocks 0 12 (\<lambda>_ u. [(0, sb_stackIndex u)]) (stackBusy (l0 cfg))
     @ section_blocks 0 16 (\<lambda>_. nim_regs) (ioNIM (l0 cfg))
     @ section_blocks 0 33 (\<lambda>_ u. io_regs u 0) (ioIRQ (l0 cfg))
     @ section_blocks 1 0 (l1_regs cfg) (l1_luts (l1 cfg))
     @ section_blocks 2 0 (l2_regs cfg) (l2_luts (l2 cfg))
     @ section_blocks 3 0 (\<lambda>i u. start_regs u @ con_regs cfg 3 i [0]) (stackStart (l3 cfg))
     @ section_blocks 3 4 (\<lambda>i u. [(0, of_bool (mt_activate u))] @ con_regs cfg 3 i [0]) (masterTriggers (l3 cfg))
     @ section_blocks 3 8 (\<lambda>i u. [(14, of_bool (c_clearOnLatch u))] @ con_regs cfg 3 i [0, 1]) (counters (l3 cfg))
     @ section_blocks 3 16 (\<lambda>i u. [] @ con_regs cfg 3 i [0]) [0..<14]
     @ section_blocks 3 30 (\<lambda>i u. ecl_regs u @ con_regs cfg 3 i [0]) (ioECL (l3 cfg))"

lemma part_regs_gen_IO:
  "part_regs (gen_IO io NoFlags n) = io_regs io n"
  "part_regs (gen_IO io NIM_IO_Flags 0) = nim_regs io"
  "part_regs (gen_IO io ECL_IO_Flags 0) = ecl_regs io"
  by (simp_all add: gen_IO_def NoFlags_def NIM_IO_Flags_def ECL_IO_Flags_def HasDirection_def
      HasActivation_def io_regs_def nim_regs_def ecl_regs_def)

lemma part_regs_gen_resource: "part_regs (gen_TriggerResource u) = resource_regs u"
  by (simp add: gen_TriggerResource_def resource_regs_def part_regs_gen_IO)


section \<open>The generated script writes the register map\<close>

lemma write_lut_generates:
  assumes "wf_lut lut"
  obtains ps where "write_lut lut = Some ps" "part_regs ps = lut_regs lut"
proof -
  have "length (lutContents lut) = 3" using assms by (simp add: wf_lut_def OutputBits_def)
  from make_lut_ram_reads [OF this] obtain ram where ram: "make_lut_ram lut = Inr ram" by blast
  have step: "part_regs (map (\<lambda>(i, v). write_unit_reg (i * 2) v (c i) Opt_HexValue) ivs)
      = map (\<lambda>(i, v). (of_nat (i * 2), v)) ivs" for c ivs
    by (induction ivs) (auto simp: part_regs_simps)
  show thesis
    by (rule that [of "write_lut_ram ram"])
      (simp_all add: write_lut_def ram write_lut_ram_def Let_def lut_regs_def lut_ram_of_def step)
qed

lemma con_eq:
  assumes "wf_trigger_io cfg"
  shows "at_opt (lut2Connections (l1 cfg)) i = get_connection_value cfg (1, 2, i)"
    "i \<noteq> 6 \<Longrightarrow> Option.bind (at_opt (lutConnections (l2 cfg)) u) (\<lambda>cs. at_opt cs i) = get_connection_value cfg (2, u, i)"
    "at_opt (strobeConnections (l2 cfg)) u = get_connection_value cfg (2, u, 6)"
    "Option.bind (at_opt (connections (l3 cfg)) u) (\<lambda>cs. at_opt cs i) = get_connection_value cfg (3, u, i)"
  by (simp_all add: InputBits_def)

lemma connect_with_valid:
  assumes "wf_trigger_io cfg" "valid_connections cfg" "x \<in> set dynamic_inputs"
  obtains n where "connect_with write cfg r (get_connection_value cfg x) (Some (choices_of x)) = Some [write r (con cfg x) n]"
proof -
  obtain v where v: "get_connection_value cfg x = Some v" "v < length (choices_of x)"
    using valid_connectionE [OF assms(2,3)] .
  have "source_ok x (choices_of x ! v)"
    using choices_sources [OF assms(3)] v(2) by (simp add: list_all_length del: choices_of.simps)
  then obtain n where "lookup_name cfg (choices_of x ! v) = Some n"
    using lookup_name_defined [OF assms(1)] by metis
  with v show thesis by (intro that [of n]) (simp add: connect_with_def con_def)
qed

lemma l3_connect_valid:
  assumes "wf_trigger_io cfg" "valid_connections cfg" "(3, u, i) \<in> set dynamic_inputs"
  obtains n where "l3_connect cfg u i = Some [write_connection (2 * i) (con cfg (3, u, i)) n]"
proof -
  have c: "u < 33 \<and> i = 0 \<or> 8 \<le> u \<and> u < 16 \<and> i = 1"
    using assms(3) by (simp add: dynamic_inputs_iff)
  then have "u < 33" by auto
  moreover have "i < length (make_l3_input_choices ! u)"
    using c by (cases "u < 8"; cases "u < 16") (auto simp: make_l3_nth)
  ultimately have "Option.bind (at_opt make_l3_input_choices u) (\<lambda>lists. at_opt lists i) = Some (choices_of (3, u, i))"
    by (simp add: make_l3_length)
  with connect_with_valid [OF assms, of write_connection "2 * i"] that
  show thesis unfolding l3_connect_def con_eq(4) [OF assms(1)] by metis
qed

lemma gen_l3_unit_generates:
  assumes "wf_trigger_io cfg" "valid_connections cfg" "\<And>i. i \<in> set inputs \<Longrightarrow> (3, u, i) \<in> set dynamic_inputs"
    and "part_regs ps = regs"
  shows "generates (gen_l3_unit cfg u ps inputs) (regs @ con_regs cfg 3 u inputs)"
proof -
  have "\<exists>pss. map_opt (l3_connect cfg u) inputs = Some pss \<and> part_regs (concat pss) = con_regs cfg 3 u inputs"
    using assms(3)
  proof (induction inputs)
    case (Cons i inputs)
    then obtain pss where "map_opt (l3_connect cfg u) inputs = Some pss"
      "part_regs (concat pss) = con_regs cfg 3 u inputs" by auto
    moreover obtain n where "l3_connect cfg u i = Some [write_connection (2 * i) (con cfg (3, u, i)) n]"
      using l3_connect_valid [OF assms(1,2) Cons.prems] by auto
    ultimately show ?case by (simp add: con_regs_def)
  qed (simp add: con_regs_def)
  then show ?thesis using assms(4) by (auto simp: generates_def gen_l3_unit_def)
qed


lemma gen_l1_lut_generates:
  assumes "wf_trigger_io cfg" "valid_connections cfg" "wf_lut lut"
  shows "generates (gen_l1_lut cfg u lut) (l1_regs cfg u lut)"
proof -
  obtain ps where ps: "write_lut lut = Some ps" "part_regs ps = lut_regs lut"
    using write_lut_generates [OF assms(3)] .
  have con: "\<exists>n. connect_with write_connection cfg (i * 2) (at_opt (lut2Connections (l1 cfg)) i)
      (at_opt LUT2DynamicInputChoices i) = Some [write_connection (i * 2) (con cfg (1, 2, i)) n]"
    if "i < 3" for i
  proof -
    have "(1, 2, i) \<in> set dynamic_inputs" using that by (simp only: dynamic_inputs_iff simp_thms)
    moreover have "at_opt LUT2DynamicInputChoices i = Some (choices_of (1, 2, i))"
      using that by (simp add: LUT2DynamicInputChoices_def)
    ultimately show ?thesis
      using connect_with_valid [OF assms(1,2), of "(1, 2, i)" write_connection "i * 2"]
      unfolding con_eq(1) [OF assms(1)] by metis
  qed
  have upt: "[0..<LUT_DynamicInputCount] = [0, 1, 2]" by (simp add: LUT_DynamicInputCount_def upt_rec)
  from con [of 0] con [of 1] con [of 2] ps show ?thesis
    by (auto simp: generates_def gen_l1_lut_def l1_regs_def upt con_regs_def)
qed

lemma gen_l2_lut_generates:
  assumes "wf_trigger_io cfg" "valid_connections cfg" "wf_lut lut" "u < 3"
  shows "generates (gen_l2_lut cfg u lut) (l2_regs cfg u lut)"
proof -
  obtain ps where ps: "write_lut lut = Some ps" "part_regs ps = lut_regs lut"
    using write_lut_generates [OF assms(3)] .
  have choices: "at_opt make_l2_input_choices u = Some (l2_choices_of_unit u)"
    using assms(4) by (simp add: make_l2_length make_l2_nth)
  have con: "\<exists>n. connect_with write_connection cfg (i * 2)
      (Option.bind (at_opt (lutConnections (l2 cfg)) u) (\<lambda>cs. at_opt cs i))
      (at_opt (lutChoices (l2_choices_of_unit u)) i) = Some [write_connection (i * 2) (con cfg (2, u, i)) n]"
    if "i < 3" for i
  proof -
    have "(2, u, i) \<in> set dynamic_inputs" using that assms(4) by (simp only: dynamic_inputs_iff simp_thms)
    moreover have "at_opt (lutChoices (l2_choices_of_unit u)) i = Some (choices_of (2, u, i))" "i \<noteq> 6"
      using that by (simp_all add: StrobeGGInput_def InputBits_def)
    ultimately show ?thesis
      using connect_with_valid [OF assms(1,2), of "(2, u, i)" write_connection "i * 2"]
        con_eq(2) [OF assms(1)] by metis
  qed
  have "(2, u, 6) \<in> set dynamic_inputs" using assms(4) by (simp only: dynamic_inputs_iff simp_thms)
  moreover have "strobeChoices (l2_choices_of_unit u) = choices_of (2, u, 6)"
    by (simp add: StrobeGGInput_def InputBits_def)
  ultimately have strobe: "\<exists>n. connect_with write_strobe_connection cfg 6 (at_opt (strobeConnections (l2 cfg)) u)
      (Some (strobeChoices (l2_choices_of_unit u))) = Some [write_strobe_connection 6 (con cfg (2, u, 6)) n]"
    using connect_with_valid [OF assms(1,2), of "(2, u, 6)" write_strobe_connection 6]
    unfolding con_eq(3) [OF assms(1)] by metis
  have upt: "[0..<LUT_DynamicInputCount] = [0, 1, 2]" by (simp add: LUT_DynamicInputCount_def upt_rec)
  from con [of 0] con [of 1] con [of 2] strobe ps choices show ?thesis
    by (auto simp: generates_def gen_l2_lut_def l2_regs_def upt con_regs_def part_regs_gen_IO StrobeGGIOOffset_def)
qed

lemma generates_blocksE:
  assumes "generates_blocks gen blocks"
  obtains parts where "gen = Some parts" "part_writes parts = concat (map block_writes blocks)"
  using assms by (auto simp: generates_blocks_def)

lemma level0_generates:
  assumes "wf_trigger_io cfg"
  shows "generates_blocks (gen_level0 cfg)
    (section_blocks 0 0 (\<lambda>_. timer_regs) (timers (l0 cfg))
     @ section_blocks 0 4 (\<lambda>_. resource_regs) (triggerResources (l0 cfg))
     @ section_blocks 0 12 (\<lambda>_ u. [(0, sb_stackIndex u)]) (stackBusy (l0 cfg))
     @ section_blocks 0 16 (\<lambda>_. nim_regs) (ioNIM (l0 cfg))
     @ section_blocks 0 33 (\<lambda>_ u. io_regs u 0) (ioIRQ (l0 cfg)))"
proof -
  have names: "length L0_DefaultUnitNames = 39" by (simp add: L0_DefaultUnitNames_def)
  note wf = assms [unfolded wf_trigger_io_def]
  have a: "generates_blocks (unit_sections 0 0 (at_opt L0_DefaultUnitNames) (\<lambda>_ u. Some (gen_Timer u)) (timers (l0 cfg)))
      (section_blocks 0 0 (\<lambda>_. timer_regs) (timers (l0 cfg)))"
    by (rule generates_blocks_sections)
      (use wf names in \<open>auto simp: gen_Timer_def timer_regs_def io_counts\<close>)
  have b: "generates_blocks (unit_sections 0 TriggerResourceOffset (at_opt L0_DefaultUnitNames)
      (\<lambda>_ u. Some (gen_TriggerResource u)) (triggerResources (l0 cfg)))
      (section_blocks 0 4 (\<lambda>_. resource_regs) (triggerResources (l0 cfg)))"
    unfolding TriggerResourceOffset_def
    by (rule generates_blocks_sections)
      (use wf names in \<open>auto simp: part_regs_gen_resource io_counts\<close>)
  have c: "generates_blocks (unit_sections 0 StackBusyOffset (at_opt L0_DefaultUnitNames)
      (\<lambda>_ u. Some (gen_StackBusy u)) (stackBusy (l0 cfg)))
      (section_blocks 0 12 (\<lambda>_ u. [(0, sb_stackIndex u)]) (stackBusy (l0 cfg)))"
    unfolding StackBusyOffset_def
    by (rule generates_blocks_sections)
      (use wf names in \<open>auto simp: gen_StackBusy_def io_counts\<close>)
  have d: "generates_blocks (unit_sections 0 NIM_IO_Offset (at_opt L0_DefaultUnitNames)
      (\<lambda>_ u. Some (gen_IO u NIM_IO_Flags 0)) (ioNIM (l0 cfg)))
      (section_blocks 0 16 (\<lambda>_. nim_regs) (ioNIM (l0 cfg)))"
    unfolding NIM_IO_Offset_def
    by (rule generates_blocks_sections)
      (use wf names in \<open>auto simp: part_regs_gen_IO io_counts\<close>)
  have e: "generates_blocks (unit_sections 0 IRQ_Inputs_Offset (at_opt L0_DefaultUnitNames)
      (\<lambda>_ u. Some (gen_IO u NoFlags 0)) (ioIRQ (l0 cfg)))
      (section_blocks 0 33 (\<lambda>_ u. io_regs u 0) (ioIRQ (l0 cfg)))"
    unfolding IRQ_Inputs_Offset_def
    by (rule generates_blocks_sections)
      (use wf names in \<open>auto simp: part_regs_gen_IO io_counts\<close>)
  from a b c d e show ?thesis
    by (elim generates_blocksE) (simp add: generates_blocks_def gen_level0_def)
qed

lemma level12_generates:
  assumes "wf_trigger_io cfg" "valid_connections cfg"
  shows "generates_blocks (gen_level1 cfg) (section_blocks 1 0 (l1_regs cfg) (l1_luts (l1 cfg)))"
    and "generates_blocks (gen_level2 cfg) (section_blocks 2 0 (l2_regs cfg) (l2_luts (l2 cfg)))"
proof -
  have wf: "i < length (l1_luts (l1 cfg)) \<Longrightarrow> wf_lut (l1_luts (l1 cfg) ! i)"
    "i < length (l2_luts (l2 cfg)) \<Longrightarrow> wf_lut (l2_luts (l2 cfg) ! i)"
    "length (l2_luts (l2 cfg)) = 3" for i
    using assms(1) by (simp_all add: wf_trigger_io_def list_all_length L2_LUTCount_def)
  have "generates_blocks (unit_sections 1 0 (\<lambda>u. Some (''L1.LUT'' @ show_dec u)) (gen_l1_lut cfg) (l1_luts (l1 cfg)))
      (section_blocks 1 0 (l1_regs cfg) (l1_luts (l1 cfg)))"
    by (rule generates_blocks_sections) (use gen_l1_lut_generates [OF assms wf(1)] in auto)
  then show "generates_blocks (gen_level1 cfg) (section_blocks 1 0 (l1_regs cfg) (l1_luts (l1 cfg)))"
    by (elim generates_blocksE) (simp add: generates_blocks_def gen_level1_def)
  have "generates_blocks (unit_sections 2 0 (\<lambda>u. Some (''L2.LUT'' @ show_dec u)) (gen_l2_lut cfg) (l2_luts (l2 cfg)))
      (section_blocks 2 0 (l2_regs cfg) (l2_luts (l2 cfg)))"
    by (rule generates_blocks_sections) (use gen_l2_lut_generates [OF assms wf(2)] wf(3) in auto)
  then show "generates_blocks (gen_level2 cfg) (section_blocks 2 0 (l2_regs cfg) (l2_luts (l2 cfg)))"
    by (elim generates_blocksE) (simp add: generates_blocks_def gen_level2_def)
qed

lemma l3_sections_generate:
  assumes "wf_trigger_io cfg" "valid_connections cfg" "length xs + off \<le> 33"
    and "\<And>i. i \<in> set inputs \<Longrightarrow> i = 0 \<or> i = 1 \<and> off = 8 \<and> length xs = 8"
    and "\<And>x. part_regs (ps x) = regs x"
  shows "generates_blocks
    (unit_sections 3 off (at_opt L3_DefaultUnitNames) (\<lambda>u x. gen_l3_unit cfg u (ps x) inputs) xs)
    (section_blocks 3 off (\<lambda>i u. regs u @ con_regs cfg 3 i inputs) xs)"
proof (rule generates_blocks_sections)
  fix i
  assume i: "i < length xs"
  have "length L3_DefaultUnitNames = 34" by (simp add: L3_DefaultUnitNames_def)
  then show "at_opt L3_DefaultUnitNames (i + off) \<noteq> None" using i assms(3) by simp
  have "(3, i + off, k) \<in> set dynamic_inputs" if "k \<in> set inputs" for k
    using assms(3) assms(4) [OF that] i by (auto simp: dynamic_inputs_iff)
  then show "generates (gen_l3_unit cfg (i + off) (ps (xs ! i)) inputs)
      (regs (xs ! i) @ con_regs cfg 3 (i + off) inputs)"
    by (rule gen_l3_unit_generates [OF assms(1,2) _ assms(5)])
qed

lemma level3_generates:
  assumes "wf_trigger_io cfg" "valid_connections cfg"
  shows "generates_blocks (gen_level3 cfg)
    (section_blocks 3 0 (\<lambda>i u. start_regs u @ con_regs cfg 3 i [0]) (stackStart (l3 cfg))
     @ section_blocks 3 4 (\<lambda>i u. [(0, of_bool (mt_activate u))] @ con_regs cfg 3 i [0]) (masterTriggers (l3 cfg))
     @ section_blocks 3 8 (\<lambda>i u. [(14, of_bool (c_clearOnLatch u))] @ con_regs cfg 3 i [0, 1]) (counters (l3 cfg))
     @ section_blocks 3 16 (\<lambda>i u. [] @ con_regs cfg 3 i [0]) [0..<14]
     @ section_blocks 3 30 (\<lambda>i u. ecl_regs u @ con_regs cfg 3 i [0]) (ioECL (l3 cfg)))"
proof -
  have len: "length (stackStart (l3 cfg)) = 4" "length (masterTriggers (l3 cfg)) = 4" "length (counters (l3 cfg)) = 8"
    "length (ioECL (l3 cfg)) = 3"
    using assms(1) by (simp_all add: wf_trigger_io_def io_counts)
  have regs: "part_regs (gen_StackStart u) = start_regs u" "part_regs (gen_MasterTrigger m) = [(0, of_bool (mt_activate m))]"
    "part_regs (gen_Counter c) = [(14, of_bool (c_clearOnLatch c))]" for u m c
    by (simp_all add: gen_StackStart_def start_regs_def gen_MasterTrigger_def gen_Counter_def)
  note sec = l3_sections_generate [OF assms]
  from sec [of "stackStart (l3 cfg)" 0 "[0]" gen_StackStart start_regs]
    sec [of "masterTriggers (l3 cfg)" 4 "[0]" gen_MasterTrigger "\<lambda>u. [(0, of_bool (mt_activate u))]"]
    sec [of "counters (l3 cfg)" 8 "[0, 1]" gen_Counter "\<lambda>u. [(14, of_bool (c_clearOnLatch u))]"]
    sec [of "[0..<14]" 16 "[0]" "\<lambda>_. []" "\<lambda>_. []"]
    sec [of "ioECL (l3 cfg)" 30 "[0]" "\<lambda>x. gen_IO x ECL_IO_Flags 0" ecl_regs]
  show ?thesis
    by (simp add: len part_regs_gen_IO regs del: append_Cons append_Nil upt_rec_numeral)
      (elim generates_blocksE,
       simp add: generates_blocks_def gen_level3_def MasterTriggersOffset_def CountersOffset_def
         NIM_IO_Unit_Offset_def NIM_IO_Count_def ECL_Unit_Offset_def
         del: append_Cons append_Nil upt_rec_numeral)
qed

lemma script_generates:
  assumes "wf_trigger_io cfg" "valid_connections cfg"
  shows "generates_blocks (generate_trigger_io_script cfg) (script_blocks cfg)"
  using level0_generates [OF assms(1)] level12_generates [OF assms] level3_generates [OF assms]
  by (elim generates_blocksE) (simp add: generates_blocks_def generate_trigger_io_script_def script_blocks_def)


section \<open>Collecting the writes of the blocks\<close>

text \<open>The collected writes as a memory with a cell per level, unit and register.\<close>

type_synonym reg_key = "(nat \<times> u16) \<times> u16"

definition writes_rd :: "LevelWrites \<Rightarrow> reg_key \<Rightarrow> u16" where
  "writes_rd writes = (\<lambda>((level, unit), r). map_rd 0 (map_rd Map.empty (writes ! level) unit) r)"

definition writes_wr :: "LevelWrites \<Rightarrow> reg_key \<Rightarrow> u16 \<Rightarrow> LevelWrites" where
  "writes_wr writes = (\<lambda>((level, unit), r) v. store_write writes (of_nat level) unit r v)"

interpretation level_store:
  store "\<lambda>writes. length writes = 4" "\<lambda>k v. fst (fst k) < 4" writes_rd writes_wr
proof unfold_locales
  fix m :: LevelWrites and k k' :: reg_key and v :: u16
  obtain l u r where k: "k = ((l, u), r)" by (cases k) auto
  obtain l' u' r' where k': "k' = ((l', u'), r')" by (cases k') auto
  assume m: "length m = 4" and "fst (fst k) < 4"
  then have l: "l < 4" "unat (of_nat l :: u16) = l" by (simp_all add: k unat_of_nat)
  show "length (writes_wr m k v) = 4" using m by (simp add: writes_wr_def k store_write_def Let_def)
  show "writes_rd (writes_wr m k v) k = v"
    using m l by (simp add: writes_wr_def writes_rd_def k store_write_def Let_def map_rd_def)
  show "writes_rd (writes_wr m k v) k' = writes_rd m k'" if "k' \<noteq> k"
    using m l that by (cases "l' = l") (auto simp: writes_wr_def writes_rd_def k k' store_write_def Let_def map_rd_def)
qed

text \<open>The commands of a script: short form writes below the base address.\<close>

definition write_commands :: "(u16 \<times> u16) list \<Rightarrow> VMEScript" where
  "write_commands ws = map (\<lambda>(a, v). short_write (ucast a + MVLC_VME_InterfaceAddress) (ucast v)) ws"

lemma u16_range: "unat (a :: u16) < 65536" "0 \<le> uint a" "uint a < 65536"
  using unsigned_less [of a, where 'a = nat] unsigned_less [of a, where 'a = int] by simp_all

lemma unat_ucast_u16: "unat (ucast (a :: u16) :: u32) = unat a" and uint_ucast_u16: "uint (ucast a :: u32) = uint a"
proof -
  show "unat (ucast a :: u32) = unat a"
    unfolding unsigned_ucast_eq by (rule take_bit_nat_eq_self) (use u16_range(1) [of a] in simp)
  then show "uint (ucast a :: u32) = uint a" by (metis uint_nat)
qed

lemma and_masks:
  "x AND NOT MVLC_VME_InterfaceAddress = take_bit 16 x" "x AND 3 = take_bit 2 x" "x AND 0xff = take_bit 8 x"
  for x :: u32
proof -
  have "(65535 :: u32) = - 4294901761" by (simp add: eq_neg_iff_add_eq_0)
  note e = this [symmetric]
  show "x AND NOT MVLC_VME_InterfaceAddress = take_bit 16 x"
    by (simp add: MVLC_VME_InterfaceAddress_def take_bit_eq_mask mask_eq_exp_minus_1 e)
qed (simp_all add: take_bit_eq_mask mask_eq_exp_minus_1)

lemma strip_base:
  fixes a :: u16
  shows "(ucast a + MVLC_VME_InterfaceAddress) AND NOT MVLC_VME_InterfaceAddress = (ucast a :: u32)"
proof -
  have "unat (ucast a + MVLC_VME_InterfaceAddress) = unat a + 65535 * 65536"
    unfolding unat_word_ariths unat_ucast_u16
    using u16_range(1) [of a] by (simp add: MVLC_VME_InterfaceAddress_def)
  moreover have "(unat a + 65535 * 65536) mod 65536 = unat a"
    unfolding mod_mult_self1 using u16_range(1) [of a] by simp
  ultimately show ?thesis
    unfolding and_masks word_unat_eq_iff unsigned_take_bit_eq unat_ucast_u16 by (simp add: take_bit_eq_mod)
qed

lemma ucast_eq_of_nat: "unat x = n \<Longrightarrow> ucast x = (of_nat n :: u16)" for x :: u32
  by (metis of_nat_unat)

lemma unit_select_bits:
  assumes "l < 4" "u < 256"
  shows "ucast (drop_bit 8 (ucast (of_nat (push_bit 8 l OR u) :: u16) :: u32) AND 3) = (of_nat l :: u16)"
    and "ucast ((ucast (of_nat (push_bit 8 l OR u) :: u16) :: u32) AND 0xff) = (of_nat u :: u16)"
proof -
  have "push_bit 8 l AND u = 0"
  proof (rule bit_eqI)
    fix n
    have "take_bit 8 u = u" using assms(2) by (simp add: take_bit_nat_eq_self)
    then have "bit u n \<Longrightarrow> n < 8" by (metis bit_take_bit_iff)
    then show "bit (push_bit 8 l AND u) n = bit 0 n" by (auto simp: bit_and_iff bit_push_bit_iff)
  qed
  then have "push_bit 8 l OR u = push_bit 8 l + u" by (simp add: disjunctive_add_eq_or)
  then have sum: "push_bit 8 l OR u = l * 256 + u" by (simp add: push_bit_eq_mult)
  then have small: "push_bit 8 l OR u < 65536" using assms by simp
  let ?w = "of_nat (push_bit 8 l OR u) :: u16"
  have w: "unat (ucast ?w :: u32) = l * 256 + u" unfolding unat_ucast_u16 sum [symmetric] unfolding unsigned_of_nat of_nat_id by (rule take_bit_nat_eq_self) (use small in simp)
  have "unat (drop_bit 8 (ucast ?w :: u32) AND 3) = l"
    unfolding and_masks unsigned_take_bit_eq unsigned_drop_bit_eq w using assms
    by (simp add: take_bit_eq_mod drop_bit_eq_div)
  then show "ucast (drop_bit 8 (ucast ?w :: u32) AND 3) = (of_nat l :: u16)"
    by (rule ucast_eq_of_nat)
  have "unat ((ucast ?w :: u32) AND 0xff) = u"
    unfolding and_masks unsigned_take_bit_eq using assms by (simp add: w take_bit_eq_mod)
  then show "ucast ((ucast ?w :: u32) AND 0xff) = (of_nat u :: u16)"
    by (rule ucast_eq_of_nat)
qed

lemma register_of_address:
  fixes r :: u16
  shows "ucast (ucast r - UnitRegisterBase :: u32) = r - 0x300"
proof -
  have "uint (ucast (ucast r - UnitRegisterBase :: u32) :: u16) = uint (r - 0x300)"
    unfolding UnitRegisterBase_def unsigned_ucast_eq uint_word_ariths uint_ucast_u16
    using u16_range(2,3) [of r] by (simp add: take_bit_eq_mod mod_mod_cancel)
  then show ?thesis by (rule word_uint_eqI)
qed


lemma script_step_write:
  fixes a :: u16
  shows "script_step (short_write (ucast a + MVLC_VME_InterfaceAddress) v) (l, u, W) =
    (if (ucast a :: u32) = UnitSelectRegister then (ucast (drop_bit 8 v AND 3), ucast (v AND 0xff), W)
     else if unat l < length W then (l, u, store_write W l u (a - 0x300) (ucast v)) else (l, u, W))"
proof -
  have "cmd_type (short_write x v) = CmdWrite" "cmd_address (short_write x v) = x" "cmd_value (short_write x v) = v" for x
    by (simp_all add: short_write_def)
  then show ?thesis
    unfolding script_step_def prod.case Let_def strip_base by (simp only: strip_base register_of_address simp_thms if_False)
qed

lemma script_step_select:
  assumes "l < 4" "u < 256"
  shows "script_step (short_write (ucast (0x200 :: u16) + MVLC_VME_InterfaceAddress)
      (ucast (of_nat (push_bit 8 l OR u) :: u16))) (l', u', W) = (of_nat l, of_nat u, W)"
  unfolding script_step_write by (simp add: UnitSelectRegister_def unit_select_bits [OF assms])

lemma script_step_register:
  fixes r v :: u16
  assumes "l < 4" "length W = 4" "r + 0x300 \<noteq> 0x200"
  shows "script_step (short_write (ucast (r + 0x300) + MVLC_VME_InterfaceAddress) (ucast v)) (of_nat l, of_nat u, W)
    = (of_nat l, of_nat u, writes_wr W ((l, of_nat u), r) v)"
proof -
  have neq: "(ucast (r + 0x300) :: u32) \<noteq> UnitSelectRegister"
  proof
    assume "(ucast (r + 0x300) :: u32) = UnitSelectRegister"
    then have "unat (r + 0x300) = unat UnitSelectRegister" using unat_ucast_u16 [of "r + 0x300"] by simp
    then have "r + 0x300 = 0x200" by (simp add: UnitSelectRegister_def word_unat_eq_iff)
    with assms(3) show False by simp
  qed
  have "unat (of_nat l :: u16) = l" using assms(1) by (simp add: unat_of_nat)
  moreover have "ucast (ucast v :: u32) = v"
    by (rule word_eqI_bits) (auto simp: bit_unsigned_iff)
  ultimately show ?thesis
    using assms(1,2) neq unfolding script_step_write by (simp add: writes_wr_def)
qed

definition block_ok :: "block \<Rightarrow> bool" where
  "block_ok = (\<lambda>((level, unit), regs). level < 4 \<and> unit < 256 \<and> list_all (\<lambda>(r, v). unat r < 0x100) regs)"

definition block_cells :: "block \<Rightarrow> (reg_key \<times> u16) list" where
  "block_cells = (\<lambda>((level, unit), regs). map (\<lambda>(r, v). (((level, of_nat unit), r), v)) regs)"

lemma collect_registers:
  assumes "l < 4" "length W = 4" "list_all (\<lambda>(r, v). unat r < 0x100) regs"
  shows "fold script_step (write_commands (map (\<lambda>(r, v). (r + 0x300, v)) regs)) (of_nat l, of_nat u, W)
    = (of_nat l, of_nat u, level_store.write_all (block_cells ((l, u), regs)) W)"
  using assms(2,3)
proof (induction regs arbitrary: W)
  case Nil
  then show ?case by (simp add: write_commands_def block_cells_def)
next
  case (Cons rv regs)
  obtain r v where rv: "rv = (r, v)" by (cases rv)
  have "unat (r + 0x300) = unat r + 0x300" using Cons.prems(2) by (simp add: rv unat_word_ariths)
  then have "unat (r + 0x300) \<noteq> unat (0x200 :: u16)" by simp
  then have "r + 0x300 \<noteq> 0x200" by metis
  from script_step_register [OF assms(1) Cons.prems(1) this]
  have step: "script_step (short_write (ucast (r + 0x300) + MVLC_VME_InterfaceAddress) (ucast v)) (of_nat l, of_nat u, W)
    = (of_nat l, of_nat u, writes_wr W ((l, of_nat u), r) v)" .
  have "length (writes_wr W ((l, of_nat u), r) v) = 4"
    using Cons.prems(1) assms(1) by (intro level_store.good_wr) simp_all
  with Cons.IH [of "writes_wr W ((l, of_nat u), r) v"] Cons.prems step show ?case
    by (simp add: rv write_commands_def block_cells_def)
qed

lemma collect_blocks:
  assumes "length W = 4" "list_all block_ok blocks"
  shows "\<exists>l u. fold script_step (write_commands (concat (map block_writes blocks))) (l', u', W)
    = (l, u, level_store.write_all (concat (map block_cells blocks)) W)"
  using assms
proof (induction blocks arbitrary: l' u' W)
  case Nil
  then show ?case by (simp add: write_commands_def)
next
  case (Cons b blocks)
  obtain l u regs where b: "b = ((l, u), regs)" by (metis surj_pair)
  have ok: "l < 4" "u < 256" "list_all (\<lambda>(r, v). unat r < 0x100) regs"
    using Cons.prems(2) by (auto simp: b block_ok_def)
  let ?W = "level_store.write_all (block_cells b) W"
  have W: "length ?W = 4"
    using Cons.prems(1) ok(1) by (intro level_store.write_all_good) (auto simp: b block_cells_def)
  have "fold script_step (write_commands (block_writes b)) (l', u', W) = (of_nat l, of_nat u, ?W)"
    using script_step_select [OF ok(1,2)] collect_registers [OF ok(1) Cons.prems(1) ok(3)]
    by (simp add: b block_writes_def write_commands_def)
  moreover obtain l2 u2 where "fold script_step (write_commands (concat (map block_writes blocks))) (of_nat l, of_nat u, ?W)
    = (l2, u2, level_store.write_all (concat (map block_cells blocks)) ?W)"
    using Cons.IH [OF W] Cons.prems(2) by (metis list.pred_inject(2))
  ultimately show ?case
    by (simp add: write_commands_def level_store.write_all_def)
qed


section \<open>Reading a register of the script\<close>

lemma fold_script_step_writes:
  "fold script_step commands st = fold script_step (filter (\<lambda>cmd. cmd_type cmd = CmdWrite) commands) st"
proof (induction commands arbitrary: st)
  case (Cons cmd commands)
  have "script_step cmd st = st" if "cmd_type cmd \<noteq> CmdWrite"
    using that by (cases st) (simp add: script_step_def)
  with Cons show ?case by auto
qed simp

lemma of_nat_u16_inj: "u < 65536 \<Longrightarrow> u' < 65536 \<Longrightarrow> (of_nat u :: u16) = of_nat u' \<longleftrightarrow> u = u'"
  by (simp add: word_unat_eq_iff unat_of_nat)

lemma block_cells_lookup:
  "u < 256 \<Longrightarrow> u' < 256 \<Longrightarrow> map_of (block_cells ((l, u), regs)) ((l', of_nat u'), r)
     = (if l' = l \<and> u' = u then map_of regs r else None)"
  by (induction regs) (auto simp: block_cells_def of_nat_u16_inj)

definition block_good :: "block \<Rightarrow> bool" where
  "block_good b \<longleftrightarrow> block_ok b \<and> distinct (map fst (snd b))"

lemma cells_lookup:
  assumes "list_all block_good blocks" "distinct (map fst blocks)" "u < 256"
  shows "map_of (concat (map block_cells blocks)) ((l, of_nat u), r) = Option.bind (map_of blocks (l, u)) (\<lambda>regs. map_of regs r)"
  using assms(1,2)
proof (induction blocks)
  case (Cons b blocks)
  obtain l' u' regs where b: "b = ((l', u'), regs)" by (metis surj_pair)
  have u': "u' < 256" using Cons.prems(1) by (simp add: b block_good_def block_ok_def)
  have notin: "map_of blocks (l', u') = None"
    using Cons.prems(2) by (simp add: b map_of_eq_None_iff)
  show ?case
    using Cons notin
    by (simp add: b block_cells_lookup [OF u' assms(3)] map_add_def split: option.split) (auto simp: b)
qed simp

lemma cells_distinct:
  assumes "list_all block_good blocks" "distinct (map fst blocks)"
  shows "distinct (map fst (concat (map block_cells blocks)))"
  using assms
proof (induction blocks)
  case (Cons b blocks)
  obtain l u regs where b: "b = ((l, u), regs)" by (metis surj_pair)
  have ok: "u < 256" "distinct (map fst regs)"
    using Cons.prems(1) by (auto simp: b block_good_def block_ok_def)
  have "map fst (block_cells b) = map (Pair (l, of_nat u)) (map fst regs)"
    by (simp add: b block_cells_def comp_def split_def)
  then have "distinct (map fst (block_cells b))" using ok(2) by (simp add: distinct_map inj_on_def)
  moreover have "k \<notin> set (map fst (concat (map block_cells blocks)))" if k: "k \<in> set (map fst (block_cells b))" for k
  proof -
    obtain r where r: "k = ((l, of_nat u), r)" using k by (auto simp: b block_cells_def)
    have "map_of blocks (l, u) = None" using Cons.prems(2) by (simp add: b map_of_eq_None_iff)
    then have "map_of (concat (map block_cells blocks)) k = None"
      using cells_lookup [OF _ _ ok(1), of blocks l r] Cons.prems by (simp add: r)
    then show ?thesis unfolding map_of_eq_None_iff set_map .
  qed
  moreover have "distinct (map fst (concat (map block_cells blocks)))" using Cons by simp
  ultimately show ?case
    unfolding list.map(2) concat.simps(2) map_append distinct_append by blast
qed simp

lemma collected_register:
  assumes "list_all block_good blocks" "distinct (map fst blocks)" "u < 256" "l < 4"
    and "filter (\<lambda>cmd. cmd_type cmd = CmdWrite) commands = write_commands (concat (map block_writes blocks))"
  shows "reg (unit_writes (collect_writes commands ! l) u) r =
    (case Option.bind (map_of blocks (l, u)) (\<lambda>regs. map_of regs (of_nat r)) of None \<Rightarrow> 0 | Some v \<Rightarrow> v)"
proof -
  let ?cells = "concat (map block_cells blocks)"
  let ?W = "replicate LevelCount Map.empty :: LevelWrites"
  have W: "length ?W = 4" by (simp add: LevelCount_def)
  have "list_all block_ok blocks" using assms(1) by (simp add: list_all_iff block_good_def)
  from collect_blocks [OF W this, of 0 0] have W': "collect_writes commands = level_store.write_all ?cells ?W"
    unfolding collect_writes_def fold_script_step_writes [of commands] assms(5) by auto
  have valid: "\<forall>(k, v) \<in> set ?cells. fst (fst k) < 4"
    using assms(1) by (auto simp: list_all_iff block_good_def block_ok_def block_cells_def)
  have init: "writes_rd ?W ((l, of_nat u), of_nat r) = 0"
    using assms(4) by (simp add: writes_rd_def LevelCount_def map_rd_def)
  have "reg (unit_writes (collect_writes commands ! l) u) r
      = writes_rd (level_store.write_all ?cells ?W) ((l, of_nat u), of_nat r)"
    by (simp add: W' writes_rd_def reg_def unit_writes_def)
  also have "\<dots> = (case map_of ?cells ((l, of_nat u), of_nat r) of None \<Rightarrow> 0 | Some v \<Rightarrow> v)"
    by (simp add: level_store.rd_write_all [OF W valid cells_distinct [OF assms(1,2)]] init split: option.split)
  finally show ?thesis by (simp add: cells_lookup [OF assms(1-3)])
qed


section \<open>The blocks of a well-formed configuration\<close>

lemma section_blocks_lookup:
  "map_of (section_blocks l off regs xs) (l', u) =
     (if l' = l \<and> off \<le> u \<and> u < off + length xs then Some (regs u (xs ! (u - off))) else None)"
proof (induction xs arbitrary: off regs)
  case (Cons x xs)
  have "section_blocks l off regs (x # xs) = ((l, off), regs off x) # section_blocks l (Suc off) regs xs"
    by (simp add: section_blocks_def)
      (rule nth_equalityI, simp_all)
  then show ?case using Cons [of "Suc off" regs] by (auto simp: nth_Cons' less_Suc_eq_le)
qed (simp add: section_blocks_def)

lemma section_blocks_keys:
  "map fst (section_blocks l off regs xs) = map (Pair l) [off..<off + length xs]"
  by (rule nth_equalityI) (simp_all add: section_blocks_def)

lemma script_blocks_distinct:
  assumes "wf_trigger_io cfg"
  shows "distinct (map fst (script_blocks cfg))"
  using assms unfolding script_blocks_def map_append section_blocks_keys
  by (auto simp: wf_trigger_io_def io_counts distinct_map inj_on_def simp del: upt_rec_numeral)

lemma lut_regs_keys:
  assumes "wf_lut lut"
  shows "map fst (lut_regs lut) = [0, 2, 4, 6, 8, 10, 12, 14, 16, 18, 20, 22, 24, 26, 28, 30]"
proof -
  have "length (lutContents lut) = 3" using assms by (simp add: wf_lut_def OutputBits_def)
  from make_lut_ram_reads [OF this] have "length (lut_ram_of lut) = 16"
    by (metis lut_ram_of_def old.sum.simps(6))
  then have "map fst (lut_regs lut) = map (\<lambda>i. of_nat (i * 2)) [0..<16]"
    by (intro nth_equalityI) (auto simp: lut_regs_def)
  then show ?thesis by (simp add: upt_conv_Cons)
qed

definition keys_ok :: "(u16 \<times> u16) list \<Rightarrow> bool" where
  "keys_ok regs \<longleftrightarrow> list_all (\<lambda>r. unat r < 0x100) (map fst regs) \<and> distinct (map fst regs)"

lemma regs_keys:
  "map fst (con_regs cfg l u is) = map (\<lambda>i. of_nat (0x80 + 2 * i)) is"
  "map fst (io_regs io n) = [of_nat n, of_nat (n + 2), of_nat (n + 4), of_nat (n + 6)]"
  "map fst (timer_regs t) = [2, 4, 6]"
  "map fst (resource_regs tr) = [0x80, 0, 6, 8, 10, 12, 0x82]"
  "map fst (nim_regs io) = [0, 2, 4, 6, 10, 16]" "map fst (ecl_regs io) = [0, 2, 4, 6, 16]"
  "map fst (start_regs st) = [0, 2, 4]"
  by (simp_all add: con_regs_def io_regs_def timer_regs_def resource_regs_def nim_regs_def ecl_regs_def
      start_regs_def)

lemma section_blocks_good:
  assumes "l < 4" "off + length xs \<le> 256"
    and "\<And>i. i < length xs \<Longrightarrow> keys_ok (regs (i + off) (xs ! i))"
  shows "list_all block_good (section_blocks l off regs xs)"
proof -
  have "list_all (\<lambda>(r, v). unat r < 0x100) rs \<and> distinct (map fst rs)" if "keys_ok rs" for rs
    using that by (auto simp: keys_ok_def list_all_iff)
  with assms show ?thesis by (auto simp: list_all_length section_blocks_def block_good_def block_ok_def)
qed

lemma unit_keys_ok:
  "keys_ok (timer_regs t)" "keys_ok (resource_regs tr)" "keys_ok [(0, x)]" "keys_ok (nim_regs io)" "keys_ok (io_regs io 0)"
  "keys_ok (start_regs st @ con_regs cfg 3 i [0])" "keys_ok ([(0, x)] @ con_regs cfg 3 i [0])"
  "keys_ok ([(14, x)] @ con_regs cfg 3 i [0, 1])" "keys_ok ([] @ con_regs cfg 3 i [0])"
  "keys_ok (ecl_regs io @ con_regs cfg 3 i [0])"
  unfolding keys_ok_def map_append list.map fst_conv regs_keys by simp_all

lemma lut_keys_ok:
  assumes "wf_lut lut"
  shows "keys_ok (l1_regs cfg u lut)" "keys_ok (l2_regs cfg u lut)"
proof -
  show "keys_ok (l2_regs cfg u lut)"
    unfolding keys_ok_def l2_regs_def map_append list.map fst_conv regs_keys lut_regs_keys [OF assms] by simp
  have "keys_ok (lut_regs lut @ con_regs cfg 1 2 [0, 1, 2])" "keys_ok (lut_regs lut @ [])"
    unfolding keys_ok_def map_append list.map fst_conv regs_keys lut_regs_keys [OF assms] by simp_all
  then show "keys_ok (l1_regs cfg u lut)" by (cases "u = 2") (simp_all only: l1_regs_def simp_thms if_True if_False)
qed

lemma script_blocks_good:
  assumes "wf_trigger_io cfg"
  shows "list_all block_good (script_blocks cfg)"
proof -
  note wf = assms [unfolded wf_trigger_io_def io_counts]
  have luts: "i < length (l1_luts (l1 cfg)) \<Longrightarrow> wf_lut (l1_luts (l1 cfg) ! i)"
    "i < length (l2_luts (l2 cfg)) \<Longrightarrow> wf_lut (l2_luts (l2 cfg) ! i)" for i
    using assms by (simp_all add: wf_trigger_io_def list_all_length)
  show ?thesis
    unfolding script_blocks_def list_all_append
    by (intro conjI section_blocks_good) (use wf in \<open>simp_all add: lut_keys_ok luts unit_keys_ok del: append_Cons append_Nil One_nat_def\<close>)
qed


text \<open>The registers of a unit hold what the list says, and 0 otherwise.\<close>

definition reads :: "RegisterWrites \<Rightarrow> (u16 \<times> u16) list \<Rightarrow> bool" where
  "reads w regs \<longleftrightarrow> (\<forall>r. reg w r = (case map_of regs (of_nat r) of None \<Rightarrow> 0 | Some v \<Rightarrow> v))"

lemma readsD: "reads w regs \<Longrightarrow> reg w r = (case map_of regs (of_nat r) of None \<Rightarrow> 0 | Some v \<Rightarrow> v)"
  by (simp add: reads_def)

definition script_of :: "TriggerIO \<Rightarrow> VMEScript \<Rightarrow> bool" where
  "script_of cfg commands \<longleftrightarrow>
     filter (\<lambda>cmd. cmd_type cmd = CmdWrite) commands = write_commands (concat (map block_writes (script_blocks cfg)))"

lemma unit_reads:
  assumes "wf_trigger_io cfg" "script_of cfg commands" "map_of (script_blocks cfg) (l, u) = Some regs" "u < 256" "l < 4"
  shows "reads (unit_writes (collect_writes commands ! l) u) regs"
  unfolding reads_def
  using collected_register [OF script_blocks_good [OF assms(1)] script_blocks_distinct [OF assms(1)] assms(4,5)
      assms(2) [unfolded script_of_def]] assms(3)
  by simp

lemma script_blocks_lookup:
  assumes "wf_trigger_io cfg"
  shows "i < 4 \<Longrightarrow> map_of (script_blocks cfg) (0, i) = Some (timer_regs (timers (l0 cfg) ! i))"
    and "i < 8 \<Longrightarrow> map_of (script_blocks cfg) (0, i + 4) = Some (resource_regs (triggerResources (l0 cfg) ! i))"
    and "i < 2 \<Longrightarrow> map_of (script_blocks cfg) (0, i + 12) = Some [(0, sb_stackIndex (stackBusy (l0 cfg) ! i))]"
    and "i < 14 \<Longrightarrow> map_of (script_blocks cfg) (0, i + 16) = Some (nim_regs (ioNIM (l0 cfg) ! i))"
    and "i < 6 \<Longrightarrow> map_of (script_blocks cfg) (0, i + 33) = Some (io_regs (ioIRQ (l0 cfg) ! i) 0)"
    and "i < 7 \<Longrightarrow> map_of (script_blocks cfg) (1, i) = Some (l1_regs cfg i (l1_luts (l1 cfg) ! i))"
    and "i < 3 \<Longrightarrow> map_of (script_blocks cfg) (2, i) = Some (l2_regs cfg i (l2_luts (l2 cfg) ! i))"
    and "i < 4 \<Longrightarrow> map_of (script_blocks cfg) (3, i) = Some (start_regs (stackStart (l3 cfg) ! i) @ con_regs cfg 3 i [0])"
    and "i < 4 \<Longrightarrow> map_of (script_blocks cfg) (3, i + 4)
      = Some ([(0, of_bool (mt_activate (masterTriggers (l3 cfg) ! i)))] @ con_regs cfg 3 (i + 4) [0])"
    and "i < 8 \<Longrightarrow> map_of (script_blocks cfg) (3, i + 8)
      = Some ([(14, of_bool (c_clearOnLatch (counters (l3 cfg) ! i)))] @ con_regs cfg 3 (i + 8) [0, 1])"
    and "i < 14 \<Longrightarrow> map_of (script_blocks cfg) (3, i + 16) = Some ([] @ con_regs cfg 3 (i + 16) [0])"
    and "i < 3 \<Longrightarrow> map_of (script_blocks cfg) (3, i + 30)
      = Some (ecl_regs (ioECL (l3 cfg) ! i) @ con_regs cfg 3 (i + 30) [0])"
  using assms
  by (simp_all add: wf_trigger_io_def io_counts script_blocks_def map_of_append map_add_def section_blocks_lookup
      del: append_Cons append_Nil upt_rec_numeral One_nat_def)

section \<open>What a script stores\<close>

definition plain_io :: "IO \<Rightarrow> IO" where
  "plain_io io = io\<lparr>io_direction := 0, io_activate := False\<rparr>"

definition stored_resource :: "TriggerResource \<Rightarrow> TriggerResource" where
  "stored_resource r = r\<lparr>slaveTrigger := (slaveTrigger r)\<lparr>gateGenerator := plain_io (gateGenerator (slaveTrigger r))\<rparr>\<rparr>"

definition stored_gg :: "IO \<Rightarrow> IO" where
  "stored_gg io = (let io = plain_io io in if io_width io = 0 then io\<lparr>io_width := StrobeGGDefaultWidth\<rparr> else io)"

lemma parse_io_reads:
  "reads w (io_regs io 0) \<Longrightarrow> parse_io w 0 = plain_io io"
  "reads w (nim_regs io) \<Longrightarrow> parse_io w 0 = io"
  "reads w (ecl_regs io @ con_regs cfg 3 u [0]) \<Longrightarrow> parse_io w 0 = io\<lparr>io_direction := 0\<rparr>"
  by (simp_all add: parse_io_def readsD io_regs_def nim_regs_def ecl_regs_def plain_io_def con_regs_def)

lemma parse_resource_reads:
  assumes "reads w (resource_regs r)"
  shows "parse_trigger_resource w = stored_resource r"
proof -
  have "ucast (ucast x :: u16) = x" for x :: u8
    by (rule word_eqI_bits) (auto simp: bit_unsigned_iff)
  then show ?thesis
    using assms by (simp add: parse_trigger_resource_def parse_io_def readsD resource_regs_def io_regs_def
        stored_resource_def plain_io_def)
qed


lemma lut_regs_lookup:
  assumes "wf_lut lut"
  shows "i < 16 \<Longrightarrow> map_of (lut_regs lut) (of_nat (i * 2)) = Some (lut_ram_of lut ! i)"
    and "16 \<le> k \<Longrightarrow> k < 0x100 \<Longrightarrow> map_of (lut_regs lut) (of_nat (2 * k)) = None"
    and "length (lut_ram_of lut) = 16" "parse_lut_contents (lut_ram_of lut) = Inr (lutContents lut)"
proof -
  have len: "length (lutContents lut) = 3" using assms by (simp add: wf_lut_def OutputBits_def)
  obtain ram where ram: "make_lut_ram lut = Inr ram" "length ram = 16"
    "\<And>a. a < 64 \<Longrightarrow> ram_rd ram (of_nat a) = cell_byte (lutContents lut) a"
    by (rule make_lut_ram_reads [OF len]) blast
  have of_ram: "lut_ram_of lut = ram" by (simp add: lut_ram_of_def ram(1))
  show "length (lut_ram_of lut) = 16" by (simp add: of_ram ram(2))
  show "parse_lut_contents (lut_ram_of lut) = Inr (lutContents lut)"
    unfolding of_ram by (rule parse_lut_contents_of_ram [OF len ram(3)])
  show "map_of (lut_regs lut) (of_nat (i * 2)) = Some (lut_ram_of lut ! i)" if "i < 16"
  proof (rule map_of_is_SomeI)
    show "distinct (map fst (lut_regs lut))" unfolding lut_regs_keys [OF assms] by simp
    have "lut_regs lut ! i = (of_nat (i * 2), lut_ram_of lut ! i)" "i < length (lut_regs lut)"
      using that ram(2) by (simp_all add: lut_regs_def of_ram)
    then show "(of_nat (i * 2), lut_ram_of lut ! i) \<in> set (lut_regs lut)" by (metis nth_mem)
  qed
  show "map_of (lut_regs lut) (of_nat (2 * k)) = None" if "16 \<le> k" "k < 0x100"
  proof -
    have keys: "set (map fst (lut_regs lut)) \<subseteq> (\<lambda>i. of_nat (i * 2)) ` {0..<16}"
      using ram(2) by (auto simp: lut_regs_def of_ram set_indexed)
    have "(of_nat (2 * k) :: u16) \<noteq> of_nat (i * 2)" if "i < 16" for i
      using \<open>16 \<le> k\<close> \<open>k < 0x100\<close> that of_nat_u16_inj [of "2 * k" "i * 2"] by simp
    then have "of_nat (2 * k) \<notin> set (map fst (lut_regs lut))" using keys by fastforce
    then show ?thesis unfolding map_of_eq_None_iff set_map .
  qed
qed

lemma parse_lut_reads:
  assumes "wf_lut lut" "reads w (lut_regs lut @ regs)"
  shows "parse_lut_contents (parse_lut_ram w) = Inr (lutContents lut)"
    and "16 \<le> k \<Longrightarrow> k < 0x100 \<Longrightarrow> reg w (2 * k) = (case map_of regs (of_nat (2 * k)) of None \<Rightarrow> 0 | Some v \<Rightarrow> v)"
proof -
  have "reg w (i * 2) = lut_ram_of lut ! i" if "i < 16" for i
    using lut_regs_lookup(1) [OF assms(1) that] readsD [OF assms(2)]
    by (simp add: map_of_append map_add_def)
  then have "parse_lut_ram w = lut_ram_of lut"
    using lut_regs_lookup(3) [OF assms(1)] by (intro nth_equalityI) (simp_all add: parse_lut_ram_def)
  then show "parse_lut_contents (parse_lut_ram w) = Inr (lutContents lut)"
    by (simp add: lut_regs_lookup(4) [OF assms(1)])
  show "reg w (2 * k) = (case map_of regs (of_nat (2 * k)) of None \<Rightarrow> 0 | Some v \<Rightarrow> v)" if "16 \<le> k" "k < 0x100"
    using lut_regs_lookup(2) [OF assms(1) that] readsD [OF assms(2), of "2 * k"]
    by (simp add: map_of_append map_add_def split: option.split)
qed

lemma parse_l1_lut_reads:
  assumes "wf_lut lut" "reads w (l1_regs cfg u lut)"
  shows "parse_lut w names defaults =
    Inr \<lparr>lutContents = lutContents lut, strobedOutputs = 0, strobeGG = default_strobeGG,
         defaultOutputNames = defaults, outputNames = names\<rparr>"
proof -
  let ?regs = "if u = 2 then con_regs cfg 1 2 [0, 1, 2] else []"
  have rd: "reads w (lut_regs lut @ ?regs)" using assms(2) by (simp add: l1_regs_def)
  have zero: "reg w (2 * k) = 0" if "16 \<le> k" "k < 64" for k
  proof -
    have "(of_nat (2 * k) :: u16) \<noteq> of_nat (0x80 + 2 * i)" if "i < 3" for i
      using \<open>16 \<le> k\<close> \<open>k < 64\<close> that of_nat_u16_inj [of "2 * k" "0x80 + 2 * i"] by simp
    from this [of 0] this [of 1] this [of 2] have "map_of ?regs (of_nat (2 * k)) = None"
      by (simp add: con_regs_def)
    then show ?thesis using parse_lut_reads(2) [OF assms(1) rd, of k] that by simp
  qed
  show ?thesis
    using zero [of 16] zero [of 25] zero [of 26] zero [of 27] zero [of 28] zero [of 30] zero [of 33]
    by (simp add: parse_lut_def parse_lut_reads(1) [OF assms(1) rd] parse_io_def StrobeGGIOOffset_def
        default_strobeGG_def zero_io_def Let_def)
qed

lemma parse_l2_lut_reads:
  assumes "wf_lut lut" "reads w (l2_regs cfg u lut)"
  shows "parse_lut w names defaults =
    Inr \<lparr>lutContents = lutContents lut, strobedOutputs = strobedOutputs lut, strobeGG = stored_gg (strobeGG lut),
         defaultOutputNames = defaults, outputNames = names\<rparr>"
proof -
  note rd = assms(2) [unfolded l2_regs_def]
  note reg_w = parse_lut_reads(2) [OF assms(1) rd]
  have "ucast (ucast x :: u16) = x" for x :: "3 word"
    by (rule word_eqI_bits) (auto simp: bit_unsigned_iff)
  then show ?thesis
    using reg_w [of 16] reg_w [of 25] reg_w [of 26] reg_w [of 27] reg_w [of 28] reg_w [of 30] reg_w [of 33]
    by (simp add: parse_lut_def parse_lut_reads(1) [OF assms(1) rd] parse_io_def StrobeGGIOOffset_def
        stored_gg_def plain_io_def Let_def con_regs_def io_regs_def)
qed

lemma choices_short:
  assumes "x \<in> set dynamic_inputs"
  shows "length (choices_of x) < 65536"
proof -
  have lists: "length l3_start_choices < 65536" "length l3_counter_choices < 65536" "length (Level2LUTs01 @ Level2LUT2) < 65536"
    "length (strobeChoices (l2_choices_of_unit u)) < 65536" for u
    by (simp_all add: l3_start_choices_def l3_counter_choices_def Level2LUTs01_def Level2LUT2_def
        strobeChoices_eq SysClockOffset_def)
  obtain l u i where x: "x = (l, u, i)" by (cases x) auto
  have "l = 1 \<and> u = 2 \<and> i < 3 \<or> l = 2 \<and> u < 3 \<and> i < 3 \<or> l = 2 \<and> u < 3 \<and> i = 6
     \<or> l = 3 \<and> (u < 33 \<and> i = 0 \<or> 8 \<le> u \<and> u < 16 \<and> i = 1)"
    using assms unfolding x dynamic_inputs_iff by blast
  then show ?thesis
  proof (elim disjE)
    assume c: "l = 1 \<and> u = 2 \<and> i < 3"
    then have "i = 0 \<or> i = 1 \<or> i = 2" by linarith
    with c show ?thesis by (auto simp: x LUT2DynamicInputChoices_def)
  next
    assume "l = 2 \<and> u < 3 \<and> i < 3"
    then show ?thesis by (simp add: x io_counts lutChoices_nth)
  next
    assume "l = 2 \<and> u < 3 \<and> i = 6"
    then show ?thesis using lists(4) by (simp add: x io_counts)
  next
    assume "l = 3 \<and> (u < 33 \<and> i = 0 \<or> 8 \<le> u \<and> u < 16 \<and> i = 1)"
    then show ?thesis using lists by (cases "u < 8"; cases "u < 16") (auto simp: x make_l3_nth)
  qed
qed

text \<open>A connection register holds the selected value.\<close>

lemma read_connection_valid:
  assumes "valid_connections cfg" "(l, u, i) \<in> set dynamic_inputs"
    and "reg w (0x80 + 2 * k) = of_nat (con cfg (l, u, i))"
  shows "Some (read_connection w k) = get_connection_value cfg (l, u, i)"
proof -
  obtain v where v: "get_connection_value cfg (l, u, i) = Some v" "v < length (choices_of (l, u, i))"
    using valid_connectionE [OF assms(1,2)] .
  then have "v < 65536" using choices_short [OF assms(2)] by linarith
  then show ?thesis using v(1) assms(3) by (simp add: read_connection_def UnitConnectBase_def con_def unat_of_nat)
qed

lemma set_connections_nth:
  "u < length cons \<Longrightarrow> set_connections writes off n inputs cons ! u =
    (if off \<le> u \<and> u < off + n then map (read_connection (unit_writes writes u)) inputs else cons ! u)"
  and set_connections_length: "length (set_connections writes off n inputs cons) = length cons"
proof -
  have F: "length (fold (\<lambda>unit cs. cs[unit := f unit]) us xs) = length xs
      \<and> (u < length xs \<longrightarrow> fold (\<lambda>unit cs. cs[unit := f unit]) us xs ! u = (if u \<in> set us then f u else xs ! u))"
    for f :: "nat \<Rightarrow> nat list" and us xs and u
    by (induction us arbitrary: xs) (auto simp: nth_list_update)
  show "length (set_connections writes off n inputs cons) = length cons"
    using F by (simp add: set_connections_def)
  show "u < length cons \<Longrightarrow> set_connections writes off n inputs cons ! u =
    (if off \<le> u \<and> u < off + n then map (read_connection (unit_writes writes u)) inputs else cons ! u)"
    using F by (simp add: set_connections_def)
qed

section \<open>Building the configuration\<close>

definition inputs_of_l3 :: "nat \<Rightarrow> nat list" where
  "inputs_of_l3 u = (if 8 \<le> u \<and> u < 16 then [0, 1] else [0])"

definition stored_level0 :: "Level0 \<Rightarrow> Level0" where
  "stored_level0 l =
     l\<lparr>triggerResources := map stored_resource (triggerResources l), ioIRQ := map plain_io (ioIRQ l)\<rparr>"

definition stored_l1_lut :: "nat \<times> LUT \<Rightarrow> LUT" where
  "stored_l1_lut = (\<lambda>(unit, lut). lut\<lparr>strobedOutputs := 0, strobeGG := default_strobeGG,
     defaultOutputNames := map (lut_output_name 1 unit) [0..<OutputBits]\<rparr>)"

definition stored_l2_lut :: "nat \<times> LUT \<Rightarrow> LUT" where
  "stored_l2_lut = (\<lambda>(unit, lut). lut\<lparr>strobeGG := stored_gg (strobeGG lut),
     defaultOutputNames := map (lut_output_name 2 unit) [0..<OutputBits]\<rparr>)"

definition stored_level3 :: "TriggerIO \<Rightarrow> Level3" where
  "stored_level3 cfg =
     (l3 cfg)\<lparr>l3_ioNIM := ioNIM (l0 cfg), ioECL := map (\<lambda>io. io\<lparr>io_direction := 0\<rparr>) (ioECL (l3 cfg)),
       connections := map (\<lambda>(u, cs). take (length (inputs_of_l3 u)) cs) (indexed 0 (connections (l3 cfg))),
       l3_unitNames := map (\<lambda>(i, n). if is_l3_nim i then value_at (l0_unitNames (l0 cfg)) i else n)
         (indexed 0 (l3_unitNames (l3 cfg)))\<rparr>"

definition stored_config :: "TriggerIO \<Rightarrow> TriggerIO" where
  "stored_config cfg =
     \<lparr>l0 = stored_level0 (l0 cfg),
      l1 = (l1 cfg)\<lparr>l1_luts := map stored_l1_lut (indexed 0 (l1_luts (l1 cfg)))\<rparr>,
      l2 = (l2 cfg)\<lparr>l2_luts := map stored_l2_lut (indexed 0 (l2_luts (l2 cfg)))\<rparr>,
      l3 = stored_level3 cfg\<rparr>"

text \<open>What the registers alone determine: names and soft activation flags are the initial ones.\<close>

definition reset_lut_outputs :: "LUT \<Rightarrow> LUT" where
  "reset_lut_outputs lut = lut\<lparr>outputNames := defaultOutputNames lut\<rparr>"

definition registers_config :: "TriggerIO \<Rightarrow> TriggerIO" where
  "registers_config cfg =
     (let s = stored_config cfg
      in \<lparr>l0 = (l0 s)\<lparr>timers := map (\<lambda>t. t\<lparr>t_softActivate := False\<rparr>) (timers (l0 s)),
                      l0_unitNames := L0_DefaultUnitNames\<rparr>,
          l1 = (l1 s)\<lparr>l1_luts := map reset_lut_outputs (l1_luts (l1 s))\<rparr>,
          l2 = (l2 s)\<lparr>l2_luts := map reset_lut_outputs (l2_luts (l2 s))\<rparr>,
          l3 = (l3 s)\<lparr>counters := map (\<lambda>c. c\<lparr>c_softActivate := False\<rparr>) (counters (l3 s)),
                      l3_unitNames := L3_DefaultUnitNames\<rparr>\<rparr>)"


lemma parse_level0_stored:
  assumes "wf_trigger_io cfg" "script_of cfg commands"
  shows "parse_level0 (collect_writes commands ! 0) new_level0 = l0 (registers_config cfg)"
proof -
  note wf = assms(1) [unfolded wf_trigger_io_def io_counts]
  note rd = unit_reads [OF assms script_blocks_lookup(1) [OF assms(1)]]
    unit_reads [OF assms script_blocks_lookup(2) [OF assms(1)]]
    unit_reads [OF assms script_blocks_lookup(3) [OF assms(1)]]
    unit_reads [OF assms script_blocks_lookup(4) [OF assms(1)]]
    unit_reads [OF assms script_blocks_lookup(5) [OF assms(1)]]
  have timer: "parse_timer \<lparr>t_range = 0, t_delay_ns = 0, t_period = 0, t_softActivate = False\<rparr> w
      = t\<lparr>t_softActivate := False\<rparr>" if "reads w (timer_regs t)" for w t
    by (simp add: parse_timer_def readsD [OF that] timer_regs_def)
  have busy: "\<lparr>sb_stackIndex = reg w 0\<rparr> = b" if "reads w [(0, sb_stackIndex b)]" for w and b :: StackBusy
    by (simp add: readsD [OF that])
  show ?thesis
    using wf
    by (intro Level0.equality; (intro nth_equalityI)?)
      (simp_all add: parse_level0_def registers_config_def stored_config_def stored_level0_def new_level0_def
        io_counts Let_def rd timer busy parse_io_reads parse_resource_reads)
qed


lemma parse_luts_stored:
  assumes "\<And>i. i < n \<Longrightarrow> parse_lut (unit_writes writes i) (outputNames (f i)) (defaultOutputNames (f i)) = Inr (g i)"
  shows "parse_luts writes (map f [0..<n]) = Inr (map g [0..<n])"
proof -
  have "parse_luts writes (map f [0..<n]) = Inr (map (\<lambda>(i, u). g i) (indexed 0 (map f [0..<n])))"
    unfolding parse_luts_def by (rule map_err_Inr) (auto simp: in_set_indexed_iff assms)
  moreover have "map (\<lambda>(i, u). g i) (indexed 0 (map f [0..<n])) = map g [0..<n]"
    by (rule nth_equalityI) simp_all
  ultimately show ?thesis by simp
qed

lemma named_new_lut:
  "outputNames (named_lut level unit new_lut) = map (lut_output_name level unit) [0..<OutputBits]"
  "defaultOutputNames (named_lut level unit new_lut) = map (lut_output_name level unit) [0..<OutputBits]"
  by (simp_all add: named_lut_def new_lut_def Let_def)

lemma read_unit_connections:
  assumes "wf_trigger_io cfg" "valid_connections cfg" "script_of cfg commands"
    and "map_of (script_blocks cfg) (l, u) = Some regs" "u < 256" "l < 4" "(l, u, i) \<in> set dynamic_inputs"
    and "map_of regs (of_nat (0x80 + 2 * k)) = Some (of_nat (con cfg (l, u, i)))"
  shows "Some (read_connection (unit_writes (collect_writes commands ! l) u) k) = get_connection_value cfg (l, u, i)"
  by (rule read_connection_valid [OF assms(2,7)])
    (simp only: readsD [OF unit_reads [OF assms(1,3,4,5,6)]] assms(8) option.case)

lemma parse_level1_stored:
  assumes "wf_trigger_io cfg" "valid_connections cfg" "script_of cfg commands"
  shows "parse_level1 (collect_writes commands ! 1) new_level1 = Inr (l1 (registers_config cfg))"
proof -
  let ?w = "unit_writes (collect_writes commands ! 1)"
  have wf: "wf_lut (l1_luts (l1 cfg) ! i)" if "i < 7" for i
    using assms(1) that by (simp add: wf_trigger_io_def list_all_length L1_LUTCount_def)
  have len: "length (l1_luts (l1 cfg)) = 7" "length (lut2Connections (l1 cfg)) = 3"
    using assms(1) by (simp_all add: wf_trigger_io_def io_counts)
  define g where "g i = reset_lut_outputs (stored_l1_lut (i, l1_luts (l1 cfg) ! i))" for i
  have "parse_lut (?w i) (outputNames (named_lut 1 i new_lut)) (defaultOutputNames (named_lut 1 i new_lut)) = Inr (g i)"
    if i: "i < L1_LUTCount" for i
  proof -
    have "i < 7" using i by (simp add: L1_LUTCount_def)
    then have "reads (?w i) (l1_regs cfg i (l1_luts (l1 cfg) ! i))"
      by (intro unit_reads [OF assms(1,3)] script_blocks_lookup(6) [OF assms(1)]) simp_all
    from parse_l1_lut_reads [OF wf [OF \<open>i < 7\<close>] this] show ?thesis
      by (simp add: named_new_lut g_def stored_l1_lut_def reset_lut_outputs_def)
  qed
  from parse_luts_stored [of L1_LUTCount _ "\<lambda>i. named_lut 1 i new_lut" g, OF this]
  have luts: "parse_luts (collect_writes commands ! 1) (l1_luts new_level1) = Inr (map g [0..<L1_LUTCount])"
    by (simp add: new_luts)
  have luts': "map g [0..<L1_LUTCount] = l1_luts (l1 (registers_config cfg))"
    by (rule nth_equalityI) (simp_all add: len L1_LUTCount_def g_def registers_config_def stored_config_def Let_def)
  have con: "read_connection (?w 2) i = lut2Connections (l1 cfg) ! i" if "i < 3" for i
  proof -
    have "map_of (script_blocks cfg) (1, 2) = Some (l1_regs cfg 2 (l1_luts (l1 cfg) ! 2))"
      by (rule script_blocks_lookup(6) [OF assms(1)]) simp
    moreover have "(1, 2, i) \<in> set dynamic_inputs" using that by (simp only: dynamic_inputs_iff simp_thms)
    moreover have "map_of (l1_regs cfg 2 (l1_luts (l1 cfg) ! 2)) (of_nat (0x80 + 2 * i)) = Some (of_nat (con cfg (1, 2, i)))"
    proof -
      have "map_of (lut_regs (l1_luts (l1 cfg) ! 2)) (of_nat (2 * (64 + i))) = None"
        by (rule lut_regs_lookup(2) [OF wf]) (use that in simp_all)
      moreover have "i = 0 \<or> i = 1 \<or> i = 2" using that by linarith
      ultimately show ?thesis by (auto simp: l1_regs_def con_regs_def map_of_append map_add_def)
    qed
    ultimately have "Some (read_connection (?w 2) i) = get_connection_value cfg (1, 2, i)"
      by (intro read_unit_connections [OF assms]) simp_all
    then show ?thesis using that len by simp
  qed
  have cons: "map (read_connection (?w 2)) [0..<LUT_DynamicInputCount] = lut2Connections (l1 cfg)"
    by (rule nth_equalityI) (simp_all add: len con LUT_DynamicInputCount_def del: One_nat_def)
  have "2 < length (l1_luts new_level1)" by (simp add: new_luts L1_LUTCount_def)
  then show ?thesis
    by (simp add: parse_level1_def luts luts' cons del: One_nat_def) (simp add: registers_config_def stored_config_def Let_def)
qed

lemma l2_connection_regs:
  assumes "wf_lut lut"
  shows "map_of (l2_regs cfg u lut) 0x80 = Some (of_nat (con cfg (2, u, 0)))"
    and "map_of (l2_regs cfg u lut) 0x82 = Some (of_nat (con cfg (2, u, 1)))"
    and "map_of (l2_regs cfg u lut) 0x84 = Some (of_nat (con cfg (2, u, 2)))"
    and "map_of (l2_regs cfg u lut) 0x86 = Some (of_nat (con cfg (2, u, 6)))"
proof -
  have none: "map_of (lut_regs lut) 0x80 = None" "map_of (lut_regs lut) 0x82 = None"
    "map_of (lut_regs lut) 0x84 = None" "map_of (lut_regs lut) 0x86 = None"
    unfolding map_of_eq_None_iff set_map [symmetric] lut_regs_keys [OF assms] by simp_all
  show "map_of (l2_regs cfg u lut) 0x80 = Some (of_nat (con cfg (2, u, 0)))"
    "map_of (l2_regs cfg u lut) 0x82 = Some (of_nat (con cfg (2, u, 1)))"
    "map_of (l2_regs cfg u lut) 0x84 = Some (of_nat (con cfg (2, u, 2)))"
    "map_of (l2_regs cfg u lut) 0x86 = Some (of_nat (con cfg (2, u, 6)))"
    by (simp_all add: l2_regs_def con_regs_def io_regs_def map_of_append map_add_def none del: One_nat_def)
qed

lemma parse_level2_stored:
  assumes "wf_trigger_io cfg" "valid_connections cfg" "script_of cfg commands"
  shows "parse_level2 (collect_writes commands ! 2) new_level2 = Inr (l2 (registers_config cfg))"
proof -
  let ?w = "unit_writes (collect_writes commands ! 2)"
  have wf: "wf_lut (l2_luts (l2 cfg) ! i)" "length (lutConnections (l2 cfg) ! i) = 3" if "i < 3" for i
    using assms(1) that by (simp_all add: wf_trigger_io_def list_all_length io_counts)
  have len: "length (l2_luts (l2 cfg)) = 3" "length (lutConnections (l2 cfg)) = 3" "length (strobeConnections (l2 cfg)) = 3"
    using assms(1) by (simp_all add: wf_trigger_io_def io_counts)
  define g where "g i = reset_lut_outputs (stored_l2_lut (i, l2_luts (l2 cfg) ! i))" for i
  have block: "map_of (script_blocks cfg) (2, i) = Some (l2_regs cfg i (l2_luts (l2 cfg) ! i))" if "i < 3" for i
    using script_blocks_lookup(7) [OF assms(1) that] .
  have "parse_lut (?w i) (outputNames (named_lut 2 i new_lut)) (defaultOutputNames (named_lut 2 i new_lut)) = Inr (g i)"
    if i: "i < L2_LUTCount" for i
  proof -
    have "i < 3" using i by (simp add: L2_LUTCount_def)
    then have "reads (?w i) (l2_regs cfg i (l2_luts (l2 cfg) ! i))"
      by (intro unit_reads [OF assms(1,3)] block) simp_all
    from parse_l2_lut_reads [OF wf(1) [OF \<open>i < 3\<close>] this] show ?thesis
      by (simp add: named_new_lut g_def stored_l2_lut_def reset_lut_outputs_def)
  qed
  from parse_luts_stored [of L2_LUTCount _ "\<lambda>i. named_lut 2 i new_lut" g, OF this]
  have luts: "parse_luts (collect_writes commands ! 2) (l2_luts new_level2) = Inr (map g [0..<L2_LUTCount])"
    by (simp add: new_luts)
  have luts': "map g [0..<L2_LUTCount] = l2_luts (l2 (registers_config cfg))"
    by (rule nth_equalityI) (simp_all add: len L2_LUTCount_def g_def registers_config_def stored_config_def Let_def)
  have con: "read_connection (?w u) i = lutConnections (l2 cfg) ! u ! i" if "u < 3" "i < 3" for u i
  proof -
    have "(2, u, i) \<in> set dynamic_inputs" using that by (simp only: dynamic_inputs_iff simp_thms)
    moreover have "i = 0 \<or> i = 1 \<or> i = 2" using that by linarith
    then have "map_of (l2_regs cfg u (l2_luts (l2 cfg) ! u)) (of_nat (0x80 + 2 * i)) = Some (of_nat (con cfg (2, u, i)))"
      by (elim disjE) (simp_all add: l2_connection_regs [OF wf(1) [OF that(1)]])
    ultimately have "Some (read_connection (?w u) i) = get_connection_value cfg (2, u, i)"
      using that by (intro read_unit_connections [OF assms block]) simp_all
    then show ?thesis using that len wf(2) [OF that(1)] by (simp add: InputBits_def)
  qed
  have strobe: "read_connection (?w u) 3 = strobeConnections (l2 cfg) ! u" if "u < 3" for u
  proof -
    have "(2, u, 6) \<in> set dynamic_inputs" using that by (simp only: dynamic_inputs_iff simp_thms)
    moreover have "map_of (l2_regs cfg u (l2_luts (l2 cfg) ! u)) (of_nat (0x80 + 2 * 3)) = Some (of_nat (con cfg (2, u, 6)))"
      by (simp add: l2_connection_regs [OF wf(1) [OF that]])
    ultimately have "Some (read_connection (?w u) 3) = get_connection_value cfg (2, u, 6)"
      using that by (intro read_unit_connections [OF assms block]) simp_all
    then show ?thesis using that len by (simp add: InputBits_def)
  qed
  have cons: "map (\<lambda>(i, _). map (read_connection (?w i)) [0..<LUT_DynamicInputCount])
      (indexed 0 (map g [0..<L2_LUTCount])) = lutConnections (l2 cfg)"
    by (intro nth_equalityI) (simp_all add: len con wf(2) LUT_DynamicInputCount_def L2_LUTCount_def)
  have strobes: "map (\<lambda>(i, _). read_connection (?w i) 3) (indexed 0 (map g [0..<L2_LUTCount])) = strobeConnections (l2 cfg)"
    by (rule nth_equalityI) (simp_all add: len strobe L2_LUTCount_def)
  show ?thesis
    by (simp only: parse_level2_def luts bind_err_simps cons strobes, simp only: luts')
      (simp add: registers_config_def stored_config_def Let_def)
qed


lemma take_inputs:
  assumes "wf_trigger_io cfg" "valid_connections cfg" "u < 33"
    and "\<And>i. i \<in> set (inputs_of_l3 u) \<Longrightarrow> Some (f i) = get_connection_value cfg (3, u, i)"
  shows "map f (inputs_of_l3 u) = take (length (inputs_of_l3 u)) (connections (l3 cfg) ! u)"
proof -
  have len: "length (connections (l3 cfg)) = 33" using assms(1) by (simp add: wf_trigger_io_def io_counts)
  have f: "i < length (connections (l3 cfg) ! u) \<and> connections (l3 cfg) ! u ! i = f i" if "i \<in> set (inputs_of_l3 u)" for i
    using assms(4) [OF that] assms(3) len
    by (auto simp: at_opt_def split: if_splits)
  have "inputs_of_l3 u = [0..<length (inputs_of_l3 u)]" by (simp add: inputs_of_l3_def)
  then have n: "i \<in> set (inputs_of_l3 u) \<longleftrightarrow> i < length (inputs_of_l3 u)" "inputs_of_l3 u = [0..<length (inputs_of_l3 u)]" for i
    by (metis atLeast_upt lessThan_iff)+
  have "length (inputs_of_l3 u) \<le> length (connections (l3 cfg) ! u)"
    using f n(1) by (metis not_le_imp_less order_less_irrefl)
  then show ?thesis
    using f n(1) by (subst n(2), intro nth_equalityI) simp_all
qed

lemma l3_block:
  assumes "wf_trigger_io cfg" "u < 33"
  obtains regs where "map_of (script_blocks cfg) (3, u) = Some (regs @ con_regs cfg 3 u (inputs_of_l3 u))"
    and "0x80 \<notin> set (map fst regs)" "0x82 \<notin> set (map fst regs)"
proof -
  note blocks = script_blocks_lookup(8-12) [OF assms(1)]
  have inputs: "inputs_of_l3 i = (if 8 \<le> i \<and> i < 16 then [0, 1] else [0])" for i by (simp add: inputs_of_l3_def)
  have "u < 4 \<or> u - 4 < 4 \<and> u = (u - 4) + 4 \<and> u < 8 \<or> u - 8 < 8 \<and> u = (u - 8) + 8 \<and> 8 \<le> u \<and> u < 16
      \<or> u - 16 < 14 \<and> u = (u - 16) + 16 \<and> 16 \<le> u \<or> u - 30 < 3 \<and> u = (u - 30) + 30 \<and> 30 \<le> u"
    using assms(2) by arith
  then show thesis
  proof (elim disjE conjE)
    assume "u < 4"
    then show thesis
      by (intro that [of "start_regs (stackStart (l3 cfg) ! u)"]) (simp_all add: blocks(1) inputs start_regs_def)
  next
    assume "u - 4 < 4" "u = (u - 4) + 4" "u < 8"
    then show thesis
      using blocks(2) [of "u - 4"]
      by (intro that [of "[(0, of_bool (mt_activate (masterTriggers (l3 cfg) ! (u - 4))))]"])
        (simp_all add: inputs)
  next
    assume "u - 8 < 8" "u = (u - 8) + 8" "8 \<le> u" "u < 16"
    then show thesis
      using blocks(3) [of "u - 8"]
      by (intro that [of "[(14, of_bool (c_clearOnLatch (counters (l3 cfg) ! (u - 8))))]"])
        (simp_all add: inputs)
  next
    assume "u - 16 < 14" "u = (u - 16) + 16" "16 \<le> u"
    then show thesis
      using blocks(4) [of "u - 16"] by (intro that [of "[]"]) (simp_all add: inputs)
  next
    assume "u - 30 < 3" "u = (u - 30) + 30" "30 \<le> u"
    then show thesis
      using blocks(5) [of "u - 30"]
      by (intro that [of "ecl_regs (ioECL (l3 cfg) ! (u - 30))"]) (simp_all add: inputs ecl_regs_def io_regs_def)
  qed
qed

lemma l3_read_connection:
  assumes "wf_trigger_io cfg" "valid_connections cfg" "script_of cfg commands" "u < 33" "i \<in> set (inputs_of_l3 u)"
  shows "Some (read_connection (unit_writes (collect_writes commands ! 3) u) i) = get_connection_value cfg (3, u, i)"
proof -
  have dyn: "(3, u, i) \<in> set dynamic_inputs"
    using assms(4,5) by (auto simp: dynamic_inputs_iff inputs_of_l3_def split: if_splits)
  obtain regs where block: "map_of (script_blocks cfg) (3, u) = Some (regs @ con_regs cfg 3 u (inputs_of_l3 u))"
    and keys: "0x80 \<notin> set (map fst regs)" "0x82 \<notin> set (map fst regs)"
    by (rule l3_block [OF assms(1,4)])
  have "map_of regs 0x80 = None" "map_of regs 0x82 = None"
    using keys by (simp_all add: map_of_eq_None_iff)
  then have "map_of (regs @ con_regs cfg 3 u (inputs_of_l3 u)) (of_nat (0x80 + 2 * i)) = Some (of_nat (con cfg (3, u, i)))"
    using assms(5) by (auto simp: inputs_of_l3_def con_regs_def map_of_append map_add_def split: if_splits)
  then show ?thesis
    using assms(4) dyn by (intro read_unit_connections [OF assms(1-3) block]) simp_all
qed

lemma parse_level3_stored:
  assumes "wf_trigger_io cfg" "valid_connections cfg" "script_of cfg commands"
  shows "parse_level3 (collect_writes commands ! 3) (ioNIM (l0 (registers_config cfg))) new_level3 = l3 (registers_config cfg)"
proof -
  let ?w = "unit_writes (collect_writes commands ! 3)"
  note wf = assms(1) [unfolded wf_trigger_io_def io_counts]
  note blocks = script_blocks_lookup(8-12) [OF assms(1)]
  note rd = blocks(1) [THEN unit_reads [OF assms(1,3)]] blocks(2) [THEN unit_reads [OF assms(1,3)]]
    blocks(3) [THEN unit_reads [OF assms(1,3)]] blocks(5) [THEN unit_reads [OF assms(1,3)]]
  have cons: "map (read_connection (?w u)) (inputs_of_l3 u) = take (length (inputs_of_l3 u)) (connections (l3 cfg) ! u)"
    if "u < 33" for u
    by (rule take_inputs [OF assms(1,2) that l3_read_connection [OF assms that]])
  have "ucast (ucast x :: u16) = x" for x :: u8
    by (rule word_eqI_bits) (auto simp: bit_unsigned_iff)
  then have start: "\<lparr>ss_activate = (reg w 0 \<noteq> 0), ss_stackIndex = ucast (reg w 2), ss_delay_ns = reg w 4\<rparr> = st"
    if "reads w (start_regs st @ con_regs cfg 3 i [0])" for w i and st :: StackStart
    by (simp add: readsD [OF that] start_regs_def)
  have trigger: "\<lparr>mt_activate = (reg w 0 \<noteq> 0)\<rparr> = mt"
    if "reads w ([(0, of_bool (mt_activate mt))] @ con_regs cfg 3 i [0])" for w i and mt :: MasterTrigger
    by (simp add: readsD [OF that])
  have counter: "c_clearOnLatch c = (reg w 14 \<noteq> 0)"
    if "reads w ([(14, of_bool (c_clearOnLatch c))] @ con_regs cfg 3 i [0, 1])" for w i and c :: Counter
    by (simp add: readsD [OF that])
  let ?P = "parse_level3 (collect_writes commands ! 3) (ioNIM (l0 (registers_config cfg))) new_level3"
  let ?R = "l3 (registers_config cfg)"
  note unfold_R = registers_config_def stored_config_def stored_level3_def stored_level0_def
  have len: "length (stackStart new_level3) = 4" "length (masterTriggers new_level3) = 4"
    "length (counters new_level3) = 8" "length (ioECL new_level3) = 3"
    "length (ioNIM (l0 (registers_config cfg))) = 14"
    using wf by (simp_all add: new_level3_def io_counts unfold_R Let_def)
  have "stackStart ?P = stackStart ?R"
    using wf by (intro nth_equalityI) (simp_all add: parse_level3_def Let_def unfold_R len start [OF rd(1)])
  moreover have "masterTriggers ?P = masterTriggers ?R"
    using wf by (intro nth_equalityI)
      (simp_all add: parse_level3_def Let_def unfold_R len MasterTriggersOffset_def trigger [OF rd(2)])
  moreover have "counters ?P = counters ?R"
    using wf by (intro nth_equalityI)
      (simp_all add: parse_level3_def Let_def unfold_R len CountersOffset_def counter [OF rd(3), symmetric],
       simp add: new_level3_def CountersCount_def)
  moreover have "l3_ioNIM ?P = l3_ioNIM ?R"
    by (simp add: parse_level3_def Let_def unfold_R)
  moreover have "ioECL ?P = ioECL ?R"
    using wf by (intro nth_equalityI)
      (simp_all add: parse_level3_def Let_def unfold_R len ECL_Unit_Offset_def parse_io_reads(3) [OF rd(4)])
  moreover have "l3_unitNames ?P = l3_unitNames ?R"
    by (simp add: parse_level3_def Let_def unfold_R new_level3_def)
  moreover have "connections ?P = connections ?R"
  proof (rule nth_equalityI)
    show "length (connections ?P) = length (connections ?R)"
      using wf by (simp add: parse_level3_def Let_def set_connections_length new_connections_length unfold_R)
    fix u
    assume "u < length (connections ?P)"
    then have u: "u < 33" by (simp add: parse_level3_def Let_def set_connections_length new_connections_length)
    then have "connections ?P ! u = map (read_connection (?w u)) (inputs_of_l3 u)"
      by (simp add: parse_level3_def Let_def set_connections_nth set_connections_length new_connections_length len
          inputs_of_l3_def ECL_Unit_Offset_def NIM_IO_Unit_Offset_def CountersOffset_def MasterTriggersOffset_def)
    also have "\<dots> = connections ?R ! u"
      using u wf unfolding cons [OF u] by (simp add: unfold_R Let_def)
    finally show "connections ?P ! u = connections ?R ! u" .
  qed
  moreover have "Level3.more ?P = Level3.more ?R" by simp
  ultimately show ?thesis by (intro Level3.equality)
qed

lemma build_config_stored:
  assumes "wf_trigger_io cfg" "valid_connections cfg" "script_of cfg commands"
  shows "build_config_from_writes (collect_writes commands) = Inr (registers_config cfg)"
proof -
  have new: "l0 new_trigger_io = new_level0" "l1 new_trigger_io = new_level1" "l2 new_trigger_io = new_level2"
    "l3 new_trigger_io = new_level3"
    by (simp_all add: new_trigger_io_def)
  show ?thesis
    unfolding build_config_from_writes_def Let_def new parse_level0_stored [OF assms(1,3)]
      parse_level1_stored [OF assms] parse_level2_stored [OF assms] bind_err_simps parse_level3_stored [OF assms]
    by simp
qed

end
