(* ===== verification/Trigger_Meta.thy ===== *)
theory Trigger_Meta
  imports Trigger_Roundtrip
begin

text \<open>
  The meta block of a Trigger I/O script read back, and the round trip of the whole script at the
  level of VME commands: the configuration parsed from the commands of a generated script is the
  configuration it was generated from, up to the settings the script does not hold
  (\<^const>\<open>stored_config\<close>).
\<close>

section \<open>YAML documents\<close>

text \<open>A node of the YAML library shows a document: the documented behaviour of yaml-cpp's loader on the
  text its emitter wrote.\<close>

fun represents :: "'n YamlLib \<Rightarrow> YNode \<Rightarrow> 'n \<Rightarrow> bool" where
  "represents yaml (YString s) n \<longleftrightarrow> yl_string yaml n = Inr s"
| "represents yaml (YBool b) n \<longleftrightarrow> yl_bool yaml n = Inr b"
| "represents yaml (YMap kvs) n \<longleftrightarrow>
     (\<forall>(k, d) \<in> set kvs. \<exists>n'. yl_sub yaml n k = Inr (Some n') \<and> represents yaml d n')
     \<and> (\<forall>k. k \<notin> fst ` set kvs \<longrightarrow> yl_sub yaml n k = Inr None)"

lemma represents_sub:
  assumes "represents yaml (YMap kvs) n"
  shows "(case map_of kvs k of None \<Rightarrow> yl_sub yaml n k = Inr None
    | Some d \<Rightarrow> \<exists>n'. yl_sub yaml n k = Inr (Some n') \<and> represents yaml d n')"
proof (cases "map_of kvs k")
  case None
  then have "k \<notin> fst ` set kvs" by (simp add: map_of_eq_None_iff)
  then show ?thesis using assms unfolding None option.case represents.simps by blast
next
  case (Some d)
  then have "(k, d) \<in> set kvs" by (rule map_of_SomeD)
  then show ?thesis using assms Some by auto
qed

section \<open>Names\<close>

lemma map_indexed_snd [simp]: "map (\<lambda>(i, x). x) (indexed n xs) = xs"
  by (rule nth_equalityI) simp_all

lemma map_of_indexed:
  "map_of (map (\<lambda>(i, x). (i, f i x)) (filter (\<lambda>(i, x). P i x) (indexed k xs))) j =
    (if k \<le> j \<and> j < k + length xs \<and> P j (xs ! (j - k)) then Some (f j (xs ! (j - k))) else None)"
proof (induction xs arbitrary: k)
  case (Cons x xs)
  then show ?case using Cons [of "Suc k"] by (auto simp: nth_Cons' less_Suc_eq_le)
qed simp

lemma map_of_yaml_names: "map_of (map (\<lambda>(i, n). (KNum i, YString n)) m) (KNum j) = map_option YString (map_of m j)"
  by (induction m) auto

lemma sub_name_represents:
  assumes "represents yaml (yaml_names m) n"
  shows "sub_name yaml n i name = Inr (case map_of m i of None \<Rightarrow> name | Some s \<Rightarrow> s)"
  using represents_sub [OF assms [unfolded yaml_names_def], of "KNum i"]
  by (auto simp: sub_name_def map_of_yaml_names split: option.splits)

lemma sub_names_represents:
  assumes "represents yaml (yaml_names m) n"
  shows "sub_names yaml n skip names =
    Inr (map (\<lambda>(i, name). if skip i then name else case map_of m i of None \<Rightarrow> name | Some s \<Rightarrow> s) (indexed 0 names))"
  unfolding sub_names_def
  by (rule map_err_Inr) (auto simp: sub_name_represents [OF assms])

text \<open>A node that is missing because the map was empty, or shows the map.\<close>

definition shows_names :: "'n YamlLib \<Rightarrow> 'n option \<Rightarrow> (nat \<times> string) list \<Rightarrow> bool" where
  "shows_names yaml y m \<longleftrightarrow> (case y of None \<Rightarrow> m = [] | Some n \<Rightarrow> represents yaml (yaml_names m) n)"

definition shows_luts :: "'n YamlLib \<Rightarrow> 'n option \<Rightarrow> (nat \<times> (nat \<times> string) list) list \<Rightarrow> bool" where
  "shows_luts yaml y m \<longleftrightarrow> (case y of None \<Rightarrow> m = [] | Some n \<Rightarrow> represents yaml (yaml_luts m) n)"

lemma meta_level0_lookup:
  assumes "i < length L0_DefaultUnitNames"
  shows "(case map_of (meta_level0 cfg flags) i of None \<Rightarrow> L0_DefaultUnitNames ! i | Some s \<Rightarrow> s)
    = value_at (l0_unitNames (l0 cfg)) i"
proof -
  have "UnitNotAvailable \<notin> set L0_DefaultUnitNames"
    by (simp add: UnitNotAvailable_def L0_DefaultUnitNames_def)
  then have "L0_DefaultUnitNames ! i \<noteq> UnitNotAvailable" using assms by (metis nth_mem)
  then show ?thesis using assms by (simp add: meta_level0_def map_of_indexed include_name_def)
qed

lemma meta_level3_lookup:
  assumes "i < length L3_DefaultUnitNames" "\<not> is_l3_nim i"
  shows "(case map_of (meta_level3 cfg flags) i of None \<Rightarrow> L3_DefaultUnitNames ! i | Some s \<Rightarrow> s)
    = value_at (l3_unitNames (l3 cfg)) i"
proof -
  have "UnitNotAvailable \<notin> set L3_DefaultUnitNames"
    by (simp add: UnitNotAvailable_def L3_DefaultUnitNames_def)
  then have "L3_DefaultUnitNames ! i \<noteq> UnitNotAvailable" using assms(1) by (metis nth_mem)
  then show ?thesis using assms by (simp add: meta_level3_def map_of_indexed include_name_def)
qed

lemma meta_lut_lookup:
  "i < length (outputNames lut) \<Longrightarrow>
   (case map_of (meta_lut level flags unit lut) i of None \<Rightarrow> lut_output_name level unit i | Some s \<Rightarrow> s)
     = outputNames lut ! i"
proof -
  assume i: "i < length (outputNames lut)"
  have "meta_lut level flags unit lut = map (\<lambda>(i, x). (i, x))
      (filter (\<lambda>(i, x). include_name flags x (lut_output_name level unit i)) (indexed 0 (outputNames lut)))"
    by (simp add: meta_lut_def)
  then have "map_of (meta_lut level flags unit lut) i =
      (if include_name flags (outputNames lut ! i) (lut_output_name level unit i) then Some (outputNames lut ! i) else None)"
    using i by (simp only: map_of_indexed) simp
  then show ?thesis by (simp add: include_name_def)
qed

text \<open>The default names of the NIM units are the same on levels 0 and 3.\<close>

lemma nim_default_names:
  assumes "is_l3_nim i"
  shows "L3_DefaultUnitNames ! i = L0_DefaultUnitNames ! i" "i < length L0_DefaultUnitNames"
proof -
  have eq: "take 14 (drop 16 L3_DefaultUnitNames) = take 14 (drop 16 L0_DefaultUnitNames)"
    "length L3_DefaultUnitNames = 34" "length L0_DefaultUnitNames = 39"
    by (simp_all add: L3_DefaultUnitNames_def L0_DefaultUnitNames_def)
  have i: "16 \<le> i" "i < 30" using assms by (simp_all add: is_l3_nim_def NIM_IO_Unit_Offset_def NIM_IO_Count_def)
  have "take 14 (drop 16 xs) ! (i - 16) = xs ! i" if "30 \<le> length xs" for xs :: "string list"
    using i that by simp
  from this [of L3_DefaultUnitNames] this [of L0_DefaultUnitNames]
  show "L3_DefaultUnitNames ! i = L0_DefaultUnitNames ! i" using eq by simp
  show "i < length L0_DefaultUnitNames" using i by (simp add: L0_DefaultUnitNames_def)
qed


lemma meta_read_level0_shown:
  assumes "wf_trigger_io cfg" "shows_names yaml y (meta_level0 cfg flags)"
    and "l0_unitNames (l0 c) = L0_DefaultUnitNames" "l3_unitNames (l3 c) = L3_DefaultUnitNames"
  shows "meta_read_level0 yaml y c = Inr (c\<lparr>l0 := (l0 c)\<lparr>l0_unitNames := l0_unitNames (l0 cfg)\<rparr>,
     l3 := (l3 c)\<lparr>l3_unitNames := map (\<lambda>(i, n). if is_l3_nim i then value_at (l0_unitNames (l0 cfg)) i else n)
       (indexed 0 L3_DefaultUnitNames)\<rparr>\<rparr>)"
proof -
  have len: "length (l0_unitNames (l0 cfg)) = length L0_DefaultUnitNames"
    using assms(1) by (simp add: wf_trigger_io_def)
  have names: "map (\<lambda>(i, name). case map_of (meta_level0 cfg flags) i of None \<Rightarrow> name | Some s \<Rightarrow> s)
      (indexed 0 L0_DefaultUnitNames) = l0_unitNames (l0 cfg)"
    by (rule nth_equalityI) (simp_all add: len meta_level0_lookup, simp add: value_at_def len)
  have nims: "map (\<lambda>(i, n). if is_l3_nim i \<and> i < length L0_DefaultUnitNames then l0_unitNames (l0 cfg) ! i else n)
      (indexed 0 L3_DefaultUnitNames)
      = map (\<lambda>(i, n). if is_l3_nim i then value_at (l0_unitNames (l0 cfg)) i else n) (indexed 0 L3_DefaultUnitNames)"
    by (rule map_cong [OF refl]) (use nim_default_names(2) in \<open>auto simp: value_at_def len\<close>)
  show ?thesis
  proof (cases y)
    case (Some n)
    then have "sub_names yaml n (\<lambda>_. False) L0_DefaultUnitNames = Inr (l0_unitNames (l0 cfg))"
      using assms(2) sub_names_represents [of yaml _ n "\<lambda>_. False"] names by (simp add: shows_names_def)
    then show ?thesis using assms(3,4) by (simp add: meta_read_level0_def Some len nims)
  next
    case None
    then have m: "meta_level0 cfg flags = []" using assms(2) by (simp add: shows_names_def)
    then have l0: "l0_unitNames (l0 cfg) = L0_DefaultUnitNames" using names by simp
    have "map (\<lambda>(i, n). if is_l3_nim i then value_at L0_DefaultUnitNames i else n) (indexed 0 L3_DefaultUnitNames)
        = L3_DefaultUnitNames"
      by (rule nth_equalityI) (auto simp: value_at_def nim_default_names)
    then show ?thesis
      using assms(3,4) by (simp add: meta_read_level0_def None l0)
  qed
qed

lemma meta_read_level3_shown:
  assumes "wf_trigger_io cfg" "shows_names yaml y (meta_level3 cfg flags)"
    and "names = map (\<lambda>(i, n). if is_l3_nim i then f i else n) (indexed 0 L3_DefaultUnitNames)"
  shows "meta_read_level3 yaml y names =
    Inr (map (\<lambda>(i, n). if is_l3_nim i then f i else n) (indexed 0 (l3_unitNames (l3 cfg))))"
proof -
  have len: "length (l3_unitNames (l3 cfg)) = length L3_DefaultUnitNames"
    using assms(1) by (simp add: wf_trigger_io_def)
  have names: "map (\<lambda>(i, name). if is_l3_nim i then name
        else case map_of (meta_level3 cfg flags) i of None \<Rightarrow> name | Some s \<Rightarrow> s) (indexed 0 names)
      = map (\<lambda>(i, n). if is_l3_nim i then f i else n) (indexed 0 (l3_unitNames (l3 cfg)))"
    by (rule nth_equalityI) (simp_all add: len assms(3) meta_level3_lookup, simp add: value_at_def len)
  show ?thesis
  proof (cases y)
    case (Some n)
    then show ?thesis
      using assms(2) sub_names_represents [of yaml _ n is_l3_nim names] names
      by (simp add: shows_names_def meta_read_level3_def)
  next
    case None
    then have m: "meta_level3 cfg flags = []" using assms(2) by (simp add: shows_names_def)
    have "map (\<lambda>(i, name). name) (indexed 0 names)
      = map (\<lambda>(i, n). if is_l3_nim i then f i else n) (indexed 0 (l3_unitNames (l3 cfg)))"
      using names unfolding m map_of.simps option.case if_cancel .
    then show ?thesis by (simp add: meta_read_level3_def None)
  qed
qed


section \<open>Output names of the LUTs\<close>

lemma keep_names: "outputNames lut = ns \<Longrightarrow> lut\<lparr>outputNames := ns\<rparr> = lut"
  by (cases lut) simp

lemma map_of_meta_luts:
  "map_of (meta_luts level flags luts) i =
    (if i < length luts \<and> meta_lut level flags i (luts ! i) \<noteq> [] then Some (meta_lut level flags i (luts ! i)) else None)"
proof -
  have "meta_luts level flags luts = map (\<lambda>(i, lut). (i, meta_lut level flags i lut))
      (filter (\<lambda>(i, lut). meta_lut level flags i lut \<noteq> []) (indexed 0 luts))"
    by (simp add: meta_luts_def filter_map comp_def split_def)
  then show ?thesis by (simp only: map_of_indexed) simp
qed

lemma map_of_yaml_luts: "map_of (map (\<lambda>(unit, names). (KNum unit, yaml_names names)) m) (KNum j)
    = map_option yaml_names (map_of m j)"
  by (induction m) auto

lemma meta_lut_names:
  assumes "length (outputNames lut) = OutputBits"
  shows "map (\<lambda>(i, name). case map_of (meta_lut level flags unit lut) i of None \<Rightarrow> name | Some s \<Rightarrow> s)
    (indexed 0 (map (lut_output_name level unit) [0..<OutputBits])) = outputNames lut"
  by (rule nth_equalityI) (simp_all add: assms meta_lut_lookup)

lemma meta_read_luts_shown:
  assumes "\<And>i. i < length luts \<Longrightarrow> length (outputNames (luts ! i)) = OutputBits"
    and "shows_luts yaml y (meta_luts level flags luts)"
    and "length luts' = length luts"
    and "\<And>i. i < length luts \<Longrightarrow> outputNames (luts' ! i) = map (lut_output_name level i) [0..<OutputBits]"
  shows "meta_read_luts yaml y luts' = Inr (map (\<lambda>(i, lut). lut\<lparr>outputNames := outputNames (luts ! i)\<rparr>) (indexed 0 luts'))"
proof -
  have none: "outputNames (luts' ! i) = outputNames (luts ! i)"
    if i: "i < length luts" and empty: "meta_lut level flags i (luts ! i) = []" for i
    using meta_lut_names [OF assms(1) [OF i], of level flags i] empty assms(4) [OF i] by simp
  show ?thesis
  proof (cases y)
    case None
    then have "meta_luts level flags luts = []" using assms(2) by (simp add: shows_luts_def)
    then have "meta_lut level flags i (luts ! i) = []" if "i < length luts" for i
      using that map_of_meta_luts [of level flags luts i] by (simp split: if_splits)
    then have "outputNames (luts' ! i) = outputNames (luts ! i)" if "i < length luts" for i
      using that none by blast
    then have "map (\<lambda>(i, lut). lut\<lparr>outputNames := outputNames (luts ! i)\<rparr>) (indexed 0 luts') = luts'"
      using assms(3) by (intro nth_equalityI) (simp_all add: keep_names)
    then show ?thesis by (simp add: meta_read_luts_def None)
  next
    case (Some n)
    then have n: "represents yaml (yaml_luts (meta_luts level flags luts)) n"
      using assms(2) by (simp add: shows_luts_def)
    have "meta_read_lut yaml n (i, luts' ! i) = Inr ((luts' ! i)\<lparr>outputNames := outputNames (luts ! i)\<rparr>)"
      if i: "i < length luts" for i
    proof (cases "meta_lut level flags i (luts ! i) = []")
      case True
      then have "yl_sub yaml n (KNum i) = Inr None"
        using represents_sub [OF n [unfolded yaml_luts_def], of "KNum i"] by (simp add: map_of_yaml_luts map_of_meta_luts)
      then show ?thesis using none [OF i True] by (simp add: meta_read_lut_def)
    next
      case False
      then obtain n' where n': "yl_sub yaml n (KNum i) = Inr (Some n')"
        "represents yaml (yaml_names (meta_lut level flags i (luts ! i))) n'"
        using i represents_sub [OF n [unfolded yaml_luts_def], of "KNum i"]
        by (auto simp: map_of_yaml_luts map_of_meta_luts)
      then show ?thesis
        using sub_names_represents [OF n'(2), of "\<lambda>_. False"] meta_lut_names [OF assms(1) [OF i], of level flags i]
        by (simp add: meta_read_lut_def assms(4) [OF i])
    qed
    then have "map_err (meta_read_lut yaml n) (indexed 0 luts')
        = Inr (map (\<lambda>(i, lut). lut\<lparr>outputNames := outputNames (luts ! i)\<rparr>) (indexed 0 luts'))"
      using assms(3) by (intro map_err_Inr) (auto simp: in_set_indexed_iff)
    then show ?thesis by (simp add: meta_read_luts_def Some)
  qed
qed

section \<open>Settings\<close>

lemma soft_activate_represents:
  assumes "represents yaml (soft_activate_map offset flags) n" "i < length flags"
  shows "soft_activate_of yaml n (i + offset) old = flags ! i"
proof -
  let ?kvs = "map (\<lambda>(i, b). (KNum i, YMap [(KStr ''soft_activate'', YBool b)])) (indexed offset flags)"
  have "map_of (map (\<lambda>(i, b). (KNum i, f b)) xs) (KNum j) = map_option f (map_of xs j)" for f :: "bool \<Rightarrow> YNode" and xs j
    by (induction xs) auto
  moreover have "map_of (indexed offset flags) (i + offset) = Some (flags ! i)"
    using assms(2) map_of_indexed [of "\<lambda>_ x. x" "\<lambda>_ _. True" offset flags "i + offset"] by simp
  ultimately have "map_of ?kvs (KNum (i + offset)) = Some (YMap [(KStr ''soft_activate'', YBool (flags ! i))])"
    by simp
  with represents_sub [OF assms(1) [unfolded soft_activate_map_def], of "KNum (i + offset)"]
  obtain n' where n': "yl_sub yaml n (KNum (i + offset)) = Inr (Some n')"
    "represents yaml (YMap [(KStr ''soft_activate'', YBool (flags ! i))]) n'" by auto
  from represents_sub [OF n'(2), of "KStr ''soft_activate''"] obtain z where
    "yl_sub yaml n' (KStr ''soft_activate'') = Inr (Some z)" "yl_bool yaml z = Inr (flags ! i)" by auto
  then show ?thesis using n'(1) by (simp add: soft_activate_of_def)
qed


section \<open>The whole meta block\<close>

lemma map_of_unless_empty:
  "map_of (unless_empty key node m) (KStr key') = (if m \<noteq> [] \<and> key = key' then Some (node m) else None)"
  by (simp add: unless_empty_def)

lemma meta_names_read:
  assumes "wf_trigger_io cfg"
    and "represents yaml (YMap (
          unless_empty ''level0'' yaml_names (meta_level0 cfg flags)
          @ unless_empty ''level1'' yaml_luts (meta_luts 1 flags (l1_luts (l1 cfg)))
          @ unless_empty ''level2'' yaml_luts (meta_luts 2 flags (l2_luts (l2 cfg)))
          @ unless_empty ''level3'' yaml_names (meta_level3 cfg flags))) n"
  obtains y0 y1 y2 y3 where
    "yl_sub yaml n (KStr ''level0'') = Inr y0" "shows_names yaml y0 (meta_level0 cfg flags)"
    "yl_sub yaml n (KStr ''level1'') = Inr y1" "shows_luts yaml y1 (meta_luts 1 flags (l1_luts (l1 cfg)))"
    "yl_sub yaml n (KStr ''level2'') = Inr y2" "shows_luts yaml y2 (meta_luts 2 flags (l2_luts (l2 cfg)))"
    "yl_sub yaml n (KStr ''level3'') = Inr y3" "shows_names yaml y3 (meta_level3 cfg flags)"
proof -
  note sub = represents_sub [OF assms(2)]
  have 0: "\<exists>y. yl_sub yaml n (KStr ''level0'') = Inr y \<and> shows_names yaml y (meta_level0 cfg flags)"
    using sub [of "KStr ''level0''"] by (auto simp: map_of_unless_empty map_add_def shows_names_def split: if_splits)
  have 1: "\<exists>y. yl_sub yaml n (KStr ''level1'') = Inr y \<and> shows_luts yaml y (meta_luts 1 flags (l1_luts (l1 cfg)))"
    using sub [of "KStr ''level1''"] by (auto simp: map_of_unless_empty map_add_def shows_luts_def split: if_splits)
  have 2: "\<exists>y. yl_sub yaml n (KStr ''level2'') = Inr y \<and> shows_luts yaml y (meta_luts 2 flags (l2_luts (l2 cfg)))"
    using sub [of "KStr ''level2''"] by (auto simp: map_of_unless_empty map_add_def shows_luts_def split: if_splits)
  have 3: "\<exists>y. yl_sub yaml n (KStr ''level3'') = Inr y \<and> shows_names yaml y (meta_level3 cfg flags)"
    using sub [of "KStr ''level3''"] by (auto simp: map_of_unless_empty map_add_def shows_names_def split: if_splits)
  from 0 1 2 3 that show thesis by blast
qed

lemma registers_config_fields:
  "l0_unitNames (l0 (registers_config cfg)) = L0_DefaultUnitNames"
  "l3_unitNames (l3 (registers_config cfg)) = L3_DefaultUnitNames"
  "timers (l0 (registers_config cfg)) = map (\<lambda>t. t\<lparr>t_softActivate := False\<rparr>) (timers (l0 cfg))"
  "counters (l3 (registers_config cfg)) = map (\<lambda>c. c\<lparr>c_softActivate := False\<rparr>) (counters (l3 cfg))"
  "l1_luts (l1 (registers_config cfg)) = map (reset_lut_outputs \<circ> stored_l1_lut) (indexed 0 (l1_luts (l1 cfg)))"
  "l2_luts (l2 (registers_config cfg)) = map (reset_lut_outputs \<circ> stored_l2_lut) (indexed 0 (l2_luts (l2 cfg)))"
  by (simp_all add: registers_config_def stored_config_def stored_level0_def stored_level3_def Let_def)

lemma restored_luts:
  "map (\<lambda>(i, lut). lut\<lparr>outputNames := outputNames (luts ! i)\<rparr>)
    (indexed 0 (map (reset_lut_outputs \<circ> stored_l1_lut) (indexed 0 luts))) = map stored_l1_lut (indexed 0 luts)"
  "map (\<lambda>(i, lut). lut\<lparr>outputNames := outputNames (luts ! i)\<rparr>)
    (indexed 0 (map (reset_lut_outputs \<circ> stored_l2_lut) (indexed 0 luts))) = map stored_l2_lut (indexed 0 luts)"
  by (rule nth_equalityI; simp add: reset_lut_outputs_def stored_l1_lut_def stored_l2_lut_def)+

lemma restored_soft_activate:
  assumes "represents yaml (soft_activate_map 0 (map t_softActivate ts)) n"
  shows "map (\<lambda>(i, t). t\<lparr>t_softActivate := soft_activate_of yaml n i (t_softActivate t)\<rparr>)
    (indexed 0 (map (\<lambda>t. t\<lparr>t_softActivate := False\<rparr>) ts)) = ts"
  using soft_activate_represents [OF assms] by (intro nth_equalityI) simp_all

lemma restored_soft_activate_counters:
  assumes "represents yaml (soft_activate_map off (map c_softActivate cs)) n"
  shows "map (\<lambda>(i, c). c\<lparr>c_softActivate := soft_activate_of yaml n i (c_softActivate c)\<rparr>)
    (indexed off (map (\<lambda>c. c\<lparr>c_softActivate := False\<rparr>) cs)) = cs"
  using soft_activate_represents [OF assms] by (intro nth_equalityI) (simp_all add: add.commute)

lemma meta_block_restores:
  assumes "wf_trigger_io cfg"
    and "yl_load yaml contents = Inr root" "represents yaml (generate_mvlc_meta_block cfg flags) root"
  shows "parse_mvlc_meta_block yaml contents (registers_config cfg) = Inr (stored_config cfg)"
proof -
  note sub = represents_sub [OF assms(3) [unfolded generate_mvlc_meta_block_def]]
  from sub [of "KStr ''names''"] obtain names where names: "yl_sub yaml root (KStr ''names'') = Inr (Some names)"
    and shown: "represents yaml (YMap (
          unless_empty ''level0'' yaml_names (meta_level0 cfg flags)
          @ unless_empty ''level1'' yaml_luts (meta_luts 1 flags (l1_luts (l1 cfg)))
          @ unless_empty ''level2'' yaml_luts (meta_luts 2 flags (l2_luts (l2 cfg)))
          @ unless_empty ''level3'' yaml_names (meta_level3 cfg flags))) names"
    by auto
  from sub [of "KStr ''settings''"] obtain settings where settings: "yl_sub yaml root (KStr ''settings'') = Inr (Some settings)"
    and settings_shown: "represents yaml (YMap
          [(KStr ''level0'', soft_activate_map 0 (map t_softActivate (timers (l0 cfg)))),
           (KStr ''level3'', soft_activate_map CountersOffset (map c_softActivate (counters (l3 cfg))))]) settings"
    by auto
  obtain s0 s3 where s0: "yl_sub yaml settings (KStr ''level0'') = Inr (Some s0)"
    "represents yaml (soft_activate_map 0 (map t_softActivate (timers (l0 cfg)))) s0"
    and s3: "yl_sub yaml settings (KStr ''level3'') = Inr (Some s3)"
    "represents yaml (soft_activate_map CountersOffset (map c_softActivate (counters (l3 cfg)))) s3"
    using represents_sub [OF settings_shown, of "KStr ''level0''"] represents_sub [OF settings_shown, of "KStr ''level3''"]
    by auto
  obtain y0 y1 y2 y3 where y:
    "yl_sub yaml names (KStr ''level0'') = Inr y0" "shows_names yaml y0 (meta_level0 cfg flags)"
    "yl_sub yaml names (KStr ''level1'') = Inr y1" "shows_luts yaml y1 (meta_luts 1 flags (l1_luts (l1 cfg)))"
    "yl_sub yaml names (KStr ''level2'') = Inr y2" "shows_luts yaml y2 (meta_luts 2 flags (l2_luts (l2 cfg)))"
    "yl_sub yaml names (KStr ''level3'') = Inr y3" "shows_names yaml y3 (meta_level3 cfg flags)"
    by (rule meta_names_read [OF assms(1) shown])
  have outs: "i < length (l1_luts (l1 cfg)) \<Longrightarrow> length (outputNames (l1_luts (l1 cfg) ! i)) = OutputBits"
    "i < length (l2_luts (l2 cfg)) \<Longrightarrow> length (outputNames (l2_luts (l2 cfg) ! i)) = OutputBits" for i
    using assms(1) by (auto simp: wf_trigger_io_def list_all_length wf_lut_def)
  note r = registers_config_fields [of cfg]
  note read0 = meta_read_level0_shown [OF assms(1) y(2) r(1,2)]
  have read1: "meta_read_luts yaml y1 (l1_luts (l1 (registers_config cfg))) = Inr (l1_luts (l1 (stored_config cfg)))"
    by (subst meta_read_luts_shown [OF outs(1) y(4)])
      (simp_all add: r(5) restored_luts stored_config_def,
       simp_all add: reset_lut_outputs_def stored_l1_lut_def)
  have read2: "meta_read_luts yaml y2 (l2_luts (l2 (registers_config cfg))) = Inr (l2_luts (l2 (stored_config cfg)))"
    by (subst meta_read_luts_shown [OF outs(2) y(6)])
      (simp_all add: r(6) restored_luts stored_config_def,
       simp_all add: reset_lut_outputs_def stored_l2_lut_def)
  define nims where "nims = map (\<lambda>(i, n). if is_l3_nim i then value_at (l0_unitNames (l0 cfg)) i else n)
    (indexed 0 L3_DefaultUnitNames)"
  note read3 = meta_read_level3_shown [OF assms(1) y(8) nims_def]
  have read_names: "meta_read_names yaml names (registers_config cfg) =
    Inr (registers_config cfg
      \<lparr>l0 := (l0 (registers_config cfg))\<lparr>l0_unitNames := l0_unitNames (l0 cfg)\<rparr>,
       l1 := (l1 (registers_config cfg))\<lparr>l1_luts := l1_luts (l1 (stored_config cfg))\<rparr>,
       l2 := (l2 (registers_config cfg))\<lparr>l2_luts := l2_luts (l2 (stored_config cfg))\<rparr>,
       l3 := (l3 (registers_config cfg))\<lparr>l3_unitNames := l3_unitNames (l3 (stored_config cfg))\<rparr>\<rparr>)"
    unfolding meta_read_names_def y(1,3,5,7) bind_err_simps read0 nims_def [symmetric]
    using read1 read2 read3 by (simp add: stored_config_def stored_level3_def)
  have ts: "timers (l0 (stored_config cfg)) = timers (l0 cfg)" "counters (l3 (stored_config cfg)) = counters (l3 cfg)"
    by (simp_all add: stored_config_def stored_level0_def stored_level3_def)
  show ?thesis
    unfolding parse_mvlc_meta_block_def assms(2) names bind_err_simps option.case read_names settings s0(1) s3(1)
    by (simp add: meta_read_settings_def r(3,4) restored_soft_activate [OF s0(2)]
        restored_soft_activate_counters [OF s3(2)])
      (simp add: registers_config_def Let_def stored_config_def stored_level0_def stored_level3_def)
qed


section \<open>A YAML library\<close>

text \<open>Documents themselves as nodes: a library for which loading gives back one document.\<close>

definition tree_yaml :: "YNode \<Rightarrow> YNode YamlLib" where
  "tree_yaml doc =
     \<lparr>yl_load = (\<lambda>_. Inr doc),
      yl_sub = (\<lambda>n k. case n of YMap kvs \<Rightarrow> Inr (map_of kvs k) | _ \<Rightarrow> Inl YamlException),
      yl_string = (\<lambda>n. case n of YString s \<Rightarrow> Inr s | _ \<Rightarrow> Inl YamlException),
      yl_bool = (\<lambda>n. case n of YBool b \<Rightarrow> Inr b | _ \<Rightarrow> Inl YamlException)\<rparr>"

fun distinct_keys :: "YNode \<Rightarrow> bool" where
  "distinct_keys (YMap kvs) \<longleftrightarrow> distinct (map fst kvs) \<and> (\<forall>(k, d) \<in> set kvs. distinct_keys d)"
| "distinct_keys _ \<longleftrightarrow> True"

lemma tree_yaml_represents: "distinct_keys d \<Longrightarrow> represents (tree_yaml doc) d d"
proof (induction d)
  case (YMap kvs)
  have "yl_sub (tree_yaml doc) (YMap kvs) k = Inr (Some d) \<and> represents (tree_yaml doc) d d"
    if "(k, d) \<in> set kvs" for k d
  proof -
    have "map_of kvs k = Some d" using YMap.prems that by (intro map_of_is_SomeI) simp_all
    moreover have "distinct_keys d" using YMap.prems that by auto
    then have "represents (tree_yaml doc) d d" using YMap.IH [OF that, of d] by (auto simp: snds.simps)
    ultimately show ?thesis by (simp add: tree_yaml_def)
  qed
  moreover have "yl_sub (tree_yaml doc) (YMap kvs) k = Inr None" if "k \<notin> fst ` set kvs" for k
    using that by (simp add: tree_yaml_def map_of_eq_None_iff)
  ultimately show ?case by (auto; blast)
qed (simp_all add: tree_yaml_def)

lemma distinct_fst_indexed: "distinct (map fst (map (\<lambda>(i, x). (i, f i x)) (filter P (indexed k xs))))"
proof -
  have "map fst (map (\<lambda>(i, x). (i, f i x)) (filter P (indexed k xs))) = map fst (filter P (indexed k xs))"
    by (induction xs arbitrary: k) auto
  moreover have "distinct (map fst (indexed k xs))" by simp
  then have "distinct (map fst (filter P (indexed k xs)))" by (rule distinct_map_filter)
  ultimately show ?thesis by (simp only:)
qed

lemma distinct_KNum: "distinct (map fst xs) \<Longrightarrow> distinct (map (KNum \<circ> fst) xs)"
  by (induction xs) auto

lemma distinct_keys_names: "distinct (map fst m) \<Longrightarrow> distinct_keys (yaml_names m)"
  by (auto simp: yaml_names_def distinct_map inj_on_def comp_def split_def)

lemma meta_distinct_keys: "distinct_keys (generate_mvlc_meta_block cfg flags)"
proof -
  have names: "distinct_keys (yaml_names (meta_level0 cfg flags))" "distinct_keys (yaml_names (meta_level3 cfg flags))"
    unfolding meta_level0_def meta_level3_def by (intro distinct_keys_names distinct_fst_indexed)+
  have lut: "distinct_keys (yaml_names (meta_lut level flags unit lut))" for level unit lut
    unfolding meta_lut_def
    using distinct_fst_indexed [of "\<lambda>i x. x" _ 0 "outputNames lut"] by (intro distinct_keys_names) simp
  have luts: "distinct_keys (yaml_luts (meta_luts level flags luts))" for level luts
  proof -
    let ?m = "meta_luts level flags luts"
    have m: "?m = map (\<lambda>(i, lut). (i, meta_lut level flags i lut))
        (filter (\<lambda>(i, lut). meta_lut level flags i lut \<noteq> []) (indexed 0 luts))"
      by (simp add: meta_luts_def filter_map comp_def split_def)
    have "distinct (map fst ?m)" unfolding m by (rule distinct_fst_indexed)
    then have "distinct (map (KNum \<circ> fst) ?m)" by (rule distinct_KNum)
    moreover have "distinct_keys (yaml_names names)" if "(unit, names) \<in> set ?m" for unit names
      using that lut by (auto simp: m)
    ultimately show ?thesis by (auto simp: yaml_luts_def comp_def split_def)
  qed
  have soft: "distinct_keys (soft_activate_map off bs)" for off bs
  proof -
    have "distinct (map fst (indexed off bs))" by simp
    then have "distinct (map (KNum \<circ> fst) (indexed off bs))" by (rule distinct_KNum)
    then show ?thesis by (auto simp: soft_activate_map_def comp_def split_def)
  qed
  show ?thesis
    using names luts soft by (auto simp: generate_mvlc_meta_block_def unless_empty_def)
qed

section \<open>Properties\<close>

text \<open>C25: the round trip of the setup script. For every well-formed configuration whose connections are
  valid choices, generating the script succeeds; and from any list of commands whose writes are the
  script's writes and whose meta block loads as the document that was emitted, the parser rebuilds the
  configuration, up to the settings a script does not hold: \<^const>\<open>stored_config\<close> clears the unwritten IO
  fields, resets strobe generators of level 1 and takes level 3's NIM settings and names from level 0.\<close>

theorem script_commands_roundtrip:
  assumes "wf_trigger_io cfg" "valid_connections cfg"
  shows "\<exists>parts. generate_trigger_io_script cfg = Some parts
    \<and> (\<forall>commands root.
        filter (\<lambda>cmd. cmd_type cmd = CmdWrite) commands = write_commands (part_writes parts)
        \<and> meta_tag (metaBlock (get_first_meta_block commands)) = MetaTagMVLCTriggerIO
        \<and> yl_load yaml (textContents (metaBlock (get_first_meta_block commands))) = Inr root
        \<and> represents yaml (generate_mvlc_meta_block cfg flags) root
        \<longrightarrow> parse_trigger_io_commands yaml commands = Inr (stored_config cfg))"
proof -
  obtain parts where parts: "generate_trigger_io_script cfg = Some parts"
    "part_writes parts = concat (map block_writes (script_blocks cfg))"
    by (rule generates_blocksE [OF script_generates [OF assms]])
  have "parse_trigger_io_commands yaml commands = Inr (stored_config cfg)"
    if "filter (\<lambda>cmd. cmd_type cmd = CmdWrite) commands = write_commands (part_writes parts)"
      "meta_tag (metaBlock (get_first_meta_block commands)) = MetaTagMVLCTriggerIO"
      "yl_load yaml (textContents (metaBlock (get_first_meta_block commands))) = Inr root"
      "represents yaml (generate_mvlc_meta_block cfg flags) root" for commands root
  proof -
    have "script_of cfg commands" using that(1) parts(2) by (simp add: script_of_def)
    then show ?thesis
      using that(2) meta_block_restores [OF assms(1) that(3,4)]
      by (simp add: parse_trigger_io_commands_def build_config_stored [OF assms] Let_def)
  qed
  then show ?thesis using parts(1) by blast
qed

theorem script_commands_roundtrip_witness:
  "\<exists>parts. generate_trigger_io_script new_trigger_io = Some parts
    \<and> parse_trigger_io_commands (tree_yaml (generate_mvlc_meta_block new_trigger_io 1))
        (write_commands (part_writes parts)
          @ [new_command\<lparr>cmd_type := CmdMetaBlock,
               metaBlock := empty_meta_block\<lparr>blockBegin := empty_line\<lparr>pl_parts := [MetaBlockBegin, MetaTagMVLCTriggerIO]\<rparr>\<rparr>\<rparr>])
      = Inr (stored_config new_trigger_io)"
proof -
  let ?doc = "generate_mvlc_meta_block new_trigger_io 1"
  let ?block = "empty_meta_block\<lparr>blockBegin := empty_line\<lparr>pl_parts := [MetaBlockBegin, MetaTagMVLCTriggerIO]\<rparr>\<rparr>"
  let ?meta = "new_command\<lparr>cmd_type := CmdMetaBlock, metaBlock := ?block\<rparr>"
  from script_commands_roundtrip [OF new_trigger_io_wf new_valid_connections, of "tree_yaml ?doc" 1]
  obtain parts where gen: "generate_trigger_io_script new_trigger_io = Some parts"
    and parse: "\<And>commands root.
        filter (\<lambda>cmd. cmd_type cmd = CmdWrite) commands = write_commands (part_writes parts)
        \<and> meta_tag (metaBlock (get_first_meta_block commands)) = MetaTagMVLCTriggerIO
        \<and> yl_load (tree_yaml ?doc) (textContents (metaBlock (get_first_meta_block commands))) = Inr root
        \<and> represents (tree_yaml ?doc) ?doc root
        \<Longrightarrow> parse_trigger_io_commands (tree_yaml ?doc) commands = Inr (stored_config new_trigger_io)"
    by blast
  have writes: "filter (\<lambda>cmd. cmd_type cmd = CmdWrite) (write_commands ws) = write_commands ws"
    and no_meta: "find (\<lambda>cmd. cmd_type cmd = CmdMetaBlock) (write_commands ws @ cs) = find (\<lambda>cmd. cmd_type cmd = CmdMetaBlock) cs"
    for ws cs
    by (induction ws) (auto simp: write_commands_def short_write_def)
  have first: "get_first_meta_block (write_commands (part_writes parts) @ [?meta]) = ?meta"
    by (simp add: get_first_meta_block_def no_meta)
  have "parse_trigger_io_commands (tree_yaml ?doc) (write_commands (part_writes parts) @ [?meta])
      = Inr (stored_config new_trigger_io)"
    by (rule parse [of _ ?doc])
      (simp add: writes first meta_tag_def tree_yaml_represents [OF meta_distinct_keys], simp add: tree_yaml_def)
  then show ?thesis using gen by blast
qed


lemma map_indexed_twice:
  "map f (indexed 0 (map g (indexed 0 xs))) = map (\<lambda>(i, x). f (i, g (i, x))) (indexed 0 xs)"
  by (rule nth_equalityI) simp_all

lemma stored_config_connections:
  assumes "wf_trigger_io cfg" "x \<in> set dynamic_inputs"
  shows "get_connection_value (stored_config cfg) x = get_connection_value cfg x"
proof -
  obtain l u i where x: "x = (l, u, i)" by (cases x) auto
  have len: "length (connections (l3 cfg)) = 33" using assms(1) by (simp add: wf_trigger_io_def io_counts)
  have "l = 3 \<Longrightarrow> u < 33 \<and> i < length (inputs_of_l3 u)" "l = 1 \<or> l = 2 \<or> l = 3"
    using assms(2) unfolding x dynamic_inputs_iff by (auto simp: inputs_of_l3_def)
  then show ?thesis
    by (auto simp: x stored_config_def stored_level3_def len at_opt_def)
qed

text \<open>A configuration that was loaded from a script is stable: it is again well formed with valid
  connections, and storing and loading it once more gives exactly the same configuration.\<close>

theorem stored_config_stable:
  assumes "wf_trigger_io cfg" "valid_connections cfg"
  shows "wf_trigger_io (stored_config cfg) \<and> valid_connections (stored_config cfg)
    \<and> stored_config (stored_config cfg) = stored_config cfg"
proof -
  have wf_luts: "list_all wf_lut (map stored_l1_lut (indexed 0 (l1_luts (l1 cfg))))"
    "list_all wf_lut (map stored_l2_lut (indexed 0 (l2_luts (l2 cfg))))"
    using assms(1) by (auto simp: wf_trigger_io_def list_all_length stored_l1_lut_def stored_l2_lut_def wf_lut_def)
  then have "wf_trigger_io (stored_config cfg)"
    using assms(1) by (simp add: wf_trigger_io_def stored_config_def stored_level0_def stored_level3_def)
  moreover have "valid_connections (stored_config cfg)"
    using assms(2) stored_config_connections [OF assms(1)]
    by (simp add: valid_connections_def list_all_iff)
  moreover have "stored_config (stored_config cfg) = stored_config cfg"
  proof -
    have io: "plain_io (plain_io io) = plain_io io" "stored_gg (stored_gg io) = stored_gg io" for io
      by (simp_all add: plain_io_def stored_gg_def Let_def StrobeGGDefaultWidth_def)
    have res: "stored_resource (stored_resource r) = stored_resource r" for r
      by (simp add: stored_resource_def io)
    show ?thesis
      by (simp add: stored_config_def stored_level0_def stored_level3_def map_indexed_twice comp_def res io
          stored_l1_lut_def stored_l2_lut_def split_def cong: if_cong)
  qed
  ultimately show ?thesis by blast
qed

theorem stored_config_stable_witness:
  "wf_trigger_io (stored_config new_trigger_io) \<and> valid_connections (stored_config new_trigger_io)
    \<and> stored_config (stored_config new_trigger_io) = stored_config new_trigger_io"
  by (rule stored_config_stable [OF new_trigger_io_wf new_valid_connections])

section \<open>When generation fails\<close>

lemma connect_with_Some_value:
  "connect_with write cfg r v (Some choices) \<noteq> None \<Longrightarrow> \<exists>c. v = Some c \<and> c < length choices"
  by (auto simp: connect_with_def at_opt_def split: bind_splits if_splits)

lemma unit_sections_Some:
  assumes "unit_sections level off name gen units = Some parts" "i < length units"
  shows "gen (i + off) (units ! i) \<noteq> None"
proof -
  obtain pss where pss: "map_opt (\<lambda>(i, x). unit_section (name (i + off)) level (i + off) (gen (i + off) x)) (indexed 0 units)
      = Some pss"
    using assms(1) by (auto simp: unit_sections_def)
  have "unit_section (name (i + off)) level (i + off) (gen (i + off) (units ! i)) \<noteq> None"
    using map_opt_nth [OF pss, of i] assms(2) by simp
  then show ?thesis by (auto simp: unit_section_def split: bind_splits)
qed

lemma map_opt_concat_Some:
  assumes "map_option concat (map_opt f xs) = Some ps" "x \<in> set xs"
  shows "f x \<noteq> None"
proof -
  obtain pss where "map_opt f xs = Some pss" using assms(1) by auto
  moreover obtain i where "i < length xs" "x = xs ! i" using assms(2) by (auto simp: in_set_conv_nth)
  ultimately show ?thesis using map_opt_nth [of f xs pss i] by simp
qed

lemma gen_l3_unit_Some:
  assumes "gen_l3_unit cfg u ps inputs \<noteq> None" "i \<in> set inputs" "(3, u, i) \<in> set dynamic_inputs"
  shows "\<exists>v. get_connection_value cfg (3, u, i) = Some v \<and> v < length (choices_of (3, u, i))"
proof -
  have "l3_connect cfg u i \<noteq> None"
    using assms(1,2) map_opt_concat_Some [of "l3_connect cfg u" inputs _ i]
    by (auto simp: gen_l3_unit_def split: bind_splits)
  moreover have "Option.bind (at_opt make_l3_input_choices u) (\<lambda>lists. at_opt lists i) = Some (choices_of (3, u, i))"
    if "Option.bind (at_opt make_l3_input_choices u) (\<lambda>lists. at_opt lists i) \<noteq> None"
    using that by (auto simp: at_opt_def split: bind_splits if_splits)
  moreover have "l3_connect cfg u i = None"
    if "Option.bind (at_opt make_l3_input_choices u) (\<lambda>lists. at_opt lists i) = None"
    using that by (auto simp: l3_connect_def connect_with_def split: bind_splits)
  ultimately show ?thesis
    using connect_with_Some_value unfolding l3_connect_def get_connection_value.simps
    by (auto; metis)
qed


lemma gen_l1_lut_Some:
  assumes "gen_l1_lut cfg 2 lut \<noteq> None" "i < 3"
  shows "\<exists>v. get_connection_value cfg (1, 2, i) = Some v \<and> v < length (choices_of (1, 2, i))"
proof -
  have "connect_with write_connection cfg (i * 2) (at_opt (lut2Connections (l1 cfg)) i) (at_opt LUT2DynamicInputChoices i) \<noteq> None"
    using assms map_opt_concat_Some [of _ "[0..<LUT_DynamicInputCount]" _ i]
    by (fastforce simp: gen_l1_lut_def LUT_DynamicInputCount_def split: bind_splits)
  moreover have "at_opt LUT2DynamicInputChoices i = Some (choices_of (1, 2, i))"
    using assms(2) by (simp add: LUT2DynamicInputChoices_def)
  ultimately show ?thesis using connect_with_Some_value by (simp; metis)
qed

lemma gen_l2_lut_Some:
  assumes "gen_l2_lut cfg u lut \<noteq> None" "u < 3" "i < 3 \<or> i = 6"
  shows "\<exists>v. get_connection_value cfg (2, u, i) = Some v \<and> v < length (choices_of (2, u, i))"
proof -
  have choices: "at_opt make_l2_input_choices u = Some (l2_choices_of_unit u)"
    using assms(2) by (simp add: make_l2_length make_l2_nth)
  have con: "connect_with write_connection cfg (i * 2) (Option.bind (at_opt (lutConnections (l2 cfg)) u) (\<lambda>cs. at_opt cs i))
      (at_opt (lutChoices (l2_choices_of_unit u)) i) \<noteq> None" if "i < 3"
    using assms(1) that map_opt_concat_Some [of _ "[0..<LUT_DynamicInputCount]" _ i]
    by (fastforce simp: gen_l2_lut_def choices LUT_DynamicInputCount_def split: bind_splits)
  have strobe: "connect_with write_strobe_connection cfg 6 (at_opt (strobeConnections (l2 cfg)) u)
      (Some (strobeChoices (l2_choices_of_unit u))) \<noteq> None"
    using assms(1) by (auto simp: gen_l2_lut_def choices split: bind_splits)
  show ?thesis
  proof (cases "i < 3")
    case True
    then have "at_opt (lutChoices (l2_choices_of_unit u)) i = Some (choices_of (2, u, i))" "i \<noteq> 6"
      by (simp_all add: StrobeGGInput_def InputBits_def)
    with con [OF True] have "connect_with write_connection cfg (i * 2) (get_connection_value cfg (2, u, i))
        (Some (choices_of (2, u, i))) \<noteq> None"
      by (simp add: InputBits_def)
    then show ?thesis by (rule connect_with_Some_value)
  next
    case False
    then have i: "i = 6" using assms(3) by simp
    then have "choices_of (2, u, i) = strobeChoices (l2_choices_of_unit u)"
      by (simp add: StrobeGGInput_def InputBits_def)
    with strobe i have "connect_with write_strobe_connection cfg 6 (get_connection_value cfg (2, u, i))
        (Some (choices_of (2, u, i))) \<noteq> None"
      by (simp add: InputBits_def)
    then show ?thesis by (rule connect_with_Some_value)
  qed
qed

lemma script_Some_valid:
  assumes "wf_trigger_io cfg" "generate_trigger_io_script cfg \<noteq> None" "x \<in> set dynamic_inputs"
  shows "\<exists>v. get_connection_value cfg x = Some v \<and> v < length (choices_of x)"
proof -
  note wf = assms(1) [unfolded wf_trigger_io_def io_counts]
  obtain a b c where levels: "gen_level1 cfg = Some a" "gen_level2 cfg = Some b" "gen_level3 cfg = Some c"
    using assms(2) by (auto simp: generate_trigger_io_script_def split: bind_splits)
  obtain l u i where x: "x = (l, u, i)" by (cases x) auto
  have "l = 1 \<and> u = 2 \<and> i < 3 \<or> l = 2 \<and> u < 3 \<and> (i < 3 \<or> i = 6) \<or> l = 3 \<and> u < 33 \<and> i \<in> set (inputs_of_l3 u)"
    using assms(3) unfolding x dynamic_inputs_iff by (auto simp: inputs_of_l3_def)
  then show ?thesis
  proof (elim disjE)
    assume c: "l = 1 \<and> u = 2 \<and> i < 3"
    have "gen_l1_lut cfg (2 + 0) (l1_luts (l1 cfg) ! 2) \<noteq> None"
      using levels(1) wf unit_sections_Some [of 1 0 _ "gen_l1_lut cfg" "l1_luts (l1 cfg)" _ 2]
      by (auto simp: gen_level1_def split: bind_splits)
    with c show ?thesis using gen_l1_lut_Some [of cfg _ i] by (simp add: x del: choices_of.simps get_connection_value.simps)
  next
    assume c: "l = 2 \<and> u < 3 \<and> (i < 3 \<or> i = 6)"
    then have "gen_l2_lut cfg (u + 0) (l2_luts (l2 cfg) ! u) \<noteq> None"
      using levels(2) wf unit_sections_Some [of 2 0 _ "gen_l2_lut cfg" "l2_luts (l2 cfg)" _ u]
      by (auto simp: gen_level2_def split: bind_splits)
    with c show ?thesis using gen_l2_lut_Some [of cfg u _ i] by (simp add: x del: choices_of.simps get_connection_value.simps)
  next
    assume c: "l = 3 \<and> u < 33 \<and> i \<in> set (inputs_of_l3 u)"
    obtain n a b c d e where secs:
      "unit_sections 3 0 n (\<lambda>u x. gen_l3_unit cfg u (gen_StackStart x) [0]) (stackStart (l3 cfg)) = Some a"
      "unit_sections 3 4 n (\<lambda>u x. gen_l3_unit cfg u (gen_MasterTrigger x) [0]) (masterTriggers (l3 cfg)) = Some b"
      "unit_sections 3 8 n (\<lambda>u x. gen_l3_unit cfg u (gen_Counter x) [0, 1]) (counters (l3 cfg)) = Some c"
      "unit_sections 3 16 n (\<lambda>u x. gen_l3_unit cfg u [] [0]) [0..<14] = Some d"
      "unit_sections 3 30 n (\<lambda>u x. gen_l3_unit cfg u (gen_IO x ECL_IO_Flags 0) [0]) (ioECL (l3 cfg)) = Some e"
      using levels(3) that
      by (auto simp: gen_level3_def MasterTriggersOffset_def CountersOffset_def NIM_IO_Unit_Offset_def
          NIM_IO_Count_def ECL_Unit_Offset_def simp del: upt_rec_numeral split: bind_splits)
    have "\<exists>ps. gen_l3_unit cfg u ps (inputs_of_l3 u) \<noteq> None"
    proof -
      consider "u < 4" | "4 \<le> u" "u < 8" | "8 \<le> u" "u < 16" | "16 \<le> u" "u < 30" | "30 \<le> u" "u < 33"
        using c by linarith
      then show ?thesis
      proof cases
        case 1
        then show ?thesis using unit_sections_Some [OF secs(1), of u] wf by (auto simp: inputs_of_l3_def)
      next
        case 2
        then have "u - 4 < 4" by linarith
        with 2 show ?thesis using unit_sections_Some [OF secs(2), of "u - 4"] wf by (auto simp: inputs_of_l3_def)
      next
        case 3
        then have "u - 8 < 8" by linarith
        with 3 show ?thesis using unit_sections_Some [OF secs(3), of "u - 8"] wf by (auto simp: inputs_of_l3_def)
      next
        case 4
        then have "u - 16 < 14" by linarith
        with 4 show ?thesis using unit_sections_Some [OF secs(4), of "u - 16"] by (auto simp: inputs_of_l3_def)
      next
        case 5
        then have "u - 30 < 3" by linarith
        with 5 show ?thesis using unit_sections_Some [OF secs(5), of "u - 30"] wf by (auto simp: inputs_of_l3_def)
      qed
    qed
    then show ?thesis
      using gen_l3_unit_Some [of cfg u _ "inputs_of_l3 u" i] c assms(3)
      by (simp add: x del: choices_of.simps get_connection_value.simps; blast)
  qed
qed

text \<open>C29: the script generator indexes the tables of connection choices without a check. For a well-formed
  configuration it stays inside them exactly when every selectable input holds a valid choice; the
  parser, which stores any 16-bit value it reads, does not ensure that.\<close>

theorem generation_defined_iff:
  assumes "wf_trigger_io cfg"
  shows "generate_trigger_io_script cfg \<noteq> None \<longleftrightarrow> valid_connections cfg"
proof
  assume "generate_trigger_io_script cfg \<noteq> None"
  from script_Some_valid [OF assms this] show "valid_connections cfg"
    by (fastforce simp: valid_connections_def list_all_iff simp del: choices_of.simps get_connection_value.simps)
next
  assume "valid_connections cfg"
  then show "generate_trigger_io_script cfg \<noteq> None"
    using script_generates [OF assms] by (auto simp: generates_blocks_def)
qed

theorem generation_defined_iff_witness:
  "generate_trigger_io_script new_trigger_io \<noteq> None \<longleftrightarrow> valid_connections new_trigger_io"
  by (rule generation_defined_iff [OF new_trigger_io_wf])

end
