(* ===== verification/Vme_Lines.thy ===== *)
theory Vme_Lines
  imports Vme_Script Qt_Text
begin

text \<open>
  The text level of the VME script parser, from \<^verbatim>\<open>src/src/vme_script.cc\<close>: comments are removed, lines are
  split into parts at white space (quoted strings, variable references \<^verbatim>\<open>${..}\<close> and expressions
  \<^verbatim>\<open>$(..)\<close> belong to one part), variables are replaced and expressions evaluated. Symbol tables are those
  of \<^verbatim>\<open>src/src/vme_script_variables.h\<close>. A \<^verbatim>\<open>std::istringstream\<close> is the list of the characters not read
  yet.
\<close>

section \<open>Errors\<close>

text \<open>The two exceptions of the expression evaluator, \<^verbatim>\<open>a2_exprtk::ParserErrorList\<close> and \<^verbatim>\<open>SymbolError\<close>. A
  constructor of \<open>problem\<close> stands for the message text of a \<^verbatim>\<open>ParseError\<close> or of a thrown string; its
  arguments are what the text quotes.\<close>

datatype math_error = MathParserError string | MathSymbolError string

datatype problem =
    InvalidArgumentCount
  | InvalidAddressMode | InvalidDataWidth | InvalidAddress
  | InputValueTooLarge | InvalidBinaryCharacter
  | InvalidNumericValue | NegativeValue | ValueOutOfRange
  | InvalidDelay
  | InvalidRegister
  | InvalidSpecialWord
  | InvalidFloatPart string | InvalidFloat string
  | NoSuchCommand string
  | InvalidShortAddress string problem | InvalidShortValue string problem
  | UnterminatedExpression string | UnterminatedVariable string
  | UndefinedVariable string
  | MathError math_error
  | NoMatchingBlockEnd
  | InvalidSetArguments

text \<open>\<open>Message\<close> is a thrown \<^verbatim>\<open>QString\<close> or \<^verbatim>\<open>const char *\<close>; the last two are an access outside a
  string or array and a conversion of a floating point value that the integer type cannot hold, both
  undefined in C++.\<close>

datatype failure =
    Message problem
  | ParseError problem int
  | OutOfRangeAccess
  | UndefinedConversion

section \<open>Symbol tables\<close>

text \<open>A null \<^verbatim>\<open>QString\<close> is \<^const>\<open>None\<close>: a variable without a value is not valid.\<close>

record Variable =
  var_value :: "string option"
  definitionLocation :: string
  var_comment :: string

record SymbolTable =
  symtab_name :: string
  symbols :: "string \<rightharpoonup> Variable"

type_synonym SymbolTables = "SymbolTable list"

definition null_variable :: Variable where
  "null_variable = \<lparr>var_value = None, definitionLocation = [], var_comment = []\<rparr>"

definition empty_symtab :: SymbolTable where
  "empty_symtab = \<lparr>symtab_name = [], symbols = Map.empty\<rparr>"

fun lookup_variable :: "string \<Rightarrow> SymbolTables \<Rightarrow> Variable" where
  "lookup_variable varName [] = null_variable"
| "lookup_variable varName (symtab # symtabs) =
     (case symbols symtab varName of
        Some v \<Rightarrow> v
      | None \<Rightarrow> lookup_variable varName symtabs)"

text \<open>\<open>symtabs[0][varName] = Variable{varValue, lineNumber}\<close>\<close>

definition show_int :: "int \<Rightarrow> string" where
  "show_int i = (if i < 0 then ''-'' @ show_dec (nat (- i)) else show_dec (nat i))"

definition new_variable :: "string \<Rightarrow> int \<Rightarrow> Variable" where
  "new_variable v lineNumber = \<lparr>var_value = Some v, definitionLocation = show_int lineNumber, var_comment = []\<rparr>"

definition set_variable :: "string \<Rightarrow> string \<Rightarrow> int \<Rightarrow> SymbolTables \<Rightarrow> SymbolTables" where
  "set_variable varName varValue lineNumber symtabs =
     (case symtabs of [] \<Rightarrow> [] | s # ss \<Rightarrow> s\<lparr>symbols := (symbols s)(varName \<mapsto> new_variable varValue lineNumber)\<rparr> # ss)"

section \<open>Comments\<close>

text \<open>\<open>midRef(i, 2)\<close> is the rest of the line when only one character is left.\<close>

fun handle_multiline_comment :: "string \<Rightarrow> bool \<Rightarrow> string \<times> bool" where
  "handle_multiline_comment [] in_comment = ([], in_comment)"
| "handle_multiline_comment [c] in_comment = (if in_comment then [] else [c], in_comment)"
| "handle_multiline_comment (c # d # cs) in_comment =
     (if in_comment then
        (if c = CHR ''*'' \<and> d = CHR ''/'' then handle_multiline_comment cs False
         else handle_multiline_comment (d # cs) True)
      else
        (if c = CHR ''/'' \<and> d = CHR ''*'' then handle_multiline_comment cs True
         else (let (result, flag) = handle_multiline_comment (d # cs) False in (c # result, flag))))"

definition cut_comment :: "string \<Rightarrow> string" where
  "cut_comment line = takeWhile (\<lambda>c. c \<noteq> CHR ''#'') line"

section \<open>Splitting into parts\<close>

text \<open>The readers return what they read, whether the closing character was found, and the rest of the
  stream.\<close>

fun read_atomic_variable_reference :: "string \<Rightarrow> string \<times> bool \<times> string" where
  "read_atomic_variable_reference [] = ([], False, [])"
| "read_atomic_variable_reference (c # cs) =
     (if c = CHR ''}'' then ([c], True, cs)
      else (let (result, ok, rest) = read_atomic_variable_reference cs in (c # result, ok, rest)))"

fun read_parens :: "nat \<Rightarrow> string \<Rightarrow> string \<times> bool \<times> string" where
  "read_parens nParens [] = ([], False, [])"
| "read_parens nParens (c # cs) =
     (if c = CHR '')'' \<and> nParens = 1 then ([c], True, cs)
      else
        (let nParens' = (if c = CHR ''('' then nParens + 1 else if c = CHR '')'' then nParens - 1 else nParens);
             (result, ok, rest) = read_parens nParens' cs
         in (c # result, ok, rest)))"

definition read_atomic_expression :: "string \<Rightarrow> string \<times> bool \<times> string" where
  "read_atomic_expression s = read_parens 0 s"

text \<open>\<^verbatim>\<open>in >> std::quoted(s)\<close> after the opening quote: a backslash takes the next character as it is; the end
  of the stream ends the string.\<close>

fun read_quoted :: "string \<Rightarrow> string \<times> string" where
  "read_quoted [] = ([], [])"
| "read_quoted [c] = (if c = BACKSLASH \<or> c = QUOTE then [] else [c], [])"
| "read_quoted (c # d # cs) =
     (if c = QUOTE then ([], d # cs)
      else if c = BACKSLASH then (let (s, rest) = read_quoted cs in (d # s, rest))
      else (let (s, rest) = read_quoted (d # cs) in (c # s, rest)))"

lemma read_quoted_length: "length (snd (read_quoted cs)) \<le> length cs"
  by (induction cs rule: read_quoted.induct) (auto simp: split_def Let_def)

lemma read_variable_length: "length (snd (snd (read_atomic_variable_reference cs))) \<le> length cs"
  by (induction cs) (auto simp: split_def Let_def)

lemma read_parens_length: "length (snd (snd (read_parens n cs))) \<le> length cs"
  by (induction n cs rule: read_parens.induct) (auto simp: split_def Let_def)

definition part_space :: "char \<Rightarrow> bool" where
  "part_space c \<longleftrightarrow> c = CHR '' '' \<or> c = TAB"

text \<open>\<open>result.push_back(part)\<close>, followed by the rest of the parts\<close>

definition push_part :: "string \<Rightarrow> 'e + string list \<Rightarrow> 'e + string list" where
  "push_part part r = bind_err r (\<lambda>parts. Inr (part # parts))"

function split_parts :: "int \<Rightarrow> string \<Rightarrow> string \<Rightarrow> failure + string list" where
  "split_parts n part [] = (if part \<noteq> [] then Inr [part] else Inr [])"
| "split_parts n part (c # cs) =
     (if part_space c then
        (if part \<noteq> [] then push_part part (split_parts n [] cs) else split_parts n [] cs)
      else if c = QUOTE then
        (let (quotedPart, rest) = read_quoted cs; part = part @ quotedPart
         in if rest \<noteq> [] \<and> part_space (hd rest) then push_part part (split_parts n [] rest)
            else split_parts n part rest)
      else if c = CHR ''$'' \<and> cs \<noteq> [] \<and> hd cs = CHR ''('' then
        (let (result, ok, rest) = read_atomic_expression cs; part = part @ [c] @ result
         in if ok then split_parts n part rest else Inl (ParseError (UnterminatedExpression part) n))
      else if c = CHR ''$'' \<and> cs \<noteq> [] \<and> hd cs = CHR ''{'' then
        (let (result, ok, rest) = read_atomic_variable_reference cs; part = part @ [c] @ result
         in if ok then split_parts n part rest else Inl (ParseError (UnterminatedVariable part) n))
      else split_parts n (part @ [c]) cs)"
  by pat_completeness auto
termination
  using read_quoted_length read_parens_length read_variable_length
  by (relation "measure (\<lambda>(n, part, cs). length cs)")
    (auto simp: less_Suc_eq_le read_atomic_expression_def, (metis snd_conv)+)

definition split_into_atomic_parts :: "string \<Rightarrow> int \<Rightarrow> failure + string list" where
  "split_into_atomic_parts line lineNumber = split_parts lineNumber [] line"

section \<open>Variables\<close>

definition append_err :: "string \<Rightarrow> 'e + string \<Rightarrow> 'e + string" where
  "append_err s r = bind_err r (\<lambda>t. Inr (s @ t))"

text \<open>The second argument is the state of the loop: the name read so far inside of a reference.\<close>

fun expand_chars :: "SymbolTables \<Rightarrow> int \<Rightarrow> string option \<Rightarrow> string \<Rightarrow> failure + string" where
  "expand_chars symtabs n None [] = Inr []"
| "expand_chars symtabs n (Some varName) [] = Inl (ParseError (UnterminatedVariable varName) n)"
| "expand_chars symtabs n None [c] = Inr [c]"
| "expand_chars symtabs n None (c # d # cs) =
     (if c = CHR ''$'' \<and> d = CHR ''{'' then expand_chars symtabs n (Some []) cs
      else append_err [c] (expand_chars symtabs n None (d # cs)))"
| "expand_chars symtabs n (Some varName) (c # cs) =
     (if c = CHR ''}'' then
        (case var_value (lookup_variable varName symtabs) of
           Some v \<Rightarrow> append_err v (expand_chars symtabs n None cs)
         | None \<Rightarrow> Inl (ParseError (UndefinedVariable varName) n))
      else expand_chars symtabs n (Some (varName @ [c])) cs)"

definition expand_variables :: "string \<Rightarrow> SymbolTables \<Rightarrow> int \<Rightarrow> failure + string" where
  "expand_variables line symtabs lineNumber = expand_chars symtabs lineNumber None line"

definition expand_variables_line :: "PreparsedLine \<Rightarrow> SymbolTables \<Rightarrow> failure + PreparsedLine" where
  "expand_variables_line preparsed symtabs =
     bind_err (map_err (\<lambda>part. expand_variables part symtabs (pl_lineNumber preparsed)) (pl_parts preparsed))
       (\<lambda>parts. Inr (preparsed\<lparr>pl_parts := parts\<rparr>))"

fun collect_chars :: "int \<Rightarrow> string option \<Rightarrow> string \<Rightarrow> failure + string set" where
  "collect_chars n None [] = Inr {}"
| "collect_chars n (Some varName) [] = Inl (ParseError (UnterminatedVariable varName) n)"
| "collect_chars n None [c] = Inr {}"
| "collect_chars n None (c # d # cs) =
     (if c = CHR ''$'' \<and> d = CHR ''{'' then collect_chars n (Some []) cs
      else collect_chars n None (d # cs))"
| "collect_chars n (Some varName) (c # cs) =
     (if c = CHR ''}'' then bind_err (collect_chars n None cs) (\<lambda>s. Inr (insert varName s))
      else collect_chars n (Some (varName @ [c])) cs)"

definition collect_variable_references :: "string \<Rightarrow> int \<Rightarrow> failure + string set" where
  "collect_variable_references line lineNumber = collect_chars lineNumber None line"

definition collect_variable_references_line :: "PreparsedLine \<Rightarrow> failure + PreparsedLine" where
  "collect_variable_references_line preparsed =
     bind_err (map_err (\<lambda>part. collect_variable_references part (pl_lineNumber preparsed)) (pl_parts preparsed))
       (\<lambda>refs. Inr (preparsed\<lparr>pl_varRefs := \<Union> (set refs)\<rparr>))"

section \<open>Expressions\<close>

text \<open>The evaluator is a parameter: the C++ wrapper of exprtk compiles and evaluates the expression, Qt
  formats the number. The state of the loop is the expression read so far and the open parentheses.\<close>

fun eval_chars ::
  "(string \<Rightarrow> math_error + string) \<Rightarrow> int \<Rightarrow> (string \<times> nat) option \<Rightarrow> string \<Rightarrow> failure + string"
where
  "eval_chars ev n None [] = Inr []"
| "eval_chars ev n (Some (exprString, nParens)) [] = Inl (ParseError (UnterminatedExpression exprString) n)"
| "eval_chars ev n None [c] = Inr [c]"
| "eval_chars ev n None (c # d # cs) =
     (if c = CHR ''$'' \<and> d = CHR ''('' then eval_chars ev n (Some ([d], 1)) cs
      else append_err [c] (eval_chars ev n None (d # cs)))"
| "eval_chars ev n (Some (exprString, nParens)) (c # cs) =
     (if c = CHR '')'' then
        (if nParens - 1 = 0 then
           (case ev (exprString @ [c]) of
              Inl e \<Rightarrow> Inl (ParseError (MathError e) n)
            | Inr s \<Rightarrow> append_err s (eval_chars ev n None cs))
         else eval_chars ev n (Some (exprString @ [c], nParens - 1)) cs)
      else eval_chars ev n (Some (exprString @ [c], if c = CHR ''('' then nParens + 1 else nParens)) cs)"

definition evaluate_expressions :: "(string \<Rightarrow> math_error + string) \<Rightarrow> string \<Rightarrow> int \<Rightarrow> failure + string" where
  "evaluate_expressions ev part lineNumber = eval_chars ev lineNumber None part"

definition evaluate_expressions_line :: "(string \<Rightarrow> math_error + string) \<Rightarrow> PreparsedLine \<Rightarrow> failure + PreparsedLine" where
  "evaluate_expressions_line ev preparsed =
     bind_err (map_err (\<lambda>part. evaluate_expressions ev part (pl_lineNumber preparsed)) (pl_parts preparsed))
       (\<lambda>parts. Inr (preparsed\<lparr>pl_parts := parts\<rparr>))"

section \<open>The pre-parser\<close>

text \<open>One line without its comments: nothing is left of it, or a line with its parts.\<close>

definition pre_parse_line :: "string \<Rightarrow> int \<Rightarrow> failure + PreparsedLine list" where
  "pre_parse_line line lineNumber =
     (if trimmed line = [] then Inr []
      else bind_err (split_into_atomic_parts (trimmed line) lineNumber) (\<lambda>stlParts.
        case stlParts of [] \<Rightarrow> Inr []
        | p # ps \<Rightarrow>
            bind_err (collect_variable_references_line
                \<lparr>pl_line = line, pl_parts = to_lower p # ps, pl_lineNumber = lineNumber, pl_varRefs = {}\<rparr>)
              (\<lambda>ppl. Inr [ppl])))"

fun pre_parse_lines :: "bool \<Rightarrow> int \<Rightarrow> string list \<Rightarrow> failure + PreparsedLine list" where
  "pre_parse_lines in_comment n [] = Inr []"
| "pre_parse_lines in_comment n (line # ls) =
     (let (text, in_comment') = handle_multiline_comment line in_comment
      in bind_err (pre_parse_line (cut_comment text) n) (\<lambda>ppl.
         bind_err (pre_parse_lines in_comment' (n + 1) ls) (\<lambda>ppls. Inr (ppl @ ppls))))"

definition pre_parse :: "string \<Rightarrow> failure + PreparsedLine list" where
  "pre_parse input = pre_parse_lines False 1 (read_lines input)"

text \<open>The variable names a script refers to.\<close>

definition script_variable_references :: "string \<Rightarrow> failure + string set" where
  "script_variable_references input = bind_err (pre_parse input) (\<lambda>pp. Inr (\<Union> (set (map pl_varRefs pp))))"

section \<open>Texts without comments, quotes and references\<close>

fun no_open :: "string \<Rightarrow> bool" where
  "no_open (c # d # cs) \<longleftrightarrow> \<not> (c = CHR ''/'' \<and> d = CHR ''*'') \<and> no_open (d # cs)"
| "no_open _ \<longleftrightarrow> True"

lemma handle_no_open: "no_open s \<Longrightarrow> handle_multiline_comment s False = (s, False)"
  by (induction s rule: no_open.induct) auto

lemma no_open_append:
  "no_open (a @ b) \<longleftrightarrow> no_open a \<and> no_open b \<and> (a = [] \<or> b = [] \<or> \<not> (last a = CHR ''/'' \<and> hd b = CHR ''*''))"
proof (induction a)
  case (Cons c cs)
  then show ?case by (cases cs; cases b) auto
qed simp

lemma no_open_no_slash: "CHR ''/'' \<notin> set s \<Longrightarrow> no_open s"
  by (induction s rule: no_open.induct) auto

definition word_char :: "char \<Rightarrow> bool" where
  "word_char c \<longleftrightarrow> \<not> part_space c \<and> c \<noteq> QUOTE \<and> c \<noteq> CHR ''$''"

lemma split_word: "list_all word_char w \<Longrightarrow> split_parts n part (w @ s) = split_parts n (part @ w) s"
  by (induction w arbitrary: part) (auto simp: word_char_def)

lemma split_space: "part_space c \<Longrightarrow> part \<noteq> [] \<Longrightarrow> split_parts n part (c # s) = push_part part (split_parts n [] s)"
  by simp

lemma split_spaces: "list_all part_space cs \<Longrightarrow> split_parts n [] (cs @ s) = split_parts n [] s"
  by (induction cs) auto

lemma part_space_space [simp]: "part_space (CHR '' '')"
  by (simp add: part_space_def)

definition part_word :: "string \<Rightarrow> bool" where
  "part_word w \<longleftrightarrow> w \<noteq> [] \<and> list_all word_char w"

lemma split_words:
  "list_all part_word ws \<Longrightarrow> split_into_atomic_parts (join_with '' '' ws) n = Inr ws"
proof (induction ws rule: join_with.induct [of _ "''  ''"])
  case (2 sep l)
  then show ?case using split_word [of l n "[]" "[]"] by (simp add: split_into_atomic_parts_def part_word_def)
next
  case (3 sep l l' ls)
  then show ?case using split_word [of l n "[]" "CHR '' '' # join_with '' '' (l' # ls)"]
    by (simp add: split_into_atomic_parts_def part_word_def push_part_def)
qed (simp add: split_into_atomic_parts_def)

text \<open>A text without dollar sign has neither references nor expressions.\<close>

lemma expand_plain: "CHR ''$'' \<notin> set s \<Longrightarrow> expand_variables s symtabs n = Inr s"
  unfolding expand_variables_def
  by (induction symtabs n "None :: string option" s rule: expand_chars.induct) (auto simp: append_err_def)

lemma collect_plain: "CHR ''$'' \<notin> set s \<Longrightarrow> collect_variable_references s n = Inr {}"
  unfolding collect_variable_references_def
  by (induction n "None :: string option" s rule: collect_chars.induct) auto

lemma evaluate_plain: "CHR ''$'' \<notin> set s \<Longrightarrow> evaluate_expressions ev s n = Inr s"
  unfolding evaluate_expressions_def
  by (induction ev n "None :: (string \<times> nat) option" s rule: eval_chars.induct) (auto simp: append_err_def)

lemma map_err_cong_Inr: "(\<And>x. x \<in> set xs \<Longrightarrow> f x = Inr x) \<Longrightarrow> map_err f xs = Inr xs"
  using map_err_Inr [of xs f "\<lambda>x. x"] by simp

definition plain_parts :: "string list \<Rightarrow> bool" where
  "plain_parts ps \<longleftrightarrow> list_all (\<lambda>p. CHR ''$'' \<notin> set p) ps"

lemma expand_plain_line: "plain_parts (pl_parts pl) \<Longrightarrow> expand_variables_line pl symtabs = Inr pl"
  by (simp add: expand_variables_line_def plain_parts_def list_all_iff expand_plain map_err_cong_Inr)

lemma evaluate_plain_line: "plain_parts (pl_parts pl) \<Longrightarrow> evaluate_expressions_line ev pl = Inr pl"
  by (simp add: evaluate_expressions_line_def plain_parts_def list_all_iff evaluate_plain map_err_cong_Inr)

lemma collect_plain_line:
  "plain_parts (pl_parts pl) \<Longrightarrow> collect_variable_references_line pl = Inr (pl\<lparr>pl_varRefs := {}\<rparr>)"
  using map_err_Inr [of "pl_parts pl" "\<lambda>part. collect_variable_references part (pl_lineNumber pl)" "\<lambda>_. {}"]
  by (auto simp: collect_variable_references_line_def plain_parts_def list_all_iff collect_plain)

lemma part_word_plain: "list_all part_word ws \<Longrightarrow> plain_parts ws"
  by (auto simp: plain_parts_def part_word_def word_char_def list_all_iff)

section \<open>Quoting\<close>

text \<open>A quoted part: quotes and backslashes are escaped.\<close>

definition escape :: "string \<Rightarrow> string" where
  "escape w = concat (map (\<lambda>c. if c = QUOTE \<or> c = BACKSLASH then [BACKSLASH, c] else [c]) w)"

definition quoted_part :: "string \<Rightarrow> string" where
  "quoted_part w = QUOTE # escape w @ [QUOTE]"

lemma read_quoted_normal:
  "c \<noteq> QUOTE \<Longrightarrow> c \<noteq> BACKSLASH \<Longrightarrow> read_quoted (c # s) = (c # fst (read_quoted s), snd (read_quoted s))"
  by (cases s) (auto simp: split_def Let_def)

lemma read_quoted_end: "read_quoted (QUOTE # s) = ([], s)"
  by (cases s) auto

lemma BACKSLASH_QUOTE: "BACKSLASH \<noteq> QUOTE"
  by (simp add: char_defs)

lemma read_quoted_escape: "read_quoted (escape w @ QUOTE # s) = (w, s)"
  by (induction w)
    (auto simp: escape_def read_quoted_end read_quoted_normal BACKSLASH_QUOTE)

lemma split_quoted:
  "split_parts n part (quoted_part w @ s) =
     (if s \<noteq> [] \<and> part_space (hd s) then push_part (part @ w) (split_parts n [] s)
      else split_parts n (part @ w) s)"
  by (simp add: quoted_part_def read_quoted_escape part_space_def char_defs [symmetric])
    (simp add: char_defs)

text \<open>Quoting is undone by the splitter: a line of quoted words is split into exactly these words, whatever
  characters they contain - except that an empty word at the end of the line is lost.\<close>

theorem split_quoted_words:
  "split_into_atomic_parts (join_with '' '' (map quoted_part ws)) n
     = Inr (if ws \<noteq> [] \<and> last ws = [] then butlast ws else ws)"
proof (induction ws rule: induct_list012)
  case 1
  then show ?case by (simp add: split_into_atomic_parts_def)
next
  case (2 w)
  then show ?case using split_quoted [of n "[]" w "[]"] by (simp add: split_into_atomic_parts_def)
next
  case (3 w w' ws)
  then show ?case using split_quoted [of n "[]" w "CHR '' '' # join_with '' '' (map quoted_part (w' # ws))"]
    by (simp add: split_into_atomic_parts_def push_part_def)
qed

section \<open>Variable references\<close>

text \<open>What the replacement of variables means: a text is a row of literal pieces and references; the values are
  inserted as they are, without replacing references in them again.\<close>

datatype segment = Lit string | Ref string

primrec seg_text :: "segment \<Rightarrow> string" where
  "seg_text (Lit s) = s"
| "seg_text (Ref v) = ''${'' @ v @ ''}''"

primrec seg_ok :: "segment \<Rightarrow> bool" where
  "seg_ok (Lit s) \<longleftrightarrow> CHR ''$'' \<notin> set s"
| "seg_ok (Ref v) \<longleftrightarrow> CHR ''}'' \<notin> set v"

fun substitute :: "SymbolTables \<Rightarrow> int \<Rightarrow> segment list \<Rightarrow> failure + string" where
  "substitute symtabs n [] = Inr []"
| "substitute symtabs n (Lit s # segs) = append_err s (substitute symtabs n segs)"
| "substitute symtabs n (Ref v # segs) =
     (case var_value (lookup_variable v symtabs) of
        None \<Rightarrow> Inl (ParseError (UndefinedVariable v) n)
      | Some x \<Rightarrow> append_err x (substitute symtabs n segs))"

definition segments_text :: "segment list \<Rightarrow> string" where
  "segments_text segs = concat (map seg_text segs)"

lemma append_err_assoc: "append_err a (append_err b r) = append_err (a @ b) r"
  by (cases r) (simp_all add: append_err_def)

lemma append_err_Nil [simp]: "append_err [] r = r"
  by (cases r) (simp_all add: append_err_def)

lemma expand_char:
  "c \<noteq> CHR ''$'' \<Longrightarrow> expand_chars symtabs n None (c # s) = append_err [c] (expand_chars symtabs n None s)"
  by (cases s) (simp_all add: append_err_def)

lemma expand_literal:
  "CHR ''$'' \<notin> set s \<Longrightarrow> expand_chars symtabs n None (s @ t) = append_err s (expand_chars symtabs n None t)"
  by (induction s) (auto simp: expand_char append_err_assoc)

lemma expand_name:
  "CHR ''}'' \<notin> set v \<Longrightarrow> expand_chars symtabs n (Some p) (v @ t) = expand_chars symtabs n (Some (p @ v)) t"
  by (induction v arbitrary: p) auto

lemma collect_char: "c \<noteq> CHR ''$'' \<Longrightarrow> collect_chars n None (c # s) = collect_chars n None s"
  by (cases s) simp_all

lemma collect_literal: "CHR ''$'' \<notin> set s \<Longrightarrow> collect_chars n None (s @ t) = collect_chars n None t"
  by (induction s) (auto simp: collect_char)

lemma collect_name:
  "CHR ''}'' \<notin> set v \<Longrightarrow> collect_chars n (Some p) (v @ t) = collect_chars n (Some (p @ v)) t"
  by (induction v arbitrary: p) auto

text \<open>Replacing variables inserts the value the innermost symbol table holds for every reference and
  reports the first undefined one; the references collected before are exactly those that are
  replaced.\<close>

theorem expand_variables_segments:
  assumes "list_all seg_ok segs"
  shows "expand_variables (segments_text segs) symtabs n = substitute symtabs n segs
    \<and> collect_variable_references (segments_text segs) n = Inr {v. Ref v \<in> set segs}"
  using assms
proof (induction segs)
  case Nil
  then show ?case by (simp add: segments_text_def expand_variables_def collect_variable_references_def)
next
  case (Cons seg segs)
  then show ?case
  proof (cases seg)
    case (Lit s)
    with Cons show ?thesis
      by (simp add: segments_text_def expand_variables_def collect_variable_references_def expand_literal
          collect_literal)
  next
    case (Ref v)
    with Cons show ?thesis
      by (auto simp: segments_text_def expand_variables_def collect_variable_references_def expand_name
          collect_name split: option.splits)
  qed
qed

theorem expand_variables_segments_witness:
  "expand_variables ''0x${base}4'' [\<lparr>symtab_name = ''inner'', symbols = [''base'' \<mapsto> new_variable ''12'' 1]\<rparr>] 3
     = Inr ''0x124''
   \<and> collect_variable_references ''0x${base}4'' 3 = Inr {''base''}"
  using expand_variables_segments [of "[Lit ''0x'', Ref ''base'', Lit ''4'']"
      "[\<lparr>symtab_name = ''inner'', symbols = [''base'' \<mapsto> new_variable ''12'' 1]\<rparr>]" 3]
  by (simp add: segments_text_def new_variable_def append_err_def)

section \<open>Lines without comments\<close>

text \<open>The pre-parser when no line opens a block comment.\<close>

fun pre_parse_clean :: "int \<Rightarrow> string list \<Rightarrow> failure + PreparsedLine list" where
  "pre_parse_clean n [] = Inr []"
| "pre_parse_clean n (l # ls) =
     bind_err (pre_parse_line (cut_comment l) n) (\<lambda>ppl.
     bind_err (pre_parse_clean (n + 1) ls) (\<lambda>ppls. Inr (ppl @ ppls)))"

lemma pre_parse_lines_clean: "list_all no_open ls \<Longrightarrow> pre_parse_lines False n ls = pre_parse_clean n ls"
  by (induction ls arbitrary: n) (simp_all add: handle_no_open)

lemma pre_parse_join:
  "ls \<noteq> [] \<Longrightarrow> list_all line_text ls \<Longrightarrow> last ls \<noteq> [] \<Longrightarrow> list_all no_open ls \<Longrightarrow>
   pre_parse (join_lines ls) = pre_parse_clean 1 ls"
  by (simp add: pre_parse_def read_join_lines pre_parse_lines_clean)

lemma pre_parse_clean_append:
  "pre_parse_clean n (ls @ ls') =
     bind_err (pre_parse_clean n ls) (\<lambda>a. bind_err (pre_parse_clean (n + int (length ls)) ls') (\<lambda>b. Inr (a @ b)))"
proof (induction ls arbitrary: n)
  case Nil
  then show ?case by (cases "pre_parse_clean n ls'") simp_all
next
  case (Cons l ls)
  show ?case using Cons.IH [of "n + 1"] by (simp add: ac_simps bind_err_def split: sum.split)
qed

text \<open>Characters of identifiers and numbers, and those that form references and separate words.\<close>

definition simple_char :: "char \<Rightarrow> bool" where
  "simple_char c \<longleftrightarrow> is_digit c \<or> is_alpha c \<or> c = CHR ''_''"

definition line_char :: "char \<Rightarrow> bool" where
  "line_char c \<longleftrightarrow> simple_char c \<or> c \<in> {CHR '' '', CHR ''$'', CHR ''{'', CHR ''}''}"

lemma plain_digit_simple: "plain_digit c \<Longrightarrow> simple_char c"
  by (auto simp: plain_digit_def simple_char_def is_alpha_def)

lemma simple_char_range: "simple_char c \<Longrightarrow> (48 :: nat) \<le> of_char c \<and> of_char c \<le> (122 :: nat)"
  by (auto simp: simple_char_def is_digit_def is_alpha_def is_upper_def is_lower_def)

lemma simple_not_space [simp]: "simple_char c \<Longrightarrow> \<not> is_space c"
  using simple_char_range [of c] by (auto simp: is_space_def)

lemma simple_word_char: "simple_char c \<Longrightarrow> word_char c"
  using simple_char_range [of c] by (auto simp: word_char_def part_space_def char_defs)

lemma line_char_cases: "line_char c \<Longrightarrow> c \<notin> {CHR ''#'', CHR ''/'', NL, CR}"
proof -
  have "\<not> line_char (CHR ''#'') \<and> \<not> line_char (CHR ''/'') \<and> \<not> line_char NL \<and> \<not> line_char CR"
    by code_simp
  then show "line_char c \<Longrightarrow> c \<notin> {CHR ''#'', CHR ''/'', NL, CR}" by auto
qed

lemma line_chars:
  assumes "list_all line_char l"
  shows "line_text l" "no_open l" "cut_comment l = l"
proof -
  have "CHR ''#'' \<notin> set l" "CHR ''/'' \<notin> set l" "NL \<notin> set l" "CR \<notin> set l"
    using assms line_char_cases by (auto simp: list_all_iff)
  then show "line_text l" "no_open l" "cut_comment l = l"
    by (simp_all add: line_text_def no_open_no_slash) (auto simp: cut_comment_def takeWhile_eq_all_conv)
qed

lemma upper_lower: "is_upper c \<Longrightarrow> is_lower (lower_char c)"
  by (auto simp: lower_char_def is_upper_def is_lower_def of_char_of)

definition simple_word :: "string \<Rightarrow> bool" where
  "simple_word w \<longleftrightarrow> w \<noteq> [] \<and> list_all simple_char w"

lemma simple_word_part: "simple_word w \<Longrightarrow> part_word w"
  by (auto simp: simple_word_def part_word_def list_all_iff simple_word_char)

lemma join_words_chars:
  "list_all simple_word ws \<Longrightarrow> list_all line_char (join_with '' '' ws)"
  by (induction ws rule: induct_list012)
    (auto simp: simple_word_def line_char_def list_all_iff)

lemma join_words_ends:
  "ws \<noteq> [] \<Longrightarrow> list_all simple_word ws \<Longrightarrow>
   join_with '' '' ws \<noteq> [] \<and> simple_char (hd (join_with '' '' ws)) \<and> simple_char (last (join_with '' '' ws))"
proof (induction ws rule: induct_list012)
  case (2 w)
  then show ?case by (auto simp: simple_word_def list_all_iff)
next
  case (3 w w' ws)
  then show ?case by (cases w) (auto simp: simple_word_def)
qed simp

lemma pre_parse_words:
  assumes "ws \<noteq> []" "list_all simple_word ws"
  shows "pre_parse_line (join_with '' '' ws) n =
    Inr [\<lparr>pl_line = join_with '' '' ws, pl_parts = to_lower (hd ws) # tl ws, pl_lineNumber = n, pl_varRefs = {}\<rparr>]"
proof -
  have parts: "list_all part_word ws" using assms(2) by (auto simp: list_all_iff simple_word_part)
  have "trimmed (join_with '' '' ws) = join_with '' '' ws" "join_with '' '' ws \<noteq> []"
    using join_words_ends [OF assms] by (auto intro: trimmed_solid)
  moreover have "plain_parts (to_lower (hd ws) # tl ws)"
  proof -
    have low: "CHR ''$'' = lower_char c \<longleftrightarrow> c = CHR ''$''" for c
    proof -
      have "\<not> is_lower (CHR ''$'')" by code_simp
      then show ?thesis using upper_lower [of c] by (cases "is_upper c") (auto simp: lower_char_def is_upper_def)
    qed
    have dollar: "lower_char (CHR ''$'') = CHR ''$''" by (simp add: lower_char_def is_upper_def)
    show ?thesis
      using part_word_plain [OF parts] assms(1) by (cases ws) (auto simp: plain_parts_def to_lower_def low dollar)
  qed
  ultimately show ?thesis
    using split_words [OF parts, of n] assms(1) by (cases ws) (simp_all add: pre_parse_line_def collect_plain_line)
qed

end
