(* ===== verification/Vme_Commands.thy ===== *)
theory Vme_Commands
  imports Vme_Lines
begin

text \<open>
  The commands of one line of a VME script: the argument parsers and the command table of
  \<^verbatim>\<open>src/src/vme_script.cc\<close> and the formatting of commands. \<^verbatim>\<open>QString::toFloat\<close> is a parameter that
  yields the bits of the single precision number; everything done with these bits is modelled.
\<close>

section \<open>Command names\<close>

definition commandTypeToString :: "(CommandType \<times> string) list" where
  "commandTypeToString =
    [(CmdRead, ''read''), (CmdReadAbs, ''readabs''), (CmdWrite, ''write''), (CmdWriteAbs, ''writeabs''),
     (CmdWait, ''wait''), (CmdMarker, ''marker''), (CmdBLT, ''blt''), (CmdBLTFifo, ''bltfifo''),
     (CmdMBLT, ''mblt''), (CmdMBLTFifo, ''mbltfifo''), (CmdMBLTSwapped, ''mblts''), (CmdSetBase, ''setbase''),
     (CmdResetBase, ''resetbase''), (CmdVMUSB_WriteRegister, ''vmusb_write_reg''),
     (CmdVMUSB_ReadRegister, ''vmusb_read_reg''), (CmdMVLC_WriteSpecial, ''mvlc_writespecial''),
     (CmdMetaBlock, ''meta_block''), (CmdSetVariable, ''set_variable''), (CmdPrint, ''print'')]"

definition command_name :: "CommandType \<Rightarrow> string" where
  "command_name t = (case map_of commandTypeToString t of Some s \<Rightarrow> s | None \<Rightarrow> ''unknown'')"

definition commandType_from_string :: "string \<Rightarrow> CommandType" where
  "commandType_from_string str =
     (case map_of (map (\<lambda>(t, s). (s, t)) commandTypeToString) (to_lower str) of
        Some t \<Rightarrow> t | None \<Rightarrow> CmdInvalid)"

section \<open>Arguments\<close>

definition parseAddressMode :: "string \<Rightarrow> failure + u8" where
  "parseAddressMode str =
     (if to_lower str = ''a16'' then Inr AM_A16
      else if to_lower str = ''a24'' then Inr AM_A24
      else if to_lower str = ''a32'' then Inr AM_A32
      else Inl (Message InvalidAddressMode))"

definition parseDataWidth :: "string \<Rightarrow> failure + DataWidth" where
  "parseDataWidth str =
     (if to_lower str = ''d16'' then Inr D16
      else if to_lower str = ''d32'' then Inr D32
      else Inl (Message InvalidDataWidth))"

definition parseAddress :: "string \<Rightarrow> failure + u32" where
  "parseAddress str =
     (case to_unsigned 32 str of None \<Rightarrow> Inl (Message InvalidAddress) | Some n \<Rightarrow> Inr (of_nat n))"

text \<open>\<^verbatim>\<open>parseBinaryLiteral<u32>\<close>; the digits are visited from the right.\<close>

fun binary_digits :: "nat \<Rightarrow> u32 \<Rightarrow> string \<Rightarrow> failure + u32" where
  "binary_digits shift result [] = Inr result"
| "binary_digits shift result (c # cs) =
     (if c = CHR ''0'' \<or> c = CHR ''1'' then
        (if shift > 31 then Inl (Message InputValueTooLarge)
         else binary_digits (shift + 1) (result OR push_bit shift (of_bool (c = CHR ''1''))) cs)
      else if c = CHR 0x27 then binary_digits shift result cs
      else Inl (Message InvalidBinaryCharacter))"

definition has_0b :: "string \<Rightarrow> bool" where
  "has_0b str \<longleftrightarrow> take 2 (to_lower str) = ''0b''"

definition parseBinaryLiteral :: "string \<Rightarrow> failure + u32" where
  "parseBinaryLiteral str =
     (let input = to_lower str; inputStart = (if has_0b str then 2 else 0)
      in binary_digits 0 0 (rev (drop inputStart input)))"

text \<open>A single precision number from its bits, rounded to the nearest integer, halves away from zero
  (\<^verbatim>\<open>std::round\<close>).\<close>

datatype rounded = RInf bool | RNaN | RInt int

definition round_shift :: "nat \<Rightarrow> int \<Rightarrow> nat" where
  "round_shift sig e = (if e \<ge> 0 then sig * 2 ^ nat e else (2 * sig + 2 ^ nat (- e)) div (2 * 2 ^ nat (- e)))"

definition float_round :: "u32 \<Rightarrow> rounded" where
  "float_round b =
     (let negative = bit b 31; expo = unat (drop_bit 23 b AND 0xff); mant = unat (b AND 0x7fffff)
      in if expo = 255 then (if mant = 0 then RInf negative else RNaN)
         else
           (let sig = (if expo = 0 then mant else mant + 2 ^ 23);
                r = int (round_shift sig ((if expo = 0 then 1 else int expo) - 150))
            in RInt (if negative then - r else r)))"

text \<open>The integer value of the text and, when it is not an integer, of the floating point number.\<close>

definition float_value :: "(string \<Rightarrow> u32 option) \<Rightarrow> string \<Rightarrow> failure + nat" where
  "float_value to_float str =
     (case to_float str of None \<Rightarrow> Inl (Message InvalidNumericValue)
      | Some b \<Rightarrow>
          (case float_round b of
             RNaN \<Rightarrow> Inl UndefinedConversion
           | RInf negative \<Rightarrow> Inl (if negative then Message NegativeValue else UndefinedConversion)
           | RInt i \<Rightarrow>
               if i < 0 then Inl (Message NegativeValue)
               else if i < 2 ^ 64 then Inr (nat i) else Inl UndefinedConversion))"

definition parseValue :: "(string \<Rightarrow> u32 option) \<Rightarrow> string \<Rightarrow> failure + u32" where
  "parseValue to_float str =
     (if has_0b str then parseBinaryLiteral str
      else
        bind_err (case to_unsigned 64 str of Some n \<Rightarrow> Inr n | None \<Rightarrow> float_value to_float str) (\<lambda>val.
          if val > 0xffffffff then Inl (Message ValueOutOfRange) else Inr (of_nat val)))"

section \<open>Commands\<close>

type_synonym arguments = "string list"

definition check_args :: "bool \<Rightarrow> int \<Rightarrow> failure + 'a \<Rightarrow> failure + 'a" where
  "check_args ok lineNumber body = (if ok then body else Inl (ParseError InvalidArgumentCount lineNumber))"

definition parseRead :: "arguments \<Rightarrow> int \<Rightarrow> failure + Command" where
  "parseRead args lineNumber =
     check_args (length args = 4) lineNumber
       (bind_err (parseAddressMode (args ! 1)) (\<lambda>am.
        bind_err (parseDataWidth (args ! 2)) (\<lambda>dw.
        bind_err (parseAddress (args ! 3)) (\<lambda>addr.
          Inr (new_command\<lparr>cmd_type := commandType_from_string (args ! 0), addressMode := am, dataWidth := dw,
                 cmd_address := addr, cmd_lineNumber := lineNumber\<rparr>)))))"

definition parseWrite :: "(string \<Rightarrow> u32 option) \<Rightarrow> arguments \<Rightarrow> int \<Rightarrow> failure + Command" where
  "parseWrite to_float args lineNumber =
     check_args (length args = 5) lineNumber
       (bind_err (parseAddressMode (args ! 1)) (\<lambda>am.
        bind_err (parseDataWidth (args ! 2)) (\<lambda>dw.
        bind_err (parseAddress (args ! 3)) (\<lambda>addr.
        bind_err (parseValue to_float (args ! 4)) (\<lambda>v.
          Inr (new_command\<lparr>cmd_type := commandType_from_string (args ! 0), addressMode := am, dataWidth := dw,
                 cmd_address := addr, cmd_value := v\<rparr>))))))"

text \<open>The regular expression \<^verbatim>\<open>^(\d+)([[:alpha:]]*)$\<close>; a dollar sign also matches before a final line
  feed. A number of more than 32 bits is 0.\<close>

definition match_delay :: "string \<Rightarrow> (string \<times> string) option" where
  "match_delay str =
     (let digits = takeWhile is_digit str; rest = dropWhile is_digit str;
          unit = takeWhile is_alpha rest; end_text = dropWhile is_alpha rest
      in if digits \<noteq> [] \<and> (end_text = [] \<or> end_text = [NL]) then Some (digits, unit) else None)"

definition parseWait :: "arguments \<Rightarrow> int \<Rightarrow> failure + Command" where
  "parseWait args lineNumber =
     check_args (length args = 2) lineNumber
       (case match_delay (args ! 1) of None \<Rightarrow> Inl (Message InvalidDelay)
        | Some (digits, unitString) \<Rightarrow>
            (let delay = (case to_unsigned_dec 32 digits of None \<Rightarrow> 0 | Some n \<Rightarrow> of_nat n);
                 result = new_command\<lparr>cmd_type := CmdWait\<rparr>
             in if unitString = ''s'' then Inr (result\<lparr>delay_ms := delay * 1000\<rparr>)
                else if unitString = ''ns'' then Inr (result\<lparr>delay_ms := delay div 1000\<rparr>)
                else if unitString \<noteq> [] \<and> unitString \<noteq> ''ms'' then Inl (Message InvalidDelay)
                else Inr (result\<lparr>delay_ms := delay\<rparr>)))"

definition parseMarker :: "(string \<Rightarrow> u32 option) \<Rightarrow> arguments \<Rightarrow> int \<Rightarrow> failure + Command" where
  "parseMarker to_float args lineNumber =
     check_args (length args = 2) lineNumber
       (bind_err (parseValue to_float (args ! 1)) (\<lambda>v.
          Inr (new_command\<lparr>cmd_type := CmdMarker, cmd_value := v\<rparr>)))"

definition parseBlockTransfer :: "(string \<Rightarrow> u32 option) \<Rightarrow> arguments \<Rightarrow> int \<Rightarrow> failure + Command" where
  "parseBlockTransfer to_float args lineNumber =
     check_args (length args = 4) lineNumber
       (bind_err (parseAddressMode (args ! 1)) (\<lambda>am.
        bind_err (parseAddress (args ! 2)) (\<lambda>addr.
        bind_err (parseValue to_float (args ! 3)) (\<lambda>v.
          Inr (new_command\<lparr>cmd_type := commandType_from_string (args ! 0), addressMode := am,
                 cmd_address := addr, transfers := v\<rparr>)))))"

definition parseSetBase :: "arguments \<Rightarrow> int \<Rightarrow> failure + Command" where
  "parseSetBase args lineNumber =
     check_args (length args = 2) lineNumber
       (bind_err (parseAddress (args ! 1)) (\<lambda>addr.
          Inr (new_command\<lparr>cmd_type := commandType_from_string (args ! 0), cmd_address := addr\<rparr>)))"

definition parseResetBase :: "arguments \<Rightarrow> int \<Rightarrow> failure + Command" where
  "parseResetBase args lineNumber =
     check_args (length args = 1) lineNumber
       (Inr (new_command\<lparr>cmd_type := commandType_from_string (args ! 0)\<rparr>))"

definition VMUSB_RegisterNameToAddress :: "(string \<times> u32) list" where
  "VMUSB_RegisterNameToAddress =
    [(''dev_src'', 0x10), (''dgg_a'', 0x14), (''dgg_b'', 0x18), (''dgg_ext'', 0x38), (''sclr_a'', 0x1c),
     (''sclr_b'', 0x20), (''daq_settings'', 8)]"

definition parse_register :: "string \<Rightarrow> int \<Rightarrow> failure + u32" where
  "parse_register str lineNumber =
     (case to_unsigned 32 str of Some n \<Rightarrow> Inr (of_nat n)
      | None \<Rightarrow>
          (case map_of VMUSB_RegisterNameToAddress str of Some a \<Rightarrow> Inr a
           | None \<Rightarrow> Inl (ParseError InvalidRegister lineNumber)))"

definition parse_VMUSB_write_reg :: "(string \<Rightarrow> u32 option) \<Rightarrow> arguments \<Rightarrow> int \<Rightarrow> failure + Command" where
  "parse_VMUSB_write_reg to_float args lineNumber =
     check_args (length args = 3) lineNumber
       (bind_err (parse_register (args ! 1) lineNumber) (\<lambda>regAddress.
        bind_err (parseValue to_float (args ! 2)) (\<lambda>v.
          Inr (new_command\<lparr>cmd_type := commandType_from_string (args ! 0), cmd_address := regAddress,
                 cmd_value := v\<rparr>))))"

definition parse_VMUSB_read_reg :: "arguments \<Rightarrow> int \<Rightarrow> failure + Command" where
  "parse_VMUSB_read_reg args lineNumber =
     check_args (length args = 2) lineNumber
       (bind_err (parse_register (args ! 1) lineNumber) (\<lambda>regAddress.
          Inr (new_command\<lparr>cmd_type := commandType_from_string (args ! 0), cmd_address := regAddress\<rparr>)))"

definition SpecialTimestamp :: u32 where "SpecialTimestamp = 0"
definition SpecialStackTriggers :: u32 where "SpecialStackTriggers = 1"

text \<open>An exception of \<open>parseValue\<close> becomes a \<^verbatim>\<open>ParseError\<close>.\<close>

definition parse_mvlc_writespecial :: "(string \<Rightarrow> u32 option) \<Rightarrow> arguments \<Rightarrow> int \<Rightarrow> failure + Command" where
  "parse_mvlc_writespecial to_float args lineNumber =
     check_args (length args = 2) lineNumber
       (bind_err
          (if args ! 1 = ''timestamp'' then Inr SpecialTimestamp
           else if args ! 1 = ''stack_triggers'' then Inr SpecialStackTriggers
           else (case parseValue to_float (args ! 1) of
                   Inl (Message p) \<Rightarrow> Inl (ParseError InvalidSpecialWord lineNumber)
                 | r \<Rightarrow> r))
          (\<lambda>v. Inr (new_command\<lparr>cmd_type := commandType_from_string (args ! 0), cmd_value := v\<rparr>)))"

definition parse_float_part :: "string \<Rightarrow> int \<Rightarrow> failure + nat" where
  "parse_float_part str lineNumber =
     (let partStr = to_lower str
      in if partStr = ''lower'' \<or> partStr = ''0'' then Inr 0
         else if partStr = ''upper'' \<or> partStr = ''1'' then Inr 1
         else Inl (ParseError (InvalidFloatPart partStr) lineNumber))"

definition parse_write_float_word :: "(string \<Rightarrow> u32 option) \<Rightarrow> arguments \<Rightarrow> int \<Rightarrow> failure + Command" where
  "parse_write_float_word to_float args lineNumber =
     check_args (length args = 5) lineNumber
       (bind_err (parseAddressMode (args ! 1)) (\<lambda>am.
        bind_err (parseAddress (args ! 2)) (\<lambda>addr.
        bind_err (parse_float_part (args ! 3) lineNumber) (\<lambda>part.
          case to_float (args ! 4) of None \<Rightarrow> Inl (ParseError (InvalidFloat (args ! 4)) lineNumber)
          | Some bits \<Rightarrow>
              Inr (new_command\<lparr>cmd_type := CmdWrite, addressMode := am, cmd_address := addr, dataWidth := D16,
                     cmd_value := (if part = 1 then drop_bit 16 bits else bits) AND 0xffff\<rparr>)))))"

definition parse_print :: "arguments \<Rightarrow> int \<Rightarrow> failure + Command" where
  "parse_print args lineNumber =
     Inr (new_command\<lparr>cmd_type := CmdPrint, printArgs := (if length args > 1 then tl args else [])\<rparr>)"

type_synonym CommandParser = "arguments \<Rightarrow> int \<Rightarrow> failure + Command"

definition commandParsers :: "(string \<Rightarrow> u32 option) \<Rightarrow> (string \<times> CommandParser) list" where
  "commandParsers to_float =
    [(''read'', parseRead), (''readabs'', parseRead),
     (''write'', parseWrite to_float), (''writeabs'', parseWrite to_float),
     (''wait'', parseWait), (''marker'', parseMarker to_float),
     (''blt'', parseBlockTransfer to_float), (''bltfifo'', parseBlockTransfer to_float),
     (''mblt'', parseBlockTransfer to_float), (''mbltfifo'', parseBlockTransfer to_float),
     (''mblts'', parseBlockTransfer to_float),
     (''setbase'', parseSetBase), (''resetbase'', parseResetBase),
     (''vmusb_write_reg'', parse_VMUSB_write_reg to_float), (''vmusb_read_reg'', parse_VMUSB_read_reg),
     (''mvlc_writespecial'', parse_mvlc_writespecial to_float),
     (''write_float_word'', parse_write_float_word to_float), (''print'', parse_print)]"

text \<open>The parsers throw strings; here they get the line number.\<close>

definition at_line :: "int \<Rightarrow> failure + 'a \<Rightarrow> failure + 'a" where
  "at_line lineNumber r = (case r of Inl (Message p) \<Rightarrow> Inl (ParseError p lineNumber) | _ \<Rightarrow> r)"

definition rename_message :: "(problem \<Rightarrow> problem) \<Rightarrow> int \<Rightarrow> failure + 'a \<Rightarrow> failure + 'a" where
  "rename_message f lineNumber r = (case r of Inl (Message p) \<Rightarrow> Inl (ParseError (f p) lineNumber) | _ \<Rightarrow> r)"

text \<open>\<open>parts.at(0).at(0)\<close> does not exist when the first part is empty. Both messages of the short form quote
  the second part.\<close>

definition handle_single_line_command :: "(string \<Rightarrow> u32 option) \<Rightarrow> PreparsedLine \<Rightarrow> failure + Command" where
  "handle_single_line_command to_float line =
     (let parts = pl_parts line; n = pl_lineNumber line
      in case parts of [] \<Rightarrow> Inl OutOfRangeAccess
         | [] # _ \<Rightarrow> Inl OutOfRangeAccess
         | (c # cs) # _ \<Rightarrow>
             if is_digit c \<and> length parts = 2 then
               bind_err (rename_message (InvalidShortAddress (parts ! 1)) n (parseValue to_float (parts ! 0))) (\<lambda>addr.
               bind_err (rename_message (InvalidShortValue (parts ! 1)) n (parseValue to_float (parts ! 1))) (\<lambda>val.
                 Inr (short_write addr val)))
             else
               (case map_of (commandParsers to_float) (to_lower (parts ! 0)) of
                  None \<Rightarrow> Inl (ParseError (NoSuchCommand (parts ! 0)) n)
                | Some parseFun \<Rightarrow> at_line n (parseFun parts n)))"

section \<open>Formatting\<close>

definition format_hex :: "u32 \<Rightarrow> string" where
  "format_hex v = ''0x'' @ show_padded (unat v) 8 16 (CHR ''0'')"

definition address_mode_name :: "u8 \<Rightarrow> string" where
  "address_mode_name am =
     (if am \<in> {0x29, 0x2D} then ''a16''
      else if am \<in> {0x39, 0x3A, 0x3B, 0x3D, 0x3E, 0x3F} then ''a24''
      else if am \<in> {0x09, 0x0A, 0x0B, 0x08, 0x0D, 0x0E, 0x0F, 0x0C} then ''a32''
      else ''unknown'')"

definition data_width_name :: "DataWidth \<Rightarrow> string" where
  "data_width_name dw = (case dw of D16 \<Rightarrow> ''d16'' | D32 \<Rightarrow> ''d32'')"

text \<open>The cast to the one-byte enumeration drops the upper bits.\<close>

definition special_word_name :: "u32 \<Rightarrow> string" where
  "special_word_name v =
     (if (ucast v :: u8) = 0 then ''Timestamp'' else if (ucast v :: u8) = 1 then ''StackTriggers''
      else ''Unrecognized MVLC special word'')"

text \<open>\<^verbatim>\<open>src/src/vmusb.cpp\<close>\<close>

definition registerNames :: "(u32 \<times> string) list" where
  "registerNames =
    [(0, ''FirmwareId''), (4, ''GlobalMode''), (8, ''DAQSettings''), (0xc, ''LEDSources''),
     (0x10, ''DeviceSources''), (0x14, ''DGGASettings''), (0x18, ''DGGBSettings''), (0x1c, ''ScalerAData''),
     (0x20, ''ScalerBData''), (0x24, ''EventsPerBuffer''), (0x28, ''Irq12''), (0x2c, ''Irq34''),
     (0x30, ''Irq56''), (0x34, ''Irq78''), (0x38, ''ExtDGGSettings''), (0x3c, ''USBBulkSetup'')]"

definition getRegisterName :: "u32 \<Rightarrow> string" where
  "getRegisterName registerAddress =
     (case map_of registerNames registerAddress of Some s \<Rightarrow> s | None \<Rightarrow> ''Unknown Register'')"

text \<open>\<^const>\<open>None\<close> is the failed assertion.\<close>

definition command_to_string :: "Command \<Rightarrow> string option" where
  "command_to_string cmd =
     (let cmdStr = command_name (cmd_type cmd); am = address_mode_name (addressMode cmd);
          addr = format_hex (cmd_address cmd)
      in case cmd_type cmd of
           CmdInvalid \<Rightarrow> Some cmdStr
         | CmdResetBase \<Rightarrow> Some cmdStr
         | CmdRead \<Rightarrow> Some (join_with '' '' [cmdStr, am, data_width_name (dataWidth cmd), addr])
         | CmdReadAbs \<Rightarrow> Some (join_with '' '' [cmdStr, am, data_width_name (dataWidth cmd), addr])
         | CmdWrite \<Rightarrow> Some (join_with '' '' [cmdStr, am, data_width_name (dataWidth cmd), addr, format_hex (cmd_value cmd)])
         | CmdWriteAbs \<Rightarrow> Some (join_with '' '' [cmdStr, am, data_width_name (dataWidth cmd), addr, format_hex (cmd_value cmd)])
         | CmdWait \<Rightarrow> Some (''wait '' @ show_dec (unat (delay_ms cmd)) @ ''ms'')
         | CmdMarker \<Rightarrow> Some (''marker 0x'' @ show_padded (unat (cmd_value cmd)) 8 16 (CHR ''0''))
         | CmdBLT \<Rightarrow> Some (join_with '' '' [cmdStr, am, addr, show_dec (unat (transfers cmd))])
         | CmdBLTFifo \<Rightarrow> Some (join_with '' '' [cmdStr, am, addr, show_dec (unat (transfers cmd))])
         | CmdMBLT \<Rightarrow> Some (join_with '' '' [cmdStr, am, addr, show_dec (unat (transfers cmd))])
         | CmdMBLTFifo \<Rightarrow> Some (join_with '' '' [cmdStr, am, addr, show_dec (unat (transfers cmd))])
         | CmdMBLTSwapped \<Rightarrow> Some (join_with '' '' [cmdStr, am, addr, show_dec (unat (transfers cmd))])
         | CmdBlk2eSST64 \<Rightarrow> None
         | CmdSetBase \<Rightarrow> Some (join_with '' '' [cmdStr, addr])
         | CmdVMUSB_WriteRegister \<Rightarrow>
             Some (join_with '' '' [cmdStr, addr, format_hex (cmd_value cmd), ''('' @ getRegisterName (cmd_address cmd) @ '')''])
         | CmdVMUSB_ReadRegister \<Rightarrow> Some (join_with '' '' [cmdStr, addr, ''('' @ getRegisterName (cmd_address cmd) @ '')''])
         | CmdMVLC_WriteSpecial \<Rightarrow> Some (join_with '' '' [cmdStr, special_word_name (cmd_value cmd)])
         | CmdMetaBlock \<Rightarrow> Some (''meta_block with '' @ show_dec (length (preparsedLines (metaBlock cmd))) @ '' lines'')
         | CmdSetVariable \<Rightarrow> Some []
         | CmdPrint \<Rightarrow> Some (cmdStr @ join_with '' '' (printArgs cmd)))"

section \<open>Numbers\<close>

lemma has_0b_iff: "has_0b (c # d # s) \<longleftrightarrow> lower_char c = CHR ''0'' \<and> lower_char d = CHR ''b''"
  by (simp add: has_0b_def to_lower_def)

lemma lower_char_plain [simp]: "plain_digit c \<Longrightarrow> lower_char c = c"
  by (auto simp: lower_char_def plain_digit_def is_digit_def is_lower_def is_upper_def)

lemma has_0b_hex: "\<not> has_0b (''0x'' @ s)"
  by (simp add: has_0b_def to_lower_def lower_char_def is_upper_def)

lemma has_0b_dec: "\<not> has_0b (show_dec n)"
proof -
  have "d \<noteq> CHR ''b''" if "d \<in> set (show_dec n)" for d
    using show_dec_digit [OF that] by (auto simp: is_digit_def)
  moreover have "lower_char d = d" if "d \<in> set (show_dec n)" for d
    using show_dec_digit [OF that] by (simp add: plain_digit_def)
  ultimately show ?thesis
    by (cases "show_dec n"; cases "tl (show_dec n)") (auto simp: has_0b_def to_lower_def)
qed

lemma parseValue_hex:
  "n < 2 ^ 64 \<Longrightarrow> parseValue to_float (''0x'' @ show_padded n w 16 (CHR ''0''))
     = (if n < 2 ^ 32 then Inr (of_nat n) else Inl (Message ValueOutOfRange))"
  unfolding parseValue_def by (simp only: has_0b_hex to_unsigned_hex if_False) simp

lemma parseValue_dec:
  "n < 2 ^ 64 \<Longrightarrow> parseValue to_float (show_dec n)
     = (if n < 2 ^ 32 then Inr (of_nat n) else Inl (Message ValueOutOfRange))"
  unfolding parseValue_def by (simp only: has_0b_dec to_unsigned_dec if_False) simp

lemma parseAddress_hex: "parseAddress (format_hex v) = Inr v"
  using unsigned_less [of v] by (simp add: parseAddress_def format_hex_def to_unsigned_hex [simplified])

text \<open>The digits of a binary literal from the right; the separators do not count.\<close>

definition is_binary :: "char \<Rightarrow> bool" where
  "is_binary c \<longleftrightarrow> c = CHR ''0'' \<or> c = CHR ''1'' \<or> c = CHR 0x27"

definition binary_bits :: "string \<Rightarrow> bool list" where
  "binary_bits s = map (\<lambda>c. c = CHR ''1'') (filter (\<lambda>c. c \<noteq> CHR 0x27) s)"

lemma binary_bits_simps [simp]:
  "binary_bits [] = []" "binary_bits (CHR 0x27 # cs) = binary_bits cs"
  "binary_bits (CHR ''0'' # cs) = False # binary_bits cs" "binary_bits (CHR ''1'' # cs) = True # binary_bits cs"
  by (simp_all add: binary_bits_def)

lemma or_shifted_bit:
  assumes "shift < 32"
  shows "(result OR push_bit shift (of_bool b)) OR push_bit (Suc shift) (horner_sum of_bool 2 bs)
    = (result :: u32) OR push_bit shift (horner_sum of_bool 2 (b # bs))"
proof (rule word_eqI_bits)
  fix i assume i: "i < LENGTH(32)"
  have 1: "bit (push_bit shift (of_bool b) :: u32) i \<longleftrightarrow> b \<and> i = shift"
    using assms by (auto simp: bit_simps)
  have 2: "bit (push_bit (Suc shift) (horner_sum of_bool 2 bs) :: u32) i
      \<longleftrightarrow> shift < i \<and> i - Suc shift < length bs \<and> bs ! (i - Suc shift)"
    using i unfolding bit_push_bit_iff bit_horner_sum_bit_word_iff by auto
  have 3: "bit (push_bit shift (horner_sum of_bool 2 (b # bs)) :: u32) i
      \<longleftrightarrow> shift \<le> i \<and> i - shift < Suc (length bs) \<and> (b # bs) ! (i - shift)"
    using i unfolding bit_push_bit_iff bit_horner_sum_bit_word_iff by auto
  have "(b # bs) ! (i - shift) \<longleftrightarrow> (if i = shift then b else bs ! (i - Suc shift))" if "shift \<le> i"
    using that by (simp add: nth_Cons')
  then show "bit ((result OR push_bit shift (of_bool b)) OR push_bit (Suc shift) (horner_sum of_bool 2 bs)) i
      = bit (result OR push_bit shift (horner_sum of_bool 2 (b # bs))) i"
    unfolding bit_or_iff 1 2 3 by (cases "i = shift") auto
qed

lemma binary_digits_value:
  "list_all is_binary cs \<Longrightarrow> shift \<le> 32 \<Longrightarrow>
   binary_digits shift result cs =
     (if shift + length (binary_bits cs) \<le> 32
      then Inr (result OR push_bit shift (horner_sum of_bool 2 (binary_bits cs)))
      else Inl (Message InputValueTooLarge))"
proof (induction cs arbitrary: shift result)
  case Nil
  then show ?case by simp
next
  case (Cons c cs)
  consider "c = CHR 0x27" | b where "c = (if b then CHR ''1'' else CHR ''0'')"
    using Cons.prems that(2) [of True] that(2) [of False] by (auto simp: is_binary_def)
  then show ?case
  proof cases
    case 1
    with Cons show ?thesis by simp
  next
    case 2
    then have bits: "binary_bits (c # cs) = b # binary_bits cs" "c = CHR ''0'' \<or> c = CHR ''1''" "c = CHR ''1'' \<longleftrightarrow> b"
      by simp_all
    show ?thesis
    proof (cases "shift = 32")
      case True
      with bits show ?thesis by simp
    next
      case False
      with Cons.prems have "shift < 32" by simp
      then have "binary_digits shift result (c # cs) = binary_digits (Suc shift) (result OR push_bit shift (of_bool b)) cs"
        using bits by auto
      also have "\<dots> = (if Suc shift + length (binary_bits cs) \<le> 32
          then Inr ((result OR push_bit shift (of_bool b)) OR push_bit (Suc shift) (horner_sum of_bool 2 (binary_bits cs)))
          else Inl (Message InputValueTooLarge))"
        using \<open>shift < 32\<close> Cons.prems by (intro Cons.IH) simp_all
      finally show ?thesis
        unfolding or_shifted_bit [OF \<open>shift < 32\<close>] bits(1) by simp
    qed
  qed
qed

lemma to_lower_binary: "list_all is_binary s \<Longrightarrow> to_lower s = s"
  by (induction s) (auto simp: to_lower_def is_binary_def lower_char_def is_upper_def)

lemma parseValue_binary:
  assumes "list_all is_binary bin"
  shows "parseValue to_float (''0b'' @ bin)
    = (if length (binary_bits bin) \<le> 32 then Inr (horner_sum of_bool 2 (rev (binary_bits bin)))
       else Inl (Message InputValueTooLarge))"
proof -
  have "binary_bits (rev bin) = rev (binary_bits bin)" by (simp add: binary_bits_def rev_map rev_filter)
  then show ?thesis
    using assms binary_digits_value [of "rev bin" 0 0] to_lower_binary [OF assms]
    by (simp add: parseValue_def parseBinaryLiteral_def has_0b_def to_lower_def lower_char_def is_upper_def
        list_all_rev)
qed

text \<open>A number written in decimal, in hexadecimal or in binary is read as its value; a value of more than 32
  bits is refused, never truncated.\<close>

theorem parseValue_numbers:
  assumes "n < 2 ^ 64" "list_all is_binary bin"
  shows "parseValue to_float (show_dec n) = (if n < 2 ^ 32 then Inr (of_nat n) else Inl (Message ValueOutOfRange))
    \<and> parseValue to_float (''0x'' @ show_padded n w 16 (CHR ''0''))
        = (if n < 2 ^ 32 then Inr (of_nat n) else Inl (Message ValueOutOfRange))
    \<and> parseValue to_float (''0b'' @ bin)
        = (if length (binary_bits bin) \<le> 32 then Inr (horner_sum of_bool 2 (rev (binary_bits bin)))
           else Inl (Message InputValueTooLarge))"
  using parseValue_hex [OF assms(1)] parseValue_dec [OF assms(1)] parseValue_binary [OF assms(2)] by blast

theorem parseValue_numbers_witness:
  "parseValue (\<lambda>_. None) (show_dec 4660) = Inr 0x1234
   \<and> parseValue (\<lambda>_. None) (''0x'' @ show_padded 4660 8 16 (CHR ''0'')) = Inr 0x1234
   \<and> parseValue (\<lambda>_. None) (''0b'' @ ''10'' @ [CHR 0x27] @ ''0110'') = Inr 38"
  using parseValue_numbers [of 4660 "''10'' @ [CHR 0x27] @ ''0110''" "\<lambda>_. None" 8]
  by (simp add: is_binary_def)

section \<open>Delays\<close>

lemma match_delay_dec:
  assumes "list_all is_alpha u"
  shows "match_delay (show_dec n @ u) = Some (show_dec n, u)"
proof -
  have "\<forall>c \<in> set (show_dec n). is_digit c" using show_dec_digit by auto
  moreover have "\<not> is_digit c" if "c \<in> set u" for c
    using assms that by (auto simp: list_all_iff is_alpha_def is_digit_def is_upper_def is_lower_def)
  ultimately have "takeWhile is_digit (show_dec n @ u) = show_dec n" "dropWhile is_digit (show_dec n @ u) = u"
    by (auto simp: takeWhile_append dropWhile_append dropWhile_eq_self_iff takeWhile_eq_Nil_iff)
  moreover have "takeWhile is_alpha u = u" "dropWhile is_alpha u = []"
    using assms by (simp_all add: list_all_iff)
  ultimately show ?thesis by (simp add: match_delay_def show_dec_def)
qed

text \<open>A delay in seconds is reduced modulo the 32 bits of \<open>delay_ms\<close>, the unit "ns" divides by a
  thousand only, and a number beyond 32 bits is read as no delay at all - none of this is reported.\<close>

theorem parseWait_delay:
  "let d = (if n < 2 ^ 32 then n else 0);
       read = (\<lambda>text. map_sum id (\<lambda>cmd. unat (delay_ms cmd)) (parseWait [name, text] line))
   in read (show_dec n @ ''s'') = Inr (d * 1000 mod 2 ^ 32)
    \<and> read (show_dec n @ ''ns'') = Inr (d div 1000)
    \<and> read (show_dec n @ ''ms'') = Inr d
    \<and> read (show_dec n) = Inr d"
proof -
  define d where "d = (if n < 2 ^ 32 then n else 0)"
  have [simp]: "match_delay (show_dec n @ ''s'') = Some (show_dec n, ''s'')"
    "match_delay (show_dec n @ ''ns'') = Some (show_dec n, ''ns'')"
    "match_delay (show_dec n @ ''ms'') = Some (show_dec n, ''ms'')"
    "match_delay (show_dec n) = Some (show_dec n, [])"
    using match_delay_dec [of "[]" n] by (simp_all add: match_delay_dec is_alpha_def is_lower_def)
  have d: "(case to_unsigned_dec 32 (show_dec n) of None \<Rightarrow> 0 | Some n \<Rightarrow> of_nat n) = (of_nat d :: u32)"
    by (simp add: to_unsigned_dec_dec d_def)
  have "d < 2 ^ 32" by (simp add: d_def)
  then have "unat (of_nat d :: u32) = d" by (simp add: unat_of_nat take_bit_nat_eq_self)
  then show ?thesis
    unfolding Let_def d_def [symmetric]
    using d by (simp add: parseWait_def check_args_def new_command_def unat_div unat_word_ariths)
qed
section \<open>Commands that were printed are parsed back\<close>

definition printable :: "Command \<Rightarrow> bool" where
  "printable cmd \<longleftrightarrow>
     cmd_type cmd \<in> {CmdRead, CmdReadAbs, CmdWrite, CmdWriteAbs, CmdWait, CmdMarker, CmdBLT, CmdBLTFifo, CmdMBLT,
                     CmdMBLTFifo, CmdMBLTSwapped, CmdSetBase, CmdResetBase}
     \<and> addressMode cmd \<in> {AM_A16, AM_A24, AM_A32}"

text \<open>The fields a printed command keeps; the line number of a read command is that of its line.\<close>

definition printed_part :: "int \<Rightarrow> Command \<Rightarrow> Command" where
  "printed_part n cmd =
     (let c = new_command\<lparr>cmd_type := cmd_type cmd\<rparr>
      in if cmd_type cmd \<in> {CmdRead, CmdReadAbs} then
           c\<lparr>addressMode := addressMode cmd, dataWidth := dataWidth cmd, cmd_address := cmd_address cmd, cmd_lineNumber := n\<rparr>
         else if cmd_type cmd \<in> {CmdWrite, CmdWriteAbs} then
           c\<lparr>addressMode := addressMode cmd, dataWidth := dataWidth cmd, cmd_address := cmd_address cmd, cmd_value := cmd_value cmd\<rparr>
         else if cmd_type cmd = CmdWait then c\<lparr>delay_ms := delay_ms cmd\<rparr>
         else if cmd_type cmd = CmdMarker then c\<lparr>cmd_value := cmd_value cmd\<rparr>
         else if cmd_type cmd = CmdSetBase then c\<lparr>cmd_address := cmd_address cmd\<rparr>
         else if cmd_type cmd = CmdResetBase then c
         else c\<lparr>addressMode := addressMode cmd, cmd_address := cmd_address cmd, transfers := transfers cmd\<rparr>)"

text \<open>The words of its line.\<close>

definition command_words :: "Command \<Rightarrow> string list" where
  "command_words cmd =
     (let name = command_name (cmd_type cmd); am = address_mode_name (addressMode cmd);
          dw = data_width_name (dataWidth cmd); addr = format_hex (cmd_address cmd)
      in if cmd_type cmd \<in> {CmdRead, CmdReadAbs} then [name, am, dw, addr]
         else if cmd_type cmd \<in> {CmdWrite, CmdWriteAbs} then [name, am, dw, addr, format_hex (cmd_value cmd)]
         else if cmd_type cmd = CmdWait then [name, show_dec (unat (delay_ms cmd)) @ ''ms'']
         else if cmd_type cmd = CmdMarker then [name, format_hex (cmd_value cmd)]
         else if cmd_type cmd = CmdSetBase then [name, addr]
         else if cmd_type cmd = CmdResetBase then [name]
         else [name, am, addr, show_dec (unat (transfers cmd))])"

lemma command_to_string_words:
  "printable cmd \<Longrightarrow> command_to_string cmd = Some (join_with '' '' (command_words cmd))"
  by (auto simp: printable_def command_to_string_def command_words_def command_name_def commandTypeToString_def
      format_hex_def)

lemma commandType_of_name:
  "printable cmd \<Longrightarrow> commandType_from_string (command_name (cmd_type cmd)) = cmd_type cmd"
  by (auto simp: printable_def command_name_def commandTypeToString_def commandType_from_string_def to_lower_def
      lower_char_def is_upper_def)

lemma parse_names [simp]:
  "am \<in> {AM_A16, AM_A24, AM_A32} \<Longrightarrow> parseAddressMode (address_mode_name am) = Inr am"
  "parseDataWidth (data_width_name dw) = Inr dw"
  by (auto simp: parseAddressMode_def address_mode_name_def AM_A16_def AM_A24_def AM_A32_def to_lower_def
      lower_char_def is_upper_def parseDataWidth_def data_width_name_def split: DataWidth.split)

lemma unat_u32: "unat (v :: u32) < 2 ^ 32"
  by (rule less_le_trans [OF unsigned_less]) simp

lemma parseValue_format: "parseValue to_float (format_hex v) = Inr v"
  using parseValue_hex [of "unat v" to_float 8] unat_u32 [of v]
  by (simp add: format_hex_def)

lemma parseValue_dec_word: "parseValue to_float (show_dec (unat v)) = Inr v"
  for v :: u32
  using parseValue_dec [of "unat v" to_float] unat_u32 [of v] by simp

lemma parseWait_ms: "parseWait [name, show_dec (unat v) @ ''ms''] n = Inr (new_command\<lparr>cmd_type := CmdWait, delay_ms := v\<rparr>)"
  using match_delay_dec [of "''ms''" "unat v"] unat_u32 [of v]
  by (simp add: parseWait_def check_args_def is_alpha_def is_lower_def to_unsigned_dec_dec)
lemma command_name_cases:
  assumes "printable cmd"
  shows "simple_word (command_name (cmd_type cmd))"
    and "to_lower (command_name (cmd_type cmd)) = command_name (cmd_type cmd)"
    and "\<not> is_digit (hd (command_name (cmd_type cmd)))"
  using assms
  by (auto simp: printable_def command_name_def commandTypeToString_def simple_word_def simple_char_def is_alpha_def
      is_lower_def is_upper_def to_lower_def lower_char_def is_digit_def)

lemma simple_words:
  "printable cmd \<Longrightarrow> simple_word (address_mode_name (addressMode cmd))"
  "simple_word (data_width_name dw)" "simple_word (format_hex v)" "simple_word (show_dec k)"
  "simple_word (show_dec k @ ''ms'')"
proof -
  have dec: "simple_char c" if "c \<in> set (show_dec k)" for c k
    using show_dec_digit [OF that] by (simp add: simple_char_def)
  then show "simple_word (show_dec k)" "simple_word (show_dec k @ ''ms'')"
    by (auto simp: simple_word_def list_all_iff show_dec_def simple_char_def is_alpha_def is_lower_def)
  have "simple_char c" if "c \<in> set (show_padded (unat v) 8 16 (CHR ''0''))" for c
    using that show_padded_plain [of 16] plain_digit_simple by simp
  then show "simple_word (format_hex v)"
    by (simp add: simple_word_def list_all_iff format_hex_def simple_char_def is_digit_def is_alpha_def is_lower_def)
qed (auto simp: printable_def address_mode_name_def AM_A16_def AM_A24_def AM_A32_def data_width_name_def simple_word_def
    simple_char_def is_digit_def is_alpha_def is_lower_def split: DataWidth.split)

lemma command_words_simple:
  assumes "printable cmd"
  shows "command_words cmd \<noteq> []" "list_all simple_word (command_words cmd)"
    "to_lower (hd (command_words cmd)) # tl (command_words cmd) = command_words cmd"
  using command_name_cases [OF assms] simple_words(1) [OF assms] simple_words(2-)
  by (auto simp: command_words_def Let_def)

lemma parser_of_name:
  "printable cmd \<Longrightarrow>
   map_of (commandParsers to_float) (command_name (cmd_type cmd)) =
     Some (if cmd_type cmd \<in> {CmdRead, CmdReadAbs} then parseRead
           else if cmd_type cmd \<in> {CmdWrite, CmdWriteAbs} then parseWrite to_float
           else if cmd_type cmd = CmdWait then parseWait
           else if cmd_type cmd = CmdMarker then parseMarker to_float
           else if cmd_type cmd = CmdSetBase then parseSetBase
           else if cmd_type cmd = CmdResetBase then parseResetBase
           else parseBlockTransfer to_float)"
  by (auto simp: printable_def command_name_def commandTypeToString_def commandParsers_def)

lemma handle_named_command:
  "pl_parts pl = (c # cs) # args \<Longrightarrow> \<not> is_digit c \<Longrightarrow> to_lower (c # cs) = c # cs \<Longrightarrow>
   handle_single_line_command to_float pl =
     (case map_of (commandParsers to_float) (c # cs) of
        None \<Rightarrow> Inl (ParseError (NoSuchCommand (c # cs)) (pl_lineNumber pl))
      | Some f \<Rightarrow> at_line (pl_lineNumber pl) (f ((c # cs) # args) (pl_lineNumber pl)))"
  by (simp add: handle_single_line_command_def Let_def split: option.split)

lemma handle_printed:
  assumes "printable cmd" "pl_parts pl = command_words cmd"
  shows "handle_single_line_command to_float pl = Inr (printed_part (pl_lineNumber pl) cmd)"
proof -
  let ?name = "command_name (cmd_type cmd)"
  obtain c cs where name: "?name = c # cs"
    using command_name_cases(1) [OF assms(1)] by (cases ?name) (auto simp: simple_word_def)
  obtain args where words: "command_words cmd = ?name # args"
    using that [of "tl (command_words cmd)"] by (auto simp: command_words_def Let_def)
  have am: "addressMode cmd \<in> {AM_A16, AM_A24, AM_A32}" using assms(1) by (simp add: printable_def)
  have "handle_single_line_command to_float pl
      = (case map_of (commandParsers to_float) ?name of
           None \<Rightarrow> Inl (ParseError (NoSuchCommand ?name) (pl_lineNumber pl))
         | Some f \<Rightarrow> at_line (pl_lineNumber pl) (f (command_words cmd) (pl_lineNumber pl)))"
    using handle_named_command [of pl c cs args] command_name_cases(2,3) [OF assms(1)] words
    unfolding name assms(2) by (simp split: option.split)
  also have "\<dots> = Inr (printed_part (pl_lineNumber pl) cmd)"
    using assms(1) commandType_of_name [OF assms(1)] parse_names(1) [OF am]
    unfolding parser_of_name [OF assms(1)]
    by (auto simp: printable_def command_words_def Let_def printed_part_def at_line_def check_args_def parseRead_def
        parseWrite_def parseWait_ms parseMarker_def parseSetBase_def parseResetBase_def parseBlockTransfer_def
        parseAddress_hex parseValue_format parseValue_dec_word)
  finally show ?thesis .
qed

end
