(* ===== verification/Vme_Parse.thy ===== *)
theory Vme_Parse
  imports Vme_Commands
begin

text \<open>
  The VME script parser: the loop over the lines of a script of \<^verbatim>\<open>src/src/vme_script.cc\<close>, its meta blocks,
  its variables and its base address. The result is the parsed script and the symbol tables, which the
  code updates in place.
\<close>

section \<open>The parser\<close>

text \<open>The parameters: expression evaluation and \<^verbatim>\<open>QString::toFloat\<close>.\<close>

record ParserLib =
  lib_eval :: "string \<Rightarrow> math_error + string"
  lib_float :: "string \<Rightarrow> u32 option"

record ParserState =
  ps_symtabs :: SymbolTables
  ps_baseAddress :: u32
  ps_result :: VMEScript

definition first_part :: "PreparsedLine \<Rightarrow> string" where
  "first_part line = (case pl_parts line of [] \<Rightarrow> [] | p # ps \<Rightarrow> p)"

text \<open>The index in the lines from the search start on; \<^const>\<open>None\<close> is the index -1.\<close>

fun find_index_of_next_command :: "string \<Rightarrow> PreparsedLine list \<Rightarrow> nat option" where
  "find_index_of_next_command cmd [] = None"
| "find_index_of_next_command cmd (line # ls) =
     (if first_part line = cmd then Some 0 else map_option Suc (find_index_of_next_command cmd ls))"

definition handle_meta_block_command :: "PreparsedLine \<Rightarrow> PreparsedLine list \<Rightarrow> Command" where
  "handle_meta_block_command begin_line ls =
     new_command\<lparr>cmd_type := CmdMetaBlock,
       metaBlock := \<lparr>blockBegin = begin_line, preparsedLines = ls, textContents = join_lines (map pl_line ls)\<rparr>\<rparr>"

definition push_result :: "Command \<Rightarrow> ParserState \<Rightarrow> ParserState" where
  "push_result cmd st = st\<lparr>ps_result := ps_result st @ [cmd]\<rparr>"

definition handle_command :: "u32 \<Rightarrow> Command \<Rightarrow> ParserState \<Rightarrow> ParserState" where
  "handle_command originalBaseAddress cmd st =
     (case cmd_type cmd of
        CmdInvalid \<Rightarrow> st
      | CmdSetBase \<Rightarrow> push_result cmd (st\<lparr>ps_baseAddress := cmd_address cmd\<rparr>)
      | CmdResetBase \<Rightarrow> push_result cmd (st\<lparr>ps_baseAddress := originalBaseAddress\<rparr>)
      | _ \<Rightarrow> push_result (add_base_address cmd (ps_baseAddress st)) st)"

text \<open>A line that is not part of a meta block.\<close>

definition parse_line :: "ParserLib \<Rightarrow> u32 \<Rightarrow> PreparsedLine \<Rightarrow> ParserState \<Rightarrow> failure + ParserState" where
  "parse_line lib originalBaseAddress preparsed st =
     bind_err (expand_variables_line preparsed (ps_symtabs st)) (\<lambda>preparsed.
     bind_err (evaluate_expressions_line (lib_eval lib) preparsed) (\<lambda>preparsed.
       let parts = pl_parts preparsed; n = pl_lineNumber preparsed
       in if first_part preparsed = ''set'' then
            (if length parts \<noteq> 3 then Inl (ParseError InvalidSetArguments n)
             else Inr (st\<lparr>ps_symtabs := set_variable (parts ! 1) (parts ! 2) n (ps_symtabs st)\<rparr>))
          else
            bind_err (handle_single_line_command (lib_float lib) preparsed) (\<lambda>cmd.
              Inr (handle_command originalBaseAddress cmd st))))"

function parse_lines :: "ParserLib \<Rightarrow> u32 \<Rightarrow> PreparsedLine list \<Rightarrow> ParserState \<Rightarrow> failure + ParserState" where
  "parse_lines lib originalBaseAddress [] st = Inr st"
| "parse_lines lib originalBaseAddress (preparsed # rest) st =
     (if first_part preparsed = MetaBlockBegin then
        (case find_index_of_next_command MetaBlockEnd rest of
           None \<Rightarrow> Inl (ParseError NoMatchingBlockEnd (pl_lineNumber preparsed))
         | Some i \<Rightarrow>
             parse_lines lib originalBaseAddress (drop (Suc i) rest)
               (push_result (handle_meta_block_command preparsed (take i rest)) st))
      else
        (case parse_line lib originalBaseAddress preparsed st of
           Inl e \<Rightarrow> Inl e
         | Inr st' \<Rightarrow> parse_lines lib originalBaseAddress rest st'))"
  by pat_completeness auto
termination
  by (relation "measure (\<lambda>(lib, base, ls, st). length ls)") auto

text \<open>Without symbol tables a fresh one is added.\<close>

definition parse_with :: "ParserLib \<Rightarrow> string \<Rightarrow> SymbolTables \<Rightarrow> u32 \<Rightarrow> failure + VMEScript \<times> SymbolTables" where
  "parse_with lib input symtabs baseAddress =
     (let symtabs = (if symtabs = [] then [empty_symtab] else symtabs)
      in bind_err (pre_parse input) (\<lambda>splitLines.
         bind_err (parse_lines lib baseAddress splitLines
             \<lparr>ps_symtabs = symtabs, ps_baseAddress = baseAddress, ps_result = []\<rparr>) (\<lambda>st.
           Inr (ps_result st, ps_symtabs st))))"

definition parse :: "ParserLib \<Rightarrow> string \<Rightarrow> u32 \<Rightarrow> failure + VMEScript" where
  "parse lib input baseAddress = bind_err (parse_with lib input [] baseAddress) (\<lambda>(script, symtabs). Inr script)"

section \<open>The base address\<close>

text \<open>A script parsed with a base address is the script parsed with base address 0 in which every command
  outside of a \<^verbatim>\<open>setbase\<close> section has been moved.\<close>

fun shift_base :: "u32 \<Rightarrow> bool \<Rightarrow> VMEScript \<Rightarrow> VMEScript" where
  "shift_base b inside [] = []"
| "shift_base b inside (c # cs) =
     (if cmd_type c = CmdSetBase then c # shift_base b True cs
      else if cmd_type c = CmdResetBase then c # shift_base b False cs
      else (if inside then c else add_base_address c b) # shift_base b inside cs)"

definition base_flag :: "bool \<Rightarrow> VMEScript \<Rightarrow> bool" where
  "base_flag inside cs =
     fold (\<lambda>c f. if cmd_type c = CmdSetBase then True else if cmd_type c = CmdResetBase then False else f) cs inside"

lemma shift_base_append:
  "shift_base b f (xs @ ys) = shift_base b f xs @ shift_base b (base_flag f xs) ys"
  by (induction xs arbitrary: f) (simp_all add: base_flag_def)

lemma base_flag_append [simp]: "base_flag f (xs @ ys) = base_flag (base_flag f xs) ys"
  by (simp add: base_flag_def)

lemma add_base_type [simp]: "cmd_type (add_base_address c b) = cmd_type c"
  by simp

lemma add_base_zero: "add_base_address (add_base_address c 0) b = add_base_address c b"
  by simp

declare add_base_address.simps [simp del]

text \<open>The state with the base address against the one without.\<close>

definition shifted :: "u32 \<Rightarrow> ParserState \<Rightarrow> ParserState \<Rightarrow> bool" where
  "shifted b st st0 \<longleftrightarrow>
     ps_symtabs st = ps_symtabs st0 \<and> ps_result st = shift_base b False (ps_result st0)
     \<and> (if base_flag False (ps_result st0) then ps_baseAddress st = ps_baseAddress st0
        else ps_baseAddress st = b \<and> ps_baseAddress st0 = 0)"

lemma shifted_handle_command:
  "shifted b st st0 \<Longrightarrow> shifted b (handle_command b cmd st) (handle_command 0 cmd st0)"
  by (cases "cmd_type cmd")
    (auto simp: shifted_def handle_command_def push_result_def shift_base_append add_base_zero base_flag_def
      add_base_address.simps)

lemma shifted_meta_block:
  "shifted b st st0 \<Longrightarrow>
   shifted b (push_result (handle_meta_block_command l ls) st) (push_result (handle_meta_block_command l ls) st0)"
  by (auto simp: shifted_def push_result_def shift_base_append handle_meta_block_command_def base_flag_def
      add_base_address.simps)

lemma shifted_parse_line:
  assumes "shifted b st st0"
  shows "rel_sum (=) (shifted b) (parse_line lib b pl st) (parse_line lib 0 pl st0)"
proof -
  have "ps_symtabs st = ps_symtabs st0" using assms by (simp add: shifted_def)
  moreover have "shifted b (st\<lparr>ps_symtabs := t\<rparr>) (st0\<lparr>ps_symtabs := t\<rparr>)" for t
    using assms by (simp add: shifted_def)
  ultimately show ?thesis
    using assms by (simp add: parse_line_def Let_def bind_err_def shifted_handle_command split: sum.split)
qed

lemma shifted_parse_lines:
  "shifted b st st0 \<Longrightarrow> rel_sum (=) (shifted b) (parse_lines lib b ls st) (parse_lines lib 0 ls st0)"
proof (induction lib b ls st arbitrary: st0 rule: parse_lines.induct)
  case (1 lib b st)
  then show ?case by simp
next
  case (2 lib b pl rest st)
  show ?case
  proof (cases "first_part pl = MetaBlockBegin")
    case True
    then show ?thesis
      using 2 by (cases "find_index_of_next_command MetaBlockEnd rest") (auto intro: shifted_meta_block)
  next
    case False
    then show ?thesis
      using 2 shifted_parse_line [OF "2.prems", of lib pl]
      by (cases "parse_line lib b pl st"; cases "parse_line lib 0 pl st0") auto
  qed
qed

text \<open>C27: the base address moves exactly the commands that use relative addresses and are not below a
  \<^verbatim>\<open>setbase\<close>; errors, all other commands and the addresses inside \<^verbatim>\<open>setbase\<close> sections do not depend on
  it.\<close>

theorem parse_base_address:
  "parse lib input baseAddress = map_sum id (shift_base baseAddress False) (parse lib input 0)"
proof -
  have start: "shifted baseAddress \<lparr>ps_symtabs = t, ps_baseAddress = baseAddress, ps_result = []\<rparr>
      \<lparr>ps_symtabs = t, ps_baseAddress = 0, ps_result = []\<rparr>" for t
    by (simp add: shifted_def base_flag_def)
  have rel: "rel_sum (=) (shifted baseAddress)
      (parse_lines lib baseAddress ls \<lparr>ps_symtabs = t, ps_baseAddress = baseAddress, ps_result = []\<rparr>)
      (parse_lines lib 0 ls \<lparr>ps_symtabs = t, ps_baseAddress = 0, ps_result = []\<rparr>)" for ls t
    by (rule shifted_parse_lines [OF start])
  show ?thesis
  proof (cases "pre_parse input")
    case (Inr ls)
    with rel [of ls "[empty_symtab]"] show ?thesis
      by (cases rule: rel_sum.cases) (simp_all add: parse_def parse_with_def shifted_def)
  qed (simp add: parse_def parse_with_def)
qed

section \<open>Errors\<close>

lemma bind_err_Inl_iff: "bind_err m k = Inl e \<longleftrightarrow> m = Inl e \<or> (\<exists>x. m = Inr x \<and> k x = Inl e)"
  by (cases m) auto

lemma bind_err_Inr_iff: "bind_err m k = Inr y \<longleftrightarrow> (\<exists>x. m = Inr x \<and> k x = Inr y)"
  by (cases m) auto

lemma map_err_Inl: "map_err f xs = Inl e \<Longrightarrow> \<exists>x \<in> set xs. f x = Inl e"
  by (induction xs) (auto simp: bind_err_Inl_iff)

text \<open>A failure at a line: a parse error that names the line, or undefined behaviour. The parsers of one
  command may also throw a text.\<close>

definition undefined_failure :: "failure \<Rightarrow> bool" where
  "undefined_failure e \<longleftrightarrow> e = OutOfRangeAccess \<or> e = UndefinedConversion"

definition failure_at :: "int \<Rightarrow> failure \<Rightarrow> bool" where
  "failure_at n e \<longleftrightarrow> undefined_failure e \<or> (\<exists>p. e = ParseError p n)"

definition thrown_at :: "int \<Rightarrow> failure \<Rightarrow> bool" where
  "thrown_at n e \<longleftrightarrow> failure_at n e \<or> (\<exists>p. e = Message p)"

lemmas failure_defs = undefined_failure_def failure_at_def thrown_at_def

lemma split_parts_failure: "split_parts n part cs = Inl e \<Longrightarrow> failure_at n e"
  by (induction n part cs rule: split_parts.induct)
    (auto simp: push_part_def bind_err_Inl_iff failure_defs Let_def split: if_splits prod.splits)

lemma expand_chars_failure: "expand_chars symtabs n st s = Inl e \<Longrightarrow> failure_at n e"
  by (induction symtabs n st s rule: expand_chars.induct)
    (auto simp: append_err_def bind_err_Inl_iff failure_defs split: if_splits option.splits)

lemma collect_chars_failure: "collect_chars n st s = Inl e \<Longrightarrow> failure_at n e"
  by (induction n st s rule: collect_chars.induct)
    (auto simp: bind_err_Inl_iff failure_defs split: if_splits option.splits)

lemma eval_chars_failure: "eval_chars ev n st s = Inl e \<Longrightarrow> failure_at n e"
  by (induction ev n st s rule: eval_chars.induct)
    (auto simp: append_err_def bind_err_Inl_iff failure_defs split: if_splits sum.splits)

lemma expand_line_failure: "expand_variables_line pl symtabs = Inl e \<Longrightarrow> failure_at (pl_lineNumber pl) e"
  by (auto simp: expand_variables_line_def expand_variables_def bind_err_Inl_iff
      dest!: map_err_Inl intro: expand_chars_failure)

lemma evaluate_line_failure: "evaluate_expressions_line ev pl = Inl e \<Longrightarrow> failure_at (pl_lineNumber pl) e"
  by (auto simp: evaluate_expressions_line_def evaluate_expressions_def bind_err_Inl_iff
      dest!: map_err_Inl intro: eval_chars_failure)

lemma expand_line_number: "expand_variables_line pl symtabs = Inr pl' \<Longrightarrow> pl_lineNumber pl' = pl_lineNumber pl"
  by (auto simp: expand_variables_line_def bind_err_Inr_iff)

lemma evaluate_line_number: "evaluate_expressions_line ev pl = Inr pl' \<Longrightarrow> pl_lineNumber pl' = pl_lineNumber pl"
  by (auto simp: evaluate_expressions_line_def bind_err_Inr_iff)

lemma binary_digits_failure: "binary_digits shift r s = Inl e \<Longrightarrow> \<exists>p. e = Message p"
  by (induction shift r s rule: binary_digits.induct) (auto split: if_splits)

lemma parseValue_failure: "parseValue to_float s = Inl e \<Longrightarrow> (\<exists>p. e = Message p) \<or> undefined_failure e"
  by (auto simp: parseValue_def parseBinaryLiteral_def float_value_def bind_err_Inl_iff undefined_failure_def
      dest: binary_digits_failure split: if_splits option.splits rounded.splits)

lemma argument_failures:
  "parseAddressMode s = Inl e \<Longrightarrow> thrown_at n e" "parseDataWidth s = Inl e \<Longrightarrow> thrown_at n e"
  "parseAddress s = Inl e \<Longrightarrow> thrown_at n e" "parseValue to_float s = Inl e \<Longrightarrow> thrown_at n e"
  "parse_register s n = Inl e \<Longrightarrow> thrown_at n e" "parse_float_part s n = Inl e \<Longrightarrow> thrown_at n e"
  by (auto simp: parseAddressMode_def parseDataWidth_def parseAddress_def parse_register_def parse_float_part_def
      Let_def failure_defs split: if_splits option.splits dest!: parseValue_failure)

lemmas parser_defs = parseRead_def parseWrite_def parseWait_def parseMarker_def parseBlockTransfer_def
  parseSetBase_def parseResetBase_def parse_VMUSB_write_reg_def parse_VMUSB_read_reg_def
  parse_write_float_word_def parse_print_def

lemma writespecial_failure: "parse_mvlc_writespecial to_float args n = Inl e \<Longrightarrow> thrown_at n e"
  by (auto simp: parse_mvlc_writespecial_def check_args_def bind_err_Inl_iff failure_defs
      dest!: parseValue_failure split: if_splits sum.splits failure.splits)

lemma parser_failure:
  assumes "map_of (commandParsers to_float) name = Some f" "f args n = Inl e"
  shows "thrown_at n e"
proof -
  have "(name, f) \<in> set (commandParsers to_float)" using assms(1) by (rule map_of_SomeD)
  then have f: "f \<in> {parseRead, parseWrite to_float, parseWait, parseMarker to_float, parseBlockTransfer to_float,
      parseSetBase, parseResetBase, parse_VMUSB_write_reg to_float, parse_VMUSB_read_reg,
      parse_mvlc_writespecial to_float, parse_write_float_word to_float, parse_print}"
    by (auto simp: commandParsers_def)
  have args: "thrown_at n (ParseError InvalidArgumentCount n)" by (simp add: failure_defs)
  have delay: "thrown_at n (Message InvalidDelay)" by (simp add: failure_defs)
  have flt: "thrown_at n (ParseError (InvalidFloat s) n)" for s by (simp add: failure_defs)
  show ?thesis
    using f assms(2)
    by (auto simp: parser_defs check_args_def bind_err_Inl_iff Let_def args delay flt
        intro: argument_failures writespecial_failure split: if_splits option.splits)
qed

lemma single_line_failure:
  assumes "handle_single_line_command to_float pl = Inl e"
  shows "failure_at (pl_lineNumber pl) e"
proof -
  have "failure_at (pl_lineNumber pl) e'" if "rename_message f (pl_lineNumber pl) (parseValue to_float s) = Inl e'" for f s e'
    using that by (auto simp: rename_message_def failure_defs dest!: parseValue_failure split: sum.splits failure.splits)
  moreover have "failure_at (pl_lineNumber pl) e'"
    if "map_of (commandParsers to_float) c = Some f" "at_line (pl_lineNumber pl) (f args (pl_lineNumber pl)) = Inl e'" for c f args e'
    using that by (auto simp: at_line_def failure_defs dest!: parser_failure split: sum.splits failure.splits)
  moreover have "failure_at (pl_lineNumber pl) OutOfRangeAccess"
    "failure_at (pl_lineNumber pl) (ParseError (NoSuchCommand c) (pl_lineNumber pl))" for c
    by (simp_all add: failure_defs)
  ultimately show ?thesis
    using assms
    by (auto simp: handle_single_line_command_def Let_def bind_err_Inl_iff split: list.splits if_splits option.splits)
qed

lemma parse_line_failure: "parse_line lib b pl st = Inl e \<Longrightarrow> failure_at (pl_lineNumber pl) e"
  by (auto simp: parse_line_def Let_def bind_err_Inl_iff failure_defs
      dest!: expand_line_number evaluate_line_number
      dest: expand_line_failure [unfolded failure_defs] evaluate_line_failure [unfolded failure_defs]
        single_line_failure [unfolded failure_defs]
      split: if_splits)

text \<open>The line numbers of the pre-parser, and its errors.\<close>

lemma collect_line_failure: "collect_variable_references_line pl = Inl e \<Longrightarrow> failure_at (pl_lineNumber pl) e"
  by (auto simp: collect_variable_references_line_def collect_variable_references_def bind_err_Inl_iff
      dest!: map_err_Inl intro: collect_chars_failure)

lemma collect_line_number: "collect_variable_references_line pl = Inr pl' \<Longrightarrow> pl_lineNumber pl' = pl_lineNumber pl"
  by (auto simp: collect_variable_references_line_def bind_err_Inr_iff)

lemma pre_parse_line_result:
  "case pre_parse_line line n of Inr pls \<Rightarrow> list_all (\<lambda>pl. pl_lineNumber pl = n) pls | Inl e \<Rightarrow> failure_at n e"
proof (cases "split_into_atomic_parts (trimmed line) n")
  case (Inl e)
  then show ?thesis
    using split_parts_failure by (simp add: pre_parse_line_def split_into_atomic_parts_def)
next
  case (Inr ps)
  show ?thesis
  proof (cases ps)
    case Nil
    with Inr show ?thesis by (simp add: pre_parse_line_def)
  next
    case (Cons p qs)
    let ?pl = "\<lparr>pl_line = line, pl_parts = to_lower p # qs, pl_lineNumber = n, pl_varRefs = {}\<rparr>"
    show ?thesis
      using Inr Cons collect_line_failure [of ?pl] collect_line_number [of ?pl]
      by (cases "collect_variable_references_line ?pl") (simp_all add: pre_parse_line_def)
  qed
qed

lemma pre_parse_lines_numbers:
  "pre_parse_lines c n ls = Inr pls \<Longrightarrow> list_all (\<lambda>pl. n \<le> pl_lineNumber pl \<and> pl_lineNumber pl < n + int (length ls)) pls"
proof (induction c n ls arbitrary: pls rule: pre_parse_lines.induct)
  case (1 c n)
  then show ?case by simp
next
  case (2 c n line ls)
  obtain t c' where t: "handle_multiline_comment line c = (t, c')" by (cases "handle_multiline_comment line c") auto
  with "2.prems" obtain ppl ppls where parts: "pre_parse_line (cut_comment t) n = Inr ppl"
      "pre_parse_lines c' (n + 1) ls = Inr ppls" "pls = ppl @ ppls"
    by (auto simp: bind_err_Inr_iff)
  show ?case
    using "2.IH" [OF t [symmetric] refl parts(2)] pre_parse_line_result [of n "cut_comment t"] parts
    by (auto simp: list_all_iff)
qed

lemma pre_parse_lines_failure:
  "pre_parse_lines c n ls = Inl e \<Longrightarrow> \<exists>k. n \<le> k \<and> k < n + int (length ls) \<and> failure_at k e"
proof (induction c n ls rule: pre_parse_lines.induct)
  case (1 c n)
  then show ?case by simp
next
  case (2 c n line ls)
  obtain t c' where t: "handle_multiline_comment line c = (t, c')" by (cases "handle_multiline_comment line c") auto
  with "2.prems" consider "pre_parse_line (cut_comment t) n = Inl e"
    | "pre_parse_lines c' (n + 1) ls = Inl e"
    by (auto simp: bind_err_Inl_iff)
  then show ?case
  proof cases
    case 1
    then show ?thesis using pre_parse_line_result [of n "cut_comment t"] by (intro exI [of _ n]) auto
  next
    case 2
    from "2.IH" [OF t [symmetric] refl this] obtain k where "n + 1 \<le> k" "k < n + 1 + int (length ls)" "failure_at k e"
      by blast
    then show ?thesis by (intro exI [of _ k]) simp
  qed
qed

lemma parse_lines_failure:
  "parse_lines lib b ls st = Inl e \<Longrightarrow> \<exists>pl \<in> set ls. failure_at (pl_lineNumber pl) e"
proof (induction lib b ls st rule: parse_lines.induct)
  case (1 lib b st)
  then show ?case by simp
next
  case (2 lib b pl rest st)
  show ?case
  proof (cases "first_part pl = MetaBlockBegin")
    case True
    then show ?thesis
      using 2 by (cases "find_index_of_next_command MetaBlockEnd rest")
        (auto simp: failure_defs dest: in_set_dropD)
  next
    case False
    then show ?thesis
      using 2 parse_line_failure [of lib b pl st e] by (cases "parse_line lib b pl st") auto
  qed
qed


section \<open>Symbol tables\<close>

text \<open>What a script may do to the symbol tables: new values in the first one.\<close>

definition extends_first :: "(int \<Rightarrow> bool) \<Rightarrow> SymbolTables \<Rightarrow> SymbolTables \<Rightarrow> bool" where
  "extends_first good st st' \<longleftrightarrow>
     (\<exists>s s' ss. st = s # ss \<and> st' = s' # ss \<and> symtab_name s' = symtab_name s
        \<and> (\<forall>v. symbols s' v = symbols s v \<or> (\<exists>x n. good n \<and> symbols s' v = Some (new_variable x n))))"

lemma extends_first_refl: "st \<noteq> [] \<Longrightarrow> extends_first good st st"
  by (cases st) (auto simp: extends_first_def)

lemma extends_first_trans: "extends_first good a b \<Longrightarrow> extends_first good b c \<Longrightarrow> extends_first good a c"
  unfolding extends_first_def by clarsimp metis

lemma extends_first_set: "st \<noteq> [] \<Longrightarrow> good n \<Longrightarrow> extends_first good st (set_variable v x n st)"
  by (cases st) (auto simp: extends_first_def set_variable_def)

lemma handle_command_symtabs [simp]: "ps_symtabs (handle_command b cmd st) = ps_symtabs st"
  by (simp add: handle_command_def push_result_def split: CommandType.split)

lemma parse_line_symtabs:
  assumes "parse_line lib b pl st = Inr st'" "ps_symtabs st \<noteq> []" "good (pl_lineNumber pl)"
  shows "extends_first good (ps_symtabs st) (ps_symtabs st')"
  using assms
  by (auto simp: parse_line_def Let_def bind_err_Inr_iff extends_first_refl extends_first_set
      dest!: expand_line_number evaluate_line_number split: if_splits)

lemma extends_first_not_Nil: "extends_first good a b \<Longrightarrow> b \<noteq> []"
  by (auto simp: extends_first_def)

lemma parse_lines_symtabs:
  "parse_lines lib b ls st = Inr st' \<Longrightarrow> ps_symtabs st \<noteq> [] \<Longrightarrow> list_all (\<lambda>pl. good (pl_lineNumber pl)) ls \<Longrightarrow>
   extends_first good (ps_symtabs st) (ps_symtabs st')"
proof (induction lib b ls st rule: parse_lines.induct)
  case (1 lib b st)
  then show ?case by (simp add: extends_first_refl)
next
  case (2 lib b pl rest st)
  show ?case
  proof (cases "first_part pl = MetaBlockBegin")
    case True
    then show ?thesis
      using 2 by (cases "find_index_of_next_command MetaBlockEnd rest")
        (auto simp: push_result_def list_all_iff dest: in_set_dropD)
  next
    case False
    then obtain st1 where st1: "parse_line lib b pl st = Inr st1" "parse_lines lib b rest st1 = Inr st'"
      using "2.prems" by (cases "parse_line lib b pl st") auto
    have step: "extends_first good (ps_symtabs st) (ps_symtabs st1)"
      using parse_line_symtabs [OF st1(1)] "2.prems" by simp
    then show ?thesis
      using 2(2) [OF False st1] extends_first_not_Nil [OF step] "2.prems" extends_first_trans by auto
  qed
qed

text \<open>A script writes its variables to the innermost symbol table only: the outer tables and all other
  variables stay as they are, and what is new was set by a line of the script, with that line as the place
  of its definition.\<close>

theorem parse_symbol_tables:
  assumes "parse_with lib input (s # ss) baseAddress = Inr (script, symtabs)"
  shows "\<exists>s'. symtabs = s' # ss \<and> symtab_name s' = symtab_name s
    \<and> (\<forall>v. symbols s' v = symbols s v
           \<or> (\<exists>x. \<exists>n \<in> {1..int (length (read_lines input))}. symbols s' v = Some (new_variable x n)))"
proof -
  obtain ls st where "pre_parse input = Inr ls"
    "parse_lines lib baseAddress ls \<lparr>ps_symtabs = s # ss, ps_baseAddress = baseAddress, ps_result = []\<rparr> = Inr st"
    "symtabs = ps_symtabs st"
    using assms by (auto simp: parse_with_def bind_err_Inr_iff)
  moreover from this have "list_all (\<lambda>pl. pl_lineNumber pl \<in> {1..int (length (read_lines input))}) ls"
    using pre_parse_lines_numbers [of False 1 "read_lines input" ls] by (auto simp: pre_parse_def list_all_iff)
  ultimately have "extends_first (\<lambda>n. n \<in> {1..int (length (read_lines input))}) (s # ss) symtabs"
    using parse_lines_symtabs [of lib baseAddress ls
        "\<lparr>ps_symtabs = s # ss, ps_baseAddress = baseAddress, ps_result = []\<rparr>" st
        "\<lambda>n. n \<in> {1..int (length (read_lines input))}"] by simp
  then obtain s' where s': "symtabs = s' # ss" "symtab_name s' = symtab_name s"
    "\<And>v. symbols s' v = symbols s v
       \<or> (\<exists>x n. n \<in> {1..int (length (read_lines input))} \<and> symbols s' v = Some (new_variable x n))"
    by (auto simp: extends_first_def)
  show ?thesis
    by (intro exI [of _ s'] conjI allI s') (use s'(3) in blast)
qed
text \<open>The parameters of an installation without expressions and floating point numbers.\<close>

definition plain_lib :: ParserLib where
  "plain_lib = \<lparr>lib_eval = (\<lambda>s. Inl (MathParserError s)), lib_float = (\<lambda>s. None)\<rparr>"

lemma set_line_parsed:
  "parse_with plain_lib ''set a 1'' [empty_symtab] 0
     = Inr ([], [empty_symtab\<lparr>symbols := [''a'' \<mapsto> new_variable ''1'' 1]\<rparr>])"
proof -
  have words: "list_all simple_word [''set'', ''a'', ''1'']"
    by (simp add: simple_word_def simple_char_def is_alpha_def is_lower_def is_upper_def is_digit_def)
  have "pre_parse ''set a 1'' = Inr [\<lparr>pl_line = ''set a 1'', pl_parts = [''set'', ''a'', ''1''], pl_lineNumber = 1, pl_varRefs = {}\<rparr>]"
    using pre_parse_join [of "[''set a 1'']"] pre_parse_words [OF _ words, of 1] line_chars [OF join_words_chars [OF words]]
    by (simp add: to_lower_def lower_char_def is_upper_def)
  then show ?thesis
    by (simp add: parse_with_def parse_line_def expand_plain_line evaluate_plain_line plain_parts_def first_part_def
        MetaBlockBegin_def set_variable_def empty_symtab_def)
qed

theorem parse_symbol_tables_witness:
  "\<exists>s'. [empty_symtab\<lparr>symbols := [''a'' \<mapsto> new_variable ''1'' 1]\<rparr>] = [s'] \<and> symtab_name s' = symtab_name empty_symtab
    \<and> (\<forall>v. symbols s' v = symbols empty_symtab v
           \<or> (\<exists>x. \<exists>n \<in> {1..int (length (read_lines ''set a 1''))}. symbols s' v = Some (new_variable x n)))"
  by (rule parse_symbol_tables [OF set_line_parsed])

section \<open>Printed scripts\<close>

text \<open>What a script of printed commands means: the printed part of every command, moved by the base address in
  force at its line.\<close>

fun in_script :: "u32 \<Rightarrow> u32 \<Rightarrow> int \<Rightarrow> Command list \<Rightarrow> VMEScript" where
  "in_script original base n [] = []"
| "in_script original base n (cmd # cmds) =
     (if cmd_type cmd = CmdSetBase then printed_part n cmd # in_script original (cmd_address cmd) (n + 1) cmds
      else if cmd_type cmd = CmdResetBase then printed_part n cmd # in_script original original (n + 1) cmds
      else add_base_address (printed_part n cmd) base # in_script original base (n + 1) cmds)"

definition printed_line :: "int \<Rightarrow> Command \<Rightarrow> PreparsedLine" where
  "printed_line n cmd = \<lparr>pl_line = join_with '' '' (command_words cmd), pl_parts = command_words cmd,
     pl_lineNumber = n, pl_varRefs = {}\<rparr>"

fun printed_lines :: "int \<Rightarrow> Command list \<Rightarrow> PreparsedLine list" where
  "printed_lines n [] = []"
| "printed_lines n (cmd # cmds) = printed_line n cmd # printed_lines (n + 1) cmds"

lemma pre_parse_printed:
  "list_all printable cmds \<Longrightarrow>
   pre_parse_clean n (map (\<lambda>cmd. join_with '' '' (command_words cmd)) cmds) = Inr (printed_lines n cmds)"
proof (induction cmds arbitrary: n)
  case (Cons cmd cmds)
  then have cmd: "printable cmd" by simp
  note words = command_words_simple [OF cmd]
  show ?case
    using Cons line_chars(3) [OF join_words_chars [OF words(2)]] pre_parse_words [OF words(1,2), of n] words(3)
    by (simp add: printed_line_def)
qed simp

lemma printed_name:
  assumes "printable cmd"
  shows "first_part (printed_line n cmd) \<noteq> MetaBlockBegin" "first_part (printed_line n cmd) \<noteq> ''set''"
proof -
  have "first_part (printed_line n cmd) = command_name (cmd_type cmd)"
    by (auto simp: first_part_def printed_line_def command_words_def Let_def)
  then show "first_part (printed_line n cmd) \<noteq> MetaBlockBegin" "first_part (printed_line n cmd) \<noteq> ''set''"
    using assms
    by (auto simp: printable_def command_name_def commandTypeToString_def MetaBlockBegin_def)
qed

lemma parse_printed_line:
  assumes "printable cmd"
  shows "parse_line lib orig (printed_line n cmd) st = Inr (handle_command orig (printed_part n cmd) st)"
proof -
  have "list_all part_word (command_words cmd)"
    using command_words_simple(2) [OF assms] by (auto simp: list_all_iff simple_word_part)
  then have "plain_parts (pl_parts (printed_line n cmd))"
    using part_word_plain by (simp add: printed_line_def)
  then show ?thesis
    using printed_name(2) [OF assms, of n] handle_printed [OF assms, of "printed_line n cmd" "lib_float lib"]
    by (simp add: parse_line_def expand_plain_line evaluate_plain_line) (simp add: printed_line_def)
qed

lemma printed_part_type [simp]: "cmd_type (printed_part n cmd) = cmd_type cmd"
  by (simp add: printed_part_def Let_def)

lemma parse_printed_lines:
  "list_all printable cmds \<Longrightarrow>
   \<exists>st'. parse_lines lib orig (printed_lines n cmds) st = Inr st'
     \<and> ps_result st' = ps_result st @ in_script orig (ps_baseAddress st) n cmds"
proof (induction cmds arbitrary: n st)
  case (Cons cmd cmds)
  then have cmd: "printable cmd" by simp
  let ?st = "handle_command orig (printed_part n cmd) st"
  have "parse_lines lib orig (printed_lines n (cmd # cmds)) st = parse_lines lib orig (printed_lines (n + 1) cmds) ?st"
    using printed_name(1) [OF cmd, of n] parse_printed_line [OF cmd, of lib orig n st] by simp
  moreover have "ps_result ?st @ in_script orig (ps_baseAddress ?st) (n + 1) cmds
      = ps_result st @ in_script orig (ps_baseAddress st) n (cmd # cmds)"
    using cmd by (auto simp: printable_def handle_command_def push_result_def printed_part_def)
  ultimately show ?case using Cons.IH [of "n + 1" ?st] Cons.prems by simp
qed simp


section \<open>The first part of a line\<close>

lemma read_reference:
  "CHR ''}'' \<notin> set v \<Longrightarrow> read_atomic_variable_reference (v @ CHR ''}'' # s) = (v @ [CHR ''}''], True, s)"
  by (induction v) auto

lemma alpha_name:
  assumes "list_all is_alpha v"
  shows "list_all line_char v" "CHR ''}'' \<notin> set v" "CHR ''$'' \<notin> set v" "CHR ''}'' \<notin> set (to_lower v)"
proof -
  have not_alpha: "\<not> is_alpha (CHR ''}'')" "\<not> is_alpha (CHR ''$'')" "\<not> is_lower (CHR ''}'')" by code_simp+
  then show "list_all line_char v" "CHR ''}'' \<notin> set v" "CHR ''$'' \<notin> set v"
    using assms by (auto simp: list_all_iff line_char_def simple_char_def)
  have "lower_char c \<noteq> CHR ''}''" if "c \<in> set v" for c
    using assms that upper_lower [of c] not_alpha by (auto simp: list_all_iff lower_char_def split: if_splits)
  then show "CHR ''}'' \<notin> set (to_lower v)" by (metis imageE list.set_map to_lower_def)
qed

lemma trimmed_line: "list_all line_char l \<Longrightarrow> l \<noteq> [] \<Longrightarrow> hd l \<noteq> CHR '' '' \<Longrightarrow> last l \<noteq> CHR '' '' \<Longrightarrow> trimmed l = l"
proof -
  assume l: "list_all line_char l" "l \<noteq> []" "hd l \<noteq> CHR '' ''" "last l \<noteq> CHR '' ''"
  have "\<not> is_space c" if "line_char c" "c \<noteq> CHR '' ''" for c
  proof -
    have "\<not> is_space (CHR ''$'')" "\<not> is_space (CHR ''{'')" "\<not> is_space (CHR ''}'')" by code_simp+
    with that show ?thesis by (auto simp: line_char_def)
  qed
  with l show "trimmed l = l" by (intro trimmed_solid) (auto simp: list_all_iff)
qed

lemma to_lower_words [simp]:
  "to_lower ''set'' = ''set''" "to_lower ''write'' = ''write''" "to_lower ''1'' = ''1''"
  "to_lower (''${'' @ v @ ''}'') = ''${'' @ to_lower v @ ''}''"
  by (simp_all add: to_lower_def lower_char_def is_upper_def)

lemma reference_collected:
  "CHR ''}'' \<notin> set v \<Longrightarrow> collect_variable_references (''${'' @ v @ ''}'') n = Inr {v}"
  by (simp add: collect_variable_references_def collect_name)

lemma reference_expanded:
  "CHR ''}'' \<notin> set v \<Longrightarrow> expand_variables (''${'' @ v @ ''}'') symtabs n =
     (case var_value (lookup_variable v symtabs) of
        Some x \<Rightarrow> Inr x | None \<Rightarrow> Inl (ParseError (UndefinedVariable v) n))"
  by (simp add: expand_variables_def expand_name append_err_def split: option.split)

lemma pre_parse_reference:
  assumes "list_all is_alpha v"
  shows "pre_parse_line (''${'' @ v @ ''} 1'') n
    = Inr [\<lparr>pl_line = ''${'' @ v @ ''} 1'', pl_parts = [''${'' @ to_lower v @ ''}'', ''1''], pl_lineNumber = n,
            pl_varRefs = {to_lower v}\<rparr>]"
proof -
  note v = alpha_name [OF assms]
  have "trimmed (''${'' @ v @ ''} 1'') = ''${'' @ v @ ''} 1''"
    using v(1) by (intro trimmed_line) (auto simp: line_char_def simple_char_def is_digit_def)
  moreover have "split_into_atomic_parts (''${'' @ v @ ''} 1'') n = Inr [''${'' @ v @ ''}'', ''1'']"
    using read_reference [OF v(2), of "'' 1''"]
    by (simp add: split_into_atomic_parts_def part_space_def char_defs push_part_def)
  ultimately show ?thesis
    using reference_collected [OF v(4), of n]
    by (simp add: pre_parse_line_def collect_variable_references_line_def collect_plain del: append.simps)
qed

lemma pre_parse_set_line:
  assumes "list_all is_alpha v" "v \<noteq> []"
  shows "pre_parse_line (''set '' @ v @ '' 1'') n
    = Inr [\<lparr>pl_line = ''set '' @ v @ '' 1'', pl_parts = [''set'', v, ''1''], pl_lineNumber = n, pl_varRefs = {}\<rparr>]"
    and "list_all line_char (''set '' @ v @ '' 1'')"
proof -
  have words: "list_all simple_word [''set'', v, ''1'']"
    using assms
    by (auto simp: simple_word_def simple_char_def is_alpha_def is_lower_def is_upper_def is_digit_def list_all_iff)
  show "pre_parse_line (''set '' @ v @ '' 1'') n
    = Inr [\<lparr>pl_line = ''set '' @ v @ '' 1'', pl_parts = [''set'', v, ''1''], pl_lineNumber = n, pl_varRefs = {}\<rparr>]"
    using pre_parse_words [OF _ words, of n] by simp
  show "list_all line_char (''set '' @ v @ '' 1'')" using join_words_chars [OF words] by simp
qed

lemma two_lines:
  assumes "list_all line_char a" "list_all line_char b" "b \<noteq> []"
    "pre_parse_line a 1 = Inr pa" "pre_parse_line b 2 = Inr pb"
  shows "pre_parse (join_lines [a, b]) = Inr (pa @ pb)"
  using assms pre_parse_join [of "[a, b]"] line_chars by simp

lemma pre_parse_marker:
  assumes "list_all is_alpha v"
  shows "pre_parse_line (''marker ${'' @ v @ ''}'') n
    = Inr [\<lparr>pl_line = ''marker ${'' @ v @ ''}'', pl_parts = [''marker'', ''${'' @ v @ ''}''], pl_lineNumber = n,
            pl_varRefs = {v}\<rparr>]"
proof -
  note v = alpha_name [OF assms]
  have "trimmed (''marker ${'' @ v @ ''}'') = ''marker ${'' @ v @ ''}''"
    using v(1) by (intro trimmed_line) (auto simp: line_char_def simple_char_def is_alpha_def is_lower_def)
  moreover have "split_into_atomic_parts (''marker ${'' @ v @ ''}'') n = Inr [''marker'', ''${'' @ v @ ''}'']"
    using read_reference [OF v(2), of "[]"]
    by (simp add: split_into_atomic_parts_def part_space_def char_defs push_part_def)
  ultimately show ?thesis
    using reference_collected [OF v(2), of n]
    by (simp add: pre_parse_line_def collect_variable_references_line_def collect_plain to_lower_def lower_char_def
        is_upper_def del: append.simps)
qed

lemma marker_one:
  "handle_single_line_command to_float \<lparr>pl_line = l, pl_parts = [''marker'', ''1''], pl_lineNumber = n, pl_varRefs = r\<rparr>
     = Inr (new_command\<lparr>cmd_type := CmdMarker, cmd_value := 1\<rparr>)"
  by (simp add: handle_single_line_command_def is_digit_def to_lower_def lower_char_def is_upper_def commandParsers_def
      parseMarker_def check_args_def parseValue_def has_0b_def to_unsigned_def number_text_def trimmed_def is_space_def
      read_c_number_def read_number_def digit_value_def in_range_def at_line_def)

lemma pre_parse_empty_quotes:
  "pre_parse ([QUOTE, QUOTE] @ '' 1'')
     = Inr [\<lparr>pl_line = [QUOTE, QUOTE] @ '' 1'', pl_parts = [[], ''1''], pl_lineNumber = 1, pl_varRefs = {}\<rparr>]"
  by (simp add: pre_parse_def read_lines_def chop_cr_def pre_parse_line_def char_defs cut_comment_def trimmed_def is_space_def
      split_into_atomic_parts_def part_space_def push_part_def to_lower_def collect_variable_references_line_def
      collect_variable_references_def)

text \<open>The pre-parser turns the first part of a line to lower case before variables are replaced, so a variable
  whose name has an upper case letter is undefined there although it has just been set - it can be used
  in every other part. A first part that is empty, such as two quotes, is not refused: its first character
  is read.\<close>

theorem first_part_flaws:
  assumes "list_all is_alpha v" "to_lower v \<noteq> v"
  shows "parse lib (join_lines [''set '' @ v @ '' 1'', ''${'' @ v @ ''} 1'']) baseAddress
      = Inl (ParseError (UndefinedVariable (to_lower v)) 2)
    \<and> parse lib (join_lines [''set '' @ v @ '' 1'', ''marker ${'' @ v @ ''}'']) baseAddress
      = Inr [new_command\<lparr>cmd_type := CmdMarker, cmd_value := 1\<rparr>]
    \<and> parse lib ([QUOTE, QUOTE] @ '' 1'') baseAddress = Inl OutOfRangeAccess"
proof (intro conjI)
  have "v \<noteq> []" using assms(2) by (auto simp: to_lower_def)
  note v = alpha_name [OF assms(1)] pre_parse_set_line [OF assms(1) this]
  let ?tab = "[empty_symtab\<lparr>symbols := [v \<mapsto> new_variable ''1'' 1]\<rparr>]"
  have set_line: "parse_line lib baseAddress \<lparr>pl_line = l, pl_parts = [''set'', v, ''1''], pl_lineNumber = 1, pl_varRefs = {}\<rparr>
      \<lparr>ps_symtabs = [empty_symtab], ps_baseAddress = baseAddress, ps_result = []\<rparr>
      = Inr \<lparr>ps_symtabs = ?tab, ps_baseAddress = baseAddress, ps_result = []\<rparr>" for l
    using v(3) by (simp add: parse_line_def expand_plain_line evaluate_plain_line plain_parts_def first_part_def
        set_variable_def empty_symtab_def)
  have ref: "list_all line_char (''${'' @ v @ ''} 1'')"
    using v(1) by (simp add: line_char_def simple_char_def is_digit_def)
  have "lookup_variable (to_lower v) ?tab = null_variable" using assms(2) by simp
  then have "expand_variables (''${'' @ to_lower v @ ''}'') ?tab 2 = Inl (ParseError (UndefinedVariable (to_lower v)) 2)"
    using reference_expanded [OF v(4), of ?tab 2] by (simp add: null_variable_def)
  then have ref_line: "parse_line lib baseAddress
      \<lparr>pl_line = l, pl_parts = [''${'' @ to_lower v @ ''}'', ''1''], pl_lineNumber = 2, pl_varRefs = r\<rparr>
      \<lparr>ps_symtabs = ?tab, ps_baseAddress = baseAddress, ps_result = []\<rparr>
      = Inl (ParseError (UndefinedVariable (to_lower v)) 2)" for l r
    by (simp add: parse_line_def expand_variables_line_def)
  show "parse lib (join_lines [''set '' @ v @ '' 1'', ''${'' @ v @ ''} 1'']) baseAddress
      = Inl (ParseError (UndefinedVariable (to_lower v)) 2)"
    using two_lines [OF v(6) ref _ v(5) pre_parse_reference [OF assms(1)]] set_line ref_line
    by (simp add: parse_def parse_with_def first_part_def MetaBlockBegin_def)
  have marker: "list_all line_char (''marker ${'' @ v @ ''}'')"
    using v(1) by (simp add: line_char_def simple_char_def is_alpha_def is_lower_def)
  have "expand_variables (''${'' @ v @ ''}'') ?tab 2 = Inr ''1''"
    using reference_expanded [OF v(2), of ?tab 2] by (simp add: new_variable_def)
  then have marker_line: "parse_line lib baseAddress
      \<lparr>pl_line = l, pl_parts = [''marker'', ''${'' @ v @ ''}''], pl_lineNumber = 2, pl_varRefs = r\<rparr>
      \<lparr>ps_symtabs = ?tab, ps_baseAddress = baseAddress, ps_result = []\<rparr>
      = Inr \<lparr>ps_symtabs = ?tab, ps_baseAddress = baseAddress,
           ps_result = [new_command\<lparr>cmd_type := CmdMarker, cmd_value := 1\<rparr>]\<rparr>" for l r
    by (simp add: parse_line_def expand_variables_line_def expand_plain evaluate_plain_line plain_parts_def
        first_part_def marker_one handle_command_def push_result_def add_base_address.simps new_command_def)
  show "parse lib (join_lines [''set '' @ v @ '' 1'', ''marker ${'' @ v @ ''}'']) baseAddress
      = Inr [new_command\<lparr>cmd_type := CmdMarker, cmd_value := 1\<rparr>]"
    using two_lines [OF v(6) marker _ v(5) pre_parse_marker [OF assms(1)]] set_line marker_line
    by (simp add: parse_def parse_with_def first_part_def MetaBlockBegin_def)
  show "parse lib ([QUOTE, QUOTE] @ '' 1'') baseAddress = Inl OutOfRangeAccess"
    using pre_parse_empty_quotes
    by (simp add: parse_def parse_with_def first_part_def MetaBlockBegin_def parse_line_def expand_plain_line
        evaluate_plain_line plain_parts_def handle_single_line_command_def)
qed

theorem first_part_flaws_witness:
  "parse plain_lib (join_lines [''set Foo 1'', ''${Foo} 1'']) 0 = Inl (ParseError (UndefinedVariable ''foo'') 2)
   \<and> parse plain_lib (join_lines [''set Foo 1'', ''marker ${Foo}'']) 0
      = Inr [new_command\<lparr>cmd_type := CmdMarker, cmd_value := 1\<rparr>]
   \<and> parse plain_lib ([QUOTE, QUOTE] @ '' 1'') 0 = Inl OutOfRangeAccess"
proof -
  have "to_lower ''Foo'' = ''foo''" "list_all is_alpha ''Foo''" by code_simp+
  then show ?thesis using first_part_flaws [of "''Foo''" plain_lib 0] by simp
qed

end
