(* ===== verification/Trigger_Text.thy ===== *)
theory Trigger_Text
  imports Trigger_Meta Vme_Parse
begin

text \<open>
  The text of a Trigger I/O setup script through the VME script parser: \<open>parse_trigger_io_script_text\<close> of
  \<^verbatim>\<open>src/src/mvlc/mvlc_trigger_io_script.cc\<close> on what \<open>generate_trigger_io_script_text\<close> wrote. The comments of
  the script disappear, its write lines become write commands in the short form, relative to the address of
  the MVLC's internal interface, and the meta block keeps its text.
\<close>

section \<open>Parsing a script text\<close>

datatype text_error = ScriptError failure | ConfigError parse_error

definition parse_trigger_io_script_text :: "ParserLib \<Rightarrow> 'n YamlLib \<Rightarrow> string \<Rightarrow> text_error + TriggerIO" where
  "parse_trigger_io_script_text lib yaml text =
     (case parse lib text 0 of
        Inl e \<Rightarrow> Inl (ScriptError e)
      | Inr commands \<Rightarrow> map_sum ConfigError id (parse_trigger_io_commands yaml commands))"

section \<open>Comments\<close>

text \<open>A text that stays inside a comment line.\<close>

definition comment_text :: "string \<Rightarrow> bool" where
  "comment_text s \<longleftrightarrow> line_text s \<and> no_open s"

fun part_safe :: "ScriptPart \<Rightarrow> bool" where
  "part_safe (PWrite w) \<longleftrightarrow> comment_text (w_comment w)"
| "part_safe (PBlock c) \<longleftrightarrow> comment_text c"

definition all_names :: "TriggerIO \<Rightarrow> string list" where
  "all_names cfg = l0_unitNames (l0 cfg) @ concat (map outputNames (l1_luts (l1 cfg)))
     @ concat (map outputNames (l2_luts (l2 cfg))) @ l3_unitNames (l3 cfg)"

definition safe_names :: "TriggerIO \<Rightarrow> bool" where
  "safe_names cfg \<longleftrightarrow> list_all comment_text (all_names cfg)"

lemma comment_text_Nil [simp]: "comment_text []"
  by (simp add: comment_text_def line_text_def)

lemma comment_text_append:
  "comment_text a \<Longrightarrow> comment_text b \<Longrightarrow> a = [] \<or> last a \<noteq> CHR ''/'' \<Longrightarrow> comment_text (a @ b)"
  by (auto simp: comment_text_def no_open_append)

lemma comment_text_append_star:
  "comment_text a \<Longrightarrow> comment_text b \<Longrightarrow> b = [] \<or> hd b \<noteq> CHR ''*'' \<Longrightarrow> comment_text (a @ b)"
  by (auto simp: comment_text_def no_open_append)

lemma show_dec_simple: "list_all simple_char (show_dec n)"
  using show_dec_digit by (auto simp: list_all_iff simple_char_def)

lemma comment_text_dec [simp]: "comment_text (show_dec n)"
proof -
  have "list_all line_char (show_dec n)"
    using show_dec_simple [of n] by (auto simp: list_all_iff line_char_def)
  then show ?thesis using line_chars by (simp add: comment_text_def)
qed

lemma last_dec_not_slash [simp]: "last (show_dec n) \<noteq> CHR ''/''"
proof -
  have "is_digit (last (show_dec n))" by (rule show_dec_digit [of _ n]) (simp add: show_dec_def)
  moreover have "\<not> is_digit (CHR ''/'')" by code_simp
  ultimately show ?thesis by metis
qed

lemma hd_dec_not_star [simp]: "hd (show_dec n) \<noteq> CHR ''*''"
proof -
  have "is_digit (hd (show_dec n))" by (rule show_dec_digit [of _ n]) (simp add: show_dec_def)
  moreover have "\<not> is_digit (CHR ''*'')" by code_simp
  ultimately show ?thesis by metis
qed

lemma show_dec_not_Nil [simp]: "show_dec n \<noteq> []"
  by (simp add: show_dec_def)

lemma comment_text_quoted: "comment_text name \<Longrightarrow> comment_text (quoted name)"
  unfolding quoted_def
  by (intro comment_text_append comment_text_append_star) (simp_all add: comment_text_def line_text_def char_defs)

lemma comment_text_Cons [simp]:
  "comment_text (c # s) \<longleftrightarrow>
     c \<noteq> CHR 0x0A \<and> c \<noteq> CHR 0x0D \<and> (c = CHR ''/'' \<longrightarrow> s = [] \<or> hd s \<noteq> CHR ''*'') \<and> comment_text s"
  by (cases s) (auto simp: comment_text_def line_text_def char_defs)

lemma comment_text_dec_append [simp]: "comment_text (show_dec n @ s) \<longleftrightarrow> comment_text s"
  using comment_text_dec [of n] by (auto simp: comment_text_def no_open_append)

lemma lookup_name_safe:
  assumes "safe_names cfg" "lookup_name cfg a = Some name"
  shows "comment_text name"
proof -
  obtain l u out where "a = (l, u, out)" by (cases a)
  with assms(2) have "name = [] \<or> name \<in> set (all_names cfg)"
    by (auto simp: lut_name_def all_names_def value_at_def at_opt_def in_set_conv_nth split: if_splits bind_splits)
      (metis nth_mem)+
  then show ?thesis using assms(1) by (auto simp: safe_names_def list_all_iff)
qed


section \<open>The comments of a generated script\<close>

lemma safe_unit_reg [simp]: "part_safe (write_unit_reg r v c opts) \<longleftrightarrow> comment_text c"
  by (simp add: write_unit_reg_def)

lemma safe_select [simp]: "part_safe (select_unit level unit)"
  by (simp add: select_unit_def)

lemma safe_connection: "comment_text name \<Longrightarrow> part_safe (write_connection offset v name)"
  by (simp add: write_connection_def comment_text_quoted)

lemma safe_strobe_connection: "comment_text name \<Longrightarrow> part_safe (write_strobe_connection offset v name)"
  by (simp add: write_strobe_connection_def comment_text_quoted)

abbreviation parts_safe :: "ScriptParts \<Rightarrow> bool" where
  "parts_safe \<equiv> list_all part_safe"

lemma safe_prefix: "part_safe p \<Longrightarrow> part_safe (prefix_comment p)"
proof (cases p)
  case (PWrite w)
  assume "part_safe p"
  with PWrite show ?thesis by simp
qed simp

lemma safe_gen_IO [simp]: "parts_safe (gen_IO io flags off)"
  by (simp add: gen_IO_def)

lemma safe_units [simp]:
  "parts_safe (gen_Timer t)" "parts_safe (gen_TriggerResource r)" "parts_safe (gen_StackBusy b)"
  "parts_safe (gen_StackStart s)" "parts_safe (gen_MasterTrigger m)" "parts_safe (gen_Counter c)"
proof -
  have "parts_safe (map prefix_comment (gen_IO io flags off))" for io flags off
    using safe_gen_IO [of io flags off] by (simp add: list_all_iff safe_prefix)
  then show "parts_safe (gen_TriggerResource r)"
    by (simp add: gen_TriggerResource_def)
qed (simp_all add: gen_Timer_def gen_StackBusy_def gen_StackStart_def gen_MasterTrigger_def gen_Counter_def)

lemma safe_lut:
  assumes "write_lut lut = Some ps"
  shows "parts_safe ps"
  using assms by (auto simp: write_lut_def write_lut_ram_def list_all_iff Let_def split: sum.splits)

lemma safe_connect_with:
  assumes "connect_with write cfg r v choices = Some ps" "safe_names cfg"
    "\<And>offset v name. comment_text name \<Longrightarrow> part_safe (write offset v name)"
  shows "parts_safe ps"
  using assms lookup_name_safe [OF assms(2)] by (auto simp: connect_with_def split: bind_splits)

lemma safe_write_connections:
  "connect_with write_connection cfg r v choices = Some ps \<Longrightarrow> safe_names cfg \<Longrightarrow> parts_safe ps"
  "connect_with write_strobe_connection cfg r v choices = Some ps \<Longrightarrow> safe_names cfg \<Longrightarrow> parts_safe ps"
  by (erule safe_connect_with, assumption, erule safe_connection safe_strobe_connection)+

lemma safe_map_opt:
  "map_opt f xs = Some pss \<Longrightarrow> (\<And>x qs. x \<in> set xs \<Longrightarrow> f x = Some qs \<Longrightarrow> parts_safe qs) \<Longrightarrow> parts_safe (concat pss)"
proof (induction xs arbitrary: pss)
  case (Cons x xs)
  from Cons.prems(1) obtain qs rest where qs: "f x = Some qs" "map_opt f xs = Some rest" "pss = qs # rest"
    by (auto split: option.splits)
  have "parts_safe (concat rest)" using qs(2) Cons.prems(2) by (intro Cons.IH) auto
  moreover have "parts_safe qs" using qs(1) Cons.prems(2) by auto
  ultimately show ?case using qs(3) by simp
qed simp

lemma safe_unit_sections:
  assumes "unit_sections level off name gen units = Some ps"
    "\<And>i n. name i = Some n \<Longrightarrow> comment_text n" "\<And>i x qs. gen i x = Some qs \<Longrightarrow> parts_safe qs"
  shows "parts_safe ps"
proof -
  obtain pss where pss: "map_opt (\<lambda>(i, x). unit_section (name (i + off)) level (i + off) (gen (i + off) x))
      (indexed 0 units) = Some pss" "ps = concat pss"
    using assms(1) by (auto simp: unit_sections_def)
  show ?thesis unfolding pss(2)
  proof (rule safe_map_opt [OF pss(1)])
  fix x qs assume "(\<lambda>(i, x). unit_section (name (i + off)) level (i + off) (gen (i + off) x)) x = Some qs"
  then obtain i y n body where "name i = Some n" "gen i y = Some body" "qs = [PBlock n, select_unit level i] @ body"
    by (cases x) (auto simp: unit_section_def split: bind_splits)
  then show "parts_safe qs" using assms(2,3) by simp
  qed
qed

lemma safe_default_names:
  "at_opt L0_DefaultUnitNames i = Some n \<Longrightarrow> comment_text n"
  "at_opt L3_DefaultUnitNames i = Some n \<Longrightarrow> comment_text n"
proof -
  have "list_all comment_text L0_DefaultUnitNames" "list_all comment_text L3_DefaultUnitNames"
    by (simp_all add: L0_DefaultUnitNames_def L3_DefaultUnitNames_def)
  then show "at_opt L0_DefaultUnitNames i = Some n \<Longrightarrow> comment_text n"
    "at_opt L3_DefaultUnitNames i = Some n \<Longrightarrow> comment_text n"
    by (auto simp: list_all_length at_opt_eq_Some_iff)
qed

lemma safe_l1_lut:
  assumes "gen_l1_lut cfg u lut = Some ps" "safe_names cfg"
  shows "parts_safe ps"
  using assms(1)
  by (auto simp: gen_l1_lut_def safe_lut split: bind_splits if_splits
      intro!: safe_map_opt intro: safe_write_connections [OF _ assms(2)])

lemma safe_l2_lut:
  assumes "gen_l2_lut cfg u lut = Some ps" "safe_names cfg"
  shows "parts_safe ps"
  using assms(1)
  by (auto simp: gen_l2_lut_def safe_lut split: bind_splits intro!: safe_map_opt
      intro: safe_write_connections [OF _ assms(2)])

lemma safe_l3_unit:
  assumes "gen_l3_unit cfg u parts inputs = Some ps" "safe_names cfg" "parts_safe parts"
  shows "parts_safe ps"
proof -
  have "parts_safe qs" if "l3_connect cfg u i = Some qs" for i qs
    using that safe_write_connections(1) [OF _ assms(2)] unfolding l3_connect_def by blast
  then show ?thesis
    using assms(1,3) by (auto simp: gen_l3_unit_def split: bind_splits intro!: safe_map_opt)
qed

lemma safe_default_sections:
  "unit_sections level off (at_opt L0_DefaultUnitNames) gen units = Some ps \<Longrightarrow>
     (\<And>i x qs. gen i x = Some qs \<Longrightarrow> parts_safe qs) \<Longrightarrow> parts_safe ps"
  "unit_sections level off (at_opt L3_DefaultUnitNames) gen units = Some ps \<Longrightarrow>
     (\<And>i x qs. gen i x = Some qs \<Longrightarrow> parts_safe qs) \<Longrightarrow> parts_safe ps"
  "unit_sections level off (\<lambda>u. Some (''L1.LUT'' @ show_dec u)) gen units = Some ps \<Longrightarrow>
     (\<And>i x qs. gen i x = Some qs \<Longrightarrow> parts_safe qs) \<Longrightarrow> parts_safe ps"
  "unit_sections level off (\<lambda>u. Some (''L2.LUT'' @ show_dec u)) gen units = Some ps \<Longrightarrow>
     (\<And>i x qs. gen i x = Some qs \<Longrightarrow> parts_safe qs) \<Longrightarrow> parts_safe ps"
  by (erule safe_unit_sections, auto dest: safe_default_names)+

lemma safe_level0: "gen_level0 cfg = Some ps \<Longrightarrow> parts_safe ps"
  by (auto simp: gen_level0_def split: bind_splits elim!: safe_default_sections)

lemma safe_level1: "gen_level1 cfg = Some ps \<Longrightarrow> safe_names cfg \<Longrightarrow> parts_safe ps"
proof -
  assume cfg: "gen_level1 cfg = Some ps" "safe_names cfg"
  then obtain a where a: "unit_sections 1 0 (\<lambda>u. Some (''L1.LUT'' @ show_dec u)) (gen_l1_lut cfg) (l1_luts (l1 cfg)) = Some a"
    "ps = [PBlock ''Level1 #####################################################''] @ a"
    unfolding gen_level1_def by (auto split: bind_splits simp del: append_Cons)
  have "parts_safe a"
    by (rule safe_default_sections(3) [OF a(1)]) (rule safe_l1_lut [OF _ cfg(2)])
  with a(2) show "parts_safe ps" by simp
qed

lemma safe_level2: "gen_level2 cfg = Some ps \<Longrightarrow> safe_names cfg \<Longrightarrow> parts_safe ps"
proof -
  assume cfg: "gen_level2 cfg = Some ps" "safe_names cfg"
  then obtain a where a: "unit_sections 2 0 (\<lambda>u. Some (''L2.LUT'' @ show_dec u)) (gen_l2_lut cfg) (l2_luts (l2 cfg)) = Some a"
    "ps = [PBlock ''Level2 #####################################################''] @ a"
    unfolding gen_level2_def by (auto split: bind_splits simp del: append_Cons)
  have "parts_safe a"
    by (rule safe_default_sections(4) [OF a(1)]) (rule safe_l2_lut [OF _ cfg(2)])
  with a(2) show "parts_safe ps" by simp
qed

lemma safe_level3: "gen_level3 cfg = Some ps \<Longrightarrow> safe_names cfg \<Longrightarrow> parts_safe ps"
  by (auto simp: gen_level3_def split: bind_splits elim!: safe_default_sections dest!: safe_l3_unit)

lemma safe_script: "generate_trigger_io_script cfg = Some ps \<Longrightarrow> safe_names cfg \<Longrightarrow> parts_safe ps"
  by (auto simp: generate_trigger_io_script_def safe_level0 safe_level1 safe_level2 safe_level3 split: bind_splits)

section \<open>Write lines\<close>

lemma read_digits_binary:
  "list_all is_binary s \<Longrightarrow> CHR 0x27 \<notin> set s \<Longrightarrow>
   read_digits 2 a s = Some (a * 2 ^ length s + horner_sum of_bool 2 (rev (binary_bits s)))"
proof (induction s arbitrary: a)
  case (Cons c s)
  then have "c = CHR ''0'' \<or> c = CHR ''1''" "filter (\<lambda>c. c \<noteq> CHR 0x27) s = s"
    by (auto simp: is_binary_def filter_id_conv)
  then have "c = CHR ''0'' \<or> c = CHR ''1''" "length (binary_bits s) = length s"
    by (simp_all add: binary_bits_def)
  then obtain b where b: "c = (if b then CHR ''1'' else CHR ''0'')" and len: "length (binary_bits s) = length s"
    by (metis (full_types))
  have "binary_bits (c # s) = b # binary_bits s" unfolding b by simp
  moreover have "read_digits 2 a (c # s) = read_digits 2 (a * 2 + of_bool b) s"
    unfolding b by (simp add: digit_value_def is_digit_def)
  moreover have "read_digits 2 (a * 2 + of_bool b) s
      = Some ((a * 2 + of_bool b) * 2 ^ length s + horner_sum of_bool 2 (rev (binary_bits s)))"
    using Cons.prems by (intro Cons.IH) simp_all
  ultimately show ?case by (simp add: horner_sum_append len algebra_simps)
qed simp

lemma of_nat_horner_sum: "of_nat (horner_sum of_bool 2 bs) = horner_sum of_bool 2 bs"
  by (induction bs) simp_all

lemma show_num_length: "2 \<le> b \<Longrightarrow> n < b ^ k \<Longrightarrow> 0 < k \<Longrightarrow> length (digits_acc b n acc) \<le> k + length acc"
proof (induction b n acc arbitrary: k rule: digits_acc.induct)
  case (1 b n acc)
  show ?case
  proof (cases "n < b")
    case True
    with 1 show ?thesis by (subst digits_acc.simps) simp
  next
    case False
    with 1 obtain j where k: "k = Suc j" "0 < j" by (cases k; cases "k - 1") auto
    moreover have "n div b < b ^ j" using 1 k by (simp add: less_mult_imp_div_less mult.commute)
    ultimately show ?thesis using 1 False by (subst digits_acc.simps) fastforce
  qed
qed

lemma parseValue_bin:
  assumes "n < 2 ^ 16"
  shows "parseValue to_float (''0b'' @ show_padded n 4 2 (CHR ''0'')) = Inr (of_nat n)"
proof -
  let ?s = "show_padded n 4 2 (CHR ''0'')"
  have digits: "c = CHR ''0'' \<or> c = CHR ''1''" if "c \<in> set ?s" for c
  proof -
    have "digit_char ` {..<2} \<subseteq> {CHR ''0'', CHR ''1''}"
      by (auto simp: digit_char_def less_2_cases_iff)
    moreover have "c \<in> set (show_num 2 n) \<or> c = CHR ''0''" using that by (auto simp: show_padded_def)
    ultimately show ?thesis using show_num_digits [of 2 n] by force
  qed
  then have bin: "list_all is_binary ?s" "CHR 0x27 \<notin> set ?s"
    by (auto simp: list_all_iff is_binary_def)
  have "length (show_num 2 n) \<le> 16" using show_num_length [of 2 n 16 "[]"] assms by (simp add: show_num_def)
  then have "length (binary_bits ?s) \<le> 32"
    using le_trans [OF length_filter_le [of "\<lambda>c. c \<noteq> CHR 0x27" ?s], of 32] by (simp add: binary_bits_def) (simp add: show_padded_def)
  moreover have "(horner_sum of_bool 2 (rev (binary_bits ?s)) :: nat) = n"
    using read_digits_binary [OF bin, of 0] show_padded_read [of 2 n 4] by (simp add: read_number_def)
  then have "(horner_sum of_bool 2 (rev (binary_bits ?s)) :: u32) = of_nat n"
    using of_nat_horner_sum by metis
  ultimately show ?thesis
    using parseValue_binary [OF bin(1), of to_float] by simp
qed

text \<open>The two words of a write line and the spaces that pad a decimal number.\<close>

definition address_text :: "Write \<Rightarrow> string" where
  "address_text w = ''0x'' @ show_padded (unat (w_address w)) 4 16 (CHR ''0'')"

definition value_text :: "Write \<Rightarrow> string" where
  "value_text w =
     (if w_options w AND Opt_HexValue \<noteq> 0 then ''0x'' @ show_padded (unat (w_value w)) 4 16 (CHR ''0'')
      else if w_options w AND Opt_BinValue \<noteq> 0 then ''0b'' @ show_padded (unat (w_value w)) 4 2 (CHR ''0'')
      else show_dec (unat (w_value w)))"

definition value_padding :: "Write \<Rightarrow> string" where
  "value_padding w =
     (if w_options w AND Opt_HexValue \<noteq> 0 \<or> w_options w AND Opt_BinValue \<noteq> 0 then []
      else replicate (6 - length (show_dec (unat (w_value w)))) (CHR '' ''))"

definition write_words :: "Write \<Rightarrow> string" where
  "write_words w = address_text w @ '' '' @ value_padding w @ value_text w"

lemma write_line_split:
  "write_line w = write_words w @ (if w_comment w \<noteq> [] then ''    # '' @ w_comment w else [])"
  by (simp add: write_line_def write_words_def address_text_def value_padding_def value_text_def show_padded_def
      show_dec_def)

lemma plain_words:
  "list_all plain_digit (address_text w)" "list_all plain_digit (value_text w)"
  "address_text w \<noteq> []" "value_text w \<noteq> []"
proof -
  have "plain_digit (CHR ''0'') \<and> plain_digit (CHR ''x'') \<and> plain_digit (CHR ''b'')" by code_simp
  moreover have "plain_digit c" if "c \<in> set (show_dec n)" for c n
    using show_dec_digit [OF that] by (simp add: plain_digit_def)
  ultimately show "list_all plain_digit (address_text w)" "list_all plain_digit (value_text w)"
    "address_text w \<noteq> []" "value_text w \<noteq> []"
    using show_padded_plain [of 16] show_padded_plain [of 2]
    by (auto simp: address_text_def value_text_def list_all_iff)
qed

lemma parseValue_address: "parseValue to_float (address_text w) = Inr (ucast (w_address w))"
  using parseValue_hex [of "unat (w_address w)" to_float 4] u16_range(1) [of "w_address w"]
  by (simp add: address_text_def)

lemma parseValue_value: "parseValue to_float (value_text w) = Inr (ucast (w_value w))"
  using parseValue_hex [of "unat (w_value w)" to_float 4] parseValue_dec [of "unat (w_value w)" to_float]
    parseValue_bin [of "unat (w_value w)" to_float] u16_range(1) [of "w_value w"]
  by (simp add: value_text_def)

lemma plain_digit_word: "list_all plain_digit s \<Longrightarrow> list_all word_char s"
  by (auto simp: list_all_iff intro: simple_word_char plain_digit_simple)

lemma split_write_words: "split_into_atomic_parts (write_words w) n = Inr [address_text w, value_text w]"
proof -
  have "list_all part_space (value_padding w)" by (simp add: value_padding_def list_all_iff)
  then show ?thesis
    using split_word [OF plain_digit_word [OF plain_words(1)], of n "[]" w "'' '' @ value_padding w @ value_text w"]
      split_spaces [of "value_padding w" n "value_text w"]
      split_word [OF plain_digit_word [OF plain_words(2)], of n "[]" w "[]"] plain_words(3,4) [of w]
    by (simp add: split_into_atomic_parts_def write_words_def push_part_def)
qed

lemma write_words_chars: "list_all line_char (write_words w)"
proof -
  have "list_all line_char s" if "list_all plain_digit s" for s
    using that by (auto simp: list_all_iff line_char_def plain_digit_simple)
  from this [OF plain_words(1), of w] this [OF plain_words(2), of w] show ?thesis
    by (auto simp: write_words_def value_padding_def line_char_def list_all_iff)
qed

lemma write_words_ends: "write_words w \<noteq> []" "plain_digit (hd (write_words w))" "plain_digit (last (write_words w))"
  using plain_words [of w] by (auto simp: write_words_def list_all_iff)

lemma takeWhile_trailing: "list_all P a \<Longrightarrow> \<not> P c \<Longrightarrow> takeWhile P (a @ c # s) = a"
  by (induction a) auto

lemma cut_write_line:
  "cut_comment (write_line w) = write_words w @ (if w_comment w \<noteq> [] then ''    '' else [])"
proof -
  have chars: "list_all (\<lambda>c. c \<noteq> CHR ''#'') (write_words w)"
    using line_chars(3) [OF write_words_chars, of w]
    by (auto simp: cut_comment_def takeWhile_eq_all_conv list_all_iff)
  then have "takeWhile (\<lambda>c. c \<noteq> CHR ''#'') ((write_words w @ ''    '') @ CHR ''#'' # '' '' @ w_comment w) = write_words w @ ''    ''"
    by (intro takeWhile_trailing) simp_all
  moreover have "takeWhile (\<lambda>c. c \<noteq> CHR ''#'') (write_words w) = write_words w"
    using chars by (simp add: takeWhile_eq_all_conv list_all_iff)
  ultimately show ?thesis by (simp add: cut_comment_def write_line_split)
qed

lemma trimmed_trailing:
  "s \<noteq> [] \<Longrightarrow> \<not> is_space (hd s) \<Longrightarrow> \<not> is_space (last s) \<Longrightarrow> list_all is_space t \<Longrightarrow> trimmed (s @ t) = s"
proof -
  assume s: "s \<noteq> []" "\<not> is_space (hd s)" "\<not> is_space (last s)" "list_all is_space t"
  then have "dropWhile is_space (s @ t) = s @ t" by (cases s) auto
  moreover have "dropWhile is_space (rev t @ rev s) = dropWhile is_space (rev s)"
    using s(4) by (intro dropWhile_append2) (simp add: list_all_iff)
  moreover have "dropWhile is_space (rev s) = rev s"
    using s by (simp add: dropWhile_eq_self_iff hd_rev)
  ultimately show "trimmed (s @ t) = s" by (simp add: trimmed_def)
qed

definition write_pl :: "int \<Rightarrow> Write \<Rightarrow> PreparsedLine" where
  "write_pl n w = \<lparr>pl_line = cut_comment (write_line w), pl_parts = [address_text w, value_text w], pl_lineNumber = n,
     pl_varRefs = {}\<rparr>"

lemma to_lower_plain: "list_all plain_digit s \<Longrightarrow> to_lower s = s"
  by (induction s) (auto simp: to_lower_def)

lemma plain_digits_no_dollar: "list_all plain_digit s \<Longrightarrow> CHR ''$'' \<notin> set s"
  using plain_digit_word [of s] by (auto simp: list_all_iff word_char_def)

lemma write_plain_parts: "plain_parts [address_text w, value_text w]"
  using plain_words by (simp add: plain_parts_def plain_digits_no_dollar)

lemma pre_parse_write_line: "pre_parse_line (cut_comment (write_line w)) n = Inr [write_pl n w]"
proof -
  have "is_space (CHR '' '')" by (simp add: is_space_def)
  then have "trimmed (cut_comment (write_line w)) = write_words w"
    unfolding cut_write_line using write_words_ends [of w] by (intro trimmed_trailing) simp_all
  then show ?thesis
    using split_write_words [of w n] write_words_ends(1) [of w] to_lower_plain [OF plain_words(1), of w] write_plain_parts [of w]
    by (simp add: pre_parse_line_def collect_plain_line write_pl_def)
qed

section \<open>The parts of the script\<close>

lemma comment_text_line_chars: "list_all line_char l \<Longrightarrow> comment_text l"
  using line_chars by (simp add: comment_text_def)

lemma comment_text_write_line:
  assumes "comment_text (w_comment w)"
  shows "comment_text (write_line w)"
proof -
  have "plain_digit (last (write_words w))" by (rule write_words_ends)
  then have "last (write_words w) \<noteq> CHR ''/''" by (auto simp: plain_digit_def is_digit_def is_lower_def)
  then show ?thesis
    unfolding write_line_split
    using assms comment_text_line_chars [OF write_words_chars, of w]
    by (intro comment_text_append) auto
qed

lemma comment_text_part_lines: "part_safe p \<Longrightarrow> list_all comment_text (part_lines p)"
  by (cases p) (simp_all add: comment_text_write_line)

lemma pre_parse_empty [simp]: "pre_parse_line [] n = Inr []"
  by (simp add: pre_parse_line_def trimmed_def)

lemma cut_comment_line [simp]: "cut_comment (CHR ''#'' # s) = []" "cut_comment [] = []"
  by (simp_all add: cut_comment_def)

fun part_pls :: "int \<Rightarrow> ScriptParts \<Rightarrow> PreparsedLine list" where
  "part_pls n [] = []"
| "part_pls n (PWrite w # ps) = write_pl n w # part_pls (n + 1) ps"
| "part_pls n (PBlock c # ps) = part_pls (if c = [] then n else 2 + n) ps"

lemma pre_parse_parts: "pre_parse_clean n (concat (map part_lines ps)) = Inr (part_pls n ps)"
proof (induction n ps rule: part_pls.induct)
  case (3 n c ps)
  then show ?case by (cases "c = []") auto
qed (simp_all add: pre_parse_write_line)

lemma first_part_write: "first_part (write_pl n w) \<noteq> MetaBlockBegin" "first_part (write_pl n w) \<noteq> ''set''"
  by (simp_all add: first_part_def write_pl_def address_text_def MetaBlockBegin_def)

lemma handle_write_pl:
  "handle_single_line_command to_float (write_pl n w) = Inr (short_write (ucast (w_address w)) (ucast (w_value w)))"
proof -
  obtain cs where "address_text w = CHR ''0'' # cs" by (simp add: address_text_def)
  then show ?thesis
    using parseValue_address [of to_float w] parseValue_value [of to_float w]
    by (simp add: handle_single_line_command_def write_pl_def is_digit_def rename_message_def)
qed

lemma parse_write_pl:
  "parse_line lib orig (write_pl n w) st
     = Inr (push_result (short_write (ucast (w_address w) + ps_baseAddress st) (ucast (w_value w))) st)"
proof -
  have "plain_parts (pl_parts (write_pl n w))" by (simp add: write_pl_def write_plain_parts)
  then show ?thesis
    using first_part_write(2) [of n w]
    by (simp add: parse_line_def expand_plain_line evaluate_plain_line handle_write_pl handle_command_def short_write_def
        add_base_address.simps new_command_def)
qed

lemma parse_part_pls:
  "ps_baseAddress st = MVLC_VME_InterfaceAddress \<Longrightarrow>
   parse_lines lib orig (part_pls n ps @ ys) st
     = parse_lines lib orig ys (st\<lparr>ps_result := ps_result st @ write_commands (part_writes ps)\<rparr>)"
proof (induction n ps arbitrary: st rule: part_pls.induct)
  case (1 n)
  then show ?case by (simp add: write_commands_def)
next
  case (2 n w ps)
  then show ?case
    by (simp add: first_part_write parse_write_pl push_result_def write_commands_def)
next
  case (3 n c ps)
  then show ?case by simp
qed

section \<open>The head of the script\<close>

definition base_command :: Command where
  "base_command = new_command\<lparr>cmd_type := CmdSetBase, cmd_address := MVLC_VME_InterfaceAddress\<rparr>"

lemma base_printable: "printable base_command"
  by (simp add: printable_def base_command_def new_command_def)

lemma base_line: "join_with '' '' (command_words base_command)
    = ''setbase 0x'' @ show_padded (unat MVLC_VME_InterfaceAddress) 8 16 (CHR ''0'')"
  by (simp add: command_words_def base_command_def command_name_def commandTypeToString_def format_hex_def)

lemma pre_parse_head: "pre_parse_clean 1 script_head = Inr [printed_line 13 base_command]"
proof -
  have "pre_parse_clean 13 [join_with '' '' (command_words base_command)] = Inr [printed_line 13 base_command]"
    using pre_parse_printed [of "[base_command]" 13] base_printable by simp
  then show ?thesis by (simp add: script_head_def base_line)
qed

lemma comment_text_head: "list_all comment_text script_head"
proof -
  have "comment_text (join_with '' '' (command_words base_command))"
    by (intro comment_text_line_chars join_words_chars command_words_simple base_printable)
  then show ?thesis by (simp add: script_head_def base_line)
qed

lemma parse_head:
  "parse_lines lib 0 ([printed_line 13 base_command] @ ys)
      \<lparr>ps_symtabs = t, ps_baseAddress = 0, ps_result = []\<rparr>
     = parse_lines lib 0 ys \<lparr>ps_symtabs = t, ps_baseAddress = MVLC_VME_InterfaceAddress, ps_result = [base_command]\<rparr>"
  using printed_name(1) [OF base_printable, of 13]
  by (simp add: parse_printed_line [OF base_printable])
    (simp add: handle_command_def push_result_def printed_part_def base_command_def new_command_def)

section \<open>The meta block\<close>

text \<open>A line of the emitted YAML text that reaches the meta block as it is: it has no comments and no dollar
  sign and is neither empty for the splitter nor the end of the block.\<close>

definition meta_line :: "string \<Rightarrow> bool" where
  "meta_line l \<longleftrightarrow> comment_text l \<and> CHR ''#'' \<notin> set l \<and> CHR ''$'' \<notin> set l
     \<and> (case split_into_atomic_parts (trimmed l) 0 of Inr (p # ps) \<Rightarrow> to_lower p \<noteq> MetaBlockEnd | _ \<Rightarrow> False)"

lemma read_quoted_set: "set (fst (read_quoted s)) \<subseteq> set s \<and> set (snd (read_quoted s)) \<subseteq> set s"
  by (induction s rule: read_quoted.induct) (auto simp: split_def Let_def)

lemma split_parts_set:
  "split_parts n part s = Inr ps \<Longrightarrow> CHR ''$'' \<notin> set s \<Longrightarrow> CHR ''$'' \<notin> set part \<Longrightarrow> plain_parts ps"
proof (induction n part s arbitrary: ps rule: split_parts.induct)
  case (2 n part c cs)
  obtain q rest where q: "read_quoted cs = (q, rest)" by (cases "read_quoted cs")
  then have "CHR ''$'' \<notin> set q" "CHR ''$'' \<notin> set rest"
    using read_quoted_set [of cs] "2.prems" by auto
  with 2 q show ?case
    by (auto simp: push_part_def bind_err_Inr_iff plain_parts_def Let_def split: if_splits)
qed (auto simp: plain_parts_def split: if_splits)

lemma split_parts_any_line: "CHR ''$'' \<notin> set s \<Longrightarrow> split_parts m part s = split_parts n part s"
proof (induction n part s rule: split_parts.induct)
  case (2 n part c cs)
  obtain q rest where q: "read_quoted cs = (q, rest)" by (cases "read_quoted cs")
  then have "CHR ''$'' \<notin> set rest" using read_quoted_set [of cs] "2.prems" by auto
  with 2 q show ?case by (auto simp: Let_def)
qed simp

lemma trimmed_set: "set (trimmed s) \<subseteq> set s"
  unfolding trimmed_def by (auto dest!: set_dropWhileD)

lemma to_lower_no_dollar: "CHR ''$'' \<notin> set s \<Longrightarrow> CHR ''$'' \<notin> set (to_lower s)"
proof -
  have "\<not> is_lower (CHR ''$'')" by code_simp
  then have "lower_char c = CHR ''$'' \<Longrightarrow> c = CHR ''$''" for c
    using upper_lower [of c] by (auto simp: lower_char_def split: if_splits)
  moreover assume "CHR ''$'' \<notin> set s"
  ultimately have "lower_char c \<noteq> CHR ''$''" if "c \<in> set s" for c using that by metis
  then show "CHR ''$'' \<notin> set (to_lower s)" by (metis imageE list.set_map to_lower_def)
qed

lemma pre_parse_meta_line:
  assumes "meta_line l"
  shows "\<exists>pl. pre_parse_line (cut_comment l) n = Inr [pl] \<and> pl_line pl = l \<and> first_part pl \<noteq> MetaBlockEnd"
proof -
  obtain p ps where ps: "split_into_atomic_parts (trimmed l) 0 = Inr (p # ps)" "to_lower p \<noteq> MetaBlockEnd"
    using assms by (auto simp: meta_line_def split: sum.splits list.splits)
  have no_dollar: "CHR ''$'' \<notin> set (trimmed l)" using assms trimmed_set [of l] by (auto simp: meta_line_def)
  then have "plain_parts (p # ps)"
    using ps(1) split_parts_set [of 0 "[]" "trimmed l"] by (simp add: split_into_atomic_parts_def)
  then have plain: "plain_parts (to_lower p # ps)" by (simp add: plain_parts_def to_lower_no_dollar)
  have "split_into_atomic_parts (trimmed l) n = Inr (p # ps)"
    using ps(1) split_parts_any_line [OF no_dollar, of n "[]" 0] by (simp add: split_into_atomic_parts_def)
  moreover have "trimmed l \<noteq> []" using ps(1) by (auto simp: split_into_atomic_parts_def)
  moreover have "cut_comment l = l"
    using assms by (auto simp: meta_line_def cut_comment_def takeWhile_eq_all_conv)
  ultimately show ?thesis
    using plain ps(2) by (simp add: pre_parse_line_def collect_plain_line first_part_def)
qed

lemma pre_parse_meta_lines:
  "list_all meta_line ls \<Longrightarrow>
   \<exists>pls. pre_parse_clean n ls = Inr pls \<and> map pl_line pls = ls \<and> list_all (\<lambda>pl. first_part pl \<noteq> MetaBlockEnd) pls"
proof (induction ls arbitrary: n)
  case (Cons l ls)
  obtain pl where "pre_parse_line (cut_comment l) n = Inr [pl]" "pl_line pl = l" "first_part pl \<noteq> MetaBlockEnd"
    using pre_parse_meta_line [of l n] Cons.prems by auto
  moreover obtain pls where "pre_parse_clean (n + 1) ls = Inr pls" "map pl_line pls = ls"
    "list_all (\<lambda>pl. first_part pl \<noteq> MetaBlockEnd) pls"
    using Cons.IH [of "n + 1"] Cons.prems by auto
  ultimately show ?case by simp
qed simp

lemma find_index_end:
  "list_all (\<lambda>pl. first_part pl \<noteq> cmd) pls \<Longrightarrow> first_part pl' = cmd \<Longrightarrow>
   find_index_of_next_command cmd (pls @ pl' # rest) = Some (length pls)"
  by (induction pls) simp_all

lemma pre_parse_words_line:
  assumes "ws \<noteq> []" "list_all simple_word ws"
  shows "pre_parse_line (cut_comment (join_with '' '' ws)) n =
    Inr [\<lparr>pl_line = join_with '' '' ws, pl_parts = to_lower (hd ws) # tl ws, pl_lineNumber = n, pl_varRefs = {}\<rparr>]"
  using pre_parse_words [OF assms] line_chars(3) [OF join_words_chars [OF assms(2)]] by simp

definition block_words :: "string list" where
  "block_words = [MetaBlockBegin, MetaTagMVLCTriggerIO]"

lemma block_words_simple: "list_all simple_word block_words" "list_all simple_word [MetaBlockEnd]"
proof -
  have "list_all simple_word block_words \<and> list_all simple_word [MetaBlockEnd]" by code_simp
  then show "list_all simple_word block_words" "list_all simple_word [MetaBlockEnd]" by simp_all
qed

lemma block_words_lower: "to_lower MetaBlockBegin = MetaBlockBegin" "to_lower MetaBlockEnd = MetaBlockEnd"
  by code_simp+

text \<open>The lines of the tail around the YAML text.\<close>

definition tail_begin :: "string list" where
  "tail_begin =
    [[],
     ''##############################################################'',
     ''# MVLC Trigger I/O specific meta information                 #'',
     ''##############################################################'',
     join_with '' '' block_words]"

lemma tail_lines: "script_tail text = tail_begin @ [text] @ [MetaBlockEnd]"
  by (simp add: script_tail_def tail_begin_def block_words_def)

lemma join_lines_nested:
  assumes "mls \<noteq> []"
  shows "join_lines (xs @ [join_lines mls] @ ys) = join_lines (xs @ mls @ ys)"
proof (induction xs)
  case Nil
  show ?case
  proof (cases "ys = []")
    case False
    with assms show ?thesis
      by (induction mls rule: induct_list012) (simp_all add: join_lines_Cons)
  qed simp
next
  case (Cons x xs)
  then show ?case by (cases xs) (simp_all add: join_lines_Cons assms)
qed

definition block_pl :: "int \<Rightarrow> string list \<Rightarrow> PreparsedLine" where
  "block_pl n ws = \<lparr>pl_line = join_with '' '' ws, pl_parts = ws, pl_lineNumber = n, pl_varRefs = {}\<rparr>"

lemma pre_parse_tail_begin: "pre_parse_clean n tail_begin = Inr [block_pl (4 + n) block_words]"
proof -
  have "pre_parse_line (cut_comment (join_with '' '' block_words)) k = Inr [block_pl k block_words]" for k
    using pre_parse_words_line [OF _ block_words_simple(1), of k] block_words_lower
    by (simp add: block_pl_def block_words_def)
  then show ?thesis by (simp add: tail_begin_def)
qed

lemma pre_parse_block_end: "pre_parse_line (cut_comment MetaBlockEnd) n = Inr [block_pl n [MetaBlockEnd]]"
  using pre_parse_words_line [OF _ block_words_simple(2), of n] block_words_lower by (simp add: block_pl_def)

lemma comment_text_tail: "list_all comment_text tail_begin" "comment_text MetaBlockEnd"
proof -
  have "comment_text (join_with '' '' block_words)" "comment_text (join_with '' '' [MetaBlockEnd])"
    by (intro comment_text_line_chars join_words_chars block_words_simple)+
  then show "list_all comment_text tail_begin" "comment_text MetaBlockEnd" by (simp_all add: tail_begin_def)
qed

lemma parse_block:
  assumes "list_all (\<lambda>pl. first_part pl \<noteq> MetaBlockEnd) pls"
  shows "parse_lines lib orig (block_pl n block_words # pls @ [block_pl m [MetaBlockEnd]]) st
    = Inr (push_result (handle_meta_block_command (block_pl n block_words) pls) st)"
proof -
  have "first_part (block_pl n block_words) = MetaBlockBegin" "first_part (block_pl m [MetaBlockEnd]) = MetaBlockEnd"
    by (simp_all add: first_part_def block_pl_def block_words_def)
  then show ?thesis using find_index_end [OF assms, of "block_pl m [MetaBlockEnd]" "[]"] by simp
qed

section \<open>The whole text\<close>

definition script_commands :: "ScriptParts \<Rightarrow> MetaBlock \<Rightarrow> VMEScript" where
  "script_commands parts block =
     [base_command] @ write_commands (part_writes parts) @ [new_command\<lparr>cmd_type := CmdMetaBlock, metaBlock := block\<rparr>]"

lemma parse_script_text:
  assumes "parts_safe parts" "mls \<noteq> []" "list_all meta_line mls"
  shows "\<exists>block. parse lib (join_lines (script_head @ concat (map part_lines parts) @ script_tail (join_lines mls))) 0
      = Inr (script_commands parts block)
    \<and> meta_tag block = MetaTagMVLCTriggerIO \<and> textContents block = join_lines mls"
proof -
  let ?P = "concat (map part_lines parts)"
  let ?ls = "script_head @ ?P @ tail_begin @ mls @ [MetaBlockEnd]"
  have nested: "join_lines (script_head @ ?P @ script_tail (join_lines mls)) = join_lines ?ls"
    using join_lines_nested [OF assms(2), of "script_head @ ?P @ tail_begin" "[MetaBlockEnd]"] by (simp add: tail_lines)
  have "list_all comment_text ?P"
    using assms(1) comment_text_part_lines by (auto simp: list_all_iff)
  moreover have "list_all comment_text mls" using assms(3) by (auto simp: list_all_iff meta_line_def)
  ultimately have "list_all comment_text ?ls" using comment_text_head comment_text_tail by simp
  moreover have "list_all P ls" if "list_all comment_text ls" "\<And>l. comment_text l \<Longrightarrow> P l" for P and ls :: "string list"
    using that by (auto simp: list_all_iff)
  ultimately have "list_all line_text ?ls" "list_all no_open ?ls" by (simp_all only: comment_text_def)
  moreover have "?ls \<noteq> []" "last ?ls \<noteq> []" by (simp_all add: MetaBlockEnd_def)
  ultimately have "pre_parse (join_lines ?ls) = pre_parse_clean 1 ?ls" by (intro pre_parse_join)
  moreover obtain pls where pls: "pre_parse_clean (1 + int (length script_head) + int (length ?P) + int (length tail_begin)) mls = Inr pls"
    "map pl_line pls = mls" "list_all (\<lambda>pl. first_part pl \<noteq> MetaBlockEnd) pls"
    using pre_parse_meta_lines [OF assms(3)] by blast
  ultimately obtain n k m where pre: "pre_parse (join_lines ?ls) = Inr ([printed_line 13 base_command] @ part_pls n parts
      @ block_pl k block_words # pls @ [block_pl m [MetaBlockEnd]])"
    by (simp add: pre_parse_clean_append pre_parse_head pre_parse_parts pre_parse_tail_begin pre_parse_block_end)
  let ?block = "metaBlock (handle_meta_block_command (block_pl k block_words) pls)"
  have "parse lib (join_lines ?ls) 0 = Inr (script_commands parts ?block)"
    using parse_block [OF pls(3), of lib 0 k m] parse_head [of lib] parse_part_pls [of _ lib 0]
    by (simp add: parse_def parse_with_def pre script_commands_def push_result_def handle_meta_block_command_def)
  moreover have "meta_tag ?block = MetaTagMVLCTriggerIO" "textContents ?block = join_lines mls"
    using pls(2) by (simp_all add: handle_meta_block_command_def meta_tag_def block_pl_def block_words_def)
  ultimately show ?thesis unfolding nested by blast
qed

lemma script_commands_writes:
  "filter (\<lambda>cmd. cmd_type cmd = CmdWrite) (script_commands parts block) = write_commands (part_writes parts)"
  "metaBlock (get_first_meta_block (script_commands parts block)) = block"
proof -
  have "list_all (\<lambda>cmd. cmd_type cmd = CmdWrite) (write_commands ws)" for ws
    by (auto simp: write_commands_def short_write_def list_all_iff)
  then show "filter (\<lambda>cmd. cmd_type cmd = CmdWrite) (script_commands parts block) = write_commands (part_writes parts)"
    by (simp add: script_commands_def base_command_def filter_id_conv list_all_iff)
  have "find (\<lambda>cmd. cmd_type cmd = CmdMetaBlock) (write_commands ws @ cs) = find (\<lambda>cmd. cmd_type cmd = CmdMetaBlock) cs" for ws cs
    by (induction ws) (auto simp: write_commands_def short_write_def)
  then show "metaBlock (get_first_meta_block (script_commands parts block)) = block"
    by (simp add: script_commands_def get_first_meta_block_def base_command_def)
qed

text \<open>C2: storing a configuration as script text and loading the text again restores the configuration, up to what
  a script does not hold: the generated text is accepted by the VME script parser, its writes arrive at the
  right addresses and in order, and the meta block hands the YAML text over unchanged. The names must not
  break a comment, and the YAML emitter must write lines the pre-parser keeps.\<close>

theorem script_text_roundtrip:
  assumes "wf_trigger_io cfg" "valid_connections cfg" "safe_names cfg"
    and "emit (generate_mvlc_meta_block cfg flags) = join_lines mls" "mls \<noteq> []" "list_all meta_line mls"
    and "yl_load yaml (join_lines mls) = Inr root" "represents yaml (generate_mvlc_meta_block cfg flags) root"
  shows "\<exists>text. generate_trigger_io_script_text emit cfg flags = Some text
    \<and> parse_trigger_io_script_text lib yaml text = Inr (stored_config cfg)"
proof -
  obtain parts where parts: "generate_trigger_io_script cfg = Some parts"
    "part_writes parts = concat (map block_writes (script_blocks cfg))"
    by (rule generates_blocksE [OF script_generates [OF assms(1,2)]])
  let ?text = "join_lines (script_head @ concat (map part_lines parts) @ script_tail (join_lines mls))"
  obtain block where block: "parse lib ?text 0 = Inr (script_commands parts block)"
    "meta_tag block = MetaTagMVLCTriggerIO" "textContents block = join_lines mls"
    using parse_script_text [OF safe_script [OF parts(1) assms(3)] assms(5,6)] by blast
  have "script_of cfg (script_commands parts block)"
    using parts(2) by (simp add: script_of_def script_commands_writes)
  then have "parse_trigger_io_commands yaml (script_commands parts block) = Inr (stored_config cfg)"
    using meta_block_restores [OF assms(1,7,8)] block(2,3)
    by (simp add: parse_trigger_io_commands_def build_config_stored [OF assms(1,2)] script_commands_writes Let_def)
  then have "parse_trigger_io_script_text lib yaml ?text = Inr (stored_config cfg)"
    by (simp add: parse_trigger_io_script_text_def block(1))
  moreover have "generate_trigger_io_script_text emit cfg flags = Some ?text"
    by (simp add: generate_trigger_io_script_text_def parts(1) assms(4))
  ultimately show ?thesis by blast
qed

text \<open>An emitter for the witness: the flow style of YAML on one line.\<close>

fun key_text :: "YKey \<Rightarrow> string" where
  "key_text (KStr s) = s"
| "key_text (KNum n) = show_dec n"

fun emit_flow :: "YNode \<Rightarrow> string" where
  "emit_flow (YString s) = s"
| "emit_flow (YBool b) = (if b then ''true'' else ''false'')"
| "emit_flow (YMap kvs) = ''{'' @ join_with '', '' (map (\<lambda>(k, d). key_text k @ '': '' @ emit_flow d) kvs) @ ''}''"

theorem script_text_roundtrip_witness:
  "\<exists>text. generate_trigger_io_script_text emit_flow new_trigger_io 0 = Some text
    \<and> parse_trigger_io_script_text plain_lib (tree_yaml (generate_mvlc_meta_block new_trigger_io 0)) text
        = Inr (stored_config new_trigger_io)"
proof (rule script_text_roundtrip [OF new_trigger_io_wf new_valid_connections])
  let ?doc = "generate_mvlc_meta_block new_trigger_io 0"
  show "safe_names new_trigger_io" by code_simp
  show "emit_flow ?doc = join_lines [emit_flow ?doc]" "[emit_flow ?doc] \<noteq> []" by simp_all
  have "meta_line (emit_flow ?doc)" by code_simp
  then show "list_all meta_line [emit_flow ?doc]" by simp
  show "yl_load (tree_yaml ?doc) (join_lines [emit_flow ?doc]) = Inr ?doc" by (simp add: tree_yaml_def)
  show "represents (tree_yaml ?doc) ?doc ?doc" by (rule tree_yaml_represents [OF meta_distinct_keys])
qed

end
