(* ===== verification/Trigger_DSO.thy ===== *)
theory Trigger_DSO
  imports Trigger_IO
begin

text \<open>
  The Trigger I/O oscilloscope: \<^verbatim>\<open>src/src/mvlc/trigger_io_dso.h\<close> and \<^verbatim>\<open>trigger_io_dso.cc\<close>, and the pins of
  \<^verbatim>\<open>trigger_io_sim_pinaddress.h\<close> and \<^verbatim>\<open>.cc\<close>. A buffer read from the module is turned to one trace of edges
  per input; the jitter of the trigger edge is removed and the traces are extended to the end of the
  measurement. Sample times are \<^verbatim>\<open>float\<close>s in the code that only hold whole numbers of nanoseconds; they are
  \<open>int\<close> here, which is exact for numbers up to \<open>2 ^ 24\<close>. The frame headers are those of the mesytec-mvlc
  library, a parameter.
\<close>

section \<open>Samples and traces\<close>

datatype Edge = Falling | Rising | Unknown

type_synonym SampleTime = int

record Sample =
  s_time :: SampleTime
  s_edge :: Edge

type_synonym Trace = "Sample list"
type_synonym Snapshot = "Trace list"

definition sample :: "SampleTime \<Rightarrow> Edge \<Rightarrow> Sample" where
  "sample t e = \<lparr>s_time = t, s_edge = e\<rparr>"

lemma sample_simps [simp]: "s_time (sample t e) = t" "s_edge (sample t e) = e"
  by (simp_all add: sample_def)

lemma sample_eq_iff [simp]: "sample t e = sample t' e' \<longleftrightarrow> t = t' \<and> e = e'"
  by (simp add: sample_def)

fun invert :: "Edge \<Rightarrow> Edge" where
  "invert Falling = Rising"
| "invert Rising = Falling"
| "invert Unknown = Unknown"

fun edge_to_string :: "Edge \<Rightarrow> string" where
  "edge_to_string Falling = ''falling''"
| "edge_to_string Rising = ''rising''"
| "edge_to_string Unknown = ''unknown''"

lemma sample_id [simp]: "sample (s_time s) (s_edge s) = s"
  by (cases s) (simp add: sample_def)

text \<open>The edge of the last sample up to \<open>t\<close>, searched from the start of the trace.\<close>

fun edge_at_from :: "Edge \<Rightarrow> Trace \<Rightarrow> SampleTime \<Rightarrow> Edge" where
  "edge_at_from result [] t = result"
| "edge_at_from result (s # ss) t = (if s_time s \<le> t then edge_at_from (s_edge s) ss t else result)"

definition edge_at :: "Trace \<Rightarrow> SampleTime \<Rightarrow> Edge" where
  "edge_at trace t = edge_at_from Falling trace t"

definition has_overflow_marker :: "Trace \<Rightarrow> bool" where
  "has_overflow_marker trace \<longleftrightarrow> trace \<noteq> [] \<and> s_time (hd trace) = 1"

section \<open>Triggers\<close>

definition UtilityUnitCount :: nat where "UtilityUnitCount = 16"
definition CombinedTriggerCount :: nat where
  "CombinedTriggerCount = NIM_IO_Count + IRQ_Inputs_Count + UtilityUnitCount"

record DSOSetup =
  preTriggerTime :: u16
  postTriggerTime :: u16
  nimTriggers :: "14 word"
  irqTriggers :: "6 word"
  utilTriggers :: "16 word"

type_synonym CombinedTriggers = "36 word"

text \<open>\<^verbatim>\<open>bitset::set(pos, value)\<close>, and the loops that copy the bits of one set to another.\<close>

definition put_bit :: "nat \<Rightarrow> bool \<Rightarrow> 'a::len word \<Rightarrow> 'a word" where
  "put_bit n b w = (if b then set_bit n w else unset_bit n w)"

definition copy_bits :: "nat \<Rightarrow> 'b::len word \<Rightarrow> nat \<Rightarrow> nat \<Rightarrow> 'a::len word \<Rightarrow> 'a word" where
  "copy_bits n src s d dst = fold (\<lambda>i w. put_bit (d + i) (bit src (s + i)) w) [0..<n] dst"

definition get_combined_triggers :: "DSOSetup \<Rightarrow> CombinedTriggers" where
  "get_combined_triggers dsoSetup =
     copy_bits UtilityUnitCount (utilTriggers dsoSetup) 0 (NIM_IO_Count + IRQ_Inputs_Count)
       (copy_bits IRQ_Inputs_Count (irqTriggers dsoSetup) 0 NIM_IO_Count
         (copy_bits NIM_IO_Count (nimTriggers dsoSetup) 0 0 0))"

definition set_combined_triggers :: "DSOSetup \<Rightarrow> CombinedTriggers \<Rightarrow> DSOSetup" where
  "set_combined_triggers dsoSetup combined = dsoSetup
     \<lparr>nimTriggers := copy_bits NIM_IO_Count combined 0 0 (nimTriggers dsoSetup),
      irqTriggers := copy_bits IRQ_Inputs_Count combined NIM_IO_Count 0 (irqTriggers dsoSetup),
      utilTriggers := copy_bits UtilityUnitCount combined (NIM_IO_Count + IRQ_Inputs_Count) 0 (utilTriggers dsoSetup)\<rparr>"

section \<open>Pins\<close>

datatype PinPosition = PinInput | PinOutput

record PinAddress =
  pa_unit :: UnitAddress
  pa_pos :: PinPosition

definition make_trace_index_to_pin_list :: "PinAddress list" where
  "make_trace_index_to_pin_list =
     map (\<lambda>i. \<lparr>pa_unit = (0, i + NIM_IO_Offset, 0), pa_pos = PinInput\<rparr>) [0..<NIM_IO_Count]
     @ map (\<lambda>i. \<lparr>pa_unit = (0, i + IRQ_Inputs_Offset, 0), pa_pos = PinInput\<rparr>) [0..<IRQ_Inputs_Count]
     @ map (\<lambda>i. \<lparr>pa_unit = (0, i, 0), pa_pos = PinInput\<rparr>) [0..<UtilityUnitCount]"

definition trace_index_to_pin_list :: "PinAddress list" where
  "trace_index_to_pin_list = make_trace_index_to_pin_list"

text \<open>The offset of an element, as \<^verbatim>\<open>std::find\<close> gives it: the length of the list when there is none.\<close>

fun find_offset :: "'a \<Rightarrow> 'a list \<Rightarrow> nat" where
  "find_offset x [] = 0"
| "find_offset x (y # ys) = (if y = x then 0 else Suc (find_offset x ys))"

definition get_trace_index :: "PinAddress \<Rightarrow> int" where
  "get_trace_index pa =
     (let i = find_offset pa trace_index_to_pin_list
      in if i = length trace_index_to_pin_list then -1 else int i)"

text \<open>\<^const>\<open>None\<close> is a failed assertion.\<close>

definition get_trigger_default_name :: "nat \<Rightarrow> string option" where
  "get_trigger_default_name combinedTriggerIndex =
     Option.bind (at_opt trace_index_to_pin_list combinedTriggerIndex) (\<lambda>pa.
       case pa_unit pa of (level, unit, _) \<Rightarrow>
         if get_trace_index pa = int combinedTriggerIndex \<and> level = 0
         then at_opt L0_DefaultUnitNames unit else None)"

fun pin_path_list_of :: "TriggerIO \<Rightarrow> UnitAddress \<Rightarrow> PinPosition \<Rightarrow> string list" where
  "pin_path_list_of cfg (level, unit, pin) pos =
     (if level = 0
      then [if pos = PinInput then ''sampled'' else ''L0'', lookup_default_name cfg (level, unit, pin)]
      else if level = 1 \<or> level = 2
      then [''L'' @ show_dec level, ''LUT'' @ show_dec unit,
            if pos = PinInput then (if pin < InputBits then ''in'' @ show_dec pin else ''strobeIn'')
            else (if pin < OutputBits then ''out'' @ show_dec pin else ''strobeOut'')]
      else if level = 3
      then [if pos = PinInput then ''L3in'' else ''L3out'', lookup_default_name cfg (level, unit, pin)]
      else [])"

definition pin_path_list :: "TriggerIO \<Rightarrow> PinAddress \<Rightarrow> string list" where
  "pin_path_list cfg pa = pin_path_list_of cfg (pa_unit pa) (pa_pos pa)"

definition pin_path :: "TriggerIO \<Rightarrow> PinAddress \<Rightarrow> string" where
  "pin_path cfg pa = join_with ''.'' (pin_path_list cfg pa)"

definition pin_name :: "TriggerIO \<Rightarrow> PinAddress \<Rightarrow> string" where
  "pin_name cfg pa = (let parts = pin_path_list cfg pa in if parts \<noteq> [] then last parts else ''<pinName>'')"

definition static_connection :: "UnitConnection list list \<Rightarrow> nat \<Rightarrow> nat \<Rightarrow> UnitConnection option" where
  "static_connection table unit input = Option.bind (at_opt table unit) (\<lambda>cs. at_opt cs input)"

fun pin_user_name_of :: "TriggerIO \<Rightarrow> UnitAddress \<Rightarrow> PinPosition \<Rightarrow> string option" where
  "pin_user_name_of cfg (level, unit, pin) pos =
     (if level = 0 then lookup_name cfg (level, unit, pin)
      else if level = 1
      then (if pos = PinOutput then lookup_name cfg (level, unit, pin)
            else Option.bind (static_connection L1_StaticConnections unit pin)
                   (\<lambda>con. lookup_name cfg (connection_address con)))
      else if level = 2
      then (if pos = PinOutput
            then (if pin < OutputBits then lookup_name cfg (level, unit, pin) else Some [])
            else Option.bind (static_connection L2_StaticConnections unit pin)
                   (\<lambda>con. if con \<noteq> Dynamic then lookup_name cfg (connection_address con)
                     else Option.bind (get_connection_unit_address cfg (level, unit, pin)) (lookup_name cfg)))
      else if level = 3
      then (if pos = PinOutput then lookup_name cfg (level, unit, pin)
            else Option.bind (get_connection_unit_address cfg (level, unit, pin)) (lookup_name cfg))
      else Some ''<pinUserName>'')"

definition pin_user_name :: "TriggerIO \<Rightarrow> PinAddress \<Rightarrow> string option" where
  "pin_user_name cfg pa = pin_user_name_of cfg (pa_unit pa) (pa_pos pa)"

section \<open>The buffer format\<close>

definition AddressMask :: u32 where "AddressMask = 0x3F"
definition AddressShift :: nat where "AddressShift = 17"
definition EdgeMask :: u32 where "EdgeMask = 1"
definition EdgeShift :: nat where "EdgeShift = 16"
definition TimeMask :: u32 where "TimeMask = 0xFFFF"
definition TimeShift :: nat where "TimeShift = 0"
definition Header :: u32 where "Header = 0x40000000"
definition EoE :: u32 where "EoE = 0xC0000000"

text \<open>\<^verbatim>\<open>mvlc::get_frame_type\<close> and the values of \<^verbatim>\<open>mvlc::frame_headers\<close>.\<close>

record FrameHeaders =
  get_frame_type :: "u32 \<Rightarrow> u8"
  StackFrame :: u8
  StackContinuation :: u8
  BlockRead :: u8

record DSOBufferEntry =
  e_address :: u8
  e_edge :: Edge
  e_time :: u16

definition extract_dso_entry :: "u32 \<Rightarrow> DSOBufferEntry" where
  "extract_dso_entry dataWord =
    \<lparr>e_address = ucast (drop_bit AddressShift dataWord AND AddressMask),
     e_edge = (if drop_bit EdgeShift dataWord AND EdgeMask = 0 then Falling else Rising),
     e_time = ucast (drop_bit TimeShift dataWord AND TimeMask)\<rparr>"

definition embedded_frame :: "FrameHeaders \<Rightarrow> u32 \<Rightarrow> bool" where
  "embedded_frame fr word \<longleftrightarrow>
     (let ft = get_frame_type fr word in ft = StackFrame fr \<or> ft = StackContinuation fr \<or> ft = BlockRead fr)"

text \<open>\<^verbatim>\<open>vector::resize\<close> of a vector of traces.\<close>

definition resize :: "nat \<Rightarrow> Snapshot \<Rightarrow> Snapshot" where
  "resize n traces = take n traces @ replicate (n - length traces) []"

definition fill_step :: "FrameHeaders \<Rightarrow> u32 \<Rightarrow> Snapshot \<Rightarrow> Snapshot" where
  "fill_step fr word result =
     (if embedded_frame fr word then result
      else
        (let entry = extract_dso_entry word;
             address = unat (e_address entry);
             grown = (if length result \<le> address then resize (address + 1) result else result)
         in grown[address := grown ! address @ [sample (uint (e_time entry)) (e_edge entry)]]))"

definition fill_snapshot_from_dso_buffer :: "FrameHeaders \<Rightarrow> u32 list \<Rightarrow> Snapshot" where
  "fill_snapshot_from_dso_buffer fr buffer =
     (if length buffer < 2 + 2 then []
      else if get_frame_type fr (buffer ! 0) \<noteq> StackFrame fr \<or> get_frame_type fr (buffer ! 1) \<noteq> BlockRead fr then []
      else if buffer ! 2 \<noteq> Header then []
      else if buffer ! (length buffer - 1) \<noteq> EoE then []
      else fold (fill_step fr) (map ((!) buffer) [3..<length buffer - 1]) [])"

section \<open>Jitter correction\<close>

text \<open>The conversion of a sample time to \<^verbatim>\<open>unsigned\<close> is undefined out of the range of the type. The
  outer \<^const>\<open>None\<close> stands for that, the inner one for a trace without the trigger edge.\<close>

fun trace_jitter :: "int \<Rightarrow> Trace \<Rightarrow> int option option" where
  "trace_jitter maskedPreTrig [] = Some None"
| "trace_jitter maskedPreTrig (s # ss) =
     (if s_edge s = Rising
      then (if s_time s < 0 \<or> 2 ^ 32 \<le> s_time s then None
            else if maskedPreTrig = (s_time s AND NOT 7) then Some (Some (s_time s AND 7))
            else trace_jitter maskedPreTrig ss)
      else trace_jitter maskedPreTrig ss)"

fun jitter_loop :: "CombinedTriggers \<Rightarrow> int \<Rightarrow> nat \<Rightarrow> Snapshot \<Rightarrow> (int \<times> bool) option" where
  "jitter_loop triggers maskedPreTrig traceIdx [] = Some (0, False)"
| "jitter_loop triggers maskedPreTrig traceIdx (trace # traces) =
     (if \<not> traceIdx < CombinedTriggerCount then Some (0, False)
      else if \<not> bit triggers traceIdx then jitter_loop triggers maskedPreTrig (traceIdx + 1) traces
      else case trace_jitter maskedPreTrig trace of
             None \<Rightarrow> None
           | Some None \<Rightarrow> jitter_loop triggers maskedPreTrig (traceIdx + 1) traces
           | Some (Some j) \<Rightarrow> Some (j, True))"

definition calculate_jitter_value :: "Snapshot \<Rightarrow> DSOSetup \<Rightarrow> (int \<times> bool) option" where
  "calculate_jitter_value snapshot dsoSetup =
     jitter_loop (get_combined_triggers dsoSetup) (uint (preTriggerTime dsoSetup) AND NOT 7) 0 snapshot"

text \<open>The first sample is never corrected.\<close>

fun correct_trace :: "int \<Rightarrow> Trace \<Rightarrow> Trace" where
  "correct_trace jitter [] = []"
| "correct_trace jitter (s # ss) =
     s # map (\<lambda>s. if s_time s \<noteq> 0 then s\<lparr>s_time := s_time s - jitter\<rparr> else s) ss"

definition extend_trace_to :: "SampleTime \<Rightarrow> Trace \<Rightarrow> Trace" where
  "extend_trace_to extendTo trace =
     (if trace = [] then trace
      else if s_time (last trace) < extendTo
      then (if has_overflow_marker trace
            then trace @ [sample (s_time (last trace)) Unknown, sample extendTo Unknown]
            else trace @ [sample extendTo (s_edge (last trace))])
      else trace)"

definition pre_process_dso_snapshot :: "Snapshot \<Rightarrow> DSOSetup \<Rightarrow> Snapshot option" where
  "pre_process_dso_snapshot snapshot dsoSetup =
     map_option
       (\<lambda>(jitter, _).
         map (extend_trace_to (uint (preTriggerTime dsoSetup) + uint (postTriggerTime dsoSetup)))
           (if jitter \<noteq> 0 then map (correct_trace jitter) snapshot else snapshot))
       (calculate_jitter_value snapshot dsoSetup)"


section \<open>Lemmas on the helpers\<close>

lemma bit_put_bit:
  "bit (put_bit n b w) j \<longleftrightarrow> (if j = n then n < LENGTH('a) \<and> b else bit w j)" for w :: "'a::len word"
  by (auto simp: put_bit_def bit_set_bit_iff bit_unset_bit_iff possible_bit_word dest: bit_imp_le_length)

lemma bit_copy_bits:
  "bit (copy_bits n src s d dst) j \<longleftrightarrow>
     (if d \<le> j \<and> j < d + n then j < LENGTH('a) \<and> bit src (s + (j - d)) else bit dst j)"
  for dst :: "'a::len word"
  unfolding copy_bits_def by (induction n) (auto simp: bit_put_bit)

lemma find_offset_nth: "distinct xs \<Longrightarrow> i < length xs \<Longrightarrow> find_offset (xs ! i) xs = i"
proof (induction xs arbitrary: i)
  case (Cons x xs)
  then show ?case by (cases i) auto
qed simp

lemma find_offset_absent: "x \<notin> set xs \<Longrightarrow> find_offset x xs = length xs"
  by (induction xs) auto

lemma trace_index_list:
  "trace_index_to_pin_list =
     map (\<lambda>u. \<lparr>pa_unit = (0, u, 0), pa_pos = PinInput\<rparr>) ([16..<30] @ [33..<39] @ [0..<16])"
proof -
  have "map (\<lambda>i. f (i + n)) [0..<m] = map f [n..<n + m]" for f :: "nat \<Rightarrow> PinAddress" and n m
    by (rule nth_equalityI) (simp_all add: add.commute)
  from this [of "\<lambda>u. \<lparr>pa_unit = (0, u, 0), pa_pos = PinInput\<rparr>"] show ?thesis
    unfolding trace_index_to_pin_list_def make_trace_index_to_pin_list_def map_append
    by (simp only: io_counts UtilityUnitCount_def) simp
qed

lemma trace_index_length: "length trace_index_to_pin_list = 36"
  by (simp add: trace_index_list)

lemma trace_index_distinct: "distinct trace_index_to_pin_list"
  unfolding trace_index_list distinct_map by (auto simp: inj_on_def)

lemma trace_index_nth:
  "i < 36 \<Longrightarrow> trace_index_to_pin_list ! i =
    \<lparr>pa_unit = (0, if i < 14 then i + 16 else if i < 20 then i + 19 else i - 20, 0), pa_pos = PinInput\<rparr>"
  by (auto simp: trace_index_list nth_append simp del: upt_rec_numeral)

lemma get_trace_index_nth: "i < 36 \<Longrightarrow> get_trace_index (trace_index_to_pin_list ! i) = int i"
  using find_offset_nth [OF trace_index_distinct, of i]
  by (simp add: get_trace_index_def trace_index_length)

lemma get_trace_index_iff:
  "get_trace_index pa = int i \<longleftrightarrow> i < 36 \<and> pa = trace_index_to_pin_list ! i"
proof
  assume i: "get_trace_index pa = int i"
  show "i < 36 \<and> pa = trace_index_to_pin_list ! i"
  proof (cases "pa \<in> set trace_index_to_pin_list")
    case True
    then obtain j where "j < 36" "pa = trace_index_to_pin_list ! j"
      by (metis in_set_conv_nth trace_index_length)
    with i get_trace_index_nth [of j] show ?thesis by simp
  next
    case False
    with i show ?thesis by (simp add: get_trace_index_def find_offset_absent)
  qed
qed (use get_trace_index_nth in simp)

lemma L0_names_length: "length L0_DefaultUnitNames = 39"
  by (simp add: L0_DefaultUnitNames_def)

text \<open>The trigger bits, the traces of a snapshot and the pins of level 0 are numbered alike. Writing
  the combined trigger bits and reading them back, in either order, changes nothing; every one of the 36
  trace numbers has its own pin and a default name.\<close>

theorem combined_triggers_roundtrip:
  "get_combined_triggers (set_combined_triggers dsoSetup combined) = combined
    \<and> set_combined_triggers dsoSetup (get_combined_triggers dsoSetup) = dsoSetup
    \<and> bit (get_combined_triggers dsoSetup) i =
        (if i < 14 then bit (nimTriggers dsoSetup) i else if i < 20 then bit (irqTriggers dsoSetup) (i - 14)
         else if i < 36 then bit (utilTriggers dsoSetup) (i - 20) else False)
    \<and> (get_trace_index pa = int i \<longleftrightarrow> i < 36 \<and> pa = trace_index_to_pin_list ! i)
    \<and> (get_trigger_default_name i = None \<longleftrightarrow> \<not> i < 36)"
proof -
  have bits: "bit (get_combined_triggers st) j =
      (if j < 14 then bit (nimTriggers st) j else if j < 20 then bit (irqTriggers st) (j - 14)
       else if j < 36 then bit (utilTriggers st) (j - 20) else False)" for st j
    by (auto simp: get_combined_triggers_def bit_copy_bits io_counts UtilityUnitCount_def)
  have 1: "get_combined_triggers (set_combined_triggers dsoSetup combined) = combined"
  proof (rule word_eqI_bits)
    fix j :: nat
    assume "j < LENGTH(36)"
    then show "bit (get_combined_triggers (set_combined_triggers dsoSetup combined)) j = bit combined j"
      unfolding bits by (auto simp: set_combined_triggers_def bit_copy_bits io_counts UtilityUnitCount_def)
  qed
  have "copy_bits NIM_IO_Count (get_combined_triggers dsoSetup) 0 0 (nimTriggers dsoSetup) = nimTriggers dsoSetup"
    "copy_bits IRQ_Inputs_Count (get_combined_triggers dsoSetup) NIM_IO_Count 0 (irqTriggers dsoSetup)
      = irqTriggers dsoSetup"
    "copy_bits UtilityUnitCount (get_combined_triggers dsoSetup) (NIM_IO_Count + IRQ_Inputs_Count) 0
      (utilTriggers dsoSetup) = utilTriggers dsoSetup"
    by (rule word_eqI_bits; auto simp: bit_copy_bits bits io_counts UtilityUnitCount_def)+
  then have 2: "set_combined_triggers dsoSetup (get_combined_triggers dsoSetup) = dsoSetup"
    by (simp add: set_combined_triggers_def)
  have "get_trigger_default_name i \<noteq> None" if "i < 36"
  proof -
    have "at_opt trace_index_to_pin_list i = Some (trace_index_to_pin_list ! i)"
      using that by (simp add: trace_index_length)
    then show ?thesis
      using that get_trace_index_nth [OF that]
      by (simp add: get_trigger_default_name_def) (simp add: trace_index_nth L0_names_length)
  qed
  moreover have "get_trigger_default_name i = None" if "\<not> i < 36"
    using that by (simp add: get_trigger_default_name_def trace_index_length)
  ultimately show ?thesis using 1 2 bits get_trace_index_iff by blast
qed

section \<open>The words of a buffer\<close>

definition entry_word :: "DSOBufferEntry \<Rightarrow> u32" where
  "entry_word e = push_bit 17 (ucast (e_address e)) OR push_bit 16 (of_bool (e_edge e = Rising)) OR ucast (e_time e)"

definition entry_ok :: "DSOBufferEntry \<Rightarrow> bool" where
  "entry_ok e \<longleftrightarrow> unat (e_address e) < 64 \<and> e_edge e \<noteq> Unknown"

text \<open>The documented frame headers: the type is the top byte of a word.\<close>

definition documented_headers :: "FrameHeaders \<Rightarrow> bool" where
  "documented_headers fr \<longleftrightarrow> StackFrame fr = 0xF3 \<and> StackContinuation fr = 0xF9 \<and> BlockRead fr = 0xF5
     \<and> get_frame_type fr = (\<lambda>w. ucast (drop_bit 24 w))"

definition mvlc_headers :: FrameHeaders where
  "mvlc_headers = \<lparr>get_frame_type = (\<lambda>w. ucast (drop_bit 24 w)), StackFrame = 0xF3, StackContinuation = 0xF9,
     BlockRead = 0xF5\<rparr>"

lemma mvlc_headers_documented: "documented_headers mvlc_headers"
  by (simp add: documented_headers_def mvlc_headers_def)

definition entry_sample :: "DSOBufferEntry \<Rightarrow> Sample" where
  "entry_sample e = sample (uint (e_time e)) (e_edge e)"

definition channel :: "nat \<Rightarrow> DSOBufferEntry list \<Rightarrow> Trace" where
  "channel a es = map entry_sample (filter (\<lambda>e. unat (e_address e) = a) es)"

definition channel_count :: "DSOBufferEntry list \<Rightarrow> nat" where
  "channel_count es = fold max (map (\<lambda>e. unat (e_address e) + 1) es) 0"

definition channels :: "DSOBufferEntry list \<Rightarrow> Snapshot" where
  "channels es = map (\<lambda>a. channel a es) [0..<channel_count es]"

lemma bit_mask_numerals:
  "bit (0x3F :: u32) i \<longleftrightarrow> i < 6" "bit (0xFFFF :: u32) i \<longleftrightarrow> i < 16" "bit (1 :: u32) i \<longleftrightarrow> i = 0"
proof -
  have m: "(0x3F :: u32) = mask 6" "(0xFFFF :: u32) = mask 16" by (simp_all add: mask_eq_exp_minus_1)
  show "bit (0x3F :: u32) i \<longleftrightarrow> i < 6" "bit (0xFFFF :: u32) i \<longleftrightarrow> i < 16"
    unfolding m by (auto simp: bit_mask_iff)
  show "bit (1 :: u32) i \<longleftrightarrow> i = 0" by (simp add: bit_1_iff)
qed

lemma address_bits: "unat (a :: u8) < 64 \<Longrightarrow> bit a i \<Longrightarrow> i < 6"
proof (rule ccontr)
  assume a: "unat a < 64" "bit a i" "\<not> i < 6"
  then have "unat a < 2 ^ i" using power_increasing [of 6 i "2 :: nat"] by simp
  then have "\<not> bit (unat a) i" by (simp add: bit_iff_odd)
  with a(2) show False by (simp add: bit_unsigned_iff)
qed

lemma bit_entry_word:
  assumes "entry_ok e"
  shows "bit (entry_word e) i \<longleftrightarrow>
    (if i < 16 then bit (e_time e) i else if i = 16 then e_edge e = Rising else bit (e_address e) (i - 17))"
proof -
  have "\<not> bit (e_time e) i" if "16 \<le> i" using that by simp
  moreover have "i < 32" if "bit (e_address e) (i - 17)" "16 < i"
    using address_bits [of "e_address e" "i - 17"] that assms by (simp add: entry_ok_def)
  ultimately show ?thesis
    by (auto simp: entry_word_def bit_or_iff bit_push_bit_iff bit_unsigned_iff possible_bit_word bit_1_iff)
qed

lemma extract_entry_word:
  assumes "entry_ok e"
  shows "extract_dso_entry (entry_word e) = e"
proof -
  have "ucast (drop_bit AddressShift (entry_word e) AND AddressMask) = e_address e"
  proof (rule word_eqI_bits)
    fix i :: nat
    assume "i < LENGTH(8)"
    have "bit (e_address e) i \<Longrightarrow> i < 6" using address_bits assms unfolding entry_ok_def by blast
    then show "bit (ucast (drop_bit AddressShift (entry_word e) AND AddressMask) :: u8) i = bit (e_address e) i"
      using \<open>i < LENGTH(8)\<close> unfolding AddressMask_def bit_unsigned_iff bit_and_iff bit_mask_numerals
      by (auto simp: bit_drop_bit_eq AddressShift_def bit_entry_word [OF assms])
  qed
  moreover have "ucast (drop_bit TimeShift (entry_word e) AND TimeMask) = e_time e"
    unfolding TimeMask_def
    by (rule word_eqI_bits, unfold bit_unsigned_iff bit_and_iff bit_mask_numerals)
      (auto simp: bit_drop_bit_eq TimeShift_def bit_entry_word [OF assms])
  moreover have "drop_bit EdgeShift (entry_word e) AND EdgeMask = of_bool (e_edge e = Rising)"
    by (rule word_eqI_bits) (auto simp: bit_and_iff bit_drop_bit_eq EdgeShift_def EdgeMask_def bit_1_iff
        bit_entry_word [OF assms])
  ultimately show ?thesis
    using assms unfolding extract_dso_entry_def by (cases "e_edge e") (simp_all add: entry_ok_def)
qed

lemma entry_word_no_frame:
  assumes "documented_headers fr" "entry_ok e"
  shows "\<not> embedded_frame fr (entry_word e)"
proof -
  have "drop_bit 24 (entry_word e) = 0"
  proof (rule word_eqI_bits)
    fix i :: nat
    show "bit (drop_bit 24 (entry_word e)) i = bit (0 :: u32) i"
      using address_bits [of "e_address e" "24 + i - 17"] assms(2)
      by (auto simp: bit_drop_bit_eq bit_entry_word [OF assms(2)] entry_ok_def)
  qed
  then show ?thesis using assms(1) by (simp add: documented_headers_def embedded_frame_def Let_def)
qed

definition add_entry :: "DSOBufferEntry \<Rightarrow> Snapshot \<Rightarrow> Snapshot" where
  "add_entry e traces =
     (let a = unat (e_address e); grown = (if length traces \<le> a then resize (a + 1) traces else traces)
      in grown[a := grown ! a @ [entry_sample e]])"

lemma fill_entries:
  "fold (fill_step fr) ws traces
   = fold add_entry (map extract_dso_entry (filter (\<lambda>w. \<not> embedded_frame fr w) ws)) traces"
  by (induction ws arbitrary: traces) (simp_all add: fill_step_def add_entry_def entry_sample_def Let_def)

lemma channel_count_snoc: "channel_count (es @ [e]) = max (unat (e_address e) + 1) (channel_count es)"
  by (simp add: channel_count_def)

lemma channel_beyond: "channel_count es \<le> a \<Longrightarrow> channel a es = []"
proof (induction es rule: rev_induct)
  case (snoc e es)
  then show ?case by (auto simp: channel_count_snoc channel_def)
qed (simp add: channel_def)

lemma add_entry_length: "length (add_entry e traces) = max (unat (e_address e) + 1) (length traces)"
  by (auto simp: add_entry_def resize_def Let_def)

lemma add_entry_nth:
  "i < max (unat (e_address e) + 1) (length traces) \<Longrightarrow>
   add_entry e traces ! i = (if i < length traces then traces ! i else [])
     @ (if i = unat (e_address e) then [entry_sample e] else [])"
  by (auto simp: add_entry_def resize_def nth_append Let_def nth_list_update)

lemma add_entry_channels: "add_entry e (channels es) = channels (es @ [e])"
proof (rule nth_equalityI)
  show "length (add_entry e (channels es)) = length (channels (es @ [e]))"
    by (simp add: add_entry_length) (simp add: channels_def channel_count_snoc)
  fix i
  assume "i < length (add_entry e (channels es))"
  then have i: "i < max (unat (e_address e) + 1) (channel_count es)"
    by (simp add: add_entry_length channels_def)
  then have "add_entry e (channels es) ! i = channel i es @ (if i = unat (e_address e) then [entry_sample e] else [])"
    using add_entry_nth [of i e "channels es"] channel_beyond [of es i] by (auto simp: channels_def)
  also have "\<dots> = channel i (es @ [e])" by (simp add: channel_def)
  finally show "add_entry e (channels es) ! i = channels (es @ [e]) ! i"
    using i by (simp add: channels_def channel_count_snoc)
qed

lemma add_entries: "fold add_entry es [] = channels es"
proof (induction es rule: rev_induct)
  case Nil
  show ?case by (simp add: channels_def channel_count_def)
next
  case (snoc e es)
  then show ?case by (simp add: add_entry_channels)
qed

lemma nth_middle: "map ((!) (xs @ ws @ zs)) [length xs..<length xs + length ws] = ws"
  by (rule nth_equalityI) (simp_all add: nth_append)

lemma middle_of_buffer:
  "map ((!) (a # b # c # ws @ [d])) [3..<length (a # b # c # ws @ [d]) - 1] = ws"
  using nth_middle [of "[a, b, c]" ws "[d]"] by (simp add: numeral_3_eq_3 del: upt_Suc)

text \<open>C31: reading a buffer undoes writing it. A buffer of a stack frame, a block frame, the header word,
  the words of some entries with frame headers embedded anywhere between them and the end word is turned
  to one trace per channel, which holds the samples of the channel in the order of the buffer; the number
  of traces is one more than the largest channel. Every buffer that gives any trace at all has this shape.\<close>

theorem dso_buffer_traces:
  assumes "documented_headers fr" "get_frame_type fr stack = StackFrame fr" "get_frame_type fr block = BlockRead fr"
    and "list_all entry_ok es" "filter (\<lambda>w. \<not> embedded_frame fr w) ws = map entry_word es"
  shows "fill_snapshot_from_dso_buffer fr ([stack, block, Header] @ ws @ [EoE]) = channels es
    \<and> (fill_snapshot_from_dso_buffer fr buffer \<noteq> [] \<longrightarrow>
        (\<exists>stack' block' ws'. buffer = [stack', block', Header] @ ws' @ [EoE]
          \<and> get_frame_type fr stack' = StackFrame fr \<and> get_frame_type fr block' = BlockRead fr))"
proof
  have "map extract_dso_entry (map entry_word es) = es"
    using assms(4) by (simp add: comp_def list_all_iff extract_entry_word map_idI)
  then show "fill_snapshot_from_dso_buffer fr ([stack, block, Header] @ ws @ [EoE]) = channels es"
    using assms(2,3,5) middle_of_buffer [of stack block Header ws EoE]
    by (simp add: fill_snapshot_from_dso_buffer_def fill_entries add_entries nth_append)
  show "fill_snapshot_from_dso_buffer fr buffer \<noteq> [] \<longrightarrow>
        (\<exists>stack' block' ws'. buffer = [stack', block', Header] @ ws' @ [EoE]
          \<and> get_frame_type fr stack' = StackFrame fr \<and> get_frame_type fr block' = BlockRead fr)"
  proof
    assume ne: "fill_snapshot_from_dso_buffer fr buffer \<noteq> []"
    then have size: "4 \<le> length buffer" and parts: "get_frame_type fr (buffer ! 0) = StackFrame fr"
      "get_frame_type fr (buffer ! 1) = BlockRead fr" "buffer ! 2 = Header" "buffer ! (length buffer - 1) = EoE"
      by (auto simp: fill_snapshot_from_dso_buffer_def split: if_splits)
    then obtain a b c rest where b: "buffer = a # b # c # rest" "rest \<noteq> []"
      by (cases buffer; cases "tl buffer"; cases "tl (tl buffer)"; cases "tl (tl (tl buffer))") auto
    then obtain ws' d where "rest = ws' @ [d]" by (cases rest rule: rev_cases) auto
    with b parts show "\<exists>stack' block' ws'. buffer = [stack', block', Header] @ ws' @ [EoE]
          \<and> get_frame_type fr stack' = StackFrame fr \<and> get_frame_type fr block' = BlockRead fr"
      by (auto simp: nth_append)
  qed
qed

definition example_entries :: "DSOBufferEntry list" where
  "example_entries = [\<lparr>e_address = 2, e_edge = Falling, e_time = 0\<rparr>, \<lparr>e_address = 0, e_edge = Rising, e_time = 7\<rparr>,
     \<lparr>e_address = 2, e_edge = Rising, e_time = 123\<rparr>]"

theorem dso_buffer_traces_witness:
  "fill_snapshot_from_dso_buffer mvlc_headers
     ([0xF3000006, 0xF5000005, Header] @ [entry_word (example_entries ! 0), entry_word (example_entries ! 1), 0xF9000001,
       entry_word (example_entries ! 2)] @ [EoE]) = channels example_entries"
proof (rule conjunct1 [OF dso_buffer_traces [where buffer = "[]", OF mvlc_headers_documented]])
  have ok: "list_all entry_ok example_entries" by code_simp
  then show "list_all entry_ok example_entries" .
  have "\<not> embedded_frame mvlc_headers (entry_word e)" if "e \<in> set example_entries" for e
    using ok that entry_word_no_frame [OF mvlc_headers_documented] by (simp add: list_all_iff)
  moreover have "embedded_frame mvlc_headers 0xF9000001" by code_simp
  ultimately show "filter (\<lambda>w. \<not> embedded_frame mvlc_headers w)
      [entry_word (example_entries ! 0), entry_word (example_entries ! 1), 0xF9000001, entry_word (example_entries ! 2)]
    = map entry_word example_entries"
    by (simp add: example_entries_def)
qed (simp_all add: mvlc_headers_def)

section \<open>The trigger edge\<close>

lemma low_bits:
  fixes t :: int
  shows "t AND 7 = t mod 8" "t AND - 8 = t div 8 * 8"
proof -
  have m: "(7 :: int) = mask 3" by (simp add: mask_eq_exp_minus_1)
  show "t AND 7 = t mod 8" unfolding m take_bit_eq_mask [symmetric] by (simp add: take_bit_eq_mod)
  have "t AND NOT 7 = push_bit 3 (drop_bit 3 t)" unfolding m
    by (rule bit_eqI) (auto simp: bit_and_iff bit_not_iff bit_mask_iff bit_push_bit_iff bit_drop_bit_eq)
  then show "t AND - 8 = t div 8 * 8" by (simp add: push_bit_eq_mult drop_bit_eq_div)
qed

definition trigger_edge :: "Snapshot \<Rightarrow> DSOSetup \<Rightarrow> nat \<Rightarrow> nat \<Rightarrow> bool" where
  "trigger_edge snapshot dsoSetup i k \<longleftrightarrow>
     i < length snapshot \<and> bit (get_combined_triggers dsoSetup) i \<and> k < length (snapshot ! i)
     \<and> s_edge (snapshot ! i ! k) = Rising
     \<and> s_time (snapshot ! i ! k) div 8 = uint (preTriggerTime dsoSetup) div 8"

definition times_in_range :: "Snapshot \<Rightarrow> bool" where
  "times_in_range snapshot \<longleftrightarrow> list_all (list_all (\<lambda>s. 0 \<le> s_time s \<and> s_time s < 2 ^ 16)) snapshot"

lemma trace_jitter_spec:
  assumes "list_all (\<lambda>s. 0 \<le> s_time s \<and> s_time s < 2 ^ 16) trace"
  shows "trace_jitter (p AND NOT 7) trace =
     Some (map_option (\<lambda>s. s_time s mod 8) (find (\<lambda>s. s_edge s = Rising \<and> s_time s div 8 = p div 8) trace))"
  using assms by (induction trace) (auto simp: low_bits)

lemma find_append: "find P (xs @ ys) = (case find P xs of None \<Rightarrow> find P ys | Some x \<Rightarrow> Some x)"
  by (induction xs) auto

text \<open>All samples of the traces that may trigger, in the order they are looked at.\<close>

definition trigger_samples :: "CombinedTriggers \<Rightarrow> nat \<Rightarrow> Snapshot \<Rightarrow> Sample list" where
  "trigger_samples triggers n snapshot = concat (map snd (filter (\<lambda>(i, _). bit triggers i) (indexed n snapshot)))"

lemma trigger_samples_beyond: "36 \<le> n \<Longrightarrow> trigger_samples triggers n snapshot = []"
proof -
  assume "36 \<le> n"
  then show ?thesis by (auto simp: trigger_samples_def set_indexed)
qed

lemma trigger_samples_Cons:
  "trigger_samples triggers n (trace # traces) =
     (if bit triggers n then trace else []) @ trigger_samples triggers (Suc n) traces"
  by (simp add: trigger_samples_def)

lemma jitter_loop_spec:
  assumes "times_in_range snapshot"
  shows "jitter_loop triggers (p AND NOT 7) n snapshot =
    Some (case find (\<lambda>s. s_edge s = Rising \<and> s_time s div 8 = p div 8) (trigger_samples triggers n snapshot) of
      None \<Rightarrow> (0, False) | Some s \<Rightarrow> (s_time s mod 8, True))"
  using assms
proof (induction snapshot arbitrary: n)
  case Nil
  show ?case by (simp add: trigger_samples_def)
next
  case (Cons trace traces)
  then have t: "trace_jitter (p AND NOT 7) trace =
     Some (map_option (\<lambda>s. s_time s mod 8) (find (\<lambda>s. s_edge s = Rising \<and> s_time s div 8 = p div 8) trace))"
    and r: "times_in_range traces"
    using trace_jitter_spec [of trace p] by (simp_all add: times_in_range_def)
  show ?case
  proof (cases "n < 36")
    case True
    then show ?thesis
      using Cons.IH [OF r, of "Suc n"] t
      by (auto simp: trigger_samples_Cons find_append CombinedTriggerCount_def UtilityUnitCount_def io_counts split: option.splits)
  next
    case False
    then show ?thesis
      using trigger_samples_beyond [of n triggers "trace # traces"]
      by (simp add: CombinedTriggerCount_def UtilityUnitCount_def io_counts)
  qed
qed

lemma trigger_samples_iff:
  "(\<exists>s \<in> set (trigger_samples (get_combined_triggers dsoSetup) 0 snapshot).
      s_edge s = Rising \<and> s_time s div 8 = uint (preTriggerTime dsoSetup) div 8 \<and> Q s)
   \<longleftrightarrow> (\<exists>i k. trigger_edge snapshot dsoSetup i k \<and> Q (snapshot ! i ! k))"
proof -
  have "s \<in> set (trigger_samples triggers 0 snapshot) \<longleftrightarrow>
      (\<exists>i k. i < length snapshot \<and> bit triggers i \<and> k < length (snapshot ! i) \<and> s = snapshot ! i ! k)"
    for s triggers
    unfolding trigger_samples_def by (fastforce simp: set_indexed in_set_conv_nth)
  then show ?thesis unfolding trigger_edge_def Bex_def by (auto 0 3)
qed

section \<open>Correction and extension\<close>

lemma correct_trace_length [simp]: "length (correct_trace j trace) = length trace"
  by (cases trace) auto

lemma correct_trace_nth:
  "k < length trace \<Longrightarrow> correct_trace j trace ! k =
     (trace ! k)\<lparr>s_time := s_time (trace ! k) - (if k = 0 \<or> s_time (trace ! k) = 0 then 0 else j)\<rparr>"
  by (cases trace) (auto simp: nth_Cons split: nat.split)

lemma correct_trace_0: "correct_trace 0 trace = trace"
  by (cases trace) (auto intro: map_idI)

lemma extend_trace_nth: "k < length trace \<Longrightarrow> extend_trace_to t trace ! k = trace ! k"
  and extend_trace_length: "length trace \<le> length (extend_trace_to t trace)"
  and extend_trace_last: "trace \<noteq> [] \<Longrightarrow> t \<le> s_time (last (extend_trace_to t trace))"
  by (auto simp: extend_trace_to_def nth_append)

lemma pre_process_eq:
  assumes "times_in_range snapshot"
  shows "pre_process_dso_snapshot snapshot dsoSetup = Some (map
      (extend_trace_to (uint (preTriggerTime dsoSetup) + uint (postTriggerTime dsoSetup))
        \<circ> correct_trace (fst (the (calculate_jitter_value snapshot dsoSetup)))) snapshot)"
  using jitter_loop_spec [OF assms, of "get_combined_triggers dsoSetup" "uint (preTriggerTime dsoSetup)" 0]
  by (auto simp: pre_process_dso_snapshot_def calculate_jitter_value_def correct_trace_0 split: option.split)

text \<open>On every snapshot the oscilloscope can deliver the correction is defined. It finds a jitter exactly
  if some trigger trace has a rising edge in the eight nanoseconds of the trigger time, and the jitter is the
  offset of such an edge. All traces keep their samples and edges; the first sample and samples at time 0 keep
  their times, all others move by the jitter, which puts the trigger edge on the masked trigger time unless it
  is the first sample of its trace; no trace that has a sample ends before the end of the measurement.\<close>

theorem jitter_correction:
  assumes "times_in_range snapshot"
  shows "\<exists>j found out. calculate_jitter_value snapshot dsoSetup = Some (j, found)
    \<and> pre_process_dso_snapshot snapshot dsoSetup = Some out \<and> 0 \<le> j \<and> j < 8 \<and> length out = length snapshot
    \<and> (found \<longleftrightarrow> (\<exists>i k. trigger_edge snapshot dsoSetup i k))
    \<and> (\<forall>i < length snapshot.
        (\<forall>k < length (snapshot ! i). out ! i ! k = sample
           (s_time (snapshot ! i ! k) - (if k = 0 \<or> s_time (snapshot ! i ! k) = 0 then 0 else j))
           (s_edge (snapshot ! i ! k)))
        \<and> (snapshot ! i \<noteq> [] \<longrightarrow>
            uint (preTriggerTime dsoSetup) + uint (postTriggerTime dsoSetup) \<le> s_time (last (out ! i))))
    \<and> (found \<longrightarrow> (\<exists>i k. trigger_edge snapshot dsoSetup i k
        \<and> (k \<noteq> 0 \<longrightarrow> s_time (out ! i ! k) = uint (preTriggerTime dsoSetup) div 8 * 8)))"
proof -
  let ?pre = "uint (preTriggerTime dsoSetup)" and ?post = "uint (postTriggerTime dsoSetup)"
  let ?P = "\<lambda>s. s_edge s = Rising \<and> s_time s div 8 = ?pre div 8"
  let ?ts = "trigger_samples (get_combined_triggers dsoSetup) 0 snapshot"
  define r where "r = (case find ?P ?ts of None \<Rightarrow> (0, False) | Some s \<Rightarrow> (s_time s mod 8, True))"
  define j found where "j = fst r" and "found = snd r"
  have jitter: "calculate_jitter_value snapshot dsoSetup = Some (j, found)"
    using jitter_loop_spec [OF assms] by (simp add: calculate_jitter_value_def r_def j_def found_def)
  define out where "out = map (extend_trace_to (?pre + ?post) \<circ> correct_trace j) snapshot"
  have pre: "pre_process_dso_snapshot snapshot dsoSetup = Some out"
    using pre_process_eq [OF assms] jitter by (simp add: out_def)
  have out: "out ! i ! k = sample
       (s_time (snapshot ! i ! k) - (if k = 0 \<or> s_time (snapshot ! i ! k) = 0 then 0 else j)) (s_edge (snapshot ! i ! k))"
    if "i < length snapshot" "k < length (snapshot ! i)" for i k
    using that by (simp add: out_def extend_trace_nth correct_trace_nth sample_def)
  have ends: "?pre + ?post \<le> s_time (last (out ! i))" if "i < length snapshot" "snapshot ! i \<noteq> []" for i
  proof -
    have "correct_trace j (snapshot ! i) \<noteq> []" using that(2) by (metis correct_trace_length length_0_conv)
    then show ?thesis using that(1) extend_trace_last by (simp add: out_def)
  qed
  have found: "found \<longleftrightarrow> (\<exists>i k. trigger_edge snapshot dsoSetup i k)"
  proof -
    have "found \<longleftrightarrow> find ?P ?ts \<noteq> None" by (simp add: found_def r_def split: option.split)
    then have "found \<longleftrightarrow> (\<exists>s \<in> set ?ts. ?P s)" by (auto simp: find_None_iff)
    then show ?thesis using trigger_samples_iff [of dsoSetup snapshot "\<lambda>_. True"] by simp
  qed
  have edge: "\<exists>i k. trigger_edge snapshot dsoSetup i k \<and> s_time (snapshot ! i ! k) mod 8 = j" if f: found
  proof -
    obtain s where "find ?P ?ts = Some s" "j = s_time s mod 8"
      using f by (auto simp: found_def j_def r_def split: option.splits)
    then have "s \<in> set ?ts \<and> ?P s \<and> s_time s mod 8 = j" by (auto simp: find_Some_iff)
    then show ?thesis using trigger_samples_iff [of dsoSetup snapshot "\<lambda>s. s_time s mod 8 = j"] by blast
  qed
  have aligned: "k \<noteq> 0 \<longrightarrow> s_time (out ! i ! k) = ?pre div 8 * 8"
    if e: "trigger_edge snapshot dsoSetup i k" "s_time (snapshot ! i ! k) mod 8 = j" for i k
  proof -
    have "s_time (snapshot ! i ! k) = ?pre div 8 * 8 + j"
      using e div_mult_mod_eq [of "s_time (snapshot ! i ! k)" 8] by (simp add: trigger_edge_def)
    moreover have "?pre div 8 * 8 = 0" if "s_time (snapshot ! i ! k) = 0"
      using e(1) that by (simp add: trigger_edge_def)
    moreover have "out ! i ! k = sample (s_time (snapshot ! i ! k)
        - (if k = 0 \<or> s_time (snapshot ! i ! k) = 0 then 0 else j)) (s_edge (snapshot ! i ! k))"
      using e(1) out [of i k] by (simp add: trigger_edge_def)
    ultimately show ?thesis by (cases "s_time (snapshot ! i ! k) = 0") simp_all
  qed
  have "0 \<le> j" "j < 8" by (auto simp: j_def r_def split: option.split)
  moreover have "length out = length snapshot" by (simp add: out_def)
  ultimately show ?thesis using jitter pre out ends found edge aligned by blast
qed

text \<open>An example: a trigger at 21 ns with a trigger time of 16 ns, so a jitter of 5 ns. The edge at 3 ns is
  moved before the first sample.\<close>

definition example_setup :: DSOSetup where
  "example_setup = \<lparr>preTriggerTime = 16, postTriggerTime = 100, nimTriggers = 2, irqTriggers = 0, utilTriggers = 0\<rparr>"

definition example_snapshot :: Snapshot where
  "example_snapshot = [[sample 0 Falling, sample 3 Rising, sample 40 Falling], [sample 0 Falling, sample 21 Rising]]"

lemma early_edge_before_start:
  "pre_process_dso_snapshot example_snapshot example_setup =
     Some [[sample 0 Falling, sample (-2) Rising, sample 35 Falling, sample 116 Falling],
       [sample 0 Falling, sample 16 Rising, sample 116 Rising]]"
  by code_simp

theorem jitter_correction_witness:
  "\<exists>j found out. calculate_jitter_value example_snapshot example_setup = Some (j, found)
    \<and> pre_process_dso_snapshot example_snapshot example_setup = Some out \<and> 0 \<le> j \<and> j < 8
    \<and> length out = length example_snapshot"
proof -
  have "times_in_range example_snapshot" by code_simp
  from jitter_correction [OF this, of example_setup] show ?thesis by blast
qed

section \<open>Ordered traces\<close>

definition ordered :: "Trace \<Rightarrow> bool" where
  "ordered trace \<longleftrightarrow> sorted (map s_time trace)"

lemma ordered_simps [simp]:
  "ordered []" "ordered (s # ss) \<longleftrightarrow> (\<forall>s' \<in> set ss. s_time s \<le> s_time s') \<and> ordered ss"
  by (auto simp: ordered_def)

lemma ordered_append:
  "ordered (xs @ ys) \<longleftrightarrow> ordered xs \<and> ordered ys \<and> (\<forall>s \<in> set xs. \<forall>s' \<in> set ys. s_time s \<le> s_time s')"
  by (induction xs) auto

lemma ordered_last: "ordered trace \<Longrightarrow> s \<in> set trace \<Longrightarrow> s_time s \<le> s_time (last trace)"
  by (induction trace) auto

lemma ordered_correct:
  assumes "ordered trace" "0 \<le> j" "\<forall>s \<in> set (tl trace). s_time s = 0 \<or> s_time (hd trace) + j \<le> s_time s"
    and "\<forall>s \<in> set trace. 0 \<le> s_time s"
  shows "ordered (correct_trace j trace)"
proof (cases trace)
  case (Cons s ss)
  have "ordered (map (\<lambda>s. if s_time s \<noteq> 0 then s\<lparr>s_time := s_time s - j\<rparr> else s) ss)"
    using assms(1,2,3,4) unfolding Cons by (induction ss) fastforce+
  then show ?thesis using assms unfolding Cons by auto
qed simp

lemma ordered_extend: "ordered trace \<Longrightarrow> ordered (extend_trace_to t trace)"
  using ordered_last by (fastforce simp: extend_trace_to_def ordered_append)

lemma edge_at_from_last:
  "ordered trace \<Longrightarrow> edge_at_from e trace t =
     (case filter (\<lambda>s. s_time s \<le> t) trace of [] \<Rightarrow> e | ss \<Rightarrow> s_edge (last ss))"
proof (induction trace arbitrary: e)
  case (Cons s ss)
  show ?case
  proof (cases "s_time s \<le> t")
    case True
    then show ?thesis using Cons by (auto split: list.split)
  next
    case False
    then have "filter (\<lambda>s. s_time s \<le> t) (s # ss) = []" using Cons.prems by (fastforce simp: filter_empty_conv)
    then show ?thesis using False by simp
  qed
qed simp

text \<open>The traces stay ordered if every edge after the start of its trace comes at least the jitter later
  than the first sample. The search of the edge at a time then finds the last sample up to that time.\<close>

theorem pre_processed_ordered:
  assumes "times_in_range snapshot" "calculate_jitter_value snapshot dsoSetup = Some (j, found)"
    and "pre_process_dso_snapshot snapshot dsoSetup = Some out" "trace \<in> set out"
    and "\<forall>trace \<in> set snapshot. ordered trace
      \<and> (\<forall>s \<in> set (tl trace). s_time s = 0 \<or> s_time (hd trace) + j \<le> s_time s)"
  shows "ordered trace
    \<and> edge_at trace t = (case filter (\<lambda>s. s_time s \<le> t) trace of [] \<Rightarrow> Falling | ss \<Rightarrow> s_edge (last ss))"
proof -
  have "0 \<le> j"
    using assms(2) jitter_loop_spec [OF assms(1)] by (auto simp: calculate_jitter_value_def split: option.splits)
  obtain t0 where t0: "t0 \<in> set snapshot"
    "trace = extend_trace_to (uint (preTriggerTime dsoSetup) + uint (postTriggerTime dsoSetup)) (correct_trace j t0)"
    using assms(3,4) pre_process_eq [OF assms(1), of dsoSetup] assms(2) by auto
  have "\<forall>s \<in> set t0. 0 \<le> s_time s" using assms(1) t0(1) by (auto simp: times_in_range_def list_all_iff)
  then have "ordered trace"
    unfolding t0(2) using assms(5) t0(1) \<open>0 \<le> j\<close> by (intro ordered_extend ordered_correct) auto
  then show ?thesis using edge_at_from_last by (simp add: edge_at_def)
qed

theorem pre_processed_ordered_witness:
  "ordered [sample 0 Falling, sample 16 Rising, sample 116 Rising]
    \<and> edge_at [sample 0 Falling, sample 16 Rising, sample 116 Rising] 50 =
      (case filter (\<lambda>s. s_time s \<le> 50) [sample 0 Falling, sample 16 Rising, sample 116 Rising] of
         [] \<Rightarrow> Falling | ss \<Rightarrow> s_edge (last ss))"
proof (rule pre_processed_ordered)
  show "times_in_range (tl example_snapshot)" by code_simp
  let ?st = "example_setup\<lparr>nimTriggers := 1\<rparr>"
  show "calculate_jitter_value (tl example_snapshot) ?st = Some (5, True)" by code_simp
  show "pre_process_dso_snapshot (tl example_snapshot) ?st =
      Some [[sample 0 Falling, sample 16 Rising, sample 116 Rising]]" by code_simp
qed (simp_all add: example_snapshot_def)

end
