(* ===== verification/Trigger_Sim.thy ===== *)
theory Trigger_Sim
  imports Trigger_DSO
begin

text \<open>
  The simulation of the Trigger I/O module on sampled traces: \<^verbatim>\<open>src/src/mvlc/trigger_io_sim.h\<close> and
  \<^verbatim>\<open>trigger_io_sim.cc\<close>, with \<^verbatim>\<open>minimize\<close> of \<^verbatim>\<open>mvlc_trigger_io.cc\<close>. Gate generators turn edges to pulses,
  LUTs map the levels of their inputs to output levels; the levels of the module are simulated in order. The
  minimization of boolean functions by the minbool library is a parameter. A failed assertion, a null
  pointer or an access out of bounds is \<^const>\<open>None\<close>.
\<close>

section \<open>Gate generators\<close>

text \<open>\<open>first\<close> says that the sample is the first of the input, \<^const>\<open>None\<close> for \<open>holdoffUntil\<close> is
  \<^verbatim>\<open>SampleTime::min()\<close>.\<close>

fun gg_loop :: "IO \<Rightarrow> SampleTime \<Rightarrow> bool \<Rightarrow> SampleTime option \<Rightarrow> Trace \<Rightarrow> Trace" where
  "gg_loop io maxtime first holdoffUntil [] = []"
| "gg_loop io maxtime first holdoffUntil (inSample # input) =
     (if (case holdoffUntil of None \<Rightarrow> False | Some h \<Rightarrow> s_time inSample \<le> h)
      then gg_loop io maxtime False holdoffUntil input
      else if s_edge inSample = Rising \<and> \<not> io_invert io \<or> s_edge inSample = Falling \<and> io_invert io \<and> \<not> first
      then (let rising = s_time inSample + uint (io_delay io);
                falling = rising + uint (io_width io)
            in sample rising Rising # sample falling Falling #
               (if maxtime \<le> falling then []
                else gg_loop io maxtime False (Some (max falling (s_time inSample + uint (io_holdoff io)))) input))
      else if s_edge inSample = Unknown then []
      else gg_loop io maxtime False holdoffUntil input)"

definition simulate_gg :: "IO \<Rightarrow> Trace \<Rightarrow> Trace \<Rightarrow> SampleTime \<Rightarrow> Trace" where
  "simulate_gg io input output maxtime =
     (if io_width io = 0 then output @ map (\<lambda>s. sample (s_time s) (s_edge s)) input
      else output @ sample 0 Falling # gg_loop io maxtime True None input)"

section \<open>Minimization\<close>

text \<open>A term of a sum of products: per input \<open>Zero\<close>, \<open>One\<close> or \<open>Dash\<close>, \<^verbatim>\<open>minbool::MinTerm::Value\<close>.\<close>

datatype TermValue = Zero | One | Dash

type_synonym MinTerm = "TermValue list"

definition minimize :: "(nat list \<Rightarrow> MinTerm list) \<Rightarrow> Bitmap \<Rightarrow> 6 word" where
  "minimize minimize_boolean mapping =
     (let solution = minimize_boolean (filter (bit mapping) [0..<64])
      in fold (\<lambda>minterm result.
           fold (\<lambda>b result. if minterm ! b \<noteq> Dash then set_bit b result else result) [0..<InputBits] result)
         solution 0)"

definition minimize_lut :: "(nat list \<Rightarrow> MinTerm list) \<Rightarrow> LUT \<Rightarrow> 6 word" where
  "minimize_lut minimize_boolean lut =
     minimize minimize_boolean (lutContents lut ! 0) OR minimize minimize_boolean (lutContents lut ! 1)
       OR minimize minimize_boolean (lutContents lut ! 2)"

section \<open>Lookup tables\<close>

text \<open>Pointers to traces are the traces or \<^const>\<open>None\<close> for a null pointer. No sample after \<open>t0\<close> is \<^const>\<open>None\<close>
  for \<^verbatim>\<open>SampleTime::min()\<close>.\<close>

fun find_sample_time_after :: "SampleTime \<Rightarrow> Trace option list \<Rightarrow> SampleTime option \<Rightarrow> SampleTime option" where
  "find_sample_time_after t0 [] result = result"
| "find_sample_time_after t0 (None # traces) result = find_sample_time_after t0 traces result"
| "find_sample_time_after t0 (Some timeline # traces) result =
     find_sample_time_after t0 traces
       (case find (\<lambda>s. t0 < s_time s) timeline of
          None \<Rightarrow> result
        | Some s \<Rightarrow> (case result of None \<Rightarrow> Some (s_time s)
                    | Some r \<Rightarrow> if s_time s < r then Some (s_time s) else result))"

text \<open>The search from the end of a trace; \<^verbatim>\<open>edge_at\<close> of the simulation.\<close>

definition sim_edge_at :: "SampleTime \<Rightarrow> Trace \<Rightarrow> Edge" where
  "sim_edge_at t trace = (case find (\<lambda>s. s_time s \<le> t) (rev trace) of None \<Rightarrow> Unknown | Some s \<Rightarrow> s_edge s)"

text \<open>The loop over the inputs: undefined for a null pointer, no combination if the state of an input is
  unknown.\<close>

fun input_combination :: "6 word \<Rightarrow> SampleTime \<Rightarrow> nat \<Rightarrow> Trace option list \<Rightarrow> nat \<Rightarrow> nat option option" where
  "input_combination usedInputs t0 inIdx [] c = Some (Some c)"
| "input_combination usedInputs t0 inIdx (input # inputs) c =
     (if bit usedInputs inIdx
      then (case input of
              None \<Rightarrow> None
            | Some trace \<Rightarrow>
                (case sim_edge_at t0 trace of
                   Unknown \<Rightarrow> Some None
                 | Falling \<Rightarrow> input_combination usedInputs t0 (inIdx + 1) inputs c
                 | Rising \<Rightarrow> input_combination usedInputs t0 (inIdx + 1) inputs (c OR push_bit inIdx 1)))
      else input_combination usedInputs t0 (inIdx + 1) inputs c)"

definition samples_after :: "SampleTime \<Rightarrow> Trace option list \<Rightarrow> nat" where
  "samples_after t0 inputs =
     sum_list (map (\<lambda>input. case input of None \<Rightarrow> 0 | Some trace \<Rightarrow> length (filter (\<lambda>s. t0 < s_time s) trace)) inputs)"

lemma find_sample_time_afterD:
  "find_sample_time_after t0 inputs result = Some t \<Longrightarrow>
   result = Some t \<or> (\<exists>trace s. Some trace \<in> set inputs \<and> s \<in> set trace \<and> s_time s = t \<and> t0 < t)"
proof (induction t0 inputs result rule: find_sample_time_after.induct)
  case (3 t0 timeline traces result)
  then show ?case by (fastforce simp: find_Some_iff split: option.splits if_splits)
qed auto

lemma sum_list_less:
  fixes f g :: "'a \<Rightarrow> nat"
  shows "x \<in> set xs \<Longrightarrow> f x < g x \<Longrightarrow> (\<And>y. f y \<le> g y) \<Longrightarrow> sum_list (map f xs) < sum_list (map g xs)"
proof (induction xs)
  case (Cons y ys)
  have "sum_list (map f ys) \<le> sum_list (map g ys)" by (intro sum_list_mono Cons.prems(3))
  with Cons show ?case by (auto intro: add_less_le_mono add_le_less_mono)
qed simp

lemma samples_after_less:
  assumes "find_sample_time_after t0 inputs None = Some t"
  shows "samples_after t inputs < samples_after t0 inputs"
proof -
  obtain trace s where ts: "Some trace \<in> set inputs" "s \<in> set trace" "s_time s = t" "t0 < t"
    using find_sample_time_afterD [OF assms] by auto
  have le: "length (filter (\<lambda>s. t < s_time s) tr) \<le> length (filter (\<lambda>s. t0 < s_time s) tr)" for tr
    using ts(4) by (induction tr) auto
  have "length (filter (\<lambda>s. t < s_time s) trace) < length (filter (\<lambda>s. t0 < s_time s) trace)"
    using ts(2-4) le by (induction trace) (auto simp: less_Suc_eq_le)
  then show ?thesis
    unfolding samples_after_def by (intro sum_list_less [OF ts(1)]) (auto split: option.split intro: le)
qed

function lut_loop :: "6 word \<Rightarrow> Bitmap \<Rightarrow> Trace option list \<Rightarrow> Trace option \<Rightarrow> SampleTime \<Rightarrow> Trace option" where
  "lut_loop usedInputs mapping inputs strobeTrace t0 =
     (case find_sample_time_after t0 inputs None of
        None \<Rightarrow> Some []
      | Some t \<Rightarrow>
          (case input_combination usedInputs t 0 inputs 0 of
             None \<Rightarrow> None
           | Some None \<Rightarrow> Some []
           | Some (Some c) \<Rightarrow>
               if 64 \<le> c then None
               else map_option
                 (\<lambda>rest. (if (case strobeTrace of None \<Rightarrow> True | Some strobe \<Rightarrow> sim_edge_at t strobe = Rising)
                    then [sample t (if bit mapping c then Rising else Falling)] else []) @ rest)
                 (lut_loop usedInputs mapping inputs strobeTrace t)))"
  by pat_completeness auto

termination
  by (relation "measure (\<lambda>(_, _, inputs, _, t0). samples_after t0 inputs)") (auto intro: samples_after_less)

definition simulate_single_lut_output ::
  "(nat list \<Rightarrow> MinTerm list) \<Rightarrow> Bitmap \<Rightarrow> Trace option list \<Rightarrow> Trace \<Rightarrow> Trace option \<Rightarrow> SampleTime \<Rightarrow> Trace option" where
  "simulate_single_lut_output minimize_boolean mapping inputs outputTrace strobeTrace maxtime =
     (let usedInputs = minimize minimize_boolean mapping
      in if usedInputs = 0
         then (let staticOutputValue = (if bit mapping 0 then Rising else Falling)
               in case strobeTrace of
                    Some strobe \<Rightarrow>
                      if staticOutputValue = Falling
                      then Some (outputTrace @ [sample 0 staticOutputValue, sample maxtime staticOutputValue])
                      else Some (outputTrace @ strobe)
                  | None \<Rightarrow> Some (outputTrace @ [sample 0 staticOutputValue, sample maxtime staticOutputValue]))
         else map_option ((@) outputTrace) (lut_loop usedInputs mapping inputs strobeTrace 0))"

text \<open>The strobe input and output are both given or both null. The result holds the output traces and the
  strobe output.\<close>

definition simulate_lut ::
  "(nat list \<Rightarrow> MinTerm list) \<Rightarrow> LUT \<Rightarrow> Trace option list \<Rightarrow> Trace option \<Rightarrow> Trace option list \<Rightarrow> Trace option
    \<Rightarrow> SampleTime \<Rightarrow> (Trace list \<times> Trace option) option" where
  "simulate_lut minimize_boolean lut inputs strobeInput outputs strobeOutput maxtime =
     (if (strobeInput = None) \<noteq> (strobeOutput = None) \<or> strobedOutputs lut \<noteq> 0 \<and> strobeInput = None then None
      else
        (let strobe = (case (strobeInput, strobeOutput) of
               (Some i, Some o') \<Rightarrow> Some (simulate_gg (strobeGG lut) i o' maxtime) | _ \<Rightarrow> None)
         in map_option (\<lambda>traces. (traces, strobe))
              (map_opt
                (\<lambda>outIdx. Option.bind (at_opt outputs outIdx) (\<lambda>out. Option.bind out (\<lambda>outputTrace.
                   Option.bind (at_opt (lutContents lut) outIdx) (\<lambda>mapping.
                     simulate_single_lut_output minimize_boolean mapping inputs outputTrace
                       (if bit (strobedOutputs lut) outIdx then strobe else None) maxtime))))
                [0..<OutputBits])))"

section \<open>The simulated module\<close>

definition StrobeGGOutputTraceIndex :: nat where "StrobeGGOutputTraceIndex = OutputBits"
definition DSOExpectedSampledTraces :: nat where "DSOExpectedSampledTraces = CombinedTriggerCount"

record Sim =
  trigIO :: TriggerIO
  sampledTraces :: Snapshot
  l0_traces :: "Trace list"
  sim_l1_luts :: "Trace list list"
  sim_l2_luts :: "Trace list list"
  l3_traces :: "Trace list"

definition new_sim :: Sim where
  "new_sim =
    \<lparr>trigIO = new_trigger_io, sampledTraces = replicate DSOExpectedSampledTraces [],
     l0_traces = replicate L0_OutputCount [],
     sim_l1_luts = replicate L1_LUTCount (replicate (OutputBits + 1) []),
     sim_l2_luts = replicate L2_LUTCount (replicate (OutputBits + 1) []),
     l3_traces = replicate L3_UnitCount []\<rparr>"

text \<open>The arrays keep their length; clearing a trace keeps its place.\<close>

definition clear_simulated_traces :: "Sim \<Rightarrow> Sim" where
  "clear_simulated_traces sim = sim
    \<lparr>l0_traces := map (\<lambda>_. []) (l0_traces sim),
     sim_l1_luts := map (map (\<lambda>_. [])) (sim_l1_luts sim),
     sim_l2_luts := map (map (\<lambda>_. [])) (sim_l2_luts sim),
     l3_traces := map (\<lambda>_. []) (l3_traces sim)\<rparr>"

fun lookup_output_trace :: "Sim \<Rightarrow> UnitAddress \<Rightarrow> Trace option" where
  "lookup_output_trace sim (level, unit, output) =
     (if level = 0 then at_opt (l0_traces sim) unit
      else if level = 1 then Option.bind (at_opt (sim_l1_luts sim) unit) (\<lambda>traces. at_opt traces output)
      else if level = 2 then Option.bind (at_opt (sim_l2_luts sim) unit) (\<lambda>traces. at_opt traces output)
      else if level = 3 then at_opt (l3_traces sim) unit
      else None)"

text \<open>Writing through the pointer that \<open>lookup_output_trace\<close> gives.\<close>

fun put_output_trace :: "Sim \<Rightarrow> UnitAddress \<Rightarrow> Trace \<Rightarrow> Sim" where
  "put_output_trace sim (level, unit, output) trace =
     (if level = 0 then sim\<lparr>l0_traces := (l0_traces sim)[unit := trace]\<rparr>
      else if level = 1
      then sim\<lparr>sim_l1_luts := (sim_l1_luts sim)[unit := (sim_l1_luts sim ! unit)[output := trace]]\<rparr>
      else if level = 2
      then sim\<lparr>sim_l2_luts := (sim_l2_luts sim)[unit := (sim_l2_luts sim ! unit)[output := trace]]\<rparr>
      else sim\<lparr>l3_traces := (l3_traces sim)[unit := trace]\<rparr>)"

text \<open>The outer \<^const>\<open>None\<close> is an access out of bounds, the inner one a null pointer.\<close>

fun lookup_input :: "Sim \<Rightarrow> UnitAddress \<Rightarrow> Trace option option" where
  "lookup_input sim (level, unit, pin) =
     (if level = 0
      then (let idx = get_trace_index \<lparr>pa_unit = (level, unit, pin), pa_pos = PinInput\<rparr>
            in if 0 \<le> idx \<and> nat idx < length (sampledTraces sim) then Some (Some (sampledTraces sim ! nat idx))
               else Some None)
      else if level = 1
      then map_option (\<lambda>con. lookup_output_trace sim (connection_address con))
             (static_connection L1_StaticConnections unit pin)
      else if level = 2
      then Option.bind (static_connection L2_StaticConnections unit pin) (\<lambda>con.
             if con \<noteq> Dynamic then Some (lookup_output_trace sim (connection_address con))
             else map_option (lookup_output_trace sim) (get_connection_unit_address (trigIO sim) (level, unit, pin)))
      else if level = 3
      then map_option (lookup_output_trace sim) (get_connection_unit_address (trigIO sim) (level, unit, pin))
      else Some None)"

definition lookup_trace :: "Sim \<Rightarrow> PinAddress \<Rightarrow> Trace option option" where
  "lookup_trace sim pa =
     (if pa_pos pa = PinOutput then Some (lookup_output_trace sim (pa_unit pa)) else lookup_input sim (pa_unit pa))"

definition lookup_input_trace :: "Sim \<Rightarrow> UnitAddress \<Rightarrow> Trace option option" where
  "lookup_input_trace sim addr = lookup_trace sim \<lparr>pa_unit = addr, pa_pos = PinInput\<rparr>"

section \<open>The steps of the simulation\<close>

primrec fold_opt :: "('a \<Rightarrow> 's \<Rightarrow> 's option) \<Rightarrow> 'a list \<Rightarrow> 's \<Rightarrow> 's option" where
  "fold_opt f [] s = Some s"
| "fold_opt f (x # xs) s = Option.bind (f x s) (fold_opt f xs)"

definition GateGeneratorDelay :: SampleTime where "GateGeneratorDelay = 8"
definition LevelOutputDelay :: SampleTime where "LevelOutputDelay = 8"
definition IRQInputDelay :: SampleTime where "IRQInputDelay = 24"
definition NIMInputDelay :: SampleTime where "NIMInputDelay = 28"

definition apply_delay :: "SampleTime \<Rightarrow> Trace \<Rightarrow> Trace" where
  "apply_delay delay trace = map (\<lambda>s. s\<lparr>s_time := s_time s + delay\<rparr>) trace"

text \<open>A level 0 unit: from its input trace to its output trace.\<close>

definition simulate_l0 :: "(Trace \<Rightarrow> Trace \<Rightarrow> Trace) \<Rightarrow> nat \<Rightarrow> Sim \<Rightarrow> Sim option" where
  "simulate_l0 f unit sim =
     (case (lookup_input_trace sim (0, unit, 0), lookup_output_trace sim (0, unit, 0)) of
        (Some (Some inputTrace), Some outputTrace) \<Rightarrow>
          Some (put_output_trace sim (0, unit, 0) (f inputTrace outputTrace))
      | _ \<Rightarrow> None)"

definition simulate_util :: "nat \<Rightarrow> Sim \<Rightarrow> Sim option" where
  "simulate_util utilIndex = simulate_l0 (\<lambda>input output. output @ input) utilIndex"

definition simulate_nim :: "SampleTime \<Rightarrow> nat \<times> IO \<Rightarrow> Sim \<Rightarrow> Sim option" where
  "simulate_nim maxtime = (\<lambda>(i, io). simulate_l0
     (\<lambda>input output. apply_delay (NIMInputDelay + GateGeneratorDelay + LevelOutputDelay)
        (if io_direction io = 1 then output @ input else simulate_gg io input output maxtime))
     (NIM_IO_Offset + i))"

definition simulate_irq :: "SampleTime \<Rightarrow> nat \<times> IO \<Rightarrow> Sim \<Rightarrow> Sim option" where
  "simulate_irq maxtime = (\<lambda>(i, io). simulate_l0
     (\<lambda>input output. apply_delay (IRQInputDelay + GateGeneratorDelay + LevelOutputDelay)
        (simulate_gg io input output maxtime))
     (IRQ_Inputs_Offset + i))"

definition put_outputs :: "nat \<Rightarrow> nat \<Rightarrow> Trace list \<times> Trace option \<Rightarrow> Sim \<Rightarrow> Sim" where
  "put_outputs level unit = (\<lambda>(traces, strobe) sim.
     (let sim = fold (\<lambda>(i, trace) sim. put_output_trace sim (level, unit, i) trace) (indexed 0 traces) sim
      in case strobe of None \<Rightarrow> sim
         | Some trace \<Rightarrow> put_output_trace sim (level, unit, StrobeGGOutputTraceIndex) trace))"

definition simulate_l1_lut ::
  "(nat list \<Rightarrow> MinTerm list) \<Rightarrow> SampleTime \<Rightarrow> nat \<times> LUT \<Rightarrow> Sim \<Rightarrow> Sim option" where
  "simulate_l1_lut minimize_boolean maxtime = (\<lambda>(lutIndex, lut) sim.
     Option.bind
       (map_opt (\<lambda>i. map_option (\<lambda>con. lookup_output_trace sim (connection_address con))
          (static_connection L1_StaticConnections lutIndex i)) [0..<InputBits])
       (\<lambda>inputs. map_option (\<lambda>result. put_outputs 1 lutIndex result sim)
          (simulate_lut minimize_boolean lut inputs None
            (map (\<lambda>i. lookup_output_trace sim (1, lutIndex, i)) [0..<OutputBits]) None maxtime)))"

text \<open>\<open>get_connection_unit_address\<close> reads the connection value of a static input past the end of its array,
  which is undefined behaviour, and does not use the value. \<open>memory\<close> says what comes of such a read: a value, or
  \<^const>\<open>None\<close> if it ends the program, as it does where array accesses are checked.\<close>

definition connection_address_reading :: "(UnitAddress \<Rightarrow> nat option) \<Rightarrow> TriggerIO \<Rightarrow> UnitAddress \<Rightarrow> UnitAddress option" where
  "connection_address_reading memory cfg addr =
     Option.bind (case get_connection_value cfg addr of None \<Rightarrow> memory addr | Some v \<Rightarrow> Some v)
       (\<lambda>v. connection_source v addr)"

definition simulate_l2_lut ::
  "(UnitAddress \<Rightarrow> nat option) \<Rightarrow> (nat list \<Rightarrow> MinTerm list) \<Rightarrow> SampleTime \<Rightarrow> nat \<times> LUT \<Rightarrow> Sim \<Rightarrow> Sim option" where
  "simulate_l2_lut memory minimize_boolean maxtime = (\<lambda>(lutIndex, lut) sim.
     (let source = (\<lambda>i. Option.bind (connection_address_reading memory (trigIO sim) (2, lutIndex, i))
                         (lookup_output_trace sim))
      in Option.bind (map_opt source [0..<InputBits]) (\<lambda>inputs.
         Option.bind (source StrobeGGInput) (\<lambda>strobeInput.
         Option.bind (map_opt (\<lambda>i. lookup_output_trace sim (2, lutIndex, i)) [0..<OutputBits]) (\<lambda>outputs.
         Option.bind (lookup_output_trace sim (2, lutIndex, StrobeGGOutputTraceIndex)) (\<lambda>strobeOutput.
           map_option (\<lambda>result. put_outputs 2 lutIndex result sim)
             (simulate_lut minimize_boolean lut (map Some inputs) (Some strobeInput) (map Some outputs)
               (Some strobeOutput) maxtime)))))))"

definition simulate ::
  "(UnitAddress \<Rightarrow> nat option) \<Rightarrow> (nat list \<Rightarrow> MinTerm list) \<Rightarrow> Sim \<Rightarrow> SampleTime \<Rightarrow> Sim option" where
  "simulate memory minimize_boolean sim maxtime =
     (let sim = clear_simulated_traces sim;
          sim = (if length (sampledTraces sim) < DSOExpectedSampledTraces
                 then sim\<lparr>sampledTraces := resize DSOExpectedSampledTraces (sampledTraces sim)\<rparr> else sim)
      in Option.bind (fold_opt simulate_util [0..<UtilityUnitCount] sim) (\<lambda>sim.
         Option.bind (fold_opt (simulate_nim maxtime) (indexed 0 (ioNIM (l0 (trigIO sim)))) sim) (\<lambda>sim.
         Option.bind (fold_opt (simulate_irq maxtime) (indexed 0 (ioIRQ (l0 (trigIO sim)))) sim) (\<lambda>sim.
         Option.bind (fold_opt (simulate_l1_lut minimize_boolean maxtime) (indexed 0 (l1_luts (l1 (trigIO sim)))) sim) (\<lambda>sim.
           fold_opt (simulate_l2_lut memory minimize_boolean maxtime) (indexed 0 (l2_luts (l2 (trigIO sim)))) sim)))))"

end
