(* ===== verification/Trigger_Gates.thy ===== *)
theory Trigger_Gates
  imports Trigger_Sim
begin

text \<open>
  What the gate generators and the lookup tables of the Trigger I/O simulation compute: the pulses of a
  gate generator are those of the trigger edges outside of its dead time, and the output of a LUT is
  the mapping applied to the levels of the inputs at each of their edges.
\<close>

section \<open>Gate generators\<close>

definition gg_trigger :: "IO \<Rightarrow> Trace \<Rightarrow> nat \<Rightarrow> bool" where
  "gg_trigger io input k \<longleftrightarrow> k < length input
     \<and> (if io_invert io then s_edge (input ! k) = Falling \<and> k \<noteq> 0 else s_edge (input ! k) = Rising)"

definition gg_dead_until :: "IO \<Rightarrow> SampleTime \<Rightarrow> SampleTime" where
  "gg_dead_until io t = max (t + uint (io_delay io) + uint (io_width io)) (t + uint (io_holdoff io))"

definition gg_pulse :: "IO \<Rightarrow> SampleTime \<Rightarrow> Trace" where
  "gg_pulse io t = [sample (t + uint (io_delay io)) Rising, sample (t + uint (io_delay io) + uint (io_width io)) Falling]"

text \<open>The accepted trigger times.\<close>

fun gg_times :: "IO \<Rightarrow> SampleTime \<Rightarrow> bool \<Rightarrow> SampleTime option \<Rightarrow> Trace \<Rightarrow> SampleTime list" where
  "gg_times io maxtime first dead [] = []"
| "gg_times io maxtime first dead (s # ss) =
     (if (case dead of None \<Rightarrow> False | Some h \<Rightarrow> s_time s \<le> h) then gg_times io maxtime False dead ss
      else if (if io_invert io then s_edge s = Falling \<and> \<not> first else s_edge s = Rising)
      then s_time s # (if maxtime \<le> s_time s + uint (io_delay io) + uint (io_width io) then []
                       else gg_times io maxtime False (Some (gg_dead_until io (s_time s))) ss)
      else if s_edge s = Unknown then [] else gg_times io maxtime False dead ss)"

lemma gg_loop_times: "gg_loop io maxtime first dead input = concat (map (gg_pulse io) (gg_times io maxtime first dead input))"
  by (induction io maxtime first dead input rule: gg_times.induct)
    (auto simp: gg_pulse_def gg_dead_until_def Let_def split: option.splits)

lemma gg_dead_ge [simp]: "t \<le> gg_dead_until io t"
  by (simp add: gg_dead_until_def le_max_iff_disj)

lemma gg_times_after:
  "t \<in> set (gg_times io maxtime first (Some h) input) \<Longrightarrow> h < t"
proof (induction io maxtime first "Some h" input arbitrary: h rule: gg_times.induct)
  case (2 io maxtime first s ss)
  have "h < s_time s \<Longrightarrow> gg_dead_until io (s_time s) < t \<Longrightarrow> h < t"
    using gg_dead_ge [of "s_time s" io] by linarith
  with 2 show ?case by (auto simp: not_le split: if_splits)
qed simp

lemma gg_times_spaced: "sorted_wrt (\<lambda>t t'. gg_dead_until io t < t') (gg_times io maxtime first dead input)"
  by (induction io maxtime first dead input rule: gg_times.induct) (auto dest: gg_times_after)

lemma gg_times_triggers:
  assumes "t \<in> set (gg_times io maxtime first dead input)"
  shows "\<exists>k < length input. s_time (input ! k) = t
    \<and> (if io_invert io then s_edge (input ! k) = Falling \<and> (first \<longrightarrow> k \<noteq> 0) else s_edge (input ! k) = Rising)"
  using assms
proof (induction io maxtime first dead input rule: gg_times.induct)
  case (2 io maxtime first dead s ss)
  have step: ?case if "\<exists>k < length ss. s_time (ss ! k) = t
    \<and> (if io_invert io then s_edge (ss ! k) = Falling else s_edge (ss ! k) = Rising)"
    using that by (auto split: if_splits intro!: exI [of _ "Suc k" for k])
  show ?case
  proof (cases "t = s_time s \<and> (if io_invert io then s_edge s = Falling \<and> \<not> first else s_edge s = Rising)")
    case True
    then show ?thesis by (auto intro!: exI [of _ 0])
  next
    case False
    with 2 show ?thesis by (intro step) (auto split: if_splits option.splits)
  qed
qed simp

lemma gg_times_complete:
  assumes "\<forall>s \<in> set input. s_edge s \<noteq> Unknown" "k < length input"
    and "if io_invert io then s_edge (input ! k) = Falling \<and> (first \<longrightarrow> k \<noteq> 0) else s_edge (input ! k) = Rising"
    and "case dead of None \<Rightarrow> True | Some h \<Rightarrow> h < s_time (input ! k)"
  shows "\<exists>t \<in> set (gg_times io maxtime first dead input). t = s_time (input ! k)
    \<or> s_time (input ! k) \<le> gg_dead_until io t \<or> maxtime \<le> t + uint (io_delay io) + uint (io_width io)"
  using assms
proof (induction io maxtime first dead input arbitrary: k rule: gg_times.induct)
  case (2 io maxtime first dead s ss)
  show ?case
  proof (cases k)
    case 0
    with 2 show ?thesis by (auto split: option.splits if_splits)
  next
    case (Suc m)
    let ?trig = "if io_invert io then s_edge s = Falling \<and> \<not> first else s_edge s = Rising"
    have m: "\<forall>s \<in> set ss. s_edge s \<noteq> Unknown" "m < length ss"
      "if io_invert io then s_edge (ss ! m) = Falling \<and> (False \<longrightarrow> m \<noteq> 0) else s_edge (ss ! m) = Rising"
      "case dead of None \<Rightarrow> True | Some h \<Rightarrow> h < s_time (ss ! m)"
      using 2(4-7) Suc by (auto split: option.splits)
    show ?thesis
    proof (cases "case dead of None \<Rightarrow> False | Some h \<Rightarrow> s_time s \<le> h")
      case True
      then show ?thesis using 2(1) [OF True m] Suc by simp
    next
      case alive: False
      show ?thesis
      proof (cases ?trig)
        case trig: True
        show ?thesis
        proof (cases "maxtime \<le> s_time s + uint (io_delay io) + uint (io_width io)
            \<or> s_time (ss ! m) \<le> gg_dead_until io (s_time s)")
          case True
          then show ?thesis using alive trig Suc by auto
        next
          case False
          then show ?thesis using 2(2) [OF alive trig _ m(1-3)] alive trig Suc by auto
        qed
      next
        case False
        then show ?thesis using 2(3) [OF alive False _ m] 2(4) alive Suc by auto
      qed
    qed
  qed
qed simp


lemma ordered_pulses:
  "sorted_wrt (\<lambda>t t'. gg_dead_until io t < t') ts \<Longrightarrow> ordered (concat (map (gg_pulse io) ts))"
proof (induction ts)
  case (Cons t ts)
  have "s_time s \<le> s_time s'" if s: "s \<in> set (gg_pulse io t)" "t' \<in> set ts" "s' \<in> set (gg_pulse io t')" for s s' t'
  proof -
    have "s_time s \<le> gg_dead_until io t"
      using s(1) by (auto simp: gg_pulse_def gg_dead_until_def le_max_iff_disj)
    moreover have "gg_dead_until io t < t'" using Cons.prems s(2) by simp
    moreover have "t' \<le> s_time s'" using s(3) by (auto simp: gg_pulse_def add_increasing)
    ultimately show ?thesis by linarith
  qed
  moreover have "ordered (gg_pulse io t)" by (simp add: gg_pulse_def)
  ultimately show ?case using Cons by (auto simp: ordered_append)
qed simp

text \<open>C30: a gate generator with a width puts out a low level followed by one pulse per accepted trigger edge, each
  starting with the delay and of exactly the width, whatever the edges of the input in between. A trigger is
  an edge of the selected direction, the start of the trace excepted if the direction is falling. Accepted
  triggers come after the dead time of all earlier ones, so pulses never overlap and never come closer than
  the hold-off; in an input without unknown states every trigger that is not accepted lies in the dead time of
  an accepted one or follows a pulse that ends past the simulated time. The output is ordered if no pulse
  starts before time 0. Without a width the output is the input.\<close>

theorem gate_generator_pulses:
  assumes "io_width io \<noteq> 0"
  shows "\<exists>ts. simulate_gg io input output maxtime = output @ sample 0 Falling # concat (map (gg_pulse io) ts)
    \<and> sorted_wrt (\<lambda>t t'. gg_dead_until io t < t') ts
    \<and> (\<forall>t \<in> set ts. \<exists>k. gg_trigger io input k \<and> s_time (input ! k) = t)
    \<and> (\<forall>k. gg_trigger io input k \<and> (\<forall>s \<in> set input. s_edge s \<noteq> Unknown) \<longrightarrow>
        (\<exists>t \<in> set ts. t = s_time (input ! k) \<or> s_time (input ! k) \<le> gg_dead_until io t
          \<or> maxtime \<le> t + uint (io_delay io) + uint (io_width io)))
    \<and> ((\<forall>s \<in> set input. 0 \<le> s_time s + uint (io_delay io)) \<longrightarrow> ordered (simulate_gg io input [] maxtime))
    \<and> simulate_gg (io\<lparr>io_width := 0\<rparr>) input output maxtime = output @ input"
proof -
  define ts where "ts = gg_times io maxtime True None input"
  have out: "simulate_gg io input tr maxtime = tr @ sample 0 Falling # concat (map (gg_pulse io) ts)" for tr
    using assms by (simp add: simulate_gg_def gg_loop_times ts_def)
  have spaced: "sorted_wrt (\<lambda>t t'. gg_dead_until io t < t') ts"
    unfolding ts_def by (rule gg_times_spaced)
  have trig: "\<exists>k. gg_trigger io input k \<and> s_time (input ! k) = t" if "t \<in> set ts" for t
    using gg_times_triggers [OF that [unfolded ts_def]] by (auto simp: gg_trigger_def)
  have complete: "\<exists>t \<in> set ts. t = s_time (input ! k) \<or> s_time (input ! k) \<le> gg_dead_until io t
          \<or> maxtime \<le> t + uint (io_delay io) + uint (io_width io)"
    if "gg_trigger io input k" "\<forall>s \<in> set input. s_edge s \<noteq> Unknown" for k
    unfolding ts_def by (rule gg_times_complete [OF that(2)]) (use that(1) in \<open>auto simp: gg_trigger_def\<close>)
  have "ordered (simulate_gg io input [] maxtime)" if "\<forall>s \<in> set input. 0 \<le> s_time s + uint (io_delay io)"
  proof -
    have "0 \<le> t + uint (io_delay io)" if "t \<in> set ts" for t
      using trig [OF that] \<open>\<forall>s \<in> set input. _\<close> by (auto simp: gg_trigger_def)
    then have "\<forall>s \<in> set (concat (map (gg_pulse io) ts)). 0 \<le> s_time s"
      by (auto simp: gg_pulse_def add_increasing2)
    then show ?thesis using ordered_pulses [OF spaced] by (simp add: out)
  qed
  moreover have "simulate_gg (io\<lparr>io_width := 0\<rparr>) input output maxtime = output @ input"
    by (simp add: simulate_gg_def)
  ultimately show ?thesis using out spaced trig complete by blast
qed

definition example_gate :: IO where
  "example_gate = zero_io\<lparr>io_delay := 10, io_width := 20, io_holdoff := 50\<rparr>"

definition example_input :: Trace where
  "example_input = [sample 0 Falling, sample 5 Rising, sample 9 Falling, sample 30 Rising, sample 60 Falling, sample 70 Rising]"

theorem gate_generator_pulses_witness:
  "\<exists>ts. sample 0 Falling # concat (map (gg_pulse example_gate) ts)
      = [sample 0 Falling, sample 15 Rising, sample 35 Falling, sample 80 Rising, sample 100 Falling]
    \<and> sorted_wrt (\<lambda>t t'. gg_dead_until example_gate t < t') ts
    \<and> simulate_gg (example_gate\<lparr>io_width := 0\<rparr>) example_input [] 200 = [] @ example_input"
proof -
  have w: "io_width example_gate \<noteq> 0" by (simp add: example_gate_def)
  have "simulate_gg example_gate example_input [] 200 =
     [sample 0 Falling, sample 15 Rising, sample 35 Falling, sample 80 Rising, sample 100 Falling]"
    by code_simp
  with gate_generator_pulses [OF w, of example_input "[]" 200] show ?thesis by auto
qed

section \<open>Minimized functions\<close>

text \<open>\<^verbatim>\<open>minbool::eval_boolean\<close>, and what \<^verbatim>\<open>minbool::check_solution\<close> asserts of every solution.\<close>

definition eval_boolean :: "MinTerm list \<Rightarrow> nat \<Rightarrow> bool" where
  "eval_boolean solution v =
     list_ex (\<lambda>minterm. list_all (\<lambda>i. (minterm ! i = One \<longrightarrow> bit v i) \<and> (minterm ! i = Zero \<longrightarrow> \<not> bit v i)) [0..<6]) solution"

definition solves_minterms :: "(nat list \<Rightarrow> MinTerm list) \<Rightarrow> bool" where
  "solves_minterms minimize_boolean \<longleftrightarrow>
     (\<forall>on. list_all (\<lambda>v. v < 64) on \<longrightarrow>
        (\<forall>v < 64. eval_boolean (minimize_boolean on) v \<longleftrightarrow> v \<in> set on))"

lemma bit_fold_set_bit:
  "bit (fold (\<lambda>b r. if P b then set_bit b r else r) bs r) j \<longleftrightarrow> bit r j \<or> j \<in> set bs \<and> j < LENGTH('a) \<and> P j"
  for r :: "'a::len word"
  by (induction bs arbitrary: r) (auto simp: bit_set_bit_iff possible_bit_word)

lemma bit_minimize:
  "bit (minimize mb mapping) b \<longleftrightarrow> b < 6 \<and> (\<exists>minterm \<in> set (mb (filter (bit mapping) [0..<64])). minterm ! b \<noteq> Dash)"
proof -
  have "bit (fold (\<lambda>minterm result. fold (\<lambda>b result. if minterm ! b \<noteq> Dash then set_bit b result else result)
          [0..<InputBits] result) terms r) b
     \<longleftrightarrow> bit r b \<or> b < 6 \<and> (\<exists>minterm \<in> set terms. minterm ! b \<noteq> Dash)" for terms and r :: "6 word"
  proof (induction terms arbitrary: r)
    case (Cons m ms)
    have "bit (fold (\<lambda>b result. if m ! b \<noteq> Dash then set_bit b result else result) [0..<InputBits] r) b
       \<longleftrightarrow> bit r b \<or> b < 6 \<and> m ! b \<noteq> Dash"
      unfolding bit_fold_set_bit by (auto simp: InputBits_def)
    then show ?case unfolding fold_simps comp_apply Cons.IH by auto
  qed simp
  from this [where r = 0] show ?thesis by (simp add: minimize_def Let_def)
qed

text \<open>An input that is not used has no influence on the mapping.\<close>

lemma unused_inputs:
  assumes "solves_minterms mb" "v < 64" "v' < 64" "\<And>i. bit (minimize mb mapping) i \<Longrightarrow> bit v i = bit v' i"
  shows "bit mapping v = bit mapping v'"
proof -
  define on where "on = filter (bit mapping) [0..<64]"
  have "eval_boolean (mb on) v \<longleftrightarrow> eval_boolean (mb on) v'"
  proof -
    have "bit v i = bit v' i" if "minterm \<in> set (mb on)" "minterm ! i \<noteq> Dash" "i < 6" for minterm i
      using assms(4) [of i] that unfolding bit_minimize on_def by blast
    then have "list_all (\<lambda>i. (minterm ! i = One \<longrightarrow> bit v i) \<and> (minterm ! i = Zero \<longrightarrow> \<not> bit v i)) [0..<6]
      = list_all (\<lambda>i. (minterm ! i = One \<longrightarrow> bit v' i) \<and> (minterm ! i = Zero \<longrightarrow> \<not> bit v' i)) [0..<6]"
      if "minterm \<in> set (mb on)" for minterm
      using that unfolding list_all_iff by (intro ball_cong refl) (metis TermValue.distinct(3,5) atLeastLessThan_iff set_upt)
    then show ?thesis unfolding eval_boolean_def list_ex_iff by blast
  qed
  moreover have "list_all (\<lambda>v. v < 64) on" by (simp add: on_def list_all_iff)
  ultimately have "v \<in> set on \<longleftrightarrow> v' \<in> set on"
    using assms(1-3) unfolding solves_minterms_def by blast
  then show ?thesis using assms(2,3) by (simp add: on_def)
qed

section \<open>The levels of the inputs\<close>

definition input_levels :: "Trace list \<Rightarrow> SampleTime \<Rightarrow> nat" where
  "input_levels inputs t = horner_sum of_bool 2 (map (\<lambda>trace. sim_edge_at t trace = Rising) inputs)"

definition inputs_known :: "6 word \<Rightarrow> Trace list \<Rightarrow> SampleTime \<Rightarrow> bool" where
  "inputs_known used inputs t \<longleftrightarrow> (\<forall>i < length inputs. bit used i \<longrightarrow> sim_edge_at t (inputs ! i) \<noteq> Unknown)"

lemma bit_input_levels: "bit (input_levels inputs t) i \<longleftrightarrow> i < length inputs \<and> sim_edge_at t (inputs ! i) = Rising"
  by (auto simp: input_levels_def bit_horner_sum_bit_iff)

lemma nat_less_bits: "(\<And>i. bit v i \<Longrightarrow> i < n) \<Longrightarrow> v < 2 ^ n" for v :: nat
proof -
  assume "\<And>i. bit v i \<Longrightarrow> i < n"
  then have "take_bit n v = v" by (intro bit_eqI) (auto simp: bit_take_bit_iff)
  then show ?thesis by (simp add: take_bit_nat_eq_self_iff)
qed

lemma input_combination_spec:
  "\<exists>c'. input_combination used t n (map Some inputs) c =
      Some (if \<forall>i < length inputs. bit used (n + i) \<longrightarrow> sim_edge_at t (inputs ! i) \<noteq> Unknown then Some c' else None)
    \<and> (\<forall>j. bit c' j \<longleftrightarrow> bit c j \<or> n \<le> j \<and> j < n + length inputs \<and> bit used j \<and> sim_edge_at t (inputs ! (j - n)) = Rising)"
proof (induction inputs arbitrary: n c)
  case Nil
  show ?case by auto
next
  case (Cons trace inputs)
  let ?c = "if bit used n \<and> sim_edge_at t trace = Rising then c OR push_bit n 1 else c"
  obtain c' where c': "input_combination used t (n + 1) (map Some inputs) ?c =
      Some (if \<forall>i < length inputs. bit used (n + 1 + i) \<longrightarrow> sim_edge_at t (inputs ! i) \<noteq> Unknown then Some c' else None)"
    "\<And>j. bit c' j \<longleftrightarrow> bit ?c j \<or> n + 1 \<le> j \<and> j < n + 1 + length inputs \<and> bit used j
       \<and> sim_edge_at t (inputs ! (j - (n + 1))) = Rising"
    using Cons.IH [of "n + 1" ?c] by blast
  have all: "(\<forall>i < length (trace # inputs). bit used (n + i) \<longrightarrow> sim_edge_at t ((trace # inputs) ! i) \<noteq> Unknown) \<longleftrightarrow>
      (bit used n \<longrightarrow> sim_edge_at t trace \<noteq> Unknown)
      \<and> (\<forall>i < length inputs. bit used (n + 1 + i) \<longrightarrow> sim_edge_at t (inputs ! i) \<noteq> Unknown)"
    by (auto simp: All_less_Suc2)
  have bits: "bit c' j \<longleftrightarrow> bit c j \<or> n \<le> j \<and> j < n + length (trace # inputs) \<and> bit used j
      \<and> sim_edge_at t ((trace # inputs) ! (j - n)) = Rising" for j
  proof -
    have "bit ((2 :: nat) ^ n) j \<longleftrightarrow> j = n" by (auto simp: bit_exp_iff)
    then show ?thesis unfolding c'(2) by (cases "j = n") (auto simp: bit_or_iff nth_Cons' Suc_le_eq)
  qed
  have "input_combination used t n (map Some (trace # inputs)) c = Some
      (if \<forall>i < length (trace # inputs). bit used (n + i) \<longrightarrow> sim_edge_at t ((trace # inputs) ! i) \<noteq> Unknown
       then Some c' else None)"
    unfolding all using c'(1) by (cases "sim_edge_at t trace"; cases "bit used n") simp_all
  with bits show ?case by blast
qed

text \<open>The combination of the used inputs selects the same entry as the levels of all inputs.\<close>

lemma combination_levels:
  assumes "solves_minterms mb" "length inputs = 6"
  shows "if inputs_known (minimize mb mapping) inputs t
     then \<exists>c < 64. input_combination (minimize mb mapping) t 0 (map Some inputs) 0 = Some (Some c)
       \<and> bit mapping c = bit mapping (input_levels inputs t)
     else input_combination (minimize mb mapping) t 0 (map Some inputs) 0 = Some None"
proof -
  let ?used = "minimize mb mapping"
  obtain c where c: "input_combination ?used t 0 (map Some inputs) 0
      = Some (if inputs_known ?used inputs t then Some c else None)"
    "\<And>j. bit c j \<longleftrightarrow> j < 6 \<and> bit ?used j \<and> sim_edge_at t (inputs ! j) = Rising"
    using input_combination_spec [of ?used t 0 inputs 0] assms(2) by (auto simp: inputs_known_def)
  have "c < 64" using nat_less_bits [of c 6] c(2) by simp
  moreover have "input_levels inputs t < 64"
    using nat_less_bits [of "input_levels inputs t" 6] assms(2) by (simp add: bit_input_levels)
  ultimately have "bit mapping c = bit mapping (input_levels inputs t)"
    by (rule unused_inputs [OF assms(1)]) (simp add: c(2) bit_input_levels assms(2) bit_minimize)
  with \<open>c < 64\<close> c(1) show ?thesis by auto
qed

section \<open>The edges of the inputs\<close>

definition edges_after :: "SampleTime \<Rightarrow> Trace list \<Rightarrow> SampleTime set" where
  "edges_after t0 inputs = {t. t0 < t \<and> (\<exists>trace \<in> set inputs. t \<in> s_time ` set trace)}"

text \<open>The times of the edges of the inputs after time 0.\<close>

definition event_times :: "Trace list \<Rightarrow> SampleTime list" where
  "event_times inputs = sorted_list_of_set (edges_after 0 inputs)"

lemma finite_edges [simp]: "finite (edges_after t0 inputs)"
proof -
  have "edges_after t0 inputs \<subseteq> (\<Union>trace \<in> set inputs. s_time ` set trace)" by (auto simp: edges_after_def)
  then show ?thesis by (rule finite_subset) simp
qed

lemma edges_after_Cons:
  "edges_after t0 (trace # traces) = {t \<in> s_time ` set trace. t0 < t} \<union> edges_after t0 traces"
  by (auto simp: edges_after_def)

lemma find_first_after:
  "ordered trace \<Longrightarrow> find (\<lambda>s. t0 < s_time s) trace = None \<longleftrightarrow> {t \<in> s_time ` set trace. t0 < t} = {}"
  "ordered trace \<Longrightarrow> find (\<lambda>s. t0 < s_time s) trace = Some s \<Longrightarrow> s_time s = Min {t \<in> s_time ` set trace. t0 < t}
     \<and> {t \<in> s_time ` set trace. t0 < t} \<noteq> {}"
proof -
  show "find (\<lambda>s. t0 < s_time s) trace = None \<longleftrightarrow> {t \<in> s_time ` set trace. t0 < t} = {}"
    by (auto simp: find_None_iff)
  assume "ordered trace" "find (\<lambda>s. t0 < s_time s) trace = Some s"
  then have "s \<in> set trace \<and> t0 < s_time s \<and> (\<forall>s' \<in> set trace. t0 < s_time s' \<longrightarrow> s_time s \<le> s_time s')"
    by (induction trace) (auto split: if_splits)
  then show "s_time s = Min {t \<in> s_time ` set trace. t0 < t} \<and> {t \<in> s_time ` set trace. t0 < t} \<noteq> {}"
    by (auto intro!: Min_eqI [symmetric])
qed

lemma find_sample_time_after_Min:
  assumes "\<forall>trace \<in> set inputs. ordered trace"
  shows "find_sample_time_after t0 (map Some inputs) result =
    (if edges_after t0 inputs \<union> set_option result = {} then None
     else Some (Min (edges_after t0 inputs \<union> set_option result)))"
  using assms
proof (induction inputs arbitrary: result)
  case Nil
  show ?case by (cases result) (auto simp: edges_after_def)
next
  case (Cons trace traces)
  define new where "new = {t \<in> s_time ` set trace. t0 < t}"
  have [simp]: "finite new" by (simp add: new_def)
  define result' where "result' = (case find (\<lambda>s. t0 < s_time s) trace of None \<Rightarrow> result
    | Some s \<Rightarrow> (case result of None \<Rightarrow> Some (s_time s)
                | Some r \<Rightarrow> if s_time s < r then Some (s_time s) else result))"
  have first: "result' = (if new \<union> set_option result = {} then None else Some (Min (new \<union> set_option result)))"
  proof (cases "find (\<lambda>s. t0 < s_time s) trace")
    case None
    then have empty: "new = {}" using find_first_after(1) Cons.prems by (simp add: new_def)
    show ?thesis unfolding empty using None by (cases result) (simp_all add: result'_def)
  next
    case (Some s)
    then have s: "s_time s = Min new" "new \<noteq> {}" using find_first_after(2) Cons.prems by (auto simp: new_def)
    then show ?thesis using Some by (cases result) (auto simp: result'_def)
  qed
  define B where "B = new \<union> set_option result"
  have B: "finite B" by (cases result) (simp_all add: B_def)
  have "Min (edges_after t0 traces \<union> {Min B}) = Min (edges_after t0 traces \<union> B)" if "B \<noteq> {}"
    using that B by (cases "edges_after t0 traces = {}") (simp_all add: Min_Un flip: insert_is_Un)
  then have "find_sample_time_after t0 (map Some traces) result' =
    (if edges_after t0 traces \<union> B = {} then None else Some (Min (edges_after t0 traces \<union> B)))"
    using Cons.IH [of result'] Cons.prems unfolding first [folded B_def] by (cases "B = {}") simp_all
  moreover have "find_sample_time_after t0 (map Some (trace # traces)) result
      = find_sample_time_after t0 (map Some traces) result'"
    by (simp add: result'_def)
  moreover have "edges_after t0 (trace # traces) \<union> set_option result
      = edges_after t0 traces \<union> B"
    by (auto simp: edges_after_Cons new_def B_def)
  ultimately show ?case by simp
qed

lemma next_event:
  assumes "\<forall>trace \<in> set inputs. ordered trace"
  shows "find_sample_time_after t0 (map Some inputs) None = None \<Longrightarrow> sorted_list_of_set (edges_after t0 inputs) = []"
    and "find_sample_time_after t0 (map Some inputs) None = Some t \<Longrightarrow>
      sorted_list_of_set (edges_after t0 inputs) = t # sorted_list_of_set (edges_after t inputs)"
proof -
  note f = find_sample_time_after_Min [OF assms, of t0 None]
  show "sorted_list_of_set (edges_after t0 inputs) = []" if "find_sample_time_after t0 (map Some inputs) None = None"
    using that by (simp add: f split: if_splits)
  show "sorted_list_of_set (edges_after t0 inputs) = t # sorted_list_of_set (edges_after t inputs)"
    if "find_sample_time_after t0 (map Some inputs) None = Some t"
  proof -
    have t: "t = Min (edges_after t0 inputs)" "edges_after t0 inputs \<noteq> {}"
      using that by (simp_all add: f split: if_splits)
    then have "t \<in> edges_after t0 inputs" "\<forall>t' \<in> edges_after t0 inputs. t \<le> t'" by auto
    then have "edges_after t inputs = edges_after t0 inputs - {t}"
      by (fastforce simp: edges_after_def)
    then show ?thesis using sorted_list_of_set_nonempty [OF finite_edges t(2)] t(1) by simp
  qed
qed

definition strobe_open :: "Trace option \<Rightarrow> SampleTime \<Rightarrow> bool" where
  "strobe_open strobeTrace t \<longleftrightarrow> (case strobeTrace of None \<Rightarrow> True | Some strobe \<Rightarrow> sim_edge_at t strobe = Rising)"

definition level_sample :: "Bitmap \<Rightarrow> Trace list \<Rightarrow> SampleTime \<Rightarrow> Sample" where
  "level_sample mapping inputs t = sample t (if bit mapping (input_levels inputs t) then Rising else Falling)"

lemma lut_loop_events:
  assumes "solves_minterms mb" "length inputs = 6" "\<forall>trace \<in> set inputs. ordered trace"
  shows "lut_loop (minimize mb mapping) mapping (map Some inputs) strobeTrace t0 =
    Some (map (level_sample mapping inputs) (filter (strobe_open strobeTrace)
      (takeWhile (inputs_known (minimize mb mapping) inputs) (sorted_list_of_set (edges_after t0 inputs)))))"
proof (induction "samples_after t0 (map Some inputs)" arbitrary: t0 rule: less_induct)
  case less
  show ?case
  proof (cases "find_sample_time_after t0 (map Some inputs) None")
    case None
    then show ?thesis using next_event(1) [OF assms(3)] by (simp del: lut_loop.simps add: lut_loop.simps [of _ _ _ _ t0])
  next
    case (Some t)
    note IH = less [OF samples_after_less [OF Some]]
    show ?thesis
    proof (cases "inputs_known (minimize mb mapping) inputs t")
      case True
      then obtain c where "c < 64" "input_combination (minimize mb mapping) t 0 (map Some inputs) 0 = Some (Some c)"
        "bit mapping c = bit mapping (input_levels inputs t)"
        using combination_levels [OF assms(1,2), of mapping t] by auto
      then show ?thesis
        unfolding lut_loop.simps [of _ _ _ _ t0] Some option.case IH next_event(2) [OF assms(3) Some]
        using True by (simp del: lut_loop.simps add: strobe_open_def level_sample_def)
    next
      case False
      then have "input_combination (minimize mb mapping) t 0 (map Some inputs) 0 = Some None"
        using combination_levels [OF assms(1,2), of mapping t] by simp
      then show ?thesis
        unfolding lut_loop.simps [of _ _ _ _ t0] Some option.case next_event(2) [OF assms(3) Some]
        using False by simp
    qed
  qed
qed

lemma find_rev: "find P (rev xs) = (if filter P xs = [] then None else Some (last (filter P xs)))"
  by (induction xs rule: rev_induct) auto

lemma sim_edge_at_last:
  "sim_edge_at t trace = (if filter (\<lambda>s. s_time s \<le> t) trace = [] then Unknown
     else s_edge (last (filter (\<lambda>s. s_time s \<le> t) trace)))"
  by (simp add: sim_edge_at_def find_rev)

text \<open>The two searches for the edge at a time agree on ordered traces from the first sample on. Before
  it the search of the oscilloscope gives a low level and the search of the simulation an unknown one.\<close>

theorem edge_at_agree:
  assumes "ordered trace"
  shows "edge_at trace t =
    (if \<exists>s \<in> set trace. s_time s \<le> t then sim_edge_at t trace else Falling)
    \<and> ((\<forall>s \<in> set trace. t < s_time s) \<longrightarrow> sim_edge_at t trace = Unknown)"
proof -
  have "edge_at trace t = (if filter (\<lambda>s. s_time s \<le> t) trace = [] then Falling
      else s_edge (last (filter (\<lambda>s. s_time s \<le> t) trace)))"
    unfolding edge_at_def edge_at_from_last [OF assms] by (simp split: list.split)
  moreover have "filter (\<lambda>s. s_time s \<le> t) trace = [] \<longleftrightarrow> \<not> (\<exists>s \<in> set trace. s_time s \<le> t)"
    by (auto simp: filter_empty_conv)
  ultimately show ?thesis unfolding sim_edge_at_last by (auto simp: not_less)
qed

theorem edge_at_agree_witness:
  "edge_at example_input 7 = (if \<exists>s \<in> set example_input. s_time s \<le> 7 then sim_edge_at 7 example_input else Falling)
    \<and> ((\<forall>s \<in> set example_input. 7 < s_time s) \<longrightarrow> sim_edge_at 7 example_input = Unknown)"
  by (rule edge_at_agree) (simp add: example_input_def)

section \<open>What a LUT computes\<close>

lemma single_output_dynamic:
  assumes "solves_minterms mb" "length inputs = 6" "\<forall>trace \<in> set inputs. ordered trace" "minimize mb mapping \<noteq> 0"
  shows "simulate_single_lut_output mb mapping (map Some inputs) outTrace strobeTrace maxtime =
    Some (outTrace @ map (level_sample mapping inputs) (filter (strobe_open strobeTrace)
      (takeWhile (inputs_known (minimize mb mapping) inputs) (event_times inputs))))"
  using assms by (simp add: simulate_single_lut_output_def Let_def lut_loop_events event_times_def del: lut_loop.simps)

lemma static_mapping:
  assumes "solves_minterms mb" "minimize mb mapping = 0" "v < 64"
  shows "bit mapping v = bit mapping 0"
  using assms by (intro unused_inputs [OF assms(1)]) simp_all

text \<open>The simulation of a LUT output. If the minimized mapping uses no input, the mapping is constant and the
  output has its level at the start and the end of the simulated time; a high level behind a strobe gives
  the strobe. Otherwise there is one sample for every edge of any input after time 0, in order, with
  the level the mapping gives for the levels of all inputs at that time; edges outside of the strobe are left out,
  and the simulation ends at the first edge at which an input that is used has no known level.\<close>

theorem lut_output_samples:
  assumes "solves_minterms mb" "length inputs = 6" "\<forall>trace \<in> set inputs. ordered trace"
  shows "(if minimize mb mapping = 0
     then (\<forall>v < 64. bit mapping v = bit mapping 0)
       \<and> simulate_single_lut_output mb mapping (map Some inputs) outTrace strobeTrace maxtime = Some (outTrace @
           (case (strobeTrace, bit mapping 0) of (Some strobe, True) \<Rightarrow> strobe
            | (_, high) \<Rightarrow> [sample 0 (if high then Rising else Falling), sample maxtime (if high then Rising else Falling)]))
     else simulate_single_lut_output mb mapping (map Some inputs) outTrace strobeTrace maxtime = Some (outTrace @
       map (\<lambda>t. sample t (if bit mapping (input_levels inputs t) then Rising else Falling))
         (filter (\<lambda>t. case strobeTrace of None \<Rightarrow> True | Some strobe \<Rightarrow> sim_edge_at t strobe = Rising)
           (takeWhile (\<lambda>t. \<forall>i < length inputs. bit (minimize mb mapping) i \<longrightarrow> sim_edge_at t (inputs ! i) \<noteq> Unknown)
             (sorted_list_of_set {t. 0 < t \<and> (\<exists>trace \<in> set inputs. t \<in> s_time ` set trace)})))))"
proof (cases "minimize mb mapping = 0")
  case True
  then show ?thesis
    using static_mapping [OF assms(1) True]
    by (cases strobeTrace; cases "bit mapping 0") (simp_all add: simulate_single_lut_output_def)
next
  case False
  then show ?thesis
    using single_output_dynamic [OF assms False, of outTrace strobeTrace maxtime]
    by (simp add: level_sample_def [abs_def] strobe_open_def [abs_def] inputs_known_def [abs_def] event_times_def
        edges_after_def)
qed

text \<open>Between two edges of the inputs nothing changes.\<close>

lemma levels_between:
  assumes "e \<le> t" "\<forall>x \<in> edges_after e inputs. t < x" "trace \<in> set inputs"
  shows "sim_edge_at t trace = sim_edge_at e trace"
proof -
  have "s_time s \<le> t \<longleftrightarrow> s_time s \<le> e" if "s \<in> set trace" for s
  proof
    assume s: "s_time s \<le> t"
    show "s_time s \<le> e"
    proof (rule ccontr)
      assume "\<not> s_time s \<le> e"
      then have "s_time s \<in> edges_after e inputs" using that assms(3) by (auto simp: edges_after_def)
      with assms(2) s show False by auto
    qed
  qed (use assms(1) in simp)
  then have "filter (\<lambda>s. s_time s \<le> t) trace = filter (\<lambda>s. s_time s \<le> e) trace" by (rule filter_cong [OF refl])
  then show ?thesis by (simp add: sim_edge_at_last)
qed

lemma sorted_last: "sorted xs \<Longrightarrow> x \<in> set xs \<Longrightarrow> x \<le> last xs" for xs :: "int list"
  by (induction xs) auto

lemma sorted_last_le:
  fixes ts :: "int list"
  assumes "sorted ts" "filter (\<lambda>x. x \<le> t) ts \<noteq> []"
  shows "last (filter (\<lambda>x. x \<le> t) ts) \<in> set ts" "last (filter (\<lambda>x. x \<le> t) ts) \<le> t"
    "x \<in> set ts \<Longrightarrow> x \<le> t \<Longrightarrow> x \<le> last (filter (\<lambda>x. x \<le> t) ts)"
proof -
  show "x \<in> set ts \<Longrightarrow> x \<le> t \<Longrightarrow> x \<le> last (filter (\<lambda>x. x \<le> t) ts)"
    using assms(1) by (intro sorted_last) (auto intro: sorted_wrt_filter)
  show "last (filter (\<lambda>x. x \<le> t) ts) \<in> set ts" "last (filter (\<lambda>x. x \<le> t) ts) \<le> t"
    using last_in_set [OF assms(2)] by auto
qed

lemma filter_takeWhile:
  "sorted ts \<Longrightarrow> \<forall>x \<in> set ts. x \<le> t \<longrightarrow> K x \<Longrightarrow>
   filter (\<lambda>x. x \<le> t) (takeWhile K ts) = filter (\<lambda>x. x \<le> t) ts" for ts :: "int list"
proof (induction ts)
  case (Cons x xs)
  have "filter (\<lambda>x. x \<le> t) (x # xs) = []" if "\<not> K x"
    using Cons.prems that by (auto simp: filter_empty_conv)
  with Cons show ?case by (cases "K x") auto
qed simp

text \<open>The processed edges up to a time: all of them, or those before the first one with an unknown input.\<close>

lemma takeWhile_below:
  assumes "sorted xs" "u \<in> set xs" "\<not> P u" "\<forall>x \<in> set xs. x < u \<longrightarrow> P x"
  shows "takeWhile P xs = filter (\<lambda>x. x < u) (xs :: int list)"
  using assms
proof (induction xs)
  case (Cons x xs)
  then show ?case
  proof (cases "x < u")
    case False
    then have "x = u" using Cons.prems(1,2) by fastforce
    moreover have "filter (\<lambda>y. y < u) xs = []" using Cons.prems(1) \<open>x = u\<close> by (fastforce simp: filter_empty_conv)
    ultimately show ?thesis using Cons.prems(3) by simp
  qed (auto simp: Cons.prems)
qed simp

text \<open>C5: the level of the simulated trace of a LUT output without strobe whose mapping depends on an input. Before the
  first edge of the inputs after time 0 there is no level. From this edge on, as long as all inputs that are used have known levels
  at all edges so far, it is the mapping applied to the levels of the inputs at that time. From the first edge on at
  which a used input has no known level, the output stays at the level it had before.\<close>

theorem lut_output_levels:
  assumes "solves_minterms mb" "length inputs = 6" "\<forall>trace \<in> set inputs. ordered trace" "minimize mb mapping \<noteq> 0"
  shows "\<exists>trace. simulate_single_lut_output mb mapping (map Some inputs) [] None maxtime = Some trace
    \<and> (\<forall>t. (\<forall>x \<in> set (event_times inputs). t < x) \<longrightarrow> sim_edge_at t trace = Unknown)
    \<and> (\<forall>t. (\<exists>x \<in> set (event_times inputs). x \<le> t)
          \<and> (\<forall>x \<in> set (event_times inputs). x \<le> t \<longrightarrow> inputs_known (minimize mb mapping) inputs x)
        \<longrightarrow> sim_edge_at t trace = (if bit mapping (input_levels inputs t) then Rising else Falling))
    \<and> (\<forall>t u. u \<in> set (event_times inputs) \<and> \<not> inputs_known (minimize mb mapping) inputs u
          \<and> (\<forall>x \<in> set (event_times inputs). x < u \<longrightarrow> inputs_known (minimize mb mapping) inputs x) \<and> u \<le> t
        \<longrightarrow> sim_edge_at t trace = sim_edge_at (u - 1) trace)"
proof -
  let ?ts = "event_times inputs" and ?K = "inputs_known (minimize mb mapping) inputs"
  define trace where "trace = map (level_sample mapping inputs) (takeWhile ?K ?ts)"
  have run: "simulate_single_lut_output mb mapping (map Some inputs) [] None maxtime = Some trace"
    using single_output_dynamic [OF assms(1-4), of "[]" None maxtime] by (simp add: strobe_open_def trace_def)
  have sorted: "sorted ?ts" by (simp add: event_times_def)
  have upto: "filter (\<lambda>s. s_time s \<le> t) trace = map (level_sample mapping inputs) (filter (\<lambda>x. x \<le> t) (takeWhile ?K ?ts))" for t
    unfolding trace_def filter_map by (simp add: comp_def level_sample_def)
  have before: "sim_edge_at t trace = Unknown" if "\<forall>x \<in> set ?ts. t < x" for t
  proof -
    have "filter (\<lambda>x. x \<le> t) (takeWhile ?K ?ts) = []" using that by (force simp: filter_empty_conv dest: set_takeWhileD)
    then show ?thesis using upto [of t] by (simp add: sim_edge_at_last)
  qed
  have known: "sim_edge_at t trace = (if bit mapping (input_levels inputs t) then Rising else Falling)"
    if "\<exists>x \<in> set ?ts. x \<le> t" "\<forall>x \<in> set ?ts. x \<le> t \<longrightarrow> ?K x" for t
  proof -
    have early: "filter (\<lambda>x. x \<le> t) (takeWhile ?K ?ts) = filter (\<lambda>x. x \<le> t) ?ts" by (rule filter_takeWhile [OF sorted that(2)])
    let ?e = "last (filter (\<lambda>x. x \<le> t) ?ts)"
    have ne: "filter (\<lambda>x. x \<le> t) ?ts \<noteq> []" using that(1) by (auto simp: filter_empty_conv)
    note e = sorted_last_le [OF sorted ne]
    have "sim_edge_at t trace = (if bit mapping (input_levels inputs ?e) then Rising else Falling)"
      using ne upto [of t] by (simp add: early sim_edge_at_last last_map level_sample_def)
    moreover have "\<forall>x \<in> edges_after ?e inputs. t < x"
    proof
      fix x
      assume x: "x \<in> edges_after ?e inputs"
      then have "x \<in> set ?ts" using e(1) by (auto simp: event_times_def edges_after_def)
      then show "t < x" using e(3) [of x] x by (force simp: edges_after_def)
    qed
    then have "input_levels inputs t = input_levels inputs ?e"
      using levels_between [OF e(2)] unfolding input_levels_def
      by (intro arg_cong [where f = "horner_sum of_bool 2"] map_cong refl) simp
    ultimately show ?thesis by simp
  qed
  have stays: "sim_edge_at t trace = sim_edge_at (u - 1) trace"
    if "u \<in> set ?ts" "\<not> ?K u" "\<forall>x \<in> set ?ts. x < u \<longrightarrow> ?K x" "u \<le> t" for t u
  proof -
    note processed = takeWhile_below [OF sorted that(1-3)]
    have "filter (\<lambda>x. x \<le> t) (takeWhile ?K ?ts) = filter (\<lambda>x. x \<le> u - 1) (takeWhile ?K ?ts)"
      unfolding processed filter_filter using that(4) by (intro filter_cong refl) auto
    then show ?thesis using upto [of t] upto [of "u - 1"] by (simp add: sim_edge_at_last)
  qed
  show ?thesis using run before known stays by blast
qed

text \<open>The canonical sum of products is a solution: one term per entry.\<close>

definition all_minterms :: "nat list \<Rightarrow> MinTerm list" where
  "all_minterms on = map (\<lambda>v. map (\<lambda>i. if bit v i then One else Zero) [0..<6]) on"

lemma all_minterms_solve: "solves_minterms all_minterms"
  unfolding solves_minterms_def
proof (intro allI impI)
  fix on :: "nat list" and v :: nat
  assume on: "list_all (\<lambda>v. v < 64) on" and v: "v < 64"
  have eq: "w = v \<longleftrightarrow> (\<forall>i < 6. bit w i = bit v i)" if "w < 64" for w
  proof
    assume bits: "\<forall>i < 6. bit w i = bit v i"
    have "take_bit 6 w = take_bit 6 v" using bits by (intro bit_eqI) (auto simp: bit_take_bit_iff)
    moreover have "take_bit 6 w = w" "take_bit 6 v = v" using that v by (simp_all add: take_bit_nat_eq_self)
    ultimately show "w = v" by simp
  qed simp
  have "eval_boolean (all_minterms on) v \<longleftrightarrow> (\<exists>w \<in> set on. \<forall>i < 6. bit w i = bit v i)"
  proof -
    have "list_all (\<lambda>i. (map (\<lambda>i. if bit w i then One else Zero) [0..<6] ! i = One \<longrightarrow> bit v i)
        \<and> (map (\<lambda>i. if bit w i then One else Zero) [0..<6] ! i = Zero \<longrightarrow> \<not> bit v i)) [0..<6]
      \<longleftrightarrow> (\<forall>i < 6. bit w i = bit v i)" for w
      by (auto simp: list_all_iff simp del: upt_rec_numeral)
    then show ?thesis unfolding eval_boolean_def all_minterms_def list_ex_iff by auto
  qed
  also have "\<dots> \<longleftrightarrow> v \<in> set on" using on eq by (auto simp: list_all_iff)
  finally show "eval_boolean (all_minterms on) v \<longleftrightarrow> v \<in> set on" .
qed

definition example_inputs :: "Trace list" where
  "example_inputs = [sample 0 Falling, sample 10 Rising, sample 40 Falling] # [sample 0 Falling, sample 20 Rising]
     # replicate 4 [sample 0 Falling]"

definition example_mapping :: Bitmap where
  "example_mapping = push_bit 3 1"

lemma example_inputs_ordered: "\<forall>trace \<in> set example_inputs. ordered trace"
  by (simp add: example_inputs_def)

lemma example_minimize: "minimize all_minterms example_mapping = 63"
  by code_simp

lemma example_output:
  "simulate_single_lut_output all_minterms example_mapping (map Some example_inputs) [] None 100
   = Some [sample 10 Falling, sample 20 Rising, sample 40 Falling]"
  by code_simp

theorem lut_output_samples_witness:
  "map (level_sample example_mapping example_inputs)
     (takeWhile (inputs_known (minimize all_minterms example_mapping) example_inputs) (event_times example_inputs))
   = [sample 10 Falling, sample 20 Rising, sample 40 Falling]"
proof -
  have six: "length example_inputs = 6" by (simp add: example_inputs_def)
  show ?thesis
    using lut_output_samples [OF all_minterms_solve six example_inputs_ordered, of example_mapping "[]" None 100]
    by (simp add: example_minimize example_output level_sample_def [abs_def] inputs_known_def [abs_def]
      event_times_def edges_after_def)
qed

lemma example_events: "set (event_times example_inputs) = {10, 20, 40}"
  by (auto simp: event_times_def edges_after_def example_inputs_def)

text \<open>An output that stays low: its second input has no sample before time 20.\<close>

definition late_inputs :: "Trace list" where
  "late_inputs = [sample 0 Falling, sample 10 Rising, sample 40 Falling] # [sample 20 Rising] # replicate 4 [sample 0 Falling]"

theorem lut_output_levels_witness:
  "(\<exists>trace. simulate_single_lut_output all_minterms example_mapping (map Some example_inputs) [] None 100 = Some trace
    \<and> sim_edge_at 9 trace = Unknown
    \<and> sim_edge_at 33 trace = (if bit example_mapping (input_levels example_inputs 33) then Rising else Falling))
  \<and> (\<exists>trace. simulate_single_lut_output all_minterms example_mapping (map Some late_inputs) [] None 100 = Some trace
    \<and> sim_edge_at 50 trace = sim_edge_at 9 trace)"
proof -
  have six: "length example_inputs = 6" "length late_inputs = 6" by (simp_all add: example_inputs_def late_inputs_def)
  have ordered: "\<forall>trace \<in> set late_inputs. ordered trace" by (simp add: late_inputs_def)
  have min: "minimize all_minterms example_mapping \<noteq> 0" by (simp add: example_minimize)
  have "list_all (\<lambda>trace. sim_edge_at 10 trace \<noteq> Unknown \<and> sim_edge_at 20 trace \<noteq> Unknown) example_inputs"
    by code_simp
  then have known: "inputs_known 63 example_inputs 10" "inputs_known 63 example_inputs 20"
    by (simp_all add: inputs_known_def list_all_length)
  have late: "set (event_times late_inputs) = {10, 20, 40}" by (auto simp: event_times_def edges_after_def late_inputs_def)
  have "sim_edge_at 10 (late_inputs ! 1) = Unknown" "length late_inputs = 6" by code_simp+
  then have unknown: "\<not> inputs_known 63 late_inputs 10"
    unfolding inputs_known_def by (intro notI) (drule spec [of _ 1], simp add: bit_numeral_rec)
  obtain tr where tr: "simulate_single_lut_output all_minterms example_mapping (map Some example_inputs) [] None 100 = Some tr"
    "\<forall>t. (\<forall>x \<in> {10, 20, 40}. t < x) \<longrightarrow> sim_edge_at t tr = Unknown"
    "\<forall>t. (\<exists>x \<in> {10, 20, 40}. x \<le> t) \<and> (\<forall>x \<in> {10, 20, 40}. x \<le> t \<longrightarrow> inputs_known 63 example_inputs x)
      \<longrightarrow> sim_edge_at t tr = (if bit example_mapping (input_levels example_inputs t) then Rising else Falling)"
    using lut_output_levels [OF all_minterms_solve six(1) example_inputs_ordered min, of 100]
    unfolding example_minimize example_events by blast
  obtain tr' where tr': "simulate_single_lut_output all_minterms example_mapping (map Some late_inputs) [] None 100 = Some tr'"
    "\<forall>t u. u \<in> {10, 20, 40} \<and> \<not> inputs_known 63 late_inputs u \<and> (\<forall>x \<in> {10, 20, 40}. x < u \<longrightarrow> inputs_known 63 late_inputs x) \<and> u \<le> t
      \<longrightarrow> sim_edge_at t tr' = sim_edge_at (u - 1) tr'"
    using lut_output_levels [OF all_minterms_solve six(2) ordered min, of 100]
    unfolding example_minimize late by blast
  have "sim_edge_at 9 tr = Unknown" "sim_edge_at 33 tr = (if bit example_mapping (input_levels example_inputs 33) then Rising else Falling)"
    "sim_edge_at 50 tr' = sim_edge_at 9 tr'"
    using tr(2) [THEN spec, of 9] tr(3) [THEN spec, of 33] tr'(2) [THEN spec, THEN spec, of 10 50] known unknown by simp_all
  then show ?thesis using tr(1) tr'(1) by blast
qed

end
