(* ===== verification/Trigger_Sim_Run.thy ===== *)
theory Trigger_Sim_Run
  imports Trigger_Gates
begin

text \<open>
  The complete simulation of the Trigger I/O module: it runs without failed assertion, null pointer or
  access out of bounds that matters, gives the same result when it is run again, keeps all times in the
  range in which \<^verbatim>\<open>float\<close> is exact, and ignores the dynamic inputs of the LUT that has them on level 1.
\<close>

section \<open>Well-formed simulations\<close>

definition wf_sim :: "Sim \<Rightarrow> bool" where
  "wf_sim sim \<longleftrightarrow> wf_trigger_io (trigIO sim) \<and> valid_connections (trigIO sim)
     \<and> list_all (\<lambda>lut. strobedOutputs lut = 0) (l1_luts (l1 (trigIO sim)))
     \<and> length (l0_traces sim) = 39 \<and> map length (sim_l1_luts sim) = replicate 7 4
     \<and> map length (sim_l2_luts sim) = replicate 3 4 \<and> length (l3_traces sim) = 33"

text \<open>What every step keeps.\<close>

definition same_shape :: "Sim \<Rightarrow> Sim \<Rightarrow> bool" where
  "same_shape sim sim' \<longleftrightarrow> trigIO sim' = trigIO sim \<and> sampledTraces sim' = sampledTraces sim
     \<and> length (l0_traces sim') = length (l0_traces sim) \<and> map length (sim_l1_luts sim') = map length (sim_l1_luts sim)
     \<and> map length (sim_l2_luts sim') = map length (sim_l2_luts sim) \<and> length (l3_traces sim') = length (l3_traces sim)"

lemma same_shape_refl [simp]: "same_shape sim sim"
  by (simp add: same_shape_def)

lemma same_shape_trans: "same_shape a b \<Longrightarrow> same_shape b c \<Longrightarrow> same_shape a c"
  by (simp add: same_shape_def)

lemma wf_sim_shape: "same_shape sim sim' \<Longrightarrow> wf_sim sim' = wf_sim sim"
  by (simp add: same_shape_def wf_sim_def)

lemma nested_update_length:
  "map length (xss[u := (xss ! u)[out := x]]) = map length xss"
  by (cases "u < length xss") (simp_all add: map_update list_update_same_conv not_less list_update_beyond)

lemma put_output_shape: "same_shape sim (put_output_trace sim a trace)"
  by (cases a) (simp add: same_shape_def nested_update_length)

text \<open>The output traces a simulation has.\<close>

fun output_address :: "UnitAddress \<Rightarrow> bool" where
  "output_address (level, unit, out) \<longleftrightarrow>
     level = 0 \<and> unit < 39 \<or> level = 1 \<and> unit < 7 \<and> out < 4 \<or> level = 2 \<and> unit < 3 \<and> out < 4
     \<or> level = 3 \<and> unit < 33"

lemma nested_length:
  assumes "map length xss = replicate n k" "u < n"
  shows "u < length xss" "length (xss ! u) = k"
proof -
  show u: "u < length xss" using arg_cong [OF assms(1), of length] assms(2) by simp
  show "length (xss ! u) = k" using arg_cong [OF assms(1), of "\<lambda>l. l ! u"] u assms(2) by simp
qed

lemma lookup_output_defined:
  assumes "wf_sim sim" "output_address a"
  shows "\<exists>trace. lookup_output_trace sim a = Some trace"
proof -
  obtain l u out where a: "a = (l, u, out)" by (cases a) auto
  show ?thesis
    using assms nested_length [of "sim_l1_luts sim" 7 4 u] nested_length [of "sim_l2_luts sim" 3 4 u]
    by (auto simp: a wf_sim_def)
qed

section \<open>Times in a range\<close>

definition within :: "SampleTime \<Rightarrow> SampleTime \<Rightarrow> Trace \<Rightarrow> bool" where
  "within lo hi trace \<longleftrightarrow> (\<forall>s \<in> set trace. lo \<le> s_time s \<and> s_time s \<le> hi)"

lemma within_simps [simp]:
  "within lo hi []" "within lo hi (s # ss) \<longleftrightarrow> lo \<le> s_time s \<and> s_time s \<le> hi \<and> within lo hi ss"
  "within lo hi (xs @ ys) \<longleftrightarrow> within lo hi xs \<and> within lo hi ys"
  by (auto simp: within_def)

lemma within_mono: "within lo hi trace \<Longrightarrow> hi \<le> hi' \<Longrightarrow> within lo hi' trace"
  by (force simp: within_def)

definition sim_within :: "SampleTime \<Rightarrow> SampleTime \<Rightarrow> Sim \<Rightarrow> bool" where
  "sim_within lo hi sim \<longleftrightarrow> (\<forall>trace \<in> set (l0_traces sim). within lo hi trace)
     \<and> (\<forall>traces \<in> set (sim_l1_luts sim). \<forall>trace \<in> set traces. within lo hi trace)
     \<and> (\<forall>traces \<in> set (sim_l2_luts sim). \<forall>trace \<in> set traces. within lo hi trace)
     \<and> (\<forall>trace \<in> set (l3_traces sim). within lo hi trace)"

lemma sim_within_mono: "sim_within lo hi sim \<Longrightarrow> hi \<le> hi' \<Longrightarrow> sim_within lo hi' sim"
  unfolding sim_within_def using within_mono by blast

lemma set_nested_update:
  assumes "\<forall>xs \<in> set xss. \<forall>x \<in> set xs. P x" "P x"
  shows "\<forall>xs \<in> set (xss[u := (xss ! u)[out := x]]). \<forall>x \<in> set xs. P x"
proof (cases "u < length xss")
  case True
  then have "\<forall>y \<in> set ((xss ! u)[out := x]). P y"
    using assms nth_mem [OF True] set_update_subset_insert [of "xss ! u" out x] by blast
  then show ?thesis using assms(1) set_update_subset_insert [of xss u "(xss ! u)[out := x]"] by blast
qed (simp add: assms not_less list_update_beyond)

lemma set_flat_update: "\<forall>x \<in> set xs. P x \<Longrightarrow> P y \<Longrightarrow> \<forall>x \<in> set (xs[u := y]). P x"
  using set_update_subset_insert [of xs u y] by blast

lemma put_output_within:
  assumes "sim_within lo hi sim" "within lo hi trace"
  shows "sim_within lo hi (put_output_trace sim a trace)"
proof -
  obtain l u out where a: "a = (l, u, out)" by (cases a) auto
  have w: "\<forall>t \<in> set (l0_traces sim). within lo hi t" "\<forall>ts \<in> set (sim_l1_luts sim). \<forall>t \<in> set ts. within lo hi t"
    "\<forall>ts \<in> set (sim_l2_luts sim). \<forall>t \<in> set ts. within lo hi t" "\<forall>t \<in> set (l3_traces sim). within lo hi t"
    using assms(1) unfolding sim_within_def by blast+
  note u = set_flat_update [OF w(1) assms(2), of u] set_nested_update [OF w(2) assms(2), of u out]
    set_nested_update [OF w(3) assms(2), of u out] set_flat_update [OF w(4) assms(2), of u]
  show ?thesis
    unfolding a put_output_trace.simps sim_within_def using w u
    by (cases sim; cases "l = 0"; cases "l = 1"; cases "l = 2"; simp only: if_True if_False Sim.simps simp_thms)
qed

lemma lookup_output_within:
  assumes "sim_within lo hi sim" "lookup_output_trace sim a = Some trace"
  shows "within lo hi trace"
proof -
  obtain l u out where a: "a = (l, u, out)" by (cases a) auto
  show ?thesis
    using assms unfolding a
    by (auto simp: sim_within_def bind_eq_Some_conv at_opt_eq_Some_iff split: if_splits) (metis nth_mem)+
qed

lemma uint_u16: "uint (w :: u16) \<le> 65535" "0 \<le> uint w"
  using uint_bounded [of w] by simp_all

lemma gg_loop_within:
  "within lo hi input \<Longrightarrow> within lo (hi + 131070) (gg_loop io maxtime first dead input)"
proof (induction io maxtime first dead input rule: gg_loop.induct)
  case (2 io maxtime first dead s ss)
  have "lo \<le> s_time s" "s_time s \<le> hi" using 2(4) by simp_all
  with uint_u16 [of "io_delay io"] uint_u16 [of "io_width io"]
  have "within lo (hi + 131070) [sample (s_time s + uint (io_delay io)) Rising,
      sample (s_time s + uint (io_delay io) + uint (io_width io)) Falling]"
    by (simp only: within_simps sample_simps simp_thms) linarith
  with 2 show ?case by (auto simp: Let_def)
qed simp

lemma simulate_gg_within:
  assumes "within lo hi input" "within lo (hi + 131070) output" "lo \<le> 0" "0 \<le> hi"
  shows "within lo (hi + 131070) (simulate_gg io input output maxtime)"
  using assms gg_loop_within [OF assms(1), of io maxtime True None] within_mono [OF assms(1), of "hi + 131070"]
  by (simp add: simulate_gg_def)

lemma lut_loop_within:
  assumes "length inputs = 6" "\<forall>trace \<in> set inputs. within lo hi trace"
  shows "\<exists>out. lut_loop used mapping (map Some inputs) strobeTrace t0 = Some out \<and> within lo hi out"
proof (induction "samples_after t0 (map Some inputs)" arbitrary: t0 rule: less_induct)
  case less
  show ?case
  proof (cases "find_sample_time_after t0 (map Some inputs) None")
    case None
    then show ?thesis by (simp add: lut_loop.simps [of _ _ _ _ t0] del: lut_loop.simps)
  next
    case (Some t)
    then obtain out where out: "lut_loop used mapping (map Some inputs) strobeTrace t = Some out" "within lo hi out"
      using less [OF samples_after_less] by blast
    have t: "lo \<le> t \<and> t \<le> hi"
      using find_sample_time_afterD [OF Some] assms(2) by (auto simp: within_def)
    obtain c where c: "input_combination used t 0 (map Some inputs) 0 = Some (Some c)
        \<or> input_combination used t 0 (map Some inputs) 0 = Some None"
      "\<And>j. bit c j \<Longrightarrow> j < 6"
      using input_combination_spec [of used t 0 inputs 0] assms(1) by (auto split: if_splits)
    have "c < 64" using nat_less_bits [of c 6] c(2) by simp
    then show ?thesis
      unfolding lut_loop.simps [of _ _ _ _ t0] Some option.case out(1)
      using c(1) t out(2) by (auto simp del: lut_loop.simps)
  qed
qed

lemma single_output_within:
  assumes "length inputs = 6" "\<forall>trace \<in> set inputs. within lo hi trace" "within lo hi outTrace"
    and "\<forall>strobe. strobeTrace = Some strobe \<longrightarrow> within lo hi strobe" "lo \<le> 0" "0 \<le> hi" "lo \<le> maxtime" "maxtime \<le> hi"
  shows "\<exists>out. simulate_single_lut_output mb mapping (map Some inputs) outTrace strobeTrace maxtime = Some out
    \<and> within lo hi out"
proof (cases "minimize mb mapping = 0")
  case True
  then show ?thesis using assms(3-8) by (auto simp: simulate_single_lut_output_def split: option.split)
next
  case False
  then show ?thesis
    using lut_loop_within [OF assms(1,2), of "minimize mb mapping" mapping strobeTrace 0] assms(3)
    by (auto simp: simulate_single_lut_output_def simp del: lut_loop.simps)
qed

section \<open>The steps\<close>

declare put_output_trace.simps [simp del] lookup_output_trace.simps [simp del]

lemma map_opt_all:
  "(\<And>x. x \<in> set xs \<Longrightarrow> \<exists>y. f x = Some y \<and> P y) \<Longrightarrow>
   \<exists>ys. map_opt f xs = Some ys \<and> length ys = length xs \<and> (\<forall>y \<in> set ys. P y)"
proof (induction xs)
  case (Cons x xs)
  obtain y where "f x = Some y \<and> P y" using Cons.prems by auto
  moreover obtain ys where "map_opt f xs = Some ys \<and> length ys = length xs \<and> (\<forall>y \<in> set ys. P y)"
    using Cons by auto
  ultimately show ?case by auto
qed simp

definition lut_outputs ::
  "(nat list \<Rightarrow> MinTerm list) \<Rightarrow> LUT \<Rightarrow> Trace option list \<Rightarrow> Trace option list \<Rightarrow> Trace option \<Rightarrow> SampleTime
    \<Rightarrow> Trace list option" where
  "lut_outputs mb lut inputs outputs strobe maxtime = map_opt
     (\<lambda>outIdx. Option.bind (at_opt outputs outIdx) (\<lambda>out. Option.bind out (\<lambda>outputTrace.
        Option.bind (at_opt (lutContents lut) outIdx) (\<lambda>mapping.
          simulate_single_lut_output mb mapping inputs outputTrace
            (if bit (strobedOutputs lut) outIdx then strobe else None) maxtime))))
     [0..<OutputBits]"

lemma lut_outputs_within:
  assumes "length inputs = 6" "\<forall>trace \<in> set inputs. within lo hi trace" "wf_lut lut"
    and "length outputs = 3" "\<forall>trace \<in> set outputs. within lo hi trace"
    and "\<forall>trace. strobe = Some trace \<longrightarrow> within lo hi trace" "lo \<le> 0" "0 \<le> hi" "lo \<le> maxtime" "maxtime \<le> hi"
  shows "\<exists>traces. lut_outputs mb lut (map Some inputs) (map Some outputs) strobe maxtime = Some traces
    \<and> length traces = 3 \<and> (\<forall>trace \<in> set traces. within lo hi trace)"
proof -
  have "\<exists>out. Option.bind (at_opt (map Some outputs) outIdx) (\<lambda>out. Option.bind out (\<lambda>outputTrace.
        Option.bind (at_opt (lutContents lut) outIdx) (\<lambda>mapping.
          simulate_single_lut_output mb mapping (map Some inputs) outputTrace
            (if bit (strobedOutputs lut) outIdx then strobe else None) maxtime))) = Some out \<and> within lo hi out"
    if "outIdx \<in> set [0..<OutputBits]" for outIdx
  proof -
    have i: "outIdx < 3" using that by (simp add: OutputBits_def)
    then have "at_opt (map Some outputs) outIdx = Some (Some (outputs ! outIdx))"
      "at_opt (lutContents lut) outIdx = Some (lutContents lut ! outIdx)"
      using assms(3,4) by (simp_all add: wf_lut_def OutputBits_def)
    moreover have "within lo hi (outputs ! outIdx)" using assms(4,5) i by simp
    ultimately show ?thesis
      using single_output_within [OF assms(1,2) _ _ assms(7-10),
          of "outputs ! outIdx" "if bit (strobedOutputs lut) outIdx then strobe else None" mb "lutContents lut ! outIdx"]
        assms(6) by simp
  qed
  from map_opt_all [of "[0..<OutputBits]", OF this] show ?thesis
    unfolding lut_outputs_def by (simp add: OutputBits_def)
qed

lemma simulate_lut_unstrobed:
  "strobedOutputs lut = 0 \<Longrightarrow> simulate_lut mb lut inputs None outputs None maxtime
     = map_option (\<lambda>traces. (traces, None)) (lut_outputs mb lut inputs outputs None maxtime)"
  by (simp add: simulate_lut_def lut_outputs_def Let_def)

lemma simulate_lut_strobed:
  "simulate_lut mb lut inputs (Some i) outputs (Some out) maxtime
     = (let strobe = simulate_gg (strobeGG lut) i out maxtime
        in map_option (\<lambda>traces. (traces, Some strobe)) (lut_outputs mb lut inputs outputs (Some strobe) maxtime))"
  by (simp add: simulate_lut_def lut_outputs_def Let_def)

lemma put_outputs_keeps:
  assumes "same_shape sim0 sim" "sim_within lo hi sim" "\<forall>trace \<in> set traces. within lo hi trace"
    and "\<forall>trace. strobe = Some trace \<longrightarrow> within lo hi trace"
  shows "same_shape sim0 (put_outputs level unit (traces, strobe) sim)
    \<and> sim_within lo hi (put_outputs level unit (traces, strobe) sim)"
proof -
  have fold: "same_shape sim0 (fold (\<lambda>(i, trace) sim. put_output_trace sim (level, unit, i) trace) kts sim)
      \<and> sim_within lo hi (fold (\<lambda>(i, trace) sim. put_output_trace sim (level, unit, i) trace) kts sim)"
    if "\<forall>(i, trace) \<in> set kts. within lo hi trace" for kts
    using that assms(1,2)
  proof (induction kts arbitrary: sim)
    case (Cons kt kts)
    obtain i trace where "kt = (i, trace)" by (cases kt)
    with Cons show ?case
      using same_shape_trans [OF _ put_output_shape] put_output_within by simp
  qed simp
  have "\<forall>(i, trace) \<in> set (indexed 0 traces). within lo hi trace"
    using assms(3) by (auto simp: set_indexed)
  from fold [OF this] show ?thesis
    using same_shape_trans [OF _ put_output_shape] put_output_within assms(4)
    by (cases strobe) (simp_all add: put_outputs_def Let_def)
qed

text \<open>One step: from a well-formed simulation within the bounds to another one of the same shape.\<close>

definition step_ok :: "SampleTime \<Rightarrow> SampleTime \<Rightarrow> SampleTime \<Rightarrow> (Sim \<Rightarrow> Sim option) \<Rightarrow> bool" where
  "step_ok lo hi hi' f \<longleftrightarrow> (\<forall>sim. wf_sim sim \<and> 36 \<le> length (sampledTraces sim) \<and> sim_within lo hi sim
     \<and> (\<forall>trace \<in> set (sampledTraces sim). within lo hi trace) \<longrightarrow>
     (\<exists>sim'. f sim = Some sim' \<and> same_shape sim sim' \<and> sim_within lo hi' sim'))"

lemma step_okD:
  assumes "step_ok lo hi hi' f" "wf_sim sim" "36 \<le> length (sampledTraces sim)" "sim_within lo hi sim"
    and "\<forall>trace \<in> set (sampledTraces sim). within lo hi trace"
  obtains sim' where "f sim = Some sim'" "same_shape sim sim'" "sim_within lo hi' sim'"
  using assms unfolding step_ok_def by blast

lemma fold_opt_steps:
  assumes "\<forall>x \<in> set xs. \<forall>hi \<ge> hi0. step_ok lo hi (hi + d) (f x)" "0 \<le> d" "hi0 \<le> hi"
  shows "step_ok lo hi (hi + int (length xs) * d) (fold_opt f xs)"
  using assms(1,3)
proof (induction xs arbitrary: hi)
  case Nil
  then show ?case by (simp add: step_ok_def)
next
  case (Cons x xs)
  show ?case unfolding step_ok_def
  proof (intro allI impI)
    fix sim
    assume a: "wf_sim sim \<and> 36 \<le> length (sampledTraces sim) \<and> sim_within lo hi sim
     \<and> (\<forall>trace \<in> set (sampledTraces sim). within lo hi trace)"
    then obtain sim1 where 1: "f x sim = Some sim1" "same_shape sim sim1" "sim_within lo (hi + d) sim1"
      using Cons.prems step_okD [of lo hi "hi + d" "f x" sim] by auto
    have "\<forall>trace \<in> set (sampledTraces sim1). within lo (hi + d) trace"
      using a 1(2) within_mono [of lo hi _ "hi + d"] assms(2) by (auto simp: same_shape_def)
    then obtain sim2 where "fold_opt f xs sim1 = Some sim2" "same_shape sim1 sim2"
      "sim_within lo (hi + d + int (length xs) * d) sim2"
      using Cons.IH [of "hi + d"] Cons.prems assms(2) 1 a wf_sim_shape [OF 1(2)]
      by (auto elim!: step_okD [of lo "hi + d" _ _ sim1] simp: same_shape_def)
    then show "\<exists>sim'. fold_opt f (x # xs) sim = Some sim' \<and> same_shape sim sim'
        \<and> sim_within lo (hi + int (length (x # xs)) * d) sim'"
      using 1 same_shape_trans by (fastforce simp: algebra_simps)
  qed
qed

text \<open>Level 0.\<close>

lemma lookup_input_level0:
  assumes "j < 36" "36 \<le> length (sampledTraces sim)"
    and "u = (if j < 14 then j + 16 else if j < 20 then j + 19 else j - 20)"
  shows "lookup_input_trace sim (0, u, 0) = Some (Some (sampledTraces sim ! j))"
proof -
  have "get_trace_index \<lparr>pa_unit = (0, u, 0), pa_pos = PinInput\<rparr> = int j"
    using assms(1,3) by (simp add: get_trace_index_iff trace_index_nth)
  then show ?thesis using assms(1,2) by (simp add: lookup_input_trace_def lookup_trace_def)
qed

lemma simulate_l0_ok:
  assumes "j < 36" "u = (if j < 14 then j + 16 else if j < 20 then j + 19 else j - 20)"
    and "\<And>input out. within lo hi input \<Longrightarrow> within lo hi out \<Longrightarrow> within lo hi' (f input out)" "hi \<le> hi'"
  shows "step_ok lo hi hi' (simulate_l0 f u)"
  unfolding step_ok_def
proof (intro allI impI)
  fix sim
  assume a: "wf_sim sim \<and> 36 \<le> length (sampledTraces sim) \<and> sim_within lo hi sim
     \<and> (\<forall>trace \<in> set (sampledTraces sim). within lo hi trace)"
  have "u < 39" using assms(1,2) by auto
  then obtain out where out: "lookup_output_trace sim (0, u, 0) = Some out"
    using lookup_output_defined [of sim "(0, u, 0)"] a by auto
  have "within lo hi' (f (sampledTraces sim ! j) out)"
    using assms(1,3) a lookup_output_within [OF _ out] by simp
  then have "sim_within lo hi' (put_output_trace sim (0, u, 0) (f (sampledTraces sim ! j) out))"
    using a sim_within_mono [OF _ assms(4)] put_output_within by blast
  then show "\<exists>sim'. simulate_l0 f u sim = Some sim' \<and> same_shape sim sim' \<and> sim_within lo hi' sim'"
    using lookup_input_level0 [OF assms(1) _ assms(2), of sim] a out put_output_shape
    by (simp add: simulate_l0_def)
qed


lemma within_delay: "within lo hi trace \<Longrightarrow> 0 \<le> d \<Longrightarrow> within lo (hi + d) (apply_delay d trace)"
  by (fastforce simp: within_def apply_delay_def)

lemmas delays = NIMInputDelay_def IRQInputDelay_def GateGeneratorDelay_def LevelOutputDelay_def

lemma simulate_util_ok: "i < 16 \<Longrightarrow> step_ok lo hi hi (simulate_util i)"
  unfolding simulate_util_def by (rule simulate_l0_ok [of "i + 20"]) auto

lemma simulate_nim_ok:
  assumes "i < 14" "lo \<le> 0" "0 \<le> hi"
  shows "step_ok lo hi (hi + 131114) (simulate_nim maxtime (i, io))"
  unfolding simulate_nim_def case_prod_conv
proof (rule simulate_l0_ok [of i])
  fix input out
  assume w: "within lo hi input" "within lo hi out"
  then have "within lo (hi + 131070) (if io_direction io = 1 then out @ input else simulate_gg io input out maxtime)"
    using within_mono [of lo hi _ "hi + 131070"] simulate_gg_within [OF w(1) _ assms(2,3), of out io maxtime] by simp
  from within_delay [OF this, of 44]
  show "within lo (hi + 131114) (apply_delay (NIMInputDelay + GateGeneratorDelay + LevelOutputDelay)
      (if io_direction io = 1 then out @ input else simulate_gg io input out maxtime))"
    by (simp add: delays add.commute [of 131114] split: if_splits)
qed (use assms in \<open>simp_all add: NIM_IO_Offset_def\<close>)

lemma simulate_irq_ok:
  assumes "i < 6" "lo \<le> 0" "0 \<le> hi"
  shows "step_ok lo hi (hi + 131114) (simulate_irq maxtime (i, io))"
  unfolding simulate_irq_def case_prod_conv
proof (rule simulate_l0_ok [of "i + 14"])
  fix input out
  assume w: "within lo hi input" "within lo hi out"
  then have "within lo (hi + 131070) (simulate_gg io input out maxtime)"
    using within_mono [of lo hi _ "hi + 131070"] simulate_gg_within [OF w(1) _ assms(2,3), of out io maxtime] by simp
  from within_mono [OF within_delay [OF this, of 40], of "hi + 131114"]
  show "within lo (hi + 131114) (apply_delay (IRQInputDelay + GateGeneratorDelay + LevelOutputDelay)
      (simulate_gg io input out maxtime))"
    by (simp add: delays)
qed (use assms in \<open>simp_all add: IRQ_Inputs_Offset_def\<close>)

text \<open>Level 1.\<close>

lemma static_sources:
  "list_all (\<lambda>cs. length cs = 6 \<and> list_all (\<lambda>c. output_address (connection_address c)) cs) L1_StaticConnections"
  "list_all (\<lambda>cs. length cs = 6 \<and> list_all (\<lambda>c. output_address (connection_address c)) cs) L2_StaticConnections"
  "length L1_StaticConnections = 7" "length L2_StaticConnections = 3"
  by code_simp+

lemma own_outputs:
  assumes "wf_sim sim" "sim_within lo hi sim" "level = 1 \<and> k < 7 \<or> level = 2 \<and> k < 3"
  shows "\<exists>outs. map (\<lambda>i. lookup_output_trace sim (level, k, i)) [0..<OutputBits] = map Some outs
      \<and> map_opt (\<lambda>i. lookup_output_trace sim (level, k, i)) [0..<OutputBits] = Some outs
      \<and> length outs = 3 \<and> (\<forall>trace \<in> set outs. within lo hi trace)"
proof -
  define outs where "outs = map (\<lambda>i. the (lookup_output_trace sim (level, k, i))) [0..<OutputBits]"
  have some: "lookup_output_trace sim (level, k, i) = Some (the (lookup_output_trace sim (level, k, i)))" if "i < 3" for i
    using lookup_output_defined [OF assms(1), of "(level, k, i)"] assms(3) that by auto
  have "map_opt (\<lambda>i. lookup_output_trace sim (level, k, i)) [0..<OutputBits] = Some outs"
    unfolding outs_def by (rule map_opt_Some) (use some in \<open>simp add: OutputBits_def\<close>)
  moreover have "map (\<lambda>i. lookup_output_trace sim (level, k, i)) [0..<OutputBits] = map Some outs"
    unfolding outs_def using some by (simp add: OutputBits_def)
  moreover have "within lo hi trace" if tr: "trace \<in> set outs" for trace
  proof -
    obtain i where "i < 3" "trace = the (lookup_output_trace sim (level, k, i))"
      using tr by (auto simp: outs_def OutputBits_def simp del: upt_rec_numeral)
    then show ?thesis using some lookup_output_within [OF assms(2)] by metis
  qed
  moreover have "length outs = 3" by (simp add: outs_def OutputBits_def)
  ultimately show ?thesis by blast
qed

lemma simulate_l1_ok:
  assumes "k < 7" "wf_lut lut" "strobedOutputs lut = 0" "lo \<le> 0" "0 \<le> hi" "lo \<le> maxtime" "maxtime \<le> hi"
  shows "step_ok lo hi hi (simulate_l1_lut mb maxtime (k, lut))"
  unfolding step_ok_def
proof (intro allI impI)
  fix sim
  assume a: "wf_sim sim \<and> 36 \<le> length (sampledTraces sim) \<and> sim_within lo hi sim
     \<and> (\<forall>trace \<in> set (sampledTraces sim). within lo hi trace)"
  let ?con = "\<lambda>i. connection_address (L1_StaticConnections ! k ! i)"
  have con: "static_connection L1_StaticConnections k i = Some (L1_StaticConnections ! k ! i) \<and> output_address (?con i)"
    if "i < 6" for i
    using static_sources(1,3) assms(1) that by (simp add: static_connection_def list_all_length)
  define inputs where "inputs = map (\<lambda>i. the (lookup_output_trace sim (?con i))) [0..<InputBits]"
  have some: "lookup_output_trace sim (?con i) = Some (the (lookup_output_trace sim (?con i)))" if "i < 6" for i
    using lookup_output_defined [of sim "?con i"] a con [OF that] by auto
  have ins: "map_opt (\<lambda>i. map_option (\<lambda>con. lookup_output_trace sim (connection_address con))
      (static_connection L1_StaticConnections k i)) [0..<InputBits] = Some (map Some inputs)"
  proof -
    have "map_opt (\<lambda>i. map_option (\<lambda>con. lookup_output_trace sim (connection_address con))
      (static_connection L1_StaticConnections k i)) [0..<InputBits]
      = Some (map (\<lambda>i. Some (the (lookup_output_trace sim (?con i)))) [0..<InputBits])"
      by (rule map_opt_Some) (use con some in \<open>simp add: InputBits_def\<close>)
    then show ?thesis by (simp add: inputs_def)
  qed
  have w: "length inputs = 6" "\<forall>trace \<in> set inputs. within lo hi trace"
  proof -
    show "length inputs = 6" by (simp add: inputs_def InputBits_def)
    show "\<forall>trace \<in> set inputs. within lo hi trace"
      using some a lookup_output_within [of lo hi sim] unfolding inputs_def
      by (auto simp: InputBits_def simp del: upt_rec_numeral)
  qed
  obtain outs where outs: "map (\<lambda>i. lookup_output_trace sim (1, k, i)) [0..<OutputBits] = map Some outs"
    "length outs = 3" "\<forall>trace \<in> set outs. within lo hi trace"
    using own_outputs [of sim lo hi 1 k] a assms(1) by auto
  obtain traces where traces: "lut_outputs mb lut (map Some inputs) (map Some outs) None maxtime = Some traces"
    "\<forall>trace \<in> set traces. within lo hi trace"
    using lut_outputs_within [OF w assms(2) outs(2,3) _ assms(4-7), of None mb] by auto
  have "simulate_l1_lut mb maxtime (k, lut) sim = Some (put_outputs 1 k (traces, None) sim)"
    unfolding simulate_l1_lut_def case_prod_conv ins bind.bind_lunit outs(1) simulate_lut_unstrobed [OF assms(3)] traces(1)
    by simp
  then show "\<exists>sim'. simulate_l1_lut mb maxtime (k, lut) sim = Some sim' \<and> same_shape sim sim' \<and> sim_within lo hi sim'"
    using put_outputs_keeps [of sim sim lo hi traces None 1 k] a traces(2) by auto
qed

text \<open>Level 2.\<close>

lemma connection_of_value: "get_connection_unit_address cfg a =
    Option.bind (get_connection_value cfg a) (\<lambda>v. connection_source v a)"
  by (cases a) simp

text \<open>The static inputs of level 2: their reads past the end of the array. What is read has no influence.\<close>

definition static_reads :: "UnitAddress list" where
  "static_reads = [(2, k, i). k \<leftarrow> [0..<3], i \<leftarrow> [3..<6]]"

definition readable :: "(UnitAddress \<Rightarrow> nat option) \<Rightarrow> bool" where
  "readable memory \<longleftrightarrow> list_all (\<lambda>a. memory a \<noteq> None) static_reads"

lemma readable_iff: "readable memory \<longleftrightarrow> (\<forall>k < 3. \<forall>i. 3 \<le> i \<and> i < 6 \<longrightarrow> memory (2, k, i) \<noteq> None)"
  unfolding readable_def static_reads_def by (auto simp: list_all_iff simp del: upt_rec_numeral)

lemma l2_source:
  assumes "valid_connections cfg" "k < 3" "i \<le> 6"
  obtains a where "output_address a" "\<And>memory. readable memory \<Longrightarrow> connection_address_reading memory cfg (2, k, i) = Some a"
proof (cases "i < 3 \<or> i = 6")
  case True
  then have x: "(2, k, i) \<in> set dynamic_inputs" using assms(2) by (auto simp: dynamic_inputs_iff)
  obtain v where v: "get_connection_value cfg (2, k, i) = Some v" "v < length (choices_of (2, k, i))"
    using valid_connectionE [OF assms(1) x] .
  have ok: "source_ok (2, k, i) (choices_of (2, k, i) ! v)"
    using choices_sources [OF x] v(2) by (simp add: list_all_length del: choices_of.simps source_ok.simps)
  have out: "output_address a" if "source_ok (2, k, i) a" for a
    using that by (cases a) (auto simp: L0_OutputCount_def io_counts)
  have "connection_address_reading memory cfg (2, k, i) = Some (choices_of (2, k, i) ! v)" for memory
    using get_connection_of_valid [OF x v] v(1)
    by (simp add: connection_address_reading_def connection_of_value del: choices_of.simps connection_source.simps
        get_connection_unit_address.simps get_connection_value.simps)
  with out [OF ok] show thesis by (rule that)
next
  case False
  then have i: "3 \<le> i" "i < 6" using assms(3) by auto
  have L: "k < length L2_StaticConnections" "i < length (L2_StaticConnections ! k)"
    "output_address (connection_address (L2_StaticConnections ! k ! i))"
    using static_sources(2,4) assms(2) i by (simp_all add: list_all_length)
  have "connection_source v (2, k, i) = Some (connection_address (L2_StaticConnections ! k ! i))" for v
    using i assms(2) L(1,2) by (simp add: make_l2_length make_l2_nth StrobeGGInput_def InputBits_def)
  then have "connection_address_reading memory cfg (2, k, i) = Some (connection_address (L2_StaticConnections ! k ! i))"
    if "readable memory" for memory
  proof -
    obtain v where "memory (2, k, i) = Some v" using \<open>readable memory\<close> i assms(2) by (auto simp: readable_iff)
    then show ?thesis
      using \<open>\<And>v. connection_source v (2, k, i) = Some (connection_address (L2_StaticConnections ! k ! i))\<close>
      by (cases "get_connection_value cfg (2, k, i)") (simp_all only: connection_address_reading_def option.case bind.bind_lunit)
  qed
  with L(3) show thesis by (rule that)
qed

lemma simulate_l2_ok:
  assumes "k < 3" "wf_lut lut" "lo \<le> 0" "0 \<le> hi" "lo \<le> maxtime" "maxtime \<le> hi" and readable: "readable memory"
  shows "step_ok lo hi (hi + 131070) (simulate_l2_lut memory mb maxtime (k, lut))"
  unfolding step_ok_def
proof (intro allI impI)
  fix sim
  assume a: "wf_sim sim \<and> 36 \<le> length (sampledTraces sim) \<and> sim_within lo hi sim
     \<and> (\<forall>trace \<in> set (sampledTraces sim). within lo hi trace)"
  let ?hi = "hi + 131070"
  let ?source = "\<lambda>i. Option.bind (connection_address_reading memory (trigIO sim) (2, k, i)) (lookup_output_trace sim)"
  have source: "\<exists>trace. ?source i = Some trace \<and> within lo hi trace" if i: "i \<le> 6" for i
  proof -
    obtain addr where addr: "output_address addr" "connection_address_reading memory (trigIO sim) (2, k, i) = Some addr"
    proof -
      have "valid_connections (trigIO sim)" using a by (simp add: wf_sim_def)
      then show thesis by (rule l2_source [OF _ assms(1) i]) (rule that, assumption, blast intro: readable)
    qed
    then obtain trace where "lookup_output_trace sim addr = Some trace" using lookup_output_defined a by blast
    then show ?thesis using addr(2) lookup_output_within [of lo hi sim addr] a by auto
  qed
  obtain inputs where inputs: "map_opt ?source [0..<InputBits] = Some inputs" "length inputs = 6"
    "\<forall>trace \<in> set inputs. within lo hi trace"
  proof -
    have "\<exists>y. ?source i = Some y \<and> within lo hi y" if "i \<in> set [0..<InputBits]" for i
      using source [of i] that by (simp add: InputBits_def)
    from map_opt_all [of "[0..<InputBits]" ?source, OF this] show thesis
      using that by (auto simp: InputBits_def simp del: upt_rec_numeral)
  qed
  obtain strobeIn where si: "?source StrobeGGInput = Some strobeIn" "within lo hi strobeIn"
    using source [of StrobeGGInput] by (auto simp: StrobeGGInput_def InputBits_def)
  obtain outs where outs: "map_opt (\<lambda>i. lookup_output_trace sim (2, k, i)) [0..<OutputBits] = Some outs"
    "length outs = 3" "\<forall>trace \<in> set outs. within lo hi trace"
    using own_outputs [of sim lo hi 2 k] a assms(1) by auto
  obtain strobeOut where so: "lookup_output_trace sim (2, k, StrobeGGOutputTraceIndex) = Some strobeOut"
    "within lo hi strobeOut"
    using lookup_output_defined [of sim "(2, k, StrobeGGOutputTraceIndex)"] lookup_output_within [of lo hi sim] a assms(1)
    by (auto simp: StrobeGGOutputTraceIndex_def OutputBits_def)
  define strobe where "strobe = simulate_gg (strobeGG lut) strobeIn strobeOut maxtime"
  have strobe: "within lo ?hi strobe"
    unfolding strobe_def using simulate_gg_within [OF si(2) within_mono [OF so(2)] assms(3,4)] by simp
  have "\<forall>trace \<in> set inputs. within lo ?hi trace" "\<forall>trace \<in> set outs. within lo ?hi trace"
    using inputs(3) outs(3) within_mono by auto
  then obtain traces where traces: "lut_outputs mb lut (map Some inputs) (map Some outs) (Some strobe) maxtime = Some traces"
    "\<forall>trace \<in> set traces. within lo ?hi trace"
    using lut_outputs_within [OF inputs(2) _ assms(2) outs(2), of lo ?hi "Some strobe" maxtime mb] strobe assms(3-6)
    by auto
  have "simulate_l2_lut memory mb maxtime (k, lut) sim = Some (put_outputs 2 k (traces, Some strobe) sim)"
    unfolding simulate_l2_lut_def case_prod_conv Let_def inputs(1) si(1) outs(1) so(1) bind.bind_lunit
      simulate_lut_strobed strobe_def [symmetric] traces(1)
    by simp
  moreover have "sim_within lo ?hi sim" using a sim_within_mono by auto
  ultimately show "\<exists>sim'. simulate_l2_lut memory mb maxtime (k, lut) sim = Some sim' \<and> same_shape sim sim'
      \<and> sim_within lo ?hi sim'"
    using put_outputs_keeps [of sim sim lo ?hi traces "Some strobe" 2 k] traces(2) strobe by auto
qed

section \<open>The complete simulation\<close>

lemma step_bind:
  assumes "step_ok lo hi hi1 f" "hi \<le> hi1" "step_ok lo hi1 hi2 g"
  shows "step_ok lo hi hi2 (\<lambda>sim. Option.bind (f sim) g)"
  unfolding step_ok_def
proof (intro allI impI)
  fix sim
  assume a: "wf_sim sim \<and> 36 \<le> length (sampledTraces sim) \<and> sim_within lo hi sim
     \<and> (\<forall>trace \<in> set (sampledTraces sim). within lo hi trace)"
  obtain sim1 where 1: "f sim = Some sim1" "same_shape sim sim1" "sim_within lo hi1 sim1"
    using step_okD [OF assms(1)] a by blast
  obtain sim2 where "g sim1 = Some sim2" "same_shape sim1 sim2" "sim_within lo hi2 sim2"
    by (rule step_okD [OF assms(3), of sim1])
      (use a 1 wf_sim_shape [OF 1(2)] within_mono [OF _ assms(2)] in \<open>auto simp: same_shape_def\<close>)
  then show "\<exists>sim'. Option.bind (f sim) g = Some sim' \<and> same_shape sim sim' \<and> sim_within lo hi2 sim'"
    using 1 same_shape_trans by auto
qed

lemma step_ok_config:
  "(\<And>sim. wf_sim sim \<Longrightarrow> step_ok lo hi hi' (f (trigIO sim))) \<Longrightarrow> step_ok lo hi hi' (\<lambda>sim. f (trigIO sim) sim)"
  unfolding step_ok_def by blast

definition simulate_levels ::
  "(UnitAddress \<Rightarrow> nat option) \<Rightarrow> (nat list \<Rightarrow> MinTerm list) \<Rightarrow> SampleTime \<Rightarrow> Sim \<Rightarrow> Sim option" where
  "simulate_levels memory mb maxtime sim =
     Option.bind (fold_opt simulate_util [0..<UtilityUnitCount] sim) (\<lambda>sim.
     Option.bind (fold_opt (simulate_nim maxtime) (indexed 0 (ioNIM (l0 (trigIO sim)))) sim) (\<lambda>sim.
     Option.bind (fold_opt (simulate_irq maxtime) (indexed 0 (ioIRQ (l0 (trigIO sim)))) sim) (\<lambda>sim.
     Option.bind (fold_opt (simulate_l1_lut mb maxtime) (indexed 0 (l1_luts (l1 (trigIO sim)))) sim) (\<lambda>sim.
       fold_opt (simulate_l2_lut memory mb maxtime) (indexed 0 (l2_luts (l2 (trigIO sim)))) sim))))"

lemma fold_indexed_steps:
  assumes "\<And>k x hi. k < length xs \<Longrightarrow> hi0 \<le> hi \<Longrightarrow> step_ok lo hi (hi + d) (f (k, xs ! k))" "0 \<le> d" "hi0 \<le> hi"
  shows "step_ok lo hi (hi + int (length xs) * d) (fold_opt f (indexed 0 xs))"
  using fold_opt_steps [of "indexed 0 xs" hi0 lo d f hi] assms by (auto simp: set_indexed)

lemma level_steps:
  assumes "lo \<le> 0" "0 \<le> hi" "lo \<le> maxtime" "maxtime \<le> hi"
  shows "step_ok lo hi hi (fold_opt simulate_util [0..<UtilityUnitCount])"
    and "step_ok lo hi (hi + 14 * 131114)
      (\<lambda>sim. fold_opt (simulate_nim maxtime) (indexed 0 (ioNIM (l0 (trigIO sim)))) sim)"
    and "step_ok lo (hi + 14 * 131114) (hi + 20 * 131114)
      (\<lambda>sim. fold_opt (simulate_irq maxtime) (indexed 0 (ioIRQ (l0 (trigIO sim)))) sim)"
    and "step_ok lo (hi + 20 * 131114) (hi + 20 * 131114)
      (\<lambda>sim. fold_opt (simulate_l1_lut mb maxtime) (indexed 0 (l1_luts (l1 (trigIO sim)))) sim)"
    and "readable memory \<Longrightarrow> step_ok lo (hi + 20 * 131114) (hi + 3015490)
      (\<lambda>sim. fold_opt (simulate_l2_lut memory mb maxtime) (indexed 0 (l2_luts (l2 (trigIO sim)))) sim)"
proof -
  show "step_ok lo hi hi (fold_opt simulate_util [0..<UtilityUnitCount])"
    using fold_opt_steps [of "[0..<UtilityUnitCount]" hi lo 0 simulate_util hi] simulate_util_ok
    by (auto simp: UtilityUnitCount_def simp del: upt_rec_numeral)
  show "step_ok lo hi (hi + 14 * 131114)
      (\<lambda>sim. fold_opt (simulate_nim maxtime) (indexed 0 (ioNIM (l0 (trigIO sim)))) sim)"
  proof (rule step_ok_config)
    fix sim :: Sim
    assume "wf_sim sim"
    then have len: "length (ioNIM (l0 (trigIO sim))) = 14" by (simp add: wf_sim_def wf_trigger_io_def io_counts)
    show "step_ok lo hi (hi + 14 * 131114) (fold_opt (simulate_nim maxtime) (indexed 0 (ioNIM (l0 (trigIO sim)))))"
      using fold_indexed_steps [of "ioNIM (l0 (trigIO sim))" 0 lo 131114 "simulate_nim maxtime" hi]
        simulate_nim_ok [OF _ assms(1)] assms(2) by (simp add: len)
  qed
  let ?h1 = "hi + 14 * 131114" and ?h2 = "hi + 20 * 131114"
  show "step_ok lo ?h1 ?h2 (\<lambda>sim. fold_opt (simulate_irq maxtime) (indexed 0 (ioIRQ (l0 (trigIO sim)))) sim)"
  proof (rule step_ok_config)
    fix sim :: Sim
    assume "wf_sim sim"
    then have len: "length (ioIRQ (l0 (trigIO sim))) = 6" by (simp add: wf_sim_def wf_trigger_io_def io_counts)
    show "step_ok lo ?h1 ?h2 (fold_opt (simulate_irq maxtime) (indexed 0 (ioIRQ (l0 (trigIO sim)))))"
      using fold_indexed_steps [of "ioIRQ (l0 (trigIO sim))" 0 lo 131114 "simulate_irq maxtime" ?h1]
        simulate_irq_ok [OF _ assms(1)] assms(2) by (simp add: len algebra_simps)
  qed
  show "step_ok lo ?h2 ?h2 (\<lambda>sim. fold_opt (simulate_l1_lut mb maxtime) (indexed 0 (l1_luts (l1 (trigIO sim)))) sim)"
  proof (rule step_ok_config)
    fix sim :: Sim
    assume "wf_sim sim"
    then have "length (l1_luts (l1 (trigIO sim))) = 7"
      "\<And>k. k < 7 \<Longrightarrow> wf_lut (l1_luts (l1 (trigIO sim)) ! k) \<and> strobedOutputs (l1_luts (l1 (trigIO sim)) ! k) = 0"
      by (auto simp: wf_sim_def wf_trigger_io_def io_counts list_all_length)
    then show "step_ok lo ?h2 ?h2 (fold_opt (simulate_l1_lut mb maxtime) (indexed 0 (l1_luts (l1 (trigIO sim)))))"
      using fold_indexed_steps [of "l1_luts (l1 (trigIO sim))" ?h2 lo 0 "simulate_l1_lut mb maxtime" ?h2]
        simulate_l1_ok [OF _ _ _ assms(1) _ assms(3)] assms(2,4) by simp
  qed
  show "step_ok lo ?h2 (hi + 3015490)
      (\<lambda>sim. fold_opt (simulate_l2_lut memory mb maxtime) (indexed 0 (l2_luts (l2 (trigIO sim)))) sim)"
    if readable: "readable memory"
  proof (rule step_ok_config)
    fix sim :: Sim
    assume "wf_sim sim"
    then have "length (l2_luts (l2 (trigIO sim))) = 3" "\<And>k. k < 3 \<Longrightarrow> wf_lut (l2_luts (l2 (trigIO sim)) ! k)"
      by (auto simp: wf_sim_def wf_trigger_io_def io_counts list_all_length)
    then show "step_ok lo ?h2 (hi + 3015490)
        (fold_opt (simulate_l2_lut memory mb maxtime) (indexed 0 (l2_luts (l2 (trigIO sim)))))"
      using fold_indexed_steps [of "l2_luts (l2 (trigIO sim))" hi lo 131070 "simulate_l2_lut memory mb maxtime" ?h2]
        simulate_l2_ok [OF _ _ assms(1) _ assms(3) _ readable] assms(2,4) by (simp add: add.commute [of _ hi])
  qed
qed

lemma simulate_levels_ok:
  assumes "readable memory" "lo \<le> 0" "0 \<le> hi" "lo \<le> maxtime" "maxtime \<le> hi"
  shows "step_ok lo hi (hi + 3015490) (simulate_levels memory mb maxtime)"
  unfolding simulate_levels_def [abs_def]
  by (intro step_bind [OF level_steps(1) [OF assms(2-5)]] step_bind [OF level_steps(2) [OF assms(2-5)]]
      step_bind [OF level_steps(3) [OF assms(2-5)]] step_bind [OF level_steps(4) [OF assms(2-5)]]
      level_steps(5) [OF assms(2-5,1)]) simp_all

section \<open>Preparation\<close>

text \<open>The first lines of \<^verbatim>\<open>simulate\<close>: all traces are cleared and missing sampled traces are added.\<close>

definition prepared :: "Sim \<Rightarrow> Sim" where
  "prepared sim = (let sim = clear_simulated_traces sim
     in if length (sampledTraces sim) < DSOExpectedSampledTraces
        then sim\<lparr>sampledTraces := resize DSOExpectedSampledTraces (sampledTraces sim)\<rparr> else sim)"

lemma simulate_prepared: "simulate memory mb sim maxtime = simulate_levels memory mb maxtime (prepared sim)"
  by (simp add: simulate_def simulate_levels_def prepared_def Let_def)

lemma expected_traces: "DSOExpectedSampledTraces = 36"
  by (simp add: DSOExpectedSampledTraces_def CombinedTriggerCount_def UtilityUnitCount_def io_counts)

lemma clear_nested: "map (map (\<lambda>_. [])) xss = map (\<lambda>n. replicate n []) (map length xss)"
  by (simp add: map_replicate_const)

lemma prepared_fields:
  "trigIO (prepared sim) = trigIO sim"
  "sampledTraces (prepared sim) = sampledTraces sim @ replicate (36 - length (sampledTraces sim)) []"
  "l0_traces (prepared sim) = replicate (length (l0_traces sim)) []"
  "sim_l1_luts (prepared sim) = map (\<lambda>n. replicate n []) (map length (sim_l1_luts sim))"
  "sim_l2_luts (prepared sim) = map (\<lambda>n. replicate n []) (map length (sim_l2_luts sim))"
  "l3_traces (prepared sim) = replicate (length (l3_traces sim)) []"
  by (simp_all add: prepared_def clear_simulated_traces_def Let_def resize_def expected_traces map_replicate_const)

lemma prepared_wf: "wf_sim sim \<Longrightarrow> wf_sim (prepared sim)"
  by (simp add: wf_sim_def prepared_fields comp_def)

lemma prepared_within: "sim_within lo hi (prepared sim)"
  by (auto simp: sim_within_def prepared_fields)

lemma prepared_again:
  assumes "same_shape (prepared sim) sim'"
  shows "prepared sim' = prepared sim"
proof (rule Sim.equality)
  note s = assms [unfolded same_shape_def]
  show "trigIO (prepared sim') = trigIO (prepared sim)" using s by (simp add: prepared_fields(1))
  show "sampledTraces (prepared sim') = sampledTraces (prepared sim)" using s by (simp add: prepared_fields(2))
  show "l0_traces (prepared sim') = l0_traces (prepared sim)"
    using s prepared_fields(3) [of sim] prepared_fields(3) [of sim'] by simp
  show "sim_l1_luts (prepared sim') = sim_l1_luts (prepared sim)"
    using s unfolding prepared_fields(4) [of sim'] by (simp add: prepared_fields(4) comp_def)
  show "sim_l2_luts (prepared sim') = sim_l2_luts (prepared sim)"
    using s unfolding prepared_fields(5) [of sim'] by (simp add: prepared_fields(5) comp_def)
  show "l3_traces (prepared sim') = l3_traces (prepared sim)"
    using s prepared_fields(6) [of sim] prepared_fields(6) [of sim'] by simp
qed simp

lemma simulate_within:
  assumes "wf_sim sim" "\<forall>trace \<in> set (sampledTraces sim). within lo hi trace"
    and "lo \<le> 0" "0 \<le> hi" "lo \<le> maxtime" "maxtime \<le> hi" "readable memory"
  obtains sim' where "simulate memory mb sim maxtime = Some sim'" "same_shape (prepared sim) sim'"
    "sim_within lo (hi + 3015490) sim'"
proof (rule step_okD [OF simulate_levels_ok [OF assms(7,3-6)] prepared_wf [OF assms(1)]])
  show "36 \<le> length (sampledTraces (prepared sim))" by (simp add: prepared_fields)
  show "sim_within lo hi (prepared sim)" by (rule prepared_within)
  show "\<forall>trace \<in> set (sampledTraces (prepared sim)). within lo hi trace"
    using assms(2) by (auto simp: prepared_fields)
qed (use that in \<open>auto simp: simulate_prepared\<close>)

lemma times_have_bounds:
  "\<exists>lo hi. (\<forall>trace \<in> set traces. within lo hi trace) \<and> lo \<le> 0 \<and> 0 \<le> hi \<and> lo \<le> maxtime \<and> maxtime \<le> hi"
proof -
  define T where "T = insert 0 (insert maxtime (\<Union>trace \<in> set traces. s_time ` set trace))"
  have "finite T" by (simp add: T_def)
  then have "Min T \<le> t \<and> t \<le> Max T" if "t \<in> T" for t using that by simp
  moreover have "0 \<in> T" "maxtime \<in> T" "\<And>trace s. trace \<in> set traces \<Longrightarrow> s \<in> set trace \<Longrightarrow> s_time s \<in> T"
    by (auto simp: T_def)
  ultimately show ?thesis by (intro exI [of _ "Min T"] exI [of _ "Max T"]) (auto simp: within_def)
qed

section \<open>Memory contents\<close>

lemma fold_opt_cong_inv:
  assumes "\<forall>x \<in> set xs. \<forall>s. I s \<longrightarrow> f x s = g x s \<and> (\<forall>s'. f x s = Some s' \<longrightarrow> I s')" "I s"
  shows "fold_opt f xs s = fold_opt g xs s"
  using assms
proof (induction xs arbitrary: s)
  case (Cons x xs)
  have fg: "f x s = g x s" "\<And>s'. g x s = Some s' \<Longrightarrow> I s'"
    using Cons.prems by (metis list.set_intros(1))+
  have xs: "\<forall>x \<in> set xs. \<forall>s. I s \<longrightarrow> f x s = g x s \<and> (\<forall>s'. f x s = Some s' \<longrightarrow> I s')"
    using Cons.prems(1) by (meson list.set_intros(2))
  show ?case
  proof (cases "g x s")
    case (Some s')
    from Cons.IH [OF xs fg(2) [OF Some]] show ?thesis by (simp add: fg(1) Some)
  qed (simp add: fg(1))
qed simp

lemma put_outputs_config [simp]: "trigIO (put_outputs level unit r sim) = trigIO sim"
proof -
  have put: "trigIO (put_output_trace sim a t) = trigIO sim" for sim a t
    using put_output_shape [of sim a t] by (simp add: same_shape_def)
  have "trigIO (fold (\<lambda>(i, t) sim. put_output_trace sim (level, unit, i) t) kts sim) = trigIO sim" for kts sim
    by (induction kts arbitrary: sim) (auto simp: put)
  then show ?thesis by (cases r) (auto simp: put_outputs_def put Let_def split: option.split)
qed

lemma map_opt_cong: "(\<And>x. x \<in> set xs \<Longrightarrow> f x = g x) \<Longrightarrow> map_opt f xs = map_opt g xs"
  by (induction xs) (simp_all cong: option.case_cong)

lemma simulate_l2_memory:
  assumes "valid_connections (trigIO sim)" "k < 3" "readable memory" "readable memory'"
  shows "simulate_l2_lut memory mb maxtime (k, lut) sim = simulate_l2_lut memory' mb maxtime (k, lut) sim"
proof -
  let ?source = "\<lambda>memory i. Option.bind (connection_address_reading memory (trigIO sim) (2, k, i)) (lookup_output_trace sim)"
  have source: "?source memory i = ?source memory' i" if "i \<le> 6" for i
    by (rule l2_source [OF assms(1,2) that]) (simp add: assms(3,4))
  have "map_opt (?source memory) [0..<InputBits] = map_opt (?source memory') [0..<InputBits]"
    by (rule map_opt_cong) (rule source, simp add: InputBits_def)
  moreover have "?source memory StrobeGGInput = ?source memory' StrobeGGInput"
    by (rule source) (simp add: StrobeGGInput_def InputBits_def)
  ultimately show ?thesis unfolding simulate_l2_lut_def case_prod_conv Let_def by (simp only:)
qed

lemma simulate_l2_config: "simulate_l2_lut memory mb maxtime (k, lut) sim = Some sim' \<Longrightarrow> trigIO sim' = trigIO sim"
  by (auto simp: simulate_l2_lut_def Let_def bind_eq_Some_conv)

lemma step_bind_cong:
  assumes "step_ok lo hi hi1 f" "hi \<le> hi1"
    and "\<And>s. wf_sim s \<and> 36 \<le> length (sampledTraces s) \<and> sim_within lo hi1 s
      \<and> (\<forall>trace \<in> set (sampledTraces s). within lo hi1 trace) \<Longrightarrow> g s = h s"
    and "wf_sim sim \<and> 36 \<le> length (sampledTraces sim) \<and> sim_within lo hi sim
      \<and> (\<forall>trace \<in> set (sampledTraces sim). within lo hi trace)"
  shows "Option.bind (f sim) g = Option.bind (f sim) h"
proof -
  obtain sim1 where 1: "f sim = Some sim1" "same_shape sim sim1" "sim_within lo hi1 sim1"
    using step_okD [OF assms(1)] assms(4) by blast
  have "g sim1 = h sim1"
    by (rule assms(3)) (use assms(4) 1 wf_sim_shape [OF 1(2)] within_mono [OF _ assms(2)] in \<open>auto simp: same_shape_def\<close>)
  with 1 show ?thesis by simp
qed

lemma simulate_levels_memory:
  assumes "wf_sim sim" "36 \<le> length (sampledTraces sim)" "sim_within lo hi sim"
    "\<forall>trace \<in> set (sampledTraces sim). within lo hi trace"
    and "lo \<le> 0" "0 \<le> hi" "lo \<le> maxtime" "maxtime \<le> hi" "readable memory" "readable memory'"
  shows "simulate_levels memory mb maxtime sim = simulate_levels memory' mb maxtime sim"
  unfolding simulate_levels_def
proof (rule step_bind_cong [OF level_steps(1) [OF assms(5-8)] order_refl], goal_cases)
  case (1 s1)
  show ?case
  proof (rule step_bind_cong [OF level_steps(2) [OF assms(5-8)] _ _ 1], simp, goal_cases)
    case (1 s2)
    show ?case
    proof (rule step_bind_cong [OF level_steps(3) [OF assms(5-8)] _ _ 1], simp, goal_cases)
      case (1 s3)
      show ?case
      proof (rule step_bind_cong [OF level_steps(4) [OF assms(5-8)] _ _ 1], simp, goal_cases)
        case (1 s4)
        then have "valid_connections (trigIO s4)" "length (l2_luts (l2 (trigIO s4))) = 3"
          by (auto simp: wf_sim_def wf_trigger_io_def io_counts)
        then show ?case
          by (intro fold_opt_cong_inv [of _ "\<lambda>s. valid_connections (trigIO s)"])
            (auto simp: set_indexed simulate_l2_config intro!: simulate_l2_memory assms(9,10))
      qed
    qed
  qed
next
  case 2
  show ?case using assms(1-4) by blast
qed

text \<open>A simulation that returns has read the connection values of all static inputs of level 2.\<close>

lemma map_opt_each: "map_opt f xs = Some ys \<Longrightarrow> x \<in> set xs \<Longrightarrow> f x \<noteq> None"
  by (induction xs arbitrary: ys) (auto split: option.splits)

lemma simulate_l2_reads:
  assumes "simulate_l2_lut memory mb maxtime (k, lut) sim = Some sim'" "wf_trigger_io (trigIO sim)" "k < 3" "3 \<le> i" "i < 6"
  shows "memory (2, k, i) \<noteq> None"
proof -
  let ?source = "\<lambda>i. Option.bind (connection_address_reading memory (trigIO sim) (2, k, i)) (lookup_output_trace sim)"
  obtain inputs where "map_opt ?source [0..<InputBits] = Some inputs"
    using assms(1) by (auto simp: simulate_l2_lut_def Let_def bind_eq_Some_conv simp del: upt_rec_numeral)
  from map_opt_each [OF this, of i] have "?source i \<noteq> None" using assms(5) by (simp add: InputBits_def)
  then have read: "connection_address_reading memory (trigIO sim) (2, k, i) \<noteq> None"
    by (cases "connection_address_reading memory (trigIO sim) (2, k, i)") simp_all
  have "length (lutConnections (l2 (trigIO sim))) = 3" "length (lutConnections (l2 (trigIO sim)) ! k) = 3"
    using assms(2,3) by (simp_all add: wf_trigger_io_def list_all_length io_counts)
  then have "get_connection_value (trigIO sim) (2, k, i) = None" using assms(3-5) by (simp add: InputBits_def)
  then show ?thesis using read
    by (cases "memory (2, k, i)") (simp_all only: connection_address_reading_def option.case bind.bind_lzero, simp_all)
qed

lemma fold_opt_each:
  assumes "fold_opt f xs s = Some s'" "I s" "\<And>x s s'. I s \<Longrightarrow> f x s = Some s' \<Longrightarrow> I s'" "x \<in> set xs"
  shows "\<exists>t t'. I t \<and> f x t = Some t'"
  using assms(1,2,4)
proof (induction xs arbitrary: s)
  case (Cons y ys)
  then obtain s1 where s1: "f y s = Some s1" "fold_opt f ys s1 = Some s'" by (auto simp: bind_eq_Some_conv)
  then show ?case using Cons.IH [OF s1(2) assms(3) [OF Cons.prems(2) s1(1)]] Cons.prems by auto
qed simp

lemma level2_unreadable:
  assumes "\<not> readable memory" "wf_trigger_io (trigIO sim)"
  shows "fold_opt (simulate_l2_lut memory mb maxtime) (indexed 0 (l2_luts (l2 (trigIO sim)))) sim = None"
proof (rule ccontr)
  assume "fold_opt (simulate_l2_lut memory mb maxtime) (indexed 0 (l2_luts (l2 (trigIO sim)))) sim \<noteq> None"
  then obtain sim' where run: "fold_opt (simulate_l2_lut memory mb maxtime) (indexed 0 (l2_luts (l2 (trigIO sim)))) sim = Some sim'"
    by blast
  obtain k i where ki: "k < 3" "3 \<le> i" "i < 6" "memory (2, k, i) = None" using assms(1) by (auto simp: readable_iff)
  have mem: "(k, l2_luts (l2 (trigIO sim)) ! k) \<in> set (indexed 0 (l2_luts (l2 (trigIO sim))))"
    using assms(2) ki(1) by (auto simp: set_indexed wf_trigger_io_def io_counts)
  have keep: "trigIO s' = trigIO sim" if "trigIO s = trigIO sim" "simulate_l2_lut memory mb maxtime x s = Some s'" for x s s'
    using that by (cases x) (simp add: simulate_l2_config)
  have "\<exists>t t'. trigIO t = trigIO sim \<and> simulate_l2_lut memory mb maxtime (k, l2_luts (l2 (trigIO sim)) ! k) t = Some t'"
    by (rule fold_opt_each [OF run, of "\<lambda>s. trigIO s = trigIO sim", OF refl keep mem])
  then obtain t t' where t: "trigIO t = trigIO sim" "simulate_l2_lut memory mb maxtime (k, l2_luts (l2 (trigIO sim)) ! k) t = Some t'"
    by blast
  then show False using simulate_l2_reads [OF t(2) _ ki(1-3)] assms(2) ki(4) by simp
qed

lemma simulate_levels_unreadable:
  assumes "wf_sim sim" "36 \<le> length (sampledTraces sim)" "sim_within lo hi sim"
    "\<forall>trace \<in> set (sampledTraces sim). within lo hi trace"
    and "lo \<le> 0" "0 \<le> hi" "lo \<le> maxtime" "maxtime \<le> hi" "\<not> readable memory"
  shows "simulate_levels memory mb maxtime sim = None"
proof -
  have "simulate_levels memory mb maxtime sim =
     Option.bind (fold_opt simulate_util [0..<UtilityUnitCount] sim) (\<lambda>sim.
     Option.bind (fold_opt (simulate_nim maxtime) (indexed 0 (ioNIM (l0 (trigIO sim)))) sim) (\<lambda>sim.
     Option.bind (fold_opt (simulate_irq maxtime) (indexed 0 (ioIRQ (l0 (trigIO sim)))) sim) (\<lambda>sim.
     Option.bind (fold_opt (simulate_l1_lut mb maxtime) (indexed 0 (l1_luts (l1 (trigIO sim)))) sim) (\<lambda>sim. None))))"
    unfolding simulate_levels_def
  proof (rule step_bind_cong [OF level_steps(1) [OF assms(5-8)] order_refl], goal_cases)
    case (1 s1)
    show ?case
    proof (rule step_bind_cong [OF level_steps(2) [OF assms(5-8)] _ _ 1], simp, goal_cases)
      case (1 s2)
      show ?case
      proof (rule step_bind_cong [OF level_steps(3) [OF assms(5-8)] _ _ 1], simp, goal_cases)
        case (1 s3)
        show ?case
          by (rule step_bind_cong [OF level_steps(4) [OF assms(5-8)] _ _ 1], simp)
            (rule level2_unreadable [OF assms(9)], simp add: wf_sim_def)
      qed
    qed
  next
    case 2
    show ?case using assms(1-4) by blast
  qed
  then show ?thesis by simp
qed

text \<open>C11: what a simulation of a well-formed configuration depends on. Each run reads the connection values of the
  nine static inputs of level 2 past the end of their arrays, which is undefined behaviour: if one of these reads
  ends the program, there is no result. If all of them return, whatever they return, the simulation succeeds, no
  other access is outside of a table, no assertion fails and no trace pointer is null, and the result does not depend
  on what was read. It keeps the configuration and the sampled traces, adds missing sampled traces, and is not
  changed by another run.\<close>

theorem simulate_total:
  assumes "wf_sim sim"
  shows "\<exists>sim'. (\<forall>memory. simulate memory mb sim maxtime = (if readable memory then Some sim' else None)
      \<and> simulate memory mb sim' maxtime = (if readable memory then Some sim' else None))
    \<and> wf_sim sim' \<and> trigIO sim' = trigIO sim
    \<and> sampledTraces sim' = sampledTraces sim @ replicate (36 - length (sampledTraces sim)) []"
proof -
  obtain lo hi where b: "\<forall>trace \<in> set (sampledTraces sim). within lo hi trace" "lo \<le> 0" "0 \<le> hi" "lo \<le> maxtime" "maxtime \<le> hi"
    using times_have_bounds by metis
  have some: "readable (\<lambda>_. Some 0)" by (simp add: readable_iff)
  obtain sim' where s: "simulate (\<lambda>_. Some 0) mb sim maxtime = Some sim'" "same_shape (prepared sim) sim'"
    using simulate_within [OF assms b some] .
  have sampled: "\<forall>trace \<in> set (sampledTraces (prepared sim)). within lo hi trace" "36 \<le> length (sampledTraces (prepared sim))"
    using b by (auto simp: prepared_fields)
  note levels = prepared_wf [OF assms] sampled(2) prepared_within sampled(1) b(2-5)
  have run: "simulate memory mb sim maxtime = (if readable memory then Some sim' else None)" for memory
    using simulate_levels_memory [OF levels _ some, of memory mb] simulate_levels_unreadable [OF levels, of memory mb] s(1)
    by (simp add: simulate_prepared)
  moreover have "simulate memory mb sim' maxtime = simulate memory mb sim maxtime" for memory
    by (simp add: simulate_prepared prepared_again [OF s(2)])
  moreover have "wf_sim sim'" using wf_sim_shape [OF s(2)] prepared_wf [OF assms] by simp
  moreover have "trigIO sim' = trigIO sim"
    "sampledTraces sim' = sampledTraces sim @ replicate (36 - length (sampledTraces sim)) []"
    using s(2) by (simp_all add: same_shape_def prepared_fields)
  ultimately show ?thesis by auto
qed

definition example_sim :: Sim where
  "example_sim = new_sim\<lparr>sampledTraces := [[sample 0 Falling, sample 100 Rising, sample 130 Falling]]\<rparr>"

lemma example_sim_wf: "wf_sim example_sim"
proof -
  have "list_all (\<lambda>lut. strobedOutputs lut = 0) (l1_luts (l1 new_trigger_io))"
    by (simp add: new_trigger_io_def new_luts named_lut_def Let_def new_lut_def list_all_iff)
  then show ?thesis
    using new_trigger_io_wf new_valid_connections
    by (simp add: wf_sim_def example_sim_def new_sim_def io_counts L0_OutputCount_def)
qed

theorem simulate_total_witness:
  "\<exists>sim'. (\<forall>memory. simulate memory all_minterms example_sim 200 = (if readable memory then Some sim' else None)
      \<and> simulate memory all_minterms sim' 200 = (if readable memory then Some sim' else None))
    \<and> wf_sim sim' \<and> trigIO sim' = trigIO example_sim
    \<and> sampledTraces sim' = sampledTraces example_sim @ replicate (36 - length (sampledTraces example_sim)) []"
  by (rule simulate_total [OF example_sim_wf])

lemma simulate_readable:
  assumes "wf_sim sim" "simulate memory mb sim maxtime = Some sim'"
  shows "readable memory"
proof (rule ccontr)
  assume "\<not> readable memory"
  moreover obtain lo hi where b: "\<forall>trace \<in> set (sampledTraces sim). within lo hi trace" "lo \<le> 0" "0 \<le> hi" "lo \<le> maxtime" "maxtime \<le> hi"
    using times_have_bounds by metis
  moreover have "\<forall>trace \<in> set (sampledTraces (prepared sim)). within lo hi trace" "36 \<le> length (sampledTraces (prepared sim))"
    using b by (auto simp: prepared_fields)
  ultimately have "simulate memory mb sim maxtime = None"
    using simulate_levels_unreadable [OF prepared_wf [OF assms(1)] _ prepared_within] by (simp add: simulate_prepared)
  then show False using assms(2) by simp
qed

text \<open>Sampled times and an end of the simulation below \<open>2 ^ 23\<close> ns keep all times of the simulation below
  \<open>2 ^ 24\<close> ns, where every whole number is a \<^verbatim>\<open>float\<close>: the floating point times of the code are exact.\<close>

theorem simulated_times_exact:
  assumes "wf_sim sim" "0 \<le> maxtime" "maxtime < 2 ^ 23"
    and "\<forall>trace \<in> set (sampledTraces sim). \<forall>s \<in> set trace. 0 \<le> s_time s \<and> s_time s < 2 ^ 23"
    and "simulate memory mb sim maxtime = Some sim'" "lookup_output_trace sim' a = Some trace" "s \<in> set trace"
  shows "0 \<le> s_time s \<and> s_time s < 2 ^ 24"
proof -
  have "\<forall>trace \<in> set (sampledTraces sim). within 0 (2 ^ 23 - 1) trace"
    unfolding within_def
  proof (intro ballI)
    fix tr x
    assume "tr \<in> set (sampledTraces sim)" "x \<in> set tr"
    then have "0 \<le> s_time x \<and> s_time x < 2 ^ 23" using assms(4) by blast
    then show "0 \<le> s_time x \<and> s_time x \<le> 2 ^ 23 - 1" by simp
  qed
  then have "sim_within 0 (2 ^ 23 - 1 + 3015490) sim'"
    using simulate_within [OF assms(1), of 0 "2 ^ 23 - 1" maxtime memory mb] simulate_readable [OF assms(1,5)] assms(2,3,5)
    by auto
  from lookup_output_within [OF this assms(6)] assms(7) show ?thesis by (auto simp: within_def)
qed

lemma example_level0:
  "map_option (\<lambda>sim'. lookup_output_trace sim' (0, 16, 0)) (simulate (\<lambda>_. Some 0) all_minterms example_sim 200) =
     Some (Some [sample 44 Falling, sample 144 Rising, sample 174 Falling])"
  by code_simp

theorem simulated_times_exact_witness:
  "\<exists>sim' trace. simulate (\<lambda>_. Some 0) all_minterms example_sim 200 = Some sim'
    \<and> lookup_output_trace sim' (0, 16, 0) = Some trace \<and> sample 174 Falling \<in> set trace
    \<and> 0 \<le> s_time (sample 174 Falling) \<and> s_time (sample 174 Falling) < 2 ^ 24"
proof -
  obtain sim' where s: "simulate (\<lambda>_. Some 0) all_minterms example_sim 200 = Some sim'"
    "lookup_output_trace sim' (0, 16, 0) = Some [sample 44 Falling, sample 144 Rising, sample 174 Falling]"
    using example_level0 by auto
  have "0 \<le> s_time (sample 174 Falling) \<and> s_time (sample 174 Falling) < 2 ^ 24"
    by (rule simulated_times_exact [OF example_sim_wf _ _ _ s]) (simp_all add: example_sim_def)
  with s show ?thesis by auto
qed

section \<open>Dynamic inputs on level 1\<close>

definition select_lut2 :: "nat list \<Rightarrow> TriggerIO \<Rightarrow> TriggerIO" where
  "select_lut2 cs cfg = cfg\<lparr>l1 := (l1 cfg)\<lparr>lut2Connections := cs\<rparr>\<rparr>"

definition reselected :: "nat list \<Rightarrow> Sim \<Rightarrow> Sim" where
  "reselected cs sim = sim\<lparr>trigIO := select_lut2 cs (trigIO sim)\<rparr>"

lemma fold_opt_commute:
  "(\<And>x s. f x (u s) = map_option u (f x s)) \<Longrightarrow> fold_opt f xs (u s) = map_option u (fold_opt f xs s)"
proof (induction xs arbitrary: s)
  case (Cons x xs)
  then show ?case by (cases "f x s") simp_all
qed simp

lemma reselected_lookup: "lookup_output_trace (reselected cs sim) a = lookup_output_trace sim a"
  by (cases a) (simp add: lookup_output_trace.simps reselected_def)

lemma reselected_put: "put_output_trace (reselected cs sim) a t = reselected cs (put_output_trace sim a t)"
  by (cases a) (simp add: put_output_trace.simps reselected_def)

lemma reselected_l0: "simulate_l0 f u (reselected cs sim) = map_option (reselected cs) (simulate_l0 f u sim)"
proof -
  have "lookup_input_trace (reselected cs sim) (0, u, 0) = lookup_input_trace sim (0, u, 0)"
    by (simp add: lookup_input_trace_def lookup_trace_def reselected_def Let_def)
  then show ?thesis
    by (simp add: simulate_l0_def reselected_lookup reselected_put split: option.split)
qed

lemma reselected_put_outputs: "put_outputs l u r (reselected cs sim) = reselected cs (put_outputs l u r sim)"
proof -
  have "fold (\<lambda>(i, t) sim. put_output_trace sim (l, u, i) t) kts (reselected cs sim)
      = reselected cs (fold (\<lambda>(i, t) sim. put_output_trace sim (l, u, i) t) kts sim)" for kts
    by (induction kts arbitrary: sim) (auto simp: reselected_put)
  then show ?thesis by (cases r) (auto simp: put_outputs_def Let_def reselected_put split: option.split)
qed

lemma reselected_l1:
  "simulate_l1_lut mb maxtime x (reselected cs sim) = map_option (reselected cs) (simulate_l1_lut mb maxtime x sim)"
proof (cases x)
  case (Pair k lut)
  have "map_option (\<lambda>r. put_outputs 1 k r (reselected cs sim)) m = map_option (reselected cs) (map_option (\<lambda>r. put_outputs 1 k r sim) m)"
    for m by (cases m) (simp_all add: reselected_put_outputs)
  then show ?thesis
    unfolding Pair simulate_l1_lut_def case_prod_conv reselected_lookup
    by (simp add: option.map_comp map_option_bind comp_def)
qed

lemma reselected_l2:
  "simulate_l2_lut memory mb maxtime x (reselected cs sim) = map_option (reselected cs) (simulate_l2_lut memory mb maxtime x sim)"
proof (cases x)
  case (Pair k lut)
  have "connection_address_reading memory (trigIO (reselected cs sim)) (2, k, i)
      = connection_address_reading memory (trigIO sim) (2, k, i)" for i
  proof -
    have "l2 (trigIO (reselected cs sim)) = l2 (trigIO sim)" by (simp add: reselected_def select_lut2_def)
    then have "get_connection_value (trigIO (reselected cs sim)) (2, k, i) = get_connection_value (trigIO sim) (2, k, i)"
      by simp
    then show ?thesis by (simp only: connection_address_reading_def)
  qed
  moreover have "lookup_output_trace (reselected cs sim) = lookup_output_trace sim"
    by (rule ext) (rule reselected_lookup)
  moreover have "map_option (\<lambda>r. put_outputs 2 k r (reselected cs sim)) m
      = map_option (reselected cs) (map_option (\<lambda>r. put_outputs 2 k r sim) m)"
    for m by (cases m) (simp_all add: reselected_put_outputs)
  ultimately show ?thesis
    unfolding Pair simulate_l2_lut_def case_prod_conv Let_def
    by (simp only: map_option_bind comp_def)
qed

text \<open>The simulation ignores which sources are selected for the dynamic inputs of \<^verbatim>\<open>L1.LUT2\<close>: it takes the
  address of the static connection, which for a dynamic one is the address of timer 0. Whatever selection
  the configuration holds, all traces are the same.\<close>

theorem dynamic_level1_inputs_ignored:
  "simulate memory mb (reselected cs sim) maxtime = map_option (reselected cs) (simulate memory mb sim maxtime)
    \<and> map (\<lambda>i. map_option connection_address (static_connection L1_StaticConnections 2 i)) [0..<LUT_DynamicInputCount]
      = [Some (0, 0, 0), Some (0, 0, 0), Some (0, 0, 0)]
    \<and> get_connection_unit_address (select_lut2 [1, 0, 0] new_trigger_io) (1, 2, 0) = Some (0, 33, 0)"
proof -
  have prep: "prepared (reselected cs sim) = reselected cs (prepared sim)"
    by (simp add: prepared_def clear_simulated_traces_def reselected_def Let_def)
  have cfg: "ioNIM (l0 (trigIO (reselected cs s))) = ioNIM (l0 (trigIO s))" "ioIRQ (l0 (trigIO (reselected cs s))) = ioIRQ (l0 (trigIO s))"
    "l1_luts (l1 (trigIO (reselected cs s))) = l1_luts (l1 (trigIO s))" "l2_luts (l2 (trigIO (reselected cs s))) = l2_luts (l2 (trigIO s))"
    for s by (simp_all add: reselected_def select_lut2_def)
  have bind: "Option.bind (map_option (reselected cs) m) g = map_option (reselected cs) (Option.bind m h)"
    if "\<And>s. g (reselected cs s) = map_option (reselected cs) (h s)" for m g h
    using that by (cases m) simp_all
  have "simulate_util x (reselected cs s) = map_option (reselected cs) (simulate_util x s)"
    "simulate_nim maxtime y (reselected cs s) = map_option (reselected cs) (simulate_nim maxtime y s)"
    "simulate_irq maxtime y (reselected cs s) = map_option (reselected cs) (simulate_irq maxtime y s)" for x y s
    by (cases y; simp add: simulate_util_def simulate_nim_def simulate_irq_def reselected_l0)+
  note steps = fold_opt_commute [of simulate_util, OF this(1)] fold_opt_commute [of "simulate_nim maxtime", OF this(2)]
    fold_opt_commute [of "simulate_irq maxtime", OF this(3)] fold_opt_commute [of "simulate_l1_lut mb maxtime", OF reselected_l1]
    fold_opt_commute [of "simulate_l2_lut memory mb maxtime", OF reselected_l2]
  have "simulate memory mb (reselected cs sim) maxtime = map_option (reselected cs) (simulate memory mb sim maxtime)"
    unfolding simulate_prepared prep simulate_levels_def
    by (subst steps(1), intro bind, subst cfg, subst steps(2), intro bind, subst cfg, subst steps(3), intro bind,
        subst cfg, subst steps(4), intro bind, subst cfg, rule steps(5))
  moreover have "map (\<lambda>i. map_option connection_address (static_connection L1_StaticConnections 2 i)) [0..<LUT_DynamicInputCount]
      = [Some (0, 0, 0), Some (0, 0, 0), Some (0, 0, 0)]"
    by code_simp
  moreover have "get_connection_unit_address (select_lut2 [1, 0, 0] new_trigger_io) (1, 2, 0) = Some (0, 33, 0)"
    by (simp add: select_lut2_def LUT_DynamicInputCount_def LUT2DynamicInputChoices_def)
  ultimately show ?thesis by blast
qed

end
