(* ===== verification/Listfile_Format.thy ===== *)
theory Listfile_Format
  imports Prelude
begin

text \<open>
  The format of mvme listfiles and data streams: \<^verbatim>\<open>src/src/mvme_listfile.h\<close> and \<^verbatim>\<open>mvme_listfile.cc\<close>, with the
  buffers of \<^verbatim>\<open>src/src/databuffer.h\<close> and the iterator over the 32-bit words of a buffer of
  \<^verbatim>\<open>src/src/util.h\<close>.
\<close>

section \<open>Sections and constants\<close>

datatype SectionType = SectionType_Config | SectionType_Event | SectionType_End | SectionType_Timetick
  | SectionType_Pause | SectionType_Max

primrec section_code :: "SectionType \<Rightarrow> u32" where
  "section_code SectionType_Config = 0"
| "section_code SectionType_Event = 1"
| "section_code SectionType_End = 2"
| "section_code SectionType_Timetick = 3"
| "section_code SectionType_Pause = 4"
| "section_code SectionType_Max = 7"

definition CurrentListfileVersion :: u32 where "CurrentListfileVersion = 2"

definition EndMarker :: u32 where "EndMarker = 0x87654321"
definition BerrMarker :: u32 where "BerrMarker = 0xFFFFFFFF"

record ListfileConstants =
  Version :: u32
  FourCC :: string
  FirstSectionOffset :: int
  SectionMaxWords :: u32
  SectionMaxSize :: u32
  SectionTypeMask :: u32
  SectionTypeShift :: nat
  SectionSizeMask :: u32
  SectionSizeShift :: nat
  CrateIndexMask :: u32
  CrateIndexShift :: nat
  EventIndexMask :: u32
  EventIndexShift :: nat
  ModuleDataMaxWords :: u32
  ModuleDataMaxSize :: u32
  ModuleDataSizeMask :: u32
  ModuleDataSizeShift :: nat
  ModuleTypeMask :: u32
  ModuleTypeShift :: nat

definition ListfileConstantsTable :: "ListfileConstants list" where
  "ListfileConstantsTable =
     [\<lparr>Version = 0, FourCC = replicate 4 (CHR 0x00), FirstSectionOffset = 0,
       SectionMaxWords = 0xFFFF, SectionMaxSize = 0xFFFF * 4,
       SectionTypeMask = 0xE0000000, SectionTypeShift = 29, SectionSizeMask = 0xFFFF, SectionSizeShift = 0,
       CrateIndexMask = 0, CrateIndexShift = 0, EventIndexMask = 0xF0000, EventIndexShift = 16,
       ModuleDataMaxWords = 0x3FF, ModuleDataMaxSize = 0x3FF * 4, ModuleDataSizeMask = 0x3FF,
       ModuleDataSizeShift = 0, ModuleTypeMask = 0x3F000, ModuleTypeShift = 12\<rparr>,
      \<lparr>Version = 1, FourCC = ''MVME'', FirstSectionOffset = 8,
       SectionMaxWords = 0xFFFFF, SectionMaxSize = 0xFFFFF * 4,
       SectionTypeMask = 0xE0000000, SectionTypeShift = 29, SectionSizeMask = 0xFFFFF, SectionSizeShift = 0,
       CrateIndexMask = 0, CrateIndexShift = 0, EventIndexMask = 0x1E000000, EventIndexShift = 25,
       ModuleDataMaxWords = 0xFFFFF, ModuleDataMaxSize = 0xFFFFF * 4, ModuleDataSizeMask = 0xFFFFF,
       ModuleDataSizeShift = 0, ModuleTypeMask = 0xFF000000, ModuleTypeShift = 24\<rparr>,
      \<lparr>Version = 2, FourCC = ''MVME'', FirstSectionOffset = 8,
       SectionMaxWords = 0xFFFFF, SectionMaxSize = 0xFFFFF * 4,
       SectionTypeMask = 0xE0000000, SectionTypeShift = 29, SectionSizeMask = 0xFFFFF, SectionSizeShift = 0,
       CrateIndexMask = 0x1C000000, CrateIndexShift = 26, EventIndexMask = 0x03C00000, EventIndexShift = 22,
       ModuleDataMaxWords = 0xFFFFF, ModuleDataMaxSize = 0xFFFFF * 4, ModuleDataSizeMask = 0xFFFFF,
       ModuleDataSizeShift = 0, ModuleTypeMask = 0xFF000000, ModuleTypeShift = 24\<rparr>]"

definition listfile_constants :: "u32 \<Rightarrow> ListfileConstants" where
  "listfile_constants version =
     ListfileConstantsTable ! unat (if of_nat (length ListfileConstantsTable) \<le> version then CurrentListfileVersion else version)"

section \<open>Header words\<close>

definition mask_and_shift :: "u32 \<Rightarrow> u32 \<Rightarrow> nat \<Rightarrow> u32" where
  "mask_and_shift value m shift = drop_bit shift (value AND m)"

definition hasCrateIndex :: "ListfileConstants \<Rightarrow> bool" where
  "hasCrateIndex lf \<longleftrightarrow> CrateIndexMask lf \<noteq> 0"

definition getSectionType :: "ListfileConstants \<Rightarrow> u32 \<Rightarrow> u32" where
  "getSectionType lf sectionHeader = mask_and_shift sectionHeader (SectionTypeMask lf) (SectionTypeShift lf)"

definition getSectionSize :: "ListfileConstants \<Rightarrow> u32 \<Rightarrow> u32" where
  "getSectionSize lf sectionHeader = mask_and_shift sectionHeader (SectionSizeMask lf) (SectionSizeShift lf)"

definition getCrateIndex :: "ListfileConstants \<Rightarrow> u32 \<Rightarrow> u32" where
  "getCrateIndex lf eventSectionHeader =
     (if \<not> hasCrateIndex lf then 0 else mask_and_shift eventSectionHeader (CrateIndexMask lf) (CrateIndexShift lf))"

definition getEventIndex :: "ListfileConstants \<Rightarrow> u32 \<Rightarrow> u32" where
  "getEventIndex lf eventSectionHeader = mask_and_shift eventSectionHeader (EventIndexMask lf) (EventIndexShift lf)"

definition getModuleDataSize :: "ListfileConstants \<Rightarrow> u32 \<Rightarrow> u32" where
  "getModuleDataSize lf moduleDataHeader = mask_and_shift moduleDataHeader (ModuleDataSizeMask lf) (ModuleDataSizeShift lf)"

definition getModuleType :: "ListfileConstants \<Rightarrow> u32 \<Rightarrow> u32" where
  "getModuleType lf moduleDataHeader = mask_and_shift moduleDataHeader (ModuleTypeMask lf) (ModuleTypeShift lf)"

text \<open>\<^const>\<open>None\<close> is a failed assertion.\<close>

definition makeEventSectionHeader :: "ListfileConstants \<Rightarrow> u32 \<Rightarrow> u32 \<Rightarrow> u32 option" where
  "makeEventSectionHeader lf eventIndex crateIndex =
     (let result = push_bit (SectionTypeShift lf) (section_code SectionType_Event) AND SectionTypeMask lf;
          result = result OR (push_bit (EventIndexShift lf) eventIndex AND EventIndexMask lf);
          result = (if hasCrateIndex lf
                    then result OR (push_bit (CrateIndexShift lf) crateIndex AND CrateIndexMask lf) else result)
      in if getEventIndex lf result = eventIndex \<and> (hasCrateIndex lf \<longrightarrow> getCrateIndex lf result = crateIndex)
         then Some result else None)"

section \<open>Bytes\<close>

text \<open>The bytes of a word in memory order.\<close>

definition word_bytes :: "u32 \<Rightarrow> u8 list" where
  "word_bytes w = [ucast w, ucast (drop_bit 8 w), ucast (drop_bit 16 w), ucast (drop_bit 24 w)]"

definition word_of :: "u8 \<Rightarrow> u8 \<Rightarrow> u8 \<Rightarrow> u8 \<Rightarrow> u32" where
  "word_of a b c d = ucast a OR push_bit 8 (ucast b) OR push_bit 16 (ucast c) OR push_bit 24 (ucast d)"

fun bytes_words :: "u8 list \<Rightarrow> u32 list" where
  "bytes_words (a # b # c # d # bs) = word_of a b c d # bytes_words bs"
| "bytes_words _ = []"

definition words_bytes :: "u32 list \<Rightarrow> u8 list" where
  "words_bytes ws = concat (map word_bytes ws)"

section \<open>Buffers and iterators\<close>

text \<open>\<open>db_data\<close> are the bytes of the whole allocation. \<open>uninit\<close> is what fresh memory holds.\<close>

record DataBuffer =
  db_data :: "u8 list"
  db_size :: nat
  db_used :: nat
  db_id :: u32
  db_tag :: int

definition reserve :: "(nat \<Rightarrow> u8) \<Rightarrow> nat \<Rightarrow> DataBuffer \<Rightarrow> DataBuffer" where
  "reserve uninit newSize b =
     (if newSize \<le> db_size b then b
      else let n = 4 * (newSize div 4 + 1)
           in b\<lparr>db_data := take (db_used b) (db_data b) @ map uninit [db_used b..<n], db_size := newSize\<rparr>)"

definition new_buffer :: "(nat \<Rightarrow> u8) \<Rightarrow> nat \<Rightarrow> int \<Rightarrow> u32 \<Rightarrow> DataBuffer" where
  "new_buffer uninit sz tag bid =
     reserve uninit sz \<lparr>db_data = [], db_size = 0, db_used = 0, db_id = bid, db_tag = tag\<rparr>"

definition free_space :: "DataBuffer \<Rightarrow> nat" where
  "free_space b = db_size b - db_used b"

definition ensureFreeSpace :: "(nat \<Rightarrow> u8) \<Rightarrow> nat \<Rightarrow> DataBuffer \<Rightarrow> DataBuffer" where
  "ensureFreeSpace uninit freeSize b =
     (if free_space b < freeSize then reserve uninit (db_used b + freeSize) b else b)"

text \<open>Storing bytes at the end of the used part, \<^const>\<open>None\<close> if they do not fit in the allocation.\<close>

definition store_bytes :: "u8 list \<Rightarrow> DataBuffer \<Rightarrow> DataBuffer option" where
  "store_bytes bs b =
     (if db_used b + length bs \<le> length (db_data b)
      then Some (b\<lparr>db_data := take (db_used b) (db_data b) @ bs @ drop (db_used b + length bs) (db_data b),
                   db_used := db_used b + length bs\<rparr>)
      else None)"

definition used_bytes :: "DataBuffer \<Rightarrow> u8 list" where
  "used_bytes b = take (db_used b) (db_data b)"

text \<open>Iterators with 32-bit alignment. The positions are word indices of the memory; bytes after the last
  whole word are never read.\<close>

record BufferIterator =
  it_data :: nat
  it_pos :: nat
  it_end :: nat

definition buffer_iterator :: "nat \<Rightarrow> nat \<Rightarrow> BufferIterator" where
  "buffer_iterator begin words = \<lparr>it_data = begin, it_pos = begin, it_end = begin + words\<rparr>"

definition longwordsLeft :: "BufferIterator \<Rightarrow> nat" where
  "longwordsLeft it = it_end it - it_pos it"

definition atEnd :: "BufferIterator \<Rightarrow> bool" where
  "atEnd it \<longleftrightarrow> it_pos it = it_end it"

text \<open>The next word; \<^const>\<open>None\<close> is a read past the memory or the exception of the iterator, which its users
  exclude by asking for the words left. At the end \<open>peekU32\<close> reads behind the buffer.\<close>

definition peekU32 :: "u32 list \<Rightarrow> BufferIterator \<Rightarrow> u32 option" where
  "peekU32 mem it = (if it_end it < it_pos it then None else at_opt mem (it_pos it))"

definition extractU32 :: "u32 list \<Rightarrow> BufferIterator \<Rightarrow> (u32 \<times> BufferIterator) option" where
  "extractU32 mem it =
     (if it_end it < it_pos it + 1 then None
      else map_option (\<lambda>w. (w, it\<lparr>it_pos := it_pos it + 1\<rparr>)) (at_opt mem (it_pos it)))"

definition skip :: "nat \<Rightarrow> BufferIterator \<Rightarrow> BufferIterator" where
  "skip n it = it\<lparr>it_pos := min (it_pos it + n) (it_end it)\<rparr>"

section \<open>Lemmas\<close>

lemma bytes_words_bytes [simp]: "bytes_words (words_bytes ws) = ws"
proof (induction ws)
  case (Cons w ws)
  have "word_of (ucast w) (ucast (drop_bit 8 w)) (ucast (drop_bit 16 w)) (ucast (drop_bit 24 w)) = w"
  proof (rule bit_word_eqI)
    fix n
    assume "n < LENGTH(32)"
    then show "bit (word_of (ucast w) (ucast (drop_bit 8 w)) (ucast (drop_bit 16 w)) (ucast (drop_bit 24 w))) n = bit w n"
      by (cases "n < 8"; cases "n < 16"; cases "n < 24")
        (auto simp: word_of_def bit_or_iff bit_push_bit_iff bit_ucast_iff bit_drop_bit_eq)
  qed
  with Cons show ?case by (simp add: words_bytes_def word_bytes_def)
qed (simp add: words_bytes_def)

lemma length_words_bytes [simp]: "length (words_bytes ws) = 4 * length ws"
  by (induction ws) (simp_all add: words_bytes_def word_bytes_def)

lemma words_bytes_simps [simp]:
  "words_bytes [] = []" "words_bytes (w # ws) = word_bytes w @ words_bytes ws"
  "words_bytes (ws @ vs) = words_bytes ws @ words_bytes vs"
  by (simp_all add: words_bytes_def)

lemma length_bytes_words: "length (bytes_words bs) = length bs div 4"
  by (induction bs rule: bytes_words.induct) auto

lemma bytes_words_append:
  "length bs mod 4 = 0 \<Longrightarrow> bytes_words (bs @ cs) = bytes_words bs @ bytes_words cs"
  by (induction bs rule: bytes_words.induct) (auto simp: mod_Suc split: if_splits)

lemma listfile_constants_cases:
  "listfile_constants version \<in> set ListfileConstantsTable"
proof -
  have "unat (if of_nat (length ListfileConstantsTable) \<le> version then CurrentListfileVersion else version) < 3"
    by (auto simp: ListfileConstantsTable_def CurrentListfileVersion_def word_le_nat_alt)
  then show ?thesis unfolding listfile_constants_def by (intro nth_mem) (simp add: ListfileConstantsTable_def)
qed

section \<open>Header words\<close>

text \<open>The fields of a header as bit ranges.\<close>

lemma mask_and_shift_field:
  "k + n \<le> 32 \<Longrightarrow> mask_and_shift v (push_bit k (mask n)) k = take_bit n (drop_bit k v)"
  by (rule bit_word_eqI)
    (auto simp: mask_and_shift_def bit_drop_bit_eq bit_and_iff bit_push_bit_iff bit_mask_iff bit_take_bit_iff)

lemma table_masks:
  assumes "lf \<in> set ListfileConstantsTable"
  shows "SectionTypeMask lf = push_bit 29 (mask 3)" "SectionTypeShift lf = 29"
    and "SectionSizeMask lf = SectionMaxWords lf" "SectionSizeShift lf = 0"
    and "SectionMaxWords lf = mask (if Version lf = 0 then 16 else 20)"
    and "EventIndexMask lf = push_bit (EventIndexShift lf) (mask 4)"
    and "EventIndexShift lf \<in> {16, 22, 25}" "Version lf = 0 \<longleftrightarrow> EventIndexShift lf = 16"
    and "CrateIndexMask lf = push_bit (CrateIndexShift lf) (mask (if hasCrateIndex lf then 3 else 0))"
    and "hasCrateIndex lf \<longleftrightarrow> EventIndexShift lf = 22"
    and "CrateIndexShift lf = (if hasCrateIndex lf then 26 else 0)"
  using assms by (auto simp: ListfileConstantsTable_def hasCrateIndex_def mask_eq_exp_minus_1)

definition event_header :: "ListfileConstants \<Rightarrow> u32 \<Rightarrow> u32 \<Rightarrow> u32" where
  "event_header lf e c = (push_bit 29 1 OR push_bit (EventIndexShift lf) (take_bit 4 e))
     OR (if hasCrateIndex lf then push_bit 26 (take_bit 3 c) else 0)"

lemma bit_event_header:
  "bit (event_header lf e c) i \<longleftrightarrow> i < 32 \<and> (i = 29
     \<or> EventIndexShift lf \<le> i \<and> i < EventIndexShift lf + 4 \<and> bit e (i - EventIndexShift lf)
     \<or> hasCrateIndex lf \<and> 26 \<le> i \<and> i < 29 \<and> bit c (i - 26))"
proof -
  have one: "bit (push_bit 29 1 :: u32) i \<longleftrightarrow> i = 29" by (rule bit_push_one) simp
  show ?thesis
    unfolding event_header_def bit_or_iff one
    by (auto simp: bit_push_bit_iff bit_take_bit_iff)
qed

lemma push_and_field: "k + n \<le> 32 \<Longrightarrow> push_bit k v AND push_bit k (mask n) = push_bit k (take_bit n v)" for v :: u32
  by (rule bit_word_eqI) (auto simp: bit_and_iff bit_push_bit_iff bit_mask_iff bit_take_bit_iff)

lemma uint_two_power: "n < 32 \<Longrightarrow> uint (2 ^ n :: u32) = 2 ^ n"
  by (rule uint_2p) (simp add: word_gt_0)

lemma take_bit_less_iff: "take_bit n v = v \<longleftrightarrow> v < 2 ^ n" if "n < 32" for v :: u32
proof -
  have "take_bit n v = v \<longleftrightarrow> take_bit n (uint v) = uint v"
    by (metis unsigned_take_bit_eq word_uint_eqI)
  also have "\<dots> \<longleftrightarrow> uint v < 2 ^ n" by (simp add: take_bit_int_eq_self_iff)
  also have "\<dots> \<longleftrightarrow> v < 2 ^ n" using that by (simp add: word_less_def uint_two_power)
  finally show ?thesis .
qed

lemma word_le_maskD:
  fixes w :: u32
  assumes "w \<le> mask n" "bit w i" "n < 32"
  shows "i < n"
proof -
  have "(mask n :: u32) < 2 ^ n"
    using assms(3) by (simp add: mask_eq_exp_minus_1 word_less_def uint_two_power uint_sub_if_size)
  then have "take_bit n w = w" using assms(1,3) by (simp add: take_bit_less_iff)
  then show ?thesis using assms(2) by (metis bit_take_bit_iff)
qed

lemma header_fields:
  assumes lf: "lf \<in> set ListfileConstantsTable" and words: "words \<le> SectionMaxWords lf"
  shows "getSectionType lf (event_header lf e c OR words) = section_code SectionType_Event"
    and "getSectionSize lf (event_header lf e c OR words) = words"
    and "getEventIndex lf (event_header lf e c OR words) = take_bit 4 e"
    and "getCrateIndex lf (event_header lf e c OR words) = (if hasCrateIndex lf then take_bit 3 c else 0)"
proof -
  note tm = table_masks [OF lf]
  have w: "bit words i \<Longrightarrow> i < (if EventIndexShift lf = 16 then 16 else 20)" for i
    using words word_le_maskD [of words _ i] unfolding tm(5) tm(8) by (auto split: if_splits)
  have k: "EventIndexShift lf = 16 \<or> EventIndexShift lf = 22 \<or> EventIndexShift lf = 25" using tm(7) by auto
  have size: "SectionSizeMask lf = push_bit 0 (mask (if EventIndexShift lf = 16 then 16 else 20))"
    using tm(3,5,8) by simp
  show "getSectionType lf (event_header lf e c OR words) = section_code SectionType_Event"
    unfolding getSectionType_def tm(1,2) using k tm(10)
    by (subst mask_and_shift_field, simp, intro bit_word_eqI)
      (auto simp: bit_take_bit_iff bit_drop_bit_eq bit_or_iff bit_event_header bit_1_iff dest: w)
  show "getSectionSize lf (event_header lf e c OR words) = words"
    unfolding getSectionSize_def size tm(4) using k tm(10)
    by (subst mask_and_shift_field, simp, intro bit_word_eqI)
      (auto simp: bit_take_bit_iff bit_drop_bit_eq bit_or_iff bit_event_header bit_1_iff dest: w split: if_splits)
  show "getEventIndex lf (event_header lf e c OR words) = take_bit 4 e"
    unfolding getEventIndex_def tm(6) using k tm(10)
    by (subst mask_and_shift_field, force, intro bit_word_eqI)
      (auto simp: bit_take_bit_iff bit_drop_bit_eq bit_or_iff bit_event_header bit_1_iff dest: w)
  show "getCrateIndex lf (event_header lf e c OR words) = (if hasCrateIndex lf then take_bit 3 c else 0)"
    unfolding getCrateIndex_def tm(9,11) using k tm(10)
    by (simp, subst mask_and_shift_field, force, intro impI bit_word_eqI)
      (auto simp: bit_take_bit_iff bit_drop_bit_eq bit_or_iff bit_event_header bit_1_iff dest: w)
qed

lemma makeEventSectionHeader_eq:
  assumes lf: "lf \<in> set ListfileConstantsTable"
  shows "makeEventSectionHeader lf e c =
     (if e < 16 \<and> (hasCrateIndex lf \<longrightarrow> c < 8) then Some (event_header lf e c) else None)"
proof -
  note tm = table_masks [OF lf]
  have k: "EventIndexShift lf + 4 \<le> 32" using tm(7) by auto
  have t: "push_bit 29 (section_code SectionType_Event) AND push_bit 29 (mask 3) = push_bit 29 1"
    by (simp add: mask_eq_exp_minus_1)
  have "makeEventSectionHeader lf e c =
      (if getEventIndex lf (event_header lf e c) = e \<and> (hasCrateIndex lf \<longrightarrow> getCrateIndex lf (event_header lf e c) = c)
       then Some (event_header lf e c) else None)"
  proof (cases "hasCrateIndex lf")
    case True
    have c: "push_bit 26 c AND push_bit 26 (mask 3) = push_bit 26 (take_bit 3 c)" by (rule push_and_field) simp
    show ?thesis
      unfolding makeEventSectionHeader_def Let_def tm(1,2) tm(6) tm(9,11) t push_and_field [OF k] event_header_def
      by (simp only: True if_True c simp_thms)
  next
    case False
    show ?thesis
      unfolding makeEventSectionHeader_def Let_def tm(1,2) tm(6) t push_and_field [OF k] event_header_def
      by (simp only: False if_False or.right_neutral simp_thms)
  qed
  also have "\<dots> = (if take_bit 4 e = e \<and> (hasCrateIndex lf \<longrightarrow> take_bit 3 c = c) then Some (event_header lf e c) else None)"
    using header_fields [OF lf, of 0] by simp
  finally show ?thesis by (simp add: take_bit_less_iff)
qed

text \<open>The fields of an event header do not overlap: the indices and the section size that are put in are
  read back, for every format version. Indices that do not fit are refused by an assertion.\<close>

theorem event_header_roundtrip:
  "(makeEventSectionHeader (listfile_constants version) eventIndex crateIndex \<noteq> None \<longleftrightarrow>
     eventIndex < 16 \<and> (hasCrateIndex (listfile_constants version) \<longrightarrow> crateIndex < 8))
   \<and> (\<forall>h words. makeEventSectionHeader (listfile_constants version) eventIndex crateIndex = Some h
        \<and> words \<le> SectionMaxWords (listfile_constants version) \<longrightarrow>
      getSectionType (listfile_constants version) (h OR words) = section_code SectionType_Event
      \<and> getSectionSize (listfile_constants version) (h OR words) = words
      \<and> getEventIndex (listfile_constants version) (h OR words) = eventIndex
      \<and> getCrateIndex (listfile_constants version) (h OR words) =
          (if hasCrateIndex (listfile_constants version) then crateIndex else 0))"
  using header_fields [OF listfile_constants_cases [of version]]
  by (auto simp: makeEventSectionHeader_eq [OF listfile_constants_cases] take_bit_less_iff split: if_splits)

theorem event_header_roundtrip_witness:
  "\<exists>h. makeEventSectionHeader (listfile_constants 2) 5 3 = Some h \<and> getSectionSize (listfile_constants 2) (h OR 0x1234) = 0x1234
    \<and> getEventIndex (listfile_constants 2) (h OR 0x1234) = 5 \<and> getCrateIndex (listfile_constants 2) (h OR 0x1234) = 3"
proof -
  have crate: "hasCrateIndex (listfile_constants 2)" "SectionMaxWords (listfile_constants 2) = 0xFFFFF" by code_simp+
  show ?thesis using event_header_roundtrip [of 2 5 3] by (auto simp: crate)
qed

end
