(* ===== verification/Stream_Processor.thy ===== *)
theory Stream_Processor
  imports Data_Filter Listfile_Format
begin

text \<open>
  The processing of mvme data streams: \<^verbatim>\<open>src/src/mvme_stream_processor.h\<close> and \<^verbatim>\<open>mvme_stream_processor.cc\<close>, with the
  counters of \<^verbatim>\<open>stream_processor_counters.h\<close> and the limits of \<^verbatim>\<open>vme_config_limits.h\<close>. A buffer holds
  sections; the data of the modules of an event section is passed to the analysis, the diagnostics and the module
  consumers, split to single events if multi-event processing is enabled. The calls to these receivers are
  collected in order. Pointers to the buffer are word indices; a read past the allocated memory, an index out of
  an array or a failed assertion is \<^const>\<open>None\<close>.
\<close>

section \<open>State\<close>

definition MaxVMEEvents :: nat where "MaxVMEEvents = 12"
definition MaxVMEModules :: nat where "MaxVMEModules = 20"

record ModuleInfo =
  moduleDataHeader :: "nat option"
  moduleHeader :: "nat option"
  moduleHeaderFilter :: DataFilter
  filterCacheModuleSectionSize :: CacheEntry

definition default_filter :: DataFilter where
  "default_filter = \<lparr>filter_chars = replicate FilterSize (CHR 0x00), matchMask = 0, matchValue = 0, matchWordIndex = -1\<rparr>"

definition default_cache :: CacheEntry where
  "default_cache = \<lparr>extractMask = 0, needGather = False, extractShift = 0, extractBits = 0\<rparr>"

definition empty_info :: ModuleInfo where
  "empty_info = \<lparr>moduleDataHeader = None, moduleHeader = None, moduleHeaderFilter = default_filter,
     filterCacheModuleSectionSize = default_cache\<rparr>"

record Counters =
  bytesProcessed :: u64
  buffersProcessed :: u32
  buffersWithErrors :: u32
  totalEvents :: u32
  invalidEventIndices :: u32
  eventCounters :: "u32 list"
  moduleCounters :: "u32 list list"

definition empty_counters :: Counters where
  "empty_counters = \<lparr>bytesProcessed = 0, buffersProcessed = 0, buffersWithErrors = 0, totalEvents = 0,
     invalidEventIndices = 0, eventCounters = replicate MaxVMEEvents 0,
     moduleCounters = replicate MaxVMEEvents (replicate MaxVMEModules 0)\<rparr>"

text \<open>Who is called, and with what: \<open>ModuleData\<close> has the event and module index, the position of the first
  word and the number of words.\<close>

datatype Receiver = Analysis | Diagnostics | Consumer nat

datatype Call = BeginRun | EndRun | Startup | Shutdown | BeginEvent nat | ModuleData nat nat nat nat | EndEvent nat | Timetick

type_synonym Calls = "(Receiver \<times> Call) list"

record StreamProcessor =
  counters :: Counters
  isReplay :: bool
  analysis :: bool
  diag :: bool
  listfileConstants :: ListfileConstants
  eventInfos :: "ModuleInfo list list"
  eventConfigs :: "bool list"
  doMultiEventProcessing :: "bool list"
  moduleConsumers :: "nat list"
  bufferIter :: "BufferIterator option"
  eventIter :: "BufferIterator option"
  sp_calls :: Calls

definition to_analysis :: "StreamProcessor \<Rightarrow> Call \<Rightarrow> Calls" where
  "to_analysis st c = (if analysis st then [(Analysis, c)] else [])"

definition to_diag :: "StreamProcessor \<Rightarrow> Call \<Rightarrow> Calls" where
  "to_diag st c = (if diag st then [(Diagnostics, c)] else [])"

definition to_consumers :: "StreamProcessor \<Rightarrow> Call \<Rightarrow> Calls" where
  "to_consumers st c = map (\<lambda>i. (Consumer i, c)) (moduleConsumers st)"

definition emit :: "Calls \<Rightarrow> StreamProcessor \<Rightarrow> StreamProcessor" where
  "emit cs st = st\<lparr>sp_calls := sp_calls st @ cs\<rparr>"

definition count :: "(Counters \<Rightarrow> Counters) \<Rightarrow> StreamProcessor \<Rightarrow> StreamProcessor" where
  "count f st = st\<lparr>counters := f (counters st)\<rparr>"

section \<open>Set up\<close>

definition attachDiagnostics :: "StreamProcessor \<Rightarrow> StreamProcessor option" where
  "attachDiagnostics st = (if diag st then None else Some (st\<lparr>diag := True\<rparr>))"

definition removeDiagnostics :: "StreamProcessor \<Rightarrow> StreamProcessor option" where
  "removeDiagnostics st = (if diag st then Some (st\<lparr>diag := False\<rparr>) else None)"

definition attachModuleConsumer :: "nat \<Rightarrow> StreamProcessor \<Rightarrow> StreamProcessor" where
  "attachModuleConsumer c st = st\<lparr>moduleConsumers := moduleConsumers st @ [c]\<rparr>"

definition removeModuleConsumer :: "nat \<Rightarrow> StreamProcessor \<Rightarrow> StreamProcessor" where
  "removeModuleConsumer c st = st\<lparr>moduleConsumers := removeAll c (moduleConsumers st)\<rparr>"

definition startup :: "StreamProcessor \<Rightarrow> StreamProcessor" where
  "startup st = emit (to_consumers st Startup) st"

definition shutdown :: "StreamProcessor \<Rightarrow> StreamProcessor" where
  "shutdown st = emit (to_consumers st Shutdown) st"

text \<open>What \<open>beginRun\<close> reads from the VME configuration and the settings of the analysis: the filter of a
  module in the settings, its default filter, and whether the module is enabled.\<close>

record ModuleSetup =
  settings_filter :: string
  meta_filter :: string
  enabled :: bool

record EventSetup =
  multi_setting :: bool
  modules :: "ModuleSetup list"

fun setup_modules :: "bool \<Rightarrow> ModuleSetup list \<Rightarrow> exn + bool \<times> ModuleInfo list" where
  "setup_modules multi [] = Inr (multi, [])"
| "setup_modules multi (m # ms) =
     (let moduleEventHeaderFilter = (if settings_filter m = [] then meta_filter m else settings_filter m)
      in if moduleEventHeaderFilter = [] \<or> \<not> enabled m
         then bind_err (setup_modules False ms) (\<lambda>(multi, infos). Inr (multi, empty_info # infos))
         else bind_err (make_filter moduleEventHeaderFilter (- 1)) (\<lambda>f.
                bind_err (setup_modules multi ms) (\<lambda>(multi, infos).
                  Inr (multi, empty_info\<lparr>moduleHeaderFilter := f,
                         filterCacheModuleSectionSize := make_cache_entry f CHR ''S''\<rparr> # infos))))"

definition fill_to :: "nat \<Rightarrow> 'a \<Rightarrow> 'a list \<Rightarrow> 'a list" where
  "fill_to n x xs = xs @ replicate (n - length xs) x"

text \<open>\<^const>\<open>None\<close>: more events or modules than the arrays hold.\<close>

definition beginRun :: "bool \<Rightarrow> EventSetup list \<Rightarrow> u32 \<Rightarrow> StreamProcessor \<Rightarrow> (exn + StreamProcessor) option" where
  "beginRun replay setups listfileVersion st =
     (if MaxVMEEvents < length setups \<or> list_ex (\<lambda>e. MaxVMEModules < length (modules e)) setups then None
      else Some (bind_err (map_err (\<lambda>e. setup_modules (multi_setting e) (modules e)) setups) (\<lambda>events.
        let st = st\<lparr>counters := empty_counters, isReplay := replay, analysis := True,
               listfileConstants := listfile_constants listfileVersion,
               eventInfos := fill_to MaxVMEEvents (replicate MaxVMEModules empty_info)
                 (map (fill_to MaxVMEModules empty_info \<circ> snd) events),
               eventConfigs := fill_to MaxVMEEvents False (map (\<lambda>_. True) setups),
               doMultiEventProcessing := fill_to MaxVMEEvents False (map fst events)\<rparr>
        in Inr (emit (to_consumers st BeginRun @ to_diag st BeginRun) st))))"

definition endRun :: "StreamProcessor \<Rightarrow> StreamProcessor option" where
  "endRun st = (if analysis st then Some (emit (to_consumers st EndRun @ [(Analysis, EndRun)]) st) else None)"

section \<open>Event sections\<close>

text \<open>Step 1: the positions of the headers of the modules, at most as many as the array of module infos has
  entries.\<close>

fun collect_modules :: "ListfileConstants \<Rightarrow> u32 list \<Rightarrow> nat \<Rightarrow> BufferIterator \<Rightarrow> nat list option" where
  "collect_modules lf mem 0 it = Some []"
| "collect_modules lf mem (Suc n) it =
     (if atEnd it then Some []
      else case extractU32 mem it of
             None \<Rightarrow> None
           | Some (w, it') \<Rightarrow>
               if w = EndMarker then Some []
               else map_option ((#) (it_pos it))
                      (collect_modules lf mem n (skip (unat (getModuleDataSize lf w)) it')))"

definition set_pointers :: "nat list \<Rightarrow> ModuleInfo list \<Rightarrow> ModuleInfo list" where
  "set_pointers ps infos =
     map (\<lambda>(i, mi). mi\<lparr>moduleDataHeader := at_opt ps i, moduleHeader := map_option (\<lambda>p. p + 1) (at_opt ps i)\<rparr>)
       (indexed 0 infos)"

text \<open>A module in the loops of step 2: its info, its counter and its number of events in this section.\<close>

record ModuleSlot =
  ms_info :: ModuleInfo
  ms_counter :: u32
  ms_count :: u32

datatype StepResult = StepResult_Unset | StepResult_EventHasMore | StepResult_EventComplete | StepResult_AtEnd
  | StepResult_Error

text \<open>The module header and the span of the data of a module that was visited.\<close>

type_synonym Visit = "nat \<times> (nat \<times> nat) option"

text \<open>One module: the calls, the reason to leave the loop over the modules, if any, and what was visited.
  \<open>withDiag\<close> says if module data is passed to the diagnostics.\<close>

definition module_step ::
  "StreamProcessor \<Rightarrow> bool \<Rightarrow> u32 list \<Rightarrow> nat \<Rightarrow> nat \<Rightarrow> nat \<Rightarrow> nat \<Rightarrow> ModuleSlot
   \<Rightarrow> (ModuleSlot \<times> Calls \<times> StepResult option \<times> Visit) option" where
  "module_step st withDiag mem eventIndex ptrToLastWord moduleIndex dataHeader s =
     Option.bind (moduleHeader (ms_info s)) (\<lambda>header.
       (let begins = to_diag st (BeginEvent eventIndex);
            diag_call = (\<lambda>c. if withDiag then to_diag st c else []);
            calls = (\<lambda>n. to_analysis st (ModuleData eventIndex moduleIndex header n)
              @ diag_call (ModuleData eventIndex moduleIndex header n)
              @ to_consumers st (ModuleData eventIndex moduleIndex header n));
            counted = s\<lparr>ms_counter := ms_counter s + 1, ms_count := ms_count s + 1\<rparr>
        in if \<not> doMultiEventProcessing st ! eventIndex
           then map_option (\<lambda>w.
                  let n = unat (getModuleDataSize (listfileConstants st) w)
                  in (counted, begins @ calls n @ diag_call (EndEvent eventIndex), None, (dataHeader, Some (header, n))))
                (at_opt mem dataHeader)
           else map_option (\<lambda>w.
                  if matches (moduleHeaderFilter (ms_info s)) w (- 1)
                  then (let n = unat (extract_value (filterCacheModuleSectionSize (ms_info s)) w) + 1
                        in if ptrToLastWord < header + n
                           then (s, begins, Some StepResult_Error, (dataHeader, None))
                           else (counted\<lparr>ms_info := (ms_info s)\<lparr>moduleHeader := Some (header + n)\<rparr>\<rparr>,
                                 begins @ calls n @ diag_call (EndEvent eventIndex), None,
                                 (dataHeader, Some (header, n))))
                  else (s, begins, Some StepResult_EventComplete, (dataHeader, None)))
                (at_opt mem header)))"

text \<open>The loop over the modules; without an unused entry it runs out of the array.\<close>

fun module_loop ::
  "StreamProcessor \<Rightarrow> bool \<Rightarrow> u32 list \<Rightarrow> nat \<Rightarrow> nat \<Rightarrow> nat \<Rightarrow> ModuleSlot list
   \<Rightarrow> (ModuleSlot list \<times> Calls \<times> StepResult option \<times> Visit list) option" where
  "module_loop st withDiag mem eventIndex ptrToLastWord moduleIndex [] = None"
| "module_loop st withDiag mem eventIndex ptrToLastWord moduleIndex (s # ss) =
     (case moduleDataHeader (ms_info s) of
        None \<Rightarrow> Some (s # ss, [], None, [])
      | Some dataHeader \<Rightarrow>
          (case module_step st withDiag mem eventIndex ptrToLastWord moduleIndex dataHeader s of
             None \<Rightarrow> None
           | Some (s', calls, Some b, visit) \<Rightarrow> Some (s' # ss, calls, Some b, [visit])
           | Some (s', calls, None, visit) \<Rightarrow>
               map_option (\<lambda>(ss', calls', b, visits). (s' # ss', calls @ calls', b, visit # visits))
                 (module_loop st withDiag mem eventIndex ptrToLastWord (moduleIndex + 1) ss)))"

definition first_header :: "ModuleSlot list \<Rightarrow> nat option" where
  "first_header slots = Option.bind (at_opt slots 0) (\<lambda>s. moduleHeader (ms_info s))"

text \<open>The early test of the loop over the events: the first module still has a matching header.\<close>

definition first_matches :: "u32 list \<Rightarrow> ModuleSlot list \<Rightarrow> bool option" where
  "first_matches mem slots =
     Option.bind (at_opt slots 0) (\<lambda>s. Option.bind (moduleHeader (ms_info s)) (\<lambda>h.
       map_option (\<lambda>w. matches (moduleHeaderFilter (ms_info s)) w (- 1)) (at_opt mem h)))"

lemma module_step_advances:
  assumes "module_step st withDiag mem ei endp m dh s = Some (s', calls, None, visit)"
    and "doMultiEventProcessing st ! ei"
  shows "\<exists>h h'. moduleHeader (ms_info s) = Some h \<and> moduleHeader (ms_info s') = Some h' \<and> h < h' \<and> h' \<le> endp"
  using assms by (auto simp: module_step_def bind_eq_Some_conv Let_def split: if_splits)

lemma module_loop_advances:
  assumes "module_loop st withDiag mem ei endp m slots = Some (slots', calls, None, visits)"
    and "doMultiEventProcessing st ! ei" "moduleDataHeader (ms_info (hd slots)) \<noteq> None"
  shows "\<exists>h h'. first_header slots = Some h \<and> first_header slots' = Some h' \<and> h < h' \<and> h' \<le> endp"
proof (cases slots)
  case Nil
  then show ?thesis using assms by simp
next
  case (Cons s ss)
  then show ?thesis
    using assms
    by (auto simp: first_header_def split: option.splits prod.splits dest!: module_step_advances)
qed

text \<open>Step 2: the events in order. The result counts the events that exceed the section. \<open>done\<close> of the
  code is set before the loop if there is no module; the loop does not change the data headers.\<close>

function event_loop ::
  "StreamProcessor \<Rightarrow> u32 list \<Rightarrow> nat \<Rightarrow> nat \<Rightarrow> ModuleSlot list \<Rightarrow> (ModuleSlot list \<times> Calls \<times> u32) option" where
  "event_loop st mem eventIndex ptrToLastWord slots =
     (if slots = [] then None
      else if moduleDataHeader (ms_info (hd slots)) = None then Some (slots, [], 0)
      else case (if doMultiEventProcessing st ! eventIndex then first_matches mem slots else Some True) of
             None \<Rightarrow> None
           | Some header \<Rightarrow>
               if \<not> header then Some (slots, [], 0) else
               (case module_loop st True mem eventIndex ptrToLastWord 0 slots of
                  None \<Rightarrow> None
                | Some (slots', calls, b, visits) \<Rightarrow>
                    (let out = to_analysis st (BeginEvent eventIndex) @ to_consumers st (BeginEvent eventIndex) @ calls
                           @ to_analysis st (EndEvent eventIndex) @ to_consumers st (EndEvent eventIndex)
                     in if b \<noteq> None \<or> \<not> doMultiEventProcessing st ! eventIndex
                        then Some (slots', out, of_bool (b = Some StepResult_Error))
                        else map_option (\<lambda>(slots'', calls', errors). (slots'', out @ calls', errors))
                               (event_loop st mem eventIndex ptrToLastWord slots'))))"
  by pat_completeness auto
termination
proof (relation "measure (\<lambda>(st, mem, ei, endp, slots). endp + 1 - (case first_header slots of None \<Rightarrow> 0 | Some h \<Rightarrow> h))",
    goal_cases)
  case (2 st mem ei endp slots b x y z a ca d e out)
  then show ?case using module_loop_advances [of st True mem ei endp 0 slots] by fastforce
qed simp

declare event_loop.simps [simp del]

text \<open>The integrity checks after multi-event processing: behind the events of a module there are markers of
  the controller and an end marker. The loop reads before it tests the position.\<close>

function skip_berr :: "u32 list \<Rightarrow> nat \<Rightarrow> nat \<Rightarrow> u32 option" where
  "skip_berr mem ptrToLastWord p =
     Option.bind (at_opt mem p) (\<lambda>w.
       if w = BerrMarker \<and> p \<le> ptrToLastWord then skip_berr mem ptrToLastWord (p + 1) else Some w)"
  by pat_completeness auto
termination by (relation "measure (\<lambda>(mem, e, p). e + 1 - p)") (auto simp: at_opt_eq_Some_iff)

declare skip_berr.simps [simp del]

fun end_marker_missing :: "u32 list \<Rightarrow> nat \<Rightarrow> ModuleSlot list \<Rightarrow> bool option" where
  "end_marker_missing mem ptrToLastWord [] = Some False"
| "end_marker_missing mem ptrToLastWord (s # ss) =
     (case moduleHeader (ms_info s) of
        None \<Rightarrow> Some False
      | Some p \<Rightarrow> Option.bind (skip_berr mem ptrToLastWord p) (\<lambda>w.
          if w \<noteq> EndMarker then Some True else end_marker_missing mem ptrToLastWord ss))"

definition unequal_counts :: "ModuleSlot list \<Rightarrow> bool" where
  "unequal_counts slots \<longleftrightarrow>
     list_ex (\<lambda>s. moduleDataHeader (ms_info s) \<noteq> None \<and> ms_count s \<noteq> ms_count (hd slots)) slots"

definition make_slots :: "ModuleInfo list \<Rightarrow> u32 list \<Rightarrow> ModuleSlot list" where
  "make_slots infos cs = map2 (\<lambda>mi c. \<lparr>ms_info = mi, ms_counter = c, ms_count = 0\<rparr>) infos cs"

text \<open>The arrays of one event, and writing them back.\<close>

definition event_slots :: "nat \<Rightarrow> StreamProcessor \<Rightarrow> ModuleSlot list" where
  "event_slots ei st = make_slots (eventInfos st ! ei) (moduleCounters (counters st) ! ei)"

definition put_slots :: "nat \<Rightarrow> ModuleSlot list \<Rightarrow> StreamProcessor \<Rightarrow> StreamProcessor" where
  "put_slots ei slots st = st\<lparr>eventInfos := (eventInfos st)[ei := map ms_info slots],
     counters := (counters st)\<lparr>moduleCounters := (moduleCounters (counters st))[ei := map ms_counter slots]\<rparr>\<rparr>"

text \<open>The start of an event section, also of single stepping: \<open>Inl\<close> if the event is not configured.\<close>

definition begin_section ::
  "u32 list \<Rightarrow> u32 \<Rightarrow> nat \<Rightarrow> nat \<Rightarrow> StreamProcessor \<Rightarrow> (StreamProcessor + StreamProcessor) option" where
  "begin_section mem sectionHeader data words st =
     (let st = count (\<lambda>c. c\<lparr>totalEvents := totalEvents c + 1\<rparr>) st;
          ei = unat (getEventIndex (listfileConstants st) sectionHeader)
      in if length (eventConfigs st) \<le> ei \<or> \<not> eventConfigs st ! ei
         then Some (Inl (count (\<lambda>c. c\<lparr>invalidEventIndices := invalidEventIndices c + 1\<rparr>) st))
         else map_option (\<lambda>ps. Inr (count (\<lambda>c. c\<lparr>eventCounters := (eventCounters c)[ei := eventCounters c ! ei + 1]\<rparr>)
                  (st\<lparr>eventInfos := (eventInfos st)[ei := set_pointers ps (eventInfos st ! ei)]\<rparr>)))
                (collect_modules (listfileConstants st) mem MaxVMEModules (buffer_iterator data words)))"

definition add_errors :: "u32 \<Rightarrow> StreamProcessor \<Rightarrow> StreamProcessor" where
  "add_errors n = count (\<lambda>c. c\<lparr>buffersWithErrors := buffersWithErrors c + n\<rparr>)"

definition processEventSection ::
  "u32 list \<Rightarrow> u32 \<Rightarrow> nat \<Rightarrow> nat \<Rightarrow> StreamProcessor \<Rightarrow> StreamProcessor option" where
  "processEventSection mem sectionHeader data words st =
     (let ei = unat (getEventIndex (listfileConstants st) sectionHeader) in
      Option.bind (begin_section mem sectionHeader data words st) (\<lambda>r. case r of
        Inl st \<Rightarrow> Some st
      | Inr st \<Rightarrow>
          Option.bind (event_loop st mem ei (data + words) (event_slots ei st)) (\<lambda>(slots, calls, errors).
            let st = emit calls (add_errors errors (put_slots ei slots st))
            in if doMultiEventProcessing st ! ei
               then map_option (\<lambda>missing. add_errors (of_bool (missing \<or> unequal_counts slots)) st)
                      (end_marker_missing mem (data + words) slots)
               else Some st)))"

section \<open>Buffers\<close>

text \<open>One section: \<open>Inl\<close> is the exception \<^verbatim>\<open>end_of_buffer\<close>.\<close>

definition process_section ::
  "u32 list \<Rightarrow> BufferIterator \<Rightarrow> StreamProcessor \<Rightarrow> (StreamProcessor + StreamProcessor \<times> BufferIterator) option" where
  "process_section mem iter st =
     Option.bind (extractU32 mem iter) (\<lambda>(sectionHeader, iter).
       (let lf = listfileConstants st;
            sectionType = getSectionType lf sectionHeader;
            sectionSize = unat (getSectionSize lf sectionHeader);
            counted = (\<lambda>st. Inr (count (\<lambda>c. c\<lparr>bytesProcessed := bytesProcessed c + of_nat (sectionSize * 4 + 4)\<rparr>) st,
              skip sectionSize iter))
        in if longwordsLeft iter < sectionSize then Some (Inl st)
           else if sectionType = section_code SectionType_Timetick
           then (if \<not> isReplay st \<or> \<not> analysis st then None
                 else Some (counted (emit (to_consumers st Timetick @ to_analysis st Timetick) st)))
           else if sectionType = section_code SectionType_Event
           then map_option counted (processEventSection mem sectionHeader (it_pos iter) sectionSize st)
           else Some (counted st)))"

lemma process_section_advances:
  "process_section mem iter st = Some (Inr (st', iter')) \<Longrightarrow> it_pos iter < it_pos iter' \<and> it_end iter' = it_end iter
    \<or> it_end iter \<le> it_pos iter"
  by (fastforce simp: process_section_def bind_eq_Some_conv extractU32_def skip_def Let_def longwordsLeft_def
      split: if_splits)

function process_sections ::
  "u32 list \<Rightarrow> BufferIterator \<Rightarrow> StreamProcessor \<Rightarrow> (StreamProcessor + StreamProcessor) option" where
  "process_sections mem iter st =
     (if longwordsLeft iter = 0 then Some (Inr st)
      else case process_section mem iter st of
             None \<Rightarrow> None
           | Some (Inl st) \<Rightarrow> Some (Inl st)
           | Some (Inr (st, iter)) \<Rightarrow> process_sections mem iter st)"
  by pat_completeness auto
termination
proof (relation "measure (\<lambda>(mem, iter, st). longwordsLeft iter)", goal_cases)
  case (2 mem iter st x y st' iter')
  then show ?case using process_section_advances [of mem iter st st' iter'] by (auto simp: longwordsLeft_def)
qed simp

declare process_sections.simps [simp del]

definition buffer_words :: "DataBuffer \<Rightarrow> u32 list" where
  "buffer_words buffer = bytes_words (db_data buffer)"

definition end_of_buffer :: "StreamProcessor \<Rightarrow> StreamProcessor" where
  "end_of_buffer st = emit (to_diag st BeginRun) (add_errors 1 st)"

definition processDataBuffer :: "DataBuffer \<Rightarrow> StreamProcessor \<Rightarrow> StreamProcessor option" where
  "processDataBuffer buffer st =
     (if bufferIter st \<noteq> None then None
      else map_option (\<lambda>r. case r of
               Inl st \<Rightarrow> end_of_buffer st
             | Inr st \<Rightarrow> count (\<lambda>c. c\<lparr>buffersProcessed := buffersProcessed c + 1\<rparr>) st)
             (process_sections (buffer_words buffer) (buffer_iterator 0 (db_used buffer div 4)) st))"

definition processExternalTimetick :: "StreamProcessor \<Rightarrow> StreamProcessor option" where
  "processExternalTimetick st =
     (if isReplay st \<or> \<not> analysis st then None
      else Some (emit (to_analysis st Timetick @ to_consumers st Timetick) st))"

end
