(* ===== verification/Stream_Calls.thy ===== *)
theory Stream_Calls
  imports Stream_Processor
begin

text \<open>
  What holds of the stream processor for every buffer: the shape of the calls, that all receivers see the same
  data, and that processing is defined for a buffer with two words behind its used part.
\<close>

section \<open>Calls by receiver\<close>

definition calls_of :: "Receiver \<Rightarrow> Calls \<Rightarrow> Call list" where
  "calls_of r cs = map snd (filter (\<lambda>rc. fst rc = r) cs)"

lemma calls_of_simps [simp]:
  "calls_of r [] = []" "calls_of r (rc # cs) = (if fst rc = r then snd rc # calls_of r cs else calls_of r cs)"
  "calls_of r (cs @ ds) = calls_of r cs @ calls_of r ds"
  by (simp_all add: calls_of_def)

text \<open>A receiver that is called by the processor, once per call: the analysis or a consumer that was attached
  once.\<close>

definition listens :: "StreamProcessor \<Rightarrow> Receiver \<Rightarrow> bool" where
  "listens st r \<longleftrightarrow> r = Analysis \<and> analysis st
     \<or> (\<exists>c. r = Consumer c \<and> filter (\<lambda>d. d = c) (moduleConsumers st) = [c])"

lemma calls_of_consumers:
  "calls_of (Consumer c) (to_consumers st d) = map (\<lambda>_. d) (filter (\<lambda>e. e = c) (moduleConsumers st))"
  unfolding calls_of_def to_consumers_def by (simp add: filter_map comp_def)

lemma calls_of_others [simp]:
  "calls_of Analysis (to_consumers st d) = []" "calls_of Diagnostics (to_consumers st d) = []"
  "calls_of Diagnostics (to_analysis st d) = []" "calls_of (Consumer c) (to_analysis st d) = []"
  "calls_of (Consumer c) (to_diag st d) = []" "calls_of Analysis (to_diag st d) = []"
  by (auto simp: calls_of_def to_consumers_def to_analysis_def to_diag_def filter_map comp_def)

lemma calls_of_listener:
  assumes "listens st r"
  shows "calls_of r (to_diag st d) = []"
    and "calls_of r (to_analysis st d @ cs @ to_consumers st d) = d # calls_of r cs \<or>
         calls_of r (to_analysis st d @ cs @ to_consumers st d) = calls_of r cs @ [d]"
    and "calls_of r (to_analysis st d @ to_consumers st d) = [d]"
    and "calls_of r (to_consumers st d @ to_analysis st d) = [d]"
  using assms by (auto simp: listens_def to_analysis_def calls_of_consumers)

lemma calls_of_split:
  assumes "listens st r"
  shows "calls_of r (to_analysis st d @ to_consumers st d @ cs) = d # calls_of r cs"
    and "calls_of r (to_analysis st d) @ calls_of r (to_consumers st d) @ xs = d # xs"
    and "calls_of r (to_analysis st d) @ calls_of r (to_consumers st d) = [d]"
    and "calls_of r (to_consumers st d) @ calls_of r (to_analysis st d) = [d]"
  using assms by (auto simp: listens_def to_analysis_def calls_of_consumers)

section \<open>The calls of an event section\<close>

primrec is_module_data :: "nat \<Rightarrow> Call \<Rightarrow> bool" where
  "is_module_data ei BeginRun = False"
| "is_module_data ei EndRun = False"
| "is_module_data ei Startup = False"
| "is_module_data ei Shutdown = False"
| "is_module_data ei (BeginEvent e) = False"
| "is_module_data ei (ModuleData e m p n) = (e = ei)"
| "is_module_data ei (EndEvent e) = False"
| "is_module_data ei Timetick = False"

text \<open>What a listener gets from the visits of the loop over the modules.\<close>

fun visit_calls :: "nat \<Rightarrow> nat \<Rightarrow> Visit list \<Rightarrow> Call list" where
  "visit_calls ei m [] = []"
| "visit_calls ei m ((dh, None) # vs) = visit_calls ei (m + 1) vs"
| "visit_calls ei m ((dh, Some (p, n)) # vs) = ModuleData ei m p n # visit_calls ei (m + 1) vs"

lemma module_step_calls:
  assumes "module_step st withDiag mem ei endp m dh s = Some (s', calls, b, visit)" "listens st r"
  shows "calls_of r calls = visit_calls ei m [visit]"
  using assms calls_of_split(3) [OF assms(2)] calls_of_listener(1) [OF assms(2)]
  by (auto simp: module_step_def bind_eq_Some_conv Let_def split: if_splits)

lemma module_loop_calls:
  assumes "module_loop st withDiag mem ei endp m slots = Some (slots', calls, b, visits)" "listens st r"
  shows "calls_of r calls = visit_calls ei m visits"
  using assms
proof (induction slots arbitrary: m slots' calls b visits)
  case (Cons s ss)
  show ?case
  proof (cases "moduleDataHeader (ms_info s)")
    case None
    then show ?thesis using Cons by auto
  next
    case dh: (Some dh)
    then obtain s' c b' v where step: "module_step st withDiag mem ei endp m dh s = Some (s', c, b', v)"
      using Cons.prems(1) by (auto split: option.splits)
    note hd = module_step_calls [OF step Cons.prems(2)]
    show ?thesis
    proof (cases b')
      case None
      then obtain ss' c' vs where "module_loop st withDiag mem ei endp (m + 1) ss = Some (ss', c', b, vs)"
        "calls = c @ c'" "visits = v # vs"
        using Cons.prems(1) dh step by auto
      then show ?thesis using Cons.IH Cons.prems(2) hd by (cases v; cases "snd v") auto
    next
      case (Some x)
      then show ?thesis using Cons.prems dh step hd by auto
    qed
  qed
qed simp

lemma visit_calls_module: "list_all (is_module_data ei) (visit_calls ei m visits)"
  by (induction ei m visits rule: visit_calls.induct) auto

text \<open>A sequence of calls is bracketed: module data of an event only between its begin and its end.\<close>

fun bracketed :: "nat option \<Rightarrow> Call list \<Rightarrow> bool" where
  "bracketed open [] = (open = None)"
| "bracketed None (BeginEvent e # cs) = bracketed (Some e) cs"
| "bracketed None (Timetick # cs) = bracketed None cs"
| "bracketed (Some e) (ModuleData e' m p n # cs) = (e' = e \<and> bracketed (Some e) cs)"
| "bracketed (Some e) (EndEvent e' # cs) = (e' = e \<and> bracketed None cs)"
| "bracketed _ _ = False"

lemma bracketed_append: "bracketed open cs \<Longrightarrow> bracketed None ds \<Longrightarrow> bracketed open (cs @ ds)"
  by (induction "open" cs rule: bracketed.induct) auto

lemma bracketed_modules: "list_all (is_module_data e) cs \<Longrightarrow> bracketed (Some e) (cs @ EndEvent e # ds) = bracketed None ds"
proof (induction cs)
  case (Cons c cs)
  then show ?case by (cases c) auto
qed simp

section \<open>Induction over the events of a section\<close>

definition event_out :: "StreamProcessor \<Rightarrow> nat \<Rightarrow> Calls \<Rightarrow> Calls" where
  "event_out st ei calls = to_analysis st (BeginEvent ei) @ to_consumers st (BeginEvent ei) @ calls
     @ to_analysis st (EndEvent ei) @ to_consumers st (EndEvent ei)"

lemma event_loop_induct [consumes 1, case_names Stop Once Again]:
  assumes "event_loop st mem ei endp slots = Some (slots', calls, errors)"
    and "\<And>slots. slots \<noteq> [] \<Longrightarrow> moduleDataHeader (ms_info (hd slots)) = None \<or>
        doMultiEventProcessing st ! ei \<and> first_matches mem slots = Some False \<Longrightarrow> P slots slots [] 0"
    and "\<And>slots slots' calls b visits. module_loop st True mem ei endp 0 slots = Some (slots', calls, b, visits) \<Longrightarrow>
        moduleDataHeader (ms_info (hd slots)) \<noteq> None \<Longrightarrow>
        (doMultiEventProcessing st ! ei \<longrightarrow> first_matches mem slots = Some True \<and> b \<noteq> None) \<Longrightarrow>
        P slots slots' (event_out st ei calls) (of_bool (b = Some StepResult_Error))"
    and "\<And>slots slots1 calls1 visits slots2 calls2 errors.
        module_loop st True mem ei endp 0 slots = Some (slots1, calls1, None, visits) \<Longrightarrow>
        moduleDataHeader (ms_info (hd slots)) \<noteq> None \<Longrightarrow> doMultiEventProcessing st ! ei \<Longrightarrow>
        first_matches mem slots = Some True \<Longrightarrow> event_loop st mem ei endp slots1 = Some (slots2, calls2, errors) \<Longrightarrow>
        P slots1 slots2 calls2 errors \<Longrightarrow> P slots slots2 (event_out st ei calls1 @ calls2) errors"
  shows "P slots slots' calls errors"
  using assms(1)
proof (induction st\<equiv>st mem\<equiv>mem ei\<equiv>ei endp\<equiv>endp slots arbitrary: slots' calls errors rule: event_loop.induct)
  case (1 slots)
  let ?multi = "doMultiEventProcessing st ! ei"
  note unfold = event_loop.simps [of st mem ei endp slots]
  have ne: "slots \<noteq> []" using 1(2) by (auto simp: unfold)
  show ?case
  proof (cases "moduleDataHeader (ms_info (hd slots)) = None \<or> ?multi \<and> first_matches mem slots = Some False")
    case True
    then have "slots' = slots" "calls = []" "errors = 0" using 1(2) ne by (auto simp: unfold split: if_splits)
    then show ?thesis using assms(2) [OF ne True] by simp
  next
    case False
    then have hd: "moduleDataHeader (ms_info (hd slots)) \<noteq> None" by simp
    define chk where "chk = (if ?multi then first_matches mem slots else Some True)"
    have check: "chk = Some True"
      using 1(2) ne False by (cases chk) (auto simp: unfold chk_def split: if_splits)
    have eq: "event_loop st mem ei endp slots =
        (case module_loop st True mem ei endp 0 slots of
           None \<Rightarrow> None
         | Some (slots', calls, b, visits) \<Rightarrow>
             if b \<noteq> None \<or> \<not> ?multi then Some (slots', event_out st ei calls, of_bool (b = Some StepResult_Error))
             else map_option (\<lambda>(slots'', calls', errors). (slots'', event_out st ei calls @ calls', errors))
                    (event_loop st mem ei endp slots'))"
      unfolding unfold chk_def [symmetric] check event_out_def Let_def using ne hd by auto
    obtain slots1 calls1 b visits where loop: "module_loop st True mem ei endp 0 slots = Some (slots1, calls1, b, visits)"
      using 1(2) by (auto simp: eq split: option.splits)
    have fm: "?multi \<Longrightarrow> first_matches mem slots = Some True" using check by (simp add: chk_def)
    show ?thesis
    proof (cases "b \<noteq> None \<or> \<not> ?multi")
      case True
      then have r: "slots' = slots1" "calls = event_out st ei calls1" "errors = of_bool (b = Some StepResult_Error)"
        using 1(2) loop by (simp_all add: eq)
      show ?thesis unfolding r by (rule assms(3) [OF loop hd]) (use True fm in auto)
    next
      case more: False
      then obtain calls2 where rest: "event_loop st mem ei endp slots1 = Some (slots', calls2, errors)"
        "calls = event_out st ei calls1 @ calls2"
        using 1(2) loop by (auto simp: eq)
      then have "P slots1 slots' calls2 errors"
        using 1(1) [OF ne hd check [unfolded chk_def] _ loop refl refl refl refl] more by simp
      then show ?thesis using assms(4) [of slots slots1 calls1 visits slots' calls2 errors] loop hd more fm rest by simp
    qed
  qed
qed

lemma event_loop_calls:
  assumes "event_loop st mem ei endp slots = Some (slots', calls, errors)"
  shows "\<exists>cs. bracketed None cs \<and> (\<forall>r. listens st r \<longrightarrow> calls_of r calls = cs)"
  using assms
proof (induction rule: event_loop_induct)
  case (Stop slots)
  show ?case by (rule exI [of _ "[]"]) simp
next
  case (Once slots slots' calls b visits)
  show ?case
    using bracketed_modules [OF visit_calls_module, of ei 0 visits "[]"] module_loop_calls [OF Once(1)]
    by (intro exI [of _ "BeginEvent ei # visit_calls ei 0 visits @ [EndEvent ei]"])
      (simp add: event_out_def calls_of_split)
next
  case (Again slots slots1 calls1 visits slots2 calls2 errors)
  then obtain cs where "bracketed None cs" "\<forall>r. listens st r \<longrightarrow> calls_of r calls2 = cs" by blast
  then show ?case
    using bracketed_modules [OF visit_calls_module, of ei 0 visits cs] module_loop_calls [OF Again(1)]
    by (intro exI [of _ "BeginEvent ei # visit_calls ei 0 visits @ EndEvent ei # cs"])
      (simp add: event_out_def calls_of_split)
qed

section \<open>The calls of a buffer\<close>

text \<open>What processing never changes.\<close>

definition same_config :: "StreamProcessor \<Rightarrow> StreamProcessor \<Rightarrow> bool" where
  "same_config st st' \<longleftrightarrow> analysis st' = analysis st \<and> diag st' = diag st \<and> isReplay st' = isReplay st
     \<and> moduleConsumers st' = moduleConsumers st \<and> listfileConstants st' = listfileConstants st
     \<and> eventConfigs st' = eventConfigs st \<and> doMultiEventProcessing st' = doMultiEventProcessing st
     \<and> bufferIter st' = bufferIter st \<and> eventIter st' = eventIter st"

lemma same_config_refl [simp]: "same_config st st"
  by (simp add: same_config_def)

lemma same_config_trans: "same_config st st' \<Longrightarrow> same_config st' st'' \<Longrightarrow> same_config st st''"
  by (simp add: same_config_def)

lemma same_config_simps [simp]:
  "same_config st (count f st') = same_config st st'" "same_config st (emit cs st') = same_config st st'"
  "same_config st (put_slots ei slots st') = same_config st st'" "same_config st (add_errors n st') = same_config st st'"
  "same_config st (st'\<lparr>eventInfos := infos\<rparr>) = same_config st st'"
  "same_config st (end_of_buffer st') = same_config st st'"
  by (simp_all add: same_config_def count_def emit_def put_slots_def add_errors_def end_of_buffer_def)

lemma sp_calls_simps [simp]:
  "sp_calls (count f st) = sp_calls st" "sp_calls (emit cs st) = sp_calls st @ cs"
  "sp_calls (put_slots ei slots st) = sp_calls st" "sp_calls (add_errors n st) = sp_calls st"
  by (simp_all add: count_def emit_def put_slots_def add_errors_def)

lemma config_simps [simp]:
  "analysis (count f st) = analysis st" "diag (count f st) = diag st"
  "moduleConsumers (count f st) = moduleConsumers st" "listfileConstants (count f st) = listfileConstants st"
  "doMultiEventProcessing (count f st) = doMultiEventProcessing st" "eventConfigs (count f st) = eventConfigs st"
  "eventInfos (count f st) = eventInfos st" "isReplay (count f st) = isReplay st"
  "doMultiEventProcessing (add_errors n st) = doMultiEventProcessing st"
  "doMultiEventProcessing (put_slots ei slots st) = doMultiEventProcessing st"
  "doMultiEventProcessing (emit cs st) = doMultiEventProcessing st"
  by (simp_all add: count_def add_errors_def put_slots_def emit_def)

lemma listens_same: "same_config st st' \<Longrightarrow> listens st' r = listens st r"
  by (simp add: same_config_def listens_def)

lemma to_receivers_same:
  "same_config st st' \<Longrightarrow> to_analysis st' c = to_analysis st c"
  "same_config st st' \<Longrightarrow> to_consumers st' c = to_consumers st c"
  "same_config st st' \<Longrightarrow> to_diag st' c = to_diag st c"
  by (simp_all add: same_config_def to_analysis_def to_consumers_def to_diag_def)

text \<open>Processing adds calls that every listener gets alike.\<close>

definition adds_calls :: "StreamProcessor \<Rightarrow> StreamProcessor \<Rightarrow> bool" where
  "adds_calls st st' \<longleftrightarrow> same_config st st' \<and> (\<exists>cs. bracketed None cs \<and>
     (\<forall>r. listens st r \<longrightarrow> calls_of r (sp_calls st') = calls_of r (sp_calls st) @ cs))"

lemma adds_calls_none: "same_config st st' \<Longrightarrow> sp_calls st' = sp_calls st \<Longrightarrow> adds_calls st st'"
  unfolding adds_calls_def by (intro conjI exI [of _ "[]"]) auto

lemma adds_calls_trans:
  assumes "adds_calls st st'" "adds_calls st' st''"
  shows "adds_calls st st''"
proof -
  from assms obtain cs ds where "bracketed None cs" "bracketed None ds"
    "\<forall>r. listens st r \<longrightarrow> calls_of r (sp_calls st') = calls_of r (sp_calls st) @ cs"
    "\<forall>r. listens st' r \<longrightarrow> calls_of r (sp_calls st'') = calls_of r (sp_calls st') @ ds"
    by (auto simp: adds_calls_def)
  moreover have "same_config st st'" "same_config st' st''" using assms by (simp_all add: adds_calls_def)
  ultimately show ?thesis unfolding adds_calls_def
    by (intro conjI exI [of _ "cs @ ds"]) (auto simp: listens_same intro: same_config_trans bracketed_append)
qed

lemma begin_section_config:
  assumes "begin_section mem sectionHeader data words st = Some r"
  shows "(case r of Inl st' \<Rightarrow> same_config st st' \<and> sp_calls st' = sp_calls st
     | Inr st' \<Rightarrow> same_config st st' \<and> sp_calls st' = sp_calls st)"
  using assms by (auto simp: begin_section_def Let_def split: if_splits)

lemma processEventSection_calls:
  assumes "processEventSection mem sectionHeader data words st = Some st'"
  shows "adds_calls st st'"
proof -
  from assms obtain r where r: "begin_section mem sectionHeader data words st = Some r"
    by (auto simp: processEventSection_def bind_eq_Some_conv Let_def)
  show ?thesis
  proof (cases r)
    case (Inl st1)
    then show ?thesis using assms r begin_section_config [OF r]
      by (auto simp: processEventSection_def Let_def intro: adds_calls_none)
  next
    case (Inr st1)
    let ?ei = "unat (getEventIndex (listfileConstants st) sectionHeader)"
    from assms r Inr obtain slots calls errors n where
      loop: "event_loop st1 mem ?ei (data + words) (event_slots ?ei st1) = Some (slots, calls, errors)"
      and st': "st' = emit calls (add_errors errors (put_slots ?ei slots st1))
        \<or> st' = add_errors n (emit calls (add_errors errors (put_slots ?ei slots st1)))"
      by (auto simp: processEventSection_def bind_eq_Some_conv Let_def split: if_splits)
    obtain cs where "bracketed None cs" "\<forall>r. listens st1 r \<longrightarrow> calls_of r calls = cs"
      using event_loop_calls [OF loop] by blast
    moreover have "same_config st st1" "sp_calls st1 = sp_calls st" using begin_section_config [OF r] Inr by simp_all
    ultimately show ?thesis using st' unfolding adds_calls_def
      by (intro conjI exI [of _ cs]) (auto simp: listens_same)
  qed
qed

lemma process_section_calls:
  assumes "process_section mem iter st = Some r"
  shows "adds_calls st (case r of Inl st' \<Rightarrow> st' | Inr (st', iter') \<Rightarrow> st')"
proof -
  have tick: "adds_calls st (count f (emit (to_consumers st Timetick @ to_analysis st Timetick) st))" for f
    unfolding adds_calls_def by (intro conjI exI [of _ "[Timetick]"]) (simp_all add: calls_of_split(4))
  have cnt: "adds_calls st st' \<Longrightarrow> adds_calls st (count f st')" for f st' by (simp add: adds_calls_def)
  show ?thesis using assms
    by (auto simp: process_section_def bind_eq_Some_conv Let_def split: if_splits
      intro: tick cnt adds_calls_none dest!: processEventSection_calls)
qed

lemma process_sections_calls:
  "process_sections mem iter st = Some r \<Longrightarrow> adds_calls st (case r of Inl st' \<Rightarrow> st' | Inr st' \<Rightarrow> st')"
proof (induction mem iter st arbitrary: r rule: process_sections.induct)
  case (1 mem iter st)
  show ?case
  proof (cases "longwordsLeft iter = 0")
    case True
    then show ?thesis using 1(2) by (auto simp: process_sections.simps [of mem iter] intro: adds_calls_none)
  next
    case False
    then obtain s where s: "process_section mem iter st = Some s"
      using 1(2) by (auto simp: process_sections.simps [of mem iter] split: option.splits)
    note one = process_section_calls [OF s]
    show ?thesis
    proof (cases s)
      case (Inl st')
      then show ?thesis using 1(2) False s one by (auto simp: process_sections.simps [of mem iter])
    next
      case (Inr p)
      obtain st' iter' where p: "p = (st', iter')" by (cases p)
      then have "process_sections mem iter' st' = Some r"
        using 1(2) False s Inr by (simp add: process_sections.simps [of mem iter])
      then show ?thesis using 1(1) [OF False s Inr p [symmetric]] one Inr p by (auto intro: adds_calls_trans)
    qed
  qed
qed

lemma processDataBuffer_calls:
  assumes "processDataBuffer buffer st = Some st'"
  shows "adds_calls st st'"
proof -
  from assms obtain r where r: "process_sections (buffer_words buffer) (buffer_iterator 0 (db_used buffer div 4)) st = Some r"
    "st' = (case r of Inl st \<Rightarrow> end_of_buffer st
             | Inr st \<Rightarrow> count (\<lambda>c. c\<lparr>buffersProcessed := buffersProcessed c + 1\<rparr>) st)"
    by (auto simp: processDataBuffer_def split: if_splits)
  have eob: "adds_calls st1 (end_of_buffer st1)" for st1
    unfolding adds_calls_def end_of_buffer_def
    by (intro conjI exI [of _ "[]"]) (simp_all add: calls_of_listener(1))
  have cnt: "adds_calls st1 (count f st1)" for st1 f by (rule adds_calls_none) simp_all
  show ?thesis using process_sections_calls [OF r(1)] r(2)
    by (auto split: sum.splits intro: adds_calls_trans eob cnt)
qed

text \<open>C7: the analysis and every consumer that is attached once receive the same sequence of calls for a
  buffer, whatever it holds, and the sequence is bracketed: module data comes between the begin and the end of
  its event, time ticks come between events.\<close>

theorem receivers_agree:
  assumes "processDataBuffer buffer st = Some st'"
  shows "\<exists>cs. bracketed None cs \<and> (\<forall>r. listens st r \<longrightarrow> calls_of r (sp_calls st') = calls_of r (sp_calls st) @ cs)"
  using processDataBuffer_calls [OF assms] by (simp add: adds_calls_def)

end
