(* ===== verification/Stream_Sections.thy ===== *)
theory Stream_Sections
  imports Stream_Calls
begin

text \<open>
  Processing a buffer is defined if two words of memory follow its used part and no event section has as many
  module headers as the array of module infos has entries. It handles the sections the format defines and counts
  them.
\<close>

section \<open>The sections of a buffer\<close>

text \<open>The headers and contents of the sections, and whether the last one is complete.\<close>

function stream_sections :: "ListfileConstants \<Rightarrow> u32 list \<Rightarrow> (u32 \<times> u32 list) list \<times> bool" where
  "stream_sections lf [] = ([], True)"
| "stream_sections lf (h # ws) =
     (let n = unat (getSectionSize lf h)
      in if length ws < n then ([], False)
         else let (ss, complete) = stream_sections lf (drop n ws) in ((h, take n ws) # ss, complete))"
  by pat_completeness auto
termination by (relation "measure (\<lambda>(lf, ws). length ws)") auto

declare stream_sections.simps [simp del]

function module_count :: "ListfileConstants \<Rightarrow> u32 list \<Rightarrow> nat" where
  "module_count lf [] = 0"
| "module_count lf (w # ws) =
     (if w = EndMarker then 0 else 1 + module_count lf (drop (unat (getModuleDataSize lf w)) ws))"
  by pat_completeness auto
termination by (relation "measure (\<lambda>(lf, ws). length ws)") auto

declare module_count.simps [simp del]

definition is_section :: "ListfileConstants \<Rightarrow> SectionType \<Rightarrow> u32 \<Rightarrow> bool" where
  "is_section lf ty h \<longleftrightarrow> getSectionType lf h = section_code ty"

lemma section_types_differ: "\<not> (is_section lf SectionType_Timetick h \<and> is_section lf SectionType_Event h)"
  by (simp add: is_section_def)

section \<open>Modules\<close>

definition slot_ok :: "u32 list \<Rightarrow> nat \<Rightarrow> ModuleSlot \<Rightarrow> bool" where
  "slot_ok mem endp s \<longleftrightarrow>
     (case moduleDataHeader (ms_info s) of
        None \<Rightarrow> moduleHeader (ms_info s) = None
      | Some dh \<Rightarrow> dh < length mem \<and> (case moduleHeader (ms_info s) of None \<Rightarrow> False | Some h \<Rightarrow> h \<le> endp))"

definition unused :: "ModuleSlot \<Rightarrow> bool" where
  "unused s \<longleftrightarrow> moduleDataHeader (ms_info s) = None"

definition slots_ok :: "u32 list \<Rightarrow> nat \<Rightarrow> ModuleSlot list \<Rightarrow> bool" where
  "slots_ok mem endp slots \<longleftrightarrow> list_all (slot_ok mem endp) slots \<and> list_ex unused slots"

lemma module_step_total:
  assumes "slot_ok mem endp s" "moduleDataHeader (ms_info s) = Some dh" "endp < length mem"
  shows "\<exists>s' calls b visit. module_step st withDiag mem ei endp m dh s = Some (s', calls, b, visit)
    \<and> slot_ok mem endp s' \<and> moduleDataHeader (ms_info s') = Some dh"
proof -
  from assms obtain h where h: "moduleHeader (ms_info s) = Some h" "h \<le> endp" "dh < length mem"
    by (auto simp: slot_ok_def split: option.splits)
  then show ?thesis using assms
    by (auto simp: module_step_def Let_def slot_ok_def)
qed

lemma module_loop_total:
  assumes "slots_ok mem endp slots" "endp < length mem"
  shows "\<exists>slots' calls b visits. module_loop st withDiag mem ei endp m slots = Some (slots', calls, b, visits)
    \<and> slots_ok mem endp slots' \<and> length slots' = length slots
    \<and> map (\<lambda>s. moduleDataHeader (ms_info s)) slots' = map (\<lambda>s. moduleDataHeader (ms_info s)) slots"
  using assms
proof (induction slots arbitrary: m)
  case Nil
  then show ?case by (simp add: slots_ok_def)
next
  case (Cons s ss)
  show ?case
  proof (cases "moduleDataHeader (ms_info s)")
    case None
    then show ?thesis using Cons.prems by simp
  next
    case (Some dh)
    then obtain s' calls b visit where step: "module_step st withDiag mem ei endp m dh s = Some (s', calls, b, visit)"
      "slot_ok mem endp s'" "moduleDataHeader (ms_info s') = Some dh"
      using module_step_total [of mem endp s dh st withDiag ei m] Cons.prems by (auto simp: slots_ok_def)
    have ss: "slots_ok mem endp ss" using Cons.prems(1) Some by (auto simp: slots_ok_def unused_def)
    show ?thesis
    proof (cases b)
      case None
      then show ?thesis using Cons.IH [OF ss Cons.prems(2), of "m + 1"] step Some
        by (auto simp: slots_ok_def unused_def)
    next
      case (Some x)
      then show ?thesis using step \<open>moduleDataHeader (ms_info s) = Some dh\<close> ss by (auto simp: slots_ok_def unused_def)
    qed
  qed
qed

lemma first_matches_total:
  assumes "slots_ok mem endp slots" "endp < length mem" "moduleDataHeader (ms_info (hd slots)) \<noteq> None"
  shows "\<exists>x. first_matches mem slots = Some x"
  using assms by (cases slots) (auto simp: slots_ok_def slot_ok_def first_matches_def split: option.splits)

lemma event_loop_total:
  assumes "slots_ok mem endp slots" "endp < length mem"
  shows "\<exists>slots' calls errors. event_loop st mem ei endp slots = Some (slots', calls, errors)
    \<and> slots_ok mem endp slots' \<and> length slots' = length slots"
  using assms
proof (induction st mem ei endp slots rule: event_loop.induct)
  case (1 st mem ei endp slots)
  note unfold = event_loop.simps [of st mem ei endp slots]
  have ne: "slots \<noteq> []" using 1(2) by (auto simp: slots_ok_def)
  show ?case
  proof (cases "moduleDataHeader (ms_info (hd slots)) = None")
    case True
    then show ?thesis using ne 1(2) by (simp add: unfold)
  next
    case hd: False
    define chk where "chk = (if doMultiEventProcessing st ! ei then first_matches mem slots else Some True)"
    then obtain go where go: "chk = Some go"
      using first_matches_total [OF 1(2,3) hd] by (cases "doMultiEventProcessing st ! ei") auto
    show ?thesis
    proof (cases go)
      case False
      then show ?thesis using ne hd go 1(2) unfolding unfold chk_def [symmetric] by simp
    next
      case True
      obtain slots1 calls1 b visits where loop: "module_loop st True mem ei endp 0 slots = Some (slots1, calls1, b, visits)"
        and ok: "slots_ok mem endp slots1" "length slots1 = length slots"
        using module_loop_total [OF 1(2,3)] by blast
      show ?thesis
      proof (cases "b \<noteq> None \<or> \<not> doMultiEventProcessing st ! ei")
        case True
        then show ?thesis using ne hd go \<open>go\<close> loop ok unfolding unfold chk_def [symmetric] by (auto simp: Let_def)
      next
        case more: False
        then have "\<exists>slots' calls errors. event_loop st mem ei endp slots1 = Some (slots', calls, errors)
            \<and> slots_ok mem endp slots' \<and> length slots' = length slots1"
          using 1(1) [OF ne hd go [unfolded chk_def] _ loop refl refl refl refl _ ok(1) 1(3)] \<open>go\<close> by simp
        then show ?thesis using ne hd go \<open>go\<close> loop ok more unfolding unfold chk_def [symmetric] by (auto simp: Let_def)
      qed
    qed
  qed
qed

lemma skip_berr_total: "p \<le> endp + 1 \<Longrightarrow> endp + 1 < length mem \<Longrightarrow> \<exists>w. skip_berr mem endp p = Some w"
proof (induction mem endp p rule: skip_berr.induct)
  case (1 mem endp p)
  then show ?case by (cases "mem ! p = BerrMarker \<and> p \<le> endp") (auto simp: skip_berr.simps [of mem endp p])
qed

lemma end_marker_total:
  "list_all (slot_ok mem endp) slots \<Longrightarrow> endp + 1 < length mem \<Longrightarrow> \<exists>x. end_marker_missing mem endp slots = Some x"
proof (induction slots)
  case (Cons s ss)
  show ?case
  proof (cases "moduleHeader (ms_info s)")
    case (Some p)
    then have "p \<le> endp + 1" using Cons.prems(1) by (auto simp: slot_ok_def split: option.splits)
    then obtain w where "skip_berr mem endp p = Some w" using skip_berr_total Cons.prems(2) by blast
    then show ?thesis using Cons Some by (cases "w = EndMarker") auto
  qed auto
qed auto

section \<open>Event sections\<close>

lemma collect_modules_total:
  assumes "it_pos it \<le> it_end it" "it_end it \<le> length mem"
  shows "\<exists>ps. collect_modules lf mem n it = Some ps \<and> list_all (\<lambda>p. p < it_end it) ps
    \<and> length ps = min n (module_count lf (take (it_end it - it_pos it) (drop (it_pos it) mem)))"
  using assms
proof (induction n arbitrary: it)
  case (Suc n)
  show ?case
  proof (cases "atEnd it")
    case True
    then show ?thesis by (simp add: atEnd_def module_count.simps)
  next
    case False
    then have lt: "it_pos it < it_end it" using Suc.prems(1) by (simp add: atEnd_def)
    then have here: "drop (it_pos it) mem = mem ! it_pos it # drop (it_pos it + 1) mem"
      using Suc.prems(2) by (simp add: Cons_nth_drop_Suc)
    obtain k where k: "it_end it = it_pos it + Suc k" using lt by (metis less_iff_Suc_add add_Suc_right)
    let ?w = "mem ! it_pos it"
    let ?it = "skip (unat (getModuleDataSize lf ?w)) (it\<lparr>it_pos := it_pos it + 1\<rparr>)"
    have ex: "extractU32 mem it = Some (?w, it\<lparr>it_pos := it_pos it + 1\<rparr>)"
      using lt Suc.prems(2) by (simp add: extractU32_def peekU32_def)
    show ?thesis
    proof (cases "?w = EndMarker")
      case True
      then show ?thesis using False ex here k by (simp add: module_count.simps)
    next
      case other: False
      have "it_pos ?it \<le> it_end ?it" "it_end ?it \<le> length mem" using lt Suc.prems(2) by (simp_all add: skip_def)
      from Suc.IH [OF this] obtain ps where ps: "collect_modules lf mem n ?it = Some ps"
        "list_all (\<lambda>p. p < it_end ?it) ps"
        "length ps = min n (module_count lf (take (it_end ?it - it_pos ?it) (drop (it_pos ?it) mem)))"
        by blast
      have rest: "take (it_end ?it - it_pos ?it) (drop (it_pos ?it) mem) =
          drop (unat (getModuleDataSize lf ?w)) (take k (drop (it_pos it + 1) mem))"
        using k by (cases "it_pos it + 1 + unat (getModuleDataSize lf ?w) \<le> it_end it")
          (auto simp: skip_def drop_take add.commute add.left_commute min_def)
      show ?thesis using ps other ex False here k lt rest
        by (auto simp: module_count.simps skip_def)
    qed
  qed
qed simp

definition wf_processor :: "StreamProcessor \<Rightarrow> bool" where
  "wf_processor st \<longleftrightarrow> length (eventInfos st) = MaxVMEEvents
     \<and> list_all (\<lambda>infos. length infos = MaxVMEModules) (eventInfos st)
     \<and> length (moduleCounters (counters st)) = MaxVMEEvents
     \<and> list_all (\<lambda>cs. length cs = MaxVMEModules) (moduleCounters (counters st))
     \<and> length (eventConfigs st) = MaxVMEEvents \<and> length (doMultiEventProcessing st) = MaxVMEEvents
     \<and> length (eventCounters (counters st)) = MaxVMEEvents"

text \<open>The state of a section: what its counters are afterwards.\<close>

lemma length_make_slots [simp]: "length infos = length cs \<Longrightarrow> length (make_slots infos cs) = length cs"
  by (simp add: make_slots_def)

lemma wf_processor_simps [simp]:
  "wf_processor (emit cs st) = wf_processor st" "wf_processor (add_errors n st) = wf_processor st"
  "wf_processor (count (\<lambda>c. c\<lparr>totalEvents := f c\<rparr>) st) = wf_processor st"
  "wf_processor (count (\<lambda>c. c\<lparr>invalidEventIndices := f c\<rparr>) st) = wf_processor st"
  "wf_processor (count (\<lambda>c. c\<lparr>bytesProcessed := g c\<rparr>) st) = wf_processor st"
  "wf_processor (count (\<lambda>c. c\<lparr>buffersProcessed := f c\<rparr>) st) = wf_processor st"
  "wf_processor (end_of_buffer st) = wf_processor st"
  by (simp_all add: wf_processor_def emit_def add_errors_def count_def end_of_buffer_def)

lemma list_all_update: "list_all P xs \<Longrightarrow> P x \<Longrightarrow> list_all P (xs[i := x])"
  using set_update_subset_insert [of xs i x] by (auto simp: list_all_iff)

lemma wf_put_slots: "wf_processor st \<Longrightarrow> length slots = MaxVMEModules \<Longrightarrow> wf_processor (put_slots ei slots st)"
  by (simp add: wf_processor_def put_slots_def list_all_update)

lemma slots_of_pointers:
  assumes "list_all (\<lambda>p. p < endp) ps" "endp \<le> length mem" "length ps < length infos" "length cs = length infos"
  shows "slots_ok mem endp (make_slots (set_pointers ps infos) cs)"
  unfolding slots_ok_def
proof
  let ?slots = "make_slots (set_pointers ps infos) cs"
  have nth: "moduleDataHeader (ms_info (?slots ! i)) = at_opt ps i"
    "moduleHeader (ms_info (?slots ! i)) = map_option (\<lambda>p. p + 1) (at_opt ps i)" if "i < length infos" for i
    using that assms(4) by (simp_all add: make_slots_def set_pointers_def)
  have len: "length ?slots = length infos" using assms(4) by (simp add: make_slots_def set_pointers_def)
  show "list_all (slot_ok mem endp) ?slots"
    using assms(1,2) len nth by (auto simp: list_all_length slot_ok_def at_opt_def Suc_le_eq split: option.splits)
  have "unused (?slots ! length ps)" using nth [OF assms(3)] by (simp add: unused_def)
  then show "list_ex unused ?slots" using len assms(3) by (auto simp: list_ex_length)
qed

text \<open>The counters that a section changes, apart from those of its event.\<close>

definition section_counted :: "nat \<Rightarrow> StreamProcessor \<Rightarrow> StreamProcessor \<Rightarrow> bool" where
  "section_counted events st st' \<longleftrightarrow> same_config st st' \<and> wf_processor st'
     \<and> totalEvents (counters st') = totalEvents (counters st) + of_nat events
     \<and> buffersProcessed (counters st') = buffersProcessed (counters st)"

lemma processEventSection_total:
  assumes "wf_processor st" "data + words + 1 < length mem"
    and "module_count (listfileConstants st) (take words (drop data mem)) < MaxVMEModules"
  shows "\<exists>st'. processEventSection mem h data words st = Some st' \<and> section_counted 1 st st'
    \<and> bytesProcessed (counters st') = bytesProcessed (counters st)"
proof -
  let ?ei = "unat (getEventIndex (listfileConstants st) h)"
  obtain ps where ps: "collect_modules (listfileConstants st) mem MaxVMEModules (buffer_iterator data words) = Some ps"
    "list_all (\<lambda>p. p < data + words) ps" "length ps < MaxVMEModules"
    using collect_modules_total [of "buffer_iterator data words" mem "listfileConstants st" MaxVMEModules] assms(2,3)
    by (auto simp: buffer_iterator_def)
  show ?thesis
  proof (cases "length (eventConfigs st) \<le> ?ei \<or> \<not> eventConfigs st ! ?ei")
    case True
    then show ?thesis using assms(1)
      by (simp add: processEventSection_def begin_section_def Let_def section_counted_def) (simp add: count_def)
  next
    case False
    define st1 where "st1 = count (\<lambda>c. c\<lparr>eventCounters := (eventCounters c)[?ei := eventCounters c ! ?ei + 1]\<rparr>)
      ((count (\<lambda>c. c\<lparr>totalEvents := totalEvents c + 1\<rparr>) st)\<lparr>eventInfos :=
        (eventInfos st)[?ei := set_pointers ps (eventInfos st ! ?ei)]\<rparr>)"
    have start: "begin_section mem h data words st = Some (Inr st1)"
      using False ps by (simp add: begin_section_def Let_def st1_def)
    have ei: "?ei < MaxVMEEvents" using False assms(1) by (simp add: wf_processor_def)
    have infos: "length (eventInfos st ! ?ei) = MaxVMEModules"
      and cs: "length (moduleCounters (counters st) ! ?ei) = MaxVMEModules"
      using assms(1) ei by (simp_all add: wf_processor_def list_all_length)
    have wf1: "wf_processor st1"
      using assms(1) infos by (simp add: st1_def wf_processor_def count_def list_all_update set_pointers_def)
    have slots: "event_slots ?ei st1 = make_slots (set_pointers ps (eventInfos st ! ?ei)) (moduleCounters (counters st) ! ?ei)"
      using ei assms(1) by (simp add: event_slots_def st1_def count_def wf_processor_def)
    have ok: "slots_ok mem (data + words) (event_slots ?ei st1)" "length (event_slots ?ei st1) = MaxVMEModules"
      unfolding slots using slots_of_pointers [OF ps(2), of mem] assms(2) ps(3) infos cs
      by (simp_all add: make_slots_def set_pointers_def)
    obtain slots' calls errors where loop:
      "event_loop st1 mem ?ei (data + words) (event_slots ?ei st1) = Some (slots', calls, errors)"
      "slots_ok mem (data + words) slots'" "length slots' = MaxVMEModules"
      using event_loop_total [OF ok(1)] assms(2) ok(2) by fastforce
    define st2 where "st2 = emit calls (add_errors errors (put_slots ?ei slots' st1))"
    have "same_config st st1" by (simp add: st1_def same_config_def count_def)
    then have "same_config st st2" "wf_processor st2"
      using wf_put_slots [OF wf1 loop(3)] by (simp_all add: st2_def)
    moreover have c: "totalEvents (counters st2) = totalEvents (counters st) + 1"
      "buffersProcessed (counters st2) = buffersProcessed (counters st)"
      "bytesProcessed (counters st2) = bytesProcessed (counters st)"
      by (simp_all add: st2_def st1_def count_def put_slots_def add_errors_def emit_def)
    ultimately have st2: "section_counted 1 st st2" by (simp add: section_counted_def)
    have errs: "section_counted n st (add_errors k st') \<longleftrightarrow> section_counted n st st'"
      "bytesProcessed (counters (add_errors k st')) = bytesProcessed (counters st')" for n k st'
      by (simp_all add: section_counted_def) (simp_all add: add_errors_def count_def)
    obtain missing where "end_marker_missing mem (data + words) slots' = Some missing"
      using end_marker_total [of mem "data + words" slots'] loop(2) assms(2) by (auto simp: slots_ok_def)
    then show ?thesis using st2 c(3) errs
      by (auto simp: processEventSection_def start loop(1) Let_def st2_def [symmetric])
  qed
qed

section \<open>Buffers\<close>

lemma stream_sections_pos:
  assumes "it_pos it < it_end it" "it_end it \<le> length mem"
  shows "stream_sections lf (take (it_end it - it_pos it) (drop (it_pos it) mem)) =
    (let n = unat (getSectionSize lf (mem ! it_pos it))
     in if it_end it - (it_pos it + 1) < n then ([], False)
        else let (ss, complete) = stream_sections lf (take (it_end it - (it_pos it + 1 + n)) (drop (it_pos it + 1 + n) mem))
             in ((mem ! it_pos it, take n (drop (it_pos it + 1) mem)) # ss, complete))"
proof -
  obtain k where k: "it_end it = it_pos it + Suc k" using assms(1) by (metis less_iff_Suc_add add_Suc_right)
  have "drop (it_pos it) mem = mem ! it_pos it # drop (it_pos it + 1) mem"
    using assms by (simp add: Cons_nth_drop_Suc)
  then show ?thesis using k assms(2)
    by (auto simp: stream_sections.simps Let_def drop_take min_def add.commute add.left_commute split: prod.splits)
qed

text \<open>The sections that processing can handle, and how many events they are.\<close>

definition section_fits :: "StreamProcessor \<Rightarrow> u32 \<times> u32 list \<Rightarrow> bool" where
  "section_fits st = (\<lambda>(h, ws).
     (is_section (listfileConstants st) SectionType_Timetick h \<longrightarrow> isReplay st)
     \<and> (is_section (listfileConstants st) SectionType_Event h \<longrightarrow>
          module_count (listfileConstants st) ws < MaxVMEModules))"

definition event_count :: "ListfileConstants \<Rightarrow> (u32 \<times> u32 list) list \<Rightarrow> nat" where
  "event_count lf ss = length (filter (\<lambda>(h, ws). is_section lf SectionType_Event h) ss)"

definition byte_count :: "(u32 \<times> u32 list) list \<Rightarrow> nat" where
  "byte_count ss = sum_list (map (\<lambda>(h, ws). length ws * 4 + 4) ss)"

lemma section_counted_trans:
  "section_counted m st st' \<Longrightarrow> section_counted n st' st'' \<Longrightarrow> section_counted (m + n) st st''"
  by (auto simp: section_counted_def intro: same_config_trans)

lemma process_section_total:
  assumes "wf_processor st" "analysis st" "it_pos it < it_end it" "it_end it + 1 < length mem"
    and "unat (getSectionSize (listfileConstants st) (mem ! it_pos it)) \<le> it_end it - (it_pos it + 1)"
    and "section_fits st (mem ! it_pos it, take (unat (getSectionSize (listfileConstants st) (mem ! it_pos it)))
      (drop (it_pos it + 1) mem))"
  shows "\<exists>st' it'. process_section mem it st = Some (Inr (st', it'))
    \<and> section_counted (of_bool (is_section (listfileConstants st) SectionType_Event (mem ! it_pos it))) st st'
    \<and> it_pos it' = it_pos it + 1 + unat (getSectionSize (listfileConstants st) (mem ! it_pos it)) \<and> it_end it' = it_end it
    \<and> bytesProcessed (counters st') = bytesProcessed (counters st)
        + of_nat (unat (getSectionSize (listfileConstants st) (mem ! it_pos it)) * 4 + 4)"
proof -
  let ?h = "mem ! it_pos it" and ?lf = "listfileConstants st"
  let ?n = "unat (getSectionSize ?lf ?h)"
  have ex: "extractU32 mem it = Some (?h, it\<lparr>it_pos := it_pos it + 1\<rparr>)"
    using assms(3,4) by (simp add: extractU32_def peekU32_def)
  have cnt: "section_counted k st (count (\<lambda>c. c\<lparr>bytesProcessed := f c\<rparr>) st') = section_counted k st st'" for k f st'
    by (simp add: section_counted_def) (simp add: count_def)
  have same: "section_counted 0 st st" "section_counted 0 st (emit cs st)" for cs
    using assms(1) by (simp_all add: section_counted_def) (simp add: emit_def)
  have it': "skip ?n (it\<lparr>it_pos := it_pos it + 1\<rparr>) = it\<lparr>it_pos := it_pos it + 1 + ?n\<rparr>"
    using assms(3,5) by (simp add: skip_def)
  have left: "\<not> longwordsLeft (it\<lparr>it_pos := it_pos it + 1\<rparr>) < ?n" using assms(5) by (simp add: longwordsLeft_def)
  consider (tick) "is_section ?lf SectionType_Timetick ?h" | (event) "is_section ?lf SectionType_Event ?h"
    | (other) "\<not> is_section ?lf SectionType_Timetick ?h" "\<not> is_section ?lf SectionType_Event ?h" by blast
  then show ?thesis
  proof cases
    case tick
    then show ?thesis using assms(2,6) section_types_differ [of ?lf ?h] ex left it' same cnt
      by (auto simp: process_section_def Let_def section_fits_def is_section_def) (simp add: count_def emit_def)
  next
    case event
    have bound: "it_pos it + 1 + ?n + 1 < length mem" using assms(3-5) by linarith
    obtain st' where "processEventSection mem ?h (it_pos it + 1) ?n st = Some st'" "section_counted 1 st st'"
      "bytesProcessed (counters st') = bytesProcessed (counters st)"
      using processEventSection_total [OF assms(1) bound, of ?h] assms(6) event by (auto simp: section_fits_def)
    then show ?thesis using event section_types_differ [of ?lf ?h] ex left it' cnt
      by (auto simp: process_section_def Let_def is_section_def) (simp add: count_def)
  next
    case other
    then show ?thesis using ex left it' same cnt
      by (auto simp: process_section_def Let_def is_section_def) (simp add: count_def)
  qed
qed

lemma process_sections_total:
  assumes "wf_processor st" "analysis st" "it_pos it \<le> it_end it" "it_end it + 1 < length mem"
    and "stream_sections (listfileConstants st) (take (it_end it - it_pos it) (drop (it_pos it) mem)) = (ss, complete)"
    and "list_all (section_fits st) ss"
  shows "\<exists>r st'. process_sections mem it st = Some r \<and> r = (if complete then Inr st' else Inl st')
    \<and> section_counted (event_count (listfileConstants st) ss) st st'
    \<and> bytesProcessed (counters st') = bytesProcessed (counters st) + of_nat (byte_count ss)"
  using assms
proof (induction mem it st arbitrary: ss rule: process_sections.induct)
  case (1 mem it st)
  let ?lf = "listfileConstants st"
  show ?case
  proof (cases "it_pos it = it_end it")
    case True
    then show ?thesis using 1(2,6)
      by (auto simp: process_sections.simps [of mem it] longwordsLeft_def stream_sections.simps section_counted_def
          event_count_def byte_count_def)
  next
    case False
    then have lt: "it_pos it < it_end it" and left: "longwordsLeft it \<noteq> 0" using 1(4) by (simp_all add: longwordsLeft_def)
    let ?n = "unat (getSectionSize ?lf (mem ! it_pos it))"
    note pos = stream_sections_pos [OF lt, of mem ?lf, unfolded Let_def]
    show ?thesis
    proof (cases "?n \<le> it_end it - (it_pos it + 1)")
      case no: False
      then have "ss = []" "\<not> complete" using pos 1(5,6) by auto
      moreover have "process_section mem it st = Some (Inl st)" using no lt 1(5)
        by (simp add: process_section_def extractU32_def peekU32_def longwordsLeft_def Let_def)
      ultimately show ?thesis using left 1(2)
        by (simp add: process_sections.simps [of mem it] section_counted_def event_count_def byte_count_def)
    next
      case yes: True
      obtain ss' where ss': "stream_sections ?lf (take (it_end it - (it_pos it + 1 + ?n)) (drop (it_pos it + 1 + ?n) mem)) = (ss', complete)"
        "ss = (mem ! it_pos it, take ?n (drop (it_pos it + 1) mem)) # ss'"
        using pos yes 1(5,6) by (auto split: prod.splits)
      obtain st' it' where one: "process_section mem it st = Some (Inr (st', it'))"
        "section_counted (of_bool (is_section ?lf SectionType_Event (mem ! it_pos it))) st st'"
        "it_pos it' = it_pos it + 1 + ?n" "it_end it' = it_end it"
        "bytesProcessed (counters st') = bytesProcessed (counters st) + of_nat (?n * 4 + 4)"
        using process_section_total [OF 1(2,3) lt 1(5) yes] 1(7) ss' by auto
      have same: "same_config st st'" "wf_processor st'" using one(2) by (simp_all add: section_counted_def)
      then have cfg: "listfileConstants st' = ?lf" "analysis st'" "section_fits st' = section_fits st"
        using 1(3) by (simp_all add: same_config_def section_fits_def fun_eq_iff)
      have "it_pos it' \<le> it_end it'" using one(3,4) yes lt by linarith
      then obtain r st'' where rest: "process_sections mem it' st' = Some r" "r = (if complete then Inr st'' else Inl st'')"
        "section_counted (event_count ?lf ss') st' st''"
        "bytesProcessed (counters st'') = bytesProcessed (counters st') + of_nat (byte_count ss')"
        using 1(1) [OF left one(1) refl refl same(2) cfg(2), of ss'] one(3,4) 1(5,7) ss' cfg(1,3) by auto
      have "length (take ?n (drop (it_pos it + 1) mem)) = ?n" using yes 1(5) by simp
      then have "bytesProcessed (counters st'') = bytesProcessed (counters st) + of_nat (byte_count ss)"
        using rest(4) one(5) by (simp add: ss'(2) byte_count_def)
      moreover have "event_count ?lf ss = of_bool (is_section ?lf SectionType_Event (mem ! it_pos it)) + event_count ?lf ss'"
        by (simp add: ss'(2) event_count_def)
      ultimately show ?thesis using rest(1,2) left one(1) section_counted_trans [OF one(2) rest(3)]
        by (simp add: process_sections.simps [of mem it])
    qed
  qed
qed

text \<open>C4: processing a buffer always ends and stays inside the memory if two words follow the used part and no
  event section has as many modules as the arrays have entries. The sections are those of the format: every
  event section is counted, complete sections are counted with their bytes, and a buffer with a cut off section
  is counted as erroneous only.\<close>

theorem process_buffer_total:
  assumes "wf_processor st" "analysis st" "bufferIter st = None" "db_used buffer div 4 + 1 < length (buffer_words buffer)"
    and "stream_sections (listfileConstants st) (take (db_used buffer div 4) (buffer_words buffer)) = (ss, complete)"
    and "list_all (section_fits st) ss"
  shows "\<exists>st'. processDataBuffer buffer st = Some st' \<and> wf_processor st'
    \<and> totalEvents (counters st') = totalEvents (counters st) + of_nat (event_count (listfileConstants st) ss)
    \<and> bytesProcessed (counters st') = bytesProcessed (counters st) + of_nat (byte_count ss)
    \<and> buffersProcessed (counters st') = buffersProcessed (counters st) + of_bool complete"
proof -
  let ?it = "buffer_iterator 0 (db_used buffer div 4)"
  obtain r st' where "process_sections (buffer_words buffer) ?it st = Some r" "r = (if complete then Inr st' else Inl st')"
    "section_counted (event_count (listfileConstants st) ss) st st'"
    "bytesProcessed (counters st') = bytesProcessed (counters st) + of_nat (byte_count ss)"
    using process_sections_total [OF assms(1,2), of ?it "buffer_words buffer" ss complete] assms(4-6)
    by (auto simp: buffer_iterator_def)
  then show ?thesis using assms(3)
    by (auto simp: processDataBuffer_def section_counted_def) (simp_all add: count_def end_of_buffer_def emit_def add_errors_def)
qed

end
