(* ===== verification/Stream_Split.thy ===== *)
theory Stream_Split
  imports Stream_Sections
begin

text \<open>
  Multi-event processing of an intact event section: the events of the modules are passed on in order, one event
  of every module at a time. This is the inverse of the concatenation of the single events by the readout.
\<close>

section \<open>Intact event sections\<close>

text \<open>A module of an event section: its header, the data of its events and the end marker.\<close>

definition module_words :: "u32 \<Rightarrow> u32 list list \<Rightarrow> u32 list" where
  "module_words h events = h # concat events @ [EndMarker]"

definition section_words :: "u32 list \<Rightarrow> u32 list list list \<Rightarrow> u32 list" where
  "section_words hs evs = concat (map2 module_words hs evs) @ [EndMarker]"

text \<open>The data of an event starts with a header from which its size is extracted.\<close>

definition event_fits :: "ModuleInfo \<Rightarrow> u32 list \<Rightarrow> bool" where
  "event_fits mi ev \<longleftrightarrow> ev \<noteq> [] \<and> matches (moduleHeaderFilter mi) (hd ev) (- 1)
     \<and> unat (extract_value (filterCacheModuleSectionSize mi) (hd ev)) + 1 = length ev"

fun module_starts :: "nat \<Rightarrow> u32 list list list \<Rightarrow> nat list" where
  "module_starts p [] = []"
| "module_starts p (events # evs) = p # module_starts (p + length (concat events) + 2) evs"

lemma length_module_starts [simp]: "length (module_starts p evs) = length evs"
  by (induction p evs rule: module_starts.induct) auto

text \<open>What a receiver gets to see of a call.\<close>

datatype Delivery = Begins nat | Data nat nat "u32 list" | Ends nat | Other Call

primrec delivery :: "u32 list \<Rightarrow> Call \<Rightarrow> Delivery" where
  "delivery mem BeginRun = Other BeginRun"
| "delivery mem EndRun = Other EndRun"
| "delivery mem Startup = Other Startup"
| "delivery mem Shutdown = Other Shutdown"
| "delivery mem (BeginEvent e) = Begins e"
| "delivery mem (ModuleData e m p n) = Data e m (take n (drop p mem))"
| "delivery mem (EndEvent e) = Ends e"
| "delivery mem Timetick = Other Timetick"

text \<open>The events of a section in order: event \<open>j\<close> of all modules, for every \<open>j\<close>.\<close>

definition event_deliveries :: "nat \<Rightarrow> u32 list list list \<Rightarrow> nat \<Rightarrow> Delivery list" where
  "event_deliveries ei evs j = Begins ei # map (\<lambda>(m, events). Data ei m (events ! j)) (indexed 0 evs) @ [Ends ei]"

section \<open>The headers of the modules\<close>

lemma collect_intact:
  assumes "length hs = length evs" "length evs \<le> n"
    and "\<And>m. m < length evs \<Longrightarrow> hs ! m \<noteq> EndMarker \<and>
      unat (getModuleDataSize lf (hs ! m)) = length (concat (evs ! m)) + 1"
  shows "collect_modules lf (pre @ section_words hs evs @ post) n
      \<lparr>it_data = d, it_pos = length pre, it_end = length pre + length (section_words hs evs)\<rparr>
    = Some (module_starts (length pre) evs)"
  using assms
proof (induction hs evs arbitrary: n pre rule: list_induct2)
  case Nil
  then show ?case
    by (cases n) (simp_all add: section_words_def atEnd_def extractU32_def peekU32_def)
next
  case (Cons h hs events evs)
  then obtain n' where n: "n = Suc n'" by (cases n) auto
  let ?it = "\<lparr>it_data = d, it_pos = length pre, it_end = length pre + length (section_words (h # hs) (events # evs))\<rparr>"
  let ?mem = "pre @ section_words (h # hs) (events # evs) @ post"
  have mem: "?mem = (pre @ module_words h events) @ section_words hs evs @ post"
    by (simp add: section_words_def)
  have h: "h \<noteq> EndMarker" "unat (getModuleDataSize lf h) = length (concat events) + 1"
    using Cons.prems(2) [of 0] by auto
  have "extractU32 ?mem ?it = Some (h, ?it\<lparr>it_pos := length pre + 1\<rparr>)"
    by (simp add: extractU32_def peekU32_def section_words_def module_words_def nth_append)
  moreover have "skip (unat (getModuleDataSize lf h)) (?it\<lparr>it_pos := length pre + 1\<rparr>) =
    \<lparr>it_data = d, it_pos = length (pre @ module_words h events),
     it_end = length (pre @ module_words h events) + length (section_words hs evs)\<rparr>"
    using h(2) by (simp add: skip_def section_words_def module_words_def)
  moreover have "collect_modules lf ?mem n' \<lparr>it_data = d, it_pos = length (pre @ module_words h events),
     it_end = length (pre @ module_words h events) + length (section_words hs evs)\<rparr>
    = Some (module_starts (length (pre @ module_words h events)) evs)"
    unfolding mem
  proof (rule Cons.IH)
    show "length evs \<le> n'" using Cons.prems(1) n by simp
    show "hs ! m \<noteq> EndMarker \<and> unat (getModuleDataSize lf (hs ! m)) = length (concat (evs ! m)) + 1"
      if "m < length evs" for m using Cons.prems(2) [of "Suc m"] that by simp
  qed
  ultimately show ?case using h n
    by (simp add: atEnd_def section_words_def module_words_def add.commute add.left_commute)
qed

section \<open>The rounds\<close>

text \<open>A module with its start, info, counter and events.\<close>

type_synonym Module = "nat \<times> ModuleInfo \<times> u32 \<times> u32 list list"

definition event_pos :: "nat \<Rightarrow> u32 list list \<Rightarrow> nat \<Rightarrow> nat" where
  "event_pos start events j = start + 1 + length (concat (take j events))"

definition slot_at :: "nat \<Rightarrow> Module \<Rightarrow> ModuleSlot" where
  "slot_at j = (\<lambda>(start, mi, c, events).
     \<lparr>ms_info = mi\<lparr>moduleDataHeader := Some start, moduleHeader := Some (event_pos start events j)\<rparr>,
      ms_counter = c + of_nat j, ms_count = of_nat j\<rparr>)"

definition module_intact :: "u32 list \<Rightarrow> nat \<Rightarrow> nat \<Rightarrow> Module \<Rightarrow> bool" where
  "module_intact mem endp n = (\<lambda>(start, mi, c, events).
     length events = n \<and> list_all (event_fits mi) events
     \<and> take (length (concat events) + 1) (drop (start + 1) mem) = concat events @ [EndMarker]
     \<and> start + 1 + length (concat events) < endp \<and> endp \<le> length mem)"

lemma event_in_memory:
  assumes "module_intact mem endp n (start, mi, c, events)" "j < n"
  shows "take (length (events ! j)) (drop (event_pos start events j) mem) = events ! j"
    and "event_pos start events (j + 1) = event_pos start events j + length (events ! j)"
    and "event_pos start events (j + 1) \<le> endp" and "event_fits mi (events ! j)"
    and "event_pos start events j < length mem" and "mem ! event_pos start events j = hd (events ! j)"
proof -
  have j: "j < length events" using assms by (simp add: module_intact_def)
  have mem: "take (length (concat events) + 1) (drop (start + 1) mem) = concat events @ [EndMarker]"
    and bound: "start + 1 + length (concat events) < endp" "endp \<le> length mem"
    using assms by (simp_all add: module_intact_def)
  have parts: "concat events = concat (take j events) @ events ! j @ concat (drop (Suc j) events)"
    using j by (metis append_take_drop_id concat.simps(2) concat_append Cons_nth_drop_Suc)
  then have len: "length (concat (take j events)) + length (events ! j) \<le> length (concat events)"
    by (metis (no_types) length_append le_add1 add.assoc)
  have "drop (event_pos start events j) mem = drop (length (concat (take j events))) (drop (start + 1) mem)"
    by (simp add: event_pos_def add.commute)
  then have "take (length (events ! j)) (drop (event_pos start events j) mem) =
      take (length (events ! j)) (drop (length (concat (take j events))) (take (length (concat events) + 1) (drop (start + 1) mem)))"
    using len by (simp add: drop_take min_def)
  also have "\<dots> = events ! j" unfolding mem by (subst parts) simp
  finally show seg: "take (length (events ! j)) (drop (event_pos start events j) mem) = events ! j" .
  show "event_pos start events (j + 1) = event_pos start events j + length (events ! j)"
    using j by (simp add: event_pos_def take_Suc_conv_app_nth)
  then show "event_pos start events (j + 1) \<le> endp" using len bound by (simp add: event_pos_def)
  show fits: "event_fits mi (events ! j)" using assms j by (simp add: module_intact_def list_all_length)
  show pos: "event_pos start events j < length mem" using len bound by (simp add: event_pos_def)
  have "hd (take (length (events ! j)) (drop (event_pos start events j) mem)) = mem ! event_pos start events j"
    using fits pos by (simp add: event_fits_def hd_drop_conv_nth)
  then show "mem ! event_pos start events j = hd (events ! j)" by (simp add: seg)
qed

lemma end_in_memory:
  assumes "module_intact mem endp n (start, mi, c, events)"
  shows "at_opt mem (event_pos start events n) = Some EndMarker"
proof -
  have mem: "take (length (concat events) + 1) (drop (start + 1) mem) = concat events @ [EndMarker]"
    and bound: "start + 1 + length (concat events) < length mem" and n: "length events = n"
    using assms by (auto simp: module_intact_def)
  have "mem ! (start + 1 + length (concat events)) = (take (length (concat events) + 1) (drop (start + 1) mem)) ! length (concat events)"
    using bound by simp
  also have "\<dots> = EndMarker" by (simp only: mem nth_append_length)
  finally show ?thesis using bound n by (simp add: event_pos_def)
qed

lemma module_step_intact:
  assumes "module_intact mem endp n md" "j < n" "doMultiEventProcessing st ! ei"
  shows "\<exists>calls. module_step st withDiag mem ei endp m (fst md) (slot_at j md) =
    Some (slot_at (j + 1) md, calls, None,
      (fst md, Some (event_pos (fst md) (snd (snd (snd md))) j, length (snd (snd (snd md)) ! j))))"
proof -
  obtain start mi c events where md: "md = (start, mi, c, events)" by (cases md)
  note e = event_in_memory [OF assms(1) [unfolded md] assms(2)]
  show ?thesis using e assms(3) unfolding md
    by (simp add: module_step_def slot_at_def Let_def event_fits_def not_less add.commute)
qed

definition visit_at :: "nat \<Rightarrow> Module \<Rightarrow> Visit" where
  "visit_at j = (\<lambda>(start, mi, c, events). (start, Some (event_pos start events j, length (events ! j))))"

lemma module_loop_intact:
  assumes "list_all (module_intact mem endp n) mds" "j < n" "doMultiEventProcessing st ! ei" "unused r"
  shows "\<exists>calls. module_loop st withDiag mem ei endp m (map (slot_at j) mds @ r # rs) =
    Some (map (slot_at (j + 1)) mds @ r # rs, calls, None, map (visit_at j) mds)"
  using assms(1)
proof (induction mds arbitrary: m)
  case Nil
  then show ?case using assms(4) by (simp add: unused_def)
next
  case (Cons md mds)
  have dh: "moduleDataHeader (ms_info (slot_at j md)) = Some (fst md)" by (simp add: slot_at_def split: prod.splits)
  have v: "visit_at j md = (fst md, Some (event_pos (fst md) (snd (snd (snd md))) j, length (snd (snd (snd md)) ! j)))"
    by (simp add: visit_at_def split: prod.splits)
  from Cons obtain calls where "module_loop st withDiag mem ei endp (m + 1) (map (slot_at j) mds @ r # rs) =
    Some (map (slot_at (j + 1)) mds @ r # rs, calls, None, map (visit_at j) mds)" by fastforce
  moreover obtain calls1 where "module_step st withDiag mem ei endp m (fst md) (slot_at j md) =
    Some (slot_at (j + 1) md, calls1, None, visit_at j md)"
    using module_step_intact [of mem endp n md j st ei withDiag m] Cons.prems assms(2,3) by (auto simp: v)
  ultimately show ?case by (simp add: dh)
qed

lemma visits_deliver:
  assumes "list_all (module_intact mem endp n) mds" "j < n"
  shows "map (delivery mem) (visit_calls ei m (map (visit_at j) mds)) =
    map (\<lambda>(k, events). Data ei k (events ! j)) (indexed m (map (\<lambda>(start, mi, c, events). events) mds))"
  using assms(1)
proof (induction mds arbitrary: m)
  case (Cons md mds)
  obtain start mi c events where md: "md = (start, mi, c, events)" by (cases md)
  then have "module_intact mem endp n (start, mi, c, events)" using Cons.prems by simp
  from event_in_memory(1) [OF this assms(2)] Cons show ?case by (simp add: md visit_at_def)
qed simp

lemma first_matches_intact:
  assumes "module_intact mem endp n (start, mi, c, events)" "j \<le> n" "\<not> matches (moduleHeaderFilter mi) EndMarker (- 1)"
  shows "first_matches mem (map (slot_at j) ((start, mi, c, events) # mds) @ rs) = Some (j < n)"
proof (cases "j < n")
  case True
  from event_in_memory [OF assms(1) this] show ?thesis using True
    by (simp add: first_matches_def slot_at_def event_fits_def)
next
  case False
  then have "j = n" using assms(2) by simp
  then show ?thesis using end_in_memory [OF assms(1)] assms(3) by (simp add: first_matches_def slot_at_def)
qed

lemma event_loop_intact:
  assumes "list_all (module_intact mem endp n) mds" "mds = (start, mi, c, events) # mds'"
    and "\<not> matches (moduleHeaderFilter mi) EndMarker (- 1)" "doMultiEventProcessing st ! ei" "unused r" "j \<le> n"
  shows "\<exists>calls. event_loop st mem ei endp (map (slot_at j) mds @ r # rs) = Some (map (slot_at n) mds @ r # rs, calls, 0)
    \<and> (\<forall>rc. listens st rc \<longrightarrow> map (delivery mem) (calls_of rc calls) =
        concat (map (event_deliveries ei (map (\<lambda>(start, mi, c, events). events) mds)) [j..<n]))"
  using assms(6)
proof (induction "n - j" arbitrary: j)
  case 0
  then have j: "j = n" by simp
  have first: "first_matches mem (map (slot_at n) mds @ r # rs) = Some False"
    using first_matches_intact [of mem endp n start mi c events n mds' "r # rs"] assms(1-3) by simp
  have "moduleDataHeader (ms_info (hd (map (slot_at n) mds @ r # rs))) = Some start"
    by (simp add: assms(2) slot_at_def)
  then have "event_loop st mem ei endp (map (slot_at n) mds @ r # rs) = Some (map (slot_at n) mds @ r # rs, [], 0)"
    using first assms(4) by (subst event_loop.simps) simp
  then show ?case by (simp add: j)
next
  case (Suc k)
  then have j: "j < n" and k: "k = n - (j + 1)" by simp_all
  let ?slots = "map (slot_at j) mds @ r # rs"
  have first: "first_matches mem ?slots = Some True"
    using first_matches_intact [of mem endp n start mi c events j mds' "r # rs"] assms(1-3) j by simp
  have hd: "moduleDataHeader (ms_info (hd ?slots)) = Some start" by (simp add: assms(2) slot_at_def)
  obtain calls1 where loop: "module_loop st True mem ei endp 0 ?slots =
      Some (map (slot_at (j + 1)) mds @ r # rs, calls1, None, map (visit_at j) mds)"
    using module_loop_intact [OF assms(1) j assms(4,5)] by blast
  obtain calls2 where rest: "event_loop st mem ei endp (map (slot_at (j + 1)) mds @ r # rs) =
      Some (map (slot_at n) mds @ r # rs, calls2, 0)"
    "\<forall>rc. listens st rc \<longrightarrow> map (delivery mem) (calls_of rc calls2) =
      concat (map (event_deliveries ei (map (\<lambda>(start, mi, c, events). events) mds)) [j + 1..<n])"
    using Suc(1) [of "j + 1"] k j by auto
  have "event_loop st mem ei endp ?slots = Some (map (slot_at n) mds @ r # rs, event_out st ei calls1 @ calls2, 0)"
    using first hd loop rest(1) assms(4) by (subst event_loop.simps) (simp add: event_out_def Let_def)
  moreover have "map (delivery mem) (calls_of rc (event_out st ei calls1 @ calls2)) =
      concat (map (event_deliveries ei (map (\<lambda>(start, mi, c, events). events) mds)) [j..<n])" if "listens st rc" for rc
    using j that rest(2) visits_deliver [OF assms(1) j, of ei 0] module_loop_calls [OF loop that]
    by (simp add: event_out_def calls_of_split upt_conv_Cons event_deliveries_def del: upt_Suc)
  ultimately show ?case by blast
qed

lemma end_markers_intact:
  assumes "list_all (module_intact mem endp n) mds" "list_all (\<lambda>s. moduleHeader (ms_info s) = None) rs"
  shows "end_marker_missing mem endp (map (slot_at n) mds @ rs) = Some False"
  using assms(1)
proof (induction mds)
  case Nil
  then show ?case using assms(2) by (cases rs) auto
next
  case (Cons md mds)
  obtain start mi c events where md: "md = (start, mi, c, events)" by (cases md)
  then have "at_opt mem (event_pos start events n) = Some EndMarker"
    using end_in_memory [of mem endp n start mi c events] Cons.prems by simp
  then have "skip_berr mem endp (event_pos start events n) = Some EndMarker"
    by (simp add: skip_berr.simps EndMarker_def BerrMarker_def)
  then show ?case using Cons by (simp add: md slot_at_def)
qed

lemma counts_intact:
  assumes "mds \<noteq> []" "list_all unused rs"
  shows "\<not> unequal_counts (map (slot_at n) mds @ rs)"
proof -
  have "ms_count (slot_at n md) = of_nat n" for md by (simp add: slot_at_def split: prod.splits)
  then show ?thesis using assms by (cases mds) (auto simp: unequal_counts_def list_ex_iff list_all_iff unused_def)
qed

section \<open>The section as a whole\<close>

lemma module_in_section:
  assumes "length hs = length evs" "m < length evs"
  shows "(\<exists>rest. drop (module_starts (length pre) evs ! m) (pre @ section_words hs evs @ post) =
      module_words (hs ! m) (evs ! m) @ rest)
    \<and> module_starts (length pre) evs ! m + 1 + length (concat (evs ! m)) < length pre + length (section_words hs evs)"
  using assms
proof (induction hs evs arbitrary: m pre rule: list_induct2)
  case (Cons h hs events evs)
  show ?case
  proof (cases m)
    case 0
    then show ?thesis by (auto simp: section_words_def module_words_def)
  next
    case (Suc m')
    have mem: "pre @ section_words (h # hs) (events # evs) @ post = (pre @ module_words h events) @ section_words hs evs @ post"
      by (simp add: section_words_def)
    have start: "module_starts (length pre) (events # evs) ! m = module_starts (length (pre @ module_words h events)) evs ! m'"
      by (simp add: Suc module_words_def)
    have len: "length pre + length (section_words (h # hs) (events # evs)) =
        length (pre @ module_words h events) + length (section_words hs evs)"
      by (simp add: section_words_def)
    have "m' < length evs" using Cons.prems Suc by simp
    from Cons.IH [OF this, of "pre @ module_words h events"] show ?thesis
      unfolding mem start len by (simp only: Suc nth_Cons_Suc)
  qed
qed simp

lemma module_intact_section:
  assumes "length hs = length evs" "m < length evs" "length (evs ! m) = n" "list_all (event_fits mi) (evs ! m)"
  shows "module_intact (pre @ section_words hs evs @ post) (length pre + length (section_words hs evs)) n
    (module_starts (length pre) evs ! m, mi, c, evs ! m)"
proof -
  let ?start = "module_starts (length pre) evs ! m" and ?mem = "pre @ section_words hs evs @ post"
  obtain rest where d: "drop ?start ?mem = module_words (hs ! m) (evs ! m) @ rest"
    and b: "?start + 1 + length (concat (evs ! m)) < length pre + length (section_words hs evs)"
    using module_in_section [OF assms(1,2), of pre post] by blast
  have "drop (?start + 1) ?mem = concat (evs ! m) @ EndMarker # rest"
    using arg_cong [OF d, of "drop 1"] by (simp add: module_words_def del: drop_append)
  then show ?thesis using assms b by (simp add: module_intact_def del: drop_append)
qed

text \<open>C3: multi-event processing undoes the concatenation of the single events. In an intact section of a
  configured event whose modules all hold \<open>n\<close> events, every receiver gets the \<open>n\<close> events in order, each with the
  data of all modules, and exactly these words; the counters of the modules grow by \<open>n\<close> and no error is
  counted.\<close>

theorem section_events_in_order:
  assumes "wf_processor st" "ei = unat (getEventIndex (listfileConstants st) h)" "ei < MaxVMEEvents"
    and "eventConfigs st ! ei" "doMultiEventProcessing st ! ei" "length hs = length evs" "0 < length evs"
    and "length evs < MaxVMEModules"
    and "\<forall>m < length evs. hs ! m \<noteq> EndMarker
      \<and> unat (getModuleDataSize (listfileConstants st) (hs ! m)) = length (concat (evs ! m)) + 1
      \<and> length (evs ! m) = n \<and> list_all (event_fits (eventInfos st ! ei ! m)) (evs ! m)"
    and "\<not> matches (moduleHeaderFilter (eventInfos st ! ei ! 0)) EndMarker (- 1)"
    and "mem = pre @ section_words hs evs @ post"
  shows "\<exists>st'. processEventSection mem h (length pre) (length (section_words hs evs)) st = Some st'
    \<and> (\<forall>r. listens st r \<longrightarrow> (\<exists>cs. calls_of r (sp_calls st') = calls_of r (sp_calls st) @ cs
        \<and> map (delivery mem) cs = concat (map (event_deliveries ei evs) [0..<n])))
    \<and> buffersWithErrors (counters st') = buffersWithErrors (counters st)
    \<and> (\<forall>m < length evs. moduleCounters (counters st') ! ei ! m = moduleCounters (counters st) ! ei ! m + of_nat n)"
proof -
  let ?k = "length evs" and ?infos = "eventInfos st ! ei" and ?cs = "moduleCounters (counters st) ! ei"
  let ?endp = "length pre + length (section_words hs evs)" and ?ps = "module_starts (length pre) evs"
  have ps: "collect_modules (listfileConstants st) mem MaxVMEModules
      (buffer_iterator (length pre) (length (section_words hs evs))) = Some ?ps"
    unfolding assms(11) buffer_iterator_def using assms(6,8,9) by (intro collect_intact) auto
  have len: "length ?infos = MaxVMEModules" "length ?cs = MaxVMEModules" "length (eventInfos st) = MaxVMEEvents"
    "length (moduleCounters (counters st)) = MaxVMEEvents" "ei < length (eventConfigs st)"
    using assms(1,3) by (simp_all add: wf_processor_def list_all_length)
  define st1 where "st1 = count (\<lambda>c. c\<lparr>eventCounters := (eventCounters c)[ei := eventCounters c ! ei + 1]\<rparr>)
    ((count (\<lambda>c. c\<lparr>totalEvents := totalEvents c + 1\<rparr>) st)\<lparr>eventInfos := (eventInfos st)[ei := set_pointers ?ps ?infos]\<rparr>)"
  have start: "begin_section mem h (length pre) (length (section_words hs evs)) st = Some (Inr st1)"
    using len(5) assms(4) ps by (simp add: begin_section_def Let_def st1_def assms(2) [symmetric])
  define mds where "mds = map (\<lambda>m. (?ps ! m, ?infos ! m, ?cs ! m, evs ! m)) [0..<?k]"
  define slots where "slots = event_slots ei st1"
  have slots: "slots = make_slots (set_pointers ?ps ?infos) ?cs"
    using assms(3) len(3) by (simp add: slots_def event_slots_def st1_def count_def)
  have len_slots: "length slots = MaxVMEModules" using len by (simp add: slots make_slots_def set_pointers_def)
  have nth: "slots ! i = \<lparr>ms_info = (?infos ! i)\<lparr>moduleDataHeader := at_opt ?ps i,
      moduleHeader := map_option (\<lambda>p. p + 1) (at_opt ?ps i)\<rparr>, ms_counter = ?cs ! i, ms_count = 0\<rparr>"
    if "i < MaxVMEModules" for i
    using that len by (simp add: slots make_slots_def set_pointers_def)
  have "take ?k slots = map (slot_at 0) mds"
    using assms(8) len_slots by (intro nth_equalityI) (simp_all add: nth mds_def slot_at_def event_pos_def)
  then have parts: "slots = map (slot_at 0) mds @ drop ?k slots" by (metis append_take_drop_id)
  obtain r rs where tl: "drop ?k slots = r # rs" using assms(8) len_slots by (cases "drop ?k slots") auto
  have rest: "list_all unused (r # rs) \<and> list_all (\<lambda>s. moduleHeader (ms_info s) = None) (r # rs)"
    unfolding tl [symmetric] list_all_length using len_slots nth by (simp add: unused_def)
  have intact: "list_all (module_intact mem ?endp n) mds"
    unfolding mds_def list_all_length assms(11) using assms(9) by (auto intro!: module_intact_section [OF assms(6)])
  obtain mds' where mds: "mds = (?ps ! 0, ?infos ! 0, ?cs ! 0, evs ! 0) # mds'"
    using assms(7) by (simp add: mds_def upt_rec)
  have evs: "map (\<lambda>(start, mi, c, events). events) mds = evs"
    by (intro nth_equalityI) (simp_all add: mds_def)
  have multi: "doMultiEventProcessing st1 ! ei" using assms(5) by (simp add: st1_def)
  obtain calls where loop: "event_loop st1 mem ei ?endp slots = Some (map (slot_at n) mds @ r # rs, calls, 0)"
    and calls: "\<And>rc. listens st1 rc \<Longrightarrow> map (delivery mem) (calls_of rc calls) = concat (map (event_deliveries ei evs) [0..<n])"
    using event_loop_intact [OF intact mds assms(10) multi, of r 0 rs] rest evs parts tl by auto
  define st2 where "st2 = emit calls (add_errors 0 (put_slots ei (map (slot_at n) mds @ r # rs) st1))"
  have "end_marker_missing mem ?endp (map (slot_at n) mds @ r # rs) = Some False"
    using end_markers_intact [OF intact] rest by blast
  moreover have "\<not> unequal_counts (map (slot_at n) mds @ r # rs)"
    using counts_intact [of mds "r # rs" n] rest by (simp add: mds)
  ultimately have run: "processEventSection mem h (length pre) (length (section_words hs evs)) st = Some (add_errors 0 st2)"
    using multi by (simp add: processEventSection_def start loop Let_def st2_def assms(2) [symmetric] slots_def [symmetric])
  have "same_config st st1" "sp_calls st1 = sp_calls st" by (simp_all add: st1_def same_config_def count_def)
  then have "calls_of rc (sp_calls (add_errors 0 st2)) = calls_of rc (sp_calls st) @ calls_of rc calls"
    "listens st rc \<Longrightarrow> listens st1 rc" for rc
    by (simp_all add: st2_def listens_same)
  then have "\<forall>rc. listens st rc \<longrightarrow> (\<exists>cs. calls_of rc (sp_calls (add_errors 0 st2)) = calls_of rc (sp_calls st) @ cs
        \<and> map (delivery mem) cs = concat (map (event_deliveries ei evs) [0..<n]))"
    using calls by blast
  moreover have "buffersWithErrors (counters (add_errors 0 st2)) = buffersWithErrors (counters st)"
    by (simp add: st2_def st1_def add_errors_def count_def emit_def put_slots_def)
  moreover have "moduleCounters (counters (add_errors 0 st2)) ! ei ! m = ?cs ! m + of_nat n" if "m < ?k" for m
    using that assms(3) len(4)
    by (simp add: st2_def st1_def add_errors_def count_def emit_def put_slots_def nth_append mds_def slot_at_def)
  ultimately show ?thesis using run by blast
qed

end
