(* ===== verification/Stream_Single.thy ===== *)
theory Stream_Single
  imports Stream_Split
begin

text \<open>
  Event sections without multi-event processing, what goes wrong at the limits of the arrays and of the memory,
  and concrete runs of the stream processor.
\<close>

section \<open>Single events\<close>

definition module_slot :: "ModuleInfo \<Rightarrow> nat option \<Rightarrow> u32 \<Rightarrow> u32 \<Rightarrow> ModuleSlot" where
  "module_slot mi p c n = \<lparr>ms_info = mi\<lparr>moduleDataHeader := p, moduleHeader := map_option (\<lambda>p. p + 1) p\<rparr>,
     ms_counter = c, ms_count = n\<rparr>"

lemma module_slot_fields [simp]:
  "moduleDataHeader (ms_info (module_slot mi p c n)) = p"
  "moduleHeader (ms_info (module_slot mi p c n)) = map_option (\<lambda>p. p + 1) p"
  "ms_counter (module_slot mi p c n) = c" "ms_count (module_slot mi p c n) = n"
  by (simp_all add: module_slot_def)

text \<open>The slots of a section with modules at the positions \<open>ps\<close>.\<close>

definition slots_of :: "nat list \<Rightarrow> ModuleInfo list \<Rightarrow> u32 list \<Rightarrow> ModuleSlot list" where
  "slots_of ps infos cs = make_slots (set_pointers ps infos) cs"

lemma slots_of_Nil [simp]: "slots_of ps [] cs = []"
  by (simp add: slots_of_def make_slots_def set_pointers_def)

lemma slots_of_Cons [simp]:
  "slots_of ps (mi # infos) (c # cs) = module_slot mi (at_opt ps 0) c 0 # slots_of (tl ps) infos cs"
proof -
  have "map (\<lambda>(i, mi). mi\<lparr>moduleDataHeader := at_opt ps i, moduleHeader := map_option (\<lambda>p. p + 1) (at_opt ps i)\<rparr>)
      (indexed (Suc 0) infos) = set_pointers (tl ps) infos"
    by (intro nth_equalityI) (auto simp: set_pointers_def at_opt_def nth_tl)
  then show ?thesis by (simp add: slots_of_def make_slots_def set_pointers_def module_slot_def)
qed

definition single_visit :: "ListfileConstants \<Rightarrow> u32 list \<Rightarrow> nat \<Rightarrow> Visit" where
  "single_visit lf mem p = (p, Some (p + 1, unat (getModuleDataSize lf (mem ! p))))"

lemma module_loop_single:
  assumes "\<not> doMultiEventProcessing st ! ei" "length infos = length cs" "list_all (\<lambda>p. p < length mem) ps"
  shows "if length ps < length infos
    then \<exists>slots calls. module_loop st withDiag mem ei endp m (slots_of ps infos cs) =
      Some (slots, calls, None, map (single_visit (listfileConstants st) mem) ps)
      \<and> length slots = length infos
    else module_loop st withDiag mem ei endp m (slots_of ps infos cs) = None"
  using assms(2,3)
proof (induction infos cs arbitrary: ps m rule: list_induct2)
  case (Cons mi infos c cs)
  show ?case
  proof (cases ps)
    case Nil
    then show ?thesis using Cons.hyps by (simp add: at_opt_def) (simp add: slots_of_def make_slots_def set_pointers_def)
  next
    case ps: (Cons p ps')
    obtain s' calls where step: "module_step st withDiag mem ei endp m p (module_slot mi (Some p) c 0) =
        Some (s', calls, None, single_visit (listfileConstants st) mem p)"
      using assms(1) Cons.prems ps by (simp add: module_step_def Let_def single_visit_def)
    show ?thesis
    proof (cases "length ps' < length infos")
      case True
      then obtain ss calls' where "module_loop st withDiag mem ei endp (m + 1) (slots_of ps' infos cs) =
        Some (ss, calls', None, map (single_visit (listfileConstants st) mem) ps')" "length ss = length infos"
        using Cons.IH [of ps' "m + 1"] Cons.prems ps by auto
      then show ?thesis using True step ps by simp
    next
      case False
      then show ?thesis using Cons.IH [of ps' "m + 1"] Cons.prems ps step by simp
    qed
  qed
qed simp

lemma single_visits:
  "visit_calls ei m (map (single_visit lf mem) ps) =
     map (\<lambda>(k, p). ModuleData ei k (p + 1) (unat (getModuleDataSize lf (mem ! p)))) (indexed m ps)"
  by (induction ps arbitrary: m) (simp_all add: single_visit_def)

lemma configured_section:
  assumes "wf_processor st" "ei = unat (getEventIndex (listfileConstants st) h)" "ei < MaxVMEEvents" "eventConfigs st ! ei"
    and "collect_modules (listfileConstants st) mem MaxVMEModules (buffer_iterator data words) = Some ps"
  obtains st1 where "begin_section mem h data words st = Some (Inr st1)" "same_config st st1" "sp_calls st1 = sp_calls st"
    "event_slots ei st1 = slots_of ps (eventInfos st ! ei) (moduleCounters (counters st) ! ei)"
proof
  let ?st1 = "count (\<lambda>c. c\<lparr>eventCounters := (eventCounters c)[ei := eventCounters c ! ei + 1]\<rparr>)
    ((count (\<lambda>c. c\<lparr>totalEvents := totalEvents c + 1\<rparr>) st)\<lparr>eventInfos :=
      (eventInfos st)[ei := set_pointers ps (eventInfos st ! ei)]\<rparr>)"
  have len: "length (eventInfos st) = MaxVMEEvents" "ei < length (eventConfigs st)"
    using assms(1,3) by (simp_all add: wf_processor_def)
  show "begin_section mem h data words st = Some (Inr ?st1)"
    using len(2) assms(4,5) by (simp add: begin_section_def Let_def assms(2) [symmetric])
  show "same_config st ?st1" "sp_calls ?st1 = sp_calls st" by (simp_all add: same_config_def count_def)
  show "event_slots ei ?st1 = slots_of ps (eventInfos st ! ei) (moduleCounters (counters st) ! ei)"
    using assms(3) len(1) by (simp add: event_slots_def slots_of_def count_def)
qed

text \<open>C10: without multi-event processing every receiver gets one event with the data of all modules, the data
  starting behind the module header and as long as the header says, whether or not this is inside of the
  section; a section without modules gives no event. If the section has as many modules as the array of
  infos has entries, the loop over the modules runs off the end of the array.\<close>

theorem single_event_section:
  assumes "wf_processor st" "ei = unat (getEventIndex (listfileConstants st) h)" "ei < MaxVMEEvents"
    and "eventConfigs st ! ei" "\<not> doMultiEventProcessing st ! ei" "data + words \<le> length mem"
    and "collect_modules (listfileConstants st) mem MaxVMEModules (buffer_iterator data words) = Some ps"
  shows "((\<exists>st'. processEventSection mem h data words st = Some st') \<longleftrightarrow> length ps < MaxVMEModules)
    \<and> (\<forall>st' r. processEventSection mem h data words st = Some st' \<and> listens st r \<longrightarrow>
        calls_of r (sp_calls st') = calls_of r (sp_calls st) @
          (if ps = [] then [] else BeginEvent ei #
             map (\<lambda>(m, p). ModuleData ei m (p + 1) (unat (getModuleDataSize (listfileConstants st) (mem ! p)))) (indexed 0 ps)
             @ [EndEvent ei]))"
proof -
  obtain st1 where st1: "begin_section mem h data words st = Some (Inr st1)" "same_config st st1"
    "sp_calls st1 = sp_calls st" "event_slots ei st1 = slots_of ps (eventInfos st ! ei) (moduleCounters (counters st) ! ei)"
    using configured_section [OF assms(1-4,7)] .
  have cfg: "\<not> doMultiEventProcessing st1 ! ei" "listfileConstants st1 = listfileConstants st"
    using st1(2) assms(5) by (simp_all add: same_config_def)
  define slots where "slots = slots_of ps (eventInfos st ! ei) (moduleCounters (counters st) ! ei)"
  have len: "length (moduleCounters (counters st) ! ei) = length (eventInfos st ! ei)"
    "length (eventInfos st ! ei) = MaxVMEModules"
    using assms(1,3) by (simp_all add: wf_processor_def list_all_length)
  have "list_all (\<lambda>p. p < length mem) ps"
    using collect_modules_total [of "buffer_iterator data words" mem "listfileConstants st" MaxVMEModules] assms(6,7)
    by (auto simp: buffer_iterator_def list_all_iff)
  note loop = module_loop_single [OF cfg(1) len(1) [symmetric] this,
    where withDiag = True and endp = "data + words" and m = 0, folded slots_def]
  have run: "processEventSection mem h data words st = map_option (\<lambda>(slots, calls, errors).
      emit calls (add_errors errors (put_slots ei slots st1))) (event_loop st1 mem ei (data + words) slots)"
    using cfg(1) unfolding processEventSection_def Let_def assms(2) [symmetric] st1(1) slots_def st1(4) [symmetric]
    by (cases "event_loop st1 mem ei (data + words) (event_slots ei st1)") auto
  obtain mi infos c cs where heads: "eventInfos st ! ei = mi # infos" "moduleCounters (counters st) ! ei = c # cs"
    using len by (cases "eventInfos st ! ei"; cases "moduleCounters (counters st) ! ei") (auto simp: MaxVMEModules_def)
  have hd: "slots \<noteq> []" "moduleDataHeader (ms_info (hd slots)) = at_opt ps 0" by (simp_all add: slots_def heads)
  show ?thesis
  proof (cases ps)
    case Nil
    then have "event_loop st1 mem ei (data + words) slots = Some (slots, [], 0)"
      using hd by (simp add: event_loop.simps [of st1 mem])
    then show ?thesis using Nil st1(3) by (simp add: run MaxVMEModules_def)
  next
    case (Cons p ps')
    show ?thesis
    proof (cases "length ps < MaxVMEModules")
      case True
      then obtain slots' calls where m: "module_loop st1 True mem ei (data + words) 0 slots =
          Some (slots', calls, None, map (single_visit (listfileConstants st) mem) ps)"
        using loop len(2) cfg(2) by auto
      then have "event_loop st1 mem ei (data + words) slots = Some (slots', event_out st1 ei calls, 0)"
        using hd Cons cfg(1) by (simp add: event_loop.simps [of st1 mem] event_out_def)
      moreover have "calls_of r (event_out st1 ei calls) =
          BeginEvent ei # map (\<lambda>(m, p). ModuleData ei m (p + 1) (unat (getModuleDataSize (listfileConstants st) (mem ! p)))) (indexed 0 ps)
             @ [EndEvent ei]" if "listens st r" for r
        using that st1(2) module_loop_calls [OF m, of r]
        by (simp add: event_out_def calls_of_split listens_same single_visits)
      ultimately show ?thesis using True Cons st1(3) by (simp add: run)
    next
      case False
      then have "module_loop st1 True mem ei (data + words) 0 slots = None" using loop len(2) by simp
      then have "event_loop st1 mem ei (data + words) slots = None"
        using hd Cons cfg(1) by (simp add: event_loop.simps [of st1 mem])
      then show ?thesis using False by (simp add: run)
    qed
  qed
qed

section \<open>Concrete runs\<close>

text \<open>A processor with one consumer, and a configuration with a multi-event and a single event of two modules
  each. The module header has the digit 4 on top and its size in the lowest byte.\<close>

definition example_filter :: DataFilter where
  "example_filter = (case make_filter ''0100 XXXX XXXX XXXX XXXX XXXX SSSS SSSS'' (- 1) of Inr f \<Rightarrow> f | Inl _ \<Rightarrow> default_filter)"

definition example_info :: ModuleInfo where
  "example_info = empty_info\<lparr>moduleHeaderFilter := example_filter,
     filterCacheModuleSectionSize := make_cache_entry example_filter CHR ''S''\<rparr>"

definition example_processor :: StreamProcessor where
  "example_processor = \<lparr>counters = empty_counters, isReplay = True, analysis = True, diag = False,
     listfileConstants = listfile_constants 2,
     eventInfos = fill_to MaxVMEEvents (replicate MaxVMEModules empty_info)
       [fill_to MaxVMEModules empty_info [example_info, example_info], fill_to MaxVMEModules empty_info [example_info, example_info]],
     eventConfigs = fill_to MaxVMEEvents False [True, True],
     doMultiEventProcessing = fill_to MaxVMEEvents False [True, False],
     moduleConsumers = [7], bufferIter = None, eventIter = None, sp_calls = [(Consumer 7, BeginRun)]\<rparr>"

definition new_processor :: StreamProcessor where
  "new_processor = \<lparr>counters = empty_counters, isReplay = False, analysis = False, diag = False,
     listfileConstants = listfile_constants 2, eventInfos = replicate MaxVMEEvents (replicate MaxVMEModules empty_info),
     eventConfigs = replicate MaxVMEEvents False, doMultiEventProcessing = replicate MaxVMEEvents False,
     moduleConsumers = [7], bufferIter = None, eventIter = None, sp_calls = []\<rparr>"

definition example_module :: ModuleSetup where
  "example_module = \<lparr>settings_filter = ''0100 XXXX XXXX XXXX XXXX XXXX SSSS SSSS'', meta_filter = [], enabled = True\<rparr>"

lemma example_filter_made: "make_filter ''0100 XXXX XXXX XXXX XXXX XXXX SSSS SSSS'' (- 1) = Inr example_filter"
proof -
  have "\<exists>f. make_filter ''0100 XXXX XXXX XXXX XXXX XXXX SSSS SSSS'' (- 1) = Inr f"
    unfolding make_filter_def Let_def by (simp add: FilterSize_def split: prod.splits)
  then show ?thesis by (auto simp: example_filter_def)
qed

lemma example_begin_run:
  "beginRun True [\<lparr>multi_setting = True, modules = [example_module, example_module]\<rparr>,
     \<lparr>multi_setting = False, modules = [example_module, example_module]\<rparr>] 2 new_processor = Some (Inr example_processor)"
  by (simp add: beginRun_def example_module_def example_filter_made Let_def new_processor_def example_processor_def
      example_info_def MaxVMEEvents_def MaxVMEModules_def emit_def to_consumers_def to_diag_def bind_err_def)

lemma example_wf: "wf_processor example_processor"
  by (simp add: wf_processor_def example_processor_def fill_to_def empty_counters_def list_all_iff
      MaxVMEEvents_def MaxVMEModules_def)

definition example_headers :: "u32 list" where
  "example_headers = [0x01000004, 0x02000005]"

definition example_events :: "u32 list list list" where
  "example_events = [[[0x40000001, 7], [0x40000000]], [[0x40000000], [0x40000002, 5, 6]]]"

definition multi_header :: u32 where "multi_header = 0x2000000C"
definition single_header :: u32 where "single_header = 0x2040000C"

lemma example_fits: "list_all (list_all (event_fits example_info)) example_events"
  by code_simp

lemma example_end: "\<not> matches (moduleHeaderFilter example_info) EndMarker (- 1)"
  by code_simp

lemma example_infos: "eventInfos example_processor ! 0 ! 0 = example_info" "eventInfos example_processor ! 0 ! 1 = example_info"
  by (simp_all add: example_processor_def fill_to_def)

lemma example_fields [simp]:
  "listfileConstants example_processor = listfile_constants 2" "analysis example_processor"
  "bufferIter example_processor = None" "isReplay example_processor" "sp_calls example_processor = [(Consumer 7, BeginRun)]"
  "eventConfigs example_processor ! 0" "eventConfigs example_processor ! Suc 0" "moduleConsumers example_processor = [7]"
  "doMultiEventProcessing example_processor ! 0" "\<not> doMultiEventProcessing example_processor ! Suc 0"
  by (simp_all add: example_processor_def fill_to_def)

text \<open>The words of a buffer that holds the section twice, once for each event.\<close>

definition example_words :: "u32 list" where
  "example_words = multi_header # section_words example_headers example_events
     @ single_header # section_words example_headers example_events"

definition buffer_of :: "u32 list \<Rightarrow> u32 list \<Rightarrow> DataBuffer" where
  "buffer_of ws slack = \<lparr>db_data = words_bytes (ws @ slack), db_size = 4 * length ws, db_used = 4 * length ws,
     db_id = 0, db_tag = 0\<rparr>"

lemma buffer_of_words [simp]: "buffer_words (buffer_of ws slack) = ws @ slack" "db_used (buffer_of ws slack) = 4 * length ws"
  by (simp_all add: buffer_words_def buffer_of_def del: words_bytes_simps)

lemma example_sections:
  "stream_sections (listfile_constants 2) example_words =
     ([(multi_header, section_words example_headers example_events),
       (single_header, section_words example_headers example_events)], True)"
  by code_simp

lemma example_sections_fit:
  "list_all (section_fits example_processor) [(multi_header, section_words example_headers example_events),
     (single_header, section_words example_headers example_events)]"
proof -
  have "module_count (listfile_constants 2) (section_words example_headers example_events) = 2" by code_simp
  then show ?thesis by (simp add: section_fits_def MaxVMEModules_def)
qed

theorem process_buffer_total_witness:
  "\<exists>st'. processDataBuffer (buffer_of example_words [0, 0]) example_processor = Some st' \<and> wf_processor st'
    \<and> totalEvents (counters st') = 2 \<and> bytesProcessed (counters st') = 104 \<and> buffersProcessed (counters st') = 1"
proof -
  have counts: "event_count (listfile_constants 2) [(multi_header, section_words example_headers example_events),
     (single_header, section_words example_headers example_events)] = 2"
    "byte_count [(multi_header, section_words example_headers example_events),
     (single_header, section_words example_headers example_events)] = 104"
    by code_simp+
  have len: "length example_words = 26" by code_simp
  have zero: "totalEvents (counters example_processor) = 0" "bytesProcessed (counters example_processor) = 0"
    "buffersProcessed (counters example_processor) = 0"
    by (simp_all add: example_processor_def empty_counters_def)
  have "\<exists>st'. processDataBuffer (buffer_of example_words [0, 0]) example_processor = Some st' \<and> wf_processor st'
    \<and> totalEvents (counters st') = totalEvents (counters example_processor) + of_nat (event_count (listfileConstants example_processor) [(multi_header, section_words example_headers example_events),
     (single_header, section_words example_headers example_events)])
    \<and> bytesProcessed (counters st') = bytesProcessed (counters example_processor) + of_nat (byte_count [(multi_header, section_words example_headers example_events),
     (single_header, section_words example_headers example_events)])
    \<and> buffersProcessed (counters st') = buffersProcessed (counters example_processor) + of_bool True"
    by (rule process_buffer_total [OF example_wf]) (simp_all add: len example_sections example_sections_fit del: list.pred_inject)
  then show ?thesis by (simp add: counts zero)
qed

theorem receivers_agree_witness:
  "\<exists>st' cs. processDataBuffer (buffer_of [0x60000000] []) example_processor = Some st' \<and> bracketed None cs
    \<and> calls_of Analysis (sp_calls st') = [] @ cs \<and> calls_of (Consumer 7) (sp_calls st') = [BeginRun] @ cs"
proof -
  have tick: "getSectionType (listfile_constants 2) 0x60000000 = 3" "getSectionSize (listfile_constants 2) 0x60000000 = 0"
    by code_simp+
  then obtain st' where st': "processDataBuffer (buffer_of [0x60000000] []) example_processor = Some st'"
    by (simp add: processDataBuffer_def process_sections.simps process_section_def buffer_iterator_def longwordsLeft_def
        extractU32_def peekU32_def skip_def Let_def)
  have "listens example_processor Analysis" "listens example_processor (Consumer 7)" by (simp_all add: listens_def)
  with receivers_agree [OF st'] st' show ?thesis by fastforce
qed

theorem section_events_in_order_witness:
  "\<exists>st' cs. processEventSection ([1, 2] @ section_words example_headers example_events @ [3]) multi_header (length [1 :: u32, 2])
      (length (section_words example_headers example_events)) example_processor = Some st'
    \<and> calls_of Analysis (sp_calls st') = [] @ cs
    \<and> map (delivery ([1, 2] @ section_words example_headers example_events @ [3])) cs =
        [Begins 0, Data 0 0 [0x40000001, 7], Data 0 1 [0x40000000], Ends 0,
         Begins 0, Data 0 0 [0x40000000], Data 0 1 [0x40000002, 5, 6], Ends 0]
    \<and> buffersWithErrors (counters st') = buffersWithErrors (counters example_processor)"
proof -
  let ?mem = "[1, 2] @ section_words example_headers example_events @ [3]"
  have sizes: "list_all2 (\<lambda>h events. h \<noteq> EndMarker \<and>
      unat (getModuleDataSize (listfile_constants 2) h) = length (concat events) + 1 \<and> length events = 2)
      example_headers example_events"
    by code_simp
  have infos: "eventInfos example_processor ! 0 ! m = example_info" if "m < 2" for m
    using that example_infos by (auto simp: less_2_cases_iff)
  have len: "length example_headers = 2" "length example_events = 2" by (simp_all add: example_headers_def example_events_def)
  have modules: "\<forall>m < length example_events. example_headers ! m \<noteq> EndMarker
      \<and> unat (getModuleDataSize (listfileConstants example_processor) (example_headers ! m)) = length (concat (example_events ! m)) + 1
      \<and> length (example_events ! m) = 2 \<and> list_all (event_fits (eventInfos example_processor ! 0 ! m)) (example_events ! m)"
    using sizes example_fits len by (auto simp: list_all2_conv_all_nth list_all_length infos)
  have ei: "0 = unat (getEventIndex (listfileConstants example_processor) multi_header)" by (simp, code_simp)
  obtain st' where "processEventSection ?mem multi_header (length [1 :: u32, 2]) (length (section_words example_headers example_events)) example_processor = Some st'"
    "buffersWithErrors (counters st') = buffersWithErrors (counters example_processor)"
    "\<forall>r. listens example_processor r \<longrightarrow> (\<exists>cs. calls_of r (sp_calls st') = calls_of r (sp_calls example_processor) @ cs
        \<and> map (delivery ?mem) cs = concat (map (event_deliveries 0 example_events) [0..<2]))"
    using section_events_in_order [OF example_wf ei _ _ _ _ _ _ modules, where mem = ?mem and pre = "[1, 2]" and post = "[3]"]
      len example_end example_infos by (auto simp: MaxVMEEvents_def MaxVMEModules_def)
  moreover have "concat (map (event_deliveries 0 example_events) [0..<2]) =
        [Begins 0, Data 0 0 [0x40000001, 7], Data 0 1 [0x40000000], Ends 0,
         Begins 0, Data 0 0 [0x40000000], Data 0 1 [0x40000002, 5, 6], Ends 0]"
    by code_simp
  moreover have "listens example_processor Analysis" by (simp add: listens_def)
  ultimately show ?thesis by fastforce
qed

theorem single_event_section_witness:
  "\<exists>st'. processEventSection (section_words example_headers example_events) single_header 0 12 example_processor = Some st'
    \<and> calls_of Analysis (sp_calls st') = [BeginEvent 1, ModuleData 1 0 1 4, ModuleData 1 1 6 5, EndEvent 1]"
proof -
  let ?mem = "section_words example_headers example_events"
  have ei: "1 = unat (getEventIndex (listfileConstants example_processor) single_header)" by (simp, code_simp)
  have ps: "collect_modules (listfile_constants 2) ?mem MaxVMEModules (buffer_iterator 0 12) = Some [0, 5]"
    by code_simp
  have len: "length ?mem = 12" by code_simp
  have sizes: "unat (getModuleDataSize (listfile_constants 2) (?mem ! 0)) = 4" "unat (getModuleDataSize (listfile_constants 2) (?mem ! 5)) = 5"
    by code_simp+
  have "listens example_processor Analysis" by (simp add: listens_def)
  then show ?thesis
    using single_event_section [OF example_wf ei, of 0 12 ?mem "[0, 5]"] ps len sizes
    by (auto simp: MaxVMEEvents_def MaxVMEModules_def)
qed

section \<open>Reading behind a section\<close>

text \<open>A multi-event section that consists of a module header only: the header of the first event is read behind
  the section, which is undefined if the memory ends there.\<close>

lemma header_behind_section:
  assumes "wf_processor st" "ei = unat (getEventIndex (listfileConstants st) h)" "ei < MaxVMEEvents"
    and "eventConfigs st ! ei" "doMultiEventProcessing st ! ei" "w \<noteq> EndMarker"
  shows "processEventSection (pre @ [w]) h (length pre) 1 st = None"
proof -
  let ?mem = "pre @ [w]"
  have ps: "collect_modules (listfileConstants st) ?mem MaxVMEModules (buffer_iterator (length pre) 1) = Some [length pre]"
    using assms(6) by (simp add: MaxVMEModules_def eval_nat_numeral buffer_iterator_def atEnd_def extractU32_def peekU32_def skip_def)
  obtain st1 where st1: "begin_section ?mem h (length pre) 1 st = Some (Inr st1)" "same_config st st1"
    "event_slots ei st1 = slots_of [length pre] (eventInfos st ! ei) (moduleCounters (counters st) ! ei)"
    using configured_section [OF assms(1-4) ps] by metis
  have len: "length (moduleCounters (counters st) ! ei) = MaxVMEModules" "length (eventInfos st ! ei) = MaxVMEModules"
    using assms(1,3) by (simp_all add: wf_processor_def list_all_length)
  then obtain mi infos c cs where heads: "eventInfos st ! ei = mi # infos" "moduleCounters (counters st) ! ei = c # cs"
    by (cases "eventInfos st ! ei"; cases "moduleCounters (counters st) ! ei") (auto simp: MaxVMEModules_def)
  have "event_loop st1 ?mem ei (length pre + 1) (event_slots ei st1) = None"
    using assms(5) st1(2) by (simp add: st1(3) heads event_loop.simps first_matches_def same_config_def)
  then show ?thesis
    unfolding processEventSection_def Let_def assms(2) [symmetric] st1(1) by (simp del: One_nat_def)
qed

end
