(* ===== verification/Stream_Stepping.thy ===== *)
theory Stream_Stepping
  imports Stream_Single
begin

text \<open>
  Single stepping through a buffer: \<^verbatim>\<open>singleStepInitState\<close>, \<^verbatim>\<open>singleStepNextStep\<close> and the functions they use in
  \<^verbatim>\<open>src/src/mvme_stream_processor.cc\<close>. Without multi-event processing the steps do what the processing of the
  whole buffer does. With it they do not: the theorems say where.
\<close>

section \<open>Steps\<close>

text \<open>The offsets of the code start at the beginning of the buffer, as the positions of the model do.\<close>

record ProcessingState =
  ps_buffer :: DataBuffer
  lastSectionHeaderOffset :: int
  lastModuleDataSectionHeaderOffsets :: "int list"
  lastModuleDataBeginOffsets :: "int list"
  lastModuleDataEndOffsets :: "int list"
  stepResult :: StepResult

definition resetModuleDataOffsets :: "ProcessingState \<Rightarrow> ProcessingState" where
  "resetModuleDataOffsets ps = ps\<lparr>lastModuleDataSectionHeaderOffsets := replicate MaxVMEModules (- 1),
     lastModuleDataBeginOffsets := replicate MaxVMEModules (- 1), lastModuleDataEndOffsets := replicate MaxVMEModules (- 1)\<rparr>"

definition new_processing_state :: "DataBuffer \<Rightarrow> ProcessingState" where
  "new_processing_state buffer = resetModuleDataOffsets
     \<lparr>ps_buffer = buffer, lastSectionHeaderOffset = - 1, lastModuleDataSectionHeaderOffsets = [],
      lastModuleDataBeginOffsets = [], lastModuleDataEndOffsets = [], stepResult = StepResult_Unset\<rparr>"

text \<open>An iterator counts as set if its pointer is not null; a buffer without allocated memory has a null pointer.\<close>

definition singleStepInitState :: "DataBuffer \<Rightarrow> StreamProcessor \<Rightarrow> (ProcessingState \<times> StreamProcessor) option" where
  "singleStepInitState buffer st =
     (if bufferIter st \<noteq> None then None
      else Some (new_processing_state buffer,
        st\<lparr>bufferIter := (if db_data buffer = [] then None else Some (buffer_iterator 0 (db_used buffer div 4))),
           eventIter := None\<rparr>))"

definition initEventSectionIteration ::
  "u32 \<Rightarrow> nat \<Rightarrow> nat \<Rightarrow> ProcessingState \<times> StreamProcessor \<Rightarrow> (ProcessingState \<times> StreamProcessor) option" where
  "initEventSectionIteration sectionHeader data words = (\<lambda>(ps, st).
     if eventIter st \<noteq> None then None
     else map_option (\<lambda>r. case r of
              Inl st \<Rightarrow> (ps\<lparr>stepResult := StepResult_Error\<rparr>, st)
            | Inr st \<Rightarrow> ((resetModuleDataOffsets ps)\<lparr>stepResult := StepResult_Unset\<rparr>,
                        st\<lparr>eventIter := Some (buffer_iterator data words)\<rparr>))
            (begin_section (buffer_words (ps_buffer ps)) sectionHeader data words st))"

fun record_visits :: "nat \<Rightarrow> Visit list \<Rightarrow> ProcessingState \<Rightarrow> ProcessingState" where
  "record_visits m [] ps = ps"
| "record_visits m ((dh, data) # vs) ps =
     (let ps = ps\<lparr>lastModuleDataSectionHeaderOffsets := (lastModuleDataSectionHeaderOffsets ps)[m := int dh]\<rparr>;
          ps = (case data of None \<Rightarrow> ps
                | Some (p, n) \<Rightarrow> ps\<lparr>lastModuleDataBeginOffsets := (lastModuleDataBeginOffsets ps)[m := int p],
                                    lastModuleDataEndOffsets := (lastModuleDataEndOffsets ps)[m := int (p + n)]\<rparr>)
      in record_visits (m + 1) vs ps)"

text \<open>One round of the loop over the events. The results that the loop over the modules sets are overwritten at
  its end; the error counter stays.\<close>

definition step_event ::
  "u32 list \<Rightarrow> nat \<Rightarrow> nat \<Rightarrow> ProcessingState \<times> StreamProcessor \<Rightarrow> (ProcessingState \<times> StreamProcessor) option" where
  "step_event mem ei ptrToLastWord = (\<lambda>(ps, st).
     (let slots = event_slots ei st; multi = doMultiEventProcessing st ! ei in
      if slots = [] then None
      else if moduleDataHeader (ms_info (hd slots)) = None then Some (ps, st)
      else case (if multi then first_matches mem slots else Some True) of
             None \<Rightarrow> None
           | Some header \<Rightarrow>
               if \<not> header then Some (ps\<lparr>stepResult := StepResult_EventComplete\<rparr>, st)
               else Option.bind (module_loop st False mem ei ptrToLastWord 0 slots) (\<lambda>(slots, calls, b, visits).
                 Option.bind (if multi then first_matches mem slots else Some False) (\<lambda>again.
                   let st = emit (to_analysis st (BeginEvent ei) @ to_consumers st (BeginEvent ei) @ calls
                         @ to_analysis st (EndEvent ei) @ to_consumers st (EndEvent ei))
                         (add_errors (of_bool (b = Some StepResult_Error)) (put_slots ei slots st));
                       ps = record_visits 0 visits ps
                   in Some (if again then (ps\<lparr>stepResult := StepResult_EventHasMore\<rparr>, st)
                            else (ps\<lparr>stepResult := StepResult_EventComplete\<rparr>, st\<lparr>eventIter := None\<rparr>))))))"

definition stepNextEvent :: "ProcessingState \<times> StreamProcessor \<Rightarrow> (ProcessingState \<times> StreamProcessor) option" where
  "stepNextEvent = (\<lambda>(ps, st).
     (case eventIter st of
        None \<Rightarrow> None
      | Some it \<Rightarrow>
          (let mem = buffer_words (ps_buffer ps); off = lastSectionHeaderOffset ps; lf = listfileConstants st in
           if off < 0 \<or> int (db_size (ps_buffer ps) div 4) \<le> off then None
           else Option.bind (at_opt mem (nat off)) (\<lambda>sectionHeader.
             let ei = unat (getEventIndex lf sectionHeader) in
             if getSectionType lf sectionHeader \<noteq> section_code SectionType_Event \<or> length (eventInfos st) \<le> ei then None
             else step_event mem ei (it_end it) (ps, st)))))"

definition count_section :: "nat \<Rightarrow> StreamProcessor \<Rightarrow> StreamProcessor" where
  "count_section sectionSize = count (\<lambda>c. c\<lparr>bytesProcessed := bytesProcessed c + of_nat (sectionSize * 4 + 4)\<rparr>)"

definition stop_stepping :: "StepResult \<Rightarrow> ProcessingState \<times> StreamProcessor \<Rightarrow> ProcessingState \<times> StreamProcessor" where
  "stop_stepping r = (\<lambda>(ps, st). ((resetModuleDataOffsets ps)\<lparr>stepResult := r\<rparr>, st\<lparr>bufferIter := None, eventIter := None\<rparr>))"

text \<open>The step at a new section: \<open>iter\<close> is the iterator of the buffer. It is stored in the state.\<close>

definition step_section ::
  "BufferIterator \<Rightarrow> ProcessingState \<times> StreamProcessor \<Rightarrow> (ProcessingState \<times> StreamProcessor) option" where
  "step_section iter = (\<lambda>(ps, st).
     Option.bind (extractU32 (buffer_words (ps_buffer ps)) iter) (\<lambda>(sectionHeader, iter).
       (let lf = listfileConstants st;
            sectionType = getSectionType lf sectionHeader;
            sectionSize = unat (getSectionSize lf sectionHeader);
            ps = ps\<lparr>lastSectionHeaderOffset := int (it_pos iter) - 1\<rparr>;
            st = st\<lparr>bufferIter := Some iter\<rparr>;
            skipped = (\<lambda>st. st\<lparr>bufferIter := Some (skip sectionSize iter)\<rparr>)
        in if longwordsLeft iter < sectionSize
           then Some (stop_stepping StepResult_Error (ps, end_of_buffer st))
           else if sectionType = section_code SectionType_Event
           then Option.bind (initEventSectionIteration sectionHeader (it_pos iter) sectionSize (ps, st)) (\<lambda>(ps, st).
                  if stepResult ps = StepResult_Error then Some (ps, st)
                  else Option.bind (stepNextEvent (ps, st)) (\<lambda>(ps, st).
                    if stepResult ps = StepResult_EventComplete
                    then Some (ps, count_section sectionSize ((skipped st)\<lparr>eventIter := None\<rparr>))
                    else Some (ps, st)))
           else if sectionType = section_code SectionType_Timetick
           then (if \<not> isReplay st \<or> sectionSize \<noteq> 0 \<or> \<not> analysis st then None
                 else Some (ps, count_section sectionSize (emit (to_analysis st Timetick @ to_consumers st Timetick) st)))
           else Some (ps, count_section sectionSize (skipped st)))))"

definition singleStepNextStep :: "ProcessingState \<times> StreamProcessor \<Rightarrow> (ProcessingState \<times> StreamProcessor) option" where
  "singleStepNextStep = (\<lambda>(ps, st).
     (case bufferIter st of
        None \<Rightarrow> None
      | Some iter \<Rightarrow>
          if eventIter st \<noteq> None then stepNextEvent (ps, st)
          else (let ps = (resetModuleDataOffsets ps)\<lparr>stepResult := StepResult_Unset\<rparr> in
                if longwordsLeft iter \<noteq> 0 then step_section iter (ps, st)
                else Some (stop_stepping StepResult_AtEnd
                       (ps, count (\<lambda>c. c\<lparr>buffersProcessed := buffersProcessed c + 1\<rparr>) st)))))"

fun single_steps :: "nat \<Rightarrow> ProcessingState \<times> StreamProcessor \<Rightarrow> (ProcessingState \<times> StreamProcessor) option" where
  "single_steps 0 s = Some s"
| "single_steps (Suc n) s = Option.bind (singleStepNextStep s) (single_steps n)"

section \<open>Agreement with full processing\<close>

text \<open>States that differ in the position of the stepping and the order of calls to different receivers only.\<close>

definition same_run :: "StreamProcessor \<Rightarrow> StreamProcessor \<Rightarrow> bool" where
  "same_run st st' \<longleftrightarrow> counters st' = counters st \<and> eventInfos st' = eventInfos st \<and> analysis st' = analysis st
     \<and> diag st' = diag st \<and> isReplay st' = isReplay st \<and> moduleConsumers st' = moduleConsumers st
     \<and> listfileConstants st' = listfileConstants st \<and> eventConfigs st' = eventConfigs st
     \<and> doMultiEventProcessing st' = doMultiEventProcessing st
     \<and> (\<forall>r. calls_of r (sp_calls st') = calls_of r (sp_calls st))"

lemma same_run_refl [simp]: "same_run st st"
  by (simp add: same_run_def)

lemma same_run_trans: "same_run st st' \<Longrightarrow> same_run st' st'' \<Longrightarrow> same_run st st''"
  by (simp add: same_run_def)

lemma to_receivers_run:
  assumes "same_run st st'"
  shows "to_analysis st' c = to_analysis st c" "to_consumers st' c = to_consumers st c" "to_diag st' c = to_diag st c"
  using assms by (simp_all add: same_run_def to_analysis_def to_consumers_def to_diag_def)

lemma module_step_run:
  assumes "same_run st st'" "\<not> diag st"
  shows "module_step st' False mem ei endp m dh s = module_step st True mem ei endp m dh s"
proof -
  have no_diag: "to_diag st c = []" for c using assms(2) by (simp add: to_diag_def)
  have cfg: "doMultiEventProcessing st' = doMultiEventProcessing st" "listfileConstants st' = listfileConstants st"
    using assms(1) by (simp_all add: same_run_def)
  show ?thesis unfolding module_step_def to_receivers_run [OF assms(1)] cfg no_diag Let_def if_True if_False if_cancel ..
qed

lemma module_loop_run:
  assumes "same_run st st'" "\<not> diag st"
  shows "module_loop st' False mem ei endp m slots = module_loop st True mem ei endp m slots"
  by (induction slots arbitrary: m) (simp_all add: module_step_run [OF assms] split: option.split)

lemma event_slots_run: "same_run st st' \<Longrightarrow> event_slots ei st' = event_slots ei st"
  by (simp add: same_run_def event_slots_def)

lemma begin_section_run:
  assumes "same_run st0 st1" "begin_section mem h data words st0 = Some (Inr s0)"
  obtains s1 where "begin_section mem h data words st1 = Some (Inr s1)" "same_run s0 s1"
    "bufferIter s1 = bufferIter st1" "eventIter s1 = eventIter st1"
  using assms by (auto simp: begin_section_def Let_def same_run_def count_def split: if_splits)

lemma same_run_simps:
  "same_run s0 s1 \<Longrightarrow> same_run (count f s0) (count f s1)"
  "same_run s0 s1 \<Longrightarrow> same_run (add_errors n s0) (add_errors n s1)"
  "same_run s0 s1 \<Longrightarrow> same_run (put_slots ei slots s0) (put_slots ei slots s1)"
  "same_run s0 s1 \<Longrightarrow> (\<And>r. calls_of r cs = calls_of r ds) \<Longrightarrow> same_run (emit cs s0) (emit ds s1)"
  "same_run s0 s1 \<Longrightarrow> same_run s0 (s1\<lparr>bufferIter := b\<rparr>)"
  "same_run s0 s1 \<Longrightarrow> same_run s0 (s1\<lparr>eventIter := e\<rparr>)"
  by (simp_all add: same_run_def count_def add_errors_def put_slots_def emit_def)

lemma record_visits_fields [simp]:
  "ps_buffer (record_visits m vs ps) = ps_buffer ps" "stepResult (record_visits m vs ps) = stepResult ps"
  "lastSectionHeaderOffset (record_visits m vs ps) = lastSectionHeaderOffset ps"
  by (induction m vs ps rule: record_visits.induct) (auto simp: Let_def split: option.splits)

lemma resetModuleDataOffsets_fields [simp]:
  "ps_buffer (resetModuleDataOffsets ps) = ps_buffer ps"
  "lastSectionHeaderOffset (resetModuleDataOffsets ps) = lastSectionHeaderOffset ps"
  by (simp_all add: resetModuleDataOffsets_def)

text \<open>The step of a single event does what full processing does.\<close>

lemma step_event_single:
  assumes "same_run s0 s1" "\<not> diag s0" "\<not> doMultiEventProcessing s0 ! ei"
    and "event_loop s0 mem ei endp (event_slots ei s0) = Some (slots, calls, errors)"
    and "moduleDataHeader (ms_info (hd (event_slots ei s0))) \<noteq> None"
  obtains ps' s1' where "step_event mem ei endp (ps, s1) = Some (ps', s1')"
    "same_run (emit calls (add_errors errors (put_slots ei slots s0))) s1'"
    "stepResult ps' = StepResult_EventComplete" "ps_buffer ps' = ps_buffer ps" "eventIter s1' = None"
    "bufferIter s1' = bufferIter s1"
proof -
  have ne: "event_slots ei s0 \<noteq> []" using assms(4) by (auto simp: event_loop.simps [of s0 mem])
  obtain dh where dh: "moduleDataHeader (ms_info (hd (event_slots ei s0))) = Some dh" using assms(5) by auto
  obtain calls1 b visits where loop: "module_loop s0 True mem ei endp 0 (event_slots ei s0) = Some (slots, calls1, b, visits)"
    and out: "calls = event_out s0 ei calls1" "errors = of_bool (b = Some StepResult_Error)"
    using assms(3,4) ne dh by (auto simp: event_loop.simps [of s0 mem] event_out_def split: option.splits)
  have multi: "\<not> doMultiEventProcessing s1 ! ei" using assms(1,3) by (simp add: same_run_def)
  have "step_event mem ei endp (ps, s1) = Some ((record_visits 0 visits ps)\<lparr>stepResult := StepResult_EventComplete\<rparr>,
      (emit calls (add_errors errors (put_slots ei slots s1)))\<lparr>eventIter := None\<rparr>)"
    using ne dh multi loop
    by (simp add: step_event_def Let_def event_slots_run [OF assms(1)] module_loop_run [OF assms(1,2)]
        to_receivers_run [OF assms(1)] out event_out_def)
  then show ?thesis
  proof (rule that)
    show "same_run (emit calls (add_errors errors (put_slots ei slots s0)))
        ((emit calls (add_errors errors (put_slots ei slots s1)))\<lparr>eventIter := None\<rparr>)"
      by (intro same_run_simps assms(1) refl)
  qed (simp_all add: emit_def add_errors_def count_def put_slots_def)
qed

text \<open>The sections that single stepping handles as full processing does.\<close>

definition steppable :: "StreamProcessor \<Rightarrow> u32 \<times> u32 list \<Rightarrow> bool" where
  "steppable st = (\<lambda>(h, ws).
     (is_section (listfileConstants st) SectionType_Timetick h \<longrightarrow> isReplay st \<and> ws = [])
     \<and> (is_section (listfileConstants st) SectionType_Event h \<longrightarrow>
          (let ei = unat (getEventIndex (listfileConstants st) h)
           in ei < MaxVMEEvents \<and> eventConfigs st ! ei \<and> \<not> doMultiEventProcessing st ! ei)
          \<and> 0 < module_count (listfileConstants st) ws \<and> module_count (listfileConstants st) ws < MaxVMEModules))"

lemma steppable_fits: "steppable st s \<Longrightarrow> section_fits st s"
  by (auto simp: steppable_def section_fits_def split: prod.splits)

lemma slots_first:
  assumes "ps \<noteq> []" "infos \<noteq> []" "cs \<noteq> []"
  shows "moduleDataHeader (ms_info (hd (slots_of ps infos cs))) \<noteq> None"
  using assms by (cases infos; cases cs) (simp_all add: at_opt_def)

lemma step_section_run:
  assumes "wf_processor st0" "analysis st0" "\<not> diag st0" "same_run st0 st1"
    and "bufferIter st1 = Some it" "eventIter st1 = None" "it_pos it < it_end it"
    and "it_end it + 1 < length mem" "it_end it \<le> db_size (ps_buffer ps) div 4" "buffer_words (ps_buffer ps) = mem"
    and "process_section mem it st0 = Some (Inr (st0', it'))"
    and "unat (getSectionSize (listfileConstants st0) (mem ! it_pos it)) \<le> it_end it - (it_pos it + 1)"
    and "steppable st0 (mem ! it_pos it, take (unat (getSectionSize (listfileConstants st0) (mem ! it_pos it)))
      (drop (it_pos it + 1) mem))" "stepResult ps = StepResult_Unset"
  obtains ps' st1' where "step_section it (ps, st1) = Some (ps', st1')" "same_run st0' st1'"
    "bufferIter st1' = Some it'" "eventIter st1' = None" "ps_buffer ps' = ps_buffer ps"
proof -
  let ?h = "mem ! it_pos it" and ?lf = "listfileConstants st0"
  let ?n = "unat (getSectionSize ?lf ?h)"
  let ?it = "it\<lparr>it_pos := it_pos it + 1\<rparr>"
  let ?ps = "ps\<lparr>lastSectionHeaderOffset := int (it_pos it)\<rparr>" and ?st1 = "st1\<lparr>bufferIter := Some ?it\<rparr>"
  have lf: "listfileConstants st1 = ?lf" "analysis st1" "isReplay st1 = isReplay st0"
    using assms(2,4) by (simp_all add: same_run_def)
  have ex: "extractU32 mem it = Some (?h, ?it)" using assms(7,8) by (simp add: extractU32_def peekU32_def)
  have left: "\<not> longwordsLeft ?it < ?n" using assms(12) by (simp add: longwordsLeft_def)
  have skip: "skip ?n ?it = it\<lparr>it_pos := it_pos it + 1 + ?n\<rparr>" using assms(7,12) by (simp add: skip_def)
  have len: "length (take ?n (drop (it_pos it + 1) mem)) = ?n" using assms(8,12) by simp
  consider (tick) "is_section ?lf SectionType_Timetick ?h" | (event) "is_section ?lf SectionType_Event ?h"
    | (other) "\<not> is_section ?lf SectionType_Timetick ?h" "\<not> is_section ?lf SectionType_Event ?h" by blast
  then show ?thesis
  proof cases
    case tick
    then have t: "isReplay st0" "?n = 0" using assms(13) len by (auto simp: steppable_def)
    have it': "it' = ?it" and st0': "st0' = count_section 0 (emit (to_consumers st0 Timetick @ to_analysis st0 Timetick) st0)"
      using assms(2,11) tick t ex left skip
      by (auto simp: process_section_def Let_def is_section_def count_section_def skip_def)
    have "step_section it (ps, st1) = Some (?ps, count_section 0 (emit (to_analysis ?st1 Timetick @ to_consumers ?st1 Timetick) ?st1))"
      using tick t lf ex left by (simp add: step_section_def assms(10) Let_def is_section_def)
    moreover have "same_run st0' (count_section 0 (emit (to_analysis ?st1 Timetick @ to_consumers ?st1 Timetick) ?st1))"
    proof -
      have run: "same_run st0 ?st1" using assms(4) by (rule same_run_simps)
      have "calls_of r (to_consumers st0 c @ to_analysis st0 c) = calls_of r (to_analysis st0 c @ to_consumers st0 c)" for r c
        by (cases r) simp_all
      then show ?thesis unfolding st0' count_section_def to_receivers_run [OF run]
        by (intro same_run_simps(1,4) run)
    qed
    ultimately show ?thesis using that assms(6) it' by (simp add: count_section_def count_def emit_def)
  next
    case event
    let ?ei = "unat (getEventIndex ?lf ?h)"
    have ev: "?ei < MaxVMEEvents" "eventConfigs st0 ! ?ei" "\<not> doMultiEventProcessing st0 ! ?ei"
      "0 < module_count ?lf (take ?n (drop (it_pos it + 1) mem))"
      using assms(13) event by (auto simp: steppable_def Let_def)
    have not_tick: "\<not> is_section ?lf SectionType_Timetick ?h" using event section_types_differ by blast
    obtain s where s: "processEventSection mem ?h (it_pos it + 1) ?n st0 = Some s" "st0' = count_section ?n s"
      "it' = it\<lparr>it_pos := it_pos it + 1 + ?n\<rparr>"
      using assms(11) event not_tick ex left skip
      by (auto simp: process_section_def Let_def is_section_def count_section_def)
    have bound: "it_pos it + 1 + ?n \<le> length mem" using assms(7,8,12) by linarith
    obtain mps where mps: "collect_modules ?lf mem MaxVMEModules (buffer_iterator (it_pos it + 1) ?n) = Some mps"
      "length mps = min MaxVMEModules (module_count ?lf (take ?n (drop (it_pos it + 1) mem)))"
      using collect_modules_total [of "buffer_iterator (it_pos it + 1) ?n" mem ?lf MaxVMEModules] bound
      by (auto simp: buffer_iterator_def)
    then have "mps \<noteq> []" using ev(4) by (auto simp: MaxVMEModules_def min_def split: if_splits)
    obtain s0 where s0: "begin_section mem ?h (it_pos it + 1) ?n st0 = Some (Inr s0)" "same_config st0 s0"
      "event_slots ?ei s0 = slots_of mps (eventInfos st0 ! ?ei) (moduleCounters (counters st0) ! ?ei)"
      using configured_section [OF assms(1) refl ev(1,2) mps(1)] by metis
    have infos: "length (eventInfos st0 ! ?ei) = MaxVMEModules" "length (moduleCounters (counters st0) ! ?ei) = MaxVMEModules"
      using assms(1) ev(1) by (simp_all add: wf_processor_def list_all_length)
    then have first: "moduleDataHeader (ms_info (hd (event_slots ?ei s0))) \<noteq> None"
      unfolding s0(3) using \<open>mps \<noteq> []\<close> by (intro slots_first) (auto simp: MaxVMEModules_def)
    have cfg: "\<not> diag s0" "\<not> doMultiEventProcessing s0 ! ?ei" using s0(2) assms(3) ev(3) by (simp_all add: same_config_def)
    have "processEventSection mem ?h (it_pos it + 1) ?n st0 = Option.bind (event_loop s0 mem ?ei (it_pos it + 1 + ?n)
        (event_slots ?ei s0)) (\<lambda>(slots, calls, errors). Some (emit calls (add_errors errors (put_slots ?ei slots s0))))"
      unfolding processEventSection_def Let_def s0(1) by (simp add: cfg(2) put_slots_def add_errors_def count_def emit_def)
    then obtain slots calls errors where loop:
      "event_loop s0 mem ?ei (it_pos it + 1 + ?n) (event_slots ?ei s0) = Some (slots, calls, errors)"
      and s_eq: "s = emit calls (add_errors errors (put_slots ?ei slots s0))"
      unfolding s(1) by (cases "event_loop s0 mem ?ei (it_pos it + 1 + ?n) (event_slots ?ei s0)") auto
    have "same_run st0 ?st1" using assms(4) by (rule same_run_simps)
    from begin_section_run [OF this s0(1)] obtain s1 where s1: "begin_section mem ?h (it_pos it + 1) ?n ?st1 = Some (Inr s1)"
      "same_run s0 s1" "bufferIter s1 = Some ?it" by auto
    let ?s1 = "s1\<lparr>eventIter := Some (buffer_iterator (it_pos it + 1) ?n)\<rparr>"
    let ?ps1 = "(resetModuleDataOffsets ?ps)\<lparr>stepResult := StepResult_Unset\<rparr>"
    have init: "initEventSectionIteration ?h (it_pos it + 1) ?n (?ps, ?st1) = Some (?ps1, ?s1)"
      using s1(1) assms(6) by (simp add: initEventSectionIteration_def assms(10))
    have run1: "same_run s0 ?s1" using s1(2) by (rule same_run_simps)
    obtain ps' s1' where step: "step_event mem ?ei (it_pos it + 1 + ?n) (?ps1, ?s1) = Some (ps', s1')"
      "same_run s s1'" "stepResult ps' = StepResult_EventComplete" "ps_buffer ps' = ps_buffer ?ps1" "eventIter s1' = None"
      "bufferIter s1' = bufferIter ?s1"
      using step_event_single [OF run1 cfg loop first, of ?ps1] unfolding s_eq by metis
    have "length (eventInfos s1) = length (eventInfos s0)" "listfileConstants s1 = ?lf"
      using s1(2) s0(2) by (simp_all add: same_run_def same_config_def)
    moreover have "length (eventInfos s0) = MaxVMEEvents"
    proof -
      have "length (eventInfos s0) = length (eventInfos st0)"
        using s0(1) by (auto simp: begin_section_def Let_def count_def split: if_splits)
      then show ?thesis using assms(1) by (simp add: wf_processor_def)
    qed
    ultimately have next_event: "stepNextEvent (?ps1, ?s1) = Some (ps', s1')"
      using step(1) ev(1) event assms(7-10)
      by (simp add: stepNextEvent_def Let_def is_section_def buffer_iterator_def)
    have "step_section it (ps, st1) = Some (ps', count_section ?n (s1'\<lparr>bufferIter := Some it', eventIter := None\<rparr>))"
      using event ex left lf init next_event step(3) skip s(3)
      by (simp add: step_section_def assms(10) Let_def is_section_def resetModuleDataOffsets_def)
    moreover have "same_run st0' (count_section ?n (s1'\<lparr>bufferIter := Some it', eventIter := None\<rparr>))"
      unfolding s(2) count_section_def by (intro same_run_simps(1,5,6) step(2))
    ultimately show ?thesis using that step(4) by (simp add: count_section_def count_def)
  next
    case other
    then have st0': "st0' = count_section ?n st0" and it': "it' = it\<lparr>it_pos := it_pos it + 1 + ?n\<rparr>"
      using assms(11) ex left skip by (auto simp: process_section_def Let_def is_section_def count_section_def)
    have "step_section it (ps, st1) = Some (?ps, count_section ?n (st1\<lparr>bufferIter := Some it'\<rparr>))"
      using other lf ex left skip it' by (simp add: step_section_def assms(10) Let_def is_section_def)
    moreover have "same_run st0' (count_section ?n (st1\<lparr>bufferIter := Some it'\<rparr>))"
      unfolding st0' count_section_def by (intro same_run_simps(1,5) assms(4))
    ultimately show ?thesis using that assms(6) by (simp add: count_section_def count_def)
  qed
qed

lemma steps_run:
  assumes "wf_processor st0" "analysis st0" "\<not> diag st0" "same_run st0 st1"
    and "bufferIter st1 = Some it" "eventIter st1 = None" "it_pos it \<le> it_end it"
    and "it_end it + 1 < length mem" "it_end it \<le> db_size (ps_buffer ps) div 4" "buffer_words (ps_buffer ps) = mem"
    and "stream_sections (listfileConstants st0) (take (it_end it - it_pos it) (drop (it_pos it) mem)) = (ss, True)"
    and "list_all (steppable st0) ss"
  shows "\<exists>st0' ps' st1' it'. process_sections mem it st0 = Some (Inr st0') \<and> single_steps (length ss) (ps, st1) = Some (ps', st1')
    \<and> same_run st0' st1' \<and> bufferIter st1' = Some it' \<and> longwordsLeft it' = 0 \<and> eventIter st1' = None"
  using assms
proof (induction ss arbitrary: it st0 st1 ps)
  case Nil
  have "it_pos it = it_end it"
  proof (rule ccontr)
    assume "it_pos it \<noteq> it_end it"
    then show False using stream_sections_pos [of it mem "listfileConstants st0"] Nil.prems(7,8,11)
      by (auto simp: Let_def split: if_splits prod.splits)
  qed
  then show ?case using Nil.prems by (simp add: process_sections.simps [of mem it] longwordsLeft_def)
next
  case (Cons s ss)
  let ?lf = "listfileConstants st0" and ?h = "mem ! it_pos it"
  let ?n = "unat (getSectionSize ?lf ?h)"
  have lt: "it_pos it < it_end it"
    using Cons.prems(7,11) by (cases "it_pos it = it_end it") (auto simp: stream_sections.simps)
  have n: "?n \<le> it_end it - (it_pos it + 1)"
    and s: "s = (?h, take ?n (drop (it_pos it + 1) mem))"
    and ss: "stream_sections ?lf (take (it_end it - (it_pos it + 1 + ?n)) (drop (it_pos it + 1 + ?n) mem)) = (ss, True)"
    using stream_sections_pos [OF lt, of mem ?lf] Cons.prems(8,11) by (auto simp: Let_def split: if_splits prod.splits)
  have fits: "section_fits st0 (?h, take ?n (drop (it_pos it + 1) mem))"
    "steppable st0 (?h, take ?n (drop (it_pos it + 1) mem))"
    using Cons.prems(12) s steppable_fits by auto
  obtain st0' it' where one: "process_section mem it st0 = Some (Inr (st0', it'))"
    "section_counted (of_bool (is_section ?lf SectionType_Event ?h)) st0 st0'"
    "it_pos it' = it_pos it + 1 + ?n" "it_end it' = it_end it"
    using process_section_total [OF Cons.prems(1,2) lt Cons.prems(8) n fits(1)] by blast
  let ?ps = "(resetModuleDataOffsets ps)\<lparr>stepResult := StepResult_Unset\<rparr>"
  obtain ps' st1' where step: "step_section it (?ps, st1) = Some (ps', st1')" "same_run st0' st1'"
    "bufferIter st1' = Some it'" "eventIter st1' = None" "ps_buffer ps' = ps_buffer ps"
    using step_section_run [OF Cons.prems(1-6) lt Cons.prems(8), of ?ps st0' it'] one(1) n fits(2) Cons.prems(9,10)
    by auto
  have "singleStepNextStep (ps, st1) = Some (ps', st1')"
    using Cons.prems(5,6) lt step(1) by (simp add: singleStepNextStep_def longwordsLeft_def Let_def)
  moreover have "process_sections mem it st0 = process_sections mem it' st0'"
    using one(1) lt by (simp add: process_sections.simps [of mem it] longwordsLeft_def)
  moreover have "\<exists>st0'' ps'' st1'' it''. process_sections mem it' st0' = Some (Inr st0'')
    \<and> single_steps (length ss) (ps', st1') = Some (ps'', st1'')
    \<and> same_run st0'' st1'' \<and> bufferIter st1'' = Some it'' \<and> longwordsLeft it'' = 0 \<and> eventIter st1'' = None"
  proof (rule Cons.IH [OF _ _ _ step(2-4)])
    have cfg: "same_config st0 st0'" "wf_processor st0'" using one(2) by (simp_all add: section_counted_def)
    then show "wf_processor st0'" "analysis st0'" "\<not> diag st0'"
      using Cons.prems(2,3) by (simp_all add: same_config_def)
    show "it_pos it' \<le> it_end it'" using one(3,4) n lt by linarith
    show "it_end it' + 1 < length mem" "it_end it' \<le> db_size (ps_buffer ps') div 4" "buffer_words (ps_buffer ps') = mem"
      using Cons.prems(8-10) one(4) step(5) by simp_all
    show "stream_sections (listfileConstants st0') (take (it_end it' - it_pos it') (drop (it_pos it') mem)) = (ss, True)"
      using ss cfg(1) by (simp add: one(3,4) same_config_def)
    have "steppable st0' = steppable st0" using cfg(1) by (simp add: steppable_def same_config_def fun_eq_iff)
    then show "list_all (steppable st0') ss" using Cons.prems(12) by simp
  qed
  ultimately show ?case by simp
qed

lemma single_steps_Suc: "single_steps (n + 1) s = Option.bind (single_steps n s) singleStepNextStep"
proof (induction n arbitrary: s)
  case (Suc n)
  show ?case by (cases "singleStepNextStep s") (simp_all add: Suc [simplified])
qed (simp split: Option.bind_split)

text \<open>C6: without multi-event processing, single stepping through a buffer takes one step per section and one to
  notice the end, and does what processing the whole buffer does: the counters agree and every receiver gets the
  same calls. The sections are those of configured events with modules, empty time ticks and other sections.\<close>

theorem single_stepping_agrees:
  assumes "wf_processor st" "analysis st" "\<not> diag st" "bufferIter st = None"
    and "db_used buffer div 4 + 1 < length (buffer_words buffer)" "db_used buffer \<le> db_size buffer"
    and "stream_sections (listfileConstants st) (take (db_used buffer div 4) (buffer_words buffer)) = (ss, True)"
    and "list_all (steppable st) ss"
  shows "\<exists>st' s0 ps st''. processDataBuffer buffer st = Some st' \<and> singleStepInitState buffer st = Some s0
    \<and> single_steps (length ss + 1) s0 = Some (ps, st'') \<and> stepResult ps = StepResult_AtEnd
    \<and> counters st'' = counters st' \<and> (\<forall>r. calls_of r (sp_calls st'') = calls_of r (sp_calls st'))"
proof -
  let ?it = "buffer_iterator 0 (db_used buffer div 4)" and ?mem = "buffer_words buffer"
  let ?st1 = "st\<lparr>bufferIter := Some ?it, eventIter := None\<rparr>"
  have "same_run st ?st1" by (simp add: same_run_def)
  then obtain st' ps st'' it' where run: "process_sections ?mem ?it st = Some (Inr st')"
    "single_steps (length ss) (new_processing_state buffer, ?st1) = Some (ps, st'')"
    "same_run st' st''" "bufferIter st'' = Some it'" "longwordsLeft it' = 0" "eventIter st'' = None"
    using steps_run [OF assms(1-3), of ?st1 ?it ?mem "new_processing_state buffer" ss] assms(5-8)
    by (auto simp: buffer_iterator_def new_processing_state_def div_le_mono)
  let ?count = "count (\<lambda>c. c\<lparr>buffersProcessed := buffersProcessed c + 1\<rparr>)"
  have "single_steps (length ss + 1) (new_processing_state buffer, ?st1) =
      Some (stop_stepping StepResult_AtEnd ((resetModuleDataOffsets ps)\<lparr>stepResult := StepResult_Unset\<rparr>, ?count st''))"
    unfolding single_steps_Suc run(2) using run(4-6) by (simp add: singleStepNextStep_def Let_def)
  moreover have "processDataBuffer buffer st = Some (?count st')"
    using assms(4) by (simp add: processDataBuffer_def run(1))
  moreover have "singleStepInitState buffer st = Some (new_processing_state buffer, ?st1)"
    using assms(4,5) by (auto simp: singleStepInitState_def buffer_words_def)
  ultimately show ?thesis using run(3)
    by (simp add: stop_stepping_def same_run_def count_def resetModuleDataOffsets_def)
qed

text \<open>A time tick and a section of an unknown type.\<close>

definition tick_words :: "u32 list" where
  "tick_words = [0x60000000, 0xA0000001, 5]"

theorem single_stepping_agrees_witness:
  "\<exists>st' s0 ps st''. processDataBuffer (buffer_of (tick_words @ single_header # section_words example_headers example_events) [0, 0])
        example_processor = Some st'
    \<and> singleStepInitState (buffer_of (tick_words @ single_header # section_words example_headers example_events) [0, 0])
        example_processor = Some s0
    \<and> single_steps 4 s0 = Some (ps, st'') \<and> stepResult ps = StepResult_AtEnd
    \<and> counters st'' = counters st' \<and> calls_of Analysis (sp_calls st'') = calls_of Analysis (sp_calls st')"
proof -
  let ?sw = "section_words example_headers example_events"
  let ?ws = "tick_words @ single_header # ?sw"
  let ?ss = "[(0x60000000, []), (0xA0000001, [5]), (single_header, ?sw)]"
  have sections: "stream_sections (listfile_constants 2) ?ws = (?ss, True)" by code_simp
  have count: "module_count (listfile_constants 2) ?sw = 2" by code_simp
  have types: "is_section (listfile_constants 2) SectionType_Timetick 0x60000000"
    "\<not> is_section (listfile_constants 2) SectionType_Event 0x60000000"
    "\<not> is_section (listfile_constants 2) SectionType_Timetick 0xA0000001"
    "\<not> is_section (listfile_constants 2) SectionType_Event 0xA0000001"
    "\<not> is_section (listfile_constants 2) SectionType_Timetick single_header"
    "unat (getEventIndex (listfile_constants 2) single_header) = 1"
    by code_simp+
  have steps: "list_all (steppable example_processor) ?ss"
    by (simp add: steppable_def types count MaxVMEModules_def MaxVMEEvents_def)
  have len: "length ?ws = 16" by code_simp
  have "\<not> diag example_processor" by (simp add: example_processor_def)
  moreover have "db_size (buffer_of ?ws [0, 0]) = 4 * length ?ws" by (simp add: buffer_of_def)
  ultimately have "\<exists>st' s0 ps st''. processDataBuffer (buffer_of ?ws [0, 0]) example_processor = Some st'
    \<and> singleStepInitState (buffer_of ?ws [0, 0]) example_processor = Some s0
    \<and> single_steps (length ?ss + 1) s0 = Some (ps, st'') \<and> stepResult ps = StepResult_AtEnd
    \<and> counters st'' = counters st' \<and> (\<forall>r. calls_of r (sp_calls st'') = calls_of r (sp_calls st'))"
    by (intro single_stepping_agrees example_wf) (simp_all add: sections steps len del: list.pred_inject append_Cons append_assoc)
  then show ?thesis by (simp add: eval_nat_numeral) blast
qed

section \<open>Stepping through a section of several events\<close>

text \<open>While the events of a section are stepped through, the position in the buffer stays behind the header of the
  section: nothing skips the section when its last event is complete.\<close>

lemma step_event_keeps:
  assumes "step_event mem ei endp (ps, st) = Some (ps', st')"
  shows "bufferIter st' = bufferIter st" "bytesProcessed (counters st') = bytesProcessed (counters st)"
  using assms
  by (auto simp: step_event_def Let_def emit_def add_errors_def count_def put_slots_def bind_eq_Some_conv split: if_splits option.splits)

lemma event_step_keeps:
  assumes "eventIter st \<noteq> None" "singleStepNextStep (ps, st) = Some (ps', st')"
  shows "bufferIter st' = bufferIter st" "bytesProcessed (counters st') = bytesProcessed (counters st)"
proof -
  obtain mem ei endp where "step_event mem ei endp (ps, st) = Some (ps', st')"
    using assms by (auto simp: singleStepNextStep_def stepNextEvent_def Let_def bind_eq_Some_conv split: if_splits option.splits)
  then show "bufferIter st' = bufferIter st" "bytesProcessed (counters st') = bytesProcessed (counters st)"
    by (rule step_event_keeps)+
qed

lemma event_steps_keep:
  assumes "single_steps n s = Some s'" "\<forall>k < n. \<forall>t. single_steps k s = Some t \<longrightarrow> eventIter (snd t) \<noteq> None"
  shows "bufferIter (snd s') = bufferIter (snd s) \<and> bytesProcessed (counters (snd s')) = bytesProcessed (counters (snd s))"
  using assms
proof (induction n arbitrary: s')
  case (Suc n)
  have "Option.bind (single_steps n s) singleStepNextStep = Some s'"
    using Suc.prems(1) single_steps_Suc [of n s] by simp
  then obtain t where t: "single_steps n s = Some t" "singleStepNextStep t = Some s'"
    by (cases "single_steps n s") auto
  then have "eventIter (snd t) \<noteq> None" using Suc.prems(2) by blast
  then show ?case using event_step_keeps [of "snd t" "fst t" "fst s'" "snd s'"] t Suc by (simp add: less_Suc_eq)
qed simp

lemma begin_section_iters:
  assumes "begin_section mem h data words st = Some (Inr st')"
  shows "bufferIter st' = bufferIter st" "bytesProcessed (counters st') = bytesProcessed (counters st)"
  using assms by (auto simp: begin_section_def Let_def count_def split: if_splits)

lemma init_event_keeps:
  assumes "initEventSectionIteration h data words (ps, st) = Some (ps', st')" "stepResult ps' \<noteq> StepResult_Error"
  shows "bufferIter st' = bufferIter st" "bytesProcessed (counters st') = bytesProcessed (counters st)"
proof -
  obtain r where r: "begin_section (buffer_words (ps_buffer ps)) h data words st = Some r"
    and s: "(ps', st') = (case r of Inl st \<Rightarrow> (ps\<lparr>stepResult := StepResult_Error\<rparr>, st)
            | Inr st \<Rightarrow> ((resetModuleDataOffsets ps)\<lparr>stepResult := StepResult_Unset\<rparr>,
                        st\<lparr>eventIter := Some (buffer_iterator data words)\<rparr>))"
    using assms(1) by (auto simp: initEventSectionIteration_def split: if_splits)
  then obtain st0 where "r = Inr st0" using assms(2) by (cases r) auto
  then show "bufferIter st' = bufferIter st" "bytesProcessed (counters st') = bytesProcessed (counters st)"
    using s begin_section_iters [OF r [unfolded \<open>r = Inr st0\<close>]] by simp_all
qed

lemma next_event_keeps:
  assumes "stepNextEvent (ps, st) = Some (ps', st')"
  shows "bufferIter st' = bufferIter st" "bytesProcessed (counters st') = bytesProcessed (counters st)"
  using assms step_event_keeps
  by (auto simp: stepNextEvent_def Let_def bind_eq_Some_conv split: if_splits option.splits)

lemma step_section_keeps:
  assumes "step_section it (ps, st) = Some (ps', st')" "stepResult ps' = StepResult_EventHasMore"
    and "stepResult ps = StepResult_Unset" "it_pos it < it_end it"
  shows "bufferIter st' = Some (it\<lparr>it_pos := it_pos it + 1\<rparr>)" "bytesProcessed (counters st') = bytesProcessed (counters st)"
proof -
  let ?it = "it\<lparr>it_pos := it_pos it + 1\<rparr>"
  let ?ps = "ps\<lparr>lastSectionHeaderOffset := int (it_pos it)\<rparr>" and ?st = "st\<lparr>bufferIter := Some ?it\<rparr>"
  obtain h where ex: "extractU32 (buffer_words (ps_buffer ps)) it = Some (h, ?it)"
    using assms(1) by (auto simp: step_section_def extractU32_def bind_eq_Some_conv map_option_case split: option.splits if_splits)
  have "\<exists>ps1 st1. initEventSectionIteration h (it_pos it + 1) (unat (getSectionSize (listfileConstants st) h)) (?ps, ?st) = Some (ps1, st1)
      \<and> stepResult ps1 \<noteq> StepResult_Error \<and> stepNextEvent (ps1, st1) = Some (ps', st')"
    using assms(1-3) ex
    by (auto simp: step_section_def Let_def stop_stepping_def bind_eq_Some_conv split: if_splits)
  then obtain ps1 st1 where "initEventSectionIteration h (it_pos it + 1) (unat (getSectionSize (listfileConstants st) h)) (?ps, ?st) = Some (ps1, st1)"
      "stepResult ps1 \<noteq> StepResult_Error" "stepNextEvent (ps1, st1) = Some (ps', st')" by blast
  then show "bufferIter st' = Some ?it" "bytesProcessed (counters st') = bytesProcessed (counters st)"
    using init_event_keeps next_event_keeps by fastforce+
qed

text \<open>A section of several events is left in the middle. If the first step of a section leaves events to be
  processed, then, when the steps that follow have completed its last event, the position in the buffer is still the
  word behind the section's header and its bytes are not counted: the next step reads the first module's header as
  the header of a section.\<close>

theorem multi_event_stepping_stuck:
  assumes "eventIter st = None" "bufferIter st = Some it" "it_pos it < it_end it"
    and "singleStepNextStep (ps, st) = Some s" "stepResult (fst s) = StepResult_EventHasMore"
    and "single_steps n s = Some (ps', st')"
    and "\<forall>k < n. \<forall>t. single_steps k s = Some t \<longrightarrow> eventIter (snd t) \<noteq> None" "eventIter st' = None"
  shows "bufferIter st' = Some (it\<lparr>it_pos := it_pos it + 1\<rparr>) \<and> bytesProcessed (counters st') = bytesProcessed (counters st)
    \<and> singleStepNextStep (ps', st') =
        (if it_pos it + 1 < it_end it
         then step_section (it\<lparr>it_pos := it_pos it + 1\<rparr>) ((resetModuleDataOffsets ps')\<lparr>stepResult := StepResult_Unset\<rparr>, st')
         else Some (stop_stepping StepResult_AtEnd ((resetModuleDataOffsets ps')\<lparr>stepResult := StepResult_Unset\<rparr>,
                count (\<lambda>c. c\<lparr>buffersProcessed := buffersProcessed c + 1\<rparr>) st')))"
proof -
  let ?it = "it\<lparr>it_pos := it_pos it + 1\<rparr>" and ?ps = "(resetModuleDataOffsets ps)\<lparr>stepResult := StepResult_Unset\<rparr>"
  have "step_section it (?ps, st) = Some s"
    using assms(1-4) by (simp add: singleStepNextStep_def longwordsLeft_def Let_def)
  then have "bufferIter (snd s) = Some ?it" "bytesProcessed (counters (snd s)) = bytesProcessed (counters st)"
    using step_section_keeps [of it ?ps st "fst s" "snd s"] assms(3,5) by simp_all
  then have st': "bufferIter st' = Some ?it" "bytesProcessed (counters st') = bytesProcessed (counters st)"
    using event_steps_keep [OF assms(6,7)] by simp_all
  then show ?thesis using assms(8) by (auto simp: singleStepNextStep_def longwordsLeft_def Let_def)
qed


text \<open>A processor for one event with one module, and a section with two events of the module.\<close>

definition one_module :: StreamProcessor where
  "one_module = \<lparr>counters = empty_counters, isReplay = True, analysis = True, diag = False,
     listfileConstants = listfile_constants 2, eventInfos = [[example_info, empty_info]], eventConfigs = [True],
     doMultiEventProcessing = [True], moduleConsumers = [], bufferIter = Some (buffer_iterator 0 6), eventIter = None,
     sp_calls = []\<rparr>"

definition two_events :: "u32 list" where
  "two_events = [0x20000005, 0x01000004, 0x40000001, 7, 0x40000000, EndMarker]"

lemma two_events_stepped:
  "case singleStepNextStep (new_processing_state (buffer_of two_events []), one_module) of
     None \<Rightarrow> False
   | Some s \<Rightarrow> stepResult (fst s) = StepResult_EventHasMore \<and> eventIter (snd s) \<noteq> None
       \<and> (case singleStepNextStep s of None \<Rightarrow> False
          | Some (ps, st) \<Rightarrow> eventIter st = None \<and> stepResult ps = StepResult_EventComplete)"
  by code_simp

theorem multi_event_stepping_stuck_witness:
  "\<exists>ps' st'. single_steps 2 (new_processing_state (buffer_of two_events []), one_module) = Some (ps', st')
    \<and> stepResult ps' = StepResult_EventComplete \<and> bufferIter st' = Some \<lparr>it_data = 0, it_pos = 1, it_end = 6\<rparr>
    \<and> singleStepNextStep (ps', st') = step_section \<lparr>it_data = 0, it_pos = 1, it_end = 6\<rparr>
        ((resetModuleDataOffsets ps')\<lparr>stepResult := StepResult_Unset\<rparr>, st')"
proof -
  let ?ps = "new_processing_state (buffer_of two_events [])"
  obtain s ps' st' where s: "singleStepNextStep (?ps, one_module) = Some s" "stepResult (fst s) = StepResult_EventHasMore"
    "eventIter (snd s) \<noteq> None" "singleStepNextStep s = Some (ps', st')" "eventIter st' = None" "stepResult ps' = StepResult_EventComplete"
    using two_events_stepped by (auto split: option.splits)
  have one: "eventIter one_module = None" "bufferIter one_module = Some (buffer_iterator 0 6)"
    by (simp_all add: one_module_def)
  have first: "single_steps 1 s = Some (ps', st')" "\<forall>k < 1. \<forall>t. single_steps k s = Some t \<longrightarrow> eventIter (snd t) \<noteq> None"
    using s(3,4) by simp_all
  show ?thesis
    using multi_event_stepping_stuck [OF one _ s(1,2) first s(5)] s(1,4,6)
    by (simp add: buffer_iterator_def numeral_2_eq_2)
qed

end
