(* ===== verification/Doubles.thy ===== *)
theory Doubles
  imports Prelude Complex_Main
begin

text \<open>
  The type \<^verbatim>\<open>double\<close> of the analysis: the 64 bits of an IEEE 754 binary64 number, with the operations the
  code uses on it. Comparisons go by the rank of the bits, arithmetic goes by exact rational numbers that are
  rounded to the nearest number, ties to the even one. The helpers of \<^verbatim>\<open>src/src/analysis/a2/util/nan.h\<close> and
  \<^verbatim>\<open>src/src/analysis/a2/a2_param.h\<close> are at the end. An operation on a NaN yields this NaN; the sign of a new
  NaN, which the standard leaves open, is positive.
\<close>

section \<open>Bits\<close>

type_synonym double = u64

definition d_mag :: "double \<Rightarrow> int" where "d_mag x = uint x mod 0x8000000000000000"

definition d_neg :: "double \<Rightarrow> bool" where "d_neg x = (0x8000000000000000 \<le> uint x)"

definition inf_mag :: int where "inf_mag = 0x7FF0000000000000"

definition make_double :: "bool \<Rightarrow> int \<Rightarrow> double" where
  "make_double neg m = of_int (m + (if neg then 0x8000000000000000 else 0))"

definition isnan :: "double \<Rightarrow> bool" where "isnan x \<longleftrightarrow> inf_mag < d_mag x"

definition isinf :: "double \<Rightarrow> bool" where "isinf x \<longleftrightarrow> d_mag x = inf_mag"

definition is_finite :: "double \<Rightarrow> bool" where "is_finite x \<longleftrightarrow> d_mag x < inf_mag"

definition quiet_nan :: double where "quiet_nan = 0x7FF8000000000000"

definition quiet :: "double \<Rightarrow> double" where "quiet x = x OR 0x8000000000000"

definition d_minus :: "double \<Rightarrow> double" where "d_minus x = make_double (\<not> d_neg x) (d_mag x)"

section \<open>Comparison\<close>

definition d_rank :: "double \<Rightarrow> int" where "d_rank x = (if d_neg x then - d_mag x else d_mag x)"

definition d_less :: "double \<Rightarrow> double \<Rightarrow> bool" where
  "d_less a b \<longleftrightarrow> \<not> isnan a \<and> \<not> isnan b \<and> d_rank a < d_rank b"

definition d_le :: "double \<Rightarrow> double \<Rightarrow> bool" where
  "d_le a b \<longleftrightarrow> \<not> isnan a \<and> \<not> isnan b \<and> d_rank a \<le> d_rank b"

text \<open>\<^verbatim>\<open>std::min\<close> and \<^verbatim>\<open>std::max\<close>, which return the first argument unless the second is smaller or larger.\<close>

definition d_min :: "double \<Rightarrow> double \<Rightarrow> double" where "d_min a b = (if d_less b a then b else a)"

definition d_max :: "double \<Rightarrow> double \<Rightarrow> double" where "d_max a b = (if d_less a b then b else a)"

section \<open>Values and rounding\<close>

definition mag_value :: "int \<Rightarrow> rat" where
  "mag_value m =
     (let e = m div 0x10000000000000; f = m mod 0x10000000000000
      in if e = 0 then of_int f * 2 powi (- 1074) else of_int (0x10000000000000 + f) * 2 powi (e - 1075))"

definition d_val :: "double \<Rightarrow> rat" where
  "d_val x = (if d_neg x then - mag_value (d_mag x) else mag_value (d_mag x))"

function bit_length :: "int \<Rightarrow> int" where
  "bit_length n = (if n \<le> 0 then 0 else 1 + bit_length (n div 2))"
  by pat_completeness auto
termination by (relation "measure nat") auto

declare bit_length.simps [simp del]

definition floor_log :: "rat \<Rightarrow> int" where
  "floor_log q = (if 1 \<le> q then bit_length \<lfloor>q\<rfloor> - 1 else - bit_length (\<lceil>1 / q\<rceil> - 1))"

definition round_even :: "rat \<Rightarrow> int" where
  "round_even q =
     (let f = \<lfloor>q\<rfloor>; r = q - of_int f
      in if r < 1 / 2 then f else if 1 / 2 < r then f + 1 else if even f then f else f + 1)"

text \<open>The exponent of the last bit of the result.\<close>

definition last_bit :: "rat \<Rightarrow> int" where "last_bit q = max (floor_log q - 52) (- 1074)"

definition round_mag :: "rat \<Rightarrow> int" where
  "round_mag q =
     (if q \<le> 0 then 0
      else min inf_mag ((last_bit q + 1074) * 0x10000000000000 + round_even (q / 2 powi last_bit q)))"

definition d_of :: "rat \<Rightarrow> double" where "d_of q = make_double (q < 0) (round_mag \<bar>q\<bar>)"

section \<open>Arithmetic\<close>

definition d_add :: "double \<Rightarrow> double \<Rightarrow> double" where
  "d_add a b =
     (if isnan a then quiet a else if isnan b then quiet b
      else if isinf a then (if isinf b \<and> d_neg a \<noteq> d_neg b then quiet_nan else a)
      else if isinf b then b
      else if d_val a + d_val b = 0 then make_double (d_neg a \<and> d_neg b) 0
      else d_of (d_val a + d_val b))"

definition d_sub :: "double \<Rightarrow> double \<Rightarrow> double" where
  "d_sub a b = (if isnan a then quiet a else if isnan b then quiet b else d_add a (d_minus b))"

definition d_mul :: "double \<Rightarrow> double \<Rightarrow> double" where
  "d_mul a b =
     (let neg = (d_neg a \<noteq> d_neg b) in
      if isnan a then quiet a else if isnan b then quiet b
      else if isinf a \<or> isinf b then (if d_mag a = 0 \<or> d_mag b = 0 then quiet_nan else make_double neg inf_mag)
      else make_double neg (round_mag \<bar>d_val a * d_val b\<bar>))"

definition d_div :: "double \<Rightarrow> double \<Rightarrow> double" where
  "d_div a b =
     (let neg = (d_neg a \<noteq> d_neg b) in
      if isnan a then quiet a else if isnan b then quiet b
      else if isinf a then (if isinf b then quiet_nan else make_double neg inf_mag)
      else if isinf b then make_double neg 0
      else if d_mag b = 0 then (if d_mag a = 0 then quiet_nan else make_double neg inf_mag)
      else make_double neg (round_mag \<bar>d_val a / d_val b\<bar>))"

function isqrt :: "int \<Rightarrow> int" where
  "isqrt m = (if m \<le> 0 then 0 else let r = 2 * isqrt (m div 4) in if (r + 1) * (r + 1) \<le> m then r + 1 else r)"
  by pat_completeness auto
termination by (relation "measure nat") auto

declare isqrt.simps [simp del]

text \<open>The square root: its integer part after scaling has more than 54 bits, one more bit says whether the root is
  exact, and rounding this number is rounding the root.\<close>

definition sqrt_mag :: "rat \<Rightarrow> int" where
  "sqrt_mag q =
     (let k = 55 - floor_log q div 2; n = \<lfloor>q * 2 powi (2 * k)\<rfloor>; s = isqrt n
      in round_mag ((of_int (2 * s) + (if of_int (s * s) = q * 2 powi (2 * k) then 0 else 1)) * 2 powi (- k - 1)))"

definition d_sqrt :: "double \<Rightarrow> double" where
  "d_sqrt a =
     (if isnan a then quiet a else if d_mag a = 0 then a else if d_neg a then quiet_nan
      else if isinf a then a else make_double False (sqrt_mag (d_val a)))"

definition d0 :: double where "d0 = 0"

definition d1 :: double where "d1 = 0x3FF0000000000000"

definition d_incr :: "double \<Rightarrow> double" where "d_incr x = d_add x d1"

definition dbl_max :: double where "dbl_max = 0x7FEFFFFFFFFFFFFF"

definition dbl_lowest :: double where "dbl_lowest = 0xFFEFFFFFFFFFFFFF"

definition d_of_nat :: "nat \<Rightarrow> double" where "d_of_nat n = d_of (of_nat n)"

definition d_of_int :: "int \<Rightarrow> double" where "d_of_int n = d_of (of_int n)"

text \<open>\<^verbatim>\<open>static_cast<s32>\<close>: truncation; undefined if the result is not in range.\<close>

definition d_trunc :: "double \<Rightarrow> int option" where
  "d_trunc x =
     (if \<not> is_finite x then None
      else let n = (if d_neg x then \<lceil>d_val x\<rceil> else \<lfloor>d_val x\<rfloor>)
           in if - (2 ^ 31) \<le> n \<and> n < 2 ^ 31 then Some n else None)"

section \<open>Parameters\<close>

definition make_nan :: "u32 \<Rightarrow> double" where
  "make_nan payload = (quiet_nan AND 0xFFFFFFFF00000000) OR ucast payload"

definition get_payload :: "double \<Rightarrow> u32" where "get_payload d = ucast d"

definition ParamInvalidBit :: u32 where "ParamInvalidBit = 1"

definition is_param_valid :: "double \<Rightarrow> bool" where
  "is_param_valid p \<longleftrightarrow> \<not> (isnan p \<and> get_payload p AND ParamInvalidBit \<noteq> 0)"

definition invalid_param :: double where "invalid_param = make_nan ParamInvalidBit"

section \<open>Rounding\<close>

lemma bit_length_bounds:
  assumes "0 < n"
  shows "0 < bit_length n \<and> 2 ^ nat (bit_length n - 1) \<le> n \<and> n < 2 ^ nat (bit_length n)"
  using assms
proof (induction n rule: bit_length.induct)
  case (1 n)
  let ?h = "n div 2"
  show ?case
  proof (cases "0 < ?h")
    case True
    then have IH: "0 < bit_length ?h" "2 ^ nat (bit_length ?h - 1) \<le> ?h" "?h < 2 ^ nat (bit_length ?h)"
      using 1 by auto
    have l: "bit_length n = 1 + bit_length ?h" using 1(2) by (simp add: bit_length.simps)
    have "nat (bit_length n) = Suc (nat (bit_length ?h))" "nat (bit_length n - 1) = Suc (nat (bit_length ?h - 1))"
      using l IH(1) by (simp_all add: nat_add_distrib)
    then show ?thesis using l IH by simp linarith
  next
    case False
    then have "n = 1" using 1(2) by linarith
    then show ?thesis by (simp add: bit_length.simps)
  qed
qed

lemma bit_length_eq:
  assumes "2 ^ k \<le> n" "n < 2 ^ Suc k"
  shows "bit_length n = int k + 1"
proof -
  have "0 < n" using assms(1) by (rule order.strict_trans2 [rotated]) simp
  from bit_length_bounds [OF this] have b: "0 < bit_length n" "2 ^ nat (bit_length n - 1) \<le> n" "n < 2 ^ nat (bit_length n)"
    by auto
  have "(2::int) ^ k < 2 ^ nat (bit_length n)" "(2::int) ^ nat (bit_length n - 1) < 2 ^ Suc k" using assms b by linarith+
  then have "k < nat (bit_length n)" "nat (bit_length n - 1) < Suc k"
    by (simp_all only: power_strict_increasing_iff one_less_numeral_iff semiring_norm)
  then show ?thesis using b(1) by linarith
qed

lemma floor_log_eq:
  assumes "2 powi k \<le> q" "q < 2 powi (k + 1)"
  shows "floor_log q = k"
proof (cases "0 \<le> k")
  case True
  then have "(2::rat) powi k = of_int (2 ^ nat k)" "(2::rat) powi (k + 1) = of_int (2 ^ Suc (nat k))"
    by (simp_all add: power_int_def nat_add_distrib)
  then have b: "2 ^ nat k \<le> \<lfloor>q\<rfloor>" "\<lfloor>q\<rfloor> < 2 ^ Suc (nat k)" using assms by (simp_all only: le_floor_iff floor_less_iff)
  have "1 \<le> (2::int) ^ nat k" by simp
  then have "1 \<le> \<lfloor>q\<rfloor>" using b(1) by linarith
  then have "1 \<le> q" by (simp add: le_floor_iff)
  then show ?thesis using bit_length_eq [OF b] True by (simp add: floor_log_def)
next
  case False
  define j where "j = nat (- k - 1)"
  have k: "(2::rat) powi k = 1 / of_int (2 ^ Suc j)" "(2::rat) powi (k + 1) = 1 / of_int (2 ^ j)"
    using False by (simp_all add: power_int_def j_def field_simps flip: power_Suc) (auto simp: Suc_nat_eq_nat_zadd1)
  have pos: "0 < q" using assms(1) by (rule order.strict_trans2 [rotated]) simp
  have "1 / q \<le> of_int (2 ^ Suc j)" "of_int (2 ^ j) < 1 / q" using assms [unfolded k] pos by (simp_all add: field_simps)
  then have b: "2 ^ j \<le> \<lceil>1 / q\<rceil> - 1" "\<lceil>1 / q\<rceil> - 1 < 2 ^ Suc j"
    by (simp_all only: less_ceiling_iff ceiling_le_iff zle_diff1_eq) linarith+
  have "(2::rat) powi (k + 1) \<le> 1" by (simp add: k(2) divide_le_eq)
  then have "\<not> 1 \<le> q" using assms(2) by linarith
  then show ?thesis using bit_length_eq [OF b] False by (simp add: floor_log_def j_def)
qed

lemma bit_length_powers:
  assumes "0 < n"
  obtains k where "2 ^ k \<le> (n::int)" "n < 2 ^ Suc k"
proof -
  have "nat (bit_length n) = Suc (nat (bit_length n - 1))" using bit_length_bounds [OF assms] by linarith
  then show thesis using that [of "nat (bit_length n - 1)"] bit_length_bounds [OF assms] by simp
qed

lemma floor_log_bounds:
  assumes "0 < q"
  shows "2 powi floor_log q \<le> q \<and> q < 2 powi (floor_log q + 1)"
proof -
  have "\<exists>k. 2 powi k \<le> q \<and> q < 2 powi (k + 1)"
  proof (cases "1 \<le> q")
    case True
    then have "0 < \<lfloor>q\<rfloor>" by (simp add: less_le_trans)
    then obtain k where k: "2 ^ k \<le> \<lfloor>q\<rfloor>" "\<lfloor>q\<rfloor> < 2 ^ Suc k" by (rule bit_length_powers)
    then have "of_int (2 ^ k) \<le> q" "q < of_int (2 ^ Suc k)" by (simp_all only: le_floor_iff floor_less_iff)
    moreover have "(2::rat) powi int k = of_int (2 ^ k)" "(2::rat) powi (int k + 1) = of_int (2 ^ Suc k)"
      by (simp_all add: power_int_def nat_add_distrib)
    ultimately have "2 powi (int k) \<le> q \<and> q < 2 powi (int k + 1)" by (simp only:)
    then show ?thesis by blast
  next
    case False
    then have "1 < 1 / q" using assms by (simp add: field_simps)
    then have "0 < \<lceil>1 / q\<rceil> - 1" using less_ceiling_iff [of 1 "1 / q"] by simp
    then obtain k where k: "2 ^ k \<le> \<lceil>1 / q\<rceil> - 1" "\<lceil>1 / q\<rceil> - 1 < 2 ^ Suc k" by (rule bit_length_powers)
    then have "2 ^ k < \<lceil>1 / q\<rceil>" "\<lceil>1 / q\<rceil> \<le> 2 ^ Suc k" by linarith+
    then have "of_int (2 ^ k) < 1 / q" "1 / q \<le> of_int (2 ^ Suc k)" by (simp_all only: less_ceiling_iff ceiling_le_iff)
    then have "1 / of_int (2 ^ Suc k) \<le> q" "q < 1 / of_int (2 ^ k)" using assms by (simp_all add: field_simps)
    moreover have "(2::rat) powi (- int (Suc k)) = 1 / of_int (2 ^ Suc k)" "(2::rat) powi (- int (Suc k) + 1) = 1 / of_int (2 ^ k)"
      by (simp_all add: power_int_def field_simps nat_add_distrib)
    ultimately have "2 powi (- int (Suc k)) \<le> q \<and> q < 2 powi (- int (Suc k) + 1)" by (simp only:)
    then show ?thesis by blast
  qed
  then show ?thesis using floor_log_eq by auto
qed

lemma floor_log_mono: "0 < q \<Longrightarrow> q \<le> r \<Longrightarrow> floor_log q \<le> floor_log r"
proof (rule ccontr)
  assume *: "0 < q" "q \<le> r" "\<not> floor_log q \<le> floor_log r"
  then have "(2::rat) powi (floor_log r + 1) \<le> 2 powi floor_log q" by (intro power_int_increasing) auto
  moreover have "2 powi floor_log q \<le> q" "r < 2 powi (floor_log r + 1)"
    using floor_log_bounds [of q] floor_log_bounds [of r] * by auto
  ultimately show False using \<open>q \<le> r\<close> by linarith
qed

lemma round_even_mono: "q \<le> r \<Longrightarrow> round_even q \<le> round_even r"
  using floor_mono [of q r] unfolding round_even_def Let_def
  by (cases "\<lfloor>q\<rfloor> = \<lfloor>r\<rfloor>") (auto split: if_splits)

lemma round_even_of_int [simp]: "round_even (of_int n) = n"
  by (simp add: round_even_def)

lemma round_even_bounds: "of_int m \<le> q \<Longrightarrow> m \<le> round_even q" "q \<le> of_int m \<Longrightarrow> round_even q \<le> m"
  using round_even_mono [of "of_int m" q] round_even_mono [of q "of_int m"] by simp_all

text \<open>Rounding is monotone, and exact on the values of numbers.\<close>

lemma scaled_bounds:
  assumes "0 < q"
  shows "q / 2 powi last_bit q < of_int 0x20000000000000"
    "- 1074 < last_bit q \<Longrightarrow> of_int 0x10000000000000 \<le> q / 2 powi last_bit q"
proof -
  have p: "(0::rat) < 2 powi last_bit q" by simp
  have "floor_log q + 1 \<le> last_bit q + 53" by (simp add: last_bit_def)
  then have "(2::rat) powi (floor_log q + 1) \<le> 2 powi (last_bit q + 53)" by (intro power_int_increasing) auto
  also have "\<dots> = 2 powi last_bit q * 0x20000000000000" by (simp add: power_int_add)
  finally have "q < 2 powi last_bit q * 0x20000000000000" using floor_log_bounds [OF assms] by linarith
  then show "q / 2 powi last_bit q < of_int 0x20000000000000" using p by (simp add: field_simps)
  assume "- 1074 < last_bit q"
  then have "floor_log q = last_bit q + 52" by (simp add: last_bit_def max_def split: if_splits)
  then have "2 powi last_bit q * 0x10000000000000 \<le> q" using floor_log_bounds [OF assms] by (simp add: power_int_add)
  then show "of_int 0x10000000000000 \<le> q / 2 powi last_bit q" using p by (simp add: field_simps)
qed

lemma round_mag_mono:
  assumes "q \<le> r"
  shows "round_mag q \<le> round_mag r"
proof (cases "0 < q")
  case True
  then have r: "0 < r" using assms by linarith
  let ?m = "\<lambda>q. round_even (q / 2 powi last_bit q)"
  have le: "last_bit q \<le> last_bit r" using floor_log_mono [OF True assms] by (simp add: last_bit_def)
  have "(last_bit q + 1074) * 0x10000000000000 + ?m q \<le> (last_bit r + 1074) * 0x10000000000000 + ?m r"
  proof (cases "last_bit q = last_bit r")
    case True
    then show ?thesis using assms by (auto intro!: round_even_mono divide_right_mono)
  next
    case False
    then have "- 1074 < last_bit r" using le by (simp add: last_bit_def)
    then have "?m q \<le> 0x20000000000000" "0x10000000000000 \<le> ?m r"
      using scaled_bounds [OF True] scaled_bounds(2) [OF r] by (auto intro!: round_even_bounds)
    moreover have "last_bit q + 1 \<le> last_bit r" using le False by simp
    then have "(last_bit q + 1 + 1074) * 0x10000000000000 \<le> (last_bit r + 1074) * 0x10000000000000" by simp
    ultimately show ?thesis by (simp add: algebra_simps)
  qed
  then show ?thesis using True r by (auto simp: round_mag_def)
next
  case False
  have "0 \<le> round_mag r" 
  proof (cases "0 < r")
    case True
    then have "0 \<le> round_even (r / 2 powi last_bit r)" by (intro round_even_bounds) simp
    moreover have "0 \<le> (last_bit r + 1074) * 0x10000000000000"
      by (intro mult_nonneg_nonneg) (simp_all add: last_bit_def)
    ultimately show ?thesis using True by (simp add: round_mag_def inf_mag_def)
  qed (simp add: round_mag_def)
  then show ?thesis using False by (simp add: round_mag_def)
qed

lemma powi_sum: "(2::rat) powi j * 2 powi k = 2 powi (j + k)"
  by (rule power_int_add [symmetric]) simp

lemma round_mag_value [simp]:
  assumes "0 \<le> m" "m < inf_mag"
  shows "round_mag (mag_value m) = m"
proof (cases "m = 0")
  case True
  then show ?thesis by (simp add: round_mag_def mag_value_def)
next
  case False
  let ?e = "m div 0x10000000000000" let ?f = "m mod 0x10000000000000"
  have f: "0 \<le> ?f" "?f < 0x10000000000000" "m = ?e * 0x10000000000000 + ?f" "0 \<le> ?e" using assms(1) by (simp_all add: pos_imp_zdiv_nonneg_iff)
  define q where "q = mag_value m"
  obtain n l where q: "q = of_int n * 2 powi l" "last_bit q = l" "0 < n" "(l + 1074) * 0x10000000000000 + n = m"
  proof (cases "?e = 0")
    case True
    then have v: "q = of_int ?f * 2 powi (- 1074)" "0 < ?f" using False f by (simp_all add: q_def mag_value_def)
    then have "0 < q" by simp
    have "of_int ?f < (0x10000000000000::rat)" using f(2) by (metis of_int_less_iff of_int_numeral)
    then have "q < 2 powi (- 1074) * 2 powi 52" unfolding v(1) by (simp add: mult.commute [of _ "2 powi (- 1074)"])
    also have "\<dots> = 2 powi (- 1022)" by (simp flip: power_int_add)
    finally have "\<not> - 1022 \<le> floor_log q"
      using floor_log_bounds [OF \<open>0 < q\<close>] power_int_increasing [of "- 1022" "floor_log q" "2::rat"] by auto
    then have "last_bit q = - 1074" by (simp add: last_bit_def)
    moreover have "(- 1074 + 1074) * 0x10000000000000 + ?f = m" using f(3) True by simp
    ultimately show ?thesis using that v by blast
  next
    case e: False
    let ?n = "0x10000000000000 + ?f"
    have v: "q = of_int ?n * 2 powi (?e - 1075)" using e by (simp add: q_def mag_value_def Let_def)
    have "(0x10000000000000::rat) \<le> of_int ?n" "of_int ?n < (0x20000000000000::rat)"
      using f(1,2) by (simp_all only: of_int_numeral_le_iff of_int_less_numeral_iff)
    then have "2 powi (?e - 1075) * 2 powi 52 \<le> q" "q < 2 powi (?e - 1075) * 2 powi 53"
      unfolding v by (simp_all add: mult.commute [of _ "2 powi (?e - 1075)"])
    moreover have "(2::rat) powi (?e - 1075) * 2 powi 52 = 2 powi (?e - 1023)" "(2::rat) powi (?e - 1075) * 2 powi 53 = 2 powi (?e - 1023 + 1)"
      unfolding powi_sum by (rule arg_cong [of _ _ "\<lambda>k. 2 powi k"], simp)+
    ultimately have "floor_log q = ?e - 1023" by (intro floor_log_eq) (simp_all only:)
    then have "last_bit q = ?e - 1075" using e f(4) by (simp add: last_bit_def)
    moreover have "(?e - 1075 + 1074) * 0x10000000000000 + ?n = ?e * 0x10000000000000 + ?f"
      by (simp only: left_diff_distrib distrib_right)
    moreover have "0 < ?n" using f(1) by linarith
    ultimately show ?thesis using that v f(3) by metis
  qed
  then have "0 < q" "q / 2 powi last_bit q = of_int n" by simp_all
  moreover have "(last_bit q + 1074) * 0x10000000000000 + n = m" using q by simp
  ultimately have "round_mag q = min inf_mag m" unfolding round_mag_def by (simp only: round_even_of_int not_le [symmetric]) simp
  then show ?thesis using assms(2) by (simp add: q_def)
qed

section \<open>Order\<close>

lemma d_mag_bounds [simp]: "0 \<le> d_mag x" "d_mag x < 0x8000000000000000"
  by (simp_all add: d_mag_def)

lemma make_double_parts:
  assumes "0 \<le> m" "m < 0x8000000000000000"
  shows "d_mag (make_double neg m) = m" "d_neg (make_double neg m) = neg"
proof -
  have "uint (make_double neg m) = m + (if neg then 0x8000000000000000 else 0)"
    using assms by (simp add: make_double_def word_of_int_inverse uint_word_of_int take_bit_eq_mod del: of_int_add)
  then show "d_mag (make_double neg m) = m" "d_neg (make_double neg m) = neg"
    using assms by (simp_all add: d_mag_def d_neg_def)
qed

lemma make_number_parts [simp]:
  "0 \<le> m \<Longrightarrow> m \<le> inf_mag \<Longrightarrow> d_mag (make_double neg m) = m"
  "0 \<le> m \<Longrightarrow> m \<le> inf_mag \<Longrightarrow> d_neg (make_double neg m) = neg"
  by (simp_all add: make_double_parts inf_mag_def)

lemma d_minus_parts [simp]: "d_mag (d_minus x) = d_mag x" "d_neg (d_minus x) \<longleftrightarrow> \<not> d_neg x"
  by (simp_all add: d_minus_def make_double_parts)

lemma d_minus_simps [simp]:
  "isnan (d_minus x) = isnan x" "isinf (d_minus x) = isinf x" "is_finite (d_minus x) = is_finite x" "d_val (d_minus x) = - d_val x"
  by (simp_all add: isnan_def isinf_def is_finite_def d_val_def)

lemma round_mag_bounds [simp]: "0 \<le> round_mag q" "round_mag q \<le> inf_mag"
proof -
  have "round_mag (min q 0) = 0" by (simp add: round_mag_def)
  then show "0 \<le> round_mag q" using round_mag_mono [of "min q 0" q] by simp
  show "round_mag q \<le> inf_mag" by (simp add: round_mag_def inf_mag_def)
qed

lemma finite_not_nan: "is_finite x \<Longrightarrow> \<not> isnan x \<and> \<not> isinf x"
  by (simp add: is_finite_def isnan_def isinf_def)

lemma number_cases: "isnan x \<or> isinf x \<or> is_finite x"
  by (auto simp: is_finite_def isnan_def isinf_def)

lemma mag_value_bounds [simp]: "0 \<le> m \<Longrightarrow> 0 \<le> mag_value m"
  by (simp add: mag_value_def Let_def pos_imp_zdiv_nonneg_iff)

lemma mag_value_le_iff:
  assumes "0 \<le> m" "m < inf_mag" "0 \<le> n" "n < inf_mag"
  shows "mag_value m \<le> mag_value n \<longleftrightarrow> m \<le> n"
proof
  show "mag_value m \<le> mag_value n \<Longrightarrow> m \<le> n"
    using round_mag_mono [of "mag_value m" "mag_value n"] assms by simp
  assume "m \<le> n"
  show "mag_value m \<le> mag_value n"
  proof (rule ccontr)
    assume "\<not> mag_value m \<le> mag_value n"
    then have "round_mag (mag_value n) \<le> round_mag (mag_value m)" by (intro round_mag_mono) simp
    then have "m = n" using \<open>m \<le> n\<close> assms by simp
    then show False using \<open>\<not> mag_value m \<le> mag_value n\<close> by simp
  qed
qed

lemma mag_value_0 [simp]: "mag_value 0 = 0"
  by (simp add: mag_value_def)

lemma d_mag_finite: "is_finite x \<Longrightarrow> d_mag x < inf_mag"
  by (simp add: is_finite_def)

lemma d_rank_le_iff:
  assumes "is_finite a" "is_finite b"
  shows "d_rank a \<le> d_rank b \<longleftrightarrow> d_val a \<le> d_val b"
proof -
  note m = mag_value_le_iff [OF d_mag_bounds(1) d_mag_finite d_mag_bounds(1) d_mag_finite]
  have z: "mag_value (d_mag x) \<le> 0 \<longleftrightarrow> d_mag x = 0" if "is_finite x" for x
  proof -
    have "mag_value (d_mag x) \<le> mag_value 0 \<longleftrightarrow> d_mag x \<le> 0"
      by (intro mag_value_le_iff d_mag_finite that d_mag_bounds) (simp_all add: inf_mag_def)
    then show ?thesis using d_mag_bounds(1) [of x] by (simp only: mag_value_0) linarith
  qed
  define u v where "u = mag_value (d_mag a)" and "v = mag_value (d_mag b)"
  have uv: "0 \<le> u" "0 \<le> v" "u \<le> 0 \<longleftrightarrow> d_mag a = 0" "v \<le> 0 \<longleftrightarrow> d_mag b = 0"
    "u \<le> v \<longleftrightarrow> d_mag a \<le> d_mag b" "v \<le> u \<longleftrightarrow> d_mag b \<le> d_mag a"
    using z [OF assms(1)] z [OF assms(2)] m [OF assms] m [OF assms(2,1)] by (simp_all add: u_def v_def)
  define p q where "p = d_mag a" and "q = d_mag b"
  have pq: "0 \<le> p" "0 \<le> q" by (simp_all add: p_def q_def)
  have opposite: "p \<le> - q \<longleftrightarrow> p = 0 \<and> q = 0" "- p \<le> q" "u \<le> - v \<longleftrightarrow> u \<le> 0 \<and> v \<le> 0" "- u \<le> v"
    using uv(1,2) pq by auto
  have "d_rank a = (if d_neg a then - p else p)" "d_rank b = (if d_neg b then - q else q)"
    "d_val a = (if d_neg a then - u else u)" "d_val b = (if d_neg b then - v else v)"
    by (simp_all only: d_rank_def d_val_def p_def q_def u_def v_def)
  then show ?thesis
    by (cases "d_neg a"; cases "d_neg b")
      (simp_all only: if_True if_False neg_le_iff_le opposite uv(3-6) p_def [symmetric] q_def [symmetric])
qed

lemma d_less_iff: "is_finite a \<Longrightarrow> is_finite b \<Longrightarrow> d_less a b \<longleftrightarrow> d_val a < d_val b"
  using d_rank_le_iff [of b a] by (auto simp: d_less_def finite_not_nan)

lemma d_le_iff: "is_finite a \<Longrightarrow> is_finite b \<Longrightarrow> d_le a b \<longleftrightarrow> d_val a \<le> d_val b"
  using d_rank_le_iff [of a b] by (auto simp: d_le_def finite_not_nan)

lemma d_order:
  "d_less a b \<Longrightarrow> d_less b c \<Longrightarrow> d_less a c" "d_le a b \<Longrightarrow> d_le b c \<Longrightarrow> d_le a c"
  "d_less a b \<Longrightarrow> d_le a b" "d_le a b \<Longrightarrow> d_less b c \<Longrightarrow> d_less a c" "d_less a b \<Longrightarrow> d_le b c \<Longrightarrow> d_less a c"
  "\<not> isnan a \<Longrightarrow> d_le a a" "\<not> isnan a \<Longrightarrow> \<not> isnan b \<Longrightarrow> \<not> d_less a b \<longleftrightarrow> d_le b a"
  "\<not> d_less a a"
  by (auto simp: d_less_def d_le_def)

lemma d_order_nan: "d_less a b \<Longrightarrow> \<not> isnan a \<and> \<not> isnan b" "d_le a b \<Longrightarrow> \<not> isnan a \<and> \<not> isnan b"
  by (auto simp: d_less_def d_le_def)

section \<open>Results of operations\<close>

lemma double_eq_iff: "x = y \<longleftrightarrow> d_neg x = d_neg y \<and> d_mag x = d_mag y"
proof -
  have "uint x = d_mag x + (if d_neg x then 0x8000000000000000 else 0)" for x :: double
  proof (cases "d_neg x")
    case True
    then have "uint x mod 0x8000000000000000 = (uint x - 0x8000000000000000) mod 0x8000000000000000" by simp
    also have "\<dots> = uint x - 0x8000000000000000"
      using True uint_lt2p [of x] by (intro mod_pos_pos_trivial) (simp_all add: d_neg_def)
    finally show ?thesis using True by (simp add: d_mag_def)
  next
    case False
    then show ?thesis using uint_ge_0 [of x] by (simp add: d_mag_def d_neg_def mod_pos_pos_trivial)
  qed
  from this [of x] this [of y] show ?thesis unfolding word_uint_eq_iff [of x y] by (simp only:) (auto simp: d_mag_def d_neg_def)
qed

lemma d_of_parts [simp]: "d_mag (d_of q) = round_mag \<bar>q\<bar>" "d_neg (d_of q) \<longleftrightarrow> q < 0"
  by (simp_all add: d_of_def)

lemma d_rank_d_of: "d_rank (d_of q) = (if q < 0 then - round_mag (- q) else round_mag q)"
  by (simp add: d_rank_def)

lemma d_of_not_nan [simp]: "\<not> isnan (d_of q)"
  using round_mag_bounds(2) [of "\<bar>q\<bar>"] by (simp add: isnan_def not_less del: round_mag_bounds)

lemma d_of_mono: "q \<le> r \<Longrightarrow> d_le (d_of q) (d_of r)"
proof -
  assume "q \<le> r"
  moreover have "round_mag 0 = 0" by (simp add: round_mag_def)
  ultimately have "d_rank (d_of q) \<le> d_rank (d_of r)"
    using round_mag_mono [of q r] round_mag_mono [of "- r" "- q"] round_mag_bounds(1) [of "- q"] round_mag_bounds(1) [of r]
    by (auto simp: d_rank_d_of simp del: round_mag_bounds)
  then show "d_le (d_of q) (d_of r)" by (simp add: d_le_def)
qed

lemma round_mag_val: "is_finite x \<Longrightarrow> round_mag \<bar>d_val x\<bar> = d_mag x"
  by (simp add: d_val_def d_mag_finite)

lemma d_val_0_iff: "is_finite x \<Longrightarrow> d_val x = 0 \<longleftrightarrow> d_mag x = 0"
  using round_mag_val [of x] by (auto simp: d_val_def round_mag_def split: if_splits)

lemma d_of_val:
  assumes "is_finite x" "d_val x \<noteq> 0"
  shows "d_of (d_val x) = x"
proof -
  have "mag_value (d_mag x) \<noteq> 0" using assms(2) by (cases "d_neg x") (simp_all add: d_val_def)
  then have "0 < mag_value (d_mag x)" using mag_value_bounds [OF d_mag_bounds(1), of x] by linarith
  then show ?thesis using round_mag_val [OF assms(1)] by (simp add: double_eq_iff) (simp add: d_val_def)
qed

lemma is_finite_make [simp]: "0 \<le> m \<Longrightarrow> m < inf_mag \<Longrightarrow> is_finite (make_double neg m)"
  by (simp add: is_finite_def)

lemma exact_value:
  assumes "0 \<le> m" "m < inf_mag" "\<bar>q\<bar> = mag_value m"
  shows "is_finite (d_of q)" "d_val (d_of q) = q"
proof -
  have "round_mag \<bar>q\<bar> = m" using assms by simp
  then show "is_finite (d_of q)" "d_val (d_of q) = q" using assms by (auto simp: is_finite_def d_val_def)
qed

text \<open>Integers of up to 53 bits are numbers.\<close>

lemma int_mag_value:
  assumes "0 < n" "n \<le> 0x20000000000000"
  obtains m where "0 < m" "m < inf_mag" "mag_value m = of_int n"
proof (cases "n = 0x20000000000000")
  case True
  then show ?thesis using that [of "1076 * 0x10000000000000"] by (simp add: inf_mag_def mag_value_def power_int_def)
next
  case False
  from bit_length_powers [OF assms(1)] obtain k where k: "2 ^ k \<le> n" "n < 2 ^ Suc k" .
  have "(2::int) ^ k < 2 ^ 53" using k(1) assms(2) False by simp
  then have k53: "k < 53" by (rule power_less_imp_less_exp [rotated]) simp
  define f where "f = n * 2 ^ (52 - k)"
  have p: "(2::int) ^ k * 2 ^ (52 - k) = 0x10000000000000" using k53 by (simp flip: power_add)
  have "2 ^ k * 2 ^ (52 - k) \<le> f" "f < 2 ^ Suc k * 2 ^ (52 - k)" using k by (simp_all add: f_def)
  then have f: "0x10000000000000 \<le> f" "f < 0x20000000000000" using p by simp_all
  define e where "e = int k + 1023"
  let ?m = "e * 0x10000000000000 + (f - 0x10000000000000)"
  have "(f - 0x10000000000000) mod 0x10000000000000 = f - 0x10000000000000" "(f - 0x10000000000000) div 0x10000000000000 = 0"
    using f by (intro mod_pos_pos_trivial div_pos_pos_trivial; linarith)+
  then have m: "?m div 0x10000000000000 = e" "?m mod 0x10000000000000 = f - 0x10000000000000" by simp_all
  have "mag_value ?m = of_int f * 2 powi (int k - 52)" unfolding mag_value_def Let_def m by (simp add: e_def)
  also have "(2::rat) powi (int k - 52) = 1 / 2 ^ (52 - k)" using k53 by (cases "k = 52") (simp_all add: power_int_def nat_diff_distrib power_divide)
  finally have "mag_value ?m = of_int n" by (simp add: f_def)
  moreover have "0 < ?m" "?m < inf_mag" using f k53 by (simp_all add: e_def inf_mag_def)
  ultimately show ?thesis using that by blast
qed

lemma d_of_int_exact:
  assumes "\<bar>n\<bar> \<le> 0x20000000000000"
  shows "is_finite (d_of_int n)" "d_val (d_of_int n) = of_int n"
proof -
  have "\<exists>m. 0 \<le> m \<and> m < inf_mag \<and> \<bar>of_int n\<bar> = mag_value m"
  proof (cases "n = 0")
    case True
    then show ?thesis by (intro exI [of _ 0]) (simp add: inf_mag_def)
  next
    case False
    then have "0 < \<bar>n\<bar>" by simp
    from int_mag_value [OF this assms] obtain m where "0 < m" "m < inf_mag" "mag_value m = of_int \<bar>n\<bar>" .
    then show ?thesis by (intro exI [of _ m]) simp
  qed
  then show "is_finite (d_of_int n)" "d_val (d_of_int n) = of_int n"
    using exact_value by (auto simp: d_of_int_def)
qed

lemma d_add_finite:
  assumes "is_finite a" "is_finite b" "d_val a + d_val b \<noteq> 0"
  shows "d_add a b = d_of (d_val a + d_val b)"
  using assms by (simp add: d_add_def finite_not_nan)

lemma d1_val [simp]: "is_finite d1" "d_val d1 = 1"
proof -
  have "d_mag d1 = 0x3FF0000000000000" "\<not> d_neg d1" by (simp_all add: d_mag_def d_neg_def d1_def)
  then show "is_finite d1" "d_val d1 = 1" by (simp_all add: is_finite_def d_val_def mag_value_def inf_mag_def power_int_def power_divide)
qed

lemma d_of_int_0 [simp]: "d_of_int 0 = d0"
  by (simp add: d_of_int_def d_of_def round_mag_def make_double_def d0_def)

lemma d_incr_of_int:
  assumes "0 \<le> n" "n < 0x20000000000000"
  shows "d_incr (d_of_int n) = d_of_int (n + 1)"
proof -
  have "is_finite (d_of_int n)" "d_val (d_of_int n) = of_int n" using assms by (simp_all add: d_of_int_exact)
  moreover have "of_int n + (1::rat) \<noteq> 0"
    using assms(1) by (metis of_int_0_le_iff add_nonneg_eq_0_iff zero_neq_one zero_le_one)
  ultimately show ?thesis unfolding d_incr_def d_of_int_def [of "n + 1"] by (subst d_add_finite) simp_all
qed

lemma d_of_1 [simp]: "d_of 1 = d1"
  using d_of_val [of d1] by simp

lemma d_incr_0 [simp]: "d_incr d0 = d1"
  using d_incr_of_int [of 0] by (simp add: d_of_int_def [of 1])

lemma d_sub_finite:
  assumes "is_finite a" "is_finite b"
  shows "d_sub a b = (if d_val a = d_val b then make_double (d_neg a \<and> \<not> d_neg b) 0 else d_of (d_val a - d_val b))"
  using assms by (simp add: d_sub_def d_add_def finite_not_nan)

lemma d_mul_finite:
  assumes "is_finite a" "is_finite b"
  shows "d_mul a b = make_double (d_neg a \<noteq> d_neg b) (round_mag \<bar>d_val a * d_val b\<bar>)"
  using assms by (simp add: d_mul_def finite_not_nan)

lemma d_add_zero:
  assumes "d_mag z = 0" "is_finite x" "d_mag x \<noteq> 0"
  shows "d_add z x = x" "d_add x z = x"
proof -
  have z: "is_finite z" "d_val z = 0" using assms(1) by (simp_all add: is_finite_def inf_mag_def d_val_def)
  have "d_val x \<noteq> 0" using assms by (simp add: d_val_0_iff)
  then show "d_add z x = x" "d_add x z = x" using z assms(2) by (simp_all add: d_add_finite d_of_val)
qed

lemma is_finite_d_of: "is_finite (d_of q) \<longleftrightarrow> round_mag \<bar>q\<bar> < inf_mag"
  by (simp add: is_finite_def)

section \<open>Validity\<close>

lemma invalid_param_invalid [simp]: "\<not> is_param_valid invalid_param" "isnan invalid_param"
  by code_simp+

lemma quiet_nan_valid [simp]: "is_param_valid quiet_nan" "isnan quiet_nan"
  by code_simp+

lemma not_nan_valid: "\<not> isnan x \<Longrightarrow> is_param_valid x"
  by (simp add: is_param_valid_def)

lemma d_of_valid [simp]: "is_param_valid (d_of q)"
  by (simp add: not_nan_valid)

lemma quiet_nan_or: "isnan x \<Longrightarrow> isnan (quiet x)"
proof -
  have m: "d_mag y = take_bit 63 (uint y)" for y by (simp add: d_mag_def take_bit_eq_mod)
  have "d_mag (quiet x) = d_mag x OR 0x8000000000000"
    unfolding m by (simp add: quiet_def uint_or take_bit_or)
  then have "d_mag x \<le> d_mag (quiet x)" by (simp add: or_greater_eq)
  then show "isnan x \<Longrightarrow> isnan (quiet x)" by (simp add: isnan_def)
qed

lemma quiet_valid [simp]: "isnan x \<Longrightarrow> is_param_valid (quiet x) \<longleftrightarrow> is_param_valid x"
proof -
  have "get_payload (quiet x) = get_payload x"
  proof (rule bit_word_eqI)
    have "quiet x = x OR 2 ^ 51" by (simp add: quiet_def)
    then show "bit (get_payload (quiet x)) n = bit (get_payload x) n" if "n < LENGTH(32)" for n
      using that by (simp only: get_payload_def bit_simps bit_exp_iff) auto
  qed
  then show "isnan x \<Longrightarrow> is_param_valid (quiet x) \<longleftrightarrow> is_param_valid x"
    by (simp add: is_param_valid_def quiet_nan_or)
qed

lemma make_number_valid [simp]: "0 \<le> m \<Longrightarrow> m \<le> inf_mag \<Longrightarrow> is_param_valid (make_double neg m)"
  by (simp add: is_param_valid_def isnan_def)

lemma isnan_d_minus_valid: "\<not> isnan x \<Longrightarrow> is_param_valid (d_minus x)"
  by (simp add: not_nan_valid)

lemma inf_mag_nonneg [simp]: "0 \<le> inf_mag" by (simp add: inf_mag_def)

text \<open>Calculations with valid parameters have valid results.\<close>

lemma d_add_valid: "is_param_valid a \<Longrightarrow> is_param_valid b \<Longrightarrow> is_param_valid (d_add a b)"
  by (simp add: d_add_def not_nan_valid)

lemma d_sub_valid: "is_param_valid a \<Longrightarrow> is_param_valid b \<Longrightarrow> is_param_valid (d_sub a b)"
  by (simp add: d_sub_def d_add_valid isnan_d_minus_valid)

lemma d_mul_valid: "is_param_valid a \<Longrightarrow> is_param_valid b \<Longrightarrow> is_param_valid (d_mul a b)"
  by (simp add: d_mul_def Let_def)

lemma d_div_valid: "is_param_valid a \<Longrightarrow> is_param_valid b \<Longrightarrow> is_param_valid (d_div a b)"
  by (simp add: d_div_def Let_def)

end
