(* ===== verification/Singles.thy ===== *)
theory Singles
  imports Doubles
begin

text \<open>
  The type \<^verbatim>\<open>float\<close> where the code computes with it on small positive numbers: a value is rounded to 24
  significant bits, ties to even. The numbers that are rounded here lie between $2^{-126}$ and $2^{128}$, so that
  neither an underflow nor an overflow occurs.
\<close>

definition single_round :: "rat \<Rightarrow> rat" where
  "single_round q =
     (if q \<le> 0 then 0
      else let s = 2 powi (floor_log q - 23) in of_int (round_even (q / s)) * s)"

lemma single_round_eq:
  assumes "2 powi k \<le> q" "q < 2 powi (k + 1)"
  shows "single_round q = of_int (round_even (q / 2 powi (k - 23))) * 2 powi (k - 23)"
proof -
  have "\<not> q \<le> 0" using assms(1) zero_less_power_int [of "2::rat" k] by linarith
  then show ?thesis by (simp add: single_round_def floor_log_eq [OF assms] Let_def)
qed

lemma single_round_zero [simp]: "single_round 0 = 0"
  by (simp add: single_round_def)

lemma floor_log_below:
  assumes "0 < q" "q < 2 ^ n"
  shows "floor_log q < int n"
proof (rule ccontr)
  assume "\<not> floor_log q < int n"
  then have "(2::rat) powi int n \<le> 2 powi floor_log q" by (intro power_int_increasing) auto
  then show False using assms(2) floor_log_bounds [OF assms(1)] by simp
qed

text \<open>A multiple of a power of two that is not finer than the last bit is a bound of the rounded number too.\<close>

lemma multiple_of_last_bit:
  assumes "floor_log q \<le> j + 23"
  obtains k where "of_int z * 2 powi j = of_int k * (2 powi (floor_log q - 23) :: rat)"
proof
  define i where "i = nat (j + 23 - floor_log q)"
  have "j = int i + (floor_log q - 23)" using assms by (simp add: i_def)
  then have "(2::rat) powi j = 2 ^ i * 2 powi (floor_log q - 23)" by (simp add: power_int_add)
  then show "of_int z * (2::rat) powi j = of_int (z * 2 ^ i) * 2 powi (floor_log q - 23)" by simp
qed

lemma single_round_bounds:
  assumes "0 < q" "floor_log q \<le> j + 23"
  shows "of_int z * 2 powi j \<le> q \<Longrightarrow> of_int z * 2 powi j \<le> single_round q"
    "q \<le> of_int z * 2 powi j \<Longrightarrow> single_round q \<le> of_int z * 2 powi j"
proof -
  let ?s = "2 powi (floor_log q - 23) :: rat"
  obtain k where k: "of_int z * 2 powi j = of_int k * ?s" using multiple_of_last_bit [OF assms(2)] .
  have r: "single_round q = of_int (round_even (q / ?s)) * ?s" using assms(1) by (simp add: single_round_def Let_def)
  have pos: "0 < ?s" by simp
  show "of_int z * 2 powi j \<le> single_round q" if "of_int z * 2 powi j \<le> q"
  proof -
    have "of_int k \<le> q / ?s" using that pos unfolding k by (simp only: pos_le_divide_eq)
    from round_even_bounds(1) [OF this] show ?thesis unfolding k r using pos by simp
  qed
  show "single_round q \<le> of_int z * 2 powi j" if "q \<le> of_int z * 2 powi j"
  proof -
    have "q / ?s \<le> of_int k" using that pos unfolding k by (simp only: pos_divide_le_eq)
    from round_even_bounds(2) [OF this] show ?thesis unfolding k r using pos by simp
  qed
qed

lemma single_round_exact:
  assumes "0 < q" "q = of_int z * 2 powi j" "floor_log q \<le> j + 23"
  shows "single_round q = q"
  using single_round_bounds [OF assms(1,3), of z] assms(2) by simp

lemma round_even_above: "of_int m + 1 / 2 < q \<Longrightarrow> m < round_even q"
proof -
  assume q: "of_int m + 1 / 2 < q"
  then have "m \<le> \<lfloor>q\<rfloor>" by (simp add: le_floor_iff)
  then show "m < round_even q" using q by (cases "\<lfloor>q\<rfloor> = m") (auto simp: round_even_def Let_def)
qed

text \<open>A number below 32 that exceeds a whole number by more than half of the last bit is rounded to a greater one.\<close>

lemma single_round_above:
  assumes "of_int k + 1 / 2 ^ 20 < q" "q < 32" "0 \<le> k"
  shows "of_int k < single_round q"
proof -
  let ?s = "2 powi (floor_log q - 23) :: rat"
  have "0 < of_int k + (1 / 2 ^ 20 :: rat)" using assms(3) by (intro add_nonneg_pos) simp_all
  then have q: "0 < q" using assms(1) by (rule less_trans)
  then have e: "floor_log q \<le> 4" using floor_log_below [of q 5] assms(2) by simp
  then have "?s \<le> 2 powi (- 19)" by (intro power_int_increasing) auto
  also have "2 powi (- 19) = (2 / 2 ^ 20 :: rat)" by (simp add: power_int_minus field_simps)
  finally have half: "?s / 2 \<le> 1 / 2 ^ 20" by simp
  obtain m where m: "of_int k * 2 powi 0 = of_int m * ?s" using multiple_of_last_bit [of q 0 k] e by auto
  have "of_int m * ?s + ?s / 2 < q" using assms(1) half m by simp
  then have "of_int m + 1 / 2 < q / ?s" by (simp add: pos_less_divide_eq algebra_simps)
  from round_even_above [OF this] have "of_int m * ?s < of_int (round_even (q / ?s)) * ?s" by simp
  then show ?thesis using m q by (simp add: single_round_def Let_def)
qed

lemma single_round_ceiling:
  assumes "of_int k + 1 / 2 ^ 20 < q" "q \<le> of_int (k + 1)" "0 \<le> k" "k < 31"
  shows "\<lceil>single_round q\<rceil> = k + 1"
proof -
  have "of_int (k + 1) < (32 :: rat)" using assms(4) by linarith
  then have less: "q < 32" using assms(2) by linarith
  have "0 < of_int k + (1 / 2 ^ 20 :: rat)" using assms(3) by (intro add_nonneg_pos) simp_all
  then have pos: "0 < q" using assms(1) by linarith
  then have "floor_log q \<le> 0 + 23" using floor_log_below [of q 5] less by simp
  from single_round_bounds(2) [OF pos this, of "k + 1"] assms(2) have "single_round q \<le> of_int (k + 1)" by simp
  with single_round_above [OF assms(1) less assms(3)] show ?thesis by (intro ceiling_unique) simp_all
qed

text \<open>Whole numbers below $2^{24}$, and multiples of four up to $2^{26}$, are numbers of the type.\<close>

lemma single_round_small: "0 < n \<Longrightarrow> n < 2 ^ 24 \<Longrightarrow> single_round (of_nat n) = of_nat n"
proof (rule single_round_exact [where z = "int n" and j = 0])
  assume n: "0 < n" "n < 2 ^ 24"
  then have "of_nat n < (of_nat (2 ^ 24) :: rat)" by (simp only: of_nat_less_iff)
  then show "floor_log (of_nat n) \<le> 0 + 23" using n floor_log_below [of "of_nat n" 24] by simp
qed simp_all

lemma single_round_words:
  assumes "0 < n" "n < 2 ^ 24"
  shows "single_round (of_nat (4 * n)) = of_nat (4 * n)"
proof (rule single_round_exact [where z = "int n" and j = 2])
  from assms have "of_nat (4 * n) < (of_nat (2 ^ 26) :: rat)" by (simp only: of_nat_less_iff) simp
  then show "floor_log (of_nat (4 * n)) \<le> 2 + 23" using assms floor_log_below [of "of_nat (4 * n)" 26] by simp
qed (use assms in simp_all)

end
