(* ===== verification/Listfile_IO.thy ===== *)
theory Listfile_IO
  imports Listfile_Format Singles "HOL-Library.Sublist"
begin

text \<open>
  Reading and writing of listfiles, \<^verbatim>\<open>src/src/mvme_listfile_utils.cc\<close> with \<^verbatim>\<open>seek_in_file\<close> of
  \<^verbatim>\<open>src/src/util_zip.cc\<close>. Words are stored with the lowest byte first. The loop that fills a buffer reads as many
  sections as fit; what is left of the file and a header that was read ahead make up the pending bytes.
\<close>

section \<open>Devices\<close>

text \<open>A file that is read: a plain file or a file in a ZIP archive. Reads return what is there.\<close>

record InDevice =
  in_bytes :: "u8 list"
  in_pos :: nat
  in_open :: bool
  can_open :: bool
  is_zip :: bool

definition dev_rest :: "InDevice \<Rightarrow> u8 list" where
  "dev_rest d = drop (in_pos d) (in_bytes d)"

definition dev_at_end :: "InDevice \<Rightarrow> bool" where
  "dev_at_end d \<longleftrightarrow> dev_rest d = []"

definition dev_read :: "nat \<Rightarrow> InDevice \<Rightarrow> u8 list \<times> InDevice" where
  "dev_read n d = (let bs = take n (dev_rest d) in (bs, d\<lparr>in_pos := in_pos d + length bs\<rparr>))"

text \<open>A file in an archive is opened again and read byte by byte.\<close>

definition seek_in_file :: "nat \<Rightarrow> InDevice \<Rightarrow> bool \<times> InDevice" where
  "seek_in_file p d =
     (if is_zip d
      then if can_open d
           then (p \<le> length (in_bytes d), d\<lparr>in_open := True, in_pos := min p (length (in_bytes d))\<rparr>)
           else (False, d\<lparr>in_open := False\<rparr>)
      else (True, d\<lparr>in_pos := p\<rparr>))"

text \<open>A file that is written, with room for \<open>out_room\<close> more bytes.\<close>

record OutDevice =
  out_bytes :: "u8 list"
  out_room :: nat

definition dev_write :: "u8 list \<Rightarrow> OutDevice \<Rightarrow> nat \<times> OutDevice" where
  "dev_write bs d =
     (let ws = take (out_room d) bs
      in (length ws, d\<lparr>out_bytes := out_bytes d @ ws, out_room := out_room d - length ws\<rparr>))"

section \<open>Reading\<close>

text \<open>The JSON library: \<open>from_json\<close> gives the object of a document, \<^const>\<open>None\<close> for an empty or invalid one.\<close>

record 'j JsonLib =
  from_json :: "u8 list \<Rightarrow> 'j option"
  json_value :: "'j \<Rightarrow> string \<Rightarrow> 'j option"
  json_empty :: "'j \<Rightarrow> bool"
  no_object :: 'j

record 'j ListFile =
  lf_input :: InDevice
  lf_configJson :: 'j
  lf_fileVersion :: u32
  lf_sectionHeaderBuffer :: u32
  lf_preambleBuffer :: "u8 list"

definition new_listfile :: "'j JsonLib \<Rightarrow> InDevice \<Rightarrow> 'j ListFile" where
  "new_listfile lib d = \<lparr>lf_input = d, lf_configJson = no_object lib, lf_fileVersion = 0, lf_sectionHeaderBuffer = 0,
     lf_preambleBuffer = []\<rparr>"

definition string_bytes :: "string \<Rightarrow> u8 list" where
  "string_bytes s = map of_char s"

definition bytes_word :: "u8 list \<Rightarrow> u32" where
  "bytes_word bs = word_of (bs ! 0) (bs ! 1) (bs ! 2) (bs ! 3)"

definition seek_listfile :: "nat \<Rightarrow> 'j ListFile \<Rightarrow> bool \<times> 'j ListFile" where
  "seek_listfile p lf =
     (let (ok, d) = seek_in_file p (lf_input lf) in (ok, lf\<lparr>lf_sectionHeaderBuffer := 0, lf_input := d\<rparr>))"

definition seekToFirstSection :: "'j ListFile \<Rightarrow> bool \<times> 'j ListFile" where
  "seekToFirstSection lf =
     seek_listfile (nat (FirstSectionOffset (listfile_constants (lf_fileVersion lf)))) lf"

text \<open>\<open>uninit\<close> is the value of the version word before it is read.\<close>

definition open_listfile :: "u32 \<Rightarrow> 'j ListFile \<Rightarrow> bool \<times> 'j ListFile" where
  "open_listfile uninit lf =
     (let lf = lf\<lparr>lf_fileVersion := 0\<rparr>;
          four = string_bytes (FourCC (listfile_constants CurrentListfileVersion));
          d = lf_input lf
      in if \<not> in_open d \<and> \<not> can_open d then (False, lf)
         else let d = (if in_open d then snd (seek_in_file 0 d) else d\<lparr>in_open := True, in_pos := 0\<rparr>);
                  (fourCC, d) = dev_read 4 d
              in if fourCC = four
                 then let (v, d) = dev_read 4 d;
                          lf = (if length v = 4 then lf\<lparr>lf_fileVersion := bytes_word v\<rparr> else lf);
                          version = v @ drop (length v) (word_bytes uninit)
                      in (True, (snd (seekToFirstSection
                            (lf\<lparr>lf_input := d, lf_preambleBuffer := lf_preambleBuffer lf @ fourCC @ version\<rparr>)))
                              \<lparr>lf_sectionHeaderBuffer := 0\<rparr>)
                 else (True, (snd (seekToFirstSection
                        (lf\<lparr>lf_input := d, lf_preambleBuffer := string_bytes ''MVME'' @ [0, 0, 0, 0]\<rparr>)))
                          \<lparr>lf_sectionHeaderBuffer := 0\<rparr>))"

lemma dev_read_rest [simp]:
  "fst (dev_read n d) = take n (dev_rest d)" "dev_rest (snd (dev_read n d)) = drop n (dev_rest d)"
  "in_bytes (snd (dev_read n d)) = in_bytes d"
  by (auto simp: dev_read_def dev_rest_def Let_def add.commute min_def)

text \<open>The contents of the configuration sections at the start of the file.\<close>

function read_config_data :: "ListfileConstants \<Rightarrow> InDevice \<Rightarrow> u8 list" where
  "read_config_data lf d =
     (let (hs, d') = dev_read 4 d; h = bytes_word hs; n = unat (getSectionSize lf h) in
      if length hs \<noteq> 4 then []
      else if getSectionType lf h \<noteq> section_code SectionType_Config \<or> n = 0 then []
      else fst (dev_read (n * 4) d') @ read_config_data lf (snd (dev_read (n * 4) d')))"
  by pat_completeness auto
termination
proof (relation "measure (\<lambda>(lf, d). length (dev_rest d))", goal_cases)
  case (2 lf d p hs d' h n)
  then have d': "hs = take 4 (dev_rest d)" "d' = snd (dev_read 4 d)"
    by (metis dev_read_rest(1) fst_conv, metis snd_conv)
  then have "4 \<le> length (dev_rest d)" using 2(5) by simp
  then show ?case using d'(2) by simp
qed simp

declare read_config_data.simps [simp del]

definition read_vme_config :: "'j JsonLib \<Rightarrow> ListfileConstants \<Rightarrow> InDevice \<Rightarrow> 'j \<times> InDevice" where
  "read_vme_config lib lf d =
     (let saved = in_pos d;
          d = snd (seek_in_file (nat (FirstSectionOffset lf)) d);
          json = (case from_json lib (read_config_data lf d) of
              None \<Rightarrow> no_object lib
            | Some obj \<Rightarrow> (case json_value lib obj ''DAQConfig'' of Some daq \<Rightarrow> daq | None \<Rightarrow> obj))
      in (json, snd (seek_in_file saved d)))"

definition getVMEConfigJSON :: "'j JsonLib \<Rightarrow> 'j ListFile \<Rightarrow> 'j \<times> 'j ListFile" where
  "getVMEConfigJSON lib lf =
     (let lf = (if json_empty lib (lf_configJson lf)
                then let (json, d) = read_vme_config lib (listfile_constants (lf_fileVersion lf)) (lf_input lf)
                     in lf\<lparr>lf_configJson := json, lf_input := d\<rparr>
                else lf)
      in (lf_configJson lf, lf))"

text \<open>Reading \<open>n\<close> bytes behind the used part, which does not move; \<^const>\<open>None\<close> if they do not fit in the memory.\<close>

definition read_into :: "nat \<Rightarrow> InDevice \<Rightarrow> DataBuffer \<Rightarrow> (nat \<times> DataBuffer \<times> InDevice) option" where
  "read_into n d b =
     (let (bs, d) = dev_read n d in map_option (\<lambda>b'. (length bs, b'\<lparr>db_used := db_used b\<rparr>, d)) (store_bytes bs b))"

definition read_next_section ::
  "(nat \<Rightarrow> u8) \<Rightarrow> ListfileConstants \<Rightarrow> InDevice \<Rightarrow> DataBuffer \<Rightarrow> u32 \<Rightarrow> (bool \<times> DataBuffer \<times> u32 \<times> InDevice) option" where
  "read_next_section uninit lf d buffer saved =
     (let (hs, d) = (if saved = 0 then dev_read 4 d else (word_bytes saved, d)) in
      if length hs \<noteq> 4 then Some (False, buffer, saved, d)
      else let h = bytes_word hs;
               bytes = unat (getSectionSize lf h) * 4;
               buffer = buffer\<lparr>db_used := 0\<rparr>
           in if bytes = 0 then Some (True, buffer, 0, d)
              else Option.bind (store_bytes (word_bytes h) (reserve uninit (bytes + 4) buffer)) (\<lambda>buffer.
                Option.bind (read_into bytes d buffer) (\<lambda>(n, buffer, d).
                  if n \<noteq> bytes then Some (False, buffer, 0, d)
                  else Some (True, buffer\<lparr>db_used := db_used buffer + bytes\<rparr>, 0, d))))"

definition readNextSection :: "(nat \<Rightarrow> u8) \<Rightarrow> DataBuffer \<Rightarrow> 'j ListFile \<Rightarrow> (bool \<times> DataBuffer \<times> 'j ListFile) option" where
  "readNextSection uninit buffer lf =
     map_option (\<lambda>(ok, buffer, saved, d). (ok, buffer, lf\<lparr>lf_input := d, lf_sectionHeaderBuffer := saved\<rparr>))
       (read_next_section uninit (listfile_constants (lf_fileVersion lf)) (lf_input lf) buffer (lf_sectionHeaderBuffer lf))"

lemma read_into_rest: "read_into n d b = Some (k, b', d') \<Longrightarrow> dev_rest d' = drop n (dev_rest d)"
  using dev_read_rest(2) [of n d] by (auto simp: read_into_def simp del: dev_read_rest split: prod.splits)

text \<open>\<open>sectionsRead\<close> is the accumulator of the loop, \<open>- 1\<close> the result of a failed read.\<close>

function read_sections_into_buffer ::
  "ListfileConstants \<Rightarrow> InDevice \<Rightarrow> DataBuffer \<Rightarrow> u32 \<Rightarrow> int \<Rightarrow> (int \<times> DataBuffer \<times> u32 \<times> InDevice) option" where
  "read_sections_into_buffer lf d buffer saved sectionsRead =
     (if dev_at_end d \<or> free_space buffer < 4 then Some (sectionsRead, buffer, saved, d)
      else let r = (if saved = 0 then dev_read 4 d else (word_bytes saved, d)) in
        if length (fst r) \<noteq> 4 then Some (- 1, buffer, saved, snd r)
        else let h = bytes_word (fst r); bytes = unat (getSectionSize lf h) * 4 in
          if free_space buffer < bytes + 4 then Some (sectionsRead, buffer, h, snd r)
          else case store_bytes (word_bytes h) buffer of
                 None \<Rightarrow> None
               | Some buffer \<Rightarrow>
                   (case read_into bytes (snd r) buffer of
                      None \<Rightarrow> None
                    | Some (n, buffer, d) \<Rightarrow>
                        if n \<noteq> bytes then Some (- 1, buffer, 0, d)
                        else read_sections_into_buffer lf d (buffer\<lparr>db_used := db_used buffer + bytes\<rparr>) 0 (sectionsRead + 1)))"
  by pat_completeness auto
termination
proof (relation "measure (\<lambda>(lf, d, buffer, saved, n). length (dev_rest d) + of_bool (saved \<noteq> 0))", goal_cases)
  case (2 lf d buffer saved sectionsRead r h bytes x2 x n y b' d')
  have "dev_rest d' = drop bytes (dev_rest (snd r))" using 2 by (auto dest: read_into_rest)
  moreover have "saved = 0 \<Longrightarrow> dev_rest (snd r) = drop 4 (dev_rest d) \<and> 4 \<le> length (dev_rest d)"
    using 2(2,3) by auto
  moreover have "saved \<noteq> 0 \<Longrightarrow> dev_rest (snd r) = dev_rest d" using 2(2) by auto
  ultimately show ?case by (cases "saved = 0") auto
qed simp

declare read_sections_into_buffer.simps [simp del]

definition readSectionsIntoBuffer :: "DataBuffer \<Rightarrow> 'j ListFile \<Rightarrow> (int \<times> DataBuffer \<times> 'j ListFile) option" where
  "readSectionsIntoBuffer buffer lf =
     map_option (\<lambda>(n, buffer, saved, d). (n, buffer, lf\<lparr>lf_input := d, lf_sectionHeaderBuffer := saved\<rparr>))
       (read_sections_into_buffer (listfile_constants (lf_fileVersion lf)) (lf_input lf) buffer (lf_sectionHeaderBuffer lf) 0)"

section \<open>Writing\<close>

record Writer =
  w_out :: OutDevice
  w_bytesWritten :: u64

text \<open>One write that counts its bytes if it is complete; what follows is left out if it is not.\<close>

definition write_counted :: "u8 list \<Rightarrow> Writer \<Rightarrow> bool \<times> Writer" where
  "write_counted bs w =
     (let (n, d) = dev_write bs (w_out w)
      in (n = length bs, w\<lparr>w_out := d, w_bytesWritten := w_bytesWritten w + (if n = length bs then of_nat n else 0)\<rparr>))"

definition write_uncounted :: "u8 list \<Rightarrow> Writer \<Rightarrow> bool \<times> Writer" where
  "write_uncounted bs w = (let (n, d) = dev_write bs (w_out w) in (n = length bs, w\<lparr>w_out := d\<rparr>))"

definition and_then :: "bool \<times> Writer \<Rightarrow> (Writer \<Rightarrow> bool \<times> Writer) \<Rightarrow> bool \<times> Writer" where
  "and_then r f = (if fst r then f (snd r) else r)"

definition writePreamble :: "Writer \<Rightarrow> bool \<times> Writer" where
  "writePreamble w =
     (let lf = listfile_constants CurrentListfileVersion
      in and_then (write_uncounted (string_bytes (FourCC lf)) w) (write_uncounted (word_bytes (Version lf))))"

definition section_header :: "ListfileConstants \<Rightarrow> SectionType \<Rightarrow> u32 \<Rightarrow> u32" where
  "section_header lf ty words =
     (push_bit (SectionTypeShift lf) (section_code ty) AND SectionTypeMask lf)
     OR (push_bit (SectionSizeShift lf) words AND SectionSizeMask lf)"

fun config_sections :: "ListfileConstants \<Rightarrow> nat \<Rightarrow> u8 list \<Rightarrow> u8 list" where
  "config_sections lf 0 contents = []"
| "config_sections lf (Suc n) contents =
     (let sectionBytes = min (length contents) (unat (SectionMaxSize lf))
      in word_bytes (section_header lf SectionType_Config (of_nat (sectionBytes div 4)))
         @ take sectionBytes contents @ config_sections lf n (drop sectionBytes contents))"

text \<open>
  The number of sections is computed in single precision: both sizes are converted, which rounds them, and the
  quotient is rounded again before it is rounded up. The size of the contents is that of a \<^verbatim>\<open>QByteArray\<close>, below
  $2^{31}$.
\<close>

definition config_section_number :: "u32 \<Rightarrow> u32 \<Rightarrow> nat" where
  "config_section_number configSize maxSize =
     nat \<lceil>single_round (single_round (of_nat (unat configSize)) / single_round (of_nat (unat maxSize)))\<rceil>"

definition pad_config :: "u8 list \<Rightarrow> u8 list" where
  "pad_config contents = contents @ replicate ((4 - length contents mod 4) mod 4) (of_char CHR '' '')"

definition writeConfig :: "u8 list \<Rightarrow> Writer \<Rightarrow> bool \<times> Writer" where
  "writeConfig contents w =
     (let lf = listfile_constants CurrentListfileVersion;
          contents = pad_config contents;
          configSize = of_nat (length contents);
          configSections = config_section_number configSize (SectionMaxSize lf)
      in write_counted (config_sections lf configSections contents) w)"

definition writeBuffer :: "DataBuffer \<Rightarrow> Writer \<Rightarrow> bool \<times> Writer" where
  "writeBuffer buffer w = write_counted (used_bytes buffer) w"

text \<open>\<^const>\<open>None\<close>: a failed assertion.\<close>

definition writeStringSection :: "SectionType \<Rightarrow> u8 list \<Rightarrow> Writer \<Rightarrow> (bool \<times> Writer) option" where
  "writeStringSection ty contents w =
     (let lf = listfile_constants CurrentListfileVersion;
          paddingBytes = 4 - length contents mod 4;
          contentsBytes = length contents + paddingBytes
      in if 3 < paddingBytes \<or> unat (SectionMaxSize lf) < contentsBytes then None
         else Some (and_then (and_then (write_counted (word_bytes (section_header lf ty (of_nat (contentsBytes div 4)))) w)
                (write_counted contents)) (write_counted (replicate paddingBytes (of_char CHR '' '')))))"

text \<open>\<open>timeString\<close> is the current time in ISO format.\<close>

definition writeTimetickSection :: "u8 list \<Rightarrow> Writer \<Rightarrow> (bool \<times> Writer) option" where
  "writeTimetickSection timeString = writeStringSection SectionType_Timetick timeString"

definition writeEndSection :: "u8 list \<Rightarrow> Writer \<Rightarrow> (bool \<times> Writer) option" where
  "writeEndSection timeString = writeStringSection SectionType_End timeString"

datatype PauseAction = Pause | Resume

definition writePauseSection :: "PauseAction \<Rightarrow> Writer \<Rightarrow> bool \<times> Writer" where
  "writePauseSection pauseAction w =
     (let lf = listfile_constants CurrentListfileVersion;
          content = (case pauseAction of Pause \<Rightarrow> 0 | Resume \<Rightarrow> 1) :: u32
      in and_then (write_uncounted (word_bytes (section_header lf SectionType_Pause 1)) w)
           (write_uncounted (word_bytes content)))"

section \<open>Sections in bytes\<close>

text \<open>The words of a list of sections; a section is complete if its header holds the number of its words.\<close>

definition section_stream :: "(u32 \<times> u32 list) list \<Rightarrow> u32 list" where
  "section_stream ss = concat (map (\<lambda>(h, ws). h # ws) ss)"

definition sections_ok :: "ListfileConstants \<Rightarrow> (u32 \<times> u32 list) list \<Rightarrow> bool" where
  "sections_ok lf ss = list_all (\<lambda>(h, ws). unat (getSectionSize lf h) = length ws) ss"

lemma section_stream_simps [simp]:
  "section_stream [] = []" "section_stream ((h, ws) # ss) = h # ws @ section_stream ss"
  "section_stream (ss @ ts) = section_stream ss @ section_stream ts"
  by (simp_all add: section_stream_def)

lemma sections_ok_simps [simp]:
  "sections_ok lf []" "sections_ok lf ((h, ws) # ss) \<longleftrightarrow> unat (getSectionSize lf h) = length ws \<and> sections_ok lf ss"
  "sections_ok lf (ss @ ts) \<longleftrightarrow> sections_ok lf ss \<and> sections_ok lf ts"
  by (simp_all add: sections_ok_def)

lemma sections_ok_drop: "sections_ok lf ss \<Longrightarrow> sections_ok lf (drop n ss)"
  by (metis append_take_drop_id sections_ok_simps(3))

text \<open>The bytes that the next reads see: a header that was read ahead, then the rest of the file.\<close>

definition pending :: "u32 \<Rightarrow> InDevice \<Rightarrow> u8 list" where
  "pending saved d = (if saved = 0 then [] else word_bytes saved) @ dev_rest d"

definition header_saved :: "ListfileConstants \<Rightarrow> u32 \<Rightarrow> bool" where
  "header_saved lf saved \<longleftrightarrow> saved = 0 \<or> getSectionSize lf saved \<noteq> 0"

text \<open>The number of sections that fit into \<open>n\<close> bytes.\<close>

fun fitting :: "nat \<Rightarrow> (u32 \<times> u32 list) list \<Rightarrow> nat" where
  "fitting n [] = 0"
| "fitting n ((h, ws) # ss) =
     (if 4 * (length ws + 1) \<le> n then Suc (fitting (n - 4 * (length ws + 1)) ss) else 0)"

definition wf_buffer :: "DataBuffer \<Rightarrow> bool" where
  "wf_buffer b \<longleftrightarrow> db_used b \<le> db_size b \<and> db_size b \<le> length (db_data b)"

lemma length_word_bytes [simp]: "length (word_bytes w) = 4"
  by (simp add: word_bytes_def)

lemma bytes_word_bytes [simp]: "bytes_word (word_bytes w) = w"
proof -
  have "bytes_words (words_bytes [w]) = [w]" by (rule bytes_words_bytes)
  then show ?thesis by (simp add: word_bytes_def bytes_word_def)
qed

lemma word_bytes_eq_iff [simp]: "word_bytes v = word_bytes w \<longleftrightarrow> v = w"
  by (metis bytes_word_bytes)

lemma word_bytes_not_Nil [simp]: "word_bytes w \<noteq> []"
  by (simp add: word_bytes_def)

lemma store_bytes_ok:
  assumes "wf_buffer b" "length bs \<le> free_space b"
  obtains b' where "store_bytes bs b = Some b'" "wf_buffer b'" "db_size b' = db_size b"
    "used_bytes b' = used_bytes b @ bs" "db_used b' = db_used b + length bs" "free_space b' = free_space b - length bs"
  using assms
  by (auto simp: wf_buffer_def store_bytes_def used_bytes_def free_space_def)

lemma read_into_ok:
  assumes "wf_buffer b" "n \<le> free_space b" "n \<le> length (dev_rest d)"
  obtains b' where "read_into n d b = Some (n, b', snd (dev_read n d))" "wf_buffer (b'\<lparr>db_used := db_used b' + n\<rparr>)"
    "db_size b' = db_size b" "used_bytes (b'\<lparr>db_used := db_used b' + n\<rparr>) = used_bytes b @ take n (dev_rest d)"
    "free_space (b'\<lparr>db_used := db_used b' + n\<rparr>) = free_space b - n"
proof -
  have len: "length (take n (dev_rest d)) = n" using assms(3) by simp
  then obtain b1 where b1: "store_bytes (take n (dev_rest d)) b = Some b1" "wf_buffer b1" "db_size b1 = db_size b"
    "used_bytes b1 = used_bytes b @ take n (dev_rest d)" "db_used b1 = db_used b + n" "free_space b1 = free_space b - n"
    using store_bytes_ok [OF assms(1), of "take n (dev_rest d)"] assms(2) by auto
  have b1': "b1\<lparr>db_used := db_used b + n\<rparr> = b1" unfolding b1(5) [symmetric] by simp
  have "read_into n d b = Some (n, b1\<lparr>db_used := db_used b\<rparr>, snd (dev_read n d))"
    using b1(1) len by (simp add: read_into_def case_prod_unfold Let_def)
  then show ?thesis by (rule that) (simp_all add: b1' b1)
qed

lemma reserve_ok:
  assumes "wf_buffer b"
  shows "wf_buffer (reserve uninit n b)" "n \<le> db_size (reserve uninit n b)" "db_used (reserve uninit n b) = db_used b"
    and "used_bytes (reserve uninit n b) = used_bytes b"
  using assms by (auto simp: reserve_def wf_buffer_def used_bytes_def Let_def)

lemma getSectionSize_0 [simp]: "getSectionSize lf 0 = 0"
  by (simp add: getSectionSize_def mask_and_shift_def)

text \<open>The header of the first pending section.\<close>

lemma pending_header:
  assumes "pending saved d = word_bytes h @ bs" "header_saved lf saved"
    and "saved = 0 \<or> unat (getSectionSize lf h) * 4 \<le> length bs"
  defines "r \<equiv> (if saved = 0 then dev_read 4 d else (word_bytes saved, d))"
  shows "\<not> dev_at_end d" "fst r = word_bytes h" "dev_rest (snd r) = bs" "in_bytes (snd r) = in_bytes d"
proof -
  show h: "fst r = word_bytes h" "dev_rest (snd r) = bs" "in_bytes (snd r) = in_bytes d"
    using assms(1) by (auto simp: r_def pending_def)
  show "\<not> dev_at_end d"
  proof (cases "saved = 0")
    case False
    then have "saved = h" using h(1) by (simp add: r_def)
    then have "bs \<noteq> []" using False assms(2,3) by (auto simp: header_saved_def unat_eq_zero)
    then show ?thesis using False h(2) by (auto simp: r_def dev_at_end_def)
  qed (use assms(1) in \<open>auto simp: pending_def dev_at_end_def\<close>)
qed

text \<open>One complete section that fits.\<close>

lemma read_section_fits:
  assumes "wf_buffer b" "header_saved lf saved" "unat (getSectionSize lf h) = length ws"
    and "pending saved d = words_bytes (h # ws) @ bs" "4 * (length ws + 1) \<le> free_space b"
  obtains b' d' where "read_sections_into_buffer lf d b saved n = read_sections_into_buffer lf d' b' 0 (n + 1)"
    "wf_buffer b'" "db_size b' = db_size b" "used_bytes b' = used_bytes b @ words_bytes (h # ws)"
    "free_space b' = free_space b - 4 * (length ws + 1)" "pending 0 d' = bs" "in_bytes d' = in_bytes d"
proof -
  define r where "r = (if saved = 0 then dev_read 4 d else (word_bytes saved, d))"
  have "pending saved d = word_bytes h @ words_bytes ws @ bs" using assms(4) by simp
  from pending_header [OF this assms(2)] have r: "\<not> dev_at_end d" "fst r = word_bytes h"
    "dev_rest (snd r) = words_bytes ws @ bs" "in_bytes (snd r) = in_bytes d"
    using assms(3) by (simp_all add: r_def)
  note step = read_sections_into_buffer.simps [of lf d b saved n, folded r_def, unfolded Let_def]
  obtain b1 where b1: "store_bytes (word_bytes h) b = Some b1" "wf_buffer b1" "db_size b1 = db_size b"
    "used_bytes b1 = used_bytes b @ word_bytes h" "free_space b1 = free_space b - 4"
    using store_bytes_ok [OF assms(1), of "word_bytes h"] assms(5) by auto
  with assms(5) have "length ws * 4 \<le> free_space b1" by simp
  then obtain b2 where b2: "read_into (length ws * 4) (snd r) b1 = Some (length ws * 4, b2, snd (dev_read (length ws * 4) (snd r)))"
    "wf_buffer (b2\<lparr>db_used := db_used b2 + length ws * 4\<rparr>)" "db_size b2 = db_size b1"
    "used_bytes (b2\<lparr>db_used := db_used b2 + length ws * 4\<rparr>) = used_bytes b1 @ take (length ws * 4) (dev_rest (snd r))"
    "free_space (b2\<lparr>db_used := db_used b2 + length ws * 4\<rparr>) = free_space b1 - length ws * 4"
    using read_into_ok [OF b1(2), of "length ws * 4" "snd r"] r(3) by auto
  let ?b = "b2\<lparr>db_used := db_used b2 + length ws * 4\<rparr>" and ?d = "snd (dev_read (length ws * 4) (snd r))"
  show ?thesis
  proof (rule that)
    show "read_sections_into_buffer lf d b saved n = read_sections_into_buffer lf ?d ?b 0 (n + 1)"
      unfolding step using assms(3,5) r(1,2) b1(1) b2(1) by simp
    show "pending 0 ?d = bs" using r(3) by (simp add: pending_def)
    show "used_bytes ?b = used_bytes b @ words_bytes (h # ws)" using b1(4) b2(4) r(3) by simp
    show "free_space ?b = free_space b - 4 * (length ws + 1)" using b1(5) b2(5) by simp
  qed (use b1 b2 r(4) in simp_all)
qed

text \<open>One call reads the sections that fit, and leaves the rest of the file pending.\<close>

lemma read_sections_complete:
  assumes "wf_buffer b" "sections_ok lf ss" "header_saved lf saved" "pending saved d = words_bytes (section_stream ss)"
  shows "\<exists>b' saved' d'. read_sections_into_buffer lf d b saved n = Some (n + int (fitting (free_space b) ss), b', saved', d')
    \<and> wf_buffer b' \<and> db_size b' = db_size b
    \<and> used_bytes b' = used_bytes b @ words_bytes (section_stream (take (fitting (free_space b) ss) ss))
    \<and> pending saved' d' = words_bytes (section_stream (drop (fitting (free_space b) ss) ss))
    \<and> header_saved lf saved' \<and> in_bytes d' = in_bytes d"
  using assms
proof (induction ss arbitrary: b saved d n)
  case Nil
  then have "saved = 0" "dev_at_end d" by (auto simp: pending_def dev_at_end_def split: if_splits)
  with Nil show ?case by (simp add: read_sections_into_buffer.simps [of lf d] pending_def header_saved_def dev_at_end_def)
next
  case (Cons s ss)
  obtain h ws where s: "s = (h, ws)" by (cases s)
  define r where "r = (if saved = 0 then dev_read 4 d else (word_bytes saved, d))"
  have size: "unat (getSectionSize lf h) = length ws" and ok: "sections_ok lf ss" using Cons.prems(2) s by simp_all
  have pend: "pending saved d = words_bytes (h # ws) @ words_bytes (section_stream ss)" using Cons.prems(4) s by simp
  then have "pending saved d = word_bytes h @ words_bytes (ws @ section_stream ss)" by simp
  from pending_header [OF this Cons.prems(3)] have r: "\<not> dev_at_end d" "fst r = word_bytes h"
    "dev_rest (snd r) = words_bytes (ws @ section_stream ss)" "in_bytes (snd r) = in_bytes d"
    using size by (simp_all add: r_def)
  note step = read_sections_into_buffer.simps [of lf d b saved n, folded r_def, unfolded Let_def]
  consider (full) "free_space b < 4" | (tight) "4 \<le> free_space b" "free_space b < 4 * (length ws + 1)"
    | (fits) "4 * (length ws + 1) \<le> free_space b" by linarith
  then show ?case
  proof cases
    case full
    then have "fitting (free_space b) (s # ss) = 0" by (simp add: s)
    with full Cons.prems show ?thesis by (simp add: step)
  next
    case tight
    then have "ws \<noteq> []" by auto
    then have h: "getSectionSize lf h \<noteq> 0" "h \<noteq> 0" using size by (auto simp: unat_eq_zero)
    have "fitting (free_space b) (s # ss) = 0" using tight by (simp add: s)
    with tight h r Cons.prems size show ?thesis by (simp add: step header_saved_def pending_def s)
  next
    case fits
    obtain b1 d1 where one: "read_sections_into_buffer lf d b saved n = read_sections_into_buffer lf d1 b1 0 (n + 1)"
      "wf_buffer b1" "db_size b1 = db_size b" "used_bytes b1 = used_bytes b @ words_bytes (h # ws)"
      "free_space b1 = free_space b - 4 * (length ws + 1)" "pending 0 d1 = words_bytes (section_stream ss)"
      "in_bytes d1 = in_bytes d"
      using read_section_fits [OF Cons.prems(1,3) size pend fits, of n] .
    then obtain b' saved' d' where "read_sections_into_buffer lf d1 b1 0 (n + 1) =
        Some (n + 1 + int (fitting (free_space b1) ss), b', saved', d')" "wf_buffer b'" "db_size b' = db_size b1"
      "used_bytes b' = used_bytes b1 @ words_bytes (section_stream (take (fitting (free_space b1) ss) ss))"
      "pending saved' d' = words_bytes (section_stream (drop (fitting (free_space b1) ss) ss))"
      "header_saved lf saved'" "in_bytes d' = in_bytes d1"
      using Cons.IH [OF one(2) ok _ , of 0 d1 "n + 1"] by (auto simp: header_saved_def)
    moreover have "fitting (free_space b) (s # ss) = Suc (fitting (free_space b1) ss)"
      using fits one(5) by (simp add: s)
    ultimately show ?thesis using one(1,3,4,7) by (simp add: s)
  qed
qed

lemma sections_truncated:
  assumes "wf_buffer b" "sections_ok lf ss" "header_saved lf saved"
    and "pending saved d = words_bytes (section_stream ss) @ take k (words_bytes (h # ws))" "saved = 0 \<or> ss \<noteq> []"
    and "0 < k" "k < 4 * (length ws + 1)" "unat (getSectionSize lf h) = length ws"
    and "4 * (length (section_stream ss) + length ws + 1) \<le> free_space b"
  shows "\<exists>b' saved' d'. read_sections_into_buffer lf d b saved n = Some (- 1, b', saved', d')
    \<and> prefix (used_bytes b @ words_bytes (section_stream ss)) (used_bytes b')"
  using assms
proof (induction ss arbitrary: b saved d n)
  case Nil
  define r where "r = dev_read 4 d"
  have saved: "saved = 0" using Nil.prems(5) by simp
  have rest: "dev_rest d = take k (word_bytes h @ words_bytes ws)" using Nil.prems(4) saved by (simp add: pending_def)
  then have "\<not> dev_at_end d" using Nil.prems(6) by (simp add: dev_at_end_def word_bytes_def)
  note step = read_sections_into_buffer.simps [of lf d b saved n, unfolded Let_def saved]
  show ?case
  proof (cases "k < 4")
    case True
    then show ?thesis using rest \<open>\<not> dev_at_end d\<close> Nil.prems(9) by (simp add: step saved)
  next
    case False
    then have r: "fst r = word_bytes h" "dev_rest (snd r) = take (k - 4) (words_bytes ws)"
      using rest by (simp_all add: r_def drop_take)
    obtain b1 where b1: "store_bytes (word_bytes h) b = Some b1" "wf_buffer b1" 
      "used_bytes b1 = used_bytes b @ word_bytes h" "free_space b1 = free_space b - 4"
      using store_bytes_ok [OF Nil.prems(1), of "word_bytes h"] Nil.prems(9) by auto
    have "length (take (k - 4) (words_bytes ws)) = k - 4" using Nil.prems(7) by simp
    moreover have "take (length ws * 4) (dev_rest (snd r)) = take (k - 4) (words_bytes ws)"
      using r(2) Nil.prems(7) by (simp add: min_absorb2)
    moreover have "length (take (k - 4) (words_bytes ws)) \<le> free_space b1" using Nil.prems(7,9) b1(4) by auto
    then obtain b2 where b2: "store_bytes (take (k - 4) (words_bytes ws)) b1 = Some b2" "wf_buffer b2"
      "used_bytes b2 = used_bytes b1 @ take (k - 4) (words_bytes ws)" 
      using store_bytes_ok [OF b1(2), of "take (k - 4) (words_bytes ws)"] by auto
    ultimately have into: "read_into (length ws * 4) (snd r) b1 =
        Some (k - 4, b2\<lparr>db_used := db_used b1\<rparr>, snd (dev_read (length ws * 4) (snd r)))"
      by (simp add: read_into_def case_prod_unfold Let_def)
    have "used_bytes (b2\<lparr>db_used := db_used b1\<rparr>) = used_bytes b1"
      using b2(1) by (auto simp: store_bytes_def used_bytes_def split: if_splits)
    moreover have "k - 4 \<noteq> length ws * 4" using False Nil.prems(7) by simp
    then have "read_sections_into_buffer lf d b saved n =
        Some (- 1, b2\<lparr>db_used := db_used b1\<rparr>, 0, snd (dev_read (length ws * 4) (snd r)))"
      unfolding step saved r_def [symmetric] using \<open>\<not> dev_at_end d\<close> r(1) Nil.prems(7-9) b1(1) into
      by (simp add: r_def [symmetric])
    ultimately show ?thesis using b1(3) by simp
  qed
next
  case (Cons s ss)
  obtain h1 ws1 where s: "s = (h1, ws1)" by (cases s)
  have "unat (getSectionSize lf h1) = length ws1" "sections_ok lf ss" using Cons.prems(2) s by simp_all
  moreover have "pending saved d = words_bytes (h1 # ws1) @ words_bytes (section_stream ss) @ take k (words_bytes (h # ws))"
    using Cons.prems(4) s by simp
  moreover have "4 * (length ws1 + 1) \<le> free_space b" using Cons.prems(9) s by simp
  ultimately obtain b1 d1 where one: "read_sections_into_buffer lf d b saved n = read_sections_into_buffer lf d1 b1 0 (n + 1)"
    "wf_buffer b1" "used_bytes b1 = used_bytes b @ words_bytes (h1 # ws1)"
    "free_space b1 = free_space b - 4 * (length ws1 + 1)"
    "pending 0 d1 = words_bytes (section_stream ss) @ take k (words_bytes (h # ws))"
    using read_section_fits [OF Cons.prems(1,3), of h1 ws1 d "words_bytes (section_stream ss) @ take k (words_bytes (h # ws))" n]
    by blast
  have "header_saved lf 0" "4 * (length (section_stream ss) + length ws + 1) \<le> free_space b1"
    using Cons.prems(9) one(4) s by (simp_all add: header_saved_def)
  with Cons.IH [OF one(2) \<open>sections_ok lf ss\<close> _ one(5) _ Cons.prems(6-8), of "n + 1"] one(1,3) show ?case
    by (simp add: s)
qed

text \<open>If the file ends inside of a section that would fit, the call fails, although all complete sections before
  it have been read into the buffer: its users drop them.\<close>

theorem read_sections_truncated:
  assumes "wf_buffer b" "sections_ok (listfile_constants (lf_fileVersion lf)) ss" "lf_sectionHeaderBuffer lf = 0"
    and "pending 0 (lf_input lf) = words_bytes (section_stream ss) @ take k (words_bytes (h # ws))"
    and "0 < k" "k < 4 * (length ws + 1)" "unat (getSectionSize (listfile_constants (lf_fileVersion lf)) h) = length ws"
    and "4 * (length (section_stream ss) + length ws + 1) \<le> free_space b"
  shows "\<exists>b' lf'. readSectionsIntoBuffer b lf = Some (- 1, b', lf')
    \<and> prefix (used_bytes b @ words_bytes (section_stream ss)) (used_bytes b')"
  using sections_truncated [OF assms(1,2) _ assms(4) _ assms(5-8), of 0] assms(3)
  by (auto simp: readSectionsIntoBuffer_def header_saved_def)

text \<open>Reading section by section gives the next section, but only an empty buffer for a section without
  contents: its header is lost.\<close>

lemma read_next_section_pending:
  assumes "wf_buffer b" "header_saved lf saved" "unat (getSectionSize lf h) = length ws"
    and "pending saved d = words_bytes (h # ws) @ bs"
  shows "\<exists>b' d'. read_next_section uninit lf d b saved = Some (True, b', 0, d') \<and> wf_buffer b'
    \<and> used_bytes b' = (if ws = [] then [] else words_bytes (h # ws)) \<and> pending 0 d' = bs \<and> in_bytes d' = in_bytes d"
proof -
  define r where "r = (if saved = 0 then dev_read 4 d else (word_bytes saved, d))"
  have "pending saved d = word_bytes h @ words_bytes ws @ bs" using assms(4) by simp
  from pending_header [OF this assms(2)] have r: "fst r = word_bytes h"
    "dev_rest (snd r) = words_bytes ws @ bs" "in_bytes (snd r) = in_bytes d"
    using assms(3) by (simp_all add: r_def)
  let ?b = "b\<lparr>db_used := 0\<rparr>"
  have wf: "wf_buffer ?b" using assms(1) by (simp add: wf_buffer_def)
  note step = read_next_section_def [of uninit lf d b saved, folded r_def, unfolded Let_def case_prod_unfold]
  show ?thesis
  proof (cases "ws = []")
    case True
    then show ?thesis using r assms(3) wf by (simp add: step pending_def used_bytes_def)
  next
    case False
    let ?b1 = "reserve uninit (length ws * 4 + 4) ?b"
    have res: "wf_buffer ?b1" "length ws * 4 + 4 \<le> free_space ?b1" "used_bytes ?b1 = []"
      using reserve_ok [OF wf, where n = "length ws * 4 + 4" and uninit = uninit] by (simp_all add: free_space_def used_bytes_def)
    obtain b2 where b2: "store_bytes (word_bytes h) ?b1 = Some b2" "wf_buffer b2"
      "used_bytes b2 = word_bytes h" "free_space b2 = free_space ?b1 - 4"
      using store_bytes_ok [OF res(1), of "word_bytes h"] res(2,3) by auto
    with res(2) have "length ws * 4 \<le> free_space b2" by simp
    then obtain b3 where b3: "read_into (length ws * 4) (snd r) b2 = Some (length ws * 4, b3, snd (dev_read (length ws * 4) (snd r)))"
      "wf_buffer (b3\<lparr>db_used := db_used b3 + length ws * 4\<rparr>)"
      "used_bytes (b3\<lparr>db_used := db_used b3 + length ws * 4\<rparr>) = used_bytes b2 @ take (length ws * 4) (dev_rest (snd r))"
      using read_into_ok [OF b2(2), of "length ws * 4" "snd r"] r(2) by auto
    have "read_next_section uninit lf d b saved =
        Some (True, b3\<lparr>db_used := db_used b3 + length ws * 4\<rparr>, 0, snd (dev_read (length ws * 4) (snd r)))"
      unfolding step using r(1) assms(3) False b2(1) b3(1) by simp
    then show ?thesis using b3(2,3) b2(3) r(2,3) False by (simp add: pending_def)
  qed
qed

end
