(* ===== verification/Listfile_Worker.thy ===== *)
theory Listfile_Worker
  imports Listfile_IO
begin

text \<open>
  The replay worker, \<^verbatim>\<open>src/src/mvme_listfile_worker.cc\<close>. Its main loop runs in a thread of its own; other threads
  set the desired state at any time and empty the queue of filled buffers. One round of the loop is cut at the
  point between the decision and what it leads to, where requests of the other threads can come in.
\<close>

section \<open>State\<close>

datatype DAQState = Idle | Starting | Running | Stopping | Paused

datatype Signal = StateChanged DAQState | ReplayStopped | ReplayPaused

record 'j Worker =
  wk_state :: DAQState
  wk_desired :: DAQState
  wk_listfile :: "'j ListFile"
  wk_eventsToRead :: u32
  wk_logBuffers :: bool
  wk_empty :: "DataBuffer list"
  wk_filled :: "DataBuffer list"
  wk_totalBuffersRead :: u64
  wk_totalBytesRead :: u64
  wk_signals :: "Signal list"

definition setState :: "DAQState \<Rightarrow> 'j Worker \<Rightarrow> 'j Worker" where
  "setState newState w = w\<lparr>wk_state := newState, wk_desired := newState,
     wk_signals := wk_signals w @ StateChanged newState #
       (case newState of Idle \<Rightarrow> [ReplayStopped] | Paused \<Rightarrow> [ReplayPaused] | _ \<Rightarrow> [])\<rparr>"

definition new_worker :: "'j ListFile \<Rightarrow> DataBuffer list \<Rightarrow> 'j Worker" where
  "new_worker lf buffers = \<lparr>wk_state = Idle, wk_desired = Idle, wk_listfile = lf, wk_eventsToRead = 0,
     wk_logBuffers = False, wk_empty = buffers, wk_filled = [], wk_totalBuffersRead = 0, wk_totalBytesRead = 0,
     wk_signals = []\<rparr>"

definition setListfile :: "'j JsonLib \<Rightarrow> InDevice \<Rightarrow> 'j Worker \<Rightarrow> 'j Worker" where
  "setListfile lib d w = w\<lparr>wk_listfile := new_listfile lib d\<rparr>"

definition setEventsToRead :: "u32 \<Rightarrow> 'j Worker \<Rightarrow> 'j Worker option" where
  "setEventsToRead n w = (if wk_state w = Running then None else Some (w\<lparr>wk_eventsToRead := n, wk_logBuffers := n = 1\<rparr>))"

definition stop :: "'j Worker \<Rightarrow> 'j Worker" where "stop w = w\<lparr>wk_desired := Stopping\<rparr>"
definition pause :: "'j Worker \<Rightarrow> 'j Worker" where "pause w = w\<lparr>wk_desired := Paused\<rparr>"
definition resume :: "'j Worker \<Rightarrow> 'j Worker" where "resume w = w\<lparr>wk_desired := Running\<rparr>"

text \<open>The start, up to the head of the main loop; \<^const>\<open>None\<close> is the failed assertion.\<close>

definition start :: "u32 \<Rightarrow> 'j Worker \<Rightarrow> 'j Worker option" where
  "start uninit w =
     (if wk_state w \<noteq> Idle then None
      else Some (setState Running (w\<lparr>wk_listfile := snd (seekToFirstSection (snd (open_listfile uninit (wk_listfile w)))),
             wk_totalBuffersRead := 0, wk_totalBytesRead := 0\<rparr>)))"

section \<open>The main loop\<close>

text \<open>The search for the next event section. The statistics count the sections that are read.\<close>

lemma read_next_section_advances:
  assumes "read_next_section uninit lf d b saved = Some (True, b', saved', d')"
  shows "length (dev_rest d') + of_bool (saved' \<noteq> 0) < length (dev_rest d) + of_bool (saved \<noteq> 0)"
proof -
  let ?r = "if saved = 0 then dev_read 4 d else (word_bytes saved, d)"
  let ?n = "unat (getSectionSize lf (bytes_word (fst ?r))) * 4"
  have len: "length (fst ?r) = 4"
    using assms by (auto simp: read_next_section_def Let_def case_prod_unfold split: if_splits)
  have "saved' = 0 \<and> dev_rest d' = drop ?n (dev_rest (snd ?r))"
    using assms len
    by (auto simp: read_next_section_def Let_def case_prod_unfold bind_eq_Some_conv split: if_splits dest: read_into_rest)
  then show ?thesis using len by (cases "saved = 0") auto
qed

function read_event ::
  "(nat \<Rightarrow> u8) \<Rightarrow> 'j ListFile \<Rightarrow> DataBuffer \<Rightarrow> u64 \<Rightarrow> u64 \<Rightarrow> (bool \<times> DataBuffer \<times> 'j ListFile \<times> u64 \<times> u64) option" where
  "read_event uninit lf b buffers bytes =
     (case readNextSection uninit b lf of
        None \<Rightarrow> None
      | Some (False, b', lf') \<Rightarrow> Some (False, b', lf', buffers, bytes)
      | Some (True, b', lf') \<Rightarrow>
          if db_used b' < 4 \<or> getSectionType (listfile_constants (lf_fileVersion lf)) (bytes_word (take 4 (db_data b')))
               = section_code SectionType_Event
          then Some (True, b', lf', buffers + 1, bytes + of_nat (db_used b'))
          else read_event uninit lf' b' (buffers + 1) (bytes + of_nat (db_used b')))"
  by pat_completeness auto
termination
proof (relation "measure (\<lambda>(u, lf, b, n, m). length (dev_rest (lf_input lf)) + of_bool (lf_sectionHeaderBuffer lf \<noteq> 0))",
    goal_cases)
  case (2 uninit lf b buffers bytes x ok y b' lf')
  then show ?case by (auto simp: readNextSection_def dest!: read_next_section_advances)
qed simp

declare read_event.simps [simp del]

text \<open>A round that reads. Without an empty buffer the code waits or goes on without a buffer.\<close>

definition read_buffer :: "(nat \<Rightarrow> u8) \<Rightarrow> 'j Worker \<Rightarrow> 'j Worker option" where
  "read_buffer uninit w =
     (case wk_empty w of
        [] \<Rightarrow> Some w
      | b # bs \<Rightarrow>
          let b = b\<lparr>db_used := 0\<rparr> in
          map_option (\<lambda>(valid, b, w).
              if \<not> valid then setState Stopping (w\<lparr>wk_empty := bs @ [b]\<rparr>)
              else w\<lparr>wk_empty := bs, wk_filled := wk_filled w @ [b]\<rparr>)
            (if 0 < wk_eventsToRead w
             then map_option (\<lambda>(valid, b, lf, buffers, bytes).
                 (valid, b, w\<lparr>wk_listfile := lf, wk_totalBuffersRead := buffers, wk_totalBytesRead := bytes,
                    wk_eventsToRead := wk_eventsToRead w - 1,
                    wk_desired := (if wk_eventsToRead w - 1 = 0 then Paused else wk_desired w)\<rparr>))
                 (read_event uninit (wk_listfile w) b (wk_totalBuffersRead w) (wk_totalBytesRead w))
             else map_option (\<lambda>(n, b, lf).
                 (0 < n, b, w\<lparr>wk_listfile := lf,
                    wk_totalBuffersRead := wk_totalBuffersRead w + of_bool (0 < n),
                    wk_totalBytesRead := wk_totalBytesRead w + (if 0 < n then of_nat (db_used b) else 0)\<rparr>))
                 (readSectionsIntoBuffer b (wk_listfile w))))"

datatype LoopAction = SetState DAQState | Leave | Read | Sleep

text \<open>The decision at the head of the loop; \<^const>\<open>None\<close> is the failed assertion at its end.\<close>

definition loop_head :: "'j Worker \<Rightarrow> LoopAction option" where
  "loop_head w =
     (if wk_state w = Running \<and> wk_desired w = Paused then Some (SetState Paused)
      else if wk_state w = Paused \<and> wk_desired w = Running then Some (SetState Running)
      else if wk_desired w = Stopping then Some Leave
      else if wk_state w = Running then Some Read
      else if wk_state w = Paused then Some Sleep
      else None)"

fun loop_body :: "(nat \<Rightarrow> u8) \<Rightarrow> LoopAction \<Rightarrow> 'j Worker \<Rightarrow> 'j Worker option" where
  "loop_body uninit (SetState s) w = Some (setState s w)"
| "loop_body uninit Leave w = Some (setState Idle w)"
| "loop_body uninit Read w = read_buffer uninit w"
| "loop_body uninit Sleep w = Some w"

text \<open>The steps of the worker's thread and of the others. The consumer puts a buffer back when it is done.\<close>

datatype Position = AtHead | Doing LoopAction | Left

datatype Label = Head | Body | Stop | Pause | Resume | Consume DataBuffer

inductive step :: "(nat \<Rightarrow> u8) \<Rightarrow> Label \<Rightarrow> Position \<times> 'j Worker \<Rightarrow> Position \<times> 'j Worker \<Rightarrow> bool" for uninit where
  step_head: "loop_head w = Some a \<Longrightarrow> step uninit Head (AtHead, w) (Doing a, w)"
| step_body: "loop_body uninit a w = Some w' \<Longrightarrow> step uninit Body (Doing a, w) (if a = Leave then Left else AtHead, w')"
| step_stop: "step uninit Stop (p, w) (p, stop w)"
| step_pause: "step uninit Pause (p, w) (p, pause w)"
| step_resume: "step uninit Resume (p, w) (p, resume w)"
| step_consume: "wk_filled w = b # bs \<Longrightarrow>
    step uninit (Consume b) (p, w) (p, w\<lparr>wk_filled := bs, wk_empty := wk_empty w @ [b]\<rparr>)"

inductive run :: "(nat \<Rightarrow> u8) \<Rightarrow> Position \<times> 'j Worker \<Rightarrow> Label list \<Rightarrow> Position \<times> 'j Worker \<Rightarrow> bool" for uninit s where
  run_refl: "run uninit s [] s"
| run_step: "run uninit s ls t \<Longrightarrow> step uninit l t u \<Longrightarrow> run uninit s (ls @ [l]) u"

inductive_cases step_elims:
  "step uninit Head s t" "step uninit Body s t" "step uninit Stop s t" "step uninit Pause s t" "step uninit Resume s t"
  "step uninit (Consume b) s t"

section \<open>Delivery in order\<close>

definition consumed :: "Label list \<Rightarrow> DataBuffer list" where
  "consumed ls = concat (map (\<lambda>l. case l of Consume b \<Rightarrow> [b] | _ \<Rightarrow> []) ls)"

lemma consumed_simps [simp]:
  "consumed [] = []" "consumed (ls @ ks) = consumed ls @ consumed ks" "consumed [Consume b] = [b]"
  "consumed [Head] = []" "consumed [Body] = []" "consumed [Stop] = []" "consumed [Pause] = []" "consumed [Resume] = []"
  by (simp_all add: consumed_def)

definition file_pending :: "'j ListFile \<Rightarrow> (u32 \<times> u32 list) list \<Rightarrow> bool" where
  "file_pending lf ss \<longleftrightarrow> pending (lf_sectionHeaderBuffer lf) (lf_input lf) = words_bytes (section_stream ss)
     \<and> header_saved (listfile_constants (lf_fileVersion lf)) (lf_sectionHeaderBuffer lf)
     \<and> sections_ok (listfile_constants (lf_fileVersion lf)) ss"

text \<open>A buffer that every section fits in.\<close>

definition holds_sections :: "(u32 \<times> u32 list) list \<Rightarrow> DataBuffer \<Rightarrow> bool" where
  "holds_sections ss b \<longleftrightarrow> wf_buffer b \<and> list_all (\<lambda>(h, ws). 4 * (length ws + 1) \<le> db_size b) ss"

definition ended :: "Position \<Rightarrow> 'j Worker \<Rightarrow> bool" where
  "ended p w \<longleftrightarrow> wk_desired w = Stopping \<or> wk_state w = Stopping \<or> wk_state w = Idle \<or> p = Doing Leave \<or> p = Left"

definition grouped :: "DataBuffer list \<Rightarrow> (u32 \<times> u32 list) list list \<Rightarrow> bool" where
  "grouped bs groups \<longleftrightarrow> map used_bytes bs = map (\<lambda>g. words_bytes (section_stream g)) groups \<and> [] \<notin> set groups"

text \<open>The invariant of a replay: the buffers handed out so far hold the first sections, the others are pending.\<close>

definition replaying :: "(u32 \<times> u32 list) list \<Rightarrow> bool \<Rightarrow> DataBuffer list \<Rightarrow> Position \<times> 'j Worker \<Rightarrow> bool" where
  "replaying ss stopped bs = (\<lambda>(p, w). wk_eventsToRead w = 0 \<and> list_all (holds_sections ss) (wk_empty w @ wk_filled w)
     \<and> (\<forall>s. p = Doing (SetState s) \<longrightarrow> s = Paused \<or> s = Running)
     \<and> (\<exists>groups rest. grouped (bs @ wk_filled w) groups \<and> ss = concat groups @ rest \<and> file_pending (wk_listfile w) rest
          \<and> (\<not> stopped \<and> ended p w \<longrightarrow> rest = [])))"

lemma readSectionsIntoBuffer_pending:
  assumes "holds_sections ss b" "file_pending lf rest" "set rest \<subseteq> set ss" "db_used b = 0"
  obtains k b' lf' where "readSectionsIntoBuffer b lf = Some (int k, b', lf')" "holds_sections ss b'"
    "used_bytes b' = words_bytes (section_stream (take k rest))" "file_pending lf' (drop k rest)" "k = 0 \<longleftrightarrow> rest = []"
    "k \<le> length rest"
proof -
  let ?lf = "listfile_constants (lf_fileVersion lf)"
  have b: "wf_buffer b" "free_space b = db_size b" "used_bytes b = []" and rest: "sections_ok ?lf rest"
    using assms(1,2,4) by (simp_all add: holds_sections_def free_space_def used_bytes_def file_pending_def)
  have le: "fitting n ss \<le> length ss" for n ss by (induction n ss rule: fitting.induct) auto
  have pos: "fitting (db_size b) rest = 0 \<longleftrightarrow> rest = []"
    using assms(1,3) by (cases rest) (auto simp: holds_sections_def list_all_iff)
  obtain b' saved' d' where "read_sections_into_buffer ?lf (lf_input lf) b (lf_sectionHeaderBuffer lf) 0 =
      Some (int (fitting (db_size b) rest), b', saved', d')" "wf_buffer b'" "db_size b' = db_size b"
    "used_bytes b' = words_bytes (section_stream (take (fitting (db_size b) rest) rest))"
    "pending saved' d' = words_bytes (section_stream (drop (fitting (db_size b) rest) rest))" "header_saved ?lf saved'"
    using read_sections_complete [OF b(1) rest, of "lf_sectionHeaderBuffer lf" "lf_input lf" 0] assms(2) b(2,3)
    by (auto simp: file_pending_def)
  then show ?thesis
    using that [of "fitting (db_size b) rest" b' "lf\<lparr>lf_input := d', lf_sectionHeaderBuffer := saved'\<rparr>"] pos le assms(1) rest
    by (simp add: readSectionsIntoBuffer_def holds_sections_def file_pending_def sections_ok_drop)
qed

lemma read_buffer_replaying:
  assumes "replaying ss stopped bs (Doing Read, w)" "read_buffer uninit w = Some w'"
  shows "replaying ss stopped bs (AtHead, w')"
proof -
  obtain groups rest where g: "wk_eventsToRead w = 0" "list_all (holds_sections ss) (wk_empty w @ wk_filled w)"
    "grouped (bs @ wk_filled w) groups" "ss = concat groups @ rest" "file_pending (wk_listfile w) rest"
    "\<not> stopped \<and> ended (Doing Read) w \<longrightarrow> rest = []"
    using assms(1) by (auto simp: replaying_def)
  show ?thesis
  proof (cases "wk_empty w")
    case Nil
    then show ?thesis using assms g by (auto simp: read_buffer_def replaying_def ended_def)
  next
    case (Cons b bs')
    let ?b = "b\<lparr>db_used := 0\<rparr>"
    have hold: "holds_sections ss ?b" using g(2) Cons by (simp add: holds_sections_def wf_buffer_def)
    have sub: "set rest \<subseteq> set ss" "db_used ?b = 0" using g(4) by simp_all
    obtain k b' lf' where r: "readSectionsIntoBuffer ?b (wk_listfile w) = Some (int k, b', lf')" "holds_sections ss b'"
      "used_bytes b' = words_bytes (section_stream (take k rest))" "file_pending lf' (drop k rest)" "k = 0 \<longleftrightarrow> rest = []" "k \<le> length rest"
      using readSectionsIntoBuffer_pending [OF hold g(5) sub] .
    show ?thesis
    proof (cases "k = 0")
      case True
      then show ?thesis using assms(2) g r Cons
        by (auto simp: read_buffer_def replaying_def setState_def ended_def Let_def)
    next
      case False
      then have "grouped (bs @ wk_filled w @ [b']) (groups @ [take k rest])"
        using g(3) r(3,5) by (auto simp: grouped_def)
      moreover have "ss = concat (groups @ [take k rest]) @ drop k rest" using g(4) by simp
      moreover have "\<not> stopped \<and> ended AtHead w \<longrightarrow> drop k rest = []" using g(6) by (auto simp: ended_def)
      ultimately show ?thesis using assms(2) g(1,2) r(1,2,4) Cons False
        by (auto simp: read_buffer_def replaying_def ended_def Let_def intro!: exI [of _ "groups @ [take k rest]"] exI [of _ "drop k rest"])
    qed
  qed
qed

lemma step_replaying:
  assumes "step uninit l s t" "replaying ss stopped bs s"
  shows "replaying ss (stopped \<or> l = Stop) (bs @ consumed [l]) t"
  using assms
proof (cases rule: step.cases)
  case (step_head w a)
  then show ?thesis using assms(2)
    by (auto simp: replaying_def ended_def loop_head_def split: if_splits)
next
  case (step_body a w w')
  then show ?thesis using assms(2) read_buffer_replaying [of ss stopped bs w uninit w']
    by (cases a) (auto simp: replaying_def ended_def setState_def)
qed (auto simp: replaying_def ended_def stop_def pause_def resume_def)

lemma run_replaying:
  assumes "run uninit s ls t" "replaying ss False [] s"
  shows "replaying ss (Stop \<in> set ls) (consumed ls) t"
  using assms
proof (induction rule: run.induct)
  case (run_step ls t l u)
  then show ?case using step_replaying [of uninit l t u ss "Stop \<in> set ls" "consumed ls"] by (auto simp: disj_commute eq_commute)
qed simp


section \<open>Requests at the wrong moment\<close>

definition in_loop :: "Position \<times> 'j Worker \<Rightarrow> bool" where
  "in_loop = (\<lambda>(p, w). (\<forall>s. p = Doing (SetState s) \<longrightarrow> s = Paused \<or> s = Running)
     \<and> (p \<noteq> Left \<longrightarrow> wk_state w \<in> {Running, Paused, Stopping} \<and> wk_desired w \<in> {Running, Paused, Stopping}))"

lemma read_buffer_states:
  assumes "read_buffer uninit w = Some w'"
  shows "wk_state w' = wk_state w \<or> wk_state w' = Stopping"
    "wk_desired w' = wk_desired w \<or> wk_desired w' = Paused \<or> wk_desired w' = Stopping"
proof -
  have "(wk_state w' = wk_state w \<or> wk_state w' = Stopping)
      \<and> (wk_desired w' = wk_desired w \<or> wk_desired w' = Paused \<or> wk_desired w' = Stopping)"
  proof (cases "wk_empty w")
    case (Cons b bs)
    then show ?thesis
    proof (cases "0 < wk_eventsToRead w")
      case True
      then obtain valid b' lf n m where "read_event uninit (wk_listfile w) (b\<lparr>db_used := 0\<rparr>) (wk_totalBuffersRead w) (wk_totalBytesRead w)
          = Some (valid, b', lf, n, m)"
        using assms Cons by (auto simp: read_buffer_def Let_def)
      then show ?thesis using assms Cons True by (cases valid) (auto simp: read_buffer_def Let_def setState_def)
    next
      case False
      then obtain n b' lf where "readSectionsIntoBuffer (b\<lparr>db_used := 0\<rparr>) (wk_listfile w) = Some (n, b', lf)"
        using assms Cons by (auto simp: read_buffer_def Let_def)
      then show ?thesis using assms Cons False by (cases "0 < n") (auto simp: read_buffer_def Let_def setState_def)
    qed
  qed (use assms in \<open>simp add: read_buffer_def\<close>)
  then show "wk_state w' = wk_state w \<or> wk_state w' = Stopping"
    "wk_desired w' = wk_desired w \<or> wk_desired w' = Paused \<or> wk_desired w' = Stopping" by blast+
qed

lemma step_in_loop:
  assumes "step uninit l s t" "in_loop s"
  shows "in_loop t"
  using assms
proof (cases rule: step.cases)
  case (step_head w a)
  then show ?thesis using assms(2) by (auto simp: in_loop_def loop_head_def split: if_splits)
next
  case (step_body a w w')
  then show ?thesis using assms(2) read_buffer_states [of uninit w w']
    by (cases a) (auto simp: in_loop_def setState_def)
qed (auto simp: in_loop_def stop_def pause_def resume_def)

lemma run_in_loop: "run uninit s ls t \<Longrightarrow> in_loop s \<Longrightarrow> in_loop t"
  by (induction rule: run.induct) (auto dest: step_in_loop)

text \<open>The assertion at the end of the main loop fails exactly if the worker is stopping and the stop has been
  replaced by a request to pause or to resume, which the other threads can do at the end of a file. In all other
  states that the worker reaches it goes on.\<close>

theorem loop_assertion:
  assumes "run uninit (AtHead, w0) ls (AtHead, w)" "wk_state w0 = Running" "wk_desired w0 = Running"
  shows "loop_head w = None \<longleftrightarrow> wk_state w = Stopping \<and> wk_desired w \<noteq> Stopping"
proof -
  have "in_loop (AtHead, w)" using run_in_loop [OF assms(1)] assms(2,3) by (simp add: in_loop_def)
  then show ?thesis by (auto simp: in_loop_def loop_head_def)
qed

text \<open>Paused without a request of another thread.\<close>

definition stays_paused :: "Position \<times> 'j Worker \<Rightarrow> bool" where
  "stays_paused = (\<lambda>(p, w). wk_state w = Paused \<and> wk_desired w = Paused \<and> (p = AtHead \<or> p = Doing Sleep))"

lemma run_stays_paused:
  assumes "run uninit s ls t" "stays_paused s" "Stop \<notin> set ls" "Resume \<notin> set ls" 
  shows "stays_paused t"
  using assms
proof (induction rule: run.induct)
  case (run_step ls t l u)
  then have t: "stays_paused t" and l: "l \<noteq> Stop" "l \<noteq> Resume" by auto
  from run_step.hyps(2) show ?case
  proof (cases rule: step.cases)
    case (step_body a w w')
    then have "a = Sleep" using t by (simp add: stays_paused_def)
    then show ?thesis using step_body t by (simp add: stays_paused_def)
  qed (use t l in \<open>auto simp: stays_paused_def loop_head_def pause_def\<close>)
qed simp

text \<open>A stop request is lost if it comes while the worker changes to the paused state: the change sets the
  desired state again. Without another stop or resume request the worker stays paused for ever.\<close>

theorem stop_request_lost:
  assumes "wk_state w = Running" "wk_desired w = Running"
  shows "\<exists>w'. run uninit (AtHead, w) [Pause, Head, Stop, Body] (AtHead, w')
    \<and> (\<forall>ls p v. run uninit (AtHead, w') ls (p, v) \<and> Stop \<notin> set ls \<and> Resume \<notin> set ls \<longrightarrow> wk_state v = Paused \<and> p \<noteq> Left)"
proof -
  let ?w = "setState Paused (stop (pause w))"
  have "run uninit (AtHead, w) [Pause] (AtHead, pause w)"
    using run_step [OF run_refl step_pause] by simp
  moreover have "step uninit Head (AtHead, pause w) (Doing (SetState Paused), pause w)"
    by (rule step_head) (simp add: loop_head_def pause_def assms(1))
  ultimately have "run uninit (AtHead, w) ([Pause] @ [Head]) (Doing (SetState Paused), pause w)" by (rule run_step)
  then have "run uninit (AtHead, w) (([Pause] @ [Head]) @ [Stop]) (Doing (SetState Paused), stop (pause w))"
    by (rule run_step) (rule step_stop)
  moreover have "step uninit Body (Doing (SetState Paused), stop (pause w)) (AtHead, ?w)"
    using step_body [of uninit "SetState Paused" "stop (pause w)" ?w] by simp
  ultimately have "run uninit (AtHead, w) ((([Pause] @ [Head]) @ [Stop]) @ [Body]) (AtHead, ?w)" by (rule run_step)
  moreover have "stays_paused (AtHead, ?w)" by (simp add: stays_paused_def setState_def)
  then have "wk_state v = Paused \<and> p \<noteq> Left" if "run uninit (AtHead, ?w) ls (p, v)" "Stop \<notin> set ls" "Resume \<notin> set ls" for ls p v
    using run_stays_paused [OF that(1) _ that(2,3)] by (auto simp: stays_paused_def)
  ultimately show ?thesis by (intro exI [of _ ?w]) auto
qed

section \<open>Single events\<close>

lemma readNextSection_pending:
  assumes "wf_buffer b" "file_pending lf ((h, ws) # ss)"
  obtains b' lf' where "readNextSection uninit b lf = Some (True, b', lf')" "wf_buffer b'"
    "used_bytes b' = (if ws = [] then [] else words_bytes (h # ws))" "file_pending lf' ss"
    "lf_fileVersion lf' = lf_fileVersion lf"
proof -
  let ?lf = "listfile_constants (lf_fileVersion lf)"
  have "pending (lf_sectionHeaderBuffer lf) (lf_input lf) = words_bytes (h # ws) @ words_bytes (section_stream ss)"
    using assms(2) by (simp add: file_pending_def)
  then obtain b' d' where "read_next_section uninit ?lf (lf_input lf) b (lf_sectionHeaderBuffer lf) = Some (True, b', 0, d')"
    "wf_buffer b'" "used_bytes b' = (if ws = [] then [] else words_bytes (h # ws))" "pending 0 d' = words_bytes (section_stream ss)"
    using read_next_section_pending [OF assms(1)] assms(2) by (fastforce simp: file_pending_def)
  then show ?thesis
    using that [of b' "lf\<lparr>lf_input := d', lf_sectionHeaderBuffer := 0\<rparr>"] assms(2)
    by (simp add: readNextSection_def file_pending_def header_saved_def)
qed

lemma readNextSection_end: "file_pending lf [] \<Longrightarrow> \<exists>lf'. readNextSection uninit b lf = Some (False, b, lf')"
  by (auto simp: file_pending_def pending_def readNextSection_def read_next_section_def Let_def case_prod_unfold split: if_splits)

definition skipped_section :: "ListfileConstants \<Rightarrow> u32 \<times> u32 list \<Rightarrow> bool" where
  "skipped_section lf = (\<lambda>(h, ws). ws \<noteq> [] \<and> getSectionType lf h \<noteq> section_code SectionType_Event)"

text \<open>In the mode for single events one read skips all sections up to the next event section and hands out this
  section. It stops early at a section without contents, for which it hands out an empty buffer, and fails if
  the file has no more event section.\<close>

theorem next_event_section:
  assumes "wf_buffer b" "file_pending lf ss"
  shows "\<exists>valid b' lf' n m. read_event uninit lf b buffers bytes = Some (valid, b', lf', n, m)
    \<and> (case dropWhile (skipped_section (listfile_constants (lf_fileVersion lf))) ss of
         [] \<Rightarrow> \<not> valid
       | (h, ws) # rest \<Rightarrow> valid \<and> used_bytes b' = (if ws = [] then [] else words_bytes (h # ws)) \<and> file_pending lf' rest)"
  using assms
proof (induction ss arbitrary: b lf buffers bytes)
  case Nil
  then show ?case using readNextSection_end [of lf uninit b] by (auto simp: read_event.simps [of uninit lf])
next
  case (Cons s ss)
  obtain h ws where s: "s = (h, ws)" by (cases s)
  let ?lf = "listfile_constants (lf_fileVersion lf)"
  obtain b' lf' where r: "readNextSection uninit b lf = Some (True, b', lf')" "wf_buffer b'"
    "used_bytes b' = (if ws = [] then [] else words_bytes (h # ws))" "file_pending lf' ss"
    "lf_fileVersion lf' = lf_fileVersion lf"
    using readNextSection_pending [OF Cons.prems(1)] Cons.prems(2) s by metis
  have len: "length (used_bytes b') = db_used b'" using r(2) by (simp add: used_bytes_def wf_buffer_def)
  have header: "bytes_word (take 4 (db_data b')) = h" "\<not> db_used b' < 4" if "ws \<noteq> []"
  proof -
    have "take 4 (used_bytes b') = word_bytes h" "4 \<le> length (used_bytes b')" using r(3) that by simp_all
    then show "bytes_word (take 4 (db_data b')) = h" "\<not> db_used b' < 4"
      using len by (auto simp: used_bytes_def min_def)
  qed
  have empty: "db_used b' < 4" if "ws = []" using that r(3) len by simp
  show ?case
  proof (cases "skipped_section ?lf s")
    case True
    then have "read_event uninit lf b buffers bytes = read_event uninit lf' b' (buffers + 1) (bytes + of_nat (db_used b'))"
      using r(1) header by (subst read_event.simps) (simp add: skipped_section_def s)
    then show ?thesis using Cons.IH [OF r(2,4)] True r(5) by simp
  next
    case False
    then have "read_event uninit lf b buffers bytes = Some (True, b', lf', buffers + 1, bytes + of_nat (db_used b'))"
      using r(1) header empty by (subst read_event.simps) (auto simp: skipped_section_def s)
    then show ?thesis using False r(3,4) s by auto
  qed
qed

end
