(* ===== verification/Listfile_Write.thy ===== *)
theory Listfile_Write
  imports Listfile_IO
begin

text \<open>
  What is written to a listfile is read back: the order of the writes is that of
  \<^verbatim>\<open>DAQReadoutListfileHelper\<close> in \<^verbatim>\<open>src/src/vme_daq.cc\<close>. Its exceptions for failed writes end the run.
\<close>

section \<open>A run\<close>

definition helper_beginRun :: "u8 list \<Rightarrow> Writer \<Rightarrow> bool \<times> Writer" where
  "helper_beginRun json w = and_then (writePreamble w) (writeConfig json)"

definition helper_endRun :: "u8 list \<Rightarrow> Writer \<Rightarrow> (bool \<times> Writer) option" where
  "helper_endRun timeString w = writeEndSection timeString w"

datatype Write = WriteBuffer DataBuffer | WriteTimetick "u8 list" | WritePause | WriteResume

primrec helper_write :: "Write \<Rightarrow> Writer \<Rightarrow> (bool \<times> Writer) option" where
  "helper_write (WriteBuffer buffer) w = Some (writeBuffer buffer w)"
| "helper_write (WriteTimetick timeString) w = writeTimetickSection timeString w"
| "helper_write WritePause w = Some (writePauseSection Pause w)"
| "helper_write WriteResume w = Some (writePauseSection Resume w)"

text \<open>The writes of a run, up to the first one that fails.\<close>

fun write_run :: "Write list \<Rightarrow> bool \<times> Writer \<Rightarrow> (bool \<times> Writer) option" where
  "write_run [] r = Some r"
| "write_run (x # xs) r =
     (if fst r then Option.bind (helper_write x (snd r)) (write_run xs) else Some r)"

definition write_listfile :: "u8 list \<Rightarrow> Write list \<Rightarrow> u8 list \<Rightarrow> Writer \<Rightarrow> (bool \<times> Writer) option" where
  "write_listfile json xs timeString w =
     Option.bind (write_run xs (helper_beginRun json w))
       (\<lambda>r. if fst r then helper_endRun timeString (snd r) else Some r)"

section \<open>The written sections\<close>

definition lf2 :: ListfileConstants where
  "lf2 = listfile_constants CurrentListfileVersion"

definition string_section :: "SectionType \<Rightarrow> u8 list \<Rightarrow> u32 \<times> u32 list" where
  "string_section ty s =
     (let ws = bytes_words (s @ replicate (4 - length s mod 4) (of_char CHR '' '')) in
      (section_header lf2 ty (of_nat (length ws)), ws))"

definition pause_section :: "u32 \<Rightarrow> u32 \<times> u32 list" where
  "pause_section action = (section_header lf2 SectionType_Pause 1, [action])"

fun config_section_list :: "nat \<Rightarrow> u8 list \<Rightarrow> (u32 \<times> u32 list) list" where
  "config_section_list 0 bs = []"
| "config_section_list (Suc n) bs =
     (let k = min (length bs) (unat (SectionMaxSize lf2)); ws = bytes_words (take k bs)
      in (section_header lf2 SectionType_Config (of_nat (length ws)), ws) # config_section_list n (drop k bs))"

definition string_fits :: "u8 list \<Rightarrow> bool" where
  "string_fits s \<longleftrightarrow> length s mod 4 \<noteq> 0 \<and> length s < unat (SectionMaxSize lf2)"

text \<open>The sections of a write: the buffers hold complete sections, none of them of the type of the configuration.\<close>

fun writes_sections :: "Write \<Rightarrow> (u32 \<times> u32 list) list \<Rightarrow> bool" where
  "writes_sections (WriteBuffer b) ss \<longleftrightarrow> used_bytes b = words_bytes (section_stream ss) \<and> sections_ok lf2 ss
     \<and> list_all (\<lambda>(h, ws). getSectionType lf2 h \<noteq> section_code SectionType_Config) ss"
| "writes_sections (WriteTimetick s) ss \<longleftrightarrow> string_fits s \<and> ss = [string_section SectionType_Timetick s]"
| "writes_sections WritePause ss \<longleftrightarrow> ss = [pause_section 0]"
| "writes_sections WriteResume ss \<longleftrightarrow> ss = [pause_section 1]"

lemma lf2_fields:
  "SectionMaxWords lf2 = 0xFFFFF" "SectionMaxSize lf2 = 0x3FFFFC" "Version lf2 = 2" "FourCC lf2 = ''MVME''"
  "FirstSectionOffset lf2 = 8" "SectionTypeMask lf2 = push_bit 29 (mask 3)" "SectionTypeShift lf2 = 29"
  "SectionSizeMask lf2 = push_bit 0 (mask 20)" "SectionSizeShift lf2 = 0"
  by (simp_all add: lf2_def listfile_constants_def ListfileConstantsTable_def CurrentListfileVersion_def mask_eq_exp_minus_1)

lemma section_header_eq:
  assumes "n \<le> 0xFFFFF"
  shows "section_header lf2 ty n = push_bit 29 (section_code ty) OR n" "take_bit 20 n = n"
    "take_bit 3 (section_code ty) = section_code ty"
proof -
  show n: "take_bit 20 n = n" using assms by (simp add: take_bit_less_iff word_less_nat_alt word_le_nat_alt)
  show t: "take_bit 3 (section_code ty) = section_code ty" by (cases ty) simp_all
  have "push_bit 0 n AND push_bit 0 (mask 20) = push_bit 0 (take_bit 20 n)" by (rule push_and_field) simp
  moreover have "push_bit 29 (section_code ty) AND push_bit 29 (mask 3) = push_bit 29 (take_bit 3 (section_code ty))"
    by (rule push_and_field) simp
  ultimately show "section_header lf2 ty n = push_bit 29 (section_code ty) OR n"
    unfolding section_header_def lf2_fields n t by simp
qed

lemma section_header_fields:
  assumes "n \<le> 0xFFFFF"
  shows "getSectionType lf2 (section_header lf2 ty n) = section_code ty" "getSectionSize lf2 (section_header lf2 ty n) = n"
proof -
  have n: "bit n i \<Longrightarrow> i < 20" for i using section_header_eq(2) [OF assms] by (metis bit_take_bit_iff)
  show "getSectionType lf2 (section_header lf2 ty n) = section_code ty"
    unfolding getSectionType_def section_header_eq(1) [OF assms] lf2_fields
    by (subst mask_and_shift_field, simp, subst section_header_eq(3) [OF assms, of ty, symmetric], intro bit_word_eqI)
      (auto simp: bit_take_bit_iff bit_drop_bit_eq bit_or_iff bit_push_bit_iff dest: n)
  show "getSectionSize lf2 (section_header lf2 ty n) = n"
    unfolding getSectionSize_def section_header_eq(1) [OF assms] lf2_fields
    by (subst mask_and_shift_field, simp, intro bit_word_eqI)
      (auto simp: bit_take_bit_iff bit_drop_bit_eq bit_or_iff bit_push_bit_iff dest: n)
qed

text \<open>Bytes and words.\<close>

lemma word_bytes_of [simp]: "word_bytes (word_of a b c d) = [a, b, c, d]"
proof -
  have "ucast (drop_bit k (word_of a b c d)) = (if k = 0 then a else if k = 8 then b else if k = 16 then c else d)"
    if "k \<in> {0, 8, 16, 24}" for k
    using that by (intro bit_word_eqI)
      (auto simp: word_of_def bit_ucast_iff bit_drop_bit_eq bit_or_iff bit_push_bit_iff)
  from this [of 0] this [of 8] this [of 16] this [of 24] show ?thesis by (simp add: word_bytes_def)
qed

lemma words_bytes_words: "length bs mod 4 = 0 \<Longrightarrow> words_bytes (bytes_words bs) = bs"
  by (induction bs rule: bytes_words.induct) (auto simp: mod_Suc split: if_splits)

text \<open>A string section, and the sections of the configuration.\<close>

lemma sized_section:
  assumes "length ws \<le> 0xFFFFF"
  shows "unat (getSectionSize lf2 (section_header lf2 ty (of_nat (length ws)))) = length ws"
    "getSectionType lf2 (section_header lf2 ty (of_nat (length ws))) = section_code ty"
proof -
  have n: "of_nat (length ws) \<le> (0xFFFFF :: u32)" "unat (of_nat (length ws) :: u32) = length ws"
    using assms by (simp_all add: word_le_nat_alt unat_of_nat)
  show "unat (getSectionSize lf2 (section_header lf2 ty (of_nat (length ws)))) = length ws"
    "getSectionType lf2 (section_header lf2 ty (of_nat (length ws))) = section_code ty"
    using section_header_fields [OF n(1)] n(2) by simp_all
qed

lemma string_section_ok:
  assumes "string_fits s"
  shows "sections_ok lf2 [string_section ty s]" "getSectionType lf2 (fst (string_section ty s)) = section_code ty"
    and "words_bytes (section_stream [string_section ty s]) =
      word_bytes (section_header lf2 ty (of_nat ((length s + (4 - length s mod 4)) div 4))) @ s
        @ replicate (4 - length s mod 4) (of_char CHR '' '')"
proof -
  define t where "t = s @ replicate (4 - length s mod 4) (of_char CHR '' '' :: u8)"
  have four: "length t mod 4 = 0" "length t = length s + (4 - length s mod 4)"
    using assms by (auto simp: t_def string_fits_def) presburger
  have sec: "string_section ty s = (section_header lf2 ty (of_nat (length (bytes_words t))), bytes_words t)"
    unfolding string_section_def t_def [symmetric] Let_def ..
  have "length (bytes_words t) \<le> 0xFFFFF"
    using assms four(2) by (auto simp: string_fits_def lf2_fields length_bytes_words)
  from sized_section [OF this] show "sections_ok lf2 [string_section ty s]"
    "getSectionType lf2 (fst (string_section ty s)) = section_code ty"
    by (simp_all add: sec)
  show "words_bytes (section_stream [string_section ty s]) =
      word_bytes (section_header lf2 ty (of_nat ((length s + (4 - length s mod 4)) div 4))) @ s
        @ replicate (4 - length s mod 4) (of_char CHR '' '')"
    using words_bytes_words [OF four(1)] four(2) by (simp add: sec length_bytes_words) (simp add: t_def)
qed

lemma config_chunk:
  fixes bs :: "u8 list"
  assumes "length bs mod 4 = 0"
  defines "k \<equiv> min (length bs) (unat (SectionMaxSize lf2))"
  shows "k mod 4 = 0" "length (drop k bs) mod 4 = 0" "length (bytes_words (take k bs)) \<le> 0xFFFFF"
    "length (bytes_words (take k bs)) = k div 4" "words_bytes (bytes_words (take k bs)) = take k bs"
proof -
  show k: "k mod 4 = 0" using assms(1) by (simp add: k_def min_def lf2_fields)
  then show "length (drop k bs) mod 4 = 0" using assms(1) unfolding length_drop by presburger
  show "length (bytes_words (take k bs)) = k div 4" by (simp add: length_bytes_words k_def)
  then show "length (bytes_words (take k bs)) \<le> 0xFFFFF" by (simp add: k_def lf2_fields)
  show "words_bytes (bytes_words (take k bs)) = take k bs" using k by (intro words_bytes_words) (simp add: k_def)
qed

lemma config_sections_eq:
  assumes "length bs mod 4 = 0"
  shows "config_sections lf2 n bs = words_bytes (section_stream (config_section_list n bs))
    \<and> sections_ok lf2 (config_section_list n bs)"
  using assms
proof (induction n arbitrary: bs)
  case (Suc n)
  note c = config_chunk [OF Suc.prems]
  show ?case using Suc.IH [OF c(2)] c(4,5) sized_section(1) [OF c(3)] by (simp add: Let_def)
qed simp

lemma read_config_data_eq:
  assumes "length bs mod 4 = 0" "length bs \<le> n * unat (SectionMaxSize lf2)" "n = 0 \<or> (n - 1) * unat (SectionMaxSize lf2) < length bs"
    and "dev_rest d = words_bytes (section_stream (config_section_list n bs)) @ cs"
    and "cs = words_bytes (h # ws)" "getSectionType lf2 h \<noteq> section_code SectionType_Config"
  shows "read_config_data lf2 d = bs"
  using assms
proof (induction n arbitrary: bs d)
  case 0
  then show ?case by (simp add: read_config_data.simps [of lf2 d] dev_read_def Let_def)
next
  case (Suc n)
  let ?k = "min (length bs) (unat (SectionMaxSize lf2))"
  note c = config_chunk [OF Suc.prems(1)]
  let ?ws = "bytes_words (take ?k bs)"
  let ?h = "section_header lf2 SectionType_Config (of_nat (length ?ws))"
  have pos: "0 < length ?ws"
  proof -
    have "0 < ?k" using Suc.prems(3) by (auto simp: lf2_fields)
    then show ?thesis using c(1,4) by presburger
  qed
  have rest: "dev_rest d = word_bytes ?h @ take ?k bs @ words_bytes (section_stream (config_section_list n (drop ?k bs))) @ cs"
    using Suc.prems(4) c(5) by (simp add: Let_def)
  have n: "unat (getSectionSize lf2 ?h) * 4 = ?k" 
    using sized_section(1) [OF c(3), of SectionType_Config] c(1,4) div_mult_mod_eq [of ?k 4] by linarith
  let ?d = "snd (dev_read ?k (snd (dev_read 4 d)))"
  have "dev_rest ?d = words_bytes (section_stream (config_section_list n (drop ?k bs))) @ cs"
    unfolding dev_read_rest rest by simp
  moreover have "length (drop ?k bs) \<le> n * unat (SectionMaxSize lf2)" using Suc.prems(2) by auto
  moreover have "n = 0 \<or> (n - 1) * unat (SectionMaxSize lf2) < length (drop ?k bs)"
    using Suc.prems(3) by (cases n) auto
  ultimately have "read_config_data lf2 ?d = drop ?k bs" by (intro Suc.IH c(2) assms(5,6))
  moreover have "fst (dev_read ?k (snd (dev_read 4 d))) = take ?k bs" unfolding dev_read_rest rest by simp
  moreover have "fst (dev_read 4 d) = word_bytes ?h" unfolding dev_read_rest rest by simp
  moreover have "getSectionSize lf2 ?h \<noteq> 0" 
    using pos sized_section(1) [OF c(3), of SectionType_Config] by (metis unat_0 less_not_refl)
  ultimately show ?case
    using sized_section(2) [OF c(3), of SectionType_Config] n
    by (simp add: read_config_data.simps [of lf2 d] case_prod_unfold Let_def unat_eq_zero)
qed

section \<open>Writing and reading back\<close>

definition wrote :: "Writer \<Rightarrow> u8 list \<Rightarrow> bool \<times> Writer \<Rightarrow> bool" where
  "wrote w bs r \<longleftrightarrow> fst r \<and> out_bytes (w_out (snd r)) = out_bytes (w_out w) @ bs
     \<and> out_room (w_out (snd r)) + length bs = out_room (w_out w)"

lemma wrote_refl: "wrote w [] (True, w)"
  by (simp add: wrote_def)

lemma wrote_trans: "wrote w bs r \<Longrightarrow> wrote (snd r) cs r' \<Longrightarrow> wrote w (bs @ cs) r'"
  by (simp add: wrote_def)

lemma wrote_write:
  "length bs \<le> out_room (w_out w) \<Longrightarrow> wrote w bs (write_counted bs w)"
  "length bs \<le> out_room (w_out w) \<Longrightarrow> wrote w bs (write_uncounted bs w)"
  by (simp_all add: wrote_def write_counted_def write_uncounted_def dev_write_def)

lemma wrote_and_then:
  "wrote w bs r \<Longrightarrow> (length cs \<le> out_room (w_out (snd r)) \<Longrightarrow> wrote (snd r) cs (f (snd r)))
   \<Longrightarrow> length (bs @ cs) \<le> out_room (w_out w) \<Longrightarrow> wrote w (bs @ cs) (and_then r f)"
  by (auto simp: and_then_def wrote_def)

lemma writeStringSection_wrote:
  assumes "string_fits s" "length (words_bytes (section_stream [string_section ty s])) \<le> out_room (w_out w)"
  shows "\<exists>r. writeStringSection ty s w = Some r \<and> wrote w (words_bytes (section_stream [string_section ty s])) r"
proof -
  let ?n = "4 - length s mod 4"
  let ?h = "word_bytes (section_header lf2 ty (of_nat ((length s + ?n) div 4)))"
  have pad: "\<not> 3 < ?n" "\<not> unat (SectionMaxSize lf2) < length s + ?n"
    using assms(1) by (auto simp: string_fits_def lf2_fields) presburger
  note bytes = string_section_ok(3) [OF assms(1), of ty]
  have "wrote w (?h @ s @ replicate ?n (of_char CHR '' '')) (and_then (and_then (write_counted ?h w) (write_counted s))
      (write_counted (replicate ?n (of_char CHR '' ''))))"
    using assms(2) unfolding bytes append_assoc [symmetric]
    by (intro wrote_and_then wrote_write) (simp_all del: length_replicate)
  with pad show ?thesis unfolding bytes by (simp add: writeStringSection_def lf2_def [symmetric] Let_def)
qed

lemma helper_write_wrote:
  assumes "writes_sections x ss" "length (words_bytes (section_stream ss)) \<le> out_room (w_out w)"
  shows "\<exists>r. helper_write x w = Some r \<and> wrote w (words_bytes (section_stream ss)) r"
  using assms
proof (cases x)
  case (WriteTimetick s)
  then show ?thesis using assms writeStringSection_wrote by (simp add: writeTimetickSection_def)
next
  case WritePause
  then show ?thesis using assms
    by (auto simp: writePauseSection_def pause_section_def lf2_def [symmetric] Let_def simp del: length_words_bytes
        intro!: wrote_and_then wrote_write)
next
  case WriteResume
  then show ?thesis using assms
    by (auto simp: writePauseSection_def pause_section_def lf2_def [symmetric] Let_def simp del: length_words_bytes
        intro!: wrote_and_then wrote_write)
qed (auto simp: writeBuffer_def simp del: length_words_bytes intro: wrote_write)

lemma write_run_wrote:
  assumes "list_all2 writes_sections xs sss" "fst r"
    and "length (words_bytes (section_stream (concat sss))) \<le> out_room (w_out (snd r))"
  shows "\<exists>r'. write_run xs r = Some r' \<and> wrote (snd r) (words_bytes (section_stream (concat sss))) r'"
  using assms
proof (induction xs sss arbitrary: r rule: list_all2_induct)
  case Nil
  then show ?case by (cases r) (simp add: wrote_refl)
next
  case (Cons x xs ss sss)
  from Cons.prems(2) have "length (words_bytes (section_stream ss)) \<le> out_room (w_out (snd r))" by simp
  then obtain r1 where r1: "helper_write x (snd r) = Some r1" "wrote (snd r) (words_bytes (section_stream ss)) r1"
    using helper_write_wrote [OF Cons.hyps(1)] by blast
  then have "length (words_bytes (section_stream (concat sss))) \<le> out_room (w_out (snd r1))" "fst r1"
    using Cons.prems(2) by (simp_all add: wrote_def)
  then obtain r2 where "write_run xs r1 = Some r2" "wrote (snd r1) (words_bytes (section_stream (concat sss))) r2"
    using Cons.IH by blast
  with r1 wrote_trans [OF r1(2)] Cons.prems(1) show ?case by auto
qed

lemma writes_sections_ok:
  "list_all2 writes_sections xs sss \<Longrightarrow> sections_ok lf2 (concat sss)
    \<and> list_all (\<lambda>(h, ws). getSectionType lf2 h \<noteq> section_code SectionType_Config) (concat sss)"
proof (induction xs sss rule: list_all2_induct)
  case (Cons x xs ss sss)
  have pause: "sections_ok lf2 [pause_section c] \<and> getSectionType lf2 (fst (pause_section c)) = 4" for c
    using sized_section [of "[c]" SectionType_Pause] by (simp add: pause_section_def)
  have cons: "sections_ok lf2 (s # ss) \<longleftrightarrow> sections_ok lf2 [s] \<and> sections_ok lf2 ss" for s ss
    using sections_ok_simps(3) [of lf2 "[s]" ss] by simp
  show ?case using Cons
    by (cases x) (auto simp: cons [of _ "concat sss"] string_section_ok pause case_prod_unfold simp del: sections_ok_simps(2))
qed simp

definition read_back :: "bool \<Rightarrow> Writer \<Rightarrow> InDevice" where
  "read_back archive w = \<lparr>in_bytes = out_bytes (w_out w), in_pos = 0, in_open = False, can_open = True, is_zip = archive\<rparr>"

text \<open>The number of sections that the configuration takes if all of them but the last are full.\<close>

definition config_count :: "u8 list \<Rightarrow> nat" where
  "config_count json = (length (pad_config json) + unat (SectionMaxSize lf2) - 1) div unat (SectionMaxSize lf2)"

definition listfile_sections :: "u8 list \<Rightarrow> (u32 \<times> u32 list) list list \<Rightarrow> u8 list \<Rightarrow> (u32 \<times> u32 list) list" where
  "listfile_sections json sss timeString =
     config_section_list (config_count json) (pad_config json) @ concat sss @ [string_section SectionType_End timeString]"

lemma pad_config_length: "length (pad_config json) mod 4 = 0"
proof -
  have "(n + (4 - n mod 4) mod 4) mod 4 = (n mod 4 + (4 - n mod 4)) mod 4" for n :: nat
    by (simp only: mod_add_left_eq mod_add_right_eq)
  also have "(n mod 4 + (4 - n mod 4)) mod 4 = 0" for n :: nat by (simp add: less_imp_le)
  finally show ?thesis by (simp add: pad_config_def)
qed

lemma config_count_bounds:
  "length (pad_config json) \<le> config_count json * unat (SectionMaxSize lf2)"
  "config_count json = 0 \<or> (config_count json - 1) * unat (SectionMaxSize lf2) < length (pad_config json)"
proof -
  have ceil: "l \<le> (l + m - 1) div m * m \<and> ((l + m - 1) div m = 0 \<or> ((l + m - 1) div m - 1) * m < l)" if "0 < m" for l m :: nat
  proof -
    define q where "q = (l + m - 1) div m"
    have "q * m + (l + m - 1) mod m = l + m - 1" unfolding q_def by (rule div_mult_mod_eq)
    moreover have "(l + m - 1) mod m < m" using that by simp
    ultimately have "q * m \<le> l + m - 1" "l + m - 1 < q * m + m" by linarith+
    moreover have "q = 0 \<or> (q - 1) * m + m = q * m" by (cases q) simp_all
    ultimately show ?thesis unfolding q_def [symmetric] using that by linarith
  qed
  have "0 < unat (SectionMaxSize lf2)" by (simp add: lf2_fields)
  from ceil [OF this, of "length (pad_config json)"]
  show "length (pad_config json) \<le> config_count json * unat (SectionMaxSize lf2)"
    "config_count json = 0 \<or> (config_count json - 1) * unat (SectionMaxSize lf2) < length (pad_config json)"
    unfolding config_count_def by blast+
qed

text \<open>
  Up to 71303096 bytes the number of sections computed in single precision is the right one. Four bytes more, which
  is a whole number of sections, and one empty section is added; later on the last section can get lost.
\<close>

definition max_config :: nat where "max_config = 71303096"

lemma config_size_rounded:
  assumes "0 < n" "n mod 4 = 0" "n \<le> max_config" "k * 4194300 < n" "n \<le> (k + 1) * 4194300"
  obtains r where "single_round (of_nat n) = r" "of_nat (k * 4194300) + 4 \<le> r" "r \<le> of_nat ((k + 1) * 4194300)"
proof (cases "n < 2 ^ 26")
  case True
  define m where "m = n div 4"
  have m: "n = 4 * m" using assms(2) unfolding m_def by presburger
  have "0 < m" using assms(1) m by simp
  moreover have "m < 2 ^ 24" using True m by simp
  ultimately have "single_round (of_nat n) = of_nat n" using single_round_words [of m] m by simp
  moreover have "k * 1048575 < m" using assms(4) unfolding m by linarith
  then have "k * 4194300 + 4 \<le> n" unfolding m by linarith
  then have "of_nat (k * 4194300) + 4 \<le> (of_nat n :: rat)" by (metis of_nat_add of_nat_le_iff of_nat_numeral)
  moreover have "of_nat n \<le> (of_nat ((k + 1) * 4194300) :: rat)" using assms(5) by (simp only: of_nat_le_iff)
  ultimately show ?thesis by (rule that)
next
  case False
  then have k: "k = 16" using assms(3-5) unfolding max_config_def by simp
  have n: "(67108864 :: rat) \<le> of_nat n" "of_nat n \<le> (71303096 :: rat)" "(0 :: rat) < of_nat n"
    using False assms(1,3) of_nat_le_iff [of 67108864 n, where ?'a = rat] of_nat_le_iff [of n 71303096, where ?'a = rat]
    by (simp_all add: max_config_def)
  then have e: "floor_log (of_nat n) \<le> 3 + 23" using floor_log_below [of "of_nat n" 27] by simp
  show ?thesis using single_round_bounds(1) [OF n(3) e, of 8388608] single_round_bounds(2) [OF n(3) e, of 8912887] n
    by (intro that [OF refl]) (simp_all add: k)
qed

lemma config_section_number_exact:
  assumes "length json \<le> max_config"
  shows "config_section_number (of_nat (length (pad_config json))) (SectionMaxSize lf2) = config_count json"
proof (cases "length (pad_config json) = 0")
  case True
  then show ?thesis by (simp add: config_section_number_def config_count_def lf2_fields)
next
  case False
  define n where "n = length (pad_config json)"
  define k where "k = (n - 1) div 4194300"
  have n: "0 < n" "n mod 4 = 0" using False pad_config_length by (simp_all add: n_def)
  have "n < length json + 4" by (simp add: n_def pad_config_def)
  then have max: "n \<le> max_config" using assms n(2) unfolding max_config_def by presburger
  have "k * 4194300 + (n - 1) mod 4194300 = n - 1" "(n - 1) mod 4194300 < 4194300" unfolding k_def by simp_all
  then have kn: "k * 4194300 < n" "n \<le> (k + 1) * 4194300" using n(1) by simp_all
  then have count: "config_count json = k + 1"
    unfolding config_count_def n_def [symmetric] lf2_fields k_def using n(1) by (simp add: div_add_self2 [symmetric])
  obtain r where r: "single_round (of_nat n) = r" "of_nat (k * 4194300) + 4 \<le> r" "r \<le> of_nat ((k + 1) * 4194300)"
    using config_size_rounded [OF n max kn] .
  have "unat (of_nat n :: u32) = n" using max by (simp add: unat_of_nat max_config_def)
  moreover have "\<lceil>single_round (r / 4194300)\<rceil> = int k + 1"
  proof (rule single_round_ceiling)
    show "of_int (int k) + 1 / 2 ^ 20 < r / 4194300" using r(2) by (simp add: field_simps)
    show "r / 4194300 \<le> of_int (int k + 1)" using r(3) by (simp add: field_simps)
    show "int k < 31" using kn(1) max by (simp add: max_config_def)
  qed simp
  ultimately show ?thesis
    unfolding config_section_number_def n_def [symmetric] using single_round_small [of 4194300]
    by (simp add: lf2_fields r(1) count nat_add_distrib)
qed

lemma config_section_number_inexact:
  "config_section_number 71303100 (SectionMaxSize lf2) = 18" "71303100 = 17 * unat (SectionMaxSize lf2)"
  "config_section_number 134217604 (SectionMaxSize lf2) = 32" "134217604 = 32 * unat (SectionMaxSize lf2) + 4"
proof -
  have halves: "\<lfloor>17825775 / 2 :: rat\<rfloor> = 8912887" "\<lfloor>33554401 / 2 :: rat\<rfloor> = 16777200"
    "\<lfloor>9345840447488 / 1048575 :: rat\<rfloor> = 8912896" by (simp_all add: floor_eq_iff)
  have round: "single_round 4194300 = 4194300" "single_round 71303100 = 71303104" "single_round 134217604 = 134217600"
    by (simp_all add: single_round_eq [of 22] single_round_eq [of 26] single_round_eq [of 21] round_even_def Let_def halves)
  have quotients: "single_round (17825776 / 1048575) = 8912897 / 524288" "single_round 32 = 32"
    by (simp_all add: single_round_eq [of 4] single_round_eq [of 5] round_even_def Let_def power_int_minus halves)
  have "\<lceil>8912897 / 524288 :: rat\<rceil> = 18" by (simp add: ceiling_eq_iff)
  then have "\<lceil>single_round (17825776 / 1048575)\<rceil> = 18" unfolding quotients .
  then show "config_section_number 71303100 (SectionMaxSize lf2) = 18" "config_section_number 134217604 (SectionMaxSize lf2) = 32"
    by (simp_all add: config_section_number_def lf2_fields round quotients)
qed (simp_all add: lf2_fields)

lemma write_listfile_wrote:
  assumes "list_all2 writes_sections xs sss" "string_fits timeString" "out_bytes (w_out w) = []"
    and "8 + 4 * length (section_stream (listfile_sections json sss timeString)) \<le> out_room (w_out w)"
    and "length json \<le> max_config"
  shows "\<exists>w'. write_listfile json xs timeString w = Some (True, w')
    \<and> out_bytes (w_out w') = string_bytes ''MVME'' @ word_bytes 2
        @ words_bytes (section_stream (listfile_sections json sss timeString))"
proof -
  let ?c = "words_bytes (section_stream (config_section_list (config_count json) (pad_config json)))"
  let ?p = "string_bytes ''MVME'' @ word_bytes 2" and ?e = "[string_section SectionType_End timeString]"
  have p: "length ?p = 8" by (simp add: string_bytes_def)
  have c: "writeConfig json w1 = write_counted ?c w1" for w1
    using config_sections_eq [OF pad_config_length, of "config_count json" json]
    unfolding writeConfig_def lf2_def [symmetric] Let_def config_section_number_exact [OF assms(5)] by simp
  have room: "8 + length ?c + length (words_bytes (section_stream (concat sss))) + length (words_bytes (section_stream ?e)) \<le> out_room (w_out w)"
    using assms(4) by (simp add: listfile_sections_def)
  have "wrote w ?p (writePreamble w)"
    using room unfolding writePreamble_def lf2_def [symmetric] Let_def lf2_fields
    by (intro wrote_and_then wrote_write) (simp_all add: string_bytes_def)
  then have started: "wrote w (?p @ ?c) (helper_beginRun json w)"
    using room p unfolding helper_beginRun_def c by (intro wrote_and_then wrote_write) (simp_all add: wrote_def)
  then have "fst (helper_beginRun json w)"
    "length (words_bytes (section_stream (concat sss))) \<le> out_room (w_out (snd (helper_beginRun json w)))"
    using room p by (simp_all add: wrote_def)
  then obtain r where r: "write_run xs (helper_beginRun json w) = Some r"
    "wrote (snd (helper_beginRun json w)) (words_bytes (section_stream (concat sss))) r"
    using write_run_wrote [OF assms(1)] by blast
  from wrote_trans [OF started r(2)] have run: "wrote w ((?p @ ?c) @ words_bytes (section_stream (concat sss))) r" .
  then have "length (words_bytes (section_stream ?e)) \<le> out_room (w_out (snd r))" using room p by (simp add: wrote_def)
  then obtain r' where "writeStringSection SectionType_End timeString (snd r) = Some r'"
    "wrote (snd r) (words_bytes (section_stream ?e)) r'"
    using writeStringSection_wrote [OF assms(2)] by blast
  with wrote_trans [OF run this(2)] r(1) run assms(3) show ?thesis
    by (cases r') (auto simp: write_listfile_def helper_endRun_def writeEndSection_def wrote_def listfile_sections_def)
qed

text \<open>Opening a file with the preamble of a current listfile.\<close>

lemma opened_listfile:
  assumes "out_bytes (w_out w') = string_bytes ''MVME'' @ word_bytes 2 @ bs"
  obtains lf where "open_listfile uninit (new_listfile lib (read_back archive w')) = (True, lf)" "lf_fileVersion lf = 2"
    "lf_preambleBuffer lf = string_bytes ''MVME'' @ word_bytes 2" "lf_sectionHeaderBuffer lf = 0"
    "dev_rest (lf_input lf) = bs" "seekToFirstSection lf = (True, lf)"
proof -
  define d0 where "d0 = read_back archive w'"
  define d where "d = d0\<lparr>in_open := True\<rparr>"
  have d: "in_bytes d = string_bytes ''MVME'' @ word_bytes 2 @ bs" "in_pos d = 0" "in_open d" "can_open d"
    by (simp_all add: d_def d0_def read_back_def assms)
  have mvme: "length (string_bytes ''MVME'') = 4" by (simp add: string_bytes_def)
  have read4: "dev_read 4 d = (string_bytes ''MVME'', d\<lparr>in_pos := 4\<rparr>)"
    "dev_read 4 (d\<lparr>in_pos := 4\<rparr>) = (word_bytes 2, d\<lparr>in_pos := 8\<rparr>)"
    using d mvme by (simp_all add: dev_read_def dev_rest_def)
  have seek: "seek_in_file 8 (d\<lparr>in_pos := 8\<rparr>) = (True, d\<lparr>in_pos := 8\<rparr>)"
    using d mvme by (cases d) (simp add: seek_in_file_def)
  have opened: "d0\<lparr>in_open := True, in_pos := 0\<rparr> = d" "\<not> in_open d0" "can_open d0"
    by (simp_all add: d_def d0_def read_back_def)
  have two: "listfile_constants 2 = lf2" by (simp add: lf2_def CurrentListfileVersion_def)
  let ?lf = "(new_listfile lib (d\<lparr>in_pos := 8\<rparr>))\<lparr>lf_fileVersion := 2, lf_preambleBuffer := string_bytes ''MVME'' @ word_bytes 2\<rparr>"
  show ?thesis
  proof (rule that)
    show "open_listfile uninit (new_listfile lib (read_back archive w')) = (True, ?lf)"
      using read4 seek unfolding d0_def [symmetric]
      by (simp add: open_listfile_def new_listfile_def lf2_def [symmetric] lf2_fields Let_def seekToFirstSection_def
          seek_listfile_def two opened del: dev_read_rest)
    show "seekToFirstSection ?lf = (True, ?lf)"
      using seek by (simp add: seekToFirstSection_def seek_listfile_def two lf2_fields new_listfile_def)
    show "dev_rest (lf_input ?lf) = bs" using d mvme by (simp add: dev_rest_def new_listfile_def)
  qed (simp_all add: new_listfile_def)
qed

lemma listfile_sections_ok:
  assumes "list_all2 writes_sections xs sss" "string_fits timeString"
  shows "sections_ok lf2 (listfile_sections json sss timeString)"
  using config_sections_eq [OF pad_config_length] writes_sections_ok [OF assms(1)] string_section_ok(1) [OF assms(2)]
  by (simp add: listfile_sections_def)

text \<open>C9: what a run writes is what a replay reads. If the writes of a run hold complete sections, the device has
  room, no time string has a length divisible by four and the configuration is at most 71303096 bytes long, the file
  is written without errors; opening it, plain or in an archive, finds the version and the preamble, the configuration
  is read back with its padding, and the pending bytes are the sections of the configuration, of the writes and the
  end section.\<close>

theorem listfile_roundtrip:
  assumes "list_all2 writes_sections xs sss" "string_fits timeString" "out_bytes (w_out w) = []"
    and "8 + 4 * length (section_stream (listfile_sections json sss timeString)) \<le> out_room (w_out w)"
    and "length json \<le> max_config"
  shows "\<exists>w' lf. write_listfile json xs timeString w = Some (True, w')
    \<and> open_listfile uninit (new_listfile lib (read_back archive w')) = (True, lf)
    \<and> lf_fileVersion lf = 2 \<and> lf_preambleBuffer lf = string_bytes ''MVME'' @ word_bytes 2
    \<and> read_config_data (listfile_constants (lf_fileVersion lf)) (lf_input lf) = pad_config json
    \<and> pending (lf_sectionHeaderBuffer lf) (lf_input lf) = words_bytes (section_stream (listfile_sections json sss timeString))
    \<and> sections_ok (listfile_constants (lf_fileVersion lf)) (listfile_sections json sss timeString)"
proof -
  let ?S = "words_bytes (section_stream (listfile_sections json sss timeString))"
  obtain w' where w': "write_listfile json xs timeString w = Some (True, w')"
    "out_bytes (w_out w') = string_bytes ''MVME'' @ word_bytes 2 @ ?S"
    using write_listfile_wrote [OF assms] by blast
  obtain lf where lf: "open_listfile uninit (new_listfile lib (read_back archive w')) = (True, lf)" "lf_fileVersion lf = 2"
    "lf_preambleBuffer lf = string_bytes ''MVME'' @ word_bytes 2" "lf_sectionHeaderBuffer lf = 0" "dev_rest (lf_input lf) = ?S"
    using opened_listfile [OF w'(2)] .
  have two: "listfile_constants 2 = lf2" by (simp add: lf2_def CurrentListfileVersion_def)
  have "read_config_data lf2 (lf_input lf) = pad_config json"
  proof -
    let ?rest = "concat sss @ [string_section SectionType_End timeString]"
    have "list_all (\<lambda>(h, ws). getSectionType lf2 h \<noteq> section_code SectionType_Config) ?rest"
      using writes_sections_ok [OF assms(1)] string_section_ok(2) [OF assms(2), of SectionType_End]
      by (simp add: case_prod_unfold)
    moreover obtain h ws ss where r: "?rest = (h, ws) # ss" by (metis list.exhaust surj_pair append_is_Nil_conv not_Cons_self2)
    ultimately have "getSectionType lf2 h \<noteq> section_code SectionType_Config" by simp
    moreover have "section_stream ?rest = h # ws @ section_stream ss" unfolding r by simp
    ultimately show ?thesis
      using read_config_data_eq [OF pad_config_length config_count_bounds, of "lf_input lf" json _ h "ws @ section_stream ss"] lf(5)
      by (simp add: listfile_sections_def)
  qed
  then show ?thesis using w'(1) lf listfile_sections_ok [OF assms(1,2), of json]
    by (intro exI [of _ w'] exI [of _ lf]) (simp add: two pending_def)
qed

end
