(* ===== verification/Listfile_Replay.thy ===== *)
theory Listfile_Replay
  imports Listfile_Worker Listfile_Write Stream_Single
begin

text \<open>
  A recorded run is replayed: writing, the replay worker and the stream processor together, and examples.
\<close>

section \<open>Processing what is handed out\<close>

fun process_buffers :: "DataBuffer list \<Rightarrow> StreamProcessor \<Rightarrow> StreamProcessor option" where
  "process_buffers [] st = Some st"
| "process_buffers (b # bs) st = Option.bind (processDataBuffer b st) (process_buffers bs)"

lemma stream_sections_stream: "sections_ok lf ss \<Longrightarrow> stream_sections lf (section_stream ss) = (ss, True)"
  by (induction ss) (auto simp: stream_sections.simps Let_def)

lemma buffer_words_used:
  assumes "used_bytes b = words_bytes ws" "db_used b \<le> length (db_data b)"
  shows "db_used b = 4 * length ws" "take (length ws) (buffer_words b) = ws"
proof -
  have "db_data b = words_bytes ws @ drop (db_used b) (db_data b)"
    using assms(1) append_take_drop_id [of "db_used b" "db_data b"] by (simp add: used_bytes_def)
  moreover have "length (words_bytes ws) mod 4 = 0" by simp
  ultimately have "buffer_words b = ws @ bytes_words (drop (db_used b) (db_data b))"
    unfolding buffer_words_def by (metis bytes_words_append bytes_words_bytes)
  then show "take (length ws) (buffer_words b) = ws" by simp
  show "db_used b = 4 * length ws"
    using arg_cong [OF assms(1), of length] assms(2) by (simp add: used_bytes_def min_absorb2)
qed

lemma section_fits_config: "same_config st st' \<Longrightarrow> section_fits st' = section_fits st"
  by (simp add: section_fits_def same_config_def fun_eq_iff)

text \<open>The buffers of a replay are processed completely: every event section of the file is counted once, and so
  are the bytes of all sections, however the file is cut into buffers.\<close>

theorem replayed_events_counted:
  assumes "grouped bs groups" "wf_processor st" "analysis st" "bufferIter st = None"
    and "sections_ok (listfileConstants st) (concat groups)" "list_all (section_fits st) (concat groups)"
    and "list_all (\<lambda>b. wf_buffer b \<and> db_used b div 4 + 1 < length (buffer_words b)) bs"
  shows "\<exists>st'. process_buffers bs st = Some st'
    \<and> totalEvents (counters st') = totalEvents (counters st) + of_nat (event_count (listfileConstants st) (concat groups))
    \<and> bytesProcessed (counters st') = bytesProcessed (counters st) + of_nat (byte_count (concat groups))
    \<and> buffersProcessed (counters st') = buffersProcessed (counters st) + of_nat (length bs)"
  using assms
proof (induction bs arbitrary: groups st)
  case Nil
  then show ?case by (simp add: grouped_def event_count_def byte_count_def)
next
  case (Cons b bs)
  let ?lf = "listfileConstants st"
  obtain g gs where g: "groups = g # gs" "used_bytes b = words_bytes (section_stream g)" "grouped bs gs"
    using Cons.prems(1) by (auto simp: grouped_def)
  have b: "db_used b \<le> length (db_data b)" "db_used b div 4 + 1 < length (buffer_words b)"
    using Cons.prems(7) by (simp_all add: wf_buffer_def)
  note used = buffer_words_used [OF g(2) b(1)]
  let ?it = "buffer_iterator 0 (db_used b div 4)"
  have "stream_sections ?lf (take (it_end ?it - it_pos ?it) (drop (it_pos ?it) (buffer_words b))) = (g, True)"
    using stream_sections_stream [of ?lf g] Cons.prems(5) g(1) used by (simp add: buffer_iterator_def)
  then obtain st1 where st1: "process_sections (buffer_words b) ?it st = Some (Inr st1)"
    "section_counted (event_count ?lf g) st st1" "bytesProcessed (counters st1) = bytesProcessed (counters st) + of_nat (byte_count g)"
    using process_sections_total [OF Cons.prems(2,3), of ?it "buffer_words b" g True] b(2) Cons.prems(6) g(1)
    by (auto simp: buffer_iterator_def)
  let ?st1 = "count (\<lambda>c. c\<lparr>buffersProcessed := buffersProcessed c + 1\<rparr>) st1"
  have same: "same_config st ?st1" "wf_processor ?st1" 
    using st1(2) by (simp_all add: section_counted_def)
  then have cfg: "analysis ?st1" "bufferIter ?st1 = None" "listfileConstants ?st1 = ?lf"
    using Cons.prems(3,4) by (simp_all add: same_config_def)
  obtain st' where st': "process_buffers bs ?st1 = Some st'"
    "totalEvents (counters st') = totalEvents (counters ?st1) + of_nat (event_count ?lf (concat gs))"
    "bytesProcessed (counters st') = bytesProcessed (counters ?st1) + of_nat (byte_count (concat gs))"
    "buffersProcessed (counters st') = buffersProcessed (counters ?st1) + of_nat (length bs)"
    using Cons.IH [OF g(3) same(2) cfg(1,2)] Cons.prems(5-7) g(1) section_fits_config [OF same(1)] cfg(3) by auto
  have "processDataBuffer b st = Some ?st1" using Cons.prems(4) st1(1) by (simp add: processDataBuffer_def)
  then show ?case using st' st1(2,3) g(1)
    by (simp add: section_counted_def count_def event_count_def byte_count_def)
qed

section \<open>From the recording to the replay\<close>

text \<open>A worker that has been started.\<close>

definition running :: "'j ListFile \<Rightarrow> DataBuffer list \<Rightarrow> 'j Worker" where
  "running lf buffers = setState Running (new_worker lf buffers)"

lemma running_simps [simp]:
  "wk_state (running lf bs) = Running" "wk_desired (running lf bs) = Running" "wk_eventsToRead (running lf bs) = 0"
  "wk_filled (running lf bs) = []" "wk_empty (running lf bs) = bs" "wk_listfile (running lf bs) = lf"
  by (simp_all add: running_def setState_def new_worker_def)

lemma started_replay:
  assumes "list_all2 writes_sections xs sss" "string_fits timeString" "out_bytes (w_out w) = []"
    and "8 + 4 * length (section_stream (listfile_sections json sss timeString)) \<le> out_room (w_out w)"
    and "length json \<le> max_config"
    and "write_listfile json xs timeString w = Some (True, w')"
  obtains lf where "start version (new_worker (new_listfile lib (read_back archive w')) buffers) = Some (running lf buffers)"
    "file_pending lf (listfile_sections json sss timeString)"
proof -
  let ?ss = "listfile_sections json sss timeString"
  have bytes: "out_bytes (w_out w') = string_bytes ''MVME'' @ word_bytes 2 @ words_bytes (section_stream ?ss)"
    using write_listfile_wrote [OF assms(1-5)] assms(6) by auto
  obtain lf where o: "open_listfile version (new_listfile lib (read_back archive w')) = (True, lf)" "lf_fileVersion lf = 2"
    "lf_sectionHeaderBuffer lf = 0" "dev_rest (lf_input lf) = words_bytes (section_stream ?ss)" "seekToFirstSection lf = (True, lf)"
    using opened_listfile [OF bytes] .
  show ?thesis
  proof (rule that)
    show "file_pending lf ?ss" using o listfile_sections_ok [OF assms(1,2)]
      by (simp add: file_pending_def pending_def header_saved_def lf2_def CurrentListfileVersion_def)
    show "start version (new_worker (new_listfile lib (read_back archive w')) buffers) = Some (running lf buffers)"
      using o(1,5) by (simp add: start_def new_worker_def running_def)
  qed
qed


section \<open>Examples\<close>

text \<open>A file with an event section, an empty section of unknown type, a time tick and an event section.\<close>

definition example_sections :: "(u32 \<times> u32 list) list" where
  "example_sections = [(0x20000002, [7, EndMarker]), (0xA0000000, []), (0x60000001, [0x20202020]), (0x20400001, [EndMarker])]"

definition no_json :: "unit JsonLib" where
  "no_json = \<lparr>from_json = (\<lambda>bs. None), json_value = (\<lambda>j s. None), json_empty = (\<lambda>j. True), no_object = ()\<rparr>"

definition example_file :: "u8 list \<Rightarrow> unit ListFile" where
  "example_file bs = (new_listfile no_json \<lparr>in_bytes = bs, in_pos = 0, in_open = True, can_open = True, is_zip = False\<rparr>)
     \<lparr>lf_fileVersion := 2\<rparr>"

definition empty_buffer :: "nat \<Rightarrow> DataBuffer" where
  "empty_buffer n = \<lparr>db_data = replicate (4 * (n + 1)) 0, db_size = 4 * n, db_used = 0, db_id = 0, db_tag = 0\<rparr>"

lemma empty_buffer_simps [simp]:
  "wf_buffer (empty_buffer n)" "free_space (empty_buffer n) = 4 * n" "used_bytes (empty_buffer n) = []"
  "db_used (empty_buffer n) = 0" "db_size (empty_buffer n) = 4 * n"
  by (simp_all add: empty_buffer_def wf_buffer_def free_space_def used_bytes_def)

lemma example_file_simps [simp]:
  "lf_fileVersion (example_file bs) = 2" "pending (lf_sectionHeaderBuffer (example_file bs)) (lf_input (example_file bs)) = bs"
  "pending 0 (lf_input (example_file bs)) = bs" "header_saved lf 0" "lf_sectionHeaderBuffer (example_file bs) = 0"
  by (simp_all add: example_file_def new_listfile_def pending_def header_saved_def dev_rest_def)

lemma example_sections_ok: "sections_ok (listfile_constants 2) example_sections"
  by code_simp

lemma example_sections_not_empty: "example_sections \<noteq> []"
  by (simp add: example_sections_def)

lemma example_file_pending: "file_pending (example_file (words_bytes (section_stream example_sections))) example_sections"
  by (simp add: file_pending_def example_sections_ok)

theorem read_sections_truncated_witness:
  "\<exists>b' lf'. readSectionsIntoBuffer (empty_buffer 20)
      (example_file (words_bytes (section_stream example_sections) @ take 6 (words_bytes [0x20000002, 7, EndMarker]))) = Some (- 1, b', lf')
    \<and> prefix (words_bytes (section_stream example_sections)) (used_bytes b')"
proof -
  have "unat (getSectionSize (listfile_constants 2) 0x20000002) = length [7, EndMarker :: u32]"
    "length (section_stream example_sections) = 8"
    by code_simp+
  then show ?thesis
    using read_sections_truncated [of "empty_buffer 20" "example_file (words_bytes (section_stream example_sections) @
        take 6 (words_bytes [0x20000002, 7, EndMarker]))" example_sections 6 "0x20000002" "[7, EndMarker]"]
    by (simp add: example_sections_ok del: words_bytes_simps)
qed

theorem next_event_section_witness:
  "\<exists>b' lf' n m. read_event (\<lambda>_. 0) (example_file (words_bytes (section_stream example_sections))) (empty_buffer 3) 0 0 =
      Some (True, b', lf', n, m)
    \<and> used_bytes b' = words_bytes [0x20000002, 7, EndMarker] \<and> file_pending lf' (drop 1 example_sections)"
proof -
  have "dropWhile (skipped_section (listfile_constants 2)) example_sections = example_sections" by code_simp
  then show ?thesis
    using next_event_section [OF _ example_file_pending, of "empty_buffer 3" "\<lambda>_. 0" 0 0]
    by (auto simp: example_sections_def)
qed

lemma read_at_end:
  assumes "file_pending (wk_listfile w) []" "wk_empty w = b # bs" "wk_eventsToRead w = 0" "db_used b = 0"
  shows "read_buffer uninit w = Some (setState Stopping (w\<lparr>wk_empty := bs @ [b]\<rparr>))"
proof -
  have at_end: "dev_at_end (lf_input (wk_listfile w))" "lf_sectionHeaderBuffer (wk_listfile w) = 0"
    using assms(1) by (auto simp: file_pending_def pending_def dev_at_end_def split: if_splits)
  have same: "b\<lparr>db_used := 0\<rparr> = b" "wk_listfile w\<lparr>lf_input := lf_input (wk_listfile w), lf_sectionHeaderBuffer := 0\<rparr> = wk_listfile w"
    using assms(4) at_end(2) by (cases b, simp) (cases "wk_listfile w", use at_end(2) in simp)
  show ?thesis using assms(2,3) at_end same
    by (simp add: read_buffer_def readSectionsIntoBuffer_def read_sections_into_buffer.simps setState_def)
qed

lemma loop_round:
  assumes "run uninit s ls (AtHead, w)" "loop_head w = Some a" "loop_body uninit a w = Some w'"
  shows "run uninit s (ls @ [Head, Body]) (if a = Leave then Left else AtHead, w')"
proof -
  have "run uninit s (ls @ [Head]) (Doing a, w)" using assms(1) step_head [OF assms(2)] by (rule run_step)
  then have "run uninit s ((ls @ [Head]) @ [Body]) (if a = Leave then Left else AtHead, w')"
    using step_body [OF assms(3)] by (rule run_step)
  then show ?thesis by simp
qed

lemma fitting_all: "4 * length (section_stream ss) \<le> n \<Longrightarrow> fitting n ss = length ss"
  by (induction n ss rule: fitting.induct) auto

text \<open>A file that fits into the first of two buffers.\<close>

lemma replay_two_buffers:
  assumes "file_pending lf ss" "ss \<noteq> []" "wf_buffer b1" "db_used b1 = 0" "db_used b2 = 0"
    and "4 * length (section_stream ss) \<le> db_size b1"
  shows "\<exists>v. run uninit (AtHead, running lf [b1, b2]) [Head, Body, Head, Body, Head, Body] (Left, v)"
proof -
  let ?lf = "listfile_constants (lf_fileVersion lf)"
  have b1: "free_space b1 = db_size b1" "used_bytes b1 = []" "b1\<lparr>db_used := 0\<rparr> = b1"
    using assms(4) by (simp_all add: free_space_def used_bytes_def)
  have k: "fitting (db_size b1) ss = length ss" using assms(6) by (rule fitting_all)
  obtain b' saved' d' where r: "read_sections_into_buffer ?lf (lf_input lf) b1 (lf_sectionHeaderBuffer lf) 0 =
      Some (int (length ss), b', saved', d')" "pending saved' d' = []" "header_saved ?lf saved'"
    using read_sections_complete [OF assms(3), of ?lf ss "lf_sectionHeaderBuffer lf" "lf_input lf" 0] assms(1) b1 k
    by (auto simp: file_pending_def)
  let ?lf' = "lf\<lparr>lf_input := d', lf_sectionHeaderBuffer := saved'\<rparr>"
  have read: "readSectionsIntoBuffer b1 lf = Some (int (length ss), b', ?lf')"
    using r(1) by (simp add: readSectionsIntoBuffer_def)
  obtain w1 where w1: "read_buffer uninit (running lf [b1, b2]) = Some w1" "wk_state w1 = Running" "wk_desired w1 = Running"
    "wk_eventsToRead w1 = 0" "wk_empty w1 = [b2]" "wk_listfile w1 = ?lf'"
    using read b1(3) assms(2) by (simp add: read_buffer_def)
  have at_end: "file_pending (wk_listfile w1) []" using r(2,3) w1(6) by (simp add: file_pending_def)
  let ?w2 = "setState Stopping (w1\<lparr>wk_empty := [] @ [b2]\<rparr>)"
  have "run uninit (AtHead, running lf [b1, b2]) ([] @ [Head, Body]) (if Read = Leave then Left else AtHead, w1)"
    by (rule loop_round [OF run_refl]) (simp_all add: loop_head_def w1(1))
  then have "run uninit (AtHead, running lf [b1, b2]) ([] @ [Head, Body]) (AtHead, w1)" by simp
  then have "run uninit (AtHead, running lf [b1, b2]) (([] @ [Head, Body]) @ [Head, Body]) (if Read = Leave then Left else AtHead, ?w2)"
    by (rule loop_round) (simp_all add: loop_head_def w1 read_at_end [OF at_end] assms(5))
  then have "run uninit (AtHead, running lf [b1, b2]) (([] @ [Head, Body]) @ [Head, Body]) (AtHead, ?w2)" by simp
  then have "run uninit (AtHead, running lf [b1, b2]) ((([] @ [Head, Body]) @ [Head, Body]) @ [Head, Body])
      (if Leave = Leave then Left else AtHead, setState Idle ?w2)"
    by (rule loop_round) (simp_all add: loop_head_def setState_def)
  then show ?thesis by auto
qed

lemma run_to_end:
  "run (\<lambda>_. 0) (AtHead, running (example_file []) [empty_buffer 1]) [Head, Body]
     (AtHead, setState Stopping (running (example_file []) [empty_buffer 1]))"
proof -
  let ?w = "running (example_file []) [empty_buffer 1]"
  have "read_buffer (\<lambda>_. 0) ?w = Some (setState Stopping (?w\<lparr>wk_empty := [] @ [empty_buffer 1]\<rparr>))"
    by (rule read_at_end) (simp_all add: file_pending_def empty_buffer_def)
  moreover have same: "?w\<lparr>wk_empty := [] @ [empty_buffer 1]\<rparr> = ?w" by (simp add: running_def setState_def new_worker_def)
  ultimately have "read_buffer (\<lambda>_. 0) ?w = Some (setState Stopping ?w)" unfolding same by simp
  then have "run (\<lambda>_. 0) (AtHead, ?w) ([] @ [Head, Body]) (if Read = Leave then Left else AtHead, setState Stopping ?w)"
    by (intro loop_round [OF run_refl]) (simp_all add: loop_head_def)
  then show ?thesis by simp
qed

theorem loop_assertion_witness:
  "\<exists>w. run (\<lambda>_. 0) (AtHead, running (example_file []) [empty_buffer 1]) [Head, Body, Resume] (AtHead, w) \<and> loop_head w = None"
proof -
  let ?w = "resume (setState Stopping (running (example_file []) [empty_buffer 1]))"
  have "run (\<lambda>_. 0) (AtHead, running (example_file []) [empty_buffer 1]) ([Head, Body] @ [Resume]) (AtHead, ?w)"
    using run_to_end step_resume by (rule run_step)
  then have "run (\<lambda>_. 0) (AtHead, running (example_file []) [empty_buffer 1]) [Head, Body, Resume] (AtHead, ?w)" by simp
  moreover from loop_assertion [OF this] have "loop_head ?w = None" by (simp add: resume_def setState_def)
  ultimately show ?thesis by blast
qed

theorem stop_request_lost_witness:
  "\<exists>w'. run (\<lambda>_. 0) (AtHead, running (example_file []) []) [Pause, Head, Stop, Body] (AtHead, w')"
  using stop_request_lost [of "running (example_file []) []" "\<lambda>_. 0"] by auto


text \<open>A recording: a configuration, a buffer with an event, a time tick, a pause, and the end section.\<close>

definition example_writes :: "Write list" where
  "example_writes = [WriteBuffer (buffer_of [0x20000002, 7, EndMarker] [0]), WriteTimetick [0x31, 0x32], WritePause, WriteResume]"

definition example_written :: "(u32 \<times> u32 list) list list" where
  "example_written = [[(0x20000002, [7, EndMarker])], [string_section SectionType_Timetick [0x31, 0x32]], [pause_section 0],
     [pause_section 1]]"

definition example_out :: Writer where
  "example_out = \<lparr>w_out = \<lparr>out_bytes = [], out_room = 1000\<rparr>, w_bytesWritten = 0\<rparr>"

lemma example_writes_sections: "list_all2 writes_sections example_writes example_written"
proof -
  have "sections_ok lf2 [(0x20000002, [7, EndMarker])]" "getSectionType lf2 0x20000002 = 1" by code_simp+
  moreover have "string_fits [0x31, 0x32]" by (simp add: string_fits_def lf2_fields)
  ultimately show ?thesis
    by (simp add: example_writes_def example_written_def used_bytes_def buffer_of_def)
qed

lemma two_spaces: "replicate 2 (0x20 :: 8 word) = [0x20, 0x20]"
  by (simp add: numeral_2_eq_2)

lemma example_recording_sizes:
  "length (section_stream (listfile_sections [0x7B, 0x7D] example_written [0x31])) = 13" "string_fits [0x31]"
  "list_all (\<lambda>(h, ws). 4 * (length ws + 1) \<le> 80) (listfile_sections [0x7B, 0x7D] example_written [0x31])"
proof -
  have config: "config_count [0x7B, 0x7D] = 1" "pad_config [0x7B, 0x7D] = [0x7B, 0x7D, 0x20, 0x20]"
    by (simp_all add: config_count_def pad_config_def lf2_fields two_spaces)
  show "length (section_stream (listfile_sections [0x7B, 0x7D] example_written [0x31])) = 13" "string_fits [0x31]"
    "list_all (\<lambda>(h, ws). 4 * (length ws + 1) \<le> 80) (listfile_sections [0x7B, 0x7D] example_written [0x31])"
    by (simp_all add: listfile_sections_def config lf2_fields example_written_def string_section_def pause_section_def Let_def
        string_fits_def length_bytes_words)
qed

theorem listfile_roundtrip_witness:
  "\<exists>w' lf. write_listfile [0x7B, 0x7D] example_writes [0x31] example_out = Some (True, w')
    \<and> open_listfile 5 (new_listfile no_json (read_back True w')) = (True, lf) \<and> lf_fileVersion lf = 2
    \<and> read_config_data (listfile_constants 2) (lf_input lf) = [0x7B, 0x7D, 0x20, 0x20]"
proof -
  have "pad_config [0x7B, 0x7D] = [0x7B, 0x7D, 0x20, 0x20]" by (simp add: pad_config_def two_spaces)
  moreover have "out_bytes (w_out example_out) = []" "out_room (w_out example_out) = 1000" "2 \<le> max_config"
    by (simp_all add: example_out_def max_config_def)
  ultimately show ?thesis
    using listfile_roundtrip [OF example_writes_sections, of "[0x31]" example_out "[0x7B, 0x7D]" 5 no_json True]
      example_recording_sizes(1,2) by auto
qed


theorem replayed_events_counted_witness:
  "\<exists>st'. process_buffers [buffer_of [0x60000000] [0, 0], buffer_of [0x21000000, 0x21000000] [0, 0]] example_processor = Some st'
    \<and> totalEvents (counters st') = totalEvents (counters example_processor) + 2
    \<and> bytesProcessed (counters st') = bytesProcessed (counters example_processor) + 12
    \<and> buffersProcessed (counters st') = buffersProcessed (counters example_processor) + 2"
proof -
  let ?gs = "[[(0x60000000, [])], [(0x21000000, []), (0x21000000, [])]] :: (u32 \<times> u32 list) list list"
  have sizes: "sections_ok (listfile_constants 2) (concat ?gs)" "event_count (listfile_constants 2) (concat ?gs) = 2"
    "byte_count (concat ?gs) = 12"
    by code_simp+
  have fits: "list_all (section_fits example_processor) (concat ?gs)"
    by (simp add: section_fits_def module_count.simps MaxVMEModules_def)
  have group: "grouped [buffer_of [0x60000000] [0, 0], buffer_of [0x21000000, 0x21000000] [0, 0]] ?gs"
    by (simp add: grouped_def used_bytes_def buffer_of_def)
  have bufs: "list_all (\<lambda>b. wf_buffer b \<and> db_used b div 4 + 1 < length (buffer_words b))
      [buffer_of [0x60000000] [0, 0], buffer_of [0x21000000, 0x21000000] [0, 0]]"
    by (simp add: wf_buffer_def) (simp add: buffer_of_def)
  from replayed_events_counted [OF group example_wf _ _ _ _ bufs] sizes fits show ?thesis by (simp add: eval_nat_numeral)
qed

end
