(* ===== verification/Arena.thy ===== *)
theory Arena
  imports Prelude
begin

text \<open>
  The arena all objects of the analysis engine live in, \<^verbatim>\<open>src/src/analysis/a2/memory.h\<close>: a list of memory
  segments, of which the current one is filled, and the destructors of the objects that were made. Addresses and
  sizes are natural numbers below $2^{64}$, and the one sum of sizes that can wrap around does. \<^verbatim>\<open>operator new\<close> is
  the argument \<open>new_memory\<close>: the address of a fresh block, given the blocks in use and the size, or \<^const>\<open>None\<close> if it
  throws \<^verbatim>\<open>bad_alloc\<close>, which is the failure of growing the vector of segments too. Growing the vector of destructors
  does not fail, and constructors do not throw.
\<close>

section \<open>Segments\<close>

record Segment =
  seg_mem :: nat
  seg_cur :: nat
  seg_size :: nat

definition is_aligned :: "nat \<Rightarrow> nat \<Rightarrow> bool" where "is_aligned p alignment \<longleftrightarrow> p mod alignment = 0"

definition seg_free :: "Segment \<Rightarrow> nat" where "seg_free seg = seg_mem seg + seg_size seg - seg_cur seg"

definition seg_used :: "Segment \<Rightarrow> nat" where "seg_used seg = seg_size seg - seg_free seg"

definition seg_reset :: "Segment \<Rightarrow> Segment" where "seg_reset seg = seg\<lparr>seg_cur := seg_mem seg\<rparr>"

text \<open>\<^verbatim>\<open>std::align\<close>: the next aligned address, if the block fits in the space from there on. It is defined for
  alignments that are powers of two.\<close>

definition align_up :: "nat \<Rightarrow> nat \<Rightarrow> nat" where "align_up alignment p = (p + alignment - 1) div alignment * alignment"

definition std_align :: "nat \<Rightarrow> nat \<Rightarrow> nat \<Rightarrow> nat \<Rightarrow> nat option" where
  "std_align alignment bytes p space =
     (let q = align_up alignment p in if space < bytes + (q - p) then None else Some q)"

definition push_into :: "nat \<Rightarrow> nat \<Rightarrow> Segment \<Rightarrow> (nat \<times> Segment) option" where
  "push_into bytes alignment seg =
     map_option (\<lambda>p. (p, seg\<lparr>seg_cur := p + bytes\<rparr>)) (std_align alignment bytes (seg_cur seg) (seg_free seg))"

section \<open>Arenas\<close>

record 'o Arena =
  ar_deleters :: "'o list"
  ar_segments :: "Segment list"
  ar_segmentSize :: nat
  ar_current :: nat

type_synonym Allocator = "(nat \<times> nat) list \<Rightarrow> nat \<Rightarrow> nat option"

definition blocks_of :: "Segment list \<Rightarrow> (nat \<times> nat) list" where
  "blocks_of segs = map (\<lambda>s. (seg_mem s, seg_size s)) segs"

text \<open>\<^const>\<open>None\<close> is the exception \<^verbatim>\<open>bad_alloc\<close>, which leaves the arena as it is and makes no arena.\<close>

definition new_segment :: "Allocator \<Rightarrow> Segment list \<Rightarrow> nat \<Rightarrow> Segment option" where
  "new_segment new_memory segs bytes =
     map_option (\<lambda>p. \<lparr>seg_mem = p, seg_cur = p, seg_size = bytes\<rparr>) (new_memory (blocks_of segs) bytes)"

definition addSegment :: "Allocator \<Rightarrow> nat \<Rightarrow> 'o Arena \<Rightarrow> 'o Arena option" where
  "addSegment new_memory bytes ar =
     map_option (\<lambda>seg. ar\<lparr>ar_segments := ar_segments ar @ [seg]\<rparr>) (new_segment new_memory (ar_segments ar) bytes)"

definition new_arena :: "Allocator \<Rightarrow> nat \<Rightarrow> 'o Arena option" where
  "new_arena new_memory segmentSize =
     addSegment new_memory segmentSize
       \<lparr>ar_deleters = [], ar_segments = [], ar_segmentSize = segmentSize, ar_current = 0\<rparr>"

definition arena_used :: "'o Arena \<Rightarrow> nat" where "arena_used ar = sum_list (map seg_used (ar_segments ar))"

definition arena_size :: "'o Arena \<Rightarrow> nat" where "arena_size ar = sum_list (map seg_size (ar_segments ar))"

text \<open>The destructor calls, in their order, are the first component.\<close>

definition destroyObjects :: "'o Arena \<Rightarrow> 'o list \<times> 'o Arena" where
  "destroyObjects ar = (rev (ar_deleters ar), ar\<lparr>ar_deleters := []\<rparr>)"

definition reset :: "'o Arena \<Rightarrow> 'o list \<times> 'o Arena" where
  "reset ar =
     (let (calls, ar) = destroyObjects ar
      in (calls, ar\<lparr>ar_segments := map seg_reset (ar_segments ar), ar_current := 0\<rparr>))"

text \<open>The search from the current segment on.\<close>

function push_loop :: "nat \<Rightarrow> nat \<Rightarrow> 'o Arena \<Rightarrow> nat \<Rightarrow> (nat \<times> 'o Arena) option" where
  "push_loop bytes alignment ar i =
     (if i < length (ar_segments ar)
      then (case push_into bytes alignment (ar_segments ar ! i) of
              Some (p, seg) \<Rightarrow> Some (p, ar\<lparr>ar_segments := (ar_segments ar)[i := seg], ar_current := i\<rparr>)
            | None \<Rightarrow> push_loop bytes alignment ar (i + 1))
      else None)"
  by pat_completeness auto
termination by (relation "measure (\<lambda>(bytes, alignment, ar, i). length (ar_segments ar) - i)") auto

declare push_loop.simps [simp del]

text \<open>
  A request is served with an address or ends with \<^verbatim>\<open>bad_alloc\<close>. \<^const>\<open>None\<close> is a failed assertion. The sum
  \<open>sizeNeeded\<close> wraps around.
\<close>

datatype Pushed = Address nat | BadAlloc

definition new_segment_size :: "nat \<Rightarrow> nat \<Rightarrow> 'o Arena \<Rightarrow> nat" where
  "new_segment_size bytes alignment ar =
     (let sizeNeeded = (bytes + alignment) mod 2 ^ 64
      in if ar_segmentSize ar < sizeNeeded then sizeNeeded else ar_segmentSize ar)"

definition pushSize_impl :: "Allocator \<Rightarrow> nat \<Rightarrow> nat \<Rightarrow> 'o Arena \<Rightarrow> (Pushed \<times> 'o Arena) option" where
  "pushSize_impl new_memory bytes alignment ar =
     (if length (ar_segments ar) \<le> ar_current ar then None
      else case push_loop bytes alignment ar (ar_current ar) of
        Some (p, ar) \<Rightarrow> Some (Address p, ar)
      | None \<Rightarrow>
          let n = length (ar_segments ar); ar = ar\<lparr>ar_current := n - 1\<rparr>
          in case addSegment new_memory (new_segment_size bytes alignment ar) ar of
               None \<Rightarrow> Some (BadAlloc, ar)
             | Some ar \<Rightarrow>
                 map_option (\<lambda>(p, seg). (Address p, ar\<lparr>ar_segments := (ar_segments ar)[n := seg], ar_current := n\<rparr>))
                   (push_into bytes alignment (ar_segments ar ! n)))"

definition pushObject :: "Allocator \<Rightarrow> 'o \<Rightarrow> nat \<Rightarrow> nat \<Rightarrow> 'o Arena \<Rightarrow> (Pushed \<times> 'o Arena) option" where
  "pushObject new_memory obj bytes alignment ar =
     map_option (\<lambda>(r, ar). (r, case r of Address p \<Rightarrow> ar\<lparr>ar_deleters := ar_deleters ar @ [obj]\<rparr> | BadAlloc \<Rightarrow> ar))
       (pushSize_impl new_memory bytes alignment ar)"

datatype 'o Request = Push nat nat | Object 'o nat nat

fun push_request :: "Allocator \<Rightarrow> 'o Request \<Rightarrow> 'o Arena \<Rightarrow> (Pushed \<times> 'o Arena) option" where
  "push_request new_memory (Push bytes alignment) ar = pushSize_impl new_memory bytes alignment ar"
| "push_request new_memory (Object obj bytes alignment) ar = pushObject new_memory obj bytes alignment ar"

text \<open>A client that goes on after an exception.\<close>

fun push_requests :: "Allocator \<Rightarrow> 'o Request list \<Rightarrow> 'o Arena \<Rightarrow> (Pushed list \<times> 'o Arena) option" where
  "push_requests new_memory [] ar = Some ([], ar)"
| "push_requests new_memory (r # rs) ar =
     Option.bind (push_request new_memory r ar) (\<lambda>(p, ar). map_option (\<lambda>(ps, ar). (p # ps, ar)) (push_requests new_memory rs ar))"

lemma new_segment_size_simps [simp]:
  "new_segment_size bytes alignment (ar\<lparr>ar_current := i\<rparr>) = new_segment_size bytes alignment ar"
  "new_segment_size bytes alignment (ar\<lparr>ar_segments := segs\<rparr>) = new_segment_size bytes alignment ar"
  by (simp_all add: new_segment_size_def Let_def)

section \<open>Alignment\<close>

lemma align_up_bounds:
  assumes "0 < alignment"
  shows "p \<le> align_up alignment p" "align_up alignment p < p + alignment" "is_aligned (align_up alignment p) alignment"
proof -
  let ?n = "p + alignment - 1"
  have "?n div alignment * alignment + ?n mod alignment = ?n" "?n mod alignment < alignment" using assms by simp_all
  then show "p \<le> align_up alignment p" "align_up alignment p < p + alignment" unfolding align_up_def using assms by linarith+
  show "is_aligned (align_up alignment p) alignment" by (simp add: align_up_def is_aligned_def)
qed

lemma push_into_some:
  assumes "push_into bytes alignment seg = Some (p, seg')" "0 < alignment" "seg_cur seg \<le> seg_mem seg + seg_size seg"
  shows "seg_cur seg \<le> p" "p + bytes \<le> seg_mem seg + seg_size seg" "is_aligned p alignment" "seg' = seg\<lparr>seg_cur := p + bytes\<rparr>"
  using assms align_up_bounds [OF assms(2), of "seg_cur seg"]
  by (auto simp: push_into_def std_align_def Let_def seg_free_def split: if_splits)

lemma push_into_fits:
  assumes "0 < alignment" "bytes + alignment \<le> seg_free seg"
  shows "\<exists>p. push_into bytes alignment seg = Some (p, seg\<lparr>seg_cur := p + bytes\<rparr>)"
  using assms align_up_bounds [OF assms(1), of "seg_cur seg"] by (auto simp: push_into_def std_align_def Let_def)

section \<open>The blocks handed out\<close>

definition apart :: "nat \<times> nat \<Rightarrow> nat \<times> nat \<Rightarrow> bool" where
  "apart = (\<lambda>(p, n) (q, m). p + n \<le> q \<or> q + m \<le> p)"

text \<open>What \<^verbatim>\<open>operator new\<close> promises of a block: it ends below $2^{64}$ and is apart from those in use.\<close>

definition fresh_memory :: "Allocator \<Rightarrow> bool" where
  "fresh_memory new_memory \<longleftrightarrow>
     (\<forall>blocks n p. new_memory blocks n = Some p \<longrightarrow> p + n < 2 ^ 64 \<and> (\<forall>b \<in> set blocks. apart b (p, n)))"

definition wf_segment :: "Segment \<Rightarrow> bool" where
  "wf_segment seg \<longleftrightarrow> seg_mem seg \<le> seg_cur seg \<and> seg_cur seg \<le> seg_mem seg + seg_size seg \<and> seg_mem seg + seg_size seg < 2 ^ 64"

definition inside :: "nat \<times> nat \<Rightarrow> Segment \<Rightarrow> bool" where
  "inside = (\<lambda>(p, n) seg. seg_mem seg \<le> p \<and> p + n \<le> seg_cur seg)"

text \<open>The invariant; \<open>live\<close> are the blocks handed out so far.\<close>

definition wf_arena :: "(nat \<times> nat) list \<Rightarrow> 'o Arena \<Rightarrow> bool" where
  "wf_arena live ar \<longleftrightarrow> ar_current ar < length (ar_segments ar) \<and> list_all wf_segment (ar_segments ar)
     \<and> sorted_wrt apart (blocks_of (ar_segments ar)) \<and> list_all (\<lambda>b. \<exists>seg \<in> set (ar_segments ar). inside b seg) live
     \<and> sorted_wrt apart live"

lemma blocks_of_simps [simp]:
  "length (blocks_of segs) = length segs" "blocks_of (segs @ ts) = blocks_of segs @ blocks_of ts"
  "i < length segs \<Longrightarrow> blocks_of segs ! i = (seg_mem (segs ! i), seg_size (segs ! i))"
  "blocks_of [s] = [(seg_mem s, seg_size s)]"
  by (simp_all add: blocks_of_def)

lemma blocks_of_update [simp]:
  "i < length segs \<Longrightarrow> blocks_of (segs[i := (segs ! i)\<lparr>seg_cur := c\<rparr>]) = blocks_of segs"
  by (rule nth_equalityI) (auto simp: blocks_of_def nth_list_update)

lemma wf_fill:
  assumes wf: "wf_arena live ar" and i: "i < length (ar_segments ar)"
    and push: "push_into n alignment (ar_segments ar ! i) = Some (p, seg)" and pos: "0 < alignment"
  shows "is_aligned p alignment" "wf_arena (live @ [(p, n)]) (ar\<lparr>ar_segments := (ar_segments ar)[i := seg], ar_current := i\<rparr>)"
proof -
  let ?segs = "ar_segments ar" let ?s = "ar_segments ar ! i"
  have s: "wf_segment ?s" using wf i by (simp add: wf_arena_def list_all_length)
  then have p: "seg_cur ?s \<le> p" "p + n \<le> seg_mem ?s + seg_size ?s" "is_aligned p alignment" "seg = ?s\<lparr>seg_cur := p + n\<rparr>"
    using push_into_some [OF push pos] by (simp_all add: wf_segment_def)
  show "is_aligned p alignment" by (fact p(3))
  have new: "wf_segment seg" "inside (p, n) seg" "\<And>b. inside b ?s \<Longrightarrow> inside b seg \<and> apart b (p, n)"
    using s p by (auto simp: wf_segment_def inside_def apart_def split: prod.splits)
  have other: "apart b (p, n)" if "inside b (?segs ! j)" "j < length ?segs" "j \<noteq> i" for b j
  proof -
    have "sorted_wrt apart (blocks_of ?segs)" "wf_segment (?segs ! j)" using wf that(2) by (simp_all add: wf_arena_def list_all_length)
    then have "apart (blocks_of ?segs ! i) (blocks_of ?segs ! j) \<or> apart (blocks_of ?segs ! j) (blocks_of ?segs ! i)"
      using that(2,3) i by (metis blocks_of_simps(1) linorder_neqE_nat sorted_wrt_iff_nth_less)
    then show ?thesis
      using that p(1,2) s i \<open>wf_segment (?segs ! j)\<close> by (auto simp: apart_def inside_def wf_segment_def split: prod.splits)
  qed
  have old: "(\<exists>t \<in> set (?segs[i := seg]). inside b t) \<and> apart b (p, n)" if "b \<in> set live" for b
  proof -
    have "\<exists>t \<in> set ?segs. inside b t" using wf that by (simp add: wf_arena_def list_all_iff)
    then obtain j where j: "j < length ?segs" "inside b (?segs ! j)" by (metis in_set_conv_nth)
    show ?thesis
    proof (cases "j = i")
      case True
      then show ?thesis using new(3) [of b] j i set_update_memI [OF i, of seg] by blast
    next
      case False
      then have "?segs[i := seg] ! j = ?segs ! j" by simp
      then show ?thesis using other [OF j(2,1) False] j by (metis length_list_update nth_mem)
    qed
  qed
  have "(\<exists>t \<in> set (?segs[i := seg]). inside (p, n) t)" using new(2) i set_update_memI by metis
  then show "wf_arena (live @ [(p, n)]) (ar\<lparr>ar_segments := ?segs[i := seg], ar_current := i\<rparr>)"
    using wf i new(1) old p(4)
    by (auto simp: wf_arena_def sorted_wrt_append list_all_iff dest: set_update_subset_insert [THEN subsetD])
qed

lemma push_loop_some:
  "push_loop n alignment ar i = Some (p, ar') \<Longrightarrow> \<exists>j seg. i \<le> j \<and> j < length (ar_segments ar)
     \<and> push_into n alignment (ar_segments ar ! j) = Some (p, seg) \<and> ar' = ar\<lparr>ar_segments := (ar_segments ar)[j := seg], ar_current := j\<rparr>"
proof (induction n alignment ar i rule: push_loop.induct)
  case (1 n alignment ar i)
  have i: "i < length (ar_segments ar)" using 1(2) by (simp add: push_loop.simps [of _ _ ar] split: if_splits)
  show ?case
  proof (cases "push_into n alignment (ar_segments ar ! i)")
    case None
    then show ?thesis using 1 i by (auto simp: push_loop.simps [of _ _ ar i] intro: Suc_leD)
  next
    case (Some r)
    then show ?thesis using 1(2) i by (cases r) (auto simp: push_loop.simps [of _ _ ar i])
  qed
qed

lemma wf_addSegment:
  assumes "wf_arena live ar" "fresh_memory new_memory" "addSegment new_memory n ar = Some ar'"
  shows "wf_arena live ar'"
  using assms
  by (auto simp: wf_arena_def addSegment_def new_segment_def wf_segment_def sorted_wrt_append list_all_iff fresh_memory_def)

lemma pushSize_wf:
  assumes "wf_arena live ar" "fresh_memory new_memory" "0 < alignment" "n + alignment < 2 ^ 64"
  shows "\<exists>r ar'. pushSize_impl new_memory n alignment ar = Some (r, ar')
    \<and> (case r of Address p \<Rightarrow> is_aligned p alignment \<and> wf_arena (live @ [(p, n)]) ar'
       | BadAlloc \<Rightarrow> wf_arena live ar' \<and> (\<exists>blocks k. new_memory blocks k = None))"
proof -
  have cur: "ar_current ar < length (ar_segments ar)" using assms(1) by (simp add: wf_arena_def)
  show ?thesis
  proof (cases "push_loop n alignment ar (ar_current ar)")
    case (Some r)
    then obtain p ar' where r: "r = (p, ar')" by (cases r)
    show ?thesis using push_loop_some [OF Some [unfolded r]] wf_fill [OF assms(1) _ _ assms(3)] cur Some r
      by (auto simp: pushSize_impl_def)
  next
    case None
    let ?n = "new_segment_size n alignment ar"
    let ?k = "length (ar_segments ar)" let ?ar = "ar\<lparr>ar_current := ?k - 1\<rparr>"
    have fits: "n + alignment \<le> ?n" using assms(4) by (simp add: new_segment_size_def Let_def)
    have wf: "wf_arena live ?ar" using assms(1) cur by (simp add: wf_arena_def)
    show ?thesis
    proof (cases "addSegment new_memory ?n ?ar")
      case no_memory: None
      then have "new_memory (blocks_of (ar_segments ar)) ?n = None" by (simp add: addSegment_def new_segment_def)
      then have "\<exists>blocks k. new_memory blocks k = None" by blast
      then show ?thesis using wf None cur no_memory by (simp add: pushSize_impl_def Let_def)
    next
      case added: (Some ar1)
      then obtain seg where seg: "ar_segments ar1 = ar_segments ar @ [seg]" "seg_free seg = ?n"
        by (auto simp: addSegment_def new_segment_def seg_free_def)
      then have k: "?k < length (ar_segments ar1)" "n + alignment \<le> seg_free (ar_segments ar1 ! ?k)" using fits by simp_all
      from push_into_fits [OF assms(3) this(2)] obtain p seg' where p: "push_into n alignment (ar_segments ar1 ! ?k) = Some (p, seg')"
        by blast
      show ?thesis using wf_fill [OF wf_addSegment [OF wf assms(2) added] k(1) p assms(3)] None cur p added
        by (simp add: pushSize_impl_def Let_def)
    qed
  qed
qed

lemma wf_new_arena: "fresh_memory new_memory \<Longrightarrow> new_arena new_memory n = Some ar \<Longrightarrow> wf_arena [] ar"
  by (auto simp: wf_arena_def new_arena_def addSegment_def new_segment_def wf_segment_def fresh_memory_def)

text \<open>
  A request so large that \<open>sizeNeeded\<close> wraps around gets a segment that is too small: if no segment can hold it, the
  assertion behind the last \<^verbatim>\<open>std::align\<close> fails.
\<close>

lemma push_loop_none: "list_all (\<lambda>seg. push_into n alignment seg = None) (ar_segments ar) \<Longrightarrow> push_loop n alignment ar i = None"
proof (induction n alignment ar i rule: push_loop.induct)
  case (1 n alignment ar i)
  then show ?case by (simp add: push_loop.simps [of n alignment ar i] list_all_length)
qed

lemma push_into_too_large: "wf_segment seg \<Longrightarrow> seg_size seg < n \<Longrightarrow> push_into n alignment seg = None"
  by (auto simp: push_into_def std_align_def Let_def seg_free_def wf_segment_def)

lemma huge_request_asserts:
  assumes "wf_arena live ar" "fresh_memory new_memory" "\<And>blocks k. k < n \<Longrightarrow> new_memory blocks k \<noteq> None"
    and "n < 2 ^ 64" "alignment < 2 ^ 64" "2 ^ 64 \<le> n + alignment"
    and "list_all (\<lambda>seg. seg_size seg < n) (ar_segments ar)" "ar_segmentSize ar < n"
  shows "pushSize_impl new_memory n alignment ar = None"
proof -
  let ?k = "length (ar_segments ar)" let ?n = "new_segment_size n alignment ar" let ?ar = "ar\<lparr>ar_current := ?k - 1\<rparr>"
  have "(n + alignment) mod 2 ^ 64 = n + alignment - 2 ^ 64" using assms(4-6) by (subst mod_if) (simp add: mod_if)
  then have small: "?n < n" using assms(5,6,8) by (auto simp: new_segment_size_def Let_def)
  have cur: "ar_current ar < ?k" using assms(1) by (simp add: wf_arena_def)
  have none: "push_loop n alignment ar (ar_current ar) = None"
    using assms(1,7) by (intro push_loop_none) (auto simp: wf_arena_def list_all_iff intro: push_into_too_large)
  obtain p where p: "new_memory (blocks_of (ar_segments ar)) ?n = Some p" using assms(3) [OF small] by blast
  let ?seg = "\<lparr>seg_mem = p, seg_cur = p, seg_size = ?n\<rparr>"
  have added: "addSegment new_memory ?n ?ar = Some (?ar\<lparr>ar_segments := ar_segments ar @ [?seg]\<rparr>)"
    using p by (simp add: addSegment_def new_segment_def)
  have "wf_segment ?seg" using assms(2) p by (auto simp: wf_segment_def fresh_memory_def)
  then have "push_into n alignment ?seg = None" using small by (intro push_into_too_large) simp_all
  then show ?thesis using cur none added by (simp add: pushSize_impl_def Let_def)
qed

fun request_size :: "'o Request \<Rightarrow> nat" where
  "request_size (Push n alignment) = n"
| "request_size (Object obj n alignment) = n"

fun request_alignment :: "'o Request \<Rightarrow> nat" where
  "request_alignment (Push n alignment) = alignment"
| "request_alignment (Object obj n alignment) = alignment"

fun request_objects :: "'o Request \<Rightarrow> 'o list" where
  "request_objects (Push n alignment) = []"
| "request_objects (Object obj n alignment) = [obj]"

text \<open>The arguments \<^verbatim>\<open>std::align\<close> is defined for, and sizes for which the size of a new segment does not wrap around.\<close>

definition valid_request :: "'o Request \<Rightarrow> bool" where
  "valid_request r \<longleftrightarrow> request_alignment r \<in> set (map (\<lambda>k. 2 ^ k) [0..<64]) \<and> request_size r + request_alignment r < 2 ^ 64"

fun served :: "Pushed list \<Rightarrow> 'o Request list \<Rightarrow> (nat \<times> nat) list" where
  "served (Address p # outs) (r # rs) = (p, request_size r) # served outs rs"
| "served (BadAlloc # outs) (r # rs) = served outs rs"
| "served outs rs = []"

fun pushed_aligned :: "Pushed \<Rightarrow> 'o Request \<Rightarrow> bool" where
  "pushed_aligned (Address p) r = is_aligned p (request_alignment r)"
| "pushed_aligned BadAlloc r = True"

lemma push_request_wf:
  assumes "wf_arena live ar" "fresh_memory new_memory" "valid_request r"
  shows "\<exists>out ar'. push_request new_memory r ar = Some (out, ar') \<and> pushed_aligned out r \<and> wf_arena (live @ served [out] [r]) ar'
    \<and> (out = BadAlloc \<longrightarrow> (\<exists>blocks k. new_memory blocks k = None))"
proof -
  have r: "0 < request_alignment r" "request_size r + request_alignment r < 2 ^ 64" using assms(3) by (auto simp: valid_request_def)
  from pushSize_wf [OF assms(1,2) r] obtain out ar1 where
    1: "pushSize_impl new_memory (request_size r) (request_alignment r) ar = Some (out, ar1)"
      "case out of Address p \<Rightarrow> is_aligned p (request_alignment r) \<and> wf_arena (live @ [(p, request_size r)]) ar1
       | BadAlloc \<Rightarrow> wf_arena live ar1 \<and> (\<exists>blocks k. new_memory blocks k = None)" by blast
  then show ?thesis by (cases r; cases out) (simp_all add: pushObject_def wf_arena_def)
qed

lemma push_requests_wf:
  assumes "wf_arena live ar" "fresh_memory new_memory" "list_all valid_request rs"
  shows "\<exists>outs ar'. push_requests new_memory rs ar = Some (outs, ar') \<and> list_all2 pushed_aligned outs rs
    \<and> wf_arena (live @ served outs rs) ar' \<and> (BadAlloc \<in> set outs \<longrightarrow> (\<exists>blocks k. new_memory blocks k = None))"
  using assms
proof (induction rs arbitrary: live ar)
  case (Cons r rs)
  then obtain out ar1 where 1: "push_request new_memory r ar = Some (out, ar1)" "pushed_aligned out r"
    "wf_arena (live @ served [out] [r]) ar1" "out = BadAlloc \<longrightarrow> (\<exists>blocks k. new_memory blocks k = None)"
    using push_request_wf [of live ar new_memory r] by auto
  from Cons.IH [OF 1(3) Cons.prems(2)] Cons.prems(3) obtain outs ar2 where 2: "push_requests new_memory rs ar1 = Some (outs, ar2)"
    "list_all2 pushed_aligned outs rs" "wf_arena ((live @ served [out] [r]) @ served outs rs) ar2"
    "BadAlloc \<in> set outs \<longrightarrow> (\<exists>blocks k. new_memory blocks k = None)" by auto
  have "served (out # outs) (r # rs) = served [out] [r] @ served outs rs" by (cases out) simp_all
  then show ?case using 1 2 by auto
qed simp


section \<open>Reuse\<close>

lemma push_loop_end: "push_loop n alignment ar i = None \<Longrightarrow> i \<le> j \<Longrightarrow> j < length (ar_segments ar) \<Longrightarrow> push_into n alignment (ar_segments ar ! j) = None"
proof (induction n alignment ar i rule: push_loop.induct)
  case (1 n alignment ar i)
  then have none: "push_into n alignment (ar_segments ar ! i) = None" "push_loop n alignment ar (i + 1) = None"
    by (auto simp: push_loop.simps [of _ _ ar i] split: option.splits prod.splits)
  then show ?case using 1 by (cases "i = j") simp_all
qed

text \<open>More segments at the end do not change a search that succeeds, and are searched next otherwise.\<close>

lemma push_loop_more:
  assumes "i \<le> length (ar_segments ar)"
  shows "push_loop n alignment (ar\<lparr>ar_segments := ar_segments ar @ ts\<rparr>) i =
    (case push_loop n alignment ar i of
       Some (p, ar') \<Rightarrow> Some (p, ar'\<lparr>ar_segments := ar_segments ar' @ ts\<rparr>)
     | None \<Rightarrow> push_loop n alignment (ar\<lparr>ar_segments := ar_segments ar @ ts\<rparr>) (length (ar_segments ar)))"
  using assms
proof (induction n alignment ar i rule: push_loop.induct)
  case (1 n alignment ar i)
  let ?ar = "ar\<lparr>ar_segments := ar_segments ar @ ts\<rparr>"
  show ?case
  proof (cases "i < length (ar_segments ar)")
    case True
    then show ?thesis using 1
      by (subst push_loop.simps, subst (2) push_loop.simps)
        (auto simp: nth_append list_update_append1 split: option.splits prod.splits)
  next
    case False
    then have "i = length (ar_segments ar)" using 1(2) by simp
    then show ?thesis by (simp add: push_loop.simps [of n alignment ar])
  qed
qed

lemma push_into_reset: "push_into n alignment seg = Some (p, seg') \<Longrightarrow> seg_reset seg' = seg_reset seg"
  by (auto simp: push_into_def seg_reset_def)

lemma map_reset_update: "i < length segs \<Longrightarrow> seg_reset seg = seg_reset (segs ! i) \<Longrightarrow> map seg_reset (segs[i := seg]) = map seg_reset segs"
  by (metis length_map list_update_id map_update nth_map)

lemma pushSize_more:
  assumes "pushSize_impl new_memory n alignment ar = Some (Address p, ar')"
  shows "\<exists>es. map seg_reset es = es \<and> map seg_reset (ar_segments ar') = map seg_reset (ar_segments ar) @ es
    \<and> (\<forall>xs. pushSize_impl new_memory n alignment (ar\<lparr>ar_segments := ar_segments ar @ es @ xs\<rparr>)
         = Some (Address p, ar'\<lparr>ar_segments := ar_segments ar' @ xs\<rparr>))"
proof -
  have cur: "ar_current ar < length (ar_segments ar)" using assms by (simp add: pushSize_impl_def split: if_splits)
  show ?thesis
  proof (cases "push_loop n alignment ar (ar_current ar)")
    case (Some r)
    then have r: "push_loop n alignment ar (ar_current ar) = Some (p, ar')" using assms cur
      by (auto simp: pushSize_impl_def split: prod.splits)
    from push_loop_some [OF r] obtain j seg where j: "j < length (ar_segments ar)"
      "push_into n alignment (ar_segments ar ! j) = Some (p, seg)" "ar' = ar\<lparr>ar_segments := (ar_segments ar)[j := seg], ar_current := j\<rparr>"
      by blast
    then have "map seg_reset (ar_segments ar') = map seg_reset (ar_segments ar)"
      using push_into_reset [OF j(2)] by (simp add: map_reset_update)
    then show ?thesis using r cur by (intro exI [of _ "[]"]) (simp add: pushSize_impl_def push_loop_more)
  next
    case None
    let ?k = "length (ar_segments ar)" let ?n = "new_segment_size n alignment ar"
    obtain e where e: "new_segment new_memory (ar_segments ar) ?n = Some e"
      using assms None cur by (auto simp: pushSize_impl_def addSegment_def Let_def split: option.splits)
    then have reset: "seg_reset e = e" by (auto simp: new_segment_def seg_reset_def)
    from assms None cur e obtain seg where seg: "push_into n alignment e = Some (p, seg)"
      "ar' = ar\<lparr>ar_segments := ar_segments ar @ [seg], ar_current := ?k\<rparr>"
      by (auto simp: pushSize_impl_def addSegment_def Let_def)
    have "pushSize_impl new_memory n alignment (ar\<lparr>ar_segments := ar_segments ar @ [e] @ xs\<rparr>)
        = Some (Address p, ar'\<lparr>ar_segments := ar_segments ar' @ xs\<rparr>)" for xs
      using seg None cur
      by (simp add: pushSize_impl_def push_loop_more push_loop.simps [of n alignment "ar\<lparr>ar_segments := ar_segments ar @ e # xs\<rparr>" ?k])
    moreover have "map seg_reset (ar_segments ar') = map seg_reset (ar_segments ar) @ [e]"
      using push_into_reset [OF seg(1)] reset by (simp add: seg(2))
    ultimately show ?thesis using reset by (intro exI [of _ "[e]"]) simp
  qed
qed

lemma push_request_more:
  assumes "push_request new_memory r ar = Some (Address p, ar')"
  shows "\<exists>es. map seg_reset es = es \<and> map seg_reset (ar_segments ar') = map seg_reset (ar_segments ar) @ es
    \<and> (\<forall>xs. push_request new_memory r (ar\<lparr>ar_segments := ar_segments ar @ es @ xs\<rparr>)
         = Some (Address p, ar'\<lparr>ar_segments := ar_segments ar' @ xs\<rparr>))"
proof (cases r)
  case (Push n alignment)
  then show ?thesis using assms pushSize_more by simp
next
  case (Object obj n alignment)
  then obtain ar1 where "pushSize_impl new_memory n alignment ar = Some (Address p, ar1)" "ar' = ar1\<lparr>ar_deleters := ar_deleters ar1 @ [obj]\<rparr>"
    using assms by (auto simp: pushObject_def)
  then show ?thesis using pushSize_more [of new_memory n alignment ar p ar1] Object by (auto simp: pushObject_def)
qed

lemma push_requests_more:
  "push_requests new_memory rs ar = Some (map Address ps, ar') \<Longrightarrow>
     \<exists>es. map seg_reset es = es \<and> map seg_reset (ar_segments ar') = map seg_reset (ar_segments ar) @ es
       \<and> (\<forall>xs. push_requests new_memory rs (ar\<lparr>ar_segments := ar_segments ar @ es @ xs\<rparr>)
            = Some (map Address ps, ar'\<lparr>ar_segments := ar_segments ar' @ xs\<rparr>))"
proof (induction rs arbitrary: ar ps)
  case Nil
  then show ?case by (intro exI [of _ "[]"]) simp
next
  case (Cons r rs)
  then obtain p ar1 qs where 1: "push_request new_memory r ar = Some (Address p, ar1)"
    "push_requests new_memory rs ar1 = Some (map Address qs, ar')" "ps = p # qs"
    by (cases ps) (auto simp: bind_eq_Some_conv)
  from push_request_more [OF 1(1)] obtain es where es: "map seg_reset es = es" "map seg_reset (ar_segments ar1) = map seg_reset (ar_segments ar) @ es"
    "\<And>xs. push_request new_memory r (ar\<lparr>ar_segments := ar_segments ar @ es @ xs\<rparr>) = Some (Address p, ar1\<lparr>ar_segments := ar_segments ar1 @ xs\<rparr>)"
    by blast
  from Cons.IH [OF 1(2)] obtain fs where fs: "map seg_reset fs = fs" "map seg_reset (ar_segments ar') = map seg_reset (ar_segments ar1) @ fs"
    "\<And>xs. push_requests new_memory rs (ar1\<lparr>ar_segments := ar_segments ar1 @ fs @ xs\<rparr>) = Some (map Address qs, ar'\<lparr>ar_segments := ar_segments ar' @ xs\<rparr>)"
    by blast
  show ?case
    using es(1,2) fs(1,2) 1(3) es(3) [of "fs @ xs" for xs] fs(3) by (intro exI [of _ "es @ fs"]) simp
qed

text \<open>The objects made by a sequence of requests are the ones whose destructors are called.\<close>

lemma push_requests_deleters:
  "push_requests new_memory rs ar = Some (map Address ps, ar') \<Longrightarrow>
     ar_deleters ar' = ar_deleters ar @ concat (map request_objects rs) \<and> ar_segmentSize ar' = ar_segmentSize ar"
proof (induction rs arbitrary: ar ps)
  case (Cons r rs)
  have push: "ar_deleters ar1 = ar_deleters ar \<and> ar_segmentSize ar1 = ar_segmentSize ar"
    if "pushSize_impl new_memory n alignment ar = Some (out, ar1)" for n alignment out and ar1 :: "'a Arena"
    using that by (auto simp: pushSize_impl_def addSegment_def Let_def split: if_splits option.splits dest!: push_loop_some)
  from Cons.prems obtain p ar1 qs where 1: "push_request new_memory r ar = Some (Address p, ar1)"
    "push_requests new_memory rs ar1 = Some (map Address qs, ar')"
    by (cases ps) (auto simp: bind_eq_Some_conv)
  then have "ar_deleters ar1 = ar_deleters ar @ request_objects r \<and> ar_segmentSize ar1 = ar_segmentSize ar"
    by (cases r) (auto simp: pushObject_def dest: push)
  then show ?case using Cons.IH [OF 1(2)] by simp
qed simp

text \<open>Resetting an arena destroys its objects in the reverse order of their construction and keeps its memory: if all
  requests were served, the same requests get the same addresses again and leave the same arena, without a new
  segment.\<close>

theorem reset_reuses_memory:
  assumes "new_arena new_memory n = Some ar0" "push_requests new_memory rs ar0 = Some (map Address ps, ar)"
  shows "fst (reset ar) = rev (concat (map request_objects rs)) \<and> push_requests new_memory rs (snd (reset ar)) = Some (map Address ps, ar)"
proof -
  have new: "ar_deleters ar0 = []" "map seg_reset (ar_segments ar0) = ar_segments ar0" "ar_current ar0 = 0"
    using assms(1) by (auto simp: new_arena_def addSegment_def new_segment_def seg_reset_def)
  from push_requests_more [OF assms(2)] obtain es where es: "map seg_reset (ar_segments ar) = ar_segments ar0 @ es"
    "push_requests new_memory rs (ar0\<lparr>ar_segments := ar_segments ar0 @ es @ []\<rparr>) = Some (map Address ps, ar\<lparr>ar_segments := ar_segments ar @ []\<rparr>)"
    unfolding new(2) by blast
  have "snd (reset ar) = ar0\<lparr>ar_segments := ar_segments ar0 @ es\<rparr>"
    using es(1) new push_requests_deleters [OF assms(2)] by (simp add: reset_def destroyObjects_def)
  then show ?thesis using es(2) push_requests_deleters [OF assms(2)] by (simp add: reset_def destroyObjects_def new(1))
qed

section \<open>An example\<close>

text \<open>A memory of 1000 bytes: a request that does not fit fails.\<close>

definition next_memory :: Allocator where
  "next_memory blocks n =
     (let p = Max (insert 4096 (set (map (\<lambda>(p, k). p + k) blocks))) in if p + n \<le> 5096 then Some p else None)"

definition example_requests :: "string Request list" where
  "example_requests = [Push 3 1, Object ''a'' 24 8, Push 64 64, Object ''c'' 1000 8, Object ''b'' 100 16]"

lemma next_memory_fresh: "fresh_memory next_memory"
proof -
  have "q + k \<le> p" "p + n < 2 ^ 64" if "(q, k) \<in> set blocks" "next_memory blocks n = Some p" for q k p n blocks
  proof -
    have "q + k \<le> Max (insert 4096 (set (map (\<lambda>(p, k). p + k) blocks)))" using that(1) by (intro Max_ge) force+
    then show "q + k \<le> p" "p + n < 2 ^ 64" using that(2) by (auto simp: next_memory_def Let_def split: if_splits)
  qed
  moreover have "p + n < 2 ^ 64" if "next_memory blocks n = Some p" for p n blocks
    using that by (auto simp: next_memory_def Let_def split: if_splits)
  ultimately show ?thesis by (fastforce simp: fresh_memory_def apart_def)
qed

definition example_arena :: "string Arena" where
  "example_arena = \<lparr>ar_deleters = [], ar_segments = [\<lparr>seg_mem = 4096, seg_cur = 4096, seg_size = 100\<rparr>],
     ar_segmentSize = 100, ar_current = 0\<rparr>"

lemma example_runs:
  "new_arena next_memory 100 = Some example_arena" "list_all valid_request example_requests"
  "map_option fst (push_requests next_memory example_requests example_arena) =
     Some [Address 4096, Address 4104, Address 4224, BadAlloc, Address 4336]"
  "map_option fst (push_requests next_memory (take 3 example_requests) example_arena) = Some (map Address [4096, 4104, 4224])"
proof -
  show "new_arena next_memory 100 = Some example_arena"
    by (simp add: new_arena_def addSegment_def new_segment_def next_memory_def blocks_of_def example_arena_def)
  have "(2::nat) ^ k \<in> set (map (\<lambda>k. 2 ^ k) [0..<64])" if "k < 64" for k using that by simp
  from this [of 0] this [of 3] this [of 4] this [of 6] show "list_all valid_request example_requests"
    by (simp add: example_requests_def valid_request_def)
  note steps = push_loop.simps pushSize_impl_def pushObject_def push_into_def std_align_def align_up_def seg_free_def
    addSegment_def new_segment_def new_segment_size_def next_memory_def blocks_of_def example_arena_def example_requests_def Let_def
  show "map_option fst (push_requests next_memory example_requests example_arena) =
      Some [Address 4096, Address 4104, Address 4224, BadAlloc, Address 4336]"
    "map_option fst (push_requests next_memory (take 3 example_requests) example_arena) = Some (map Address [4096, 4104, 4224])"
    by (simp_all add: steps)
qed


theorem reset_reuses_memory_witness:
  "\<exists>ar. push_requests next_memory (take 3 example_requests) example_arena = Some (map Address [4096, 4104, 4224], ar)
    \<and> fst (reset ar) = [''a''] \<and> push_requests next_memory (take 3 example_requests) (snd (reset ar)) = Some (map Address [4096, 4104, 4224], ar)"
proof -
  obtain ar where r: "push_requests next_memory (take 3 example_requests) example_arena = Some (map Address [4096, 4104, 4224], ar)"
    using example_runs(4) by auto
  show ?thesis using r reset_reuses_memory [OF example_runs(1) r] by (auto simp: example_requests_def)
qed

end
