(* ===== verification/A2_Types.thy ===== *)
theory A2_Types
  imports Doubles Multiword_Filter
begin

text \<open>
  The parameter vectors of the analysis engine, \<^verbatim>\<open>src/src/analysis/a2/a2.h\<close> and \<^verbatim>\<open>a2.cc\<close>. All vectors live in
  an arena; a \<^verbatim>\<open>ParamVec\<close> is the number of a vector in the store, so that operators share vectors as they share
  pointers in the code. That blocks of an arena are apart is the theorem \<open>arena_blocks\<close>. Accesses are checked as
  the assertions of \<^verbatim>\<open>TypedBlock\<close> check them: \<^const>\<open>None\<close> is a failed assertion. The size of a pipe is that of its data;
  that its limits have the same size is checked where the code relies on it.
\<close>

section \<open>The store\<close>

type_synonym Store = "double list list"
type_synonym ParamVec = nat

definition vec_size :: "Store \<Rightarrow> ParamVec \<Rightarrow> nat" where
  "vec_size st v = (if v < length st then length (st ! v) else 0)"

definition vec_get :: "Store \<Rightarrow> ParamVec \<Rightarrow> nat \<Rightarrow> double option" where
  "vec_get st v i = Option.bind (at_opt st v) (\<lambda>xs. at_opt xs i)"

definition vec_set :: "ParamVec \<Rightarrow> nat \<Rightarrow> double \<Rightarrow> Store \<Rightarrow> Store option" where
  "vec_set v i x st = (if v < length st \<and> i < length (st ! v) then Some (st[v := (st ! v)[i := x]]) else None)"

text \<open>A loop that writes an element of one vector in every round.\<close>

fun write_loop :: "(nat \<Rightarrow> Store \<Rightarrow> double option) \<Rightarrow> ParamVec \<Rightarrow> nat list \<Rightarrow> Store \<Rightarrow> Store option" where
  "write_loop f out [] st = Some st"
| "write_loop f out (i # is) st =
     Option.bind (f i st) (\<lambda>x. Option.bind (vec_set out i x st) (write_loop f out is))"

definition fill :: "ParamVec \<Rightarrow> double \<Rightarrow> Store \<Rightarrow> Store option" where
  "fill pv value st = write_loop (\<lambda>i st. Some value) pv [0..<vec_size st pv] st"

definition invalidate_all :: "ParamVec \<Rightarrow> Store \<Rightarrow> Store option" where
  "invalidate_all pv st = fill pv invalid_param st"

text \<open>A new vector; \<open>push_vector\<close> is one whose elements are all written right after.\<close>

definition push_vector :: "double list \<Rightarrow> Store \<Rightarrow> ParamVec \<times> Store" where
  "push_vector xs st = (length st, st @ [xs])"

definition push_param_vector :: "nat \<Rightarrow> double \<Rightarrow> Store \<Rightarrow> ParamVec \<times> Store" where
  "push_param_vector n value st = push_vector (replicate n value) st"

record Thresholds =
  t_min :: double
  t_max :: double

definition in_range :: "Thresholds \<Rightarrow> double \<Rightarrow> bool" where
  "in_range t v \<longleftrightarrow> d_le (t_min t) v \<and> d_less v (t_max t)"

record PipeVectors =
  pv_data :: ParamVec
  pv_lowerLimits :: ParamVec
  pv_upperLimits :: ParamVec

definition pipe_size :: "Store \<Rightarrow> PipeVectors \<Rightarrow> nat" where "pipe_size st p = vec_size st (pv_data p)"

section \<open>Facts about the store\<close>

lemma vec_get_Some_iff: "vec_get st v i = Some x \<longleftrightarrow> v < length st \<and> i < length (st ! v) \<and> x = st ! v ! i"
  by (auto simp: vec_get_def at_opt_def)

lemma vec_get_in [simp]: "v < length st \<Longrightarrow> i < length (st ! v) \<Longrightarrow> vec_get st v i = Some (st ! v ! i)"
  by (simp add: vec_get_def)

lemma vec_size_in [simp]: "v < length st \<Longrightarrow> vec_size st v = length (st ! v)"
  by (simp add: vec_size_def)

lemma vec_get_other [simp]: "w \<noteq> v \<Longrightarrow> vec_get (st[v := xs]) w i = vec_get st w i"
  by (simp add: vec_get_def at_opt_def)

lemma vec_size_other [simp]: "w \<noteq> v \<Longrightarrow> vec_size (st[v := xs]) w = vec_size st w"
  by (simp add: vec_size_def)

lemma vec_set_in [simp]: "v < length st \<Longrightarrow> i < length (st ! v) \<Longrightarrow> vec_set v i x st = Some (st[v := (st ! v)[i := x]])"
  by (simp add: vec_set_def)

lemma vec_set_Some_iff: "vec_set v i x st = Some st' \<longleftrightarrow> v < length st \<and> i < length (st ! v) \<and> st' = st[v := (st ! v)[i := x]]"
  by (auto simp: vec_set_def)

lemma push_vector_simps [simp]:
  "fst (push_vector xs st) = length st" "snd (push_vector xs st) = st @ [xs]"
  by (simp_all add: push_vector_def)

text \<open>What a loop writes, if every round computes its value from elements the loop has not written.\<close>

lemma write_loop_at:
  assumes "out < length st" "n \<le> m" "m \<le> length (st ! out)"
    and "\<And>i ys. n \<le> i \<Longrightarrow> i < m \<Longrightarrow> length ys = length (st ! out) \<Longrightarrow> drop i ys = drop i (st ! out) \<Longrightarrow> f i (st[out := ys]) = Some (g i)"
  shows "write_loop f out [n..<m] st = Some (st[out := take n (st ! out) @ map g [n..<m] @ drop m (st ! out)])"
  using assms
proof (induction "m - n" arbitrary: n st)
  case 0
  then show ?case by simp
next
  case (Suc k)
  then have n: "n < m" "n < length (st ! out)" by linarith+
  have f: "f n st = Some (g n)" using Suc.prems(4) [of n "st ! out"] n by simp
  let ?ys = "(st ! out)[n := g n]"
  have "write_loop f out [Suc n..<m] (st[out := ?ys])
      = Some ((st[out := ?ys])[out := take (Suc n) ?ys @ map g [Suc n..<m] @ drop m ?ys])"
  proof (subst Suc.hyps(1))
    show "k = m - Suc n" "out < length (st[out := ?ys])" "Suc n \<le> m" "m \<le> length (st[out := ?ys] ! out)"
      using Suc.hyps(2) Suc.prems n by simp_all
    show "f i (st[out := ?ys, out := ys]) = Some (g i)"
      if "Suc n \<le> i" "i < m" "length ys = length (st[out := ?ys] ! out)" "drop i ys = drop i (st[out := ?ys] ! out)" for i ys
      using Suc.prems(4) [of i ys] Suc.prems(1) that by simp
  qed (use Suc.prems(1) in simp)
  moreover have "take (Suc n) ?ys = take n (st ! out) @ [g n]" "drop m ?ys = drop m (st ! out)"
    using n by (simp_all add: take_Suc_conv_app_nth)
  ultimately show ?case using f n Suc.prems(1) by (simp add: upt_conv_Cons)
qed

lemma write_loop_map:
  assumes "out < length st" "n = length (st ! out)"
    and "\<And>i ys. i < n \<Longrightarrow> length ys = n \<Longrightarrow> drop i ys = drop i (st ! out) \<Longrightarrow> f i (st[out := ys]) = Some (g i)"
  shows "write_loop f out [0..<n] st = Some (st[out := map g [0..<n]])"
  using write_loop_at [of out st 0 n f g] assms by simp

lemma fill_eq: "pv < length st \<Longrightarrow> fill pv value st = Some (st[pv := replicate (length (st ! pv)) value])"
  unfolding fill_def by (subst write_loop_map [where g = "\<lambda>_. value"]) (simp_all add: map_replicate_const)

lemma invalidate_all_eq [simp]:
  "pv < length st \<Longrightarrow> invalidate_all pv st = Some (st[pv := replicate (length (st ! pv)) invalid_param])"
  by (simp add: invalidate_all_def fill_eq)

end
