(* ===== verification/A2_Extract.thy ===== *)
theory A2_Extract
  imports A2_Types List_Filter
begin

text \<open>
  The data sources of the analysis engine, \<^verbatim>\<open>src/src/analysis/a2/a2.cc\<close>: extractors, which feed the words of a
  module to a multi-word filter, and list filter extractors, which take several words at once. The random number
  generator is the field \<open>rand01\<close> of the library record, a number in \<open>[0, 1)\<close> and the next state.
\<close>

section \<open>State\<close>

record 'r RandomLib =
  rand_seed :: "u64 \<Rightarrow> 'r"
  rand01 :: "'r \<Rightarrow> double \<times> 'r"

definition NoAddedRandom :: u8 where "NoAddedRandom = push_bit 0 1"

definition RepetitionContributesLowAddressBits :: u8 where "RepetitionContributesLowAddressBits = push_bit 1 1"

record 'r Extractor =
  ex_filter :: MultiWordFilter
  ex_rng :: 'r
  ex_requiredCompletions :: u32
  ex_currentCompletions :: u32
  ex_options :: u8

record 'r ListFilterExtractor =
  lfx_listFilter :: ListFilter
  lfx_rng :: 'r
  lfx_repetitions :: u8
  lfx_options :: u8

text \<open>The type of a data source is the constructor of its private data.\<close>

datatype 'r SourceData = ExtractorData "'r Extractor" | ListFilterData "'r ListFilterExtractor"

record 'r DataSource =
  ds_output :: PipeVectors
  ds_hitCounts :: ParamVec
  ds_d :: "'r SourceData"
  ds_moduleIndex :: nat

section \<open>Address counts\<close>

text \<open>\<^verbatim>\<open>1u << bits\<close>; \<^const>\<open>None\<close> is a shift by the width or more.\<close>

definition shift_one :: "nat \<Rightarrow> nat option" where "shift_one bits = (if bits < 32 then Some (2 ^ bits) else None)"

definition get_address_count_ex :: "'r Extractor \<Rightarrow> nat option" where
  "get_address_count_ex ex = shift_one (unat (get_extract_bits (ex_filter ex) CacheA))"

definition get_base_address_bits :: "'r ListFilterExtractor \<Rightarrow> nat" where
  "get_base_address_bits ex = unat (get_extract_bits (extractionFilter (lfx_listFilter ex)) CacheA)"

text \<open>The logarithm of zero is not a number that can be converted.\<close>

definition get_repetition_address_bits :: "'r ListFilterExtractor \<Rightarrow> nat option" where
  "get_repetition_address_bits ex =
     (if lfx_repetitions ex = 0 then None else Some (nat (bit_length (uint (lfx_repetitions ex) - 1))))"

definition get_address_bits :: "'r ListFilterExtractor \<Rightarrow> nat option" where
  "get_address_bits ex = map_option (\<lambda>r. get_base_address_bits ex + r) (get_repetition_address_bits ex)"

definition get_address_count_lfx :: "'r ListFilterExtractor \<Rightarrow> nat option" where
  "get_address_count_lfx ex = Option.bind (get_address_bits ex) shift_one"

definition get_address_count :: "'r SourceData \<Rightarrow> nat option" where
  "get_address_count d =
     (case d of ExtractorData ex \<Rightarrow> get_address_count_ex ex | ListFilterData ex \<Rightarrow> get_address_count_lfx ex)"

section \<open>Construction\<close>

definition make_extractor :: "'r RandomLib \<Rightarrow> MultiWordFilter \<Rightarrow> u32 \<Rightarrow> u64 \<Rightarrow> u8 \<Rightarrow> 'r Extractor" where
  "make_extractor lib f requiredCompletions rngSeed options =
     \<lparr>ex_filter = f, ex_rng = rand_seed lib rngSeed, ex_requiredCompletions = requiredCompletions,
      ex_currentCompletions = 0, ex_options = options\<rparr>"

definition make_listfilter_extractor :: "'r RandomLib \<Rightarrow> ListFilter \<Rightarrow> u8 \<Rightarrow> u64 \<Rightarrow> u8 \<Rightarrow> 'r ListFilterExtractor" where
  "make_listfilter_extractor lib lf repetitions rngSeed options =
     \<lparr>lfx_listFilter = lf, lfx_rng = rand_seed lib rngSeed, lfx_repetitions = repetitions, lfx_options = options\<rparr>"

text \<open>The vectors of a data source. A count that does not fit \<^verbatim>\<open>s32\<close> fails an assertion.\<close>

definition make_datasource :: "'r SourceData \<Rightarrow> nat \<Rightarrow> nat \<Rightarrow> Store \<Rightarrow> ('r DataSource \<times> Store) option" where
  "make_datasource d dataBits moduleIndex st =
     (case get_address_count d of
        None \<Rightarrow> None
      | Some addrCount \<Rightarrow>
          if 2 ^ 31 \<le> addrCount then None
          else
            let upperLimit = d_of (2 ^ dataBits);
                (v, st) = push_param_vector addrCount invalid_param st;
                (l, st) = push_param_vector addrCount d0 st;
                (u, st) = push_param_vector addrCount upperLimit st;
                (h, st) = push_param_vector addrCount d0 st
            in Some (\<lparr>ds_output = \<lparr>pv_data = v, pv_lowerLimits = l, pv_upperLimits = u\<rparr>, ds_hitCounts = h,
                      ds_d = d, ds_moduleIndex = moduleIndex mod 256\<rparr>, st))"

definition make_datasource_extractor ::
    "'r RandomLib \<Rightarrow> MultiWordFilter \<Rightarrow> u32 \<Rightarrow> u64 \<Rightarrow> nat \<Rightarrow> u8 \<Rightarrow> Store \<Rightarrow> ('r DataSource \<times> Store) option" where
  "make_datasource_extractor lib f requiredCompletions rngSeed moduleIndex options st =
     make_datasource (ExtractorData (make_extractor lib f requiredCompletions rngSeed options))
       (unat (get_extract_bits f CacheD)) moduleIndex st"

definition make_datasource_listfilter_extractor ::
    "'r RandomLib \<Rightarrow> ListFilter \<Rightarrow> u8 \<Rightarrow> u64 \<Rightarrow> nat \<Rightarrow> u8 \<Rightarrow> Store \<Rightarrow> ('r DataSource \<times> Store) option" where
  "make_datasource_listfilter_extractor lib lf repetitions rngSeed moduleIndex options st =
     make_datasource (ListFilterData (make_listfilter_extractor lib lf repetitions rngSeed options))
       (unat (get_extract_bits (extractionFilter lf) CacheD)) moduleIndex st"

section \<open>Extraction\<close>

definition extractor_begin_event :: "'r DataSource \<Rightarrow> 'r Extractor \<Rightarrow> Store \<Rightarrow> ('r DataSource \<times> Store) option" where
  "extractor_begin_event ds ex st =
     map_option (\<lambda>st. (ds\<lparr>ds_d := ExtractorData (ex\<lparr>ex_filter := clear_completion (ex_filter ex), ex_currentCompletions := 0\<rparr>)\<rparr>, st))
       (invalidate_all (pv_data (ds_output ds)) st)"

text \<open>The value of a parameter that is not set yet, with the random number added; the hit is counted.\<close>

definition store_hit ::
    "'r RandomLib \<Rightarrow> u8 \<Rightarrow> ParamVec \<Rightarrow> ParamVec \<Rightarrow> nat \<Rightarrow> double \<Rightarrow> 'r \<times> Store \<Rightarrow> ('r \<times> Store) option" where
  "store_hit lib options out hits address value = (\<lambda>(rng, st).
     case vec_get st out address of
       None \<Rightarrow> None
     | Some old \<Rightarrow>
         if is_param_valid old then Some (rng, st)
         else
           let (value, rng) = (if options AND NoAddedRandom = 0
                               then (let (r, rng) = rand01 lib rng in (d_add value r, rng)) else (value, rng))
           in Option.bind (vec_set out address value st) (\<lambda>st.
                Option.bind (vec_get st hits address) (\<lambda>n.
                  map_option (Pair rng) (vec_set hits address (d_incr n) st))))"

definition extractor_process_word ::
    "'r RandomLib \<Rightarrow> PipeVectors \<Rightarrow> ParamVec \<Rightarrow> u32 \<Rightarrow> nat \<Rightarrow> 'r Extractor \<times> Store \<Rightarrow> ('r Extractor \<times> Store) option" where
  "extractor_process_word lib output hits dataWord wordIndex = (\<lambda>(ex, st).
     let (f, complete) = process_data (ex_filter ex) dataWord (int wordIndex); ex = ex\<lparr>ex_filter := f\<rparr> in
     if \<not> complete then Some (ex, st)
     else
       let n = ex_currentCompletions ex + 1 in
       if ex_requiredCompletions ex \<le> n
       then (case (extract_result f CacheA, extract_result f CacheD) of
               (Some address, Some value) \<Rightarrow>
                 map_option (\<lambda>(rng, st). (ex\<lparr>ex_rng := rng, ex_currentCompletions := 0, ex_filter := clear_completion f\<rparr>, st))
                   (store_hit lib (ex_options ex) (pv_data output) hits (unat address) (d_of (of_int (uint value))) (ex_rng ex, st))
             | _ \<Rightarrow> None)
       else Some (ex\<lparr>ex_currentCompletions := n, ex_filter := clear_completion f\<rparr>, st))"

fun extractor_process_words ::
    "'r RandomLib \<Rightarrow> PipeVectors \<Rightarrow> ParamVec \<Rightarrow> u32 list \<Rightarrow> nat \<Rightarrow> 'r Extractor \<times> Store \<Rightarrow> ('r Extractor \<times> Store) option" where
  "extractor_process_words lib output hits [] wordIndex s = Some s"
| "extractor_process_words lib output hits (w # ws) wordIndex s =
     Option.bind (extractor_process_word lib output hits w wordIndex s)
       (extractor_process_words lib output hits ws (wordIndex + 1))"

definition extractor_process_module_data ::
    "'r RandomLib \<Rightarrow> 'r DataSource \<Rightarrow> 'r Extractor \<Rightarrow> u32 list \<Rightarrow> Store \<Rightarrow> ('r DataSource \<times> Store) option" where
  "extractor_process_module_data lib ds ex data st =
     map_option (\<lambda>(ex, st). (ds\<lparr>ds_d := ExtractorData ex\<rparr>, st))
       (extractor_process_words lib (ds_output ds) (ds_hitCounts ds) data 0 (ex, st))"

definition listfilter_extractor_begin_event :: "'r DataSource \<Rightarrow> Store \<Rightarrow> ('r DataSource \<times> Store) option" where
  "listfilter_extractor_begin_event ds st = map_option (Pair ds) (invalidate_all (pv_data (ds_output ds)) st)"

text \<open>\<^verbatim>\<open>combine\<close> for a word count \<open>curSize\<close> that may be larger than the memory \<open>data\<close>; then a read fails.\<close>

definition combine_sized :: "ListFilter \<Rightarrow> u32 list \<Rightarrow> u32 \<Rightarrow> u64 option" where
  "combine_sized cf data curSize =
     (if \<not> validate cf then Some 0
      else if curSize < ucast (wordCount cf) then Some 0
      else combine_loop cf data [0..<unat (wordCount cf)] 0 0)"

text \<open>The loop over the repetitions. \<open>pos\<close> is the distance of the pointer from the begin of the data, \<open>curSize\<close> the
  number of words that is left, which may wrap; \<^verbatim>\<open>rep << baseAddressBits\<close> is a shift of 32 bits.\<close>

fun lfx_loop ::
    "'r RandomLib \<Rightarrow> PipeVectors \<Rightarrow> ParamVec \<Rightarrow> u32 list \<Rightarrow> nat \<Rightarrow> nat list \<Rightarrow> nat \<Rightarrow> u32 \<Rightarrow>
     'r ListFilterExtractor \<times> Store \<Rightarrow> (nat \<times> 'r ListFilterExtractor \<times> Store) option" where
  "lfx_loop lib output hits data repBits [] pos curSize s = Some (pos, s)"
| "lfx_loop lib output hits data repBits (rep # reps) pos curSize (ex, st) =
     (let cf = lfx_listFilter ex; base = get_base_address_bits ex; n = unat (wordCount cf) in
      case combine_sized cf (drop pos data) curSize of
        None \<Rightarrow> None
      | Some combined \<Rightarrow>
          let pos = pos + n; curSize = curSize - ucast (wordCount cf) in
          case extract_address_and_value_from_combined cf combined of
            None \<Rightarrow> None
          | Some (cf, result) \<Rightarrow>
              let ex = ex\<lparr>lfx_listFilter := cf\<rparr> in
              if \<not> matched result then lfx_loop lib output hits data repBits reps pos curSize (ex, st)
              else
                let low = lfx_options ex AND RepetitionContributesLowAddressBits \<noteq> 0;
                    address = (if low then push_bit repBits (lf_address result) OR of_nat rep
                               else lf_address result OR ucast (push_bit base (of_nat rep) :: u32))
                in if \<not> low \<and> 32 \<le> base then None
                   else case store_hit lib (lfx_options ex) (pv_data output) hits (unat address)
                          (d_of (of_int (uint (lf_value result)))) (lfx_rng ex, st) of
                          None \<Rightarrow> None
                        | Some (rng, st) \<Rightarrow>
                            let s = (ex\<lparr>lfx_rng := rng\<rparr>, st) in
                            if length data \<le> pos then Some (pos, s)
                            else lfx_loop lib output hits data repBits reps pos curSize s)"

text \<open>The result is the number of words the pointer has moved, which may be more than there are.\<close>

definition listfilter_extractor_process_module_data ::
    "'r RandomLib \<Rightarrow> 'r DataSource \<Rightarrow> 'r ListFilterExtractor \<Rightarrow> u32 list \<Rightarrow> Store \<Rightarrow> (nat \<times> 'r DataSource \<times> Store) option" where
  "listfilter_extractor_process_module_data lib ds ex data st =
     (case get_repetition_address_bits ex of
        None \<Rightarrow> None
      | Some repBits \<Rightarrow>
          if 2 ^ repBits < unat (lfx_repetitions ex) then None
          else map_option (\<lambda>(pos, ex, st). (pos, ds\<lparr>ds_d := ListFilterData ex\<rparr>, st))
                 (lfx_loop lib (ds_output ds) (ds_hitCounts ds) data repBits [0..<unat (lfx_repetitions ex)] 0
                    (of_nat (length data)) (ex, st)))"

section \<open>What is stored\<close>

text \<open>What the random number generator promises.\<close>

definition random_ok :: "'r RandomLib \<Rightarrow> bool" where
  "random_ok lib \<longleftrightarrow> (\<forall>rng. d_le d0 (fst (rand01 lib rng)) \<and> d_less (fst (rand01 lib rng)) d1)"

definition stored :: "'r RandomLib \<Rightarrow> u8 \<Rightarrow> nat \<Rightarrow> double \<Rightarrow> bool" where
  "stored lib options v x \<longleftrightarrow>
     (if options AND NoAddedRandom = 0 then \<exists>rng. x = d_add (d_of (of_nat v)) (fst (rand01 lib rng)) else x = d_of (of_nat v))"

text \<open>The effect of a list of hits, addresses with their values: the first hit of an address that has no value is
  stored and counted; nothing else changes.\<close>

definition hits_stored ::
    "'r RandomLib \<Rightarrow> u8 \<Rightarrow> ParamVec \<Rightarrow> ParamVec \<Rightarrow> (nat \<times> nat) list \<Rightarrow> Store \<Rightarrow> Store \<Rightarrow> bool" where
  "hits_stored lib options out hits avs st st' \<longleftrightarrow> length st' = length st \<and> (\<forall>v. v \<noteq> out \<longrightarrow> v \<noteq> hits \<longrightarrow> st' ! v = st ! v)
     \<and> length (st' ! out) = length (st ! out) \<and> length (st' ! hits) = length (st ! hits)
     \<and> (\<forall>a < length (st ! out).
          case if is_param_valid (st ! out ! a) then None else map_of avs a of
            None \<Rightarrow> st' ! out ! a = st ! out ! a \<and> st' ! hits ! a = st ! hits ! a
          | Some v \<Rightarrow> stored lib options v (st' ! out ! a) \<and> st' ! hits ! a = d_incr (st ! hits ! a))"

lemma stored_valid: "random_ok lib \<Longrightarrow> stored lib options v x \<Longrightarrow> is_param_valid x"
  by (auto simp: stored_def random_ok_def not_nan_valid dest!: d_order_nan split: if_splits
      intro!: d_add_valid) (meson d_order_nan not_nan_valid)

lemma hits_stored_refl [simp]: "hits_stored lib options out hits [] st st"
  by (simp add: hits_stored_def)

lemma hits_stored_trans:
  assumes "random_ok lib" "hits_stored lib options out hits avs st st'" "hits_stored lib options out hits bvs st' st''"
  shows "hits_stored lib options out hits (avs @ bvs) st st''"
proof -
  have "case if is_param_valid (st ! out ! a) then None else map_of (avs @ bvs) a of
        None \<Rightarrow> st'' ! out ! a = st ! out ! a \<and> st'' ! hits ! a = st ! hits ! a
      | Some v \<Rightarrow> stored lib options v (st'' ! out ! a) \<and> st'' ! hits ! a = d_incr (st ! hits ! a)"
    if "a < length (st ! out)" for a
  proof -
    have 1: "case if is_param_valid (st ! out ! a) then None else map_of avs a of
          None \<Rightarrow> st' ! out ! a = st ! out ! a \<and> st' ! hits ! a = st ! hits ! a
        | Some v \<Rightarrow> stored lib options v (st' ! out ! a) \<and> st' ! hits ! a = d_incr (st ! hits ! a)"
      and 2: "case if is_param_valid (st' ! out ! a) then None else map_of bvs a of
          None \<Rightarrow> st'' ! out ! a = st' ! out ! a \<and> st'' ! hits ! a = st' ! hits ! a
        | Some v \<Rightarrow> stored lib options v (st'' ! out ! a) \<and> st'' ! hits ! a = d_incr (st' ! hits ! a)"
      using assms(2,3) that by (auto simp: hits_stored_def)
    show ?thesis
    proof (cases "is_param_valid (st ! out ! a)")
      case True
      then show ?thesis using 1 2 by simp
    next
      case False
      then show ?thesis
        using 1 2 stored_valid [OF assms(1), of options _ "st' ! out ! a"]
        by (cases "map_of avs a") (auto simp: map_add_def split: option.splits)
    qed
  qed
  then show ?thesis using assms(2,3) by (simp add: hits_stored_def)
qed

lemma store_hit_stored:
  assumes "out < length st" "hits < length st" "out \<noteq> hits" "a < length (st ! out)" "a < length (st ! hits)"
  shows "\<exists>rng' st'. store_hit lib options out hits a (d_of (of_nat v)) (rng, st) = Some (rng', st')
    \<and> hits_stored lib options out hits [(a, v)] st st'"
proof (cases "is_param_valid (st ! out ! a)")
  case True
  then show ?thesis using assms by (auto simp: store_hit_def hits_stored_def)
next
  case False
  let ?x = "if options AND NoAddedRandom = 0 then d_add (d_of (of_nat v)) (fst (rand01 lib rng)) else d_of (of_nat v)"
  let ?st = "st[out := (st ! out)[a := ?x], hits := (st ! hits)[a := d_incr (st ! hits ! a)]]"
  have "\<exists>rng'. store_hit lib options out hits a (d_of (of_nat v)) (rng, st) = Some (rng', ?st)"
    using assms False by (auto simp: store_hit_def Let_def case_prod_unfold)
  moreover have "hits_stored lib options out hits [(a, v)] st ?st"
    using assms False by (auto simp: hits_stored_def nth_list_update stored_def)
  ultimately show ?thesis by blast
qed

lemma hits_stored_fresh:
  assumes "hits_stored lib options out hits avs st st'" "a < length (st ! out)" "st ! out ! a = invalid_param"
  shows "case map_of avs a of
          None \<Rightarrow> st' ! out ! a = invalid_param \<and> st' ! hits ! a = st ! hits ! a
        | Some v \<Rightarrow> stored lib options v (st' ! out ! a) \<and> st' ! hits ! a = d_incr (st ! hits ! a)"
proof -
  have "case if is_param_valid (st ! out ! a) then None else map_of avs a of
          None \<Rightarrow> st' ! out ! a = st ! out ! a \<and> st' ! hits ! a = st ! hits ! a
        | Some v \<Rightarrow> stored lib options v (st' ! out ! a) \<and> st' ! hits ! a = d_incr (st ! hits ! a)"
    using assms(1,2) unfolding hits_stored_def by (elim conjE allE [of _ a]) (erule mp)
  then show ?thesis by (simp only: assms(3) invalid_param_invalid if_False)
qed

section \<open>Extractors\<close>

text \<open>The abstract side: the rows of parts that the words complete, one after the other; every \<open>required\<close>-th of them
  is a hit.\<close>

fun completions :: "nat \<Rightarrow> u32 list \<Rightarrow> DataFilter parts \<Rightarrow> DataFilter parts list" where
  "completions i [] ps = []"
| "completions i (w # ws) ps =
     (let qs = offer (\<lambda>d. matches d w (int i)) w ps
      in if complete qs then qs # completions (i + 1) ws (map (\<lambda>p. (fst p, None)) qs) else completions (i + 1) ws qs)"

fun every :: "nat \<Rightarrow> nat \<Rightarrow> 'a list \<Rightarrow> 'a list" where
  "every required current [] = []"
| "every required current (x # xs) =
     (if required \<le> current + 1 then x # every required 0 xs else every required (current + 1) xs)"

definition hit_of :: "DataFilter parts \<Rightarrow> nat \<times> nat" where
  "hit_of ps = (unat (the (assembled CacheA ps)), unat (the (assembled CacheD ps)))"

definition filter_bits :: "MultiWordFilter \<Rightarrow> CacheType \<Rightarrow> nat" where
  "filter_bits f t = sum_list (map (\<lambda>i. extractBits (caches f t ! i)) [0..<filterCount f])"

definition same_filter :: "MultiWordFilter \<Rightarrow> MultiWordFilter \<Rightarrow> bool" where
  "same_filter f g \<longleftrightarrow> filterCount g = filterCount f \<and> (\<forall>t. caches g t = caches f t)"

lemma same_filter_process:
  assumes "wf_multi f"
  shows "same_filter f (fst (process_data f w i))" "same_filter f (clear_completion (fst (process_data f w i)))"
proof -
  have 16: "\<forall>i \<in> set [0..<filterCount f]. i < 16" using assms by (simp add: wf_multi_def MaxFilters_def)
  show "same_filter f (fst (process_data f w i))" "same_filter f (clear_completion (fst (process_data f w i)))"
    by (simp_all add: same_filter_def process_data_def Let_def process_loop_frame [OF 16] clear_completion_def)
qed

lemma filter_bits_same: "same_filter f g \<Longrightarrow> filter_bits g t = filter_bits f t"
  by (simp add: filter_bits_def same_filter_def)

lemma same_filter_trans: "same_filter f g \<Longrightarrow> same_filter g h \<Longrightarrow> same_filter f h"
  by (simp add: same_filter_def)

lemma extract_result_bounded:
  assumes "wf_multi f" "is_complete f" "filter_bits f t < 64"
  shows "\<exists>r. extract_result f t = Some r \<and> assembled t (parts_of f) = Some r \<and> unat r < 2 ^ filter_bits f t"
proof -
  let ?fws = "map (\<lambda>j. ((filters f ! j, cache_char t), results f ! j)) [0..<filterCount f]"
  have cache: "caches f t ! j = make_cache_entry (filters f ! j) (cache_char t)" if "j < filterCount f" for j
    using assms(1) that by (simp add: wf_multi_def)
  have pieces: "map (\<lambda>i. (extract_value (caches f t ! i) (results f ! i), extractBits (caches f t ! i)))
      [0..<filterCount f] = a2_sub.pieces ?fws"
    by (auto simp: cache)
  have widths: "map ((\<lambda>(d, c). extractBits (make_cache_entry d c)) \<circ> fst) ?fws = map (\<lambda>j. extractBits (caches f t ! j)) [0..<filterCount f]"
    by (simp add: cache comp_def cong: map_cong)
  have pieces_widths: "map snd (a2_sub.pieces ?fws) = map (\<lambda>j. extractBits (caches f t ! j)) [0..<filterCount f]"
    unfolding a2_sub.pieces_widths widths ..
  have "sum_list (butlast xs) \<le> sum_list xs" for xs :: "nat list"
    by (cases xs rule: rev_cases) simp_all
  then have "sum_list (map snd (butlast (a2_sub.pieces ?fws))) < 64"
    using assms(3) pieces_widths by (metis filter_bits_def le_less_trans map_butlast)
  then have "extract_result f t \<noteq> None"
    unfolding extract_result_def pieces or_shifted_None_iff by simp
  then obtain r where r: "extract_result f t = Some r" by blast
  then have "or_shifted (a2_sub.pieces ?fws) 0 0 = Some r" by (simp only: extract_result_def pieces)
  from a2_sub.assembled_total(2) [OF this] have "unat r < 2 ^ filter_bits f t"
    unfolding widths using assms(3) by (simp add: filter_bits_def)
  then show ?thesis using r extract_result_assembled [OF assms(1,2)] by simp
qed

text \<open>The vectors of a data source: two of them, of the size of the address space.\<close>

definition source_vectors :: "Store \<Rightarrow> PipeVectors \<Rightarrow> ParamVec \<Rightarrow> nat \<Rightarrow> bool" where
  "source_vectors st output hits n \<longleftrightarrow> pv_data output < length st \<and> hits < length st \<and> pv_data output \<noteq> hits
     \<and> length (st ! pv_data output) = n \<and> length (st ! hits) = n"

lemma source_vectors_stored:
  "hits_stored lib options (pv_data output) hits avs st st' \<Longrightarrow> source_vectors st output hits n \<Longrightarrow> source_vectors st' output hits n"
  by (auto simp: hits_stored_def source_vectors_def)

definition wf_extractor :: "'r Extractor \<Rightarrow> bool" where
  "wf_extractor ex \<longleftrightarrow> wf_multi (ex_filter ex) \<and> filter_bits (ex_filter ex) CacheA < 32 \<and> filter_bits (ex_filter ex) CacheD < 64
     \<and> (ex_currentCompletions ex = 0 \<or> ex_currentCompletions ex < ex_requiredCompletions ex)"

lemma unat_required:
  assumes "c = 0 \<or> c < required"
  shows "required \<le> c + 1 \<longleftrightarrow> unat required \<le> unat (c::u32) + 1" "\<not> required \<le> c + 1 \<Longrightarrow> c + 1 < required \<and> unat (c + 1) = unat c + 1"
proof -
  have "c + 1 \<noteq> 0" using assms word_n1_ge [of required] by (auto simp: eq_neg_iff_add_eq_0 [symmetric] not_less [symmetric])
  then have "unat (c + 1) = unat c + 1" using unatSuc [of c] by (simp add: add.commute)
  then show "required \<le> c + 1 \<longleftrightarrow> unat required \<le> unat c + 1" "\<not> required \<le> c + 1 \<Longrightarrow> c + 1 < required \<and> unat (c + 1) = unat c + 1"
    by (auto simp: word_le_nat_alt word_less_nat_alt)
qed

lemma extractor_word:
  assumes "random_ok lib" "wf_extractor ex" "source_vectors st output hits (2 ^ filter_bits (ex_filter ex) CacheA)"
    and qs_def: "qs = offer (\<lambda>d. matches d w (int i)) w (parts_of (ex_filter ex))"
  shows "\<exists>ex' st'. extractor_process_word lib output hits w i (ex, st) = Some (ex', st') \<and> wf_extractor ex'
    \<and> filter_bits (ex_filter ex') CacheA = filter_bits (ex_filter ex) CacheA
    \<and> ex_requiredCompletions ex' = ex_requiredCompletions ex \<and> ex_options ex' = ex_options ex
    \<and> parts_of (ex_filter ex') = (if complete qs then map (\<lambda>p. (fst p, None)) qs else qs)
    \<and> (let required = unat (ex_requiredCompletions ex); current = unat (ex_currentCompletions ex) in
        unat (ex_currentCompletions ex') = (if \<not> complete qs then current else if required \<le> current + 1 then 0 else current + 1)
      \<and> hits_stored lib (ex_options ex) (pv_data output) hits (if complete qs \<and> required \<le> current + 1 then [hit_of qs] else []) st st')"
proof -
  let ?f = "fst (process_data (ex_filter ex) w (int i))"
  have wf: "wf_multi (ex_filter ex)" using assms(2) by (simp add: wf_extractor_def)
  have f: "wf_multi ?f" "parts_of ?f = qs" "same_filter (ex_filter ex) ?f" "same_filter (ex_filter ex) (clear_completion ?f)"
    "wf_multi (clear_completion ?f)" "parts_of (clear_completion ?f) = map (\<lambda>p. (fst p, None)) qs"
    using wf by (simp_all add: wf_process_data parts_of_process_data same_filter_process qs_def wf_clear_completion parts_of_clear_completion)
  note bits = f(3,4) [THEN filter_bits_same]
  have complete: "snd (process_data (ex_filter ex) w (int i)) = complete qs"
    using is_complete_iff [OF f(1)] f(2) by (simp add: process_data_def Let_def)
  have cur: "ex_currentCompletions ex = 0 \<or> ex_currentCompletions ex < ex_requiredCompletions ex"
    using assms(2) by (simp add: wf_extractor_def)
  note req = unat_required [OF cur]
  show ?thesis
  proof (cases "complete qs \<and> unat (ex_requiredCompletions ex) \<le> unat (ex_currentCompletions ex) + 1")
    case True
    have ic: "is_complete ?f" using is_complete_iff [OF f(1)] f(2) True by simp
    obtain a where a: "extract_result ?f CacheA = Some a" "assembled CacheA qs = Some a" "unat a < 2 ^ filter_bits (ex_filter ex) CacheA"
      using extract_result_bounded [OF f(1) ic, of CacheA] assms(2) by (auto simp: bits f(2) wf_extractor_def)
    obtain v where v: "extract_result ?f CacheD = Some v" "assembled CacheD qs = Some v"
      using extract_result_bounded [OF f(1) ic, of CacheD] assms(2) by (auto simp: bits f(2) wf_extractor_def)
    have eq: "of_int (uint v) = (of_nat (unat v) :: rat)" by (simp add: of_nat_unat)
    obtain rng' st' where "store_hit lib (ex_options ex) (pv_data output) hits (unat a) (d_of (of_nat (unat v))) (ex_rng ex, st) = Some (rng', st')"
      "hits_stored lib (ex_options ex) (pv_data output) hits [(unat a, unat v)] st st'"
      using store_hit_stored [of "pv_data output" st hits "unat a" lib "ex_options ex" "unat v" "ex_rng ex"] assms(3) a(3)
      by (auto simp: source_vectors_def)
    then show ?thesis using True a v f complete req assms(2) bits
      by (simp add: extractor_process_word_def case_prod_unfold Let_def eq hit_of_def wf_extractor_def)
  next
    case False
    then show ?thesis using f complete req assms(2) bits
      by (auto simp: extractor_process_word_def case_prod_unfold Let_def wf_extractor_def)
  qed
qed

lemma extractor_words:
  assumes "random_ok lib" "wf_extractor ex" "source_vectors st output hits (2 ^ filter_bits (ex_filter ex) CacheA)"
  shows "\<exists>ex' st'. extractor_process_words lib output hits ws i (ex, st) = Some (ex', st') \<and> wf_extractor ex'
    \<and> ex_requiredCompletions ex' = ex_requiredCompletions ex \<and> ex_options ex' = ex_options ex
    \<and> filter_bits (ex_filter ex') CacheA = filter_bits (ex_filter ex) CacheA
    \<and> hits_stored lib (ex_options ex) (pv_data output) hits
         (map hit_of (every (unat (ex_requiredCompletions ex)) (unat (ex_currentCompletions ex)) (completions i ws (parts_of (ex_filter ex))))) st st'"
  using assms(2,3)
proof (induction ws arbitrary: i ex st)
  case (Cons w ws)
  let ?qs = "offer (\<lambda>d. matches d w (int i)) w (parts_of (ex_filter ex))"
  from extractor_word [OF assms(1) Cons.prems refl, of w i] obtain ex1 st1 where 1:
    "extractor_process_word lib output hits w i (ex, st) = Some (ex1, st1)" "wf_extractor ex1"
    "filter_bits (ex_filter ex1) CacheA = filter_bits (ex_filter ex) CacheA"
    "ex_requiredCompletions ex1 = ex_requiredCompletions ex" "ex_options ex1 = ex_options ex"
    "parts_of (ex_filter ex1) = (if complete ?qs then map (\<lambda>p. (fst p, None)) ?qs else ?qs)"
    "unat (ex_currentCompletions ex1) = (if \<not> complete ?qs then unat (ex_currentCompletions ex)
       else if unat (ex_requiredCompletions ex) \<le> unat (ex_currentCompletions ex) + 1 then 0 else unat (ex_currentCompletions ex) + 1)"
    "hits_stored lib (ex_options ex) (pv_data output) hits
       (if complete ?qs \<and> unat (ex_requiredCompletions ex) \<le> unat (ex_currentCompletions ex) + 1 then [hit_of ?qs] else []) st st1"
    unfolding Let_def by (elim exE conjE) (rule that; assumption)
  have vectors: "source_vectors st1 output hits (2 ^ filter_bits (ex_filter ex1) CacheA)"
    using source_vectors_stored [OF 1(8) Cons.prems(2)] 1(3) by simp
  from Cons.IH [OF 1(2) vectors, of "i + 1"] obtain ex2 st2 where 2:
    "extractor_process_words lib output hits ws (i + 1) (ex1, st1) = Some (ex2, st2)" "wf_extractor ex2"
    "ex_requiredCompletions ex2 = ex_requiredCompletions ex1" "ex_options ex2 = ex_options ex1"
    "filter_bits (ex_filter ex2) CacheA = filter_bits (ex_filter ex1) CacheA"
    "hits_stored lib (ex_options ex1) (pv_data output) hits
       (map hit_of (every (unat (ex_requiredCompletions ex1)) (unat (ex_currentCompletions ex1)) (completions (i + 1) ws (parts_of (ex_filter ex1))))) st1 st2"
    by blast
  let ?R = "unat (ex_requiredCompletions ex)" let ?c = "unat (ex_currentCompletions ex)"
  have "every ?R ?c (completions i (w # ws) (parts_of (ex_filter ex))) = (if complete ?qs \<and> ?R \<le> ?c + 1 then [?qs] else [])
      @ every (unat (ex_requiredCompletions ex1)) (unat (ex_currentCompletions ex1)) (completions (i + 1) ws (parts_of (ex_filter ex1)))"
    unfolding 1(4,6,7) by (simp add: Let_def)
  then have "map hit_of (every ?R ?c (completions i (w # ws) (parts_of (ex_filter ex)))) =
      (if complete ?qs \<and> ?R \<le> ?c + 1 then [hit_of ?qs] else [])
      @ map hit_of (every (unat (ex_requiredCompletions ex1)) (unat (ex_currentCompletions ex1)) (completions (i + 1) ws (parts_of (ex_filter ex1))))"
    by simp
  then have "hits_stored lib (ex_options ex) (pv_data output) hits
      (map hit_of (every ?R ?c (completions i (w # ws) (parts_of (ex_filter ex))))) st st2"
    using hits_stored_trans [OF assms(1) 1(8) 2(6) [unfolded 1(5)]] by (simp only:)
  moreover have "extractor_process_words lib output hits (w # ws) i (ex, st) = Some (ex2, st2)" using 1(1) 2(1) by simp
  ultimately show ?case using 1(3-5) 2(2-5) by metis
qed simp

text \<open>C16: an extractor stores, for every address, the value of the first hit of an event, with a random number below
  one added unless this is switched off, counts it, and leaves the addresses without hit invalid and uncounted. The
  hits are every n-th of the rows of parts that the words of the module complete, by the abstract machine of the
  filter.\<close>

theorem extractor_first_hits:
  assumes "random_ok lib" "wf_multi f" "filter_bits f CacheA < 31" "filter_bits f CacheD < 64"
    and "make_datasource_extractor lib f required seed m options st = Some (ds, st0)" "ds_d ds = ExtractorData ex"
  shows "\<exists>ds1 st1 ex1 ds2 st2. extractor_begin_event ds ex st0 = Some (ds1, st1) \<and> ds_d ds1 = ExtractorData ex1
    \<and> extractor_process_module_data lib ds1 ex1 data st1 = Some (ds2, st2)
    \<and> (let hits = map hit_of (every (unat required) 0 (completions 0 data (map (\<lambda>p. (fst p, None)) (parts_of f)))) in
       \<forall>a < 2 ^ filter_bits f CacheA.
         case map_of hits a of
           None \<Rightarrow> st2 ! pv_data (ds_output ds) ! a = invalid_param \<and> st2 ! ds_hitCounts ds ! a = d0
         | Some v \<Rightarrow> stored lib options v (st2 ! pv_data (ds_output ds) ! a) \<and> st2 ! ds_hitCounts ds ! a = d1)"
proof -
  let ?n = "2 ^ filter_bits f CacheA :: nat"
  have bits: "unat (get_extract_bits f t) = filter_bits f t" for t
    using assms(2) by (simp add: get_extract_bits_eq filter_bits_def)
  have small: "?n < 2 ^ 31" using assms(3) by (intro power_strict_increasing) auto
  have count: "get_address_count (ExtractorData (make_extractor lib f required seed options)) = Some ?n"
    using assms(3) by (simp add: get_address_count_def get_address_count_ex_def make_extractor_def bits shift_one_def)
  let ?v = "length st"
  let ?st0 = "st @ [replicate ?n invalid_param, replicate ?n d0, replicate ?n (d_of (2 ^ filter_bits f CacheD)), replicate ?n d0]"
  have made: "ds_output ds = \<lparr>pv_data = ?v, pv_lowerLimits = ?v + 1, pv_upperLimits = ?v + 2\<rparr>" "ds_hitCounts ds = ?v + 3"
    "st0 = ?st0" "ex = make_extractor lib f required seed options"
    using assms(5,6) count small by (auto simp: make_datasource_extractor_def make_datasource_def push_param_vector_def push_vector_def bits not_le)
  let ?ex1 = "ex\<lparr>ex_filter := clear_completion f, ex_currentCompletions := 0\<rparr>"
  let ?ds1 = "ds\<lparr>ds_d := ExtractorData ?ex1\<rparr>"
  have nth: "?st0 ! ?v = replicate ?n invalid_param" "?st0 ! (?v + 3) = replicate ?n d0"
    by (simp_all add: nth_append numeral_3_eq_3)
  have same: "?st0[?v := replicate ?n invalid_param] = ?st0" by (simp add: list_update_append)
  have begun: "extractor_begin_event ds ex st0 = Some (?ds1, st0)"
    by (simp add: extractor_begin_event_def made(1,3) made(4) make_extractor_def nth same)
  have "same_filter f (clear_completion f)" by (simp add: same_filter_def clear_completion_def caches_simps)
  then have fb: "filter_bits (clear_completion f) t = filter_bits f t" for t by (rule filter_bits_same)
  have wf: "wf_extractor ?ex1" using assms(2-4) by (simp add: wf_extractor_def wf_clear_completion fb)
  have vectors: "source_vectors st0 (ds_output ds) (ds_hitCounts ds) (2 ^ filter_bits (ex_filter ?ex1) CacheA)"
    by (simp add: source_vectors_def made(1,2,3) nth fb)
  from extractor_words [OF assms(1) wf vectors, of data 0] obtain ex2 st2 where run:
    "extractor_process_words lib (ds_output ds) (ds_hitCounts ds) data 0 (?ex1, st0) = Some (ex2, st2)"
    "hits_stored lib options (pv_data (ds_output ds)) (ds_hitCounts ds)
       (map hit_of (every (unat required) 0 (completions 0 data (map (\<lambda>p. (fst p, None)) (parts_of f))))) st0 st2"
    by (auto simp: made(4) make_extractor_def parts_of_clear_completion)
  have process: "extractor_process_module_data lib ?ds1 ?ex1 data st0 = Some (?ds1\<lparr>ds_d := ExtractorData ex2\<rparr>, st2)"
    by (simp add: extractor_process_module_data_def run(1))
  let ?hits = "map hit_of (every (unat required) 0 (completions 0 data (map (\<lambda>p. (fst p, None)) (parts_of f))))"
  have "case map_of ?hits a of
          None \<Rightarrow> st2 ! pv_data (ds_output ds) ! a = invalid_param \<and> st2 ! ds_hitCounts ds ! a = d0
        | Some v \<Rightarrow> stored lib options v (st2 ! pv_data (ds_output ds) ! a) \<and> st2 ! ds_hitCounts ds ! a = d1"
    if "a < ?n" for a
  proof -
    have a: "a < length (st0 ! pv_data (ds_output ds))" "st0 ! pv_data (ds_output ds) ! a = invalid_param" "st0 ! ds_hitCounts ds ! a = d0"
      using that by (simp_all add: made(1,2,3) nth)
    show ?thesis using hits_stored_fresh [OF run(2) a(1,2)] by (simp only: a(3) d_incr_0)
  qed
  then have stored: "\<forall>a < ?n. case map_of ?hits a of
          None \<Rightarrow> st2 ! pv_data (ds_output ds) ! a = invalid_param \<and> st2 ! ds_hitCounts ds ! a = d0
        | Some v \<Rightarrow> stored lib options v (st2 ! pv_data (ds_output ds) ! a) \<and> st2 ! ds_hitCounts ds ! a = d1"
    by blast
  have "ds_d ?ds1 = ExtractorData ?ex1" by simp
  then show ?thesis unfolding Let_def using begun process stored by blast
qed

lemma demo_built_parts: "map (\<lambda>p. (fst p, None)) (parts_of demo_built) = map (\<lambda>s. (s, None)) demo_subs"
  using parts_of_add_subfilters(1) [OF wf_new_filter _ demo_built] by simp

lemma filter_bits_parts:
  assumes "wf_multi f"
  shows "filter_bits f t = sum_list (map (\<lambda>p. extractBits (make_cache_entry (fst p) (cache_char t))) (parts_of f))"
  using assms by (auto simp: filter_bits_def parts_of_def part_at_def wf_multi_def intro!: arg_cong [where f = sum_list])

lemma demo_caches_A:
  "map (\<lambda>s. make_cache_entry s CHR ''A'') demo_subs =
   [\<lparr>extractMask = 0xF0, needGather = False, extractShift = 4, extractBits = 4\<rparr>,
    \<lparr>extractMask = 0, needGather = False, extractShift = 0, extractBits = 0\<rparr>]"
  by (simp add: demo_subs cache_eval)

lemma demo_built_bits: "filter_bits demo_built CacheA = 4" "filter_bits demo_built CacheD = 6"
proof -
  have fst: "map fst (parts_of demo_built) = demo_subs"
    using arg_cong [OF demo_built_parts, of "map fst"] by (simp add: comp_def)
  have "filter_bits demo_built t = sum_list (map extractBits (map (\<lambda>s. make_cache_entry s (cache_char t)) demo_subs))" for t
    unfolding filter_bits_parts [OF wf_demo_built] fst [symmetric] by (simp add: comp_def)
  note this [unfolded cache_char_def]
  from this [of CacheA] this [of CacheD] show "filter_bits demo_built CacheA = 4" "filter_bits demo_built CacheD = 6"
    by (simp_all only: CacheType.case demo_caches demo_caches_A list.map CacheEntry.simps) simp_all
qed

definition demo_lib :: "unit RandomLib" where "demo_lib = \<lparr>rand_seed = \<lambda>_. (), rand01 = \<lambda>_. (d0, ())\<rparr>"

lemma demo_lib_ok: "random_ok demo_lib"
proof -
  have "d_le d0 d0 \<and> d_less d0 d1" by code_simp
  then show ?thesis by (simp add: random_ok_def demo_lib_def)
qed

lemma demo_hits:
  "map hit_of (every 1 0 (completions 0 [0x1A5, 0x26] (map (\<lambda>p. (fst p, None)) (parts_of demo_built)))) = [(0xA, 0x35)]"
proof -
  have "completions 0 [0x1A5, 0x26] (map (\<lambda>p. (fst p, None)) (parts_of demo_built)) = [[(demo_subs ! 0, Some 0x1A5), (demo_subs ! 1, Some 0x26)]]"
    unfolding demo_built_parts by (simp add: demo_subs matches_def complete_def Let_def)
  moreover have "assembled CacheA [(demo_subs ! 0, Some 0x1A5), (demo_subs ! 1, Some 0x26)] = Some 0xA"
    using demo_caches_A by (simp add: assembled_def cache_char_def demo_subs extract_value_def)
  ultimately show ?thesis using demo_value by (simp add: hit_of_def)
qed

theorem extractor_first_hits_witness:
  "\<exists>ds st0 ex ds1 st1 ex1 ds2 st2. make_datasource_extractor demo_lib demo_built 1 0 0 NoAddedRandom [] = Some (ds, st0)
    \<and> ds_d ds = ExtractorData ex \<and> extractor_begin_event ds ex st0 = Some (ds1, st1) \<and> ds_d ds1 = ExtractorData ex1
    \<and> extractor_process_module_data demo_lib ds1 ex1 [0x1A5, 0x26] st1 = Some (ds2, st2)
    \<and> st2 ! pv_data (ds_output ds) ! 0xA = d_of 0x35 \<and> st2 ! ds_hitCounts ds ! 0xA = d1
    \<and> st2 ! pv_data (ds_output ds) ! 3 = invalid_param \<and> st2 ! ds_hitCounts ds ! 3 = d0"
proof -
  have bits: "unat (get_extract_bits demo_built CacheA) = 4" "unat (get_extract_bits demo_built CacheD) = 6"
    using wf_demo_built demo_built_bits by (simp_all add: get_extract_bits_eq filter_bits_def)
  then obtain ds st0 ex where made: "make_datasource_extractor demo_lib demo_built 1 0 0 NoAddedRandom [] = Some (ds, st0)" "ds_d ds = ExtractorData ex"
    by (simp add: make_datasource_extractor_def make_datasource_def get_address_count_def get_address_count_ex_def make_extractor_def shift_one_def
        push_param_vector_def push_vector_def)
  obtain ds1 st1 ex1 ds2 st2 where run: "extractor_begin_event ds ex st0 = Some (ds1, st1)" "ds_d ds1 = ExtractorData ex1"
    "extractor_process_module_data demo_lib ds1 ex1 [0x1A5, 0x26] st1 = Some (ds2, st2)"
    and stored: "\<forall>a < 2 ^ filter_bits demo_built CacheA. case map_of [(0xA, 0x35)] a of
           None \<Rightarrow> st2 ! pv_data (ds_output ds) ! a = invalid_param \<and> st2 ! ds_hitCounts ds ! a = d0
         | Some v \<Rightarrow> stored demo_lib NoAddedRandom v (st2 ! pv_data (ds_output ds) ! a) \<and> st2 ! ds_hitCounts ds ! a = d1"
    using extractor_first_hits [where data = "[0x1A5, 0x26]", OF demo_lib_ok wf_demo_built _ _ made]
    by (simp only: Let_def unat_1 demo_hits) (auto simp: demo_built_bits)
  have "stored demo_lib NoAddedRandom 0x35 (st2 ! pv_data (ds_output ds) ! 0xA) \<and> st2 ! ds_hitCounts ds ! 0xA = d1"
    using stored [THEN spec, of "0xA"] by (simp add: demo_built_bits)
  moreover have "st2 ! pv_data (ds_output ds) ! 3 = invalid_param \<and> st2 ! ds_hitCounts ds ! 3 = d0"
    using stored [THEN spec, of 3] by (simp add: demo_built_bits)
  ultimately show ?thesis using made run by (auto simp: stored_def NoAddedRandom_def)
qed

end
