(* ===== verification/A2_Listfilter.thy ===== *)
theory A2_Listfilter
  imports A2_Extract
begin

text \<open>
  What list filter extractors (\<open>A2_Extract\<close>) do with enough data, and with too little: the loop over the repetitions
  checks the end of the data only behind a match.
\<close>

section \<open>One repetition\<close>

lemma combine_loop_filter [simp]: "combine_loop (cf\<lparr>extractionFilter := f\<rparr>) data ns r s = combine_loop cf data ns r s"
  by (induction ns arbitrary: r s) (simp_all add: Let_def split: option.split)

lemma validate_filter [simp]: "validate (cf\<lparr>extractionFilter := f\<rparr>) = validate cf"
  by (simp add: validate_def)

lemma combine_sized_filter [simp]: "combine_sized (cf\<lparr>extractionFilter := f\<rparr>) data n = combine_sized cf data n"
  by (simp add: combine_sized_def)

lemma unat_of_length: "length data < 2 ^ 32 \<Longrightarrow> unat (of_nat (length data) :: u32) = length data"
  by (simp add: unat_of_nat)

lemma unat_ucast_u8: "unat (ucast (x::u8) :: u32) = unat x"
  using unsigned_less [of x, where 'a = nat] by (simp add: unsigned_ucast_eq take_bit_nat_eq_self)

lemma combine_sized_eq:
  assumes "length data < 2 ^ 32"
  shows "combine_sized cf data (of_nat (length data)) = combine cf data"
proof -
  have "(of_nat (length data) :: u32) < ucast (wordCount cf) \<longleftrightarrow> length data < unat (wordCount cf)"
    using unat_of_length [OF assms] by (simp add: word_less_nat_alt unat_ucast_u8)
  then show ?thesis by (simp add: combine_sized_def combine_def)
qed

lemma combine_small: "length data < unat (wordCount cf) \<Longrightarrow> combine cf data = Some 0"
  by (simp add: combine_def)

definition row :: "DataFilter list \<Rightarrow> u64 \<Rightarrow> DataFilter parts" where
  "row ds c = offer_all (halves c) (map (\<lambda>d. (d, None)) ds)"

lemma same_filter_run: "wf_multi f \<Longrightarrow> same_filter f (run_words f ws)"
proof (induction f ws rule: run_words.induct)
  case (2 f w i ws)
  then have "same_filter f (fst (process_data f w i))" "same_filter (fst (process_data f w i)) (run_words (fst (process_data f w i)) ws)"
    using same_filter_process(1) [of f w i] wf_process_data by blast+
  then show ?case using same_filter_trans by simp
qed (simp add: same_filter_def)

text \<open>The extraction of a combined word, on a filter between two events.\<close>

lemma extract_row:
  assumes "lf_ready ds cf" "ds \<noteq> []" "filter_bits (extractionFilter cf) CacheA < 64" "filter_bits (extractionFilter cf) CacheD < 64"
  shows "\<exists>f. lf_ready ds (cf\<lparr>extractionFilter := f\<rparr>) \<and> same_filter (extractionFilter cf) f
    \<and> (if complete (row ds c)
       then \<exists>a v. extract_address_and_value_from_combined cf c = Some (cf\<lparr>extractionFilter := f\<rparr>, \<lparr>lf_address = a, lf_value = v, matched = True\<rparr>)
         \<and> hit_of (row ds c) = (unat a, unat v) \<and> unat a < 2 ^ filter_bits (extractionFilter cf) CacheA
       else extract_address_and_value_from_combined cf c = Some (cf\<lparr>extractionFilter := f\<rparr>, \<lparr>lf_address = 0, lf_value = 0, matched = False\<rparr>))"
proof -
  let ?f = "process_halves (extractionFilter cf) c"
  let ?g = "clear_completion ?f"
  have wf: "wf_multi (extractionFilter cf)" using assms(1) by (simp add: lf_ready_def)
  have f: "wf_multi ?f" "parts_of ?f = row ds c" "same_filter (extractionFilter cf) ?f"
    using assms(1) run_words_refines [OF wf, of "halves c"] same_filter_run [OF wf, of "halves c"]
    by (simp_all add: process_halves_run row_def lf_ready_def)
  have g: "same_filter (extractionFilter cf) ?g" using f(3) by (simp add: same_filter_def clear_completion_def)
  note bits = f(3) [THEN filter_bits_same]
  have ready: "lf_ready ds (cf\<lparr>extractionFilter := ?g\<rparr>)" using ready_run(3) [OF assms(1)] .
  have ic: "is_complete ?f \<longleftrightarrow> complete (row ds c)" using is_complete_iff [OF f(1)] f(2) by simp
  have start: "\<not> is_complete (extractionFilter cf)" using ready_not_complete [OF assms(1)] assms(2) by simp
  show ?thesis
  proof (cases "complete (row ds c)")
    case True
    then have c: "is_complete ?f" using ic by simp
    obtain a where a: "extract_result ?f CacheA = Some a" "assembled CacheA (row ds c) = Some a" "unat a < 2 ^ filter_bits (extractionFilter cf) CacheA"
      using extract_result_bounded [OF f(1) c, of CacheA] assms(3) by (auto simp: bits f(2))
    obtain v where v: "extract_result ?f CacheD = Some v" "assembled CacheD (row ds c) = Some v"
      using extract_result_bounded [OF f(1) c, of CacheD] assms(4) by (auto simp: bits f(2))
    have "extract_address_and_value_from_combined cf c = Some (cf\<lparr>extractionFilter := ?g\<rparr>, \<lparr>lf_address = a, lf_value = v, matched = True\<rparr>)"
      using start c a(1) v(1) by (simp add: extract_address_and_value_from_combined_def Let_def extract_if_def)
    then show ?thesis using True ready g a v by (intro exI [of _ ?g]) (simp add: hit_of_def)
  next
    case False
    then have "extract_address_and_value_from_combined cf c = Some (cf\<lparr>extractionFilter := ?g\<rparr>, \<lparr>lf_address = 0, lf_value = 0, matched = False\<rparr>)"
      using start ic by (simp add: extract_address_and_value_from_combined_def Let_def extract_if_def)
    then show ?thesis using False ready g by (intro exI [of _ ?g]) simp
  qed
qed

section \<open>Addresses\<close>

definition rep_address :: "bool \<Rightarrow> nat \<Rightarrow> nat \<Rightarrow> nat \<Rightarrow> nat \<Rightarrow> nat" where
  "rep_address low repBits base rep a = (if low then a * 2 ^ repBits + rep else a + rep * 2 ^ base)"

lemma unat_push_bit:
  fixes x :: "'a::len word"
  assumes "2 ^ n * unat x < 2 ^ LENGTH('a)"
  shows "unat (push_bit n x) = 2 ^ n * unat x"
proof -
  have "unat (push_bit n x) = take_bit LENGTH('a) (push_bit n (unat x))" by (rule unsigned_push_bit_eq)
  also have "push_bit n (unat x) = 2 ^ n * unat x" by (simp add: push_bit_eq_mult)
  finally show ?thesis using assms by (simp add: take_bit_nat_eq_self)
qed

lemma unat_or_push:
  fixes r x :: u64
  assumes "unat r < 2 ^ s" "2 ^ s * unat x + unat r < 2 ^ 64"
  shows "unat (r OR push_bit s x) = unat r + 2 ^ s * unat x"
proof -
  have "unat (push_bit s x) = 2 ^ s * unat x" using assms(2) by (intro unat_push_bit) simp
  then show ?thesis using assms by (simp add: or_below_push unat_word_ariths)
qed

lemma rep_address_less:
  assumes "a < 2 ^ base" "rep < 2 ^ repBits"
  shows "rep_address low repBits base rep a < 2 ^ (base + repBits)"
proof -
  have "a * 2 ^ repBits + rep < (a + 1) * 2 ^ repBits" "a + rep * 2 ^ base < (rep + 1) * 2 ^ base" using assms by simp_all
  moreover have "(a + 1) * 2 ^ repBits \<le> 2 ^ base * 2 ^ repBits" "(rep + 1) * 2 ^ base \<le> 2 ^ repBits * 2 ^ base"
    using assms by (intro mult_le_mono1; simp)+
  ultimately show ?thesis by (auto simp: rep_address_def power_add mult.commute)
qed

lemma rep_address_word:
  fixes a :: u64
  assumes "unat a < 2 ^ base" "rep < 2 ^ repBits" "base + repBits < 32"
  shows "unat (if low then push_bit repBits a OR of_nat rep else a OR ucast (push_bit base (of_nat rep) :: u32))
    = rep_address low repBits base rep (unat a)"
proof -
  have less: "rep_address l repBits base rep (unat a) < 2 ^ 32" for l
    using rep_address_less [OF assms(1,2)] assms(3)
    by (meson less_imp_le_nat less_le_trans one_less_numeral_iff power_increasing semiring_norm(76) one_le_numeral)
  have rep: "rep < 2 ^ 32" using assms(2,3) by (meson less_le_trans le_add2 less_imp_le_nat order.trans power_increasing one_le_numeral)
  have 64: "unat (of_nat rep :: u64) = rep" "unat (of_nat rep :: u32) = rep" using rep by (simp_all add: unat_of_nat)
  have "unat (push_bit repBits a OR of_nat rep) = rep_address True repBits base rep (unat a)"
    using unat_or_push [of "of_nat rep" repBits a] less [of True] assms(2) 64 by (simp add: rep_address_def or.commute mult.commute add.commute)
  moreover have "unat (a OR ucast (push_bit base (of_nat rep) :: u32)) = rep_address False repBits base rep (unat a)"
  proof -
    have p: "2 ^ base * rep < 2 ^ 32" using less [of False] by (simp add: rep_address_def mult.commute)
    have "unat (push_bit base (of_nat rep) :: u32) = 2 ^ base * rep" "unat (push_bit base (of_nat rep) :: u64) = 2 ^ base * rep"
      using unat_push_bit [of base "of_nat rep :: u32"] unat_push_bit [of base "of_nat rep :: u64"] p 64 by simp_all
    then have "ucast (push_bit base (of_nat rep) :: u32) = (push_bit base (of_nat rep) :: u64)"
      using p by (simp add: word_unat_eq_iff unsigned_ucast_eq take_bit_nat_eq_self)
    then show ?thesis using unat_or_push [of a base "of_nat rep"] less [of False] assms(1) 64
      by (simp add: rep_address_def mult.commute add.commute)
  qed
  ultimately show ?thesis by simp
qed

section \<open>All repetitions\<close>

text \<open>The hit of a repetition: the words of the repetition are combined, the address is the one the filter extracts
  with the number of the repetition above it, or below it.\<close>

definition rep_hit :: "'r ListFilterExtractor \<Rightarrow> DataFilter list \<Rightarrow> u32 list \<Rightarrow> nat \<Rightarrow> (nat \<times> nat) list" where
  "rep_hit ex ds data rep =
     (let lf = lfx_listFilter ex;
          qs = row ds (the (combine lf (drop (rep * unat (wordCount lf)) data)));
          low = lfx_options ex AND RepetitionContributesLowAddressBits \<noteq> 0
      in if complete qs
         then [(rep_address low (the (get_repetition_address_bits ex)) (filter_bits (extractionFilter lf) CacheA) rep (fst (hit_of qs)),
                snd (hit_of qs))]
         else [])"

definition wf_lfx :: "DataFilter list \<Rightarrow> 'r ListFilterExtractor \<Rightarrow> bool" where
  "wf_lfx ds ex \<longleftrightarrow> lf_ready ds (lfx_listFilter ex) \<and> ds \<noteq> [] \<and> validate (lfx_listFilter ex) \<and> lfx_repetitions ex \<noteq> 0
     \<and> filter_bits (extractionFilter (lfx_listFilter ex)) CacheA + the (get_repetition_address_bits ex) < 32
     \<and> filter_bits (extractionFilter (lfx_listFilter ex)) CacheD < 64"

text \<open>What a repetition leaves as it was.\<close>

definition same_lfx :: "'r ListFilterExtractor \<Rightarrow> 'r ListFilterExtractor \<Rightarrow> bool" where
  "same_lfx ex ex' \<longleftrightarrow> lfx_repetitions ex' = lfx_repetitions ex \<and> lfx_options ex' = lfx_options ex
     \<and> same_filter (extractionFilter (lfx_listFilter ex)) (extractionFilter (lfx_listFilter ex'))
     \<and> flags (lfx_listFilter ex') = flags (lfx_listFilter ex) \<and> wordCount (lfx_listFilter ex') = wordCount (lfx_listFilter ex)"

lemma same_lfx_trans: "same_lfx ex ex' \<Longrightarrow> same_lfx ex' ex'' \<Longrightarrow> same_lfx ex ex''"
  by (simp add: same_lfx_def same_filter_def)

lemma combine_filter [simp]: "combine (cf\<lparr>extractionFilter := f\<rparr>) data = combine cf data"
  by (simp add: combine_def)

lemma same_lfx_hit:
  assumes "same_lfx ex ex'"
  shows "rep_hit ex' ds data rep = rep_hit ex ds data rep" "get_repetition_address_bits ex' = get_repetition_address_bits ex"
    "unat (wordCount (lfx_listFilter ex')) = unat (wordCount (lfx_listFilter ex))"
proof -
  obtain f where f: "lfx_listFilter ex' = (lfx_listFilter ex)\<lparr>extractionFilter := f\<rparr>" "same_filter (extractionFilter (lfx_listFilter ex)) f"
  proof
    show "lfx_listFilter ex' = (lfx_listFilter ex)\<lparr>extractionFilter := extractionFilter (lfx_listFilter ex')\<rparr>"
      using assms by (intro ListFilter.equality) (simp_all add: same_lfx_def)
  qed (use assms in \<open>simp add: same_lfx_def\<close>)
  show r: "get_repetition_address_bits ex' = get_repetition_address_bits ex"
    using assms by (simp add: same_lfx_def get_repetition_address_bits_def)
  show "rep_hit ex' ds data rep = rep_hit ex ds data rep"
    using assms by (simp add: rep_hit_def Let_def r f(1) filter_bits_same [OF f(2)]) (simp add: same_lfx_def)
  show "unat (wordCount (lfx_listFilter ex')) = unat (wordCount (lfx_listFilter ex))" by (simp add: f(1))
qed

text \<open>One round of the loop. Behind the end of the data it goes on if there is no match.\<close>

lemma lfx_round:
  assumes "random_ok lib" "length data < 2 ^ 32" "k < 2 ^ repBits" "pos \<le> length data"
    and "pos = unat (wordCount (lfx_listFilter ex)) * k"
    and "wf_lfx ds ex" "get_repetition_address_bits ex = Some repBits"
    and "source_vectors st output hits (2 ^ (filter_bits (extractionFilter (lfx_listFilter ex)) CacheA + repBits))"
    and "length data \<le> pos + unat (wordCount (lfx_listFilter ex)) \<Longrightarrow> ks = [] \<or> rep_hit ex ds data k = []"
  shows "\<exists>ex' st'. lfx_loop lib output hits data repBits (k # ks) pos (of_nat (length data - pos)) (ex, st)
        = lfx_loop lib output hits data repBits ks (pos + unat (wordCount (lfx_listFilter ex)))
            (of_nat (length data - pos) - ucast (wordCount (lfx_listFilter ex))) (ex', st')
    \<and> same_lfx ex ex' \<and> wf_lfx ds ex' \<and> hits_stored lib (lfx_options ex) (pv_data output) hits (rep_hit ex ds data k) st st'"
proof -
  define cf where "cf = lfx_listFilter ex"
  define n where "n = unat (wordCount cf)"
  define base where "base = filter_bits (extractionFilter cf) CacheA"
  have wf: "lf_ready ds cf" "ds \<noteq> []" "validate cf" "base + repBits < 32" "filter_bits (extractionFilter cf) CacheD < 64"
    using assms(6,7) by (simp_all add: wf_lfx_def cf_def base_def)
  obtain c where c: "combine cf (drop pos data) = Some c" using combine_value [of cf "drop pos data"] by blast
  have sized: "combine_sized cf (drop pos data) (of_nat (length data - pos)) = Some c"
    using combine_sized_eq [of "drop pos data" cf] assms(2) c by simp
  have bb: "get_base_address_bits ex = base"
    using wf(1) by (simp add: get_base_address_bits_def base_def cf_def lf_ready_def get_extract_bits_eq filter_bits_def)
  obtain f where f: "lf_ready ds (cf\<lparr>extractionFilter := f\<rparr>)" "same_filter (extractionFilter cf) f"
    "if complete (row ds c)
     then \<exists>a v. extract_address_and_value_from_combined cf c = Some (cf\<lparr>extractionFilter := f\<rparr>, \<lparr>lf_address = a, lf_value = v, matched = True\<rparr>)
       \<and> hit_of (row ds c) = (unat a, unat v) \<and> unat a < 2 ^ base
     else extract_address_and_value_from_combined cf c = Some (cf\<lparr>extractionFilter := f\<rparr>, \<lparr>lf_address = 0, lf_value = 0, matched = False\<rparr>)"
    using extract_row [OF wf(1,2) _ wf(5), of c] wf(4) unfolding base_def by auto
  let ?ex1 = "\<lambda>rng. ex\<lparr>lfx_listFilter := cf\<lparr>extractionFilter := f\<rparr>, lfx_rng := rng\<rparr>"
  have same: "same_lfx ex (?ex1 rng)" for rng using f(2) by (simp add: same_lfx_def cf_def)
  have wf1: "wf_lfx ds (?ex1 rng)" for rng
    using assms(6) f(1) filter_bits_same [OF f(2)] same_lfx_hit(2) [OF same] by (simp add: wf_lfx_def cf_def)
  let ?low = "lfx_options ex AND RepetitionContributesLowAddressBits \<noteq> 0"
  have hit: "rep_hit ex ds data k = (if complete (row ds c)
     then [(rep_address ?low repBits base k (fst (hit_of (row ds c))), snd (hit_of (row ds c)))] else [])"
    using c assms(5,7) by (simp add: rep_hit_def Let_def cf_def [symmetric] n_def [symmetric] base_def [symmetric] mult.commute)
  have "\<exists>rng st1. hits_stored lib (lfx_options ex) (pv_data output) hits (rep_hit ex ds data k) st st1
    \<and> lfx_loop lib output hits data repBits (k # ks) pos (of_nat (length data - pos)) (ex, st)
      = lfx_loop lib output hits data repBits ks (pos + n) (of_nat (length data - pos) - ucast (wordCount cf)) (?ex1 rng, st1)"
    (is "\<exists>rng st1. ?stored st1 \<and> ?run rng st1")
  proof (cases "complete (row ds c)")
    case False
    then have "?stored st \<and> ?run (lfx_rng ex) st"
      using f(3) by (simp add: hit Let_def cf_def [symmetric] sized n_def [symmetric])
    then show ?thesis by blast
  next
    case True
    then obtain a v where av: "extract_address_and_value_from_combined cf c = Some (cf\<lparr>extractionFilter := f\<rparr>, \<lparr>lf_address = a, lf_value = v, matched = True\<rparr>)"
      "hit_of (row ds c) = (unat a, unat v)" "unat a < 2 ^ base" using f(3) by auto
    let ?w = "if ?low then push_bit repBits a OR of_nat k else a OR ucast (push_bit base (of_nat k) :: u32)"
    have w: "unat ?w = rep_address ?low repBits base k (unat a)" by (rule rep_address_word [OF av(3) assms(3) wf(4)])
    have less: "unat ?w < 2 ^ (base + repBits)" using rep_address_less [OF av(3) assms(3)] by (simp only: w)
    have eq: "of_int (uint v) = (of_nat (unat v) :: rat)" by (simp add: of_nat_unat)
    obtain rng st1 where s: "store_hit lib (lfx_options ex) (pv_data output) hits (unat ?w) (d_of (of_nat (unat v))) (lfx_rng ex, st) = Some (rng, st1)"
      "hits_stored lib (lfx_options ex) (pv_data output) hits [(unat ?w, unat v)] st st1"
      using store_hit_stored [of "pv_data output" st hits "unat ?w" lib "lfx_options ex" "unat v" "lfx_rng ex"] assms(8) less
      by (auto simp: source_vectors_def base_def cf_def)
    have "?stored st1" using s(2) by (simp only: hit True if_True av(2) fst_conv snd_conv w)
    moreover have "length data \<le> pos + n \<Longrightarrow> ks = []" using assms(9) True by (simp add: n_def cf_def hit)
    then have "?run rng st1"
      using av(1) s(1) wf(4) by (auto simp: Let_def cf_def [symmetric] sized n_def [symmetric] eq bb)
    ultimately show ?thesis by blast
  qed
  then show ?thesis using same wf1 unfolding n_def cf_def by blast
qed

lemma lfx_vectors:
  assumes "same_lfx ex ex'" "hits_stored lib options (pv_data output) hits avs st st'"
    and "source_vectors st output hits (2 ^ (filter_bits (extractionFilter (lfx_listFilter ex)) CacheA + repBits))"
  shows "source_vectors st' output hits (2 ^ (filter_bits (extractionFilter (lfx_listFilter ex')) CacheA + repBits))"
proof -
  have "filter_bits (extractionFilter (lfx_listFilter ex')) CacheA = filter_bits (extractionFilter (lfx_listFilter ex)) CacheA"
    using assms(1) by (intro filter_bits_same) (simp add: same_lfx_def)
  then show ?thesis using source_vectors_stored [OF assms(2,3)] by simp
qed

lemma lfx_repetitions_stored:
  assumes "random_ok lib" "length data < 2 ^ 32"
    and "unat (wordCount (lfx_listFilter ex)) * R \<le> length data" "k \<le> R" "R \<le> 2 ^ repBits"
    and "pos = unat (wordCount (lfx_listFilter ex)) * k"
    and "wf_lfx ds ex" "get_repetition_address_bits ex = Some repBits"
    and "source_vectors st output hits (2 ^ (filter_bits (extractionFilter (lfx_listFilter ex)) CacheA + repBits))"
    and "ks = [] \<or> concat (map (rep_hit ex ds data) [k..<R]) = []"
  shows "\<exists>ex' st'. lfx_loop lib output hits data repBits ([k..<R] @ ks) pos (of_nat (length data - pos)) (ex, st)
        = lfx_loop lib output hits data repBits ks (unat (wordCount (lfx_listFilter ex)) * R)
            (of_nat (length data - unat (wordCount (lfx_listFilter ex)) * R)) (ex', st')
    \<and> same_lfx ex ex' \<and> wf_lfx ds ex'
    \<and> hits_stored lib (lfx_options ex) (pv_data output) hits (concat (map (rep_hit ex ds data) [k..<R])) st st'"
  using assms(3-)
proof (induction "R - k" arbitrary: k pos ex st)
  case 0
  then show ?case by (intro exI [of _ ex] exI [of _ st]) (simp add: same_lfx_def same_filter_def)
next
  case (Suc d)
  let ?wc = "wordCount (lfx_listFilter ex)" let ?n = "unat ?wc"
  have k: "k < R" "[k..<R] = k # [Suc k..<R]" using Suc.hyps(2) by (simp_all add: upt_conv_Cons)
  have n0: "0 < ?n" using Suc.prems(5) by (simp add: wf_lfx_def validate_iff)
  have le: "pos + ?n \<le> ?n * R" using mult_le_mono2 [of "Suc k" R ?n] k(1) Suc.prems(4) by simp
  then have pos: "pos + ?n \<le> length data" using Suc.prems(1) by simp
  have last: "[Suc k..<R] @ ks = [] \<or> rep_hit ex ds data k = []" if "length data \<le> pos + ?n"
  proof -
    have "?n * R \<le> ?n * Suc k" using that Suc.prems(1,4) by simp
    then have "R \<le> Suc k" using n0 mult_le_cancel1 by blast
    then show ?thesis using Suc.prems(8) k(2) by auto
  qed
  have "pos \<le> length data" "k < 2 ^ repBits" using pos k(1) Suc.prems(3) by simp_all
  from lfx_round [OF assms(1,2) this(2,1) Suc.prems(4-7) last] obtain ex1 st1 where 1:
    "lfx_loop lib output hits data repBits (k # [Suc k..<R] @ ks) pos (of_nat (length data - pos)) (ex, st)
      = lfx_loop lib output hits data repBits ([Suc k..<R] @ ks) (pos + ?n) (of_nat (length data - pos) - ucast ?wc) (ex1, st1)"
    "same_lfx ex ex1" "wf_lfx ds ex1" "hits_stored lib (lfx_options ex) (pv_data output) hits (rep_hit ex ds data k) st st1"
    by blast
  note same = same_lfx_hit [OF 1(2)]
  have opts: "lfx_options ex1 = lfx_options ex" using 1(2) by (simp add: same_lfx_def)
  have same_hit: "rep_hit ex1 ds data = rep_hit ex ds data" by (rule ext) (rule same(1))
  have size: "of_nat (length data - pos) - ucast ?wc = (of_nat (length data - (pos + ?n)) :: u32)"
    using pos by (simp add: of_nat_diff)
  have "d = R - Suc k" using Suc.hyps(2) by simp
  from Suc.hyps(1) [OF this, of ex1 "pos + ?n" st1] obtain ex2 st2 where 2:
    "lfx_loop lib output hits data repBits ([Suc k..<R] @ ks) (pos + ?n) (of_nat (length data - (pos + ?n))) (ex1, st1)
      = lfx_loop lib output hits data repBits ks (?n * R) (of_nat (length data - ?n * R)) (ex2, st2)"
    "same_lfx ex1 ex2" "wf_lfx ds ex2"
    "hits_stored lib (lfx_options ex) (pv_data output) hits (concat (map (rep_hit ex ds data) [Suc k..<R])) st1 st2"
    using Suc.prems(1,3,4,6,8) k 1(3) lfx_vectors [OF 1(2,4) Suc.prems(7)] same(2,3) same_hit opts by auto
  show ?case
    using 1(1) 2(1,3) same_lfx_trans [OF 1(2) 2(2)] hits_stored_trans [OF assms(1) 1(4) 2(4)]
    by (intro exI [of _ ex2] exI [of _ st2]) (simp add: k(2) size)
qed

lemma repetition_bits:
  assumes "lfx_repetitions ex \<noteq> 0"
  shows "get_repetition_address_bits ex = Some (the (get_repetition_address_bits ex))"
    "unat (lfx_repetitions ex) \<le> 2 ^ the (get_repetition_address_bits ex)"
proof -
  define r where "r = uint (lfx_repetitions ex)"
  have r: "1 \<le> r" "unat (lfx_repetitions ex) = nat r"
    using assms by (simp_all add: r_def word_neq_0_conv word_less_def int_one_le_iff_zero_less)
  have "r - 1 < 2 ^ nat (bit_length (r - 1))"
    using r(1) bit_length_bounds [of "r - 1"] by (cases "r = 1") (simp_all add: bit_length.simps [of 0])
  then have "nat r \<le> nat (2 ^ nat (bit_length (r - 1)))" by (intro nat_mono) linarith
  then show "get_repetition_address_bits ex = Some (the (get_repetition_address_bits ex))"
    "unat (lfx_repetitions ex) \<le> 2 ^ the (get_repetition_address_bits ex)"
    using assms r(2) by (simp_all add: get_repetition_address_bits_def r_def [symmetric] nat_power_eq)
qed

lemma listfilter_process:
  assumes "lfx_repetitions ex \<noteq> 0"
  shows "listfilter_extractor_process_module_data lib ds ex data st =
    map_option (\<lambda>(pos, ex, st). (pos, ds\<lparr>ds_d := ListFilterData ex\<rparr>, st))
      (lfx_loop lib (ds_output ds) (ds_hitCounts ds) data (the (get_repetition_address_bits ex)) [0..<unat (lfx_repetitions ex)] 0
         (of_nat (length data)) (ex, st))"
  using repetition_bits [OF assms] by (cases "get_repetition_address_bits ex") (simp_all add: listfilter_extractor_process_module_data_def)

section \<open>A list filter extractor to evaluate\<close>

definition demo_lfx :: "u8 \<Rightarrow> unit ListFilterExtractor" where
  "demo_lfx n = \<lparr>lfx_listFilter = demo_lf, lfx_rng = (), lfx_repetitions = n, lfx_options = NoAddedRandom\<rparr>"

definition demo_lfx_source :: "unit DataSource" where
  "demo_lfx_source = \<lparr>ds_output = \<lparr>pv_data = 0, pv_lowerLimits = 1, pv_upperLimits = 2\<rparr>, ds_hitCounts = 3,
     ds_d = ListFilterData (demo_lfx 2), ds_moduleIndex = 0\<rparr>"

definition demo_lfx_store :: "nat \<Rightarrow> Store" where
  "demo_lfx_store n = [replicate n d1, replicate n d0, replicate n (d_of 64), replicate n d0]"

lemma demo_lf_simps: "flags demo_lf = WordSize32" "wordCount demo_lf = 2"
  using demo_lf_built by (auto simp: make_listfilter_def split: sum.splits) (metis ListFilter.select_convs(2,3))+

lemma demo_lf_bits: "filter_bits (extractionFilter demo_lf) CacheA = 4" "filter_bits (extractionFilter demo_lf) CacheD = 6"
proof -
  have wf: "wf_multi (extractionFilter demo_lf)" "parts_of (extractionFilter demo_lf) = map (\<lambda>d. (d, None)) demo_lf_subs"
    using demo_lf_ready by (simp_all add: lf_ready_def)
  have "filter_bits (extractionFilter demo_lf) t = sum_list (map extractBits (map (\<lambda>s. make_cache_entry s (cache_char t)) demo_lf_subs))" for t
    unfolding filter_bits_parts [OF wf(1)] wf(2) by (simp add: comp_def)
  note this [unfolded cache_char_def]
  from this [of CacheA] this [of CacheD] show "filter_bits (extractionFilter demo_lf) CacheA = 4" "filter_bits (extractionFilter demo_lf) CacheD = 6"
    by (simp_all only: CacheType.case demo_lf_caches list.map CacheEntry.simps) simp_all
qed

lemma demo_lf_validate: "validate demo_lf" by (simp add: validate_def demo_lf_simps WordSize32_def)

lemma demo_lfx_bits: "get_repetition_address_bits (demo_lfx 2) = Some 1" "get_repetition_address_bits (demo_lfx 3) = Some 2"
  by (simp_all add: get_repetition_address_bits_def demo_lfx_def bit_length.simps [of 0] bit_length.simps [of 1] bit_length.simps [of 2])

lemma demo_lf_nonempty: "demo_lf_subs \<noteq> []" by (simp add: demo_lf_subs_def)

lemma demo_lfx_wf: "wf_lfx demo_lf_subs (demo_lfx 2)" "wf_lfx demo_lf_subs (demo_lfx 3)"
  by (simp_all add: wf_lfx_def demo_lfx_bits) (simp_all add: demo_lfx_def demo_lf_bits demo_lf_ready demo_lf_validate demo_lf_nonempty)

lemma demo_lf_rows:
  "hit_of (row demo_lf_subs 0x26000001A5) = (0xA, 0x35)" "complete (row demo_lf_subs 0x26000001A5)" "\<not> complete (row demo_lf_subs 0)"
proof -
  have "row demo_lf_subs 0x26000001A5 = [(demo_lf_subs ! 0, Some 0x1A5), (demo_lf_subs ! 1, Some 0x26)]"
    using demo_lf_parts by (simp add: row_def)
  then show "hit_of (row demo_lf_subs 0x26000001A5) = (0xA, 0x35)" "complete (row demo_lf_subs 0x26000001A5)"
    using demo_lf_values by (simp_all add: hit_of_def complete_def)
  show "\<not> complete (row demo_lf_subs 0)" by (simp add: row_def halves_def demo_lf_subs_def matches_def complete_def)
qed

lemma demo_lf_combine:
  "combine demo_lf [0x1A5, 0x26] = Some 0x26000001A5" "combine demo_lf [0, 0] = Some 0" "combine demo_lf [] = Some 0"
  "combine demo_lf [0x1A5, 0x26, x, y] = Some 0x26000001A5"
  by (simp_all add: combine_def demo_lf_validate demo_lf_simps WordSize32_def ReverseCombine_def upt_conv_Cons Let_def)

lemma demo_lfx_vectors: "n = 32 \<or> n = 64 \<Longrightarrow> source_vectors (demo_lfx_store n) (ds_output demo_lfx_source) (ds_hitCounts demo_lfx_source) n"
  by (auto simp: source_vectors_def demo_lfx_source_def demo_lfx_store_def)

section \<open>Properties\<close>

text \<open>C18: with enough data a list filter extractor reads the words of all its repetitions and stores, for every address,
  the value of the first repetition that matches with this address, with a random number below one added unless this is
  switched off, and counts it; other addresses stay invalid and uncounted. The address is the one the filter extracts,
  with the number of the repetition in the bits above it, or below it if the option says so.\<close>

theorem listfilter_repetitions:
  assumes "random_ok lib" "wf_lfx ds ex" "length data < 2 ^ 32"
    and "unat (wordCount (lfx_listFilter ex)) * unat (lfx_repetitions ex) \<le> length data"
    and "source_vectors st (ds_output src) (ds_hitCounts src)
           (2 ^ (filter_bits (extractionFilter (lfx_listFilter ex)) CacheA + the (get_repetition_address_bits ex)))"
  shows "\<exists>st1 src2 st2. listfilter_extractor_begin_event src st = Some (src, st1)
    \<and> listfilter_extractor_process_module_data lib src ex data st1
      = Some (unat (wordCount (lfx_listFilter ex)) * unat (lfx_repetitions ex), src2, st2)
    \<and> (let hits = concat (map (rep_hit ex ds data) [0..<unat (lfx_repetitions ex)]) in
       \<forall>a < length (st ! pv_data (ds_output src)).
         case map_of hits a of
           None \<Rightarrow> st2 ! pv_data (ds_output src) ! a = invalid_param \<and> st2 ! ds_hitCounts src ! a = st ! ds_hitCounts src ! a
         | Some v \<Rightarrow> stored lib (lfx_options ex) v (st2 ! pv_data (ds_output src) ! a)
             \<and> st2 ! ds_hitCounts src ! a = d_incr (st ! ds_hitCounts src ! a))"
proof -
  let ?out = "pv_data (ds_output src)" let ?n = "unat (wordCount (lfx_listFilter ex)) * unat (lfx_repetitions ex)"
  let ?hits = "concat (map (rep_hit ex ds data) [0..<unat (lfx_repetitions ex)])"
  let ?st1 = "st[?out := replicate (length (st ! ?out)) invalid_param]"
  have reps: "lfx_repetitions ex \<noteq> 0" using assms(2) by (simp add: wf_lfx_def)
  note bits = repetition_bits [OF reps]
  have vectors: "?out < length st" "?out \<noteq> ds_hitCounts src" "source_vectors ?st1 (ds_output src) (ds_hitCounts src)
       (2 ^ (filter_bits (extractionFilter (lfx_listFilter ex)) CacheA + the (get_repetition_address_bits ex)))"
    using assms(5) by (auto simp: source_vectors_def)
  obtain ex2 st2 where run: "lfx_loop lib (ds_output src) (ds_hitCounts src) data (the (get_repetition_address_bits ex))
      [0..<unat (lfx_repetitions ex)] 0 (of_nat (length data)) (ex, ?st1) = Some (?n, ex2, st2)"
    "hits_stored lib (lfx_options ex) ?out (ds_hitCounts src) ?hits ?st1 st2"
    using lfx_repetitions_stored [where ks = "[]" and k = 0 and pos = 0, OF assms(1,3,4) le0 bits(2) _ assms(2) bits(1) vectors(3)] by auto
  have "listfilter_extractor_process_module_data lib src ex data ?st1 = Some (?n, src\<lparr>ds_d := ListFilterData ex2\<rparr>, st2)"
    by (simp add: listfilter_process [OF reps] run(1))
  moreover have "listfilter_extractor_begin_event src st = Some (src, ?st1)"
    using vectors(1) by (simp add: listfilter_extractor_begin_event_def)
  moreover have "case map_of ?hits a of
           None \<Rightarrow> st2 ! ?out ! a = invalid_param \<and> st2 ! ds_hitCounts src ! a = st ! ds_hitCounts src ! a
         | Some v \<Rightarrow> stored lib (lfx_options ex) v (st2 ! ?out ! a) \<and> st2 ! ds_hitCounts src ! a = d_incr (st ! ds_hitCounts src ! a)"
    if "a < length (st ! ?out)" for a
  proof -
    have "a < length (?st1 ! ?out)" "?st1 ! ?out ! a = invalid_param" "?st1 ! ds_hitCounts src = st ! ds_hitCounts src"
      using that vectors(1,2) by simp_all
    then show ?thesis using hits_stored_fresh [OF run(2), of a] by (simp only:)
  qed
  ultimately show ?thesis unfolding Let_def by blast
qed

theorem listfilter_repetitions_witness:
  "\<exists>st1 src2 st2. listfilter_extractor_begin_event demo_lfx_source (demo_lfx_store 32) = Some (demo_lfx_source, st1)
    \<and> listfilter_extractor_process_module_data demo_lib demo_lfx_source (demo_lfx 2) [0x1A5, 0x26, 0x1A5, 0x26] st1 = Some (4, src2, st2)
    \<and> st2 ! 0 ! 0xA = d_of 0x35 \<and> st2 ! 0 ! 0x1A = d_of 0x35 \<and> st2 ! 0 ! 0xB = invalid_param \<and> st2 ! 3 ! 0x1A = d1"
proof -
  have hits: "rep_hit (demo_lfx 2) demo_lf_subs [0x1A5, 0x26, 0x1A5, 0x26] i = [(0xA + 16 * i, 0x35)]" if "i = 0 \<or> i = 1" for i
    using that demo_lf_rows
    by (auto simp: rep_hit_def demo_lfx_bits) (simp_all add: demo_lfx_def demo_lf_simps demo_lf_combine rep_address_def demo_lf_bits Let_def
        NoAddedRandom_def RepetitionContributesLowAddressBits_def)
  have n: "unat (wordCount (lfx_listFilter (demo_lfx 2))) = 2" "unat (lfx_repetitions (demo_lfx 2)) = 2"
    "lfx_options (demo_lfx 2) = NoAddedRandom" by (simp_all add: demo_lfx_def demo_lf_simps)
  have all: "concat (map (rep_hit (demo_lfx 2) demo_lf_subs [0x1A5, 0x26, 0x1A5, 0x26]) [0..<unat (lfx_repetitions (demo_lfx 2))]) = [(0xA, 0x35), (0x1A, 0x35)]"
    unfolding n by (simp add: hits upt_conv_Cons)
  have src: "pv_data (ds_output demo_lfx_source) = 0" "ds_hitCounts demo_lfx_source = 3" by (simp_all add: demo_lfx_source_def)
  have vectors: "source_vectors (demo_lfx_store 32) (ds_output demo_lfx_source) (ds_hitCounts demo_lfx_source)
      (2 ^ (filter_bits (extractionFilter (lfx_listFilter (demo_lfx 2))) CacheA + the (get_repetition_address_bits (demo_lfx 2))))"
    using demo_lfx_vectors [of 32] demo_lf_bits by (simp add: demo_lfx_bits) (simp add: demo_lfx_def)
  obtain st1 src2 st2 where run: "listfilter_extractor_begin_event demo_lfx_source (demo_lfx_store 32) = Some (demo_lfx_source, st1)"
    "listfilter_extractor_process_module_data demo_lib demo_lfx_source (demo_lfx 2) [0x1A5, 0x26, 0x1A5, 0x26] st1 = Some (2 * 2, src2, st2)"
    and stored: "\<forall>a < length (demo_lfx_store 32 ! 0). case map_of [(0xA, 0x35), (0x1A, 0x35)] a of
           None \<Rightarrow> st2 ! 0 ! a = invalid_param \<and> st2 ! 3 ! a = demo_lfx_store 32 ! 3 ! a
         | Some v \<Rightarrow> stored demo_lib NoAddedRandom v (st2 ! 0 ! a) \<and> st2 ! 3 ! a = d_incr (demo_lfx_store 32 ! 3 ! a)"
    using listfilter_repetitions [where data = "[0x1A5, 0x26, 0x1A5, 0x26]", OF demo_lib_ok demo_lfx_wf(1) _ _ vectors]
    unfolding Let_def all unfolding n src by auto
  have len: "length (demo_lfx_store 32 ! 0) = 32" "demo_lfx_store 32 ! 3 ! 0x1A = d0" by (simp_all add: demo_lfx_store_def)
  show ?thesis using run stored [THEN spec, of "0xA"] stored [THEN spec, of "0x1A"] stored [THEN spec, of "0xB"]
    by (intro exI [of _ st1] exI [of _ src2] exI [of _ st2]) (simp add: len stored_def NoAddedRandom_def d_incr_0)
qed

text \<open>C35: the loop over the repetitions checks for the end of the data only behind a match. If none of the repetitions
  that fit in the data matches, and the word 0, which is combined from no data, does not match either, then the number of
  words that is left wraps around, and the second repetition behind the end of the data reads beyond it.\<close>

theorem listfilter_overrun:
  assumes "random_ok lib" "wf_lfx ds ex" "length data < 2 ^ 32"
    and "length data = unat (wordCount (lfx_listFilter ex)) * k" "k + 2 \<le> unat (lfx_repetitions ex)"
    and "\<forall>i \<le> k. rep_hit ex ds data i = []"
    and "source_vectors st (ds_output src) (ds_hitCounts src)
           (2 ^ (filter_bits (extractionFilter (lfx_listFilter ex)) CacheA + the (get_repetition_address_bits ex)))"
  shows "listfilter_extractor_process_module_data lib src ex data st = None"
proof -
  let ?wc = "wordCount (lfx_listFilter ex)" let ?R = "unat (lfx_repetitions ex)"
  let ?loop = "lfx_loop lib (ds_output src) (ds_hitCounts src) data (the (get_repetition_address_bits ex))"
  have reps: "lfx_repetitions ex \<noteq> 0" "validate (lfx_listFilter ex)" using assms(2) by (simp_all add: wf_lfx_def)
  note bits = repetition_bits [OF reps(1)]
  have k: "[0..<?R] = [0..<k] @ k # (k + 1) # [k + 2..<?R]" "k \<le> 2 ^ the (get_repetition_address_bits ex)"
    "k < 2 ^ the (get_repetition_address_bits ex)"
    using assms(5) bits(2) upt_add_eq_append [of 0 k "?R - k"] by (simp_all add: upt_conv_Cons)
  have none: "concat (map (rep_hit ex ds data) [0..<k]) = []" using assms(6) by simp
  obtain ex1 st1 where 1: "?loop [0..<?R] 0 (of_nat (length data)) (ex, st) = ?loop (k # (k + 1) # [k + 2..<?R]) (length data) 0 (ex1, st1)"
    "same_lfx ex ex1" "wf_lfx ds ex1"
    "hits_stored lib (lfx_options ex) (pv_data (ds_output src)) (ds_hitCounts src) [] st st1"
    using lfx_repetitions_stored [where ks = "k # (k + 1) # [k + 2..<?R]" and k = 0 and pos = 0 and R = k,
        OF assms(1,3) _ le0 k(2) _ assms(2) bits(1) assms(7)] none
    by (auto simp: k(1) assms(4) simp del: lfx_loop.simps)
  note same = same_lfx_hit [OF 1(2)]
  from lfx_round [where k = k and pos = "length data" and ks = "(k + 1) # [k + 2..<?R]", OF assms(1,3) k(3) order.refl _ 1(3) _ lfx_vectors [OF 1(2,4) assms(7)]]
  obtain ex2 st2 where 2: "?loop (k # (k + 1) # [k + 2..<?R]) (length data) 0 (ex1, st1)
      = ?loop ((k + 1) # [k + 2..<?R]) (length data + unat ?wc) (- ucast ?wc) (ex2, st2)" "same_lfx ex1 ex2" "wf_lfx ds ex2"
    using same bits(1) assms(4,6) 1(2) by (auto simp: same_lfx_def simp del: lfx_loop.simps)
  have wc: "wordCount (lfx_listFilter ex2) = ?wc" "validate (lfx_listFilter ex2)"
    using 1(2) 2(2,3) by (simp_all add: same_lfx_def wf_lfx_def)
  have "unat ?wc \<in> {1, 2, 3, 4}" using reps(2) by (auto simp: validate_iff word_bits_def split: if_splits)
  then have "?wc \<in> {1, 2, 3, 4}" by (auto simp: word_unat_eq_iff)
  then have "\<not> - ucast ?wc < (ucast ?wc :: u32)" "0 < unat ?wc" by auto
  then have "combine_sized (lfx_listFilter ex2) [] (- ucast ?wc) = None"
    using wc by (simp add: combine_sized_def upt_conv_Cons Let_def)
  then have "?loop ((k + 1) # [k + 2..<?R]) (length data + unat ?wc) (- ucast ?wc) (ex2, st2) = None" by (simp add: Let_def)
  then have "?loop [0..<?R] 0 (of_nat (length data)) (ex, st) = None" by (simp only: 1(1) 2(1))
  then show ?thesis by (simp add: listfilter_process [OF reps(1)] del: lfx_loop.simps)
qed

theorem listfilter_overrun_witness:
  "listfilter_extractor_process_module_data demo_lib demo_lfx_source (demo_lfx 3) [0, 0] (demo_lfx_store 64) = None"
proof -
  have hits: "\<forall>i \<le> 1. rep_hit (demo_lfx 3) demo_lf_subs [0, 0] i = []"
    using demo_lf_rows by (auto simp: rep_hit_def demo_lfx_def demo_lf_simps demo_lf_combine Let_def le_Suc_eq)
  have vectors: "source_vectors (demo_lfx_store 64) (ds_output demo_lfx_source) (ds_hitCounts demo_lfx_source)
      (2 ^ (filter_bits (extractionFilter (lfx_listFilter (demo_lfx 3))) CacheA + the (get_repetition_address_bits (demo_lfx 3))))"
    using demo_lfx_vectors [of 64] demo_lf_bits by (simp add: demo_lfx_bits) (simp add: demo_lfx_def)
  have n: "unat (wordCount (lfx_listFilter (demo_lfx 3))) = 2" "unat (lfx_repetitions (demo_lfx 3)) = 3"
    by (simp_all add: demo_lfx_def demo_lf_simps)
  show ?thesis
    by (rule listfilter_overrun [OF demo_lib_ok demo_lfx_wf(2) _ _ _ hits vectors]) (simp_all add: n)
qed

end
