(* ===== verification/A2_Operators.thy ===== *)
theory A2_Operators
  imports A2_Types "HOL-Library.Monad_Syntax"
begin

text \<open>
  The operators of the analysis engine, \<^verbatim>\<open>src/src/analysis/a2/a2.cc\<close>, \<^verbatim>\<open>a2.h\<close> and \<^verbatim>\<open>a2_impl.h\<close>: their data and
  the step functions of calibration, keep-previous, difference, array map, the binary equations and the filters.
  Aggregates, sinks and conditions are in the theories that import this one. \<^const>\<open>None\<close> is a failed assertion.
\<close>

section \<open>Data\<close>

text \<open>Histograms. The storage of the bins, underflow and overflow is shared, so they are places in the store.\<close>

record Binning =
  b_min :: double
  b_range :: double

record H1D =
  h1_data :: ParamVec
  h1_binning :: Binning
  h1_binningFactor :: double
  h1_entryCount :: double
  h1_underflow :: "(ParamVec \<times> nat) option"
  h1_overflow :: "(ParamVec \<times> nat) option"

record H2D =
  h2_data :: ParamVec
  h2_binCounts :: "int \<times> int"
  h2_binnings :: "Binning \<times> Binning"
  h2_binningFactors :: "double \<times> double"
  h2_entryCount :: double
  h2_underflow :: double
  h2_overflow :: double

text \<open>The streams of an export sink are values of the type \<open>'s\<close>; \<^const>\<open>None\<close> is a null pointer.\<close>

record 's ExportSinkData =
  es_filename :: string
  es_compressionLevel :: int
  es_ostream :: "'s option"
  es_z_ostream :: "'s option"
  es_condIndex :: int
  es_eventsWritten :: nat
  es_bytesWritten :: nat
  es_lastError :: string

datatype RectFilterOperation = RectAnd | RectOr

type_synonym Interval = Thresholds

datatype AggregateType =
    Aggregate_Sum | Aggregate_Multiplicity | Aggregate_Min | Aggregate_Max | Aggregate_Mean
  | Aggregate_Sigma | Aggregate_MinX | Aggregate_MaxX | Aggregate_MeanX | Aggregate_SigmaX

text \<open>Only flow rate monitors have hit counts.\<close>

datatype RateMonitorType = PrecalculatedRate | CounterDifference | FlowRate ParamVec

datatype ExportSinkFormat = ExportSinkFull | ExportSinkSparse

datatype ConditionData =
    ConditionInterval "Interval list"
  | ConditionRectangle Interval Interval int int
  | ConditionPolygon "(double \<times> double) list" int int

text \<open>The type of an operator is the constructor of its private data. Compiled expressions are of the type \<open>'x\<close>; rate
  samplers are numbers of samplers, as they are shared. A condition has the index of its first bit.\<close>

datatype ('x, 's) OperatorData =
    Invalid_OperatorType
  | Calibration ParamVec
  | Calibration_sse ParamVec
  | Calibration_idx int double
  | KeepPrevious ParamVec bool
  | KeepPrevious_idx ParamVec bool int
  | Difference
  | Difference_idx int int
  | ArrayMap "(nat \<times> int) list"
  | BinaryEquation nat
  | BinaryEquation_idx nat int int
  | H1DSink "H1D list"
  | H1DSink_idx "H1D list" int
  | H2DSink H2D int int
  | RateMonitor RateMonitorType "nat list" "int list"
  | ExportSink ExportSinkFormat "'s ExportSinkData"
  | RangeFilter Thresholds bool
  | RangeFilter_idx Thresholds bool int
  | RectFilter Thresholds Thresholds int int RectFilterOperation
  | ConditionFilter int int bool
  | Aggregate AggregateType Thresholds
  | Expression 'x
  | Condition int ConditionData

text \<open>The arrays of vectors; an element is \<^const>\<open>None\<close> until it is assigned. The counts are the lengths.\<close>

record ('x, 's) Operator =
  inputs :: "ParamVec option list"
  inputLowerLimits :: "ParamVec option list"
  inputUpperLimits :: "ParamVec option list"
  outputs :: "ParamVec option list"
  outputLowerLimits :: "ParamVec option list"
  outputUpperLimits :: "ParamVec option list"
  op_d :: "('x, 's) OperatorData"
  conditionIndex :: int

definition check :: "bool \<Rightarrow> unit option" where "check b = (if b then Some () else None)"

definition slot :: "'a option list \<Rightarrow> nat \<Rightarrow> 'a option" where "slot xs k = Option.bind (at_opt xs k) id"

definition in_vec :: "('x, 's) Operator \<Rightarrow> nat \<Rightarrow> ParamVec option" where "in_vec op = slot (inputs op)"
definition out_vec :: "('x, 's) Operator \<Rightarrow> nat \<Rightarrow> ParamVec option" where "out_vec op = slot (outputs op)"

definition counts :: "('x, 's) Operator \<Rightarrow> nat \<Rightarrow> nat \<Rightarrow> bool" where
  "counts op n m \<longleftrightarrow> length (inputs op) = n \<and> length (outputs op) = m"

text \<open>Elements at a signed index.\<close>

definition get_s :: "Store \<Rightarrow> ParamVec \<Rightarrow> int \<Rightarrow> double option" where
  "get_s st v i = (if i < 0 then None else vec_get st v (nat i))"

definition sizes_agree :: "Store \<Rightarrow> PipeVectors \<Rightarrow> bool" where
  "sizes_agree st p \<longleftrightarrow> vec_size st (pv_data p) = vec_size st (pv_lowerLimits p) \<and> vec_size st (pv_data p) = vec_size st (pv_upperLimits p)"

section \<open>Construction\<close>

text \<open>The counts are converted to \<^verbatim>\<open>u8\<close>.\<close>

definition make_operator :: "('x, 's) OperatorData \<Rightarrow> nat \<Rightarrow> nat \<Rightarrow> ('x, 's) Operator" where
  "make_operator d inputCount outputCount =
     (let ins = replicate (inputCount mod 256) None; outs = replicate (outputCount mod 256) None
      in \<lparr>inputs = ins, inputLowerLimits = ins, inputUpperLimits = ins,
          outputs = outs, outputLowerLimits = outs, outputUpperLimits = outs, op_d = d, conditionIndex = - 1\<rparr>)"

definition assign_input :: "('x, 's) Operator \<Rightarrow> PipeVectors \<Rightarrow> nat \<Rightarrow> ('x, 's) Operator option" where
  "assign_input op p k =
     (if k < length (inputs op)
      then Some (op\<lparr>inputs := (inputs op)[k := Some (pv_data p)],
                    inputLowerLimits := (inputLowerLimits op)[k := Some (pv_lowerLimits p)],
                    inputUpperLimits := (inputUpperLimits op)[k := Some (pv_upperLimits p)]\<rparr>)
      else None)"

fun assign_inputs :: "('x, 's) Operator \<Rightarrow> PipeVectors list \<Rightarrow> nat \<Rightarrow> ('x, 's) Operator option" where
  "assign_inputs op [] k = Some op"
| "assign_inputs op (p # ps) k = Option.bind (assign_input op p k) (\<lambda>op. assign_inputs op ps (k + 1))"

definition push_output_vectors ::
    "('x, 's) Operator \<Rightarrow> nat \<Rightarrow> nat \<Rightarrow> double \<Rightarrow> double \<Rightarrow> Store \<Rightarrow> ('x, 's) Operator \<times> Store" where
  "push_output_vectors op k n lower upper st =
     (let (v, st) = push_param_vector n invalid_param st;
          (l, st) = push_param_vector n lower st;
          (u, st) = push_param_vector n upper st
      in (op\<lparr>outputs := (outputs op)[k := Some v], outputLowerLimits := (outputLowerLimits op)[k := Some l],
             outputUpperLimits := (outputUpperLimits op)[k := Some u]\<rparr>, st))"

fun invalidate_vectors :: "ParamVec option list \<Rightarrow> Store \<Rightarrow> Store option" where
  "invalidate_vectors [] st = Some st"
| "invalidate_vectors (v # vs) st = (case v of None \<Rightarrow> None | Some v \<Rightarrow> Option.bind (invalidate_all v st) (invalidate_vectors vs))"

definition invalidate_outputs :: "('x, 's) Operator \<Rightarrow> Store \<Rightarrow> Store option" where
  "invalidate_outputs op st = invalidate_vectors (outputs op) st"

section \<open>Calibration\<close>

definition calibrate :: "double \<Rightarrow> double \<Rightarrow> double \<Rightarrow> double \<Rightarrow> double" where
  "calibrate param paramMin calibMin calibFactor =
     (if is_param_valid param then d_add (d_mul (d_sub param paramMin) calibFactor) calibMin else param)"

text \<open>The assertion at the end of a round, that the output of an invalid parameter is invalid, is the lemma
  \<open>calibrate_invalid\<close>.\<close>

definition calibration_step :: "('x, 's) Operator \<Rightarrow> Store \<Rightarrow> Store option" where
  "calibration_step op st =
     (case op_d op of
        Calibration factors \<Rightarrow> do {
          check (counts op 1 1);
          i \<leftarrow> in_vec op 0; out \<leftarrow> out_vec op 0;
          il \<leftarrow> slot (inputLowerLimits op) 0; ol \<leftarrow> slot (outputLowerLimits op) 0;
          check (vec_size st i = vec_size st out);
          write_loop (\<lambda>idx st. do {
              p \<leftarrow> vec_get st i idx; pmin \<leftarrow> vec_get st il idx; cmin \<leftarrow> vec_get st ol idx; f \<leftarrow> vec_get st factors idx;
              Some (calibrate p pmin cmin f) })
            out [0..<vec_size st i] st }
      | _ \<Rightarrow> None)"

fun get_all :: "Store \<Rightarrow> ParamVec \<Rightarrow> nat list \<Rightarrow> double list option" where
  "get_all st v [] = Some []"
| "get_all st v (i # is) = do { x \<leftarrow> vec_get st v i; xs \<leftarrow> get_all st v is; Some (x # xs) }"

fun set_all :: "ParamVec \<Rightarrow> (nat \<times> double) list \<Rightarrow> Store \<Rightarrow> Store option" where
  "set_all v [] st = Some st"
| "set_all v ((i, x) # ixs) st = Option.bind (vec_set v i x st) (set_all v ixs)"

text \<open>Four parameters at a time: all is read, then calculated for all, then written.\<close>

fun sse_loop :: "ParamVec \<Rightarrow> ParamVec \<Rightarrow> ParamVec \<Rightarrow> ParamVec \<Rightarrow> ParamVec \<Rightarrow> nat list \<Rightarrow> Store \<Rightarrow> Store option" where
  "sse_loop i il factors ol out [] st = Some st"
| "sse_loop i il factors ol out (idx # idxs) st = do {
     p \<leftarrow> get_all st i [idx..<idx + 4];
     mins \<leftarrow> get_all st il [idx..<idx + 4];
     let diff = map2 d_sub p mins;
     f \<leftarrow> get_all st factors [idx..<idx + 4];
     let mul = map2 d_mul diff f;
     cmins \<leftarrow> get_all st ol [idx..<idx + 4];
     let r = map2 d_add mul cmins;
     st \<leftarrow> set_all out (zip [idx..<idx + 4] (map2 (\<lambda>p r. if is_param_valid p then r else p) p r)) st;
     sse_loop i il factors ol out idxs st }"

definition calibration_sse_step :: "('x, 's) Operator \<Rightarrow> Store \<Rightarrow> Store option" where
  "calibration_sse_step op st =
     (case op_d op of
        Calibration_sse factors \<Rightarrow> do {
          check (counts op 1 1);
          i \<leftarrow> in_vec op 0; out \<leftarrow> out_vec op 0;
          il \<leftarrow> slot (inputLowerLimits op) 0; ol \<leftarrow> slot (outputLowerLimits op) 0;
          check (vec_size st i = vec_size st out);
          check (vec_size st i mod 4 = 0);
          sse_loop i il factors ol out (map ((*) 4) [0..<vec_size st i div 4]) st }
      | _ \<Rightarrow> None)"

text \<open>The factors; the vector is filled before it is read.\<close>

definition calib_factor :: "double \<Rightarrow> double \<Rightarrow> double \<Rightarrow> double \<Rightarrow> double" where
  "calib_factor unitMin unitMax lower upper = d_div (d_sub unitMax unitMin) (d_sub upper lower)"

definition make_calibration :: "PipeVectors \<Rightarrow> double \<Rightarrow> double \<Rightarrow> Store \<Rightarrow> (('x, 's) Operator \<times> Store) option" where
  "make_calibration input unitMin unitMax st = do {
     check (sizes_agree st input);
     let n = pipe_size st input;
     op \<leftarrow> assign_input (make_operator Invalid_OperatorType 1 1) input 0;
     let (op, st) = push_output_vectors op 0 n unitMin unitMax st;
     let (f, st) = push_param_vector n d0 st;
     st \<leftarrow> write_loop (\<lambda>i st. do {
         u \<leftarrow> vec_get st (pv_upperLimits input) i; l \<leftarrow> vec_get st (pv_lowerLimits input) i;
         Some (calib_factor unitMin unitMax l u) }) f [0..<n] st;
     Some (op\<lparr>op_d := Calibration f\<rparr>, st) }"

text \<open>With a minimum and a maximum of its own for every parameter.\<close>

fun calib_limits_loop ::
    "PipeVectors \<Rightarrow> ParamVec \<Rightarrow> ParamVec \<Rightarrow> ParamVec \<Rightarrow> ParamVec \<Rightarrow> ParamVec \<Rightarrow> nat list \<Rightarrow> Store \<Rightarrow> Store option" where
  "calib_limits_loop input cmins cmaxs f ol ou [] st = Some st"
| "calib_limits_loop input cmins cmaxs f ol ou (i # is) st = do {
     cmax \<leftarrow> vec_get st cmaxs i; cmin \<leftarrow> vec_get st cmins i;
     u \<leftarrow> vec_get st (pv_upperLimits input) i; l \<leftarrow> vec_get st (pv_lowerLimits input) i;
     st \<leftarrow> vec_set f i (calib_factor cmin cmax l u) st;
     st \<leftarrow> vec_set ol i cmin st;
     st \<leftarrow> vec_set ou i cmax st;
     calib_limits_loop input cmins cmaxs f ol ou is st }"

definition make_calibration_arrays ::
    "PipeVectors \<Rightarrow> ParamVec \<Rightarrow> ParamVec \<Rightarrow> Store \<Rightarrow> (('x, 's) Operator \<times> Store) option" where
  "make_calibration_arrays input cmins cmaxs st = do {
     check (sizes_agree st input);
     let n = pipe_size st input;
     check (vec_size st cmins = n \<and> vec_size st cmaxs = n);
     op \<leftarrow> assign_input (make_operator Invalid_OperatorType 1 1) input 0;
     let (op, st) = push_output_vectors op 0 n d0 d0 st;
     let (f, st) = push_param_vector n d0 st;
     ol \<leftarrow> slot (outputLowerLimits op) 0; ou \<leftarrow> slot (outputUpperLimits op) 0;
     st \<leftarrow> calib_limits_loop input cmins cmaxs f ol ou [0..<n] st;
     Some (op\<lparr>op_d := Calibration f\<rparr>, st) }"

definition make_calibration_idx ::
    "PipeVectors \<Rightarrow> int \<Rightarrow> double \<Rightarrow> double \<Rightarrow> Store \<Rightarrow> (('x, 's) Operator \<times> Store) option" where
  "make_calibration_idx input inputIndex unitMin unitMax st = do {
     check (inputIndex < int (pipe_size st input));
     op \<leftarrow> assign_input (make_operator Invalid_OperatorType 1 1) input 0;
     let (op, st) = push_output_vectors op 0 1 unitMin unitMax st;
     u \<leftarrow> get_s st (pv_upperLimits input) inputIndex; l \<leftarrow> get_s st (pv_lowerLimits input) inputIndex;
     Some (op\<lparr>op_d := Calibration_idx inputIndex (calib_factor unitMin unitMax l u)\<rparr>, st) }"

definition calibration_step_idx :: "('x, 's) Operator \<Rightarrow> Store \<Rightarrow> Store option" where
  "calibration_step_idx op st =
     (case op_d op of
        Calibration_idx inputIndex f \<Rightarrow> do {
          check (counts op 1 1);
          i \<leftarrow> in_vec op 0; out \<leftarrow> out_vec op 0;
          il \<leftarrow> slot (inputLowerLimits op) 0; ol \<leftarrow> slot (outputLowerLimits op) 0;
          check (vec_size st out = 1);
          check (inputIndex < int (vec_size st i));
          p \<leftarrow> get_s st i inputIndex; pmin \<leftarrow> get_s st il inputIndex; cmin \<leftarrow> vec_get st ol 0;
          vec_set out 0 (calibrate p pmin cmin f) st }
      | _ \<Rightarrow> None)"

section \<open>Keeping the previous value\<close>

text \<open>A loop whose rounds may leave everything as it is.\<close>

fun for_each :: "('a \<Rightarrow> Store \<Rightarrow> Store option) \<Rightarrow> 'a list \<Rightarrow> Store \<Rightarrow> Store option" where
  "for_each f [] st = Some st"
| "for_each f (x # xs) st = Option.bind (f x st) (for_each f xs)"

definition keep_input :: "ParamVec \<Rightarrow> bool \<Rightarrow> nat \<Rightarrow> double \<Rightarrow> Store \<Rightarrow> Store option" where
  "keep_input prev keepValid idx inp st = (if \<not> keepValid \<or> is_param_valid inp then vec_set prev idx inp st else Some st)"

definition keep_previous_step :: "('x, 's) Operator \<Rightarrow> Store \<Rightarrow> Store option" where
  "keep_previous_step op st =
     (case op_d op of
        KeepPrevious prev keepValid \<Rightarrow> do {
          check (counts op 1 1);
          i \<leftarrow> in_vec op 0; out \<leftarrow> out_vec op 0;
          check (vec_size st i = vec_size st out);
          st' \<leftarrow> write_loop (\<lambda>idx st. vec_get st prev idx) out [0..<vec_size st i] st;
          for_each (\<lambda>idx st. do { inp \<leftarrow> vec_get st i idx; keep_input prev keepValid idx inp st }) [0..<vec_size st i] st' }
      | _ \<Rightarrow> None)"

definition keep_previous_step_idx :: "('x, 's) Operator \<Rightarrow> Store \<Rightarrow> Store option" where
  "keep_previous_step_idx op st =
     (case op_d op of
        KeepPrevious_idx prev keepValid inputIndex \<Rightarrow> do {
          check (counts op 1 1);
          i \<leftarrow> in_vec op 0; out \<leftarrow> out_vec op 0;
          check (vec_size st out = 1);
          p \<leftarrow> vec_get st prev 0;
          st \<leftarrow> vec_set out 0 p st;
          inp \<leftarrow> get_s st i inputIndex;
          keep_input prev keepValid 0 inp st }
      | _ \<Rightarrow> None)"

definition make_keep_previous :: "PipeVectors \<Rightarrow> bool \<Rightarrow> Store \<Rightarrow> (('x, 's) Operator \<times> Store) option" where
  "make_keep_previous input keepValid st = do {
     let (prev, st) = push_param_vector (pipe_size st input) invalid_param st;
     op \<leftarrow> assign_input (make_operator (KeepPrevious prev keepValid) 1 1) input 0;
     Some (push_output_vectors op 0 (pipe_size st input) d0 d0 st) }"

definition make_keep_previous_idx :: "PipeVectors \<Rightarrow> int \<Rightarrow> bool \<Rightarrow> Store \<Rightarrow> (('x, 's) Operator \<times> Store) option" where
  "make_keep_previous_idx input inputIndex keepValid st = do {
     let (prev, st) = push_param_vector 1 invalid_param st;
     op \<leftarrow> assign_input (make_operator (KeepPrevious_idx prev keepValid inputIndex) 1 1) input 0;
     Some (push_output_vectors op 0 1 d0 d0 st) }"

section \<open>Difference\<close>

text \<open>The limits of the difference.\<close>

fun difference_limits_loop :: "PipeVectors \<Rightarrow> PipeVectors \<Rightarrow> ParamVec \<Rightarrow> ParamVec \<Rightarrow> nat list \<Rightarrow> Store \<Rightarrow> Store option" where
  "difference_limits_loop a b ol ou [] st = Some st"
| "difference_limits_loop a b ol ou (i # is) st = do {
     al \<leftarrow> vec_get st (pv_lowerLimits a) i; bu \<leftarrow> vec_get st (pv_upperLimits b) i;
     st \<leftarrow> vec_set ol i (d_sub al bu) st;
     au \<leftarrow> vec_get st (pv_upperLimits a) i; bl \<leftarrow> vec_get st (pv_lowerLimits b) i;
     st \<leftarrow> vec_set ou i (d_sub au bl) st;
     difference_limits_loop a b ol ou is st }"

definition make_difference :: "PipeVectors \<Rightarrow> PipeVectors \<Rightarrow> Store \<Rightarrow> (('x, 's) Operator \<times> Store) option" where
  "make_difference a b st = do {
     check (pipe_size st a = pipe_size st b);
     let n = pipe_size st a;
     op \<leftarrow> assign_inputs (make_operator Difference 2 1) [a, b] 0;
     let (op, st) = push_output_vectors op 0 n d0 d0 st;
     ol \<leftarrow> slot (outputLowerLimits op) 0; ou \<leftarrow> slot (outputUpperLimits op) 0;
     st \<leftarrow> difference_limits_loop a b ol ou [0..<n] st;
     Some (op, st) }"

definition make_difference_idx ::
    "PipeVectors \<Rightarrow> PipeVectors \<Rightarrow> int \<Rightarrow> int \<Rightarrow> Store \<Rightarrow> (('x, 's) Operator \<times> Store) option" where
  "make_difference_idx a b indexA indexB st = do {
     check (indexA < int (pipe_size st a));
     check (indexB < int (pipe_size st b));
     op \<leftarrow> assign_inputs (make_operator (Difference_idx indexA indexB) 2 1) [a, b] 0;
     let (op, st) = push_output_vectors op 0 1 d0 d0 st;
     ol \<leftarrow> slot (outputLowerLimits op) 0; ou \<leftarrow> slot (outputUpperLimits op) 0;
     al \<leftarrow> get_s st (pv_lowerLimits a) indexA; bu \<leftarrow> get_s st (pv_upperLimits b) indexB;
     st \<leftarrow> vec_set ol 0 (d_sub al bu) st;
     au \<leftarrow> get_s st (pv_upperLimits a) indexA; bl \<leftarrow> get_s st (pv_lowerLimits b) indexB;
     st \<leftarrow> vec_set ou 0 (d_sub au bl) st;
     Some (op, st) }"

text \<open>A value of two parameters that is invalid unless both are valid.\<close>

definition if_valid :: "(double \<Rightarrow> double \<Rightarrow> double) \<Rightarrow> double \<Rightarrow> double \<Rightarrow> double" where
  "if_valid f a b = (if is_param_valid a \<and> is_param_valid b then f a b else invalid_param)"

definition difference_step :: "('x, 's) Operator \<Rightarrow> Store \<Rightarrow> Store option" where
  "difference_step op st =
     (case op_d op of
        Difference \<Rightarrow> do {
          check (counts op 2 1);
          a \<leftarrow> in_vec op 0; b \<leftarrow> in_vec op 1; out \<leftarrow> out_vec op 0;
          check (vec_size st a = vec_size st out);
          check (vec_size st b = vec_size st out);
          write_loop (\<lambda>idx st. do { x \<leftarrow> vec_get st a idx; y \<leftarrow> vec_get st b idx; Some (if_valid d_sub x y) })
            out [0..<vec_size st a] st }
      | _ \<Rightarrow> None)"

text \<open>The second index is only read if the first parameter is valid.\<close>

definition difference_step_idx :: "('x, 's) Operator \<Rightarrow> Store \<Rightarrow> Store option" where
  "difference_step_idx op st =
     (case op_d op of
        Difference_idx indexA indexB \<Rightarrow> do {
          check (counts op 2 1);
          a \<leftarrow> in_vec op 0; b \<leftarrow> in_vec op 1; out \<leftarrow> out_vec op 0;
          x \<leftarrow> get_s st a indexA;
          if is_param_valid x then do { y \<leftarrow> get_s st b indexB; vec_set out 0 (if_valid d_sub x y) st }
          else vec_set out 0 invalid_param st }
      | _ \<Rightarrow> None)"

section \<open>Array map\<close>

definition array_map_step :: "('x, 's) Operator \<Rightarrow> Store \<Rightarrow> Store option" where
  "array_map_step op st =
     (case op_d op of
        ArrayMap mappings \<Rightarrow> do {
          out \<leftarrow> out_vec op 0;
          write_loop (\<lambda>mi st.
              let (inputIndex, paramIndex) = mappings ! mi in
              if inputIndex < length (inputs op) \<and> 0 \<le> paramIndex
              then do {
                i \<leftarrow> in_vec op inputIndex;
                if paramIndex < int (vec_size st i) then vec_get st i (nat paramIndex) else Some invalid_param }
              else Some invalid_param)
            out [0..<length mappings] st }
      | _ \<Rightarrow> None)"

fun array_map_limits :: "PipeVectors list \<Rightarrow> ParamVec \<Rightarrow> ParamVec \<Rightarrow> (nat \<times> int) list \<Rightarrow> nat \<Rightarrow> Store \<Rightarrow> Store option" where
  "array_map_limits ps ol ou [] mi st = Some st"
| "array_map_limits ps ol ou ((inputIndex, paramIndex) # ms) mi st = do {
     (ll, ul) \<leftarrow>
       (if inputIndex < length ps \<and> 0 \<le> paramIndex \<and> paramIndex < int (vec_size st (pv_lowerLimits (ps ! inputIndex)))
        then do {
          ll \<leftarrow> vec_get st (pv_lowerLimits (ps ! inputIndex)) (nat paramIndex);
          ul \<leftarrow> vec_get st (pv_upperLimits (ps ! inputIndex)) (nat paramIndex);
          Some (ll, ul) }
        else Some (quiet_nan, quiet_nan));
     st \<leftarrow> vec_set ol mi ll st;
     st \<leftarrow> vec_set ou mi ul st;
     array_map_limits ps ol ou ms (mi + 1) st }"

definition make_array_map :: "PipeVectors list \<Rightarrow> (nat \<times> int) list \<Rightarrow> Store \<Rightarrow> (('x, 's) Operator \<times> Store) option" where
  "make_array_map ps mappings st = do {
     op \<leftarrow> assign_inputs (make_operator (ArrayMap mappings) (length ps) 1) ps 0;
     let (op, st) = push_output_vectors op 0 (length mappings) d0 d0 st;
     ol \<leftarrow> slot (outputLowerLimits op) 0; ou \<leftarrow> slot (outputUpperLimits op) 0;
     st \<leftarrow> array_map_limits ps ol ou mappings 0 st;
     Some (op, st) }"

section \<open>Binary equations\<close>

definition BinaryEquationTable :: "(double \<Rightarrow> double \<Rightarrow> double) list" where
  "BinaryEquationTable =
    [\<lambda>a b. d_add a b,
     \<lambda>a b. d_sub a b,
     \<lambda>a b. d_div (d_add a b) (d_sub a b),
     \<lambda>a b. d_div (d_sub a b) (d_add a b),
     \<lambda>a b. d_div a (d_sub a b),
     \<lambda>a b. d_div (d_sub a b) a,
     \<lambda>a b. d_mul a b,
     \<lambda>a b. d_div a b]"

definition binary_equation_step :: "('x, 's) Operator \<Rightarrow> Store \<Rightarrow> Store option" where
  "binary_equation_step op st =
     (case op_d op of
        BinaryEquation k \<Rightarrow> do {
          f \<leftarrow> at_opt BinaryEquationTable k;
          a \<leftarrow> in_vec op 0; b \<leftarrow> in_vec op 1; out \<leftarrow> out_vec op 0;
          write_loop (\<lambda>idx st. do { x \<leftarrow> vec_get st a idx; y \<leftarrow> vec_get st b idx; Some (if_valid f x y) })
            out [0..<min (vec_size st a) (vec_size st b)] st }
      | _ \<Rightarrow> None)"

definition make_binary_equation ::
    "PipeVectors \<Rightarrow> PipeVectors \<Rightarrow> nat \<Rightarrow> double \<Rightarrow> double \<Rightarrow> Store \<Rightarrow> (('x, 's) Operator \<times> Store) option" where
  "make_binary_equation a b k lower upper st = do {
     check (k < length BinaryEquationTable);
     op \<leftarrow> assign_inputs (make_operator (BinaryEquation k) 2 1) [a, b] 0;
     Some (push_output_vectors op 0 (min (pipe_size st a) (pipe_size st b)) lower upper st) }"

definition make_binary_equation_idx ::
    "PipeVectors \<Rightarrow> PipeVectors \<Rightarrow> int \<Rightarrow> int \<Rightarrow> nat \<Rightarrow> double \<Rightarrow> double \<Rightarrow> Store \<Rightarrow> (('x, 's) Operator \<times> Store) option" where
  "make_binary_equation_idx a b indexA indexB k lower upper st = do {
     check (k < length BinaryEquationTable);
     check (0 \<le> indexA \<and> indexA < int (pipe_size st a));
     check (0 \<le> indexB \<and> indexB < int (pipe_size st b));
     op \<leftarrow> assign_inputs (make_operator (BinaryEquation_idx k indexA indexB) 2 1) [a, b] 0;
     Some (push_output_vectors op 0 1 lower upper st) }"

definition binary_equation_step_idx :: "('x, 's) Operator \<Rightarrow> Store \<Rightarrow> Store option" where
  "binary_equation_step_idx op st =
     (case op_d op of
        BinaryEquation_idx k indexA indexB \<Rightarrow> do {
          f \<leftarrow> at_opt BinaryEquationTable k;
          a \<leftarrow> in_vec op 0; b \<leftarrow> in_vec op 1; out \<leftarrow> out_vec op 0;
          x \<leftarrow> get_s st a indexA;
          if is_param_valid x then do { y \<leftarrow> get_s st b indexB; vec_set out 0 (if_valid f x y) st }
          else vec_set out 0 invalid_param st }
      | _ \<Rightarrow> None)"

section \<open>Filters\<close>

definition make_range_filter :: "PipeVectors \<Rightarrow> Thresholds \<Rightarrow> bool \<Rightarrow> Store \<Rightarrow> (('x, 's) Operator \<times> Store) option" where
  "make_range_filter input thresholds invert st = do {
     op \<leftarrow> assign_input (make_operator (RangeFilter thresholds invert) 1 1) input 0;
     let n = pipe_size st input;
     let (op, st) = push_output_vectors op 0 n d0 d0 st;
     ol \<leftarrow> slot (outputLowerLimits op) 0; ou \<leftarrow> slot (outputUpperLimits op) 0;
     st \<leftarrow> for_each (\<lambda>pi st. if invert
         then do {
           l \<leftarrow> vec_get st (pv_lowerLimits input) pi; st \<leftarrow> vec_set ol pi l st;
           u \<leftarrow> vec_get st (pv_upperLimits input) pi; vec_set ou pi u st }
         else do { st \<leftarrow> vec_set ol pi (t_min thresholds) st; vec_set ou pi (t_max thresholds) st }) [0..<n] st;
     Some (op, st) }"

definition make_range_filter_idx :: "PipeVectors \<Rightarrow> int \<Rightarrow> Thresholds \<Rightarrow> bool \<Rightarrow> Store \<Rightarrow> (('x, 's) Operator \<times> Store) option" where
  "make_range_filter_idx input inputIndex thresholds invert st = do {
     check (0 \<le> inputIndex \<and> inputIndex < int (pipe_size st input));
     op \<leftarrow> assign_input (make_operator (RangeFilter_idx thresholds invert inputIndex) 1 1) input 0;
     let (op, st) = push_output_vectors op 0 1 d0 d0 st;
     ol \<leftarrow> slot (outputLowerLimits op) 0; ou \<leftarrow> slot (outputUpperLimits op) 0;
     st \<leftarrow> (if invert
         then do {
           l \<leftarrow> get_s st (pv_lowerLimits input) inputIndex; st \<leftarrow> vec_set ol 0 l st;
           u \<leftarrow> get_s st (pv_upperLimits input) inputIndex; vec_set ou 0 u st }
         else do { st \<leftarrow> vec_set ol 0 (t_min thresholds) st; vec_set ou 0 (t_max thresholds) st });
     Some (op, st) }"

text \<open>The value that passes the filter.\<close>

definition range_filtered :: "Thresholds \<Rightarrow> bool \<Rightarrow> double \<Rightarrow> double" where
  "range_filtered thresholds invert x =
     (if invert then (if \<not> in_range thresholds x then x else invalid_param)
      else (if in_range thresholds x then x else invalid_param))"

definition range_filter_step :: "('x, 's) Operator \<Rightarrow> Store \<Rightarrow> Store option" where
  "range_filter_step op st =
     (case op_d op of
        RangeFilter thresholds invert \<Rightarrow> do {
          check (counts op 1 1);
          i \<leftarrow> in_vec op 0; out \<leftarrow> out_vec op 0;
          check (vec_size st i = vec_size st out);
          write_loop (\<lambda>pi st. do { x \<leftarrow> vec_get st i pi; Some (range_filtered thresholds invert x) }) out [0..<vec_size st i] st }
      | _ \<Rightarrow> None)"

definition range_filter_step_idx :: "('x, 's) Operator \<Rightarrow> Store \<Rightarrow> Store option" where
  "range_filter_step_idx op st =
     (case op_d op of
        RangeFilter_idx thresholds invert inputIndex \<Rightarrow> do {
          check (counts op 1 1);
          i \<leftarrow> in_vec op 0; out \<leftarrow> out_vec op 0;
          check (vec_size st out = 1);
          x \<leftarrow> get_s st i inputIndex;
          vec_set out 0 (range_filtered thresholds invert x) st }
      | _ \<Rightarrow> None)"

definition make_rect_filter ::
    "PipeVectors \<Rightarrow> PipeVectors \<Rightarrow> int \<Rightarrow> int \<Rightarrow> Thresholds \<Rightarrow> Thresholds \<Rightarrow> RectFilterOperation \<Rightarrow> Store \<Rightarrow>
     (('x, 's) Operator \<times> Store) option" where
  "make_rect_filter x y xIndex yIndex xThresholds yThresholds filterOp st = do {
     check (0 \<le> xIndex \<and> xIndex < int (pipe_size st x));
     check (0 \<le> yIndex \<and> yIndex < int (pipe_size st y));
     op \<leftarrow> assign_inputs (make_operator (RectFilter xThresholds yThresholds xIndex yIndex filterOp) 2 1) [x, y] 0;
     Some (push_output_vectors op 0 1 d0 d0 st) }"

definition rect_filter_step :: "('x, 's) Operator \<Rightarrow> Store \<Rightarrow> Store option" where
  "rect_filter_step op st =
     (case op_d op of
        RectFilter xThresholds yThresholds xIndex yIndex filterOp \<Rightarrow> do {
          check (counts op 2 1);
          xi \<leftarrow> in_vec op 0; yi \<leftarrow> in_vec op 1; out \<leftarrow> out_vec op 0;
          x \<leftarrow> get_s st xi xIndex; y \<leftarrow> get_s st yi yIndex;
          let xInside = in_range xThresholds x;
          let yInside = in_range yThresholds y;
          let valid = (case filterOp of RectAnd \<Rightarrow> xInside \<and> yInside | RectOr \<Rightarrow> xInside \<or> yInside);
          vec_set out 0 (if valid then d0 else invalid_param) st }
      | _ \<Rightarrow> None)"

definition make_condition_filter ::
    "PipeVectors \<Rightarrow> PipeVectors \<Rightarrow> bool \<Rightarrow> int \<Rightarrow> int \<Rightarrow> Store \<Rightarrow> (('x, 's) Operator \<times> Store) option" where
  "make_condition_filter dataInput condInput inverted dataIndex condIndex st = do {
     check (dataIndex < 0 \<or> dataIndex < int (pipe_size st dataInput));
     check (condIndex < 0 \<or> condIndex < int (pipe_size st condInput));
     check (\<not> (0 \<le> dataIndex \<and> condIndex < 0) \<or> 1 \<le> pipe_size st condInput);
     let condIndex = (if 0 \<le> dataIndex \<and> condIndex < 0 then 0 else condIndex);
     op \<leftarrow> assign_inputs (make_operator (ConditionFilter dataIndex condIndex inverted) 2 1) [dataInput, condInput] 0;
     let outSize = (if dataIndex < 0 then pipe_size st dataInput else 1);
     let (op, st) = push_output_vectors op 0 outSize d0 d0 st;
     ol \<leftarrow> slot (outputLowerLimits op) 0; ou \<leftarrow> slot (outputUpperLimits op) 0;
     st \<leftarrow> for_each (\<lambda>i st. do {
         let k = (if dataIndex < 0 then int i else dataIndex);
         l \<leftarrow> get_s st (pv_lowerLimits dataInput) k; st \<leftarrow> vec_set ol i l st;
         u \<leftarrow> get_s st (pv_upperLimits dataInput) k; vec_set ou i u st })
       [0..<outSize] st;
     Some (op, st) }"

definition condition_filtered :: "bool \<Rightarrow> double \<Rightarrow> double \<Rightarrow> double" where
  "condition_filtered inverted condParam x =
     (let condValid = is_param_valid condParam in
      if condValid \<and> \<not> inverted then x else if \<not> condValid \<and> inverted then x else invalid_param)"

definition condition_filter_step :: "('x, 's) Operator \<Rightarrow> Store \<Rightarrow> Store option" where
  "condition_filter_step op st =
     (case op_d op of
        ConditionFilter dataIndex condIndex inverted \<Rightarrow> do {
          check (counts op 2 1);
          i \<leftarrow> in_vec op 0; c \<leftarrow> in_vec op 1; out \<leftarrow> out_vec op 0;
          if dataIndex < 0
          then do {
            check (vec_size st out = vec_size st i);
            write_loop (\<lambda>pi st. do {
                condParam \<leftarrow> (if condIndex < 0 \<and> pi < vec_size st c then vec_get st c pi
                             else if 0 \<le> condIndex then get_s st c condIndex
                             else Some invalid_param);
                x \<leftarrow> vec_get st i pi;
                Some (condition_filtered inverted condParam x) })
              out [0..<vec_size st i] st }
          else do {
            check (dataIndex < int (vec_size st i));
            check (condIndex < int (vec_size st c));
            check (vec_size st out = 1);
            condParam \<leftarrow> get_s st c condIndex;
            x \<leftarrow> get_s st i dataIndex;
            vec_set out 0 (condition_filtered inverted condParam x) st } }
      | _ \<Rightarrow> None)"

end
