(* ===== verification/A2_Dataflow.thy ===== *)
theory A2_Dataflow
  imports A2_Operators
begin

text \<open>
  What the operators of \<open>A2_Operators\<close> compute, for operators whose outputs are vectors of their own.
\<close>

lemma check_simps [simp]: "check True = Some ()" "check False = None" "check b = Some u \<longleftrightarrow> b"
  by (simp_all add: check_def)

lemma slot_0 [simp]: "slot [Some v] 0 = Some v" by (simp add: slot_def)

section \<open>Vectors of an operator\<close>

text \<open>A vector of the store with its size.\<close>

definition has_vec :: "Store \<Rightarrow> ParamVec \<Rightarrow> nat \<Rightarrow> bool" where
  "has_vec st v n \<longleftrightarrow> v < length st \<and> length (st ! v) = n"

lemma has_vec_get [simp]: "has_vec st v n \<Longrightarrow> i < n \<Longrightarrow> vec_get st v i = Some (st ! v ! i)"
  by (simp add: has_vec_def)

lemma has_vec_get_s [simp]: "has_vec st v n \<Longrightarrow> 0 \<le> i \<Longrightarrow> i < int n \<Longrightarrow> get_s st v i = Some (st ! v ! nat i)"
  by (simp add: has_vec_def get_s_def)

lemma has_vec_size [simp]: "has_vec st v n \<Longrightarrow> vec_size st v = n"
  by (simp add: has_vec_def)

lemma has_vec_set [simp]: "has_vec st v n \<Longrightarrow> i < n \<Longrightarrow> vec_set v i x st = Some (st[v := (st ! v)[i := x]])"
  by (simp add: has_vec_def)

lemma has_vec_update: "has_vec st v n \<Longrightarrow> length xs = length (st ! w) \<Longrightarrow> has_vec (st[w := xs]) v n"
  by (cases "w = v") (auto simp: has_vec_def)

lemma has_vec_new [simp]: "v < length st \<Longrightarrow> has_vec (st @ st') v n = has_vec st v n"
  by (simp add: has_vec_def nth_append)

lemma has_vec_lt: "has_vec st v n \<Longrightarrow> v < length st"
  by (simp add: has_vec_def)

text \<open>A loop over an output that is not an input.\<close>

lemma write_loop_fresh:
  assumes "has_vec st out n" "\<And>i ys. i < n \<Longrightarrow> f i (st[out := ys]) = Some (g i)"
  shows "write_loop f out [0..<n] st = Some (st[out := map g [0..<n]])"
  using assms by (intro write_loop_map) (simp_all add: has_vec_def)

section \<open>Calibration\<close>

lemma calibrate_invalid: "\<not> is_param_valid p \<Longrightarrow> calibrate p l c f = p"
  by (simp add: calibrate_def)

text \<open>The operator has one input and one output, which is none of the vectors it reads.\<close>

definition wf_calibration :: "Store \<Rightarrow> ('x, 's) Operator \<Rightarrow> ParamVec \<Rightarrow> nat \<Rightarrow> ParamVec \<Rightarrow> ParamVec \<Rightarrow> ParamVec \<Rightarrow> ParamVec \<Rightarrow> bool" where
  "wf_calibration st op factors n i il out ol \<longleftrightarrow>
     inputs op = [Some i] \<and> outputs op = [Some out] \<and> inputLowerLimits op = [Some il] \<and> outputLowerLimits op = [Some ol] \<and>
     has_vec st i n \<and> has_vec st il n \<and> has_vec st out n \<and> has_vec st ol n \<and> has_vec st factors n \<and> out \<notin> {i, il, ol, factors}"

definition calibrated :: "Store \<Rightarrow> ParamVec \<Rightarrow> nat \<Rightarrow> ParamVec \<Rightarrow> ParamVec \<Rightarrow> ParamVec \<Rightarrow> double list" where
  "calibrated st factors n i il ol = map (\<lambda>k. calibrate (st ! i ! k) (st ! il ! k) (st ! ol ! k) (st ! factors ! k)) [0..<n]"

lemma calibration_step_eq:
  assumes "op_d op = Calibration factors" "wf_calibration st op factors n i il out ol"
  shows "calibration_step op st = Some (st[out := calibrated st factors n i il ol])"
proof -
  have "write_loop (\<lambda>idx st. do { p \<leftarrow> vec_get st i idx; pmin \<leftarrow> vec_get st il idx; cmin \<leftarrow> vec_get st ol idx; f \<leftarrow> vec_get st factors idx;
      Some (calibrate p pmin cmin f) }) out [0..<n] st = Some (st[out := calibrated st factors n i il ol])"
    using assms(2) unfolding calibrated_def by (intro write_loop_fresh) (auto simp: wf_calibration_def)
  then show ?thesis using assms by (simp add: calibration_step_def wf_calibration_def counts_def in_vec_def out_vec_def has_vec_def)
qed

subsection \<open>Four at a time\<close>

lemma get_all_eq: "has_vec st v n \<Longrightarrow> \<forall>k \<in> set ks. k < n \<Longrightarrow> get_all st v ks = Some (map (nth (st ! v)) ks)"
  by (induction ks) auto

lemma set_all_eq:
  assumes "has_vec st v n" "\<forall>k \<in> set ks. k < n"
  shows "set_all v (map (\<lambda>k. (k, g k)) ks) st = Some (st[v := fold (\<lambda>k xs. xs[k := g k]) ks (st ! v)])"
  using assms
proof (induction ks arbitrary: st)
  case (Cons k ks)
  then have "has_vec (st[v := (st ! v)[k := g k]]) v n" "v < length st" by (auto intro!: has_vec_update simp: has_vec_lt)
  then show ?case using Cons by simp
qed simp

lemma fold_update:
  "length xs = n \<Longrightarrow> k + m \<le> n \<Longrightarrow> fold (\<lambda>i xs. xs[i := g i]) [k..<k + m] xs = take k xs @ map g [k..<k + m] @ drop (k + m) xs"
proof (induction m)
  case (Suc m)
  then have "drop (k + m) xs = xs ! (k + m) # drop (Suc (k + m)) xs" by (intro Cons_nth_drop_Suc [symmetric]) simp
  then show ?case using Suc by (simp add: list_update_append)
qed simp

lemma sse_loop_eq:
  assumes "has_vec st i n" "has_vec st il n" "has_vec st ol n" "has_vec st factors n" "has_vec st out n" "out \<notin> {i, il, ol, factors}"
    and "4 * m \<le> n" "k \<le> m"
  shows "sse_loop i il factors ol out (map ((*) 4) [k..<m]) st
    = Some (st[out := take (4 * k) (st ! out) @ map (nth (calibrated st factors n i il ol)) [4 * k..<4 * m] @ drop (4 * m) (st ! out)])"
  using assms
proof (induction "m - k" arbitrary: k st)
  case 0
  then show ?case by simp
next
  case (Suc d)
  have k: "k < m" "[k..<m] = k # [Suc k..<m]" using Suc.hyps(2) by (simp_all add: upt_conv_Cons)
  let ?is = "[4 * k..<4 * k + 4]"
  let ?c = "calibrated st factors n i il ol"
  have len: "length (st ! out) = n" "out < length st" using Suc.prems(5) by (simp_all add: has_vec_def)
  have ks: "\<forall>j \<in> set ?is. j < n" using k(1) Suc.prems(7) by auto
  note gets = get_all_eq [OF Suc.prems(1) ks] get_all_eq [OF Suc.prems(2) ks] get_all_eq [OF Suc.prems(3) ks] get_all_eq [OF Suc.prems(4) ks]
  let ?v = "\<lambda>j. ?c ! j"
  have vals: "zip ?is (map2 (\<lambda>p r. if is_param_valid p then r else p) (map (nth (st ! i)) ?is)
      (map2 d_add (map2 d_mul (map2 d_sub (map (nth (st ! i)) ?is) (map (nth (st ! il)) ?is)) (map (nth (st ! factors)) ?is)) (map (nth (st ! ol)) ?is)))
    = map (\<lambda>j. (j, ?v j)) ?is"
    using ks by (intro nth_equalityI) (auto simp: calibrated_def calibrate_def)
  define st1 where "st1 = st[out := fold (\<lambda>j xs. xs[j := ?v j]) ?is (st ! out)]"
  have set: "set_all out (map (\<lambda>j. (j, ?v j)) ?is) st = Some st1" unfolding st1_def by (rule set_all_eq [OF Suc.prems(5) ks])
  have st1: "st1 = st[out := take (4 * k) (st ! out) @ map ?v ?is @ drop (4 * k + 4) (st ! out)]"
    unfolding st1_def using fold_update [OF len(1), of "4 * k" 4 ?v] k(1) Suc.prems(7) by simp
  have len1: "length (take (4 * k) (st ! out) @ map ?v ?is @ drop (4 * k + 4) (st ! out)) = length (st ! out)"
    using k(1) Suc.prems(7) len by simp
  have same: "st1 ! w = st ! w" if "w \<noteq> out" for w using that by (simp add: st1)
  have c1: "calibrated st1 factors n i il ol = ?c" using Suc.prems(6) by (simp add: calibrated_def same)
  have wf: "has_vec st1 i n" "has_vec st1 il n" "has_vec st1 ol n" "has_vec st1 factors n" "has_vec st1 out n"
    unfolding st1 by (rule has_vec_update [OF _ len1], fact)+
  have out1: "st1 ! out = take (4 * k) (st ! out) @ map ?v ?is @ drop (4 * k + 4) (st ! out)" using len(2) by (simp add: st1)
  have "d = m - Suc k" using Suc.hyps(2) by simp
  from Suc.hyps(1) [OF this wf Suc.prems(6,7)] have IH: "sse_loop i il factors ol out (map ((*) 4) [Suc k..<m]) st1
      = Some (st1[out := take (4 * Suc k) (st1 ! out) @ map ?v [4 * Suc k..<4 * m] @ drop (4 * m) (st1 ! out)])"
    using k(1) by (simp add: c1)
  have upd: "st1[out := xs] = st[out := xs]" for xs by (simp add: st1)
  have parts: "take (4 * Suc k) (st1 ! out) = take (4 * k) (st ! out) @ map ?v ?is" "drop (4 * m) (st1 ! out) = drop (4 * m) (st ! out)"
    using k(1) Suc.prems(7) len(1) by (simp_all add: out1)
  have "[4 * k..<4 * m] = ?is @ [4 * Suc k..<4 * m]" using k(1) upt_add_eq_append [of "4 * k" "4 * k + 4" "4 * m - (4 * k + 4)"] by (simp add: add.commute)
  then show ?case unfolding k(2) by (simp add: gets vals set IH [simplified] parts [simplified] Let_def upd)
qed

lemma calibration_sse_step_eq:
  assumes "op_d op = Calibration_sse factors" "wf_calibration st op factors n i il out ol"
  shows "calibration_sse_step op st = (if n mod 4 = 0 then Some (st[out := calibrated st factors n i il ol]) else None)"
proof (cases "n mod 4 = 0")
  case True
  then have m: "4 * (n div 4) = n" by presburger
  have v: "has_vec st i n" "has_vec st il n" "has_vec st ol n" "has_vec st factors n" "has_vec st out n" "out \<notin> {i, il, ol, factors}"
    using assms(2) by (simp_all add: wf_calibration_def)
  have "map (nth (calibrated st factors n i il ol)) [0..<n] = calibrated st factors n i il ol"
    by (intro nth_equalityI) (simp_all add: calibrated_def)
  then have "sse_loop i il factors ol out (map ((*) 4) [0..<n div 4]) st = Some (st[out := calibrated st factors n i il ol])"
    using sse_loop_eq [OF v, of "n div 4" 0] v(5) m by (simp add: has_vec_def)
  then show ?thesis using assms True
    by (simp add: calibration_sse_step_def wf_calibration_def counts_def in_vec_def out_vec_def has_vec_def)
next
  case False
  then show ?thesis using assms
    by (simp add: calibration_sse_step_def wf_calibration_def counts_def in_vec_def out_vec_def has_vec_def)
qed

subsection \<open>The range\<close>

lemma rank_of_results:
  assumes "is_finite a" "is_finite b"
  shows "d_rank (d_sub a b) = d_rank (d_of (d_val a - d_val b))" "\<not> isnan (d_sub a b)"
    "d_rank (d_mul a b) = d_rank (d_of (d_val a * d_val b))" "\<not> isnan (d_mul a b)"
    "d_rank (d_add a b) = d_rank (d_of (d_val a + d_val b))" "\<not> isnan (d_add a b)"
proof -
  have zero: "d_rank (make_double s 0) = 0" "\<not> isnan (make_double s 0)" "d_rank (d_of 0) = 0" for s
    by (simp_all add: d_rank_def isnan_def d_rank_d_of round_mag_def not_less)
  show "d_rank (d_sub a b) = d_rank (d_of (d_val a - d_val b))" "\<not> isnan (d_sub a b)"
    using zero by (simp_all add: d_sub_finite [OF assms])
  have sign: "d_val x < 0 \<Longrightarrow> d_neg x" "0 < d_val x \<Longrightarrow> \<not> d_neg x" for x
    using mag_value_bounds [OF d_mag_bounds(1), of x] by (auto simp: d_val_def not_less [symmetric] split: if_splits)
  have r0: "round_mag 0 = 0" by (simp add: round_mag_def)
  consider "d_val a * d_val b = 0" | "d_val a * d_val b < 0" "d_neg a \<noteq> d_neg b" | "0 < d_val a * d_val b" "d_neg a = d_neg b"
    using sign [of a] sign [of b] 
    by (cases "d_val a * d_val b" "0 :: rat" rule: linorder_cases) (auto simp: mult_less_0_iff zero_less_mult_iff)
  then show "d_rank (d_mul a b) = d_rank (d_of (d_val a * d_val b))"
    by cases (auto simp: d_mul_finite [OF assms] d_rank_d_of d_rank_def r0)
  show "\<not> isnan (d_mul a b)" by (simp add: d_mul_finite [OF assms] isnan_def not_less)
  show "d_rank (d_add a b) = d_rank (d_of (d_val a + d_val b))" "\<not> isnan (d_add a b)"
    using assms zero by (simp_all add: d_add_def finite_not_nan)
qed

lemma d_of_rank_mono: "q \<le> r \<Longrightarrow> d_rank (d_of q) \<le> d_rank (d_of r)"
  using d_of_mono [of q r] by (simp add: d_le_def)

lemma val_of_results:
  assumes "is_finite a" "is_finite b"
  shows "d_val a = d_val b \<Longrightarrow> d_val (d_sub a b) = 0 \<and> is_finite (d_sub a b)"
    "d_val a = 0 \<Longrightarrow> d_val (d_mul a b) = 0 \<and> is_finite (d_mul a b)"
    "d_val a = 0 \<Longrightarrow> d_val (d_add a b) = d_val b \<and> is_finite (d_add a b)"
proof -
  have zero: "d_val (make_double s 0) = 0" "is_finite (make_double s 0)" for s by (simp_all add: d_val_def is_finite_def inf_mag_def)
  then show "d_val a = d_val b \<Longrightarrow> d_val (d_sub a b) = 0 \<and> is_finite (d_sub a b)" by (simp add: d_sub_finite [OF assms])
  show "d_val a = 0 \<Longrightarrow> d_val (d_mul a b) = 0 \<and> is_finite (d_mul a b)" using zero by (simp add: d_mul_finite [OF assms] round_mag_def)
  show "d_val a = 0 \<Longrightarrow> d_val (d_add a b) = d_val b \<and> is_finite (d_add a b)"
    using assms zero d_of_val [OF assms(2)] by (cases "d_val b = 0") (auto simp: d_add_def finite_not_nan)
qed

text \<open>\<open>calibrate\<close> passes invalid parameters on as they are, takes the lower limit of the parameter exactly to the minimum
  of the unit, and is monotone in the parameter if the factor is not negative and nothing overflows.\<close>

theorem calibrate_range:
  shows "\<not> is_param_valid p \<Longrightarrow> calibrate p l c f = p"
    and "is_finite l \<Longrightarrow> is_finite f \<Longrightarrow> is_finite c \<Longrightarrow> d_val (calibrate l l c f) = d_val c"
    and "is_finite x \<Longrightarrow> is_finite y \<Longrightarrow> is_finite l \<Longrightarrow> is_finite f \<Longrightarrow> is_finite c \<Longrightarrow> d_le x y \<Longrightarrow> 0 \<le> d_val f
      \<Longrightarrow> \<forall>z \<in> {x, y}. is_finite (d_sub z l) \<and> is_finite (d_mul (d_sub z l) f)
      \<Longrightarrow> d_le (calibrate x l c f) (calibrate y l c f)"
proof -
  show "\<not> is_param_valid p \<Longrightarrow> calibrate p l c f = p" by (rule calibrate_invalid)
  show "d_val (calibrate l l c f) = d_val c" if "is_finite l" "is_finite f" "is_finite c"
    using val_of_results(1) [OF that(1,1)] val_of_results(2) [OF _ that(2)] val_of_results(3) [OF _ that(3)] that
    by (simp add: calibrate_def not_nan_valid finite_not_nan)
  assume fin: "is_finite x" "is_finite y" "is_finite l" "is_finite f" "is_finite c" and le: "d_le x y" and f: "0 \<le> d_val f"
    and mid: "\<forall>z \<in> {x, y}. is_finite (d_sub z l) \<and> is_finite (d_mul (d_sub z l) f)"
  have "d_rank (d_sub x l) \<le> d_rank (d_sub y l)"
    using le fin d_le_iff [of x y] by (simp add: rank_of_results d_of_rank_mono)
  then have "d_val (d_sub x l) \<le> d_val (d_sub y l)" using mid d_rank_le_iff by simp
  then have "d_rank (d_mul (d_sub x l) f) \<le> d_rank (d_mul (d_sub y l) f)"
    using mid fin(4) f by (simp add: rank_of_results d_of_rank_mono mult_right_mono)
  then have "d_val (d_mul (d_sub x l) f) \<le> d_val (d_mul (d_sub y l) f)" using mid d_rank_le_iff by simp
  then have "d_rank (d_add (d_mul (d_sub x l) f) c) \<le> d_rank (d_add (d_mul (d_sub y l) f) c)"
    using mid fin(5) by (simp add: rank_of_results d_of_rank_mono)
  then show "d_le (calibrate x l c f) (calibrate y l c f)"
    using mid fin by (simp add: calibrate_def d_le_def rank_of_results not_nan_valid finite_not_nan)
qed

text \<open>A calibration operator as it is built.\<close>

lemma make_calibration_eq:
  assumes "has_vec st (pv_data p) n" "has_vec st (pv_lowerLimits p) n" "has_vec st (pv_upperLimits p) n"
  shows "make_calibration p unitMin unitMax st =
    Some (\<lparr>inputs = [Some (pv_data p)], inputLowerLimits = [Some (pv_lowerLimits p)], inputUpperLimits = [Some (pv_upperLimits p)],
      outputs = [Some (length st)], outputLowerLimits = [Some (length st + 1)], outputUpperLimits = [Some (length st + 2)],
      op_d = Calibration (length st + 3), conditionIndex = - 1\<rparr>,
      st @ [replicate n invalid_param, replicate n unitMin, replicate n unitMax,
        map (\<lambda>k. calib_factor unitMin unitMax (st ! pv_lowerLimits p ! k) (st ! pv_upperLimits p ! k)) [0..<n]])"
proof -
  let ?st = "st @ [replicate n invalid_param, replicate n unitMin, replicate n unitMax, replicate n d0]"
  have v: "has_vec ?st (length st + 3) n" by (simp add: has_vec_def nth_append)
  have "write_loop (\<lambda>i st. do { u \<leftarrow> vec_get st (pv_upperLimits p) i; l \<leftarrow> vec_get st (pv_lowerLimits p) i; Some (calib_factor unitMin unitMax l u) })
      (length st + 3) [0..<n] ?st
    = Some (?st[length st + 3 := map (\<lambda>k. calib_factor unitMin unitMax (?st ! pv_lowerLimits p ! k) (?st ! pv_upperLimits p ! k)) [0..<n]])"
    using assms by (intro write_loop_fresh [OF v]) (auto simp: has_vec_def nth_append)
  moreover have "?st ! pv_lowerLimits p = st ! pv_lowerLimits p" "?st ! pv_upperLimits p = st ! pv_upperLimits p"
    using assms by (simp_all add: has_vec_def nth_append)
  ultimately have "write_loop (\<lambda>i st. do { u \<leftarrow> vec_get st (pv_upperLimits p) i; l \<leftarrow> vec_get st (pv_lowerLimits p) i; Some (calib_factor unitMin unitMax l u) })
      (length st + 3) [0..<n] ?st
    = Some (st @ [replicate n invalid_param, replicate n unitMin, replicate n unitMax,
        map (\<lambda>k. calib_factor unitMin unitMax (st ! pv_lowerLimits p ! k) (st ! pv_upperLimits p ! k)) [0..<n]])"
    by (simp add: list_update_append numeral_3_eq_3)
  then show ?thesis using assms
    by (simp add: make_calibration_def sizes_agree_def pipe_size_def make_operator_def assign_input_def push_output_vectors_def
        push_param_vector_def push_vector_def Let_def has_vec_def numeral_3_eq_3)
qed

text \<open>C21: a calibration operator that is built for an input of \<open>n\<close> parameters steps, for every event, to the calibrated
  values of all of them, with the factors of the limits at the time it was built, and writes nothing but its output. The
  variant that handles four parameters at a time steps to the same store if their number is a multiple of four, and
  fails its assertion otherwise.\<close>

theorem calibration_steps:
  assumes "has_vec st (pv_data p) n" "has_vec st (pv_lowerLimits p) n" "has_vec st (pv_upperLimits p) n"
    and "pv_data p \<notin> {pv_lowerLimits p, pv_upperLimits p}" "length xs = n"
  shows "\<exists>op :: ('x, 's) Operator. \<exists>factors st1. make_calibration p unitMin unitMax st = Some (op, st1)
    \<and> op_d op = Calibration factors \<and> out_vec op 0 = Some (length st)
    \<and> (let st2 = st1[pv_data p := xs];
           st3 = st2[length st := map (\<lambda>k. calibrate (xs ! k) (st ! pv_lowerLimits p ! k) unitMin
                   (calib_factor unitMin unitMax (st ! pv_lowerLimits p ! k) (st ! pv_upperLimits p ! k))) [0..<n]]
       in calibration_step op st2 = Some st3
        \<and> calibration_sse_step (op\<lparr>op_d := Calibration_sse factors\<rparr>) st2 = (if n mod 4 = 0 then Some st3 else None))"
proof -
  let ?l = "length st"
  note made = make_calibration_eq [where 'a = 'x and 'b = 's, OF assms(1-3), of unitMin unitMax]
  define op :: "('x, 's) Operator" where "op = \<lparr>inputs = [Some (pv_data p)], inputLowerLimits = [Some (pv_lowerLimits p)],
      inputUpperLimits = [Some (pv_upperLimits p)], outputs = [Some (length st)], outputLowerLimits = [Some (length st + 1)],
      outputUpperLimits = [Some (length st + 2)], op_d = Calibration (length st + 3), conditionIndex = - 1\<rparr>"
  define st1 where "st1 = st @ [replicate n invalid_param, replicate n unitMin, replicate n unitMax,
        map (\<lambda>k. calib_factor unitMin unitMax (st ! pv_lowerLimits p ! k) (st ! pv_upperLimits p ! k)) [0..<n]]"
  define st2 where "st2 = st1[pv_data p := xs]"
  have d: "pv_data p < ?l" "length (st ! pv_data p) = n" using assms(1) by (simp_all add: has_vec_def)
  have st1: "has_vec st1 v n" if "v \<in> {pv_data p, pv_lowerLimits p, pv_upperLimits p, ?l, ?l + 1, ?l + 2, ?l + 3}" for v
    using that assms(1-3) by (auto simp: st1_def has_vec_def nth_append numeral_3_eq_3 numeral_2_eq_2)
  have len: "length xs = length (st1 ! pv_data p)" using assms(5) d by (simp add: st1_def nth_append)
  have wf: "wf_calibration st2 op' (?l + 3) n (pv_data p) (pv_lowerLimits p) ?l (?l + 1)"
    if "op' \<in> {op, op\<lparr>op_d := Calibration_sse (?l + 3)\<rparr>}" for op'
  proof -
    have "has_vec st2 v n" if "v \<in> {pv_data p, pv_lowerLimits p, pv_upperLimits p, ?l, ?l + 1, ?l + 2, ?l + 3}" for v
      unfolding st2_def using st1 [OF that] by (rule has_vec_update [OF _ len])
    then have "has_vec st2 (pv_data p) n" "has_vec st2 (pv_lowerLimits p) n" "has_vec st2 ?l n" "has_vec st2 (?l + 1) n" "has_vec st2 (?l + 3) n"
      by simp_all
    moreover have "?l \<notin> {pv_data p, pv_lowerLimits p, ?l + 1, ?l + 3}" using assms(1,2) by (simp add: has_vec_def)
    ultimately show ?thesis using that by (elim insertE emptyE) (simp_all add: wf_calibration_def op_def)
  qed
  have nth: "st2 ! pv_data p = xs" "st2 ! pv_lowerLimits p = st ! pv_lowerLimits p" "st2 ! (?l + 1) = replicate n unitMin"
    "st2 ! (?l + 3) = map (\<lambda>k. calib_factor unitMin unitMax (st ! pv_lowerLimits p ! k) (st ! pv_upperLimits p ! k)) [0..<n]"
    using assms(1-4) by (auto simp: st2_def st1_def has_vec_def nth_append numeral_3_eq_3)
  have vals: "calibrated st2 (?l + 3) n (pv_data p) (pv_lowerLimits p) (?l + 1)
    = map (\<lambda>k. calibrate (xs ! k) (st ! pv_lowerLimits p ! k) unitMin
        (calib_factor unitMin unitMax (st ! pv_lowerLimits p ! k) (st ! pv_upperLimits p ! k))) [0..<n]"
    by (simp add: calibrated_def nth nth(3) [simplified])
  have d1: "op_d op = Calibration (?l + 3)" "op_d (op\<lparr>op_d := Calibration_sse (?l + 3)\<rparr>) = Calibration_sse (?l + 3)" by (simp_all add: op_def)
  have s1: "calibration_step op st2 = Some (st2[?l := calibrated st2 (?l + 3) n (pv_data p) (pv_lowerLimits p) (?l + 1)])"
    by (rule calibration_step_eq [OF d1(1) wf]) simp
  have s2: "calibration_sse_step (op\<lparr>op_d := Calibration_sse (?l + 3)\<rparr>) st2
      = (if n mod 4 = 0 then Some (st2[?l := calibrated st2 (?l + 3) n (pv_data p) (pv_lowerLimits p) (?l + 1)]) else None)"
    by (rule calibration_sse_step_eq [OF d1(2) wf]) simp
  note steps = s1 [unfolded vals] s2 [unfolded vals]
  have "make_calibration p unitMin unitMax st = Some (op, st1)" using made by (simp add: op_def st1_def)
  moreover have "out_vec op 0 = Some ?l" by (simp add: out_vec_def op_def)
  moreover note steps
  ultimately show ?thesis unfolding Let_def
    by (intro exI [of _ op] exI [of _ "?l + 3"] exI [of _ st1]) (simp add: d1 st2_def [symmetric])
qed

section \<open>Keeping the previous value\<close>

lemma for_each_write_loop:
  assumes "has_vec st v n" "\<forall>k \<in> set ks. k < n"
    and "\<And>k ys. k < n \<Longrightarrow> length ys = n \<Longrightarrow> h k (st[v := ys]) = Option.bind (f k (st[v := ys])) (\<lambda>x. vec_set v k x (st[v := ys]))"
  shows "for_each h ks st = write_loop f v ks st"
proof -
  have "for_each h ks (st[v := ys]) = write_loop f v ks (st[v := ys])" if "length ys = n" for ys
    using assms(2) that
  proof (induction ks arbitrary: ys)
    case (Cons k ks)
    have "v < length st" using assms(1) by (simp add: has_vec_def)
    then have "vec_set v k x (st[v := ys]) = Some (st[v := ys[k := x]])" for x using Cons.prems by simp
    moreover have "for_each h ks (st[v := ys[k := x]]) = write_loop f v ks (st[v := ys[k := x]])" for x
      using Cons by simp
    ultimately show ?case using assms(3) [of k ys] Cons.prems by (simp cong: bind_option_cong)
  qed simp
  from this [of "st ! v"] show ?thesis using assms(1) by (simp add: has_vec_def)
qed

definition kept_value :: "bool \<Rightarrow> double \<Rightarrow> double \<Rightarrow> double" where
  "kept_value keepValid inp prev = (if \<not> keepValid \<or> is_param_valid inp then inp else prev)"

lemma keep_previous_step_eq:
  assumes "op_d op = KeepPrevious prev keepValid" "inputs op = [Some i]" "outputs op = [Some out]"
    and "has_vec st i n" "has_vec st out n" "has_vec st prev n" "out \<noteq> i" "prev \<noteq> i" "out \<noteq> prev"
  shows "keep_previous_step op st = Some (st[out := st ! prev, prev := map (\<lambda>k. kept_value keepValid (st ! i ! k) (st ! prev ! k)) [0..<n]])"
proof -
  let ?st1 = "st[out := st ! prev]"
  have "map (nth (st ! prev)) [0..<n] = st ! prev" using assms(6) map_nth [of "st ! prev"] by (simp add: has_vec_def)
  then have 1: "write_loop (\<lambda>idx st. vec_get st prev idx) out [0..<n] st = Some ?st1"
    using write_loop_fresh [where g = "\<lambda>k. st ! prev ! k", OF assms(5)] assms(6,9) by (simp add: has_vec_def)
  have len: "length (st ! prev) = length (st ! out)" using assms(5,6) by (simp add: has_vec_def)
  have vecs: "has_vec ?st1 i n" "has_vec ?st1 prev n" using assms(4,6) by (simp_all add: has_vec_update len)
  have "for_each (\<lambda>idx st. do { inp \<leftarrow> vec_get st i idx; keep_input prev keepValid idx inp st }) [0..<n] ?st1
      = write_loop (\<lambda>idx st. do { inp \<leftarrow> vec_get st i idx; p \<leftarrow> vec_get st prev idx; Some (kept_value keepValid inp p) }) prev [0..<n] ?st1"
    using vecs assms(8) by (intro for_each_write_loop [OF vecs(2)]) (auto simp: has_vec_def keep_input_def kept_value_def)
  also have "\<dots> = Some (?st1[prev := map (\<lambda>k. kept_value keepValid (st ! i ! k) (st ! prev ! k)) [0..<n]])"
  proof (rule write_loop_map)
    fix k ys assume k: "k < n" "length ys = n" "drop k ys = drop k (?st1 ! prev)"
    from k(3) have "hd (drop k ys) = hd (drop k (st ! prev))" using assms(9) by simp
    then have "ys ! k = st ! prev ! k" using k(1,2) assms(6) by (simp add: has_vec_def hd_drop_conv_nth)
    then show "do { inp \<leftarrow> vec_get (?st1[prev := ys]) i k; p \<leftarrow> vec_get (?st1[prev := ys]) prev k; Some (kept_value keepValid inp p) }
      = Some (kept_value keepValid (st ! i ! k) (st ! prev ! k))"
      using k(1,2) vecs assms(7,8) by (simp add: has_vec_def)
  qed (use vecs(2) in \<open>simp_all add: has_vec_def\<close>)
  finally show ?thesis using assms 1
    by (simp add: keep_previous_step_def counts_def in_vec_def out_vec_def has_vec_def)
qed

text \<open>Events with the values of the input one after the other.\<close>

fun keep_events :: "('x, 's) Operator \<Rightarrow> ParamVec \<Rightarrow> double list list \<Rightarrow> Store \<Rightarrow> Store option" where
  "keep_events op i [] st = Some st"
| "keep_events op i (xs # xss) st = Option.bind (keep_previous_step op (st[i := xs])) (keep_events op i xss)"

text \<open>The value that is kept of the earlier values of a parameter, the latest first.\<close>

fun kept :: "bool \<Rightarrow> double list \<Rightarrow> double" where
  "kept keepValid [] = invalid_param"
| "kept keepValid (x # xs) = kept_value keepValid x (kept keepValid xs)"

lemma keep_events_eq:
  assumes "op_d op = KeepPrevious prev keepValid" "inputs op = [Some i]" "outputs op = [Some out]"
    and "has_vec st i n" "has_vec st out n" "has_vec st prev n" "out \<noteq> i" "prev \<noteq> i" "out \<noteq> prev"
    and "\<forall>xs \<in> set xss. length xs = n" "st ! prev = map (\<lambda>k. kept keepValid (map (\<lambda>xs. xs ! k) before)) [0..<n]"
  shows "\<exists>st'. keep_events op i xss st = Some st' \<and> has_vec st' i n \<and> has_vec st' out n \<and> has_vec st' prev n
    \<and> st' ! prev = map (\<lambda>k. kept keepValid (map (\<lambda>xs. xs ! k) (rev xss @ before))) [0..<n]"
  using assms(4-6,10,11)
proof (induction xss arbitrary: st before)
  case (Cons xs xss)
  let ?st1 = "st[i := xs]"
  have len: "length xs = length (st ! i)" "length xs = n" using Cons.prems(1,4) by (simp_all add: has_vec_def)
  have vecs: "has_vec ?st1 i n" "has_vec ?st1 out n" "has_vec ?st1 prev n"
    using Cons.prems(1-3) by (simp_all add: has_vec_update len(1))
  let ?st2 = "?st1[out := ?st1 ! prev, prev := map (\<lambda>k. kept_value keepValid (?st1 ! i ! k) (?st1 ! prev ! k)) [0..<n]]"
  have step: "keep_previous_step op ?st1 = Some ?st2" by (rule keep_previous_step_eq [OF assms(1-3) vecs assms(7-9)])
  have vecs2: "has_vec ?st2 i n" "has_vec ?st2 out n" "has_vec ?st2 prev n" using vecs assms(7-9) by (auto simp: has_vec_def)
  have "?st2 ! prev = map (\<lambda>k. kept keepValid (map (\<lambda>xs. xs ! k) (xs # before))) [0..<n]"
    using vecs assms(8) Cons.prems(5) by (simp add: has_vec_def)
  from Cons.IH [OF vecs2 _ this] Cons.prems(4) show ?case by (simp add: step)
qed simp

text \<open>C36: a keep-previous operator delays its input by one event: the output of the next event is, for every parameter,
  the value of the event before, or, with the option to keep valid values, the last valid value of all earlier events;
  it is invalid if there is none. The first event has an invalid output.\<close>

theorem keep_previous_delays:
  assumes "has_vec st (pv_data p) n" "\<forall>xs \<in> set (xss @ [ys]). length xs = n"
  shows "\<exists>op :: ('x, 's) Operator. \<exists>st0 st1 st2 out. make_keep_previous p keepValid st = Some (op, st0) \<and> out_vec op 0 = Some out
    \<and> keep_events op (pv_data p) xss st0 = Some st1 \<and> keep_previous_step op (st1[pv_data p := ys]) = Some st2
    \<and> st2 ! out = map (\<lambda>k. kept keepValid (map (\<lambda>xs. xs ! k) (rev xss))) [0..<n]"
proof -
  let ?l = "length st"
  define op :: "('x, 's) Operator" where "op = \<lparr>inputs = [Some (pv_data p)], inputLowerLimits = [Some (pv_lowerLimits p)],
      inputUpperLimits = [Some (pv_upperLimits p)], outputs = [Some (?l + 1)], outputLowerLimits = [Some (?l + 2)],
      outputUpperLimits = [Some (?l + 3)], op_d = KeepPrevious ?l keepValid, conditionIndex = - 1\<rparr>"
  let ?st0 = "st @ [replicate n invalid_param, replicate n invalid_param, replicate n d0, replicate n d0]"
  have d: "pv_data p < ?l" "length (st ! pv_data p) = n" using assms(1) by (simp_all add: has_vec_def)
  have made: "make_keep_previous p keepValid st = Some (op, ?st0)" using d
    by (simp add: make_keep_previous_def pipe_size_def make_operator_def assign_input_def push_output_vectors_def
        push_param_vector_def push_vector_def Let_def op_def numeral_3_eq_3 numeral_2_eq_2 nth_append)
  have v: "has_vec ?st0 (pv_data p) n" "has_vec ?st0 (?l + 1) n" "has_vec ?st0 ?l n"
    using assms(1) by (simp_all add: has_vec_def nth_append)
  have "?st0 ! ?l = map (\<lambda>k. kept keepValid (map (\<lambda>xs. xs ! k) [])) [0..<n]" by (simp add: nth_append map_replicate_const)
  from keep_events_eq [where op = op and xss = xss, OF _ _ _ v _ _ _ _ this] d assms(2) obtain st1 where
    1: "keep_events op (pv_data p) xss ?st0 = Some st1" "has_vec st1 (pv_data p) n" "has_vec st1 (?l + 1) n" "has_vec st1 ?l n"
    "st1 ! ?l = map (\<lambda>k. kept keepValid (map (\<lambda>xs. xs ! k) (rev xss))) [0..<n]"
    by (auto simp: op_def)
  let ?st = "st1[pv_data p := ys]"
  have len: "length ys = length (st1 ! pv_data p)" using assms(2) 1(2) by (simp add: has_vec_def)
  have vecs: "has_vec ?st (pv_data p) n" "has_vec ?st (?l + 1) n" "has_vec ?st ?l n"
    using 1(2-4) by (simp_all add: has_vec_update len)
  have "keep_previous_step op ?st = Some (?st[?l + 1 := ?st ! ?l, ?l := map (\<lambda>k. kept_value keepValid (?st ! pv_data p ! k) (?st ! ?l ! k)) [0..<n]])"
    using d by (intro keep_previous_step_eq vecs) (simp_all add: op_def)
  moreover have "(?st[?l + 1 := ?st ! ?l, ?l := zs]) ! (?l + 1) = st1 ! ?l" for zs
    using vecs d by (simp add: has_vec_def)
  moreover have "out_vec op 0 = Some (?l + 1)" by (simp add: op_def out_vec_def)
  ultimately show ?thesis using made 1(1,5)
    by (intro exI [of _ op] exI [of _ ?st0] exI [of _ st1] exI conjI) (assumption | simp only:)+
qed

section \<open>Operators of two inputs\<close>

lemma binary_equation_step_eq:
  assumes "op_d op = BinaryEquation e" "e < length BinaryEquationTable" "inputs op = [Some a, Some b]" "outputs op = [Some out]"
    and "has_vec st a n" "has_vec st b m" "has_vec st out (min n m)" "out \<notin> {a, b}"
  shows "binary_equation_step op st
    = Some (st[out := map (\<lambda>k. if_valid (BinaryEquationTable ! e) (st ! a ! k) (st ! b ! k)) [0..<min n m]])"
proof -
  have "write_loop (\<lambda>idx st. do { x \<leftarrow> vec_get st a idx; y \<leftarrow> vec_get st b idx; Some (if_valid (BinaryEquationTable ! e) x y) }) out [0..<min n m] st
    = Some (st[out := map (\<lambda>k. if_valid (BinaryEquationTable ! e) (st ! a ! k) (st ! b ! k)) [0..<min n m]])"
    using assms(5-8) by (intro write_loop_fresh) (auto simp: has_vec_def)
  then show ?thesis using assms
    by (simp add: binary_equation_step_def in_vec_def out_vec_def has_vec_def slot_def at_opt_def)
qed

lemma difference_step_eq:
  assumes "op_d op = Difference" "inputs op = [Some a, Some b]" "outputs op = [Some out]"
    and "has_vec st a n" "has_vec st b n" "has_vec st out n" "out \<notin> {a, b}"
  shows "difference_step op st = Some (st[out := map (\<lambda>k. if_valid d_sub (st ! a ! k) (st ! b ! k)) [0..<n]])"
proof -
  have "write_loop (\<lambda>idx st. do { x \<leftarrow> vec_get st a idx; y \<leftarrow> vec_get st b idx; Some (if_valid d_sub x y) }) out [0..<n] st
    = Some (st[out := map (\<lambda>k. if_valid d_sub (st ! a ! k) (st ! b ! k)) [0..<n]])"
    using assms(4-7) by (intro write_loop_fresh) (auto simp: has_vec_def)
  then show ?thesis using assms
    by (simp add: difference_step_def counts_def in_vec_def out_vec_def has_vec_def slot_def at_opt_def)
qed

text \<open>A difference operator computes the second of the binary equations, and the variants of both for one element of
  each input compute what the variants for whole arrays compute at that index; all of them return.\<close>

theorem binary_variants_agree:
  assumes "inputs op = [Some a, Some b]" "outputs op = [Some out]" "outputs op' = [Some out']" "inputs op' = inputs op"
    and "has_vec st a n" "has_vec st b n" "has_vec st out n" "has_vec st out' 1" "{out, out'} \<inter> {a, b} = {}" "k < n"
    and "e < length BinaryEquationTable"
  shows "\<exists>st1 st2. binary_equation_step (op\<lparr>op_d := BinaryEquation e\<rparr>) st = Some st1
      \<and> binary_equation_step_idx (op'\<lparr>op_d := BinaryEquation_idx e (int k) (int k)\<rparr>) st = Some st2 \<and> st2 ! out' ! 0 = st1 ! out ! k"
    and "difference_step (op\<lparr>op_d := Difference\<rparr>) st = binary_equation_step (op\<lparr>op_d := BinaryEquation 1\<rparr>) st"
    and "difference_step_idx (op'\<lparr>op_d := Difference_idx (int k) (int k)\<rparr>) st
      = binary_equation_step_idx (op'\<lparr>op_d := BinaryEquation_idx 1 (int k) (int k)\<rparr>) st"
proof -
  let ?f = "BinaryEquationTable ! e"
  have 1: "BinaryEquationTable ! 1 = d_sub" "1 < length BinaryEquationTable" "BinaryEquationTable ! Suc 0 = d_sub"
    by (simp_all add: BinaryEquationTable_def)
  have v: "has_vec st out (min n n)" "out \<notin> {a, b}" using assms(7,9) by auto
  have arr: "binary_equation_step (op\<lparr>op_d := BinaryEquation e\<rparr>) st = Some (st[out := map (\<lambda>k. if_valid ?f (st ! a ! k) (st ! b ! k)) [0..<min n n]])"
    by (rule binary_equation_step_eq [OF _ assms(11) _ _ assms(5,6) v]) (simp_all add: assms(1,2))
  have idx: "binary_equation_step_idx (op'\<lparr>op_d := BinaryEquation_idx e (int k) (int k)\<rparr>) st
    = Some (st[out' := (st ! out')[0 := if_valid (BinaryEquationTable ! e) (st ! a ! k) (st ! b ! k)]])" if "e < length BinaryEquationTable" for e
  proof -
    have "get_s st a (int k) = Some (st ! a ! k)" "get_s st b (int k) = Some (st ! b ! k)"
      using assms(5,6,10) by (simp_all add: get_s_def has_vec_def)
    then show ?thesis using assms(1,3,4,8) that
      by (auto simp: binary_equation_step_idx_def in_vec_def out_vec_def slot_def at_opt_def has_vec_def if_valid_def)
  qed
  have "out < length st" "out' < length st" "length (st ! out') = 1" using assms(7,8) by (simp_all add: has_vec_def)
  then show "\<exists>st1 st2. binary_equation_step (op\<lparr>op_d := BinaryEquation e\<rparr>) st = Some st1
      \<and> binary_equation_step_idx (op'\<lparr>op_d := BinaryEquation_idx e (int k) (int k)\<rparr>) st = Some st2 \<and> st2 ! out' ! 0 = st1 ! out ! k"
    unfolding arr idx [OF assms(11)] using assms(10) by simp
  have "difference_step (op\<lparr>op_d := Difference\<rparr>) st = Some (st[out := map (\<lambda>k. if_valid d_sub (st ! a ! k) (st ! b ! k)) [0..<n]])"
    by (rule difference_step_eq [OF _ _ _ assms(5,6,7) v(2)]) (simp_all add: assms(1,2))
  moreover have "binary_equation_step (op\<lparr>op_d := BinaryEquation 1\<rparr>) st = Some (st[out := map (\<lambda>k. if_valid d_sub (st ! a ! k) (st ! b ! k)) [0..<n]])"
    using binary_equation_step_eq [OF _ 1(2) _ _ assms(5,6) v, of "op\<lparr>op_d := BinaryEquation 1\<rparr>"] by (simp add: assms(1,2) 1)
  ultimately show "difference_step (op\<lparr>op_d := Difference\<rparr>) st = binary_equation_step (op\<lparr>op_d := BinaryEquation 1\<rparr>) st" by simp
  show "difference_step_idx (op'\<lparr>op_d := Difference_idx (int k) (int k)\<rparr>) st
      = binary_equation_step_idx (op'\<lparr>op_d := BinaryEquation_idx 1 (int k) (int k)\<rparr>) st"
    using assms(1,3,4) 1 by (simp add: binary_equation_step_idx_def difference_step_idx_def counts_def in_vec_def out_vec_def at_opt_def)
qed

section \<open>Filters\<close>

lemma range_filter_step_eq:
  assumes "op_d op = RangeFilter t invert" "inputs op = [Some i]" "outputs op = [Some out]"
    and "has_vec st i n" "has_vec st out n" "out \<noteq> i"
  shows "range_filter_step op st = Some (st[out := map (\<lambda>k. range_filtered t invert (st ! i ! k)) [0..<n]])"
proof -
  have "write_loop (\<lambda>pi st. do { x \<leftarrow> vec_get st i pi; Some (range_filtered t invert x) }) out [0..<n] st
    = Some (st[out := map (\<lambda>k. range_filtered t invert (st ! i ! k)) [0..<n]])"
    using assms(4-6) by (intro write_loop_fresh) (auto simp: has_vec_def)
  then show ?thesis using assms by (simp add: range_filter_step_def counts_def in_vec_def out_vec_def has_vec_def)
qed

lemma condition_filter_step_eq:
  assumes "op_d op = ConditionFilter (- 1) (- 1) inverted" "inputs op = [Some i, Some c]" "outputs op = [Some out]"
    and "has_vec st i n" "has_vec st c m" "has_vec st out n" "out \<notin> {i, c}"
  shows "condition_filter_step op st
    = Some (st[out := map (\<lambda>k. condition_filtered inverted (if k < m then st ! c ! k else invalid_param) (st ! i ! k)) [0..<n]])"
proof -
  have "write_loop (\<lambda>pi st. do {
         condParam \<leftarrow> (if (- 1 :: int) < 0 \<and> pi < vec_size st c then vec_get st c pi else if (0 :: int) \<le> - 1 then get_s st c (- 1) else Some invalid_param);
         x \<leftarrow> vec_get st i pi; Some (condition_filtered inverted condParam x) }) out [0..<n] st
    = Some (st[out := map (\<lambda>k. condition_filtered inverted (if k < m then st ! c ! k else invalid_param) (st ! i ! k)) [0..<n]])"
    using assms(4-7) by (intro write_loop_fresh) (auto simp: has_vec_def)
  then show ?thesis using assms
    by (simp add: condition_filter_step_def counts_def in_vec_def out_vec_def has_vec_def slot_def at_opt_def)
qed

lemma filter_and_inverse:
  assumes "inputs op = [Some i]" "inputs op2 = [Some i, Some c]" "outputs op = [Some out]" "outputs op2 = [Some out]"
    and "has_vec st i n" "has_vec st c m" "has_vec st out n" "out \<notin> {i, c}" "k < n"
  shows "\<exists>pass stop. range_filter_step (op\<lparr>op_d := RangeFilter t False\<rparr>) st = Some pass
      \<and> range_filter_step (op\<lparr>op_d := RangeFilter t True\<rparr>) st = Some stop
      \<and> (if in_range t (st ! i ! k) then pass ! out ! k = st ! i ! k \<and> stop ! out ! k = invalid_param
         else pass ! out ! k = invalid_param \<and> stop ! out ! k = st ! i ! k)
      \<and> (isnan (st ! i ! k) \<longrightarrow> stop ! out ! k = st ! i ! k)"
    and "\<exists>pass stop. condition_filter_step (op2\<lparr>op_d := ConditionFilter (- 1) (- 1) False\<rparr>) st = Some pass
      \<and> condition_filter_step (op2\<lparr>op_d := ConditionFilter (- 1) (- 1) True\<rparr>) st = Some stop
      \<and> (if k < m \<and> is_param_valid (st ! c ! k) then pass ! out ! k = st ! i ! k \<and> stop ! out ! k = invalid_param
         else pass ! out ! k = invalid_param \<and> stop ! out ! k = st ! i ! k)"
proof -
  have out: "out \<noteq> i" "out < length st" "out \<notin> {i, c}" using assms(7,8) by (simp_all add: has_vec_def)
  have range: "range_filter_step (op\<lparr>op_d := RangeFilter t inv\<rparr>) st = Some (st[out := map (\<lambda>k. range_filtered t inv (st ! i ! k)) [0..<n]])" for inv
    by (rule range_filter_step_eq [OF _ _ _ assms(5,7) out(1)]) (simp_all add: assms(1,3))
  show "\<exists>pass stop. range_filter_step (op\<lparr>op_d := RangeFilter t False\<rparr>) st = Some pass
      \<and> range_filter_step (op\<lparr>op_d := RangeFilter t True\<rparr>) st = Some stop
      \<and> (if in_range t (st ! i ! k) then pass ! out ! k = st ! i ! k \<and> stop ! out ! k = invalid_param
         else pass ! out ! k = invalid_param \<and> stop ! out ! k = st ! i ! k)
      \<and> (isnan (st ! i ! k) \<longrightarrow> stop ! out ! k = st ! i ! k)"
    unfolding range using out(2) assms(9) d_order_nan(2) [of "t_min t" "st ! i ! k"]
    by (simp add: range_filtered_def) (auto simp: in_range_def)
  have cond: "condition_filter_step (op2\<lparr>op_d := ConditionFilter (- 1) (- 1) inv\<rparr>) st
    = Some (st[out := map (\<lambda>k. condition_filtered inv (if k < m then st ! c ! k else invalid_param) (st ! i ! k)) [0..<n]])" for inv
    by (rule condition_filter_step_eq [OF _ _ _ assms(5-7) out(3)]) (simp_all add: assms(2,4))
  show "\<exists>pass stop. condition_filter_step (op2\<lparr>op_d := ConditionFilter (- 1) (- 1) False\<rparr>) st = Some pass
      \<and> condition_filter_step (op2\<lparr>op_d := ConditionFilter (- 1) (- 1) True\<rparr>) st = Some stop
      \<and> (if k < m \<and> is_param_valid (st ! c ! k) then pass ! out ! k = st ! i ! k \<and> stop ! out ! k = invalid_param
         else pass ! out ! k = invalid_param \<and> stop ! out ! k = st ! i ! k)"
    unfolding cond using out(2) assms(9) by (simp add: condition_filtered_def Let_def)
qed

text \<open>C38: a range filter and its inverse, and a condition filter and its inverse, divide the parameters of their input: every
  value goes unchanged through exactly one of the two, and is invalid in the output of the other; a value that is not a
  number, or one that has no condition, goes through the inverse.\<close>

theorem filters_divide:
  assumes "inputs op = [Some i]" "inputs op2 = [Some i, Some c]" "outputs op = [Some out]" "outputs op2 = [Some out]"
    and "has_vec st i n" "has_vec st c m" "has_vec st out n" "out \<notin> {i, c}" "k < n"
  shows "(\<exists>pass stop. range_filter_step (op\<lparr>op_d := RangeFilter t False\<rparr>) st = Some pass
      \<and> range_filter_step (op\<lparr>op_d := RangeFilter t True\<rparr>) st = Some stop
      \<and> (if in_range t (st ! i ! k) then pass ! out ! k = st ! i ! k \<and> stop ! out ! k = invalid_param
         else pass ! out ! k = invalid_param \<and> stop ! out ! k = st ! i ! k)
      \<and> (isnan (st ! i ! k) \<longrightarrow> stop ! out ! k = st ! i ! k))
    \<and> (\<exists>pass stop. condition_filter_step (op2\<lparr>op_d := ConditionFilter (- 1) (- 1) False\<rparr>) st = Some pass
      \<and> condition_filter_step (op2\<lparr>op_d := ConditionFilter (- 1) (- 1) True\<rparr>) st = Some stop
      \<and> (if k < m \<and> is_param_valid (st ! c ! k) then pass ! out ! k = st ! i ! k \<and> stop ! out ! k = invalid_param
         else pass ! out ! k = invalid_param \<and> stop ! out ! k = st ! i ! k))"
  using filter_and_inverse(1) [OF assms, of t] filter_and_inverse(2) [OF assms] by (rule conjI)

section \<open>Array map\<close>

lemma make_operator_simps [simp]:
  "inputs (make_operator d n m) = replicate (n mod 256) None" "inputLowerLimits (make_operator d n m) = replicate (n mod 256) None"
  "inputUpperLimits (make_operator d n m) = replicate (n mod 256) None" "outputs (make_operator d n m) = replicate (m mod 256) None"
  "outputLowerLimits (make_operator d n m) = replicate (m mod 256) None" "outputUpperLimits (make_operator d n m) = replicate (m mod 256) None"
  "op_d (make_operator d n m) = d" "conditionIndex (make_operator d n m) = - 1"
  by (simp_all add: make_operator_def Let_def)

lemma assign_inputs_eq:
  assumes "length (inputLowerLimits op) = length (inputs op)" "length (inputUpperLimits op) = length (inputs op)" "k \<le> length (inputs op)"
  shows "assign_inputs op ps k =
    (if k + length ps \<le> length (inputs op)
     then Some (op\<lparr>inputs := take k (inputs op) @ map (Some \<circ> pv_data) ps @ drop (k + length ps) (inputs op),
        inputLowerLimits := take k (inputLowerLimits op) @ map (Some \<circ> pv_lowerLimits) ps @ drop (k + length ps) (inputLowerLimits op),
        inputUpperLimits := take k (inputUpperLimits op) @ map (Some \<circ> pv_upperLimits) ps @ drop (k + length ps) (inputUpperLimits op)\<rparr>)
     else None)"
  using assms
proof (induction ps arbitrary: op k)
  case Nil
  then show ?case by simp
next
  case (Cons p ps)
  show ?case
  proof (cases "k < length (inputs op)")
    case True
    let ?op = "op\<lparr>inputs := (inputs op)[k := Some (pv_data p)], inputLowerLimits := (inputLowerLimits op)[k := Some (pv_lowerLimits p)],
      inputUpperLimits := (inputUpperLimits op)[k := Some (pv_upperLimits p)]\<rparr>"
    have "assign_inputs op (p # ps) k = assign_inputs ?op ps (k + 1)" using True by (simp add: assign_input_def)
    then show ?thesis using Cons.IH [of ?op "k + 1"] Cons.prems True by (simp add: take_Suc_conv_app_nth)
  next
    case False
    then show ?thesis by (simp add: assign_input_def)
  qed
qed

lemma array_map_limits_Some:
  assumes "has_vec st ol (mi + length ms)" "has_vec st ou (mi + length ms)"
    and "\<forall>p \<in> set ps. vec_size st (pv_upperLimits p) = vec_size st (pv_lowerLimits p)"
  shows "\<exists>st'. array_map_limits ps ol ou ms mi st = Some st' \<and> length st' = length st
    \<and> (\<forall>v. v \<noteq> ol \<longrightarrow> v \<noteq> ou \<longrightarrow> st' ! v = st ! v)"
  using assms
proof (induction ms arbitrary: mi st)
  case (Cons m ms)
  obtain inputIndex paramIndex where m: "m = (inputIndex, paramIndex)" by (cases m)
  let ?c = "inputIndex < length ps \<and> 0 \<le> paramIndex \<and> paramIndex < int (vec_size st (pv_lowerLimits (ps ! inputIndex)))"
  have size: "vec_size st (pv_upperLimits (ps ! inputIndex)) = vec_size st (pv_lowerLimits (ps ! inputIndex))" if "inputIndex < length ps"
    using Cons.prems(3) that by simp
  have "\<exists>ll ul. (if ?c
        then do {
          ll \<leftarrow> vec_get st (pv_lowerLimits (ps ! inputIndex)) (nat paramIndex);
          ul \<leftarrow> vec_get st (pv_upperLimits (ps ! inputIndex)) (nat paramIndex);
          Some (ll, ul) }
        else Some (quiet_nan, quiet_nan)) = Some (ll, ul)"
    using size by (auto simp: vec_get_def vec_size_def at_opt_def split: if_splits)
  then obtain ll ul where lim: "(if ?c
        then do {
          ll \<leftarrow> vec_get st (pv_lowerLimits (ps ! inputIndex)) (nat paramIndex);
          ul \<leftarrow> vec_get st (pv_upperLimits (ps ! inputIndex)) (nat paramIndex);
          Some (ll, ul) }
        else Some (quiet_nan, quiet_nan)) = Some (ll, ul)" by blast
  let ?st1 = "st[ol := (st ! ol)[mi := ll]]"
  let ?st2 = "?st1[ou := (?st1 ! ou)[mi := ul]]"
  have v1: "has_vec ?st1 v n" if "has_vec st v n" for v n using that by (simp add: has_vec_update)
  have v2: "has_vec ?st2 v n" if "has_vec st v n" for v n using v1 [OF that] by (rule has_vec_update) simp
  have set: "vec_set ol mi ll st = Some ?st1" "vec_set ou mi ul ?st1 = Some ?st2"
    using Cons.prems(1) v1 [OF Cons.prems(2)] by (auto simp: has_vec_def)
  have sizes: "vec_size ?st2 v = vec_size st v" for v
    by (cases "v = ol"; cases "v = ou") (auto simp: vec_size_def)
  have "array_map_limits ps ol ou (m # ms) mi st = array_map_limits ps ol ou ms (mi + 1) ?st2"
    unfolding m array_map_limits.simps lim by (simp add: set)
  moreover obtain st' where "array_map_limits ps ol ou ms (mi + 1) ?st2 = Some st'" "length st' = length ?st2"
    "\<forall>v. v \<noteq> ol \<longrightarrow> v \<noteq> ou \<longrightarrow> st' ! v = ?st2 ! v"
    using Cons.IH [of ?st2 "mi + 1"] v2 [OF Cons.prems(1)] v2 [OF Cons.prems(2)] Cons.prems(3) by (auto simp: sizes)
  ultimately show ?case by auto
qed simp

text \<open>An array map can be built from fewer than 256 inputs, more fail an assertion as their number is kept in 8 bits. It
  then steps, for every event, to the elements that its mappings select, one after the other, and to an invalid
  parameter for a mapping that selects no element of an input.\<close>

theorem array_map_selects:
  assumes "\<forall>p \<in> set ps. pv_data p < length st \<and> pv_lowerLimits p < length st \<and> pv_upperLimits p < length st
      \<and> length (st ! pv_upperLimits p) = length (st ! pv_lowerLimits p)"
  shows "length ps < 256 \<Longrightarrow> \<exists>op :: ('x, 's) Operator. \<exists>st1. make_array_map ps ms st = Some (op, st1) \<and> out_vec op 0 = Some (length st)
      \<and> (\<forall>v < length st. st1 ! v = st ! v)
      \<and> (\<forall>st2. length st2 = length st1 \<longrightarrow> length (st2 ! length st) = length ms \<longrightarrow>
           array_map_step op st2 = Some (st2[length st := map (\<lambda>(i, k).
             if i < length ps \<and> 0 \<le> k \<and> k < int (length (st2 ! pv_data (ps ! i))) then st2 ! pv_data (ps ! i) ! nat k else invalid_param) ms]))"
    and "256 \<le> length ps \<Longrightarrow> (make_array_map ps ms st :: (('x, 's) Operator \<times> Store) option) = None"
proof -
  let ?l = "length st"
  let ?op0 = "make_operator (ArrayMap ms) (length ps) (Suc 0) :: ('x, 's) Operator"
  have assigned: "assign_inputs ?op0 ps 0 = (if length ps \<le> length ps mod 256
     then Some (?op0\<lparr>inputs := map (Some \<circ> pv_data) ps, inputLowerLimits := map (Some \<circ> pv_lowerLimits) ps, inputUpperLimits := map (Some \<circ> pv_upperLimits) ps\<rparr>)
     else None)"
    using assign_inputs_eq [of ?op0 0 ps] by auto
  show "256 \<le> length ps \<Longrightarrow> (make_array_map ps ms st :: (('x, 's) Operator \<times> Store) option) = None"
  proof -
    assume "256 \<le> length ps"
    then have "\<not> length ps \<le> length ps mod 256" using mod_less_divisor [of 256 "length ps"] by linarith
    then show ?thesis by (simp add: make_array_map_def assigned)
  qed
  assume few: "length ps < 256"
  define st0 where "st0 = st @ [replicate (length ms) invalid_param, replicate (length ms) d0, replicate (length ms) d0]"
  have vecs: "has_vec st0 (?l + 1) (length ms)" "has_vec st0 (?l + 2) (length ms)"
    by (simp_all add: st0_def has_vec_def nth_append numeral_2_eq_2)
  have "vec_size st0 v = vec_size st v" if "v < ?l" for v using that by (simp add: vec_size_def st0_def nth_append)
  then have "\<forall>p \<in> set ps. vec_size st0 (pv_upperLimits p) = vec_size st0 (pv_lowerLimits p)" using assms by simp
  from array_map_limits_Some [OF _ _ this, of "?l + 1" 0 ms "?l + 2"] vecs obtain st1 where
    st1: "array_map_limits ps (?l + 1) (?l + 2) ms 0 st0 = Some st1" "length st1 = length st0"
      "\<forall>v. v \<noteq> ?l + 1 \<longrightarrow> v \<noteq> ?l + 2 \<longrightarrow> st1 ! v = st0 ! v" by auto
  define op where "op = ?op0\<lparr>inputs := map (Some \<circ> pv_data) ps, inputLowerLimits := map (Some \<circ> pv_lowerLimits) ps,
      inputUpperLimits := map (Some \<circ> pv_upperLimits) ps,
      outputs := [Some ?l], outputLowerLimits := [Some (?l + 1)], outputUpperLimits := [Some (?l + 2)]\<rparr>"
  have "make_array_map ps ms st = Some (op, st1)"
    using few st1(1) by (simp add: make_array_map_def assigned push_output_vectors_def push_param_vector_def push_vector_def Let_def
        op_def st0_def numeral_2_eq_2)
  moreover have opd: "op_d op = ArrayMap ms" "out_vec op 0 = Some ?l" by (simp_all add: op_def out_vec_def)
  moreover have "array_map_step op st2 = Some (st2[?l := map (\<lambda>(i, k).
        if i < length ps \<and> 0 \<le> k \<and> k < int (length (st2 ! pv_data (ps ! i))) then st2 ! pv_data (ps ! i) ! nat k else invalid_param) ms])"
    if "length st2 = length st1" "length (st2 ! ?l) = length ms" for st2
  proof -
    let ?g = "\<lambda>mi. case ms ! mi of (i, k) \<Rightarrow>
        if i < length ps \<and> 0 \<le> k \<and> k < int (length (st2 ! pv_data (ps ! i))) then st2 ! pv_data (ps ! i) ! nat k else invalid_param"
    have lt: "pv_data (ps ! i) < ?l" "pv_data (ps ! i) < length st2" if "i < length ps" for i
    proof -
      show 1: "pv_data (ps ! i) < ?l" using assms nth_mem [OF that] by blast
      show "pv_data (ps ! i) < length st2" using 1 \<open>length st2 = length st1\<close> st1(2) by (simp add: st0_def)
    qed
    have "has_vec st2 ?l (length ms)" using that st1(2) by (simp add: has_vec_def st0_def)
    then have "write_loop (\<lambda>mi st.
              let (inputIndex, paramIndex) = ms ! mi in
              if inputIndex < length (inputs op) \<and> 0 \<le> paramIndex
              then do {
                i \<leftarrow> in_vec op inputIndex;
                if paramIndex < int (vec_size st i) then vec_get st i (nat paramIndex) else Some invalid_param }
              else Some invalid_param) ?l [0..<length ms] st2 = Some (st2[?l := map ?g [0..<length ms]])"
    proof (rule write_loop_fresh)
      fix mi ys
      obtain i k where m: "ms ! mi = (i, k)" by (cases "ms ! mi")
      show "(let (inputIndex, paramIndex) = ms ! mi in
              if inputIndex < length (inputs op) \<and> 0 \<le> paramIndex
              then do {
                i \<leftarrow> in_vec op inputIndex;
                if paramIndex < int (vec_size (st2[?l := ys]) i) then vec_get (st2[?l := ys]) i (nat paramIndex) else Some invalid_param }
              else Some invalid_param) = Some (?g mi)"
        using lt [of i] by (auto simp: m op_def in_vec_def slot_def at_opt_def)
    qed
    moreover have "map ?g [0..<length ms] = map (\<lambda>(i, k).
        if i < length ps \<and> 0 \<le> k \<and> k < int (length (st2 ! pv_data (ps ! i))) then st2 ! pv_data (ps ! i) ! nat k else invalid_param) ms"
      by (intro nth_equalityI) simp_all
    ultimately show ?thesis by (simp add: array_map_step_def opd)
  qed
  moreover have "\<forall>v < ?l. st1 ! v = st ! v" using st1(3) by (simp add: st0_def nth_append)
  ultimately show "\<exists>op :: ('x, 's) Operator. \<exists>st1. make_array_map ps ms st = Some (op, st1) \<and> out_vec op 0 = Some (length st)
      \<and> (\<forall>v < length st. st1 ! v = st ! v)
      \<and> (\<forall>st2. length st2 = length st1 \<longrightarrow> length (st2 ! length st) = length ms \<longrightarrow>
           array_map_step op st2 = Some (st2[length st := map (\<lambda>(i, k).
             if i < length ps \<and> 0 \<le> k \<and> k < int (length (st2 ! pv_data (ps ! i))) then st2 ! pv_data (ps ! i) ! nat k else invalid_param) ms]))"
    by blast
qed

section \<open>The properties at concrete operators\<close>

definition demo_input :: PipeVectors where
  "demo_input = \<lparr>pv_data = 0, pv_lowerLimits = 1, pv_upperLimits = 2\<rparr>"

theorem calibration_steps_witness:
  "\<exists>op :: (unit, unit) Operator. \<exists>factors st1. make_calibration demo_input d0 d1 [[d1, d0], [d0, d0], [d1, d1]] = Some (op, st1)
    \<and> calibration_sse_step (op\<lparr>op_d := Calibration_sse factors\<rparr>) (st1[0 := [d0, d1]]) = None
    \<and> calibration_step op (st1[0 := [d0, d1]]) = Some (st1[0 := [d0, d1], 3 :=
        [calibrate d0 d0 d0 (calib_factor d0 d1 d0 d1), calibrate d1 d0 d0 (calib_factor d0 d1 d0 d1)]])"
proof -
  let ?st = "[[d1, d0], [d0, d0], [d1, d1]]"
  have "has_vec ?st (pv_data demo_input) 2" "has_vec ?st (pv_lowerLimits demo_input) 2" "has_vec ?st (pv_upperLimits demo_input) 2"
    "pv_data demo_input \<notin> {pv_lowerLimits demo_input, pv_upperLimits demo_input}" "length [d0, d1] = 2"
    by (simp_all add: demo_input_def has_vec_def)
  from calibration_steps [where 'x = unit and 's = unit, OF this, of d0 d1]
  show ?thesis by (fastforce simp: demo_input_def Let_def upt_conv_Cons numeral_3_eq_3)
qed

theorem keep_previous_delays_witness:
  "\<exists>op :: (unit, unit) Operator. \<exists>st0 st1 st2 out. make_keep_previous demo_input True [[d0, d0], [d0, d0], [d1, d1]] = Some (op, st0)
    \<and> keep_events op 0 [[d0, d1], [d1, invalid_param]] st0 = Some st1
    \<and> keep_previous_step op (st1[0 := [d0, d0]]) = Some st2 \<and> st2 ! out = [d1, d1]"
proof -
  let ?st = "[[d0, d0], [d0, d0], [d1, d1]]"
  have 1: "has_vec ?st (pv_data demo_input) 2" "\<forall>xs \<in> set ([[d0, d1], [d1, invalid_param]] @ [[d0, d0]]). length xs = 2"
    by (simp_all add: demo_input_def has_vec_def)
  have "is_param_valid d1" "\<not> is_param_valid invalid_param" by code_simp+
  then have "map (\<lambda>k. kept True (map (\<lambda>xs. xs ! k) (rev [[d0, d1], [d1, invalid_param]]))) [0..<2] = [d1, d1]"
    by (simp add: upt_conv_Cons kept_value_def)
  with keep_previous_delays [where 'x = unit and 's = unit, OF 1, of True] show ?thesis
    by (auto simp: demo_input_def)
qed

definition demo_two :: "(unit, unit) Operator" where
  "demo_two = (make_operator Difference 2 1)\<lparr>inputs := [Some 0, Some 1], outputs := [Some 2]\<rparr>"

theorem binary_variants_agree_witness:
  "difference_step (demo_two\<lparr>op_d := Difference\<rparr>) [[d1, d0], [d0, d1], [d0, d0], [d0]]
     = binary_equation_step (demo_two\<lparr>op_d := BinaryEquation 1\<rparr>) [[d1, d0], [d0, d1], [d0, d0], [d0]]
   \<and> (\<exists>st1 st2. binary_equation_step (demo_two\<lparr>op_d := BinaryEquation 0\<rparr>) [[d1, d0], [d0, d1], [d0, d0], [d0]] = Some st1
      \<and> binary_equation_step_idx (demo_two\<lparr>outputs := [Some 3], op_d := BinaryEquation_idx 0 1 1\<rparr>) [[d1, d0], [d0, d1], [d0, d0], [d0]] = Some st2
      \<and> st2 ! 3 ! 0 = st1 ! 2 ! 1)"
proof -
  let ?st = "[[d1, d0], [d0, d1], [d0, d0], [d0]]"
  have io: "inputs demo_two = [Some 0, Some 1]" "outputs demo_two = [Some 2]" "outputs (demo_two\<lparr>outputs := [Some 3]\<rparr>) = [Some 3]"
    "inputs (demo_two\<lparr>outputs := [Some 3]\<rparr>) = inputs demo_two" by (simp_all add: demo_two_def)
  have vecs: "has_vec ?st 0 2" "has_vec ?st 1 2" "has_vec ?st 2 2" "has_vec ?st 3 1" "{2, 3} \<inter> {0, 1 :: nat} = {}" "1 < (2 :: nat)"
    "0 < length BinaryEquationTable" by (simp_all add: has_vec_def BinaryEquationTable_def)
  from binary_variants_agree(1,2) [OF io vecs] show ?thesis by simp
qed

theorem filters_divide_witness:
  "\<exists>pass stop. range_filter_step (demo_two\<lparr>inputs := [Some 0], op_d := RangeFilter \<lparr>t_min = d0, t_max = d1\<rparr> False\<rparr>) [[d0, d1], [d0], [d0, d0]] = Some pass
    \<and> range_filter_step (demo_two\<lparr>inputs := [Some 0], op_d := RangeFilter \<lparr>t_min = d0, t_max = d1\<rparr> True\<rparr>) [[d0, d1], [d0], [d0, d0]] = Some stop
    \<and> pass ! 2 ! 1 = invalid_param \<and> stop ! 2 ! 1 = d1"
proof -
  let ?st = "[[d0, d1], [d0], [d0, d0]]" and ?op = "demo_two\<lparr>inputs := [Some 0]\<rparr>"
  have io: "inputs ?op = [Some 0]" "inputs demo_two = [Some 0, Some 1]" "outputs ?op = [Some 2]" "outputs demo_two = [Some 2]"
    by (simp_all add: demo_two_def)
  have vecs: "has_vec ?st 0 2" "has_vec ?st 1 1" "has_vec ?st 2 2" "2 \<notin> {0, 1 :: nat}" "1 < (2 :: nat)"
    by (simp_all add: has_vec_def)
  have "\<not> in_range \<lparr>t_min = d0, t_max = d1\<rparr> d1" by code_simp
  with filters_divide [OF io vecs, of "\<lparr>t_min = d0, t_max = d1\<rparr>"] show ?thesis by auto
qed

end
