(* ===== verification/A2_Aggregate.thy ===== *)
theory A2_Aggregate
  imports A2_Dataflow
begin

text \<open>
  The aggregate operators, \<^verbatim>\<open>src/src/analysis/a2/a2.cc\<close>: they reduce the elements of an array that are valid and inside of
  the thresholds to one value. The output of an operator is a vector of its own, so the values of the input are read
  first.
\<close>

section \<open>The values\<close>

definition is_valid_and_inside :: "double \<Rightarrow> Thresholds \<Rightarrow> bool" where
  "is_valid_and_inside param t \<longleftrightarrow> is_param_valid param \<and> d_le (t_min t) param \<and> d_le param (t_max t)"

definition aggregate_sum :: "Thresholds \<Rightarrow> double list \<Rightarrow> double" where
  "aggregate_sum t xs =
     (let (theSum, validSeen) = fold (\<lambda>x (s, v). if is_valid_and_inside x t then (d_add s x, True) else (s, v)) xs (d0, False)
      in if validSeen then theSum else invalid_param)"

definition aggregate_multiplicity :: "Thresholds \<Rightarrow> double list \<Rightarrow> double" where
  "aggregate_multiplicity t xs = fold (\<lambda>x n. if is_valid_and_inside x t then d_incr n else n) xs d0"

definition aggregate_min :: "Thresholds \<Rightarrow> double list \<Rightarrow> double" where
  "aggregate_min t xs =
     fold (\<lambda>x r. if is_valid_and_inside x t then d_min (if \<not> is_param_valid r then dbl_max else r) x else r) xs invalid_param"

definition aggregate_max :: "Thresholds \<Rightarrow> double list \<Rightarrow> double" where
  "aggregate_max t xs =
     fold (\<lambda>x r. if is_valid_and_inside x t then d_max (if \<not> is_param_valid r then dbl_lowest else r) x else r) xs invalid_param"

definition calculate_sum_and_valid_count :: "Thresholds \<Rightarrow> double list \<Rightarrow> double \<times> u32" where
  "calculate_sum_and_valid_count t xs =
     fold (\<lambda>x (s, n). if is_valid_and_inside x t then (d_add s x, n + 1) else (s, n)) xs (d0, 0)"

definition sv_mean :: "double \<times> u32 \<Rightarrow> double" where
  "sv_mean sv = d_div (fst sv) (d_of_int (uint (snd sv)))"

definition aggregate_mean :: "Thresholds \<Rightarrow> double list \<Rightarrow> double" where
  "aggregate_mean t xs = (let sv = calculate_sum_and_valid_count t xs in if snd sv \<noteq> 0 then sv_mean sv else invalid_param)"

definition aggregate_sigma :: "Thresholds \<Rightarrow> double list \<Rightarrow> double" where
  "aggregate_sigma t xs =
     (let sv = calculate_sum_and_valid_count t xs;
          mean = sv_mean sv;
          sigma = fold (\<lambda>x sigma. if is_valid_and_inside x t then (let d = d_sub x mean in d_add sigma (d_mul d d)) else sigma) xs d0
      in if snd sv \<noteq> 0 then d_sqrt (d_div sigma (d_of_int (uint (snd sv)))) else invalid_param)"

text \<open>The index of the first element that no later element is better than; \<open>lt\<close> is the comparison. Without an element the
  access to the first one fails.\<close>

definition better_index :: "(double \<Rightarrow> double \<Rightarrow> bool) \<Rightarrow> Thresholds \<Rightarrow> double list \<Rightarrow> nat" where
  "better_index lt t xs =
     fold (\<lambda>i k. if is_valid_and_inside (xs ! i) t \<and> (lt (xs ! i) (xs ! k) \<or> isnan (xs ! k)) then i else k) [0..<length xs] 0"

definition aggregate_x :: "(double \<Rightarrow> double \<Rightarrow> bool) \<Rightarrow> Thresholds \<Rightarrow> double list \<Rightarrow> double option" where
  "aggregate_x lt t xs =
     (let k = better_index lt t xs in
      if xs = [] then None else Some (if is_valid_and_inside (xs ! k) t then d_of_int (int k) else invalid_param))"

definition aggregate_minx :: "Thresholds \<Rightarrow> double list \<Rightarrow> double option" where "aggregate_minx = aggregate_x d_less"

definition aggregate_maxx :: "Thresholds \<Rightarrow> double list \<Rightarrow> double option" where "aggregate_maxx = aggregate_x (\<lambda>a b. d_less b a)"

text \<open>The mean of the indexes, weighted with the values, and the sum of the values.\<close>

definition calculate_meanx :: "Thresholds \<Rightarrow> double list \<Rightarrow> double \<times> double" where
  "calculate_meanx t xs =
     (let (numerator, denominator, validSeen) =
        fold (\<lambda>x (n, d, v). let A = xs ! x in
              if is_valid_and_inside A t then (d_add n (d_mul A (d_of_int (int x))), d_add d A, True) else (n, d, v))
          [0..<length xs] (d0, d0, False)
      in if validSeen then (d_div numerator denominator, denominator) else (invalid_param, invalid_param))"

definition aggregate_meanx :: "Thresholds \<Rightarrow> double list \<Rightarrow> double" where
  "aggregate_meanx t xs = fst (calculate_meanx t xs)"

definition aggregate_sigmax :: "Thresholds \<Rightarrow> double list \<Rightarrow> double option" where
  "aggregate_sigmax t xs =
     (if xs = [] \<or> isnan (t_min t) \<or> isnan (t_max t) then None
      else
        let (meanx, sumx) = calculate_meanx t xs in
        Some (if is_param_valid meanx
              then let sigmax = fold (\<lambda>x s. let A = xs ! x in
                       if is_valid_and_inside A t
                       then (let d = d_sub (d_of_int (int x)) meanx; d = d_mul d d in d_add s (d_mul d A)) else s)
                     [0..<length xs] d0
                   in d_sqrt (d_div sigmax sumx)
              else invalid_param))"

section \<open>Operators\<close>

definition aggregate_value :: "AggregateType \<Rightarrow> Thresholds \<Rightarrow> double list \<Rightarrow> double option" where
  "aggregate_value a t xs =
     (case a of
        Aggregate_Sum \<Rightarrow> Some (aggregate_sum t xs)
      | Aggregate_Multiplicity \<Rightarrow> Some (aggregate_multiplicity t xs)
      | Aggregate_Min \<Rightarrow> Some (aggregate_min t xs)
      | Aggregate_Max \<Rightarrow> Some (aggregate_max t xs)
      | Aggregate_Mean \<Rightarrow> Some (aggregate_mean t xs)
      | Aggregate_Sigma \<Rightarrow> Some (aggregate_sigma t xs)
      | Aggregate_MinX \<Rightarrow> aggregate_minx t xs
      | Aggregate_MaxX \<Rightarrow> aggregate_maxx t xs
      | Aggregate_MeanX \<Rightarrow> Some (aggregate_meanx t xs)
      | Aggregate_SigmaX \<Rightarrow> aggregate_sigmax t xs)"

definition aggregate_step :: "('x, 's) Operator \<Rightarrow> Store \<Rightarrow> Store option" where
  "aggregate_step op st =
     (case op_d op of
        Aggregate a t \<Rightarrow> do {
          i \<leftarrow> in_vec op 0; out \<leftarrow> out_vec op 0;
          xs \<leftarrow> at_opt st i;
          x \<leftarrow> aggregate_value a t xs;
          vec_set out 0 x st }
      | _ \<Rightarrow> None)"

text \<open>\<^verbatim>\<open>std::min_element\<close> and \<^verbatim>\<open>std::max_element\<close>; there must be an element.\<close>

fun min_element :: "double list \<Rightarrow> double option" where
  "min_element [] = None"
| "min_element (x # xs) = Some (fold (\<lambda>y m. if d_less y m then y else m) xs x)"

fun max_element :: "double list \<Rightarrow> double option" where
  "max_element [] = None"
| "max_element (x # xs) = Some (fold (\<lambda>y m. if d_less m y then y else m) xs x)"

definition make_aggregate_op :: "AggregateType \<Rightarrow> PipeVectors \<Rightarrow> Thresholds \<Rightarrow> Store \<Rightarrow> (('x, 's) Operator \<times> Store) option" where
  "make_aggregate_op a input t st = do {
     lows \<leftarrow> at_opt st (pv_lowerLimits input); ups \<leftarrow> at_opt st (pv_upperLimits input);
     mn \<leftarrow> (if isnan (t_min t) then min_element lows else Some (t_min t));
     mx \<leftarrow> (if isnan (t_max t) then max_element ups else Some (t_max t));
     op \<leftarrow> assign_input (make_operator (Aggregate a \<lparr>t_min = mn, t_max = mx\<rparr>) 1 1) input 0;
     Some (push_output_vectors op 0 1 d0 d0 st) }"

text \<open>The limits of the output, from the lower and the upper limits of the input and its size.\<close>

definition aggregate_limits :: "AggregateType \<Rightarrow> double list \<Rightarrow> double list \<Rightarrow> nat \<Rightarrow> (double \<times> double) option" where
  "aggregate_limits a lows ups n =
     (let mins = map2 d_min lows ups; maxs = map2 d_max lows ups;
          totals = (fold (\<lambda>x s. d_add s x) mins d0, fold (\<lambda>x s. d_add s x) maxs d0);
          minmax = do {
            l1 \<leftarrow> min_element lows; l2 \<leftarrow> min_element ups; u1 \<leftarrow> max_element lows; u2 \<leftarrow> max_element ups;
            Some (d_min l1 l2, d_max u1 u2) };
          count = d_of_int (int n)
      in case a of
           Aggregate_Sum \<Rightarrow> Some totals
         | Aggregate_Min \<Rightarrow> minmax
         | Aggregate_Max \<Rightarrow> minmax
         | Aggregate_Mean \<Rightarrow>
             (let (lo, hi) = (fold (\<lambda>x s. d_add s x) (map2 (\<lambda>l u. if d_less u l then u else l) lows ups) d0,
                              fold (\<lambda>x s. d_add s x) (map2 (\<lambda>l u. if d_less u l then l else u) lows ups) d0)
              in Some (d_div lo count, d_div hi count))
         | Aggregate_Sigma \<Rightarrow>
             (let llMin = fold (\<lambda>x m. d_min m x) mins dbl_max; ulMax = fold (\<lambda>x m. d_max m x) maxs dbl_lowest
              in Some (d0, d_sqrt (d_sub ulMax llMin)))
         | _ \<Rightarrow> Some (d0, count))"

definition make_aggregate :: "AggregateType \<Rightarrow> PipeVectors \<Rightarrow> Thresholds \<Rightarrow> Store \<Rightarrow> (('x, 's) Operator \<times> Store) option" where
  "make_aggregate a input t st = do {
     (op, st) \<leftarrow> make_aggregate_op a input t st;
     lows \<leftarrow> at_opt st (pv_lowerLimits input); ups \<leftarrow> at_opt st (pv_upperLimits input);
     let n = pipe_size st input;
     check (a \<in> {Aggregate_Sum, Aggregate_Mean, Aggregate_Sigma} \<longrightarrow> n \<le> length lows \<and> n \<le> length ups);
     (lo, hi) \<leftarrow> aggregate_limits a
       (if a \<in> {Aggregate_Min, Aggregate_Max} then lows else take n lows)
       (if a \<in> {Aggregate_Min, Aggregate_Max} then ups else take n ups) n;
     ol \<leftarrow> slot (outputLowerLimits op) 0; ou \<leftarrow> slot (outputUpperLimits op) 0;
     st \<leftarrow> vec_set ol 0 lo st;
     st \<leftarrow> vec_set ou 0 hi st;
     Some (op, st) }"

section \<open>What the aggregates are\<close>

definition inside :: "Thresholds \<Rightarrow> double list \<Rightarrow> double list" where
  "inside t xs = filter (\<lambda>x. is_valid_and_inside x t) xs"

lemma inside_not_nan: "is_valid_and_inside x t \<Longrightarrow> \<not> isnan x \<and> is_param_valid x"
  by (auto simp: is_valid_and_inside_def d_le_def)

lemma fold_inside: "fold (\<lambda>x. if is_valid_and_inside x t then f x else id) xs s = fold f (inside t xs) s"
  by (induction xs arbitrary: s) (simp_all add: inside_def)

lemma multiplicity_fold: "aggregate_multiplicity t xs = fold (\<lambda>x. d_incr) (inside t xs) d0"
proof -
  have "(\<lambda>x n. if is_valid_and_inside x t then d_incr n else n) = (\<lambda>x. if is_valid_and_inside x t then d_incr else id)"
    by (auto intro!: ext)
  then show ?thesis by (simp add: aggregate_multiplicity_def fold_inside)
qed

lemma fold_incr: "int k + int (length xs) \<le> 0x20000000000000 \<Longrightarrow> fold (\<lambda>x. d_incr) xs (d_of_int (int k)) = d_of_int (int k + int (length xs))"
proof (induction xs arbitrary: k)
  case (Cons x xs)
  have "d_incr (d_of_int (int k)) = d_of_int (int (k + 1))" using Cons.prems by (subst d_incr_of_int) (simp_all add: add.commute)
  then show ?case using Cons.IH [of "k + 1"] Cons.prems by (simp add: ac_simps)
qed simp

lemma d_add_of_int:
  assumes "\<bar>a\<bar> \<le> 0x20000000000000" "\<bar>b\<bar> \<le> 0x20000000000000" "\<bar>a + b\<bar> \<le> 0x20000000000000"
  shows "d_add (d_of_int a) (d_of_int b) = d_of_int (a + b)"
proof -
  have v: "is_finite (d_of_int a)" "d_val (d_of_int a) = of_int a" "is_finite (d_of_int b)" "d_val (d_of_int b) = of_int b"
    using assms by (simp_all add: d_of_int_exact)
  show ?thesis
  proof (cases "a + b = 0")
    case True
    then have "b = - a" by simp
    have "(d_neg (d_of_int a) \<and> d_neg (d_of_int b)) = False" using True by (auto simp: d_of_int_def of_int_less_0_iff)
    moreover have "d_val (d_of_int a) + d_val (d_of_int b) = 0" using v True by (simp add: of_int_add [symmetric] del: of_int_add)
    ultimately have "d_add (d_of_int a) (d_of_int b) = make_double False 0" using v by (simp only: d_add_def finite_not_nan if_True if_False simp_thms)
    also have "\<dots> = d_of_int 0" by (simp add: d_of_int_def d_of_def round_mag_def)
    finally show ?thesis using True by simp
  next
    case False
    then have "of_int a + of_int b \<noteq> (0 :: rat)" by (metis of_int_add of_int_eq_0_iff)
    then have "d_add (d_of_int a) (d_of_int b) = d_of (of_int a + of_int b)" using v by (simp add: d_add_finite)
    then show ?thesis by (simp add: d_of_int_def [of "a + b"])
  qed
qed

lemma sum_fold: "aggregate_sum t xs = (if inside t xs = [] then invalid_param else fold (\<lambda>x s. d_add s x) (inside t xs) d0)"
proof -
  have "fold (\<lambda>x (s, v). if is_valid_and_inside x t then (d_add s x, True) else (s, v)) xs (s, v)
      = (fold (\<lambda>x s. d_add s x) (inside t xs) s, v \<or> inside t xs \<noteq> [])" for s v
    by (induction xs arbitrary: s v) (simp_all add: inside_def)
  then show ?thesis by (simp add: aggregate_sum_def)
qed

lemma fold_sum_exact:
  assumes "\<forall>n \<in> set ns. 0 \<le> n" "0 \<le> k" "k + sum_list ns \<le> 0x20000000000000"
  shows "fold (\<lambda>x s. d_add s x) (map d_of_int ns) (d_of_int k) = d_of_int (k + sum_list ns)"
  using assms
proof (induction ns arbitrary: k)
  case (Cons n ns)
  have "0 \<le> sum_list ns" using Cons.prems(1) by (simp add: sum_list_nonneg)
  then have "d_add (d_of_int k) (d_of_int n) = d_of_int (k + n)" using Cons.prems by (intro d_add_of_int) auto
  then show ?case using Cons.IH [of "k + n"] Cons.prems by (simp add: add.assoc)
qed simp

text \<open>The smallest and the largest element.\<close>

lemma dbl_max_parts: "d_mag dbl_max = 0x7FEFFFFFFFFFFFFF" "\<not> d_neg dbl_max" "d_mag dbl_lowest = 0x7FEFFFFFFFFFFFFF" "d_neg dbl_lowest"
  by (simp_all add: dbl_max_def dbl_lowest_def d_mag_def d_neg_def)

lemma dbl_max_number [simp]: "\<not> isnan dbl_max" "\<not> isnan dbl_lowest"
  by (simp_all add: isnan_def dbl_max_parts inf_mag_def)

lemma beyond_dbl_max: "d_less dbl_max x \<Longrightarrow> isinf x" "d_less x dbl_lowest \<Longrightarrow> isinf x"
  by (auto simp: d_less_def d_rank_def dbl_max_parts isnan_def isinf_def inf_mag_def split: if_splits)
    (use d_mag_bounds(1) [of x] in linarith)+

lemma d_min_max_number [simp]: "\<not> isnan a \<Longrightarrow> \<not> isnan b \<Longrightarrow> \<not> isnan (d_min a b) \<and> \<not> isnan (d_max a b)"
  by (simp add: d_min_def d_max_def)

lemma min_fold: "aggregate_min t xs = (if inside t xs = [] then invalid_param else fold (\<lambda>x r. d_min r x) (inside t xs) dbl_max)"
proof -
  let ?f = "\<lambda>x r. if is_valid_and_inside x t then d_min (if \<not> is_param_valid r then dbl_max else r) x else r"
  have num: "\<not> isnan r \<Longrightarrow> fold ?f ys r = fold (\<lambda>x r. d_min r x) (inside t ys) r" for r ys
    by (induction ys arbitrary: r) (auto simp: inside_def not_nan_valid dest: inside_not_nan)
  show ?thesis unfolding aggregate_min_def
    by (induction xs) (auto simp: num inside_not_nan, auto simp: inside_def)
qed

lemma max_fold: "aggregate_max t xs = (if inside t xs = [] then invalid_param else fold (\<lambda>x r. d_max r x) (inside t xs) dbl_lowest)"
proof -
  let ?f = "\<lambda>x r. if is_valid_and_inside x t then d_max (if \<not> is_param_valid r then dbl_lowest else r) x else r"
  have num: "\<not> isnan r \<Longrightarrow> fold ?f ys r = fold (\<lambda>x r. d_max r x) (inside t ys) r" for r ys
    by (induction ys arbitrary: r) (auto simp: inside_def not_nan_valid dest: inside_not_nan)
  show ?thesis unfolding aggregate_max_def
    by (induction xs) (auto simp: num inside_not_nan, auto simp: inside_def)
qed

lemma fold_min:
  assumes "\<not> isnan m" "\<forall>x \<in> set xs. \<not> isnan x"
  shows "d_le (fold (\<lambda>x r. d_min r x) xs m) m \<and> (\<forall>x \<in> set xs. d_le (fold (\<lambda>x r. d_min r x) xs m) x)
    \<and> (fold (\<lambda>x r. d_min r x) xs m = m \<or> fold (\<lambda>x r. d_min r x) xs m \<in> set xs)"
  using assms
proof (induction xs arbitrary: m)
  case (Cons x xs)
  have "\<not> isnan (d_min m x)" "d_le (d_min m x) m" "d_le (d_min m x) x" "d_min m x = m \<or> d_min m x = x"
    using Cons.prems by (auto simp: d_min_def d_less_def d_le_def)
  note m = this
  let ?r = "fold (\<lambda>x r. d_min r x) xs (d_min m x)"
  have IH: "d_le ?r (d_min m x)" "\<forall>y \<in> set xs. d_le ?r y" "?r = d_min m x \<or> ?r \<in> set xs"
    using Cons.IH [OF m(1)] Cons.prems(2) by simp_all
  have "d_le ?r m" "d_le ?r x" using d_order(2) [OF IH(1)] m(2,3) by simp_all
  then show ?case using IH(2,3) m(4) by auto
qed (simp add: d_order(6))

lemma fold_max:
  assumes "\<not> isnan m" "\<forall>x \<in> set xs. \<not> isnan x"
  shows "d_le m (fold (\<lambda>x r. d_max r x) xs m) \<and> (\<forall>x \<in> set xs. d_le x (fold (\<lambda>x r. d_max r x) xs m))
    \<and> (fold (\<lambda>x r. d_max r x) xs m = m \<or> fold (\<lambda>x r. d_max r x) xs m \<in> set xs)"
  using assms
proof (induction xs arbitrary: m)
  case (Cons x xs)
  have "\<not> isnan (d_max m x)" "d_le m (d_max m x)" "d_le x (d_max m x)" "d_max m x = m \<or> d_max m x = x"
    using Cons.prems by (auto simp: d_max_def d_less_def d_le_def)
  note m = this
  let ?r = "fold (\<lambda>x r. d_max r x) xs (d_max m x)"
  have IH: "d_le (d_max m x) ?r" "\<forall>y \<in> set xs. d_le y ?r" "?r = d_max m x \<or> ?r \<in> set xs"
    using Cons.IH [OF m(1)] Cons.prems(2) by simp_all
  have "d_le m ?r" "d_le x ?r" using d_order(2) [OF _ IH(1)] m(2,3) by simp_all
  then show ?case using IH(2,3) m(4) by auto
qed (simp add: d_order(6))

text \<open>The search for an index. An order on numbers that has no meaning for other values.\<close>

locale number_order =
  fixes lt :: "double \<Rightarrow> double \<Rightarrow> bool"
  assumes lt_trans: "lt a b \<Longrightarrow> lt b c \<Longrightarrow> lt a c"
    and lt_irrefl: "\<not> lt a a"
    and lt_negtrans: "\<not> isnan a \<Longrightarrow> \<not> isnan b \<Longrightarrow> \<not> isnan c \<Longrightarrow> \<not> lt a b \<Longrightarrow> \<not> lt b c \<Longrightarrow> \<not> lt a c"
    and lt_numbers: "lt a b \<Longrightarrow> \<not> isnan a \<and> \<not> isnan b"
begin

definition best :: "Thresholds \<Rightarrow> double list \<Rightarrow> nat \<Rightarrow> nat \<Rightarrow> bool" where
  "best t xs n k \<longleftrightarrow> k < n \<and> is_valid_and_inside (xs ! k) t
     \<and> (\<forall>j < n. is_valid_and_inside (xs ! j) t \<longrightarrow> \<not> lt (xs ! j) (xs ! k) \<and> (j < k \<longrightarrow> lt (xs ! k) (xs ! j)))"

definition index_upto :: "Thresholds \<Rightarrow> double list \<Rightarrow> nat \<Rightarrow> nat" where
  "index_upto t xs n =
     fold (\<lambda>i k. if is_valid_and_inside (xs ! i) t \<and> (lt (xs ! i) (xs ! k) \<or> isnan (xs ! k)) then i else k) [0..<n] 0"

lemma index_upto_simps [simp]:
  "index_upto t xs 0 = 0"
  "index_upto t xs (Suc n) = (let k = index_upto t xs n in
     if is_valid_and_inside (xs ! n) t \<and> (lt (xs ! n) (xs ! k) \<or> isnan (xs ! k)) then n else k)"
  by (simp_all add: index_upto_def Let_def)

lemma better_index_upto: "better_index lt t xs = index_upto t xs (length xs)"
  by (simp add: better_index_def index_upto_def)

text \<open>If the first element is one of the candidates, not a number, or worse than all candidates.\<close>

lemma index_upto_best:
  assumes "is_valid_and_inside (xs ! 0) t \<or> isnan (xs ! 0) \<or> (\<forall>x. is_valid_and_inside x t \<longrightarrow> lt x (xs ! 0))"
  shows "if \<exists>j < n. is_valid_and_inside (xs ! j) t then best t xs n (index_upto t xs n) else index_upto t xs n = 0"
proof (induction n)
  case (Suc n)
  let ?k = "index_upto t xs n"
  have num: "is_valid_and_inside x t \<Longrightarrow> \<not> isnan x" for x by (simp add: inside_not_nan)
  show ?case
  proof (cases "is_valid_and_inside (xs ! n) t")
    case False
    then have "index_upto t xs (Suc n) = ?k" by simp
    moreover have "best t xs n k \<Longrightarrow> best t xs (Suc n) k" for k using False by (auto simp: best_def less_Suc_eq)
    moreover have "(\<exists>j < Suc n. is_valid_and_inside (xs ! j) t) = (\<exists>j < n. is_valid_and_inside (xs ! j) t)"
      using False by (auto simp: less_Suc_eq)
    ultimately show ?thesis using Suc by (simp del: index_upto_simps split: if_splits)
  next
    case in_n: True
    show ?thesis
    proof (cases "\<exists>j < n. is_valid_and_inside (xs ! j) t")
      case True
      then have k: "best t xs n ?k" using Suc by simp
      then have kn: "\<not> isnan (xs ! ?k)" "?k < n" using num by (simp_all add: best_def)
      show ?thesis
      proof (cases "lt (xs ! n) (xs ! ?k)")
        case True
        have "\<not> lt (xs ! j) (xs ! n) \<and> lt (xs ! n) (xs ! j)" if "j < n" "is_valid_and_inside (xs ! j) t" for j
        proof -
          have j: "\<not> lt (xs ! j) (xs ! ?k)" using k that by (simp add: best_def)
          then have "\<not> lt (xs ! j) (xs ! n)" using True lt_trans by blast
          moreover have "lt (xs ! n) (xs ! j)" using lt_negtrans [OF num [OF in_n] num [OF that(2)] kn(1)] j True by blast
          ultimately show ?thesis ..
        qed
        then show ?thesis using True in_n lt_irrefl by (auto simp: best_def Let_def less_Suc_eq)
      next
        case False
        then show ?thesis using k kn in_n by (auto simp: best_def Let_def less_Suc_eq)
      qed
    next
      case none: False
      then have "?k = 0" using Suc by simp
      then have "index_upto t xs (Suc n) = n" using assms in_n none by (cases "n = 0") (auto simp: Let_def)
      then show ?thesis using in_n none lt_irrefl by (auto simp: best_def less_Suc_eq)
    qed
  qed
qed simp

text \<open>If it is a number that is no candidate, and no candidate is better.\<close>

lemma index_upto_stuck:
  assumes "\<not> isnan (xs ! 0)" "\<forall>x. is_valid_and_inside x t \<longrightarrow> \<not> lt x (xs ! 0)"
  shows "index_upto t xs n = 0"
  using assms by (induction n) (auto simp: Let_def)

lemma aggregate_x_value:
  assumes "xs \<noteq> []"
  shows "is_valid_and_inside (xs ! 0) t \<or> isnan (xs ! 0) \<or> (\<forall>x. is_valid_and_inside x t \<longrightarrow> lt x (xs ! 0)) \<Longrightarrow>
      (if inside t xs = [] then aggregate_x lt t xs = Some invalid_param
       else \<exists>k. best t xs (length xs) k \<and> aggregate_x lt t xs = Some (d_of_int (int k)))"
    and "\<not> isnan (xs ! 0) \<Longrightarrow> \<not> is_valid_and_inside (xs ! 0) t \<Longrightarrow> \<forall>x. is_valid_and_inside x t \<longrightarrow> \<not> lt x (xs ! 0) \<Longrightarrow>
      aggregate_x lt t xs = Some invalid_param"
proof -
  have ex: "(\<exists>j < length xs. is_valid_and_inside (xs ! j) t) \<longleftrightarrow> inside t xs \<noteq> []"
    by (auto simp: inside_def filter_empty_conv set_conv_nth)
  show "if inside t xs = [] then aggregate_x lt t xs = Some invalid_param
       else \<exists>k. best t xs (length xs) k \<and> aggregate_x lt t xs = Some (d_of_int (int k))"
    if "is_valid_and_inside (xs ! 0) t \<or> isnan (xs ! 0) \<or> (\<forall>x. is_valid_and_inside x t \<longrightarrow> lt x (xs ! 0))"
  proof (cases "inside t xs = []")
    case True
    then have "index_upto t xs (length xs) = 0" "\<not> is_valid_and_inside (xs ! 0) t"
      using index_upto_best [OF that, of "length xs"] ex assms by auto
    then show ?thesis using True assms by (simp add: aggregate_x_def better_index_upto)
  next
    case False
    then have b: "best t xs (length xs) (index_upto t xs (length xs))" using index_upto_best [OF that, of "length xs"] ex by simp
    then have "is_valid_and_inside (xs ! index_upto t xs (length xs)) t" by (simp add: best_def)
    then show ?thesis using b False assms by (auto simp: aggregate_x_def better_index_upto)
  qed
  show "aggregate_x lt t xs = Some invalid_param"
    if "\<not> isnan (xs ! 0)" "\<not> is_valid_and_inside (xs ! 0) t" "\<forall>x. is_valid_and_inside x t \<longrightarrow> \<not> lt x (xs ! 0)"
    using index_upto_stuck [OF that(1,3)] that(2) assms by (simp add: aggregate_x_def better_index_upto)
qed

end

interpretation min_order: number_order d_less
  by unfold_locales (auto simp: d_less_def)

interpretation max_order: number_order "\<lambda>a b. d_less b a"
  by unfold_locales (auto simp: d_less_def)

section \<open>Properties\<close>

text \<open>The multiplicity is the number of elements that are valid and inside of the thresholds, and the sum of integer
  values is exact up to two to the 53; without such an element the multiplicity is zero, the sum invalid.\<close>

theorem aggregate_counts:
  shows "length xs \<le> 0x20000000000000 \<Longrightarrow> aggregate_multiplicity t xs = d_of_int (int (length (inside t xs)))"
    and "inside t xs = [] \<Longrightarrow> aggregate_sum t xs = invalid_param"
    and "inside t xs = map d_of_int ns \<Longrightarrow> ns \<noteq> [] \<Longrightarrow> \<forall>n \<in> set ns. 0 \<le> n \<Longrightarrow> sum_list ns \<le> 0x20000000000000 \<Longrightarrow>
      aggregate_sum t xs = d_of_int (sum_list ns)"
proof -
  show "aggregate_multiplicity t xs = d_of_int (int (length (inside t xs)))" if "length xs \<le> 0x20000000000000"
  proof -
    have "length (inside t xs) \<le> length xs" by (simp add: inside_def)
    then show ?thesis using fold_incr [of 0 "inside t xs"] that by (simp add: multiplicity_fold)
  qed
  show "inside t xs = [] \<Longrightarrow> aggregate_sum t xs = invalid_param" by (simp add: sum_fold)
  show "inside t xs = map d_of_int ns \<Longrightarrow> ns \<noteq> [] \<Longrightarrow> \<forall>n \<in> set ns. 0 \<le> n \<Longrightarrow> sum_list ns \<le> 0x20000000000000 \<Longrightarrow>
      aggregate_sum t xs = d_of_int (sum_list ns)"
    using fold_sum_exact [of ns 0] by (simp add: sum_fold)
qed

lemma extreme_elements:
  shows "inside t xs = [] \<Longrightarrow> aggregate_min t xs = invalid_param \<and> aggregate_max t xs = invalid_param"
    and "inside t xs \<noteq> [] \<Longrightarrow> (\<forall>x \<in> set (inside t xs). d_le (aggregate_min t xs) x)
      \<and> (aggregate_min t xs \<in> set (inside t xs) \<or> aggregate_min t xs = dbl_max \<and> (\<forall>x \<in> set (inside t xs). isinf x))"
    and "inside t xs \<noteq> [] \<Longrightarrow> (\<forall>x \<in> set (inside t xs). d_le x (aggregate_max t xs))
      \<and> (aggregate_max t xs \<in> set (inside t xs) \<or> aggregate_max t xs = dbl_lowest \<and> (\<forall>x \<in> set (inside t xs). isinf x))"
proof -
  have num: "\<forall>x \<in> set (inside t xs). \<not> isnan x" using inside_not_nan by (auto simp: inside_def)
  note mn = fold_min [OF dbl_max_number(1) num] and mx = fold_max [OF dbl_max_number(2) num]
  show "inside t xs = [] \<Longrightarrow> aggregate_min t xs = invalid_param \<and> aggregate_max t xs = invalid_param"
    by (simp add: min_fold max_fold)
  show "(\<forall>x \<in> set (inside t xs). d_le (aggregate_min t xs) x)
      \<and> (aggregate_min t xs \<in> set (inside t xs) \<or> aggregate_min t xs = dbl_max \<and> (\<forall>x \<in> set (inside t xs). isinf x))"
    if "inside t xs \<noteq> []"
  proof -
    have inf: "isinf x" if "d_le dbl_max x" "x \<noteq> dbl_max" for x
      using that beyond_dbl_max(1) [of x] d_order(7) [of dbl_max x]
      by (auto simp: d_le_def d_less_def d_rank_def double_eq_iff [of x] dbl_max_parts split: if_splits)
        (use d_mag_bounds(1) [of x] in linarith)
    show ?thesis using that mn inf by (simp add: min_fold) metis
  qed
  show "(\<forall>x \<in> set (inside t xs). d_le x (aggregate_max t xs))
      \<and> (aggregate_max t xs \<in> set (inside t xs) \<or> aggregate_max t xs = dbl_lowest \<and> (\<forall>x \<in> set (inside t xs). isinf x))"
    if "inside t xs \<noteq> []"
  proof -
    have inf: "isinf x" if "d_le x dbl_lowest" "x \<noteq> dbl_lowest" for x
      using that beyond_dbl_max(2) [of x] d_order(7) [of x dbl_lowest]
      by (auto simp: d_le_def d_less_def d_rank_def double_eq_iff [of x] dbl_max_parts split: if_splits)
        (use d_mag_bounds(1) [of x] in linarith)
    show ?thesis using that mx inf by (simp add: max_fold) metis
  qed
qed

text \<open>C37: minimum and maximum are elements that are valid and inside of the thresholds, and no other such element is
  smaller or larger; without such an element they are invalid. The exception are infinities: if there is nothing else,
  the result is the largest finite number, which need not be inside.\<close>

theorem aggregate_extremes:
  "if inside t xs = [] then aggregate_min t xs = invalid_param \<and> aggregate_max t xs = invalid_param
   else (\<forall>x \<in> set (inside t xs). d_le (aggregate_min t xs) x \<and> d_le x (aggregate_max t xs))
      \<and> (aggregate_min t xs \<in> set (inside t xs) \<or> aggregate_min t xs = dbl_max \<and> (\<forall>x \<in> set (inside t xs). isinf x))
      \<and> (aggregate_max t xs \<in> set (inside t xs) \<or> aggregate_max t xs = dbl_lowest \<and> (\<forall>x \<in> set (inside t xs). isinf x))"
  using extreme_elements [of t xs] by (simp split: if_split)

lemma index_of_extreme:
  assumes "xs \<noteq> []" "\<not> isnan (t_min t)" "\<not> isnan (t_max t)"
  shows "\<not> d_less (xs ! 0) (t_min t) \<Longrightarrow>
      (if inside t xs = [] then aggregate_minx t xs = Some invalid_param
       else \<exists>k < length xs. aggregate_minx t xs = Some (d_of_int (int k)) \<and> is_valid_and_inside (xs ! k) t
         \<and> (\<forall>j < length xs. is_valid_and_inside (xs ! j) t \<longrightarrow> \<not> d_less (xs ! j) (xs ! k) \<and> (j < k \<longrightarrow> d_less (xs ! k) (xs ! j))))"
    and "d_less (xs ! 0) (t_min t) \<Longrightarrow> aggregate_minx t xs = Some invalid_param"
    and "\<not> d_less (t_max t) (xs ! 0) \<Longrightarrow>
      (if inside t xs = [] then aggregate_maxx t xs = Some invalid_param
       else \<exists>k < length xs. aggregate_maxx t xs = Some (d_of_int (int k)) \<and> is_valid_and_inside (xs ! k) t
         \<and> (\<forall>j < length xs. is_valid_and_inside (xs ! j) t \<longrightarrow> \<not> d_less (xs ! k) (xs ! j) \<and> (j < k \<longrightarrow> d_less (xs ! j) (xs ! k))))"
    and "d_less (t_max t) (xs ! 0) \<Longrightarrow> aggregate_maxx t xs = Some invalid_param"
proof -
  have not_inside: "d_le x (t_max t) \<Longrightarrow> d_less (t_max t) y \<Longrightarrow> d_less x y" "d_less y x \<Longrightarrow> d_le x y \<Longrightarrow> False"
    "d_le (t_min t) x \<Longrightarrow> d_less y (t_min t) \<Longrightarrow> d_less y x" for x y
    by (auto simp: d_le_def d_less_def)
  have min_pre: "is_valid_and_inside (xs ! 0) t \<or> isnan (xs ! 0) \<or> (\<forall>x. is_valid_and_inside x t \<longrightarrow> d_less x (xs ! 0))"
    if "\<not> d_less (xs ! 0) (t_min t)"
    using that assms by (auto simp: is_valid_and_inside_def not_nan_valid d_le_def d_less_def)
  have max_pre: "is_valid_and_inside (xs ! 0) t \<or> isnan (xs ! 0) \<or> (\<forall>x. is_valid_and_inside x t \<longrightarrow> d_less (xs ! 0) x)"
    if "\<not> d_less (t_max t) (xs ! 0)"
    using that assms by (auto simp: is_valid_and_inside_def not_nan_valid d_le_def d_less_def)
  show "if inside t xs = [] then aggregate_minx t xs = Some invalid_param
       else \<exists>k < length xs. aggregate_minx t xs = Some (d_of_int (int k)) \<and> is_valid_and_inside (xs ! k) t
         \<and> (\<forall>j < length xs. is_valid_and_inside (xs ! j) t \<longrightarrow> \<not> d_less (xs ! j) (xs ! k) \<and> (j < k \<longrightarrow> d_less (xs ! k) (xs ! j)))"
    if "\<not> d_less (xs ! 0) (t_min t)"
    using min_order.aggregate_x_value(1) [OF assms(1) min_pre [OF that]] unfolding min_order.best_def aggregate_minx_def by (auto split: if_splits)
  show "if inside t xs = [] then aggregate_maxx t xs = Some invalid_param
       else \<exists>k < length xs. aggregate_maxx t xs = Some (d_of_int (int k)) \<and> is_valid_and_inside (xs ! k) t
         \<and> (\<forall>j < length xs. is_valid_and_inside (xs ! j) t \<longrightarrow> \<not> d_less (xs ! k) (xs ! j) \<and> (j < k \<longrightarrow> d_less (xs ! j) (xs ! k)))"
    if "\<not> d_less (t_max t) (xs ! 0)"
    using max_order.aggregate_x_value(1) [OF assms(1) max_pre [OF that]] unfolding max_order.best_def aggregate_maxx_def by (auto split: if_splits)
  show "aggregate_minx t xs = Some invalid_param" if "d_less (xs ! 0) (t_min t)"
    unfolding aggregate_minx_def using that
    by (intro min_order.aggregate_x_value(2) [OF assms(1)]) (auto simp: is_valid_and_inside_def d_le_def d_less_def)
  show "aggregate_maxx t xs = Some invalid_param" if "d_less (t_max t) (xs ! 0)"
    unfolding aggregate_maxx_def using that
    by (intro max_order.aggregate_x_value(2) [OF assms(1)]) (auto simp: is_valid_and_inside_def d_le_def d_less_def)
qed

text \<open>C20: the index of the minimum is the index of the first smallest element that is valid and inside of the thresholds,
  and invalid without such an element, if the first element of the array is not below the thresholds; if it is, the index
  is invalid whatever the other elements are. The same holds for the maximum with a first element above the thresholds.\<close>

theorem aggregate_index:
  assumes "xs \<noteq> []" "\<not> isnan (t_min t)" "\<not> isnan (t_max t)"
  shows "(if inside t xs = [] \<or> d_less (xs ! 0) (t_min t) then aggregate_minx t xs = Some invalid_param
      else \<exists>k < length xs. aggregate_minx t xs = Some (d_of_int (int k)) \<and> is_valid_and_inside (xs ! k) t
        \<and> (\<forall>j < length xs. is_valid_and_inside (xs ! j) t \<longrightarrow> \<not> d_less (xs ! j) (xs ! k) \<and> (j < k \<longrightarrow> d_less (xs ! k) (xs ! j))))
    \<and> (if inside t xs = [] \<or> d_less (t_max t) (xs ! 0) then aggregate_maxx t xs = Some invalid_param
      else \<exists>k < length xs. aggregate_maxx t xs = Some (d_of_int (int k)) \<and> is_valid_and_inside (xs ! k) t
        \<and> (\<forall>j < length xs. is_valid_and_inside (xs ! j) t \<longrightarrow> \<not> d_less (xs ! k) (xs ! j) \<and> (j < k \<longrightarrow> d_less (xs ! j) (xs ! k))))"
  using index_of_extreme [OF assms]
  by (cases "d_less (xs ! 0) (t_min t)"; cases "d_less (t_max t) (xs ! 0)"; cases "inside t xs = []"; simp only: if_True if_False simp_thms)

text \<open>Aggregates of three values with the middle one outside or invalid.\<close>

definition demo_limits :: Thresholds where "demo_limits = \<lparr>t_min = d_of_int 1, t_max = d_of_int 5\<rparr>"

lemma demo_inside:
  "inside demo_limits [d_of_int 4, d_of_int 7, d_of_int 2] = map d_of_int [4, 2]"
  "inside demo_limits [d_of_int 0, d_of_int 2] = map d_of_int [2]" "inside demo_limits [invalid_param] = []"
  "d_less (d_of_int 0) (t_min demo_limits)" "\<not> d_less (t_max demo_limits) (d_of_int 0)" 
  "\<not> d_less (d_of_int 4) (t_min demo_limits)"
  "\<not> isnan (t_min demo_limits)" "\<not> isnan (t_max demo_limits)"
  by code_simp+

theorem aggregate_counts_witness:
  "aggregate_multiplicity demo_limits [d_of_int 4, d_of_int 7, d_of_int 2] = d_of_int 2
   \<and> aggregate_sum demo_limits [d_of_int 4, d_of_int 7, d_of_int 2] = d_of_int 6 \<and> aggregate_sum demo_limits [invalid_param] = invalid_param"
  using aggregate_counts(1) [of "[d_of_int 4, d_of_int 7, d_of_int 2]" demo_limits] aggregate_counts(2) [OF demo_inside(3)]
    aggregate_counts(3) [OF demo_inside(1)] by (simp add: demo_inside)

theorem aggregate_extremes_witness:
  "aggregate_min demo_limits [d_of_int 4, d_of_int 7, d_of_int 2] = d_of_int 2
   \<and> aggregate_max demo_limits [d_of_int 4, d_of_int 7, d_of_int 2] = d_of_int 4 \<and> aggregate_min demo_limits [invalid_param] = invalid_param"
proof -
  have order: "\<not> d_le (d_of_int 4) (d_of_int 2)" "\<not> isinf (d_of_int 4)" "\<not> isinf (d_of_int 2)" by code_simp+
  have "aggregate_min demo_limits [invalid_param] = invalid_param"
    using aggregate_extremes [of demo_limits "[invalid_param]"] by (simp add: demo_inside(3))
  then show ?thesis
    using aggregate_extremes [of demo_limits "[d_of_int 4, d_of_int 7, d_of_int 2]"] order by (auto simp: demo_inside(1))
qed

theorem aggregate_index_witness:
  "aggregate_minx demo_limits [d_of_int 4, d_of_int 7, d_of_int 2] = Some (d_of_int 2)
   \<and> aggregate_minx demo_limits [d_of_int 0, d_of_int 2] = Some invalid_param"
proof -
  define xs where "xs = [d_of_int 4, d_of_int 7, d_of_int 2]"
  have nth: "xs ! 0 = d_of_int 4" "xs ! 1 = d_of_int 7" "xs ! 2 = d_of_int 2" "length xs = 3" "inside demo_limits xs \<noteq> []" "xs \<noteq> []"
    using demo_inside(1) by (simp_all add: xs_def)
  have vals: "\<not> is_valid_and_inside (d_of_int 7) demo_limits" "is_valid_and_inside (d_of_int 2) demo_limits" "d_less (d_of_int 2) (d_of_int 4)"
    by code_simp+
  obtain k where k: "k < 3" "aggregate_minx demo_limits xs = Some (d_of_int (int k))" "is_valid_and_inside (xs ! k) demo_limits"
    "\<And>j. j < 3 \<Longrightarrow> is_valid_and_inside (xs ! j) demo_limits \<Longrightarrow> \<not> d_less (xs ! j) (xs ! k)"
    using aggregate_index [of xs, OF nth(6) demo_inside(7,8)] demo_inside(6) nth by (simp only: if_False simp_thms) blast
  have "k = 0 \<or> k = 1 \<or> k = 2" using k(1) by linarith
  then have "k = 2" using k(3) k(4) [of 2] vals nth by auto
  with k(2) show ?thesis using aggregate_index [of "[d_of_int 0, d_of_int 2]", OF _ demo_inside(7,8)] demo_inside(4) by (simp add: xs_def)
qed

end
