(* ===== verification/A2_Histo.thy ===== *)
theory A2_Histo
  imports A2_Aggregate
begin

text \<open>
  The histogram sinks of the analysis engine, \<^verbatim>\<open>src/src/analysis/a2/a2.cc\<close>, with the direct fill strategy that
  \<^verbatim>\<open>a2.h\<close> selects. \<^const>\<open>None\<close> is a failed assertion or an access outside of the bins.
\<close>

section \<open>Bins\<close>

definition Underflow :: int where "Underflow = - 1"
definition Overflow :: int where "Overflow = - 2"

definition bin_unchecked :: "Binning \<Rightarrow> int \<Rightarrow> double \<Rightarrow> double" where
  "bin_unchecked b binCount x = d_div (d_mul (d_sub x (b_min b)) (d_of_int binCount)) (b_range b)"

definition bin_by_factor :: "double \<Rightarrow> double \<Rightarrow> double \<Rightarrow> double" where
  "bin_by_factor x binMin binFactor = d_mul (d_sub x binMin) binFactor"

definition get_bin :: "Binning \<Rightarrow> int \<Rightarrow> double \<Rightarrow> int option" where
  "get_bin b binCount x =
     (let bin = bin_unchecked b binCount x in
      if d_less bin d0 then Some Underflow else if d_le (d_of_int binCount) bin then Some Overflow else d_trunc bin)"

section \<open>One dimension\<close>

definition incr_at :: "ParamVec \<times> nat \<Rightarrow> Store \<Rightarrow> Store option" where
  "incr_at p st = Option.bind (vec_get st (fst p) (snd p)) (\<lambda>x. vec_set (fst p) (snd p) (d_incr x) st)"

definition incr_if :: "(ParamVec \<times> nat) option \<Rightarrow> Store \<Rightarrow> Store option" where
  "incr_if p st = (case p of None \<Rightarrow> Some st | Some p \<Rightarrow> incr_at p st)"

definition range_check_update :: "H1D \<Rightarrow> double \<Rightarrow> Store \<Rightarrow> (bool \<times> Store) option" where
  "range_check_update h x st =
     (let b = h1_binning h; n = int (vec_size st (h1_data h)) in
      if d_less x (b_min b)
      then do { check (get_bin b n x = Some Underflow); st \<leftarrow> incr_if (h1_underflow h) st; Some (False, st) }
      else if d_le (d_add (b_min b) (b_range b)) x
      then do {
        check (d_le (b_range b) d0 \<and> d_le d0 (b_range b) \<or> get_bin b n x = Some Overflow);
        st \<leftarrow> incr_if (h1_overflow h) st; Some (False, st) }
      else Some (\<not> isnan x, st))"

definition fill_h1d :: "H1D \<Rightarrow> double \<Rightarrow> Store \<Rightarrow> (H1D \<times> Store) option" where
  "fill_h1d h x st = do {
     (ok, st) \<leftarrow> range_check_update h x st;
     if \<not> ok then Some (h, st)
     else do {
       k \<leftarrow> get_bin (h1_binning h) (int (vec_size st (h1_data h))) x;
       check (0 \<le> k \<and> k < int (vec_size st (h1_data h)));
       bin \<leftarrow> d_trunc (bin_by_factor x (b_min (h1_binning h)) (h1_binningFactor h));
       check (0 \<le> bin);
       st \<leftarrow> incr_at (h1_data h, nat bin) st;
       Some (h\<lparr>h1_entryCount := d_incr (h1_entryCount h)\<rparr>, st) } }"

definition get_value :: "H1D \<Rightarrow> double \<Rightarrow> Store \<Rightarrow> double option" where
  "get_value h x st = do {
     bin \<leftarrow> get_bin (h1_binning h) (int (vec_size st (h1_data h))) x;
     if bin < 0 then Some d0 else vec_get st (h1_data h) (nat bin) }"

definition zero_at :: "(ParamVec \<times> nat) option \<Rightarrow> Store \<Rightarrow> Store option" where
  "zero_at p st = (case p of None \<Rightarrow> Some st | Some (v, i) \<Rightarrow> vec_set v i d0 st)"

definition clear_histo :: "H1D \<Rightarrow> Store \<Rightarrow> (H1D \<times> Store) option" where
  "clear_histo h st = do {
     st \<leftarrow> zero_at (h1_underflow h) st;
     st \<leftarrow> zero_at (h1_overflow h) st;
     st \<leftarrow> fill (h1_data h) d0 st;
     Some (h\<lparr>h1_binningFactor := d0, h1_entryCount := d0\<rparr>, st) }"

section \<open>Two dimensions\<close>

definition fill_h2d :: "H2D \<Rightarrow> double \<Rightarrow> double \<Rightarrow> Store \<Rightarrow> (H2D \<times> Store) option" where
  "fill_h2d h x y st =
     (let bx = fst (h2_binnings h); byy = snd (h2_binnings h); nx = fst (h2_binCounts h); ny = snd (h2_binCounts h);
          under = h\<lparr>h2_underflow := d_incr (h2_underflow h)\<rparr>; over = h\<lparr>h2_overflow := d_incr (h2_overflow h)\<rparr>
      in if d_less x (b_min bx) then do { check (get_bin bx nx x = Some Underflow); Some (under, st) }
      else if d_le (d_add (b_min bx) (b_range bx)) x then do { check (get_bin bx nx x = Some Overflow); Some (over, st) }
      else if d_less y (b_min byy) then do { check (get_bin byy ny y = Some Underflow); Some (under, st) }
      else if d_le (d_add (b_min byy) (b_range byy)) y then do { check (get_bin byy ny y = Some Overflow); Some (over, st) }
      else if isnan x \<or> isnan y then Some (h, st)
      else do {
        kx \<leftarrow> get_bin bx nx x; check (0 \<le> kx \<and> kx < nx);
        ky \<leftarrow> get_bin byy ny y; check (0 \<le> ky \<and> ky < ny);
        xBin \<leftarrow> d_trunc (bin_by_factor x (b_min bx) (fst (h2_binningFactors h)));
        yBin \<leftarrow> d_trunc (bin_by_factor y (b_min byy) (snd (h2_binningFactors h)));
        let linearBin = yBin * nx + xBin;
        check (0 \<le> linearBin \<and> linearBin < int (vec_size st (h2_data h)) \<and> linearBin < 2 ^ 31);
        st \<leftarrow> incr_at (h2_data h, nat linearBin) st;
        Some (h\<lparr>h2_entryCount := d_incr (h2_entryCount h)\<rparr>, st) })"

section \<open>Sinks\<close>

definition make_h1d_sink :: "PipeVectors \<Rightarrow> H1D list \<Rightarrow> Store \<Rightarrow> ('x, 's) Operator option" where
  "make_h1d_sink input histos st = do {
     check (pipe_size st input = length histos);
     assign_input (make_operator (H1DSink histos) 1 0) input 0 }"

definition make_h1d_sink_idx :: "PipeVectors \<Rightarrow> H1D list \<Rightarrow> int \<Rightarrow> Store \<Rightarrow> ('x, 's) Operator option" where
  "make_h1d_sink_idx input histos inputIndex st = do {
     check (length histos = 1);
     check (inputIndex < int (pipe_size st input));
     assign_input (make_operator (H1DSink_idx histos inputIndex) 1 0) input 0 }"

definition make_h2d_sink :: "PipeVectors \<Rightarrow> PipeVectors \<Rightarrow> int \<Rightarrow> int \<Rightarrow> H2D \<Rightarrow> Store \<Rightarrow> ('x, 's) Operator option" where
  "make_h2d_sink x y xIndex yIndex histo st = do {
     check (0 \<le> xIndex \<and> xIndex < int (pipe_size st x));
     check (0 \<le> yIndex \<and> yIndex < int (pipe_size st y));
     assign_inputs (make_operator (H2DSink histo xIndex yIndex) 2 0) [x, y] 0 }"

fun fill_histos :: "ParamVec \<Rightarrow> nat list \<Rightarrow> H1D list \<Rightarrow> Store \<Rightarrow> (H1D list \<times> Store) option" where
  "fill_histos i [] histos st = Some (histos, st)"
| "fill_histos i (idx # idxs) histos st = do {
     h \<leftarrow> at_opt histos idx;
     x \<leftarrow> vec_get st i idx;
     (h, st) \<leftarrow> fill_h1d h x st;
     fill_histos i idxs (histos[idx := h]) st }"

text \<open>The histograms are part of the operator.\<close>

definition h1d_sink_step :: "('x, 's) Operator \<Rightarrow> Store \<Rightarrow> (('x, 's) Operator \<times> Store) option" where
  "h1d_sink_step op st =
     (case op_d op of
        H1DSink histos \<Rightarrow> do {
          i \<leftarrow> in_vec op 0;
          (histos, st) \<leftarrow> fill_histos i [0..<vec_size st i] histos st;
          Some (op\<lparr>op_d := H1DSink histos\<rparr>, st) }
      | _ \<Rightarrow> None)"

definition h1d_sink_step_idx :: "('x, 's) Operator \<Rightarrow> Store \<Rightarrow> (('x, 's) Operator \<times> Store) option" where
  "h1d_sink_step_idx op st =
     (case op_d op of
        H1DSink_idx histos inputIndex \<Rightarrow> do {
          check (length histos = 1);
          i \<leftarrow> in_vec op 0;
          check (inputIndex < int (vec_size st i));
          x \<leftarrow> get_s st i inputIndex;
          (h, st) \<leftarrow> fill_h1d (hd histos) x st;
          Some (op\<lparr>op_d := H1DSink_idx [h] inputIndex\<rparr>, st) }
      | _ \<Rightarrow> None)"

definition h2d_sink_step :: "('x, 's) Operator \<Rightarrow> Store \<Rightarrow> (('x, 's) Operator \<times> Store) option" where
  "h2d_sink_step op st =
     (case op_d op of
        H2DSink histo xIndex yIndex \<Rightarrow> do {
          xi \<leftarrow> in_vec op 0; yi \<leftarrow> in_vec op 1;
          x \<leftarrow> get_s st xi xIndex; y \<leftarrow> get_s st yi yIndex;
          (h, st) \<leftarrow> fill_h2d histo x y st;
          Some (op\<lparr>op_d := H2DSink h xIndex yIndex\<rparr>, st) }
      | _ \<Rightarrow> None)"

section \<open>Calculations with integers\<close>

lemma d_sub_of_int:
  assumes "\<bar>a\<bar> \<le> 0x20000000000000" "\<bar>b\<bar> \<le> 0x20000000000000" "\<bar>a - b\<bar> \<le> 0x20000000000000"
  shows "d_sub (d_of_int a) (d_of_int b) = d_of_int (a - b)"
proof -
  have v: "is_finite (d_of_int a)" "d_val (d_of_int a) = of_int a" "is_finite (d_of_int b)" "d_val (d_of_int b) = of_int b"
    using assms by (simp_all add: d_of_int_exact)
  show ?thesis
  proof (cases "a = b")
    case True
    then show ?thesis using v by (simp add: d_sub_finite d_of_int_def d_of_def round_mag_def)
  next
    case False
    then show ?thesis using v by (simp add: d_sub_finite) (simp add: d_of_int_def)
  qed
qed

lemma d_of_int_parts: "d_of_int a = make_double (a < 0) (round_mag \<bar>of_int a\<bar>)"
  by (simp add: d_of_int_def d_of_def)

lemma d_mul_of_int:
  assumes "0 < b" "\<bar>a\<bar> \<le> 0x20000000000000" "b \<le> 0x20000000000000"
  shows "d_mul (d_of_int a) (d_of_int b) = d_of_int (a * b)"
proof -
  have v: "is_finite (d_of_int a)" "d_val (d_of_int a) = of_int a" "is_finite (d_of_int b)" "d_val (d_of_int b) = of_int b"
    using assms by (simp_all add: d_of_int_exact)
  have "d_neg (d_of_int a) \<longleftrightarrow> a < 0" "\<not> d_neg (d_of_int b)" using assms(1) by (simp_all add: d_of_int_def)
  then show ?thesis using v assms(1) by (simp add: d_mul_finite d_of_int_parts [of "a * b"] mult_less_0_iff)
qed

lemma d_div_of_int:
  assumes "0 < b" "\<bar>a * b\<bar> \<le> 0x20000000000000" "b \<le> 0x20000000000000"
  shows "d_div (d_of_int (a * b)) (d_of_int b) = d_of_int a"
proof -
  have v: "is_finite (d_of_int (a * b))" "d_val (d_of_int (a * b)) = of_int (a * b)" "is_finite (d_of_int b)" "d_val (d_of_int b) = of_int b"
    using assms by (simp_all add: d_of_int_exact del: of_int_mult)
  have s: "d_neg (d_of_int (a * b)) \<longleftrightarrow> a < 0" "\<not> d_neg (d_of_int b)" using assms(1) by (simp_all add: d_of_int_def mult_less_0_iff)
  have "d_mag (d_of_int b) \<noteq> 0" using d_val_0_iff [OF v(3)] v(4) assms(1) by simp
  then show ?thesis using v s assms(1) by (simp add: d_div_def finite_not_nan Let_def d_of_int_parts [of a])
qed

lemma d_trunc_of_int: "- (2 ^ 31) \<le> a \<Longrightarrow> a < 2 ^ 31 \<Longrightarrow> d_trunc (d_of_int a) = Some a"
  using d_of_int_exact [of a] by (simp add: d_trunc_def)

lemma d_order_of_int:
  assumes "\<bar>a\<bar> \<le> 0x20000000000000" "\<bar>b\<bar> \<le> 0x20000000000000"
  shows "d_less (d_of_int a) (d_of_int b) \<longleftrightarrow> a < b" "d_le (d_of_int a) (d_of_int b) \<longleftrightarrow> a \<le> b"
  using d_of_int_exact [OF assms(1)] d_of_int_exact [OF assms(2)] by (simp_all add: d_less_iff d_le_iff)

section \<open>Filling with integers\<close>

text \<open>A histogram with bins of width one from \<open>a\<close> on.\<close>

definition unit_binning :: "H1D \<Rightarrow> int \<Rightarrow> int \<Rightarrow> bool" where
  "unit_binning h a n \<longleftrightarrow> h1_binning h = \<lparr>b_min = d_of_int a, b_range = d_of_int n\<rparr> \<and> h1_binningFactor h = d_of_int 1
     \<and> 0 < n \<and> n \<le> 2 ^ 20 \<and> \<bar>a\<bar> < 2 ^ 30"

lemma unit_bin:
  assumes "unit_binning h a n" "\<bar>k\<bar> < 2 ^ 30"
  shows "get_bin (h1_binning h) n (d_of_int k) = Some (if k < a then Underflow else if a + n \<le> k then Overflow else k - a)"
    "bin_by_factor (d_of_int k) (b_min (h1_binning h)) (h1_binningFactor h) = d_of_int (k - a)"
    "d_less (d_of_int k) (b_min (h1_binning h)) \<longleftrightarrow> k < a"
    "d_le (d_add (b_min (h1_binning h)) (b_range (h1_binning h))) (d_of_int k) \<longleftrightarrow> a + n \<le> k"
proof -
  have n: "0 < n" "n \<le> 2 ^ 20" "\<bar>a\<bar> < 2 ^ 30" using assms(1) by (simp_all add: unit_binning_def)
  have ka: "\<bar>k - a\<bar> \<le> 2 ^ 31" using n(3) assms(2) by simp
  have "\<bar>(k - a) * n\<bar> \<le> 2 ^ 31 * 2 ^ 20" unfolding abs_mult using ka n by (intro mult_mono) simp_all
  then have kn: "\<bar>(k - a) * n\<bar> \<le> 0x20000000000000" by simp
  have sub: "d_sub (d_of_int k) (d_of_int a) = d_of_int (k - a)" using ka n(3) assms(2) by (intro d_sub_of_int) simp_all
  have "bin_unchecked (h1_binning h) n (d_of_int k) = d_div (d_of_int ((k - a) * n)) (d_of_int n)"
    using assms(1) ka n d_mul_of_int [of n "k - a"] by (simp add: bin_unchecked_def unit_binning_def sub)
  also have "\<dots> = d_of_int (k - a)" using n kn by (intro d_div_of_int) simp_all
  finally have bin: "bin_unchecked (h1_binning h) n (d_of_int k) = d_of_int (k - a)" .
  have "d_less (d_of_int (k - a)) (d_of_int 0) \<longleftrightarrow> k < a" "d_le (d_of_int n) (d_of_int (k - a)) \<longleftrightarrow> n \<le> k - a"
    using ka n by (subst d_order_of_int; simp)+
  then show "get_bin (h1_binning h) n (d_of_int k) = Some (if k < a then Underflow else if a + n \<le> k then Overflow else k - a)"
    using n(2) d_trunc_of_int [of "k - a"] by (auto simp: get_bin_def bin Let_def)
  show "bin_by_factor (d_of_int k) (b_min (h1_binning h)) (h1_binningFactor h) = d_of_int (k - a)"
    using assms(1) ka d_mul_of_int [of 1 "k - a"] by (simp add: bin_by_factor_def unit_binning_def sub)
  show "d_less (d_of_int k) (b_min (h1_binning h)) \<longleftrightarrow> k < a"
    using assms n by (simp add: unit_binning_def d_order_of_int)
  have "d_add (d_of_int a) (d_of_int n) = d_of_int (a + n)" using n by (intro d_add_of_int) simp_all
  moreover have "d_le (d_of_int (a + n)) (d_of_int k) \<longleftrightarrow> a + n \<le> k" using n assms(2) by (intro d_order_of_int) simp_all
  ultimately show "d_le (d_add (b_min (h1_binning h)) (b_range (h1_binning h))) (d_of_int k) \<longleftrightarrow> a + n \<le> k"
    using assms(1) by (simp add: unit_binning_def)
qed

fun fill_all :: "H1D \<Rightarrow> double list \<Rightarrow> Store \<Rightarrow> (H1D \<times> Store) option" where
  "fill_all h [] st = Some (h, st)"
| "fill_all h (x # xs) st = Option.bind (fill_h1d h x st) (\<lambda>(h, st). fill_all h xs st)"

definition count_where :: "(int \<Rightarrow> bool) \<Rightarrow> int list \<Rightarrow> double" where
  "count_where P ks = d_of_int (int (length (filter P ks)))"

lemma count_where_snoc:
  "length ks < 0x20000000000000 \<Longrightarrow> count_where P (ks @ [k]) = (if P k then d_incr (count_where P ks) else count_where P ks)"
  using d_incr_of_int [of "int (length (filter P ks))"] length_filter_le [of P ks] by (auto simp: count_where_def add.commute)

text \<open>What the histogram counts of the parameters so far.\<close>

definition counted :: "H1D \<Rightarrow> int \<Rightarrow> int \<Rightarrow> int list \<Rightarrow> H1D \<times> Store \<Rightarrow> bool" where
  "counted h0 a n ks = (\<lambda>(h, st).
     h = h0\<lparr>h1_entryCount := count_where (\<lambda>k. a \<le> k \<and> k < a + n) ks\<rparr> \<and> has_vec st (h1_data h0) (nat n)
     \<and> (\<forall>b < nat n. st ! h1_data h0 ! b = count_where (\<lambda>k. k = a + int b) ks)
     \<and> (\<forall>p. h1_underflow h0 = Some p \<longrightarrow> vec_get st (fst p) (snd p) = Some (count_where (\<lambda>k. k < a) ks))
     \<and> (\<forall>p. h1_overflow h0 = Some p \<longrightarrow> vec_get st (fst p) (snd p) = Some (count_where (\<lambda>k. a + n \<le> k) ks)))"

definition apart :: "H1D \<Rightarrow> bool" where
  "apart h \<longleftrightarrow> (\<forall>p. h1_underflow h = Some p \<longrightarrow> fst p \<noteq> h1_data h \<and> h1_overflow h \<noteq> Some p) \<and> (\<forall>p. h1_overflow h = Some p \<longrightarrow> fst p \<noteq> h1_data h)"

lemma incr_at_eq:
  assumes "vec_get st v i = Some x"
  shows "incr_at (v, i) st = Some (st[v := (st ! v)[i := d_incr x]])" "vec_get (st[v := (st ! v)[i := d_incr x]]) v i = Some (d_incr x)"
    "(w, j) \<noteq> (v, i) \<Longrightarrow> vec_get (st[v := (st ! v)[i := d_incr x]]) w j = vec_get st w j"
  using assms by (auto simp: incr_at_def vec_get_Some_iff) (auto simp: vec_get_def at_opt_def nth_list_update)

lemma fill_counted:
  assumes "unit_binning h0 a n" "apart h0" "counted h0 a n ks (h, st)" "\<bar>k\<bar> < 2 ^ 30" "length ks < 0x20000000000000"
  shows "\<exists>h' st'. fill_h1d h (d_of_int k) st = Some (h', st') \<and> counted h0 a n (ks @ [k]) (h', st')"
proof -
  note bin = unit_bin [OF assms(1,4)] and snoc = count_where_snoc [OF assms(5)]
  have n: "0 < n" using assms(1) by (simp add: unit_binning_def)
  let ?v = "h1_data h0"
  have h: "h = h0\<lparr>h1_entryCount := count_where (\<lambda>k. a \<le> k \<and> k < a + n) ks\<rparr>" and v: "has_vec st ?v (nat n)"
    and data: "\<forall>b < nat n. st ! ?v ! b = count_where (\<lambda>k. k = a + int b) ks"
    and under: "\<And>p. h1_underflow h0 = Some p \<Longrightarrow> vec_get st (fst p) (snd p) = Some (count_where (\<lambda>k. k < a) ks)"
    and over: "\<And>p. h1_overflow h0 = Some p \<Longrightarrow> vec_get st (fst p) (snd p) = Some (count_where (\<lambda>k. a + n \<le> k) ks)"
    using assms(3) by (simp_all add: counted_def)
  have size: "vec_size st ?v = nat n" using v by (simp add: has_vec_def)
  have hs: "h1_data h = ?v" "h1_binning h = h1_binning h0" "h1_underflow h = h1_underflow h0" "h1_overflow h = h1_overflow h0"
    "h1_binningFactor h = h1_binningFactor h0" by (simp_all add: h)
  consider "k < a" | "a + n \<le> k" | "a \<le> k" "k < a + n" by linarith
  then show ?thesis
  proof cases
    case 1
    show ?thesis
    proof (cases "h1_underflow h0")
      case None
      then have "fill_h1d h (d_of_int k) st = Some (h, st)"
        using 1 n bin by (simp add: fill_h1d_def range_check_update_def hs size incr_if_def Let_def)
      then show ?thesis using assms(3) 1 n None by (auto simp: counted_def snoc)
    next
      case (Some p)
      obtain w i where p: "p = (w, i)" by (cases p)
      note inc = incr_at_eq [OF under [OF Some, unfolded p fst_conv snd_conv]]
      have "fill_h1d h (d_of_int k) st = Some (h, st[w := (st ! w)[i := d_incr (count_where (\<lambda>k. k < a) ks)]])"
        using 1 n bin Some p inc(1) by (simp add: fill_h1d_def range_check_update_def hs size incr_if_def Let_def)
      moreover have "w \<noteq> ?v" "h1_overflow h0 \<noteq> Some (w, i)" using assms(2) Some p by (auto simp: apart_def)
      moreover have "has_vec (st[w := (st ! w)[i := x]]) ?v (nat n)" for x using v by (simp add: has_vec_update)
      ultimately show ?thesis using assms(3) 1 n Some p inc(2) inc(3) [of "fst q" "snd q" for q]
        by (auto simp: counted_def snoc)
    qed
  next
    case 2
    show ?thesis
    proof (cases "h1_overflow h0")
      case None
      then have "fill_h1d h (d_of_int k) st = Some (h, st)"
        using 2 n bin by (simp add: fill_h1d_def range_check_update_def hs size incr_if_def Let_def)
      then show ?thesis using assms(3) 2 n None by (auto simp: counted_def snoc)
    next
      case (Some p)
      obtain w i where p: "p = (w, i)" by (cases p)
      note inc = incr_at_eq [OF over [OF Some, unfolded p fst_conv snd_conv]]
      have "fill_h1d h (d_of_int k) st = Some (h, st[w := (st ! w)[i := d_incr (count_where (\<lambda>k. a + n \<le> k) ks)]])"
        using 2 n bin Some p inc(1) by (simp add: fill_h1d_def range_check_update_def hs size incr_if_def Let_def)
      moreover have "w \<noteq> ?v" "h1_underflow h0 \<noteq> Some (w, i)" using assms(2) Some p by (auto simp: apart_def)
      moreover have "has_vec (st[w := (st ! w)[i := x]]) ?v (nat n)" for x using v by (simp add: has_vec_update)
      ultimately show ?thesis using assms(3) 2 n Some p inc(2) inc(3) [of "fst q" "snd q" for q]
        by (auto simp: counted_def snoc)
    qed
  next
    case 3
    let ?b = "nat (k - a)"
    have b: "?b < nat n" "int ?b = k - a" using 3 by simp_all
    have get: "vec_get st ?v ?b = Some (count_where (\<lambda>j. j = a + int ?b) ks)" using v data b(1) by (simp add: has_vec_def)
    note inc = incr_at_eq [OF get]
    have "d_trunc (d_of_int (k - a)) = Some (k - a)" using 3 assms(1) by (intro d_trunc_of_int) (simp_all add: unit_binning_def)
    moreover have "\<not> isnan (d_of_int k)" by (simp add: d_of_int_def)
    ultimately have "fill_h1d h (d_of_int k) st = Some (h\<lparr>h1_entryCount := d_incr (h1_entryCount h)\<rparr>,
        st[?v := (st ! ?v)[?b := d_incr (count_where (\<lambda>j. j = a + int ?b) ks)]])"
      using 3 n bin inc(1) by (simp add: fill_h1d_def range_check_update_def hs size Let_def)
    moreover have "counted h0 a n (ks @ [k]) (h\<lparr>h1_entryCount := d_incr (h1_entryCount h)\<rparr>,
        st[?v := (st ! ?v)[?b := d_incr (count_where (\<lambda>j. j = a + int ?b) ks)]])"
    proof -
      let ?st = "st[?v := (st ! ?v)[?b := d_incr (count_where (\<lambda>j. j = a + int ?b) ks)]]"
      have "has_vec ?st ?v (nat n)" using v by (simp add: has_vec_update)
      moreover have "?st ! ?v ! c = count_where (\<lambda>j. j = a + int c) (ks @ [k])" if "c < nat n" for c
        using v b that data by (cases "c = ?b") (auto simp: snoc has_vec_def)
      moreover have "vec_get ?st (fst p) (snd p) = vec_get st (fst p) (snd p)" if "h1_underflow h0 = Some p \<or> h1_overflow h0 = Some p" for p
        using assms(2) that by (intro inc(3)) (auto simp: apart_def)
      ultimately show ?thesis using 3 under over by (auto simp: counted_def snoc h)
    qed
    ultimately show ?thesis by blast
  qed
qed

section \<open>Properties\<close>

text \<open>C22: a histogram with bins of width one counts integers exactly: after any sequence of them every bin holds how often its
  value came, underflow and overflow hold how many values were below and above, and the entry count is the number of
  values in the range. No assertion fails, and nothing but these counters is written.\<close>

theorem h1d_counts:
  assumes "unit_binning h a n" "apart h" "counted h a n [] (h, st)" "\<forall>k \<in> set ks. \<bar>k\<bar> < 2 ^ 30" "length ks \<le> 0x20000000000000"
  shows "\<exists>h' st'. fill_all h (map d_of_int ks) st = Some (h', st') \<and> counted h a n ks (h', st')"
proof -
  have "\<exists>h' st'. fill_all h1 (map d_of_int ks) st1 = Some (h', st') \<and> counted h a n (before @ ks) (h', st')"
    if "counted h a n before (h1, st1)" "length before + length ks \<le> 0x20000000000000" for before h1 st1
    using that assms(4)
  proof (induction ks arbitrary: before h1 st1)
    case (Cons k ks)
    have len: "length before < 0x20000000000000" using Cons.prems(2) by simp
    obtain h2 st2 where 1: "fill_h1d h1 (d_of_int k) st1 = Some (h2, st2)" "counted h a n (before @ [k]) (h2, st2)"
      using fill_counted [OF assms(1,2) Cons.prems(1) _ len, of k] Cons.prems(3) by auto
    show ?case using Cons.IH [OF 1(2)] Cons.prems(2,3) 1(1) by auto
  qed simp
  from this [OF assms(3)] show ?thesis using assms(5) by simp
qed

definition demo_h1d :: H1D where
  "demo_h1d = \<lparr>h1_data = 0, h1_binning = \<lparr>b_min = d_of_int 2, b_range = d_of_int 3\<rparr>, h1_binningFactor = d_of_int 1,
     h1_entryCount = d0, h1_underflow = Some (1, 0), h1_overflow = Some (1, 1)\<rparr>"

theorem h1d_counts_witness:
  "\<exists>h' st'. fill_all demo_h1d (map d_of_int [3, 1, 3, 5, 4]) [[d0, d0, d0], [d0, d0]] = Some (h', st')
    \<and> st' ! 0 ! 1 = d_of_int 2 \<and> h1_entryCount h' = d_of_int 3 \<and> vec_get st' 1 0 = Some (d_of_int 1)"
proof -
  have "unit_binning demo_h1d 2 3" "apart demo_h1d" "counted demo_h1d 2 3 [] (demo_h1d, [[d0, d0, d0], [d0, d0]])"
    by (auto simp: unit_binning_def apart_def counted_def demo_h1d_def count_where_def has_vec_def nth_Cons' numeral_eq_Suc less_Suc_eq)
  from h1d_counts [OF this, of "[3, 1, 3, 5, 4]"] obtain h' st' where
    1: "fill_all demo_h1d (map d_of_int [3, 1, 3, 5, 4]) [[d0, d0, d0], [d0, d0]] = Some (h', st')" "counted demo_h1d 2 3 [3, 1, 3, 5, 4] (h', st')"
    by auto
  from 1(2) have "st' ! 0 ! 1 = d_of_int 2" "h1_entryCount h' = d_of_int 3" "vec_get st' 1 0 = Some (d_of_int 1)"
    by (auto simp: counted_def demo_h1d_def count_where_def)
  then show ?thesis using 1(1) by blast
qed

lemma rounded_bin:
  "\<not> d_less 0xBBC79CA10C924223 0xC020000000000000"
  "\<not> d_le (d_add 0xC020000000000000 0x4020000000000000) 0xBBC79CA10C924223"
  "get_bin \<lparr>b_min = 0xC020000000000000, b_range = 0x4020000000000000\<rparr> 16 0xBBC79CA10C924223 = Some Overflow"
  "d_trunc (bin_by_factor 0xBBC79CA10C924223 0xC020000000000000 0x4000000000000000) = Some 16"
  "fill_h1d \<lparr>h1_data = 0, h1_binning = \<lparr>b_min = 0xC020000000000000, b_range = 0x4020000000000000\<rparr>, h1_binningFactor = 0x4000000000000000,
     h1_entryCount = d0, h1_underflow = None, h1_overflow = None\<rparr> 0xBBC79CA10C924223 [replicate 16 d0] = None"
proof -
  let ?b = "\<lparr>b_min = 0xC020000000000000, b_range = 0x4020000000000000\<rparr>"
  show 1: "\<not> d_less 0xBBC79CA10C924223 0xC020000000000000" by code_simp
  show 2: "\<not> d_le (d_add 0xC020000000000000 0x4020000000000000) 0xBBC79CA10C924223" by code_simp
  have dist: "d_sub 0xBBC79CA10C924223 0xC020000000000000 = 0x4020000000000000" by code_simp
  have n: "d_of_int 16 = 0x4030000000000000" by code_simp
  have "d_mul 0x4020000000000000 0x4030000000000000 = 0x4060000000000000" by code_simp
  moreover have "d_div 0x4060000000000000 0x4020000000000000 = 0x4030000000000000" by code_simp
  ultimately have "bin_unchecked ?b 16 0xBBC79CA10C924223 = 0x4030000000000000" by (simp add: bin_unchecked_def dist n)
  moreover have "\<not> d_less 0x4030000000000000 d0" "d_le 0x4030000000000000 0x4030000000000000" by code_simp+
  ultimately show 3: "get_bin ?b 16 0xBBC79CA10C924223 = Some Overflow" by (simp add: get_bin_def n)
  have "d_mul 0x4020000000000000 0x4000000000000000 = 0x4030000000000000" by code_simp
  moreover have "d_trunc 0x4030000000000000 = Some 16" by code_simp
  ultimately show "d_trunc (bin_by_factor 0xBBC79CA10C924223 0xC020000000000000 0x4000000000000000) = Some 16"
    by (simp add: bin_by_factor_def dist)
  have "\<not> isnan 0xBBC79CA10C924223" by code_simp
  then show "fill_h1d \<lparr>h1_data = 0, h1_binning = ?b, h1_binningFactor = 0x4000000000000000,
     h1_entryCount = d0, h1_underflow = None, h1_overflow = None\<rparr> 0xBBC79CA10C924223 [replicate 16 d0] = None"
    using 1 2 3 by (simp add: fill_h1d_def range_check_update_def vec_size_def Overflow_def)
qed

text \<open>A value in the range of a histogram need not have a bin. With 16 bins from -8 up to 0, the value -1e-20 is neither
  below the minimum nor at the maximum, but its distance from the minimum is rounded to the whole range, so that its bin
  is 16, behind the last one.\<close>

theorem h1d_bin_behind_the_last:
  "\<not> d_less 0xBBC79CA10C924223 0xC020000000000000 \<and> \<not> d_le (d_add 0xC020000000000000 0x4020000000000000) 0xBBC79CA10C924223
   \<and> get_bin \<lparr>b_min = 0xC020000000000000, b_range = 0x4020000000000000\<rparr> 16 0xBBC79CA10C924223 = Some Overflow
   \<and> d_trunc (bin_by_factor 0xBBC79CA10C924223 0xC020000000000000 0x4000000000000000) = Some 16
   \<and> fill_h1d \<lparr>h1_data = 0, h1_binning = \<lparr>b_min = 0xC020000000000000, b_range = 0x4020000000000000\<rparr>, h1_binningFactor = 0x4000000000000000,
       h1_entryCount = d0, h1_underflow = None, h1_overflow = None\<rparr> 0xBBC79CA10C924223 [replicate 16 d0] = None"
  by (intro conjI rounded_bin)

end
