(* ===== verification/A2_Rates.thy ===== *)
theory A2_Rates
  imports A2_Aggregate A2_Histo
begin

text \<open>
  Rates: the sampler \<^verbatim>\<open>src/src/analysis/a2/rate_sampler.h\<close> with \<^verbatim>\<open>util/counters.h\<close>, and the rate monitors of
  \<^verbatim>\<open>a2.cc\<close>. The history is a circular buffer of a library, the record \<open>HistoryLib\<close>; locks are left out, every operation
  holds the lock while it uses the state.
\<close>

section \<open>Sampler\<close>

record 'h HistoryLib =
  hist_push :: "double \<Rightarrow> 'h \<Rightarrow> 'h"
  hist_clear :: "'h \<Rightarrow> 'h"
  hist_values :: "'h \<Rightarrow> double list"
  hist_capacity :: "'h \<Rightarrow> nat"

text \<open>What the library promises: the buffer holds at most as many values as its capacity, and drops the oldest one for
  a new one when it is full.\<close>

definition history_ok :: "'h HistoryLib \<Rightarrow> bool" where
  "history_ok lib \<longleftrightarrow>
     (\<forall>h. length (hist_values lib h) \<le> hist_capacity lib h) \<and>
     (\<forall>h x. hist_capacity lib (hist_push lib x h) = hist_capacity lib h) \<and>
     (\<forall>h x. 0 < hist_capacity lib h \<longrightarrow> hist_values lib (hist_push lib x h) =
        (if length (hist_values lib h) = hist_capacity lib h then tl (hist_values lib h) else hist_values lib h) @ [x]) \<and>
     (\<forall>h. hist_values lib (hist_clear lib h) = [] \<and> hist_capacity lib (hist_clear lib h) = hist_capacity lib h)"

record 'h RateSampler =
  rs_scale :: double
  rs_offset :: double
  rs_interval :: double
  rs_history :: 'h
  rs_lastValue :: double
  rs_lastRate :: double
  rs_lastDelta :: double
  rs_totalSamples :: double

definition calc_delta0 :: "double \<Rightarrow> double \<Rightarrow> double" where
  "calc_delta0 cur prev = (if d_less cur prev then d0 else d_sub cur prev)"

definition calcRateAndDelta :: "'h RateSampler \<Rightarrow> double \<Rightarrow> double \<times> double" where
  "calcRateAndDelta s value =
     (if isnan (rs_lastValue s) then (d0, d0)
      else
        let delta = calc_delta0 value (rs_lastValue s);
            rate = d_div (d_add (d_mul delta (rs_scale s)) (rs_offset s)) (rs_interval s)
        in (rate, delta))"

definition calcRate :: "'h RateSampler \<Rightarrow> double \<Rightarrow> double" where "calcRate s value = fst (calcRateAndDelta s value)"

definition push_rate :: "'h HistoryLib \<Rightarrow> 'h RateSampler \<Rightarrow> 'h RateSampler" where
  "push_rate lib s =
     (if hist_capacity lib (rs_history s) \<noteq> 0
      then s\<lparr>rs_history := hist_push lib (rs_lastRate s) (rs_history s), rs_totalSamples := d_incr (rs_totalSamples s)\<rparr> else s)"

definition sample :: "'h HistoryLib \<Rightarrow> double \<Rightarrow> 'h RateSampler \<Rightarrow> 'h RateSampler" where
  "sample lib value s =
     (let (rate, delta) = calcRateAndDelta s value
      in (push_rate lib (s\<lparr>rs_lastRate := rate, rs_lastDelta := delta\<rparr>))\<lparr>rs_lastValue := value\<rparr>)"

definition recordRate :: "'h HistoryLib \<Rightarrow> double \<Rightarrow> 'h RateSampler \<Rightarrow> 'h RateSampler" where
  "recordRate lib rate s = push_rate lib (s\<lparr>rs_lastRate := d_add (d_mul rate (rs_scale s)) (rs_offset s)\<rparr>)"

definition historySize :: "'h HistoryLib \<Rightarrow> 'h RateSampler \<Rightarrow> nat" where
  "historySize lib s = length (hist_values lib (rs_history s))"

definition historyCapacity :: "'h HistoryLib \<Rightarrow> 'h RateSampler \<Rightarrow> nat" where
  "historyCapacity lib s = hist_capacity lib (rs_history s)"

definition clearHistory :: "'h HistoryLib \<Rightarrow> bool \<Rightarrow> 'h RateSampler \<Rightarrow> 'h RateSampler" where
  "clearHistory lib keepSampleCount s =
     (let s = s\<lparr>rs_history := hist_clear lib (rs_history s), rs_lastValue := quiet_nan, rs_lastRate := d0, rs_lastDelta := d0\<rparr>
      in if \<not> keepSampleCount then s\<lparr>rs_totalSamples := d0\<rparr> else s)"

definition getSample :: "'h HistoryLib \<Rightarrow> 'h RateSampler \<Rightarrow> nat \<Rightarrow> double option" where
  "getSample lib s sampleIndex = at_opt (hist_values lib (rs_history s)) sampleIndex"

definition getSampleTime :: "'h HistoryLib \<Rightarrow> 'h RateSampler \<Rightarrow> nat \<Rightarrow> double option" where
  "getSampleTime lib s sampleIndex =
     (if sampleIndex < historySize lib s
      then Some (d_mul (d_add (d_sub (rs_totalSamples s) (d_of_int (int (historySize lib s)))) (d_of_int (int sampleIndex))) (rs_interval s))
      else None)"

text \<open>Without a sample the index of the last one wraps around and the assertion of \<open>getSampleTime\<close> fails.\<close>

definition getFirstSampleTime :: "'h HistoryLib \<Rightarrow> 'h RateSampler \<Rightarrow> double option" where
  "getFirstSampleTime lib s = getSampleTime lib s 0"

definition getLastSampleTime :: "'h HistoryLib \<Rightarrow> 'h RateSampler \<Rightarrow> double option" where
  "getLastSampleTime lib s =
     (if historySize lib s = 0 then None else getSampleTime lib s (historySize lib s - 1))"

text \<open>The conversion to a signed 64-bit integer is undefined if the value is not in range.\<close>

definition getSampleIndex :: "'h HistoryLib \<Rightarrow> 'h RateSampler \<Rightarrow> double \<Rightarrow> int option" where
  "getSampleIndex lib s sampleTime =
     (let q = d_add (d_sub (d_div sampleTime (rs_interval s)) (rs_totalSamples s)) (d_of_int (int (historySize lib s))) in
      if is_finite q \<and> - (2 ^ 63) \<le> \<lfloor>d_val q\<rfloor> \<and> \<lfloor>d_val q\<rfloor> < 2 ^ 63 then Some \<lfloor>d_val q\<rfloor> else None)"

section \<open>Rate monitors\<close>

definition NoParamIndex :: int where "NoParamIndex = - 1"

definition sampler_count :: "Store \<Rightarrow> PipeVectors list \<Rightarrow> int list \<Rightarrow> nat" where
  "sampler_count st ps indexes = sum_list (map2 (\<lambda>p i. if i < 0 then pipe_size st p else 1) ps indexes)"

text \<open>The hit counts of a flow rate monitor are allocated here.\<close>

definition make_rate_monitor ::
    "PipeVectors list \<Rightarrow> int list \<Rightarrow> nat list \<Rightarrow> RateMonitorType \<Rightarrow> Store \<Rightarrow> (('x, 's) Operator \<times> Store) option" where
  "make_rate_monitor ps indexes samplers type st = do {
     check (length ps = length indexes);
     check (length samplers = sampler_count st ps indexes);
     let (type, st) = (case type of
         FlowRate _ \<Rightarrow> (let (hits, st) = push_param_vector (length samplers) d0 st in (FlowRate hits, st))
       | _ \<Rightarrow> (type, st));
     op \<leftarrow> assign_inputs (make_operator (RateMonitor type samplers indexes) (length ps) 0) ps 0;
     Some (op, st) }"

text \<open>The values of an input: all of them, or the one at the index.\<close>

definition rate_values :: "Store \<Rightarrow> ParamVec \<Rightarrow> int \<Rightarrow> double list option" where
  "rate_values st v ind = (if ind = NoParamIndex then at_opt st v else map_option (\<lambda>x. [x]) (get_s st v ind))"

fun rate_acts :: "(nat \<Rightarrow> double \<Rightarrow> 'w \<Rightarrow> 'w option) \<Rightarrow> double list \<Rightarrow> nat \<Rightarrow> 'w \<Rightarrow> (nat \<times> 'w) option" where
  "rate_acts act [] samplerIndex w = Some (samplerIndex, w)"
| "rate_acts act (x # xs) samplerIndex w = Option.bind (act samplerIndex x w) (rate_acts act xs (samplerIndex + 1))"

fun rate_loop ::
    "(nat \<Rightarrow> double \<Rightarrow> 'w \<Rightarrow> 'w option) \<Rightarrow> Store \<Rightarrow> nat \<Rightarrow> ParamVec option list \<Rightarrow> int list \<Rightarrow> nat \<Rightarrow> 'w \<Rightarrow> (nat \<times> 'w) option" where
  "rate_loop act st n [] indexes samplerIndex w = Some (samplerIndex, w)"
| "rate_loop act st n (v # vs) [] samplerIndex w = None"
| "rate_loop act st n (v # vs) (ind # inds) samplerIndex w = do {
     check (samplerIndex < n);
     v \<leftarrow> v;
     xs \<leftarrow> rate_values st v ind;
     (samplerIndex, w) \<leftarrow> rate_acts act xs samplerIndex w;
     rate_loop act st n vs inds samplerIndex w }"

definition on_sampler :: "('h RateSampler \<Rightarrow> 'h RateSampler) \<Rightarrow> nat list \<Rightarrow> nat \<Rightarrow> 'h RateSampler list \<Rightarrow> 'h RateSampler list option" where
  "on_sampler f samplers k all = do { s \<leftarrow> at_opt samplers k; r \<leftarrow> at_opt all s; Some (all[s := f r]) }"

definition count_hit :: "ParamVec \<Rightarrow> nat \<Rightarrow> double \<Rightarrow> Store \<Rightarrow> Store option" where
  "count_hit hits k x st = (if is_param_valid x then incr_at (hits, k) st else Some st)"

text \<open>The vector of hit counts is no input, so the inputs are read from the store as it is at the start.\<close>

definition rate_monitor_step ::
    "'h HistoryLib \<Rightarrow> ('x, 's) Operator \<Rightarrow> Store \<Rightarrow> 'h RateSampler list \<Rightarrow> (Store \<times> 'h RateSampler list) option" where
  "rate_monitor_step lib op st all =
     (case op_d op of
        RateMonitor type samplers indexes \<Rightarrow> do {
          let n = length samplers;
          (k, st, all) \<leftarrow> (case type of
             PrecalculatedRate \<Rightarrow> map_option (\<lambda>(k, all). (k, st, all))
               (rate_loop (\<lambda>k x. on_sampler (recordRate lib x) samplers k) st n (inputs op) indexes 0 all)
           | CounterDifference \<Rightarrow> map_option (\<lambda>(k, all). (k, st, all))
               (rate_loop (\<lambda>k x. on_sampler (sample lib x) samplers k) st n (inputs op) indexes 0 all)
           | FlowRate hits \<Rightarrow> (if vec_size st hits = n
               then map_option (\<lambda>(k, st). (k, st, all)) (rate_loop (count_hit hits) st n (inputs op) indexes 0 st) else None));
          check (k = n);
          Some (st, all) }
      | _ \<Rightarrow> None)"

fun sample_flow_loop ::
    "'h HistoryLib \<Rightarrow> ParamVec \<Rightarrow> nat list \<Rightarrow> Store \<Rightarrow> nat list \<Rightarrow> 'h RateSampler list \<Rightarrow> 'h RateSampler list option" where
  "sample_flow_loop lib hits samplers st [] all = Some all"
| "sample_flow_loop lib hits samplers st (k # ks) all = do {
     count \<leftarrow> vec_get st hits k;
     all \<leftarrow> on_sampler (sample lib count) samplers k all;
     sample_flow_loop lib hits samplers st ks all }"

definition rate_monitor_sample_flow ::
    "'h HistoryLib \<Rightarrow> ('x, 's) Operator \<Rightarrow> Store \<Rightarrow> 'h RateSampler list \<Rightarrow> 'h RateSampler list option" where
  "rate_monitor_sample_flow lib op st all =
     (case op_d op of
        RateMonitor (FlowRate hits) samplers indexes \<Rightarrow> do {
          check (vec_size st hits = length samplers);
          sample_flow_loop lib hits samplers st [0..<vec_size st hits] all }
      | _ \<Rightarrow> None)"

section \<open>Histories\<close>

text \<open>Values that are sampled, or rates that are recorded.\<close>

definition rate_act :: "'h HistoryLib \<Rightarrow> double + double \<Rightarrow> 'h RateSampler \<Rightarrow> 'h RateSampler" where
  "rate_act lib a s = (case a of Inl value \<Rightarrow> sample lib value s | Inr rate \<Rightarrow> recordRate lib rate s)"

text \<open>The rates, from the scale, the offset, the interval and the last value.\<close>

fun rates_of :: "double \<Rightarrow> double \<Rightarrow> double \<Rightarrow> double \<Rightarrow> (double + double) list \<Rightarrow> double list" where
  "rates_of scl off ivl prev [] = []"
| "rates_of scl off ivl prev (Inr r # as) = d_add (d_mul r scl) off # rates_of scl off ivl prev as"
| "rates_of scl off ivl prev (Inl v # as) =
     (if isnan prev then d0 else d_div (d_add (d_mul (calc_delta0 v prev) scl) off) ivl) # rates_of scl off ivl v as"

lemma push_rate_simps [simp]:
  "rs_scale (push_rate lib s) = rs_scale s" "rs_offset (push_rate lib s) = rs_offset s" "rs_interval (push_rate lib s) = rs_interval s"
  "rs_lastValue (push_rate lib s) = rs_lastValue s" "rs_lastRate (push_rate lib s) = rs_lastRate s"
  by (simp_all add: push_rate_def)

lemma rate_act_simps [simp]:
  "rs_scale (rate_act lib a s) = rs_scale s" "rs_offset (rate_act lib a s) = rs_offset s" "rs_interval (rate_act lib a s) = rs_interval s"
  "rs_lastValue (rate_act lib a s) = (case a of Inl v \<Rightarrow> v | Inr _ \<Rightarrow> rs_lastValue s)"
  by (simp_all add: rate_act_def sample_def recordRate_def case_prod_beta Let_def split: sum.split)

text \<open>The last values of a list.\<close>

definition keep_last :: "nat \<Rightarrow> 'a list \<Rightarrow> 'a list" where "keep_last n xs = drop (length xs - n) xs"

lemma keep_last_snoc: "0 < n \<Longrightarrow> keep_last n (xs @ [x]) = (if length (keep_last n xs) = n then tl (keep_last n xs) else keep_last n xs) @ [x]"
  by (auto simp: keep_last_def tl_drop drop_Suc [symmetric] Suc_diff_le)

lemma keep_last_keep_last: "keep_last n (keep_last n xs @ ys) = keep_last n (xs @ ys)"
  by (simp add: keep_last_def) (cases "length xs \<le> n"; auto simp: min_def add.commute)

lemma rate_act_history:
  assumes "history_ok lib" "0 < hist_capacity lib (rs_history s)"
  shows "hist_values lib (rs_history (rate_act lib a s))
      = keep_last (hist_capacity lib (rs_history s)) (hist_values lib (rs_history s) @ rates_of (rs_scale s) (rs_offset s) (rs_interval s) (rs_lastValue s) [a])"
    and "hist_capacity lib (rs_history (rate_act lib a s)) = hist_capacity lib (rs_history s)"
    and "rs_totalSamples (rate_act lib a s) = d_incr (rs_totalSamples s)"
proof -
  let ?h = "rs_history s"
  have len: "length (hist_values lib ?h) \<le> hist_capacity lib ?h" using assms(1) by (simp add: history_ok_def)
  have push: "hist_values lib (hist_push lib x ?h) = keep_last (hist_capacity lib ?h) (hist_values lib ?h @ [x])"
    "hist_capacity lib (hist_push lib x ?h) = hist_capacity lib ?h" for x
    using assms len by (simp_all add: history_ok_def keep_last_snoc) (simp add: keep_last_def)
  show "hist_values lib (rs_history (rate_act lib a s))
      = keep_last (hist_capacity lib ?h) (hist_values lib ?h @ rates_of (rs_scale s) (rs_offset s) (rs_interval s) (rs_lastValue s) [a])"
    "hist_capacity lib (rs_history (rate_act lib a s)) = hist_capacity lib ?h"
    "rs_totalSamples (rate_act lib a s) = d_incr (rs_totalSamples s)"
    using assms(2) push
    by (auto simp: rate_act_def sample_def recordRate_def push_rate_def calcRateAndDelta_def Let_def split: sum.split)
qed

lemma rates_of_Cons:
  "rates_of scl off ivl prev (a # as) = rates_of scl off ivl prev [a] @ rates_of scl off ivl (case a of Inl v \<Rightarrow> v | Inr _ \<Rightarrow> prev) as"
  by (cases a) simp_all

lemma length_rates_of [simp]: "length (rates_of scl off ivl prev as) = length as"
  by (induction scl off ivl prev as rule: rates_of.induct) simp_all

text \<open>C39: the history of a rate sampler is, for any sequence of values that are sampled and rates that are recorded, the
  latest of all their rates, as many as its capacity; the count of samples is the number of all of them. A recorded rate
  is scaled and shifted; the rate of a sampled value is its difference to the value before, zero if it is smaller, scaled,
  shifted and divided by the interval, and zero for the first value.\<close>

theorem rate_history:
  assumes "history_ok lib" "0 < hist_capacity lib (rs_history s)"
    and "rs_totalSamples s = d_of_int (int n)" "n + length as \<le> 0x20000000000000"
  shows "let s' = fold (rate_act lib) as s in
      hist_values lib (rs_history s') = keep_last (hist_capacity lib (rs_history s))
        (hist_values lib (rs_history s) @ rates_of (rs_scale s) (rs_offset s) (rs_interval s) (rs_lastValue s) as)
    \<and> rs_totalSamples s' = d_of_int (int (n + length as))"
proof -
  have "hist_values lib (rs_history (fold (rate_act lib) as s)) = keep_last (hist_capacity lib (rs_history s))
      (hist_values lib (rs_history s) @ rates_of (rs_scale s) (rs_offset s) (rs_interval s) (rs_lastValue s) as)
    \<and> rs_totalSamples (fold (rate_act lib) as s) = d_of_int (int (n + length as))"
    using assms(2-4)
  proof (induction as arbitrary: s n)
    case Nil
    have "length (hist_values lib (rs_history s)) \<le> hist_capacity lib (rs_history s)" using assms(1) by (simp add: history_ok_def)
    then show ?case using Nil by (simp add: keep_last_def)
  next
    case (Cons a as)
    note act = rate_act_history [OF assms(1) Cons.prems(1), of a]
    have "rs_totalSamples (rate_act lib a s) = d_of_int (int (n + 1))"
      using Cons.prems(2,3) d_incr_of_int [of "int n"] by (simp add: act(3) add.commute)
    from Cons.IH [OF _ this] show ?case using Cons.prems(1,3)
      by (simp add: act(1,2) keep_last_keep_last rates_of_Cons [of _ _ _ _ a as])
  qed
  then show ?thesis by (simp add: Let_def)
qed

definition demo_history :: "(nat \<times> double list) HistoryLib" where
  "demo_history = \<lparr>hist_push = \<lambda>x (n, xs). (n, xs @ [x]), hist_clear = \<lambda>(n, xs). (n, []),
     hist_values = \<lambda>(n, xs). keep_last n xs, hist_capacity = fst\<rparr>"

lemma demo_history_ok: "history_ok demo_history"
  by (auto simp: history_ok_def demo_history_def keep_last_snoc) (auto simp: keep_last_def)

definition demo_sampler :: "(nat \<times> double list) RateSampler" where
  "demo_sampler = \<lparr>rs_scale = d1, rs_offset = d0, rs_interval = d1, rs_history = (2, []), rs_lastValue = quiet_nan,
     rs_lastRate = d0, rs_lastDelta = d0, rs_totalSamples = d0\<rparr>"

theorem rate_history_witness:
  "hist_values demo_history (rs_history (fold (rate_act demo_history) [Inl (d_of_int 3), Inl (d_of_int 10), Inl (d_of_int 4)] demo_sampler))
    = [d_div (d_add (d_mul (calc_delta0 (d_of_int 10) (d_of_int 3)) d1) d0) d1, d_div (d_add (d_mul (calc_delta0 (d_of_int 4) (d_of_int 10)) d1) d0) d1]
   \<and> rs_totalSamples (fold (rate_act demo_history) [Inl (d_of_int 3), Inl (d_of_int 10), Inl (d_of_int 4)] demo_sampler) = d_of_int 3"
proof -
  have pre: "0 < hist_capacity demo_history (rs_history demo_sampler)" "rs_totalSamples demo_sampler = d_of_int (int 0)"
    by (simp_all add: demo_history_def demo_sampler_def)
  show ?thesis
    using rate_history [OF demo_history_ok pre, of "[Inl (d_of_int 3), Inl (d_of_int 10), Inl (d_of_int 4)]"]
    by (simp add: Let_def demo_history_def demo_sampler_def keep_last_def) (simp add: d_of_int_def)
qed

text \<open>The index of a sample comes back from its time, for samples of one second.\<close>

theorem sample_time_index:
  assumes "rs_interval s = d_of_int 1" "rs_totalSamples s = d_of_int (int n)" "historySize lib s \<le> n" "n \<le> 2 ^ 50" "i < historySize lib s"
  shows "\<exists>t. getSampleTime lib s i = Some t \<and> t = d_of_int (int (n - historySize lib s + i)) \<and> getSampleIndex lib s t = Some (int i)"
proof -
  let ?h = "historySize lib s" let ?t = "int n - int ?h + int i"
  have "int n \<le> int (2 ^ 50)" using assms(4) by (simp only: of_nat_le_iff)
  moreover have "int ?h \<le> int n" "int i < int ?h" using assms(3,5) by simp_all
  ultimately have b: "0 \<le> ?t" "?t \<le> 2 ^ 50" "int n \<le> 2 ^ 50" "int ?h \<le> 2 ^ 50" "int i \<le> 2 ^ 50"
    by simp_all
  have 1: "d_sub (d_of_int (int n)) (d_of_int (int ?h)) = d_of_int (int n - int ?h)" using b by (intro d_sub_of_int) simp_all
  have 2: "d_add (d_of_int (int n - int ?h)) (d_of_int (int i)) = d_of_int ?t" using b by (intro d_add_of_int) simp_all
  have 3: "d_mul (d_of_int ?t) (d_of_int 1) = d_of_int ?t" using b d_mul_of_int [of 1 ?t] by simp
  have 4: "d_div (d_of_int ?t) (d_of_int 1) = d_of_int ?t" using b d_div_of_int [of 1 ?t] by simp
  have 5: "d_sub (d_of_int ?t) (d_of_int (int n)) = d_of_int (int i - int ?h)"
    using b d_sub_of_int [of ?t "int n"] by simp
  have 6: "d_add (d_of_int (int i - int ?h)) (d_of_int (int ?h)) = d_of_int (int i)"
    using b d_add_of_int [of "int i - int ?h" "int ?h"] by simp
  have "is_finite (d_of_int (int i))" "d_val (d_of_int (int i)) = of_int (int i)" using b by (simp_all add: d_of_int_exact del: of_int_of_nat_eq)
  then have "getSampleIndex lib s (d_of_int ?t) = Some (int i)"
    using b by (simp add: getSampleIndex_def assms(1,2) 4 5 6)
  moreover have "getSampleTime lib s i = Some (d_of_int ?t)"
    using assms(5) by (simp add: getSampleTime_def assms(1,2) 1 2 3)
  moreover have "?t = int (n - historySize lib s + i)" using assms(3) by (simp add: of_nat_diff)
  ultimately show ?thesis by simp
qed

theorem sample_time_index_witness:
  "getSampleTime demo_history (demo_sampler\<lparr>rs_history := (2, [d0, d0]), rs_totalSamples := d_of_int 5\<rparr>) 1 = Some (d_of_int 4)
   \<and> getSampleIndex demo_history (demo_sampler\<lparr>rs_history := (2, [d0, d0]), rs_totalSamples := d_of_int 5\<rparr>) (d_of_int 4) = Some 1"
proof -
  let ?s = "demo_sampler\<lparr>rs_history := (2, [d0, d0]), rs_totalSamples := d_of_int 5\<rparr>"
  have "rs_interval ?s = d_of_int 1" "rs_totalSamples ?s = d_of_int (int 5)" "historySize demo_history ?s = 2"
    by (simp_all add: demo_sampler_def historySize_def demo_history_def keep_last_def d_of_int_def)
  then show ?thesis using sample_time_index [of ?s 5 demo_history 1] by simp
qed

section \<open>Flow\<close>

lemma vec_get_incr:
  assumes "has_vec st hits m" "k < m"
  shows "incr_at (hits, k) st = Some (st[hits := (st ! hits)[k := d_incr (st ! hits ! k)]])"
  using assms by (simp add: incr_at_def has_vec_def)

lemma rate_acts_count:
  assumes "has_vec st hits m" "k + length xs \<le> m"
  shows "rate_acts (count_hit hits) xs k st = Some (k + length xs, st[hits := take k (st ! hits)
    @ map (\<lambda>(x, c). if is_param_valid x then d_incr c else c) (zip xs (drop k (st ! hits))) @ drop (k + length xs) (st ! hits)])"
  using assms
proof (induction xs arbitrary: k st)
  case Nil
  then show ?case by (simp add: has_vec_def)
next
  case (Cons x xs)
  have k: "k < m" "k < length (st ! hits)" "hits < length st" using Cons.prems by (simp_all add: has_vec_def)
  let ?c = "if is_param_valid x then d_incr (st ! hits ! k) else st ! hits ! k"
  let ?st = "st[hits := (st ! hits)[k := ?c]]"
  have "count_hit hits k x st = Some ?st" using vec_get_incr [OF Cons.prems(1) k(1)] by (simp add: count_hit_def)
  moreover have "has_vec ?st hits m" using Cons.prems(1) by (simp add: has_vec_update)
  moreover have "drop k (st ! hits) = st ! hits ! k # drop (Suc k) (st ! hits)" using k(2) by (rule Cons_nth_drop_Suc [symmetric])
  ultimately show ?case using Cons.IH [of ?st "k + 1"] Cons.prems(2) k by (simp add: take_Suc_conv_app_nth)
qed

text \<open>A flow rate monitor of a whole array counts, for every event, the valid parameters: the count of every valid one
  grows by one, the others stay, and no sampler is touched before the next time tick.\<close>

theorem flow_rate_counts:
  assumes "op_d op = RateMonitor (FlowRate hits) samplers [- 1]" "inputs op = [Some i]"
    and "has_vec st i n" "has_vec st hits n" "length samplers = n" "0 < n"
  shows "rate_monitor_step lib op st all
    = Some (st[hits := map (\<lambda>k. if is_param_valid (st ! i ! k) then d_incr (st ! hits ! k) else st ! hits ! k) [0..<n]], all)"
proof -
  have len: "length (st ! i) = n" "length (st ! hits) = n" "i < length st" "hits < length st" using assms(3,4) by (simp_all add: has_vec_def)
  have "map (\<lambda>(x, c). if is_param_valid x then d_incr c else c) (zip (st ! i) (st ! hits))
      = map (\<lambda>k. if is_param_valid (st ! i ! k) then d_incr (st ! hits ! k) else st ! hits ! k) [0..<n]"
    using len by (intro nth_equalityI) simp_all
  then have "rate_acts (count_hit hits) (st ! i) 0 st
      = Some (n, st[hits := map (\<lambda>k. if is_param_valid (st ! i ! k) then d_incr (st ! hits ! k) else st ! hits ! k) [0..<n]])"
    using rate_acts_count [OF assms(4), of 0 "st ! i"] len by simp
  then show ?thesis using assms len by (simp add: rate_monitor_step_def rate_values_def NoParamIndex_def)
qed

definition demo_flow :: "(unit, unit) Operator" where
  "demo_flow = (make_operator (RateMonitor (FlowRate 1) [0, 1] [- 1]) 1 0)\<lparr>inputs := [Some 0]\<rparr>"

theorem flow_rate_counts_witness:
  "rate_monitor_step demo_history demo_flow [[d1, invalid_param], [d0, d1]] [] = Some ([[d1, invalid_param], [d1, d1]], [])"
proof -
  have d: "op_d demo_flow = RateMonitor (FlowRate 1) [0, 1] [- 1]" "inputs demo_flow = [Some 0]" by (simp_all add: demo_flow_def)
  have v: "has_vec [[d1, invalid_param], [d0, d1]] 0 2" "has_vec [[d1, invalid_param], [d0, d1]] 1 2" by (simp_all add: has_vec_def)
  have "is_param_valid d1" by code_simp
  then show ?thesis using flow_rate_counts [OF d v, of demo_history "[]"] by (simp add: upt_conv_Cons)
qed

end
