(* ===== verification/A2_Export.thy ===== *)
theory A2_Export
  imports A2_Operators
begin

text \<open>
  The export sink of the analysis engine, \<^verbatim>\<open>src/src/analysis/a2/a2.cc\<close>. Files and the compressing stream are a
  library, the record \<open>StreamLib\<close>: an operation returns the next state of the stream and the message of the exception it
  throws, if it does.
\<close>

record 's StreamLib =
  so_open :: "string \<Rightarrow> 's"
  so_exceptions :: "'s \<Rightarrow> 's \<times> string option"
  so_compressed :: "'s \<Rightarrow> 's"
  so_good :: "'s \<Rightarrow> bool"
  so_write :: "u8 list \<Rightarrow> 's \<Rightarrow> 's \<times> string option"

section \<open>Construction and run\<close>

definition make_export_sink ::
    "string \<Rightarrow> int \<Rightarrow> ExportSinkFormat \<Rightarrow> PipeVectors list \<Rightarrow> (PipeVectors \<times> int) option \<Rightarrow> ('x, 's) Operator option" where
  "make_export_sink filename level format dataInputs cond =
     (let condIndex = (case cond of None \<Rightarrow> - 1 | Some (_, i) \<Rightarrow> i);
          used = (0 \<le> condIndex);
          d = \<lparr>es_filename = filename, es_compressionLevel = level, es_ostream = None, es_z_ostream = None, es_condIndex = condIndex,
               es_eventsWritten = 0, es_bytesWritten = 0, es_lastError = []\<rparr>;
          op = make_operator (ExportSink format d) (length dataInputs + (if used then 1 else 0)) 0
      in do {
           op \<leftarrow> assign_inputs op dataInputs 0;
           case cond of
             None \<Rightarrow> Some op
           | Some (p, _) \<Rightarrow> if used then assign_input op p (length dataInputs) else Some op })"

text \<open>The result has the message for the logger.\<close>

definition export_sink_begin_run :: "'s StreamLib \<Rightarrow> 's ExportSinkData \<Rightarrow> 's ExportSinkData \<times> string" where
  "export_sink_begin_run lib d =
     (let s = so_open lib (es_filename d) in
      case so_exceptions lib s of
        (s, Some what) \<Rightarrow>
          let msg = ''File Export: Error opening output file '' @ es_filename d @ '': '' @ what
          in (d\<lparr>es_ostream := Some s, es_lastError := msg\<rparr>, msg)
      | (s, None) \<Rightarrow>
          (if es_compressionLevel d \<noteq> 0 then d\<lparr>es_ostream := Some s, es_z_ostream := Some (so_compressed lib s)\<rparr>
           else d\<lparr>es_ostream := Some s\<rparr>,
           ''File Export: Opened output file '' @ es_filename d))"

definition export_sink_end_run :: "'s ExportSinkData \<Rightarrow> 's ExportSinkData" where
  "export_sink_end_run d = d\<lparr>es_z_ostream := None, es_ostream := None\<rparr>"

section \<open>Bytes\<close>

text \<open>The bytes of a number in memory, lowest first.\<close>

definition le_bytes :: "nat \<Rightarrow> int \<Rightarrow> u8 list" where
  "le_bytes n x = map (\<lambda>i. of_int (x div 256 ^ i)) [0..<n]"

definition valid_indexes :: "double list \<Rightarrow> nat list" where
  "valid_indexes xs = filter (\<lambda>i. is_param_valid (xs ! i)) [0..<length xs]"

text \<open>The blocks that are written, one after the other. The count has 16 bits.\<close>

definition full_blocks :: "double list \<Rightarrow> u8 list list" where
  "full_blocks xs = [concat (map (\<lambda>x. le_bytes 8 (uint x)) xs)]"

definition indexed_blocks :: "double list \<Rightarrow> u8 list list" where
  "indexed_blocks xs =
     [le_bytes 2 (int (length (valid_indexes xs)) mod 2 ^ 16)]
     @ map (\<lambda>i. le_bytes 2 (int i)) (valid_indexes xs) @ map (\<lambda>i. le_bytes 8 (uint (xs ! i))) (valid_indexes xs)"

fun write_blocks :: "'s StreamLib \<Rightarrow> u8 list list \<Rightarrow> 's \<Rightarrow> 's \<times> string option" where
  "write_blocks lib [] s = (s, None)"
| "write_blocks lib (b # bs) s = (case so_write lib b s of (s, None) \<Rightarrow> write_blocks lib bs s | (s, Some e) \<Rightarrow> (s, Some e))"

section \<open>Steps\<close>

text \<open>The loop over the inputs; the bytes of an input are counted when all of them are written.\<close>

fun export_inputs ::
    "'s StreamLib \<Rightarrow> (double list \<Rightarrow> u8 list list) \<Rightarrow> Store \<Rightarrow> ParamVec option list \<Rightarrow> 's \<Rightarrow> nat \<Rightarrow> ('s \<times> nat \<times> string option) option" where
  "export_inputs lib blocks st [] s n = Some (s, n, None)"
| "export_inputs lib blocks st (v # vs) s n =
     (if \<not> so_good lib s then Some (s, n, None)
      else do {
        v \<leftarrow> v; xs \<leftarrow> at_opt st v;
        check (length xs \<le> 65535);
        case write_blocks lib (blocks xs) s of
          (s, Some e) \<Rightarrow> Some (s, n, Some e)
        | (s, None) \<Rightarrow> export_inputs lib blocks st vs s (n + length (concat (blocks xs))) })"

definition export_outp :: "'s ExportSinkData \<Rightarrow> 's option" where
  "export_outp d = (if es_compressionLevel d \<noteq> 0 then es_z_ostream d else es_ostream d)"

definition export_set :: "'s ExportSinkData \<Rightarrow> 's \<Rightarrow> 's ExportSinkData" where
  "export_set d s = (if es_compressionLevel d \<noteq> 0 then d\<lparr>es_z_ostream := Some s\<rparr> else d\<lparr>es_ostream := Some s\<rparr>)"

text \<open>The inputs with data: all, or all but the last one, if that is the condition and it is valid; \<^const>\<open>None\<close> inside if
  it is not.\<close>

definition export_selected :: "'s ExportSinkData \<Rightarrow> ParamVec option list \<Rightarrow> Store \<Rightarrow> ParamVec option list option option" where
  "export_selected d ins st =
     (if 0 \<le> es_condIndex d
      then do {
        check (ins \<noteq> []);
        c \<leftarrow> last ins;
        x \<leftarrow> get_s st c (es_condIndex d);
        Some (if is_param_valid x then Some (butlast ins) else None) }
      else Some (Some ins))"

definition export_step ::
    "'s StreamLib \<Rightarrow> (double list \<Rightarrow> u8 list list) \<Rightarrow> 's ExportSinkData \<Rightarrow> ParamVec option list \<Rightarrow> Store \<Rightarrow> 's ExportSinkData option" where
  "export_step lib blocks d ins st =
     (case export_outp d of
        None \<Rightarrow> Some d
      | Some s \<Rightarrow> do {
          sel \<leftarrow> export_selected d ins st;
          case sel of
            None \<Rightarrow> Some d
          | Some ins \<Rightarrow>
              if \<not> so_good lib s then Some d
              else do {
                (s, n, err) \<leftarrow> export_inputs lib blocks st ins s 0;
                let d = (export_set d s)\<lparr>es_bytesWritten := es_bytesWritten d + n\<rparr>;
                Some (case err of
                        None \<Rightarrow> d\<lparr>es_eventsWritten := es_eventsWritten d + 1\<rparr>
                      | Some what \<Rightarrow> d\<lparr>es_lastError := ''Error writing to output file '' @ es_filename d @ '': '' @ what\<rparr>) } })"

definition export_sink_step :: "'s StreamLib \<Rightarrow> ('x, 's) Operator \<Rightarrow> Store \<Rightarrow> ('x, 's) Operator option" where
  "export_sink_step lib op st =
     (case op_d op of
        ExportSink format d \<Rightarrow> do {
          d \<leftarrow> export_step lib (case format of ExportSinkFull \<Rightarrow> full_blocks | ExportSinkSparse \<Rightarrow> indexed_blocks) d (inputs op) st;
          Some (op\<lparr>op_d := ExportSink format d\<rparr>) }
      | _ \<Rightarrow> None)"

section \<open>Reading a file\<close>

definition le_value :: "u8 list \<Rightarrow> int" where "le_value bs = foldr (\<lambda>b v. uint b + 256 * v) bs 0"

lemma le_value_bytes: "le_value (le_bytes n x) = x mod 256 ^ n"
proof (induction n arbitrary: x)
  case (Suc n)
  have "le_bytes (Suc n) x = of_int x # le_bytes n (x div 256)"
    by (simp add: le_bytes_def map_upt_Suc zdiv_zmult2_eq [symmetric] del: upt_Suc)
  moreover have "uint (of_int x :: u8) = x mod 256" by (simp add: uint_word_of_int)
  ultimately show ?case using Suc.IH [of "x div 256"] by (simp add: le_value_def zmod_zmult2_eq)
qed (simp add: le_value_def le_bytes_def)

lemma length_le_bytes [simp]: "length (le_bytes n x) = n"
  by (simp add: le_bytes_def)

fun take_numbers :: "nat \<Rightarrow> nat \<Rightarrow> u8 list \<Rightarrow> (int list \<times> u8 list) option" where
  "take_numbers w 0 bs = Some ([], bs)"
| "take_numbers w (Suc k) bs =
     (if length bs < w then None
      else map_option (\<lambda>(xs, rest). (le_value (take w bs) # xs, rest)) (take_numbers w k (drop w bs)))"

text \<open>The count, the indexes and the values of an array in the sparse format.\<close>

definition read_indexed :: "u8 list \<Rightarrow> ((int \<times> int) list \<times> u8 list) option" where
  "read_indexed bs = do {
     (c, bs) \<leftarrow> take_numbers 2 1 bs;
     (is, bs) \<leftarrow> take_numbers 2 (nat (hd c)) bs;
     (xs, bs) \<leftarrow> take_numbers 8 (nat (hd c)) bs;
     Some (zip is xs, bs) }"

lemma take_numbers_bytes:
  "\<forall>x \<in> set xs. 0 \<le> x \<and> x < 256 ^ w \<Longrightarrow> take_numbers w (length xs) (concat (map (le_bytes w) xs) @ rest) = Some (xs, rest)"
  by (induction xs) (simp_all add: le_value_bytes)

text \<open>C23: the sparse format can be read back: the blocks that are written for an array of at most 65535 parameters give the
  indexes and the values of its valid parameters, in order, and leave what follows.\<close>

theorem export_sparse_roundtrip:
  assumes "length xs \<le> 65535"
  shows "read_indexed (concat (indexed_blocks xs) @ rest) = Some (map (\<lambda>i. (int i, uint (xs ! i))) (valid_indexes xs), rest)"
proof -
  let ?is = "valid_indexes xs"
  have bound: "\<forall>i \<in> set ?is. i < length xs" by (simp add: valid_indexes_def)
  have len: "length ?is \<le> 65535" using assms length_filter_le [of "\<lambda>i. is_param_valid (xs ! i)" "[0..<length xs]"] by (simp add: valid_indexes_def)
  have m: "int (length ?is) mod 2 ^ 16 = int (length ?is)" using len by simp
  have c: "le_value (le_bytes 2 (int (length ?is))) = int (length ?is)" using len by (simp add: le_value_bytes)
  have 2: "take_numbers 2 (length ?is) (concat (map (\<lambda>i. le_bytes 2 (int i)) ?is) @ r) = Some (map int ?is, r)" for r
    using take_numbers_bytes [of "map int ?is" 2 r] bound assms by (simp add: comp_def, force)
  have 8: "take_numbers 8 (length ?is) (concat (map (\<lambda>i. le_bytes 8 (uint (xs ! i))) ?is) @ r) = Some (map (\<lambda>i. uint (xs ! i)) ?is, r)" for r
  proof -
    have "uint y < 0x10000000000000000" for y :: u64 using unsigned_less [of y, where 'a = int] by simp
    then show ?thesis using take_numbers_bytes [of "map (\<lambda>i. uint (xs ! i)) ?is" 8 r] by (simp add: comp_def)
  qed
  show ?thesis unfolding indexed_blocks_def m by (simp add: read_indexed_def c 2 8 zip_map_map zip_same_conv_map comp_def)
qed

theorem export_sparse_roundtrip_witness:
  "read_indexed (concat (indexed_blocks [d1, invalid_param, d0]) @ [7]) = Some ([(0, 0x3FF0000000000000), (2, 0)], [7])"
proof -
  have "valid_indexes [d1, invalid_param, d0] = [0, 2]" by code_simp
  then show ?thesis using export_sparse_roundtrip [of "[d1, invalid_param, d0]" "[7]"] by (simp add: d1_def d0_def)
qed

end
