(* ===== verification/A2_Engine.thy ===== *)
theory A2_Engine
  imports A2_Listfilter A2_Rates A2_Export
begin

text \<open>
  The analysis engine, \<^verbatim>\<open>src/src/analysis/a2/a2.cc\<close> and \<^verbatim>\<open>a2.h\<close>: conditions, the table of the step functions, and
  the operations of a run, which are the begin and end of the run and of events, the data of modules and time ticks.
  Bitsets, evaluation of compiled expressions and the test for a point in a polygon are code of other libraries, fields
  of the record \<open>EngineLib\<close>. \<^const>\<open>None\<close> is a failed assertion.
\<close>

section \<open>State\<close>

definition MaxVMEEvents :: nat where "MaxVMEEvents = 12"
definition MaxVMEModules :: nat where "MaxVMEModules = 20"

record 'b BitsLib =
  bits_size :: "'b \<Rightarrow> nat"
  bits_test :: "'b \<Rightarrow> nat \<Rightarrow> bool"
  bits_set :: "nat \<Rightarrow> bool \<Rightarrow> 'b \<Rightarrow> 'b"

text \<open>An expression has references to the input and output vectors of its operator.\<close>

record ('x, 's, 'r, 'h, 'b) EngineLib =
  lib_random :: "'r RandomLib"
  lib_history :: "'h HistoryLib"
  lib_streams :: "'s StreamLib"
  lib_bits :: "'b BitsLib"
  lib_expression :: "'x \<Rightarrow> ParamVec option list \<Rightarrow> ParamVec option list \<Rightarrow> Store \<Rightarrow> 'x \<times> Store"
  lib_within :: "double \<times> double \<Rightarrow> (double \<times> double) list \<Rightarrow> bool"

text \<open>What the operators share, and the engine. The arrays of data sources and operators have an element per event;
  the counts of an event are the lengths of its elements.\<close>

record ('h, 'b) EngineState =
  vectors :: Store
  samplers :: "'h RateSampler list"
  conditionBits :: 'b

record ('x, 's, 'r, 'h, 'b) A2 =
  dataSources :: "'r DataSource list list"
  operators :: "('x, 's) Operator list list"
  state :: "('h, 'b) EngineState"

text \<open>A new engine; the vectors of its arena are there before. The counts of the arguments only say how much memory is
  reserved.\<close>

definition make_a2 :: "nat list \<Rightarrow> nat list \<Rightarrow> ('h, 'b) EngineState \<Rightarrow> ('x, 's, 'r, 'h, 'b) A2 option" where
  "make_a2 dataSourceCounts operatorCounts s = do {
     check (length dataSourceCounts < MaxVMEEvents);
     check (length operatorCounts < MaxVMEEvents);
     Some \<lparr>dataSources = replicate MaxVMEEvents [], operators = replicate MaxVMEEvents [], state = s\<rparr> }"

section \<open>Conditions\<close>

definition make_condition_interval :: "PipeVectors \<Rightarrow> Interval list \<Rightarrow> ('x, 's) Operator option" where
  "make_condition_interval input intervals =
     assign_input (make_operator (Condition (- 1) (ConditionInterval intervals)) 1 0) input 0"

definition make_condition_rectangle ::
    "PipeVectors \<Rightarrow> PipeVectors \<Rightarrow> int \<Rightarrow> int \<Rightarrow> Interval \<Rightarrow> Interval \<Rightarrow> ('x, 's) Operator option" where
  "make_condition_rectangle x y xIndex yIndex xInterval yInterval =
     assign_inputs (make_operator (Condition (- 1) (ConditionRectangle xInterval yInterval xIndex yIndex)) 2 0) [x, y] 0"

definition make_condition_polygon ::
    "PipeVectors \<Rightarrow> PipeVectors \<Rightarrow> int \<Rightarrow> int \<Rightarrow> (double \<times> double) list \<Rightarrow> ('x, 's) Operator option" where
  "make_condition_polygon x y xIndex yIndex polygon =
     assign_inputs (make_operator (Condition (- 1) (ConditionPolygon polygon xIndex yIndex)) 2 0) [x, y] 0"

definition is_condition_operator :: "('x, 's) Operator \<Rightarrow> bool" where
  "is_condition_operator op = (case op_d op of Condition _ _ \<Rightarrow> True | _ \<Rightarrow> False)"

definition get_number_of_condition_bits_used :: "('x, 's) Operator \<Rightarrow> Store \<Rightarrow> nat option" where
  "get_number_of_condition_bits_used op st = do {
     check (1 \<le> length (inputs op));
     case op_d op of
       Condition _ (ConditionInterval _) \<Rightarrow> map_option (vec_size st) (in_vec op 0)
     | Condition _ _ \<Rightarrow> Some 1
     | _ \<Rightarrow> Some 0 }"

definition set_bit_at :: "'b BitsLib \<Rightarrow> nat \<Rightarrow> bool \<Rightarrow> 'b \<Rightarrow> 'b option" where
  "set_bit_at lib k v bits = (if k < bits_size lib bits then Some (bits_set lib k v bits) else None)"

fun interval_loop :: "'b BitsLib \<Rightarrow> Interval list \<Rightarrow> ParamVec \<Rightarrow> Store \<Rightarrow> nat \<Rightarrow> nat list \<Rightarrow> 'b \<Rightarrow> 'b option" where
  "interval_loop lib intervals i st first [] bits = Some bits"
| "interval_loop lib intervals i st first (idx # idxs) bits = do {
     t \<leftarrow> at_opt intervals idx;
     x \<leftarrow> vec_get st i idx;
     bits \<leftarrow> set_bit_at lib (first + idx) (in_range t x) bits;
     interval_loop lib intervals i st first idxs bits }"

definition condition_interval_step :: "'b BitsLib \<Rightarrow> ('x, 's) Operator \<Rightarrow> Store \<Rightarrow> 'b \<Rightarrow> 'b option" where
  "condition_interval_step lib op st bits =
     (case op_d op of
        Condition firstBit (ConditionInterval intervals) \<Rightarrow> do {
          check (counts op 1 0);
          i \<leftarrow> in_vec op 0;
          check (vec_size st i = length intervals);
          check (0 \<le> firstBit \<and> nat firstBit < bits_size lib bits \<and> nat firstBit + length intervals \<le> bits_size lib bits);
          interval_loop lib intervals i st (nat firstBit) [0..<vec_size st i] bits }
      | _ \<Rightarrow> None)"

definition condition_rectangle_step :: "'b BitsLib \<Rightarrow> ('x, 's) Operator \<Rightarrow> Store \<Rightarrow> 'b \<Rightarrow> 'b option" where
  "condition_rectangle_step lib op st bits =
     (case op_d op of
        Condition firstBit (ConditionRectangle xInterval yInterval xIndex yIndex) \<Rightarrow> do {
          check (counts op 2 0);
          check (0 \<le> firstBit \<and> nat firstBit < bits_size lib bits);
          xi \<leftarrow> in_vec op 0; yi \<leftarrow> in_vec op 1;
          x \<leftarrow> get_s st xi xIndex; y \<leftarrow> get_s st yi yIndex;
          set_bit_at lib (nat firstBit) (in_range xInterval x \<and> in_range yInterval y) bits }
      | _ \<Rightarrow> None)"

definition condition_polygon_step ::
    "(double \<times> double \<Rightarrow> (double \<times> double) list \<Rightarrow> bool) \<Rightarrow> 'b BitsLib \<Rightarrow> ('x, 's) Operator \<Rightarrow> Store \<Rightarrow> 'b \<Rightarrow> 'b option" where
  "condition_polygon_step inPolygon lib op st bits =
     (case op_d op of
        Condition firstBit (ConditionPolygon polygon xIndex yIndex) \<Rightarrow> do {
          check (counts op 2 0);
          check (0 \<le> firstBit \<and> nat firstBit < bits_size lib bits);
          xi \<leftarrow> in_vec op 0; yi \<leftarrow> in_vec op 1;
          x \<leftarrow> get_s st xi xIndex; y \<leftarrow> get_s st yi yIndex;
          set_bit_at lib (nat firstBit) (inPolygon (x, y) polygon) bits }
      | _ \<Rightarrow> None)"

section \<open>The table of step functions\<close>

text \<open>What a step function leaves as it is, for the kinds of step functions of the other theories.\<close>

definition on_vectors :: "(Store \<Rightarrow> Store option) \<Rightarrow> ('x, 's) Operator \<Rightarrow> ('h, 'b) EngineState \<Rightarrow>
    (('x, 's) Operator \<times> ('h, 'b) EngineState) option" where
  "on_vectors f op s = map_option (\<lambda>st. (op, s\<lparr>vectors := st\<rparr>)) (f (vectors s))"

definition on_histos :: "(Store \<Rightarrow> (('x, 's) Operator \<times> Store) option) \<Rightarrow> ('h, 'b) EngineState \<Rightarrow>
    (('x, 's) Operator \<times> ('h, 'b) EngineState) option" where
  "on_histos f s = map_option (\<lambda>(op, st). (op, s\<lparr>vectors := st\<rparr>)) (f (vectors s))"

definition on_bits :: "(Store \<Rightarrow> 'b \<Rightarrow> 'b option) \<Rightarrow> ('x, 's) Operator \<Rightarrow> ('h, 'b) EngineState \<Rightarrow>
    (('x, 's) Operator \<times> ('h, 'b) EngineState) option" where
  "on_bits f op s = map_option (\<lambda>bits. (op, s\<lparr>conditionBits := bits\<rparr>)) (f (vectors s) (conditionBits s))"

text \<open>There is no step function for an invalid operator.\<close>

definition operator_step :: "('x, 's, 'r, 'h, 'b) EngineLib \<Rightarrow> ('x, 's) Operator \<Rightarrow> ('h, 'b) EngineState \<Rightarrow>
    (('x, 's) Operator \<times> ('h, 'b) EngineState) option" where
  "operator_step lib op s =
     (case op_d op of
        Invalid_OperatorType \<Rightarrow> None
      | Calibration _ \<Rightarrow> on_vectors (calibration_step op) op s
      | Calibration_sse _ \<Rightarrow> on_vectors (calibration_sse_step op) op s
      | Calibration_idx _ _ \<Rightarrow> on_vectors (calibration_step_idx op) op s
      | KeepPrevious _ _ \<Rightarrow> on_vectors (keep_previous_step op) op s
      | KeepPrevious_idx _ _ _ \<Rightarrow> on_vectors (keep_previous_step_idx op) op s
      | Difference \<Rightarrow> on_vectors (difference_step op) op s
      | Difference_idx _ _ \<Rightarrow> on_vectors (difference_step_idx op) op s
      | ArrayMap _ \<Rightarrow> on_vectors (array_map_step op) op s
      | BinaryEquation _ \<Rightarrow> on_vectors (binary_equation_step op) op s
      | BinaryEquation_idx _ _ _ \<Rightarrow> on_vectors (binary_equation_step_idx op) op s
      | H1DSink _ \<Rightarrow> on_histos (h1d_sink_step op) s
      | H1DSink_idx _ _ \<Rightarrow> on_histos (h1d_sink_step_idx op) s
      | H2DSink _ _ _ \<Rightarrow> on_histos (h2d_sink_step op) s
      | RateMonitor _ _ _ \<Rightarrow> map_option (\<lambda>(st, rs). (op, s\<lparr>vectors := st, samplers := rs\<rparr>))
          (rate_monitor_step (lib_history lib) op (vectors s) (samplers s))
      | ExportSink _ _ \<Rightarrow> map_option (\<lambda>op. (op, s)) (export_sink_step (lib_streams lib) op (vectors s))
      | RangeFilter _ _ \<Rightarrow> on_vectors (range_filter_step op) op s
      | RangeFilter_idx _ _ _ \<Rightarrow> on_vectors (range_filter_step_idx op) op s
      | RectFilter _ _ _ _ _ \<Rightarrow> on_vectors (rect_filter_step op) op s
      | ConditionFilter _ _ _ \<Rightarrow> on_vectors (condition_filter_step op) op s
      | Aggregate _ _ \<Rightarrow> on_vectors (aggregate_step op) op s
      | Expression x \<Rightarrow> (let (x, st) = lib_expression lib x (inputs op) (outputs op) (vectors s)
                        in Some (op\<lparr>op_d := Expression x\<rparr>, s\<lparr>vectors := st\<rparr>))
      | Condition _ (ConditionInterval _) \<Rightarrow> on_bits (condition_interval_step (lib_bits lib) op) op s
      | Condition _ (ConditionRectangle _ _ _ _) \<Rightarrow> on_bits (condition_rectangle_step (lib_bits lib) op) op s
      | Condition _ (ConditionPolygon _ _ _) \<Rightarrow> on_bits (condition_polygon_step (lib_within lib) (lib_bits lib) op) op s)"

section \<open>Events\<close>

definition source_begin_event :: "'r DataSource \<Rightarrow> Store \<Rightarrow> ('r DataSource \<times> Store) option" where
  "source_begin_event ds st =
     (case ds_d ds of
        ExtractorData ex \<Rightarrow> extractor_begin_event ds ex st
      | ListFilterData _ \<Rightarrow> listfilter_extractor_begin_event ds st)"

fun begin_sources :: "'r DataSource list \<Rightarrow> Store \<Rightarrow> ('r DataSource list \<times> Store) option" where
  "begin_sources [] st = Some ([], st)"
| "begin_sources (ds # dss) st = do {
     (ds, st) \<leftarrow> source_begin_event ds st;
     (dss, st) \<leftarrow> begin_sources dss st;
     Some (ds # dss, st) }"

text \<open>Storing the data sources of an event and the vectors.\<close>

definition set_sources :: "nat \<Rightarrow> 'r DataSource list \<times> Store \<Rightarrow> ('x, 's, 'r, 'h, 'b) A2 \<Rightarrow> ('x, 's, 'r, 'h, 'b) A2" where
  "set_sources ei r a2 = a2\<lparr>dataSources := (dataSources a2)[ei := fst r], state := (state a2)\<lparr>vectors := snd r\<rparr>\<rparr>"

definition a2_begin_event :: "nat \<Rightarrow> ('x, 's, 'r, 'h, 'b) A2 \<Rightarrow> ('x, 's, 'r, 'h, 'b) A2 option" where
  "a2_begin_event eventIndex a2 = do {
     check (eventIndex < MaxVMEEvents);
     dss \<leftarrow> at_opt (dataSources a2) eventIndex;
     r \<leftarrow> begin_sources dss (vectors (state a2));
     Some (set_sources eventIndex r a2) }"

text \<open>All extractors get the whole data of their module; the list filter extractors share it, \<open>cur\<close> is the number of
  words they have moved on.\<close>

fun process_sources :: "'r RandomLib \<Rightarrow> nat \<Rightarrow> u32 list \<Rightarrow> 'r DataSource list \<Rightarrow> nat \<Rightarrow> Store \<Rightarrow> ('r DataSource list \<times> Store) option" where
  "process_sources lib moduleIndex data [] cur st = Some ([], st)"
| "process_sources lib moduleIndex data (ds # dss) cur st = do {
     (cur, ds, st) \<leftarrow>
       (if ds_moduleIndex ds \<noteq> moduleIndex then Some (cur, ds, st)
        else case ds_d ds of
          ExtractorData ex \<Rightarrow> map_option (\<lambda>(ds, st). (cur, ds, st)) (extractor_process_module_data lib ds ex data st)
        | ListFilterData ex \<Rightarrow>
            if cur < length data
            then map_option (\<lambda>(n, ds, st). (cur + n, ds, st)) (listfilter_extractor_process_module_data lib ds ex (drop cur data) st)
            else Some (cur, ds, st));
     (dss, st) \<leftarrow> process_sources lib moduleIndex data dss cur st;
     Some (ds # dss, st) }"

definition a2_process_module_data :: "'r RandomLib \<Rightarrow> nat \<Rightarrow> nat \<Rightarrow> u32 list \<Rightarrow> ('x, 's, 'r, 'h, 'b) A2 \<Rightarrow> ('x, 's, 'r, 'h, 'b) A2 option" where
  "a2_process_module_data lib eventIndex moduleIndex data a2 = do {
     check (eventIndex < MaxVMEEvents \<and> moduleIndex < MaxVMEModules);
     dss \<leftarrow> at_opt (dataSources a2) eventIndex;
     r \<leftarrow> process_sources lib moduleIndex data dss 0 (vectors (state a2));
     Some (set_sources eventIndex r a2) }"

text \<open>The loop over the operators, with the numbers of those stepped and skipped.\<close>

fun step_operators :: "('x, 's, 'r, 'h, 'b) EngineLib \<Rightarrow> ('x, 's) Operator list \<Rightarrow> nat \<Rightarrow> nat \<Rightarrow> ('h, 'b) EngineState \<Rightarrow>
    (('x, 's) Operator list \<times> nat \<times> nat \<times> ('h, 'b) EngineState) option" where
  "step_operators lib [] stepped skipped s = Some ([], stepped, skipped, s)"
| "step_operators lib (op # ops) stepped skipped s = do {
     check (op_d op \<noteq> Invalid_OperatorType);
     check (conditionIndex op < 0 \<or> nat (conditionIndex op) < bits_size (lib_bits lib) (conditionBits s));
     (op, stepped, skipped, s) \<leftarrow>
       (if conditionIndex op < 0 \<or> bits_test (lib_bits lib) (conditionBits s) (nat (conditionIndex op))
        then map_option (\<lambda>(op, s). (op, stepped + 1, skipped, s)) (operator_step lib op s)
        else map_option (\<lambda>st. (op, stepped, skipped + 1, s\<lparr>vectors := st\<rparr>)) (invalidate_outputs op (vectors s)));
     (ops, r) \<leftarrow> step_operators lib ops stepped skipped s;
     Some (op # ops, r) }"

text \<open>The assertions of the debug output of a condition.\<close>

definition condition_bits_in_range :: "'b BitsLib \<Rightarrow> ('h, 'b) EngineState \<Rightarrow> ('x, 's) Operator \<Rightarrow> bool" where
  "condition_bits_in_range lib s op =
     (case (op_d op, get_number_of_condition_bits_used op (vectors s)) of
        (Condition firstBit _, Some n) \<Rightarrow> 0 \<le> firstBit \<and> (n = 0 \<or> nat firstBit + n \<le> bits_size lib (conditionBits s))
      | _ \<Rightarrow> False)"

definition a2_end_event :: "('x, 's, 'r, 'h, 'b) EngineLib \<Rightarrow> nat \<Rightarrow> ('x, 's, 'r, 'h, 'b) A2 \<Rightarrow> ('x, 's, 'r, 'h, 'b) A2 option" where
  "a2_end_event lib eventIndex a2 = do {
     check (eventIndex < MaxVMEEvents);
     ops \<leftarrow> at_opt (operators a2) eventIndex;
     (ops, stepped, skipped, s) \<leftarrow> step_operators lib ops 0 0 (state a2);
     check (stepped + skipped = length ops);
     check (list_all (\<lambda>op. is_condition_operator op \<longrightarrow> condition_bits_in_range (lib_bits lib) s op) ops);
     Some (a2\<lparr>operators := (operators a2)[eventIndex := ops], state := s\<rparr>) }"

section \<open>Runs and time ticks\<close>

text \<open>Only export sinks have functions for the begin and end of a run. The begin gives the messages for the logger.\<close>

definition operator_begin_run :: "'s StreamLib \<Rightarrow> ('x, 's) Operator \<Rightarrow> ('x, 's) Operator \<times> string list" where
  "operator_begin_run lib op =
     (case op_d op of
        ExportSink format d \<Rightarrow> (let (d, msg) = export_sink_begin_run lib d in (op\<lparr>op_d := ExportSink format d\<rparr>, [msg]))
      | _ \<Rightarrow> (op, []))"

definition a2_begin_run :: "'s StreamLib \<Rightarrow> ('x, 's, 'r, 'h, 'b) A2 \<Rightarrow> ('x, 's, 'r, 'h, 'b) A2 \<times> string list" where
  "a2_begin_run lib a2 =
     (let rs = map (map (operator_begin_run lib)) (operators a2)
      in (a2\<lparr>operators := map (map fst) rs\<rparr>, concat (map snd (concat rs))))"

definition operator_end_run :: "('x, 's) Operator \<Rightarrow> ('x, 's) Operator" where
  "operator_end_run op =
     (case op_d op of ExportSink format d \<Rightarrow> op\<lparr>op_d := ExportSink format (export_sink_end_run d)\<rparr> | _ \<Rightarrow> op)"

definition a2_end_run :: "('x, 's, 'r, 'h, 'b) A2 \<Rightarrow> ('x, 's, 'r, 'h, 'b) A2" where
  "a2_end_run a2 = a2\<lparr>operators := map (map operator_end_run) (operators a2)\<rparr>"

fun timetick_operators :: "'h HistoryLib \<Rightarrow> ('x, 's) Operator list \<Rightarrow> Store \<Rightarrow> 'h RateSampler list \<Rightarrow> 'h RateSampler list option" where
  "timetick_operators lib [] st rs = Some rs"
| "timetick_operators lib (op # ops) st rs = do {
     rs \<leftarrow> (case op_d op of RateMonitor (FlowRate _) _ _ \<Rightarrow> rate_monitor_sample_flow lib op st rs | _ \<Rightarrow> Some rs);
     timetick_operators lib ops st rs }"

definition a2_timetick :: "'h HistoryLib \<Rightarrow> ('x, 's, 'r, 'h, 'b) A2 \<Rightarrow> ('x, 's, 'r, 'h, 'b) A2 option" where
  "a2_timetick lib a2 =
     map_option (\<lambda>rs. a2\<lparr>state := (state a2)\<lparr>samplers := rs\<rparr>\<rparr>)
       (timetick_operators lib (concat (operators a2)) (vectors (state a2)) (samplers (state a2)))"

end
