(* ===== verification/A2_Frame.thy ===== *)
theory A2_Frame
  imports A2_Engine
begin

text \<open>
  What the operations of the analysis engine write: every operator writes its outputs and vectors of its own, every data
  source its output and hit counts. The number of the vectors and their sizes stay as they are.
\<close>

section \<open>Stores that agree\<close>

definition only_writes :: "ParamVec set \<Rightarrow> Store \<Rightarrow> Store \<Rightarrow> bool" where
  "only_writes W st st' \<longleftrightarrow> length st' = length st
     \<and> (\<forall>v < length st. length (st' ! v) = length (st ! v) \<and> (v \<notin> W \<longrightarrow> st' ! v = st ! v))"

lemma only_writes_refl [simp, intro]: "only_writes W st st"
  by (simp add: only_writes_def)

lemma only_writes_trans [trans]: "only_writes W a b \<Longrightarrow> only_writes W b c \<Longrightarrow> only_writes W a c"
  by (auto simp: only_writes_def)

lemma only_writes_mono: "only_writes W a b \<Longrightarrow> W \<subseteq> W' \<Longrightarrow> only_writes W' a b"
  by (auto simp: only_writes_def)

lemma vec_set_writes: "vec_set v i x st = Some st' \<Longrightarrow> v \<in> W \<Longrightarrow> only_writes W st st'"
  by (auto simp: vec_set_Some_iff only_writes_def nth_list_update)

lemma write_loop_writes: "write_loop f out is st = Some st' \<Longrightarrow> out \<in> W \<Longrightarrow> only_writes W st st'"
  by (induction f out "is" st arbitrary: st' rule: write_loop.induct)
    (auto simp: bind_eq_Some_conv intro: only_writes_trans vec_set_writes)

lemma for_each_writes:
  assumes "\<And>x a b. f x a = Some b \<Longrightarrow> only_writes W a b" "for_each f xs st = Some st'"
  shows "only_writes W st st'"
  using assms(2)
proof (induction xs arbitrary: st)
  case (Cons x xs)
  then obtain a where a: "f x st = Some a" "for_each f xs a = Some st'" by (auto simp: bind_eq_Some_conv)
  show ?case by (rule only_writes_trans [OF assms(1) [OF a(1)] Cons.IH [OF a(2)]])
qed simp

lemma set_all_writes: "set_all v ixs st = Some st' \<Longrightarrow> v \<in> W \<Longrightarrow> only_writes W st st'"
  by (induction v ixs st arbitrary: st' rule: set_all.induct) (auto simp: bind_eq_Some_conv intro: only_writes_trans vec_set_writes)

lemma sse_loop_writes: "sse_loop i il factors ol out idxs st = Some st' \<Longrightarrow> out \<in> W \<Longrightarrow> only_writes W st st'"
  by (induction i il factors ol out idxs st arbitrary: st' rule: sse_loop.induct)
    (auto simp: bind_eq_Some_conv Let_def simp del: upt.simps intro: only_writes_trans set_all_writes)

lemma fill_writes: "fill v x st = Some st' \<Longrightarrow> v \<in> W \<Longrightarrow> only_writes W st st'"
  by (simp add: fill_def write_loop_writes)

lemma invalidate_all_writes: "invalidate_all v st = Some st' \<Longrightarrow> v \<in> W \<Longrightarrow> only_writes W st st'"
  by (simp add: invalidate_all_def fill_writes)

lemma invalidate_vectors_writes: "invalidate_vectors vs st = Some st' \<Longrightarrow> {v. Some v \<in> set vs} \<subseteq> W \<Longrightarrow> only_writes W st st'"
proof (induction vs arbitrary: st)
  case (Cons v vs)
  then obtain w a where a: "v = Some w" "invalidate_all w st = Some a" "invalidate_vectors vs a = Some st'"
    by (auto simp: bind_eq_Some_conv split: option.splits)
  have "only_writes W st a" using a(1) Cons.prems(2) by (intro invalidate_all_writes [OF a(2)]) auto
  also have "only_writes W a st'" using Cons.IH [OF a(3)] Cons.prems(2) by auto
  finally show ?case .
qed simp

section \<open>Operators\<close>

definition histo_writes :: "H1D \<Rightarrow> ParamVec set" where
  "histo_writes h = insert (h1_data h) (fst ` (set_option (h1_underflow h) \<union> set_option (h1_overflow h)))"

definition output_vectors :: "('x, 's) Operator \<Rightarrow> ParamVec set" where
  "output_vectors op = {v. Some v \<in> set (outputs op)}"

definition own_vectors :: "('x, 's) OperatorData \<Rightarrow> ParamVec set" where
  "own_vectors d =
     (case d of
        KeepPrevious prev _ \<Rightarrow> {prev}
      | KeepPrevious_idx prev _ _ \<Rightarrow> {prev}
      | H1DSink histos \<Rightarrow> \<Union> (histo_writes ` set histos)
      | H1DSink_idx histos _ \<Rightarrow> \<Union> (histo_writes ` set histos)
      | H2DSink histo _ _ \<Rightarrow> {h2_data histo}
      | RateMonitor (FlowRate hits) _ _ \<Rightarrow> {hits}
      | _ \<Rightarrow> {})"

definition op_writes :: "('x, 's) Operator \<Rightarrow> ParamVec set" where
  "op_writes op = output_vectors op \<union> own_vectors (op_d op)"

lemma out_vec_writes: "out_vec op k = Some v \<Longrightarrow> v \<in> op_writes op"
  by (auto simp: out_vec_def slot_def op_writes_def output_vectors_def bind_eq_Some_conv at_opt_def id_def split: if_splits)
    (metis nth_mem)

lemma keep_input_writes: "keep_input prev keepValid idx inp st = Some st' \<Longrightarrow> prev \<in> W \<Longrightarrow> only_writes W st st'"
  by (auto simp: keep_input_def split: if_splits intro: vec_set_writes)

lemma keep_previous_writes:
  assumes "keep_previous_step op st = Some st'"
  shows "only_writes (op_writes op) st st'"
proof (cases "op_d op")
  case (KeepPrevious prev keepValid)
  obtain i out st1 where 1: "out_vec op 0 = Some out"
    "write_loop (\<lambda>idx st. vec_get st prev idx) out [0..<vec_size st i] st = Some st1"
    "for_each (\<lambda>idx st. do { inp \<leftarrow> vec_get st i idx; keep_input prev keepValid idx inp st }) [0..<vec_size st i] st1 = Some st'"
    using assms by (auto simp: keep_previous_step_def KeepPrevious bind_eq_Some_conv)
  have "only_writes (op_writes op) st st1" by (rule write_loop_writes [OF 1(2) out_vec_writes [OF 1(1)]])
  also have "only_writes (op_writes op) st1 st'"
  proof (rule for_each_writes [OF _ 1(3)])
    fix k a b assume "do { inp \<leftarrow> vec_get a i k; keep_input prev keepValid k inp a } = Some b"
    then show "only_writes (op_writes op) a b"
      by (auto simp: bind_eq_Some_conv op_writes_def own_vectors_def KeepPrevious intro: keep_input_writes)
  qed
  finally show ?thesis .
qed (use assms in \<open>simp_all add: keep_previous_step_def\<close>)

lemma keep_previous_idx_writes:
  assumes "keep_previous_step_idx op st = Some st'"
  shows "only_writes (op_writes op) st st'"
proof (cases "op_d op")
  case (KeepPrevious_idx prev keepValid inputIndex)
  obtain out p st1 inp where 1: "out_vec op 0 = Some out" "vec_set out 0 p st = Some st1" "keep_input prev keepValid 0 inp st1 = Some st'"
    using assms by (auto simp: keep_previous_step_idx_def KeepPrevious_idx bind_eq_Some_conv)
  have "only_writes (op_writes op) st st1" by (rule vec_set_writes [OF 1(2) out_vec_writes [OF 1(1)]])
  also have "only_writes (op_writes op) st1 st'"
    by (rule keep_input_writes [OF 1(3)]) (simp add: op_writes_def own_vectors_def KeepPrevious_idx)
  finally show ?thesis .
qed (use assms in \<open>simp_all add: keep_previous_step_idx_def\<close>)

text \<open>The operators that write their first output only.\<close>

lemmas single_writes = vec_set_writes write_loop_writes sse_loop_writes

lemma calibration_step_writes: "calibration_step op st = Some st' \<Longrightarrow> only_writes (op_writes op) st st'"
  by (cases "op_d op") (auto simp: calibration_step_def bind_eq_Some_conv Let_def split: if_splits dest: out_vec_writes intro: single_writes)

lemma calibration_sse_step_writes: "calibration_sse_step op st = Some st' \<Longrightarrow> only_writes (op_writes op) st st'"
  by (cases "op_d op") (auto simp: calibration_sse_step_def bind_eq_Some_conv Let_def split: if_splits dest: out_vec_writes intro: single_writes)

lemma calibration_step_idx_writes: "calibration_step_idx op st = Some st' \<Longrightarrow> only_writes (op_writes op) st st'"
  by (cases "op_d op") (auto simp: calibration_step_idx_def bind_eq_Some_conv Let_def split: if_splits dest: out_vec_writes intro: single_writes)

lemma difference_step_writes: "difference_step op st = Some st' \<Longrightarrow> only_writes (op_writes op) st st'"
  by (cases "op_d op") (auto simp: difference_step_def bind_eq_Some_conv Let_def split: if_splits dest: out_vec_writes intro: single_writes)

lemma difference_step_idx_writes: "difference_step_idx op st = Some st' \<Longrightarrow> only_writes (op_writes op) st st'"
  by (cases "op_d op") (auto simp: difference_step_idx_def bind_eq_Some_conv Let_def split: if_splits dest: out_vec_writes intro: single_writes)

lemma array_map_step_writes: "array_map_step op st = Some st' \<Longrightarrow> only_writes (op_writes op) st st'"
  by (cases "op_d op") (auto simp: array_map_step_def bind_eq_Some_conv Let_def split: if_splits dest: out_vec_writes intro: single_writes)

lemma binary_equation_step_writes: "binary_equation_step op st = Some st' \<Longrightarrow> only_writes (op_writes op) st st'"
  by (cases "op_d op") (auto simp: binary_equation_step_def bind_eq_Some_conv Let_def split: if_splits dest: out_vec_writes intro: single_writes)

lemma binary_equation_step_idx_writes: "binary_equation_step_idx op st = Some st' \<Longrightarrow> only_writes (op_writes op) st st'"
  by (cases "op_d op") (auto simp: binary_equation_step_idx_def bind_eq_Some_conv Let_def split: if_splits dest: out_vec_writes intro: single_writes)

lemma range_filter_step_writes: "range_filter_step op st = Some st' \<Longrightarrow> only_writes (op_writes op) st st'"
  by (cases "op_d op") (auto simp: range_filter_step_def bind_eq_Some_conv Let_def split: if_splits dest: out_vec_writes intro: single_writes)

lemma range_filter_step_idx_writes: "range_filter_step_idx op st = Some st' \<Longrightarrow> only_writes (op_writes op) st st'"
  by (cases "op_d op") (auto simp: range_filter_step_idx_def bind_eq_Some_conv Let_def split: if_splits dest: out_vec_writes intro: single_writes)

lemma rect_filter_step_writes: "rect_filter_step op st = Some st' \<Longrightarrow> only_writes (op_writes op) st st'"
  by (cases "op_d op") (auto simp: rect_filter_step_def bind_eq_Some_conv Let_def split: if_splits dest: out_vec_writes intro: single_writes)

lemma condition_filter_step_writes: "condition_filter_step op st = Some st' \<Longrightarrow> only_writes (op_writes op) st st'"
  by (cases "op_d op") (auto simp: condition_filter_step_def bind_eq_Some_conv Let_def split: if_splits dest: out_vec_writes intro: single_writes)

lemma aggregate_step_writes: "aggregate_step op st = Some st' \<Longrightarrow> only_writes (op_writes op) st st'"
  by (cases "op_d op") (auto simp: aggregate_step_def bind_eq_Some_conv Let_def split: if_splits dest: out_vec_writes intro: single_writes)

text \<open>Histograms: the places they count in stay the same.\<close>

lemma incr_at_writes: "incr_at p st = Some st' \<Longrightarrow> fst p \<in> W \<Longrightarrow> only_writes W st st'"
  by (auto simp: incr_at_def bind_eq_Some_conv intro: vec_set_writes)

lemma incr_if_writes: "incr_if p st = Some st' \<Longrightarrow> fst ` set_option p \<subseteq> W \<Longrightarrow> only_writes W st st'"
  by (cases p) (auto simp: incr_if_def intro: incr_at_writes)

lemma range_check_update_writes:
  "range_check_update h x st = Some (ok, st') \<Longrightarrow> histo_writes h \<subseteq> W \<Longrightarrow> only_writes W st st'"
  by (auto simp: range_check_update_def histo_writes_def Let_def bind_eq_Some_conv split: if_splits intro: incr_if_writes)

lemma fill_h1d_writes:
  assumes "fill_h1d h x st = Some (h', st')" "histo_writes h \<subseteq> W"
  shows "only_writes W st st'" "histo_writes h' = histo_writes h"
proof -
  obtain ok st1 where 1: "range_check_update h x st = Some (ok, st1)" "(\<exists>k. incr_at (h1_data h, k) st1 = Some st') \<or> st' = st1"
    "histo_writes h' = histo_writes h"
    using assms(1) by (fastforce simp: fill_h1d_def bind_eq_Some_conv histo_writes_def split: if_splits)
  have "only_writes W st st1" by (rule range_check_update_writes [OF 1(1) assms(2)])
  also have "only_writes W st1 st'"
    using 1(2) assms(2) by (auto simp: histo_writes_def intro: incr_at_writes)
  finally show "only_writes W st st'" .
  show "histo_writes h' = histo_writes h" by (rule 1(3))
qed

lemma fill_histos_writes:
  "fill_histos i idxs hs st = Some (hs', st') \<Longrightarrow> \<Union> (histo_writes ` set hs) \<subseteq> W
   \<Longrightarrow> only_writes W st st' \<and> map histo_writes hs' = map histo_writes hs"
proof (induction idxs arbitrary: hs st)
  case (Cons idx idxs)
  then obtain x h st1 where 1: "idx < length hs" "fill_h1d (hs ! idx) x st = Some (h, st1)"
    "fill_histos i idxs (hs[idx := h]) st1 = Some (hs', st')"
    by (auto simp: bind_eq_Some_conv at_opt_def split: if_splits)
  have W: "histo_writes (hs ! idx) \<subseteq> W" using Cons.prems(2) nth_mem [OF 1(1)] by blast
  note filled = fill_h1d_writes [OF 1(2) W]
  have same: "map histo_writes (hs[idx := h]) = map histo_writes hs"
    using 1(1) by (simp add: map_update filled(2) list_update_same_conv)
  have "\<Union> (histo_writes ` set (hs[idx := h])) = \<Union> (set (map histo_writes hs))" by (subst same [symmetric]) simp
  then have "only_writes W st1 st' \<and> map histo_writes hs' = map histo_writes (hs[idx := h])"
    using Cons.IH [OF 1(3)] Cons.prems(2) by simp
  then show ?case using only_writes_trans [OF filled(1)] same by simp
qed simp

lemma fill_h2d_writes:
  "fill_h2d h x y st = Some (h', st') \<Longrightarrow> only_writes {h2_data h} st st' \<and> h2_data h' = h2_data h"
  by (auto simp: fill_h2d_def Let_def bind_eq_Some_conv split: if_splits intro: incr_at_writes)

text \<open>Rate monitors.\<close>

lemma rate_acts_rel:
  assumes "\<And>k x w w'. act k x w = Some w' \<Longrightarrow> P w w'" "\<And>w. P w w" "\<And>a b c. P a b \<Longrightarrow> P b c \<Longrightarrow> P a c"
  shows "rate_acts act xs k w = Some (k', w') \<Longrightarrow> P w w'"
proof (induction xs arbitrary: k w)
  case (Cons x xs)
  then obtain a where a: "act k x w = Some a" "rate_acts act xs (k + 1) a = Some (k', w')" by (auto simp: bind_eq_Some_conv)
  show ?case by (rule assms(3) [OF assms(1) [OF a(1)] Cons.IH [OF a(2)]])
qed (simp add: assms(2))

lemma rate_loop_rel:
  assumes "\<And>k x w w'. act k x w = Some w' \<Longrightarrow> P w w'" "\<And>w. P w w" "\<And>a b c. P a b \<Longrightarrow> P b c \<Longrightarrow> P a c"
  shows "rate_loop act st n vs inds k w = Some (k', w') \<Longrightarrow> P w w'"
proof (induction vs arbitrary: inds k w)
  case (Cons v vs)
  then obtain ind inds' xs k1 a where a: "inds = ind # inds'" "rate_acts act xs k w = Some (k1, a)"
    "rate_loop act st n vs inds' k1 a = Some (k', w')"
    by (cases inds) (auto simp: bind_eq_Some_conv)
  show ?case by (rule assms(3) [OF rate_acts_rel [where P = P, OF assms a(2)] Cons.IH [OF a(3)]])
qed (simp add: assms(2))

lemma on_sampler_length: "on_sampler f ss k rs = Some rs' \<Longrightarrow> length rs' = length rs"
  by (auto simp: on_sampler_def bind_eq_Some_conv)

lemma count_hit_writes: "count_hit hits k x st = Some st' \<Longrightarrow> only_writes {hits} st st'"
  by (auto simp: count_hit_def split: if_splits intro: incr_at_writes)

lemma rate_monitor_writes:
  assumes "rate_monitor_step lib op st rs = Some (st', rs')"
  shows "only_writes (op_writes op) st st' \<and> length rs' = length rs"
proof (cases "op_d op")
  case (RateMonitor type ss inds)
  have len: "length rs' = length rs" if "rate_loop (\<lambda>k x. on_sampler (f x) ss k) a n vs inds 0 rs = Some (k, rs')" for f n vs k a
    by (rule rate_loop_rel [where P = "\<lambda>a b. length b = length a", OF _ _ _ that]) (auto simp: on_sampler_length)
  show ?thesis
  proof (cases type)
    case (FlowRate hits)
    then obtain k where loop: "rate_loop (count_hit hits) st (length ss) (inputs op) inds 0 st = Some (k, st')" "rs' = rs"
      using assms RateMonitor by (auto simp: rate_monitor_step_def bind_eq_Some_conv Let_def split: if_splits)
    have "only_writes {hits} st st'"
      by (rule rate_loop_rel [where P = "only_writes {hits}", OF _ _ _ loop(1)]) (auto intro: count_hit_writes only_writes_trans)
    then have "only_writes (op_writes op) st st'"
      by (rule only_writes_mono) (simp add: op_writes_def own_vectors_def RateMonitor FlowRate)
    with loop(2) show ?thesis by simp
  qed (use assms RateMonitor in \<open>auto simp: rate_monitor_step_def bind_eq_Some_conv Let_def dest: len [of "recordRate lib"] len [of "sample lib"]\<close>)
qed (use assms in \<open>simp_all add: rate_monitor_step_def\<close>)

section \<open>Steps\<close>

definition bits_ok :: "'b BitsLib \<Rightarrow> bool" where
  "bits_ok lib \<longleftrightarrow> (\<forall>bits i v. i < bits_size lib bits \<longrightarrow> bits_size lib (bits_set lib i v bits) = bits_size lib bits
     \<and> (\<forall>j < bits_size lib bits. bits_test lib (bits_set lib i v bits) j = (if j = i then v else bits_test lib bits j)))"

text \<open>An expression writes the outputs of its operator only. The code gives the input vectors to the expression as
  mutable vectors too, so that an expression that assigns to an input changes it: such expressions are left out by
  this hypothesis.\<close>

definition expression_ok :: "('x, 's, 'r, 'h, 'b) EngineLib \<Rightarrow> bool" where
  "expression_ok lib \<longleftrightarrow>
     (\<forall>x ins outs st. only_writes {v. Some v \<in> set outs} st (snd (lib_expression lib x ins outs st)))"

text \<open>The bits of a condition.\<close>

definition condition_bits :: "('x, 's) Operator \<Rightarrow> nat set" where
  "condition_bits op =
     (case op_d op of
        Condition firstBit (ConditionInterval intervals) \<Rightarrow> {nat firstBit..<nat firstBit + length intervals}
      | Condition firstBit _ \<Rightarrow> {nat firstBit}
      | _ \<Rightarrow> {})"

text \<open>What stays the same of an operator and its state.\<close>

definition same_operator :: "('x, 's) Operator \<Rightarrow> ('x, 's) Operator \<Rightarrow> bool" where
  "same_operator op op' \<longleftrightarrow> inputs op' = inputs op \<and> outputs op' = outputs op \<and> conditionIndex op' = conditionIndex op
     \<and> op_writes op' = op_writes op \<and> condition_bits op' = condition_bits op"

definition same_bits :: "'b BitsLib \<Rightarrow> nat set \<Rightarrow> 'b \<Rightarrow> 'b \<Rightarrow> bool" where
  "same_bits lib K bits bits' \<longleftrightarrow> bits_size lib bits' = bits_size lib bits
     \<and> (\<forall>k < bits_size lib bits. k \<notin> K \<longrightarrow> bits_test lib bits' k = bits_test lib bits k)"

definition step_effect :: "'b BitsLib \<Rightarrow> ParamVec set \<Rightarrow> nat set \<Rightarrow> ('h, 'b) EngineState \<Rightarrow> ('h, 'b) EngineState \<Rightarrow> bool" where
  "step_effect lib W K s s' \<longleftrightarrow> only_writes W (vectors s) (vectors s') \<and> length (samplers s') = length (samplers s)
     \<and> same_bits lib K (conditionBits s) (conditionBits s')"

lemma same_bits_refl [simp, intro]: "same_bits lib K bits bits"
  by (simp add: same_bits_def)

lemma same_bits_trans: "same_bits lib K a b \<Longrightarrow> same_bits lib K b c \<Longrightarrow> same_bits lib K a c"
  by (auto simp: same_bits_def)

lemma same_operator_refl [simp, intro]: "same_operator op op"
  by (simp add: same_operator_def)

lemma step_effect_trans [trans]: "step_effect lib W K a b \<Longrightarrow> step_effect lib W K b c \<Longrightarrow> step_effect lib W K a c"
  by (auto simp: step_effect_def intro: only_writes_trans same_bits_trans)

lemma step_effect_mono: "step_effect lib W K a b \<Longrightarrow> W \<subseteq> W' \<Longrightarrow> K \<subseteq> K' \<Longrightarrow> step_effect lib W' K' a b"
  by (auto simp: step_effect_def same_bits_def intro: only_writes_mono)

lemma set_bit_at_bits:
  assumes "bits_ok lib" "set_bit_at lib k v bits = Some bits'"
  shows "k < bits_size lib bits" "bits_size lib bits' = bits_size lib bits"
    "j < bits_size lib bits \<Longrightarrow> bits_test lib bits' j = (if j = k then v else bits_test lib bits j)"
  using assms by (auto simp: bits_ok_def set_bit_at_def split: if_splits)

lemma interval_loop_bits:
  assumes "bits_ok lib"
  shows "interval_loop lib intervals i st b [m..<n] bits = Some bits' \<Longrightarrow>
    bits_size lib bits' = bits_size lib bits \<and>
    (\<forall>j < bits_size lib bits. bits_test lib bits' j =
      (if b + m \<le> j \<and> j < b + n then in_range (intervals ! (j - b)) (st ! i ! (j - b)) else bits_test lib bits j))"
proof (induction "n - m" arbitrary: m bits)
  case (Suc d)
  then have n: "m < n" by linarith
  then obtain bits1 where 1: "set_bit_at lib (b + m) (in_range (intervals ! m) (st ! i ! m)) bits = Some bits1"
    "interval_loop lib intervals i st b [Suc m..<n] bits1 = Some bits'"
    using Suc.prems by (auto simp: upt_conv_Cons bind_eq_Some_conv at_opt_def vec_get_Some_iff split: if_splits)
  note bit = set_bit_at_bits [OF assms 1(1)]
  have "d = n - Suc m" using Suc.hyps(2) by linarith
  note rest = Suc.hyps(1) [OF this 1(2)]
  show ?case
  proof (intro conjI allI impI)
    fix j assume j: "j < bits_size lib bits"
    show "bits_test lib bits' j =
      (if b + m \<le> j \<and> j < b + n then in_range (intervals ! (j - b)) (st ! i ! (j - b)) else bits_test lib bits j)"
      using rest bit(2) bit(3) [OF j] j n by (cases "j = b + m") auto
  qed (use rest bit(2) in simp)
qed auto

lemma condition_step_bits:
  assumes "bits_ok (lib_bits lib)" "op_d op = Condition firstBit c" "operator_step lib op s = Some (op', s')"
  shows "op' = op" "vectors s' = vectors s" "samplers s' = samplers s"
    "same_bits (lib_bits lib) (condition_bits op) (conditionBits s) (conditionBits s')"
proof -
  have "op' = op \<and> vectors s' = vectors s \<and> samplers s' = samplers s
    \<and> same_bits (lib_bits lib) (condition_bits op) (conditionBits s) (conditionBits s')"
  proof (cases c)
    case (ConditionInterval intervals)
    obtain i bits where 1: "vec_size (vectors s) i = length intervals"
      "interval_loop (lib_bits lib) intervals i (vectors s) (nat firstBit) [0..<vec_size (vectors s) i] (conditionBits s) = Some bits"
      "op' = op" "s' = s\<lparr>conditionBits := bits\<rparr>"
      using assms(2,3) ConditionInterval
      by (auto simp: operator_step_def on_bits_def condition_interval_step_def bind_eq_Some_conv)
    show ?thesis using interval_loop_bits [OF assms(1) 1(2)] 1 assms(2)
      by (auto simp: same_bits_def condition_bits_def ConditionInterval)
  next
    case (ConditionRectangle xi yi k l)
    then obtain v bits where "set_bit_at (lib_bits lib) (nat firstBit) v (conditionBits s) = Some bits" "op' = op" "s' = s\<lparr>conditionBits := bits\<rparr>"
      using assms(2,3) by (auto simp: operator_step_def on_bits_def condition_rectangle_step_def bind_eq_Some_conv)
    then show ?thesis using set_bit_at_bits [OF assms(1)] assms(2)
      by (auto simp: same_bits_def condition_bits_def ConditionRectangle)
  next
    case (ConditionPolygon polygon k l)
    then obtain v bits where "set_bit_at (lib_bits lib) (nat firstBit) v (conditionBits s) = Some bits" "op' = op" "s' = s\<lparr>conditionBits := bits\<rparr>"
      using assms(2,3) by (auto simp: operator_step_def on_bits_def condition_polygon_step_def bind_eq_Some_conv)
    then show ?thesis using set_bit_at_bits [OF assms(1)] assms(2)
      by (auto simp: same_bits_def condition_bits_def ConditionPolygon)
  qed
  then show "op' = op" "vectors s' = vectors s" "samplers s' = samplers s"
    "same_bits (lib_bits lib) (condition_bits op) (conditionBits s) (conditionBits s')" by blast+
qed

lemmas vector_step_writes = calibration_step_writes calibration_sse_step_writes calibration_step_idx_writes
  keep_previous_writes keep_previous_idx_writes difference_step_writes difference_step_idx_writes array_map_step_writes
  binary_equation_step_writes binary_equation_step_idx_writes range_filter_step_writes range_filter_step_idx_writes
  rect_filter_step_writes condition_filter_step_writes aggregate_step_writes

lemma on_vectors_effect:
  assumes "on_vectors f op s = Some (op', s')" "\<And>st st'. f st = Some st' \<Longrightarrow> only_writes (op_writes op) st st'"
  shows "same_operator op op' \<and> step_effect lib (op_writes op) K s s'"
  using assms by (auto simp: on_vectors_def step_effect_def)

lemma histo_step_effects:
  "h1d_sink_step op st = Some (op', st') \<Longrightarrow> same_operator op op' \<and> only_writes (op_writes op) st st'"
  "h1d_sink_step_idx op st = Some (op', st') \<Longrightarrow> same_operator op op' \<and> only_writes (op_writes op) st st'"
  "h2d_sink_step op st = Some (op', st') \<Longrightarrow> same_operator op op' \<and> only_writes (op_writes op) st st'"
proof -
  have union: "\<Union> (histo_writes ` set hs') = \<Union> (histo_writes ` set hs)" if "map histo_writes hs' = map histo_writes hs" for hs hs'
    using arg_cong [OF that, of set] by simp
  show "same_operator op op' \<and> only_writes (op_writes op) st st'" if step: "h1d_sink_step op st = Some (op', st')"
  proof (cases "op_d op")
    case (H1DSink hs)
    then obtain i hs' where 1: "fill_histos i [0..<vec_size st i] hs st = Some (hs', st')" "op' = op\<lparr>op_d := H1DSink hs'\<rparr>"
      using step by (auto simp: h1d_sink_step_def bind_eq_Some_conv)
    have "\<Union> (histo_writes ` set hs) \<subseteq> op_writes op" by (auto simp: op_writes_def own_vectors_def H1DSink)
    from fill_histos_writes [OF 1(1) this] show ?thesis
      using union [of hs' hs] by (simp add: 1(2) same_operator_def op_writes_def output_vectors_def own_vectors_def condition_bits_def H1DSink)
  qed (use step in \<open>simp_all add: h1d_sink_step_def\<close>)
  show "same_operator op op' \<and> only_writes (op_writes op) st st'" if step: "h1d_sink_step_idx op st = Some (op', st')"
  proof (cases "op_d op")
    case (H1DSink_idx hs k)
    then obtain h x h' where 1: "hs = [h]" "fill_h1d h x st = Some (h', st')" "op' = op\<lparr>op_d := H1DSink_idx [h'] k\<rparr>"
      using step by (auto simp: h1d_sink_step_idx_def bind_eq_Some_conv length_Suc_conv)
    have "histo_writes h \<subseteq> op_writes op" by (auto simp: op_writes_def own_vectors_def H1DSink_idx 1(1))
    from fill_h1d_writes [OF 1(2) this] show ?thesis
      by (simp add: 1 same_operator_def op_writes_def output_vectors_def own_vectors_def condition_bits_def H1DSink_idx)
  qed (use step in \<open>simp_all add: h1d_sink_step_idx_def\<close>)
  show "same_operator op op' \<and> only_writes (op_writes op) st st'" if step: "h2d_sink_step op st = Some (op', st')"
  proof (cases "op_d op")
    case (H2DSink h k l)
    then obtain x y h' where 1: "fill_h2d h x y st = Some (h', st')" "op' = op\<lparr>op_d := H2DSink h' k l\<rparr>"
      using step by (auto simp: h2d_sink_step_def bind_eq_Some_conv)
    have "{h2_data h} \<subseteq> op_writes op" by (auto simp: op_writes_def own_vectors_def H2DSink)
    with fill_h2d_writes [OF 1(1)] show ?thesis
      by (auto simp: 1(2) same_operator_def op_writes_def output_vectors_def own_vectors_def condition_bits_def H2DSink
          intro: only_writes_mono)
  qed (use step in \<open>simp_all add: h2d_sink_step_def\<close>)
qed

lemma on_histos_effect:
  assumes "on_histos f s = Some (op', s')" "\<And>st st'. f st = Some (op', st') \<Longrightarrow> same_operator op op' \<and> only_writes (op_writes op) st st'"
  shows "same_operator op op' \<and> step_effect lib (op_writes op) K s s'"
  using assms by (auto simp: on_histos_def step_effect_def)

lemma operator_step_effect:
  assumes "bits_ok (lib_bits lib)" "expression_ok lib" "operator_step lib op s = Some (op', s')"
  shows "same_operator op op' \<and> step_effect (lib_bits lib) (op_writes op) (condition_bits op) s s'"
proof (cases "op_d op")
  case (RateMonitor type ss inds)
  with assms(3) obtain st rs where "rate_monitor_step (lib_history lib) op (vectors s) (samplers s) = Some (st, rs)" "op' = op"
    "s' = s\<lparr>vectors := st, samplers := rs\<rparr>" by (auto simp: operator_step_def)
  then show ?thesis using rate_monitor_writes by (fastforce simp: step_effect_def)
next
  case (ExportSink format d)
  with assms(3) show ?thesis
    by (auto simp: operator_step_def export_sink_step_def bind_eq_Some_conv step_effect_def same_operator_def op_writes_def
        output_vectors_def own_vectors_def condition_bits_def)
next
  case (Expression x)
  have "only_writes (output_vectors op) (vectors s) (snd (lib_expression lib x (inputs op) (outputs op) (vectors s)))"
    using assms(2) by (simp add: expression_ok_def output_vectors_def)
  with Expression assms(3) show ?thesis
    by (auto simp: operator_step_def Let_def split_beta step_effect_def same_operator_def op_writes_def output_vectors_def own_vectors_def
        condition_bits_def)
next
  case (Condition firstBit c)
  show ?thesis using condition_step_bits [OF assms(1) Condition assms(3)] by (simp add: step_effect_def)
next
  case (H1DSink hs)
  with assms(3) show ?thesis by (intro on_histos_effect [OF _ histo_step_effects(1)]) (simp_all add: operator_step_def)
next
  case (H1DSink_idx hs k)
  with assms(3) show ?thesis by (intro on_histos_effect [OF _ histo_step_effects(2)]) (simp_all add: operator_step_def)
next
  case (H2DSink h k l)
  with assms(3) show ?thesis by (intro on_histos_effect [OF _ histo_step_effects(3)]) (simp_all add: operator_step_def)
qed (use assms(3) in \<open>simp_all add: operator_step_def\<close>;
    erule on_vectors_effect; erule vector_step_writes)+

end
