(* ===== verification/A2_Events.thy ===== *)
theory A2_Events
  imports A2_Frame
begin

text \<open>
  The events of the analysis engine: what is in the vectors of data sources and operators at the end of an event, and
  how conditions decide whether operators are stepped.
\<close>

section \<open>The loop over the operators\<close>

definition ops_writes :: "('x, 's) Operator list \<Rightarrow> ParamVec set" where
  "ops_writes ops = \<Union> (op_writes ` set ops)"

definition ops_bits :: "('x, 's) Operator list \<Rightarrow> nat set" where
  "ops_bits ops = \<Union> (condition_bits ` set ops)"

lemma ops_simps [simp]:
  "ops_writes [] = {}" "ops_writes (op # ops) = op_writes op \<union> ops_writes ops" "ops_writes (xs @ ys) = ops_writes xs \<union> ops_writes ys"
  "ops_bits [] = {}" "ops_bits (op # ops) = condition_bits op \<union> ops_bits ops" "ops_bits (xs @ ys) = ops_bits xs \<union> ops_bits ys"
  by (auto simp: ops_writes_def ops_bits_def)

text \<open>One round of the loop.\<close>

definition enabled :: "('x, 's, 'r, 'h, 'b) EngineLib \<Rightarrow> ('x, 's) Operator \<Rightarrow> ('h, 'b) EngineState \<Rightarrow> bool" where
  "enabled lib op s \<longleftrightarrow> conditionIndex op < 0 \<or> bits_test (lib_bits lib) (conditionBits s) (nat (conditionIndex op))"

definition round :: "('x, 's, 'r, 'h, 'b) EngineLib \<Rightarrow> ('x, 's) Operator \<Rightarrow> ('h, 'b) EngineState \<Rightarrow>
    (('x, 's) Operator \<times> ('h, 'b) EngineState) option" where
  "round lib op s =
     (if op_d op = Invalid_OperatorType \<or> \<not> (conditionIndex op < 0 \<or> nat (conditionIndex op) < bits_size (lib_bits lib) (conditionBits s))
      then None
      else if enabled lib op s then operator_step lib op s
      else map_option (\<lambda>st. (op, s\<lparr>vectors := st\<rparr>)) (invalidate_outputs op (vectors s)))"

fun rounds :: "('x, 's, 'r, 'h, 'b) EngineLib \<Rightarrow> ('x, 's) Operator list \<Rightarrow> ('h, 'b) EngineState \<Rightarrow>
    (('x, 's) Operator list \<times> ('h, 'b) EngineState) option" where
  "rounds lib [] s = Some ([], s)"
| "rounds lib (op # ops) s = do {
     (op, s) \<leftarrow> round lib op s;
     (ops, s) \<leftarrow> rounds lib ops s;
     Some (op # ops, s) }"

lemma step_operators_rounds:
  "step_operators lib ops m n s = Some (ops', m', n', s') \<Longrightarrow> rounds lib ops s = Some (ops', s') \<and> m' + n' = m + n + length ops'"
proof (induction ops arbitrary: m n s ops')
  case (Cons op ops)
  let ?m = "if enabled lib op s then m + 1 else m" and ?n = "if enabled lib op s then n else n + 1"
  obtain op1 s1 ops1 where 1: "round lib op s = Some (op1, s1)" "?m + ?n = m + n + 1"
    "step_operators lib ops ?m ?n s1 = Some (ops1, m', n', s')" "ops' = op1 # ops1"
    using Cons.prems by (cases "enabled lib op s") (auto simp: bind_eq_Some_conv round_def enabled_def split: if_splits)
  with Cons.IH [OF 1(3)] show ?case by simp
qed simp

lemma rounds_append:
  "rounds lib (xs @ ys) s = Some (ops', s') \<Longrightarrow>
   \<exists>xs' ys' s1. rounds lib xs s = Some (xs', s1) \<and> rounds lib ys s1 = Some (ys', s') \<and> ops' = xs' @ ys'"
proof (induction xs arbitrary: s ops')
  case (Cons op xs)
  then obtain op1 s1 ops1 where 1: "round lib op s = Some (op1, s1)" "rounds lib (xs @ ys) s1 = Some (ops1, s')" "ops' = op1 # ops1"
    by (auto simp: bind_eq_Some_conv)
  from Cons.IH [OF 1(2)] show ?case using 1(1,3) by fastforce
qed simp

lemma invalidate_vectors_values:
  "invalidate_vectors vs st = Some st' \<Longrightarrow> Some v \<in> set vs \<Longrightarrow> v < length st \<Longrightarrow> st' ! v = replicate (length (st ! v)) invalid_param"
proof (induction vs arbitrary: st)
  case (Cons w vs)
  then obtain u a where a: "w = Some u" "invalidate_all u st = Some a" "invalidate_vectors vs a = Some st'"
    by (auto simp: bind_eq_Some_conv split: option.splits)
  have "only_writes {u} st a" by (rule invalidate_all_writes [OF a(2)]) simp
  then have len: "length a = length st" "length (a ! v) = length (st ! v)" using Cons.prems(3) by (simp_all add: only_writes_def)
  show ?case
  proof (cases "Some v \<in> set vs")
    case True
    with Cons.IH [OF a(3) True] Cons.prems(3) show ?thesis by (simp add: len)
  next
    case False
    then have "a ! v = replicate (length (st ! v)) invalid_param" using Cons.prems(2,3) a(1,2) by auto
    moreover have "only_writes {w. Some w \<in> set vs} a st'" by (rule invalidate_vectors_writes [OF a(3)]) simp
    ultimately show ?thesis using False Cons.prems(3) len(1) by (simp add: only_writes_def)
  qed
qed simp

lemma round_effect:
  assumes "bits_ok (lib_bits lib)" "expression_ok lib" "round lib op s = Some (op', s')"
  shows "same_operator op op' \<and> step_effect (lib_bits lib) (op_writes op) (condition_bits op) s s'"
proof (cases "enabled lib op s")
  case True
  with assms(3) show ?thesis by (intro operator_step_effect [OF assms(1,2)]) (simp add: round_def split: if_splits)
next
  case False
  with assms(3) obtain st where st: "invalidate_outputs op (vectors s) = Some st" "op' = op" "s' = s\<lparr>vectors := st\<rparr>"
    by (auto simp: round_def split: if_splits)
  have "only_writes (op_writes op) (vectors s) st"
    using invalidate_vectors_writes st(1) by (fastforce simp: invalidate_outputs_def op_writes_def output_vectors_def)
  with st show ?thesis by (simp add: step_effect_def)
qed

lemma rounds_effect:
  assumes "bits_ok (lib_bits lib)" "expression_ok lib"
  shows "rounds lib ops s = Some (ops', s') \<Longrightarrow>
    list_all2 same_operator ops ops' \<and> step_effect (lib_bits lib) (ops_writes ops) (ops_bits ops) s s'"
proof (induction ops arbitrary: s ops')
  case Nil
  then show ?case by (simp add: step_effect_def)
next
  case (Cons op ops)
  then obtain op1 s1 ops1 where 1: "round lib op s = Some (op1, s1)" "rounds lib ops s1 = Some (ops1, s')" "ops' = op1 # ops1"
    by (auto simp: bind_eq_Some_conv)
  note first = round_effect [OF assms 1(1)] and rest = Cons.IH [OF 1(2)]
  have "step_effect (lib_bits lib) (ops_writes (op # ops)) (ops_bits (op # ops)) s s1"
    by (rule step_effect_mono [OF conjunct2 [OF first]]) auto
  also have "step_effect (lib_bits lib) (ops_writes (op # ops)) (ops_bits (op # ops)) s1 s'"
    by (rule step_effect_mono [OF conjunct2 [OF rest]]) auto
  finally show ?case using first rest 1(3) by simp
qed

lemma end_event_rounds:
  assumes "a2_end_event lib ei a2 = Some a2'"
  obtains ops' where "ei < length (operators a2)" "rounds lib (operators a2 ! ei) (state a2) = Some (ops', state a2')"
    "operators a2' = (operators a2)[ei := ops']" "dataSources a2' = dataSources a2"
  using assms step_operators_rounds
  by (fastforce simp: a2_end_event_def bind_eq_Some_conv at_opt_def split: if_splits)

text \<open>The event loop around one of its operators: the state before and after its round.\<close>

lemma rounds_at:
  assumes "rounds lib (xs @ op # ys) s = Some (ops', s')"
  obtains xs' op' ys' s1 s2 where "rounds lib xs s = Some (xs', s1)" "round lib op s1 = Some (op', s2)"
    "rounds lib ys s2 = Some (ys', s')" "ops' = xs' @ op' # ys'"
  using rounds_append [OF assms] by (auto simp: bind_eq_Some_conv)

text \<open>The value an operator leaves in its outputs at the end of an event. The state \<open>s\<close> of the event is its last one; the
  operator is stepped in a state that agrees with it in all vectors the operators from there on do not write.\<close>

definition settled :: "('x, 's, 'r, 'h, 'b) EngineLib \<Rightarrow> ('x, 's) Operator \<Rightarrow> ('x, 's) Operator list \<Rightarrow> ('h, 'b) EngineState \<Rightarrow> bool" where
  "settled lib op later s \<longleftrightarrow>
     (\<exists>s1 op' s2. operator_step lib op s1 = Some (op', s2) \<and> length (vectors s1) = length (vectors s)
        \<and> (\<forall>v < length (vectors s). v \<notin> ops_writes (op # later) \<longrightarrow> vectors s1 ! v = vectors s ! v)
        \<and> (\<forall>v \<in> output_vectors op. v < length (vectors s) \<longrightarrow> vectors s ! v = vectors s2 ! v))"

definition invalidated :: "('x, 's) Operator \<Rightarrow> ('h, 'b) EngineState \<Rightarrow> bool" where
  "invalidated op s \<longleftrightarrow>
     (\<forall>v \<in> output_vectors op. v < length (vectors s) \<longrightarrow> vectors s ! v = replicate (length (vectors s ! v)) invalid_param)"

lemma operator_at_end_of_event:
  assumes lib: "bits_ok (lib_bits lib)" "expression_ok lib"
    and event: "a2_end_event lib ei a2 = Some a2'" "operators a2 ! ei = xs @ op # ys"
    and outs: "output_vectors op \<inter> ops_writes ys = {}"
    and cond: "conditionIndex op < 0 \<or> nat (conditionIndex op) \<notin> ops_bits (op # ys)"
  shows "if enabled lib op (state a2') then settled lib op ys (state a2') else invalidated op (state a2')"
proof -
  from end_event_rounds [OF event(1)] obtain ops' where "rounds lib (xs @ op # ys) (state a2) = Some (ops', state a2')"
    using event(2) by metis
  from rounds_at [OF this] obtain op' ys' s1 s2 where
    turn: "round lib op s1 = Some (op', s2)" and rest: "rounds lib ys s2 = Some (ys', state a2')" by metis
  have turn_effect: "step_effect (lib_bits lib) (op_writes op) (condition_bits op) s1 s2"
    using round_effect [OF lib turn] by blast
  have rest_effect: "step_effect (lib_bits lib) (ops_writes ys) (ops_bits ys) s2 (state a2')"
    using rounds_effect [OF lib rest] by blast
  have "step_effect (lib_bits lib) (ops_writes (op # ys)) (ops_bits (op # ys)) s1 s2"
    by (rule step_effect_mono [OF turn_effect]) auto
  also have "step_effect (lib_bits lib) (ops_writes (op # ys)) (ops_bits (op # ys)) s2 (state a2')"
    by (rule step_effect_mono [OF rest_effect]) auto
  finally have all: "step_effect (lib_bits lib) (ops_writes (op # ys)) (ops_bits (op # ys)) s1 (state a2')" .
  have same: "enabled lib op (state a2') = enabled lib op s1"
    using all cond turn by (auto simp: enabled_def step_effect_def same_bits_def round_def split: if_splits)
  have len: "length (vectors s1) = length (vectors (state a2'))" "length (vectors s2) = length (vectors (state a2'))"
    using all rest_effect by (simp_all add: step_effect_def only_writes_def)
  have kept: "vectors (state a2') ! v = vectors s2 ! v" if "v \<in> output_vectors op" "v < length (vectors (state a2'))" for v
    using rest_effect outs that len by (auto simp: step_effect_def only_writes_def)
  show ?thesis
  proof (cases "enabled lib op s1")
    case True
    have "operator_step lib op s1 = Some (op', s2)" using turn True by (simp add: round_def split: if_splits)
    moreover have "\<forall>v < length (vectors (state a2')). v \<notin> ops_writes (op # ys) \<longrightarrow> vectors s1 ! v = vectors (state a2') ! v"
      using all by (auto simp: step_effect_def only_writes_def)
    ultimately have "settled lib op ys (state a2')" using kept len(1) unfolding settled_def by blast
    then show ?thesis using same True by simp
  next
    case False
    then obtain st where st: "invalidate_outputs op (vectors s1) = Some st" "s2 = s1\<lparr>vectors := st\<rparr>"
      using turn by (auto simp: round_def split: if_splits)
    have "vectors (state a2') ! v = replicate (length (vectors (state a2') ! v)) invalid_param"
      if v: "v \<in> output_vectors op" "v < length (vectors (state a2'))" for v
    proof -
      have "st ! v = replicate (length (vectors s1 ! v)) invalid_param"
        using invalidate_vectors_values st(1) v len(1) by (simp add: invalidate_outputs_def output_vectors_def)
      then show ?thesis using kept [OF v] st(2) by simp
    qed
    then show ?thesis using same False by (simp add: invalidated_def)
  qed
qed

lemma interval_bits_at_end_of_event:
  assumes lib: "bits_ok (lib_bits lib)" "expression_ok lib"
    and event: "a2_end_event lib ei a2 = Some a2'" "operators a2 ! ei = xs @ c # ys"
    and c: "op_d c = Condition b (ConditionInterval intervals)" "inputs c = [Some i]" "conditionIndex c < 0" "k < length intervals"
    and later: "i \<notin> ops_writes ys" "condition_bits c \<inter> ops_bits ys = {}"
  shows "0 \<le> b" "bits_test (lib_bits lib) (conditionBits (state a2')) (nat b + k) = in_range (intervals ! k) (vectors (state a2') ! i ! k)"
proof -
  from end_event_rounds [OF event(1)] obtain ops' where "rounds lib (xs @ c # ys) (state a2) = Some (ops', state a2')"
    using event(2) by metis
  from rounds_at [OF this] obtain c' ys' s1 s2 where
    turn: "round lib c s1 = Some (c', s2)" and rest: "rounds lib ys s2 = Some (ys', state a2')" by metis
  have step: "operator_step lib c s1 = Some (c', s2)" using turn c(3) by (simp add: round_def enabled_def split: if_splits)
  then obtain bits where 1: "vec_size (vectors s1) i = length intervals" "0 \<le> b" "nat b + length intervals \<le> bits_size (lib_bits lib) (conditionBits s1)"
    "interval_loop (lib_bits lib) intervals i (vectors s1) (nat b) [0..<length intervals] (conditionBits s1) = Some bits"
    "s2 = s1\<lparr>conditionBits := bits\<rparr>"
    using c(1,2) by (auto simp: operator_step_def on_bits_def condition_interval_step_def bind_eq_Some_conv in_vec_def)
  show "0 \<le> b" by (rule 1(2))
  have k: "nat b + k < bits_size (lib_bits lib) (conditionBits s1)" "nat b + k \<notin> ops_bits ys"
  proof -
    have "nat b + k \<in> condition_bits c" using c(1,4) by (simp add: condition_bits_def)
    then show "nat b + k \<notin> ops_bits ys" using later(2) by blast
  qed (use 1(3) c(4) in linarith)
  have bit: "bits_test (lib_bits lib) bits (nat b + k) = in_range (intervals ! k) (vectors s1 ! i ! k)"
    "bits_size (lib_bits lib) bits = bits_size (lib_bits lib) (conditionBits s1)"
    using interval_loop_bits [OF lib(1) 1(4)] k(1) c(4) by auto
  have rest_effect: "step_effect (lib_bits lib) (ops_writes ys) (ops_bits ys) s2 (state a2')"
    using rounds_effect [OF lib rest] by blast
  have "i < length (vectors s1)" using 1(1) c(4) by (auto simp: vec_size_def split: if_splits)
  then have "vectors (state a2') ! i = vectors s1 ! i"
    using rest_effect later(1) 1(5) by (auto simp: step_effect_def only_writes_def)
  then show "bits_test (lib_bits lib) (conditionBits (state a2')) (nat b + k) = in_range (intervals ! k) (vectors (state a2') ! i ! k)"
    using rest_effect bit k 1(5) by (auto simp: step_effect_def same_bits_def)
qed

text \<open>C15: an interval condition without a condition of its own decides, in the event it is stepped in, over the operators that
  depend on it. If the value at the end of the event is inside of the interval, the operator has been stepped, on the
  vectors as they are at the end of the event; if it is not, all its outputs are invalid. This holds if the operators are
  sorted, that is if no later operator writes the input of the condition, its bits or the outputs of the operator.\<close>

theorem interval_condition_gates:
  assumes "bits_ok (lib_bits lib)" "expression_ok lib"
    and "a2_end_event lib ei a2 = Some a2'" "operators a2 ! ei = xs @ c # ys @ op # zs"
    and "op_d c = Condition b (ConditionInterval intervals)" "inputs c = [Some i]" "conditionIndex c < 0" "k < length intervals"
    and "conditionIndex op = b + int k"
    and "i \<notin> ops_writes (ys @ op # zs)" "condition_bits c \<inter> ops_bits (ys @ op # zs) = {}" "output_vectors op \<inter> ops_writes zs = {}"
  shows "if in_range (intervals ! k) (vectors (state a2') ! i ! k) then settled lib op zs (state a2') else invalidated op (state a2')"
proof -
  note bits = interval_bits_at_end_of_event [OF assms(1-3,4,5-8,10,11)]
  have ops: "operators a2 ! ei = (xs @ c # ys) @ op # zs" using assms(4) by simp
  have index: "nat (conditionIndex op) = nat b + k" "\<not> conditionIndex op < 0" using bits(1) assms(9) by simp_all
  have "nat b + k \<in> condition_bits c" using assms(5,8) by (simp add: condition_bits_def)
  then have "nat (conditionIndex op) \<notin> ops_bits (op # zs)" using assms(11) index(1) by auto
  then have "if enabled lib op (state a2') then settled lib op zs (state a2') else invalidated op (state a2')"
    by (intro operator_at_end_of_event [OF assms(1-3) ops assms(12)]) simp
  then show ?thesis using bits(2) index by (simp add: enabled_def)
qed

text \<open>C40: a condition that is skipped because its own condition is false keeps its bits, so the operators that depend on it
  are stepped or skipped by what it was in an earlier event.\<close>

theorem skipped_condition_stale:
  assumes "bits_ok (lib_bits lib)" "expression_ok lib"
    and "a2_end_event lib ei a2 = Some a2'" "operators a2 ! ei = xs @ c # ys"
    and "0 \<le> conditionIndex c" "nat (conditionIndex c) \<notin> ops_bits (c # ys)" "\<not> enabled lib c (state a2')"
    and "condition_bits c \<inter> ops_bits (xs @ ys) = {}" "k \<in> condition_bits c" "k < bits_size (lib_bits lib) (conditionBits (state a2))"
  shows "bits_test (lib_bits lib) (conditionBits (state a2')) k = bits_test (lib_bits lib) (conditionBits (state a2)) k"
proof -
  from end_event_rounds [OF assms(3)] obtain ops' where "rounds lib (xs @ c # ys) (state a2) = Some (ops', state a2')"
    using assms(4) by metis
  from rounds_at [OF this] obtain xs' c' ys' s1 s2 where
    before: "rounds lib xs (state a2) = Some (xs', s1)" and turn: "round lib c s1 = Some (c', s2)"
    and rest: "rounds lib ys s2 = Some (ys', state a2')" by metis
  have effects: "step_effect (lib_bits lib) (ops_writes xs) (ops_bits xs) (state a2) s1"
    "step_effect (lib_bits lib) (op_writes c) (condition_bits c) s1 s2"
    "step_effect (lib_bits lib) (ops_writes ys) (ops_bits ys) s2 (state a2')"
    using rounds_effect [OF assms(1,2)] round_effect [OF assms(1,2)] before turn rest by blast+
  have "\<not> enabled lib c s1"
    using effects(2,3) assms(5-7) turn by (auto simp: enabled_def step_effect_def same_bits_def round_def split: if_splits)
  then have "conditionBits s2 = conditionBits s1" using turn by (auto simp: round_def split: if_splits)
  then show ?thesis using effects(1,3) assms(8-10) by (auto simp: step_effect_def same_bits_def)
qed

section \<open>Data sources\<close>

definition source_writes :: "'r DataSource \<Rightarrow> ParamVec set" where
  "source_writes ds = {pv_data (ds_output ds), ds_hitCounts ds}"

definition same_source :: "'r DataSource \<Rightarrow> 'r DataSource \<Rightarrow> bool" where
  "same_source ds ds' \<longleftrightarrow> ds_output ds' = ds_output ds \<and> ds_hitCounts ds' = ds_hitCounts ds \<and> ds_moduleIndex ds' = ds_moduleIndex ds"

lemma same_source_refl [simp, intro]: "same_source ds ds"
  by (simp add: same_source_def)

lemma store_hit_writes:
  assumes "store_hit lib options out hits address value (rng, st) = Some (rng', st')"
  shows "only_writes {out, hits} st st'"
proof -
  consider "st' = st" | x y st1 where "vec_set out address x st = Some st1" "vec_set hits address y st1 = Some st'"
    using assms by (auto simp: store_hit_def bind_eq_Some_conv Let_def split: option.splits if_splits prod.splits)
  then show ?thesis
  proof cases
    case (2 x y st1)
    have "only_writes {out, hits} st st1" by (rule vec_set_writes [OF 2(1)]) simp
    also have "only_writes {out, hits} st1 st'" by (rule vec_set_writes [OF 2(2)]) simp
    finally show ?thesis .
  qed simp
qed

lemma extractor_process_word_writes:
  "extractor_process_word lib output hits w k (ex, st) = Some (ex', st') \<Longrightarrow> only_writes {pv_data output, hits} st st'"
  by (auto simp: extractor_process_word_def Let_def split: if_splits option.splits prod.splits dest: store_hit_writes)

lemma extractor_process_words_writes:
  "extractor_process_words lib output hits ws k (ex, st) = Some (ex', st') \<Longrightarrow> only_writes {pv_data output, hits} st st'"
proof (induction ws arbitrary: k ex st)
  case (Cons w ws)
  then obtain ex1 st1 where 1: "extractor_process_word lib output hits w k (ex, st) = Some (ex1, st1)"
    "extractor_process_words lib output hits ws (k + 1) (ex1, st1) = Some (ex', st')"
    by (auto simp: bind_eq_Some_conv)
  show ?case by (rule only_writes_trans [OF extractor_process_word_writes [OF 1(1)] Cons.IH [OF 1(2)]])
qed simp

lemma lfx_loop_writes:
  "lfx_loop lib output hits data repBits reps pos curSize (ex, st) = Some (pos', ex', st') \<Longrightarrow> only_writes {pv_data output, hits} st st'"
proof (induction reps arbitrary: pos curSize ex st)
  case (Cons rep reps)
  show ?case using Cons.prems
    by (auto simp: Let_def split: option.splits if_splits prod.splits dest!: Cons.IH store_hit_writes intro: only_writes_trans)
qed simp

lemma process_source_effect:
  "extractor_process_module_data lib ds ex data st = Some (ds', st') \<Longrightarrow> same_source ds ds' \<and> only_writes (source_writes ds) st st'"
  "listfilter_extractor_process_module_data lib ds lfx data st = Some (n, ds', st') \<Longrightarrow> same_source ds ds' \<and> only_writes (source_writes ds) st st'"
  by (auto simp: extractor_process_module_data_def listfilter_extractor_process_module_data_def same_source_def source_writes_def
      split: option.splits if_splits dest: extractor_process_words_writes lfx_loop_writes)

lemma begin_sources_invalidate:
  "begin_sources dss st = Some (dss', st') \<Longrightarrow>
   list_all2 same_source dss dss' \<and> invalidate_vectors (map (\<lambda>ds. Some (pv_data (ds_output ds))) dss) st = Some st'"
proof (induction dss arbitrary: st dss')
  case (Cons ds dss)
  then obtain ds1 st1 dss1 where 1: "source_begin_event ds st = Some (ds1, st1)" "begin_sources dss st1 = Some (dss1, st')" "dss' = ds1 # dss1"
    by (auto simp: bind_eq_Some_conv)
  have "same_source ds ds1 \<and> invalidate_all (pv_data (ds_output ds)) st = Some st1"
    using 1(1) by (auto simp: source_begin_event_def extractor_begin_event_def listfilter_extractor_begin_event_def same_source_def
        split: SourceData.splits)
  then show ?case using Cons.IH [OF 1(2)] 1(3) by simp
qed simp

text \<open>The vectors of the sources of a module.\<close>

definition module_writes :: "nat \<Rightarrow> 'r DataSource list \<Rightarrow> ParamVec set" where
  "module_writes m dss = \<Union> (source_writes ` {ds \<in> set dss. ds_moduleIndex ds = m})"

lemma module_writes_same: "list_all2 same_source dss dss' \<Longrightarrow> module_writes m dss' = module_writes m dss"
proof (induction rule: list_all2_induct)
  case (Cons ds dss ds' dss')
  have split: "module_writes m (x # xs) = (if ds_moduleIndex x = m then source_writes x else {}) \<union> module_writes m xs" for x :: "'a DataSource" and xs
    by (auto simp: module_writes_def)
  have "source_writes ds' = source_writes ds" "ds_moduleIndex ds' = ds_moduleIndex ds"
    using Cons.hyps(1) by (simp_all add: source_writes_def same_source_def)
  then show ?case using Cons.IH by (simp add: split)
qed simp

lemma process_sources_effect:
  "process_sources lib m data dss cur st = Some (dss', st') \<Longrightarrow>
   list_all2 same_source dss dss' \<and> only_writes (module_writes m dss) st st'"
proof (induction dss arbitrary: cur st dss')
  case (Cons ds dss)
  from Cons.prems obtain cur1 ds1 st1 dss1 where 1: "process_sources lib m data dss cur1 st1 = Some (dss1, st')" "dss' = ds1 # dss1"
    "same_source ds ds1" "only_writes (if ds_moduleIndex ds = m then source_writes ds else {}) st st1"
    by (auto simp: bind_eq_Some_conv split: if_splits SourceData.splits dest!: process_source_effect)
  have "only_writes (module_writes m (ds # dss)) st st1"
    by (rule only_writes_mono [OF 1(4)]) (auto simp: module_writes_def)
  also have "only_writes (module_writes m (ds # dss)) st1 st'"
    by (rule only_writes_mono [OF conjunct2 [OF Cons.IH [OF 1(1)]]]) (auto simp: module_writes_def)
  finally show ?case using Cons.IH [OF 1(1)] 1(2,3) by simp
qed simp

text \<open>The data of the modules of an event, one after the other.\<close>

fun process_modules :: "'r RandomLib \<Rightarrow> nat \<Rightarrow> (nat \<times> u32 list) list \<Rightarrow> ('x, 's, 'r, 'h, 'b) A2 \<Rightarrow> ('x, 's, 'r, 'h, 'b) A2 option" where
  "process_modules lib ei [] a2 = Some a2"
| "process_modules lib ei ((m, data) # ms) a2 = Option.bind (a2_process_module_data lib ei m data a2) (process_modules lib ei ms)"

lemma same_source_trans: "same_source a b \<Longrightarrow> same_source b c \<Longrightarrow> same_source a c"
  by (simp add: same_source_def)

lemma process_modules_effect:
  "process_modules lib ei ms a2 = Some a2' \<Longrightarrow> ei < length (dataSources a2) \<Longrightarrow>
   only_writes (\<Union> ((\<lambda>m. module_writes m (dataSources a2 ! ei)) ` fst ` set ms)) (vectors (state a2)) (vectors (state a2'))"
proof (induction ms arbitrary: a2)
  case (Cons mdata ms)
  obtain m data where mdata: "mdata = (m, data)" by (cases mdata)
  obtain dss st where 1: "process_sources lib m data (dataSources a2 ! ei) 0 (vectors (state a2)) = Some (dss, st)"
    "process_modules lib ei ms (set_sources ei (dss, st) a2) = Some a2'"
    using Cons.prems by (auto simp: mdata a2_process_module_data_def bind_eq_Some_conv at_opt_def split: if_splits)
  let ?a2 = "set_sources ei (dss, st) a2" and ?W = "\<Union> ((\<lambda>m. module_writes m (dataSources a2 ! ei)) ` fst ` set (mdata # ms))"
  have a2: "dataSources ?a2 ! ei = dss" "ei < length (dataSources ?a2)" "vectors (state ?a2) = st"
    using Cons.prems(2) by (simp_all add: set_sources_def)
  note first = process_sources_effect [OF 1(1)]
  have "only_writes ?W (vectors (state a2)) st" by (rule only_writes_mono [OF conjunct2 [OF first]]) (auto simp: mdata)
  also have "only_writes ?W st (vectors (state a2'))"
    using only_writes_mono [OF Cons.IH [OF 1(2) a2(2)], of ?W] module_writes_same [OF conjunct1 [OF first]] by (simp add: a2 mdata)
  finally show ?case .
qed simp

text \<open>C17: at the end of an event a data source whose module has sent no data has an invalid output and its old hit counts,
  whatever the other modules have sent and whatever the engine did in the events before, if it shares its vectors with no
  source of another module.\<close>

theorem silent_modules_invalid:
  assumes "a2_begin_event ei a2 = Some a2_begun" "process_modules lib ei ms a2_begun = Some a2'"
    and "ds \<in> set (dataSources a2 ! ei)" "ds_moduleIndex ds \<notin> fst ` set ms"
    and "\<forall>other \<in> set (dataSources a2 ! ei). ds_hitCounts ds \<noteq> pv_data (ds_output other)
      \<and> (ds_moduleIndex other \<noteq> ds_moduleIndex ds \<longrightarrow> source_writes ds \<inter> source_writes other = {})"
    and "source_writes ds \<subseteq> {..<length (vectors (state a2))}"
  shows "vectors (state a2') ! pv_data (ds_output ds) = replicate (length (vectors (state a2) ! pv_data (ds_output ds))) invalid_param
    \<and> vectors (state a2') ! ds_hitCounts ds = vectors (state a2) ! ds_hitCounts ds"
proof -
  let ?dss = "dataSources a2 ! ei" and ?st = "vectors (state a2)"
  let ?outs = "map (\<lambda>ds. Some (pv_data (ds_output ds))) ?dss"
  obtain dss st where 1: "begin_sources ?dss ?st = Some (dss, st)" "a2_begun = set_sources ei (dss, st) a2" "ei < length (dataSources a2)"
    using assms(1) by (auto simp: a2_begin_event_def bind_eq_Some_conv at_opt_def split: if_splits)
  note begun = begin_sources_invalidate [OF 1(1)]
  have frame: "only_writes {v. Some v \<in> set ?outs} ?st st" using begun by (intro invalidate_vectors_writes) auto
  have "vectors (state a2_begun) = st" "dataSources a2_begun ! ei = dss" "ei < length (dataSources a2_begun)"
    using 1(2,3) by (simp_all add: set_sources_def)
  with process_modules_effect [OF assms(2)] module_writes_same [OF conjunct1 [OF begun]]
  have later: "only_writes (\<Union> ((\<lambda>m. module_writes m ?dss) ` fst ` set ms)) st (vectors (state a2'))" by simp
  have apart: "v \<notin> \<Union> ((\<lambda>m. module_writes m ?dss) ` fst ` set ms)" if "v \<in> source_writes ds" for v
  proof
    assume "v \<in> \<Union> ((\<lambda>m. module_writes m ?dss) ` fst ` set ms)"
    then obtain other where other: "other \<in> set ?dss" "ds_moduleIndex other \<in> fst ` set ms" "v \<in> source_writes other"
      unfolding module_writes_def by blast
    then have "ds_moduleIndex other \<noteq> ds_moduleIndex ds" using assms(4) by metis
    then show False using assms(5) other(1,3) that by blast
  qed
  have kept: "vectors (state a2') ! v = st ! v" if "v \<in> source_writes ds" for v
    using later apart [OF that] assms(6) that frame by (auto simp: only_writes_def)
  have "st ! pv_data (ds_output ds) = replicate (length (?st ! pv_data (ds_output ds))) invalid_param"
    by (rule invalidate_vectors_values [OF conjunct2 [OF begun]]) (use assms(3,6) in \<open>auto simp: source_writes_def\<close>)
  moreover have "st ! ds_hitCounts ds = ?st ! ds_hitCounts ds"
    using frame assms(5,6) by (auto simp: only_writes_def source_writes_def)
  ultimately show ?thesis using kept by (simp add: source_writes_def)
qed

section \<open>The properties at a concrete engine\<close>

definition demo_bits :: "bool list BitsLib" where
  "demo_bits = \<lparr>bits_size = length, bits_test = (!), bits_set = \<lambda>i v bits. bits[i := v]\<rparr>"

definition demo_streams :: "unit StreamLib" where
  "demo_streams = \<lparr>so_open = \<lambda>_. (), so_exceptions = \<lambda>s. (s, None), so_compressed = id, so_good = \<lambda>_. True, so_write = \<lambda>bs s. (s, None)\<rparr>"

definition demo_engine_lib :: "(unit, unit, unit, nat \<times> double list, bool list) EngineLib" where
  "demo_engine_lib = \<lparr>lib_random = demo_lib, lib_history = demo_history, lib_streams = demo_streams, lib_bits = demo_bits,
     lib_expression = \<lambda>x ins outs st. (x, st), lib_within = \<lambda>p ps. False\<rparr>"

lemma demo_engine_lib_ok: "bits_ok (lib_bits demo_engine_lib)" "expression_ok demo_engine_lib"
  by (simp_all add: demo_engine_lib_def demo_bits_def bits_ok_def expression_ok_def)

text \<open>Two conditions, the second with the first as its condition, and a filter that depends on one of them. The interval
  is from 0 up to 2.\<close>

definition demo_interval :: Interval where "demo_interval = \<lparr>t_min = d0, t_max = 0x4000000000000000\<rparr>"

definition demo_condition :: "nat \<Rightarrow> int \<Rightarrow> (unit, unit) Operator" where
  "demo_condition k ind = \<lparr>inputs = [Some k], inputLowerLimits = [None], inputUpperLimits = [None], outputs = [], outputLowerLimits = [],
     outputUpperLimits = [], op_d = Condition (int k) (ConditionInterval [demo_interval]), conditionIndex = ind\<rparr>"

definition demo_filter :: "int \<Rightarrow> (unit, unit) Operator" where
  "demo_filter ind = \<lparr>inputs = [Some 2], inputLowerLimits = [None], inputUpperLimits = [None], outputs = [Some 3], outputLowerLimits = [None],
     outputUpperLimits = [None], op_d = RangeFilter demo_interval False, conditionIndex = ind\<rparr>"

definition demo_engine :: "(unit, unit) Operator list \<Rightarrow> Store \<Rightarrow> bool list \<Rightarrow> (unit, unit, unit, nat \<times> double list, bool list) A2" where
  "demo_engine ops st bits = \<lparr>dataSources = [[]], operators = [ops], state = \<lparr>vectors = st, samplers = [], conditionBits = bits\<rparr>\<rparr>"

lemmas demo_engine_defs = demo_engine_def demo_condition_def demo_filter_def demo_engine_lib_def demo_bits_def

text \<open>The values 1 and 4 of the inputs, one inside and one outside of the interval.\<close>

lemma demo_events:
  "map_option (\<lambda>a2. (vectors (state a2), conditionBits (state a2)))
     (a2_end_event demo_engine_lib 0 (demo_engine [demo_condition 0 (- 1), demo_condition 1 0, demo_filter 0]
       [[0x4010000000000000], [d1], [d1], [d1]] [True, True]))
   = Some ([[0x4010000000000000], [d1], [d1], [invalid_param]], [False, True])"
  "map_option (\<lambda>a2. (vectors (state a2), conditionBits (state a2)))
     (a2_end_event demo_engine_lib 0 (demo_engine [demo_condition 0 (- 1), demo_condition 1 0, demo_filter 1]
       [[0x4010000000000000], [0x4010000000000000], [d1], [d0]] [True, True]))
   = Some ([[0x4010000000000000], [0x4010000000000000], [d1], [d1]], [False, True])"
  by code_simp+

lemma demo_sets:
  "condition_bits (demo_condition k ind) = {k}" "condition_bits (demo_filter ind) = {}"
  "op_writes (demo_condition k ind) = {}" "op_writes (demo_filter ind) = {3}" "output_vectors (demo_filter ind) = {3}"
  by (auto simp: condition_bits_def demo_condition_def demo_filter_def op_writes_def output_vectors_def own_vectors_def)

theorem interval_condition_gates_witness:
  "\<exists>a2'. a2_end_event demo_engine_lib 0 (demo_engine [demo_condition 0 (- 1), demo_condition 1 0, demo_filter 0]
       [[0x4010000000000000], [d1], [d1], [d1]] [True, True]) = Some a2'
     \<and> invalidated (demo_filter 0) (state a2') \<and> vectors (state a2') ! 3 = [invalid_param]"
proof -
  let ?ops = "[demo_condition 0 (- 1), demo_condition 1 0, demo_filter 0]"
  let ?a2 = "demo_engine ?ops [[0x4010000000000000], [d1], [d1], [d1]] [True, True]"
  obtain a2' where a2': "a2_end_event demo_engine_lib 0 ?a2 = Some a2'"
    "vectors (state a2') = [[0x4010000000000000], [d1], [d1], [invalid_param]]"
    using demo_events(1) by auto
  have ops: "operators ?a2 ! 0 = [] @ demo_condition 0 (- 1) # [demo_condition 1 0] @ demo_filter 0 # []" by (simp add: demo_engine_def)
  have c: "op_d (demo_condition 0 (- 1)) = Condition 0 (ConditionInterval [demo_interval])" "inputs (demo_condition 0 (- 1)) = [Some 0]"
    "conditionIndex (demo_condition 0 (- 1)) < 0" "0 < length [demo_interval]" "conditionIndex (demo_filter 0) = 0 + int 0"
    by (simp_all add: demo_condition_def demo_filter_def)
  have "\<not> in_range demo_interval 0x4010000000000000" by code_simp
  then have "\<not> in_range ([demo_interval] ! 0) (vectors (state a2') ! 0 ! 0)" by (simp add: a2'(2))
  moreover have "if in_range ([demo_interval] ! 0) (vectors (state a2') ! 0 ! 0) then settled demo_engine_lib (demo_filter 0) [] (state a2')
      else invalidated (demo_filter 0) (state a2')"
    by (rule interval_condition_gates [OF demo_engine_lib_ok a2'(1) ops c]) (simp_all add: demo_sets)
  ultimately show ?thesis using a2' by auto
qed

theorem skipped_condition_stale_witness:
  "\<exists>a2'. a2_end_event demo_engine_lib 0 (demo_engine [demo_condition 0 (- 1), demo_condition 1 0, demo_filter 1]
       [[0x4010000000000000], [0x4010000000000000], [d1], [d0]] [True, True]) = Some a2'
     \<and> conditionBits (state a2') ! 1 \<and> \<not> in_range demo_interval (vectors (state a2') ! 1 ! 0) \<and> vectors (state a2') ! 3 = [d1]"
proof -
  let ?ops = "[demo_condition 0 (- 1), demo_condition 1 0, demo_filter 1]"
  let ?a2 = "demo_engine ?ops [[0x4010000000000000], [0x4010000000000000], [d1], [d0]] [True, True]"
  obtain a2' where a2': "a2_end_event demo_engine_lib 0 ?a2 = Some a2'"
    "vectors (state a2') = [[0x4010000000000000], [0x4010000000000000], [d1], [d1]]" "conditionBits (state a2') = [False, True]"
    using demo_events(2) by auto
  have ops: "operators ?a2 ! 0 = [demo_condition 0 (- 1)] @ demo_condition 1 0 # [demo_filter 1]" by (simp add: demo_engine_def)
  have "\<not> in_range demo_interval 0x4010000000000000" by code_simp
  moreover have "bits_test (lib_bits demo_engine_lib) (conditionBits (state a2')) 1 = bits_test (lib_bits demo_engine_lib) (conditionBits (state ?a2)) 1"
    by (rule skipped_condition_stale [OF demo_engine_lib_ok a2'(1) ops])
      (simp_all add: demo_sets enabled_def a2'(3), simp_all add: demo_engine_defs)
  ultimately show ?thesis using a2' by (simp add: demo_engine_defs)
qed

theorem silent_modules_invalid_witness:
  "\<exists>begun a2'. a2_begin_event 0 (demo_engine [] (demo_lfx_store 64) []\<lparr>dataSources := [[demo_lfx_source]]\<rparr>) = Some begun
     \<and> process_modules demo_lib 0 [(1, [0x1A5, 0x26])] begun = Some a2' \<and> vectors (state a2') ! 0 = replicate 64 invalid_param"
proof -
  let ?a2 = "demo_engine [] (demo_lfx_store 64) []\<lparr>dataSources := [[demo_lfx_source]]\<rparr>"
  have src: "ds_moduleIndex demo_lfx_source = 0" "pv_data (ds_output demo_lfx_source) = 0" "ds_hitCounts demo_lfx_source = 3"
    "ds_d demo_lfx_source = ListFilterData (demo_lfx 2)" by (simp_all add: demo_lfx_source_def)
  have st: "vectors (state (demo_engine [] (demo_lfx_store 64) [])) = demo_lfx_store 64" "length (demo_lfx_store 64) = 4" "length (demo_lfx_store 64 ! 0) = 64"
    by (simp_all add: demo_engine_def demo_lfx_store_def)
  obtain begun where begun: "a2_begin_event 0 ?a2 = Some begun" "dataSources begun = [[demo_lfx_source]]"
    by (simp add: a2_begin_event_def MaxVMEEvents_def at_opt_def source_begin_event_def listfilter_extractor_begin_event_def src st set_sources_def)
  then obtain a2' where a2': "process_modules demo_lib 0 [(1, [0x1A5, 0x26])] begun = Some a2'"
    by (simp add: a2_process_module_data_def MaxVMEEvents_def MaxVMEModules_def at_opt_def src)
  have "vectors (state a2') ! pv_data (ds_output demo_lfx_source)
      = replicate (length (vectors (state ?a2) ! pv_data (ds_output demo_lfx_source))) invalid_param
    \<and> vectors (state a2') ! ds_hitCounts demo_lfx_source = vectors (state ?a2) ! ds_hitCounts demo_lfx_source"
    by (rule silent_modules_invalid [OF begun(1) a2']) (simp_all add: src st source_writes_def)
  then show ?thesis using begun a2' by (simp add: src st)
qed

end
