(* ===== verification/Spec2Isabelle.thy ===== *)
theory Spec2Isabelle
  imports Prelude Bits Data_Filter Multiword_Spec Multiword_Filter List_Filter Qt_Data_Filter Event_Splitter Trigger_Text Trigger_Sim_Run Stream_Stepping Listfile_Replay Arena A2_Events
begin

text \<open>
  Verification of parts of mvme, the VME data acquisition and analysis program in \<^verbatim>\<open>src/\<close>. The library covers
  the code that transforms data: the data filters and the engine of the analysis, the splitter for multi-event data, the
  stream processor with the listfile format, its recording and replay, the VME script language and the configuration,
  simulation and oscilloscope of the MVLC's Trigger I/O module. All theorems are about the definitions of the theories
  below, which follow the C++ code function by function.

  \<^bold>\<open>How the parts interact.\<close> The analysis compiles filter strings to masks and extracts addresses and values
  from 32-bit data words. The a2 engine and the Qt objects implement the same filters twice; multi-word filters
  combine several filters over a sequence of words, list filters combine several words first. The engine has data
  sources, which store what the filters extract in vectors of parameters, operators, which compute vectors from vectors,
  sinks (histograms, rate monitors, exports), and conditions, which decide whether other operators are stepped. An
  event is its begin, the data of its modules and its end, in which the operators are stepped in the order of their rank.
  All vectors live in an arena. The event splitter
  uses a2 filters to find the module headers in a block of data and calls back once per single event. The stream
  processor does the same for buffers in the listfile format and passes the events on to the analysis, the
  diagnostics and the attached consumers; it can also be single stepped. The Trigger
  I/O editor keeps its configuration as a VME script: it generates the script text from the configuration, and the
  script is parsed by the general VME script parser whose commands are turned back to a configuration. The
  simulation computes the outputs of a configuration from the input traces of an oscilloscope snapshot.

  \<^bold>\<open>Theories and sources.\<close>
  \<^item> \<open>Prelude\<close>: integer types (\<^verbatim>\<open>typedefs.h\<close>), checked list access, error sums, generic lemmas.
  \<^item> \<open>Store\<close>: the interface of a memory with independent cells (locale \<open>store\<close>), instantiated with the LUT
    memory, the maps of register writes and the level table of the Trigger I/O scripts.
  \<^item> \<open>Qt_Text\<close>: the documented behaviour of the \<^verbatim>\<open>QString\<close> and \<^verbatim>\<open>QTextStream\<close> functions that are used: number
    formatting and reading, trimming, lower case, lines. Texts are lists of ASCII characters.
  \<^item> \<open>Bits\<close>: \<^verbatim>\<open>analysis/a2/util/bits.h\<close>. \<open>Data_Filter\<close>: \<^verbatim>\<open>analysis/a2/a2_data_filter.h\<close> and \<^verbatim>\<open>.cc\<close>.
    \<open>Multiword_Spec\<close>: the abstract machine of a multi-word filter and the locale \<open>subfilter\<close> its implementations
    satisfy. \<open>Multiword_Filter\<close>: \<^verbatim>\<open>analysis/a2/multiword_datafilter.h\<close>. \<open>List_Filter\<close>:
    \<^verbatim>\<open>analysis/a2/listfilter.h\<close> and \<^verbatim>\<open>.cc\<close>. \<open>Qt_Data_Filter\<close>: \<^verbatim>\<open>data_filter.h\<close> and \<^verbatim>\<open>.cc\<close>.
  \<^item> \<open>Arena\<close>: \<^verbatim>\<open>analysis/a2/memory.h\<close>. \<open>Doubles\<close>: the numbers of type \<^verbatim>\<open>double\<close> as 64-bit words, with comparison,
    rounding, arithmetic, and the payloads of \<^verbatim>\<open>util/nan.h\<close> and \<^verbatim>\<open>a2_param.h\<close>. \<open>A2_Types\<close>: the store of parameter
    vectors, \<^verbatim>\<open>a2.h\<close>. The other \<open>A2\<close> theories are \<^verbatim>\<open>a2.cc\<close> with \<^verbatim>\<open>a2.h\<close> and \<^verbatim>\<open>a2_impl.h\<close>: \<open>A2_Extract\<close> the data sources,
    \<open>A2_Listfilter\<close> properties of list filter sources, \<open>A2_Operators\<close> operators and filters, \<open>A2_Dataflow\<close> their
    properties, \<open>A2_Aggregate\<close> aggregates, \<open>A2_Histo\<close> histogram sinks, \<open>A2_Rates\<close> rate monitors with \<^verbatim>\<open>rate_sampler.h\<close> and
    \<^verbatim>\<open>util/counters.h\<close>, \<open>A2_Export\<close> export sinks, \<open>A2_Engine\<close> conditions, the table of operators and the functions of
    runs and events, \<open>A2_Frame\<close> what they write, \<open>A2_Events\<close> what holds at the end of an event.
  \<^item> \<open>Event_Splitter\<close>: \<^verbatim>\<open>multi_event_splitter.h\<close> and \<^verbatim>\<open>.cc\<close>: \<open>make_splitter\<close>, \<open>begin_event\<close>, the
    \<open>module_*\<close> functions, \<open>end_event\<close> and \<open>event_data\<close>; the state record holds the filters and the data spans.
  \<^item> \<open>Vme_Script\<close>: the command and line structures of \<^verbatim>\<open>vme_script.h\<close>. \<open>Vme_Lines\<close>: comments, splitting into
    parts, variables, expressions, \<open>pre_parse\<close>; symbol tables of \<^verbatim>\<open>vme_script_variables.h\<close>. \<open>Vme_Commands\<close>:
    the parsers of single commands, number arguments, the formatting of commands. \<open>Vme_Parse\<close>: the main loop
    \<open>parse\<close> with its state (symbol tables, base address, commands so far). All from \<^verbatim>\<open>vme_script.cc\<close>.
  \<^item> \<open>Trigger_IO\<close>: \<^verbatim>\<open>mvlc/mvlc_trigger_io.h\<close> and \<^verbatim>\<open>.cc\<close>, the units, their connections and names.
    \<open>Trigger_Script\<close>: script generation, the first half of \<^verbatim>\<open>mvlc/mvlc_trigger_io_script.cc\<close>.
    \<open>Trigger_Parse\<close>: its second half. \<open>Trigger_Roundtrip\<close>, \<open>Trigger_Meta\<close>: what is read back from the
    register writes and from the meta block. \<open>Trigger_Text\<close>: the same for the script text.
  \<^item> \<open>Trigger_DSO\<close>: \<^verbatim>\<open>mvlc/trigger_io_dso.h\<close> and \<^verbatim>\<open>.cc\<close> with \<^verbatim>\<open>mvlc/trigger_io_sim_pinaddress.cc\<close>: decoding and
    preprocessing of snapshots, trigger bits, pins. \<open>Trigger_Sim\<close>: \<^verbatim>\<open>mvlc/trigger_io_sim.h\<close> and \<^verbatim>\<open>.cc\<close>.
    \<open>Trigger_Gates\<close>: gate generators and single LUT outputs; \<open>Trigger_Sim_Run\<close>: the whole simulation.
  \<^item> \<open>Listfile_Format\<close>: \<^verbatim>\<open>mvme_listfile.h\<close> and \<^verbatim>\<open>.cc\<close>, \<^verbatim>\<open>databuffer.h\<close>, the iterator of \<^verbatim>\<open>util.h\<close>.
    \<open>Stream_Processor\<close>: the state and the operations of \<^verbatim>\<open>mvme_stream_processor.cc\<close>; the calls to the receivers are
    appended to the field \<open>sp_calls\<close>. \<open>Stream_Calls\<close>, \<open>Stream_Sections\<close>, \<open>Stream_Split\<close>, \<open>Stream_Single\<close>: its
    calls, its totality, and what it does with and without multi-event processing. \<open>Stream_Stepping\<close>: single
    stepping.
  \<^item> \<open>Singles\<close>: rounding to the type \<^verbatim>\<open>float\<close>, for the number of config sections. \<open>Listfile_IO\<close>: \<^verbatim>\<open>ListFile\<close> and \<^verbatim>\<open>ListFileWriter\<close> of \<^verbatim>\<open>mvme_listfile_utils.cc\<close> over input and output devices.
    \<open>Listfile_Write\<close>: the order in which \<^verbatim>\<open>DAQReadoutListfileHelper\<close> of \<^verbatim>\<open>vme_daq.cc\<close> writes a run.
    \<open>Listfile_Worker\<close>: the thread of \<^verbatim>\<open>mvme_listfile_worker.cc\<close> as a step relation with the requests of the other
    threads and the consumer of its buffers. \<open>Listfile_Replay\<close>: from the recorded run to the processed buffers.

  \<^bold>\<open>What the lemmas show.\<close> Filters: matching and extraction are characterised by the positions of the characters in
  the filter string; the two implementations agree; multi-word filters refine the abstract machine. Engine: blocks of an arena are apart
  and aligned as long as size and alignment of a request do not add up to $2^{64}$, whatever allocations fail
  (\<open>huge_request_asserts\<close> is the case in which they do); a source keeps the first hit of every address, and one without data is invalid at the end of the event;
  operators, aggregates, histograms and rates compute what their names say, with the exceptions the theorems name; what
  is exported can be read back; every operator writes its own vectors only, and from this follows how conditions gate
  operators. Splitter: the
  callbacks are exactly the rounds of the chunks of every module, so splitting undoes concatenation; the cases in
  which the code does not return, reads out of bounds or runs into an assertion are stated as theorems. VME scripts:
  printed commands are parsed back; the base address moves exactly the relative commands; every failure carries a
  line number of the input; variables, quoting, numbers and delays behave as specified, with the exceptions the
  theorems name. Trigger I/O: valid connections resolve inside the tables; generation succeeds exactly for valid
  connections; storing and loading a configuration, as commands and as text, gives the stored part of the
  configuration (\<open>stored_config\<close>), which is stable. Simulation: each run reads
  nine connection values past the end of their arrays; if these reads return, a well-formed configuration is simulated
  completely and the result does not depend on them. A LUT output without strobe has the level of the combinational
  logic from the first edge of its inputs on up to the first edge at which a used input has no level, and then stays
  as it is; gate generators give one pulse per accepted edge.
  Stream processing: it ends and reads only the memory of the buffer under stated conditions; the receivers get the
  same bracketed calls; multi-event processing undoes the concatenation of the events of the modules; single
  stepping agrees with it for single events, and is left in the middle of a section of several events. Listfiles:
  what a run writes is what is read back if the configuration is at most 71303096 bytes long (beyond that the number of
  its sections, which is computed in single precision, can be wrong, \<open>config_section_number_inexact\<close>), and what a replay hands out under every interleaving of its threads; the
  requests that are lost or fail an assertion are stated, and so is what happens to files that are cut short.

  \<^bold>\<open>Conventions.\<close> Machine integers are words of their width; signed values that stay in range are \<open>int\<close>. Errors are
  values: \<open>exn\<close>, \<open>failure\<close>, \<open>ram_error\<close>, \<open>yaml_error\<close> are left summands, \<open>None\<close> an access out of bounds. Loops are
  structural recursion or have a measure; only the splitting loop of the event splitter, which may run forever, is
  a \<open>partial_function\<close> with \<open>None\<close> for divergence (\<open>event_data_rounds\<close> proves that it returns). No fuel is used.
  In the engine \<open>None\<close> is a failed assertion or undefined behaviour; a \<^verbatim>\<open>double\<close> is its bits, calculated as IEEE 754 says with
  rounding to the nearest even number, and a vector is its number in the store, so that operators share vectors as they
  share pointers. The assertion that a pipe's limits have the size of its data is only in the constructors that rely on it.
  Arrays of the code are lists of fixed length, and invariants (\<open>wf_trigger_io\<close>, \<open>wf_lut\<close>, \<open>wf_processor\<close>) state
  the length. Pointers into a buffer are word positions in its memory; buffers are smaller than 4 GB. Times of the
  simulation are integers: \<open>simulated_times_exact\<close> shows that they stay where single precision is exact. Loops over
  sections and events are \<open>function\<close>s with the distance to the end of the buffer as their measure.

  \<^bold>\<open>Parameters.\<close> Code outside the sources or of vendored libraries is an argument of the definitions: yaml-cpp
  (record \<open>YamlLib\<close> for loading, a function for emitting; the hypotheses say that the loader represents the emitted
  document and that the emitted lines survive the comment filter), exprtk with the formatting of its result
  (\<open>lib_eval\<close>), \<^verbatim>\<open>QString::toFloat\<close> (\<open>lib_float\<close>, the bits of the number), the minbool minimisation of a LUT, the
  frame headers of mesytec-mvlc, the contents of uninitialised memory, what comes of reads behind the connection tables (a value, or the end of the
  program), Qt's
  JSON parser (record \<open>JsonLib\<close>, only used for the contents of the configuration). For the engine: the allocator of the
  arena's segments (it may fail; \<open>fresh_memory\<close>: a new block ends below $2^{64}$ and does not overlap the others), the random numbers (\<open>RandomLib\<close>: below one), the
  circular buffer of a rate history (\<open>HistoryLib\<close>), output streams (\<open>StreamLib\<close>), and in \<open>EngineLib\<close> the bitset, compiled
  expressions (which write their outputs only, although they could assign to their inputs) and the test for a point in a polygon.

  \<^bold>\<open>Not modelled.\<close> Message texts and log messages (a constructor per message where it is a result); the JSON
  conversion of symbol tables; non-ASCII texts; symbol table changes of a parse that throws; starting, reading and
  stopping the oscilloscope (device I/O). Whole parts: the graphical interface, the controllers and readout workers
  (device and thread I/O), the construction of expression operators and the buffered filling of histograms, which is not
  in use, the objects of the analysis and their translation to the engine, the histogram objects with their statistics,
  the files around the listfile format and the stream workers, the configuration tree with its JSON format, the MVLC
  debug scripts, the event server, \<^verbatim>\<open>external/\<close>.
\<close>

end
